(* ===== verification/Rust_Prelude.thy ===== *)
theory Rust_Prelude
  imports Main "HOL-Library.Word" "HOL-Library.Monad_Syntax"
begin

section \<open>Rust integers, results and runs\<close>

text \<open>
  What every component of the node shares: the machine integers of the source as words,
  the saturating and widening operations the source calls on them, \<open>Result\<close> values, and the
  two generic interfaces (a machine with an invariant, and a simulation between two machines)
  that the component theories interpret.

  The workspace's release profile does not switch overflow checks on, so \<open>+\<close>, \<open>-\<close>, \<open>*\<close>
  and \<open>sum\<close> on \<open>u64\<close> wrap around: they are the operations of \<open>64 word\<close>. A shift amount is
  taken modulo the width. A division by zero panics in every profile, so a division whose
  divisor may be zero is an \<open>option\<close> value, with \<open>None\<close> for the panic.
\<close>

type_synonym u8 = "8 word"
type_synonym u16 = "16 word"
type_synonym u32 = "32 word"
type_synonym u64 = "64 word"
type_synonym u128 = "128 word"

named_theorems rust_arith \<open>values of the machine operations as natural numbers\<close>

subsection \<open>Result values\<close>

abbreviation Ok :: "'a \<Rightarrow> 'e + 'a" where
  "Ok \<equiv> Inr"

abbreviation Err :: "'e \<Rightarrow> 'e + 'a" where
  "Err \<equiv> Inl"

definition is_ok :: "'e + 'a \<Rightarrow> bool" where
  "is_ok r = (case r of Inl _ \<Rightarrow> False | Inr _ \<Rightarrow> True)"

lemma is_ok_simps [simp]: "is_ok (Ok x)" "\<not> is_ok (Err e)"
  by (simp_all add: is_ok_def)

lemma is_okE: "is_ok r \<Longrightarrow> (\<And>x. r = Ok x \<Longrightarrow> P) \<Longrightarrow> P"
  by (cases r) auto

text \<open>\<open>r?\<close>: an error returns early, a value goes on.\<close>

definition and_then :: "'e + 'a \<Rightarrow> ('a \<Rightarrow> 'e + 'b) \<Rightarrow> 'e + 'b" where
  "and_then r f = (case r of Inl x \<Rightarrow> Inl x | Inr y \<Rightarrow> f y)"

text \<open>\<open>if c { return Err(x); }\<close>\<close>

definition fail_if :: "bool \<Rightarrow> 'e \<Rightarrow> 'e + unit" where
  "fail_if c x = (if c then Err x else Ok ())"

text \<open>\<open>slice::get\<close>.\<close>

definition nth_opt :: "'a list \<Rightarrow> nat \<Rightarrow> 'a option" where
  "nth_opt xs i = (if i < length xs then Some (xs ! i) else None)"

lemma and_then_simps [simp]: "and_then (Ok y) f = f y" "and_then (Err x) f = Err x"
  by (simp_all add: and_then_def)

lemma and_then_Ok_iff: "and_then r f = Ok z \<longleftrightarrow> (\<exists>y. r = Ok y \<and> f y = Ok z)"
  by (cases r) simp_all

lemma fail_if_simps [simp]:
  "fail_if c x = Ok u \<longleftrightarrow> \<not> c" "fail_if c x = Err y \<longleftrightarrow> c \<and> y = x"
  "fail_if True x = Err x" "fail_if False x = Ok ()"
  by (auto simp: fail_if_def)

text \<open>The state after an operation that leaves it unchanged when it fails.\<close>

definition ok_or :: "'s \<Rightarrow> 'e + 's \<Rightarrow> 's" where
  "ok_or s r = (case r of Ok s' \<Rightarrow> s' | Err _ \<Rightarrow> s)"

lemma ok_or_simps [simp]: "ok_or s (Ok s') = s'" "ok_or s (Err e) = s"
  by (simp_all add: ok_or_def)

subsection \<open>Saturating and widening arithmetic\<close>

definition saturating_add :: "'a::len word \<Rightarrow> 'a word \<Rightarrow> 'a word" where
  "saturating_add a b = (if unat a + unat b < 2 ^ LENGTH('a) then a + b else - 1)"

definition saturating_sub :: "'a::len word \<Rightarrow> 'a word \<Rightarrow> 'a word" where
  "saturating_sub a b = (if b \<le> a then a - b else 0)"

text \<open>\<open>(a as u128 * b / c) as u64\<close>, with \<open>b\<close> and \<open>c\<close> already widened.\<close>

definition mul_div :: "u64 \<Rightarrow> u128 \<Rightarrow> u128 \<Rightarrow> u64" where
  "mul_div a b c = ucast ((ucast a * b) div c)"

text \<open>\<open>a >> n\<close> with the amount masked to the width, as a release build does.\<close>

definition shift_right :: "u64 \<Rightarrow> u32 \<Rightarrow> u64" where
  "shift_right a n = drop_bit (unat n mod 64) a"

text \<open>\<open>a / b\<close>, which panics on a zero divisor.\<close>

definition div_u64 :: "u64 \<Rightarrow> u64 \<Rightarrow> u64 option" where
  "div_u64 a b = (if b = 0 then None else Some (a div b))"

lemma unat_less_power: "unat (a :: 'a::len word) < 2 ^ LENGTH('a)"
  by (rule unsigned_less)

lemma unat_of_nat_small: "n < 2 ^ LENGTH('a) \<Longrightarrow> unat (of_nat n :: 'a::len word) = n"
  by (simp add: unsigned_of_nat take_bit_nat_eq_self)

lemma of_nat_inj_small:
  assumes "n < 2 ^ LENGTH('a)" and "m < 2 ^ LENGTH('a)" and "(of_nat n :: 'a::len word) = of_nat m"
  shows "n = m"
  using arg_cong [OF assms(3), of unat]
  unfolding unat_of_nat_small [OF assms(1)] unat_of_nat_small [OF assms(2)] .

lemma unat_saturating_add [rust_arith]:
  "unat (saturating_add a b) = min (unat a + unat b) (2 ^ LENGTH('a) - 1)"
  for a b :: "'a::len word"
proof -
  have "unat (- 1 :: 'a word) = 2 ^ LENGTH('a) - 1"
    by (simp add: unsigned_minus_1_eq_mask mask_eq_exp_minus_1)
  then show ?thesis
    by (auto simp: saturating_add_def unat_word_ariths min_def)
qed

lemma unat_saturating_sub [rust_arith]: "unat (saturating_sub a b) = unat a - unat b"
  for a b :: "'a::len word"
  by (simp add: saturating_sub_def unat_sub word_le_nat_alt)

lemma saturating_sub_le: "saturating_sub a b \<le> a"
  for a b :: "'a::len word"
  by (simp add: word_le_nat_alt unat_saturating_sub)

lemma saturating_sub_self [simp]: "saturating_sub a a = 0"
  for a :: "'a::len word"
  by (simp add: saturating_sub_def)

lemma saturating_sub_exact: "b \<le> a \<Longrightarrow> saturating_sub a b = a - b"
  for a b :: "'a::len word"
  by (simp add: saturating_sub_def)

lemma saturating_sub_zero [simp]: "saturating_sub a 0 = a"
  for a :: "'a::len word"
  by (simp add: saturating_sub_def)

lemma saturating_add_exact:
  "unat a + unat b < 2 ^ LENGTH('a) \<Longrightarrow> saturating_add a b = a + b"
  for a b :: "'a::len word"
  by (simp add: saturating_add_def)

lemma unat_add_exact:
  "unat a + unat b < 2 ^ LENGTH('a) \<Longrightarrow> unat (a + b) = unat a + unat b"
  for a b :: "'a::len word"
  by (simp add: unat_word_ariths)

lemma unat_add_one: "a + 1 \<noteq> 0 \<Longrightarrow> unat (a + 1) = unat a + 1"
  for a :: "'a::len word"
proof (cases "unat a + 1 < 2 ^ LENGTH('a)")
  case False
  then have "unat a + 1 = 2 ^ LENGTH('a)" using unat_less_power [of a] by linarith
  then have "unat (a + 1) = 0" by (simp add: unat_word_ariths)
  moreover assume "a + 1 \<noteq> 0"
  ultimately show ?thesis by (simp add: unat_eq_0)
qed (simp add: unat_word_ariths)

lemma unat_sub_exact: "unat b \<le> unat a \<Longrightarrow> unat (a - b) = unat a - unat b"
  for a b :: "'a::len word"
  by (simp add: unat_sub word_le_nat_alt)

lemma unat_ucast_128 [rust_arith]: "unat (ucast (a :: u64) :: u128) = unat a"
  by (simp add: unsigned_ucast_eq take_bit_nat_eq_self_iff order.strict_trans [OF unat_less_power])

lemma unat_ucast_small_128:
  "unat (ucast (a :: u16) :: u128) = unat a" "unat (ucast (b :: u8) :: u128) = unat b"
  by (simp_all add: unsigned_ucast_eq take_bit_nat_eq_self_iff order.strict_trans [OF unat_less_power])

lemma unat_mul_div:
  assumes "unat b < 2 ^ 64"
  shows "unat (mul_div a b c) = (unat a * unat b div unat c) mod 2 ^ 64"
proof -
  have "unat a * unat b < 2 ^ 64 * 2 ^ 64"
    using unat_less_power [of a] assms by (intro mult_strict_mono) simp_all
  then have "unat (ucast a * b :: u128) = unat a * unat b"
    by (simp add: unat_word_ariths unat_ucast_128)
  then show ?thesis
    by (simp add: mul_div_def unsigned_ucast_eq unat_div take_bit_eq_mod)
qed

lemma mult_div_le: "b \<le> c \<Longrightarrow> a * b div c \<le> (a :: nat)"
proof (cases "c = 0")
  case False
  assume "b \<le> c"
  then have "a * b div c \<le> a * c div c"
    by (intro div_le_mono mult_le_mono2)
  with False show ?thesis by simp
qed simp

lemma unat_mul_div_le [rust_arith]:
  assumes "unat b < 2 ^ 64" and "unat b \<le> unat c"
  shows "unat (mul_div a b c) = unat a * unat b div unat c"
proof -
  have "unat a * unat b div unat c \<le> unat a"
    using assms(2) by (rule mult_div_le)
  also have "\<dots> < 2 ^ 64" using unat_less_power [of a] by simp
  finally show ?thesis by (simp add: unat_mul_div [OF assms(1)])
qed

lemma mul_div_le:
  assumes "unat b < 2 ^ 64" and "unat b \<le> unat c"
  shows "mul_div a b c \<le> a"
  using mult_div_le [OF assms(2)] by (simp add: word_le_nat_alt unat_mul_div_le [OF assms])

lemma unat_shift_right [rust_arith]: "unat (shift_right a n) = unat a div 2 ^ (unat n mod 64)"
  unfolding shift_right_def unat_drop_bit_eq by (simp add: drop_bit_eq_div)

lemma shift_right_le: "shift_right a n \<le> a"
  by (simp add: word_le_nat_alt unat_shift_right)

lemma div_u64_Some [simp]: "div_u64 a b = Some q \<longleftrightarrow> b \<noteq> 0 \<and> q = a div b"
  by (auto simp: div_u64_def)

lemma div_u64_None [simp]: "div_u64 a b = None \<longleftrightarrow> b = 0"
  by (auto simp: div_u64_def)

subsection \<open>Sums of \<open>u64\<close> values: \<open>iter().sum()\<close> wraps\<close>

lemma unat_sum_list:
  "unat (sum_list xs) = sum_list (map unat xs) mod 2 ^ LENGTH('a)"
  for xs :: "'a::len word list"
  by (induction xs) (simp_all add: unat_word_ariths mod_simps)

lemma unat_sum_list_le: "unat (sum_list xs) \<le> sum_list (map unat xs)"
  for xs :: "'a::len word list"
  by (simp add: unat_sum_list)

lemma unat_sum_list_exact:
  "sum_list (map unat xs) < 2 ^ LENGTH('a) \<Longrightarrow> unat (sum_list xs) = sum_list (map unat xs)"
  for xs :: "'a::len word list"
  by (simp add: unat_sum_list)

text \<open>The parts of a proportional split never add up to more than the whole.\<close>

lemma sum_list_div_le: "sum_list (map (\<lambda>x. f x div c) xs) \<le> sum_list (map f xs) div (c :: nat)"
proof (induction xs)
  case (Cons x xs)
  have "f x div c + sum_list (map f xs) div c \<le> (f x + sum_list (map f xs)) div c"
  proof (cases "c = 0")
    case False
    then show ?thesis
      by (simp add: less_eq_div_iff_mult_less_eq algebra_simps add_mono)
  qed simp
  with Cons show ?case by simp
qed simp

lemma proportional_split_le:
  fixes total :: nat
  assumes "sum_list (map w xs) \<le> total"
  shows "sum_list (map (\<lambda>x. amount * w x div total) xs) \<le> amount"
proof -
  have "sum_list (map (\<lambda>x. amount * w x div total) xs)
      \<le> sum_list (map (\<lambda>x. amount * w x) xs) div total"
    by (rule sum_list_div_le)
  also have "sum_list (map (\<lambda>x. amount * w x) xs) = amount * sum_list (map w xs)"
    by (simp add: sum_list_const_mult)
  also have "amount * sum_list (map w xs) div total \<le> amount"
    using assms by (rule mult_div_le)
  finally show ?thesis .
qed

subsection \<open>Greatest elements\<close>

text \<open>\<open>Iterator::max_by_key\<close> returns the last of several greatest elements.\<close>

definition max_by_key :: "('a \<Rightarrow> 'b :: linorder) \<Rightarrow> 'a list \<Rightarrow> 'a option" where
  "max_by_key f xs = (case xs of [] \<Rightarrow> None | x # rest \<Rightarrow> Some (foldl (\<lambda>best y. if f best \<le> f y then y else best) x rest))"

lemma max_by_key_greatest:
  assumes "max_by_key f xs = Some m"
  shows "m \<in> set xs \<and> (\<forall>x \<in> set xs. f x \<le> f m)"
proof -
  have "foldl (\<lambda>best y. if f best \<le> f y then y else best) x ys \<in> insert x (set ys)
      \<and> (\<forall>z \<in> insert x (set ys). f z \<le> f (foldl (\<lambda>best y. if f best \<le> f y then y else best) x ys))" for x ys
  proof (induction ys arbitrary: x)
    case (Cons y ys)
    show ?case using Cons [of "if f x \<le> f y then y else x"] by (auto intro: order_trans)
  qed simp
  then show ?thesis using assms by (cases xs) (auto simp: max_by_key_def)
qed

lemma max_by_key_none [simp]: "max_by_key f xs = None \<longleftrightarrow> xs = []"
  by (simp add: max_by_key_def split: list.split)

subsection \<open>Machines with an invariant\<close>

text \<open>
  A component is a step function over its operations; a run is a sequence of operations. The
  interface asks for an invariant of the start state that every operation keeps, and gives it
  for every run and every reachable state.
\<close>

definition run :: "('s \<Rightarrow> 'op \<Rightarrow> 's) \<Rightarrow> 's \<Rightarrow> 'op list \<Rightarrow> 's" where
  "run step s ops = foldl step s ops"

lemma run_simps [simp]:
  "run step s [] = s"
  "run step s (x # xs) = run step (step s x) xs"
  "run step s (xs @ ys) = run step (run step s xs) ys"
  by (simp_all add: run_def)

inductive reachable :: "('s \<Rightarrow> 'op \<Rightarrow> 's) \<Rightarrow> 's \<Rightarrow> 's \<Rightarrow> bool" for step and init where
  start: "reachable step init init"
| step: "reachable step init s \<Longrightarrow> reachable step init (step s x)"

lemma reachable_run: "reachable step init (run step init xs)"
proof (induction xs rule: rev_induct)
  case Nil
  show ?case by (simp add: reachable.start)
next
  case (snoc x xs)
  then show ?case by (simp add: reachable.step)
qed

lemma reachable_iff_run: "reachable step init s \<longleftrightarrow> (\<exists>xs. s = run step init xs)"
proof
  assume "reachable step init s"
  then show "\<exists>xs. s = run step init xs"
  proof (induction rule: reachable.induct)
    case start
    show ?case by (rule exI [of _ "[]"]) simp
  next
    case (step s x)
    then obtain xs where "s = run step init xs" by blast
    then have "step s x = run step init (xs @ [x])" by simp
    then show ?case by blast
  qed
qed (auto simp: reachable_run)

locale machine =
  fixes init :: "'s" and step :: "'s \<Rightarrow> 'op \<Rightarrow> 's" and inv :: "'s \<Rightarrow> bool"
  assumes inv_init: "inv init"
    and inv_step: "inv s \<Longrightarrow> inv (step s x)"
begin

lemma inv_run: "inv s \<Longrightarrow> inv (run step s xs)"
  by (induction xs arbitrary: s) (simp_all add: inv_step)

lemma inv_reachable: "reachable step init s \<Longrightarrow> inv s"
  by (induction rule: reachable.induct) (simp_all add: inv_init inv_step)

end

text \<open>
  A simulation: under the invariant, the abstraction of a concrete step is the abstract step,
  so the abstraction of a run is the abstract run.
\<close>

locale simulation = machine init step inv
  for init :: "'s" and step :: "'s \<Rightarrow> 'op \<Rightarrow> 's" and inv :: "'s \<Rightarrow> bool" +
  fixes abs :: "'s \<Rightarrow> 'a" and astep :: "'a \<Rightarrow> 'op \<Rightarrow> 'a"
  assumes abs_step: "inv s \<Longrightarrow> abs (step s x) = astep (abs s) x"
begin

lemma abs_run: "inv s \<Longrightarrow> abs (run step s xs) = run astep (abs s) xs"
  by (induction xs arbitrary: s) (simp_all add: abs_step inv_step)

end

end
