(* ===== verification/Byte_Encoding.thy ===== *)
theory Byte_Encoding
  imports Rust_Prelude "HOL-Library.List_Lexorder"
begin

section \<open>Byte arrays\<close>

text \<open>
  \<open>to_le_bytes\<close>, \<open>to_be_bytes\<close> and their inverses on the integers of the source, and the two
  facts the block types rest on: an encoding of fixed width is injective, and the derived
  (lexicographic) order on byte arrays of one length is the order of the numbers they spell in
  big-endian notation.
\<close>

fun le_bytes :: "nat \<Rightarrow> nat \<Rightarrow> u8 list" where
  "le_bytes 0 n = []"
| "le_bytes (Suc k) n = of_nat n # le_bytes k (n div 256)"

fun le_value :: "u8 list \<Rightarrow> nat" where
  "le_value [] = 0"
| "le_value (b # bs) = unat b + 256 * le_value bs"

definition be_bytes :: "nat \<Rightarrow> nat \<Rightarrow> u8 list" where
  "be_bytes k n = rev (le_bytes k n)"

definition be_value :: "u8 list \<Rightarrow> nat" where
  "be_value bs = le_value (rev bs)"

definition u32_to_le_bytes :: "u32 \<Rightarrow> u8 list" where
  "u32_to_le_bytes x = le_bytes 4 (unat x)"

definition u64_to_le_bytes :: "u64 \<Rightarrow> u8 list" where
  "u64_to_le_bytes x = le_bytes 8 (unat x)"

definition u64_to_be_bytes :: "u64 \<Rightarrow> u8 list" where
  "u64_to_be_bytes x = be_bytes 8 (unat x)"

definition u32_to_be_bytes :: "u32 \<Rightarrow> u8 list" where
  "u32_to_be_bytes x = be_bytes 4 (unat x)"

definition u32_from_le_bytes :: "u8 list \<Rightarrow> u32" where
  "u32_from_le_bytes bs = of_nat (le_value bs)"

definition u64_from_le_bytes :: "u8 list \<Rightarrow> u64" where
  "u64_from_le_bytes bs = of_nat (le_value bs)"

text \<open>A byte string literal.\<close>

definition ascii_bytes :: "string \<Rightarrow> u8 list" where
  "ascii_bytes s = map (\<lambda>c. of_nat (of_char c)) s"

text \<open>\<open>str::contains\<close>\<close>

definition str_contains :: "string \<Rightarrow> string \<Rightarrow> bool" where
  "str_contains hay needle = list_ex (\<lambda>n. take (length needle) (drop n hay) = needle) [0..<Suc (length hay)]"

text \<open>\<open>let mut a = [0u8; n]; let len = s.len().min(n); a[..len].copy_from_slice(&s[..len])\<close>\<close>

definition copy_padded :: "nat \<Rightarrow> u8 list \<Rightarrow> u8 list" where
  "copy_padded n s = take n s @ replicate (n - length s) 0"

lemma le_bytes_numeral:
  "le_bytes (numeral k) n = of_nat n # le_bytes (pred_numeral k) (n div 256)"
  by (simp only: numeral_eq_Suc [of k] le_bytes.simps)

lemma length_le_bytes [simp]: "length (le_bytes k n) = k"
  by (induction k n rule: le_bytes.induct) simp_all

lemma length_be_bytes [simp]: "length (be_bytes k n) = k"
  by (simp add: be_bytes_def)

lemma length_int_bytes [simp]:
  "length (u32_to_le_bytes x) = 4" "length (u64_to_le_bytes y) = 8" "length (u64_to_be_bytes y) = 8"
  by (simp_all add: u32_to_le_bytes_def u64_to_le_bytes_def u64_to_be_bytes_def)

lemma length_copy_padded [simp]: "length (copy_padded n s) = n"
  by (simp add: copy_padded_def)

lemma copy_padded_exact [simp]: "length s = n \<Longrightarrow> copy_padded n s = s"
  by (simp add: copy_padded_def)

lemma le_value_le_bytes: "le_value (le_bytes k n) = n mod 256 ^ k"
proof (induction k n rule: le_bytes.induct)
  case (2 k n)
  have "n mod 256 ^ Suc k = n mod 256 + 256 * (n div 256 mod 256 ^ k)"
    by (simp add: mod_mult2_eq)
  with 2 show ?case by (simp add: unat_of_nat)
qed simp

lemma le_value_less: "le_value bs < 256 ^ length bs"
proof (induction bs)
  case (Cons b bs)
  have "unat b < 256" using unat_less_power [of b] by simp
  moreover have "256 * le_value bs + 256 \<le> 256 * 256 ^ length bs"
    using Cons by simp
  ultimately show ?case by simp
qed simp

lemma be_value_less: "be_value bs < 256 ^ length bs"
  using le_value_less [of "rev bs"] by (simp add: be_value_def)

lemma be_value_be_bytes: "be_value (be_bytes k n) = n mod 256 ^ k"
  by (simp add: be_value_def be_bytes_def le_value_le_bytes)

lemma le_value_append: "le_value (xs @ ys) = le_value xs + 256 ^ length xs * le_value ys"
  by (induction xs) (simp_all add: algebra_simps)

lemma be_value_Cons: "be_value (b # bs) = unat b * 256 ^ length bs + be_value bs"
  by (simp add: be_value_def le_value_append algebra_simps)

lemma u32_round_trip [simp]: "u32_from_le_bytes (u32_to_le_bytes x) = x"
proof -
  have "unat x < 2 ^ 32" using unat_less_power [of x] by simp
  then show ?thesis
    by (simp add: u32_from_le_bytes_def u32_to_le_bytes_def le_value_le_bytes)
qed

lemma u64_round_trip [simp]: "u64_from_le_bytes (u64_to_le_bytes x) = x"
proof -
  have "unat x < 2 ^ 64" using unat_less_power [of x] by simp
  then show ?thesis
    by (simp add: u64_from_le_bytes_def u64_to_le_bytes_def le_value_le_bytes)
qed

lemma le_bytes_le_value: "le_bytes (length bs) (le_value bs) = bs"
proof (induction bs)
  case (Cons b bs)
  have "unat b < 256" using unat_less_power [of b] by simp
  moreover have "(of_nat (unat b + 256 * le_value bs) :: u8) = b"
  proof -
    have zero: "(256 :: u8) = 0" by simp
    have "(of_nat (unat b + 256 * le_value bs) :: u8) = b + 256 * of_nat (le_value bs)"
      by simp
    then show ?thesis by (simp only: zero mult_zero_left add_0_right)
  qed
  ultimately show ?case
    using Cons by (simp only: list.size le_value.simps le_bytes.simps add_0 add_Suc add_0_right) simp
qed simp

lemma u32_to_from_le_bytes: "length bs = 4 \<Longrightarrow> u32_to_le_bytes (u32_from_le_bytes bs) = bs"
proof -
  assume len: "length bs = 4"
  then have "le_value bs < 2 ^ 32" using le_value_less [of bs] by simp
  then have "unat (u32_from_le_bytes bs) = le_value bs"
    by (simp add: u32_from_le_bytes_def unat_of_nat)
  then show ?thesis
    using le_bytes_le_value [of bs] len by (simp add: u32_to_le_bytes_def)
qed

lemma le_bytes_inject:
  assumes "le_bytes k m = le_bytes k n" and "m < 256 ^ k" and "n < 256 ^ k"
  shows "m = n"
  using arg_cong [OF assms(1), of le_value] assms(2,3) by (simp add: le_value_le_bytes)

lemma u32_to_le_bytes_inject [simp]: "u32_to_le_bytes x = u32_to_le_bytes y \<longleftrightarrow> x = y"
  using u32_round_trip by metis

lemma u64_to_le_bytes_inject [simp]: "u64_to_le_bytes x = u64_to_le_bytes y \<longleftrightarrow> x = y"
proof
  assume "u64_to_le_bytes x = u64_to_le_bytes y"
  then have "unat x = unat y"
    unfolding u64_to_le_bytes_def
    by (rule le_bytes_inject) (use unat_less_power [of x] unat_less_power [of y] in simp_all)
  then show "x = y" by (rule unsigned_word_eqI)
qed simp

lemma le_value_replicate_max: "le_value (replicate k 0xff) + 1 = 256 ^ k"
  by (induction k) simp_all

text \<open>On arrays of one length the lexicographic order is the big-endian order.\<close>

lemma be_value_less_iff: "length xs = length ys \<Longrightarrow> be_value xs < be_value ys \<longleftrightarrow> xs < ys"
proof (induction xs ys rule: list_induct2)
  case (Cons x xs y ys)
  have bounds: "be_value xs < 256 ^ length xs" "be_value ys < 256 ^ length xs"
    using be_value_less [of xs] be_value_less [of ys] Cons.hyps by simp_all
  have step: "u * 256 ^ length xs + be_value xs < v * 256 ^ length xs + be_value ys
      \<longleftrightarrow> u < v \<or> u = v \<and> be_value xs < be_value ys" for u v :: nat
  proof (cases u v rule: linorder_cases)
    case less
    then have "(u + 1) * 256 ^ length xs \<le> v * 256 ^ length xs"
      by (intro mult_le_mono1) simp
    with less bounds show ?thesis by simp
  next
    case greater
    then have "(v + 1) * 256 ^ length xs \<le> u * 256 ^ length xs"
      by (intro mult_le_mono1) simp
    with greater bounds show ?thesis by simp
  qed simp
  have "be_value (x # xs) < be_value (y # ys)
      \<longleftrightarrow> unat x < unat y \<or> unat x = unat y \<and> be_value xs < be_value ys"
    using step [of "unat x" "unat y"] Cons.hyps by (simp add: be_value_Cons)
  then show ?case
    using Cons.IH by (auto simp: word_less_nat_alt unsigned_word_eqI)
qed simp

lemma be_value_le_iff: "length xs = length ys \<Longrightarrow> be_value xs \<le> be_value ys \<longleftrightarrow> xs \<le> ys"
  using be_value_less_iff [of ys xs] by (simp add: not_less [symmetric])

subsection \<open>Strings with a length in front, and sequences of codes\<close>

lemma unat_lengths: "n < 2 ^ 32 \<Longrightarrow> m < 2 ^ 32 \<Longrightarrow> (of_nat n :: u32) = of_nat m \<Longrightarrow> n = m"
  by (rule of_nat_inj_small) simp_all

lemma length_prefixed:
  fixes xs ys :: "u8 list"
  assumes "length xs < 2 ^ 32" "length ys < 2 ^ 32"
    and "u32_to_le_bytes (of_nat (length xs)) @ xs @ r = u32_to_le_bytes (of_nat (length ys)) @ ys @ r'"
  shows "xs = ys \<and> r = r'"
proof -
  have "(of_nat (length xs) :: u32) = of_nat (length ys)" "xs @ r = ys @ r'"
    using assms(3) by (simp_all add: append_eq_append_conv)
  then have "length xs = length ys" using assms(1,2) unat_lengths by blast
  with \<open>xs @ r = ys @ r'\<close> show ?thesis by simp
qed

lemma concat_prefix_free:
  assumes "\<And>x y r r'. x \<in> A \<Longrightarrow> y \<in> A \<Longrightarrow> f x @ r = f y @ r' \<Longrightarrow> x = y \<and> r = r'"
  shows "length xs = length ys \<Longrightarrow> set xs \<subseteq> A \<Longrightarrow> set ys \<subseteq> A \<Longrightarrow>
    concat (map f xs) @ r = concat (map f ys) @ r' \<Longrightarrow> xs = ys \<and> r = r'"
proof (induction xs ys arbitrary: r r' rule: list_induct2)
  case (Cons x xs y ys)
  have "x = y \<and> concat (map f xs) @ r = concat (map f ys) @ r'"
    using Cons.prems by (intro assms) simp_all
  moreover from this have "xs = ys \<and> r = r'"
    using Cons.prems by (intro Cons.IH) simp_all
  ultimately show ?case by simp
qed simp

end
