(* ===== verification/Chain_Types.thy ===== *)
theory Chain_Types
  imports Byte_Encoding
begin

section \<open>Core types: hashes, outputs, transactions, headers, blocks\<close>

text \<open>
  \<open>pyrax-node/src/types/mod.rs\<close>. A fixed byte array is a constructor over a byte list, with the
  length as a well-formedness predicate where a statement needs it. Field names carry a prefix
  for their struct. The code the file calls but does not contain (the \<open>blake3\<close>, \<open>keccak256\<close>,
  \<open>sha256\<close> and \<open>ripemd160\<close> digests, \<open>bincode::serialize\<close> and the secp256k1 routines) is the
  record \<open>ext\<close> of parameters, which every definition that needs one of them takes as an argument.
\<close>

subsection \<open>Hashes and addresses\<close>

datatype h256 = H256 (h256_bytes: "u8 list")

datatype address = Address (address_bytes: "u8 list")

definition wf_h256 :: "h256 \<Rightarrow> bool" where
  "wf_h256 h = (length (h256_bytes h) = 32)"

definition wf_address :: "address \<Rightarrow> bool" where
  "wf_address a = (length (address_bytes a) = 20)"

definition h256_zero :: h256 where
  "h256_zero = H256 (replicate 32 0)"

definition h256_from_slice :: "u8 list \<Rightarrow> h256" where
  "h256_from_slice s = H256 (copy_padded 32 s)"

definition h256_is_zero :: "h256 \<Rightarrow> bool" where
  "h256_is_zero h = (h256_bytes h = replicate 32 0)"

definition address_zero :: address where
  "address_zero = Address (replicate 20 0)"

definition address_from_slice :: "u8 list \<Rightarrow> address" where
  "address_from_slice s = Address (copy_padded 20 s)"

text \<open>\<open>H256\<close> derives \<open>PartialOrd\<close> and \<open>Ord\<close>: the lexicographic order of its bytes.\<close>

instantiation h256 :: linorder
begin

definition less_eq_h256 :: "h256 \<Rightarrow> h256 \<Rightarrow> bool" where
  "less_eq_h256 a b = (h256_bytes a \<le> h256_bytes b)"

definition less_h256 :: "h256 \<Rightarrow> h256 \<Rightarrow> bool" where
  "less_h256 a b = (h256_bytes a < h256_bytes b)"

instance
  by standard (auto simp: less_eq_h256_def less_h256_def h256.expand)

end

lemma wf_h256_simps [simp]: "wf_h256 h256_zero" "wf_h256 (h256_from_slice s)"
  by (simp_all add: wf_h256_def h256_zero_def h256_from_slice_def)

lemma wf_address_simps [simp]: "wf_address address_zero" "wf_address (address_from_slice s)"
  by (simp_all add: wf_address_def address_zero_def address_from_slice_def)

lemma h256_from_slice_bytes: "wf_h256 h \<Longrightarrow> h256_from_slice (h256_bytes h) = h"
  by (simp add: h256_from_slice_def wf_h256_def)

text \<open>The order of two hashes is the order of the numbers they spell.\<close>

lemma h256_le_iff_value:
  "wf_h256 a \<Longrightarrow> wf_h256 b \<Longrightarrow> a \<le> b \<longleftrightarrow> be_value (h256_bytes a) \<le> be_value (h256_bytes b)"
  by (simp add: less_eq_h256_def wf_h256_def be_value_le_iff)

subsection \<open>Network identifiers and the chain tip\<close>

datatype NetworkId = NetworkId u32

definition NetworkId_MAINNET :: NetworkId where "NetworkId_MAINNET = NetworkId 79729"

definition NetworkId_TESTNET :: NetworkId where "NetworkId_TESTNET = NetworkId 797291"

definition NetworkId_DEVNET :: NetworkId where "NetworkId_DEVNET = NetworkId 797292"

fun NetworkId_name :: "NetworkId \<Rightarrow> string" where
  "NetworkId_name (NetworkId n) =
     (if n = 79729 then ''mainnet'' else if n = 797291 then ''testnet''
      else if n = 797292 then ''devnet'' else ''unknown'')"

record ChainTip =
  tip_height :: u64
  tip_hash :: h256
  tip_total_difficulty :: u64

definition ChainTip_default :: ChainTip where
  "ChainTip_default = \<lparr>tip_height = 0, tip_hash = h256_zero, tip_total_difficulty = 0\<rparr>"

subsection \<open>Outpoints\<close>

record OutPoint =
  op_txid :: h256
  op_vout :: u32

definition OutPoint_new :: "h256 \<Rightarrow> u32 \<Rightarrow> OutPoint" where
  "OutPoint_new t v = \<lparr>op_txid = t, op_vout = v\<rparr>"

definition OutPoint_coinbase :: OutPoint where
  "OutPoint_coinbase = \<lparr>op_txid = h256_zero, op_vout = - 1\<rparr>"

definition OutPoint_is_coinbase :: "OutPoint \<Rightarrow> bool" where
  "OutPoint_is_coinbase p = (op_txid p = h256_zero \<and> op_vout p = - 1)"

definition OutPoint_to_bytes :: "OutPoint \<Rightarrow> u8 list" where
  "OutPoint_to_bytes p = h256_bytes (op_txid p) @ u32_to_le_bytes (op_vout p)"

definition OutPoint_from_bytes :: "u8 list \<Rightarrow> OutPoint option" where
  "OutPoint_from_bytes bs =
     (if length bs < 36 then None
      else Some \<lparr>op_txid = H256 (take 32 bs),
                 op_vout = u32_from_le_bytes [bs ! 32, bs ! 33, bs ! 34, bs ! 35]\<rparr>)"

lemma OutPoint_is_coinbase_iff: "OutPoint_is_coinbase p \<longleftrightarrow> p = OutPoint_coinbase"
  by (auto simp: OutPoint_is_coinbase_def OutPoint_coinbase_def)

lemma OutPoint_new_inject [simp]: "OutPoint_new a b = OutPoint_new c d \<longleftrightarrow> a = c \<and> b = d"
  by (simp add: OutPoint_new_def)

lemma nth_four: "length xs = 4 \<Longrightarrow> [xs ! 0, xs ! 1, xs ! 2, xs ! 3] = xs"
  by (simp add: list_eq_iff_nth_eq less_Suc_eq numeral_eq_Suc)

lemma OutPoint_bytes_prefix:
  assumes "wf_h256 (op_txid p)"
  shows "OutPoint_from_bytes (OutPoint_to_bytes p @ rest) = Some p"
proof -
  let ?v = "u32_to_le_bytes (op_vout p)"
  let ?bs = "OutPoint_to_bytes p @ rest"
  have len: "length (h256_bytes (op_txid p)) = 32"
    using assms by (simp add: wf_h256_def)
  have "[?bs ! 32, ?bs ! 33, ?bs ! 34, ?bs ! 35] = [?v ! 0, ?v ! 1, ?v ! 2, ?v ! 3]"
    using len by (simp add: OutPoint_to_bytes_def nth_append)
  also have "\<dots> = ?v" by (rule nth_four) simp
  finally show ?thesis
    using len by (simp add: OutPoint_from_bytes_def OutPoint_to_bytes_def)
qed

lemma OutPoint_to_bytes_inject:
  assumes "wf_h256 (op_txid p)" and "wf_h256 (op_txid q)"
    and "OutPoint_to_bytes p = OutPoint_to_bytes q"
  shows "p = q"
  using OutPoint_bytes_prefix [OF assms(1), of "[]"] OutPoint_bytes_prefix [OF assms(2), of "[]"]
    assms(3) by simp

subsection \<open>Outputs and the P2PKH script\<close>

record TxOutput =
  out_value :: u64
  out_script :: "u8 list"

definition TxOutput_new :: "u64 \<Rightarrow> u8 list \<Rightarrow> TxOutput" where
  "TxOutput_new v s = \<lparr>out_value = v, out_script = s\<rparr>"

definition TxOutput_p2pkh :: "u64 \<Rightarrow> address \<Rightarrow> TxOutput" where
  "TxOutput_p2pkh v a =
     TxOutput_new v ([0x76, 0xa9, 0x14] @ address_bytes a @ [0x88, 0xac])"

definition is_p2pkh_script :: "u8 list \<Rightarrow> bool" where
  "is_p2pkh_script s =
     (length s = 25 \<and> s ! 0 = 0x76 \<and> s ! 1 = 0xa9 \<and> s ! 2 = 0x14 \<and> s ! 23 = 0x88 \<and> s ! 24 = 0xac)"

definition TxOutput_get_address :: "TxOutput \<Rightarrow> address option" where
  "TxOutput_get_address t =
     (if is_p2pkh_script (out_script t)
      then Some (address_from_slice (take 20 (drop 3 (out_script t)))) else None)"

lemma p2pkh_script_split:
  assumes "is_p2pkh_script s"
  shows "s = [0x76, 0xa9, 0x14] @ take 20 (drop 3 s) @ [0x88, 0xac]"
proof -
  have len: "length s = 25" using assms by (simp add: is_p2pkh_script_def)
  have head: "take 3 s = [s ! 0, s ! 1, s ! 2]"
    using len by (simp add: list_eq_iff_nth_eq less_Suc_eq numeral_eq_Suc)
  have tail: "drop 23 s = [s ! 23, s ! 24]"
    using len by (simp add: list_eq_iff_nth_eq less_Suc_eq numeral_eq_Suc)
  have "s = take 3 s @ take 20 (drop 3 s) @ drop 20 (drop 3 s)"
    by (simp del: drop_drop)
  then show ?thesis
    using assms head tail by (simp add: is_p2pkh_script_def)
qed

lemma is_p2pkh_script_p2pkh:
  "wf_address a \<Longrightarrow> is_p2pkh_script ([0x76, 0xa9, 0x14] @ address_bytes a @ [0x88, 0xac])"
  by (simp add: is_p2pkh_script_def wf_address_def nth_append nth_Cons')

subsection \<open>Inputs and transactions\<close>

record TxInput =
  in_previous_output :: OutPoint
  in_script_sig :: "u8 list"
  in_sequence :: u32

definition TxInput_new :: "OutPoint \<Rightarrow> u8 list \<Rightarrow> TxInput" where
  "TxInput_new p s = \<lparr>in_previous_output = p, in_script_sig = s, in_sequence = 0xFFFFFFFF\<rparr>"

definition TxInput_coinbase :: "u64 \<Rightarrow> u8 list \<Rightarrow> TxInput" where
  "TxInput_coinbase height extra =
     \<lparr>in_previous_output = OutPoint_coinbase, in_script_sig = u64_to_le_bytes height @ extra,
      in_sequence = 0xFFFFFFFF\<rparr>"

definition TxInput_is_coinbase :: "TxInput \<Rightarrow> bool" where
  "TxInput_is_coinbase i = OutPoint_is_coinbase (in_previous_output i)"

record Transaction =
  tx_version :: u32
  tx_inputs :: "TxInput list"
  tx_outputs :: "TxOutput list"
  tx_lock_time :: u32

definition Transaction_new :: "TxInput list \<Rightarrow> TxOutput list \<Rightarrow> Transaction" where
  "Transaction_new ins outs =
     \<lparr>tx_version = 1, tx_inputs = ins, tx_outputs = outs, tx_lock_time = 0\<rparr>"

text \<open>The extra data is the byte string \<open>b"PYRAX"\<close>.\<close>

definition Transaction_coinbase :: "u64 \<Rightarrow> u64 \<Rightarrow> address \<Rightarrow> Transaction" where
  "Transaction_coinbase height reward miner =
     \<lparr>tx_version = 1,
      tx_inputs = [TxInput_coinbase height [0x50, 0x59, 0x52, 0x41, 0x58]],
      tx_outputs = [TxOutput_p2pkh reward miner],
      tx_lock_time = 0\<rparr>"

definition Transaction_is_coinbase :: "Transaction \<Rightarrow> bool" where
  "Transaction_is_coinbase t =
     (case tx_inputs t of [i] \<Rightarrow> TxInput_is_coinbase i | _ \<Rightarrow> False)"

text \<open>\<open>iter().sum()\<close> on \<open>u64\<close>: it wraps around.\<close>

definition Transaction_total_output :: "Transaction \<Rightarrow> u64" where
  "Transaction_total_output t = sum_list (map out_value (tx_outputs t))"

lemma unat_total_output_exact:
  "sum_list (map (\<lambda>t. unat (out_value t)) (tx_outputs tx)) < 2 ^ 64 \<Longrightarrow>
    unat (Transaction_total_output tx) = sum_list (map (\<lambda>t. unat (out_value t)) (tx_outputs tx))"
  by (simp add: Transaction_total_output_def unat_sum_list comp_def)

subsection \<open>Stored outputs\<close>

record Utxo =
  utxo_output :: TxOutput
  utxo_height :: u64
  utxo_is_coinbase :: bool

definition Utxo_new :: "TxOutput \<Rightarrow> u64 \<Rightarrow> bool \<Rightarrow> Utxo" where
  "Utxo_new t h c = \<lparr>utxo_output = t, utxo_height = h, utxo_is_coinbase = c\<rparr>"

definition Utxo_is_mature :: "Utxo \<Rightarrow> u64 \<Rightarrow> bool" where
  "Utxo_is_mature u current_height =
     (if \<not> utxo_is_coinbase u then True else utxo_height u + 100 \<le> current_height)"

subsection \<open>Headers and blocks\<close>

record BlockHeader =
  hdr_version :: u32
  hdr_stream :: u8
  hdr_parent_hash :: h256
  hdr_merkle_root :: h256
  hdr_utxo_commitment :: h256
  hdr_timestamp :: u64
  hdr_difficulty :: u64
  hdr_nonce :: u64
  hdr_extra_nonce :: u64
  hdr_height :: u64
  hdr_beneficiary :: address

record Block =
  blk_header :: BlockHeader
  blk_transactions :: "Transaction list"

text \<open>The code outside the repository, as parameters.\<close>

record ext =
  ext_blake3 :: "u8 list \<Rightarrow> u8 list"
  ext_keccak256 :: "u8 list \<Rightarrow> u8 list"
  ext_sha256 :: "u8 list \<Rightarrow> u8 list"
  ext_ripemd160 :: "u8 list \<Rightarrow> u8 list"
  ext_bincode_tx :: "Transaction \<Rightarrow> u8 list option"
  ext_bincode_block :: "Block \<Rightarrow> u8 list option"
  ext_sig_from_slice :: "u8 list \<Rightarrow> u8 list option"
  ext_sig_from_der :: "u8 list \<Rightarrow> u8 list option"
  ext_key_from_sec1 :: "u8 list \<Rightarrow> u8 list option"
  ext_verify :: "u8 list \<Rightarrow> u8 list \<Rightarrow> u8 list \<Rightarrow> bool"

definition Address_from_pubkey_hash :: "ext \<Rightarrow> u8 list \<Rightarrow> address" where
  "Address_from_pubkey_hash e pubkey = Address (take 20 (drop 12 (ext_keccak256 e pubkey)))"

text \<open>\<open>bincode::serialize(self).unwrap_or_default()\<close>: a failed serialisation hashes the empty string.\<close>

definition Transaction_txid :: "ext \<Rightarrow> Transaction \<Rightarrow> h256" where
  "Transaction_txid e t =
     h256_from_slice (ext_blake3 e (case ext_bincode_tx e t of None \<Rightarrow> [] | Some b \<Rightarrow> b))"

definition BlockHeader_pow_input :: "BlockHeader \<Rightarrow> u8 list" where
  "BlockHeader_pow_input h =
     u32_to_le_bytes (hdr_version h) @ [hdr_stream h]
     @ h256_bytes (hdr_parent_hash h) @ h256_bytes (hdr_merkle_root h)
     @ h256_bytes (hdr_utxo_commitment h)
     @ u64_to_le_bytes (hdr_timestamp h) @ u64_to_le_bytes (hdr_difficulty h)
     @ u64_to_le_bytes (hdr_height h) @ address_bytes (hdr_beneficiary h)"

text \<open>The incremental hasher digests the concatenation of what it was fed.\<close>

definition BlockHeader_pow_hash :: "ext \<Rightarrow> BlockHeader \<Rightarrow> h256" where
  "BlockHeader_pow_hash e h =
     (let input = BlockHeader_pow_input h;
          fed = concat [input, u64_to_le_bytes (hdr_nonce h), u64_to_le_bytes (hdr_extra_nonce h)]
      in h256_from_slice (ext_blake3 e fed))"

definition BlockHeader_hash :: "ext \<Rightarrow> BlockHeader \<Rightarrow> h256" where
  "BlockHeader_hash e h =
     h256_from_slice (ext_blake3 e
       ((BlockHeader_pow_input h @ u64_to_le_bytes (hdr_nonce h)) @ u64_to_le_bytes (hdr_extra_nonce h)))"

text \<open>\<open>U256::MAX / U256::from(difficulty)\<close>, written out in big-endian order.\<close>

definition difficulty_to_target :: "u64 \<Rightarrow> h256" where
  "difficulty_to_target d =
     (if d = 0 then H256 (replicate 32 0xff)
      else H256 (be_bytes 32 (unat ((- 1 :: 256 word) div ucast d))))"

definition BlockHeader_target :: "BlockHeader \<Rightarrow> h256" where
  "BlockHeader_target h = difficulty_to_target (hdr_difficulty h)"

definition BlockHeader_verify_pow :: "ext \<Rightarrow> BlockHeader \<Rightarrow> bool" where
  "BlockHeader_verify_pow e h =
     (h256_bytes (BlockHeader_pow_hash e h) \<le> h256_bytes (BlockHeader_target h))"

definition Block_new :: "BlockHeader \<Rightarrow> Transaction list \<Rightarrow> Block" where
  "Block_new h ts = \<lparr>blk_header = h, blk_transactions = ts\<rparr>"

definition Block_hash :: "ext \<Rightarrow> Block \<Rightarrow> h256" where
  "Block_hash e b = BlockHeader_hash e (blk_header b)"

definition Block_height :: "Block \<Rightarrow> u64" where
  "Block_height b = hdr_height (blk_header b)"

subsection \<open>The merkle root\<close>

text \<open>One level: \<open>chunks(2)\<close> of a list of even length, each pair hashed together.\<close>

fun merkle_pairs :: "ext \<Rightarrow> h256 list \<Rightarrow> h256 list" where
  "merkle_pairs e (a # b # rest) =
     h256_from_slice (ext_blake3 e (h256_bytes a @ h256_bytes b)) # merkle_pairs e rest"
| "merkle_pairs e _ = []"

definition merkle_pad :: "h256 list \<Rightarrow> h256 list" where
  "merkle_pad hs = (if length hs mod 2 = 1 then hs @ [last hs] else hs)"

lemma length_merkle_pairs [simp]: "length (merkle_pairs e hs) = length hs div 2"
  by (induction e hs rule: merkle_pairs.induct) simp_all

lemma length_merkle_pad: "length (merkle_pad hs) = 2 * ((length hs + 1) div 2)"
  by (cases "even (length hs)") (auto simp: merkle_pad_def odd_iff_mod_2_eq_one [symmetric] elim!: evenE oddE)

function merkle_loop :: "ext \<Rightarrow> h256 list \<Rightarrow> h256 list" where
  "merkle_loop e hs =
     (if length hs > 1 then merkle_loop e (merkle_pairs e (merkle_pad hs)) else hs)"
  by pat_completeness auto
termination
  by (relation "measure (\<lambda>(e, hs). length hs)") (auto simp: length_merkle_pad)

declare merkle_loop.simps [simp del]

lemma merkle_loop_single: "merkle_loop e [h] = [h]"
  by (subst merkle_loop.simps) simp

lemma length_merkle_loop: "hs \<noteq> [] \<Longrightarrow> length (merkle_loop e hs) = 1"
proof (induction e hs rule: merkle_loop.induct)
  case (1 e hs)
  show ?case
  proof (cases "length hs > 1")
    case True
    then have "merkle_pairs e (merkle_pad hs) \<noteq> []"
      by (simp add: length_0_conv [symmetric] length_merkle_pad del: length_0_conv)
    with True 1 show ?thesis by (simp add: merkle_loop.simps [of e hs])
  next
    case False
    with 1 show ?thesis by (subst merkle_loop.simps) (cases hs; simp)
  qed
qed

definition Block_compute_merkle_root :: "ext \<Rightarrow> Block \<Rightarrow> h256" where
  "Block_compute_merkle_root e b =
     (if blk_transactions b = [] then h256_zero
      else hd (merkle_loop e (map (Transaction_txid e) (blk_transactions b))))"

definition Block_verify_merkle :: "ext \<Rightarrow> Block \<Rightarrow> bool" where
  "Block_verify_merkle e b = (hdr_merkle_root (blk_header b) = Block_compute_merkle_root e b)"

lemma BlockHeader_hash_wf [simp]: "wf_h256 (BlockHeader_hash e h)" "wf_h256 (BlockHeader_pow_hash e h)"
  by (simp_all add: BlockHeader_hash_def BlockHeader_pow_hash_def Let_def)

lemma Transaction_txid_wf [simp]: "wf_h256 (Transaction_txid e t)"
  by (simp add: Transaction_txid_def)

subsection \<open>A concrete instance of the parameters\<close>

text \<open>
  Used to exhibit inputs: a digest that keeps the first 32 bytes of its input, and a transaction
  encoding that lists the spent outpoints and the output values.
\<close>

definition sample_digest :: "u8 list \<Rightarrow> u8 list" where
  "sample_digest bs = copy_padded 32 bs"

definition sample_bincode_tx :: "Transaction \<Rightarrow> u8 list option" where
  "sample_bincode_tx t =
     Some (u32_to_le_bytes (tx_version t)
       @ concat (map (\<lambda>o'. u64_to_le_bytes (out_value o')) (tx_outputs t))
       @ concat (map (\<lambda>i. OutPoint_to_bytes (in_previous_output i)) (tx_inputs t)))"

definition sample_ext :: ext where
  "sample_ext =
     \<lparr>ext_blake3 = sample_digest, ext_keccak256 = sample_digest, ext_sha256 = sample_digest,
      ext_ripemd160 = (\<lambda>bs. take 20 (sample_digest bs)),
      ext_bincode_tx = sample_bincode_tx, ext_bincode_block = (\<lambda>b. Some []),
      ext_sig_from_slice = Some, ext_sig_from_der = Some, ext_key_from_sec1 = Some,
      ext_verify = (\<lambda>k m s. True)\<rparr>"

definition sample_header :: BlockHeader where
  "sample_header =
     \<lparr>hdr_version = 1, hdr_stream = 0, hdr_parent_hash = h256_zero, hdr_merkle_root = h256_zero,
      hdr_utxo_commitment = h256_zero, hdr_timestamp = 1704067200, hdr_difficulty = 1,
      hdr_nonce = 0, hdr_extra_nonce = 0, hdr_height = 1, hdr_beneficiary = address_zero\<rparr>"

definition sample_tx :: "u64 \<Rightarrow> Transaction" where
  "sample_tx v = Transaction_new [TxInput_new (OutPoint_new h256_zero 0) []] [TxOutput_p2pkh v address_zero]"

subsection \<open>Properties\<close>

text \<open>
  Storing an outpoint under its key and reading the key back gives the outpoint: the key has
  36 bytes, and a byte string decodes to the outpoint exactly when it starts with its key.
\<close>

theorem outpoint_round_trip:
  assumes "wf_h256 (op_txid p)"
  shows "length (OutPoint_to_bytes p) = 36
    \<and> (OutPoint_from_bytes bs = Some p \<longleftrightarrow> take 36 bs = OutPoint_to_bytes p)"
proof (intro conjI iffI)
  show "length (OutPoint_to_bytes p) = 36"
    using assms by (simp add: OutPoint_to_bytes_def wf_h256_def)
next
  assume "take 36 bs = OutPoint_to_bytes p"
  then have "bs = OutPoint_to_bytes p @ drop 36 bs"
    by (metis append_take_drop_id)
  then show "OutPoint_from_bytes bs = Some p"
    using OutPoint_bytes_prefix [OF assms, of "drop 36 bs"] by simp
next
  assume dec: "OutPoint_from_bytes bs = Some p"
  then have len: "36 \<le> length bs" by (simp add: OutPoint_from_bytes_def split: if_splits)
  let ?v = "take 4 (drop 32 bs)"
  have four: "length ?v = 4" using len by simp
  have "[bs ! 32, bs ! 33, bs ! 34, bs ! 35] = ?v"
    using nth_four [OF four] len by simp
  then have "p = \<lparr>op_txid = H256 (take 32 bs), op_vout = u32_from_le_bytes ?v\<rparr>"
    using dec len by (simp add: OutPoint_from_bytes_def)
  moreover have "take 36 bs = take 32 bs @ ?v"
    using take_add [of 32 4 bs] by simp
  ultimately show "take 36 bs = OutPoint_to_bytes p"
    by (simp add: OutPoint_to_bytes_def u32_to_from_le_bytes [OF four])
qed

theorem outpoint_round_trip_witness:
  "wf_h256 (op_txid (OutPoint_new h256_zero 7))
    \<and> OutPoint_from_bytes (replicate 32 0 @ [7, 0, 0, 0, 9]) = Some (OutPoint_new h256_zero 7)"
proof -
  have wf: "wf_h256 (op_txid (OutPoint_new h256_zero 7))" by (simp add: OutPoint_new_def)
  have "take 36 (replicate 32 0 @ [7, 0, 0, 0, 9]) = OutPoint_to_bytes (OutPoint_new h256_zero 7)"
    by (simp add: OutPoint_to_bytes_def OutPoint_new_def h256_zero_def u32_to_le_bytes_def
        le_bytes_numeral)
  then show ?thesis
    using wf outpoint_round_trip [OF wf, of "replicate 32 0 @ [7, 0, 0, 0, 9]"] by blast
qed

text \<open>
  A pay-to-public-key-hash output gives its address back, and an output is attributed to an
  address exactly when its script is the pay-to-public-key-hash script of that address.
\<close>

theorem p2pkh_address_exact:
  assumes "wf_address a"
  shows "TxOutput_get_address t = Some a \<longleftrightarrow> out_script t = out_script (TxOutput_p2pkh v a)"
proof
  assume "TxOutput_get_address t = Some a"
  then have script: "is_p2pkh_script (out_script t)"
    and a: "a = address_from_slice (take 20 (drop 3 (out_script t)))"
    by (auto simp: TxOutput_get_address_def split: if_splits)
  have "length (take 20 (drop 3 (out_script t))) = 20"
    using script by (simp add: is_p2pkh_script_def)
  with a have "address_bytes a = take 20 (drop 3 (out_script t))"
    by (simp add: address_from_slice_def)
  then show "out_script t = out_script (TxOutput_p2pkh v a)"
    using p2pkh_script_split [OF script] by (simp add: TxOutput_p2pkh_def TxOutput_new_def)
next
  assume "out_script t = out_script (TxOutput_p2pkh v a)"
  then have s: "out_script t = [0x76, 0xa9, 0x14] @ address_bytes a @ [0x88, 0xac]"
    by (simp add: TxOutput_p2pkh_def TxOutput_new_def)
  then have "is_p2pkh_script (out_script t)"
    using is_p2pkh_script_p2pkh [OF assms] by simp
  moreover have "take 20 (drop 3 (out_script t)) = address_bytes a"
    using assms s by (simp add: wf_address_def)
  ultimately show "TxOutput_get_address t = Some a"
    using assms by (simp add: TxOutput_get_address_def address_from_slice_def wf_address_def)
qed

theorem p2pkh_address_exact_witness:
  "wf_address address_zero
    \<and> TxOutput_get_address (TxOutput_p2pkh 1000 address_zero) = Some address_zero"
  using p2pkh_address_exact [of address_zero "TxOutput_p2pkh 1000 address_zero" 1000] by simp

lemma difficulty_to_target_value:
  "be_value (h256_bytes (difficulty_to_target d))
    = (if d = 0 then 2 ^ 256 - 1 else (2 ^ 256 - 1) div unat d)"
proof (cases "d = 0")
  case True
  have "be_value (replicate 32 0xff) = 2 ^ 256 - 1"
    using le_value_replicate_max [of 32] by (simp add: be_value_def)
  with True show ?thesis by (simp add: difficulty_to_target_def)
next
  case False
  have "unat (ucast d :: 256 word) = unat d"
    by (simp add: unsigned_ucast_eq take_bit_nat_eq_self_iff order.strict_trans [OF unat_less_power])
  moreover have "unat (- 1 :: 256 word) = 2 ^ 256 - 1"
    by (simp add: unsigned_minus_1_eq_mask mask_eq_exp_minus_1)
  ultimately have "unat ((- 1 :: 256 word) div ucast d) = (2 ^ 256 - 1) div unat d"
    by (simp add: unat_div)
  moreover have "(2 ^ 256 - 1) div unat d < 256 ^ 32"
    by (rule le_less_trans [OF div_le_dividend]) simp
  ultimately show ?thesis
    using False by (simp add: difficulty_to_target_def be_value_be_bytes)
qed

lemma verify_pow_value:
  "BlockHeader_verify_pow e h \<longleftrightarrow>
    be_value (h256_bytes (BlockHeader_pow_hash e h))
      \<le> (if hdr_difficulty h = 0 then 2 ^ 256 - 1 else (2 ^ 256 - 1) div unat (hdr_difficulty h))"
proof -
  have "length (h256_bytes (BlockHeader_target h)) = 32"
    by (simp add: BlockHeader_target_def difficulty_to_target_def)
  then have "BlockHeader_verify_pow e h \<longleftrightarrow>
      be_value (h256_bytes (BlockHeader_pow_hash e h)) \<le> be_value (h256_bytes (BlockHeader_target h))"
    using BlockHeader_hash_wf(2) [of e h]
    by (simp add: BlockHeader_verify_pow_def be_value_le_iff wf_h256_def)
  then show ?thesis
    by (simp only: BlockHeader_target_def difficulty_to_target_value)
qed

text \<open>
  Proof of work: a header passes exactly when its hash, read as a big-endian number, is at most
  the largest 256-bit number divided by the difficulty (any hash passes at difficulty zero).
\<close>

theorem verify_pow_meets_target:
  "BlockHeader_verify_pow e h \<longleftrightarrow>
    be_value (h256_bytes (BlockHeader_pow_hash e h))
      \<le> (if hdr_difficulty h = 0 then 2 ^ 256 - 1 else (2 ^ 256 - 1) div unat (hdr_difficulty h))"
  by (rule verify_pow_value)

subsection \<open>What a hash binds\<close>

text \<open>
  No 32-byte digest is injective, so what a hash binds is relative to the byte strings that are
  actually fed to it: the assumption is that the digest separates those strings. \<open>merkle_inputs\<close>
  lists every string the computation of a merkle root hashes.
\<close>

definition header_preimage :: "BlockHeader \<Rightarrow> u8 list" where
  "header_preimage h =
     BlockHeader_pow_input h @ u64_to_le_bytes (hdr_nonce h) @ u64_to_le_bytes (hdr_extra_nonce h)"

fun pair_inputs :: "h256 list \<Rightarrow> u8 list list" where
  "pair_inputs (a # b # rest) = (h256_bytes a @ h256_bytes b) # pair_inputs rest"
| "pair_inputs _ = []"

function merkle_inputs :: "ext \<Rightarrow> h256 list \<Rightarrow> u8 list list" where
  "merkle_inputs e hs =
     (if length hs > 1
      then pair_inputs (merkle_pad hs) @ merkle_inputs e (merkle_pairs e (merkle_pad hs)) else [])"
  by pat_completeness auto
termination
  by (relation "measure (\<lambda>(e, hs). length hs)") (auto simp: length_merkle_pad)

declare merkle_inputs.simps [simp del]

definition block_inputs :: "ext \<Rightarrow> Block \<Rightarrow> u8 list list" where
  "block_inputs e b = merkle_inputs e (map (Transaction_txid e) (blk_transactions b))"

definition separates :: "ext \<Rightarrow> u8 list list \<Rightarrow> bool" where
  "separates e inputs =
     (\<forall>x \<in> set inputs. \<forall>y \<in> set inputs.
        h256_from_slice (ext_blake3 e x) = h256_from_slice (ext_blake3 e y) \<longrightarrow> x = y)"

definition wf_header :: "BlockHeader \<Rightarrow> bool" where
  "wf_header h =
     (wf_h256 (hdr_parent_hash h) \<and> wf_h256 (hdr_merkle_root h) \<and> wf_h256 (hdr_utxo_commitment h)
      \<and> wf_address (hdr_beneficiary h))"

lemma separatesD:
  "separates e inputs \<Longrightarrow> x \<in> set inputs \<Longrightarrow> y \<in> set inputs \<Longrightarrow>
    h256_from_slice (ext_blake3 e x) = h256_from_slice (ext_blake3 e y) \<Longrightarrow> x = y"
  by (auto simp: separates_def)

lemma separates_mono: "separates e inputs \<Longrightarrow> set inputs' \<subseteq> set inputs \<Longrightarrow> separates e inputs'"
  by (auto simp: separates_def subset_iff)

lemma header_preimage_inject:
  assumes "wf_header h" and "wf_header h'" and "header_preimage h = header_preimage h'"
  shows "h = h'"
  using assms
  by (cases h; cases h')
    (simp add: header_preimage_def BlockHeader_pow_input_def wf_header_def wf_h256_def wf_address_def
      append_eq_append_conv h256.expand address.expand)

lemma BlockHeader_hash_preimage:
  "BlockHeader_hash e h = h256_from_slice (ext_blake3 e (header_preimage h))"
  "BlockHeader_pow_hash e h = h256_from_slice (ext_blake3 e (header_preimage h))"
  by (simp_all add: BlockHeader_hash_def BlockHeader_pow_hash_def header_preimage_def Let_def)

lemma header_hash_inject:
  assumes "wf_header h" and "wf_header h'" and "separates e [header_preimage h, header_preimage h']"
    and "BlockHeader_hash e h = BlockHeader_hash e h'"
  shows "h = h'"
  using assms(1,2)
proof (rule header_preimage_inject)
  show "header_preimage h = header_preimage h'"
    using assms(4) by (intro separatesD [OF assms(3)]) (simp_all add: BlockHeader_hash_preimage)
qed

text \<open>
  The block hash is the proof-of-work hash, so the work covers the identity of the block; and two
  well-formed headers have the same hash only if they agree in every field, nonces included, as long
  as BLAKE3 separates the two encodings.
\<close>

theorem header_hash_binds:
  assumes "wf_header h" and "wf_header h'" and "separates e [header_preimage h, header_preimage h']"
  shows "BlockHeader_pow_hash e h = BlockHeader_hash e h
    \<and> (BlockHeader_hash e h = BlockHeader_hash e h' \<longleftrightarrow> h = h')"
  using header_hash_inject [OF assms] by (auto simp: BlockHeader_hash_preimage)

lemma merkle_pairs_bind:
  "separates e (pair_inputs xs @ pair_inputs ys) \<Longrightarrow> length xs = length ys \<Longrightarrow> even (length xs) \<Longrightarrow>
    \<forall>h\<in>set xs. wf_h256 h \<Longrightarrow> \<forall>h\<in>set ys. wf_h256 h \<Longrightarrow>
    merkle_pairs e xs = merkle_pairs e ys \<Longrightarrow> xs = ys"
proof (induction e xs arbitrary: ys rule: merkle_pairs.induct)
  case (1 e a b rest)
  then obtain c d rest' where ys: "ys = c # d # rest'"
    by (metis Suc_length_conv)
  have "h256_bytes a @ h256_bytes b = h256_bytes c @ h256_bytes d"
    using "1.prems" ys by (intro separatesD [OF "1.prems"(1)]) simp_all
  then have "a = c \<and> b = d"
    using "1.prems"(4,5) ys by (simp add: wf_h256_def h256.expand)
  moreover have "separates e (pair_inputs rest @ pair_inputs rest')"
    using "1.prems"(1) by (rule separates_mono) (auto simp: ys)
  then have "rest = rest'"
    using "1.IH" "1.prems" ys by simp
  ultimately show ?case by (simp add: ys)
qed (auto simp: length_Suc_conv)

lemma merkle_pad_inject: "length xs = length ys \<Longrightarrow> merkle_pad xs = merkle_pad ys \<Longrightarrow> xs = ys"
  by (simp add: merkle_pad_def split: if_splits)

lemma set_merkle_pad: "set (merkle_pad hs) = set hs"
  by (cases hs) (auto simp: merkle_pad_def)

lemma merkle_pairs_wf: "h \<in> set (merkle_pairs e hs) \<Longrightarrow> wf_h256 h"
  by (induction e hs rule: merkle_pairs.induct) auto

lemma merkle_loop_bind:
  "separates e (merkle_inputs e xs @ merkle_inputs e ys) \<Longrightarrow> length xs = length ys \<Longrightarrow>
    \<forall>h\<in>set xs. wf_h256 h \<Longrightarrow> \<forall>h\<in>set ys. wf_h256 h \<Longrightarrow>
    merkle_loop e xs = merkle_loop e ys \<Longrightarrow> xs = ys"
proof (induction e xs arbitrary: ys rule: merkle_loop.induct)
  case (1 e xs)
  show ?case
  proof (cases "length xs > 1")
    case True
    let ?px = "merkle_pairs e (merkle_pad xs)" and ?py = "merkle_pairs e (merkle_pad ys)"
    have ins: "merkle_inputs e xs = pair_inputs (merkle_pad xs) @ merkle_inputs e ?px"
      "merkle_inputs e ys = pair_inputs (merkle_pad ys) @ merkle_inputs e ?py"
      using True "1.prems"(2) by (simp_all add: merkle_inputs.simps [of e xs] merkle_inputs.simps [of e ys])
    have sep: "separates e (merkle_inputs e ?px @ merkle_inputs e ?py)"
      "separates e (pair_inputs (merkle_pad xs) @ pair_inputs (merkle_pad ys))"
      using "1.prems"(1) by (rule separates_mono, auto simp: ins)+
    have "merkle_loop e ?px = merkle_loop e ?py"
      using "1.prems" True by (simp add: merkle_loop.simps [of e xs] merkle_loop.simps [of e ys])
    with "1.IH" [OF True sep(1)] "1.prems"(2) have "?px = ?py"
      by (simp add: merkle_pairs_wf length_merkle_pad)
    then have "merkle_pad xs = merkle_pad ys"
      using "1.prems" merkle_pairs_bind [OF sep(2)] by (simp add: length_merkle_pad set_merkle_pad)
    then show ?thesis using "1.prems"(2) by (rule merkle_pad_inject [rotated])
  next
    case False
    with "1.prems" show ?thesis by (simp add: merkle_loop.simps [of e xs] merkle_loop.simps [of e ys])
  qed
qed

text \<open>
  The merkle root binds the transactions: two blocks with the same number of transactions and the
  same computed root list the same transaction ids in the same order, as long as BLAKE3 separates
  the inner nodes of the two trees.
\<close>

theorem merkle_root_binds:
  assumes "length (blk_transactions b) = length (blk_transactions b')"
    and "Block_compute_merkle_root e b = Block_compute_merkle_root e b'"
    and "separates e (block_inputs e b @ block_inputs e b')"
  shows "map (Transaction_txid e) (blk_transactions b) = map (Transaction_txid e) (blk_transactions b')"
proof (cases "blk_transactions b = []")
  case False
  let ?xs = "map (Transaction_txid e) (blk_transactions b)"
  let ?ys = "map (Transaction_txid e) (blk_transactions b')"
  have ne: "?xs \<noteq> []" "?ys \<noteq> []" using False assms(1) by auto
  have "hd (merkle_loop e ?xs) = hd (merkle_loop e ?ys)"
    using assms False by (simp add: Block_compute_merkle_root_def) (metis length_0_conv)
  then have "merkle_loop e ?xs = merkle_loop e ?ys"
    using length_merkle_loop [OF ne(1), of e] length_merkle_loop [OF ne(2), of e]
    by (auto simp: length_Suc_conv)
  then show ?thesis
    using assms(1,3) by (intro merkle_loop_bind [of e ?xs ?ys]) (auto simp: block_inputs_def)
qed (use assms in auto)

lemma sample_header_preimages:
  "take 32 (header_preimage sample_header) \<noteq> take 32 (header_preimage (sample_header\<lparr>hdr_version := 2\<rparr>))"
  by (simp add: header_preimage_def BlockHeader_pow_input_def sample_header_def u32_to_le_bytes_def
      le_bytes_numeral)

theorem header_hash_binds_witness:
  "BlockHeader_hash sample_ext sample_header
    \<noteq> BlockHeader_hash sample_ext (sample_header\<lparr>hdr_version := 2\<rparr>)"
proof -
  let ?h = sample_header and ?h' = "sample_header\<lparr>hdr_version := 2\<rparr>"
  have wf: "wf_header ?h" "wf_header ?h'" by (simp_all add: wf_header_def sample_header_def)
  have "separates sample_ext [header_preimage ?h, header_preimage ?h']"
    using sample_header_preimages wf
    by (auto simp: separates_def sample_ext_def sample_digest_def h256_from_slice_def copy_padded_def
        header_preimage_def BlockHeader_pow_input_def wf_header_def wf_h256_def)
  then show ?thesis using header_hash_binds [OF wf, of sample_ext] by (simp add: sample_header_def)
qed

theorem merkle_root_binds_witness:
  "map (Transaction_txid sample_ext) (blk_transactions (Block_new sample_header [sample_tx 5, sample_tx 6]))
    = map (Transaction_txid sample_ext)
        (blk_transactions (Block_new (sample_header\<lparr>hdr_nonce := 1\<rparr>) [sample_tx 5, sample_tx 6]))"
proof (rule merkle_root_binds)
  show "separates sample_ext (block_inputs sample_ext (Block_new sample_header [sample_tx 5, sample_tx 6])
      @ block_inputs sample_ext (Block_new (sample_header\<lparr>hdr_nonce := 1\<rparr>) [sample_tx 5, sample_tx 6]))"
    by (simp add: separates_def block_inputs_def Block_new_def merkle_inputs.simps merkle_pad_def)
qed (simp_all add: Block_new_def Block_compute_merkle_root_def)

text \<open>
  The count matters: an odd list of two or more transactions and the list with its last
  transaction repeated have the same merkle root, whatever the digest, so the root alone does not
  determine how often the last transaction occurs.
\<close>

theorem merkle_root_duplicate_last:
  assumes "odd (length ts)" and "length ts > 1"
  shows "Block_compute_merkle_root e (Block_new h (ts @ [last ts]))
    = Block_compute_merkle_root e (Block_new h ts)"
proof -
  let ?hs = "map (Transaction_txid e) ts"
  have ne: "ts \<noteq> []" using assms(2) by auto
  have pad: "merkle_pad ?hs = ?hs @ [last ?hs]"
    using assms by (simp add: merkle_pad_def odd_iff_mod_2_eq_one)
  have even_pad: "merkle_pad (?hs @ [last ?hs]) = ?hs @ [last ?hs]"
    using assms by (simp add: merkle_pad_def)
  have "merkle_loop e (?hs @ [last ?hs]) = merkle_loop e (merkle_pairs e (?hs @ [last ?hs]))"
    using even_pad ne by (simp add: merkle_loop.simps [of e "?hs @ [last ?hs]"])
  also have "\<dots> = merkle_loop e ?hs"
    using pad assms(2) by (simp add: merkle_loop.simps [of e ?hs])
  finally show ?thesis
    using ne by (simp add: Block_compute_merkle_root_def Block_new_def last_map)
qed

theorem merkle_root_duplicate_last_witness:
  "Block_compute_merkle_root sample_ext
      (Block_new sample_header [sample_tx 1, sample_tx 2, sample_tx 3, sample_tx 3])
    = Block_compute_merkle_root sample_ext
        (Block_new sample_header [sample_tx 1, sample_tx 2, sample_tx 3])"
  using merkle_root_duplicate_last [of "[sample_tx 1, sample_tx 2, sample_tx 3]" sample_ext sample_header]
  by simp

end
