(* ===== verification/Hash_Map.thy ===== *)
theory Hash_Map
  imports Rust_Prelude "HOL-Library.AList"
begin

section \<open>Hash maps with an iteration order\<close>

text \<open>
  A \<open>HashMap\<close> of the source is an association list with distinct keys: \<open>get\<close>, \<open>insert\<close> and
  \<open>remove\<close> are functions of the keys, and the list order is the (unspecified) order in which
  \<open>iter\<close>, \<open>values\<close> and \<open>keys\<close> would visit the entries. Nothing proved about a component
  depends on which order that is. A \<open>HashSet\<close> is a set.

  The interface \<open>weighted_store\<close> is what the accounting proofs rest on: a map whose values have
  a weight, and how its total weight changes with an insertion and a removal. It is interpreted
  here once for every weight; the components name the instance for theirs.
\<close>

type_synonym ('k, 'v) hashmap = "('k \<times> 'v) list"

definition hm_get :: "('k, 'v) hashmap \<Rightarrow> 'k \<Rightarrow> 'v option" where
  "hm_get m k = map_of m k"

definition hm_insert :: "'k \<Rightarrow> 'v \<Rightarrow> ('k, 'v) hashmap \<Rightarrow> ('k, 'v) hashmap" where
  "hm_insert k v m = AList.update k v m"

definition hm_remove :: "'k \<Rightarrow> ('k, 'v) hashmap \<Rightarrow> ('k, 'v) hashmap" where
  "hm_remove k m = AList.delete k m"

definition hm_contains :: "('k, 'v) hashmap \<Rightarrow> 'k \<Rightarrow> bool" where
  "hm_contains m k = (hm_get m k \<noteq> None)"

definition hm_values :: "('k, 'v) hashmap \<Rightarrow> 'v list" where
  "hm_values m = map snd m"

definition hm_wf :: "('k, 'v) hashmap \<Rightarrow> bool" where
  "hm_wf m = distinct (map fst m)"

text \<open>\<open>if let Some(v) = m.get_mut(k) { f(v) }\<close>\<close>

definition hm_modify :: "'k \<Rightarrow> ('v \<Rightarrow> 'v) \<Rightarrow> ('k, 'v) hashmap \<Rightarrow> ('k, 'v) hashmap" where
  "hm_modify k f m = (case hm_get m k of None \<Rightarrow> m | Some v \<Rightarrow> hm_insert k (f v) m)"

lemma hm_get_empty [simp]: "hm_get [] k = None"
  by (simp add: hm_get_def)

lemma hm_get_insert [simp]: "hm_get (hm_insert k v m) k' = (if k' = k then Some v else hm_get m k')"
  by (simp add: hm_get_def hm_insert_def update_conv')

lemma hm_get_remove [simp]: "hm_get (hm_remove k m) k' = (if k' = k then None else hm_get m k')"
  by (simp add: hm_get_def hm_remove_def delete_conv')

lemma hm_get_modify [simp]:
  "hm_get (hm_modify k f m) k' = (if k' = k then map_option f (hm_get m k) else hm_get m k')"
  by (simp add: hm_modify_def split: option.split)

lemma hm_wf_simps [simp]:
  "hm_wf []"
  "hm_wf m \<Longrightarrow> hm_wf (hm_insert k v m)"
  "hm_wf m \<Longrightarrow> hm_wf (hm_remove k m)"
  "hm_wf m \<Longrightarrow> hm_wf (hm_modify k f m)"
  by (simp_all add: hm_wf_def hm_insert_def hm_remove_def hm_modify_def distinct_update
      distinct_delete split: option.split)

lemma hm_contains_simps [simp]:
  "\<not> hm_contains [] k"
  "hm_contains (hm_insert k v m) k' \<longleftrightarrow> k' = k \<or> hm_contains m k'"
  "hm_contains (hm_remove k m) k' \<longleftrightarrow> k' \<noteq> k \<and> hm_contains m k'"
  "hm_contains (hm_modify k f m) k' \<longleftrightarrow> hm_contains m k'"
  by (simp_all add: hm_contains_def)

lemma hm_containsD: "hm_get m k = Some v \<Longrightarrow> hm_contains m k"
  by (simp add: hm_contains_def)

lemma hm_mem_iff: "hm_wf m \<Longrightarrow> (k, v) \<in> set m \<longleftrightarrow> hm_get m k = Some v"
  by (simp add: hm_wf_def hm_get_def)

lemma hm_get_mem: "hm_get m k = Some v \<Longrightarrow> (k, v) \<in> set m"
  by (simp add: hm_get_def map_of_SomeD)

lemma hm_values_mem: "hm_get m k = Some v \<Longrightarrow> v \<in> set (hm_values m)"
  by (force simp: hm_values_def dest: hm_get_mem)

lemma hm_values_cases: "hm_wf m \<Longrightarrow> v \<in> set (hm_values m) \<Longrightarrow> \<exists>k. hm_get m k = Some v"
  by (force simp: hm_values_def hm_mem_iff)

lemma length_hm_insert:
  "length (hm_insert k v m) = (if hm_contains m k then length m else Suc (length m))"
  by (induction m) (auto simp: hm_insert_def hm_contains_def hm_get_def)

lemma length_hm_remove: "length (hm_remove k m) \<le> length m"
  by (simp add: hm_remove_def length_delete_le)

lemma hm_insert_absent: "hm_get m k = None \<Longrightarrow> hm_insert k v m = m @ [(k, v)]"
  by (induction m) (auto simp: hm_insert_def hm_get_def split: if_splits)

lemma set_hm_remove: "set (hm_remove k m) = {e \<in> set m. fst e \<noteq> k}"
  by (induction m) (auto simp: hm_remove_def)

lemma hm_remove_absent: "hm_get m k = None \<Longrightarrow> hm_remove k m = m"
  by (simp add: hm_remove_def hm_get_def delete_idem map_of_eq_None_iff)

subsection \<open>Weights\<close>

definition weight :: "('v \<Rightarrow> nat) \<Rightarrow> ('k, 'v) hashmap \<Rightarrow> nat" where
  "weight w m = sum_list (map (\<lambda>e. w (snd e)) m)"

definition held :: "('v \<Rightarrow> nat) \<Rightarrow> 'v option \<Rightarrow> nat" where
  "held w ov = (case ov of None \<Rightarrow> 0 | Some v \<Rightarrow> w v)"

lemma held_simps [simp]: "held w None = 0" "held w (Some v) = w v"
  by (simp_all add: held_def)

lemma weight_Nil [simp]: "weight w [] = 0"
  by (simp add: weight_def)

lemma weight_insert: "weight w (hm_insert k v m) + held w (hm_get m k) = weight w m + w v"
  by (induction m) (auto simp: weight_def hm_insert_def hm_get_def)

lemma weight_remove:
  "hm_wf m \<Longrightarrow> weight w (hm_remove k m) + held w (hm_get m k) = weight w m"
proof (induction m)
  case (Cons e m)
  obtain k' v' where e: "e = (k', v')" by (cases e)
  show ?case
  proof (cases "k' = k")
    case True
    with Cons.prems e have "AList.delete k m = m"
      by (simp add: hm_wf_def delete_idem)
    with True e show ?thesis
      by (simp add: weight_def hm_remove_def hm_get_def)
  next
    case False
    with Cons e show ?thesis
      by (simp add: weight_def hm_remove_def hm_get_def hm_wf_def)
  qed
qed (simp add: hm_remove_def hm_get_def weight_def)

fun batch_dels :: "('k \<times> 'v option) list \<Rightarrow> 'k list" where
  "batch_dels [] = []"
| "batch_dels ((k, None) # ops) = k # batch_dels ops"
| "batch_dels ((k, Some v) # ops) = batch_dels ops"

fun batch_puts :: "('k \<times> 'v option) list \<Rightarrow> 'v list" where
  "batch_puts [] = []"
| "batch_puts ((k, None) # ops) = batch_puts ops"
| "batch_puts ((k, Some v) # ops) = v # batch_puts ops"

definition batch_upd ::
  "('k \<Rightarrow> 'v \<Rightarrow> 'm \<Rightarrow> 'm) \<Rightarrow> ('k \<Rightarrow> 'm \<Rightarrow> 'm) \<Rightarrow> 'k \<times> 'v option \<Rightarrow> 'm \<Rightarrow> 'm" where
  "batch_upd put del kv m = (case kv of (k, None) \<Rightarrow> del k m | (k, Some v) \<Rightarrow> put k v m)"

lemma batch_upd_simps [simp]:
  "batch_upd put del (k, None) m = del k m" "batch_upd put del (k, Some v) m = put k v m"
  by (simp_all add: batch_upd_def)

lemma batch_append [simp]:
  "batch_dels (xs @ ys) = batch_dels xs @ batch_dels ys"
  "batch_puts (xs @ ys) = batch_puts xs @ batch_puts ys"
proof (induction xs)
  case (Cons x xs)
  { case 1 show ?case using Cons by (cases x; cases "snd x") auto }
  { case 2 show ?case using Cons by (cases x; cases "snd x") auto }
qed simp_all

lemma sum_list_upd:
  assumes "distinct ds"
  shows "sum_list (map (f(k := c)) ds) + (if k \<in> set ds then f k else 0)
    = sum_list (map f ds) + (if k \<in> set ds then c else (0 :: nat))"
  using assms
proof (induction ds)
  case (Cons d ds)
  show ?case
  proof (cases "d = k")
    case True
    then have "sum_list (map (f(k := c)) ds) = sum_list (map f ds)"
      using Cons.prems by (intro arg_cong [of _ _ sum_list] map_cong) auto
    then show ?thesis using True Cons.prems by (simp add: fun_upd_def)
  next
    case False
    then show ?thesis using Cons by (simp split: if_splits)
  qed
qed simp

locale weighted_store =
  fixes lookup :: "'m \<Rightarrow> 'k \<Rightarrow> 'v option" and put :: "'k \<Rightarrow> 'v \<Rightarrow> 'm \<Rightarrow> 'm"
    and del :: "'k \<Rightarrow> 'm \<Rightarrow> 'm" and wf :: "'m \<Rightarrow> bool"
    and total :: "'m \<Rightarrow> nat" and w :: "'v \<Rightarrow> nat"
  assumes lookup_put: "lookup (put k v m) k' = (if k' = k then Some v else lookup m k')"
    and lookup_del: "lookup (del k m) k' = (if k' = k then None else lookup m k')"
    and wf_put: "wf m \<Longrightarrow> wf (put k v m)"
    and wf_del: "wf m \<Longrightarrow> wf (del k m)"
    and total_put: "wf m \<Longrightarrow> total (put k v m) + held w (lookup m k) = total m + w v"
    and total_del: "wf m \<Longrightarrow> total (del k m) + held w (lookup m k) = total m"
begin

lemma total_put_le: "wf m \<Longrightarrow> total (put k v m) \<le> total m + w v"
  using total_put [of m k v] by simp

lemma total_put_fresh: "wf m \<Longrightarrow> lookup m k = None \<Longrightarrow> total (put k v m) = total m + w v"
  using total_put [of m k v] by simp

lemma total_del_le: "wf m \<Longrightarrow> total (del k m) \<le> total m"
  using total_del [of m k] by simp

lemma total_held: "wf m \<Longrightarrow> held w (lookup m k) \<le> total m"
  using total_del [of m k] by simp

lemma total_del_present: "wf m \<Longrightarrow> lookup m k = Some v \<Longrightarrow> total (del k m) = total m - w v"
  using total_del [of m k] by simp

lemma wf_puts: "wf m \<Longrightarrow> wf (fold (\<lambda>(k, v). put k v) kvs m)"
  by (induction kvs arbitrary: m) (auto simp: wf_put)

lemma wf_dels: "wf m \<Longrightarrow> wf (fold del ks m)"
  by (induction ks arbitrary: m) (auto simp: wf_del)

lemma lookup_dels: "lookup (fold del ks m) k = (if k \<in> set ks then None else lookup m k)"
  by (induction ks arbitrary: m) (auto simp: lookup_del)

lemma total_puts_le:
  "wf m \<Longrightarrow> total (fold (\<lambda>(k, v). put k v) kvs m) \<le> total m + sum_list (map (\<lambda>kv. w (snd kv)) kvs)"
proof (induction kvs arbitrary: m)
  case (Cons kv kvs)
  obtain k v where kv: "kv = (k, v)" by (cases kv)
  have "total (fold (\<lambda>(k, v). put k v) kvs (put k v m))
      \<le> total (put k v m) + sum_list (map (\<lambda>kv. w (snd kv)) kvs)"
    using Cons.IH Cons.prems wf_put by blast
  then show ?case
    using total_put_le [OF Cons.prems, of k v] kv by simp
qed simp

lemma total_dels:
  "wf m \<Longrightarrow> distinct ks \<Longrightarrow>
    total (fold del ks m) + sum_list (map (\<lambda>k. held w (lookup m k)) ks) = total m"
proof (induction ks arbitrary: m)
  case (Cons k ks)
  then have fresh: "k \<notin> set ks" by simp
  have "map (\<lambda>k'. held w (lookup (del k m) k')) ks = map (\<lambda>k'. held w (lookup m k')) ks"
    using fresh by (auto simp: lookup_del)
  with Cons.IH [of "del k m"] Cons.prems wf_del
  have "total (fold del ks (del k m)) + sum_list (map (\<lambda>k'. held w (lookup m k')) ks)
      = total (del k m)"
    by simp
  then show ?case
    using total_del [of m k] Cons.prems by simp
qed simp

text \<open>
  A batch of puts and deletes, applied in order: with distinct deleted keys, what the keys held at the
  start is gone and at most the weights put in are added, whatever the order.
\<close>

lemma wf_upds: "wf m \<Longrightarrow> wf (fold (batch_upd put del) ops m)"
  by (induction ops arbitrary: m) (auto simp: batch_upd_def wf_put wf_del split: option.split)

lemma total_upds_le:
  "wf m \<Longrightarrow> distinct (batch_dels ops) \<Longrightarrow>
    total (fold (batch_upd put del) ops m) + sum_list (map (\<lambda>k. held w (lookup m k)) (batch_dels ops))
      \<le> total m + sum_list (map w (batch_puts ops))"
proof (induction ops arbitrary: m)
  case (Cons op ops)
  let ?ds = "batch_dels ops"
  obtain k ov where op: "op = (k, ov)" by (cases op)
  show ?case
  proof (cases ov)
    case None
    then have "k \<notin> set ?ds" "distinct ?ds" using Cons.prems(2) op by simp_all
    then have "map (\<lambda>k'. held w (lookup (del k m) k')) ?ds = map (\<lambda>k'. held w (lookup m k')) ?ds"
      by (auto simp: lookup_del)
    with Cons.IH [of "del k m"] Cons.prems wf_del total_del [of m k] op None show ?thesis
      by (simp add: batch_upd_simps)
  next
    case (Some v)
    have ds: "distinct ?ds" using Cons.prems(2) op Some by simp
    have IH: "total (fold (batch_upd put del) ops (put k v m)) + sum_list (map (\<lambda>k'. held w (lookup (put k v m) k')) ?ds)
        \<le> total (put k v m) + sum_list (map w (batch_puts ops))"
      using Cons.IH [of "put k v m"] Cons.prems(1) ds wf_put by simp
    have "sum_list (map (\<lambda>k'. held w (lookup m k')) ?ds)
        \<le> sum_list (map (\<lambda>k'. held w (lookup (put k v m) k')) ?ds) + held w (lookup m k)"
      using sum_list_upd [OF ds, of "\<lambda>k'. held w (lookup m k')" k "w v"]
      by (simp add: lookup_put if_distrib [of "held w"] fun_upd_def cong: if_cong split: if_splits)
    with IH total_put [OF Cons.prems(1), of k v] op Some show ?thesis
      by (simp add: batch_upd_simps)
  qed
qed simp

end

interpretation hm_weight: weighted_store hm_get hm_insert hm_remove hm_wf "weight w" w
  for w :: "'v \<Rightarrow> nat"
  by unfold_locales (auto simp: weight_insert weight_remove)

lemma weight_modify:
  "hm_get m k = Some v \<Longrightarrow> weight w (hm_modify k f m) + w v = weight w m + w (f v)"
  using weight_insert [of w k "f v" m] by (simp add: hm_modify_def)

lemma weight_modify_le:
  assumes "\<And>v. w (f v) \<le> w v + n"
  shows "weight w (hm_modify k f m) \<le> weight w m + n"
proof (cases "hm_get m k")
  case None
  then show ?thesis by (simp add: hm_modify_def)
next
  case (Some v)
  then show ?thesis using weight_modify [OF Some, of w f] assms [of v] by simp
qed

lemma weight_eq_values: "weight w m = sum_list (map w (hm_values m))"
  by (simp add: weight_def hm_values_def comp_def)

lemma weight_keys: "hm_wf m \<Longrightarrow> weight w m = (\<Sum>k \<in> dom (hm_get m). held w (hm_get m k))"
proof -
  assume wf: "hm_wf m"
  then have d: "distinct (map fst m)" by (simp add: hm_wf_def)
  have "weight w m = (\<Sum>e \<in> set m. w (snd e))"
    using d by (simp add: weight_def sum_list_distinct_conv_sum_set distinct_map)
  also have "\<dots> = (\<Sum>e \<in> set m. held w (hm_get m (fst e)))"
    using hm_mem_iff [OF wf] by (intro sum.cong) auto
  also have "\<dots> = (\<Sum>k \<in> fst ` set m. held w (hm_get m k))"
    using d by (simp add: sum.reindex distinct_map)
  finally show ?thesis by (metis dom_map_of_conv_image_fst hm_get_def ext)
qed

lemma weight_cong_get:
  assumes "hm_wf m" and "hm_wf m'" and "\<And>k. map_option f (hm_get m' k) = map_option f (hm_get m k)"
    and "\<And>v v'. f v' = f v \<Longrightarrow> w v' = w v"
  shows "weight w m' = weight w m"
proof -
  have "held w (hm_get m' k) = held w (hm_get m k)" for k
  proof (cases "hm_get m k")
    case None
    then show ?thesis using assms(3) [of k] by simp
  next
    case (Some v)
    then obtain v' where "hm_get m' k = Some v'" "f v' = f v" using assms(3) [of k] by auto
    then show ?thesis using Some assms(4) [of v' v] by simp
  qed
  moreover have "dom (hm_get m') = dom (hm_get m)"
    using assms(3) by (metis (mono_tags, lifting) domIff option.map_disc_iff subsetI subset_antisym)
  ultimately show ?thesis unfolding weight_keys [OF assms(1)] weight_keys [OF assms(2)] by simp
qed

lemma weight_mono_fun: "(\<And>v. v \<in> set (hm_values m) \<Longrightarrow> w v \<le> w' v) \<Longrightarrow> weight w m \<le> weight w' m"
  by (simp add: weight_eq_values sum_list_mono)

lemma weight_le_bound:
  "(\<And>v. v \<in> set (hm_values m) \<Longrightarrow> w v \<le> b) \<Longrightarrow> weight w m \<le> length m * b"
proof -
  assume "\<And>v. v \<in> set (hm_values m) \<Longrightarrow> w v \<le> b"
  then have "sum_list (map w (hm_values m)) \<le> sum_list (map (\<lambda>_. b) (hm_values m))"
    by (rule sum_list_mono)
  then show ?thesis
    by (simp add: weight_eq_values sum_list_triv hm_values_def comp_def)
qed

lemma hm_get_map_values: "hm_get (map (\<lambda>(i, c). (i, f c)) m) k = map_option f (hm_get m k)"
  by (simp add: hm_get_def map_of_map)

lemma weight_map_values: "(\<And>v. w (f v) = w v) \<Longrightarrow> weight w (map (\<lambda>(i, c). (i, f c)) m) = weight w m"
  by (simp add: weight_def comp_def case_prod_unfold)

lemma hm_wf_map_values: "hm_wf (map (\<lambda>(i, c). (i, f c)) m) = hm_wf m"
  by (simp add: hm_wf_def comp_def case_prod_unfold)

subsection \<open>Maps of lists\<close>

text \<open>\<open>entry(k).or_insert_with(Vec::new).push(v)\<close>, and \<open>get(k).cloned().unwrap_or_default()\<close>.\<close>

definition hm_push :: "'k \<Rightarrow> 'v \<Rightarrow> ('k, 'v list) hashmap \<Rightarrow> ('k, 'v list) hashmap" where
  "hm_push k v m = hm_insert k (case hm_get m k of None \<Rightarrow> [v] | Some vs \<Rightarrow> vs @ [v]) m"

definition hm_list :: "('k, 'v list) hashmap \<Rightarrow> 'k \<Rightarrow> 'v list" where
  "hm_list m k = (case hm_get m k of None \<Rightarrow> [] | Some vs \<Rightarrow> vs)"

lemma hm_list_simps [simp]:
  "hm_list [] k = []"
  "hm_list (hm_push k v m) k' = (if k' = k then hm_list m k @ [v] else hm_list m k')"
  by (auto simp: hm_list_def hm_push_def split: option.split)

text \<open>\<open>ids.iter().filter_map(|id| m.get(id).cloned())\<close>\<close>

definition hm_lookup_all :: "('k, 'v) hashmap \<Rightarrow> 'k list \<Rightarrow> 'v list" where
  "hm_lookup_all m ks = List.map_filter (hm_get m) ks"

text \<open>\<open>for (k, v) in m.iter_mut()\<close> with an update of the value that tells whether to report the key.\<close>

definition hm_sweep :: "('v \<Rightarrow> 'v \<times> bool) \<Rightarrow> ('k, 'v) hashmap \<Rightarrow> ('k, 'v) hashmap \<times> 'k list" where
  "hm_sweep f m = (map (\<lambda>(k, v). (k, fst (f v))) m, map fst (filter (\<lambda>(k, v). snd (f v)) m))"

lemma hm_get_sweep [simp]: "hm_get (fst (hm_sweep f m)) k = map_option (\<lambda>v. fst (f v)) (hm_get m k)"
  using hm_get_map_values [of "\<lambda>v. fst (f v)" m k] by (simp add: hm_sweep_def)

lemma hm_wf_sweep [simp]: "hm_wf (fst (hm_sweep f m)) = hm_wf m"
  using hm_wf_map_values [of "\<lambda>v. fst (f v)" m] by (simp add: hm_sweep_def)

lemma hm_sweep_reported:
  assumes "hm_wf m"
  shows "k \<in> set (snd (hm_sweep f m)) \<longleftrightarrow> (\<exists>v. hm_get m k = Some v \<and> snd (f v))"
  using hm_mem_iff [OF assms, of k] by (auto simp: hm_sweep_def image_iff)

subsection \<open>Sums and maps over the values\<close>

lemma sum_insert_present:
  fixes f :: "'v \<Rightarrow> 'a::ab_group_add"
  shows "hm_get m k = Some u \<Longrightarrow>
    sum_list (map f (hm_values (hm_insert k v m))) = sum_list (map f (hm_values m)) - f u + f v"
  by (induction m) (auto simp: hm_values_def hm_insert_def hm_get_def algebra_simps split: if_splits)

lemma sum_insert_absent:
  fixes f :: "'v \<Rightarrow> 'a::ab_group_add"
  shows "hm_get m k = None \<Longrightarrow> sum_list (map f (hm_values (hm_insert k v m))) = sum_list (map f (hm_values m)) + f v"
  by (simp add: hm_insert_absent hm_values_def)

lemma sum_map_keyed:
  "(\<And>k v. f (g k v) = f v) \<Longrightarrow> sum_list (map f (hm_values (map (\<lambda>(k, v). (k, g k v)) m))) = sum_list (map f (hm_values m))"
  by (simp add: hm_values_def comp_def case_prod_unfold)

lemma hm_get_map_keyed: "hm_get (map (\<lambda>(k, v). (k, g k v)) m) a = map_option (g a) (hm_get m a)"
  by (induction m) (auto simp: hm_get_def)

lemma hm_wf_map_keyed: "hm_wf (map (\<lambda>(k, v). (k, g k v)) m) = hm_wf m"
  by (simp add: hm_wf_def comp_def case_prod_unfold)

end
