(* ===== verification/Mempool.thy ===== *)
theory Mempool
  imports Chain_Types Hash_Map "HOL-Library.Multiset"
begin

section \<open>The transaction pool\<close>

text \<open>
  \<open>pyrax-node/src/mempool/mod.rs\<close>: the pool of pending transactions, its admission checks, the
  set of outpoints its transactions spend, and its running totals. A lock is held over each
  operation, so an operation is one step. \<open>Instant::now()\<close> is an argument. An admission divides
  the fee by the serialised size, which panics for a size of zero (a transaction \<open>bincode\<close> could
  not serialise): such an admission has the value \<open>None\<close>.
\<close>

record MempoolConfig =
  cfg_max_size :: u64
  cfg_max_tx_size :: u64
  cfg_min_fee_rate :: u64

definition MempoolConfig_default :: MempoolConfig where
  "MempoolConfig_default =
     \<lparr>cfg_max_size = 10000, cfg_max_tx_size = 100000, cfg_min_fee_rate = 1\<rparr>"

record MempoolEntry =
  me_tx :: Transaction
  me_fee :: u64
  me_size :: u64
  me_added_time :: u64

record Mempool =
  mp_by_hash :: "(h256, MempoolEntry) hashmap"
  mp_spent_outpoints :: "OutPoint set"
  mp_total_bytes :: u64
  mp_total_fees :: u64
  mp_config :: MempoolConfig

datatype MempoolError =
    TransactionTooLarge | FeeTooLow | InsufficientFee | DuplicateTransaction
  | PoolFull | DoubleSpend | CoinbaseNotAllowed

record MempoolInfo =
  mi_size :: nat
  mi_bytes :: u64
  mi_total_fees :: u64
  mi_max_size :: u64
  mi_min_fee_rate :: u64

definition Mempool_new :: "MempoolConfig \<Rightarrow> Mempool" where
  "Mempool_new config =
     \<lparr>mp_by_hash = [], mp_spent_outpoints = {}, mp_total_bytes = 0, mp_total_fees = 0,
      mp_config = config\<rparr>"

definition tx_size :: "ext \<Rightarrow> Transaction \<Rightarrow> u64" where
  "tx_size e tx = (case ext_bincode_tx e tx of None \<Rightarrow> 0 | Some v \<Rightarrow> of_nat (length v))"

definition tx_outpoints :: "Transaction \<Rightarrow> OutPoint list" where
  "tx_outpoints tx = map in_previous_output (tx_inputs tx)"

definition Mempool_add ::
  "ext \<Rightarrow> u64 \<Rightarrow> Mempool \<Rightarrow> Transaction \<Rightarrow> u64 \<Rightarrow> (MempoolError + Mempool) option" where
  "Mempool_add e now p tx input_value =
     (let txid = Transaction_txid e tx;
          output_value = Transaction_total_output tx
      in if input_value < output_value then Some (Err InsufficientFee)
         else let fee = input_value - output_value;
                  size = tx_size e tx
      in if cfg_max_tx_size (mp_config p) < size then Some (Err TransactionTooLarge)
         else do {
           fee_rate \<leftarrow> div_u64 fee size;
           if fee_rate < cfg_min_fee_rate (mp_config p) then Some (Err FeeTooLow)
           else if Transaction_is_coinbase tx then Some (Err CoinbaseNotAllowed)
           else if unat (cfg_max_size (mp_config p)) \<le> length (mp_by_hash p) then Some (Err PoolFull)
           else if hm_contains (mp_by_hash p) txid then Some (Err DuplicateTransaction)
           else if \<exists>q \<in> set (tx_outpoints tx). q \<in> mp_spent_outpoints p then Some (Err DoubleSpend)
           else Some (Ok (p\<lparr>mp_spent_outpoints := mp_spent_outpoints p \<union> set (tx_outpoints tx),
                            mp_total_bytes := mp_total_bytes p + size,
                            mp_total_fees := mp_total_fees p + fee,
                            mp_by_hash := hm_insert txid
                              \<lparr>me_tx = tx, me_fee = fee, me_size = size, me_added_time = now\<rparr>
                              (mp_by_hash p)\<rparr>))
         })"

definition Mempool_remove :: "Mempool \<Rightarrow> h256 \<Rightarrow> Mempool" where
  "Mempool_remove p txid =
     (case hm_get (mp_by_hash p) txid of
        None \<Rightarrow> p
      | Some entry \<Rightarrow>
          p\<lparr>mp_by_hash := hm_remove txid (mp_by_hash p),
            mp_total_bytes := saturating_sub (mp_total_bytes p) (me_size entry),
            mp_total_fees := saturating_sub (mp_total_fees p) (me_fee entry),
            mp_spent_outpoints := mp_spent_outpoints p - set (tx_outpoints (me_tx entry))\<rparr>)"

text \<open>The body of the loop of \<open>remove_confirmed\<close> is the body of \<open>remove\<close>.\<close>

definition Mempool_remove_confirmed :: "Mempool \<Rightarrow> OutPoint list \<Rightarrow> Mempool" where
  "Mempool_remove_confirmed p spent =
     (let to_remove = map fst (filter
            (\<lambda>(_, entry). \<exists>q \<in> set (tx_outpoints (me_tx entry)). q \<in> set spent) (mp_by_hash p))
      in foldl Mempool_remove p to_remove)"

definition Mempool_get :: "Mempool \<Rightarrow> h256 \<Rightarrow> Transaction option" where
  "Mempool_get p txid = map_option me_tx (hm_get (mp_by_hash p) txid)"

definition Mempool_contains :: "Mempool \<Rightarrow> h256 \<Rightarrow> bool" where
  "Mempool_contains p txid = hm_contains (mp_by_hash p) txid"

definition Mempool_len :: "Mempool \<Rightarrow> nat" where
  "Mempool_len p = length (mp_by_hash p)"

definition Mempool_is_empty :: "Mempool \<Rightarrow> bool" where
  "Mempool_is_empty p = (mp_by_hash p = [])"

definition fee_rate :: "MempoolEntry \<Rightarrow> u64" where
  "fee_rate en = me_fee en div me_size en"

text \<open>
  The stable sort with the comparison reversed. Every element of a list of two or more is compared
  at least once, so a size of zero panics then.
\<close>

definition Mempool_get_pending :: "Mempool \<Rightarrow> nat \<Rightarrow> Transaction list option" where
  "Mempool_get_pending p max_count =
     (let entries = hm_values (mp_by_hash p)
      in if 2 \<le> length entries \<and> (\<exists>en \<in> set entries. me_size en = 0) then None
         else Some (map me_tx (take max_count (sort_key (\<lambda>en. - uint (fee_rate en)) entries))))"

definition Mempool_would_double_spend :: "Mempool \<Rightarrow> OutPoint \<Rightarrow> bool" where
  "Mempool_would_double_spend p q = (q \<in> mp_spent_outpoints p)"

definition Mempool_clear :: "Mempool \<Rightarrow> Mempool" where
  "Mempool_clear p =
     p\<lparr>mp_by_hash := [], mp_spent_outpoints := {}, mp_total_bytes := 0, mp_total_fees := 0\<rparr>"

definition Mempool_get_info :: "Mempool \<Rightarrow> MempoolInfo" where
  "Mempool_get_info p =
     \<lparr>mi_size = length (mp_by_hash p), mi_bytes = mp_total_bytes p, mi_total_fees = mp_total_fees p,
      mi_max_size = cfg_max_size (mp_config p), mi_min_fee_rate = cfg_min_fee_rate (mp_config p)\<rparr>"

subsection \<open>The pool as a machine\<close>

datatype mempool_op =
    MAdd u64 Transaction u64
  | MRemove h256
  | MRemoveConfirmed "OutPoint list"
  | MClear

fun mempool_step :: "ext \<Rightarrow> Mempool \<Rightarrow> mempool_op \<Rightarrow> Mempool" where
  "mempool_step e p (MAdd now tx v) =
     (case Mempool_add e now p tx v of Some (Inr p') \<Rightarrow> p' | _ \<Rightarrow> p)"
| "mempool_step e p (MRemove txid) = Mempool_remove p txid"
| "mempool_step e p (MRemoveConfirmed spent) = Mempool_remove_confirmed p spent"
| "mempool_step e p MClear = Mempool_clear p"

text \<open>
  The invariant. Entries are keyed by the id of their transaction and passed the admission checks;
  the transactions spend disjoint sets of outpoints, whose union is \<open>spent_outpoints\<close>; the totals
  are the sums over the entries, the byte total exactly whenever the configured limits keep it
  below the width of \<open>usize\<close>.
\<close>

definition entry_ok :: "ext \<Rightarrow> MempoolConfig \<Rightarrow> h256 \<Rightarrow> MempoolEntry \<Rightarrow> bool" where
  "entry_ok e c k en =
     (k = Transaction_txid e (me_tx en) \<and> \<not> Transaction_is_coinbase (me_tx en)
      \<and> me_size en = tx_size e (me_tx en) \<and> me_size en \<noteq> 0 \<and> me_size en \<le> cfg_max_tx_size c
      \<and> cfg_min_fee_rate c \<le> fee_rate en)"

definition pool_disjoint :: "(h256, MempoolEntry) hashmap \<Rightarrow> bool" where
  "pool_disjoint m =
     (\<forall>k en k' en'. hm_get m k = Some en \<longrightarrow> hm_get m k' = Some en' \<longrightarrow> k \<noteq> k' \<longrightarrow>
        set (tx_outpoints (me_tx en)) \<inter> set (tx_outpoints (me_tx en')) = {})"

definition pool_outpoints :: "(h256, MempoolEntry) hashmap \<Rightarrow> OutPoint set" where
  "pool_outpoints m = {q. \<exists>k en. hm_get m k = Some en \<and> q \<in> set (tx_outpoints (me_tx en))}"

definition bytes_bounded :: "MempoolConfig \<Rightarrow> bool" where
  "bytes_bounded c = (unat (cfg_max_size c) * unat (cfg_max_tx_size c) < 2 ^ 64)"

definition mempool_inv :: "ext \<Rightarrow> Mempool \<Rightarrow> bool" where
  "mempool_inv e p =
     (hm_wf (mp_by_hash p)
      \<and> (\<forall>k en. hm_get (mp_by_hash p) k = Some en \<longrightarrow> entry_ok e (mp_config p) k en)
      \<and> pool_disjoint (mp_by_hash p)
      \<and> mp_spent_outpoints p = pool_outpoints (mp_by_hash p)
      \<and> length (mp_by_hash p) \<le> unat (cfg_max_size (mp_config p))
      \<and> unat (mp_total_fees p) \<le> weight (\<lambda>en. unat (me_fee en)) (mp_by_hash p)
      \<and> (bytes_bounded (mp_config p) \<longrightarrow>
           unat (mp_total_bytes p) = weight (\<lambda>en. unat (me_size en)) (mp_by_hash p)))"

lemma Mempool_add_Ok_iff:
  "Mempool_add e now p tx v = Some (Ok p') \<longleftrightarrow>
     Transaction_total_output tx \<le> v \<and> tx_size e tx \<le> cfg_max_tx_size (mp_config p)
     \<and> tx_size e tx \<noteq> 0
     \<and> cfg_min_fee_rate (mp_config p) \<le> (v - Transaction_total_output tx) div tx_size e tx
     \<and> \<not> Transaction_is_coinbase tx
     \<and> length (mp_by_hash p) < unat (cfg_max_size (mp_config p))
     \<and> \<not> hm_contains (mp_by_hash p) (Transaction_txid e tx)
     \<and> set (tx_outpoints tx) \<inter> mp_spent_outpoints p = {}
     \<and> p' = p\<lparr>mp_spent_outpoints := mp_spent_outpoints p \<union> set (tx_outpoints tx),
             mp_total_bytes := mp_total_bytes p + tx_size e tx,
             mp_total_fees := mp_total_fees p + (v - Transaction_total_output tx),
             mp_by_hash := hm_insert (Transaction_txid e tx)
               \<lparr>me_tx = tx, me_fee = v - Transaction_total_output tx, me_size = tx_size e tx,
                me_added_time = now\<rparr> (mp_by_hash p)\<rparr>"
  by (auto simp: Mempool_add_def Let_def bind_eq_Some_conv not_less not_le split: if_splits)


lemma pool_outpoints_insert:
  "hm_get m k = None \<Longrightarrow>
    pool_outpoints (hm_insert k en m) = pool_outpoints m \<union> set (tx_outpoints (me_tx en))"
  by (auto simp: pool_outpoints_def split: if_splits) (metis option.distinct(1))

lemma pool_outpoints_remove:
  assumes "pool_disjoint m" and "hm_get m k = Some en"
  shows "pool_outpoints (hm_remove k m) = pool_outpoints m - set (tx_outpoints (me_tx en))"
  using assms unfolding pool_outpoints_def pool_disjoint_def
  by (auto split: if_splits) (metis disjoint_iff, metis option.inject)

lemma pool_disjoint_insert:
  assumes "pool_disjoint m" and "set (tx_outpoints (me_tx en)) \<inter> pool_outpoints m = {}"
  shows "pool_disjoint (hm_insert k en m)"
  using assms unfolding pool_disjoint_def pool_outpoints_def
  by (auto simp: disjoint_iff)

lemma pool_disjoint_remove: "pool_disjoint m \<Longrightarrow> pool_disjoint (hm_remove k m)"
  by (auto simp: pool_disjoint_def split: if_splits)

lemma mempool_inv_wf: "mempool_inv e p \<Longrightarrow> hm_wf (mp_by_hash p)"
  by (simp add: mempool_inv_def)

lemma mempool_inv_entry:
  "mempool_inv e p \<Longrightarrow> hm_get (mp_by_hash p) k = Some en \<Longrightarrow> entry_ok e (mp_config p) k en"
  by (simp add: mempool_inv_def)

lemma mempool_bytes_le:
  assumes "mempool_inv e p"
  shows "weight (\<lambda>en. unat (me_size en)) (mp_by_hash p)
    \<le> length (mp_by_hash p) * unat (cfg_max_tx_size (mp_config p))"
proof (rule weight_le_bound)
  fix en assume "en \<in> set (hm_values (mp_by_hash p))"
  then obtain k where "hm_get (mp_by_hash p) k = Some en"
    using hm_values_cases [OF mempool_inv_wf [OF assms]] by blast
  then have "entry_ok e (mp_config p) k en" by (rule mempool_inv_entry [OF assms])
  then show "unat (me_size en) \<le> unat (cfg_max_tx_size (mp_config p))"
    unfolding entry_ok_def word_le_nat_alt by blast
qed

lemma mempool_add_inv:
  assumes inv: "mempool_inv e p" and add: "Mempool_add e now p tx v = Some (Ok p')"
  shows "mempool_inv e p'"
proof -
  let ?fee = "v - Transaction_total_output tx" and ?c = "mp_config p" and ?m = "mp_by_hash p"
  let ?en = "\<lparr>me_tx = tx, me_fee = ?fee, me_size = tx_size e tx, me_added_time = now\<rparr>"
  let ?k = "Transaction_txid e tx"
  note ok = add [unfolded Mempool_add_Ok_iff]
  have absent: "hm_get ?m ?k = None" using ok by (simp add: hm_contains_def)
  have en: "entry_ok e ?c ?k ?en" using ok by (simp add: entry_ok_def fee_rate_def)
  have fees: "unat (mp_total_fees p + ?fee) \<le> weight (\<lambda>en. unat (me_fee en)) (hm_insert ?k ?en ?m)"
    using inv hm_weight.total_put_fresh [of ?m ?k "\<lambda>en. unat (me_fee en)" ?en] absent
      unat_sum_list_le [of "[mp_total_fees p, ?fee]"]
    by (simp add: mempool_inv_def)
  have bytes: "unat (mp_total_bytes p + tx_size e tx)
      = weight (\<lambda>en. unat (me_size en)) (hm_insert ?k ?en ?m)" if bounded: "bytes_bounded ?c"
  proof -
    have total: "unat (mp_total_bytes p) = weight (\<lambda>en. unat (me_size en)) ?m"
      using inv bounded by (simp add: mempool_inv_def)
    have "unat (mp_total_bytes p) + unat (tx_size e tx)
        \<le> (length ?m + 1) * unat (cfg_max_tx_size ?c)"
      using mempool_bytes_le [OF inv] total ok by (simp add: word_le_nat_alt)
    also have "\<dots> \<le> unat (cfg_max_size ?c) * unat (cfg_max_tx_size ?c)"
      using ok by (intro mult_le_mono1) simp
    also have "\<dots> < 2 ^ 64" using bounded by (simp add: bytes_bounded_def)
    finally show ?thesis
      using hm_weight.total_put_fresh [of ?m ?k "\<lambda>en. unat (me_size en)" ?en] absent inv total
      by (simp add: mempool_inv_def unat_add_exact)
  qed
  have len: "length (hm_insert ?k ?en ?m) \<le> unat (cfg_max_size ?c)"
    using ok by (simp add: length_hm_insert)
  show ?thesis
    using inv ok absent en fees bytes len
    by (auto simp: mempool_inv_def pool_outpoints_insert pool_disjoint_insert Int_commute split: if_splits)
qed

lemma mempool_remove_inv:
  assumes inv: "mempool_inv e p"
  shows "mempool_inv e (Mempool_remove p txid)"
proof (cases "hm_get (mp_by_hash p) txid")
  case (Some en)
  let ?m = "mp_by_hash p"
  have wf: "hm_wf ?m" using inv by (simp add: mempool_inv_def)
  have "weight (\<lambda>en. unat (me_fee en)) (hm_remove txid ?m) = weight (\<lambda>en. unat (me_fee en)) ?m - unat (me_fee en)"
    "weight (\<lambda>en. unat (me_size en)) (hm_remove txid ?m) = weight (\<lambda>en. unat (me_size en)) ?m - unat (me_size en)"
    using hm_weight.total_del_present [OF wf Some] by simp_all
  moreover have "length (hm_remove txid ?m) \<le> length ?m" by (rule length_hm_remove)
  ultimately show ?thesis
    using inv Some
    by (auto simp: mempool_inv_def Mempool_remove_def pool_outpoints_remove pool_disjoint_remove
        unat_saturating_sub diff_le_mono split: if_splits)
next
  case None
  then show ?thesis using inv by (simp add: Mempool_remove_def)
qed

lemma mempool_remove_all_inv: "mempool_inv e p \<Longrightarrow> mempool_inv e (foldl Mempool_remove p ks)"
  by (induction ks arbitrary: p) (simp_all add: mempool_remove_inv)

lemma mempool_new_inv: "mempool_inv e (Mempool_new c)"
  by (simp add: mempool_inv_def Mempool_new_def pool_disjoint_def pool_outpoints_def)

lemma mempool_clear_inv: "mempool_inv e (Mempool_clear p)"
  by (simp add: mempool_inv_def Mempool_clear_def pool_disjoint_def pool_outpoints_def)

lemma mempool_step_inv: "mempool_inv e p \<Longrightarrow> mempool_inv e (mempool_step e p x)"
  by (cases x) (auto simp: mempool_add_inv mempool_remove_inv mempool_remove_all_inv mempool_clear_inv
      Mempool_remove_confirmed_def Let_def split: option.split sum.split)

interpretation mempool: machine "Mempool_new c" "mempool_step e" "mempool_inv e"
  for e :: ext and c :: MempoolConfig
  by unfold_locales (simp_all add: mempool_new_inv mempool_step_inv)

lemma mempool_remove_config [simp]: "mp_config (Mempool_remove p k) = mp_config p"
  by (simp add: Mempool_remove_def split: option.split)

lemma mempool_remove_all_config [simp]: "mp_config (foldl Mempool_remove p ks) = mp_config p"
  by (induction ks arbitrary: p) simp_all

lemma mempool_step_config: "mp_config (mempool_step e p x) = mp_config p"
  by (cases x) (auto simp: Mempool_add_Ok_iff Mempool_remove_confirmed_def Mempool_clear_def Let_def
      split: option.split sum.split)

lemma mempool_reachable_config:
  "reachable (mempool_step e) (Mempool_new c) p \<Longrightarrow> mp_config p = c"
  by (induction rule: reachable.induct) (simp_all add: mempool_step_config, simp add: Mempool_new_def)

subsection \<open>What removal leaves\<close>

lemma mempool_get_remove:
  "hm_get (mp_by_hash (Mempool_remove p k)) k' = (if k' = k then None else hm_get (mp_by_hash p) k')"
  by (simp add: Mempool_remove_def split: option.split)

lemma mempool_get_remove_all:
  "hm_get (mp_by_hash (foldl Mempool_remove p ks)) k
    = (if k \<in> set ks then None else hm_get (mp_by_hash p) k)"
  by (induction ks arbitrary: p) (auto simp: mempool_get_remove)

lemma mempool_confirmed_keys:
  assumes "hm_wf m"
  shows "k \<in> set (map fst (filter (\<lambda>(_, entry). P entry) m)) \<longleftrightarrow> (\<exists>en. hm_get m k = Some en \<and> P en)"
  using hm_mem_iff [OF assms] by force

subsection \<open>Properties\<close>

text \<open>
  C12. In every reachable pool no two pooled transactions spend a common outpoint, and
  \<open>would_double_spend\<close> answers yes for exactly the outpoints some pooled transaction spends.
\<close>

theorem mempool_no_double_spend:
  assumes "reachable (mempool_step e) (Mempool_new c) p"
  shows "(Mempool_get p k = Some tx \<and> Mempool_get p k' = Some tx' \<and> k \<noteq> k'
      \<longrightarrow> set (tx_outpoints tx) \<inter> set (tx_outpoints tx') = {})
    \<and> (Mempool_would_double_spend p q \<longleftrightarrow>
        (\<exists>k tx. Mempool_get p k = Some tx \<and> q \<in> set (tx_outpoints tx)))"
proof -
  have inv: "mempool_inv e p" using assms by (rule mempool.inv_reachable)
  then have disj: "pool_disjoint (mp_by_hash p)"
    and spent: "mp_spent_outpoints p = pool_outpoints (mp_by_hash p)"
    by (simp_all add: mempool_inv_def)
  have "set (tx_outpoints tx) \<inter> set (tx_outpoints tx') = {}"
    if "Mempool_get p k = Some tx" "Mempool_get p k' = Some tx'" "k \<noteq> k'"
    using that disj [unfolded pool_disjoint_def, rule_format, of k _ k'] by (auto simp: Mempool_get_def)
  moreover have "Mempool_would_double_spend p q \<longleftrightarrow>
      (\<exists>k tx. Mempool_get p k = Some tx \<and> q \<in> set (tx_outpoints tx))"
    using spent by (auto simp: pool_outpoints_def Mempool_get_def Mempool_would_double_spend_def)
  ultimately show ?thesis by blast
qed

text \<open>
  In every reachable pool the limits hold: at most \<open>max_size\<close> entries, each under the id of its
  own transaction, none a coinbase, none larger than \<open>max_tx_size\<close> or below the minimum fee rate;
  and when the limits keep the byte total below \<open>2^64\<close> it is exactly the sum of the entries' sizes.
\<close>

theorem mempool_limits_and_totals:
  assumes "reachable (mempool_step e) (Mempool_new c) p"
  shows "Mempool_len p \<le> unat (cfg_max_size c)
    \<and> (\<forall>k en. hm_get (mp_by_hash p) k = Some en \<longrightarrow> entry_ok e c k en)
    \<and> (bytes_bounded c \<longrightarrow> unat (mi_bytes (Mempool_get_info p))
        = sum_list (map (\<lambda>en. unat (me_size en)) (hm_values (mp_by_hash p))))"
  using mempool.inv_reachable [OF assms] mempool_reachable_config [OF assms]
  by (auto simp: mempool_inv_def Mempool_len_def Mempool_get_info_def weight_eq_values)

text \<open>
  After a block confirms, \<open>remove_confirmed\<close> drops exactly the transactions that spend one of the
  block's outpoints and keeps every other transaction.
\<close>

theorem mempool_remove_confirmed_exact:
  assumes "mempool_inv e p"
  shows "Mempool_get (Mempool_remove_confirmed p spent) k =
    (case Mempool_get p k of
       None \<Rightarrow> None
     | Some tx \<Rightarrow> if set (tx_outpoints tx) \<inter> set spent = {} then Some tx else None)"
  using mempool_confirmed_keys [OF mempool_inv_wf [OF assms],
      of k "\<lambda>en. \<exists>q \<in> set (tx_outpoints (me_tx en)). q \<in> set spent"]
  by (auto simp: Mempool_get_def Mempool_remove_confirmed_def mempool_get_remove_all Let_def
      split: option.split)

text \<open>
  \<open>get_pending\<close> never panics on a reachable pool and returns the best transactions: as many as
  asked for (or all), in order of falling fee rate, and none that was left out pays a higher rate
  than one that was returned.
\<close>

theorem mempool_get_pending_best:
  assumes "reachable (mempool_step e) (Mempool_new c) p"
  shows "\<exists>best rest. Mempool_get_pending p n = Some (map me_tx best)
    \<and> mset (best @ rest) = mset (hm_values (mp_by_hash p))
    \<and> length best = min n (Mempool_len p)
    \<and> sorted_wrt (\<lambda>a b. fee_rate b \<le> fee_rate a) (best @ rest)"
proof -
  let ?es = "hm_values (mp_by_hash p)" and ?f = "\<lambda>en. - uint (fee_rate en)"
  have inv: "mempool_inv e p" using assms by (rule mempool.inv_reachable)
  have "me_size en \<noteq> 0" if "en \<in> set ?es" for en
    using hm_values_cases [OF mempool_inv_wf [OF inv] that] mempool_inv_entry [OF inv]
    by (auto simp: entry_ok_def)
  then have "Mempool_get_pending p n = Some (map me_tx (take n (sort_key ?f ?es)))"
    by (auto simp: Mempool_get_pending_def Let_def)
  moreover have "sorted_wrt (\<lambda>a b. fee_rate b \<le> fee_rate a) (sort_key ?f ?es)"
    using sorted_sort_key [of ?f ?es] by (simp add: sorted_map word_le_def)
  moreover have "take n (sort_key ?f ?es) @ drop n (sort_key ?f ?es) = sort_key ?f ?es"
    by (rule append_take_drop_id)
  moreover have "length (take n (sort_key ?f ?es)) = min n (Mempool_len p)"
    by (simp add: Mempool_len_def hm_values_def)
  ultimately show ?thesis
    by (metis mset_sort)
qed

subsection \<open>Witnesses\<close>

definition sample_pool :: Mempool where
  "sample_pool = mempool_step sample_ext (Mempool_new MempoolConfig_default) (MAdd 0 (sample_tx 5) 1000)"

lemma sample_pool_reachable:
  "reachable (mempool_step sample_ext) (Mempool_new MempoolConfig_default) sample_pool"
  unfolding sample_pool_def by (intro reachable.intros)

lemma sample_tx_size: "tx_size sample_ext (sample_tx 5) = 48"
  by (simp add: tx_size_def sample_ext_def sample_bincode_tx_def sample_tx_def Transaction_new_def
      TxInput_new_def TxOutput_p2pkh_def TxOutput_new_def OutPoint_to_bytes_def OutPoint_new_def
      h256_zero_def)

lemma sample_tx_facts:
  "Transaction_total_output (sample_tx 5) = 5" "\<not> Transaction_is_coinbase (sample_tx 5)"
  "tx_outpoints (sample_tx 5) = [OutPoint_new h256_zero 0]"
  by (simp_all add: Transaction_total_output_def sample_tx_def Transaction_new_def TxOutput_p2pkh_def
      TxOutput_new_def Transaction_is_coinbase_def TxInput_is_coinbase_def OutPoint_is_coinbase_def
      TxInput_new_def OutPoint_new_def tx_outpoints_def)

lemma sample_pool_eq:
  "sample_pool =
     (let tx = sample_tx 5; txid = Transaction_txid sample_ext tx in
      \<lparr>mp_by_hash = [(txid, \<lparr>me_tx = tx, me_fee = 995, me_size = 48, me_added_time = 0\<rparr>)],
       mp_spent_outpoints = {OutPoint_new h256_zero 0}, mp_total_bytes = 48, mp_total_fees = 995,
       mp_config = MempoolConfig_default\<rparr>)"
  by (simp add: sample_pool_def Mempool_add_def Mempool_new_def MempoolConfig_default_def sample_tx_size
      sample_tx_facts div_u64_def Let_def hm_insert_def)

lemma sample_pool_len: "Mempool_len sample_pool = 1"
  by (simp add: Mempool_len_def sample_pool_eq Let_def)

theorem mempool_no_double_spend_witness:
  "Mempool_would_double_spend sample_pool (OutPoint_new h256_zero 0)
    \<and> \<not> Mempool_would_double_spend sample_pool (OutPoint_new h256_zero 1)"
  using mempool_no_double_spend [OF sample_pool_reachable, of _ _ _ _ "OutPoint_new h256_zero 0"]
    mempool_no_double_spend [OF sample_pool_reachable, of _ _ _ _ "OutPoint_new h256_zero 1"]
  by (auto simp: sample_pool_eq Let_def Mempool_get_def hm_get_def sample_tx_facts split: if_splits)

theorem mempool_limits_and_totals_witness:
  "Mempool_len sample_pool \<le> 10000 \<and> unat (mi_bytes (Mempool_get_info sample_pool)) = 48"
  using mempool_limits_and_totals [OF sample_pool_reachable]
  by (simp add: sample_pool_eq Let_def bytes_bounded_def MempoolConfig_default_def hm_values_def)

theorem mempool_remove_confirmed_exact_witness:
  "Mempool_get (Mempool_remove_confirmed sample_pool [OutPoint_new h256_zero 0])
      (Transaction_txid sample_ext (sample_tx 5)) = None
    \<and> Mempool_get (Mempool_remove_confirmed sample_pool [OutPoint_new h256_zero 1])
      (Transaction_txid sample_ext (sample_tx 5)) = Some (sample_tx 5)"
  using mempool_remove_confirmed_exact [OF mempool.inv_reachable [OF sample_pool_reachable],
      of "[OutPoint_new h256_zero 0]" "Transaction_txid sample_ext (sample_tx 5)"]
    mempool_remove_confirmed_exact [OF mempool.inv_reachable [OF sample_pool_reachable],
      of "[OutPoint_new h256_zero 1]" "Transaction_txid sample_ext (sample_tx 5)"]
  by (simp add: sample_pool_eq Let_def Mempool_get_def hm_get_def sample_tx_facts)

theorem mempool_get_pending_best_witness:
  "\<exists>best :: MempoolEntry list. Mempool_get_pending sample_pool 3 = Some (map me_tx best) \<and> length best = 1"
proof -
  obtain best :: "MempoolEntry list" where "Mempool_get_pending sample_pool 3 = Some (map me_tx best)"
    and "length best = min 3 (Mempool_len sample_pool)"
    using mempool_get_pending_best [OF sample_pool_reachable, of 3] by blast
  then show ?thesis by (auto simp: sample_pool_len)
qed

end
