(* ===== verification/Genesis_Block.thy ===== *)
theory Genesis_Block
  imports Chain_Types
begin

section \<open>Streams and the genesis block\<close>

text \<open>
  \<open>pyrax-node/src/consensus/streams.rs\<close>, the three block streams with their constants, and
  \<open>pyrax-node/src/genesis/mod.rs\<close>, the genesis block of each network and its validation.
\<close>

subsection \<open>Streams\<close>

datatype Stream = StreamA | StreamB | StreamC

fun Stream_to_u8 :: "Stream \<Rightarrow> u8" where
  "Stream_to_u8 StreamA = 0"
| "Stream_to_u8 StreamB = 1"
| "Stream_to_u8 StreamC = 2"

fun block_time_secs :: "Stream \<Rightarrow> u64" where
  "block_time_secs StreamA = 10"
| "block_time_secs StreamB = 60"
| "block_time_secs StreamC = 0"

fun block_reward :: "Stream \<Rightarrow> u64" where
  "block_reward StreamA = 50 * 100000000"
| "block_reward StreamB = 100 * 100000000"
| "block_reward StreamC = 10 * 100000000"

fun gas_share_percent :: "Stream \<Rightarrow> u8" where
  "gas_share_percent StreamA = 20"
| "gas_share_percent StreamB = 40"
| "gas_share_percent StreamC = 30"

fun algorithm :: "Stream \<Rightarrow> string" where
  "algorithm StreamA = ''BLAKE3''"
| "algorithm StreamB = ''KAWPOW''"
| "algorithm StreamC = ''ZK-STARK''"

fun is_pow :: "Stream \<Rightarrow> bool" where
  "is_pow StreamA = True"
| "is_pow StreamB = True"
| "is_pow StreamC = False"

fun default_port_offset :: "Stream \<Rightarrow> u16" where
  "default_port_offset StreamA = 0"
| "default_port_offset StreamB = 1"
| "default_port_offset StreamC = 2"

definition Stream_from_u8 :: "u8 \<Rightarrow> Stream option" where
  "Stream_from_u8 v =
     (if v = 0 then Some StreamA else if v = 1 then Some StreamB
      else if v = 2 then Some StreamC else None)"

definition TREASURY_GAS_SHARE_PERCENT :: u8 where "TREASURY_GAS_SHARE_PERCENT = 10"

definition MAX_SUPPLY :: u64 where "MAX_SUPPLY = 100000000000 * 100000000"

subsection \<open>Genesis\<close>

definition MAINNET_TIMESTAMP :: u64 where "MAINNET_TIMESTAMP = 1735689600"
definition TESTNET_TIMESTAMP :: u64 where "TESTNET_TIMESTAMP = 1735689600"
definition DEVNET_TIMESTAMP :: u64 where "DEVNET_TIMESTAMP = 1735689600"
definition MAINNET_DIFFICULTY :: u64 where "MAINNET_DIFFICULTY = 1000000"
definition TESTNET_DIFFICULTY :: u64 where "TESTNET_DIFFICULTY = 1000"
definition DEVNET_DIFFICULTY :: u64 where "DEVNET_DIFFICULTY = 1"
definition DECIMALS :: u64 where "DECIMALS = 100000000"
definition DEVNET_FAUCET_ALLOCATION :: u64 where "DEVNET_FAUCET_ALLOCATION = 1000000000 * DECIMALS"
definition DEVNET_TEST_WALLET_ALLOCATION :: u64 where
  "DEVNET_TEST_WALLET_ALLOCATION = 10000000 * DECIMALS"

definition MAINNET_EXTRA_DATA :: "u8 list" where
  "MAINNET_EXTRA_DATA = ascii_bytes ''PYRAX Genesis - TriStream DAG Blockchain''"

definition TESTNET_EXTRA_DATA :: "u8 list" where
  "TESTNET_EXTRA_DATA = ascii_bytes ''PYRAX Testnet Genesis''"

definition DEVNET_EXTRA_DATA :: "u8 list" where
  "DEVNET_EXTRA_DATA = ascii_bytes ''PYRAX Devnet Genesis''"

definition devnet_genesis_outputs :: "TxOutput list" where
  "devnet_genesis_outputs =
     [TxOutput_p2pkh DEVNET_FAUCET_ALLOCATION (Address (replicate 20 0x11)),
      TxOutput_p2pkh DEVNET_TEST_WALLET_ALLOCATION (Address (replicate 20 0x22)),
      TxOutput_p2pkh DEVNET_TEST_WALLET_ALLOCATION (Address (replicate 20 0x33)),
      TxOutput_p2pkh DEVNET_TEST_WALLET_ALLOCATION (Address (replicate 20 0x44))]"

definition testnet_genesis_outputs :: "TxOutput list" where
  "testnet_genesis_outputs = [TxOutput_p2pkh (5000000000 * DECIMALS) (Address (replicate 20 0x11))]"

definition mainnet_genesis_outputs :: "TxOutput list" where
  "mainnet_genesis_outputs = [\<lparr>out_value = 0, out_script = []\<rparr>]"

text \<open>
  The three parts of the first \<open>match\<close>; an unknown network takes devnet's parameters there, and
  mainnet's outputs in the second \<open>match\<close>.
\<close>

definition genesis_params :: "NetworkId \<Rightarrow> u64 \<times> u64 \<times> u8 list" where
  "genesis_params network =
     (if network = NetworkId_MAINNET then (MAINNET_TIMESTAMP, MAINNET_DIFFICULTY, MAINNET_EXTRA_DATA)
      else if network = NetworkId_TESTNET
      then (TESTNET_TIMESTAMP, TESTNET_DIFFICULTY, TESTNET_EXTRA_DATA)
      else (DEVNET_TIMESTAMP, DEVNET_DIFFICULTY, DEVNET_EXTRA_DATA))"

definition genesis_outputs :: "NetworkId \<Rightarrow> TxOutput list" where
  "genesis_outputs network =
     (if network = NetworkId_DEVNET then devnet_genesis_outputs
      else if network = NetworkId_TESTNET then testnet_genesis_outputs
      else mainnet_genesis_outputs)"

definition genesis_coinbase :: "NetworkId \<Rightarrow> Transaction" where
  "genesis_coinbase network =
     (let (_, _, extra_data) = genesis_params network
      in \<lparr>tx_version = 1,
          tx_inputs = [\<lparr>in_previous_output = OutPoint_coinbase, in_script_sig = extra_data,
                        in_sequence = 0xFFFFFFFF\<rparr>],
          tx_outputs = genesis_outputs network, tx_lock_time = 0\<rparr>)"

definition genesis_block :: "ext \<Rightarrow> NetworkId \<Rightarrow> Block" where
  "genesis_block e network =
     (let (timestamp, difficulty, _) = genesis_params network;
          coinbase_tx = genesis_coinbase network
      in \<lparr>blk_header =
            \<lparr>hdr_version = 1, hdr_stream = 0, hdr_parent_hash = h256_zero,
             hdr_merkle_root = Transaction_txid e coinbase_tx, hdr_utxo_commitment = h256_zero,
             hdr_timestamp = timestamp, hdr_difficulty = difficulty, hdr_nonce = 0,
             hdr_extra_nonce = 0, hdr_height = 0, hdr_beneficiary = address_zero\<rparr>,
          blk_transactions = [coinbase_tx]\<rparr>)"

definition expected_genesis_hash :: "ext \<Rightarrow> NetworkId \<Rightarrow> h256" where
  "expected_genesis_hash e network =
     (if network = NetworkId_MAINNET then Block_hash e (genesis_block e NetworkId_MAINNET)
      else if network = NetworkId_TESTNET then Block_hash e (genesis_block e NetworkId_TESTNET)
      else Block_hash e (genesis_block e NetworkId_DEVNET))"

datatype GenesisError =
    GenesisHashMismatch h256 h256
  | GenesisInvalidHeight u64
  | GenesisInvalidParentHash
  | GenesisInvalidTimestamp u64 u64
  | GenesisInvalidDifficulty u64 u64

definition validate_genesis :: "ext \<Rightarrow> Block \<Rightarrow> NetworkId \<Rightarrow> GenesisError + unit" where
  "validate_genesis e block network =
     (let expected = genesis_block e network;
          expected_hash = Block_hash e expected;
          actual_hash = Block_hash e block;
          header = blk_header block
      in if actual_hash \<noteq> expected_hash then Err (GenesisHashMismatch expected_hash actual_hash)
         else if Block_height block \<noteq> 0 then Err (GenesisInvalidHeight (Block_height block))
         else if hdr_parent_hash header \<noteq> h256_zero then Err GenesisInvalidParentHash
         else if hdr_timestamp header \<noteq> hdr_timestamp (blk_header expected)
         then Err (GenesisInvalidTimestamp (hdr_timestamp (blk_header expected)) (hdr_timestamp header))
         else Ok ())"

subsection \<open>Facts about the constants\<close>

lemma Stream_u8_round_trip: "Stream_from_u8 (Stream_to_u8 s) = Some s"
  by (cases s) (simp_all add: Stream_from_u8_def)

lemma genesis_block_wf: "wf_header (blk_header (genesis_block e network))"
  by (simp add: genesis_block_def wf_header_def Let_def split: prod.split)

lemma genesis_block_simps [simp]:
  "Block_height (genesis_block e network) = 0"
  "hdr_parent_hash (blk_header (genesis_block e network)) = h256_zero"
  "blk_transactions (genesis_block e network) = [genesis_coinbase network]"
  by (simp_all add: genesis_block_def Block_height_def Let_def split: prod.split)

lemma genesis_coinbase_is_coinbase: "Transaction_is_coinbase (genesis_coinbase network)"
  by (simp add: genesis_coinbase_def Transaction_is_coinbase_def TxInput_is_coinbase_def
      OutPoint_is_coinbase_def OutPoint_coinbase_def split: prod.split)

lemma genesis_merkle_ok: "Block_verify_merkle e (genesis_block e network)"
  by (simp add: Block_verify_merkle_def Block_compute_merkle_root_def merkle_loop_single genesis_block_def
      Let_def split: prod.split)

subsection \<open>Properties\<close>

text \<open>
  Genesis validation: the genesis block of a network passes, its merkle root is right and its only
  transaction is a coinbase; and a well-formed block passes only if its header is the genesis header
  in every field, as long as BLAKE3 separates the two header encodings.
\<close>

theorem validate_genesis_exact:
  assumes "wf_header (blk_header b)"
    and "separates e [header_preimage (blk_header b),
                      header_preimage (blk_header (genesis_block e network))]"
  shows "(validate_genesis e b network = Ok () \<longleftrightarrow> blk_header b = blk_header (genesis_block e network))
    \<and> Block_verify_merkle e (genesis_block e network)
    \<and> (\<exists>tx. blk_transactions (genesis_block e network) = [tx] \<and> Transaction_is_coinbase tx)"
proof (intro conjI iffI)
  assume "validate_genesis e b network = Ok ()"
  then have hash: "BlockHeader_hash e (blk_header b) = BlockHeader_hash e (blk_header (genesis_block e network))"
    by (simp add: validate_genesis_def Let_def Block_hash_def split: if_splits)
  show "blk_header b = blk_header (genesis_block e network)"
    by (rule header_hash_inject [OF assms(1) genesis_block_wf assms(2) hash])
next
  assume eq: "blk_header b = blk_header (genesis_block e network)"
  then have "Block_height b = 0"
    using genesis_block_simps(1) [of e network] by (simp add: Block_height_def)
  with eq show "validate_genesis e b network = Ok ()"
    by (simp add: validate_genesis_def Let_def Block_hash_def)
qed (simp_all add: genesis_merkle_ok genesis_coinbase_is_coinbase)

theorem validate_genesis_exact_witness:
  "validate_genesis sample_ext (genesis_block sample_ext NetworkId_DEVNET) NetworkId_DEVNET = Ok ()"
proof -
  let ?g = "genesis_block sample_ext NetworkId_DEVNET"
  have "separates sample_ext [header_preimage (blk_header ?g), header_preimage (blk_header ?g)]"
    by (simp add: separates_def)
  then show ?thesis using validate_genesis_exact [OF genesis_block_wf, of sample_ext] by blast
qed

end
