(* ===== verification/Chain_DB.thy ===== *)
theory Chain_DB
  imports Genesis_Block Hash_Map
begin

section \<open>The chain database\<close>

text \<open>
  \<open>pyrax-node/src/storage/chaindb.rs\<close>. Each RocksDB column family is a map; keys are stored by the
  value they encode (\<open>OutPoint_to_bytes\<close> is injective on outpoints, a \<open>u64\<close> height has one
  encoding) and values by the value \<open>bincode\<close> stores. Writes go through a batch, a list of
  puts and deletes that \<open>db.write\<close> applies in order and atomically. RocksDB itself is assumed to read
  back what was written; \<open>bincode\<close> may fail on a block, not on the fixed-size records.
\<close>

record TxLocation =
  loc_block_hash :: h256
  loc_block_height :: u64
  loc_tx_index :: u32

datatype StorageError =
    SerializationError string | BlockNotFound string | UtxoNotFoundInStore string
  | InvalidData string | ChainError string

datatype TxDirection = Receive | Send | Mining | UnknownDirection

record ChainDB =
  db_blocks :: "(h256, Block) hashmap"
  db_heights :: "(u64, h256) hashmap"
  db_headers :: "(h256, BlockHeader) hashmap"
  db_tx_index :: "(h256, TxLocation) hashmap"
  db_utxo :: "(OutPoint, Utxo) hashmap"
  db_spent :: "(OutPoint, h256) hashmap"
  db_meta_tip :: "ChainTip option"
  db_meta_genesis :: "h256 option"
  db_meta_network :: "u32 option"
  db_meta_schema :: "u32 option"
  db_tip :: ChainTip
  db_network :: NetworkId

text \<open>The entries of a write batch, by column family.\<close>

datatype batch_op =
    PutBlock h256 Block
  | PutHeight u64 h256
  | DelHeight u64
  | PutHeader h256 BlockHeader
  | PutTx h256 TxLocation
  | DelTx h256
  | PutUtxo OutPoint Utxo
  | DelUtxo OutPoint
  | PutSpent OutPoint h256
  | PutTip ChainTip
  | PutGenesis h256
  | PutNetwork u32
  | PutSchema u32

fun batch_apply :: "batch_op \<Rightarrow> ChainDB \<Rightarrow> ChainDB" where
  "batch_apply (PutBlock h b) db = db\<lparr>db_blocks := hm_insert h b (db_blocks db)\<rparr>"
| "batch_apply (PutHeight n h) db = db\<lparr>db_heights := hm_insert n h (db_heights db)\<rparr>"
| "batch_apply (DelHeight n) db = db\<lparr>db_heights := hm_remove n (db_heights db)\<rparr>"
| "batch_apply (PutHeader h b) db = db\<lparr>db_headers := hm_insert h b (db_headers db)\<rparr>"
| "batch_apply (PutTx t l) db = db\<lparr>db_tx_index := hm_insert t l (db_tx_index db)\<rparr>"
| "batch_apply (DelTx t) db = db\<lparr>db_tx_index := hm_remove t (db_tx_index db)\<rparr>"
| "batch_apply (PutUtxo q u) db = db\<lparr>db_utxo := hm_insert q u (db_utxo db)\<rparr>"
| "batch_apply (DelUtxo q) db = db\<lparr>db_utxo := hm_remove q (db_utxo db)\<rparr>"
| "batch_apply (PutSpent q h) db = db\<lparr>db_spent := hm_insert q h (db_spent db)\<rparr>"
| "batch_apply (PutTip t) db = db\<lparr>db_meta_tip := Some t\<rparr>"
| "batch_apply (PutGenesis h) db = db\<lparr>db_meta_genesis := Some h\<rparr>"
| "batch_apply (PutNetwork n) db = db\<lparr>db_meta_network := Some n\<rparr>"
| "batch_apply (PutSchema n) db = db\<lparr>db_meta_schema := Some n\<rparr>"

definition db_write :: "batch_op list \<Rightarrow> ChainDB \<Rightarrow> ChainDB" where
  "db_write batch db = fold batch_apply batch db"

subsection \<open>Opening\<close>

definition CURRENT_SCHEMA_VERSION :: u32 where "CURRENT_SCHEMA_VERSION = 1"

definition genesis_batch :: "ext \<Rightarrow> NetworkId \<Rightarrow> batch_op list" where
  "genesis_batch e network =
     (let genesis = genesis_block e network;
          genesis_hash = Block_hash e genesis;
          NetworkIdValue = (case network of NetworkId n \<Rightarrow> n)
      in [PutBlock genesis_hash genesis, PutHeight 0 genesis_hash,
          PutHeader genesis_hash (blk_header genesis),
          PutTip \<lparr>tip_height = 0, tip_hash = genesis_hash,
                  tip_total_difficulty = hdr_difficulty (blk_header genesis)\<rparr>,
          PutGenesis genesis_hash, PutNetwork NetworkIdValue, PutSchema CURRENT_SCHEMA_VERSION])"

text \<open>
  \<open>open\<close> on the stored column families \<open>db\<close>: it takes the stored tip, or stores the genesis block.
\<close>

definition ChainDB_open :: "ext \<Rightarrow> NetworkId \<Rightarrow> ChainDB \<Rightarrow> StorageError + ChainDB" where
  "ChainDB_open e network db =
     (case db_meta_tip db of
        Some tip \<Rightarrow> Ok (db\<lparr>db_tip := tip, db_network := network\<rparr>)
      | None \<Rightarrow>
          let genesis = genesis_block e network in
          if ext_bincode_block e genesis = None then Err (SerializationError ''block'')
          else Ok ((db_write (genesis_batch e network) db)
                 \<lparr>db_tip := \<lparr>tip_height = 0, tip_hash = Block_hash e genesis,
                             tip_total_difficulty = hdr_difficulty (blk_header genesis)\<rparr>,
                  db_network := network\<rparr>))"

definition ChainDB_empty :: ChainDB where
  "ChainDB_empty =
     \<lparr>db_blocks = [], db_heights = [], db_headers = [], db_tx_index = [], db_utxo = [],
      db_spent = [], db_meta_tip = None, db_meta_genesis = None, db_meta_network = None,
      db_meta_schema = None, db_tip = ChainTip_default, db_network = NetworkId_DEVNET\<rparr>"

subsection \<open>Reading\<close>

definition get_tip :: "ChainDB \<Rightarrow> ChainTip" where
  "get_tip db = db_tip db"

definition get_block :: "ChainDB \<Rightarrow> h256 \<Rightarrow> Block option" where
  "get_block db h = hm_get (db_blocks db) h"

definition get_block_by_height :: "ChainDB \<Rightarrow> u64 \<Rightarrow> Block option" where
  "get_block_by_height db height =
     (case hm_get (db_heights db) height of None \<Rightarrow> None | Some h \<Rightarrow> get_block db h)"

definition get_header :: "ChainDB \<Rightarrow> h256 \<Rightarrow> BlockHeader option" where
  "get_header db h = hm_get (db_headers db) h"

definition has_block :: "ChainDB \<Rightarrow> h256 \<Rightarrow> bool" where
  "has_block db h = (hm_get (db_blocks db) h \<noteq> None)"

definition get_utxo :: "ChainDB \<Rightarrow> OutPoint \<Rightarrow> Utxo option" where
  "get_utxo db q = hm_get (db_utxo db) q"

definition get_tx_location :: "ChainDB \<Rightarrow> h256 \<Rightarrow> TxLocation option" where
  "get_tx_location db t = hm_get (db_tx_index db) t"

definition get_transaction :: "ChainDB \<Rightarrow> h256 \<Rightarrow> Transaction option" where
  "get_transaction db t =
     (case get_tx_location db t of
        None \<Rightarrow> None
      | Some loc \<Rightarrow>
          (case get_block db (loc_block_hash loc) of
             None \<Rightarrow> None
           | Some block \<Rightarrow>
               if unat (loc_tx_index loc) < length (blk_transactions block)
               then Some (blk_transactions block ! unat (loc_tx_index loc)) else None))"

definition utxo_count :: "ChainDB \<Rightarrow> u64" where
  "utxo_count db = of_nat (length (db_utxo db))"

definition genesis_hash :: "ChainDB \<Rightarrow> StorageError + h256" where
  "genesis_hash db =
     (case db_meta_genesis db of
        Some h \<Rightarrow> Ok h | None \<Rightarrow> Err (InvalidData ''Genesis hash not found''))"

definition validate_stored_genesis :: "ext \<Rightarrow> ChainDB \<Rightarrow> StorageError + unit" where
  "validate_stored_genesis e db =
     and_then (genesis_hash db)
       (\<lambda>stored. fail_if (stored \<noteq> expected_genesis_hash e (db_network db))
                  (InvalidData ''Genesis hash mismatch''))"

definition get_utxos_for_address :: "ChainDB \<Rightarrow> address \<Rightarrow> (OutPoint \<times> Utxo) list" where
  "get_utxos_for_address db a =
     filter (\<lambda>(_, u). TxOutput_get_address (utxo_output u) = Some a) (db_utxo db)"

definition get_balance_for_address :: "ChainDB \<Rightarrow> address \<Rightarrow> u64" where
  "get_balance_for_address db a =
     sum_list (map (\<lambda>(_, u). out_value (utxo_output u)) (get_utxos_for_address db a))"

text \<open>The inclusive range \<open>0..=n\<close> of heights.\<close>

definition heights_upto :: "u64 \<Rightarrow> u64 list" where
  "heights_upto n = map of_nat [0 ..< unat n + 1]"

definition calculate_total_difficulty :: "ChainDB \<Rightarrow> u64 \<Rightarrow> u64" where
  "calculate_total_difficulty db height =
     foldl (\<lambda>total h.
              case get_block_by_height db h of
                Some block \<Rightarrow> saturating_add total (hdr_difficulty (blk_header block))
              | None \<Rightarrow> total)
           0 (heights_upto height)"

definition total_difficulty :: "ChainDB \<Rightarrow> u64" where
  "total_difficulty db = tip_total_difficulty (db_tip db)"

definition tx_involves :: "address \<Rightarrow> Transaction \<Rightarrow> bool" where
  "tx_involves a tx = (\<exists>t \<in> set (tx_outputs tx). TxOutput_get_address t = Some a)"

text \<open>A loop that leaves at the limit: past it, the remaining iterations change nothing.\<close>

definition history_tx ::
  "address \<Rightarrow> nat \<Rightarrow> h256 \<Rightarrow> u64 \<Rightarrow> (Transaction \<times> TxLocation \<times> TxDirection) list
    \<Rightarrow> nat \<times> Transaction \<Rightarrow> (Transaction \<times> TxLocation \<times> TxDirection) list" where
  "history_tx a limit block_hash height acc = (\<lambda>(tx_idx, tx).
     if limit \<le> length acc then acc
     else if tx_involves a tx
     then acc @ [(tx, \<lparr>loc_block_hash = block_hash, loc_block_height = height,
                       loc_tx_index = of_nat tx_idx\<rparr>,
                  if Transaction_is_coinbase tx then Mining else Receive)]
     else acc)"

definition get_transactions_for_address ::
  "ext \<Rightarrow> ChainDB \<Rightarrow> address \<Rightarrow> nat \<Rightarrow> (Transaction \<times> TxLocation \<times> TxDirection) list" where
  "get_transactions_for_address e db a limit =
     (let start_height = tip_height (get_tip db);
          min_height = saturating_sub start_height 1000
      in foldl (\<lambda>acc height.
                  if limit \<le> length acc then acc
                  else case get_block_by_height db height of
                    None \<Rightarrow> acc
                  | Some block \<Rightarrow>
                      foldl (history_tx a limit (Block_hash e block) height) acc
                        (List.enumerate 0 (blk_transactions block)))
           [] (rev (map of_nat [unat min_height ..< unat start_height + 1])))"

subsection \<open>Committing a block\<close>

definition spend_batch :: "h256 \<Rightarrow> TxInput \<Rightarrow> batch_op list" where
  "spend_batch block_hash i =
     (if TxInput_is_coinbase i then []
      else [DelUtxo (in_previous_output i), PutSpent (in_previous_output i) block_hash])"

definition create_batch :: "h256 \<Rightarrow> u64 \<Rightarrow> bool \<Rightarrow> nat \<times> TxOutput \<Rightarrow> batch_op" where
  "create_batch txid height is_cb = (\<lambda>(vout, output).
     PutUtxo (OutPoint_new txid (of_nat vout)) (Utxo_new output height is_cb))"

definition tx_batch :: "ext \<Rightarrow> h256 \<Rightarrow> u64 \<Rightarrow> nat \<times> Transaction \<Rightarrow> batch_op list" where
  "tx_batch e block_hash height = (\<lambda>(tx_idx, tx).
     let txid = Transaction_txid e tx in
     [PutTx txid \<lparr>loc_block_hash = block_hash, loc_block_height = height,
                  loc_tx_index = of_nat tx_idx\<rparr>]
     @ concat (map (spend_batch block_hash) (tx_inputs tx))
     @ map (create_batch txid height (Transaction_is_coinbase tx))
         (List.enumerate 0 (tx_outputs tx)))"

definition commit_batch :: "ext \<Rightarrow> ChainTip \<Rightarrow> Block \<Rightarrow> batch_op list" where
  "commit_batch e new_tip block =
     (let block_hash = Block_hash e block; height = Block_height block
      in [PutBlock block_hash block, PutHeight height block_hash,
          PutHeader block_hash (blk_header block)]
         @ concat (map (tx_batch e block_hash height) (List.enumerate 0 (blk_transactions block)))
         @ [PutTip new_tip])"

definition commit_tip :: "ext \<Rightarrow> ChainTip \<Rightarrow> Block \<Rightarrow> ChainTip" where
  "commit_tip e tip block =
     \<lparr>tip_height = Block_height block, tip_hash = Block_hash e block,
      tip_total_difficulty = tip_total_difficulty tip + hdr_difficulty (blk_header block)\<rparr>"

definition commit_block :: "ext \<Rightarrow> ChainDB \<Rightarrow> Block \<Rightarrow> StorageError + ChainDB" where
  "commit_block e db block =
     (let height = Block_height block; tip = db_tip db in
      if 0 < height \<and> hdr_parent_hash (blk_header block) \<noteq> tip_hash tip
      then Err (ChainError ''Parent hash mismatch'')
      else if height \<noteq> tip_height tip + 1 \<and> height \<noteq> 0
      then Err (ChainError ''Height mismatch'')
      else if ext_bincode_block e block = None then Err (SerializationError ''block'')
      else let new_tip = commit_tip e tip block in
        Ok ((db_write (commit_batch e new_tip block) db)\<lparr>db_tip := new_tip\<rparr>))"

subsection \<open>Undoing blocks\<close>

definition undo_tx_batch :: "ext \<Rightarrow> Transaction \<Rightarrow> batch_op list" where
  "undo_tx_batch e tx =
     (let txid = Transaction_txid e tx in
      DelTx txid # map (\<lambda>vout. DelUtxo (OutPoint_new txid (of_nat vout))) [0 ..< length (tx_outputs tx)])"

definition undo_block :: "ext \<Rightarrow> ChainDB \<Rightarrow> Block \<Rightarrow> ChainDB" where
  "undo_block e db block =
     db_write (DelHeight (Block_height block)
               # concat (map (undo_tx_batch e) (rev (blk_transactions block)))) db"

definition undo_at :: "ext \<Rightarrow> ChainDB \<Rightarrow> u64 \<Rightarrow> ChainDB" where
  "undo_at e db h = (case get_block_by_height db h of Some block \<Rightarrow> undo_block e db block | None \<Rightarrow> db)"

definition rollback_to :: "ext \<Rightarrow> ChainDB \<Rightarrow> u64 \<Rightarrow> ChainDB" where
  "rollback_to e db target_height =
     (let tip = get_tip db in
      if tip_height tip \<le> target_height then db
      else let db' = foldl (undo_at e) db
                 (rev (map of_nat [unat target_height + 1 ..< unat (tip_height tip) + 1]))
        in case get_block_by_height db' target_height of
             None \<Rightarrow> db'
           | Some target_block \<Rightarrow>
               let new_tip = \<lparr>tip_height = target_height, tip_hash = Block_hash e target_block,
                              tip_total_difficulty = calculate_total_difficulty db' target_height\<rparr>
               in db'\<lparr>db_meta_tip := Some new_tip, db_tip := new_tip\<rparr>)"

subsection \<open>What a batch does to each column\<close>

fun utxo_effect :: "batch_op \<Rightarrow> (OutPoint, Utxo) hashmap \<Rightarrow> (OutPoint, Utxo) hashmap" where
  "utxo_effect (PutUtxo q u) m = hm_insert q u m"
| "utxo_effect (DelUtxo q) m = hm_remove q m"
| "utxo_effect _ m = m"

fun height_effect :: "batch_op \<Rightarrow> (u64, h256) hashmap \<Rightarrow> (u64, h256) hashmap" where
  "height_effect (PutHeight n h) m = hm_insert n h m"
| "height_effect (DelHeight n) m = hm_remove n m"
| "height_effect _ m = m"

fun block_effect :: "batch_op \<Rightarrow> (h256, Block) hashmap \<Rightarrow> (h256, Block) hashmap" where
  "block_effect (PutBlock h b) m = hm_insert h b m"
| "block_effect _ m = m"

lemma db_write_columns:
  "db_utxo (db_write batch db) = fold utxo_effect batch (db_utxo db)"
  "db_heights (db_write batch db) = fold height_effect batch (db_heights db)"
  "db_blocks (db_write batch db) = fold block_effect batch (db_blocks db)"
  "db_tip (db_write batch db) = db_tip db"
proof (induction batch arbitrary: db)
  case (Cons x batch)
  { case 1 show ?case using Cons(1) [of "batch_apply x db"] by (cases x) (simp_all add: db_write_def) }
  { case 2 show ?case using Cons(2) [of "batch_apply x db"] by (cases x) (simp_all add: db_write_def) }
  { case 3 show ?case using Cons(3) [of "batch_apply x db"] by (cases x) (simp_all add: db_write_def) }
  { case 4 show ?case using Cons(4) [of "batch_apply x db"] by (cases x) (simp_all add: db_write_def) }
qed (simp_all add: db_write_def)

lemma fold_unit: "(\<And>x y. x \<in> set xs \<Longrightarrow> f x y = y) \<Longrightarrow> fold f xs y = y"
  by (induction xs arbitrary: y) auto

lemma tx_batch_cases:
  assumes "x \<in> set (tx_batch e bh h itx)"
  shows "(\<exists>t l. x = PutTx t l) \<or> (\<exists>q. x = DelUtxo q) \<or> (\<exists>q b. x = PutSpent q b) \<or> (\<exists>q u. x = PutUtxo q u)"
  using assms by (auto simp: tx_batch_def spend_batch_def create_batch_def Let_def split: prod.splits if_splits)

lemma tx_batches_other_columns:
  "fold height_effect (concat (map (tx_batch e bh h) itxs)) m = m"
  "fold block_effect (concat (map (tx_batch e bh h) itxs)) m' = m'"
  by (rule fold_unit; auto dest!: tx_batch_cases)+

lemma commit_batch_columns:
  "fold height_effect (commit_batch e tip b) m = hm_insert (Block_height b) (Block_hash e b) m"
  "fold block_effect (commit_batch e tip b) m' = hm_insert (Block_hash e b) b m'"
  "fold utxo_effect (commit_batch e tip b) m'' = fold utxo_effect (concat
     (map (tx_batch e (Block_hash e b) (Block_height b)) (List.enumerate 0 (blk_transactions b)))) m''"
  by (simp_all add: commit_batch_def Let_def tx_batches_other_columns)

lemma undo_batch_columns:
  "fold height_effect (concat (map (undo_tx_batch e) txs)) m = m"
  "fold block_effect (concat (map (undo_tx_batch e) txs)) m' = m'"
  by (rule fold_unit; auto simp: undo_tx_batch_def Let_def)+

lemma commit_block_Ok_iff:
  "commit_block e db b = Ok db' \<longleftrightarrow>
     (Block_height b = 0 \<or> hdr_parent_hash (blk_header b) = tip_hash (db_tip db)
        \<and> Block_height b = tip_height (db_tip db) + 1)
     \<and> ext_bincode_block e b \<noteq> None
     \<and> db' = (db_write (commit_batch e (commit_tip e (db_tip db) b) b) db)
               \<lparr>db_tip := commit_tip e (db_tip db) b\<rparr>"
  by (auto simp: commit_block_def Let_def word_gt_0)

lemma commit_block_columns:
  assumes "commit_block e db b = Ok db'"
  shows "db_heights db' = hm_insert (Block_height b) (Block_hash e b) (db_heights db)"
    and "db_blocks db' = hm_insert (Block_hash e b) b (db_blocks db)"
    and "db_tip db' = commit_tip e (db_tip db) b"
    and "db_utxo db' = fold utxo_effect (concat
     (map (tx_batch e (Block_hash e b) (Block_height b)) (List.enumerate 0 (blk_transactions b)))) (db_utxo db)"
  using assms by (simp_all add: commit_block_Ok_iff db_write_columns commit_batch_columns)

lemma undo_block_columns:
  "db_heights (undo_block e db b) = hm_remove (Block_height b) (db_heights db)"
  "db_blocks (undo_block e db b) = db_blocks db"
  "db_tip (undo_block e db b) = db_tip db"
  "db_utxo (undo_block e db b)
    = fold utxo_effect (concat (map (undo_tx_batch e) (rev (blk_transactions b)))) (db_utxo db)"
  by (simp_all add: undo_block_def db_write_columns undo_batch_columns)

subsection \<open>The ledger a block describes\<close>

text \<open>
  The abstract specification: a ledger gives each unspent outpoint its output. A transaction takes
  the outpoints it spends out of the ledger and adds one entry per output under its own id.
\<close>

type_synonym ledger = "OutPoint \<rightharpoonup> Utxo"

definition tx_spent :: "Transaction \<Rightarrow> OutPoint set" where
  "tx_spent tx = {in_previous_output i |i. i \<in> set (tx_inputs tx) \<and> \<not> TxInput_is_coinbase i}"

definition tx_created :: "ext \<Rightarrow> Transaction \<Rightarrow> OutPoint set" where
  "tx_created e tx =
     {OutPoint_new (Transaction_txid e tx) (of_nat n) |n. n < length (tx_outputs tx)}"

definition ledger_tx :: "ext \<Rightarrow> u64 \<Rightarrow> ledger \<Rightarrow> Transaction \<Rightarrow> ledger" where
  "ledger_tx e height L tx = (\<lambda>q.
     if op_txid q = Transaction_txid e tx \<and> unat (op_vout q) < length (tx_outputs tx)
     then Some (Utxo_new (tx_outputs tx ! unat (op_vout q)) height (Transaction_is_coinbase tx))
     else if q \<in> tx_spent tx then None else L q)"

definition ledger_block :: "ext \<Rightarrow> ledger \<Rightarrow> Block \<Rightarrow> ledger" where
  "ledger_block e L b = foldl (ledger_tx e (Block_height b)) L (blk_transactions b)"

lemma spend_batches_get:
  "hm_get (fold utxo_effect (concat (map (spend_batch bh) is)) m) q
    = (if \<exists>i \<in> set is. \<not> TxInput_is_coinbase i \<and> in_previous_output i = q then None else hm_get m q)"
  by (induction "is" arbitrary: m) (auto simp: spend_batch_def)

lemma enumerate_snoc: "List.enumerate 0 (xs @ [x]) = List.enumerate 0 xs @ [(length xs, x)]"
  by (simp add: enumerate_append_eq)

lemma create_batches_get:
  assumes "length outs \<le> 2 ^ 32"
  shows "hm_get (fold utxo_effect (map (create_batch t h c) (List.enumerate 0 outs)) m) q
    = (if op_txid q = t \<and> unat (op_vout q) < length outs
       then Some (Utxo_new (outs ! unat (op_vout q)) h c) else hm_get m q)"
  using assms
proof (induction outs rule: rev_induct)
  case (snoc x outs)
  have eq: "q = OutPoint_new t (of_nat (length outs)) \<longleftrightarrow> op_txid q = t \<and> unat (op_vout q) = length outs"
    using snoc.prems by (cases q) (auto simp: OutPoint_new_def unat_of_nat_small word_unat_eq_iff)
  show ?case
    using snoc eq by (auto simp: enumerate_snoc create_batch_def nth_append less_Suc_eq)
qed simp

lemma tx_batch_get:
  assumes "length (tx_outputs tx) \<le> 2 ^ 32"
  shows "hm_get (fold utxo_effect (tx_batch e bh h (n, tx)) m) = ledger_tx e h (hm_get m) tx"
  using assms
  by (intro ext) (auto simp: tx_batch_def Let_def create_batches_get spend_batches_get ledger_tx_def tx_spent_def)

lemma tx_batches_get:
  assumes "\<forall>tx \<in> set txs. length (tx_outputs tx) \<le> 2 ^ 32"
  shows "hm_get (fold utxo_effect (concat (map (tx_batch e bh h) (List.enumerate n txs))) m)
    = foldl (ledger_tx e h) (hm_get m) txs"
  using assms
proof (induction txs arbitrary: n m)
  case (Cons tx txs)
  then show ?case
    using tx_batch_get [of tx e bh h n m] by simp
qed simp

subsection \<open>Spending is final: what undoing leaves\<close>

lemma ledger_created_or_unspent:
  "foldl (ledger_tx e h) L txs q \<noteq> None \<Longrightarrow> tx \<in> set txs \<Longrightarrow> q \<in> tx_spent tx \<Longrightarrow>
    \<exists>tx' \<in> set txs. op_txid q = Transaction_txid e tx' \<and> unat (op_vout q) < length (tx_outputs tx')"
proof (induction txs rule: rev_induct)
  case (snoc x txs)
  then show ?case by (auto simp: ledger_tx_def split: if_splits)
qed simp

lemma undo_tx_get:
  "hm_get (fold utxo_effect (undo_tx_batch e tx) m) q = (if q \<in> tx_created e tx then None else hm_get m q)"
proof -
  have "hm_get (fold utxo_effect (map (\<lambda>n. DelUtxo (OutPoint_new t (of_nat n))) ns) m) q
      = (if q \<in> (\<lambda>n. OutPoint_new t (of_nat n)) ` set ns then None else hm_get m q)" for t ns
    by (induction ns arbitrary: m) auto
  then show ?thesis
    by (auto simp: undo_tx_batch_def Let_def tx_created_def)
qed

lemma undo_txs_get:
  "hm_get (fold utxo_effect (concat (map (undo_tx_batch e) txs)) m) q
    = (if \<exists>tx \<in> set txs. q \<in> tx_created e tx then None else hm_get m q)"
  by (induction txs arbitrary: m) (auto simp: undo_tx_get)

lemma tx_created_iff:
  "length (tx_outputs tx) \<le> 2 ^ 32 \<Longrightarrow>
    q \<in> tx_created e tx \<longleftrightarrow> op_txid q = Transaction_txid e tx \<and> unat (op_vout q) < length (tx_outputs tx)"
proof
  assume "op_txid q = Transaction_txid e tx \<and> unat (op_vout q) < length (tx_outputs tx)"
  then show "q \<in> tx_created e tx"
    by (auto simp: tx_created_def OutPoint_new_def intro!: exI [of _ "unat (op_vout q)"])
qed (auto simp: tx_created_def OutPoint_new_def unat_of_nat_small)

subsection \<open>The canonical chain\<close>

text \<open>
  A database is linked when every height up to the tip has a stored block of that height under its
  own hash whose parent is the block one lower, and the tip is the block at the tip height.
\<close>

definition linked_at :: "ext \<Rightarrow> ChainDB \<Rightarrow> nat \<Rightarrow> bool" where
  "linked_at e db n =
     (\<exists>b. get_block_by_height db (of_nat n) = Some b \<and> Block_height b = of_nat n
        \<and> hm_get (db_heights db) (of_nat n) = Some (Block_hash e b)
        \<and> (0 < n \<longrightarrow> hm_get (db_heights db) (of_nat (n - 1)) = Some (hdr_parent_hash (blk_header b))))"

definition chain_linked :: "ext \<Rightarrow> ChainDB \<Rightarrow> bool" where
  "chain_linked e db =
     ((\<forall>n \<le> unat (tip_height (db_tip db)). linked_at e db n)
      \<and> hm_get (db_heights db) (tip_height (db_tip db)) = Some (tip_hash (db_tip db)))"

text \<open>The digest does not give the block the hash of a different stored header.\<close>

definition no_clash :: "ext \<Rightarrow> ChainDB \<Rightarrow> Block \<Rightarrow> bool" where
  "no_clash e db b =
     (case get_block db (Block_hash e b) of
        None \<Rightarrow> True | Some b' \<Rightarrow> blk_header b' = blk_header b)"

inductive chain_reachable :: "ext \<Rightarrow> NetworkId \<Rightarrow> ChainDB \<Rightarrow> bool" for e network where
  opened: "ChainDB_open e network ChainDB_empty = Ok db \<Longrightarrow> chain_reachable e network db"
| committed: "chain_reachable e network db \<Longrightarrow> no_clash e db b \<Longrightarrow> commit_block e db b = Ok db'
    \<Longrightarrow> chain_reachable e network db'"
| rolled_back: "chain_reachable e network db \<Longrightarrow> chain_reachable e network (rollback_to e db h)"

lemma opened_state:
  assumes "ChainDB_open e network ChainDB_empty = Ok db"
  shows "db_heights db = [(0, Block_hash e (genesis_block e network))]"
    and "db_blocks db = [(Block_hash e (genesis_block e network), genesis_block e network)]"
    and "db_tip db = \<lparr>tip_height = 0, tip_hash = Block_hash e (genesis_block e network),
           tip_total_difficulty = hdr_difficulty (blk_header (genesis_block e network))\<rparr>"
    and "db_utxo db = []"
    and "db_network db = network"
    and "db_meta_genesis db = Some (Block_hash e (genesis_block e network))"
  using assms
  by (auto simp: ChainDB_open_def ChainDB_empty_def genesis_batch_def db_write_def Let_def hm_insert_def
      split: if_splits)

lemma opened_linked: "ChainDB_open e network ChainDB_empty = Ok db \<Longrightarrow> chain_linked e db"
  by (simp add: chain_linked_def linked_at_def opened_state get_block_by_height_def get_block_def hm_get_def)

lemma linked_at_insert:
  assumes "linked_at e db n" and "no_clash e db b" and "of_nat n \<noteq> Block_height b"
    and "0 < n \<longrightarrow> of_nat (n - 1) \<noteq> Block_height b"
    and "db_heights db' = hm_insert (Block_height b) (Block_hash e b) (db_heights db)"
    and "db_blocks db' = hm_insert (Block_hash e b) b (db_blocks db)"
  shows "linked_at e db' n"
  using assms
  by (auto simp: linked_at_def get_block_by_height_def get_block_def no_clash_def Block_height_def
      Block_hash_def split: option.splits if_splits)

lemma commit_linked:
  assumes linked: "chain_linked e db" and clash: "no_clash e db b"
    and commit: "commit_block e db b = Ok db'"
  shows "chain_linked e db'"
proof -
  note cols = commit_block_columns [OF commit]
  let ?h = "Block_height b"
  have top: "hm_get (db_heights db') ?h = Some (Block_hash e b)" "get_block_by_height db' ?h = Some b"
    by (simp_all add: cols get_block_by_height_def get_block_def)
  have tip: "tip_height (db_tip db') = ?h" "tip_hash (db_tip db') = Block_hash e b"
    by (simp_all add: cols commit_tip_def)
  show ?thesis
  proof (cases "?h = 0")
    case True
    with top tip show ?thesis
      by (simp add: chain_linked_def linked_at_def)
  next
    case False
    then have succ: "?h = tip_height (db_tip db) + 1"
      and parent: "hdr_parent_hash (blk_header b) = tip_hash (db_tip db)"
      using commit by (simp_all add: commit_block_Ok_iff)
    have uh: "unat ?h = unat (tip_height (db_tip db)) + 1"
      using False succ by (simp add: unat_add_one)
    have "linked_at e db' n" if "n \<le> unat ?h" for n
    proof (cases "n = unat ?h")
      case True
      have "(of_nat (n - 1) :: u64) = tip_height (db_tip db)" "(of_nat n :: u64) = ?h"
        using True uh succ by simp_all
      moreover have "tip_height (db_tip db) \<noteq> ?h" using uh by auto
      ultimately show ?thesis
        using top parent linked by (simp add: linked_at_def cols chain_linked_def)
    next
      case False
      with that uh have n: "n \<le> unat (tip_height (db_tip db))" by simp
      then have neq: "(of_nat m :: u64) \<noteq> ?h" if "m \<le> n" for m
        using that uh unat_less_power [of ?h] by (metis (no_types, lifting) unat_of_nat_small
            Suc_eq_plus1 le_less_trans not_less_eq_eq order_trans lessI less_le_not_le)
      have "linked_at e db n" using linked n by (simp add: chain_linked_def)
      then show ?thesis
        using clash neq [OF order_refl] impI [OF neq [OF diff_le_self]] cols(1,2)
        by (rule linked_at_insert)
    qed
    then show ?thesis
      using top tip by (simp add: chain_linked_def)
  qed
qed

subsection \<open>Rolling back\<close>

lemma get_block_by_height_alt:
  "get_block_by_height db h
    = (case hm_get (db_heights db) h of None \<Rightarrow> None | Some k \<Rightarrow> hm_get (db_blocks db) k)"
  by (simp add: get_block_by_height_def get_block_def split: option.split)

lemma get_block_by_height_cong:
  "hm_get (db_heights db') k = hm_get (db_heights db) k \<Longrightarrow> db_blocks db' = db_blocks db \<Longrightarrow>
    get_block_by_height db' k = get_block_by_height db k"
  by (simp add: get_block_by_height_alt split: option.split)

lemma undo_at_columns:
  assumes "get_block_by_height db h = Some b" and "Block_height b = h"
  shows "db_heights (undo_at e db h) = hm_remove h (db_heights db)"
    and "db_blocks (undo_at e db h) = db_blocks db" and "db_tip (undo_at e db h) = db_tip db"
  using assms by (simp_all add: undo_at_def undo_block_columns)

lemma undo_list_columns:
  assumes "distinct hs" and "\<forall>h \<in> set hs. \<exists>b. get_block_by_height db h = Some b \<and> Block_height b = h"
  shows "(\<forall>k. hm_get (db_heights (foldl (undo_at e) db hs)) k
      = (if k \<in> set hs then None else hm_get (db_heights db) k))
    \<and> db_blocks (foldl (undo_at e) db hs) = db_blocks db
    \<and> db_tip (foldl (undo_at e) db hs) = db_tip db"
  using assms
proof (induction hs arbitrary: db)
  case (Cons h hs)
  obtain b where "get_block_by_height db h = Some b" "Block_height b = h" using Cons.prems by auto
  note one = undo_at_columns [OF this, of e]
  have "get_block_by_height (undo_at e db h) k = get_block_by_height db k" if "k \<in> set hs" for k
    using that Cons.prems(1) one by (intro get_block_by_height_cong) auto
  then have "\<forall>k \<in> set hs. \<exists>b. get_block_by_height (undo_at e db h) k = Some b \<and> Block_height b = k"
    using Cons.prems(2) by simp
  with Cons.IH [of "undo_at e db h"] Cons.prems one show ?case by auto
qed simp

lemma heights_above:
  assumes "t < t'"
  shows "set (rev (map of_nat [unat t + 1 ..< unat t' + 1])) = {h :: u64. t < h \<and> h \<le> t'}"
    and "distinct (rev (map (of_nat :: nat \<Rightarrow> u64) [unat t + 1 ..< unat t' + 1]))"
proof -
  have bound: "n < 2 ^ 64" if "n < unat t' + 1" for n
    using that unat_less_power [of t'] by simp
  show "set (rev (map of_nat [unat t + 1 ..< unat t' + 1])) = {h :: u64. t < h \<and> h \<le> t'}" (is "?A = ?B")
  proof (rule set_eqI)
    fix h
    show "h \<in> ?A \<longleftrightarrow> h \<in> ?B"
      using bound by (auto simp: word_less_nat_alt word_le_nat_alt unat_of_nat_small
          intro!: image_eqI [of _ _ "unat h"])
  qed
  show "distinct (rev (map (of_nat :: nat \<Rightarrow> u64) [unat t + 1 ..< unat t' + 1]))"
    using bound by (auto simp: distinct_map inj_on_def word_unat_eq_iff unat_of_nat_small)
qed

lemma linked_heights:
  assumes "chain_linked e db" and "h \<le> tip_height (db_tip db)"
  shows "\<exists>b. get_block_by_height db h = Some b \<and> Block_height b = h
    \<and> hm_get (db_heights db) h = Some (Block_hash e b)"
  using assms spec [of "\<lambda>n. n \<le> unat (tip_height (db_tip db)) \<longrightarrow> linked_at e db n" "unat h"]
  by (auto simp: chain_linked_def word_le_nat_alt linked_at_def)

lemma rollback_state:
  assumes linked: "chain_linked e db" and below: "t < tip_height (db_tip db)"
  shows "(\<forall>k. hm_get (db_heights (rollback_to e db t)) k
      = (if t < k \<and> k \<le> tip_height (db_tip db) then None else hm_get (db_heights db) k))
    \<and> db_blocks (rollback_to e db t) = db_blocks db
    \<and> (\<exists>b. get_block_by_height db t = Some b \<and> hm_get (db_heights db) t = Some (Block_hash e b)
         \<and> db_tip (rollback_to e db t) = \<lparr>tip_height = t, tip_hash = Block_hash e b,
              tip_total_difficulty = calculate_total_difficulty (rollback_to e db t) t\<rparr>)"
proof -
  let ?hs = "rev (map (of_nat :: nat \<Rightarrow> u64) [unat t + 1 ..< unat (tip_height (db_tip db)) + 1])"
  let ?db = "foldl (undo_at e) db ?hs"
  note hs = heights_above [OF below]
  have "\<forall>h \<in> set ?hs. \<exists>b. get_block_by_height db h = Some b \<and> Block_height b = h"
    unfolding hs(1) using linked_heights [OF linked] by blast
  note cols = undo_list_columns [OF hs(2) this, of e, unfolded hs(1)]
  obtain b where b: "get_block_by_height db t = Some b" "hm_get (db_heights db) t = Some (Block_hash e b)"
    using linked_heights [OF linked, of t] below by force
  have b': "get_block_by_height ?db t = Some b"
    using b(1) cols get_block_by_height_cong [of ?db t db] by simp
  let ?tip = "\<lparr>tip_height = t, tip_hash = Block_hash e b,
                tip_total_difficulty = calculate_total_difficulty ?db t\<rparr>"
  have rb: "rollback_to e db t = ?db\<lparr>db_meta_tip := Some ?tip, db_tip := ?tip\<rparr>"
    using below b' by (simp add: rollback_to_def get_tip_def Let_def)
  have "get_block_by_height (rollback_to e db t) = get_block_by_height ?db"
    by (rule ext, rule get_block_by_height_cong) (simp_all add: rb)
  then have "calculate_total_difficulty (rollback_to e db t) t = calculate_total_difficulty ?db t"
    by (simp add: calculate_total_difficulty_def)
  then show ?thesis using b cols by (simp add: rb)
qed

lemma rollback_linked:
  assumes linked: "chain_linked e db"
  shows "chain_linked e (rollback_to e db t)"
proof (cases "t < tip_height (db_tip db)")
  case True
  note st = rollback_state [OF linked True]
  let ?db = "rollback_to e db t"
  have tip: "tip_height (db_tip ?db) = t" using st by auto
  have keep: "hm_get (db_heights ?db) (of_nat n) = hm_get (db_heights db) (of_nat n)" if "n \<le> unat t" for n
  proof -
    have "\<not> t < (of_nat n :: u64)"
      using that unat_less_power [of t] by (simp add: word_less_nat_alt unat_of_nat_small)
    then show ?thesis using st by simp
  qed
  have "linked_at e ?db n" if "n \<le> unat t" for n
  proof -
    have "n \<le> unat (tip_height (db_tip db))" using that True by (simp add: word_less_nat_alt)
    then have "linked_at e db n" using linked by (simp add: chain_linked_def)
    moreover have "get_block_by_height ?db (of_nat n) = get_block_by_height db (of_nat n)"
      using keep [OF that] st by (intro get_block_by_height_cong) simp_all
    ultimately show ?thesis
      unfolding linked_at_def keep [OF that] keep [OF le_trans [OF diff_le_self that]] by simp
  qed
  then show ?thesis using tip st keep [of "unat t"] by (auto simp: chain_linked_def)
next
  case False
  then show ?thesis using linked by (simp add: rollback_to_def get_tip_def not_less)
qed

lemma reachable_linked: "chain_reachable e network db \<Longrightarrow> chain_linked e db"
  by (induction rule: chain_reachable.induct) (auto simp: opened_linked commit_linked rollback_linked)

lemma total_difficulty_fold:
  "unat (foldl (\<lambda>total h. case get_block_by_height db h of
        Some block \<Rightarrow> saturating_add total (hdr_difficulty (blk_header block)) | None \<Rightarrow> total) acc hs)
    = min (unat acc + sum_list (map (\<lambda>h. case get_block_by_height db h of
        Some block \<Rightarrow> unat (hdr_difficulty (blk_header block)) | None \<Rightarrow> 0) hs)) (2 ^ 64 - 1)"
proof (induction hs arbitrary: acc)
  case Nil
  show ?case using unat_less_power [of acc] by (simp add: min_def)
next
  case (Cons h hs)
  show ?case
    by (simp add: Cons split: option.split) (simp add: unat_saturating_add min_def)
qed

subsection \<open>Properties\<close>

text \<open>
  C4. The stored unspent outputs after a commit are exactly the ledger the block describes: every
  transaction in turn removes what it spends and adds one entry per output under its own id.
\<close>

theorem commit_refines_ledger:
  assumes "commit_block e db b = Ok db'"
    and "\<forall>tx \<in> set (blk_transactions b). length (tx_outputs tx) \<le> 2 ^ 32"
  shows "get_utxo db' = ledger_block e (get_utxo db) b"
  unfolding get_utxo_def [abs_def] ledger_block_def commit_block_columns(4) [OF assms(1)]
  using assms(2) by (rule tx_batches_get)

text \<open>
  C5. From a freshly opened database, through any commits and rollbacks, the chain stays linked: every
  height up to the tip has a stored block of that height whose parent is the block one lower, and
  the tip is the block at the tip height (as long as no committed block takes the hash of a different
  stored header).
\<close>

theorem chain_stays_linked:
  assumes "chain_reachable e network db" and "n \<le> unat (tip_height (get_tip db))"
  shows "linked_at e db n
    \<and> hm_get (db_heights db) (tip_height (get_tip db)) = Some (tip_hash (get_tip db))"
  using reachable_linked [OF assms(1)] assms(2) by (simp add: chain_linked_def get_tip_def)

text \<open>
  C24. A rollback of a linked chain below its tip lands on the stored block of the target height, forgets
  every height above it and keeps the heights below, and recomputes the total difficulty as the sum
  of the remaining difficulties, capped at the largest \<open>u64\<close>.
\<close>

theorem rollback_lands_on_target:
  assumes "chain_linked e db" and "t < tip_height (get_tip db)"
  shows "(\<exists>b. get_block_by_height db t = Some b
        \<and> tip_height (get_tip (rollback_to e db t)) = t
        \<and> tip_hash (get_tip (rollback_to e db t)) = Block_hash e b)
    \<and> (\<forall>h. get_block_by_height (rollback_to e db t) h
         = (if t < h \<and> h \<le> tip_height (get_tip db) then None else get_block_by_height db h))
    \<and> unat (total_difficulty (rollback_to e db t))
        = min (\<Sum>h\<leftarrow>heights_upto t. case get_block_by_height (rollback_to e db t) h of
                 Some block \<Rightarrow> unat (hdr_difficulty (blk_header block)) | None \<Rightarrow> 0) (2 ^ 64 - 1)"
proof -
  note st = rollback_state [OF assms(1) assms(2) [unfolded get_tip_def]]
  have "get_block_by_height (rollback_to e db t) h
      = (if t < h \<and> h \<le> tip_height (get_tip db) then None else get_block_by_height db h)" for h
    using st by (simp add: get_block_by_height_alt get_tip_def split: option.split)
  moreover have "unat (calculate_total_difficulty (rollback_to e db t) t)
      = min (\<Sum>h\<leftarrow>heights_upto t. case get_block_by_height (rollback_to e db t) h of
                 Some block \<Rightarrow> unat (hdr_difficulty (blk_header block)) | None \<Rightarrow> 0) (2 ^ 64 - 1)"
    unfolding calculate_total_difficulty_def total_difficulty_fold by simp
  ultimately show ?thesis
    using st by (auto simp: get_tip_def total_difficulty_def)
qed

text \<open>
  Undoing a block does not give back what it spent: after a block is committed and the chain is
  rolled back to the height before, every output the block spent is gone from the unspent set,
  although it was there before the block.
\<close>

theorem rollback_loses_spent_outputs:
  assumes "commit_block e db b = Ok db'" and "Block_height b \<noteq> 0"
    and "tx \<in> set (blk_transactions b)" and "q \<in> tx_spent tx"
    and "\<forall>tx \<in> set (blk_transactions b). length (tx_outputs tx) \<le> 2 ^ 32"
  shows "get_utxo (rollback_to e db' (tip_height (get_tip db))) q = None"
proof -
  note cols = commit_block_columns [OF assms(1)]
  let ?h = "Block_height b" and ?t = "tip_height (db_tip db)"
  have h: "?h = ?t + 1" "unat ?h = unat ?t + 1"
    using assms(1,2) by (auto simp: commit_block_Ok_iff unat_add_one)
  have tip: "tip_height (db_tip db') = ?h" by (simp add: cols commit_tip_def)
  have b: "get_block_by_height db' ?h = Some b"
    by (simp add: cols get_block_by_height_alt)
  have below: "\<not> ?h \<le> ?t" using h(2) by (simp add: word_le_nat_alt)
  have range: "rev (map (of_nat :: nat \<Rightarrow> u64) [unat ?t + 1 ..< unat ?h + 1]) = [?h]"
    using h by simp
  have rolled: "db_utxo (rollback_to e db' ?t) = db_utxo (undo_block e db' b)"
    using below range b tip
    by (simp add: rollback_to_def get_tip_def Let_def undo_at_def split: option.split)
  have "hm_get (db_utxo db') q = foldl (ledger_tx e ?h) (hm_get (db_utxo db)) (blk_transactions b) q"
    unfolding cols(4) using tx_batches_get [OF assms(5)] by metis
  then have "hm_get (db_utxo (undo_block e db' b)) q = None"
    using ledger_created_or_unspent [OF _ assms(3,4)] assms(5) tx_created_iff
    by (fastforce simp: undo_block_columns undo_txs_get)
  then show ?thesis by (simp add: get_utxo_def get_tip_def rolled)
qed

text \<open>
  A freshly opened database has the genesis block as its tip and passes the genesis check, but its
  unspent set is empty: the outputs of the genesis block, the devnet faucet's among them, cannot be
  found, so no address has a balance.
\<close>

theorem open_stores_no_genesis_outputs:
  assumes "ChainDB_open e network ChainDB_empty = Ok db"
    and "network \<in> {NetworkId_MAINNET, NetworkId_TESTNET, NetworkId_DEVNET}"
  shows "get_block_by_height db 0 = Some (genesis_block e network)
    \<and> validate_stored_genesis e db = Ok ()
    \<and> get_utxo db q = None \<and> get_balance_for_address db a = 0"
proof -
  have "expected_genesis_hash e network = Block_hash e (genesis_block e network)"
    using assms(2) by (auto simp: expected_genesis_hash_def)
  then show ?thesis
    by (simp add: opened_state [OF assms(1)] get_block_by_height_alt hm_get_def get_utxo_def
        get_balance_for_address_def get_utxos_for_address_def validate_stored_genesis_def genesis_hash_def)
qed

lemma height_zero_resets_tip:
  assumes "Block_height b = 0" and "ext_bincode_block e b \<noteq> None"
  shows "\<exists>db'. commit_block e db b = Ok db' \<and> tip_height (get_tip db') = 0
    \<and> tip_hash (get_tip db') = Block_hash e b"
  using assms by (auto simp: commit_block_Ok_iff get_tip_def commit_tip_def)

subsection \<open>Witnesses\<close>

definition sample_db :: ChainDB where
  "sample_db =
     (case ChainDB_open sample_ext NetworkId_DEVNET ChainDB_empty of Inr db \<Rightarrow> db | Inl _ \<Rightarrow> ChainDB_empty)"

definition sample_block :: Block where
  "sample_block =
     Block_new (sample_header\<lparr>hdr_version := 2, hdr_parent_hash := tip_hash (get_tip sample_db)\<rparr>)
       [Transaction_coinbase 1 50 address_zero, sample_tx 5]"

definition sample_db1 :: ChainDB where
  "sample_db1 = (case commit_block sample_ext sample_db sample_block of Inr db \<Rightarrow> db | Inl _ \<Rightarrow> sample_db)"

lemma sample_open: "ChainDB_open sample_ext NetworkId_DEVNET ChainDB_empty = Ok sample_db"
  by (simp add: sample_db_def ChainDB_open_def ChainDB_empty_def Let_def sample_ext_def)

lemma sample_block_height [simp]: "Block_height sample_block = 1"
  by (simp add: sample_block_def Block_height_def Block_new_def sample_header_def)

lemma sample_block_parent: "hdr_parent_hash (blk_header sample_block) = tip_hash (db_tip sample_db)"
  by (simp add: sample_block_def Block_new_def get_tip_def)

lemma sample_bincode_block: "ext_bincode_block sample_ext b = Some []"
  by (simp add: sample_ext_def)

lemma sample_hash_version:
  "hd (h256_bytes (BlockHeader_hash sample_ext h)) = of_nat (unat (hdr_version h))"
  by (simp add: BlockHeader_hash_preimage header_preimage_def BlockHeader_pow_input_def sample_ext_def
      sample_digest_def h256_from_slice_def copy_padded_def u32_to_le_bytes_def le_bytes_numeral)

lemma sample_commit: "commit_block sample_ext sample_db sample_block = Ok sample_db1"
proof -
  have "\<exists>db. commit_block sample_ext sample_db sample_block = Ok db"
    unfolding commit_block_Ok_iff sample_block_height
    by (simp add: opened_state(3) [OF sample_open] sample_block_parent sample_bincode_block)
  then show ?thesis by (auto simp: sample_db1_def)
qed

lemma sample_block_small: "\<forall>tx \<in> set (blk_transactions sample_block). length (tx_outputs tx) \<le> 2 ^ 32"
  by (simp add: sample_block_def Block_new_def Transaction_coinbase_def sample_tx_def Transaction_new_def)

lemma sample_db_tip: "tip_height (get_tip sample_db) = 0" "tip_height (get_tip sample_db1) = 1"
  by (simp_all add: get_tip_def opened_state(3) [OF sample_open] commit_block_columns(3) [OF sample_commit]
      commit_tip_def)

lemma sample_no_clash: "no_clash sample_ext sample_db sample_block"
proof -
  let ?g = "genesis_block sample_ext NetworkId_DEVNET"
  have "BlockHeader_hash sample_ext (blk_header sample_block) \<noteq> BlockHeader_hash sample_ext (blk_header ?g)"
    by (auto dest!: arg_cong [of _ _ "\<lambda>h. hd (h256_bytes h)"] simp: sample_hash_version sample_block_def
        Block_new_def genesis_block_def Let_def split: prod.splits)
  then show ?thesis
    by (simp add: no_clash_def get_block_def opened_state(2) [OF sample_open] hm_get_def Block_hash_def)
qed

lemma sample_reachable: "chain_reachable sample_ext NetworkId_DEVNET sample_db1"
  by (rule chain_reachable.committed [OF chain_reachable.opened [OF sample_open] sample_no_clash sample_commit])

theorem commit_refines_ledger_witness:
  "get_utxo sample_db1 = ledger_block sample_ext (get_utxo sample_db) sample_block"
  by (rule commit_refines_ledger [OF sample_commit sample_block_small])

theorem chain_stays_linked_witness: "linked_at sample_ext sample_db1 1"
  using chain_stays_linked [OF sample_reachable, of 1] by (simp add: sample_db_tip)

theorem rollback_lands_on_target_witness:
  "tip_height (get_tip (rollback_to sample_ext sample_db1 0)) = 0
    \<and> get_block_by_height (rollback_to sample_ext sample_db1 0) 1 = None"
  using rollback_lands_on_target [OF reachable_linked [OF sample_reachable], of 0]
  by (auto simp: sample_db_tip)

theorem rollback_loses_spent_outputs_witness:
  "get_utxo (rollback_to sample_ext sample_db1 0) (OutPoint_new h256_zero 0) = None"
proof -
  have "sample_tx 5 \<in> set (blk_transactions sample_block)"
    by (simp add: sample_block_def Block_new_def)
  moreover have "OutPoint_new h256_zero 0 \<in> tx_spent (sample_tx 5)"
    by (simp add: tx_spent_def sample_tx_def Transaction_new_def TxInput_new_def TxInput_is_coinbase_def
        OutPoint_is_coinbase_def OutPoint_new_def)
  ultimately show ?thesis
    using rollback_loses_spent_outputs [OF sample_commit _ _ _ sample_block_small]
    by (simp add: sample_db_tip)
qed

theorem open_stores_no_genesis_outputs_witness:
  "validate_stored_genesis sample_ext sample_db = Ok ()
    \<and> get_balance_for_address sample_db (Address (replicate 20 0x11)) = 0"
  using open_stores_no_genesis_outputs [OF sample_open] by simp

end
