(* ===== verification/Validation.thy ===== *)
theory Validation
  imports Chain_DB
begin

section \<open>Block and transaction validation\<close>

text \<open>
  \<open>pyrax-node/src/validation/mod.rs\<close>: the checks a block, a header and a pool transaction go through.
  The clock is the argument \<open>now\<close>. Sums of values are \<open>u64\<close> sums, which wrap around in a release
  build. The messages of an error keep their fixed text, not the formatted numbers.
\<close>

datatype ValidationError =
    InvalidBlockHash
  | InvalidPoW
  | InvalidMerkleRoot
  | InvalidParentHash h256 h256
  | InvalidHeight u64 u64
  | InvalidTimestamp string
  | MissingCoinbase
  | InvalidCoinbase string
  | UtxoNotFound OutPoint
  | UtxoNotMature
  | DoubleSpend OutPoint
  | InvalidTransaction string
  | InsufficientFunds u64 u64
  | InvalidSignature
  | InvalidScript
  | BlockTooLarge nat nat
  | TooManyTransactions nat nat
  | StorageFailure string

definition MAX_BLOCK_SIZE :: nat where "MAX_BLOCK_SIZE = 1000000"

definition MAX_TRANSACTIONS_PER_BLOCK :: nat where "MAX_TRANSACTIONS_PER_BLOCK = 5000"

subsection \<open>Signatures\<close>

definition hash160 :: "ext \<Rightarrow> u8 list \<Rightarrow> u8 list" where
  "hash160 e data = ext_ripemd160 e (ext_sha256 e data)"

text \<open>The signature: raw when 64 bytes long, otherwise DER with an optional trailing \<open>0x01\<close>.\<close>

definition parse_signature :: "ext \<Rightarrow> u8 list \<Rightarrow> u8 list option" where
  "parse_signature e sig =
     (if length sig = 64 then ext_sig_from_slice e sig
      else ext_sig_from_der e (if sig \<noteq> [] \<and> last sig = 0x01 then butlast sig else sig))"

definition verify_p2pkh_signature ::
  "ext \<Rightarrow> u8 list \<Rightarrow> u8 list \<Rightarrow> h256 \<Rightarrow> ValidationError + unit" where
  "verify_p2pkh_signature e script_sig script_pubkey signing_hash =
     (if length script_sig < 2 then Err InvalidScript
      else let sig_len = unat (script_sig ! 0) in
      if length script_sig < 1 + sig_len + 1 then Err InvalidScript
      else let signature_bytes = take sig_len (drop 1 script_sig);
               pubkey_len = unat (script_sig ! (1 + sig_len)) in
      if length script_sig < 1 + sig_len + 1 + pubkey_len then Err InvalidScript
      else let pubkey_bytes = take pubkey_len (drop (1 + sig_len + 1) script_sig) in
      if \<not> is_p2pkh_script script_pubkey then Err InvalidScript
      else if hash160 e pubkey_bytes \<noteq> take 20 (drop 3 script_pubkey) then Err InvalidSignature
      else case parse_signature e signature_bytes of
        None \<Rightarrow> Err InvalidSignature
      | Some signature \<Rightarrow>
          (case ext_key_from_sec1 e pubkey_bytes of
             None \<Rightarrow> Err InvalidSignature
           | Some verifying_key \<Rightarrow>
               if ext_verify e verifying_key (h256_bytes signing_hash) signature
               then Ok () else Err InvalidSignature))"

definition signing_input :: "nat \<Rightarrow> u8 list \<Rightarrow> nat \<times> TxInput \<Rightarrow> u8 list" where
  "signing_input input_index prev_script = (\<lambda>(i, input).
     h256_bytes (op_txid (in_previous_output input)) @ u32_to_le_bytes (op_vout (in_previous_output input))
     @ (if i = input_index
        then u32_to_le_bytes (of_nat (length prev_script)) @ prev_script
        else u32_to_le_bytes 0)
     @ u32_to_le_bytes (in_sequence input))"

definition signing_output :: "TxOutput \<Rightarrow> u8 list" where
  "signing_output output =
     u64_to_le_bytes (out_value output)
     @ u32_to_le_bytes (of_nat (length (out_script output))) @ out_script output"

definition signing_preimage :: "Transaction \<Rightarrow> nat \<Rightarrow> u8 list \<Rightarrow> u8 list" where
  "signing_preimage tx input_index prev_script =
     u32_to_le_bytes (tx_version tx) @ u32_to_le_bytes (of_nat (length (tx_inputs tx)))
     @ concat (map (signing_input input_index prev_script) (List.enumerate 0 (tx_inputs tx)))
     @ u32_to_le_bytes (of_nat (length (tx_outputs tx)))
     @ concat (map signing_output (tx_outputs tx))
     @ u32_to_le_bytes (tx_lock_time tx) @ u32_to_le_bytes 1"

definition compute_signing_hash :: "ext \<Rightarrow> Transaction \<Rightarrow> nat \<Rightarrow> u8 list \<Rightarrow> h256" where
  "compute_signing_hash e tx input_index prev_script =
     h256_from_slice (ext_keccak256 e (signing_preimage tx input_index prev_script))"

subsection \<open>Transactions\<close>

text \<open>\<open>tx.inputs.iter().position(|i| &i.previous_output == outpoint)\<close>\<close>

definition input_position :: "Transaction \<Rightarrow> OutPoint \<Rightarrow> nat" where
  "input_position tx q = length (takeWhile (\<lambda>i. in_previous_output i \<noteq> q) (tx_inputs tx))"

fun validate_inputs ::
  "ext \<Rightarrow> ChainDB \<Rightarrow> Transaction \<Rightarrow> u64 \<Rightarrow> TxInput list \<Rightarrow> OutPoint set \<Rightarrow> u64
    \<Rightarrow> ValidationError + (OutPoint set \<times> u64)" where
  "validate_inputs e db tx height [] spent total_input = Ok (spent, total_input)"
| "validate_inputs e db tx height (input # rest) spent total_input =
     (let q = in_previous_output input in
      if q \<in> spent then Err (DoubleSpend q)
      else case get_utxo db q of
        None \<Rightarrow> Err (UtxoNotFound q)
      | Some utxo \<Rightarrow>
          if \<not> Utxo_is_mature utxo height then Err UtxoNotMature
          else let script = out_script (utxo_output utxo) in
            and_then (verify_p2pkh_signature e (in_script_sig input) script
                       (compute_signing_hash e tx (input_position tx q) script))
              (\<lambda>_. validate_inputs e db tx height rest (insert q spent)
                     (total_input + out_value (utxo_output utxo))))"

definition validate_transaction ::
  "ext \<Rightarrow> ChainDB \<Rightarrow> Transaction \<Rightarrow> u64 \<Rightarrow> OutPoint set \<Rightarrow> ValidationError + OutPoint set" where
  "validate_transaction e db tx height spent =
     (if tx_inputs tx = [] then Err (InvalidTransaction ''Transaction has no inputs'')
      else if tx_outputs tx = [] then Err (InvalidTransaction ''Transaction has no outputs'')
      else and_then (validate_inputs e db tx height (tx_inputs tx) spent 0)
        (\<lambda>(spent', total_input).
           let total_output = Transaction_total_output tx in
           if total_input < total_output then Err (InsufficientFunds total_input total_output)
           else Ok spent'))"

definition validate_coinbase :: "Transaction \<Rightarrow> u64 \<Rightarrow> ValidationError + unit" where
  "validate_coinbase tx height =
     (if \<not> Transaction_is_coinbase tx
      then Err (InvalidCoinbase ''First transaction must be coinbase'')
      else if length (tx_inputs tx) \<noteq> 1
      then Err (InvalidCoinbase ''Coinbase must have exactly one input'')
      else if tx_outputs tx = []
      then Err (InvalidCoinbase ''Coinbase must have at least one output'')
      else if block_reward StreamA < Transaction_total_output tx
      then Err (InvalidCoinbase ''Coinbase output exceeds max reward'')
      else Ok ())"

fun validate_tx_list ::
  "ext \<Rightarrow> ChainDB \<Rightarrow> u64 \<Rightarrow> Transaction list \<Rightarrow> OutPoint set \<Rightarrow> ValidationError + OutPoint set" where
  "validate_tx_list e db height [] spent = Ok spent"
| "validate_tx_list e db height (tx # txs) spent =
     and_then (validate_transaction e db tx height spent) (validate_tx_list e db height txs)"

definition validate_transactions :: "ext \<Rightarrow> ChainDB \<Rightarrow> Block \<Rightarrow> ValidationError + unit" where
  "validate_transactions e db block =
     (case blk_transactions block of
        [] \<Rightarrow> Ok ()
      | coinbase # txs \<Rightarrow>
          and_then (validate_coinbase coinbase (Block_height block))
            (\<lambda>_. and_then (validate_tx_list e db (Block_height block) txs {}) (\<lambda>_. Ok ())))"

subsection \<open>Blocks\<close>

definition validate_structure :: "ext \<Rightarrow> Block \<Rightarrow> ValidationError + unit" where
  "validate_structure e block =
     (let size = length (case ext_bincode_block e block of None \<Rightarrow> [] | Some d \<Rightarrow> d);
          count = length (blk_transactions block) in
      if MAX_BLOCK_SIZE < size then Err (BlockTooLarge size MAX_BLOCK_SIZE)
      else if MAX_TRANSACTIONS_PER_BLOCK < count
      then Err (TooManyTransactions count MAX_TRANSACTIONS_PER_BLOCK)
      else if 0 < Block_height block \<and> blk_transactions block = [] then Err MissingCoinbase
      else Ok ())"

definition validate_pow :: "ext \<Rightarrow> Block \<Rightarrow> ValidationError + unit" where
  "validate_pow e block = fail_if (\<not> BlockHeader_verify_pow e (blk_header block)) InvalidPoW"

definition validate_chain_link :: "Block \<Rightarrow> ChainDB \<Rightarrow> ValidationError + unit" where
  "validate_chain_link block db =
     (let tip = get_tip db; parent = hdr_parent_hash (blk_header block) in
      if Block_height block = 0
      then fail_if (parent \<noteq> h256_zero) (InvalidParentHash h256_zero parent)
      else if parent \<noteq> tip_hash tip then Err (InvalidParentHash (tip_hash tip) parent)
      else let expected_height = tip_height tip + 1 in
        fail_if (Block_height block \<noteq> expected_height)
          (InvalidHeight expected_height (Block_height block)))"

definition validate_merkle :: "ext \<Rightarrow> Block \<Rightarrow> ValidationError + unit" where
  "validate_merkle e block = fail_if (\<not> Block_verify_merkle e block) InvalidMerkleRoot"

definition validate_timestamp :: "u64 \<Rightarrow> Block \<Rightarrow> ChainDB \<Rightarrow> ValidationError + unit" where
  "validate_timestamp now block db =
     (let ts = hdr_timestamp (blk_header block) in
      if now + 7200 < ts then Err (InvalidTimestamp ''Block timestamp too far in future'')
      else if 0 < Block_height block then
        (case get_block db (hdr_parent_hash (blk_header block)) of
           None \<Rightarrow> Ok ()
         | Some parent \<Rightarrow>
             fail_if (ts < hdr_timestamp (blk_header parent))
               (InvalidTimestamp ''Block timestamp before parent''))
      else Ok ())"

definition validate_block :: "ext \<Rightarrow> u64 \<Rightarrow> Block \<Rightarrow> ChainDB \<Rightarrow> ValidationError + unit" where
  "validate_block e now block db =
     and_then (validate_structure e block) (\<lambda>_.
     and_then (validate_pow e block) (\<lambda>_.
     and_then (validate_chain_link block db) (\<lambda>_.
     and_then (validate_merkle e block) (\<lambda>_.
     and_then (validate_timestamp now block db) (\<lambda>_.
     validate_transactions e db block)))))"

text \<open>The parent lookup of \<open>validate_header\<close> has an empty body, so it decides nothing.\<close>

definition validate_header :: "ext \<Rightarrow> u64 \<Rightarrow> BlockHeader \<Rightarrow> ChainDB \<Rightarrow> ValidationError + unit" where
  "validate_header e now header db =
     (if \<not> BlockHeader_verify_pow e header then Err InvalidPoW
      else if now + 7200 < hdr_timestamp header
      then Err (InvalidTimestamp ''Block timestamp is too far in the future'')
      else Ok ())"

subsection \<open>Pool transactions\<close>

fun mempool_inputs ::
  "ChainDB \<Rightarrow> u64 \<Rightarrow> TxInput list \<Rightarrow> u64 \<Rightarrow> ValidationError + u64" where
  "mempool_inputs db height [] total_input = Ok total_input"
| "mempool_inputs db height (input # rest) total_input =
     (case get_utxo db (in_previous_output input) of
        None \<Rightarrow> Err (UtxoNotFound (in_previous_output input))
      | Some utxo \<Rightarrow>
          if \<not> Utxo_is_mature utxo height then Err UtxoNotMature
          else mempool_inputs db height rest (total_input + out_value (utxo_output utxo)))"

definition validate_mempool_tx :: "Transaction \<Rightarrow> ChainDB \<Rightarrow> ValidationError + unit" where
  "validate_mempool_tx tx db =
     (if Transaction_is_coinbase tx
      then Err (InvalidTransaction ''Coinbase not allowed in mempool'')
      else if tx_inputs tx = [] \<or> tx_outputs tx = []
      then Err (InvalidTransaction ''Transaction must have inputs and outputs'')
      else and_then (mempool_inputs db (tip_height (get_tip db)) (tx_inputs tx) 0)
        (\<lambda>total_input.
           let total_output = Transaction_total_output tx in
           fail_if (total_input < total_output) (InsufficientFunds total_input total_output)))"

subsection \<open>What an accepted transaction guarantees\<close>

definition input_outpoints :: "Transaction \<Rightarrow> OutPoint list" where
  "input_outpoints tx = map in_previous_output (tx_inputs tx)"

definition utxo_value :: "Utxo \<Rightarrow> nat" where
  "utxo_value u = unat (out_value (utxo_output u))"

definition output_sum :: "Transaction \<Rightarrow> nat" where
  "output_sum tx = sum_list (map (\<lambda>t. unat (out_value t)) (tx_outputs tx))"

definition input_sum :: "ChainDB \<Rightarrow> Transaction \<Rightarrow> nat" where
  "input_sum db tx = sum_list (map (\<lambda>q. held utxo_value (get_utxo db q)) (input_outpoints tx))"

definition input_authorised :: "ext \<Rightarrow> ChainDB \<Rightarrow> Transaction \<Rightarrow> u64 \<Rightarrow> TxInput \<Rightarrow> bool" where
  "input_authorised e db tx height i =
     (case get_utxo db (in_previous_output i) of
        None \<Rightarrow> False
      | Some u \<Rightarrow>
          Utxo_is_mature u height
          \<and> verify_p2pkh_signature e (in_script_sig i) (out_script (utxo_output u))
              (compute_signing_hash e tx (input_position tx (in_previous_output i))
                 (out_script (utxo_output u))) = Ok ())"

lemma validate_inputs_Ok:
  assumes "validate_inputs e db tx h ins S t = Ok (S', t')"
  shows "distinct (map in_previous_output ins) \<and> S \<inter> set (map in_previous_output ins) = {}
    \<and> S' = S \<union> set (map in_previous_output ins)
    \<and> (\<forall>i \<in> set ins. input_authorised e db tx h i)
    \<and> unat t' \<le> unat t + sum_list (map (\<lambda>i. held utxo_value (get_utxo db (in_previous_output i))) ins)"
  using assms
proof (induction ins arbitrary: S t)
  case (Cons i ins)
  let ?q = "in_previous_output i"
  from Cons.prems obtain u where u: "get_utxo db ?q = Some u" "Utxo_is_mature u h" "?q \<notin> S"
    and sig: "verify_p2pkh_signature e (in_script_sig i) (out_script (utxo_output u))
      (compute_signing_hash e tx (input_position tx ?q) (out_script (utxo_output u))) = Ok ()"
    and rest: "validate_inputs e db tx h ins (insert ?q S) (t + out_value (utxo_output u)) = Ok (S', t')"
    by (auto simp: Let_def and_then_Ok_iff split: if_splits option.splits)
  have "unat (t + out_value (utxo_output u)) \<le> unat t + utxo_value u"
    using unat_sum_list_le [of "[t, out_value (utxo_output u)]"] by (simp add: utxo_value_def)
  with Cons.IH [OF rest] u sig show ?case
    by (auto simp: input_authorised_def)
qed simp

lemma validate_transaction_Ok:
  assumes "validate_transaction e db tx h S = Ok S'"
  shows "distinct (input_outpoints tx)" and "S \<inter> set (input_outpoints tx) = {}"
    and "S' = S \<union> set (input_outpoints tx)"
    and "\<forall>i \<in> set (tx_inputs tx). input_authorised e db tx h i"
    and "unat (Transaction_total_output tx) \<le> input_sum db tx"
proof -
  from assms obtain t where ins: "validate_inputs e db tx h (tx_inputs tx) S 0 = Ok (S', t)"
    and sum: "Transaction_total_output tx \<le> t"
    by (auto simp: validate_transaction_def and_then_Ok_iff Let_def not_less split: if_splits prod.splits)
  note ok = validate_inputs_Ok [OF ins]
  show "distinct (input_outpoints tx)" "S \<inter> set (input_outpoints tx) = {}"
    "S' = S \<union> set (input_outpoints tx)" "\<forall>i \<in> set (tx_inputs tx). input_authorised e db tx h i"
    using ok by (simp_all add: input_outpoints_def)
  show "unat (Transaction_total_output tx) \<le> input_sum db tx"
    using ok sum by (simp add: input_sum_def input_outpoints_def word_le_nat_alt comp_def)
qed

lemma validate_tx_list_Ok:
  assumes "validate_tx_list e db h txs S = Ok S'"
  shows "distinct (concat (map input_outpoints txs)) \<and> S \<inter> set (concat (map input_outpoints txs)) = {}
    \<and> (\<forall>tx \<in> set txs. distinct (input_outpoints tx)
        \<and> (\<forall>i \<in> set (tx_inputs tx). input_authorised e db tx h i)
        \<and> unat (Transaction_total_output tx) \<le> input_sum db tx)"
  using assms
proof (induction txs arbitrary: S)
  case (Cons tx txs)
  from Cons.prems obtain S1 where tx: "validate_transaction e db tx h S = Ok S1"
    and rest: "validate_tx_list e db h txs S1 = Ok S'"
    by (auto simp: and_then_Ok_iff)
  show ?case
    using Cons.IH [OF rest] validate_transaction_Ok [OF tx] by auto
qed simp

lemma validate_block_Ok_iff:
  "validate_block e now b db = Ok () \<longleftrightarrow>
     validate_structure e b = Ok () \<and> validate_pow e b = Ok () \<and> validate_chain_link b db = Ok ()
     \<and> validate_merkle e b = Ok () \<and> validate_timestamp now b db = Ok ()
     \<and> validate_transactions e db b = Ok ()"
  by (simp add: validate_block_def and_then_Ok_iff)

lemma validate_transactions_Ok:
  assumes "validate_transactions e db b = Ok ()" and "blk_transactions b = cb # txs"
  shows "Transaction_is_coinbase cb" and "Transaction_total_output cb \<le> block_reward StreamA"
    and "\<exists>S. validate_tx_list e db (Block_height b) txs {} = Ok S"
  using assms
  by (auto simp: validate_transactions_def and_then_Ok_iff validate_coinbase_def not_less split: if_splits)

lemma input_position_distinct:
  assumes "distinct (input_outpoints tx)" and "k < length (tx_inputs tx)"
  shows "input_position tx (in_previous_output (tx_inputs tx ! k)) = k"
proof -
  let ?is = "tx_inputs tx" and ?q = "in_previous_output (tx_inputs tx ! k)"
  have "takeWhile (\<lambda>i. in_previous_output i \<noteq> ?q) ?is = take k ?is"
  proof (rule takeWhile_eq_take_P_nth)
    fix j assume "j < k" "j < length ?is"
    then show "in_previous_output (?is ! j) \<noteq> ?q"
      using assms nth_eq_iff_index_eq [OF assms(1), of j k] by (auto simp: input_outpoints_def)
  next
    assume "k < length ?is"
    then show "\<not> in_previous_output (?is ! k) \<noteq> ?q" by simp
  qed
  then show ?thesis using assms(2) by (simp add: input_position_def)
qed

subsection \<open>Value accounting of a commit\<close>

fun utxo_op :: "batch_op \<Rightarrow> (OutPoint \<times> Utxo option) list" where
  "utxo_op (PutUtxo q u) = [(q, Some u)]"
| "utxo_op (DelUtxo q) = [(q, None)]"
| "utxo_op _ = []"

lemma utxo_effect_upd:
  "fold utxo_effect batch m = fold (batch_upd hm_insert hm_remove) (concat (map utxo_op batch)) m"
proof (induction batch arbitrary: m)
  case (Cons x batch)
  then show ?case by (cases x) simp_all
qed simp

lemma tx_batch_parts:
  "batch_dels (concat (map utxo_op (tx_batch e bh h (n, tx))))
    = map in_previous_output (filter (\<lambda>i. \<not> TxInput_is_coinbase i) (tx_inputs tx))"
  "sum_list (map utxo_value (batch_puts (concat (map utxo_op (tx_batch e bh h (n, tx)))))) = output_sum tx"
proof -
  have dels: "batch_dels (concat (map utxo_op (concat (map (spend_batch bh) is))))
      = map in_previous_output (filter (\<lambda>i. \<not> TxInput_is_coinbase i) is)"
    "batch_puts (concat (map utxo_op (concat (map (spend_batch bh) is)))) = []" for "is"
    by (induction "is") (simp_all add: spend_batch_def)
  have puts: "batch_dels (concat (map utxo_op (map (create_batch t h c) nos))) = []"
    "sum_list (map utxo_value (batch_puts (concat (map utxo_op (map (create_batch t h c) nos)))))
      = sum_list (map (\<lambda>no. unat (out_value (snd no))) nos)" for t c nos
    by (induction nos) (auto simp: create_batch_def utxo_value_def Utxo_new_def)
  have "sum_list (map (\<lambda>no. unat (out_value (snd no))) (List.enumerate 0 outs))
      = sum_list (map (\<lambda>t. unat (out_value t)) outs)" for outs
    by (rule arg_cong [of _ _ sum_list]) (simp add: list_eq_iff_nth_eq nth_enumerate_eq)
  then show "batch_dels (concat (map utxo_op (tx_batch e bh h (n, tx))))
      = map in_previous_output (filter (\<lambda>i. \<not> TxInput_is_coinbase i) (tx_inputs tx))"
    "sum_list (map utxo_value (batch_puts (concat (map utxo_op (tx_batch e bh h (n, tx)))))) = output_sum tx"
    using dels puts by (simp_all add: tx_batch_def Let_def output_sum_def del: map_map)
qed

lemma tx_batches_parts:
  "batch_dels (concat (map utxo_op (concat (map (tx_batch e bh h) (List.enumerate n txs)))))
    = concat (map (\<lambda>tx. map in_previous_output (filter (\<lambda>i. \<not> TxInput_is_coinbase i) (tx_inputs tx))) txs)
    \<and> sum_list (map utxo_value (batch_puts (concat (map utxo_op
        (concat (map (tx_batch e bh h) (List.enumerate n txs))))))) = sum_list (map output_sum txs)"
proof (induction txs arbitrary: n)
  case (Cons tx txs)
  show ?case
    using Cons [of "Suc n"] tx_batch_parts [of e bh h n tx] by simp
qed simp

lemma commit_value_le:
  assumes wf: "hm_wf (db_utxo db)" and commit: "commit_block e db b = Ok db'"
    and dist: "distinct (concat (map (\<lambda>tx. map in_previous_output
      (filter (\<lambda>i. \<not> TxInput_is_coinbase i) (tx_inputs tx))) (blk_transactions b)))" (is "distinct ?ds")
  shows "weight utxo_value (db_utxo db') + sum_list (map (\<lambda>q. held utxo_value (get_utxo db q)) ?ds)
    \<le> weight utxo_value (db_utxo db) + sum_list (map output_sum (blk_transactions b))"
  using hm_weight.total_upds_le [OF wf, of "concat (map utxo_op (concat
      (map (tx_batch e (Block_hash e b) (Block_height b)) (List.enumerate 0 (blk_transactions b)))))" utxo_value]
    dist tx_batches_parts [of e "Block_hash e b" "Block_height b" 0 "blk_transactions b"]
  by (simp only: commit_block_columns(4) [OF commit] utxo_effect_upd get_utxo_def)

lemma commit_utxo_wf:
  "hm_wf (db_utxo db) \<Longrightarrow> commit_block e db b = Ok db' \<Longrightarrow> hm_wf (db_utxo db')"
  unfolding commit_block_columns(4) utxo_effect_upd by (rule hm_weight.wf_upds)

text \<open>The no-wrap condition: the true sum of each transaction's outputs fits a \<open>u64\<close>.\<close>

definition outputs_fit :: "Block \<Rightarrow> bool" where
  "outputs_fit b = (\<forall>tx \<in> set (blk_transactions b). output_sum tx < 2 ^ 64)"

lemma unat_total_output: "output_sum tx < 2 ^ 64 \<Longrightarrow> unat (Transaction_total_output tx) = output_sum tx"
  using unat_total_output_exact [of tx] by (simp add: output_sum_def)

lemma coinbase_inputs:
  "Transaction_is_coinbase tx \<Longrightarrow> filter (\<lambda>i. \<not> TxInput_is_coinbase i) (tx_inputs tx) = []"
  by (auto simp: Transaction_is_coinbase_def split: list.splits)

lemma accepted_block_no_inflation:
  assumes valid: "validate_block e now b db = Ok ()" and commit: "commit_block e db b = Ok db'"
    and wf: "hm_wf (db_utxo db)" and nocb: "get_utxo db OutPoint_coinbase = None" and fit: "outputs_fit b"
  shows "weight utxo_value (db_utxo db') \<le> weight utxo_value (db_utxo db) + 5000000000"
proof (cases "blk_transactions b")
  case Nil
  then show ?thesis using commit_value_le [OF wf commit] by simp
next
  case (Cons cb txs)
  have vt: "validate_transactions e db b = Ok ()" using valid by (simp add: validate_block_Ok_iff)
  note cb = validate_transactions_Ok [OF vt Cons]
  obtain S where "validate_tx_list e db (Block_height b) txs {} = Ok S" using cb(3) by blast
  note ok = validate_tx_list_Ok [OF this]
  have "\<not> TxInput_is_coinbase i" if "tx \<in> set txs" "i \<in> set (tx_inputs tx)" for tx i
    using ok that nocb
    by (fastforce simp: input_authorised_def TxInput_is_coinbase_def OutPoint_is_coinbase_iff split: option.splits)
  then have flt: "map in_previous_output (filter (\<lambda>i. \<not> TxInput_is_coinbase i) (tx_inputs tx))
      = input_outpoints tx" if "tx \<in> set txs" for tx
    using that by (simp add: input_outpoints_def filter_id_conv)
  have dels: "concat (map (\<lambda>tx. map in_previous_output
      (filter (\<lambda>i. \<not> TxInput_is_coinbase i) (tx_inputs tx))) (blk_transactions b))
      = concat (map input_outpoints txs)"
    using flt by (simp add: Cons coinbase_inputs [OF cb(1)] cong: map_cong)
  have "sum_list (map output_sum txs) \<le> sum_list (map (input_sum db) txs)"
    using ok fit Cons by (intro sum_list_mono) (auto simp: outputs_fit_def unat_total_output)
  moreover have "sum_list (map (input_sum db) txs)
      = sum_list (map (\<lambda>q. held utxo_value (get_utxo db q)) (concat (map input_outpoints txs)))"
    by (induction txs) (simp_all add: input_sum_def)
  moreover have "output_sum cb \<le> 5000000000"
    using cb(2) fit Cons unat_total_output [of cb] by (simp add: outputs_fit_def word_le_nat_alt)
  moreover have "weight utxo_value (db_utxo db')
      + sum_list (map (\<lambda>q. held utxo_value (get_utxo db q)) (concat (map input_outpoints txs)))
      \<le> weight utxo_value (db_utxo db) + sum_list (map output_sum (blk_transactions b))"
    using commit_value_le [OF wf commit, unfolded dels] ok by blast
  ultimately show ?thesis using Cons by simp
qed

subsection \<open>A chain of accepted blocks\<close>

definition few_outputs :: "Block \<Rightarrow> bool" where
  "few_outputs b = (\<forall>tx \<in> set (blk_transactions b). length (tx_outputs tx) < 2 ^ 32)"

text \<open>
  The runs of the validator and the database: any block the validator accepts, at any time, may be
  committed. The relation lists the blocks, so that conditions on them are premises of the theorems.
\<close>

inductive accepted_chain :: "ext \<Rightarrow> NetworkId \<Rightarrow> Block list \<Rightarrow> ChainDB \<Rightarrow> bool" for e network where
  fresh: "ChainDB_open e network ChainDB_empty = Ok db \<Longrightarrow> accepted_chain e network [] db"
| extended: "accepted_chain e network bs db \<Longrightarrow> validate_block e now b db = Ok () \<Longrightarrow>
    commit_block e db b = Ok db' \<Longrightarrow> accepted_chain e network (bs @ [b]) db'"

lemma ledger_no_coinbase:
  "\<forall>tx \<in> set txs. length (tx_outputs tx) < 2 ^ 32 \<Longrightarrow> L OutPoint_coinbase = None \<Longrightarrow>
    foldl (ledger_tx e h) L txs OutPoint_coinbase = None"
proof (induction txs rule: rev_induct)
  case (snoc tx txs)
  have "unat (- 1 :: u32) = 2 ^ 32 - 1"
    by (simp add: unsigned_minus_1_eq_mask mask_eq_exp_minus_1)
  then show ?case using snoc by (simp add: ledger_tx_def OutPoint_coinbase_def)
qed simp

lemma commit_no_coinbase:
  assumes "commit_block e db b = Ok db'" and "few_outputs b" and "get_utxo db OutPoint_coinbase = None"
  shows "get_utxo db' OutPoint_coinbase = None"
proof -
  have small: "\<forall>tx \<in> set (blk_transactions b). length (tx_outputs tx) \<le> 2 ^ 32"
    using assms(2) by (auto simp: few_outputs_def)
  have "hm_get (db_utxo db') = foldl (ledger_tx e (Block_height b)) (hm_get (db_utxo db)) (blk_transactions b)"
    unfolding commit_block_columns(4) [OF assms(1)] using small by (rule tx_batches_get)
  then show ?thesis
    using ledger_no_coinbase [of "blk_transactions b"] assms(2,3) by (simp add: get_utxo_def few_outputs_def)
qed

lemma accepted_chain_inv:
  "accepted_chain e network bs db \<Longrightarrow> (\<And>b. b \<in> set bs \<Longrightarrow> outputs_fit b \<and> few_outputs b) \<Longrightarrow>
    hm_wf (db_utxo db) \<and> get_utxo db OutPoint_coinbase = None
    \<and> weight utxo_value (db_utxo db) \<le> length bs * 5000000000"
proof (induction rule: accepted_chain.induct)
  case (fresh db)
  then show ?case by (simp add: opened_state get_utxo_def)
next
  case (extended bs db now b db')
  then have "outputs_fit b" "few_outputs b" by simp_all
  with extended show ?case
    using accepted_block_no_inflation [of e now b db db'] commit_utxo_wf commit_no_coinbase by auto
qed

subsection \<open>What a signature covers\<close>

definition enc_input :: "OutPoint \<times> u8 list \<times> u32 \<Rightarrow> u8 list" where
  "enc_input = (\<lambda>(q, script, seq).
     h256_bytes (op_txid q) @ u32_to_le_bytes (op_vout q)
     @ u32_to_le_bytes (of_nat (length script)) @ script @ u32_to_le_bytes seq)"

definition input_part :: "nat \<Rightarrow> u8 list \<Rightarrow> nat \<times> TxInput \<Rightarrow> OutPoint \<times> u8 list \<times> u32" where
  "input_part k script = (\<lambda>(i, input).
     (in_previous_output input, if i = k then script else [], in_sequence input))"

definition part_ok :: "OutPoint \<times> u8 list \<times> u32 \<Rightarrow> bool" where
  "part_ok p = (wf_h256 (op_txid (fst p)) \<and> length (fst (snd p)) < 2 ^ 32)"

definition signable :: "Transaction \<Rightarrow> bool" where
  "signable tx =
     (length (tx_inputs tx) < 2 ^ 32 \<and> length (tx_outputs tx) < 2 ^ 32
      \<and> (\<forall>i \<in> set (tx_inputs tx). wf_h256 (op_txid (in_previous_output i)))
      \<and> (\<forall>t \<in> set (tx_outputs tx). length (out_script t) < 2 ^ 32))"

definition keccak_separates :: "ext \<Rightarrow> u8 list \<Rightarrow> u8 list \<Rightarrow> bool" where
  "keccak_separates e x y =
     (h256_from_slice (ext_keccak256 e x) = h256_from_slice (ext_keccak256 e y) \<longrightarrow> x = y)"

lemma signing_input_part: "signing_input k script = enc_input \<circ> input_part k script"
  by (auto simp: signing_input_def enc_input_def input_part_def)

lemma enc_input_prefix_free:
  assumes "wf_h256 (op_txid q)" "wf_h256 (op_txid q')" "length s < 2 ^ 32" "length s' < 2 ^ 32"
    and "enc_input (q, s, n) @ r = enc_input (q', s', n') @ r'"
  shows "(q, s, n) = (q', s', n') \<and> r = r'"
proof -
  have lens: "length (h256_bytes (op_txid q)) = length (h256_bytes (op_txid q'))"
    using assms(1,2) by (simp add: wf_h256_def)
  have q: "h256_bytes (op_txid q) = h256_bytes (op_txid q')" "op_vout q = op_vout q'"
    and rest: "u32_to_le_bytes (of_nat (length s)) @ s @ u32_to_le_bytes n @ r
      = u32_to_le_bytes (of_nat (length s')) @ s' @ u32_to_le_bytes n' @ r'"
    using assms(5) lens by (simp_all add: enc_input_def)
  have "s = s' \<and> u32_to_le_bytes n @ r = u32_to_le_bytes n' @ r'"
    using length_prefixed [OF assms(3,4) rest] .
  then show ?thesis using q by (cases q; cases q') (simp add: h256.expand)
qed

lemma signing_output_prefix_free:
  assumes "length (out_script t) < 2 ^ 32" "length (out_script t') < 2 ^ 32"
    and "signing_output t @ r = signing_output t' @ r'"
  shows "t = t' \<and> r = r'"
proof -
  have "out_value t = out_value t'"
    and rest: "u32_to_le_bytes (of_nat (length (out_script t))) @ out_script t @ r
      = u32_to_le_bytes (of_nat (length (out_script t'))) @ out_script t' @ r'"
    using assms(3) by (simp_all add: signing_output_def)
  with length_prefixed [OF assms(1,2) rest] show ?thesis by simp
qed

lemma inputs_prefix_free:
  assumes "length ps = length ps'" and "\<forall>p \<in> set ps \<union> set ps'. part_ok p"
    and "concat (map enc_input ps) @ r = concat (map enc_input ps') @ r'"
  shows "ps = ps' \<and> r = r'"
proof (rule concat_prefix_free [of "{p. part_ok p}" enc_input])
  fix x y r r'
  assume "x \<in> {p. part_ok p}" "y \<in> {p. part_ok p}" "enc_input x @ r = enc_input y @ r'"
  then show "x = y \<and> r = r'"
    using enc_input_prefix_free [of "fst x" "fst y" "fst (snd x)" "fst (snd y)" "snd (snd x)" r "snd (snd y)" r']
    by (simp add: part_ok_def)
qed (use assms in auto)

lemma outputs_prefix_free:
  assumes "length ts = length ts'" and "\<forall>t \<in> set ts \<union> set ts'. length (out_script t) < 2 ^ 32"
    and "concat (map signing_output ts) @ r = concat (map signing_output ts') @ r'"
  shows "ts = ts' \<and> r = r'"
proof (rule concat_prefix_free [of "{t. length (out_script t) < 2 ^ 32}" signing_output])
  fix x y :: TxOutput and r r'
  assume "x \<in> {t. length (out_script t) < 2 ^ 32}" "y \<in> {t. length (out_script t) < 2 ^ 32}"
    "signing_output x @ r = signing_output y @ r'"
  then show "x = y \<and> r = r'"
    using signing_output_prefix_free [of x y r r'] by simp
qed (use assms in auto)

lemma signing_preimage_inject:
  assumes tx: "signable tx" "signable tx'" and scripts: "length s < 2 ^ 32" "length s' < 2 ^ 32"
    and eq: "signing_preimage tx k s = signing_preimage tx' k' s'"
  shows "tx_version tx = tx_version tx' \<and> tx_lock_time tx = tx_lock_time tx'
    \<and> tx_outputs tx = tx_outputs tx'
    \<and> map (input_part k s) (List.enumerate 0 (tx_inputs tx))
      = map (input_part k' s') (List.enumerate 0 (tx_inputs tx'))"
proof -
  let ?ps = "map (input_part k s) (List.enumerate 0 (tx_inputs tx))"
  let ?ps' = "map (input_part k' s') (List.enumerate 0 (tx_inputs tx'))"
  have len: "length (tx_inputs tx) = length (tx_inputs tx')" and ver: "tx_version tx = tx_version tx'"
    using eq tx unat_lengths by (auto simp: signing_preimage_def signable_def)
  have A: "\<forall>p \<in> set ?ps \<union> set ?ps'. part_ok p"
    using tx scripts
    by (auto simp: part_ok_def input_part_def signable_def dest!: in_set_enumerate_eq [THEN iffD1] split: if_splits)
  let ?r = "\<lambda>tx. u32_to_le_bytes (of_nat (length (tx_outputs tx)))
     @ concat (map signing_output (tx_outputs tx)) @ u32_to_le_bytes (tx_lock_time tx) @ u32_to_le_bytes 1"
  have "concat (map enc_input ?ps) @ ?r tx = concat (map enc_input ?ps') @ ?r tx'"
    using eq by (simp add: signing_preimage_def signing_input_part)
  then have ins: "?ps = ?ps' \<and> ?r tx = ?r tx'"
    using len A by (intro inputs_prefix_free) simp_all
  then have olen: "length (tx_outputs tx) = length (tx_outputs tx')"
    using tx unat_lengths by (simp add: signable_def)
  have "concat (map signing_output (tx_outputs tx)) @ u32_to_le_bytes (tx_lock_time tx) @ u32_to_le_bytes 1
      = concat (map signing_output (tx_outputs tx')) @ u32_to_le_bytes (tx_lock_time tx') @ u32_to_le_bytes 1"
    using ins by simp
  then have "tx_outputs tx = tx_outputs tx'
      \<and> u32_to_le_bytes (tx_lock_time tx) @ u32_to_le_bytes 1 = u32_to_le_bytes (tx_lock_time tx') @ u32_to_le_bytes 1"
    using olen tx by (intro outputs_prefix_free) (auto simp: signable_def)
  then show ?thesis using ver ins by simp
qed

lemma input_parts_core:
  "map (input_part k s) (List.enumerate n is) = map (input_part k' s') (List.enumerate n is') \<Longrightarrow>
    map (\<lambda>i. (in_previous_output i, in_sequence i)) is = map (\<lambda>i. (in_previous_output i, in_sequence i)) is'"
proof (induction "is" arbitrary: n is')
  case (Cons i "is")
  then show ?case by (cases is') (auto simp: input_part_def)
qed (auto simp: enumerate_eq_zip)

subsection \<open>Properties\<close>

text \<open>
  C3. An accepted block spends every outpoint at most once, and each of its inputs (beyond the coinbase)
  takes an output that is in the unspent set, is mature at the block's height, and is unlocked by a
  signature that verifies over the spending transaction at that input's own index.
\<close>

theorem accepted_block_spends_authorised:
  assumes "validate_block e now b db = Ok ()" and "blk_transactions b = cb # txs"
  shows "distinct (concat (map input_outpoints txs))
    \<and> (\<forall>tx \<in> set txs. \<forall>k < length (tx_inputs tx). \<exists>u.
         get_utxo db (in_previous_output (tx_inputs tx ! k)) = Some u
         \<and> Utxo_is_mature u (Block_height b)
         \<and> verify_p2pkh_signature e (in_script_sig (tx_inputs tx ! k)) (out_script (utxo_output u))
             (compute_signing_hash e tx k (out_script (utxo_output u))) = Ok ())"
proof -
  have "validate_transactions e db b = Ok ()" using assms(1) by (simp add: validate_block_Ok_iff)
  from validate_transactions_Ok(3) [OF this assms(2)] obtain S
    where "validate_tx_list e db (Block_height b) txs {} = Ok S" by blast
  note ok = validate_tx_list_Ok [OF this]
  have "\<exists>u. get_utxo db (in_previous_output (tx_inputs tx ! k)) = Some u
         \<and> Utxo_is_mature u (Block_height b)
         \<and> verify_p2pkh_signature e (in_script_sig (tx_inputs tx ! k)) (out_script (utxo_output u))
             (compute_signing_hash e tx k (out_script (utxo_output u))) = Ok ()"
    if tx: "tx \<in> set txs" and k: "k < length (tx_inputs tx)" for tx k
  proof -
    have "input_authorised e db tx (Block_height b) (tx_inputs tx ! k)" using ok tx k by simp
    moreover have "input_position tx (in_previous_output (tx_inputs tx ! k)) = k"
      using ok tx k by (intro input_position_distinct) simp_all
    ultimately show ?thesis by (simp add: input_authorised_def split: option.splits)
  qed
  with ok show ?thesis by blast
qed

text \<open>
  C1. No inflation by an accepted block: when the true output sums fit a \<open>u64\<close>, committing an accepted
  block raises the total value of the unspent set by at most the 50 PYRAX block reward.
\<close>

theorem accepted_block_conserves_value:
  assumes "validate_block e now b db = Ok ()" and "commit_block e db b = Ok db'"
    and "hm_wf (db_utxo db)" and "get_utxo db OutPoint_coinbase = None" and "outputs_fit b"
  shows "weight utxo_value (db_utxo db') \<le> weight utxo_value (db_utxo db) + unat (block_reward StreamA)"
  using accepted_block_no_inflation [OF assms] by simp

text \<open>
  C2. The supply is bounded: after the validator has accepted and the database has committed the blocks
  \<open>bs\<close>, from a fresh database, the unspent set holds at most one block reward per block, provided that
  in each of the blocks the true sum of the outputs of a transaction fits a \<open>u64\<close> and a transaction has fewer
  than \<open>2^32\<close> outputs. The validator does not check the first condition (\<open>coinbase_sum_wraps\<close> below).
\<close>

theorem supply_bounded:
  assumes "accepted_chain e network bs db"
    and "\<forall>b \<in> set bs. outputs_fit b" and "\<forall>b \<in> set bs. few_outputs b"
  shows "weight utxo_value (db_utxo db) \<le> length bs * unat (block_reward StreamA)"
  using accepted_chain_inv [OF assms(1)] assms(2,3) by simp

text \<open>
  The condition on the sums is needed: the output sum is a wrapping \<open>u64\<close> sum, so a coinbase with
  two outputs of \<open>2^63\<close> base units each, worth \<open>2^64\<close>, is within the reward for the validator.
\<close>

theorem coinbase_sum_wraps:
  "validate_coinbase
      (Transaction_new [TxInput_coinbase height []]
         [TxOutput_p2pkh (2 ^ 63) a, TxOutput_p2pkh (2 ^ 63) a]) height = Ok ()
    \<and> output_sum (Transaction_new [TxInput_coinbase height []]
         [TxOutput_p2pkh (2 ^ 63) a, TxOutput_p2pkh (2 ^ 63) a]) = 2 ^ 64"
  by (simp add: validate_coinbase_def Transaction_new_def Transaction_is_coinbase_def TxInput_is_coinbase_def
      TxInput_coinbase_def OutPoint_is_coinbase_def OutPoint_coinbase_def Transaction_total_output_def
      TxOutput_p2pkh_def TxOutput_new_def output_sum_def)

text \<open>
  C32. A signature covers the transaction: two transactions with the same signing hash agree in version,
  lock time, all outputs, and the outpoint and sequence of every input (only the unlocking scripts
  may differ), as long as Keccak separates the two signed byte strings.
\<close>

theorem signing_hash_binds:
  assumes "signable tx" and "signable tx'" and "length s < 2 ^ 32" and "length s' < 2 ^ 32"
    and "keccak_separates e (signing_preimage tx k s) (signing_preimage tx' k' s')"
    and "compute_signing_hash e tx k s = compute_signing_hash e tx' k' s'"
  shows "tx_version tx = tx_version tx' \<and> tx_lock_time tx = tx_lock_time tx'
    \<and> tx_outputs tx = tx_outputs tx'
    \<and> map (\<lambda>i. (in_previous_output i, in_sequence i)) (tx_inputs tx)
      = map (\<lambda>i. (in_previous_output i, in_sequence i)) (tx_inputs tx')"
proof -
  have "signing_preimage tx k s = signing_preimage tx' k' s'"
    using assms(5,6) by (simp add: keccak_separates_def compute_signing_hash_def)
  then show ?thesis using signing_preimage_inject [OF assms(1-4)] input_parts_core by blast
qed

text \<open>
  Pool validation is weaker than block validation: a transaction that lists one outpoint twice has
  its value counted twice and passes for the pool with twice the value as output, and no block can
  contain it.
\<close>

theorem mempool_counts_input_twice:
  assumes "get_utxo db q = Some u" and "Utxo_is_mature u (tip_height (get_tip db))"
  shows "let tx = Transaction_new [TxInput_new q s, TxInput_new q s]
                    [TxOutput_p2pkh (2 * out_value (utxo_output u)) a]
         in validate_mempool_tx tx db = Ok () \<and> (\<forall>h S. \<not> is_ok (validate_transaction e db tx h S))"
proof -
  let ?tx = "Transaction_new [TxInput_new q s, TxInput_new q s]
     [TxOutput_p2pkh (2 * out_value (utxo_output u)) a]"
  have "validate_mempool_tx ?tx db = Ok ()"
    using assms by (simp add: validate_mempool_tx_def Transaction_new_def Transaction_is_coinbase_def
        TxInput_new_def Transaction_total_output_def TxOutput_p2pkh_def TxOutput_new_def Let_def)
  moreover have "\<not> distinct (input_outpoints ?tx)"
    by (simp add: input_outpoints_def Transaction_new_def TxInput_new_def)
  then have "\<not> is_ok (validate_transaction e db ?tx h S)" for h S
    using validate_transaction_Ok(1) by (metis is_okE)
  ultimately show ?thesis by (simp add: Let_def)
qed

text \<open>
  A block of height zero with the zero parent is accepted on top of any chain, and the difficulty
  that its work is measured against is the one it declares: declaring zero, a block without
  transactions passes every check whatever its hash, and committing it drops the tip to height zero.
\<close>

theorem height_zero_block_resets_chain:
  assumes "Block_height b = 0" and "hdr_parent_hash (blk_header b) = h256_zero"
    and "blk_transactions b = []" and "hdr_merkle_root (blk_header b) = h256_zero"
    and "hdr_difficulty (blk_header b) = 0" and "hdr_timestamp (blk_header b) \<le> now + 7200"
    and "ext_bincode_block e b = Some d" and "length d \<le> MAX_BLOCK_SIZE"
  shows "validate_block e now b db = Ok ()
    \<and> (\<exists>db'. commit_block e db b = Ok db' \<and> tip_height (get_tip db') = 0)"
proof -
  have "BlockHeader_verify_pow e (blk_header b)"
    using assms(5) BlockHeader_hash_wf(2) [of e "blk_header b"] be_value_less [of "h256_bytes (BlockHeader_pow_hash e (blk_header b))"]
    by (simp add: verify_pow_value wf_h256_def)
  then have "validate_block e now b db = Ok ()"
    using assms
    by (simp add: validate_block_Ok_iff validate_structure_def validate_pow_def validate_chain_link_def
        validate_merkle_def Block_verify_merkle_def Block_compute_merkle_root_def validate_timestamp_def
        validate_transactions_def Let_def not_less)
  then show ?thesis
    using height_zero_resets_tip [OF assms(1)] assms(7) by fastforce
qed

subsection \<open>Witnesses\<close>

text \<open>
  In the sample instance the empty key hashes to the zero address and every signature verifies, so
  the two-byte script \<open>[0, 0]\<close> unlocks an output of the zero address.
\<close>

definition sample_outpoint :: OutPoint where
  "sample_outpoint = OutPoint_new h256_zero 7"

definition sample_funded :: ChainDB where
  "sample_funded = sample_db\<lparr>db_utxo := [(sample_outpoint, Utxo_new (TxOutput_p2pkh 50 address_zero) 0 False)]\<rparr>"

definition sample_spend :: Transaction where
  "sample_spend = Transaction_new [TxInput_new sample_outpoint [0, 0]] [TxOutput_p2pkh 40 address_zero]"

definition sample_txs :: "Transaction list" where
  "sample_txs = [Transaction_coinbase 1 5000000000 address_zero, sample_spend]"

definition make_block :: "Transaction list \<Rightarrow> Block" where
  "make_block txs =
     Block_new (sample_header\<lparr>hdr_version := 2, hdr_parent_hash := tip_hash (db_tip sample_db),
        hdr_timestamp := 1735689660,
        hdr_merkle_root := Block_compute_merkle_root sample_ext (Block_new sample_header txs)\<rparr>) txs"

lemma make_block_simps [simp]:
  "Block_height (make_block txs) = 1" "blk_transactions (make_block txs) = txs"
  "hdr_parent_hash (blk_header (make_block txs)) = tip_hash (db_tip sample_db)"
  "hdr_timestamp (blk_header (make_block txs)) = 1735689660"
  "hdr_difficulty (blk_header (make_block txs)) = 1"
  "hdr_merkle_root (blk_header (make_block txs)) = Block_compute_merkle_root sample_ext (make_block txs)"
  by (simp_all add: make_block_def Block_new_def Block_height_def sample_header_def Block_compute_merkle_root_def)

lemma make_block_pow: "BlockHeader_verify_pow sample_ext (blk_header (make_block txs))"
  using BlockHeader_hash_wf(2) [of sample_ext "blk_header (make_block txs)"]
    be_value_less [of "h256_bytes (BlockHeader_pow_hash sample_ext (blk_header (make_block txs)))"]
  by (simp add: verify_pow_value wf_h256_def)

lemma sample_db_state:
  "db_tip sample_db = \<lparr>tip_height = 0, tip_hash = Block_hash sample_ext (genesis_block sample_ext NetworkId_DEVNET),
     tip_total_difficulty = 1\<rparr>"
  "db_blocks sample_db = [(Block_hash sample_ext (genesis_block sample_ext NetworkId_DEVNET),
     genesis_block sample_ext NetworkId_DEVNET)]"
  "hdr_timestamp (blk_header (genesis_block sample_ext NetworkId_DEVNET)) = 1735689600"
  by (simp_all add: opened_state [OF sample_open] genesis_block_def genesis_params_def Let_def
      NetworkId_DEVNET_def NetworkId_MAINNET_def NetworkId_TESTNET_def DEVNET_DIFFICULTY_def DEVNET_TIMESTAMP_def)

lemma make_block_valid:
  assumes "txs \<noteq> []" and "length txs < 5000" and "db_tip db = db_tip sample_db" and "db_blocks db = db_blocks sample_db"
    and "validate_transactions sample_ext db (make_block txs) = Ok ()"
  shows "validate_block sample_ext 1735689660 (make_block txs) db = Ok ()"
    and "\<exists>db'. commit_block sample_ext db (make_block txs) = Ok db'"
  using assms
  by (simp_all add: validate_block_Ok_iff validate_structure_def sample_bincode_block MAX_BLOCK_SIZE_def
      MAX_TRANSACTIONS_PER_BLOCK_def validate_pow_def make_block_pow validate_chain_link_def get_tip_def
      sample_db_state(1) validate_merkle_def Block_verify_merkle_def validate_timestamp_def get_block_def
      sample_db_state(2,3) hm_get_def commit_block_Ok_iff Let_def)

lemma sample_coinbase_ok:
  "validate_coinbase (Transaction_coinbase 1 5000000000 address_zero) h = Ok ()"
  by (simp add: validate_coinbase_def Transaction_coinbase_def Transaction_is_coinbase_def
      TxInput_is_coinbase_def TxInput_coinbase_def OutPoint_is_coinbase_def OutPoint_coinbase_def
      Transaction_total_output_def TxOutput_p2pkh_def TxOutput_new_def)

lemma sample_unlocks:
  "verify_p2pkh_signature sample_ext [0, 0] (out_script (TxOutput_p2pkh v address_zero)) h = Ok ()"
proof -
  have "is_p2pkh_script (out_script (TxOutput_p2pkh v address_zero))"
    using is_p2pkh_script_p2pkh [of address_zero] by (simp add: TxOutput_p2pkh_def TxOutput_new_def)
  moreover have "take 20 (drop 3 (out_script (TxOutput_p2pkh v address_zero))) = replicate 20 0"
    by (simp add: TxOutput_p2pkh_def TxOutput_new_def address_zero_def)
  moreover have "hash160 sample_ext [] = replicate 20 0"
    by (simp add: hash160_def sample_ext_def sample_digest_def copy_padded_def)
  ultimately show ?thesis
    by (simp add: verify_p2pkh_signature_def parse_signature_def sample_ext_def Let_def)
qed

lemma sample_funded_utxo:
  "get_utxo sample_funded q
    = (if q = sample_outpoint then Some (Utxo_new (TxOutput_p2pkh 50 address_zero) 0 False) else None)"
  by (simp add: sample_funded_def get_utxo_def hm_get_def)

lemma sample_spend_ok: "validate_transaction sample_ext sample_funded sample_spend 1 {} = Ok {sample_outpoint}"
  by (simp add: validate_transaction_def sample_spend_def Transaction_new_def TxInput_new_def
      sample_funded_utxo Utxo_is_mature_def Utxo_new_def sample_unlocks Transaction_total_output_def)
    (simp add: TxOutput_p2pkh_def TxOutput_new_def)

lemma sample_spend_valid: "validate_transactions sample_ext sample_funded (make_block sample_txs) = Ok ()"
  by (simp add: validate_transactions_def sample_txs_def sample_coinbase_ok sample_spend_ok)

lemma sample_accepted:
  "validate_block sample_ext 1735689660 (make_block sample_txs) sample_funded = Ok ()"
  "\<exists>db'. commit_block sample_ext sample_funded (make_block sample_txs) = Ok db'"
  using make_block_valid [of sample_txs sample_funded] sample_spend_valid
  by (auto simp: sample_txs_def sample_funded_def)

lemma sample_outputs_fit: "outputs_fit (make_block sample_txs)" "few_outputs (make_block sample_txs)"
  by (simp_all add: outputs_fit_def few_outputs_def sample_txs_def output_sum_def Transaction_coinbase_def
      sample_spend_def Transaction_new_def TxOutput_p2pkh_def TxOutput_new_def)

theorem accepted_block_spends_authorised_witness:
  "\<exists>u. get_utxo sample_funded sample_outpoint = Some u
    \<and> verify_p2pkh_signature sample_ext [0, 0] (out_script (utxo_output u))
        (compute_signing_hash sample_ext sample_spend 0 (out_script (utxo_output u))) = Ok ()"
  using accepted_block_spends_authorised [OF sample_accepted(1), of "Transaction_coinbase 1 5000000000 address_zero"
      "[sample_spend]"]
  by (auto simp: sample_txs_def sample_spend_def Transaction_new_def TxInput_new_def)

theorem accepted_block_conserves_value_witness:
  "\<exists>db'. commit_block sample_ext sample_funded (make_block sample_txs) = Ok db'
    \<and> weight utxo_value (db_utxo db') \<le> 50 + 5000000000"
proof -
  obtain db' where commit: "commit_block sample_ext sample_funded (make_block sample_txs) = Ok db'"
    using sample_accepted(2) by blast
  have "hm_wf (db_utxo sample_funded)" "weight utxo_value (db_utxo sample_funded) = 50"
    by (simp_all add: sample_funded_def hm_wf_def weight_def utxo_value_def Utxo_new_def TxOutput_p2pkh_def
        TxOutput_new_def)
  moreover have "get_utxo sample_funded OutPoint_coinbase = None"
    by (simp add: sample_funded_utxo sample_outpoint_def OutPoint_new_def OutPoint_coinbase_def)
  ultimately show ?thesis
    using accepted_block_conserves_value [OF sample_accepted(1) commit _ _ sample_outputs_fit(1)] commit by auto
qed

theorem supply_bounded_witness:
  "\<exists>db'. commit_block sample_ext sample_db (make_block [Transaction_coinbase 1 5000000000 address_zero]) = Ok db'
    \<and> weight utxo_value (db_utxo db') \<le> 5000000000"
proof -
  let ?txs = "[Transaction_coinbase 1 5000000000 address_zero]"
  have valid: "validate_transactions sample_ext sample_db (make_block ?txs) = Ok ()"
    by (simp add: validate_transactions_def sample_coinbase_ok)
  obtain db' where commit: "commit_block sample_ext sample_db (make_block ?txs) = Ok db'"
    using make_block_valid(2) [of ?txs sample_db] valid by auto
  have fit: "outputs_fit (make_block ?txs)" "few_outputs (make_block ?txs)"
    by (simp_all add: outputs_fit_def few_outputs_def output_sum_def Transaction_coinbase_def
        TxOutput_p2pkh_def TxOutput_new_def)
  have "accepted_chain sample_ext NetworkId_DEVNET [make_block ?txs] db'"
    using accepted_chain.extended [OF accepted_chain.fresh [OF sample_open] _ commit]
      make_block_valid(1) [of ?txs sample_db] valid by simp
  from supply_bounded [OF this] fit commit show ?thesis by auto
qed

theorem signing_hash_binds_witness:
  "tx_outputs (sample_spend\<lparr>tx_inputs := [TxInput_new sample_outpoint [1]]\<rparr>) = tx_outputs sample_spend"
proof -
  let ?tx = "sample_spend\<lparr>tx_inputs := [TxInput_new sample_outpoint [1]]\<rparr>"
  have pre: "signing_preimage ?tx 0 [] = signing_preimage sample_spend 0 []"
    by (simp add: signing_preimage_def sample_spend_def Transaction_new_def TxInput_new_def signing_input_def)
  have "signable ?tx" "signable sample_spend"
    by (simp_all add: signable_def sample_spend_def Transaction_new_def TxInput_new_def sample_outpoint_def
        OutPoint_new_def TxOutput_p2pkh_def TxOutput_new_def address_zero_def)
  then show ?thesis
    using signing_hash_binds [of ?tx sample_spend "[]" "[]" sample_ext 0 0] pre
    by (simp add: keccak_separates_def compute_signing_hash_def)
qed

theorem mempool_counts_input_twice_witness:
  "is_ok (validate_mempool_tx (Transaction_new [TxInput_new sample_outpoint [], TxInput_new sample_outpoint []]
      [TxOutput_p2pkh 100 address_zero]) sample_funded)"
  using mempool_counts_input_twice [of sample_funded sample_outpoint
      "Utxo_new (TxOutput_p2pkh 50 address_zero) 0 False" "[]" address_zero]
  by (simp add: sample_funded_utxo Utxo_new_def TxOutput_p2pkh_def TxOutput_new_def Utxo_is_mature_def Let_def)

theorem height_zero_block_resets_chain_witness:
  "\<exists>db'. commit_block sample_ext sample_db1
      (Block_new (sample_header\<lparr>hdr_height := 0, hdr_difficulty := 0\<rparr>) []) = Ok db'
    \<and> tip_height (get_tip sample_db1) = 1 \<and> tip_height (get_tip db') = 0"
  using height_zero_block_resets_chain [of "Block_new (sample_header\<lparr>hdr_height := 0, hdr_difficulty := 0\<rparr>) []"
      1704067200 sample_ext "[]" sample_db1]
  by (auto simp: sample_db_tip Block_height_def Block_new_def sample_header_def sample_bincode_block)

end
