(* ===== verification/Emission.thy ===== *)
theory Emission
  imports Chain_Types
begin

section \<open>Tokenomics constants and emission\<close>

text \<open>
  \<open>pyrax-node/src/tokenomics/mod.rs\<close>, the supply and its allocations, and
  \<open>pyrax-node/src/tokenomics/emission.rs\<close>, the mining and prover rewards. The managers keep each
  counter behind its own lock and update them in one call; a call is one step. Dividing by a halving
  interval of zero panics, which is \<open>None\<close>. The floating-point percentages are display only and are
  left out.
\<close>

subsection \<open>Constants\<close>

definition TOKEN_UNITS :: u64 where "TOKEN_UNITS = 100000000"
definition TOTAL_SUPPLY :: u64 where "TOTAL_SUPPLY = 100000000000 * TOKEN_UNITS"
definition PRESALE_ALLOCATION :: u64 where "PRESALE_ALLOCATION = 15000000000 * TOKEN_UNITS"
definition BDAG_COMMUNITY_ALLOCATION :: u64 where "BDAG_COMMUNITY_ALLOCATION = 10000000000 * TOKEN_UNITS"
definition MINING_REWARDS_ALLOCATION :: u64 where "MINING_REWARDS_ALLOCATION = 35000000000 * TOKEN_UNITS"
definition ZK_PROVER_ALLOCATION :: u64 where "ZK_PROVER_ALLOCATION = 5000000000 * TOKEN_UNITS"
definition TEAM_ALLOCATION :: u64 where "TEAM_ALLOCATION = 4000000000 * TOKEN_UNITS"
definition ADVISORS_ALLOCATION :: u64 where "ADVISORS_ALLOCATION = 3000000000 * TOKEN_UNITS"
definition ECOSYSTEM_ALLOCATION :: u64 where "ECOSYSTEM_ALLOCATION = 10000000000 * TOKEN_UNITS"
definition MARKETING_ALLOCATION :: u64 where "MARKETING_ALLOCATION = 5000000000 * TOKEN_UNITS"
definition LIQUIDITY_ALLOCATION :: u64 where "LIQUIDITY_ALLOCATION = 10000000000 * TOKEN_UNITS"
definition TREASURY_ALLOCATION :: u64 where "TREASURY_ALLOCATION = 2000000000 * TOKEN_UNITS"
definition RESERVE_ALLOCATION :: u64 where "RESERVE_ALLOCATION = 1000000000 * TOKEN_UNITS"
definition HALVING_INTERVAL_BLOCKS :: u64 where "HALVING_INTERVAL_BLOCKS = 21000000"
definition INITIAL_BLOCK_REWARD :: u64 where "INITIAL_BLOCK_REWARD = 1666 * TOKEN_UNITS"
definition ZK_PROVER_BURN_RATE_BPS :: u16 where "ZK_PROVER_BURN_RATE_BPS = 1000"

definition total_allocations :: u64 where
  "total_allocations =
     PRESALE_ALLOCATION + BDAG_COMMUNITY_ALLOCATION + MINING_REWARDS_ALLOCATION
     + ZK_PROVER_ALLOCATION + TEAM_ALLOCATION + ADVISORS_ALLOCATION + ECOSYSTEM_ALLOCATION
     + MARKETING_ALLOCATION + LIQUIDITY_ALLOCATION + TREASURY_ALLOCATION + RESERVE_ALLOCATION"

definition verify_tokenomics :: bool where
  "verify_tokenomics = (total_allocations = TOTAL_SUPPLY)"

lemmas allocation_defs = TOKEN_UNITS_def TOTAL_SUPPLY_def PRESALE_ALLOCATION_def
  BDAG_COMMUNITY_ALLOCATION_def MINING_REWARDS_ALLOCATION_def ZK_PROVER_ALLOCATION_def
  TEAM_ALLOCATION_def ADVISORS_ALLOCATION_def ECOSYSTEM_ALLOCATION_def MARKETING_ALLOCATION_def
  LIQUIDITY_ALLOCATION_def TREASURY_ALLOCATION_def RESERVE_ALLOCATION_def

subsection \<open>Emission schedules\<close>

record EmissionSchedule =
  es_initial_reward :: u64
  es_halving_interval :: u64
  es_total_allocation :: u64
  es_current_epoch :: u32
  es_total_emitted :: u64
  es_burn_rate_bps :: u16

text \<open>\<open>(height / interval) as u32\<close>: a division, then a truncation to 32 bits.\<close>

definition halvings_at :: "u64 \<Rightarrow> u64 \<Rightarrow> u32 option" where
  "halvings_at height interval = map_option ucast (div_u64 height interval)"

definition reward_at_height :: "EmissionSchedule \<Rightarrow> u64 \<Rightarrow> u64 option" where
  "reward_at_height s height =
     map_option (shift_right (es_initial_reward s)) (halvings_at height (es_halving_interval s))"

definition es_remaining :: "EmissionSchedule \<Rightarrow> u64" where
  "es_remaining s = saturating_sub (es_total_allocation s) (es_total_emitted s)"

definition es_burn_amount :: "EmissionSchedule \<Rightarrow> u64 \<Rightarrow> u64" where
  "es_burn_amount s reward =
     (if es_burn_rate_bps s = 0 then 0 else mul_div reward (ucast (es_burn_rate_bps s)) 10000)"

definition es_net_reward :: "EmissionSchedule \<Rightarrow> u64 \<Rightarrow> u64" where
  "es_net_reward s reward = reward - es_burn_amount s reward"

definition es_is_exhausted :: "EmissionSchedule \<Rightarrow> bool" where
  "es_is_exhausted s = (es_remaining s = 0)"

subsection \<open>Mining rewards\<close>

record MiningStats =
  ms_blocks_processed :: u64
  ms_total_emitted :: u64
  ms_stream_a_total :: u64
  ms_stream_b_total :: u64

record MiningRewards =
  mr_total_allocation :: u64
  mr_stream_a_allocation :: u64
  mr_stream_b_allocation :: u64
  mr_stream_a_emitted :: u64
  mr_stream_b_emitted :: u64
  mr_current_height :: u64
  mr_halving_interval :: u64
  mr_initial_stream_a_reward :: u64
  mr_initial_stream_b_reward :: u64
  mr_blocks_mined :: u64
  mr_stats :: MiningStats

record BlockReward =
  br_height :: u64
  br_stream_a_reward :: u64
  br_stream_b_reward :: u64
  br_stream_a_miner :: "address option"
  br_stream_b_miner :: "address option"
  br_total_reward :: u64
  br_epoch :: u32

definition MiningRewards_new :: MiningRewards where
  "MiningRewards_new =
     (let stream_a = mul_div MINING_REWARDS_ALLOCATION 60 100;
          stream_b = MINING_REWARDS_ALLOCATION - stream_a;
          initial_a = mul_div INITIAL_BLOCK_REWARD 60 100;
          initial_b = INITIAL_BLOCK_REWARD - initial_a
      in \<lparr>mr_total_allocation = MINING_REWARDS_ALLOCATION,
          mr_stream_a_allocation = stream_a, mr_stream_b_allocation = stream_b,
          mr_stream_a_emitted = 0, mr_stream_b_emitted = 0, mr_current_height = 0,
          mr_halving_interval = HALVING_INTERVAL_BLOCKS,
          mr_initial_stream_a_reward = initial_a, mr_initial_stream_b_reward = initial_b,
          mr_blocks_mined = 0,
          mr_stats = \<lparr>ms_blocks_processed = 0, ms_total_emitted = 0, ms_stream_a_total = 0,
                      ms_stream_b_total = 0\<rparr>\<rparr>)"

definition current_epoch :: "MiningRewards \<Rightarrow> u32 option" where
  "current_epoch r = halvings_at (mr_current_height r) (mr_halving_interval r)"

definition stream_a_reward :: "MiningRewards \<Rightarrow> u64 \<Rightarrow> u64 option" where
  "stream_a_reward r height = do {
     halvings \<leftarrow> halvings_at height (mr_halving_interval r);
     let reward = shift_right (mr_initial_stream_a_reward r) halvings;
     let remaining = saturating_sub (mr_stream_a_allocation r) (mr_stream_a_emitted r);
     Some (min reward remaining)
   }"

definition stream_b_reward :: "MiningRewards \<Rightarrow> u64 \<Rightarrow> u64 option" where
  "stream_b_reward r height = do {
     halvings \<leftarrow> halvings_at height (mr_halving_interval r);
     let reward = shift_right (mr_initial_stream_b_reward r) halvings;
     let remaining = saturating_sub (mr_stream_b_allocation r) (mr_stream_b_emitted r);
     Some (min reward remaining)
   }"

definition total_reward :: "MiningRewards \<Rightarrow> u64 \<Rightarrow> u64 option" where
  "total_reward r height = do {
     a \<leftarrow> stream_a_reward r height;
     b \<leftarrow> stream_b_reward r height;
     Some (a + b)
   }"

definition process_block ::
  "MiningRewards \<Rightarrow> u64 \<Rightarrow> address option \<Rightarrow> address option \<Rightarrow> (MiningRewards \<times> BlockReward) option" where
  "process_block r height asic_miner gpu_miner = do {
     let r1 = r\<lparr>mr_current_height := height, mr_blocks_mined := mr_blocks_mined r + 1\<rparr>;
     stream_a \<leftarrow> (if asic_miner \<noteq> None then stream_a_reward r1 height else Some 0);
     let r2 = r1\<lparr>mr_stream_a_emitted := mr_stream_a_emitted r1 + stream_a\<rparr>;
     stream_b \<leftarrow> (if gpu_miner \<noteq> None then stream_b_reward r2 height else Some 0);
     let r3 = r2\<lparr>mr_stream_b_emitted := mr_stream_b_emitted r2 + stream_b\<rparr>;
     let total_r = stream_a + stream_b;
     let st = mr_stats r3;
     let r4 = r3\<lparr>mr_stats := st\<lparr>ms_total_emitted := ms_total_emitted st + total_r,
                                 ms_blocks_processed := ms_blocks_processed st + 1\<rparr>\<rparr>;
     epoch \<leftarrow> current_epoch r4;
     Some (r4, \<lparr>br_height = height, br_stream_a_reward = stream_a, br_stream_b_reward = stream_b,
                br_stream_a_miner = asic_miner, br_stream_b_miner = gpu_miner,
                br_total_reward = total_r, br_epoch = epoch\<rparr>)
   }"

definition mr_total_emitted :: "MiningRewards \<Rightarrow> u64" where
  "mr_total_emitted r = mr_stream_a_emitted r + mr_stream_b_emitted r"

definition mr_remaining :: "MiningRewards \<Rightarrow> u64" where
  "mr_remaining r = saturating_sub (mr_total_allocation r) (mr_total_emitted r)"

definition blocks_until_halving :: "MiningRewards \<Rightarrow> u64 option" where
  "blocks_until_halving r = do {
     q \<leftarrow> div_u64 (mr_current_height r) (mr_halving_interval r);
     Some ((q + 1) * mr_halving_interval r - mr_current_height r)
   }"

subsection \<open>Prover rewards\<close>

record ZkProverStats =
  zs_attestations_processed :: u64
  zs_total_rewarded :: u64
  zs_total_burned :: u64

record ZkProverRewards =
  zk_total_allocation :: u64
  zk_total_emitted :: u64
  zk_total_burned :: u64
  zk_burn_rate_bps :: u16
  zk_base_attestation_reward :: u64
  zk_attestations :: u64
  zk_stats :: ZkProverStats

record AttestationReward =
  ar_prover :: address
  ar_gross_reward :: u64
  ar_burn_amount :: u64
  ar_net_reward :: u64
  ar_proof_complexity :: u64

definition ZkProverRewards_new :: ZkProverRewards where
  "ZkProverRewards_new =
     \<lparr>zk_total_allocation = ZK_PROVER_ALLOCATION, zk_total_emitted = 0, zk_total_burned = 0,
      zk_burn_rate_bps = ZK_PROVER_BURN_RATE_BPS, zk_base_attestation_reward = 100 * TOKEN_UNITS,
      zk_attestations = 0,
      zk_stats = \<lparr>zs_attestations_processed = 0, zs_total_rewarded = 0, zs_total_burned = 0\<rparr>\<rparr>"

definition zk_remaining :: "ZkProverRewards \<Rightarrow> u64" where
  "zk_remaining z = saturating_sub (zk_total_allocation z) (zk_total_emitted z)"

definition zk_calculate_reward :: "ZkProverRewards \<Rightarrow> u64 \<Rightarrow> u64" where
  "zk_calculate_reward z proof_complexity =
     (let complexity_multiplier = max 1 (min 10 proof_complexity);
          reward = zk_base_attestation_reward z * complexity_multiplier
      in min reward (zk_remaining z))"

definition zk_burn_amount :: "ZkProverRewards \<Rightarrow> u64 \<Rightarrow> u64" where
  "zk_burn_amount z reward = mul_div reward (ucast (zk_burn_rate_bps z)) 10000"

definition zk_net_reward :: "ZkProverRewards \<Rightarrow> u64 \<Rightarrow> u64" where
  "zk_net_reward z reward = reward - zk_burn_amount z reward"

definition process_attestation ::
  "ZkProverRewards \<Rightarrow> address \<Rightarrow> u64 \<Rightarrow> ZkProverRewards \<times> AttestationReward" where
  "process_attestation z prover proof_complexity =
     (let gross_reward = zk_calculate_reward z proof_complexity;
          burn = zk_burn_amount z gross_reward;
          net = gross_reward - burn;
          st = zk_stats z
      in (z\<lparr>zk_total_emitted := zk_total_emitted z + gross_reward,
            zk_total_burned := zk_total_burned z + burn,
            zk_attestations := zk_attestations z + 1,
            zk_stats := \<lparr>zs_attestations_processed = zs_attestations_processed st + 1,
                         zs_total_rewarded = zs_total_rewarded st + net,
                         zs_total_burned = zs_total_burned st + burn\<rparr>\<rparr>,
          \<lparr>ar_prover = prover, ar_gross_reward = gross_reward, ar_burn_amount = burn,
           ar_net_reward = net, ar_proof_complexity = proof_complexity\<rparr>))"

subsection \<open>Mining: an invariant\<close>

text \<open>A block with the height and the two optional miners.\<close>

type_synonym mined = "u64 \<times> address option \<times> address option"

definition mining_step :: "MiningRewards \<Rightarrow> mined \<Rightarrow> MiningRewards" where
  "mining_step r = (\<lambda>(height, asic, gpu).
     case process_block r height asic gpu of Some (r', _) \<Rightarrow> r' | None \<Rightarrow> r)"

definition mining_inv :: "MiningRewards \<Rightarrow> bool" where
  "mining_inv r =
     (mr_total_allocation r = 3500000000000000000 \<and> mr_stream_a_allocation r = 2100000000000000000
      \<and> mr_stream_b_allocation r = 1400000000000000000
      \<and> mr_initial_stream_a_reward r = 99960000000 \<and> mr_initial_stream_b_reward r = 66640000000
      \<and> mr_halving_interval r = 21000000
      \<and> mr_stream_a_emitted r \<le> mr_stream_a_allocation r
      \<and> mr_stream_b_emitted r \<le> mr_stream_b_allocation r
      \<and> ms_total_emitted (mr_stats r) = mr_total_emitted r)"

lemma mul_div_constants:
  "mul_div MINING_REWARDS_ALLOCATION 60 100 = 2100000000000000000"
  "mul_div INITIAL_BLOCK_REWARD 60 100 = 99960000000"
  by (simp_all add: mul_div_def allocation_defs INITIAL_BLOCK_REWARD_def)

lemma mining_new_inv: "mining_inv MiningRewards_new"
  by (simp add: mining_inv_def MiningRewards_new_def Let_def mul_div_constants mr_total_emitted_def)
    (simp add: allocation_defs INITIAL_BLOCK_REWARD_def HALVING_INTERVAL_BLOCKS_def)

lemma saturating_room: "e \<le> a \<Longrightarrow> x \<le> saturating_sub a e \<Longrightarrow> e + x \<le> a \<and> unat (e + x) = unat e + unat x"
  for a e x :: u64
proof -
  assume "e \<le> a" "x \<le> saturating_sub a e"
  then have sum: "unat e + unat x \<le> unat a"
    by (simp add: word_le_nat_alt unat_saturating_sub)
  then have "unat e + unat x < 2 ^ 64" using unat_less_power [of a] by simp
  then show ?thesis using sum by (simp add: word_le_nat_alt unat_add_exact)
qed

lemma stream_rewards_room:
  assumes "mr_halving_interval r \<noteq> 0"
  shows "\<exists>x. stream_a_reward r height = Some x
      \<and> x \<le> saturating_sub (mr_stream_a_allocation r) (mr_stream_a_emitted r)"
    and "\<exists>x. stream_b_reward r height = Some x
      \<and> x \<le> saturating_sub (mr_stream_b_allocation r) (mr_stream_b_emitted r)"
  using assms by (simp_all add: stream_a_reward_def stream_b_reward_def halvings_at_def div_u64_def Let_def)

lemma process_block_run:
  assumes inv: "mining_inv r"
  shows "\<exists>r' res. process_block r height asic gpu = Some (r', res) \<and> mining_inv r'
    \<and> unat (mr_total_emitted r') = unat (mr_total_emitted r) + unat (br_total_reward res)
    \<and> br_total_reward res = br_stream_a_reward res + br_stream_b_reward res"
proof -
  have interval: "mr_halving_interval r \<noteq> 0"
    and alloc: "mr_stream_a_allocation r = 2100000000000000000" "mr_stream_b_allocation r = 1400000000000000000"
    and room: "mr_stream_a_emitted r \<le> mr_stream_a_allocation r" "mr_stream_b_emitted r \<le> mr_stream_b_allocation r"
    using inv by (auto simp: mining_inv_def)
  let ?r1 = "r\<lparr>mr_current_height := height, mr_blocks_mined := mr_blocks_mined r + 1\<rparr>"
  obtain a where a: "(if asic \<noteq> None then stream_a_reward ?r1 height else Some 0) = Some a"
    "a \<le> saturating_sub (mr_stream_a_allocation r) (mr_stream_a_emitted r)"
    using stream_rewards_room(1) [of ?r1 height] interval by (cases "asic = None") auto
  let ?r2 = "?r1\<lparr>mr_stream_a_emitted := mr_stream_a_emitted ?r1 + a\<rparr>"
  obtain b where b: "(if gpu \<noteq> None then stream_b_reward ?r2 height else Some 0) = Some b"
    "b \<le> saturating_sub (mr_stream_b_allocation r) (mr_stream_b_emitted r)"
    using stream_rewards_room(2) [of ?r2 height] interval by (cases "gpu = None") auto
  let ?r3 = "?r2\<lparr>mr_stream_b_emitted := mr_stream_b_emitted ?r2 + b\<rparr>"
  let ?r' = "?r3\<lparr>mr_stats := (mr_stats r)\<lparr>ms_total_emitted := ms_total_emitted (mr_stats r) + (a + b),
      ms_blocks_processed := ms_blocks_processed (mr_stats r) + 1\<rparr>\<rparr>"
  obtain ep where ep: "current_epoch ?r' = Some ep"
    using interval by (simp add: current_epoch_def halvings_at_def div_u64_def)
  let ?res = "\<lparr>br_height = height, br_stream_a_reward = a, br_stream_b_reward = b,
    br_stream_a_miner = asic, br_stream_b_miner = gpu, br_total_reward = a + b, br_epoch = ep\<rparr>"
  have run: "process_block r height asic gpu = Some (?r', ?res)"
    using a(1) b(1) ep by (simp add: process_block_def Let_def)
  note ra = saturating_room [OF room(1) a(2)] and rb = saturating_room [OF room(2) b(2)]
  have "mining_inv ?r'" using inv ra rb by (simp add: mining_inv_def mr_total_emitted_def)
  moreover have "unat (mr_total_emitted ?r') = unat (mr_total_emitted r) + unat (a + b)"
    using ra rb alloc by (simp add: mr_total_emitted_def word_le_nat_alt unat_add_exact)
  ultimately show ?thesis using run by (intro exI [of _ ?r'] exI [of _ ?res]) simp
qed

subsection \<open>Mining: an abstract emission\<close>

text \<open>
  What mining emission promises, over natural numbers: each stream is a counter that grows by its
  halved reward, but never beyond its cap, when the block has a miner for the stream.
\<close>

definition emit :: "nat \<Rightarrow> nat \<Rightarrow> nat \<Rightarrow> nat \<Rightarrow> bool \<Rightarrow> nat" where
  "emit cap initial emitted height mined =
     (if mined then emitted + min (initial div 2 ^ (height div 21000000 mod 64)) (cap - emitted) else emitted)"

definition emission_spec :: "nat \<times> nat \<Rightarrow> mined \<Rightarrow> nat \<times> nat" where
  "emission_spec = (\<lambda>(a, b) (height, asic, gpu).
     (emit 2100000000000000000 99960000000 a (unat height) (asic \<noteq> None),
      emit 1400000000000000000 66640000000 b (unat height) (gpu \<noteq> None)))"

definition emitted :: "MiningRewards \<Rightarrow> nat \<times> nat" where
  "emitted r = (unat (mr_stream_a_emitted r), unat (mr_stream_b_emitted r))"

lemma unat_halved:
  "unat (shift_right x (ucast (h div 21000000 :: u64))) = unat x div 2 ^ (unat h div 21000000 mod 64)"
proof -
  have "unat (ucast (h div 21000000) :: u32) = (unat h div 21000000) mod 2 ^ 32"
    by (simp add: unsigned_ucast_eq unat_div take_bit_eq_mod)
  moreover have "n mod 2 ^ 32 mod 64 = n mod (64 :: nat)" for n
    by (rule mod_mod_cancel) simp
  ultimately show ?thesis by (simp add: unat_shift_right)
qed

lemma unat_min: "unat (min a b) = min (unat a) (unat b)"
  by (simp add: min_def word_le_nat_alt)

lemma capped_value:
  fixes a e x h :: u64
  assumes "e \<le> a"
  shows "unat (e + min (shift_right x (ucast (h div 21000000))) (saturating_sub a e))
    = emit (unat a) (unat x) (unat e) (unat h) True"
  using saturating_room [OF assms, of "min (shift_right x (ucast (h div 21000000))) (saturating_sub a e)"]
  by (simp add: unat_min unat_saturating_sub unat_halved emit_def)

lemma stream_rewards_value:
  assumes "mining_inv r"
  shows "\<exists>x. stream_a_reward r h = Some x \<and> unat (mr_stream_a_emitted r + x)
      = emit 2100000000000000000 99960000000 (unat (mr_stream_a_emitted r)) (unat h) True"
    and "\<exists>x. stream_b_reward r h = Some x \<and> unat (mr_stream_b_emitted r + x)
      = emit 1400000000000000000 66640000000 (unat (mr_stream_b_emitted r)) (unat h) True"
proof -
  have cap: "mr_stream_a_emitted r \<le> 2100000000000000000" "mr_stream_b_emitted r \<le> 1400000000000000000"
    using assms by (auto simp: mining_inv_def)
  have "stream_a_reward r h = Some (min (shift_right 99960000000 (ucast (h div 21000000)))
      (saturating_sub 2100000000000000000 (mr_stream_a_emitted r)))"
    "stream_b_reward r h = Some (min (shift_right 66640000000 (ucast (h div 21000000)))
      (saturating_sub 1400000000000000000 (mr_stream_b_emitted r)))"
    using assms by (simp_all add: mining_inv_def stream_a_reward_def stream_b_reward_def halvings_at_def div_u64_def)
  then show "\<exists>x. stream_a_reward r h = Some x \<and> unat (mr_stream_a_emitted r + x)
      = emit 2100000000000000000 99960000000 (unat (mr_stream_a_emitted r)) (unat h) True"
    "\<exists>x. stream_b_reward r h = Some x \<and> unat (mr_stream_b_emitted r + x)
      = emit 1400000000000000000 66640000000 (unat (mr_stream_b_emitted r)) (unat h) True"
    using capped_value [OF cap(1), of 99960000000 h] capped_value [OF cap(2), of 66640000000 h] by simp_all
qed

lemma process_block_emitted:
  assumes "process_block r height asic gpu = Some (r', res)"
  shows "\<exists>a b. (if asic \<noteq> None then stream_a_reward r height else Some 0) = Some a
    \<and> (if gpu \<noteq> None then stream_b_reward r height else Some 0) = Some b
    \<and> mr_stream_a_emitted r' = mr_stream_a_emitted r + a \<and> mr_stream_b_emitted r' = mr_stream_b_emitted r + b"
proof -
  have same: "stream_a_reward (r\<lparr>mr_current_height := h, mr_blocks_mined := n\<rparr>) height = stream_a_reward r height"
    "stream_b_reward (r\<lparr>mr_current_height := h, mr_blocks_mined := n\<rparr>) height = stream_b_reward r height"
    "stream_b_reward (r\<lparr>mr_current_height := h, mr_blocks_mined := n, mr_stream_a_emitted := x\<rparr>) height
      = stream_b_reward r height" for h n x
    by (simp_all add: stream_a_reward_def stream_b_reward_def)
  show ?thesis
    using assms by (cases asic; cases gpu) (auto simp: process_block_def Let_def same bind_eq_Some_conv)
qed

interpretation mining: simulation MiningRewards_new mining_step mining_inv emitted emission_spec
proof
  show "mining_inv MiningRewards_new" by (rule mining_new_inv)
  show "mining_inv (mining_step r x)" if "mining_inv r" for r x
    using process_block_run [OF that, of "fst x" "fst (snd x)" "snd (snd x)"]
    by (auto simp: mining_step_def case_prod_unfold)
  show "emitted (mining_step r x) = emission_spec (emitted r) x" if inv: "mining_inv r" for r x
  proof -
    obtain h asic gpu where x: "x = (h, asic, gpu)" by (cases x) auto
    obtain r' res where run: "process_block r h asic gpu = Some (r', res)"
      using process_block_run [OF inv] by blast
    obtain a b where ab: "(if asic \<noteq> None then stream_a_reward r h else Some 0) = Some a"
      "(if gpu \<noteq> None then stream_b_reward r h else Some 0) = Some b"
      and r': "mr_stream_a_emitted r' = mr_stream_a_emitted r + a" "mr_stream_b_emitted r' = mr_stream_b_emitted r + b"
      using process_block_emitted [OF run] by blast
    have "unat (mr_stream_a_emitted r') = emit 2100000000000000000 99960000000 (unat (mr_stream_a_emitted r)) (unat h) (asic \<noteq> None)"
      unfolding r' using ab(1) stream_rewards_value(1) [OF inv, of h]
      by (cases asic) (simp add: emit_def, fastforce)
    moreover have "unat (mr_stream_b_emitted r') = emit 1400000000000000000 66640000000 (unat (mr_stream_b_emitted r)) (unat h) (gpu \<noteq> None)"
      unfolding r' using ab(2) stream_rewards_value(2) [OF inv, of h]
      by (cases gpu) (simp add: emit_def, fastforce)
    ultimately show ?thesis
      by (simp add: x mining_step_def run emitted_def emission_spec_def)
  qed
qed

subsection \<open>Provers: an invariant\<close>

definition zk_step :: "ZkProverRewards \<Rightarrow> address \<times> u64 \<Rightarrow> ZkProverRewards" where
  "zk_step z = (\<lambda>(prover, complexity). fst (process_attestation z prover complexity))"

definition zk_inv :: "ZkProverRewards \<Rightarrow> bool" where
  "zk_inv z =
     (zk_total_allocation z = 500000000000000000 \<and> zk_burn_rate_bps z = 1000
      \<and> zk_base_attestation_reward z = 10000000000
      \<and> zk_total_emitted z \<le> zk_total_allocation z
      \<and> zs_total_burned (zk_stats z) = zk_total_burned z
      \<and> zs_total_rewarded (zk_stats z) + zk_total_burned z = zk_total_emitted z
      \<and> zk_total_burned z \<le> zk_total_emitted z
      \<and> 10 * unat (zk_total_burned z) \<le> unat (zk_total_emitted z))"

lemma zk_burn_value: "zk_burn_rate_bps z = 1000 \<Longrightarrow> unat (zk_burn_amount z r) = unat r div 10"
proof -
  assume "zk_burn_rate_bps z = 1000"
  then have "unat (zk_burn_amount z r) = unat r * 1000 div 10000"
    unfolding zk_burn_amount_def by (subst unat_mul_div_le) simp_all
  also have "\<dots> = unat r * (1 * 1000) div (10 * 1000)" by simp
  also have "\<dots> = unat r div 10" by (subst div_mult_mult2 [symmetric, of 1000]) simp_all
  finally show ?thesis .
qed

lemma zk_step_inv:
  assumes "zk_inv z" shows "zk_inv (zk_step z x)"
proof -
  obtain p c where x: "x = (p, c)" by (cases x)
  let ?g = "zk_calculate_reward z c" and ?b = "zk_burn_amount z (zk_calculate_reward z c)"
  have g: "?g \<le> saturating_sub (zk_total_allocation z) (zk_total_emitted z)"
    by (simp add: zk_calculate_reward_def zk_remaining_def Let_def)
  have inv: "zk_total_emitted z \<le> zk_total_allocation z" "zk_burn_rate_bps z = 1000"
    "10 * unat (zk_total_burned z) \<le> unat (zk_total_emitted z)"
    using assms by (auto simp: zk_inv_def)
  note room = saturating_room [OF inv(1) g]
  have b: "unat ?b = unat ?g div 10" using inv(2) by (rule zk_burn_value)
  have sum: "unat (zk_total_burned z) + unat ?b < 2 ^ 64"
    using b inv(3) room unat_less_power [of "zk_total_emitted z + ?g"] by simp
  have exact: "unat (zk_total_burned z + ?b) = unat (zk_total_burned z) + unat ?b"
    using sum by (simp add: unat_add_exact)
  have ten: "10 * unat (zk_total_burned z + ?b) \<le> unat (zk_total_emitted z + ?g)"
    using b inv(3) room exact by simp
  then have "zk_total_burned z + ?b \<le> zk_total_emitted z + ?g"
    by (simp add: word_le_nat_alt)
  with ten show ?thesis
    using assms room unfolding x
    by (simp add: zk_inv_def zk_step_def process_attestation_def Let_def algebra_simps)
qed

interpretation zk: machine ZkProverRewards_new zk_step zk_inv
  by unfold_locales
    (simp_all add: zk_step_inv, simp add: zk_inv_def ZkProverRewards_new_def allocation_defs
      ZK_PROVER_BURN_RATE_BPS_def)

subsection \<open>Properties\<close>

text \<open>
  The eleven allocations make up the total supply: no \<open>u64\<close> sum wraps, and \<open>verify_tokenomics\<close> holds.
\<close>

theorem tokenomics_add_up:
  "verify_tokenomics \<and> unat total_allocations = 100000000000 * 100000000
    \<and> unat PRESALE_ALLOCATION + unat BDAG_COMMUNITY_ALLOCATION + unat MINING_REWARDS_ALLOCATION
      + unat ZK_PROVER_ALLOCATION + unat TEAM_ALLOCATION + unat ADVISORS_ALLOCATION
      + unat ECOSYSTEM_ALLOCATION + unat MARKETING_ALLOCATION + unat LIQUIDITY_ALLOCATION
      + unat TREASURY_ALLOCATION + unat RESERVE_ALLOCATION = unat TOTAL_SUPPLY"
  by (simp add: verify_tokenomics_def total_allocations_def allocation_defs)

text \<open>
  Mining emission is capped: in every reachable state processing a block does not panic, what is
  emitted stays within each stream's share and within the 35 billion mining allocation, and a block
  adds exactly its reward to the emitted total.
\<close>

theorem mining_emission_capped:
  assumes "reachable mining_step MiningRewards_new r"
  shows "mr_stream_a_emitted r \<le> mr_stream_a_allocation r
    \<and> mr_stream_b_emitted r \<le> mr_stream_b_allocation r
    \<and> mr_total_emitted r \<le> MINING_REWARDS_ALLOCATION
    \<and> (\<exists>r' res. process_block r height asic gpu = Some (r', res)
        \<and> unat (mr_total_emitted r') = unat (mr_total_emitted r) + unat (br_total_reward res)
        \<and> ms_total_emitted (mr_stats r') = mr_total_emitted r')"
proof -
  have inv: "mining_inv r" using assms by (rule mining.inv_reachable)
  then have "mr_stream_a_emitted r \<le> 2100000000000000000" "mr_stream_b_emitted r \<le> 1400000000000000000"
    by (auto simp: mining_inv_def)
  then have "mr_total_emitted r \<le> MINING_REWARDS_ALLOCATION"
    by (simp add: mr_total_emitted_def allocation_defs word_le_nat_alt unat_add_exact)
  moreover obtain r' res where "process_block r height asic gpu = Some (r', res)" and "mining_inv r'"
    and "unat (mr_total_emitted r') = unat (mr_total_emitted r) + unat (br_total_reward res)"
    using process_block_run [OF inv] by blast
  ultimately show ?thesis using inv by (auto simp: mining_inv_def)
qed

theorem mining_emission_capped_witness:
  "mr_total_emitted (mining_step MiningRewards_new (5, Some address_zero, None)) \<le> MINING_REWARDS_ALLOCATION"
  using mining_emission_capped [OF reachable.step [OF reachable.start]] by blast

text \<open>
  Mining emission refines the abstract emission: after any sequence of blocks the two emitted totals
  are those of two capped counters that grow by the reward halved once per interval (modulo 64
  halvings), so no wrap or rounding of the machine arithmetic is visible.
\<close>

theorem mining_refines_emission:
  "emitted (run mining_step MiningRewards_new blocks) = run emission_spec (0, 0) blocks"
  using mining.abs_run [OF mining.inv_init, of blocks]
  by (simp add: emitted_def MiningRewards_new_def Let_def)

text \<open>
  Prover emission is capped and the burn is exact: in every reachable state at most the prover
  allocation is emitted, a tenth of each reward (rounded down) is burned, and the net rewards and the
  burned total always add up to the emitted total.
\<close>

theorem zk_emission_capped:
  assumes "reachable zk_step ZkProverRewards_new z"
    and "process_attestation z prover complexity = (z', res)"
  shows "zk_total_emitted z \<le> ZK_PROVER_ALLOCATION
    \<and> unat (ar_burn_amount res) = unat (ar_gross_reward res) div 10
    \<and> unat (ar_net_reward res) + unat (ar_burn_amount res) = unat (ar_gross_reward res)
    \<and> unat (ar_gross_reward res) \<le> 10 * unat (100 * TOKEN_UNITS)
    \<and> zs_total_rewarded (zk_stats z') + zk_total_burned z' = zk_total_emitted z'
    \<and> 10 * unat (zk_total_burned z') \<le> unat (zk_total_emitted z')"
proof -
  have inv: "zk_inv z" using assms(1) by (rule zk.inv_reachable)
  have inv': "zk_inv z'" using zk_step_inv [OF inv, of "(prover, complexity)"] assms(2) by (simp add: zk_step_def)
  have res: "ar_gross_reward res = zk_calculate_reward z complexity"
    "ar_burn_amount res = zk_burn_amount z (ar_gross_reward res)"
    "ar_net_reward res = ar_gross_reward res - ar_burn_amount res"
    using assms(2) by (auto simp: process_attestation_def Let_def)
  have rate: "zk_burn_rate_bps z = 1000" and base: "zk_base_attestation_reward z = 10000000000"
    and cap: "zk_total_emitted z \<le> 500000000000000000"
    using inv by (auto simp: zk_inv_def)
  have burn: "unat (ar_burn_amount res) = unat (ar_gross_reward res) div 10"
    using zk_burn_value [OF rate] res(2) by simp
  let ?c = "max 1 (min 10 complexity)"
  have "unat ?c \<le> 10" by (auto simp: max_def min_def word_le_nat_alt not_le)
  then have "unat (zk_base_attestation_reward z * ?c) \<le> 100000000000"
    unfolding base by (simp add: unat_word_ariths mod_less_eq_dividend [THEN order_trans])
  then have "unat (ar_gross_reward res) \<le> 100000000000"
    unfolding res(1) zk_calculate_reward_def Let_def by (simp add: min_def word_le_nat_alt)
  then show ?thesis
    using inv' burn res(3) cap
    by (auto simp: zk_inv_def allocation_defs unat_sub_exact)
qed

theorem zk_emission_capped_witness:
  "unat (ar_gross_reward (snd (process_attestation ZkProverRewards_new address_zero 3))) \<le> 100000000000"
  using zk_emission_capped [OF reachable.start, of address_zero 3
      "fst (process_attestation ZkProverRewards_new address_zero 3)"]
  by (simp add: TOKEN_UNITS_def)

text \<open>
  Halving: over the first 64 halving periods the reward is the initial one divided by a power of
  two that grows with the height, and from the period 64 on it starts over with the initial reward,
  because the shift amount is taken modulo 64.
\<close>

theorem reward_halves_then_restarts:
  assumes "es_halving_interval s \<noteq> 0"
    and "unat height div unat (es_halving_interval s) = n" and "n < 128"
  shows "\<exists>r. reward_at_height s height = Some r \<and> unat r = unat (es_initial_reward s) div 2 ^ (n mod 64)"
proof -
  have "unat (ucast (height div es_halving_interval s) :: u32) = n"
    using assms(2,3) by (simp add: unsigned_ucast_eq unat_div take_bit_nat_eq_self_iff)
  then show ?thesis
    using assms(1) by (simp add: reward_at_height_def halvings_at_def div_u64_def unat_shift_right)
qed

theorem reward_halves_then_restarts_witness:
  "\<exists>r. reward_at_height \<lparr>es_initial_reward = INITIAL_BLOCK_REWARD, es_halving_interval = HALVING_INTERVAL_BLOCKS,
       es_total_allocation = MINING_REWARDS_ALLOCATION, es_current_epoch = 0, es_total_emitted = 0,
       es_burn_rate_bps = 0\<rparr> 1344000000 = Some r \<and> unat r = unat INITIAL_BLOCK_REWARD"
  using reward_halves_then_restarts [of "\<lparr>es_initial_reward = INITIAL_BLOCK_REWARD,
       es_halving_interval = HALVING_INTERVAL_BLOCKS,
       es_total_allocation = MINING_REWARDS_ALLOCATION, es_current_epoch = 0, es_total_emitted = 0,
       es_burn_rate_bps = 0\<rparr>" 1344000000 64]
  by (simp add: HALVING_INTERVAL_BLOCKS_def)

end
