(* ===== verification/Vesting.thy ===== *)
theory Vesting
  imports Chain_Types Hash_Map
begin

section \<open>Vesting contracts\<close>

text \<open>
  \<open>pyrax-node/src/tokenomics/vesting.rs\<close>: release schedules, vesting contracts and the manager that
  keeps them. \<open>current_timestamp()\<close> is the argument \<open>now\<close>.
\<close>

datatype VestingType =
    Immediate | CliffImmediate | CliffLinear | Linear | Milestone | PerBlock | PerAttestation

record VestingSchedule =
  vs_type :: VestingType
  vs_cliff_secs :: u64
  vs_duration_secs :: u64
  vs_tge_percent :: u8
  vs_description :: string

definition ONE_MONTH_SECS :: u64 where "ONE_MONTH_SECS = 30 * 24 * 60 * 60"
definition TWELVE_MONTHS_SECS :: u64 where "TWELVE_MONTHS_SECS = 365 * 24 * 60 * 60"
definition FORTY_EIGHT_MONTHS_SECS :: u64 where "FORTY_EIGHT_MONTHS_SECS = 4 * 365 * 24 * 60 * 60"

definition schedule_immediate :: VestingSchedule where
  "schedule_immediate =
     \<lparr>vs_type = Immediate, vs_cliff_secs = 0, vs_duration_secs = 0, vs_tge_percent = 100,
      vs_description = ''100% at TGE''\<rparr>"

definition schedule_presale :: VestingSchedule where
  "schedule_presale =
     \<lparr>vs_type = CliffLinear, vs_cliff_secs = ONE_MONTH_SECS, vs_duration_secs = TWELVE_MONTHS_SECS,
      vs_tge_percent = 30, vs_description = ''30% at TGE, 1 month cliff, 12 month linear vesting''\<rparr>"

definition schedule_bdag_community :: VestingSchedule where
  "schedule_bdag_community =
     \<lparr>vs_type = CliffLinear, vs_cliff_secs = TWELVE_MONTHS_SECS, vs_duration_secs = TWELVE_MONTHS_SECS,
      vs_tge_percent = 0, vs_description = ''12 month cliff, 12 month linear vesting''\<rparr>"

definition schedule_team_advisors :: VestingSchedule where
  "schedule_team_advisors =
     \<lparr>vs_type = CliffLinear, vs_cliff_secs = TWELVE_MONTHS_SECS,
      vs_duration_secs = FORTY_EIGHT_MONTHS_SECS, vs_tge_percent = 0,
      vs_description = ''12 month cliff, 48 month linear vesting''\<rparr>"

definition schedule_milestone :: VestingSchedule where
  "schedule_milestone =
     \<lparr>vs_type = Milestone, vs_cliff_secs = 0, vs_duration_secs = 0, vs_tge_percent = 0,
      vs_description = ''Milestone-based, DAO approval''\<rparr>"

definition schedule_per_block :: VestingSchedule where
  "schedule_per_block =
     \<lparr>vs_type = PerBlock, vs_cliff_secs = 0, vs_duration_secs = 0, vs_tge_percent = 0,
      vs_description = ''Released per block mined''\<rparr>"

definition schedule_per_attestation :: VestingSchedule where
  "schedule_per_attestation =
     \<lparr>vs_type = PerAttestation, vs_cliff_secs = 0, vs_duration_secs = 0, vs_tge_percent = 0,
      vs_description = ''Released per attestation''\<rparr>"

text \<open>
  The linear part, in two widening steps: the elapsed share in millionths, then that share of the
  amount. It is only evaluated below the duration, so the divisor is not zero.
\<close>

definition linear_vested :: "u64 \<Rightarrow> u64 \<Rightarrow> u64 \<Rightarrow> u64" where
  "linear_vested total_amount elapsed duration =
     (if duration \<le> elapsed then total_amount
      else let vested_ratio = (ucast elapsed * 1000000) div (ucast duration :: u128)
        in mul_div total_amount vested_ratio 1000000)"

definition calculate_vested :: "VestingSchedule \<Rightarrow> u64 \<Rightarrow> u64 \<Rightarrow> u64 \<Rightarrow> u64" where
  "calculate_vested s total_amount start_timestamp current_timestamp =
     (if current_timestamp < start_timestamp then 0
      else let elapsed = current_timestamp - start_timestamp in
      case vs_type s of
        Immediate \<Rightarrow> total_amount
      | CliffImmediate \<Rightarrow> if elapsed < vs_cliff_secs s then 0 else total_amount
      | CliffLinear \<Rightarrow>
          if elapsed < vs_cliff_secs s then 0
          else linear_vested total_amount (elapsed - vs_cliff_secs s) (vs_duration_secs s)
      | Linear \<Rightarrow> linear_vested total_amount elapsed (vs_duration_secs s)
      | _ \<Rightarrow> 0)"

definition tge_amount :: "VestingSchedule \<Rightarrow> u64 \<Rightarrow> u64" where
  "tge_amount s total_amount = mul_div total_amount (ucast (vs_tge_percent s)) 100"

definition total_duration :: "VestingSchedule \<Rightarrow> u64" where
  "total_duration s = vs_cliff_secs s + vs_duration_secs s"

subsection \<open>Contracts\<close>

record VestingContract =
  vc_id :: h256
  vc_beneficiary :: address
  vc_total_amount :: u64
  vc_released_amount :: u64
  vc_schedule :: VestingSchedule
  vc_start_timestamp :: u64
  vc_revocable :: bool
  vc_revoked :: bool
  vc_revoked_at :: "u64 option"
  vc_created_at :: u64
  vc_last_claim_at :: "u64 option"
  vc_notes :: string

datatype VestingError =
    TgeNotSet
  | ContractNotFound h256
  | NothingToClaim
  | NotRevocable
  | AlreadyRevoked
  | ContractRevoked
  | CliffNotPassed

definition vesting_id :: "ext \<Rightarrow> u64 \<Rightarrow> address \<Rightarrow> u64 \<Rightarrow> h256" where
  "vesting_id e now beneficiary amount =
     h256_from_slice (ext_blake3 e
       (address_bytes beneficiary @ u64_to_le_bytes amount @ u64_to_le_bytes now))"

definition VestingContract_new ::
  "ext \<Rightarrow> u64 \<Rightarrow> address \<Rightarrow> u64 \<Rightarrow> VestingSchedule \<Rightarrow> u64 \<Rightarrow> bool \<Rightarrow> string \<Rightarrow> VestingContract" where
  "VestingContract_new e now beneficiary total_amount schedule start_timestamp revocable notes =
     \<lparr>vc_id = vesting_id e now beneficiary total_amount, vc_beneficiary = beneficiary,
      vc_total_amount = total_amount, vc_released_amount = 0, vc_schedule = schedule,
      vc_start_timestamp = start_timestamp, vc_revocable = revocable, vc_revoked = False,
      vc_revoked_at = None, vc_created_at = now, vc_last_claim_at = None, vc_notes = notes\<rparr>"

definition vested_amount :: "u64 \<Rightarrow> VestingContract \<Rightarrow> u64" where
  "vested_amount now c =
     (if vc_revoked c then vc_released_amount c
      else calculate_vested (vc_schedule c) (vc_total_amount c) (vc_start_timestamp c) now)"

definition claimable_amount :: "u64 \<Rightarrow> VestingContract \<Rightarrow> u64" where
  "claimable_amount now c = saturating_sub (vested_amount now c) (vc_released_amount c)"

definition contract_claim :: "u64 \<Rightarrow> VestingContract \<Rightarrow> VestingError + (VestingContract \<times> u64)" where
  "contract_claim now c =
     (if vc_revoked c then Err ContractRevoked
      else let claimable = claimable_amount now c in
      if claimable = 0 then Err NothingToClaim
      else Ok (c\<lparr>vc_released_amount := vc_released_amount c + claimable,
                 vc_last_claim_at := Some now\<rparr>, claimable))"

definition contract_revoke :: "u64 \<Rightarrow> VestingContract \<Rightarrow> VestingError + (VestingContract \<times> u64)" where
  "contract_revoke now c =
     (if \<not> vc_revocable c then Err NotRevocable
      else if vc_revoked c then Err AlreadyRevoked
      else let vested = vested_amount now c; unvested = vc_total_amount c - vested
        in Ok (c\<lparr>vc_revoked := True, vc_revoked_at := Some now, vc_total_amount := vested\<rparr>, unvested))"

definition contract_progress :: "u64 \<Rightarrow> VestingContract \<Rightarrow> u8" where
  "contract_progress now c =
     (if vc_total_amount c = 0 then 100
      else ucast ((ucast (vested_amount now c) * 100) div (ucast (vc_total_amount c) :: u128)))"

definition is_fully_vested :: "u64 \<Rightarrow> VestingContract \<Rightarrow> bool" where
  "is_fully_vested now c = (vc_total_amount c \<le> vested_amount now c)"

definition cliff_passed :: "u64 \<Rightarrow> VestingContract \<Rightarrow> bool" where
  "cliff_passed now c = (vs_cliff_secs (vc_schedule c) \<le> saturating_sub now (vc_start_timestamp c))"

definition time_until_cliff :: "u64 \<Rightarrow> VestingContract \<Rightarrow> u64" where
  "time_until_cliff now c =
     (if cliff_passed now c then 0
      else saturating_sub (vs_cliff_secs (vc_schedule c)) (saturating_sub now (vc_start_timestamp c)))"

definition time_until_vested :: "u64 \<Rightarrow> VestingContract \<Rightarrow> u64" where
  "time_until_vested now c =
     (if is_fully_vested now c then 0
      else saturating_sub (total_duration (vc_schedule c)) (saturating_sub now (vc_start_timestamp c)))"

subsection \<open>The manager\<close>

record VestingStats =
  vst_contracts_created :: u64
  vst_contracts_revoked :: u64
  vst_total_locked :: u64
  vst_total_claimed :: u64

record VestingManager =
  vm_contracts :: "(h256, VestingContract) hashmap"
  vm_by_beneficiary :: "(address, h256 list) hashmap"
  vm_tge_timestamp :: u64
  vm_stats :: VestingStats

definition VestingManager_new :: VestingManager where
  "VestingManager_new =
     \<lparr>vm_contracts = [], vm_by_beneficiary = [], vm_tge_timestamp = 0,
      vm_stats = \<lparr>vst_contracts_created = 0, vst_contracts_revoked = 0, vst_total_locked = 0,
                  vst_total_claimed = 0\<rparr>\<rparr>"

definition vm_set_tge :: "VestingManager \<Rightarrow> u64 \<Rightarrow> VestingManager" where
  "vm_set_tge m timestamp = m\<lparr>vm_tge_timestamp := timestamp\<rparr>"

text \<open>\<open>entry(k).or_insert_with(Vec::new).push(id)\<close>\<close>

definition push_entry :: "'k \<Rightarrow> 'v \<Rightarrow> ('k, 'v list) hashmap \<Rightarrow> ('k, 'v list) hashmap" where
  "push_entry k v m = hm_insert k ((case hm_get m k of None \<Rightarrow> [] | Some vs \<Rightarrow> vs) @ [v]) m"

definition create_contract ::
  "ext \<Rightarrow> u64 \<Rightarrow> VestingManager \<Rightarrow> address \<Rightarrow> u64 \<Rightarrow> VestingSchedule \<Rightarrow> bool \<Rightarrow> string
    \<Rightarrow> VestingError + (VestingManager \<times> h256)" where
  "create_contract e now m beneficiary total_amount schedule revocable notes =
     (let start = vm_tge_timestamp m in
      if start = 0 then Err TgeNotSet
      else let contract = VestingContract_new e now beneficiary total_amount schedule start revocable notes;
               cid = vc_id contract; st = vm_stats m
        in Ok (m\<lparr>vm_contracts := hm_insert cid contract (vm_contracts m),
                 vm_by_beneficiary := push_entry beneficiary cid (vm_by_beneficiary m),
                 vm_stats := st\<lparr>vst_contracts_created := vst_contracts_created st + 1,
                                vst_total_locked := vst_total_locked st + total_amount\<rparr>\<rparr>, cid))"

definition vm_claim ::
  "u64 \<Rightarrow> VestingManager \<Rightarrow> h256 \<Rightarrow> VestingError + (VestingManager \<times> u64)" where
  "vm_claim now m cid =
     (case hm_get (vm_contracts m) cid of
        None \<Rightarrow> Err (ContractNotFound cid)
      | Some c \<Rightarrow>
          and_then (contract_claim now c) (\<lambda>(c', claimed).
            Ok (m\<lparr>vm_contracts := hm_insert cid c' (vm_contracts m),
                  vm_stats := (vm_stats m)\<lparr>vst_total_claimed :=
                    vst_total_claimed (vm_stats m) + claimed\<rparr>\<rparr>, claimed)))"

fun vm_claim_list :: "u64 \<Rightarrow> VestingManager \<Rightarrow> h256 list \<Rightarrow> u64 \<Rightarrow> VestingManager \<times> u64" where
  "vm_claim_list now m [] acc = (m, acc)"
| "vm_claim_list now m (cid # cids) acc =
     (case vm_claim now m cid of
        Inr (m', claimed) \<Rightarrow> vm_claim_list now m' cids (acc + claimed)
      | Inl _ \<Rightarrow> vm_claim_list now m cids acc)"

definition vm_claim_all :: "u64 \<Rightarrow> VestingManager \<Rightarrow> address \<Rightarrow> VestingManager \<times> u64" where
  "vm_claim_all now m beneficiary =
     vm_claim_list now m
       (case hm_get (vm_by_beneficiary m) beneficiary of None \<Rightarrow> [] | Some cids \<Rightarrow> cids) 0"

definition vm_revoke ::
  "u64 \<Rightarrow> VestingManager \<Rightarrow> h256 \<Rightarrow> VestingError + (VestingManager \<times> u64)" where
  "vm_revoke now m cid =
     (case hm_get (vm_contracts m) cid of
        None \<Rightarrow> Err (ContractNotFound cid)
      | Some c \<Rightarrow>
          and_then (contract_revoke now c) (\<lambda>(c', unvested).
            Ok (m\<lparr>vm_contracts := hm_insert cid c' (vm_contracts m),
                  vm_stats := (vm_stats m)\<lparr>vst_contracts_revoked :=
                    vst_contracts_revoked (vm_stats m) + 1\<rparr>\<rparr>, unvested)))"

definition get_contract :: "VestingManager \<Rightarrow> h256 \<Rightarrow> VestingContract option" where
  "get_contract m cid = hm_get (vm_contracts m) cid"

definition get_beneficiary_contracts :: "VestingManager \<Rightarrow> address \<Rightarrow> VestingContract list" where
  "get_beneficiary_contracts m beneficiary =
     List.map_filter (hm_get (vm_contracts m))
       (case hm_get (vm_by_beneficiary m) beneficiary of None \<Rightarrow> [] | Some cids \<Rightarrow> cids)"

definition total_claimable :: "u64 \<Rightarrow> VestingManager \<Rightarrow> address \<Rightarrow> u64" where
  "total_claimable now m beneficiary =
     sum_list (map (claimable_amount now) (get_beneficiary_contracts m beneficiary))"

subsection \<open>The vested amount over time\<close>

lemma unat_ratio:
  fixes elapsed duration :: u64
  assumes "elapsed < duration"
  shows "unat ((ucast elapsed * 1000000) div (ucast duration :: u128))
    = unat elapsed * 1000000 div unat duration"
    and "unat elapsed * 1000000 div unat duration < 1000000"
proof -
  have "unat elapsed * 1000000 < 2 ^ 64 * 1000000" using unat_less_power [of elapsed] by simp
  then show "unat ((ucast elapsed * 1000000) div (ucast duration :: u128))
      = unat elapsed * 1000000 div unat duration"
    by (simp add: unat_div unat_word_ariths unat_ucast_128)
  show "unat elapsed * 1000000 div unat duration < 1000000"
    using assms by (simp add: word_less_nat_alt div_less_iff_less_mult)
qed

lemma linear_vested_value:
  "unat (linear_vested a x d) =
    (if unat d \<le> unat x then unat a else unat a * (unat x * 1000000 div unat d) div 1000000)"
proof (cases "d \<le> x")
  case False
  then have "x < d" by simp
  note r = unat_ratio [OF this]
  have "unat (linear_vested a x d) = unat a * (unat x * 1000000 div unat d) div 1000000"
    using False r unfolding linear_vested_def Let_def by (subst if_not_P) (simp_all add: unat_mul_div_le)
  then show ?thesis using False by (simp add: word_le_nat_alt)
qed (simp add: linear_vested_def word_le_nat_alt)

lemma linear_vested_le: "linear_vested a x d \<le> a"
proof (cases "d \<le> x")
  case False
  then have "x < d" by simp
  then have "unat x * 1000000 div unat d \<le> 1000000"
    by (rule less_imp_le [OF unat_ratio(2)])
  then show ?thesis
    using mult_div_le [of "unat x * 1000000 div unat d" 1000000 "unat a"]
    by (simp add: word_le_nat_alt linear_vested_value)
qed (simp add: linear_vested_def)

lemma linear_vested_mono:
  assumes "x \<le> y" shows "linear_vested a x d \<le> linear_vested a y d"
proof (cases "d \<le> y")
  case True
  then show ?thesis using linear_vested_le by (simp add: linear_vested_def)
next
  case False
  with assms have "\<not> d \<le> x" by auto
  moreover have "unat a * (unat x * 1000000 div unat d) div 1000000
      \<le> unat a * (unat y * 1000000 div unat d) div 1000000"
    using assms by (intro div_le_mono mult_le_mono2) (simp add: div_le_mono word_le_nat_alt)
  ultimately show ?thesis
    using False by (simp add: word_le_nat_alt linear_vested_value)
qed

lemma calculate_vested_le: "calculate_vested s a start now \<le> a"
  by (simp add: calculate_vested_def Let_def linear_vested_le split: VestingType.split)

lemma elapsed_mono:
  "s \<le> x \<Longrightarrow> x \<le> y \<Longrightarrow> x - s \<le> y - s" for s x y :: u64
  by (simp add: word_le_nat_alt unat_sub_exact)

lemma calculate_vested_mono:
  assumes "now \<le> later"
  shows "calculate_vested s a start now \<le> calculate_vested s a start later"
proof (cases "now < start")
  case False
  then have start: "start \<le> now" by simp
  let ?x = "now - start" and ?y = "later - start"
  have xy: "?x \<le> ?y" using start assms by (rule elapsed_mono)
  have "linear_vested a (?x - vs_cliff_secs s) d \<le> linear_vested a (?y - vs_cliff_secs s) d"
    if "vs_cliff_secs s \<le> ?x" for d
    using elapsed_mono [OF that xy] by (rule linear_vested_mono)
  then show ?thesis
    using start assms xy linear_vested_mono [OF xy]
    by (auto simp: calculate_vested_def Let_def not_less split: VestingType.split)
qed (simp add: calculate_vested_def)

lemma calculate_vested_end:
  assumes "vs_type s \<in> {Immediate, CliffImmediate, CliffLinear, Linear}" and "start \<le> now"
    and "unat (vs_cliff_secs s) + unat (vs_duration_secs s) \<le> unat (now - start)"
  shows "calculate_vested s a start now = a"
proof -
  let ?x = "now - start"
  have cliff: "vs_cliff_secs s \<le> ?x" and dur: "vs_duration_secs s \<le> ?x"
    using assms(3) by (simp_all add: word_le_nat_alt)
  have "vs_duration_secs s \<le> ?x - vs_cliff_secs s"
    using assms(3) cliff by (simp add: word_le_nat_alt unat_sub_exact)
  with cliff dur assms(1,2) show ?thesis
    by (auto simp: calculate_vested_def Let_def linear_vested_def)
qed

subsection \<open>Claims\<close>

lemma claim_step:
  assumes "\<not> vc_revoked c"
    and "vc_released_amount c \<le> calculate_vested (vc_schedule c) (vc_total_amount c) (vc_start_timestamp c) now"
    (is "_ \<le> ?v")
  shows "(vc_released_amount c = ?v \<and> contract_claim now c = Err NothingToClaim)
    \<or> contract_claim now c
        = Ok (c\<lparr>vc_released_amount := ?v, vc_last_claim_at := Some now\<rparr>, ?v - vc_released_amount c)
      \<and> unat (?v - vc_released_amount c) + unat (vc_released_amount c) = unat ?v"
proof -
  have diff: "unat (?v - vc_released_amount c) = unat ?v - unat (vc_released_amount c)"
    and le: "unat (vc_released_amount c) \<le> unat ?v"
    using assms(2) by (simp_all add: word_le_nat_alt unat_sub_exact)
  have claimable: "claimable_amount now c = ?v - vc_released_amount c"
    using assms by (simp add: claimable_amount_def vested_amount_def saturating_sub_exact)
  show ?thesis
  proof (cases "vc_released_amount c = ?v")
    case True
    then show ?thesis using assms(1) claimable by (simp add: contract_claim_def Let_def)
  next
    case False
    then have "?v - vc_released_amount c \<noteq> 0" by simp
    then show ?thesis using assms(1) claimable diff le by (simp add: contract_claim_def Let_def)
  qed
qed

text \<open>A sequence of claims at the given times, with the sum of what they pay.\<close>

fun claim_times :: "VestingContract \<Rightarrow> u64 list \<Rightarrow> VestingContract \<times> nat" where
  "claim_times c [] = (c, 0)"
| "claim_times c (now # later) =
     (case contract_claim now c of
        Inl _ \<Rightarrow> claim_times c later
      | Inr (c', paid) \<Rightarrow> (let (c'', n) = claim_times c' later in (c'', unat paid + n)))"

lemma claim_times_total:
  assumes "\<not> vc_revoked c" and "sorted (t # ts)"
    and "vc_released_amount c \<le> calculate_vested (vc_schedule c) (vc_total_amount c) (vc_start_timestamp c) t"
  shows "unat (vc_released_amount c) + snd (claim_times c (t # ts))
    = unat (calculate_vested (vc_schedule c) (vc_total_amount c) (vc_start_timestamp c) (last (t # ts)))"
  using assms
proof (induction ts arbitrary: c t)
  case Nil
  then show ?case using claim_step [of c t] by auto
next
  case (Cons t' ts)
  let ?v = "calculate_vested (vc_schedule c) (vc_total_amount c) (vc_start_timestamp c)"
  have mono: "?v t \<le> ?v t'" using Cons.prems(2) by (intro calculate_vested_mono) simp
  from claim_step [OF Cons.prems(1,3)] show ?case
  proof (elim disjE conjE)
    assume "vc_released_amount c = ?v t" "contract_claim t c = Err NothingToClaim"
    with Cons.IH [of c t'] Cons.prems mono show ?thesis by simp
  next
    let ?c = "c\<lparr>vc_released_amount := ?v t, vc_last_claim_at := Some t\<rparr>"
    assume claim: "contract_claim t c = Ok (?c, ?v t - vc_released_amount c)"
      and sum: "unat (?v t - vc_released_amount c) + unat (vc_released_amount c) = unat (?v t)"
    have "unat (?v t) + snd (claim_times ?c (t' # ts)) = unat (?v (last (t' # ts)))"
      using Cons.IH [of ?c t'] Cons.prems mono by simp
    then show ?thesis
      using sum by (simp add: claim claim_times.simps(2) [of c t] case_prod_beta del: claim_times.simps(2))
  qed
qed

subsection \<open>The manager as a machine\<close>

datatype vesting_op =
    VSetTge u64
  | VCreate u64 address u64 VestingSchedule bool string
  | VClaim u64 h256
  | VClaimAll u64 address
  | VRevoke u64 h256

fun vesting_step :: "ext \<Rightarrow> VestingManager \<Rightarrow> vesting_op \<Rightarrow> VestingManager" where
  "vesting_step e m (VSetTge t) = vm_set_tge m t"
| "vesting_step e m (VCreate now a n s r notes) =
     (case create_contract e now m a n s r notes of Inr (m', _) \<Rightarrow> m' | Inl _ \<Rightarrow> m)"
| "vesting_step e m (VClaim now cid) = (case vm_claim now m cid of Inr (m', _) \<Rightarrow> m' | Inl _ \<Rightarrow> m)"
| "vesting_step e m (VClaimAll now a) = fst (vm_claim_all now m a)"
| "vesting_step e m (VRevoke now cid) = (case vm_revoke now m cid of Inr (m', _) \<Rightarrow> m' | Inl _ \<Rightarrow> m)"

definition contract_ok :: "VestingContract \<Rightarrow> bool" where
  "contract_ok c = (vc_revoked c \<or> vc_released_amount c \<le> vc_total_amount c)"

definition vesting_inv :: "VestingManager \<Rightarrow> bool" where
  "vesting_inv m = (\<forall>cid c. hm_get (vm_contracts m) cid = Some c \<longrightarrow> vc_id c = cid \<and> contract_ok c)"

lemma contract_claim_ok:
  assumes "contract_ok c" and "contract_claim now c = Ok (c', paid)"
  shows "contract_ok c' \<and> vc_id c' = vc_id c"
proof -
  let ?v = "calculate_vested (vc_schedule c) (vc_total_amount c) (vc_start_timestamp c) now"
  have live: "\<not> vc_revoked c" and "claimable_amount now c \<noteq> 0"
    using assms(2) by (auto simp: contract_claim_def Let_def split: if_splits)
  then have "vc_released_amount c \<le> ?v"
    by (auto simp: claimable_amount_def vested_amount_def saturating_sub_def split: if_splits)
  then show ?thesis
    using claim_step [OF live, of now] assms(2) calculate_vested_le by (auto simp: contract_ok_def)
qed

lemma vesting_inv_insert:
  "vesting_inv m \<Longrightarrow> vm_contracts m' = hm_insert cid c (vm_contracts m) \<Longrightarrow> vc_id c = cid \<Longrightarrow>
    contract_ok c \<Longrightarrow> vesting_inv m'"
  by (simp add: vesting_inv_def)

lemma vesting_invD: "vesting_inv m \<Longrightarrow> hm_get (vm_contracts m) cid = Some c \<Longrightarrow> vc_id c = cid \<and> contract_ok c"
  by (simp add: vesting_inv_def)

lemma vm_claim_inv:
  assumes "vesting_inv m" and "vm_claim now m cid = Ok (m', x)"
  shows "vesting_inv m'"
proof -
  obtain c c' where "hm_get (vm_contracts m) cid = Some c" and "contract_claim now c = Ok (c', x)"
    and upd: "vm_contracts m' = hm_insert cid c' (vm_contracts m)"
    using assms(2) by (auto simp: vm_claim_def and_then_Ok_iff split: option.splits)
  then have "vc_id c' = cid \<and> contract_ok c'"
    using vesting_invD [OF assms(1)] contract_claim_ok by metis
  then show ?thesis by (intro vesting_inv_insert [OF assms(1) upd]) simp_all
qed

lemma vm_claim_list_inv: "vesting_inv m \<Longrightarrow> vesting_inv (fst (vm_claim_list now m cids acc))"
  by (induction now m cids acc rule: vm_claim_list.induct)
    (auto split: sum.split dest: vm_claim_inv)

lemma vm_revoke_inv:
  assumes "vesting_inv m" and "vm_revoke now m cid = Ok (m', x)"
  shows "vesting_inv m'"
proof -
  obtain c c' where "hm_get (vm_contracts m) cid = Some c" and rev: "contract_revoke now c = Ok (c', x)"
    and upd: "vm_contracts m' = hm_insert cid c' (vm_contracts m)"
    using assms(2) by (auto simp: vm_revoke_def and_then_Ok_iff split: option.splits)
  moreover have "vc_id c' = vc_id c" "contract_ok c'"
    using rev by (auto simp: contract_revoke_def contract_ok_def Let_def split: if_splits)
  ultimately show ?thesis
    using vesting_invD [OF assms(1)] by (intro vesting_inv_insert [OF assms(1) upd]) auto
qed

lemma create_contract_inv:
  assumes "vesting_inv m" and "create_contract e now m a n s r notes = Ok (m', cid)"
  shows "vesting_inv m'"
proof -
  let ?c = "VestingContract_new e now a n s (vm_tge_timestamp m) r notes"
  have upd: "vm_contracts m' = hm_insert cid ?c (vm_contracts m)" and "vc_id ?c = cid"
    using assms(2) by (auto simp: create_contract_def Let_def split: if_splits)
  then show ?thesis
    by (intro vesting_inv_insert [OF assms(1) upd]) (auto simp: VestingContract_new_def contract_ok_def)
qed

lemma vesting_step_inv: "vesting_inv m \<Longrightarrow> vesting_inv (vesting_step e m x)"
proof (cases x)
  case (VSetTge t)
  moreover assume "vesting_inv m"
  ultimately show ?thesis by (simp add: vesting_inv_def vm_set_tge_def)
qed (auto simp: vm_claim_all_def vm_claim_list_inv dest: vm_claim_inv vm_revoke_inv create_contract_inv
    split: sum.split)

interpretation vesting: machine VestingManager_new "vesting_step e" vesting_inv for e :: ext
  by unfold_locales (simp_all add: vesting_step_inv, simp add: vesting_inv_def VestingManager_new_def)

subsection \<open>Properties\<close>

text \<open>
  Vesting: nothing is vested before the start or the cliff, the vested amount never exceeds the
  total and never falls as time passes, and all of it is vested once the cliff and the duration are
  over.
\<close>

theorem vesting_bounded_monotone:
  assumes "now \<le> later"
  shows "calculate_vested s amount start now \<le> amount
    \<and> calculate_vested s amount start now \<le> calculate_vested s amount start later
    \<and> (now < start \<longrightarrow> calculate_vested s amount start now = 0)
    \<and> (vs_type s = CliffLinear \<and> now - start < vs_cliff_secs s \<longrightarrow> calculate_vested s amount start now = 0)
    \<and> (vs_type s \<in> {Immediate, CliffImmediate, CliffLinear, Linear} \<and> start \<le> now
        \<and> unat (vs_cliff_secs s) + unat (vs_duration_secs s) \<le> unat (now - start)
       \<longrightarrow> calculate_vested s amount start now = amount)"
proof (intro conjI impI)
  show "calculate_vested s amount start now \<le> amount" by (rule calculate_vested_le)
  show "calculate_vested s amount start now \<le> calculate_vested s amount start later"
    using assms by (rule calculate_vested_mono)
qed (simp_all add: calculate_vested_end, simp_all add: calculate_vested_def Let_def)

theorem vesting_bounded_monotone_witness:
  "calculate_vested schedule_team_advisors 4800 1000 (1000 + 5 * 365 * 24 * 60 * 60) = 4800"
  using vesting_bounded_monotone [of "1000 + 5 * 365 * 24 * 60 * 60" "1000 + 5 * 365 * 24 * 60 * 60"
      schedule_team_advisors 4800 1000]
  by (simp add: schedule_team_advisors_def TWELVE_MONTHS_SECS_def FORTY_EIGHT_MONTHS_SECS_def)

text \<open>
  Claims pay exactly what is vested: a contract claimed any number of times, at times that do not
  go back, pays out in total what is vested at the last claim, no more and no less.
\<close>

theorem claims_pay_vested:
  assumes "\<not> vc_revoked c" and "vc_released_amount c = 0" and "sorted ts" and "ts \<noteq> []"
  shows "snd (claim_times c ts)
    = unat (calculate_vested (vc_schedule c) (vc_total_amount c) (vc_start_timestamp c) (last ts))"
proof -
  obtain t ts' where "ts = t # ts'" using assms(4) by (cases ts) auto
  then show ?thesis using claim_times_total [of c t ts'] assms by simp
qed

theorem claims_pay_vested_witness:
  "snd (claim_times (VestingContract_new sample_ext 0 address_zero 900 schedule_immediate 10 True []) [5, 10, 20]) = 900"
  using claims_pay_vested [of "VestingContract_new sample_ext 0 address_zero 900 schedule_immediate 10 True []" "[5, 10, 20]"]
  by (simp add: VestingContract_new_def calculate_vested_def schedule_immediate_def)

text \<open>
  In every reachable manager, whatever the clock does, each contract is stored under its own id and
  a live contract has released at most its total amount.
\<close>

theorem vesting_never_overpays:
  assumes "reachable (vesting_step e) VestingManager_new m" and "get_contract m cid = Some c"
  shows "vc_id c = cid \<and> (vc_revoked c \<or> vc_released_amount c \<le> vc_total_amount c)"
  using vesting.inv_reachable [OF assms(1)] assms(2)
  by (simp add: vesting_inv_def get_contract_def contract_ok_def)

text \<open>
  Revoking strands what is vested but unclaimed: the unvested part is returned, and every later
  claim on the contract is refused, so the difference between the vested and the released amount
  goes to nobody.
\<close>

theorem revoke_strands_vested:
  assumes "contract_revoke now c = Ok (c', unvested)"
  shows "unat unvested + unat (vested_amount now c) = unat (vc_total_amount c)
    \<and> vc_released_amount c' = vc_released_amount c
    \<and> contract_claim later c' = Err ContractRevoked \<and> claimable_amount later c' = 0"
proof -
  have "vested_amount now c \<le> vc_total_amount c"
    using assms calculate_vested_le by (auto simp: contract_revoke_def vested_amount_def split: if_splits)
  then show ?thesis
    using assms
    by (auto simp: contract_revoke_def Let_def contract_claim_def claimable_amount_def vested_amount_def
        word_le_nat_alt unat_sub_exact split: if_splits)
qed

text \<open>
  The presale schedule promises 30% at the token generation event, and \<open>tge_amount\<close> computes it, but
  the vested amount ignores it: during the one-month cliff nothing is vested, so nothing can be
  claimed.
\<close>

theorem presale_tge_not_claimable:
  assumes "vc_schedule c = schedule_presale" and "vc_released_amount c = 0" and "\<not> vc_revoked c"
    and "now - vc_start_timestamp c < ONE_MONTH_SECS"
  shows "contract_claim now c = Err NothingToClaim
    \<and> unat (tge_amount (vc_schedule c) (vc_total_amount c)) = unat (vc_total_amount c) * 30 div 100"
proof -
  have "calculate_vested schedule_presale (vc_total_amount c) (vc_start_timestamp c) now = 0"
    using assms(4) by (simp add: calculate_vested_def schedule_presale_def Let_def)
  moreover have "unat (tge_amount schedule_presale (vc_total_amount c)) = unat (vc_total_amount c) * 30 div 100"
    unfolding tge_amount_def schedule_presale_def by (subst unat_mul_div_le) simp_all
  ultimately show ?thesis
    using assms by (simp add: contract_claim_def claimable_amount_def vested_amount_def Let_def)
qed

subsection \<open>Witnesses\<close>

definition sample_contract :: VestingContract where
  "sample_contract = VestingContract_new sample_ext 0 address_zero 900 schedule_presale 10 True []"

lemma sample_contract_simps [simp]:
  "vc_schedule sample_contract = schedule_presale" "vc_released_amount sample_contract = 0"
  "\<not> vc_revoked sample_contract" "vc_start_timestamp sample_contract = 10" "vc_revocable sample_contract"
  "vc_total_amount sample_contract = 900"
  by (simp_all add: sample_contract_def VestingContract_new_def)

theorem vesting_never_overpays_witness:
  "\<exists>m cid c. reachable (vesting_step sample_ext) VestingManager_new m \<and> get_contract m cid = Some c \<and> vc_id c = cid"
proof -
  let ?m = "vesting_step sample_ext (vesting_step sample_ext VestingManager_new (VSetTge 10))
    (VCreate 0 address_zero 900 schedule_presale True [])"
  have r: "reachable (vesting_step sample_ext) VestingManager_new ?m" by (intro reachable.intros)
  have "get_contract ?m (vesting_id sample_ext 0 address_zero 900) = Some sample_contract"
    by (simp add: vm_set_tge_def create_contract_def VestingManager_new_def Let_def get_contract_def
        sample_contract_def VestingContract_new_def)
  with vesting_never_overpays [OF r] r show ?thesis by blast
qed

theorem revoke_strands_vested_witness:
  "\<exists>c' unvested. contract_revoke 20 sample_contract = Ok (c', unvested) \<and> claimable_amount 1000000000 c' = 0"
proof -
  obtain c' unvested where rev: "contract_revoke 20 sample_contract = Ok (c', unvested)"
    by (simp add: contract_revoke_def Let_def)
  with revoke_strands_vested [OF rev] show ?thesis by blast
qed

theorem presale_tge_not_claimable_witness:
  "contract_claim 20 sample_contract = Err NothingToClaim \<and> unat (tge_amount schedule_presale 900) = 270"
  using presale_tge_not_claimable [of sample_contract 20] by (simp add: ONE_MONTH_SECS_def)

end
