(* ===== verification/Allocation.thy ===== *)
theory Allocation
  imports Emission Hash_Map
begin

section \<open>Allocation pools\<close>

text \<open>
  \<open>pyrax-node/src/tokenomics/allocation.rs\<close>: the eleven pools the supply is split into, allocations to
  recipients out of a pool, and the release of an allocation. \<open>current_timestamp()\<close> is the argument
  \<open>now\<close>. Each call locks what it updates, so a call is one step.
\<close>

datatype AllocationPool =
    Presale | BdagCommunity | MiningPool | ZkProverPool | TeamFounders | Advisors | Ecosystem
  | Marketing | Liquidity | Treasury | Reserve

fun pool_to_u8 :: "AllocationPool \<Rightarrow> u8" where
  "pool_to_u8 Presale = 0"
| "pool_to_u8 BdagCommunity = 1"
| "pool_to_u8 MiningPool = 2"
| "pool_to_u8 ZkProverPool = 3"
| "pool_to_u8 TeamFounders = 4"
| "pool_to_u8 Advisors = 5"
| "pool_to_u8 Ecosystem = 6"
| "pool_to_u8 Marketing = 7"
| "pool_to_u8 Liquidity = 8"
| "pool_to_u8 Treasury = 9"
| "pool_to_u8 Reserve = 10"

fun pool_allocation :: "AllocationPool \<Rightarrow> u64" where
  "pool_allocation Presale = PRESALE_ALLOCATION"
| "pool_allocation BdagCommunity = BDAG_COMMUNITY_ALLOCATION"
| "pool_allocation MiningPool = MINING_REWARDS_ALLOCATION"
| "pool_allocation ZkProverPool = ZK_PROVER_ALLOCATION"
| "pool_allocation TeamFounders = TEAM_ALLOCATION"
| "pool_allocation Advisors = ADVISORS_ALLOCATION"
| "pool_allocation Ecosystem = ECOSYSTEM_ALLOCATION"
| "pool_allocation Marketing = MARKETING_ALLOCATION"
| "pool_allocation Liquidity = LIQUIDITY_ALLOCATION"
| "pool_allocation Treasury = TREASURY_ALLOCATION"
| "pool_allocation Reserve = RESERVE_ALLOCATION"

text \<open>The \<open>*_PERCENT\<close> constants of \<open>tokenomics/mod.rs\<close>, by pool.\<close>

fun pool_percentage :: "AllocationPool \<Rightarrow> u8" where
  "pool_percentage Presale = 15"
| "pool_percentage BdagCommunity = 10"
| "pool_percentage MiningPool = 35"
| "pool_percentage ZkProverPool = 5"
| "pool_percentage TeamFounders = 4"
| "pool_percentage Advisors = 3"
| "pool_percentage Ecosystem = 10"
| "pool_percentage Marketing = 5"
| "pool_percentage Liquidity = 10"
| "pool_percentage Treasury = 2"
| "pool_percentage Reserve = 1"

fun pool_name :: "AllocationPool \<Rightarrow> string" where
  "pool_name Presale = ''Presale''"
| "pool_name BdagCommunity = ''BDAG Community''"
| "pool_name MiningPool = ''Mining Rewards''"
| "pool_name ZkProverPool = ''ZK Prover Rewards''"
| "pool_name TeamFounders = ''Team & Founders''"
| "pool_name Advisors = ''Advisors''"
| "pool_name Ecosystem = ''Ecosystem''"
| "pool_name Marketing = ''Marketing''"
| "pool_name Liquidity = ''Liquidity''"
| "pool_name Treasury = ''Treasury''"
| "pool_name Reserve = ''Reserve''"

fun release_schedule :: "AllocationPool \<Rightarrow> string" where
  "release_schedule Presale = ''30% at TGE, 1 month cliff, 12 month linear vesting''"
| "release_schedule BdagCommunity = ''12 month cliff, 12 month linear vesting''"
| "release_schedule MiningPool = ''Released per block mined''"
| "release_schedule ZkProverPool = ''Released per attestation, 10% burned''"
| "release_schedule TeamFounders = ''12 month cliff, 48 month linear vesting''"
| "release_schedule Advisors = ''12 month cliff, 48 month linear vesting''"
| "release_schedule Ecosystem = ''Milestone-based, DAO approval''"
| "release_schedule Marketing = ''As needed, multi-sig approval''"
| "release_schedule Liquidity = ''100% at TGE''"
| "release_schedule Treasury = ''75% DAO approval required''"
| "release_schedule Reserve = ''DAO governance controlled''"

definition is_tge_release :: "AllocationPool \<Rightarrow> bool" where
  "is_tge_release p = (p = Liquidity)"

definition has_vesting :: "AllocationPool \<Rightarrow> bool" where
  "has_vesting p = (p \<in> {Presale, BdagCommunity, TeamFounders, Advisors})"

definition tge_percent :: "AllocationPool \<Rightarrow> u8" where
  "tge_percent p = (case p of Presale \<Rightarrow> 30 | Liquidity \<Rightarrow> 100 | _ \<Rightarrow> 0)"

definition is_emission_based :: "AllocationPool \<Rightarrow> bool" where
  "is_emission_based p = (p \<in> {MiningPool, ZkProverPool})"

definition requires_dao :: "AllocationPool \<Rightarrow> bool" where
  "requires_dao p = (p \<in> {Ecosystem, Treasury, Reserve})"

definition requires_multisig :: "AllocationPool \<Rightarrow> bool" where
  "requires_multisig p = (p = Marketing)"

definition all_pools :: "AllocationPool list" where
  "all_pools = [Presale, BdagCommunity, MiningPool, ZkProverPool, TeamFounders, Advisors, Ecosystem,
     Marketing, Liquidity, Treasury, Reserve]"

datatype AllocationError =
    PoolNotFound AllocationPool
  | PoolExhausted AllocationPool u64 u64
  | AllocationNotFound h256
  | InsufficientBalance u64 u64
  | VestingNotStarted
  | DaoApprovalRequired
  | MultisigRequired

subsection \<open>Allocations and pools\<close>

record TokenAllocation =
  ta_id :: h256
  ta_pool :: AllocationPool
  ta_recipient :: address
  ta_total_amount :: u64
  ta_released_amount :: u64
  ta_remaining_amount :: u64
  ta_allocated_at :: u64
  ta_last_release_at :: "u64 option"
  ta_fully_released :: bool
  ta_notes :: string

definition allocation_id :: "ext \<Rightarrow> u64 \<Rightarrow> AllocationPool \<Rightarrow> address \<Rightarrow> u64 \<Rightarrow> h256" where
  "allocation_id e now pool recipient amount =
     h256_from_slice (ext_blake3 e
       ([pool_to_u8 pool] @ address_bytes recipient @ u64_to_le_bytes amount @ u64_to_le_bytes now))"

definition TokenAllocation_new ::
  "ext \<Rightarrow> u64 \<Rightarrow> AllocationPool \<Rightarrow> address \<Rightarrow> u64 \<Rightarrow> string \<Rightarrow> TokenAllocation" where
  "TokenAllocation_new e now pool recipient amount notes =
     \<lparr>ta_id = allocation_id e now pool recipient amount, ta_pool = pool, ta_recipient = recipient,
      ta_total_amount = amount, ta_released_amount = 0, ta_remaining_amount = amount,
      ta_allocated_at = now, ta_last_release_at = None, ta_fully_released = False, ta_notes = notes\<rparr>"

definition TokenAllocation_release ::
  "u64 \<Rightarrow> TokenAllocation \<Rightarrow> u64 \<Rightarrow> AllocationError + (TokenAllocation \<times> u64)" where
  "TokenAllocation_release now a amount =
     (if ta_remaining_amount a < amount then Err (InsufficientBalance amount (ta_remaining_amount a))
      else let a' = a\<lparr>ta_released_amount := ta_released_amount a + amount,
                      ta_remaining_amount := ta_remaining_amount a - amount,
                      ta_last_release_at := Some now\<rparr>
        in Ok (if ta_remaining_amount a' = 0 then a'\<lparr>ta_fully_released := True\<rparr> else a', amount))"

record PoolState =
  ps_pool :: AllocationPool
  ps_total_allocation :: u64
  ps_total_distributed :: u64
  ps_total_remaining :: u64
  ps_allocation_count :: u64
  ps_active :: bool

definition PoolState_new :: "AllocationPool \<Rightarrow> PoolState" where
  "PoolState_new pool =
     \<lparr>ps_pool = pool, ps_total_allocation = pool_allocation pool, ps_total_distributed = 0,
      ps_total_remaining = pool_allocation pool, ps_allocation_count = 0, ps_active = True\<rparr>"

definition PoolState_allocate :: "PoolState \<Rightarrow> u64 \<Rightarrow> AllocationError + PoolState" where
  "PoolState_allocate s amount =
     (if ps_total_remaining s < amount
      then Err (PoolExhausted (ps_pool s) amount (ps_total_remaining s))
      else Ok (s\<lparr>ps_total_distributed := ps_total_distributed s + amount,
                 ps_total_remaining := ps_total_remaining s - amount,
                 ps_allocation_count := ps_allocation_count s + 1\<rparr>))"

subsection \<open>The manager\<close>

record AllocationStats =
  as_allocations_created :: u64
  as_tokens_released :: u64
  as_pools_exhausted :: u64

record AllocationManager =
  am_pools :: "(AllocationPool, PoolState) hashmap"
  am_allocations :: "(h256, TokenAllocation) hashmap"
  am_by_recipient :: "(address, h256 list) hashmap"
  am_tge_timestamp :: u64
  am_stats :: AllocationStats

definition AllocationManager_new :: AllocationManager where
  "AllocationManager_new =
     \<lparr>am_pools = fold (\<lambda>pool. hm_insert pool (PoolState_new pool)) all_pools [],
      am_allocations = [], am_by_recipient = [], am_tge_timestamp = 0,
      am_stats = \<lparr>as_allocations_created = 0, as_tokens_released = 0, as_pools_exhausted = 0\<rparr>\<rparr>"

definition am_set_tge :: "AllocationManager \<Rightarrow> u64 \<Rightarrow> AllocationManager" where
  "am_set_tge m timestamp = m\<lparr>am_tge_timestamp := timestamp\<rparr>"

definition create_allocation ::
  "ext \<Rightarrow> u64 \<Rightarrow> AllocationManager \<Rightarrow> AllocationPool \<Rightarrow> address \<Rightarrow> u64 \<Rightarrow> string
    \<Rightarrow> AllocationError + (AllocationManager \<times> h256)" where
  "create_allocation e now m pool recipient amount notes =
     (case hm_get (am_pools m) pool of
        None \<Rightarrow> Err (PoolNotFound pool)
      | Some pool_state \<Rightarrow>
          and_then (PoolState_allocate pool_state amount) (\<lambda>pool_state'.
            let allocation = TokenAllocation_new e now pool recipient amount notes;
                aid = ta_id allocation;
                old = (case hm_get (am_by_recipient m) recipient of None \<Rightarrow> [] | Some ids \<Rightarrow> ids);
                st = am_stats m
            in Ok (m\<lparr>am_pools := hm_insert pool pool_state' (am_pools m),
                     am_allocations := hm_insert aid allocation (am_allocations m),
                     am_by_recipient := hm_insert recipient (old @ [aid]) (am_by_recipient m),
                     am_stats := st\<lparr>as_allocations_created := as_allocations_created st + 1\<rparr>\<rparr>, aid)))"

definition release_tokens ::
  "u64 \<Rightarrow> AllocationManager \<Rightarrow> h256 \<Rightarrow> u64 \<Rightarrow> AllocationError + (AllocationManager \<times> u64)" where
  "release_tokens now m aid amount =
     (case hm_get (am_allocations m) aid of
        None \<Rightarrow> Err (AllocationNotFound aid)
      | Some allocation \<Rightarrow>
          and_then (TokenAllocation_release now allocation amount) (\<lambda>(allocation', released).
            let st = am_stats m in
            Ok (m\<lparr>am_allocations := hm_insert aid allocation' (am_allocations m),
                  am_stats := st\<lparr>as_tokens_released := as_tokens_released st + released\<rparr>\<rparr>, released)))"

definition get_allocation :: "AllocationManager \<Rightarrow> h256 \<Rightarrow> TokenAllocation option" where
  "get_allocation m aid = hm_get (am_allocations m) aid"

definition get_recipient_allocations :: "AllocationManager \<Rightarrow> address \<Rightarrow> TokenAllocation list" where
  "get_recipient_allocations m recipient =
     List.map_filter (hm_get (am_allocations m))
       (case hm_get (am_by_recipient m) recipient of None \<Rightarrow> [] | Some ids \<Rightarrow> ids)"

definition get_pool_state :: "AllocationManager \<Rightarrow> AllocationPool \<Rightarrow> PoolState option" where
  "get_pool_state m pool = hm_get (am_pools m) pool"

definition get_all_pools :: "AllocationManager \<Rightarrow> PoolState list" where
  "get_all_pools m = hm_values (am_pools m)"

subsection \<open>The manager as a machine\<close>

datatype allocation_op =
    ASetTge u64
  | ACreate u64 AllocationPool address u64 string
  | ARelease u64 h256 u64

fun allocation_step :: "ext \<Rightarrow> AllocationManager \<Rightarrow> allocation_op \<Rightarrow> AllocationManager" where
  "allocation_step e m (ASetTge t) = am_set_tge m t"
| "allocation_step e m (ACreate now p a n notes) =
     (case create_allocation e now m p a n notes of Inr (m', _) \<Rightarrow> m' | Inl _ \<Rightarrow> m)"
| "allocation_step e m (ARelease now aid n) =
     (case release_tokens now m aid n of Inr (m', _) \<Rightarrow> m' | Inl _ \<Rightarrow> m)"

definition pool_ok :: "AllocationPool \<Rightarrow> PoolState \<Rightarrow> bool" where
  "pool_ok p s =
     (ps_pool s = p \<and> ps_total_allocation s = pool_allocation p
      \<and> unat (ps_total_distributed s) + unat (ps_total_remaining s) = unat (pool_allocation p))"

definition alloc_ok :: "h256 \<Rightarrow> TokenAllocation \<Rightarrow> bool" where
  "alloc_ok aid a =
     (ta_id a = aid \<and> unat (ta_released_amount a) + unat (ta_remaining_amount a) = unat (ta_total_amount a))"

definition pool_weight :: "AllocationPool \<Rightarrow> TokenAllocation \<Rightarrow> nat" where
  "pool_weight p a = (if ta_pool a = p then unat (ta_total_amount a) else 0)"

definition allocation_inv :: "AllocationManager \<Rightarrow> bool" where
  "allocation_inv m =
     (hm_wf (am_allocations m)
      \<and> (\<forall>aid a. hm_get (am_allocations m) aid = Some a \<longrightarrow> alloc_ok aid a)
      \<and> (\<forall>p. \<exists>s. hm_get (am_pools m) p = Some s \<and> pool_ok p s
            \<and> weight (pool_weight p) (am_allocations m) \<le> unat (ps_total_distributed s)))"

lemma allocation_inv_pool:
  "allocation_inv m \<Longrightarrow> \<exists>s. hm_get (am_pools m) p = Some s \<and> pool_ok p s
    \<and> weight (pool_weight p) (am_allocations m) \<le> unat (ps_total_distributed s)"
  unfolding allocation_inv_def by blast

lemma allocation_inv_entry: "allocation_inv m \<Longrightarrow> hm_get (am_allocations m) aid = Some a \<Longrightarrow> alloc_ok aid a"
  unfolding allocation_inv_def by blast

lemma allocation_new_inv: "allocation_inv AllocationManager_new"
proof -
  have "\<exists>s. hm_get (am_pools AllocationManager_new) p = Some s \<and> pool_ok p s
      \<and> weight (pool_weight p) (am_allocations AllocationManager_new) \<le> unat (ps_total_distributed s)" for p
    by (cases p) (simp_all add: AllocationManager_new_def all_pools_def PoolState_new_def pool_ok_def)
  then show ?thesis by (simp add: allocation_inv_def) (simp add: AllocationManager_new_def)
qed

lemma allocate_ok:
  assumes "pool_ok p s" and "PoolState_allocate s amount = Ok s'"
  shows "pool_ok p s'" and "unat (ps_total_distributed s') = unat (ps_total_distributed s) + unat amount"
proof -
  have le: "unat amount \<le> unat (ps_total_remaining s)"
    and s': "ps_pool s' = ps_pool s" "ps_total_allocation s' = ps_total_allocation s"
      "ps_total_distributed s' = ps_total_distributed s + amount"
      "ps_total_remaining s' = ps_total_remaining s - amount"
    using assms(2) by (auto simp: PoolState_allocate_def not_less word_le_nat_alt split: if_splits)
  have "unat (ps_total_distributed s) + unat amount < 2 ^ 64"
    using le assms(1) unat_less_power [of "pool_allocation p"] by (simp add: pool_ok_def)
  then show "unat (ps_total_distributed s') = unat (ps_total_distributed s) + unat amount"
    by (simp add: s' unat_add_exact)
  then show "pool_ok p s'"
    using le assms(1) by (simp add: pool_ok_def s' unat_sub_exact)
qed

lemma release_ok:
  assumes "alloc_ok aid a" and "TokenAllocation_release now a amount = Ok (a', released)"
  shows "alloc_ok aid a' \<and> ta_pool a' = ta_pool a \<and> ta_total_amount a' = ta_total_amount a
    \<and> released = amount \<and> unat (ta_released_amount a') = unat (ta_released_amount a) + unat amount"
proof -
  have le: "unat amount \<le> unat (ta_remaining_amount a)"
    using assms(2) by (auto simp: TokenAllocation_release_def not_less word_le_nat_alt Let_def split: if_splits)
  have "unat (ta_released_amount a) + unat amount < 2 ^ 64"
    using le assms(1) unat_less_power [of "ta_total_amount a"] by (simp add: alloc_ok_def)
  then show ?thesis
    using assms le
    by (auto simp: TokenAllocation_release_def alloc_ok_def Let_def unat_add_exact unat_sub_exact split: if_splits)
qed

lemma create_allocation_inv:
  assumes inv: "allocation_inv m" and create: "create_allocation e now m pool r amount notes = Ok (m', aid)"
  shows "allocation_inv m'"
proof -
  let ?a = "TokenAllocation_new e now pool r amount notes"
  obtain s s' where s: "hm_get (am_pools m) pool = Some s" "PoolState_allocate s amount = Ok s'"
    and m': "am_pools m' = hm_insert pool s' (am_pools m)"
      "am_allocations m' = hm_insert (ta_id ?a) ?a (am_allocations m)"
    using create by (auto simp: create_allocation_def and_then_Ok_iff Let_def split: option.splits)
  have ok: "pool_ok pool s" "weight (pool_weight pool) (am_allocations m) \<le> unat (ps_total_distributed s)"
    using allocation_inv_pool [OF inv, of pool] s(1) by simp_all
  have wf: "hm_wf (am_allocations m)" using inv by (simp add: allocation_inv_def)
  have put: "weight (pool_weight p) (am_allocations m')
      \<le> weight (pool_weight p) (am_allocations m) + (if p = pool then unat amount else 0)" for p
    using hm_weight.total_put_le [OF wf, of "pool_weight p" "ta_id ?a" ?a]
    by (auto simp: m' pool_weight_def TokenAllocation_new_def)
  have "\<exists>s. hm_get (am_pools m') p = Some s \<and> pool_ok p s
      \<and> weight (pool_weight p) (am_allocations m') \<le> unat (ps_total_distributed s)" for p
  proof (cases "p = pool")
    case True
    then show ?thesis using allocate_ok [OF ok(1) s(2)] ok(2) put [of pool] by (simp add: m')
  next
    case False
    with put [of p] have "weight (pool_weight p) (am_allocations m') \<le> weight (pool_weight p) (am_allocations m)"
      by simp
    then show ?thesis using allocation_inv_pool [OF inv, of p] False by (auto simp: m'(1) intro: order_trans)
  qed
  moreover have "alloc_ok (ta_id ?a) ?a" by (simp add: alloc_ok_def TokenAllocation_new_def)
  ultimately show ?thesis using inv by (auto simp: allocation_inv_def m' split: if_splits)
qed

lemma release_tokens_inv:
  assumes inv: "allocation_inv m" and rel: "release_tokens now m aid amount = Ok (m', released)"
  shows "allocation_inv m'"
proof -
  obtain a a' where a: "hm_get (am_allocations m) aid = Some a"
    "TokenAllocation_release now a amount = Ok (a', released)"
    and m': "am_pools m' = am_pools m" "am_allocations m' = hm_insert aid a' (am_allocations m)"
    using rel by (auto simp: release_tokens_def and_then_Ok_iff Let_def split: option.splits)
  have wf: "hm_wf (am_allocations m)" and "alloc_ok aid a" using inv a(1) by (auto simp: allocation_inv_def)
  note ok = release_ok [OF this(2) a(2)]
  have "weight (pool_weight p) (am_allocations m') = weight (pool_weight p) (am_allocations m)" for p
    using hm_weight.total_put [OF wf, of "pool_weight p" aid a'] a(1) ok by (simp add: m' pool_weight_def split: if_splits)
  then show ?thesis using inv ok by (auto simp: allocation_inv_def m' split: if_splits)
qed

lemma allocation_step_inv: "allocation_inv m \<Longrightarrow> allocation_inv (allocation_step e m x)"
proof (cases x)
  case (ASetTge t)
  moreover assume "allocation_inv m"
  ultimately show ?thesis by (simp add: allocation_inv_def am_set_tge_def)
qed (auto dest: create_allocation_inv release_tokens_inv split: sum.split)

interpretation alloc: machine AllocationManager_new "allocation_step e" allocation_inv for e :: ext
  by unfold_locales (simp_all add: allocation_new_inv allocation_step_inv)

subsection \<open>Properties\<close>

lemma weight_by_pool: "weight w m = (\<Sum>p\<leftarrow>all_pools. weight (\<lambda>a. if ta_pool a = p then w a else 0) m)"
proof (induction m)
  case (Cons e m)
  have "w (snd e) = (\<Sum>p\<leftarrow>all_pools. if ta_pool (snd e) = p then w (snd e) else 0)"
    by (cases "ta_pool (snd e)") (simp_all add: all_pools_def)
  then show ?case using Cons by (simp add: weight_def sum_list_addf)
qed (simp add: all_pools_def)

lemma pool_total: "(\<Sum>p\<leftarrow>all_pools. unat (pool_allocation p)) = unat TOTAL_SUPPLY"
  by (simp add: all_pools_def allocation_defs)

text \<open>
  No pool is ever over-allocated: in every reachable manager what a pool has distributed and what
  remains make up exactly its share, and the recorded allocations out of the pool stay within what
  it distributed; so everything ever released stays within the total supply.
\<close>

theorem pools_never_overallocated:
  assumes "reachable (allocation_step e) AllocationManager_new m"
  shows "(\<forall>p. \<exists>s. get_pool_state m p = Some s
        \<and> unat (ps_total_distributed s) + unat (ps_total_remaining s) = unat (pool_allocation p)
        \<and> weight (pool_weight p) (am_allocations m) \<le> unat (ps_total_distributed s))
    \<and> weight (\<lambda>a. unat (ta_released_amount a)) (am_allocations m) \<le> unat TOTAL_SUPPLY"
proof -
  have inv: "allocation_inv m" using assms by (rule alloc.inv_reachable)
  have wf: "hm_wf (am_allocations m)" using inv by (simp add: allocation_inv_def)
  have per_pool: "\<exists>s. get_pool_state m p = Some s
        \<and> unat (ps_total_distributed s) + unat (ps_total_remaining s) = unat (pool_allocation p)
        \<and> weight (pool_weight p) (am_allocations m) \<le> unat (ps_total_distributed s)" for p
    using inv unfolding allocation_inv_def get_pool_state_def pool_ok_def by blast
  have "unat (ta_released_amount a) \<le> unat (ta_total_amount a)" if "a \<in> set (hm_values (am_allocations m))" for a
    using hm_values_cases [OF wf that] allocation_inv_entry [OF inv] by (fastforce simp: alloc_ok_def)
  then have "weight (\<lambda>a. unat (ta_released_amount a)) (am_allocations m)
      \<le> weight (\<lambda>a. unat (ta_total_amount a)) (am_allocations m)"
    by (rule weight_mono_fun)
  also have "\<dots> = (\<Sum>p\<leftarrow>all_pools. weight (pool_weight p) (am_allocations m))"
    unfolding pool_weight_def [abs_def] by (rule weight_by_pool)
  also have "\<dots> \<le> (\<Sum>p\<leftarrow>all_pools. unat (pool_allocation p))"
    by (rule sum_list_mono) (use per_pool in \<open>metis le_add1 le_trans\<close>)
  finally show ?thesis using per_pool by (simp add: pool_total)
qed

text \<open>
  An allocation is named by its pool, recipient, amount and the second it is made in, so two equal
  allocations within one second share an id: the pool is debited twice, and only one allocation is
  recorded, with nothing released from it even if the first already had been.
\<close>

theorem same_second_allocations_collide:
  assumes "create_allocation e now m pool r amount notes = Ok (m1, aid)"
    and "release_tokens now m1 aid part = Ok (m2, released)"
    and "create_allocation e now m2 pool r amount notes' = Ok (m3, aid')"
  shows "aid' = aid
    \<and> (\<exists>a. get_allocation m3 aid = Some a \<and> ta_total_amount a = amount \<and> ta_released_amount a = 0)
    \<and> (\<exists>s s'. get_pool_state m pool = Some s \<and> get_pool_state m3 pool = Some s'
        \<and> ps_total_distributed s' = ps_total_distributed s + amount + amount)"
proof -
  have pools: "am_pools m2 = am_pools m1"
    using assms(2) by (auto simp: release_tokens_def and_then_Ok_iff Let_def split: option.splits)
  have "aid = allocation_id e now pool r amount" "aid' = allocation_id e now pool r amount"
    "get_allocation m3 aid' = Some (TokenAllocation_new e now pool r amount notes')"
    using assms(1,3)
    by (auto simp: create_allocation_def and_then_Ok_iff Let_def TokenAllocation_new_def get_allocation_def
        split: option.splits)
  moreover have "\<exists>s s'. get_pool_state m pool = Some s \<and> get_pool_state m3 pool = Some s'
        \<and> ps_total_distributed s' = ps_total_distributed s + amount + amount"
    using assms(1,3) pools
    by (auto simp: create_allocation_def and_then_Ok_iff Let_def get_pool_state_def PoolState_allocate_def
        split: option.splits if_splits)
  ultimately show ?thesis by (simp add: TokenAllocation_new_def)
qed

subsection \<open>Witnesses\<close>

definition sample_manager :: AllocationManager where
  "sample_manager = allocation_step sample_ext AllocationManager_new (ACreate 7 Marketing address_zero 100 [])"

theorem pools_never_overallocated_witness:
  "\<exists>s. get_pool_state sample_manager Marketing = Some s
    \<and> unat (ps_total_distributed s) + unat (ps_total_remaining s) = 500000000000000000"
proof -
  have "reachable (allocation_step sample_ext) AllocationManager_new sample_manager"
    unfolding sample_manager_def by (intro reachable.intros)
  from pools_never_overallocated [OF this] obtain s where "get_pool_state sample_manager Marketing = Some s"
    and "unat (ps_total_distributed s) + unat (ps_total_remaining s) = unat (pool_allocation Marketing)"
    by blast
  then show ?thesis by (simp add: allocation_defs)
qed

theorem same_second_allocations_collide_witness:
  "\<exists>m1 aid m2 n m3. create_allocation sample_ext 7 AllocationManager_new Marketing address_zero 100 [] = Ok (m1, aid)
    \<and> release_tokens 7 m1 aid 60 = Ok (m2, n)
    \<and> create_allocation sample_ext 7 m2 Marketing address_zero 100 [] = Ok (m3, aid)"
proof -
  let ?pools = "am_pools AllocationManager_new"
  have pool: "hm_get ?pools Marketing = Some (PoolState_new Marketing)"
    by (simp add: AllocationManager_new_def all_pools_def)
  obtain m1 aid where c1: "create_allocation sample_ext 7 AllocationManager_new Marketing address_zero 100 [] = Ok (m1, aid)"
    by (simp add: create_allocation_def pool PoolState_allocate_def PoolState_new_def allocation_defs Let_def)
  obtain m2 n where c2: "release_tokens 7 m1 aid 60 = Ok (m2, n)"
    using c1 by (auto simp: create_allocation_def pool PoolState_allocate_def PoolState_new_def allocation_defs
        Let_def release_tokens_def TokenAllocation_release_def TokenAllocation_new_def)
  have p2: "hm_get (am_pools m2) Marketing = Some ((PoolState_new Marketing)\<lparr>ps_total_distributed := 100,
      ps_total_remaining := 499999999999999900, ps_allocation_count := 1\<rparr>)"
    using c1 c2 by (auto simp: create_allocation_def pool PoolState_allocate_def PoolState_new_def allocation_defs
        Let_def release_tokens_def TokenAllocation_release_def TokenAllocation_new_def)
  obtain m3 aid' where c3: "create_allocation sample_ext 7 m2 Marketing address_zero 100 [] = Ok (m3, aid')"
    by (simp add: create_allocation_def p2 PoolState_allocate_def PoolState_new_def Let_def)
  show ?thesis using same_second_allocations_collide [OF c1 c2 c3] c1 c2 c3 by blast
qed

end
