(* ===== verification/Validators.thy ===== *)
theory Validators
  imports Chain_Types Hash_Map "HOL-Library.Multiset"
begin

section \<open>Validators and the validator set\<close>

text \<open>
  \<open>pyrax-node/src/consensus/staking/validator.rs\<close>: a validator with its stake and status, and the
  validator set of an epoch with its quorum and its proposer selection. \<open>current_timestamp()\<close> is the
  argument \<open>now\<close>; the uptime percentage (a float for display) is left out.
\<close>

definition MIN_VALIDATOR_STAKE :: u64 where "MIN_VALIDATOR_STAKE = 100000 * 100000000"
definition MIN_DELEGATION_STAKE :: u64 where "MIN_DELEGATION_STAKE = 100 * 100000000"
definition MAX_ACTIVE_VALIDATORS :: nat where "MAX_ACTIVE_VALIDATORS = 100"
definition UNBONDING_PERIOD_SECS :: u64 where "UNBONDING_PERIOD_SECS = 7 * 24 * 60 * 60"
definition EPOCH_DURATION_SECS :: u64 where "EPOCH_DURATION_SECS = 24 * 60 * 60"
definition DOUBLE_SIGN_SLASH_PERCENT :: u8 where "DOUBLE_SIGN_SLASH_PERCENT = 5"
definition DOWNTIME_SLASH_PERCENT_TENTHS :: u8 where "DOWNTIME_SLASH_PERCENT_TENTHS = 1"
definition JAIL_DURATION_SECS :: u64 where "JAIL_DURATION_SECS = 24 * 60 * 60"

datatype ValidatorStatus = VPending | VActive | VInactive | VUnbonding | VJailed | VTombstoned

record Validator =
  v_address :: address
  v_operator :: address
  v_consensus_pubkey :: "u8 list"
  v_commission_bps :: u16
  v_self_stake :: u64
  v_delegated_stake :: u64
  v_status :: ValidatorStatus
  v_jail_until :: "u64 option"
  v_blocks_signed :: u64
  v_blocks_proposed :: u64
  v_blocks_missed :: u64
  v_pending_rewards :: u64
  v_registered_at :: u64
  v_last_active :: u64
  v_description :: string
  v_website :: string

definition Validator_new ::
  "u64 \<Rightarrow> address \<Rightarrow> address \<Rightarrow> u8 list \<Rightarrow> u64 \<Rightarrow> u16 \<Rightarrow> string \<Rightarrow> Validator" where
  "Validator_new now addr operator consensus_pubkey self_stake commission_bps description =
     \<lparr>v_address = addr, v_operator = operator, v_consensus_pubkey = consensus_pubkey,
      v_commission_bps = min commission_bps 10000, v_self_stake = self_stake, v_delegated_stake = 0,
      v_status = VPending, v_jail_until = None, v_blocks_signed = 0, v_blocks_proposed = 0,
      v_blocks_missed = 0, v_pending_rewards = 0, v_registered_at = now, v_last_active = now,
      v_description = description, v_website = []\<rparr>"

definition total_stake :: "Validator \<Rightarrow> u64" where
  "total_stake v = saturating_add (v_self_stake v) (v_delegated_stake v)"

definition voting_power :: "Validator \<Rightarrow> u64" where
  "voting_power v = total_stake v"

definition can_activate :: "Validator \<Rightarrow> bool" where
  "can_activate v = (v_status v = VPending \<and> MIN_VALIDATOR_STAKE \<le> v_self_stake v)"

definition is_jailed :: "Validator \<Rightarrow> bool" where
  "is_jailed v = (v_status v = VJailed)"

definition can_unjail :: "u64 \<Rightarrow> Validator \<Rightarrow> bool" where
  "can_unjail now v = (case v_jail_until v of Some release_time \<Rightarrow> release_time \<le> now | None \<Rightarrow> False)"

definition jail :: "u64 \<Rightarrow> Validator \<Rightarrow> u64 \<Rightarrow> Validator" where
  "jail now v duration_secs = v\<lparr>v_status := VJailed, v_jail_until := Some (now + duration_secs)\<rparr>"

definition unjail :: "u64 \<Rightarrow> Validator \<Rightarrow> string + Validator" where
  "unjail now v =
     (if \<not> can_unjail now v then Err ''Jail period not ended''
      else if v_status v = VTombstoned then Err ''Validator is tombstoned''
      else Ok (v\<lparr>v_status := VInactive, v_jail_until := None\<rparr>))"

definition tombstone :: "Validator \<Rightarrow> Validator" where
  "tombstone v = v\<lparr>v_status := VTombstoned\<rparr>"

definition add_delegation :: "Validator \<Rightarrow> u64 \<Rightarrow> Validator" where
  "add_delegation v amount = v\<lparr>v_delegated_stake := saturating_add (v_delegated_stake v) amount\<rparr>"

definition remove_delegation :: "Validator \<Rightarrow> u64 \<Rightarrow> Validator" where
  "remove_delegation v amount = v\<lparr>v_delegated_stake := saturating_sub (v_delegated_stake v) amount\<rparr>"

definition add_rewards :: "Validator \<Rightarrow> u64 \<Rightarrow> Validator" where
  "add_rewards v amount = v\<lparr>v_pending_rewards := saturating_add (v_pending_rewards v) amount\<rparr>"

definition withdraw_rewards :: "Validator \<Rightarrow> Validator \<times> u64" where
  "withdraw_rewards v = (v\<lparr>v_pending_rewards := 0\<rparr>, v_pending_rewards v)"

definition slash :: "Validator \<Rightarrow> u8 \<Rightarrow> Validator \<times> u64" where
  "slash v percent =
     (let slash_amount = mul_div (v_self_stake v) (ucast percent) 100
      in (v\<lparr>v_self_stake := saturating_sub (v_self_stake v) slash_amount\<rparr>, slash_amount))"

definition record_signed :: "u64 \<Rightarrow> Validator \<Rightarrow> Validator" where
  "record_signed now v = v\<lparr>v_blocks_signed := v_blocks_signed v + 1, v_last_active := now\<rparr>"

definition record_missed :: "Validator \<Rightarrow> Validator" where
  "record_missed v = v\<lparr>v_blocks_missed := v_blocks_missed v + 1\<rparr>"

definition record_proposed :: "u64 \<Rightarrow> Validator \<Rightarrow> Validator" where
  "record_proposed now v = v\<lparr>v_blocks_proposed := v_blocks_proposed v + 1, v_last_active := now\<rparr>"

subsection \<open>The validator set\<close>

datatype ValidatorSelection = WeightedRandom | RoundRobin | HighestStake

record ValidatorSet =
  set_epoch :: u64
  set_epoch_start :: u64
  set_validators :: "address list"
  set_voting_power :: "(address, u64) hashmap"
  set_total_voting_power :: u64
  set_proposer_index :: nat
  set_selection :: ValidatorSelection

definition ValidatorSet_new :: "u64 \<Rightarrow> u64 \<Rightarrow> ValidatorSelection \<Rightarrow> ValidatorSet" where
  "ValidatorSet_new now epoch selection =
     \<lparr>set_epoch = epoch, set_epoch_start = now, set_validators = [], set_voting_power = [],
      set_total_voting_power = 0, set_proposer_index = 0, set_selection = selection\<rparr>"

definition set_add :: "ValidatorSet \<Rightarrow> Validator \<Rightarrow> ValidatorSet" where
  "set_add s v =
     s\<lparr>set_voting_power := hm_insert (v_address v) (voting_power v) (set_voting_power s),
       set_validators := set_validators s @ [v_address v],
       set_total_voting_power := set_total_voting_power s + voting_power v\<rparr>"

text \<open>The stable sort with the comparison reversed.\<close>

definition ranked :: "Validator list \<Rightarrow> Validator list" where
  "ranked vs = sort_key (\<lambda>v. - uint (voting_power v)) (filter (\<lambda>v. v_status v = VActive) vs)"

definition from_validators :: "u64 \<Rightarrow> u64 \<Rightarrow> Validator list \<Rightarrow> ValidatorSelection \<Rightarrow> ValidatorSet" where
  "from_validators now epoch validators selection =
     foldl set_add (ValidatorSet_new now epoch selection) (take MAX_ACTIVE_VALIDATORS (ranked validators))"

definition current_proposer :: "ValidatorSet \<Rightarrow> address option" where
  "current_proposer s = nth_opt (set_validators s) (set_proposer_index s)"

definition next_proposer :: "ValidatorSet \<Rightarrow> ValidatorSet \<times> address option" where
  "next_proposer s =
     (if set_validators s = [] then (s, None)
      else let s' = s\<lparr>set_proposer_index := (set_proposer_index s + 1) mod length (set_validators s)\<rparr>
        in (s', current_proposer s'))"

fun weighted_loop :: "(address, u64) hashmap \<Rightarrow> u64 \<Rightarrow> u64 \<Rightarrow> address list \<Rightarrow> address option" where
  "weighted_loop powers target cumulative [] = None"
| "weighted_loop powers target cumulative (a # rest) =
     (case hm_get powers a of
        None \<Rightarrow> weighted_loop powers target cumulative rest
      | Some pw \<Rightarrow>
          let cumulative' = cumulative + pw in
          if target < cumulative' then Some a else weighted_loop powers target cumulative' rest)"

definition weighted_select :: "ValidatorSet \<Rightarrow> u64 \<Rightarrow> address option" where
  "weighted_select s seed =
     (if set_total_voting_power s = 0 then None
      else let target = seed mod set_total_voting_power s in
      case weighted_loop (set_voting_power s) target 0 (set_validators s) of
        Some a \<Rightarrow> Some a
      | None \<Rightarrow> nth_opt (set_validators s) 0)"

definition select_proposer :: "ValidatorSet \<Rightarrow> u64 \<Rightarrow> address option" where
  "select_proposer s block_number =
     (if set_validators s = [] then None
      else case set_selection s of
        RoundRobin \<Rightarrow> nth_opt (set_validators s) (unat block_number mod length (set_validators s))
      | WeightedRandom \<Rightarrow> weighted_select s block_number
      | HighestStake \<Rightarrow> nth_opt (set_validators s) 0)"

definition set_contains :: "ValidatorSet \<Rightarrow> address \<Rightarrow> bool" where
  "set_contains s a = (a \<in> set (set_validators s))"

definition get_voting_power :: "ValidatorSet \<Rightarrow> address \<Rightarrow> u64" where
  "get_voting_power s a = (case hm_get (set_voting_power s) a of None \<Rightarrow> 0 | Some p \<Rightarrow> p)"

definition quorum :: "ValidatorSet \<Rightarrow> u64" where
  "quorum s = (set_total_voting_power s * 2) div 3 + 1"

definition has_quorum :: "ValidatorSet \<Rightarrow> (address, u64) hashmap \<Rightarrow> bool" where
  "has_quorum s votes = (quorum s \<le> sum_list (hm_values votes))"

subsection \<open>A well-formed set\<close>

text \<open>
  What a set built by \<open>from_validators\<close> satisfies when addresses are distinct and the powers fit: the
  powers are recorded for exactly the listed validators and sum to the total.
\<close>

definition power_of :: "ValidatorSet \<Rightarrow> address \<Rightarrow> nat" where
  "power_of s a = unat (get_voting_power s a)"

definition wf_set :: "ValidatorSet \<Rightarrow> bool" where
  "wf_set s =
     (distinct (set_validators s)
      \<and> (\<forall>a. hm_get (set_voting_power s) a \<noteq> None \<longleftrightarrow> a \<in> set (set_validators s))
      \<and> unat (set_total_voting_power s) = sum_list (map (power_of s) (set_validators s)))"

lemma foldl_set_add:
  assumes "distinct (set_validators s @ map v_address vs)"
    and "\<forall>a. hm_get (set_voting_power s) a \<noteq> None \<longleftrightarrow> a \<in> set (set_validators s)"
  shows "set_validators (foldl set_add s vs) = set_validators s @ map v_address vs
    \<and> (\<forall>a. hm_get (set_voting_power (foldl set_add s vs)) a \<noteq> None
      \<longleftrightarrow> a \<in> set (set_validators s) \<union> v_address ` set vs)
    \<and> (\<forall>a \<in> set (set_validators s). hm_get (set_voting_power (foldl set_add s vs)) a = hm_get (set_voting_power s) a)
    \<and> (\<forall>v \<in> set vs. hm_get (set_voting_power (foldl set_add s vs)) (v_address v) = Some (voting_power v))
    \<and> set_total_voting_power (foldl set_add s vs)
      = set_total_voting_power s + sum_list (map voting_power vs)"
  using assms
proof (induction vs arbitrary: s)
  case (Cons v vs)
  have prem: "distinct (set_validators (set_add s v) @ map v_address vs)"
    "\<forall>a. hm_get (set_voting_power (set_add s v)) a \<noteq> None \<longleftrightarrow> a \<in> set (set_validators (set_add s v))"
    using Cons.prems by (auto simp: set_add_def)
  have new: "set_validators (set_add s v) = set_validators s @ [v_address v]"
    "set_total_voting_power (set_add s v) = set_total_voting_power s + voting_power v"
    "hm_get (set_voting_power (set_add s v)) a
      = (if a = v_address v then Some (voting_power v) else hm_get (set_voting_power s) a)" for a
    by (simp_all add: set_add_def)
  show ?case
    using Cons.IH [OF prem] Cons.prems(1) by (auto simp: new add.assoc)
qed simp

lemma ranked_members: "v \<in> set (ranked vs) \<longleftrightarrow> v \<in> set vs \<and> v_status v = VActive"
  by (auto simp: ranked_def)

lemma ranked_sorted: "sorted_wrt (\<lambda>a b. voting_power b \<le> voting_power a) (ranked vs)"
  using sorted_sort_key [of "\<lambda>v. - uint (voting_power v)" "filter (\<lambda>v. v_status v = VActive) vs"]
  by (simp add: ranked_def sorted_map word_le_def)

lemma distinct_map_ranked: "distinct (map f vs) \<Longrightarrow> distinct (map f (ranked vs))"
proof -
  assume d: "distinct (map f vs)"
  have "mset (map f (ranked vs)) = mset (map f (filter (\<lambda>v. v_status v = VActive) vs))"
    by (simp add: ranked_def)
  moreover have "distinct (map f (filter (\<lambda>v. v_status v = VActive) vs))"
    using d by (induction vs) auto
  ultimately show ?thesis by (metis mset_eq_imp_distinct_iff)
qed

definition elected :: "Validator list \<Rightarrow> Validator list" where
  "elected vs = take MAX_ACTIVE_VALIDATORS (ranked vs)"

lemma sum_list_filter_le: "sum_list (map f (filter P xs)) \<le> sum_list (map f xs)"
  for f :: "'a \<Rightarrow> nat"
  by (induction xs) simp_all

lemma elected_sum_le: "sum_list (map f (elected vs)) \<le> sum_list (map f vs)"
  for f :: "Validator \<Rightarrow> nat"
proof -
  have "sum_list (map f (elected vs)) \<le> sum_list (map f (ranked vs))"
    by (metis append_take_drop_id elected_def le_add1 map_append sum_list_append)
  also have "\<dots> = sum_list (map f (filter (\<lambda>v. v_status v = VActive) vs))"
    by (simp add: ranked_def flip: sum_mset_sum_list)
  also have "\<dots> \<le> sum_list (map f vs)" by (rule sum_list_filter_le)
  finally show ?thesis .
qed

lemma distinct_map_elected: "distinct (map f vs) \<Longrightarrow> distinct (map f (elected vs))"
  using distinct_map_ranked [of f vs] by (simp add: elected_def take_map [symmetric])

lemma from_validators_state:
  assumes "distinct (map v_address vs)"
  shows "set_validators (from_validators now epoch vs selection) = map v_address (elected vs)"
    and "\<forall>a. hm_get (set_voting_power (from_validators now epoch vs selection)) a \<noteq> None
      \<longleftrightarrow> a \<in> v_address ` set (elected vs)"
    and "\<forall>v \<in> set (elected vs).
      hm_get (set_voting_power (from_validators now epoch vs selection)) (v_address v) = Some (voting_power v)"
    and "set_total_voting_power (from_validators now epoch vs selection) = sum_list (map voting_power (elected vs))"
proof -
  let ?s0 = "ValidatorSet_new now epoch selection"
  have p: "distinct (set_validators ?s0 @ map v_address (elected vs))"
    "\<forall>a. hm_get (set_voting_power ?s0) a \<noteq> None \<longleftrightarrow> a \<in> set (set_validators ?s0)"
    using distinct_map_elected [OF assms] by (simp_all add: ValidatorSet_new_def)
  note st = foldl_set_add [OF p]
  have s: "from_validators now epoch vs selection = foldl set_add ?s0 (elected vs)"
    by (simp add: from_validators_def elected_def)
  show "set_validators (from_validators now epoch vs selection) = map v_address (elected vs)"
    "\<forall>a. hm_get (set_voting_power (from_validators now epoch vs selection)) a \<noteq> None
      \<longleftrightarrow> a \<in> v_address ` set (elected vs)"
    "\<forall>v \<in> set (elected vs).
      hm_get (set_voting_power (from_validators now epoch vs selection)) (v_address v) = Some (voting_power v)"
    "set_total_voting_power (from_validators now epoch vs selection) = sum_list (map voting_power (elected vs))"
    using st unfolding s by (simp_all add: ValidatorSet_new_def)
qed

lemma from_validators_wf:
  assumes "distinct (map v_address vs)"
    and "sum_list (map (unat \<circ> voting_power) (elected vs)) < 2 ^ 64"
  shows "wf_set (from_validators now epoch vs selection)"
proof -
  let ?s = "from_validators now epoch vs selection"
  note st = from_validators_state [OF assms(1), of now epoch selection]
  have "map (power_of ?s) (set_validators ?s) = map (unat \<circ> voting_power) (elected vs)"
    using st(1,3) by (auto simp: power_of_def get_voting_power_def)
  moreover have "unat (set_total_voting_power ?s) = sum_list (map (unat \<circ> voting_power) (elected vs))"
    unfolding st(4) using assms(2) by (subst unat_sum_list_exact) simp_all
  ultimately have "unat (set_total_voting_power ?s) = sum_list (map (power_of ?s) (set_validators ?s))"
    by (simp only:)
  then show ?thesis
    using st(1,2) distinct_map_elected [OF assms(1)] by (simp add: wf_set_def)
qed

lemma from_validators_best:
  assumes "distinct (map v_address vs)" and "w \<in> set vs" and "v_status w = VActive"
    and "v_address w \<notin> set (set_validators (from_validators now epoch vs selection))"
  shows "length (set_validators (from_validators now epoch vs selection)) = MAX_ACTIVE_VALIDATORS
    \<and> (\<forall>v \<in> set (elected vs). voting_power w \<le> voting_power v)"
proof -
  let ?r = "ranked vs"
  have out: "w \<notin> set (elected vs)"
    using assms(4) from_validators_state(1) [OF assms(1), of now epoch selection] by auto
  have "w \<in> set ?r" using assms(2,3) by (simp add: ranked_members)
  then have inr: "w \<in> set (drop MAX_ACTIVE_VALIDATORS ?r)"
    using out by (metis append_take_drop_id elected_def Un_iff set_append)
  have "sorted_wrt (\<lambda>a b. voting_power b \<le> voting_power a)
      (take MAX_ACTIVE_VALIDATORS ?r @ drop MAX_ACTIVE_VALIDATORS ?r)"
    using ranked_sorted [of vs] by simp
  then have "\<forall>v \<in> set (elected vs). voting_power w \<le> voting_power v"
    using inr unfolding sorted_wrt_append elected_def by blast
  moreover have "MAX_ACTIVE_VALIDATORS < length ?r"
    using inr by (metis drop_all empty_iff linorder_not_le list.set(1))
  ultimately show ?thesis
    using from_validators_state(1) [OF assms(1), of now epoch selection] by (simp add: elected_def)
qed

subsection \<open>Proposer selection\<close>

definition power_below :: "ValidatorSet \<Rightarrow> nat \<Rightarrow> nat" where
  "power_below s i = sum_list (map (power_of s) (take i (set_validators s)))"

lemma weighted_loop_spec:
  assumes "\<forall>a \<in> set as. hm_get powers a \<noteq> None"
    and "unat c + sum_list (map (\<lambda>a. held unat (hm_get powers a)) as) < 2 ^ 64"
    and "unat c \<le> unat target" and "unat target < unat c + sum_list (map (\<lambda>a. held unat (hm_get powers a)) as)"
  shows "\<exists>i < length as. weighted_loop powers target c as = Some (as ! i)
    \<and> unat c + sum_list (map (\<lambda>a. held unat (hm_get powers a)) (take i as)) \<le> unat target
    \<and> unat target < unat c + sum_list (map (\<lambda>a. held unat (hm_get powers a)) (take (Suc i) as))"
  using assms
proof (induction "as" arbitrary: c)
  case (Cons a "as")
  obtain p where p: "hm_get powers a = Some p" using Cons.prems(1) by auto
  have exact: "unat (c + p) = unat c + unat p"
    using Cons.prems(2) p by (intro unat_add_exact) simp
  show ?case
  proof (cases "target < c + p")
    case True
    then show ?thesis
      using p exact Cons.prems(3) by (intro exI [of _ 0]) (simp add: word_less_nat_alt)
  next
    case False
    have "\<exists>i < length as. weighted_loop powers target (c + p) as = Some (as ! i)
      \<and> unat (c + p) + sum_list (map (\<lambda>a. held unat (hm_get powers a)) (take i as)) \<le> unat target
      \<and> unat target < unat (c + p) + sum_list (map (\<lambda>a. held unat (hm_get powers a)) (take (Suc i) as))"
      using Cons.prems p exact False by (intro Cons.IH) (simp_all add: word_less_nat_alt)
    then obtain i where "i < length as" "weighted_loop powers target (c + p) as = Some (as ! i)"
      "unat (c + p) + sum_list (map (\<lambda>a. held unat (hm_get powers a)) (take i as)) \<le> unat target"
      "unat target < unat (c + p) + sum_list (map (\<lambda>a. held unat (hm_get powers a)) (take (Suc i) as))"
      by blast
    then show ?thesis
      using p exact False by (intro exI [of _ "Suc i"]) simp
  qed
qed simp

lemma power_of_held: "power_of s = (\<lambda>a. held unat (hm_get (set_voting_power s) a))"
  by (rule ext) (simp add: power_of_def get_voting_power_def split: option.split)

lemma weighted_select_spec:
  assumes "wf_set s" and "set_total_voting_power s \<noteq> 0"
  shows "\<exists>i < length (set_validators s). weighted_select s seed = Some (set_validators s ! i)
    \<and> power_below s i \<le> unat seed mod unat (set_total_voting_power s)
    \<and> unat seed mod unat (set_total_voting_power s) < power_below s (Suc i)"
proof -
  let ?t = "seed mod set_total_voting_power s"
  have pos: "0 < unat (set_total_voting_power s)" using assms(2) by (simp add: unat_gt_0)
  have sum: "sum_list (map (\<lambda>a. held unat (hm_get (set_voting_power s) a)) (set_validators s))
      = unat (set_total_voting_power s)"
    using assms(1) by (simp add: wf_set_def power_of_held)
  have "\<exists>i < length (set_validators s).
      weighted_loop (set_voting_power s) ?t 0 (set_validators s) = Some (set_validators s ! i)
    \<and> unat (0::u64) + sum_list (map (\<lambda>a. held unat (hm_get (set_voting_power s) a)) (take i (set_validators s))) \<le> unat ?t
    \<and> unat ?t < unat (0::u64) + sum_list (map (\<lambda>a. held unat (hm_get (set_voting_power s) a)) (take (Suc i) (set_validators s)))"
    using assms(1) pos unat_less_power [of "set_total_voting_power s"]
    by (intro weighted_loop_spec) (simp_all add: sum wf_set_def unat_mod)
  then show ?thesis
    using assms(2) by (auto simp: weighted_select_def power_below_def power_of_held unat_mod)
qed

subsection \<open>Quorums\<close>

lemma quorum_exact:
  assumes "unat (set_total_voting_power s) < 2 ^ 63"
  shows "unat (quorum s) = unat (set_total_voting_power s) * 2 div 3 + 1"
proof -
  let ?t = "set_total_voting_power s"
  have d: "unat (?t * 2) = unat ?t * 2"
    using assms by (simp add: unat_word_ariths)
  have "unat (?t * 2 div 3) = unat ?t * 2 div 3" by (simp add: unat_div d)
  moreover have "unat ?t * 2 div 3 + 1 < 2 ^ 64" using assms by simp
  ultimately show ?thesis unfolding quorum_def by (subst unat_add_exact) simp_all
qed

text \<open>The doubling wraps from 2^63 on, and then a third of the power can be a quorum.\<close>

lemma quorum_wraps:
  assumes "2 ^ 63 \<le> unat (set_total_voting_power s)"
  shows "unat (quorum s) = (2 * unat (set_total_voting_power s) - 2 ^ 64) div 3 + 1"
proof -
  let ?t = "set_total_voting_power s"
  have lt: "unat ?t < 2 ^ 64" using unat_less_power [of ?t] by simp
  have "unat (?t * 2) = (2 * unat ?t) mod 2 ^ 64" by (simp add: unat_word_ariths mult.commute)
  also have "\<dots> = (2 * unat ?t - 2 ^ 64) mod 2 ^ 64" using assms by (subst le_mod_geq) simp_all
  finally have d: "unat (?t * 2) = 2 * unat ?t - 2 ^ 64" using lt by simp
  have "unat (?t * 2 div 3) = (2 * unat ?t - 2 ^ 64) div 3" by (simp add: unat_div d)
  moreover have "(2 * unat ?t - 2 ^ 64) div 3 + 1 < 2 ^ 64" using lt by simp
  ultimately show ?thesis unfolding quorum_def by (subst unat_add_exact) simp_all
qed

text \<open>The power behind a vote map in which each listed validator votes with its own power.\<close>

definition honest_votes :: "ValidatorSet \<Rightarrow> (address, u64) hashmap \<Rightarrow> bool" where
  "honest_votes s votes =
     (hm_wf votes \<and> (\<forall>(a, p) \<in> set votes. a \<in> set (set_validators s) \<and> p = get_voting_power s a))"

definition voters :: "(address, u64) hashmap \<Rightarrow> address set" where
  "voters votes = fst ` set votes"

lemma wf_set_sum: "wf_set s \<Longrightarrow> unat (set_total_voting_power s) = sum (power_of s) (set (set_validators s))"
  by (simp add: wf_set_def sum_list_distinct_conv_sum_set)

lemma honest_votes_sum:
  assumes "wf_set s" and "honest_votes s votes"
  shows "unat (sum_list (hm_values votes)) = sum (power_of s) (voters votes)"
    and "voters votes \<subseteq> set (set_validators s)"
proof -
  show sub: "voters votes \<subseteq> set (set_validators s)"
    using assms(2) by (auto simp: honest_votes_def voters_def)
  have "map (unat \<circ> snd) votes = map (power_of s \<circ> fst) votes"
    using assms(2) by (auto simp: honest_votes_def power_of_def)
  then have "sum_list (map unat (hm_values votes)) = sum_list (map (power_of s) (map fst votes))"
    unfolding hm_values_def map_map by (simp only:)
  also have "\<dots> = sum (power_of s) (voters votes)"
    using assms(2) by (simp add: honest_votes_def hm_wf_def sum_list_distinct_conv_sum_set voters_def del: map_map)
  finally have eq: "sum_list (map unat (hm_values votes)) = sum (power_of s) (voters votes)" .
  have "sum (power_of s) (voters votes) \<le> unat (set_total_voting_power s)"
    unfolding wf_set_sum [OF assms(1)] using sub by (intro sum_mono2) simp_all
  then show "unat (sum_list (hm_values votes)) = sum (power_of s) (voters votes)"
    using unat_less_power [of "set_total_voting_power s"] eq by (subst unat_sum_list_exact) simp_all
qed

lemma quorum_voters:
  assumes "wf_set s" and "unat (set_total_voting_power s) < 2 ^ 63"
    and "honest_votes s votes" and "has_quorum s votes"
  shows "2 * unat (set_total_voting_power s) < 3 * sum (power_of s) (voters votes)"
proof -
  have "unat (set_total_voting_power s) * 2 div 3 + 1 \<le> sum (power_of s) (voters votes)"
    using assms(4) unfolding has_quorum_def word_le_nat_alt quorum_exact [OF assms(2)]
      honest_votes_sum(1) [OF assms(1,3)] .
  then show ?thesis by linarith
qed

lemma quorum_overlap:
  assumes "wf_set s" and "unat (set_total_voting_power s) < 2 ^ 63"
    and "honest_votes s votes" and "has_quorum s votes"
    and "honest_votes s votes'" and "has_quorum s votes'"
  shows "unat (set_total_voting_power s) < 3 * sum (power_of s) (voters votes \<inter> voters votes')"
proof -
  let ?A = "voters votes" and ?B = "voters votes'" and ?f = "power_of s"
  have sub: "?A \<union> ?B \<subseteq> set (set_validators s)"
    using honest_votes_sum(2) [OF assms(1)] assms(3,5) by blast
  then have fin: "finite ?A" "finite ?B" using finite_subset by auto
  have "sum ?f (?A \<union> ?B) + sum ?f (?A \<inter> ?B) = sum ?f ?A + sum ?f ?B"
    using fin by (rule sum.union_inter)
  moreover have "sum ?f (?A \<union> ?B) \<le> unat (set_total_voting_power s)"
    unfolding wf_set_sum [OF assms(1)] using sub by (intro sum_mono2) simp_all
  ultimately show ?thesis
    using quorum_voters [OF assms(1,2,3,4)] quorum_voters [OF assms(1,2,5,6)] by linarith
qed

lemma power_below_Suc:
  "i < length (set_validators s) \<Longrightarrow> power_below s (Suc i) = power_below s i + power_of s (set_validators s ! i)"
  by (simp add: power_below_def take_Suc_conv_app_nth)

lemma power_below_mono: "i \<le> j \<Longrightarrow> power_below s i \<le> power_below s j"
  using sum_list_append [of "map (power_of s) (take i (set_validators s))"]
  by (metis le_add1 map_append power_below_def take_add le_add_diff_inverse)

lemma power_below_all: "wf_set s \<Longrightarrow> power_below s (length (set_validators s)) = unat (set_total_voting_power s)"
  by (simp add: power_below_def wf_set_def)

lemma weighted_select_iff:
  assumes "wf_set s" and "i < length (set_validators s)" and "n < unat (set_total_voting_power s)"
  shows "weighted_select s (of_nat n) = Some (set_validators s ! i)
    \<longleftrightarrow> power_below s i \<le> n \<and> n < power_below s (Suc i)"
proof -
  have seed: "unat (of_nat n :: u64) mod unat (set_total_voting_power s) = n"
    using assms(3) unat_less_power [of "set_total_voting_power s"] by (subst unat_of_nat_small) simp_all
  have "set_total_voting_power s \<noteq> 0" using assms(3) by auto
  from weighted_select_spec [OF assms(1) this, of "of_nat n"] obtain j
    where j: "j < length (set_validators s)" "weighted_select s (of_nat n) = Some (set_validators s ! j)"
      "power_below s j \<le> n" "n < power_below s (Suc j)"
    unfolding seed by blast
  have "i = j \<longleftrightarrow> power_below s i \<le> n \<and> n < power_below s (Suc i)"
    using j(3,4) power_below_mono [of "Suc i" j s] power_below_mono [of "Suc j" i s]
    by (cases i j rule: linorder_cases) auto
  then show ?thesis
    using j(1,2) assms(1,2) by (auto simp: wf_set_def nth_eq_iff_index_eq)
qed

lemma weighted_select_count:
  assumes "wf_set s" and "a \<in> set (set_validators s)"
  shows "card {n. n < unat (set_total_voting_power s) \<and> weighted_select s (of_nat n) = Some a} = power_of s a"
proof -
  obtain i where i: "i < length (set_validators s)" "a = set_validators s ! i"
    using assms(2) by (auto simp: in_set_conv_nth)
  have "power_below s (Suc i) \<le> unat (set_total_voting_power s)"
    using power_below_mono [of "Suc i" "length (set_validators s)" s] i(1) power_below_all [OF assms(1)] by simp
  then have "{n. n < unat (set_total_voting_power s) \<and> weighted_select s (of_nat n) = Some a}
      = {power_below s i ..< power_below s (Suc i)}"
    using weighted_select_iff [OF assms(1) i(1)] i(2) by auto
  then show ?thesis using power_below_Suc [OF i(1)] i(2) by simp
qed

subsection \<open>Properties\<close>

text \<open>A small set of validators for the examples.\<close>

definition example_validator :: "u64 \<Rightarrow> u64 \<Rightarrow> Validator" where
  "example_validator k stake =
     (Validator_new 0 (Address (replicate 20 (ucast k))) (Address (replicate 20 (ucast k))) [] stake 500 [])\<lparr>v_status := VActive\<rparr>"

definition example_set :: ValidatorSet where
  "example_set = from_validators 0 1 [example_validator 1 200, example_validator 2 100, example_validator 3 300] WeightedRandom"

text \<open>
  Election: for validators with distinct addresses, the set of an epoch holds at most one hundred
  of them, all active and recorded with their voting power, heaviest first; an active validator is
  left out only when the set is full, and then no member has less voting power.
\<close>

theorem election_picks_heaviest:
  assumes "distinct (map v_address vs)"
    and "s = from_validators now epoch vs selection"
  shows "length (set_validators s) \<le> MAX_ACTIVE_VALIDATORS
    \<and> (\<forall>a \<in> set (set_validators s). \<exists>v \<in> set vs. v_address v = a \<and> v_status v = VActive
          \<and> get_voting_power s a = voting_power v)
    \<and> sorted_wrt (\<lambda>a b. get_voting_power s b \<le> get_voting_power s a) (set_validators s)
    \<and> (\<forall>w \<in> set vs. v_status w = VActive \<and> v_address w \<notin> set (set_validators s)
          \<longrightarrow> length (set_validators s) = MAX_ACTIVE_VALIDATORS
            \<and> (\<forall>a \<in> set (set_validators s). voting_power w \<le> get_voting_power s a))"
proof -
  note st = from_validators_state [OF assms(1), of now epoch selection, folded assms(2)]
  have pw: "get_voting_power s (v_address v) = voting_power v" if "v \<in> set (elected vs)" for v
    using st(3) that by (simp add: get_voting_power_def)
  have mem: "v \<in> set (elected vs) \<Longrightarrow> v \<in> set vs \<and> v_status v = VActive" for v
    using in_set_takeD [of v MAX_ACTIVE_VALIDATORS "ranked vs"] by (simp add: elected_def ranked_members)
  have "length (set_validators s) \<le> MAX_ACTIVE_VALIDATORS" by (simp add: st(1) elected_def)
  moreover have "\<forall>a \<in> set (set_validators s). \<exists>v \<in> set vs. v_address v = a \<and> v_status v = VActive
      \<and> get_voting_power s a = voting_power v"
    using mem pw by (fastforce simp: st(1))
  moreover have "sorted_wrt (\<lambda>a b. voting_power b \<le> voting_power a) (elected vs)"
    using ranked_sorted [of vs] unfolding elected_def by (rule sorted_wrt_take)
  then have "sorted_wrt (\<lambda>a b. get_voting_power s b \<le> get_voting_power s a) (set_validators s)"
    unfolding st(1) sorted_wrt_map by (rule sorted_wrt_mono_rel [rotated]) (simp add: pw)
  moreover have "\<forall>w \<in> set vs. v_status w = VActive \<and> v_address w \<notin> set (set_validators s)
      \<longrightarrow> length (set_validators s) = MAX_ACTIVE_VALIDATORS
        \<and> (\<forall>a \<in> set (set_validators s). voting_power w \<le> get_voting_power s a)"
    using from_validators_best [OF assms(1), of _ now epoch selection, folded assms(2)]
    by (auto simp: st(1) pw)
  ultimately show ?thesis by blast
qed

lemma example_set_eq:
  "example_set = \<lparr>set_epoch = 1, set_epoch_start = 0,
     set_validators = [Address (replicate 20 3), Address (replicate 20 1), Address (replicate 20 2)],
     set_voting_power = [(Address (replicate 20 3), 300), (Address (replicate 20 1), 200), (Address (replicate 20 2), 100)],
     set_total_voting_power = 600, set_proposer_index = 0, set_selection = WeightedRandom\<rparr>"
proof -
  have "voting_power (example_validator k n) = n" for k n
    by (simp add: voting_power_def total_stake_def example_validator_def Validator_new_def saturating_add_def)
      (use unat_less_power [of n] in simp)
  moreover have "v_status (example_validator k n) = VActive" "v_address (example_validator k n) = Address (replicate 20 (ucast k))"
    for k n by (simp_all add: example_validator_def Validator_new_def)
  ultimately show ?thesis
    by (simp add: example_set_def from_validators_def ranked_def MAX_ACTIVE_VALIDATORS_def ValidatorSet_new_def
      set_add_def hm_insert_def)
qed

lemma example_set_wf: "wf_set example_set"
proof -
  have "distinct (set_validators example_set)" by (simp add: example_set_eq)
  moreover have "\<forall>a. hm_get (set_voting_power example_set) a \<noteq> None \<longleftrightarrow> a \<in> set (set_validators example_set)"
    by (simp add: example_set_eq hm_get_def)
  moreover have "unat (set_total_voting_power example_set) = sum_list (map (power_of example_set) (set_validators example_set))"
    by (simp add: example_set_eq power_of_def get_voting_power_def hm_get_def)
  ultimately show ?thesis by (simp add: wf_set_def)
qed

theorem election_picks_heaviest_witness:
  "length (set_validators example_set) \<le> MAX_ACTIVE_VALIDATORS
   \<and> sorted_wrt (\<lambda>a b. get_voting_power example_set b \<le> get_voting_power example_set a) (set_validators example_set)"
proof -
  have "distinct (map v_address [example_validator 1 200, example_validator 2 100, example_validator 3 300])"
    by (simp add: example_validator_def Validator_new_def)
  then show ?thesis
    using election_picks_heaviest [OF _ example_set_def] by blast
qed

text \<open>
  C30. Weighted proposer selection is proportional to stake: over as many consecutive block numbers as
  there is voting power, each validator of a well-formed set is chosen exactly as often as it has
  voting power, and some validator is chosen for every block number.
\<close>

theorem proposer_share_proportional:
  assumes "wf_set s" and "set_total_voting_power s \<noteq> 0" and "set_selection s = WeightedRandom"
    and "a \<in> set (set_validators s)"
  shows "card {n. n < unat (set_total_voting_power s) \<and> select_proposer s (of_nat n) = Some a} = power_of s a
    \<and> (\<exists>b \<in> set (set_validators s). select_proposer s block_number = Some b)"
proof -
  have sel: "select_proposer s n = weighted_select s n" for n
    using assms(3,4) by (auto simp: select_proposer_def)
  show ?thesis
    using weighted_select_count [OF assms(1,4)] weighted_select_spec [OF assms(1,2), of block_number]
    by (auto simp: sel intro: nth_mem)
qed

theorem proposer_share_proportional_witness:
  "card {n. n < 600 \<and> select_proposer example_set (of_nat n) = Some (Address (replicate 20 1))} = 200"
  using proposer_share_proportional [of example_set "Address (replicate 20 1)", OF example_set_wf]
  by (simp add: example_set_eq power_of_def get_voting_power_def hm_get_def)

text \<open>
  Quorum intersection: below 2^63 of total voting power, two vote maps that each reach the quorum
  of a well-formed set share voters with more than a third of its power; so when the faulty validators
  hold at most a third, some validator that is not faulty voted in both.
\<close>

theorem quorums_intersect:
  assumes "wf_set s" and "unat (set_total_voting_power s) < 2 ^ 63"
    and "honest_votes s votes" and "has_quorum s votes"
    and "honest_votes s votes'" and "has_quorum s votes'"
  shows "unat (set_total_voting_power s) < 3 * sum (power_of s) (voters votes \<inter> voters votes')
    \<and> (\<forall>faulty \<subseteq> set (set_validators s). 3 * sum (power_of s) faulty \<le> unat (set_total_voting_power s)
          \<longrightarrow> (\<exists>a \<in> voters votes \<inter> voters votes'. a \<notin> faulty))"
proof -
  let ?A = "voters votes" and ?B = "voters votes'" and ?f = "power_of s"
  have big: "unat (set_total_voting_power s) < 3 * sum ?f (?A \<inter> ?B)"
    using assms by (rule quorum_overlap)
  have "\<exists>a \<in> ?A \<inter> ?B. a \<notin> faulty"
    if "faulty \<subseteq> set (set_validators s)" "3 * sum ?f faulty \<le> unat (set_total_voting_power s)" for faulty
  proof (rule ccontr)
    assume "\<not> (\<exists>a \<in> ?A \<inter> ?B. a \<notin> faulty)"
    then have "sum ?f (?A \<inter> ?B) \<le> sum ?f faulty"
      using that(1) finite_subset by (intro sum_mono2) auto
    then show False using big that(2) by linarith
  qed
  then show ?thesis using big by blast
qed

theorem quorums_intersect_witness:
  "600 < 3 * sum (power_of example_set)
     (voters [(Address (replicate 20 3), 300), (Address (replicate 20 1), 200)]
      \<inter> voters [(Address (replicate 20 3), 300), (Address (replicate 20 2), 100), (Address (replicate 20 1), 200)])"
proof -
  let ?v = "[(Address (replicate 20 3), 300), (Address (replicate 20 1), 200)] :: (address, u64) hashmap"
    and ?v' = "[(Address (replicate 20 3), 300), (Address (replicate 20 2), 100), (Address (replicate 20 1), 200)] :: (address, u64) hashmap"
  have "honest_votes example_set ?v" "honest_votes example_set ?v'"
    by (simp_all add: example_set_eq honest_votes_def hm_wf_def get_voting_power_def hm_get_def)
  moreover have "has_quorum example_set ?v" "has_quorum example_set ?v'"
    by (simp_all add: example_set_eq has_quorum_def quorum_def hm_values_def)
  ultimately show ?thesis
    using quorums_intersect [OF example_set_wf, of ?v ?v'] by (simp add: example_set_eq)
qed

end
