(* ===== verification/Staking_Registry.thy ===== *)
theory Staking_Registry
  imports Validators
begin

section \<open>The staking registry\<close>

text \<open>
  \<open>pyrax-node/src/consensus/staking/registry.rs\<close>: deposits, delegations, unbonding, epochs and
  rewards. The fields behind locks are fields of one record, since every operation of the registry
  runs to its end before its locks are seen by another; the clock is read once per operation and is
  the argument \<open>now\<close>. Writing through the mutable reference into the two-level stake map is
  \<open>put_stake\<close>.
\<close>

datatype StakeStatus = Bonded | Unbonding | Unbonded

record Stake =
  st_staker :: address
  st_validator :: address
  st_amount :: u64
  st_status :: StakeStatus
  st_created_at :: u64
  st_unbonding_at :: "u64 option"
  st_rewards :: u64
  st_is_self_stake :: bool

definition Stake_new :: "u64 \<Rightarrow> address \<Rightarrow> address \<Rightarrow> u64 \<Rightarrow> bool \<Rightarrow> Stake" where
  "Stake_new now staker validator amount is_self_stake =
     \<lparr>st_staker = staker, st_validator = validator, st_amount = amount, st_status = Bonded,
      st_created_at = now, st_unbonding_at = None, st_rewards = 0, st_is_self_stake = is_self_stake\<rparr>"

definition start_unbonding :: "u64 \<Rightarrow> Stake \<Rightarrow> Stake" where
  "start_unbonding now st =
     (if st_status st = Bonded then st\<lparr>st_status := Unbonding, st_unbonding_at := Some now\<rparr> else st)"

definition is_unbonding_complete :: "u64 \<Rightarrow> Stake \<Rightarrow> bool" where
  "is_unbonding_complete now st =
     (case st_unbonding_at st of Some start \<Rightarrow> start + UNBONDING_PERIOD_SECS \<le> now | None \<Rightarrow> False)"

definition Stake_complete_unbonding :: "u64 \<Rightarrow> Stake \<Rightarrow> Stake" where
  "Stake_complete_unbonding now st =
     (if st_status st = Unbonding \<and> is_unbonding_complete now st then st\<lparr>st_status := Unbonded\<rparr> else st)"

definition Stake_add_rewards :: "Stake \<Rightarrow> u64 \<Rightarrow> Stake" where
  "Stake_add_rewards st amount = st\<lparr>st_rewards := saturating_add (st_rewards st) amount\<rparr>"

definition Stake_withdraw_rewards :: "Stake \<Rightarrow> Stake \<times> u64" where
  "Stake_withdraw_rewards st = (st\<lparr>st_rewards := 0\<rparr>, st_rewards st)"

record StakingConfig =
  min_validator_stake :: u64
  min_delegation :: u64
  max_validators :: nat
  unbonding_period_secs :: u64
  epoch_duration_secs :: u64
  max_commission_bps :: u16
  max_commission_change_bps :: u16

definition StakingConfig_default :: StakingConfig where
  "StakingConfig_default =
     \<lparr>min_validator_stake = MIN_VALIDATOR_STAKE, min_delegation = MIN_DELEGATION_STAKE,
      max_validators = MAX_ACTIVE_VALIDATORS, unbonding_period_secs = UNBONDING_PERIOD_SECS,
      epoch_duration_secs = EPOCH_DURATION_SECS, max_commission_bps = 5000,
      max_commission_change_bps = 100\<rparr>"

datatype StakingError =
    ValidatorNotFound address
  | ValidatorExists address
  | InsufficientStake u64 u64
  | StakeNotFound
  | InvalidStatus StakeStatus
  | ValidatorJailed
  | ValidatorTombstoned
  | UnbondingNotComplete
  | CommissionTooHigh u16
  | SelfStakeRequired
  | BelowMinimumStake

type_synonym stake_map = "(address, (address, Stake) hashmap) hashmap"

record StakingRegistry =
  reg_config :: StakingConfig
  reg_validators :: "(address, Validator) hashmap"
  reg_stakes :: stake_map
  reg_epoch :: u64
  reg_validator_set :: ValidatorSet
  reg_total_staked :: u64
  reg_unbonding_queue :: "(u64, (address \<times> address) list) hashmap"

definition StakingRegistry_new :: "u64 \<Rightarrow> StakingConfig \<Rightarrow> StakingRegistry" where
  "StakingRegistry_new now config =
     \<lparr>reg_config = config, reg_validators = [], reg_stakes = [], reg_epoch = 0,
      reg_validator_set = ValidatorSet_new now 0 WeightedRandom, reg_total_staked = 0,
      reg_unbonding_queue = []\<rparr>"

definition with_defaults :: "u64 \<Rightarrow> StakingRegistry" where
  "with_defaults now = StakingRegistry_new now StakingConfig_default"

definition stakes_entry :: "stake_map \<Rightarrow> address \<Rightarrow> (address, Stake) hashmap" where
  "stakes_entry m staker = (case hm_get m staker of None \<Rightarrow> [] | Some inner \<Rightarrow> inner)"

definition put_stake :: "address \<Rightarrow> address \<Rightarrow> Stake \<Rightarrow> stake_map \<Rightarrow> stake_map" where
  "put_stake staker validator st m = hm_insert staker (hm_insert validator st (stakes_entry m staker)) m"

definition remove_stake :: "address \<Rightarrow> address \<Rightarrow> stake_map \<Rightarrow> stake_map" where
  "remove_stake staker validator m = hm_insert staker (hm_remove validator (stakes_entry m staker)) m"

definition find_stake :: "stake_map \<Rightarrow> address \<Rightarrow> address \<Rightarrow> Stake option" where
  "find_stake m staker validator =
     (case hm_get m staker of None \<Rightarrow> None | Some inner \<Rightarrow> hm_get inner validator)"

definition register_validator ::
  "u64 \<Rightarrow> StakingRegistry \<Rightarrow> address \<Rightarrow> address \<Rightarrow> u8 list \<Rightarrow> u64 \<Rightarrow> u16 \<Rightarrow> string \<Rightarrow> StakingError + StakingRegistry" where
  "register_validator now s addr operator consensus_pubkey initial_stake commission_bps description =
     (if initial_stake < min_validator_stake (reg_config s)
      then Err (InsufficientStake (min_validator_stake (reg_config s)) initial_stake)
      else if max_commission_bps (reg_config s) < commission_bps then Err (CommissionTooHigh commission_bps)
      else if hm_contains (reg_validators s) addr then Err (ValidatorExists addr)
      else Ok (s\<lparr>
        reg_validators := hm_insert addr
          (Validator_new now addr operator consensus_pubkey initial_stake commission_bps description)
          (reg_validators s),
        reg_stakes := put_stake addr addr (Stake_new now addr addr initial_stake True) (reg_stakes s),
        reg_total_staked := reg_total_staked s + initial_stake\<rparr>))"

definition activate_validator :: "StakingRegistry \<Rightarrow> address \<Rightarrow> StakingError + StakingRegistry" where
  "activate_validator s addr =
     (case hm_get (reg_validators s) addr of
        None \<Rightarrow> Err (ValidatorNotFound addr)
      | Some v \<Rightarrow>
          if \<not> can_activate v
          then Err (InsufficientStake (min_validator_stake (reg_config s)) (v_self_stake v))
          else Ok (s\<lparr>reg_validators := hm_insert addr (v\<lparr>v_status := VActive\<rparr>) (reg_validators s)\<rparr>))"

definition delegate_stake :: "u64 \<Rightarrow> address \<Rightarrow> address \<Rightarrow> u64 \<Rightarrow> stake_map \<Rightarrow> stake_map" where
  "delegate_stake now delegator validator_addr amount m =
     (case hm_get (stakes_entry m delegator) validator_addr of
        Some existing \<Rightarrow>
          put_stake delegator validator_addr
            (existing\<lparr>st_amount := saturating_add (st_amount existing) amount\<rparr>) m
      | None \<Rightarrow> put_stake delegator validator_addr (Stake_new now delegator validator_addr amount False) m)"

definition delegate :: "u64 \<Rightarrow> StakingRegistry \<Rightarrow> address \<Rightarrow> address \<Rightarrow> u64 \<Rightarrow> StakingError + StakingRegistry" where
  "delegate now s delegator validator_addr amount =
     (if amount < min_delegation (reg_config s)
      then Err (InsufficientStake (min_delegation (reg_config s)) amount)
      else case hm_get (reg_validators s) validator_addr of
        None \<Rightarrow> Err (ValidatorNotFound validator_addr)
      | Some v \<Rightarrow>
          if v_status v = VJailed then Err ValidatorJailed
          else if v_status v = VTombstoned then Err ValidatorTombstoned
          else Ok (s\<lparr>
            reg_validators := hm_modify validator_addr (\<lambda>v. add_delegation v amount) (reg_validators s),
            reg_stakes := delegate_stake now delegator validator_addr amount (reg_stakes s),
            reg_total_staked := reg_total_staked s + amount\<rparr>))"

definition unstake_record :: "u64 \<Rightarrow> Stake \<Rightarrow> u64 \<Rightarrow> Stake" where
  "unstake_record now st amount =
     (let st' = st\<lparr>st_amount := saturating_sub (st_amount st) amount\<rparr>
      in if st_amount st' = 0 then start_unbonding now st' else st')"

definition unstake_validator :: "u64 \<Rightarrow> address \<Rightarrow> address \<Rightarrow> u64 \<Rightarrow> Validator \<Rightarrow> Validator" where
  "unstake_validator minimum staker validator_addr amount v =
     (if staker = validator_addr
      then let v' = v\<lparr>v_self_stake := saturating_sub (v_self_stake v) amount\<rparr>
        in if v_self_stake v' < minimum then v'\<lparr>v_status := VUnbonding\<rparr> else v'
      else remove_delegation v amount)"

definition enqueue_unbonding ::
  "u64 \<Rightarrow> address \<times> address \<Rightarrow> (u64, (address \<times> address) list) hashmap \<Rightarrow> (u64, (address \<times> address) list) hashmap" where
  "enqueue_unbonding t e q = hm_insert t ((case hm_get q t of None \<Rightarrow> [] | Some es \<Rightarrow> es) @ [e]) q"

definition begin_unstake ::
  "u64 \<Rightarrow> StakingRegistry \<Rightarrow> address \<Rightarrow> address \<Rightarrow> u64 \<Rightarrow> StakingError + StakingRegistry \<times> u64" where
  "begin_unstake now s staker validator_addr amount =
     (let completion_time = now + unbonding_period_secs (reg_config s);
          minimum = min_validator_stake (reg_config s) in
      case find_stake (reg_stakes s) staker validator_addr of
        None \<Rightarrow> Err StakeNotFound
      | Some st \<Rightarrow>
          if st_status st \<noteq> Bonded then Err (InvalidStatus (st_status st))
          else if st_amount st < amount then Err (InsufficientStake amount (st_amount st))
          else if st_is_self_stake st
              \<and> 0 < saturating_sub (st_amount st) amount \<and> saturating_sub (st_amount st) amount < minimum
            then Err BelowMinimumStake
          else Ok (s\<lparr>
              reg_stakes := put_stake staker validator_addr (unstake_record now st amount) (reg_stakes s),
              reg_validators :=
                hm_modify validator_addr (unstake_validator minimum staker validator_addr amount) (reg_validators s),
              reg_unbonding_queue :=
                enqueue_unbonding completion_time (staker, validator_addr) (reg_unbonding_queue s)\<rparr>,
            completion_time))"

definition complete_unbonding ::
  "u64 \<Rightarrow> StakingRegistry \<Rightarrow> address \<Rightarrow> address \<Rightarrow> StakingError + StakingRegistry \<times> u64" where
  "complete_unbonding now s staker validator_addr =
     (case find_stake (reg_stakes s) staker validator_addr of
        None \<Rightarrow> Err StakeNotFound
      | Some st \<Rightarrow>
          if st_status st \<noteq> Unbonding then Err (InvalidStatus (st_status st))
          else if \<not> is_unbonding_complete now st then Err UnbondingNotComplete
          else let st' = Stake_complete_unbonding now st;
                   amount = st_amount st';
                   m = put_stake staker validator_addr st' (reg_stakes s) in
            Ok (s\<lparr>reg_stakes := if amount = 0 then remove_stake staker validator_addr m else m,
                  reg_total_staked := reg_total_staked s - amount\<rparr>, amount))"

definition process_entry ::
  "u64 \<Rightarrow> StakingRegistry \<times> (address \<times> address \<times> u64) list \<Rightarrow> address \<times> address
   \<Rightarrow> StakingRegistry \<times> (address \<times> address \<times> u64) list" where
  "process_entry now acc e =
     (case acc of (s, completed) \<Rightarrow> case e of (staker, validator) \<Rightarrow>
      case complete_unbonding now s staker validator of
        Ok (s', amount) \<Rightarrow> (s', completed @ [(staker, validator, amount)])
      | Err _ \<Rightarrow> (s, completed))"

definition process_unbonding_queue ::
  "u64 \<Rightarrow> StakingRegistry \<Rightarrow> StakingRegistry \<times> (address \<times> address \<times> u64) list" where
  "process_unbonding_queue now s =
     (let due = filter (\<lambda>(t, _). t \<le> now) (reg_unbonding_queue s);
          (s', completed) = foldl (process_entry now) (s, []) (concat (map snd due)) in
      (s'\<lparr>reg_unbonding_queue := fold hm_remove (map fst due) (reg_unbonding_queue s')\<rparr>, completed))"

definition get_validator :: "StakingRegistry \<Rightarrow> address \<Rightarrow> Validator option" where
  "get_validator s a = hm_get (reg_validators s) a"

definition get_all_validators :: "StakingRegistry \<Rightarrow> Validator list" where
  "get_all_validators s = hm_values (reg_validators s)"

definition get_active_validators :: "StakingRegistry \<Rightarrow> Validator list" where
  "get_active_validators s = filter (\<lambda>v. v_status v = VActive) (hm_values (reg_validators s))"

definition get_stake :: "StakingRegistry \<Rightarrow> address \<Rightarrow> address \<Rightarrow> Stake option" where
  "get_stake s staker validator = find_stake (reg_stakes s) staker validator"

definition get_stakes_for_staker :: "StakingRegistry \<Rightarrow> address \<Rightarrow> Stake list" where
  "get_stakes_for_staker s staker = hm_values (stakes_entry (reg_stakes s) staker)"

definition advance_epoch :: "u64 \<Rightarrow> StakingRegistry \<Rightarrow> StakingRegistry \<times> ValidatorSet" where
  "advance_epoch now s =
     (let new_epoch = reg_epoch s + 1;
          new_set = from_validators now new_epoch (get_active_validators s) WeightedRandom in
      (s\<lparr>reg_epoch := new_epoch, reg_validator_set := new_set\<rparr>, new_set))"

definition reward_share :: "StakingRegistry \<Rightarrow> u64 \<Rightarrow> address \<Rightarrow> (address \<times> u64 \<times> u64) option" where
  "reward_share s total_rewards addr =
     (case hm_get (set_voting_power (reg_validator_set s)) addr of
        None \<Rightarrow> None
      | Some pw \<Rightarrow>
          let share = mul_div total_rewards (ucast pw) (ucast (set_total_voting_power (reg_validator_set s))) in
          case hm_get (reg_validators s) addr of
            None \<Rightarrow> None
          | Some v \<Rightarrow>
              let commission = mul_div share (ucast (v_commission_bps v)) 10000 in
              Some (addr, commission, saturating_sub share commission))"

definition bonded_to :: "stake_map \<Rightarrow> address \<Rightarrow> (address \<times> u64) list" where
  "bonded_to m validator_addr =
     List.map_filter (\<lambda>(staker, inner). case hm_get inner validator_addr of
         None \<Rightarrow> None
       | Some st \<Rightarrow> if st_status st = Bonded then Some (staker, st_amount st) else None) m"

definition pay_delegator :: "address \<Rightarrow> u64 \<Rightarrow> u64 \<Rightarrow> stake_map \<Rightarrow> address \<times> u64 \<Rightarrow> stake_map" where
  "pay_delegator validator_addr amount total_delegated m d =
     (case d of (staker, stake_amount) \<Rightarrow>
      let share = mul_div amount (ucast stake_amount) (ucast total_delegated) in
      case find_stake m staker validator_addr of
        None \<Rightarrow> m
      | Some st \<Rightarrow> put_stake staker validator_addr (Stake_add_rewards st share) m)"

definition distribute_to_delegators :: "StakingRegistry \<Rightarrow> address \<Rightarrow> u64 \<Rightarrow> StakingRegistry" where
  "distribute_to_delegators s validator_addr amount =
     (let delegators = bonded_to (reg_stakes s) validator_addr;
          total_delegated = sum_list (map snd delegators) in
      if total_delegated = 0 then s
      else s\<lparr>reg_stakes := foldl (pay_delegator validator_addr amount total_delegated) (reg_stakes s) delegators\<rparr>)"

definition apply_reward :: "StakingRegistry \<Rightarrow> address \<times> u64 \<times> u64 \<Rightarrow> StakingRegistry" where
  "apply_reward s r =
     (case r of (addr, commission, delegator_share) \<Rightarrow>
      distribute_to_delegators
        (s\<lparr>reg_validators := hm_modify addr (\<lambda>v. add_rewards v commission) (reg_validators s)\<rparr>)
        addr delegator_share)"

definition distribute_rewards :: "StakingRegistry \<Rightarrow> u64 \<Rightarrow> StakingRegistry" where
  "distribute_rewards s total_rewards =
     (if set_total_voting_power (reg_validator_set s) = 0 then s
      else foldl apply_reward s
        (List.map_filter (reward_share s total_rewards) (set_validators (reg_validator_set s))))"

definition claim_rewards :: "StakingRegistry \<Rightarrow> address \<Rightarrow> address \<Rightarrow> StakingError + StakingRegistry \<times> u64" where
  "claim_rewards s staker validator_addr =
     (case find_stake (reg_stakes s) staker validator_addr of
        None \<Rightarrow> Err StakeNotFound
      | Some st \<Rightarrow> case Stake_withdraw_rewards st of (st', paid) \<Rightarrow>
          Ok (s\<lparr>reg_stakes := put_stake staker validator_addr st' (reg_stakes s)\<rparr>, paid))"

record StakingStats =
  ss_total_validators :: u64
  ss_active_validators :: u64
  ss_total_staked :: u64
  ss_current_epoch :: u64
  ss_total_voting_power :: u64

definition staking_stats :: "StakingRegistry \<Rightarrow> StakingStats" where
  "staking_stats s =
     \<lparr>ss_total_validators = of_nat (length (reg_validators s)),
      ss_active_validators = of_nat (length (get_active_validators s)),
      ss_total_staked = reg_total_staked s, ss_current_epoch = reg_epoch s,
      ss_total_voting_power = set_total_voting_power (reg_validator_set s)\<rparr>"

subsection \<open>Operations as steps\<close>

datatype reg_op =
    RRegister u64 address address "u8 list" u64 u16 string
  | RActivate address
  | RDelegate u64 address address u64
  | RBeginUnstake u64 address address u64
  | RCompleteUnbonding u64 address address
  | RProcessQueue u64
  | RAdvanceEpoch u64
  | RDistribute u64
  | RClaim address address

fun reg_step :: "StakingRegistry \<Rightarrow> reg_op \<Rightarrow> StakingRegistry" where
  "reg_step s (RRegister now a operator pk stake bps d) = ok_or s (register_validator now s a operator pk stake bps d)"
| "reg_step s (RActivate a) = ok_or s (activate_validator s a)"
| "reg_step s (RDelegate now d v amount) = ok_or s (delegate now s d v amount)"
| "reg_step s (RBeginUnstake now st v amount) = (case begin_unstake now s st v amount of Ok (s', _) \<Rightarrow> s' | Err _ \<Rightarrow> s)"
| "reg_step s (RCompleteUnbonding now st v) = (case complete_unbonding now s st v of Ok (s', _) \<Rightarrow> s' | Err _ \<Rightarrow> s)"
| "reg_step s (RProcessQueue now) = fst (process_unbonding_queue now s)"
| "reg_step s (RAdvanceEpoch now) = fst (advance_epoch now s)"
| "reg_step s (RDistribute r) = distribute_rewards s r"
| "reg_step s (RClaim st v) = (case claim_rewards s st v of Ok (s', _) \<Rightarrow> s' | Err _ \<Rightarrow> s)"

text \<open>What an operation brings into the registry, and what it pays out as rewards.\<close>

fun staked_in :: "reg_op \<Rightarrow> nat" where
  "staked_in (RRegister _ _ _ _ stake _ _) = unat stake"
| "staked_in (RDelegate _ _ _ amount) = unat amount"
| "staked_in _ = 0"

fun rewards_in :: "reg_op \<Rightarrow> nat" where
  "rewards_in (RDistribute r) = unat r"
| "rewards_in _ = 0"

fun rewards_out :: "StakingRegistry \<Rightarrow> reg_op \<Rightarrow> nat" where
  "rewards_out s (RClaim st v) = (case claim_rewards s st v of Ok (_, paid) \<Rightarrow> unat paid | Err _ \<Rightarrow> 0)"
| "rewards_out s _ = 0"

fun rewards_paid :: "StakingRegistry \<Rightarrow> reg_op list \<Rightarrow> nat" where
  "rewards_paid s [] = 0"
| "rewards_paid s (op # ops) = rewards_out s op + rewards_paid (reg_step s op) ops"

fun no_self_delegation :: "reg_op \<Rightarrow> bool" where
  "no_self_delegation (RDelegate _ d v _) = (d \<noteq> v)"
| "no_self_delegation _ = True"

subsection \<open>Sums over the two-level stake map\<close>

definition backed :: "(Stake \<Rightarrow> nat) \<Rightarrow> address \<Rightarrow> stake_map \<Rightarrow> nat" where
  "backed w u m = weight (\<lambda>inner. held w (hm_get inner u)) m"

definition stake_sum :: "(Stake \<Rightarrow> nat) \<Rightarrow> stake_map \<Rightarrow> nat" where
  "stake_sum w m = weight (weight w) m"

definition stakes_wf :: "stake_map \<Rightarrow> bool" where
  "stakes_wf m = (hm_wf m \<and> (\<forall>a inner. hm_get m a = Some inner \<longrightarrow> hm_wf inner))"

lemma find_stake_entry: "find_stake m a b = hm_get (stakes_entry m a) b"
  by (simp add: find_stake_def stakes_entry_def split: option.split)

lemma stakes_entry_insert [simp]: "stakes_entry (hm_insert a i m) a' = (if a' = a then i else stakes_entry m a')"
  by (simp add: stakes_entry_def)

lemma find_put_stake [simp]:
  "find_stake (put_stake a b x m) a' b' = (if a' = a \<and> b' = b then Some x else find_stake m a' b')"
  by (simp add: find_stake_entry put_stake_def)

lemma find_remove_stake [simp]:
  "find_stake (remove_stake a b m) a' b' = (if a' = a \<and> b' = b then None else find_stake m a' b')"
  by (simp add: find_stake_entry remove_stake_def)

lemma stakes_entry_wf: "stakes_wf m \<Longrightarrow> hm_wf (stakes_entry m a)"
  by (simp add: stakes_wf_def stakes_entry_def split: option.split)

lemma stakes_wf_simps [simp]:
  "stakes_wf []"
  "stakes_wf m \<Longrightarrow> stakes_wf (put_stake a b x m)"
  "stakes_wf m \<Longrightarrow> stakes_wf (remove_stake a b m)"
  using stakes_entry_wf [of m a] by (auto simp: stakes_wf_def put_stake_def remove_stake_def split: if_splits)

lemma held_inner: "f [] = 0 \<Longrightarrow> held f (hm_get m a) = f (stakes_entry m a)"
  by (simp add: stakes_entry_def split: option.split)

lemma backed_insert_entry:
  "backed w u (hm_insert a i m) + held w (find_stake m a u) = backed w u m + held w (hm_get i u)"
  unfolding backed_def using weight_insert [of "\<lambda>inner. held w (hm_get inner u)" a i m]
  by (simp add: held_inner find_stake_entry)

lemma stake_sum_insert_entry:
  "stake_sum w (hm_insert a i m) + weight w (stakes_entry m a) = stake_sum w m + weight w i"
  unfolding stake_sum_def using weight_insert [of "weight w" a i m] by (simp add: held_inner)

lemma backed_put_stake:
  "backed w u (put_stake a b x m) + (if u = b then held w (find_stake m a b) else 0)
    = backed w u m + (if u = b then w x else 0)"
  using backed_insert_entry [of w u a "hm_insert b x (stakes_entry m a)" m]
  by (auto simp: put_stake_def find_stake_entry split: if_splits)

lemma backed_remove_stake:
  "backed w u (remove_stake a b m) + (if u = b then held w (find_stake m a b) else 0) = backed w u m"
  using backed_insert_entry [of w u a "hm_remove b (stakes_entry m a)" m]
  by (auto simp: remove_stake_def find_stake_entry split: if_splits)

lemma stake_sum_put_stake:
  "stake_sum w (put_stake a b x m) + held w (find_stake m a b) = stake_sum w m + w x"
  using stake_sum_insert_entry [of w a "hm_insert b x (stakes_entry m a)" m]
    weight_insert [of w b x "stakes_entry m a"]
  by (simp add: put_stake_def find_stake_entry)

lemma stake_sum_remove_stake:
  "stakes_wf m \<Longrightarrow> stake_sum w (remove_stake a b m) + held w (find_stake m a b) = stake_sum w m"
  using stake_sum_insert_entry [of w a "hm_remove b (stakes_entry m a)" m]
    weight_remove [OF stakes_entry_wf, of m w b a]
  by (simp add: remove_stake_def find_stake_entry)

text \<open>So the two-level map is a weighted store over pairs of addresses, like a flat one.\<close>

interpretation stake_store: weighted_store
  "\<lambda>m k. find_stake m (fst k) (snd k)" "\<lambda>k x m. put_stake (fst k) (snd k) x m"
  "\<lambda>k m. remove_stake (fst k) (snd k) m" stakes_wf "stake_sum w" w for w :: "Stake \<Rightarrow> nat"
  by unfold_locales (auto simp: stake_sum_put_stake stake_sum_remove_stake prod_eq_iff)

lemma backed_Nil [simp]: "backed w u [] = 0" and stake_sum_Nil [simp]: "stake_sum w [] = 0"
  by (simp_all add: backed_def stake_sum_def)

lemma held_le_weight: "held w (hm_get m k) \<le> weight w m"
  by (cases "hm_get m k")
    (auto simp: weight_eq_values intro!: member_le_sum_list dest: hm_values_mem)

lemma held_le_backed: "held w (find_stake m a b) \<le> backed w b m"
  using held_le_weight [of "\<lambda>inner. held w (hm_get inner b)" m a]
  by (simp add: backed_def held_inner find_stake_entry)

lemma sum_held_le_weight:
  "hm_wf m \<Longrightarrow> distinct ks \<Longrightarrow> sum_list (map (\<lambda>k. held w (hm_get m k)) ks) \<le> weight w m"
  using hm_weight.total_dels [of m ks w] by simp

lemma sum_backed_le:
  assumes "stakes_wf m" and "distinct us"
  shows "sum_list (map (\<lambda>u. backed w u m) us) \<le> stake_sum w m"
proof -
  have "sum_list (map (\<lambda>u. backed w u m) us)
      = weight (\<lambda>inner. sum_list (map (\<lambda>u. held w (hm_get inner u)) us)) m"
    by (induction us) (simp_all add: backed_def weight_def sum_list_addf)
  also have "\<dots> \<le> stake_sum w m"
    unfolding stake_sum_def
  proof (rule weight_mono_fun)
    fix inner assume "inner \<in> set (hm_values m)"
    then have "hm_wf inner" using assms(1) hm_values_cases by (fastforce simp: stakes_wf_def)
    then show "sum_list (map (\<lambda>u. held w (hm_get inner u)) us) \<le> weight w inner"
      using assms(2) by (rule sum_held_le_weight)
  qed
  finally show ?thesis .
qed

subsection \<open>The invariant of the registry\<close>

definition amt :: "Stake \<Rightarrow> nat" where
  "amt st = unat (st_amount st)"

definition validator_backed :: "stake_map \<Rightarrow> address \<Rightarrow> Validator \<Rightarrow> bool" where
  "validator_backed m a v =
     (v_address v = a \<and> unat (v_commission_bps v) \<le> 10000
      \<and> unat (v_self_stake v) = held amt (find_stake m a a)
      \<and> unat (v_self_stake v) + unat (v_delegated_stake v) = backed amt a m)"

definition reg_inv :: "StakingRegistry \<Rightarrow> bool" where
  "reg_inv s =
     (hm_wf (reg_validators s) \<and> stakes_wf (reg_stakes s)
      \<and> (\<forall>a v. hm_get (reg_validators s) a = Some v \<longrightarrow> validator_backed (reg_stakes s) a v)
      \<and> (\<forall>a b. find_stake (reg_stakes s) a b \<noteq> None \<longrightarrow> hm_get (reg_validators s) b \<noteq> None))"

text \<open>Two registries with the same stakes: amounts, and what validators record of them, agree.\<close>

definition v_core :: "Validator \<Rightarrow> address \<times> u16 \<times> u64 \<times> u64" where
  "v_core v = (v_address v, v_commission_bps v, v_self_stake v, v_delegated_stake v)"

definition same_amounts :: "stake_map \<Rightarrow> stake_map \<Rightarrow> bool" where
  "same_amounts m m' =
     ((\<forall>a b. held amt (find_stake m' a b) = held amt (find_stake m a b))
      \<and> (\<forall>a b. find_stake m' a b \<noteq> None \<longrightarrow> find_stake m a b \<noteq> None)
      \<and> (\<forall>u. backed amt u m' = backed amt u m) \<and> stake_sum amt m' = stake_sum amt m
      \<and> (stakes_wf m \<longrightarrow> stakes_wf m'))"

definition same_stakes :: "StakingRegistry \<Rightarrow> StakingRegistry \<Rightarrow> bool" where
  "same_stakes s s' =
     (same_amounts (reg_stakes s) (reg_stakes s')
      \<and> (\<forall>a. map_option v_core (hm_get (reg_validators s') a) = map_option v_core (hm_get (reg_validators s) a))
      \<and> (hm_wf (reg_validators s) \<longrightarrow> hm_wf (reg_validators s'))
      \<and> reg_validator_set s' = reg_validator_set s)"

lemma same_amounts_refl [simp]: "same_amounts m m"
  by (simp add: same_amounts_def)

lemma same_amounts_trans: "same_amounts m m' \<Longrightarrow> same_amounts m' m'' \<Longrightarrow> same_amounts m m''"
  by (simp add: same_amounts_def)

lemma same_stakes_refl [simp]: "same_stakes s s"
  by (simp add: same_stakes_def)

lemma same_stakes_trans: "same_stakes s s' \<Longrightarrow> same_stakes s' s'' \<Longrightarrow> same_stakes s s''"
  by (auto simp: same_stakes_def intro: same_amounts_trans)

lemma same_amounts_put:
  assumes "find_stake m a b = Some st" and "st_amount st' = st_amount st"
  shows "same_amounts m (put_stake a b st' m)"
proof -
  have "backed amt u (put_stake a b st' m) = backed amt u m" for u
    using backed_put_stake [of amt u a b st' m] assms by (simp add: amt_def split: if_splits)
  moreover have "stake_sum amt (put_stake a b st' m) = stake_sum amt m"
    using stake_sum_put_stake [of amt a b st' m] assms by (simp add: amt_def)
  ultimately show ?thesis
    using assms by (auto simp: same_amounts_def amt_def)
qed

lemma same_amounts_remove:
  assumes "find_stake m a b = Some st" and "st_amount st = 0" and "stakes_wf m"
  shows "same_amounts m (remove_stake a b m)"
proof -
  have "backed amt u (remove_stake a b m) = backed amt u m" for u
    using backed_remove_stake [of amt u a b m] assms by (simp add: amt_def split: if_splits)
  moreover have "stake_sum amt (remove_stake a b m) = stake_sum amt m"
    using stake_sum_remove_stake [OF assms(3), of amt a b] assms by (simp add: amt_def)
  ultimately show ?thesis
    using assms by (auto simp: same_amounts_def amt_def)
qed

lemma validator_backed_same:
  assumes "same_amounts m m'" and "v_core v' = v_core v" and "validator_backed m a v"
  shows "validator_backed m' a v'"
  using assms by (simp add: validator_backed_def same_amounts_def v_core_def)

lemma reg_inv_same:
  assumes "reg_inv s" and "same_stakes s s'"
  shows "reg_inv s'"
proof -
  note S = assms(2) [unfolded same_stakes_def]
  have "validator_backed (reg_stakes s') a v'" if v': "hm_get (reg_validators s') a = Some v'" for a v'
  proof -
    have "map_option v_core (hm_get (reg_validators s) a) = Some (v_core v')"
      using S v' by (metis option.simps(9))
    then obtain v where "hm_get (reg_validators s) a = Some v" "v_core v' = v_core v"
      by auto
    then show ?thesis using assms(1) S validator_backed_same unfolding reg_inv_def by blast
  qed
  moreover have "hm_get (reg_validators s') b \<noteq> None" if "find_stake (reg_stakes s') a b \<noteq> None" for a b
    using that S assms(1) unfolding same_amounts_def reg_inv_def by (metis option.map_disc_iff)
  ultimately show ?thesis
    using assms(1) S by (simp add: reg_inv_def same_amounts_def)
qed

lemma reg_inv_new: "reg_inv (StakingRegistry_new now config)"
  by (simp add: reg_inv_def StakingRegistry_new_def find_stake_def)

subsection \<open>Operations that move no stake\<close>

lemma activate_same: "activate_validator s a = Ok s' \<Longrightarrow> same_stakes s s'"
  by (auto simp: activate_validator_def same_stakes_def v_core_def split: option.splits if_splits)

lemma claim_same: "claim_rewards s a b = Ok (s', paid) \<Longrightarrow> same_stakes s s'"
  by (auto simp: claim_rewards_def same_stakes_def Stake_withdraw_rewards_def same_amounts_put split: option.splits)

lemma complete_same:
  assumes "stakes_wf (reg_stakes s)" and "complete_unbonding now s a b = Ok (s', paid)"
  shows "same_stakes s s'"
proof -
  obtain st where st: "find_stake (reg_stakes s) a b = Some st"
    using assms(2) by (auto simp: complete_unbonding_def split: option.splits)
  let ?m = "put_stake a b (Stake_complete_unbonding now st) (reg_stakes s)"
  have am: "st_amount (Stake_complete_unbonding now st) = st_amount st"
    by (simp add: Stake_complete_unbonding_def)
  then have put: "same_amounts (reg_stakes s) ?m"
    using st by (intro same_amounts_put)
  have rem: "same_amounts (reg_stakes s) (remove_stake a b ?m)" if "st_amount st = 0"
    using same_amounts_trans [OF put same_amounts_remove [of ?m a b "Stake_complete_unbonding now st"]] that assms(1)
    by (simp add: am)
  show ?thesis
    using assms(2) put rem
    by (auto simp: complete_unbonding_def st same_stakes_def Let_def am split: if_splits)
qed

lemma process_entries_same:
  "stakes_wf (reg_stakes s) \<Longrightarrow> same_stakes s (fst (foldl (process_entry now) (s, done) es))"
proof (induction es arbitrary: s "done")
  case (Cons e es)
  obtain a b where e: "e = (a, b)" by (cases e)
  show ?case
  proof (cases "complete_unbonding now s a b")
    case (Inl x)
    then show ?thesis using Cons by (simp add: e process_entry_def)
  next
    case (Inr r)
    obtain s' paid where r: "r = (s', paid)" by (cases r)
    have same: "same_stakes s s'" using complete_same Cons.prems Inr r by blast
    then have "stakes_wf (reg_stakes s')" using Cons.prems by (simp add: same_stakes_def same_amounts_def)
    from Cons.IH [OF this] same show ?thesis
      by (simp add: e process_entry_def Inr r) (rule same_stakes_trans)
  qed
qed simp

lemma process_queue_same:
  assumes "stakes_wf (reg_stakes s)"
  shows "same_stakes s (fst (process_unbonding_queue now s))"
proof -
  let ?es = "concat (map snd (filter (\<lambda>(t, _). t \<le> now) (reg_unbonding_queue s)))"
  have "same_stakes s (fst (foldl (process_entry now) (s, []) ?es))"
    using assms by (rule process_entries_same)
  then show ?thesis
    by (simp add: process_unbonding_queue_def same_stakes_def case_prod_unfold Let_def)
qed

lemma pay_delegators_same: "same_amounts m (foldl (pay_delegator v amount n) m ds)"
proof (induction ds arbitrary: m)
  case (Cons d ds)
  have "same_amounts m (pay_delegator v amount n m d)"
    by (auto simp: pay_delegator_def Let_def Stake_add_rewards_def case_prod_unfold
        intro: same_amounts_put split: option.split)
  then show ?case using Cons.IH same_amounts_trans by (metis foldl_Cons)
qed simp

lemma v_core_add_rewards [simp]: "v_core (add_rewards v c) = v_core v"
  by (simp add: v_core_def add_rewards_def)

lemma apply_reward_same: "same_stakes s (apply_reward s r)"
  by (auto simp: apply_reward_def distribute_to_delegators_def Let_def same_stakes_def
      pay_delegators_same option.map_comp comp_def split: prod.split)

lemma distribute_same: "same_stakes s (distribute_rewards s r)"
proof -
  have "same_stakes s (foldl apply_reward s rs)" for rs
    by (induction rs rule: rev_induct) (auto intro: same_stakes_trans apply_reward_same)
  then show ?thesis by (simp add: distribute_rewards_def)
qed

subsection \<open>Operations that move stake\<close>

lemma backed_le_sum: "stakes_wf m \<Longrightarrow> backed w u m \<le> stake_sum w m"
  using sum_backed_le [of m "[u]" w] by simp

lemma backed_none:
  assumes "stakes_wf m" and "\<And>a. find_stake m a u = None"
  shows "backed w u m = 0"
proof -
  have "held w (hm_get inner u) = 0" if mem: "inner \<in> set (hm_values m)" for inner
  proof -
    obtain a where "hm_get m a = Some inner"
      using hm_values_cases [OF _ mem] assms(1) by (auto simp: stakes_wf_def)
    then show ?thesis using assms(2) [of a] by (simp add: find_stake_def)
  qed
  then show ?thesis by (simp add: backed_def weight_eq_values)
qed

lemma held_pair_le:
  assumes "stakes_wf m" and "a \<noteq> u"
  shows "held w (find_stake m a u) + held w (find_stake m u u) \<le> backed w u m"
  using sum_held_le_weight [of m "[a, u]" "\<lambda>inner. held w (hm_get inner u)"] assms
  by (simp add: stakes_wf_def backed_def held_inner find_stake_entry)

lemma delegate_stake_put:
  assumes "held amt (find_stake m d v) + unat amount < 2 ^ 64"
  obtains st where "delegate_stake now d v amount m = put_stake d v st m"
    and "amt st = held amt (find_stake m d v) + unat amount"
    and "unat (st_rewards st) = held (\<lambda>x. unat (st_rewards x)) (find_stake m d v)"
proof (cases "find_stake m d v")
  case None
  show thesis
    by (rule that [of "Stake_new now d v amount False"])
      (simp_all add: delegate_stake_def find_stake_entry [symmetric] None Stake_new_def amt_def)
next
  case (Some x)
  have "unat (saturating_add (st_amount x) amount) = unat (st_amount x) + unat amount"
    using assms Some by (simp add: unat_saturating_add amt_def)
  then show thesis
    by (intro that [of "x\<lparr>st_amount := saturating_add (st_amount x) amount\<rparr>"])
      (simp_all add: delegate_stake_def find_stake_entry [symmetric] Some amt_def)
qed

lemma backed_put_other: "u \<noteq> b \<Longrightarrow> backed w u (put_stake a b x m) = backed w u m"
  using backed_put_stake [of w u a b x m] by simp

lemma validator_backed_other:
  "u \<noteq> b \<Longrightarrow> validator_backed (put_stake a b x m) u v \<longleftrightarrow> validator_backed m u v"
  by (simp add: validator_backed_def backed_put_other)

lemma register_inv:
  assumes "reg_inv s" and "register_validator now s a operator pk stake bps d = Ok s'"
  shows "reg_inv s'" and "stake_sum amt (reg_stakes s') \<le> stake_sum amt (reg_stakes s) + unat stake"
proof -
  let ?v = "Validator_new now a operator pk stake bps d" and ?st = "Stake_new now a a stake True"
  let ?m' = "put_stake a a ?st (reg_stakes s)"
  have fresh: "hm_get (reg_validators s) a = None"
    and s': "reg_validators s' = hm_insert a ?v (reg_validators s)" "reg_stakes s' = ?m'"
      "reg_validator_set s' = reg_validator_set s"
    using assms(2) by (auto simp: register_validator_def hm_contains_def split: if_splits)
  have none: "find_stake (reg_stakes s) x a = None" for x
    using assms(1) fresh by (metis reg_inv_def)
  have st: "amt ?st = unat stake" by (simp add: amt_def Stake_new_def)
  have "backed amt a ?m' = unat stake"
    using backed_put_stake [of amt a a a ?st "reg_stakes s"] backed_none [of "reg_stakes s" a amt] none assms(1)
    by (simp add: reg_inv_def st)
  moreover have "unat (min bps 10000) \<le> 10000"
    by (simp add: min_def word_le_nat_alt)
  ultimately have "validator_backed ?m' a ?v"
    by (simp add: validator_backed_def st Validator_new_def)
  then show "reg_inv s'"
    using assms(1) by (auto simp: reg_inv_def s' validator_backed_other split: if_splits)
  show "stake_sum amt (reg_stakes s') \<le> stake_sum amt (reg_stakes s) + unat stake"
    using stake_sum_put_stake [of amt a a ?st "reg_stakes s"] by (simp add: s' st)
qed

lemma delegate_inv:
  assumes "reg_inv s" and "delegate now s d b amount = Ok s'" and "d \<noteq> b"
    and bound: "stake_sum amt (reg_stakes s) + unat amount < 2 ^ 64"
  shows "reg_inv s'" and "stake_sum amt (reg_stakes s') \<le> stake_sum amt (reg_stakes s) + unat amount"
proof -
  let ?m = "reg_stakes s"
  have wf: "stakes_wf ?m" using assms(1) by (simp add: reg_inv_def)
  have le: "backed amt b ?m + unat amount < 2 ^ 64"
    using backed_le_sum [OF wf, of amt b] bound by simp
  then have "held amt (find_stake ?m d b) + unat amount < 2 ^ 64"
    using held_le_backed [of amt ?m d b] by simp
  from delegate_stake_put [OF this] obtain st where
    st: "delegate_stake now d b amount ?m = put_stake d b st ?m"
      "amt st = held amt (find_stake ?m d b) + unat amount" by metis
  obtain v where v: "hm_get (reg_validators s) b = Some v"
    and s': "reg_validators s' = hm_modify b (\<lambda>v. add_delegation v amount) (reg_validators s)"
      "reg_stakes s' = put_stake d b st ?m" "reg_validator_set s' = reg_validator_set s"
    using assms(2) by (auto simp: delegate_def st(1) split: if_splits option.splits)
  have vb: "validator_backed ?m b v" using assms(1) v by (simp add: reg_inv_def)
  have "unat (v_delegated_stake (add_delegation v amount)) = unat (v_delegated_stake v) + unat amount"
    using vb le by (simp add: add_delegation_def unat_saturating_add validator_backed_def)
  moreover have "backed amt b (put_stake d b st ?m) = backed amt b ?m + unat amount"
    using backed_put_stake [of amt b d b st ?m] st(2) by simp
  ultimately have "validator_backed (put_stake d b st ?m) b (add_delegation v amount)"
    using vb assms(3) by (auto simp: validator_backed_def add_delegation_def)
  then show "reg_inv s'"
    using assms(1) v by (auto simp: reg_inv_def s' validator_backed_other split: if_splits)
  show "stake_sum amt (reg_stakes s') \<le> stake_sum amt ?m + unat amount"
    using stake_sum_put_stake [of amt d b st ?m] by (simp add: s' st(2))
qed

lemma amt_unstake_record: "amount \<le> st_amount st \<Longrightarrow> amt (unstake_record now st amount) = amt st - unat amount"
  using unat_saturating_sub [of "st_amount st" amount]
  by (auto simp: unstake_record_def start_unbonding_def amt_def Let_def)

lemma begin_unstakeE:
  assumes "begin_unstake now s a b amount = Ok (s', t)"
  obtains st where "find_stake (reg_stakes s) a b = Some st" and "st_status st = Bonded" and "amount \<le> st_amount st"
    and "reg_stakes s' = put_stake a b (unstake_record now st amount) (reg_stakes s)"
    and "reg_validators s' = hm_modify b (unstake_validator (min_validator_stake (reg_config s)) a b amount) (reg_validators s)"
    and "reg_validator_set s' = reg_validator_set s" and "reg_total_staked s' = reg_total_staked s"
    and "t = now + unbonding_period_secs (reg_config s)"
  using assms by (auto simp: begin_unstake_def Let_def not_less split: option.splits if_splits)

lemma unstake_validator_backed:
  assumes "validator_backed m b v" and "stakes_wf m" and "find_stake m a b = Some st" and "amount \<le> st_amount st"
  shows "validator_backed (put_stake a b (unstake_record now st amount) m) b (unstake_validator minimum a b amount v)"
proof -
  let ?st' = "unstake_record now st amount"
  have am: "amt ?st' = amt st - unat amount" "unat amount \<le> amt st"
    using assms(4) amt_unstake_record by (auto simp: amt_def word_le_nat_alt)
  have eq: "backed amt b (put_stake a b ?st' m) + unat amount = backed amt b m"
    using backed_put_stake [of amt b a b ?st' m] am assms(3) held_le_backed [of amt m a b] by simp
  show ?thesis
  proof (cases "a = b")
    case True
    then show ?thesis
      using assms(1,3) eq am
      by (auto simp: validator_backed_def unstake_validator_def unat_saturating_sub Let_def)
  next
    case False
    have "unat amount \<le> unat (v_delegated_stake v)"
      using held_pair_le [OF assms(2) False, of amt] assms(1,3) am(2) by (simp add: validator_backed_def)
    then show ?thesis
      using assms(1,3) eq am False
      by (auto simp: validator_backed_def unstake_validator_def remove_delegation_def unat_saturating_sub)
  qed
qed

lemma begin_unstake_inv:
  assumes "reg_inv s" and "begin_unstake now s a b amount = Ok (s', t)"
  shows "reg_inv s'" and "stake_sum amt (reg_stakes s') \<le> stake_sum amt (reg_stakes s)"
proof -
  obtain st where st: "find_stake (reg_stakes s) a b = Some st" "amount \<le> st_amount st"
    and s': "reg_stakes s' = put_stake a b (unstake_record now st amount) (reg_stakes s)"
      "reg_validators s' = hm_modify b (unstake_validator (min_validator_stake (reg_config s)) a b amount) (reg_validators s)"
      "reg_validator_set s' = reg_validator_set s"
    using assms(2) by (rule begin_unstakeE)
  obtain v where v: "hm_get (reg_validators s) b = Some v" and wf: "stakes_wf (reg_stakes s)"
    using assms(1) st(1) by (fastforce simp: reg_inv_def)
  have "validator_backed (reg_stakes s) b v" using assms(1) v by (simp add: reg_inv_def)
  from unstake_validator_backed [OF this wf st]
  show "reg_inv s'"
    using assms(1) v st(1) by (auto simp: reg_inv_def s' validator_backed_other split: if_splits)
  show "stake_sum amt (reg_stakes s') \<le> stake_sum amt (reg_stakes s)"
    using stake_sum_put_stake [of amt a b "unstake_record now st amount" "reg_stakes s"] st
    by (simp add: s' amt_unstake_record)
qed

lemma backed_voting_power:
  assumes "validator_backed m a v" and "backed amt a m < 2 ^ 64"
  shows "unat (voting_power v) = backed amt a m"
  using assms by (simp add: voting_power_def total_stake_def unat_saturating_add validator_backed_def)

lemma same_stake_sum: "same_stakes s s' \<Longrightarrow> stake_sum amt (reg_stakes s') = stake_sum amt (reg_stakes s)"
  by (simp add: same_stakes_def same_amounts_def)

text \<open>Every operation keeps the invariant while the stake brought in fits 64 bits.\<close>

lemma reg_step_inv:
  assumes "reg_inv s" and "no_self_delegation x"
    and "stake_sum amt (reg_stakes s) + staked_in x < 2 ^ 64"
  shows "reg_inv (reg_step s x)
    \<and> stake_sum amt (reg_stakes (reg_step s x)) \<le> stake_sum amt (reg_stakes s) + staked_in x"
proof -
  have by_same: ?thesis if "same_stakes s (reg_step s x)"
    using reg_inv_same [OF assms(1) that] same_stake_sum [OF that] by simp
  have wf: "stakes_wf (reg_stakes s)" using assms(1) by (simp add: reg_inv_def)
  show ?thesis
  proof (cases x)
    case (RRegister now a operator pk stake bps d)
    show ?thesis
      using register_inv [OF assms(1), of now a operator pk stake bps d] assms(1)
      by (cases "register_validator now s a operator pk stake bps d") (simp_all add: RRegister)
  next
    case (RActivate a)
    show ?thesis
      using activate_same [of s a] by (intro by_same, cases "activate_validator s a") (simp_all add: RActivate)
  next
    case (RDelegate now d b amount)
    show ?thesis
      using delegate_inv [OF assms(1), of now d b amount] assms
      by (cases "delegate now s d b amount") (simp_all add: RDelegate)
  next
    case (RBeginUnstake now a b amount)
    show ?thesis
      using begin_unstake_inv [OF assms(1), of now a b amount] assms(1)
      by (cases "begin_unstake now s a b amount") (auto simp: RBeginUnstake)
  next
    case (RCompleteUnbonding now a b)
    show ?thesis
      using complete_same [OF wf, of now a b]
      by (intro by_same, cases "complete_unbonding now s a b") (auto simp: RCompleteUnbonding)
  next
    case (RProcessQueue now)
    show ?thesis using process_queue_same [OF wf] by (intro by_same) (simp add: RProcessQueue)
  next
    case (RAdvanceEpoch now)
    show ?thesis
      using assms(1) by (simp add: RAdvanceEpoch advance_epoch_def Let_def reg_inv_def)
  next
    case (RDistribute r)
    show ?thesis using distribute_same by (intro by_same) (simp add: RDistribute)
  next
    case (RClaim a b)
    show ?thesis
      using claim_same [of s a b] by (intro by_same, cases "claim_rewards s a b") (auto simp: RClaim)
  qed
qed

definition fair_run :: "reg_op list \<Rightarrow> bool" where
  "fair_run ops = ((\<forall>x \<in> set ops. no_self_delegation x) \<and> sum_list (map staked_in ops) < 2 ^ 64)"

lemma reg_run_inv:
  assumes "reg_inv s" and "\<forall>x \<in> set ops. no_self_delegation x"
    and "stake_sum amt (reg_stakes s) + sum_list (map staked_in ops) < 2 ^ 64"
  shows "reg_inv (run reg_step s ops) \<and> stake_sum amt (reg_stakes (run reg_step s ops)) < 2 ^ 64"
  using assms
proof (induction ops arbitrary: s)
  case (Cons x ops)
  have "stake_sum amt (reg_stakes s) + staked_in x < 2 ^ 64" using Cons.prems(3) by simp
  then have "reg_inv (reg_step s x)"
    "stake_sum amt (reg_stakes (reg_step s x)) \<le> stake_sum amt (reg_stakes s) + staked_in x"
    using reg_step_inv Cons.prems(1,2) by auto
  then show ?case using Cons.IH Cons.prems by simp
qed simp

lemma fair_run_inv:
  assumes "fair_run ops"
  shows "reg_inv (run reg_step (StakingRegistry_new now config) ops)
    \<and> stake_sum amt (reg_stakes (run reg_step (StakingRegistry_new now config) ops)) < 2 ^ 64"
  using reg_run_inv [OF reg_inv_new, of ops now config] assms
  by (simp add: fair_run_def StakingRegistry_new_def)

subsection \<open>The stake brought in bounds everything\<close>

text \<open>
  A second, weaker invariant holds for every operation, self-delegation included: with at most \<open>n\<close> brought
  in, the stake records, what the validators have recorded and the power of the current set are each at
  most \<open>n\<close>.
\<close>

definition v_stake :: "Validator \<Rightarrow> nat" where
  "v_stake v = unat (v_self_stake v) + unat (v_delegated_stake v)"

definition stake_within :: "nat \<Rightarrow> StakingRegistry \<Rightarrow> bool" where
  "stake_within n s =
     (hm_wf (reg_validators s) \<and> stakes_wf (reg_stakes s)
      \<and> (\<forall>a v. hm_get (reg_validators s) a = Some v \<longrightarrow> v_address v = a \<and> unat (v_commission_bps v) \<le> 10000)
      \<and> stake_sum amt (reg_stakes s) \<le> n \<and> weight v_stake (reg_validators s) \<le> n
      \<and> wf_set (reg_validator_set s) \<and> unat (set_total_voting_power (reg_validator_set s)) \<le> n)"

lemma stake_within_new: "stake_within 0 (StakingRegistry_new now config)"
  by (simp add: stake_within_def StakingRegistry_new_def wf_set_def ValidatorSet_new_def)

lemma stake_within_mono: "stake_within n s \<Longrightarrow> n \<le> n' \<Longrightarrow> stake_within n' s"
  by (auto simp: stake_within_def)

lemma stake_within_same:
  assumes "stake_within n s" and "same_stakes s s'"
  shows "stake_within n s'"
proof -
  note S = assms(2) [unfolded same_stakes_def] and W = assms(1) [unfolded stake_within_def]
  have core: "\<exists>v. hm_get (reg_validators s) a = Some v \<and> v_core v' = v_core v"
    if "hm_get (reg_validators s') a = Some v'" for a v'
  proof -
    have "map_option v_core (hm_get (reg_validators s) a) = Some (v_core v')"
      using S that by (metis option.simps(9))
    then show ?thesis by auto
  qed
  have "v_address v' = a \<and> unat (v_commission_bps v') \<le> 10000"
    if v': "hm_get (reg_validators s') a = Some v'" for a v'
    using core [OF v'] W by (auto simp: v_core_def)
  moreover have "weight v_stake (reg_validators s') = weight v_stake (reg_validators s)"
    using S W by (intro weight_cong_get [where f = v_core]) (auto simp: v_stake_def v_core_def)
  ultimately show ?thesis
    using S W by (simp add: stake_within_def same_amounts_def)
qed

lemma distinct_validator_addresses:
  assumes "stake_within n s"
  shows "distinct (map v_address (get_active_validators s))"
proof -
  have "map v_address (hm_values (reg_validators s)) = map fst (reg_validators s)"
    using assms hm_mem_iff [of "reg_validators s"]
    by (auto simp: hm_values_def stake_within_def)
  then have "distinct (map v_address (hm_values (reg_validators s)))"
    using assms by (simp add: stake_within_def hm_wf_def)
  then show ?thesis by (simp add: get_active_validators_def distinct_map_filter)
qed

lemma elected_power_le:
  "sum_list (map (unat \<circ> voting_power) (elected (get_active_validators s))) \<le> weight v_stake (reg_validators s)"
proof -
  let ?vs = "hm_values (reg_validators s)"
  have "sum_list (map (unat \<circ> voting_power) (elected (get_active_validators s)))
      \<le> sum_list (map (unat \<circ> voting_power) ?vs)"
    using elected_sum_le [of "unat \<circ> voting_power" "get_active_validators s"]
      sum_list_filter_le [of "unat \<circ> voting_power" "\<lambda>v. v_status v = VActive" ?vs]
    by (simp add: get_active_validators_def)
  also have "\<dots> \<le> sum_list (map v_stake ?vs)"
    by (rule sum_list_mono) (simp add: v_stake_def voting_power_def total_stake_def unat_saturating_add)
  finally show ?thesis by (simp add: weight_eq_values)
qed

lemma advance_within:
  assumes "stake_within n s" and "n < 2 ^ 64"
  shows "stake_within n (fst (advance_epoch now s))"
proof -
  let ?vs = "get_active_validators s"
  have d: "distinct (map v_address ?vs)" using assms(1) by (rule distinct_validator_addresses)
  have le: "sum_list (map (unat \<circ> voting_power) (elected ?vs)) \<le> n"
    using elected_power_le [of s] assms(1) by (simp add: stake_within_def)
  then have "wf_set (from_validators now (reg_epoch s + 1) ?vs WeightedRandom)"
    using d assms(2) by (intro from_validators_wf) simp_all
  moreover have "unat (set_total_voting_power (from_validators now (reg_epoch s + 1) ?vs WeightedRandom)) \<le> n"
    using le unat_sum_list_le [of "map voting_power (elected ?vs)"] from_validators_state(4) [OF d] by simp
  ultimately show ?thesis
    using assms(1) by (simp add: stake_within_def advance_epoch_def Let_def)
qed

lemma register_within:
  assumes "stake_within n s" and "register_validator now s a operator pk stake bps d = Ok s'"
  shows "stake_within (n + unat stake) s'"
proof -
  let ?v = "Validator_new now a operator pk stake bps d" and ?st = "Stake_new now a a stake True"
  have s': "reg_validators s' = hm_insert a ?v (reg_validators s)" "reg_stakes s' = put_stake a a ?st (reg_stakes s)"
      "reg_validator_set s' = reg_validator_set s"
    using assms(2) by (auto simp: register_validator_def split: if_splits)
  have "unat (min bps 10000) \<le> 10000" by (simp add: min_def word_le_nat_alt)
  moreover have "amt ?st = unat stake" "v_stake ?v = unat stake"
    by (simp_all add: amt_def Stake_new_def v_stake_def Validator_new_def)
  ultimately show ?thesis
    using assms(1) stake_sum_put_stake [of amt a a ?st "reg_stakes s"] weight_insert [of v_stake a ?v "reg_validators s"]
    by (auto simp: stake_within_def s' Validator_new_def)
qed

lemma delegate_within:
  assumes "stake_within n s" and "delegate now s d b amount = Ok s'"
  shows "stake_within (n + unat amount) s'"
proof -
  have s': "reg_validators s' = hm_modify b (\<lambda>v. add_delegation v amount) (reg_validators s)"
    "reg_stakes s' = delegate_stake now d b amount (reg_stakes s)" "reg_validator_set s' = reg_validator_set s"
    using assms(2) by (auto simp: delegate_def split: if_splits option.splits)
  have "\<exists>st. delegate_stake now d b amount (reg_stakes s) = put_stake d b st (reg_stakes s)
      \<and> amt st \<le> held amt (find_stake (reg_stakes s) d b) + unat amount"
    by (auto simp: delegate_stake_def find_stake_entry amt_def Stake_new_def unat_saturating_add split: option.split)
  then obtain st where st: "delegate_stake now d b amount (reg_stakes s) = put_stake d b st (reg_stakes s)"
    "amt st \<le> held amt (find_stake (reg_stakes s) d b) + unat amount" by blast
  have "weight v_stake (reg_validators s') \<le> weight v_stake (reg_validators s) + unat amount"
    unfolding s' by (rule weight_modify_le) (simp add: v_stake_def add_delegation_def unat_saturating_add)
  then show ?thesis
    using assms(1) st(2) stake_sum_put_stake [of amt d b st "reg_stakes s"]
    by (auto simp: stake_within_def s' st(1) add_delegation_def)
qed

lemma begin_unstake_within:
  assumes "stake_within n s" and "begin_unstake now s a b amount = Ok (s', t)"
  shows "stake_within n s'"
proof -
  let ?f = "unstake_validator (min_validator_stake (reg_config s)) a b amount"
  obtain st where st: "find_stake (reg_stakes s) a b = Some st" "amount \<le> st_amount st"
    and s': "reg_stakes s' = put_stake a b (unstake_record now st amount) (reg_stakes s)"
      "reg_validators s' = hm_modify b ?f (reg_validators s)" "reg_validator_set s' = reg_validator_set s"
    using assms(2) by (rule begin_unstakeE)
  have "weight v_stake (reg_validators s') \<le> weight v_stake (reg_validators s) + 0"
    unfolding s' by (rule weight_modify_le)
      (simp add: v_stake_def unstake_validator_def remove_delegation_def unat_saturating_sub Let_def)
  moreover have "v_address (?f v) = v_address v" "v_commission_bps (?f v) = v_commission_bps v" for v
    by (simp_all add: unstake_validator_def remove_delegation_def Let_def)
  ultimately show ?thesis
    using assms(1) st stake_sum_put_stake [of amt a b "unstake_record now st amount" "reg_stakes s"]
    by (auto simp: stake_within_def s' amt_unstake_record)
qed

lemma reg_step_within:
  assumes "stake_within n s" and "n < 2 ^ 64"
  shows "stake_within (n + staked_in x) (reg_step s x)"
proof -
  have by_same: "stake_within (n + staked_in x) (reg_step s x)" if "same_stakes s (reg_step s x)"
    using stake_within_mono [OF stake_within_same [OF assms(1) that]] by simp
  have wf: "stakes_wf (reg_stakes s)" using assms(1) by (simp add: stake_within_def)
  show ?thesis
  proof (cases x)
    case (RRegister now a operator pk stake bps d)
    then show ?thesis
      using register_within [OF assms(1)] stake_within_mono [OF assms(1)]
      by (cases "register_validator now s a operator pk stake bps d") simp_all
  next
    case (RActivate a)
    show ?thesis
      using activate_same [of s a] by (intro by_same, cases "activate_validator s a") (simp_all add: RActivate)
  next
    case (RDelegate now d b amount)
    then show ?thesis
      using delegate_within [OF assms(1)] stake_within_mono [OF assms(1)]
      by (cases "delegate now s d b amount") simp_all
  next
    case (RBeginUnstake now a b amount)
    then show ?thesis
      using begin_unstake_within [OF assms(1)] assms(1) by (cases "begin_unstake now s a b amount") auto
  next
    case (RCompleteUnbonding now a b)
    show ?thesis
      using complete_same [OF wf, of now a b]
      by (intro by_same, cases "complete_unbonding now s a b") (auto simp: RCompleteUnbonding)
  next
    case (RProcessQueue now)
    show ?thesis using process_queue_same [OF wf] by (intro by_same) (simp add: RProcessQueue)
  next
    case (RAdvanceEpoch now)
    then show ?thesis using advance_within [OF assms] by simp
  next
    case (RDistribute r)
    show ?thesis using distribute_same by (intro by_same) (simp add: RDistribute)
  next
    case (RClaim a b)
    show ?thesis
      using claim_same [of s a b] by (intro by_same, cases "claim_rewards s a b") (auto simp: RClaim)
  qed
qed

lemma reg_run_within:
  "stake_within n s \<Longrightarrow> n + sum_list (map staked_in ops) < 2 ^ 64 \<Longrightarrow>
    stake_within (n + sum_list (map staked_in ops)) (run reg_step s ops)"
proof (induction ops arbitrary: n s)
  case (Cons x ops)
  then show ?case using Cons.IH [OF reg_step_within [OF Cons.prems(1), of x]] by (simp add: add.assoc)
qed simp

subsection \<open>Rewards\<close>

definition rew :: "Stake \<Rightarrow> nat" where
  "rew st = unat (st_rewards st)"

definition v_rew :: "Validator \<Rightarrow> nat" where
  "v_rew v = unat (v_pending_rewards v)"

definition pending_rewards :: "StakingRegistry \<Rightarrow> nat" where
  "pending_rewards s = weight v_rew (reg_validators s) + stake_sum rew (reg_stakes s)"

lemma pay_delegator_rewards:
  "stake_sum rew (pay_delegator v amount n m d)
    \<le> stake_sum rew m + unat (mul_div amount (ucast (snd d)) (ucast n))"
proof (cases "find_stake m (fst d) v")
  case None
  then show ?thesis by (simp add: pay_delegator_def case_prod_unfold Let_def)
next
  case (Some st)
  then show ?thesis
    using stake_sum_put_stake [of rew "fst d" v "Stake_add_rewards st (mul_div amount (ucast (snd d)) (ucast n))" m]
    by (simp add: pay_delegator_def case_prod_unfold Let_def rew_def Stake_add_rewards_def unat_saturating_add split: if_splits)
qed

lemma pay_delegators_rewards:
  "stake_sum rew (foldl (pay_delegator v amount n) m ds)
    \<le> stake_sum rew m + sum_list (map (\<lambda>d. unat (mul_div amount (ucast (snd d)) (ucast n))) ds)"
proof (induction ds arbitrary: m)
  case (Cons d ds)
  show ?case
    using Cons.IH [of "pay_delegator v amount n m d"] pay_delegator_rewards [of v amount n m d] by simp
qed simp

lemma map_filter_sum_le:
  assumes "\<And>a r. a \<in> set as \<Longrightarrow> f a = Some r \<Longrightarrow> g r \<le> (h a :: nat)"
  shows "sum_list (map g (List.map_filter f as)) \<le> sum_list (map h as)"
  using assms
proof (induction "as")
  case (Cons a "as")
  then have "sum_list (map g (List.map_filter f as)) \<le> sum_list (map h as)" by simp
  moreover have "g r \<le> h a" if "f a = Some r" for r using Cons.prems that by simp
  ultimately show ?case
    by (cases "f a") (simp_all add: List.map_filter_simps add_mono trans_le_add2)
qed (simp add: List.map_filter_simps)

lemma bonded_le_backed: "sum_list (map (\<lambda>d. unat (snd d)) (bonded_to m v)) \<le> backed amt v m"
  unfolding bonded_to_def backed_def weight_def
  by (rule map_filter_sum_le) (auto simp: amt_def split: option.splits if_splits)

lemma unat_mul_div_upper:
  "unat (mul_div a (ucast (b :: u64)) (ucast (c :: u64))) \<le> unat a * unat b div unat c"
proof -
  have "unat (ucast b :: u128) < 2 ^ 64" using unat_less_power [of b] by (simp add: unat_ucast_128)
  then show ?thesis by (simp add: unat_mul_div unat_ucast_128)
qed

lemma distribute_to_delegators_rewards:
  assumes "backed amt v (reg_stakes s) < 2 ^ 64"
  shows "pending_rewards (distribute_to_delegators s v amount) \<le> pending_rewards s + unat amount"
proof -
  let ?ds = "bonded_to (reg_stakes s) v"
  let ?n = "sum_list (map snd ?ds)"
  have n: "unat ?n = sum_list (map (\<lambda>d. unat (snd d)) ?ds)"
    using bonded_le_backed [of "reg_stakes s" v] assms
    by (subst unat_sum_list_exact) (simp_all add: comp_def)
  have "sum_list (map (\<lambda>d. unat (mul_div amount (ucast (snd d)) (ucast ?n))) ?ds)
      \<le> sum_list (map (\<lambda>d. unat amount * unat (snd d) div unat ?n) ?ds)"
    by (intro sum_list_mono unat_mul_div_upper)
  also have "\<dots> \<le> unat amount"
    by (rule proportional_split_le) (simp add: n)
  finally show ?thesis
    using pay_delegators_rewards [of v amount ?n "reg_stakes s" ?ds]
    by (simp add: distribute_to_delegators_def Let_def pending_rewards_def)
qed

lemma apply_reward_rewards:
  assumes "stakes_wf (reg_stakes s)" and "stake_sum amt (reg_stakes s) < 2 ^ 64"
  shows "pending_rewards (apply_reward s (a, c, d)) \<le> pending_rewards s + unat c + unat d"
proof -
  let ?s1 = "s\<lparr>reg_validators := hm_modify a (\<lambda>v. add_rewards v c) (reg_validators s)\<rparr>"
  have "pending_rewards ?s1 \<le> pending_rewards s + unat c"
    using weight_modify_le [of v_rew "\<lambda>v. add_rewards v c" "unat c" a "reg_validators s"]
    by (simp add: pending_rewards_def v_rew_def add_rewards_def unat_saturating_add)
  moreover have "pending_rewards (distribute_to_delegators ?s1 a d) \<le> pending_rewards ?s1 + unat d"
    using backed_le_sum [OF assms(1), of amt a] assms(2)
    by (intro distribute_to_delegators_rewards) simp
  ultimately show ?thesis by (simp add: apply_reward_def)
qed

lemma apply_rewards_rewards:
  "stakes_wf (reg_stakes s) \<Longrightarrow> stake_sum amt (reg_stakes s) < 2 ^ 64 \<Longrightarrow>
   pending_rewards (foldl apply_reward s rs)
     \<le> pending_rewards s + sum_list (map (\<lambda>r. unat (fst (snd r)) + unat (snd (snd r))) rs)"
proof (induction rs arbitrary: s)
  case (Cons r rs)
  have "stakes_wf (reg_stakes (apply_reward s r))" "stake_sum amt (reg_stakes (apply_reward s r)) < 2 ^ 64"
    using apply_reward_same [of s r] Cons.prems by (simp_all add: same_stakes_def same_amounts_def)
  from Cons.IH [OF this] show ?case
    using apply_reward_rewards [OF Cons.prems, of "fst r" "fst (snd r)" "snd (snd r)"] by simp
qed simp

lemma reward_share_le:
  assumes "stake_within n s" and "reward_share s r a = Some x"
  shows "unat (fst (snd x)) + unat (snd (snd x))
    \<le> unat r * power_of (reg_validator_set s) a div unat (set_total_voting_power (reg_validator_set s))"
proof -
  obtain pw v where pw: "hm_get (set_voting_power (reg_validator_set s)) a = Some pw"
    and v: "hm_get (reg_validators s) a = Some v"
    using assms(2) by (auto simp: reward_share_def Let_def split: option.splits)
  let ?share = "mul_div r (ucast pw) (ucast (set_total_voting_power (reg_validator_set s)))"
  have "unat (v_commission_bps v) \<le> 10000"
    using assms(1) v by (simp add: stake_within_def)
  then have "mul_div ?share (ucast (v_commission_bps v)) 10000 \<le> ?share"
    by (intro mul_div_le) (simp_all add: unat_ucast_small_128)
  then have "unat (fst (snd x)) + unat (snd (snd x)) = unat ?share"
    using assms(2) by (auto simp: reward_share_def Let_def pw v unat_saturating_sub word_le_nat_alt)
  also have "\<dots> \<le> unat r * unat pw div unat (set_total_voting_power (reg_validator_set s))"
    by (rule unat_mul_div_upper)
  finally show ?thesis by (simp add: power_of_def get_voting_power_def pw)
qed

lemma distribute_rewards_rewards:
  assumes "stake_within n s" and "n < 2 ^ 64"
  shows "pending_rewards (distribute_rewards s r) \<le> pending_rewards s + unat r"
proof -
  let ?set = "reg_validator_set s"
  let ?rs = "List.map_filter (reward_share s r) (set_validators ?set)"
  have "sum_list (map (\<lambda>x. unat (fst (snd x)) + unat (snd (snd x))) ?rs)
      \<le> sum_list (map (\<lambda>a. unat r * power_of ?set a div unat (set_total_voting_power ?set)) (set_validators ?set))"
    using reward_share_le [OF assms(1)] by (intro map_filter_sum_le)
  also have "\<dots> \<le> unat r"
    using assms(1) by (intro proportional_split_le) (simp add: stake_within_def wf_set_def)
  finally show ?thesis
    using apply_rewards_rewards [of s ?rs] assms by (simp add: distribute_rewards_def stake_within_def)
qed

lemma register_rewards:
  assumes "register_validator now s a operator pk stake bps d = Ok s'"
  shows "pending_rewards s' \<le> pending_rewards s"
proof -
  let ?v = "Validator_new now a operator pk stake bps d" and ?st = "Stake_new now a a stake True"
  have s': "reg_validators s' = hm_insert a ?v (reg_validators s)" "reg_stakes s' = put_stake a a ?st (reg_stakes s)"
    using assms by (auto simp: register_validator_def split: if_splits)
  show ?thesis
    using weight_insert [of v_rew a ?v "reg_validators s"] stake_sum_put_stake [of rew a a ?st "reg_stakes s"]
    by (simp add: pending_rewards_def s' v_rew_def rew_def Validator_new_def Stake_new_def)
qed

lemma activate_rewards: "activate_validator s a = Ok s' \<Longrightarrow> pending_rewards s' = pending_rewards s"
proof -
  assume ok: "activate_validator s a = Ok s'"
  then obtain v where v: "hm_get (reg_validators s) a = Some v"
    and s': "s' = s\<lparr>reg_validators := hm_insert a (v\<lparr>v_status := VActive\<rparr>) (reg_validators s)\<rparr>"
    by (auto simp: activate_validator_def split: option.splits if_splits)
  show ?thesis
    using weight_insert [of v_rew a "v\<lparr>v_status := VActive\<rparr>" "reg_validators s"] v
    by (simp add: pending_rewards_def s' v_rew_def)
qed

lemma put_same_rewards:
  "held rew (find_stake m a b) = rew st \<Longrightarrow> stake_sum rew (put_stake a b st m) = stake_sum rew m"
  using stake_sum_put_stake [of rew a b st m] by simp

lemma delegate_rewards:
  assumes "delegate now s d b amount = Ok s'"
  shows "pending_rewards s' \<le> pending_rewards s"
proof -
  have s': "reg_validators s' = hm_modify b (\<lambda>v. add_delegation v amount) (reg_validators s)"
    "reg_stakes s' = delegate_stake now d b amount (reg_stakes s)"
    using assms by (auto simp: delegate_def split: if_splits option.splits)
  have "stake_sum rew (reg_stakes s') = stake_sum rew (reg_stakes s)"
    unfolding s' delegate_stake_def find_stake_entry [symmetric]
    by (auto simp: rew_def Stake_new_def split: option.split intro!: put_same_rewards)
  moreover have "weight v_rew (reg_validators s') \<le> weight v_rew (reg_validators s)"
    using weight_modify_le [of v_rew "\<lambda>v. add_delegation v amount" 0 b "reg_validators s"]
    by (simp add: s' v_rew_def add_delegation_def)
  ultimately show ?thesis by (simp add: pending_rewards_def)
qed

lemma begin_unstake_rewards:
  assumes "begin_unstake now s a b amount = Ok (s', t)"
  shows "pending_rewards s' \<le> pending_rewards s"
proof -
  obtain st where st: "find_stake (reg_stakes s) a b = Some st"
    and s': "reg_stakes s' = put_stake a b (unstake_record now st amount) (reg_stakes s)"
      "reg_validators s' = hm_modify b (unstake_validator (min_validator_stake (reg_config s)) a b amount) (reg_validators s)"
    using assms by (rule begin_unstakeE)
  have "stake_sum rew (reg_stakes s') = stake_sum rew (reg_stakes s)"
    unfolding s' by (rule put_same_rewards)
      (simp add: st rew_def unstake_record_def start_unbonding_def Let_def)
  moreover have "weight v_rew (reg_validators s') \<le> weight v_rew (reg_validators s)"
    using weight_modify_le [of v_rew "unstake_validator (min_validator_stake (reg_config s)) a b amount" 0 b "reg_validators s"]
    by (simp add: s' v_rew_def unstake_validator_def remove_delegation_def Let_def)
  ultimately show ?thesis by (simp add: pending_rewards_def)
qed

lemma complete_rewards:
  assumes "stakes_wf (reg_stakes s)" and "complete_unbonding now s a b = Ok (s', paid)"
  shows "pending_rewards s' \<le> pending_rewards s"
proof -
  obtain st where st: "find_stake (reg_stakes s) a b = Some st"
    using assms(2) by (auto simp: complete_unbonding_def split: option.splits)
  let ?m = "put_stake a b (Stake_complete_unbonding now st) (reg_stakes s)"
  have "stake_sum rew ?m = stake_sum rew (reg_stakes s)"
    by (rule put_same_rewards) (simp add: st rew_def Stake_complete_unbonding_def)
  then have "stake_sum rew (remove_stake a b ?m) \<le> stake_sum rew (reg_stakes s)"
    using stake_store.total_del_le [of ?m rew "(a, b)"] assms(1) by simp
  then show ?thesis
    using assms(2) \<open>stake_sum rew ?m = _\<close>
    by (auto simp: complete_unbonding_def st pending_rewards_def Let_def split: if_splits)
qed

lemma process_entries_rewards:
  "stakes_wf (reg_stakes s) \<Longrightarrow> pending_rewards (fst (foldl (process_entry now) (s, done) es)) \<le> pending_rewards s"
proof (induction es arbitrary: s "done")
  case (Cons e es)
  obtain a b where e: "e = (a, b)" by (cases e)
  show ?case
  proof (cases "complete_unbonding now s a b")
    case (Inl x)
    then show ?thesis using Cons by (simp add: e process_entry_def)
  next
    case (Inr r)
    obtain s' paid where r: "r = (s', paid)" by (cases r)
    have "stakes_wf (reg_stakes s')"
      using complete_same [OF Cons.prems] Inr r Cons.prems by (simp add: same_stakes_def same_amounts_def)
    then show ?thesis
      using Cons.IH [of s' "done @ [(a, b, paid)]"] complete_rewards [OF Cons.prems Inr [unfolded r]]
      by (simp add: e process_entry_def Inr r)
  qed
qed simp

lemma claim_rewards_rewards:
  assumes "claim_rewards s a b = Ok (s', paid)"
  shows "pending_rewards s' + unat paid = pending_rewards s"
proof -
  obtain st where st: "find_stake (reg_stakes s) a b = Some st" "paid = st_rewards st"
    and s': "s' = s\<lparr>reg_stakes := put_stake a b (st\<lparr>st_rewards := 0\<rparr>) (reg_stakes s)\<rparr>"
    using assms by (auto simp: claim_rewards_def Stake_withdraw_rewards_def split: option.splits)
  show ?thesis
    using stake_sum_put_stake [of rew a b "st\<lparr>st_rewards := 0\<rparr>" "reg_stakes s"] st
    by (simp add: s' pending_rewards_def rew_def)
qed

lemma reg_step_rewards:
  assumes "stake_within n s" and "n < 2 ^ 64"
  shows "pending_rewards (reg_step s x) + rewards_out s x \<le> pending_rewards s + rewards_in x"
proof (cases x)
  case (RRegister now a operator pk stake bps d)
  show ?thesis
    using register_rewards [of now s a operator pk stake bps d]
    by (cases "register_validator now s a operator pk stake bps d") (simp_all add: RRegister)
next
  case (RActivate a)
  show ?thesis
    using activate_rewards [of s a] by (cases "activate_validator s a") (simp_all add: RActivate)
next
  case (RDelegate now d b amount)
  show ?thesis
    using delegate_rewards [of now s d b amount] by (cases "delegate now s d b amount") (simp_all add: RDelegate)
next
  case (RBeginUnstake now a b amount)
  show ?thesis
    using begin_unstake_rewards [of now s a b amount]
    by (cases "begin_unstake now s a b amount") (auto simp: RBeginUnstake)
next
  case (RCompleteUnbonding now a b)
  show ?thesis
    using complete_rewards [of s now a b] assms(1)
    by (cases "complete_unbonding now s a b") (auto simp: RCompleteUnbonding stake_within_def)
next
  case (RProcessQueue now)
  show ?thesis
    using process_entries_rewards [of s now] assms(1)
    by (simp add: RProcessQueue process_unbonding_queue_def case_prod_unfold Let_def pending_rewards_def stake_within_def)
next
  case (RAdvanceEpoch now)
  show ?thesis by (simp add: RAdvanceEpoch advance_epoch_def Let_def pending_rewards_def)
next
  case (RDistribute r)
  show ?thesis using distribute_rewards_rewards [OF assms] by (simp add: RDistribute)
next
  case (RClaim a b)
  show ?thesis
    using claim_rewards_rewards [of s a b] by (cases "claim_rewards s a b") (auto simp: RClaim)
qed

lemma reg_run_rewards:
  assumes "stake_within n s" and "n + sum_list (map staked_in ops) < 2 ^ 64"
  shows "pending_rewards (run reg_step s ops) + rewards_paid s ops
    \<le> pending_rewards s + sum_list (map rewards_in ops)"
  using assms
proof (induction ops arbitrary: n s)
  case (Cons x ops)
  have bound: "n < 2 ^ 64" using Cons.prems(2) by simp
  have "pending_rewards (run reg_step (reg_step s x) ops) + rewards_paid (reg_step s x) ops
      \<le> pending_rewards (reg_step s x) + sum_list (map rewards_in ops)"
    using Cons.prems by (intro Cons.IH [OF reg_step_within [OF Cons.prems(1) bound]]) (simp add: add.assoc)
  then show ?case
    using reg_step_rewards [OF Cons.prems(1) bound, of x] by simp
qed simp

subsection \<open>Properties\<close>

text \<open>
  C8. Voting power is backed by stake records: whatever validators and delegators do, as long as no
  validator delegates to itself and the stake brought in fits 64 bits, each validator's self stake is
  the amount of its own record and its voting power is the sum of all stake records that name it.
\<close>

theorem voting_power_backed:
  assumes "fair_run ops" and "s = run reg_step (StakingRegistry_new now config) ops"
    and "get_validator s a = Some v"
  shows "unat (v_self_stake v) = held amt (get_stake s a a)
    \<and> unat (voting_power v) = backed amt a (reg_stakes s)"
proof -
  note inv = fair_run_inv [OF assms(1), of now config, folded assms(2)]
  then have vb: "validator_backed (reg_stakes s) a v"
    using assms(3) by (simp add: reg_inv_def get_validator_def)
  have "backed amt a (reg_stakes s) < 2 ^ 64"
    using inv backed_le_sum [of "reg_stakes s" amt a] by (simp add: reg_inv_def)
  from backed_voting_power [OF vb this] show ?thesis
    using vb by (simp add: validator_backed_def get_stake_def)
qed

definition example_a :: address where "example_a = Address (replicate 20 1)"
definition example_b :: address where "example_b = Address (replicate 20 2)"

definition example_reg_ops :: "reg_op list" where
  "example_reg_ops =
     [RRegister 0 example_a example_a [] MIN_VALIDATOR_STAKE 500 [], RActivate example_a,
      RDelegate 5 example_b example_a MIN_VALIDATOR_STAKE]"

lemma example_addresses [simp]: "example_a \<noteq> example_b" "example_b \<noteq> example_a"
  by (simp_all add: example_a_def example_b_def)

lemma example_fair: "fair_run example_reg_ops"
  by (simp add: fair_run_def example_reg_ops_def MIN_VALIDATOR_STAKE_def)

lemmas registry_eval = StakingRegistry_new_def StakingConfig_default_def with_defaults_def register_validator_def
  activate_validator_def delegate_def delegate_stake_def get_validator_def get_stake_def find_stake_def put_stake_def
  stakes_entry_def hm_contains_def Validator_new_def Stake_new_def can_activate_def MIN_VALIDATOR_STAKE_def
  MIN_DELEGATION_STAKE_def

theorem voting_power_backed_witness:
  "\<exists>v. get_validator (run reg_step (StakingRegistry_new 0 StakingConfig_default) example_reg_ops) example_a = Some v
    \<and> unat (voting_power v)
      = backed amt example_a (reg_stakes (run reg_step (StakingRegistry_new 0 StakingConfig_default) example_reg_ops))"
proof -
  have "\<exists>v. get_validator (run reg_step (StakingRegistry_new 0 StakingConfig_default) example_reg_ops) example_a = Some v"
    by (simp add: example_reg_ops_def registry_eval)
  then show ?thesis
    using voting_power_backed [OF example_fair refl] by blast
qed

text \<open>
  C7. Rewards are conserved: over any sequence of operations of the registry, self-delegation included,
  that brings in less than \<open>2^64\<close> base units of stake altogether, the rewards paid out by claims and those
  still pending with validators and stakes never exceed what was handed to \<open>distribute_rewards\<close>.
  (Beyond that bound the total over the delegators of a validator may wrap, and they are overpaid.)
\<close>

theorem rewards_never_exceed_distributed:
  assumes "sum_list (map staked_in ops) < 2 ^ 64"
  shows "pending_rewards (run reg_step (StakingRegistry_new now config) ops)
      + rewards_paid (StakingRegistry_new now config) ops
    \<le> sum_list (map rewards_in ops)"
  using reg_run_rewards [OF stake_within_new, of ops now config] assms
  by (simp add: StakingRegistry_new_def pending_rewards_def)

theorem rewards_never_exceed_distributed_witness:
  "pending_rewards (run reg_step (StakingRegistry_new 0 StakingConfig_default)
      [RRegister 0 example_a example_a [] MIN_VALIDATOR_STAKE 500 [], RActivate example_a,
       RDelegate 5 example_a example_a MIN_VALIDATOR_STAKE, RAdvanceEpoch 10, RDistribute 1000, RClaim example_a example_a])
    + rewards_paid (StakingRegistry_new 0 StakingConfig_default)
      [RRegister 0 example_a example_a [] MIN_VALIDATOR_STAKE 500 [], RActivate example_a,
       RDelegate 5 example_a example_a MIN_VALIDATOR_STAKE, RAdvanceEpoch 10, RDistribute 1000, RClaim example_a example_a]
    \<le> 1000"
proof -
  let ?ops = "[RRegister 0 example_a example_a [] MIN_VALIDATOR_STAKE 500 [], RActivate example_a,
       RDelegate 5 example_a example_a MIN_VALIDATOR_STAKE, RAdvanceEpoch 10, RDistribute 1000, RClaim example_a example_a]"
  have "sum_list (map staked_in ?ops) < 2 ^ 64" by (simp add: MIN_VALIDATOR_STAKE_def)
  from rewards_never_exceed_distributed [OF this, of 0 StakingConfig_default]
  show ?thesis unfolding list.map sum_list.Cons sum_list.Nil rewards_in.simps by simp
qed

text \<open>
  Unstaking never pays back: after a successful \<open>begin_unstake\<close>, completing the unbonding pays
  nothing at any later time and leaves the total staked as it was; after unstaking a whole stake the
  completion does succeed once the period is over, and drops the record.
\<close>

theorem unstaking_pays_nothing:
  assumes "begin_unstake now s a b amount = Ok (s', t)" and "get_stake s a b = Some st"
  shows "(\<forall>s'' paid. complete_unbonding now' s' a b = Ok (s'', paid) \<longrightarrow>
        paid = 0 \<and> reg_total_staked s'' = reg_total_staked s)
    \<and> (amount = st_amount st \<and> now + UNBONDING_PERIOD_SECS \<le> now' \<longrightarrow>
        (\<exists>s''. complete_unbonding now' s' a b = Ok (s'', 0) \<and> get_stake s'' a b = None))"
proof -
  obtain x where "find_stake (reg_stakes s) a b = Some x" "st_status x = Bonded"
    "reg_stakes s' = put_stake a b (unstake_record now x amount) (reg_stakes s)"
    and total: "reg_total_staked s' = reg_total_staked s"
    using assms(1) by (rule begin_unstakeE)
  then have bonded: "st_status st = Bonded"
    and found: "find_stake (reg_stakes s') a b = Some (unstake_record now st amount)"
    using assms(2) by (auto simp: get_stake_def)
  show ?thesis
  proof (cases "saturating_sub (st_amount st) amount = 0")
    case True
    then have rec: "unstake_record now st amount
        = st\<lparr>st_amount := 0, st_status := Unbonding, st_unbonding_at := Some now\<rparr>"
      using bonded by (simp add: unstake_record_def start_unbonding_def)
    show ?thesis
      by (auto simp: complete_unbonding_def found [unfolded rec] is_unbonding_complete_def Stake_complete_unbonding_def
          Let_def total get_stake_def)
  next
    case False
    then have "st_status (unstake_record now st amount) = Bonded" "amount \<noteq> st_amount st"
      using bonded by (auto simp: unstake_record_def)
    then show ?thesis by (simp add: complete_unbonding_def found)
  qed
qed

theorem unstaking_pays_nothing_witness:
  "\<exists>s s' t. begin_unstake 100 s example_b example_a MIN_VALIDATOR_STAKE = Ok (s', t)
    \<and> reg_total_staked s = 2 * MIN_VALIDATOR_STAKE
    \<and> (\<exists>s''. complete_unbonding (100 + UNBONDING_PERIOD_SECS) s' example_b example_a = Ok (s'', 0))"
proof -
  let ?s = "run reg_step (StakingRegistry_new 0 StakingConfig_default) example_reg_ops"
  have st: "get_stake ?s example_b example_a = Some (Stake_new 5 example_b example_a MIN_VALIDATOR_STAKE False)"
    and tot: "reg_total_staked ?s = 2 * MIN_VALIDATOR_STAKE"
    by (simp_all add: example_reg_ops_def registry_eval)
  have "is_ok (begin_unstake 100 ?s example_b example_a MIN_VALIDATOR_STAKE)"
    using st by (simp add: begin_unstake_def get_stake_def Stake_new_def Let_def)
  then obtain s' t where ok: "begin_unstake 100 ?s example_b example_a MIN_VALIDATOR_STAKE = Ok (s', t)"
    by (auto elim: is_okE)
  show ?thesis
    using unstaking_pays_nothing [OF ok st, of "100 + UNBONDING_PERIOD_SECS"] ok tot
    by (auto simp: Stake_new_def)
qed

end
