(* ===== verification/Checkpoint.thy ===== *)
theory Checkpoint
  imports Validators
begin

section \<open>Checkpoint finality\<close>

text \<open>
  \<open>pyrax-node/src/consensus/staking/checkpoint.rs\<close>: checkpoints, the votes on them and the manager that
  proposes, justifies and finalizes them. The maps and counters behind locks are one record; the clock
  is the argument \<open>now\<close>, BLAKE3 is \<open>ext_blake3\<close>.
\<close>

definition CHECKPOINT_INTERVAL :: u64 where "CHECKPOINT_INTERVAL = 100"
definition CHECKPOINT_BASE_REWARD :: u64 where "CHECKPOINT_BASE_REWARD = 10 * 100000000"

datatype CheckpointStatus = Proposed | Justified | Finalized | Rejected

record CheckpointVote =
  vote_voter :: address
  vote_checkpoint_hash :: "u8 list"
  vote_voting_power :: u64
  vote_signature :: "u8 list"
  vote_timestamp :: u64

definition CheckpointVote_new :: "u64 \<Rightarrow> address \<Rightarrow> u8 list \<Rightarrow> u64 \<Rightarrow> u8 list \<Rightarrow> CheckpointVote" where
  "CheckpointVote_new now voter checkpoint_hash voting_pw signature =
     \<lparr>vote_voter = voter, vote_checkpoint_hash = checkpoint_hash, vote_voting_power = voting_pw,
      vote_signature = signature, vote_timestamp = now\<rparr>"

definition vote_verify :: "CheckpointVote \<Rightarrow> u8 list \<Rightarrow> bool" where
  "vote_verify vote pubkey = (0 < vote_voting_power vote)"

record Checkpoint =
  ck_height :: u64
  ck_epoch :: u64
  ck_block_hash :: h256
  ck_state_root :: h256
  ck_parent_checkpoint :: h256
  ck_validator_set_hash :: h256
  ck_status :: CheckpointStatus
  ck_votes :: "(address, CheckpointVote) hashmap"
  ck_vote_power :: u64
  ck_quorum :: u64
  ck_proposer :: address
  ck_created_at :: u64
  ck_finalized_at :: "u64 option"

definition compute_validator_set_hash :: "ext \<Rightarrow> ValidatorSet \<Rightarrow> h256" where
  "compute_validator_set_hash e s =
     h256_from_slice (ext_blake3 e (u64_to_be_bytes (set_epoch s)
       @ concat (map (\<lambda>a. address_bytes a
           @ (case hm_get (set_voting_power s) a of None \<Rightarrow> [] | Some p \<Rightarrow> u64_to_be_bytes p)) (set_validators s))))"

definition Checkpoint_new ::
  "ext \<Rightarrow> u64 \<Rightarrow> u64 \<Rightarrow> u64 \<Rightarrow> h256 \<Rightarrow> h256 \<Rightarrow> h256 \<Rightarrow> ValidatorSet \<Rightarrow> address \<Rightarrow> Checkpoint" where
  "Checkpoint_new e now height epoch block_hash state_root parent_checkpoint validator_set proposer =
     \<lparr>ck_height = height, ck_epoch = epoch, ck_block_hash = block_hash, ck_state_root = state_root,
      ck_parent_checkpoint = parent_checkpoint,
      ck_validator_set_hash = compute_validator_set_hash e validator_set, ck_status = Proposed,
      ck_votes = [], ck_vote_power = 0, ck_quorum = quorum validator_set, ck_proposer = proposer,
      ck_created_at = now, ck_finalized_at = None\<rparr>"

definition Checkpoint_hash :: "ext \<Rightarrow> Checkpoint \<Rightarrow> h256" where
  "Checkpoint_hash e c =
     h256_from_slice (ext_blake3 e (u64_to_be_bytes (ck_height c) @ u64_to_be_bytes (ck_epoch c)
       @ h256_bytes (ck_block_hash c) @ h256_bytes (ck_state_root c)
       @ h256_bytes (ck_parent_checkpoint c) @ h256_bytes (ck_validator_set_hash c)))"

definition Checkpoint_add_vote :: "ext \<Rightarrow> Checkpoint \<Rightarrow> CheckpointVote \<Rightarrow> Checkpoint \<times> bool" where
  "Checkpoint_add_vote e c vote =
     (if ck_status c \<noteq> Proposed then (c, False)
      else if vote_checkpoint_hash vote \<noteq> h256_bytes (Checkpoint_hash e c) then (c, False)
      else if hm_contains (ck_votes c) (vote_voter vote) then (c, False)
      else let c' = c\<lparr>ck_vote_power := ck_vote_power c + vote_voting_power vote,
                      ck_votes := hm_insert (vote_voter vote) vote (ck_votes c)\<rparr> in
        (if ck_quorum c' \<le> ck_vote_power c' then c'\<lparr>ck_status := Justified\<rparr> else c', True))"

definition Checkpoint_finalize :: "u64 \<Rightarrow> Checkpoint \<Rightarrow> Checkpoint \<times> bool" where
  "Checkpoint_finalize now c =
     (if ck_status c \<noteq> Justified then (c, False)
      else (c\<lparr>ck_status := Finalized, ck_finalized_at := Some now\<rparr>, True))"

definition Checkpoint_reject :: "Checkpoint \<Rightarrow> Checkpoint" where
  "Checkpoint_reject c = (if ck_status c \<noteq> Finalized then c\<lparr>ck_status := Rejected\<rparr> else c)"

definition Checkpoint_has_quorum :: "Checkpoint \<Rightarrow> bool" where
  "Checkpoint_has_quorum c = (ck_quorum c \<le> ck_vote_power c)"

definition vote_count :: "Checkpoint \<Rightarrow> nat" where
  "vote_count c = length (ck_votes c)"

datatype FinalityError =
    CheckpointNotFound u64
  | InvalidHeight u64 u64
  | ParentNotFound h256
  | CheckpointExists u64
  | InvalidVote string
  | NotValidator
  | NotJustified
  | ConflictingCheckpoint
  | FinalityInvalidSignature

record CheckpointManager =
  cm_checkpoints :: "(u64, Checkpoint) hashmap"
  cm_by_hash :: "(h256, u64) hashmap"
  cm_last_finalized :: u64
  cm_last_justified :: u64
  cm_pending :: "u64 list"

definition CheckpointManager_new :: CheckpointManager where
  "CheckpointManager_new =
     \<lparr>cm_checkpoints = [], cm_by_hash = [], cm_last_finalized = 0, cm_last_justified = 0, cm_pending = []\<rparr>"

definition create_genesis :: "ext \<Rightarrow> u64 \<Rightarrow> CheckpointManager \<Rightarrow> h256 \<Rightarrow> h256 \<Rightarrow> CheckpointManager \<times> Checkpoint" where
  "create_genesis e now m genesis_hash state_root =
     (let c = \<lparr>ck_height = 0, ck_epoch = 0, ck_block_hash = genesis_hash, ck_state_root = state_root,
               ck_parent_checkpoint = h256_zero, ck_validator_set_hash = h256_zero,
               ck_status = Finalized, ck_votes = [], ck_vote_power = 0, ck_quorum = 0,
               ck_proposer = address_zero, ck_created_at = now, ck_finalized_at = Some now\<rparr> in
      (m\<lparr>cm_checkpoints := hm_insert 0 c (cm_checkpoints m),
         cm_by_hash := hm_insert (Checkpoint_hash e c) 0 (cm_by_hash m)\<rparr>, c))"

definition parent_hash :: "ext \<Rightarrow> CheckpointManager \<Rightarrow> u64 \<Rightarrow> FinalityError + h256" where
  "parent_hash e m height =
     (let parent_height = saturating_sub height CHECKPOINT_INTERVAL in
      if parent_height = 0
      then Ok (case hm_get (cm_checkpoints m) 0 of None \<Rightarrow> h256_zero | Some c \<Rightarrow> Checkpoint_hash e c)
      else case hm_get (cm_checkpoints m) parent_height of
        None \<Rightarrow> Err (ParentNotFound h256_zero)
      | Some c \<Rightarrow> Ok (Checkpoint_hash e c))"

definition propose_checkpoint ::
  "ext \<Rightarrow> u64 \<Rightarrow> CheckpointManager \<Rightarrow> u64 \<Rightarrow> u64 \<Rightarrow> h256 \<Rightarrow> h256 \<Rightarrow> ValidatorSet \<Rightarrow> address
   \<Rightarrow> FinalityError + CheckpointManager \<times> Checkpoint" where
  "propose_checkpoint e now m height epoch block_hash state_root validator_set proposer =
     (if height mod CHECKPOINT_INTERVAL \<noteq> 0
      then Err (InvalidHeight ((height div CHECKPOINT_INTERVAL + 1) * CHECKPOINT_INTERVAL) height)
      else if hm_contains (cm_checkpoints m) height then Err (CheckpointExists height)
      else case parent_hash e m height of
        Err x \<Rightarrow> Err x
      | Ok parent \<Rightarrow>
          let c = Checkpoint_new e now height epoch block_hash state_root parent validator_set proposer in
          Ok (m\<lparr>cm_checkpoints := hm_insert height c (cm_checkpoints m),
                cm_by_hash := hm_insert (Checkpoint_hash e c) height (cm_by_hash m),
                cm_pending := cm_pending m @ [height]\<rparr>, c))"

definition add_vote ::
  "ext \<Rightarrow> CheckpointManager \<Rightarrow> u64 \<Rightarrow> CheckpointVote \<Rightarrow> ValidatorSet \<Rightarrow> FinalityError + CheckpointManager \<times> bool" where
  "add_vote e m height vote validator_set =
     (if \<not> set_contains validator_set (vote_voter vote) then Err NotValidator
      else case hm_get (cm_checkpoints m) height of
        None \<Rightarrow> Err (CheckpointNotFound height)
      | Some c \<Rightarrow> case Checkpoint_add_vote e c vote of (c', added) \<Rightarrow>
          Ok (m\<lparr>cm_checkpoints := hm_insert height c' (cm_checkpoints m),
                cm_last_justified := if ck_status c' = Justified then height else cm_last_justified m\<rparr>, added))"

definition finalize_checkpoint :: "u64 \<Rightarrow> CheckpointManager \<Rightarrow> u64 \<Rightarrow> FinalityError + CheckpointManager \<times> u64" where
  "finalize_checkpoint now m height =
     (case hm_get (cm_checkpoints m) height of
        None \<Rightarrow> Err (CheckpointNotFound height)
      | Some c \<Rightarrow>
          if ck_status c \<noteq> Justified then Err NotJustified
          else Ok (m\<lparr>cm_checkpoints := hm_insert height (fst (Checkpoint_finalize now c)) (cm_checkpoints m),
                     cm_last_finalized := height,
                     cm_pending := filter (\<lambda>h. h \<noteq> height) (cm_pending m)\<rparr>, CHECKPOINT_BASE_REWARD))"

definition get_checkpoint :: "CheckpointManager \<Rightarrow> u64 \<Rightarrow> Checkpoint option" where
  "get_checkpoint m height = hm_get (cm_checkpoints m) height"

definition get_checkpoint_by_hash :: "CheckpointManager \<Rightarrow> h256 \<Rightarrow> Checkpoint option" where
  "get_checkpoint_by_hash m h = (case hm_get (cm_by_hash m) h of None \<Rightarrow> None | Some height \<Rightarrow> get_checkpoint m height)"

definition is_finalized :: "CheckpointManager \<Rightarrow> u64 \<Rightarrow> bool" where
  "is_finalized m block_height = (block_height \<le> cm_last_finalized m)"

definition finality_depth :: "CheckpointManager \<Rightarrow> u64 \<Rightarrow> u64" where
  "finality_depth m current_height = saturating_sub current_height (cm_last_finalized m)"

definition should_checkpoint :: "u64 \<Rightarrow> bool" where
  "should_checkpoint height = (0 < height \<and> height mod CHECKPOINT_INTERVAL = 0)"

definition get_checkpoints_in_range :: "CheckpointManager \<Rightarrow> u64 \<Rightarrow> u64 \<Rightarrow> Checkpoint list" where
  "get_checkpoints_in_range m first final =
     List.map_filter (\<lambda>h. hm_get (cm_checkpoints m) h)
       (filter (\<lambda>h. h mod CHECKPOINT_INTERVAL = 0) (map of_nat [unat first ..< unat final + 1]))"

record CheckpointStats =
  cs_total_checkpoints :: u64
  cs_pending_checkpoints :: u64
  cs_last_finalized :: u64
  cs_last_justified :: u64
  cs_finalized_count :: u64

definition checkpoint_stats :: "CheckpointManager \<Rightarrow> CheckpointStats" where
  "checkpoint_stats m =
     \<lparr>cs_total_checkpoints = of_nat (length (cm_checkpoints m)),
      cs_pending_checkpoints = of_nat (length (cm_pending m)),
      cs_last_finalized = cm_last_finalized m, cs_last_justified = cm_last_justified m,
      cs_finalized_count = of_nat (length (filter (\<lambda>c. ck_status c = Finalized) (hm_values (cm_checkpoints m))))\<rparr>"

subsection \<open>The life of a checkpoint\<close>

datatype checkpoint_op =
    KGenesis u64 h256 h256
  | KPropose u64 u64 u64 h256 h256 ValidatorSet address
  | KVote u64 CheckpointVote ValidatorSet
  | KFinalize u64 u64

fun checkpoint_step :: "ext \<Rightarrow> CheckpointManager \<Rightarrow> checkpoint_op \<Rightarrow> CheckpointManager" where
  "checkpoint_step e m (KGenesis now h r) = fst (create_genesis e now m h r)"
| "checkpoint_step e m (KPropose now height epoch bh sr vs p) =
     (case propose_checkpoint e now m height epoch bh sr vs p of Ok (m', _) \<Rightarrow> m' | Err _ \<Rightarrow> m)"
| "checkpoint_step e m (KVote height vote vs) = (case add_vote e m height vote vs of Ok (m', _) \<Rightarrow> m' | Err _ \<Rightarrow> m)"
| "checkpoint_step e m (KFinalize now height) = (case finalize_checkpoint now m height of Ok (m', _) \<Rightarrow> m' | Err _ \<Rightarrow> m)"

fun is_genesis_op :: "checkpoint_op \<Rightarrow> bool" where
  "is_genesis_op (KGenesis _ _ _) = True"
| "is_genesis_op _ = False"

definition checkpoint_ok :: "ext \<Rightarrow> u64 \<Rightarrow> Checkpoint \<Rightarrow> bool" where
  "checkpoint_ok e h c =
     (ck_height c = h \<and> hm_wf (ck_votes c)
      \<and> (\<forall>a vote. hm_get (ck_votes c) a = Some vote \<longrightarrow>
            vote_voter vote = a \<and> vote_checkpoint_hash vote = h256_bytes (Checkpoint_hash e c))
      \<and> ck_vote_power c = sum_list (map vote_voting_power (hm_values (ck_votes c)))
      \<and> (ck_status c = Justified \<or> ck_status c = Finalized \<longrightarrow> Checkpoint_has_quorum c)
      \<and> (ck_finalized_at c \<noteq> None \<longleftrightarrow> ck_status c = Finalized))"

definition checkpoint_inv :: "ext \<Rightarrow> CheckpointManager \<Rightarrow> bool" where
  "checkpoint_inv e m = (\<forall>h c. hm_get (cm_checkpoints m) h = Some c \<longrightarrow> checkpoint_ok e h c)"

lemma Checkpoint_hash_upd [simp]:
  "Checkpoint_hash e (c\<lparr>ck_status := x\<rparr>) = Checkpoint_hash e c"
  "Checkpoint_hash e (c\<lparr>ck_votes := vs\<rparr>) = Checkpoint_hash e c"
  "Checkpoint_hash e (c\<lparr>ck_vote_power := p\<rparr>) = Checkpoint_hash e c"
  "Checkpoint_hash e (c\<lparr>ck_finalized_at := t\<rparr>) = Checkpoint_hash e c"
  by (simp_all add: Checkpoint_hash_def)

lemma hm_values_insert_fresh: "\<not> hm_contains m k \<Longrightarrow> hm_values (hm_insert k v m) = hm_values m @ [v]"
  by (simp add: hm_insert_absent hm_contains_def hm_values_def)

lemma add_vote_ok: "checkpoint_ok e h c \<Longrightarrow> checkpoint_ok e h (fst (Checkpoint_add_vote e c vote))"
  by (auto simp: checkpoint_ok_def Checkpoint_add_vote_def Let_def hm_values_insert_fresh Checkpoint_has_quorum_def)

lemma finalize_ok:
  "checkpoint_ok e h c \<Longrightarrow> ck_status c = Justified \<Longrightarrow> checkpoint_ok e h (fst (Checkpoint_finalize now c))"
  by (auto simp: checkpoint_ok_def Checkpoint_finalize_def Checkpoint_has_quorum_def)

lemma new_checkpoint_ok: "checkpoint_ok e h (Checkpoint_new e now h ep bh sr ph vs p)"
  by (simp add: checkpoint_ok_def Checkpoint_new_def hm_values_def)

lemma genesis_checkpoint_ok: "checkpoint_ok e 0 (snd (create_genesis e now m h r))"
  by (simp add: create_genesis_def checkpoint_ok_def Let_def hm_values_def Checkpoint_has_quorum_def)

text \<open>What one operation does to the checkpoint at a height.\<close>

lemma step_checkpoint:
  assumes "get_checkpoint (checkpoint_step e m x) h = Some c"
  shows "get_checkpoint m h = Some c
    \<or> (h = 0 \<and> (\<exists>now g r. x = KGenesis now g r \<and> c = snd (create_genesis e now m g r)))
    \<or> (get_checkpoint m h = None \<and> (\<exists>now ep bh sr ph vs p. c = Checkpoint_new e now h ep bh sr ph vs p))
    \<or> (\<exists>c0 vote. get_checkpoint m h = Some c0 \<and> c = fst (Checkpoint_add_vote e c0 vote))
    \<or> (\<exists>c0 now. get_checkpoint m h = Some c0 \<and> ck_status c0 = Justified \<and> c = fst (Checkpoint_finalize now c0))"
proof (cases x)
  case (KGenesis now g r)
  have "cm_checkpoints (fst (create_genesis e now m g r))
      = hm_insert 0 (snd (create_genesis e now m g r)) (cm_checkpoints m)"
    by (simp add: create_genesis_def Let_def)
  then have "if h = 0 then c = snd (create_genesis e now m g r) else get_checkpoint m h = Some c"
    using assms by (auto simp: KGenesis get_checkpoint_def)
  then show ?thesis using KGenesis by (cases "h = 0") (simp only: if_True simp_thms, blast, simp)
next
  case (KPropose now height epoch bh sr vs p)
  then show ?thesis
    using assms by (auto simp: get_checkpoint_def propose_checkpoint_def hm_contains_def Let_def split: sum.splits if_splits) blast+
next
  case (KVote height vote vs)
  then show ?thesis
    using assms by (auto simp: get_checkpoint_def add_vote_def case_prod_unfold split: option.splits if_splits)
next
  case (KFinalize now height)
  then show ?thesis
    using assms by (auto simp: get_checkpoint_def finalize_checkpoint_def split: option.splits if_splits)
qed

interpretation checkpoints: machine CheckpointManager_new "checkpoint_step e" "checkpoint_inv e" for e :: ext
proof
  show "checkpoint_inv e CheckpointManager_new"
    by (simp add: checkpoint_inv_def CheckpointManager_new_def)
  show "checkpoint_inv e (checkpoint_step e m x)" if inv: "checkpoint_inv e m" for m x
    unfolding checkpoint_inv_def
  proof (intro allI impI)
    fix h c assume "hm_get (cm_checkpoints (checkpoint_step e m x)) h = Some c"
    then have "get_checkpoint (checkpoint_step e m x) h = Some c" by (simp add: get_checkpoint_def)
    moreover have "get_checkpoint m h = Some c0 \<Longrightarrow> checkpoint_ok e h c0" for c0
      using inv by (simp add: checkpoint_inv_def get_checkpoint_def)
    ultimately show "checkpoint_ok e h c"
      using step_checkpoint [of e m x h c] add_vote_ok finalize_ok new_checkpoint_ok genesis_checkpoint_ok by metis
  qed
qed

lemma step_present:
  assumes "get_checkpoint m h = Some c0"
  shows "\<exists>c. get_checkpoint (checkpoint_step e m x) h = Some c"
proof (cases x)
  case (KGenesis now g r)
  then show ?thesis using assms by (simp add: get_checkpoint_def create_genesis_def Let_def)
next
  case (KPropose now height epoch bh sr vs p)
  then show ?thesis
    using assms by (auto simp: get_checkpoint_def propose_checkpoint_def Let_def split: sum.splits)
next
  case (KVote height vote vs)
  then show ?thesis using assms by (auto simp: get_checkpoint_def add_vote_def case_prod_unfold split: option.splits)
next
  case (KFinalize now height)
  then show ?thesis using assms by (auto simp: get_checkpoint_def finalize_checkpoint_def split: option.splits)
qed

lemma step_keeps_finalized:
  assumes "get_checkpoint m h = Some c" and "ck_status c = Finalized" and "h = 0 \<longrightarrow> \<not> is_genesis_op x"
  shows "get_checkpoint (checkpoint_step e m x) h = Some c"
proof -
  obtain c' where c': "get_checkpoint (checkpoint_step e m x) h = Some c'"
    using step_present [OF assms(1)] by blast
  have "fst (Checkpoint_add_vote e c vote) = c" for vote
    using assms(2) by (simp add: Checkpoint_add_vote_def)
  then show ?thesis using step_checkpoint [OF c'] c' assms by auto
qed

lemma run_keeps_finalized:
  "get_checkpoint m h = Some c \<Longrightarrow> ck_status c = Finalized \<Longrightarrow> h = 0 \<longrightarrow> (\<forall>x \<in> set ops. \<not> is_genesis_op x) \<Longrightarrow>
   get_checkpoint (run (checkpoint_step e) m ops) h = Some c"
  by (induction ops arbitrary: m) (simp_all add: step_keeps_finalized)

subsection \<open>Properties\<close>

text \<open>
  C31. Finality of a checkpoint: in every reachable manager a justified or finalized checkpoint carries
  votes of distinct voters on its own hash whose declared powers add up (modulo 2^64) to at least its
  quorum; and a finalized checkpoint is never changed or dropped by any later operations, at height 0
  provided that \<open>create_genesis\<close> is not among them.
\<close>

theorem finalized_checkpoint_stable:
  assumes "reachable (checkpoint_step e) CheckpointManager_new m" and "get_checkpoint m h = Some c"
    and "ck_status c = Justified \<or> ck_status c = Finalized"
  shows "ck_height c = h \<and> distinct (map fst (ck_votes c))
    \<and> (\<forall>(a, vote) \<in> set (ck_votes c). vote_voter vote = a \<and> vote_checkpoint_hash vote = h256_bytes (Checkpoint_hash e c))
    \<and> ck_quorum c \<le> sum_list (map vote_voting_power (hm_values (ck_votes c)))
    \<and> (ck_status c = Finalized \<and> (h = 0 \<longrightarrow> (\<forall>x \<in> set ops. \<not> is_genesis_op x)) \<longrightarrow> get_checkpoint (run (checkpoint_step e) m ops) h = Some c)"
proof -
  have "checkpoint_inv e m" using assms(1) by (rule checkpoints.inv_reachable)
  then have ok: "checkpoint_ok e h c" using assms(2) by (simp add: checkpoint_inv_def get_checkpoint_def)
  then have "\<forall>(a, vote) \<in> set (ck_votes c). vote_voter vote = a \<and> vote_checkpoint_hash vote = h256_bytes (Checkpoint_hash e c)"
    using hm_mem_iff [of "ck_votes c"] by (auto simp: checkpoint_ok_def)
  then show ?thesis
    using ok assms(3) run_keeps_finalized [OF assms(2)]
    by (auto simp: checkpoint_ok_def hm_wf_def Checkpoint_has_quorum_def)
qed

text \<open>
  \<open>create_genesis\<close> looks at nothing: called again, it overwrites the finalized checkpoint of height 0.
\<close>

lemma genesis_overwrites_finalized:
  "get_checkpoint (checkpoint_step e m (KGenesis now g r)) 0 = Some (snd (create_genesis e now m g r))
    \<and> ck_block_hash (snd (create_genesis e now m g r)) = g
    \<and> ck_status (snd (create_genesis e now m g r)) = Finalized"
  by (simp add: get_checkpoint_def create_genesis_def Let_def)

definition example_manager :: CheckpointManager where
  "example_manager = checkpoint_step sample_ext CheckpointManager_new
     (KPropose 5 100 1 h256_zero h256_zero example_set address_zero)"

definition example_checkpoint :: Checkpoint where
  "example_checkpoint = Checkpoint_new sample_ext 5 100 1 h256_zero h256_zero h256_zero example_set address_zero"

definition example_vote :: CheckpointVote where
  "example_vote = CheckpointVote_new 6 (Address (replicate 20 2))
     (h256_bytes (Checkpoint_hash sample_ext example_checkpoint)) 401 []"

lemma example_manager_eq:
  "cm_checkpoints example_manager = [(100, example_checkpoint)]" "cm_last_finalized example_manager = 0"
  by (simp_all add: example_manager_def example_checkpoint_def propose_checkpoint_def parent_hash_def
      CHECKPOINT_INTERVAL_def CheckpointManager_new_def saturating_sub_def Let_def hm_insert_def)

lemma example_manager_reachable: "reachable (checkpoint_step sample_ext) CheckpointManager_new example_manager"
  unfolding example_manager_def by (intro reachable.step reachable.start)

lemma example_quorum: "quorum example_set = 401" "set_contains example_set (Address (replicate 20 2))"
  by (simp_all add: example_set_eq quorum_def set_contains_def)

lemma Checkpoint_new_fields [simp]:
  "ck_status (Checkpoint_new e now h ep bh sr ph vs p) = Proposed"
  "ck_votes (Checkpoint_new e now h ep bh sr ph vs p) = []"
  "ck_vote_power (Checkpoint_new e now h ep bh sr ph vs p) = 0"
  "ck_quorum (Checkpoint_new e now h ep bh sr ph vs p) = quorum vs"
  by (simp_all add: Checkpoint_new_def)

text \<open>A checkpoint at 200 on top of it, both justified by one vote each, the higher one finalized.\<close>

definition example_next :: Checkpoint where
  "example_next = Checkpoint_new sample_ext 7 200 1 h256_zero h256_zero
     (Checkpoint_hash sample_ext example_checkpoint) example_set address_zero"

definition example_next_vote :: CheckpointVote where
  "example_next_vote = CheckpointVote_new 8 (Address (replicate 20 2))
     (h256_bytes (Checkpoint_hash sample_ext example_next)) 401 []"

definition example_finalized :: CheckpointManager where
  "example_finalized = run (checkpoint_step sample_ext) example_manager
     [KPropose 7 200 1 h256_zero h256_zero example_set address_zero, KVote 100 example_vote example_set,
      KVote 200 example_next_vote example_set, KFinalize 9 200]"

lemma example_votes:
  "ck_status (fst (Checkpoint_add_vote sample_ext example_checkpoint example_vote)) = Justified"
  "ck_status (fst (Checkpoint_add_vote sample_ext example_next example_next_vote)) = Justified"
  by (simp_all add: Checkpoint_add_vote_def example_vote_def example_next_vote_def CheckpointVote_new_def Let_def
      example_checkpoint_def example_next_def example_quorum)

lemma example_finalized_eq:
  "get_checkpoint example_finalized 100 = Some (fst (Checkpoint_add_vote sample_ext example_checkpoint example_vote))"
  "cm_last_finalized example_finalized = 200"
  "get_checkpoint example_finalized 200
    = Some (fst (Checkpoint_finalize 9 (fst (Checkpoint_add_vote sample_ext example_next example_next_vote))))"
  "reachable (checkpoint_step sample_ext) CheckpointManager_new example_finalized"
proof -
  have voters: "vote_voter example_vote = Address (replicate 20 2)" "vote_voter example_next_vote = Address (replicate 20 2)"
    by (simp_all add: example_vote_def example_next_vote_def CheckpointVote_new_def)
  have p: "propose_checkpoint sample_ext 7 example_manager 200 1 h256_zero h256_zero example_set address_zero
      = Ok (example_manager\<lparr>cm_checkpoints := [(100, example_checkpoint), (200, example_next)],
          cm_by_hash := hm_insert (Checkpoint_hash sample_ext example_next) 200 (cm_by_hash example_manager),
          cm_pending := cm_pending example_manager @ [200]\<rparr>, example_next)"
    by (simp add: propose_checkpoint_def parent_hash_def CHECKPOINT_INTERVAL_def saturating_sub_def Let_def
        example_manager_eq hm_contains_def hm_get_def hm_insert_def example_next_def)
  show "get_checkpoint example_finalized 100 = Some (fst (Checkpoint_add_vote sample_ext example_checkpoint example_vote))"
    "cm_last_finalized example_finalized = 200"
    "get_checkpoint example_finalized 200
      = Some (fst (Checkpoint_finalize 9 (fst (Checkpoint_add_vote sample_ext example_next example_next_vote))))"
    by (simp_all add: example_finalized_def p add_vote_def finalize_checkpoint_def voters example_quorum case_prod_unfold
        example_votes hm_get_def hm_insert_def get_checkpoint_def)
  show "reachable (checkpoint_step sample_ext) CheckpointManager_new example_finalized"
    unfolding example_finalized_def run_simps by (intro reachable.step example_manager_reachable)
qed

text \<open>
  One validator can finalize alone: the power in a vote is what the voter writes into it, so any
  member of the validator set, whatever its stake, justifies a proposed checkpoint with a single vote
  that declares the quorum, after which the checkpoint is finalized.
\<close>

theorem one_validator_finalizes:
  assumes "set_contains vs a" and "get_checkpoint m h = Some c" and "ck_status c = Proposed"
    and "\<not> hm_contains (ck_votes c) a" and "ck_vote_power c = 0"
  shows "\<exists>m' m''. add_vote e m h
        (CheckpointVote_new now a (h256_bytes (Checkpoint_hash e c)) (ck_quorum c) []) vs = Ok (m', True)
    \<and> finalize_checkpoint now m' h = Ok (m'', CHECKPOINT_BASE_REWARD) \<and> is_finalized m'' h"
  using assms
  by (auto simp: add_vote_def get_checkpoint_def Checkpoint_add_vote_def CheckpointVote_new_def Let_def
      finalize_checkpoint_def is_finalized_def)

theorem one_validator_finalizes_witness:
  "get_voting_power example_set (Address (replicate 20 2)) = 100 \<and> quorum example_set = 401
   \<and> (\<exists>m' m''. add_vote sample_ext example_manager 100
        (CheckpointVote_new 6 (Address (replicate 20 2))
          (h256_bytes (Checkpoint_hash sample_ext example_checkpoint)) (ck_quorum example_checkpoint) [])
        example_set = Ok (m', True)
      \<and> finalize_checkpoint 6 m' 100 = Ok (m'', CHECKPOINT_BASE_REWARD) \<and> is_finalized m'' 100)"
proof -
  have "get_voting_power example_set (Address (replicate 20 2)) = 100"
    by (simp add: example_set_eq get_voting_power_def hm_get_def)
  moreover have "get_checkpoint example_manager 100 = Some example_checkpoint"
    by (simp add: get_checkpoint_def example_manager_eq hm_get_def)
  then have "\<exists>m' m''. add_vote sample_ext example_manager 100
        (CheckpointVote_new 6 (Address (replicate 20 2))
          (h256_bytes (Checkpoint_hash sample_ext example_checkpoint)) (ck_quorum example_checkpoint) [])
        example_set = Ok (m', True)
      \<and> finalize_checkpoint 6 m' 100 = Ok (m'', CHECKPOINT_BASE_REWARD) \<and> is_finalized m'' 100"
    by (intro one_validator_finalizes example_quorum) (simp_all add: example_checkpoint_def)
  ultimately show ?thesis using example_quorum(1) by simp
qed

text \<open>The finalized checkpoint at 200 stays while others are proposed, voted on and finalized, and a genesis is made.\<close>

theorem finalized_checkpoint_stable_witness:
  "\<exists>c. get_checkpoint example_finalized 200 = Some c \<and> ck_status c = Finalized
    \<and> ck_quorum c \<le> sum_list (map vote_voting_power (hm_values (ck_votes c)))
    \<and> get_checkpoint (run (checkpoint_step sample_ext) example_finalized
        [KGenesis 10 h256_zero h256_zero, KVote 200 example_vote example_set, KFinalize 11 100]) 200 = Some c"
proof -
  let ?c = "fst (Checkpoint_finalize 9 (fst (Checkpoint_add_vote sample_ext example_next example_next_vote)))"
  have "ck_status ?c = Finalized" using example_votes(2) by (simp add: Checkpoint_finalize_def)
  then show ?thesis
    using finalized_checkpoint_stable [OF example_finalized_eq(4,3), of "[KGenesis 10 h256_zero h256_zero,
        KVote 200 example_vote example_set, KFinalize 11 100]"] example_finalized_eq(3) by auto
qed

text \<open>
  Finality can move backwards: finalizing a justified checkpoint sets the last finalized height to
  it even when a higher one is already final, and blocks above it stop being final.
\<close>

theorem finality_moves_backwards:
  assumes "get_checkpoint m h = Some c" and "ck_status c = Justified"
    and "h < b" and "b \<le> cm_last_finalized m"
  shows "is_finalized m b
    \<and> (\<exists>m'. finalize_checkpoint now m h = Ok (m', CHECKPOINT_BASE_REWARD) \<and> \<not> is_finalized m' b)"
  using assms by (auto simp: finalize_checkpoint_def get_checkpoint_def is_finalized_def)

theorem finality_moves_backwards_witness:
  "is_finalized example_finalized 150
    \<and> (\<exists>m'. finalize_checkpoint 10 example_finalized 100 = Ok (m', CHECKPOINT_BASE_REWARD) \<and> \<not> is_finalized m' 150)"
  using finality_moves_backwards [OF example_finalized_eq(1) example_votes(1), of 150 10]
  by (simp add: example_finalized_eq)

end
