(* ===== verification/Slashing.thy ===== *)
theory Slashing
  imports Validators
begin

section \<open>Slashing\<close>

text \<open>
  \<open>pyrax-node/src/consensus/staking/slashing.rs\<close>: evidence of misbehaviour, what it costs a validator,
  and the tracking of missed blocks that produces downtime evidence. The clock is the argument \<open>now\<close>
  and BLAKE3 is \<open>ext_blake3\<close>, whose digest is the 32 bytes the code copies.
\<close>

datatype SlashingOffense = DoubleSign | DoubleVote | Downtime | InvalidBlock | Equivocation

definition slash_percent :: "SlashingOffense \<Rightarrow> u8" where
  "slash_percent k = (case k of
       DoubleSign \<Rightarrow> DOUBLE_SIGN_SLASH_PERCENT | DoubleVote \<Rightarrow> DOUBLE_SIGN_SLASH_PERCENT | Downtime \<Rightarrow> 0
     | InvalidBlock \<Rightarrow> 1 | Equivocation \<Rightarrow> DOUBLE_SIGN_SLASH_PERCENT)"

definition is_tombstonable :: "SlashingOffense \<Rightarrow> bool" where
  "is_tombstonable k = (k = DoubleSign \<or> k = DoubleVote \<or> k = Equivocation)"

definition jail_duration :: "SlashingOffense \<Rightarrow> u64" where
  "jail_duration k = (case k of
       DoubleSign \<Rightarrow> JAIL_DURATION_SECS * 30 | DoubleVote \<Rightarrow> JAIL_DURATION_SECS * 30
     | Downtime \<Rightarrow> JAIL_DURATION_SECS | InvalidBlock \<Rightarrow> JAIL_DURATION_SECS * 7
     | Equivocation \<Rightarrow> JAIL_DURATION_SECS * 30)"

definition offense_description :: "SlashingOffense \<Rightarrow> string" where
  "offense_description k = (case k of
       DoubleSign \<Rightarrow> ''Signed conflicting blocks at same height''
     | DoubleVote \<Rightarrow> ''Voted for conflicting checkpoints''
     | Downtime \<Rightarrow> ''Extended downtime - missed blocks''
     | InvalidBlock \<Rightarrow> ''Proposed an invalid block''
     | Equivocation \<Rightarrow> ''Sent conflicting consensus messages'')"

definition offense_to_u8 :: "SlashingOffense \<Rightarrow> u8" where
  "offense_to_u8 k = (case k of DoubleSign \<Rightarrow> 0 | DoubleVote \<Rightarrow> 1 | Downtime \<Rightarrow> 2 | InvalidBlock \<Rightarrow> 3 | Equivocation \<Rightarrow> 4)"

record SlashingEvidence =
  ev_offense :: SlashingOffense
  ev_validator :: address
  ev_height :: u64
  ev_evidence_a :: "u8 list"
  ev_evidence_b :: "u8 list"
  ev_signature_a :: "u8 list"
  ev_signature_b :: "u8 list"
  ev_submitted_at :: u64
  ev_reporter :: address

definition double_sign ::
  "u64 \<Rightarrow> address \<Rightarrow> u64 \<Rightarrow> u8 list \<Rightarrow> u8 list \<Rightarrow> u8 list \<Rightarrow> u8 list \<Rightarrow> address \<Rightarrow> SlashingEvidence" where
  "double_sign now validator height block_a block_b sig_a sig_b reporter =
     \<lparr>ev_offense = DoubleSign, ev_validator = validator, ev_height = height, ev_evidence_a = block_a,
      ev_evidence_b = block_b, ev_signature_a = sig_a, ev_signature_b = sig_b, ev_submitted_at = now,
      ev_reporter = reporter\<rparr>"

definition double_vote ::
  "u64 \<Rightarrow> address \<Rightarrow> u64 \<Rightarrow> u8 list \<Rightarrow> u8 list \<Rightarrow> u8 list \<Rightarrow> u8 list \<Rightarrow> address \<Rightarrow> SlashingEvidence" where
  "double_vote now validator height checkpoint_a checkpoint_b sig_a sig_b reporter =
     \<lparr>ev_offense = DoubleVote, ev_validator = validator, ev_height = height, ev_evidence_a = checkpoint_a,
      ev_evidence_b = checkpoint_b, ev_signature_a = sig_a, ev_signature_b = sig_b, ev_submitted_at = now,
      ev_reporter = reporter\<rparr>"

definition downtime_evidence :: "u64 \<Rightarrow> address \<Rightarrow> u64 \<Rightarrow> address \<Rightarrow> SlashingEvidence" where
  "downtime_evidence now validator start_height reporter =
     \<lparr>ev_offense = Downtime, ev_validator = validator, ev_height = start_height,
      ev_evidence_a = replicate 32 0, ev_evidence_b = replicate 32 0, ev_signature_a = [],
      ev_signature_b = [], ev_submitted_at = now, ev_reporter = reporter\<rparr>"

definition evidence_verify :: "SlashingEvidence \<Rightarrow> bool" where
  "evidence_verify ev = (case ev_offense ev of
       DoubleSign \<Rightarrow> ev_evidence_a ev \<noteq> ev_evidence_b ev
     | DoubleVote \<Rightarrow> ev_evidence_a ev \<noteq> ev_evidence_b ev
     | Downtime \<Rightarrow> True
     | InvalidBlock \<Rightarrow> ev_evidence_a ev \<noteq> replicate 32 0
     | Equivocation \<Rightarrow> ev_evidence_a ev \<noteq> replicate 32 0)"

definition evidence_preimage :: "SlashingEvidence \<Rightarrow> u8 list" where
  "evidence_preimage ev =
     [offense_to_u8 (ev_offense ev)] @ address_bytes (ev_validator ev) @ u64_to_be_bytes (ev_height ev)
     @ ev_evidence_a ev @ ev_evidence_b ev"

definition evidence_hash :: "ext \<Rightarrow> SlashingEvidence \<Rightarrow> u8 list" where
  "evidence_hash e ev = ext_blake3 e (evidence_preimage ev)"

record SlashingRecord =
  rec_evidence_hash :: "u8 list"
  rec_offense :: SlashingOffense
  rec_validator :: address
  rec_amount_slashed :: u64
  rec_jailed :: bool
  rec_tombstoned :: bool
  rec_jail_until :: "u64 option"
  rec_reporter_reward :: u64
  rec_reporter :: address
  rec_slashed_at :: u64
  rec_slashed_height :: u64

record DowntimeTracker =
  dt_consecutive_missed :: u64
  dt_window_blocks :: u64
  dt_window_missed :: u64
  dt_last_height :: u64

definition DowntimeTracker_default :: DowntimeTracker where
  "DowntimeTracker_default =
     \<lparr>dt_consecutive_missed = 0, dt_window_blocks = 0, dt_window_missed = 0, dt_last_height = 0\<rparr>"

definition dt_record_signed :: "DowntimeTracker \<Rightarrow> u64 \<Rightarrow> DowntimeTracker" where
  "dt_record_signed d height =
     d\<lparr>dt_consecutive_missed := 0, dt_last_height := height, dt_window_blocks := dt_window_blocks d + 1\<rparr>"

definition dt_record_missed :: "DowntimeTracker \<Rightarrow> u64 \<Rightarrow> DowntimeTracker" where
  "dt_record_missed d height =
     d\<lparr>dt_consecutive_missed := dt_consecutive_missed d + 1, dt_window_missed := dt_window_missed d + 1,
       dt_window_blocks := dt_window_blocks d + 1, dt_last_height := height\<rparr>"

definition should_slash :: "DowntimeTracker \<Rightarrow> u64 \<Rightarrow> u8 \<Rightarrow> bool" where
  "should_slash d max_consecutive max_window_percent =
     (max_consecutive \<le> dt_consecutive_missed d
      \<or> (100 \<le> dt_window_blocks d
        \<and> ucast max_window_percent \<le> (dt_window_missed d * 100) div dt_window_blocks d))"

definition reset_window :: "DowntimeTracker \<Rightarrow> DowntimeTracker" where
  "reset_window d = d\<lparr>dt_window_blocks := 0, dt_window_missed := 0\<rparr>"

record SlashingManager =
  sm_records :: "SlashingRecord list"
  sm_evidence_hashes :: "(u8 list, bool) hashmap"
  sm_downtime :: "(address, DowntimeTracker) hashmap"
  sm_max_consecutive_missed :: u64
  sm_max_missed_percent :: u8
  sm_downtime_window :: u64
  sm_reporter_reward_percent :: u8

definition SlashingManager_new :: SlashingManager where
  "SlashingManager_new =
     \<lparr>sm_records = [], sm_evidence_hashes = [], sm_downtime = [], sm_max_consecutive_missed = 100,
      sm_max_missed_percent = 50, sm_downtime_window = 1000, sm_reporter_reward_percent = 5\<rparr>"

datatype SlashingError = InvalidEvidence | DuplicateEvidence | EvidenceExpired | SlashingValidatorNotFound

text \<open>The amount is computed and, for every offence but downtime, taken from the self stake.\<close>

definition slash_for :: "SlashingOffense \<Rightarrow> Validator \<Rightarrow> Validator \<times> u64" where
  "slash_for k v =
     (if k = Downtime then (v, mul_div (v_self_stake v) (ucast DOWNTIME_SLASH_PERCENT_TENTHS) 1000)
      else slash v (slash_percent k))"

definition submit_evidence ::
  "ext \<Rightarrow> u64 \<Rightarrow> SlashingManager \<Rightarrow> SlashingEvidence \<Rightarrow> Validator
   \<Rightarrow> SlashingError + SlashingManager \<times> Validator \<times> SlashingRecord" where
  "submit_evidence e now m ev v =
     (if \<not> evidence_verify ev then Err InvalidEvidence
      else if hm_contains (sm_evidence_hashes m) (evidence_hash e ev) then Err DuplicateEvidence
      else let (v1, amount) = slash_for (ev_offense ev) v;
               v2 = jail now v1 (jail_duration (ev_offense ev));
               tombstoned = is_tombstonable (ev_offense ev);
               v3 = if tombstoned then tombstone v2 else v2;
               reporter_reward = mul_div amount (ucast (sm_reporter_reward_percent m)) 100;
               r = \<lparr>rec_evidence_hash = evidence_hash e ev, rec_offense = ev_offense ev,
                    rec_validator = ev_validator ev, rec_amount_slashed = amount, rec_jailed = True,
                    rec_tombstoned = tombstoned, rec_jail_until = v_jail_until v3,
                    rec_reporter_reward = reporter_reward, rec_reporter = ev_reporter ev,
                    rec_slashed_at = now, rec_slashed_height = ev_height ev\<rparr> in
        Ok (m\<lparr>sm_evidence_hashes := hm_insert (evidence_hash e ev) True (sm_evidence_hashes m),
              sm_records := sm_records m @ [r]\<rparr>, v3, r))"

definition record_block ::
  "u64 \<Rightarrow> SlashingManager \<Rightarrow> address \<Rightarrow> u64 \<Rightarrow> bool \<Rightarrow> SlashingManager \<times> SlashingEvidence option" where
  "record_block now m validator height was_signed =
     (let d0 = (case hm_get (sm_downtime m) validator of None \<Rightarrow> DowntimeTracker_default | Some d \<Rightarrow> d);
          d1 = (if was_signed then dt_record_signed d0 height else dt_record_missed d0 height) in
      if should_slash d1 (sm_max_consecutive_missed m) (sm_max_missed_percent m)
      then (m\<lparr>sm_downtime := hm_insert validator (reset_window (d1\<lparr>dt_consecutive_missed := 0\<rparr>)) (sm_downtime m)\<rparr>,
            Some (downtime_evidence now validator
              (saturating_sub height (dt_consecutive_missed d1)) address_zero))
      else (m\<lparr>sm_downtime := hm_insert validator
              (if sm_downtime_window m \<le> dt_window_blocks d1 then reset_window d1 else d1) (sm_downtime m)\<rparr>,
            None))"

definition get_records_for_validator :: "SlashingManager \<Rightarrow> address \<Rightarrow> SlashingRecord list" where
  "get_records_for_validator m a = filter (\<lambda>r. rec_validator r = a) (sm_records m)"

definition total_slashed :: "SlashingManager \<Rightarrow> u64" where
  "total_slashed m = sum_list (map rec_amount_slashed (sm_records m))"

definition get_downtime :: "SlashingManager \<Rightarrow> address \<Rightarrow> DowntimeTracker option" where
  "get_downtime m a = hm_get (sm_downtime m) a"

record SlashingStats =
  sl_total_slashing_events :: u64
  sl_total_amount_slashed :: u64
  sl_double_sign_count :: u64
  sl_downtime_count :: u64
  sl_tombstoned_count :: u64

definition slashing_stats :: "SlashingManager \<Rightarrow> SlashingStats" where
  "slashing_stats m =
     \<lparr>sl_total_slashing_events = of_nat (length (sm_records m)),
      sl_total_amount_slashed = sum_list (map rec_amount_slashed (sm_records m)),
      sl_double_sign_count = of_nat (length (filter (\<lambda>r. rec_offense r = DoubleSign) (sm_records m))),
      sl_downtime_count = of_nat (length (filter (\<lambda>r. rec_offense r = Downtime) (sm_records m))),
      sl_tombstoned_count = of_nat (length (filter rec_tombstoned (sm_records m)))\<rparr>"

subsection \<open>Accepted evidence\<close>

lemma submit_evidenceE:
  assumes "submit_evidence e now m ev v = Ok (m', v', r)"
  obtains v1 where "evidence_verify ev" and "\<not> hm_contains (sm_evidence_hashes m) (evidence_hash e ev)"
    and "slash_for (ev_offense ev) v = (v1, rec_amount_slashed r)"
    and "v' = (if is_tombstonable (ev_offense ev) then tombstone (jail now v1 (jail_duration (ev_offense ev)))
               else jail now v1 (jail_duration (ev_offense ev)))"
    and "rec_reporter_reward r = mul_div (rec_amount_slashed r) (ucast (sm_reporter_reward_percent m)) 100"
    and "sm_records m' = sm_records m @ [r]"
    and "sm_evidence_hashes m' = hm_insert (evidence_hash e ev) True (sm_evidence_hashes m)"
  using assms by (auto simp: submit_evidence_def Let_def split: if_splits prod.splits)

lemma slash_percent_le: "unat (slash_percent k) \<le> 5"
  by (cases k) (simp_all add: slash_percent_def DOUBLE_SIGN_SLASH_PERCENT_def)

lemma unat_mul_div_percent:
  "unat (mul_div a 5 100) = unat a * 5 div 100" "unat (mul_div a 1 100) = unat a div 100"
  "unat (mul_div a 1 1000) = unat a div 1000"
  using unat_mul_div_le [of 5 100 a] unat_mul_div_le [of 1 100 a] unat_mul_div_le [of 1 1000 a] by simp_all

text \<open>The share of a stake an offence costs, in thousandths.\<close>

definition penalty_permille :: "SlashingOffense \<Rightarrow> nat" where
  "penalty_permille k = (case k of DoubleSign \<Rightarrow> 50 | DoubleVote \<Rightarrow> 50 | Downtime \<Rightarrow> 1 | InvalidBlock \<Rightarrow> 10 | Equivocation \<Rightarrow> 50)"

lemma slash_for_amount: "unat (snd (slash_for k v)) = unat (v_self_stake v) * penalty_permille k div 1000"
  by (cases k) (simp_all add: slash_for_def slash_def Let_def unat_mul_div_percent penalty_permille_def slash_percent_def
      DOUBLE_SIGN_SLASH_PERCENT_def DOWNTIME_SLASH_PERCENT_TENTHS_def)

lemma slash_for_stake:
  "unat (v_self_stake (fst (slash_for k v)))
    = unat (v_self_stake v) - (if k = Downtime then 0 else unat (snd (slash_for k v)))"
  by (simp add: slash_for_def slash_def Let_def unat_saturating_sub)

subsection \<open>Downtime tracking\<close>

datatype slashing_op = SSubmit u64 SlashingEvidence Validator | SBlock u64 address u64 bool

fun slashing_step :: "ext \<Rightarrow> SlashingManager \<Rightarrow> slashing_op \<Rightarrow> SlashingManager" where
  "slashing_step e m (SSubmit now ev v) = (case submit_evidence e now m ev v of Ok (m', _) \<Rightarrow> m' | Err _ \<Rightarrow> m)"
| "slashing_step e m (SBlock now a height was_signed) = fst (record_block now m a height was_signed)"

definition tracker_ok :: "DowntimeTracker \<Rightarrow> bool" where
  "tracker_ok d =
     (unat (dt_consecutive_missed d) < 100 \<and> unat (dt_window_missed d) \<le> unat (dt_window_blocks d)
      \<and> unat (dt_window_blocks d) < 1000)"

definition slashing_inv :: "SlashingManager \<Rightarrow> bool" where
  "slashing_inv m =
     (sm_max_consecutive_missed m = 100 \<and> sm_max_missed_percent m = 50 \<and> sm_downtime_window m = 1000
      \<and> sm_reporter_reward_percent m = 5 \<and> (\<forall>a d. hm_get (sm_downtime m) a = Some d \<longrightarrow> tracker_ok d))"

definition tracker_of :: "SlashingManager \<Rightarrow> address \<Rightarrow> DowntimeTracker" where
  "tracker_of m a = (case hm_get (sm_downtime m) a of None \<Rightarrow> DowntimeTracker_default | Some d \<Rightarrow> d)"

definition tracked :: "DowntimeTracker \<Rightarrow> u64 \<Rightarrow> bool \<Rightarrow> DowntimeTracker" where
  "tracked d height was_signed = (if was_signed then dt_record_signed d height else dt_record_missed d height)"

lemma tracker_of_ok: "slashing_inv m \<Longrightarrow> tracker_ok (tracker_of m a)"
  by (auto simp: slashing_inv_def tracker_of_def tracker_ok_def DowntimeTracker_default_def split: option.split)

lemma unat_suc_small: "unat x < 1000 \<Longrightarrow> unat (x + 1 :: u64) = unat x + 1"
  by (subst unat_add_exact) simp_all

lemma tracked_counts:
  assumes "tracker_ok d"
  shows "unat (dt_consecutive_missed (tracked d height was_signed))
      = (if was_signed then 0 else unat (dt_consecutive_missed d) + 1)"
    and "unat (dt_window_blocks (tracked d height was_signed)) = unat (dt_window_blocks d) + 1"
    and "unat (dt_window_missed (tracked d height was_signed))
      = unat (dt_window_missed d) + (if was_signed then 0 else 1)"
  using assms by (auto simp: tracked_def dt_record_signed_def dt_record_missed_def tracker_ok_def unat_suc_small)

lemma record_block_eq:
  assumes "slashing_inv m"
  shows "record_block now m a height was_signed =
    (let d = tracked (tracker_of m a) height was_signed in
     if should_slash d 100 50
     then (m\<lparr>sm_downtime := hm_insert a (reset_window (d\<lparr>dt_consecutive_missed := 0\<rparr>)) (sm_downtime m)\<rparr>,
           Some (downtime_evidence now a (saturating_sub height (dt_consecutive_missed d)) address_zero))
     else (m\<lparr>sm_downtime := hm_insert a (if 1000 \<le> dt_window_blocks d then reset_window d else d) (sm_downtime m)\<rparr>,
           None))"
  using assms by (simp add: record_block_def slashing_inv_def tracker_of_def tracked_def Let_def)

lemma should_slash_exact:
  assumes "tracker_ok d"
  shows "should_slash (tracked d height was_signed) 100 50 \<longleftrightarrow>
    100 \<le> unat (dt_consecutive_missed (tracked d height was_signed))
    \<or> (100 \<le> unat (dt_window_blocks (tracked d height was_signed))
      \<and> unat (dt_window_blocks (tracked d height was_signed)) \<le> 2 * unat (dt_window_missed (tracked d height was_signed)))"
proof -
  let ?d = "tracked d height was_signed"
  have small: "unat (dt_window_missed ?d) \<le> 1000"
    using assms tracked_counts [OF assms, of height was_signed] by (auto simp: tracker_ok_def)
  then have mult: "unat (dt_window_missed ?d * 100) = unat (dt_window_missed ?d) * 100"
    by (simp add: unat_word_ariths)
  have "unat (ucast (50 :: u8) :: u64) = 50" by simp
  then have "ucast (50 :: u8) \<le> (dt_window_missed ?d * 100) div dt_window_blocks ?d
      \<longleftrightarrow> 50 \<le> unat (dt_window_missed ?d) * 100 div unat (dt_window_blocks ?d)"
    by (simp only: word_le_nat_alt unat_div mult)
  moreover have "50 \<le> x * 100 div n \<longleftrightarrow> n \<le> 2 * x" if "100 \<le> n" for x n :: nat
    using that by (subst less_eq_div_iff_mult_less_eq) auto
  ultimately show ?thesis
    by (auto simp: should_slash_def word_le_nat_alt)
qed

lemma record_block_inv:
  assumes "slashing_inv m"
  shows "slashing_inv (fst (record_block now m a height was_signed))"
proof -
  let ?d = "tracked (tracker_of m a) height was_signed"
  note ok = tracker_of_ok [OF assms, of a]
  note c = tracked_counts [OF ok, of height was_signed]
  have "tracker_ok (reset_window (?d\<lparr>dt_consecutive_missed := 0\<rparr>))"
    by (simp add: tracker_ok_def reset_window_def)
  moreover have "tracker_ok (if 1000 \<le> dt_window_blocks ?d then reset_window ?d else ?d)"
    if "\<not> should_slash ?d 100 50"
    using that ok c unfolding should_slash_exact [OF ok]
    by (auto simp: tracker_ok_def reset_window_def word_le_nat_alt)
  ultimately show ?thesis
    using assms unfolding record_block_eq [OF assms] Let_def by (auto simp: slashing_inv_def)
qed

interpretation slashing: machine SlashingManager_new "slashing_step e" slashing_inv for e :: ext
proof
  show "slashing_inv SlashingManager_new"
    by (simp add: slashing_inv_def SlashingManager_new_def)
  show "slashing_inv (slashing_step e m x)" if inv: "slashing_inv m" for m x
  proof (cases x)
    case (SSubmit now ev v)
    then show ?thesis
      using inv by (auto simp: submit_evidence_def Let_def slashing_inv_def split: sum.split prod.split if_splits)
  next
    case (SBlock now a height was_signed)
    then show ?thesis using record_block_inv [OF inv] by simp
  qed
qed

fun record_misses :: "u64 \<Rightarrow> SlashingManager \<Rightarrow> address \<Rightarrow> u64 list \<Rightarrow> SlashingEvidence option list" where
  "record_misses now m a [] = []"
| "record_misses now m a (h # hs) =
     (case record_block now m a h False of (m', r) \<Rightarrow> r # record_misses now m' a hs)"

lemma missed_without_evidence:
  assumes "slashing_inv m" and "snd (record_block now m a h False) = None"
  shows "unat (dt_consecutive_missed (tracker_of (fst (record_block now m a h False)) a))
    = unat (dt_consecutive_missed (tracker_of m a)) + 1"
  using assms(2) tracked_counts(1) [OF tracker_of_ok [OF assms(1)], of a h False]
  unfolding record_block_eq [OF assms(1)]
  by (auto simp: Let_def tracker_of_def reset_window_def split: if_splits)

lemma misses_bounded:
  "slashing_inv m \<Longrightarrow> \<forall>r \<in> set (record_misses now m a hs). r = None \<Longrightarrow>
   unat (dt_consecutive_missed (tracker_of m a)) + length hs < 100"
proof (induction hs arbitrary: m)
  case Nil
  then show ?case using tracker_of_ok [of m a] by (simp add: tracker_ok_def)
next
  case (Cons h hs)
  obtain m' r where eq: "record_block now m a h False = (m', r)" by (cases "record_block now m a h False")
  have "slashing_inv m'" using record_block_inv [OF Cons.prems(1), of now a h False] eq by simp
  then have "unat (dt_consecutive_missed (tracker_of m' a)) + length hs < 100"
    using Cons.IH Cons.prems(2) eq by simp
  then show ?case
    using missed_without_evidence [OF Cons.prems(1), of now a h] Cons.prems(2) eq by simp
qed

subsection \<open>Properties\<close>

text \<open>
  Accepted evidence: it was valid and new; the amount recorded is the offence's share of the self
  stake (5%, 1% or 0.1%) rounded down, the reporter gets a twentieth of it at most, the stake drops by
  it (for downtime it stays as it is), the validator ends jailed, or tombstoned for a conflicting
  signature, and submitting evidence with the same content again fails whichever validator is named.
\<close>

theorem evidence_slashes_once:
  assumes "slashing_inv m" and "submit_evidence e now m ev v = Ok (m', v', r)"
  shows "unat (rec_amount_slashed r) = unat (v_self_stake v) * penalty_permille (ev_offense ev) div 1000
    \<and> unat (rec_reporter_reward r) = unat (rec_amount_slashed r) * 5 div 100
    \<and> unat (v_self_stake v') = unat (v_self_stake v)
        - (if ev_offense ev = Downtime then 0 else unat (rec_amount_slashed r))
    \<and> v_status v' = (if is_tombstonable (ev_offense ev) then VTombstoned else VJailed)
    \<and> v_jail_until v' = Some (now + jail_duration (ev_offense ev))
    \<and> sm_records m' = sm_records m @ [r]
    \<and> (evidence_preimage ev' = evidence_preimage ev \<longrightarrow> \<not> is_ok (submit_evidence e now' m' ev' w))"
proof -
  obtain v1 where acc: "slash_for (ev_offense ev) v = (v1, rec_amount_slashed r)"
    and v': "v' = (if is_tombstonable (ev_offense ev) then tombstone (jail now v1 (jail_duration (ev_offense ev)))
               else jail now v1 (jail_duration (ev_offense ev)))"
    and rw: "rec_reporter_reward r = mul_div (rec_amount_slashed r) (ucast (sm_reporter_reward_percent m)) 100"
    and m': "sm_records m' = sm_records m @ [r]"
      "sm_evidence_hashes m' = hm_insert (evidence_hash e ev) True (sm_evidence_hashes m)"
    using assms(2) by (rule submit_evidenceE)
  have "unat (rec_reporter_reward r) = unat (rec_amount_slashed r) * 5 div 100"
    using assms(1) by (simp add: rw slashing_inv_def unat_mul_div_percent)
  moreover have "\<not> is_ok (submit_evidence e now' m' ev' w)" if "evidence_preimage ev' = evidence_preimage ev"
    using that by (simp add: submit_evidence_def evidence_hash_def m' hm_contains_def)
  moreover have "v_self_stake v' = v_self_stake v1" by (simp add: v' tombstone_def jail_def)
  ultimately show ?thesis
    using slash_for_amount [of "ev_offense ev" v] slash_for_stake [of "ev_offense ev" v] acc m'(1)
    by (simp add: v' tombstone_def jail_def)
qed

lemma example_power [simp]: "v_self_stake (example_validator k n) = n" "v_status (example_validator k n) = VActive"
  by (simp_all add: example_validator_def Validator_new_def)

theorem evidence_slashes_once_witness:
  "\<exists>m' v' r. submit_evidence sample_ext 50 SlashingManager_new
      (double_sign 50 address_zero 7 [1] [2] [] [] address_zero) (example_validator 1 1000) = Ok (m', v', r)
    \<and> rec_amount_slashed r = 50 \<and> v_self_stake v' = 950 \<and> v_status v' = VTombstoned"
proof -
  let ?ev = "double_sign 50 address_zero 7 [1] [2] [] [] address_zero" and ?v = "example_validator 1 1000"
  have "is_ok (submit_evidence sample_ext 50 SlashingManager_new ?ev ?v)"
    by (simp add: submit_evidence_def evidence_verify_def double_sign_def SlashingManager_new_def hm_contains_def
        case_prod_unfold Let_def)
  then obtain m' v' r where ok: "submit_evidence sample_ext 50 SlashingManager_new ?ev ?v = Ok (m', v', r)"
    by (auto elim!: is_okE)
  have "slashing_inv SlashingManager_new" by (rule slashing.inv_init)
  from evidence_slashes_once [OF this ok]
  have "unat (rec_amount_slashed r) = unat (50 :: u64)" "unat (v_self_stake v') = unat (950 :: u64)" "v_status v' = VTombstoned"
    by (simp_all add: double_sign_def penalty_permille_def is_tombstonable_def)
  then have "rec_amount_slashed r = 50" "v_self_stake v' = 950" "v_status v' = VTombstoned"
    by (metis unsigned_word_eqI)+
  then show ?thesis using ok by blast
qed

text \<open>
  Missed blocks are noticed: in every reachable manager each validator's counters stay below their
  limits (so no counter ever wraps), and of any one hundred misses in a row of one validator at least
  one produces downtime evidence.
\<close>

theorem downtime_detected:
  assumes "reachable (slashing_step e) SlashingManager_new m"
  shows "(get_downtime m a = Some d \<longrightarrow> tracker_ok d)
    \<and> (length hs = 100 \<longrightarrow> (\<exists>ev. Some ev \<in> set (record_misses now m a hs)))"
proof -
  have inv: "slashing_inv m" using assms by (rule slashing.inv_reachable)
  have "\<exists>ev. Some ev \<in> set (record_misses now m a hs)" if "length hs = 100"
  proof (rule ccontr)
    assume "\<not> (\<exists>ev. Some ev \<in> set (record_misses now m a hs))"
    then have "\<forall>r \<in> set (record_misses now m a hs). r = None" by (metis not_None_eq)
    from misses_bounded [OF inv this] that show False by simp
  qed
  then show ?thesis using inv by (simp add: slashing_inv_def get_downtime_def)
qed

theorem downtime_detected_witness:
  "\<exists>ev. Some ev \<in> set (record_misses 0 SlashingManager_new address_zero (replicate 100 0))"
  using downtime_detected [where m = SlashingManager_new and a = address_zero and hs = "replicate 100 0" and now = 0
      and e = sample_ext and d = DowntimeTracker_default, OF reachable.start] by simp

text \<open>
  A tombstone is not permanent: downtime evidence against a tombstoned validator is accepted, makes
  it an ordinary jailed one, and after a day the validator leaves jail.
\<close>

theorem tombstone_not_permanent:
  assumes "v_status v = VTombstoned" and "ev_offense ev = Downtime"
    and "\<not> hm_contains (sm_evidence_hashes m) (evidence_hash e ev)"
  shows "\<exists>m' v' r v''. submit_evidence e now m ev v = Ok (m', v', r)
    \<and> unjail (now + JAIL_DURATION_SECS) v' = Ok v'' \<and> v_status v'' = VInactive"
  using assms
  by (auto simp: submit_evidence_def evidence_verify_def slash_for_def is_tombstonable_def jail_def jail_duration_def
      unjail_def can_unjail_def Let_def)

theorem tombstone_not_permanent_witness:
  "\<exists>m' v' r v''. submit_evidence sample_ext 10 SlashingManager_new
      (downtime_evidence 10 address_zero 0 address_zero) (tombstone (example_validator 1 1000)) = Ok (m', v', r)
    \<and> unjail (10 + JAIL_DURATION_SECS) v' = Ok v'' \<and> v_status v'' = VInactive"
  by (rule tombstone_not_permanent)
    (simp_all add: tombstone_def downtime_evidence_def SlashingManager_new_def hm_contains_def)

text \<open>Swapping the two items of a double-signing proof gives fresh evidence of the same offence.\<close>

lemma swapped_evidence_fresh:
  assumes "evidence_verify ev" and "ev_offense ev = DoubleSign"
    and "length (ev_evidence_a ev) = 32" and "length (ev_evidence_b ev) = 32"
    and "ev' = ev\<lparr>ev_evidence_a := ev_evidence_b ev, ev_evidence_b := ev_evidence_a ev\<rparr>"
    and "separates e [evidence_preimage ev, evidence_preimage ev']"
  shows "evidence_verify ev' \<and> evidence_hash e ev' \<noteq> evidence_hash e ev"
proof -
  have diff: "ev_evidence_a ev \<noteq> ev_evidence_b ev"
    using assms(1,2) by (simp add: evidence_verify_def)
  then have "evidence_preimage ev' \<noteq> evidence_preimage ev"
    using assms(3,4) by (simp add: evidence_preimage_def assms(5))
  then have "h256_from_slice (evidence_hash e ev') \<noteq> h256_from_slice (evidence_hash e ev)"
    unfolding evidence_hash_def using separatesD [OF assms(6), of "evidence_preimage ev'" "evidence_preimage ev"] by auto
  then show ?thesis
    using diff assms(2) by (auto simp: evidence_verify_def assms(5))
qed

end
