(* ===== verification/Bloom_Filter.thy ===== *)
theory Bloom_Filter
  imports Chain_Types
begin

unbundle bit_operations_syntax

section \<open>Bloom filters\<close>

text \<open>
  \<open>pyrax-node/src/light_client/bloom.rs\<close>: the filter as a vector of bits, its byte form, and the
  address filter. \<open>hasher item seed\<close> is what the standard hasher returns after an item and a seed (its
  algorithm is unspecified), so it is an argument. The size and the number of hashes that
  \<open>with_fp_rate\<close> computes in floating point are arguments too. Indexing modulo a zero size panics:
  those results are \<open>None\<close>.
\<close>

type_synonym 'a hasher = "'a \<Rightarrow> nat \<Rightarrow> u64"

record BloomFilter =
  bf_bits :: "bool list"
  bf_size :: nat
  bf_hash_count :: nat

definition BloomFilter_new :: "nat \<Rightarrow> nat \<Rightarrow> BloomFilter" where
  "BloomFilter_new sz hash_count =
     \<lparr>bf_bits = replicate sz False, bf_size = sz, bf_hash_count = hash_count\<rparr>"

definition hash_index :: "'a hasher \<Rightarrow> BloomFilter \<Rightarrow> 'a \<Rightarrow> nat \<Rightarrow> nat option" where
  "hash_index hasher f item seed =
     (if bf_size f = 0 then None else Some (unat (hasher item seed) mod bf_size f))"

text \<open>\<open>bits[idx] = true\<close>, with the panic out of range.\<close>

definition write_bit :: "bool list \<Rightarrow> nat \<Rightarrow> bool list option" where
  "write_bit bits idx = (if idx < length bits then Some (bits[idx := True]) else None)"

fun bloom_add_loop :: "'a hasher \<Rightarrow> BloomFilter \<Rightarrow> 'a \<Rightarrow> nat list \<Rightarrow> BloomFilter option" where
  "bloom_add_loop hasher f item [] = Some f"
| "bloom_add_loop hasher f item (i # rest) = do {
     idx \<leftarrow> hash_index hasher f item i;
     bits \<leftarrow> write_bit (bf_bits f) idx;
     bloom_add_loop hasher (f\<lparr>bf_bits := bits\<rparr>) item rest
   }"

definition bloom_add :: "'a hasher \<Rightarrow> BloomFilter \<Rightarrow> 'a \<Rightarrow> BloomFilter option" where
  "bloom_add hasher f item = bloom_add_loop hasher f item [0 ..< bf_hash_count f]"

fun bloom_contains_loop :: "'a hasher \<Rightarrow> BloomFilter \<Rightarrow> 'a \<Rightarrow> nat list \<Rightarrow> bool option" where
  "bloom_contains_loop hasher f item [] = Some True"
| "bloom_contains_loop hasher f item (i # rest) = do {
     idx \<leftarrow> hash_index hasher f item i;
     bit \<leftarrow> nth_opt (bf_bits f) idx;
     if \<not> bit then Some False else bloom_contains_loop hasher f item rest
   }"

definition bloom_contains :: "'a hasher \<Rightarrow> BloomFilter \<Rightarrow> 'a \<Rightarrow> bool option" where
  "bloom_contains hasher f item = bloom_contains_loop hasher f item [0 ..< bf_hash_count f]"

definition bloom_clear :: "BloomFilter \<Rightarrow> BloomFilter" where
  "bloom_clear f = f\<lparr>bf_bits := replicate (length (bf_bits f)) False\<rparr>"

function chunks8 :: "'a list \<Rightarrow> 'a list list" where
  "chunks8 xs = (if xs = [] then [] else take 8 xs # chunks8 (drop 8 xs))"
  by pat_completeness auto
termination by (relation "measure length") auto

declare chunks8.simps [simp del]

definition chunk_byte :: "bool list \<Rightarrow> u8" where
  "chunk_byte chunk =
     foldl (\<lambda>byte (i, bit). if bit then byte OR push_bit i 1 else byte) 0 (List.enumerate 0 chunk)"

definition bloom_to_bytes :: "BloomFilter \<Rightarrow> u8 list" where
  "bloom_to_bytes f = map chunk_byte (chunks8 (bf_bits f))"

definition byte_bits :: "u8 \<Rightarrow> bool list" where
  "byte_bits byte = map (\<lambda>i. drop_bit i byte AND 1 = 1) [0 ..< 8]"

definition bloom_from_bytes :: "u8 list \<Rightarrow> nat \<Rightarrow> BloomFilter" where
  "bloom_from_bytes bytes hash_count =
     (let bits = concat (map byte_bits bytes)
      in \<lparr>bf_bits = bits, bf_size = length bits, bf_hash_count = hash_count\<rparr>)"

record AddressFilter =
  af_filter :: BloomFilter
  af_addresses :: "u8 list list"

definition AddressFilter_new :: "nat \<Rightarrow> nat \<Rightarrow> AddressFilter" where
  "AddressFilter_new sz hash_count = \<lparr>af_filter = BloomFilter_new sz hash_count, af_addresses = []\<rparr>"

definition add_address :: "u8 list hasher \<Rightarrow> AddressFilter \<Rightarrow> u8 list \<Rightarrow> AddressFilter option" where
  "add_address hasher a addr =
     map_option (\<lambda>f. a\<lparr>af_filter := f, af_addresses := af_addresses a @ [addr]\<rparr>)
       (bloom_add hasher (af_filter a) addr)"

definition might_contain :: "u8 list hasher \<Rightarrow> AddressFilter \<Rightarrow> u8 list \<Rightarrow> bool option" where
  "might_contain hasher a addr = bloom_contains hasher (af_filter a) addr"

definition definitely_contains :: "AddressFilter \<Rightarrow> u8 list \<Rightarrow> bool" where
  "definitely_contains a addr = (addr \<in> set (af_addresses a))"

definition get_filter_bytes :: "AddressFilter \<Rightarrow> u8 list" where
  "get_filter_bytes a = bloom_to_bytes (af_filter a)"

definition watched_count :: "AddressFilter \<Rightarrow> nat" where
  "watched_count a = length (af_addresses a)"

subsection \<open>The bits an item stands for\<close>

definition bloom_wf :: "BloomFilter \<Rightarrow> bool" where
  "bloom_wf f = (0 < bf_size f \<and> length (bf_bits f) = bf_size f)"

definition item_bits :: "'a hasher \<Rightarrow> BloomFilter \<Rightarrow> 'a \<Rightarrow> nat list" where
  "item_bits hasher f item = map (\<lambda>i. unat (hasher item i) mod bf_size f) [0 ..< bf_hash_count f]"

definition raise_bits :: "bool list \<Rightarrow> nat list \<Rightarrow> bool list" where
  "raise_bits bits is = foldl (\<lambda>bs i. bs[i := True]) bits is"

lemma raise_bits_simps [simp]:
  "raise_bits bits [] = bits" "raise_bits bits (i # is) = raise_bits (bits[i := True]) is"
  by (simp_all add: raise_bits_def)

lemma length_raise_bits [simp]: "length (raise_bits bits is) = length bits"
  by (induction "is" arbitrary: bits) simp_all

lemma nth_raise_bits:
  "j < length bits \<Longrightarrow> raise_bits bits is ! j \<longleftrightarrow> j \<in> set is \<or> bits ! j"
proof (induction "is" arbitrary: bits)
  case (Cons i "is")
  then show ?case by (cases "i = j") auto
qed simp

lemma bloom_add_loop_eq:
  "bloom_wf f \<Longrightarrow> bloom_add_loop hasher f item is
    = Some (f\<lparr>bf_bits := raise_bits (bf_bits f) (map (\<lambda>i. unat (hasher item i) mod bf_size f) is)\<rparr>)"
proof (induction "is" arbitrary: f)
  case (Cons i "is")
  let ?j = "unat (hasher item i) mod bf_size f"
  have "bloom_wf (f\<lparr>bf_bits := (bf_bits f)[?j := True]\<rparr>)"
    using Cons.prems by (simp add: bloom_wf_def)
  from Cons.IH [OF this] Cons.prems show ?case
    by (simp add: hash_index_def write_bit_def bloom_wf_def)
qed simp

lemma bloom_add_eq:
  "bloom_wf f \<Longrightarrow> bloom_add hasher f item = Some (f\<lparr>bf_bits := raise_bits (bf_bits f) (item_bits hasher f item)\<rparr>)"
  by (simp add: bloom_add_def bloom_add_loop_eq item_bits_def)

lemma bloom_contains_loop_eq:
  "bloom_wf f \<Longrightarrow> bloom_contains_loop hasher f item is
    = Some (\<forall>i \<in> set is. bf_bits f ! (unat (hasher item i) mod bf_size f))"
  by (induction "is") (auto simp: hash_index_def nth_opt_def bloom_wf_def)

lemma bloom_contains_eq:
  "bloom_wf f \<Longrightarrow> bloom_contains hasher f item = Some (\<forall>j \<in> set (item_bits hasher f item). bf_bits f ! j)"
  by (simp add: bloom_contains_def bloom_contains_loop_eq item_bits_def)

text \<open>Adding a list of items, as \<open>watch_address\<close> does one by one.\<close>

fun bloom_add_all :: "'a hasher \<Rightarrow> BloomFilter \<Rightarrow> 'a list \<Rightarrow> BloomFilter option" where
  "bloom_add_all hasher f [] = Some f"
| "bloom_add_all hasher f (x # xs) = do { f' \<leftarrow> bloom_add hasher f x; bloom_add_all hasher f' xs }"

lemma bloom_add_all_eq:
  "bloom_wf f \<Longrightarrow> bloom_add_all hasher f xs
    = Some (f\<lparr>bf_bits := raise_bits (bf_bits f) (concat (map (item_bits hasher f) xs))\<rparr>)"
proof (induction xs arbitrary: f)
  case (Cons x xs)
  let ?f = "f\<lparr>bf_bits := raise_bits (bf_bits f) (item_bits hasher f x)\<rparr>"
  have "bloom_wf ?f" using Cons.prems by (simp add: bloom_wf_def)
  moreover have "item_bits hasher ?f = item_bits hasher f" by (rule ext) (simp add: item_bits_def)
  ultimately show ?case
    using Cons.IH [of ?f] Cons.prems by (simp add: bloom_add_eq) (simp add: raise_bits_def)
qed simp

subsection \<open>The byte form\<close>

lemma chunks8_Nil [simp]: "chunks8 [] = []"
  by (subst chunks8.simps) simp

lemma bit_chunk_byte:
  assumes "length chunk \<le> 8"
  shows "bit (chunk_byte chunk) j \<longleftrightarrow> j < length chunk \<and> chunk ! j"
proof -
  have "bit (foldl (\<lambda>byte (i, b). if b then byte OR push_bit i 1 else byte) acc (List.enumerate n chunk)) j
      \<longleftrightarrow> bit acc j \<or> (n \<le> j \<and> j < n + length chunk \<and> chunk ! (j - n))"
    if "n + length chunk \<le> 8" for acc :: u8 and n
    using that
  proof (induction chunk arbitrary: acc n)
    case (Cons b chunk)
    have "bit (push_bit n 1 :: u8) j \<longleftrightarrow> j = n" for j
      using Cons.prems by (auto simp: bit_exp_iff)
    with Cons.IH [of "Suc n" "if b then acc OR push_bit n 1 else acc"] Cons.prems show ?case
      by (auto simp: bit_or_iff nth_Cons' Suc_le_eq)
  qed auto
  from this [of 0 0] assms show ?thesis by (simp add: chunk_byte_def)
qed

lemma byte_bits_chunk_byte:
  assumes "length chunk \<le> 8"
  shows "byte_bits (chunk_byte chunk) = chunk @ replicate (8 - length chunk) False"
proof (rule nth_equalityI)
  fix j assume "j < length (byte_bits (chunk_byte chunk))"
  then have j: "j < 8" by (simp add: byte_bits_def)
  have "drop_bit j b AND 1 = 1 \<longleftrightarrow> bit b j" for b :: u8
    by (simp add: and_one_eq bit_iff_odd_drop_bit mod_2_eq_odd)
  then show "byte_bits (chunk_byte chunk) ! j = (chunk @ replicate (8 - length chunk) False) ! j"
    using j assms by (simp add: byte_bits_def bit_chunk_byte nth_append)
qed (use assms in \<open>simp add: byte_bits_def\<close>)

lemma from_to_bits:
  "concat (map byte_bits (map chunk_byte (chunks8 bits))) = bits @ replicate ((8 - length bits mod 8) mod 8) False"
proof (induction bits rule: chunks8.induct)
  case (1 bits)
  show ?case
  proof (cases "length bits \<le> 8")
    case True
    then show ?thesis
    proof (cases "bits = []")
      case False
      then have "(8 - length bits mod 8) mod 8 = 8 - length bits"
        using True by (cases "length bits = 8") auto
      then show ?thesis
        using True False byte_bits_chunk_byte [OF True] by (subst chunks8.simps) simp
    qed simp
  next
    case False
    have ne: "bits \<noteq> []" using False by auto
    have "length (drop 8 bits) mod 8 = length bits mod 8" using False by (simp add: mod_if)
    moreover have "byte_bits (chunk_byte (take 8 bits)) = take 8 bits"
      using False byte_bits_chunk_byte [of "take 8 bits"] by simp
    ultimately show ?thesis
      using 1 [OF ne] ne by (subst chunks8.simps) (simp del: length_drop flip: append_assoc)
  qed
qed

lemma length_byte_bits [simp]: "length (byte_bits b) = 8"
  by (simp add: byte_bits_def)

lemma pad8_zero: "(8 - n mod 8) mod 8 = 0 \<longleftrightarrow> n mod 8 = (0 :: nat)"
proof -
  define r where "r = n mod 8"
  have "r < 8" by (simp add: r_def)
  then have "r = 0 \<or> (8 - r) mod 8 = 8 - r" by (cases "r = 0") (simp_all add: mod_less)
  then show ?thesis using \<open>r < 8\<close> unfolding r_def [symmetric] by auto
qed

subsection \<open>Properties\<close>

text \<open>
  No false negatives: a filter of positive size takes any list of items without a panic and then
  answers yes for each of them, whatever the hash function.
\<close>

theorem bloom_no_false_negatives:
  assumes "0 < sz" and "x \<in> set xs"
  shows "\<exists>f. bloom_add_all hasher (BloomFilter_new sz k) xs = Some f \<and> bloom_contains hasher f x = Some True"
proof -
  let ?f = "BloomFilter_new sz k"
  let ?g = "?f\<lparr>bf_bits := raise_bits (bf_bits ?f) (concat (map (item_bits hasher ?f) xs))\<rparr>"
  have wf: "bloom_wf ?f" "bloom_wf ?g" using assms(1) by (simp_all add: bloom_wf_def BloomFilter_new_def)
  have same: "item_bits hasher ?g x = item_bits hasher ?f x" by (simp add: item_bits_def)
  have "bf_bits ?g ! j" if "j \<in> set (item_bits hasher ?f x)" for j
  proof -
    have "j < length (bf_bits ?f)" using that assms(1) by (auto simp: item_bits_def BloomFilter_new_def)
    then show ?thesis using that assms(2) by (auto simp: nth_raise_bits)
  qed
  then show ?thesis
    by (simp add: bloom_add_all_eq [OF wf(1)] bloom_contains_eq [OF wf(2)] same)
qed

theorem bloom_no_false_negatives_witness:
  "\<exists>f. bloom_add_all (\<lambda>x i. of_nat (7 * x + i)) (BloomFilter_new 20 3) [4, 9, 11] = Some f
    \<and> bloom_contains (\<lambda>x i. of_nat (7 * x + i)) f (9::nat) = Some True"
  by (rule bloom_no_false_negatives) simp_all

text \<open>
  The byte form: decoding the bytes of a filter gives back its bits followed by zeros up to a
  multiple of eight, so the decoded filter is the filter exactly when its size is such a multiple.
\<close>

theorem bloom_bytes_round_trip:
  assumes "bloom_wf f"
  shows "bf_bits (bloom_from_bytes (bloom_to_bytes f) (bf_hash_count f))
      = bf_bits f @ replicate ((8 - bf_size f mod 8) mod 8) False
    \<and> (bloom_from_bytes (bloom_to_bytes f) (bf_hash_count f) = f \<longleftrightarrow> bf_size f mod 8 = 0)"
proof -
  let ?g = "bloom_from_bytes (bloom_to_bytes f) (bf_hash_count f)"
  have bits: "bf_bits ?g = bf_bits f @ replicate ((8 - bf_size f mod 8) mod 8) False"
    and rest: "bf_size ?g = length (bf_bits ?g)" "bf_hash_count ?g = bf_hash_count f"
    using from_to_bits [of "bf_bits f"] assms by (simp_all add: bloom_from_bytes_def bloom_to_bytes_def Let_def bloom_wf_def)
  have "?g = f \<longleftrightarrow> (8 - bf_size f mod 8) mod 8 = 0"
  proof
    assume "?g = f"
    then have "bf_bits f = bf_bits f @ replicate ((8 - bf_size f mod 8) mod 8) False" using bits by simp
    then show "(8 - bf_size f mod 8) mod 8 = 0" by simp
  next
    assume "(8 - bf_size f mod 8) mod 8 = 0"
    then have "bf_bits ?g = bf_bits f" "bf_size ?g = bf_size f"
      using bits rest assms by (simp_all add: bloom_wf_def)
    then show "?g = f" using rest(2) by (intro BloomFilter.equality) simp_all
  qed
  then show ?thesis using bits by (simp only: pad8_zero simp_thms)
qed

theorem bloom_bytes_round_trip_witness:
  "bloom_from_bytes (bloom_to_bytes (BloomFilter_new 16 3)) 3 = BloomFilter_new 16 3
   \<and> bloom_from_bytes (bloom_to_bytes (BloomFilter_new 1918 14)) 14 \<noteq> BloomFilter_new 1918 14"
  using bloom_bytes_round_trip [of "BloomFilter_new 16 3"] bloom_bytes_round_trip [of "BloomFilter_new 1918 14"]
  by (simp add: bloom_wf_def BloomFilter_new_def)

text \<open>Such a filter forgets an item on the way: the hash that lands on the first position wraps elsewhere.\<close>

lemma bloom_bytes_forget:
  assumes "0 < sz" and "sz mod 8 \<noteq> 0" and "sz < 2 ^ 64" and "0 < k"
  shows "\<exists>hasher f. bloom_add hasher (BloomFilter_new sz k) x = Some f \<and> bloom_contains hasher f x = Some True
    \<and> bloom_contains hasher (bloom_from_bytes (bloom_to_bytes f) k) x = Some False"
proof -
  let ?h = "\<lambda>(y :: 'a) (i :: nat). of_nat sz :: u64" and ?start = "BloomFilter_new sz k"
  let ?f = "?start\<lparr>bf_bits := raise_bits (bf_bits ?start) (item_bits ?h ?start x)\<rparr>"
  let ?g = "bloom_from_bytes (bloom_to_bytes ?f) k"
  define pad where "pad = (8 - sz mod 8) mod 8"
  have pad: "0 < pad" using assms(2) pad8_zero [of sz] by (simp add: pad_def)
  have h: "unat (of_nat sz :: u64) = sz" using assms(3) by (simp add: unat_of_nat_small)
  have wf: "bloom_wf ?start" "bloom_wf ?f" using assms(1) by (simp_all add: bloom_wf_def BloomFilter_new_def)
  have g: "bf_bits ?g = bf_bits ?f @ replicate pad False" "bf_size ?g = sz + pad" "bf_hash_count ?g = k"
    using from_to_bits [of "bf_bits ?f"]
    by (simp_all add: bloom_from_bytes_def bloom_to_bytes_def Let_def pad_def BloomFilter_new_def)
  have items: "set (item_bits ?h ?start x) = {0}" "set (item_bits ?h ?f x) = {0}" "set (item_bits ?h ?g x) = {sz}"
    using assms(1,4) pad g by (auto simp: item_bits_def BloomFilter_new_def h)
  have "bloom_wf ?g" using g pad by (simp add: bloom_wf_def BloomFilter_new_def)
  then have "bloom_contains ?h ?g x = Some False"
    using items(3) g pad by (simp add: bloom_contains_eq nth_append BloomFilter_new_def)
  moreover have "bloom_contains ?h ?f x = Some True"
  proof -
    have "0 < length (bf_bits ?start)" using assms(1) by (simp add: BloomFilter_new_def)
    moreover have "0 \<in> set (item_bits ?h ?start x)" unfolding items(1) by simp
    ultimately have "bf_bits ?f ! 0" by (simp add: nth_raise_bits)
    then show ?thesis unfolding bloom_contains_eq [OF wf(2)] items(2) by simp
  qed
  ultimately show ?thesis using bloom_add_eq [OF wf(1), of ?h x] by blast
qed

end
