(* ===== verification/Hash_Tree.thy ===== *)
theory Hash_Tree
  imports Rust_Prelude
begin

section \<open>Proofs along a tree of hashes\<close>

text \<open>
  Several parts of the node hash a list level by level, up to a root, and prove a position by the
  siblings on the way up. They differ in the hash and in how a level of odd length is padded. The
  interface asks for a level map, a root and a proof that follow the padded levels, and gives that the
  proof of a position leads from its entry to the root.
\<close>

definition climb_with :: "('h \<Rightarrow> 'h \<Rightarrow> 'h) \<Rightarrow> 'h \<Rightarrow> 'h \<times> bool \<Rightarrow> 'h" where
  "climb_with node current = (\<lambda>(sibling, right). if right then node sibling current else node current sibling)"

locale hash_tree =
  fixes node :: "'h \<Rightarrow> 'h \<Rightarrow> 'h" and pad :: "'h list \<Rightarrow> 'h list" and up :: "'h list \<Rightarrow> 'h list"
    and path :: "'h list \<Rightarrow> nat \<Rightarrow> ('h \<times> bool) list" and root :: "'h list \<Rightarrow> 'h"
  assumes pad_nth: "i < length level \<Longrightarrow> pad level ! i = level ! i"
    and up_length: "length (up level) = (length level + 1) div 2"
    and up_nth: "i < length (up level) \<Longrightarrow> up level ! i = node (pad level ! (2 * i)) (pad level ! (2 * i + 1))"
    and path_step: "1 < length level \<Longrightarrow> i < length level \<Longrightarrow>
      path level i = (pad level ! (if i mod 2 = 0 then i + 1 else i - 1), i mod 2 = 1) # path (up level) (i div 2)"
    and path_end: "length level = 1 \<Longrightarrow> path level i = []"
    and root_step: "1 < length level \<Longrightarrow> root level = root (up level)"
    and root_end: "length level = 1 \<Longrightarrow> root level = level ! 0"
begin

text \<open>Climbing one level from a position leads to the hash at half the position.\<close>

lemma climb_one:
  assumes "i < length level"
  shows "climb_with node (level ! i) (pad level ! (if i mod 2 = 0 then i + 1 else i - 1), i mod 2 = 1) = up level ! (i div 2)"
proof -
  have "i div 2 < length (up level)" using assms by (simp add: up_length)
  note up = up_nth [OF this]
  show ?thesis
  proof (cases "i mod 2 = 0")
    case True
    then have "2 * (i div 2) = i" by presburger
    then show ?thesis using True up pad_nth [OF assms] by (simp add: climb_with_def)
  next
    case False
    then have "2 * (i div 2) = i - 1" "2 * (i div 2) + 1 = i" "i mod 2 = 1" by presburger+
    then show ?thesis using up pad_nth [OF assms] by (simp add: climb_with_def)
  qed
qed

lemma path_leads_to_root: "i < length level \<Longrightarrow> foldl (climb_with node) (level ! i) (path level i) = root level"
proof (induction "length level" arbitrary: level i rule: less_induct)
  case less
  show ?case
  proof (cases "1 < length level")
    case True
    then have "length (up level) < length level" "i div 2 < length (up level)"
      using less.prems by (simp_all add: up_length)
    then show ?thesis
      using True less.hyps climb_one [OF less.prems] path_step [OF True less.prems]
      by (simp add: root_step del: One_nat_def)
  next
    case False
    then have "length level = 1" "i = 0" using less.prems by simp_all
    then show ?thesis by (simp add: path_end root_end)
  qed
qed

end

end
