(* ===== verification/Spv_Proofs.thy ===== *)
theory Spv_Proofs
  imports Chain_Types Hash_Tree
begin

section \<open>Merkle inclusion proofs\<close>

text \<open>
  \<open>pyrax-node/src/light_client/spv.rs\<close>: making a proof that a transaction is in a block, verifying it,
  and the root it is checked against. Hashes are byte strings of length 32 and SHA-256 is
  \<open>ext_sha256\<close>. The three loops of the code walk the same levels: a level is padded by its last hash
  to an even length and its pairs are hashed.
\<close>

record MerkleProof =
  mp_tx_index :: u64
  mp_siblings :: "u8 list list"
  mp_flags :: "bool list"

definition MerkleProof_empty :: MerkleProof where
  "MerkleProof_empty = \<lparr>mp_tx_index = 0, mp_siblings = [], mp_flags = []\<rparr>"

datatype ProofVerificationResult = ProofValid | ProofInvalid | BlockNotFound | ProofMalformed

definition hash_pair :: "ext \<Rightarrow> u8 list \<Rightarrow> u8 list \<Rightarrow> u8 list" where
  "hash_pair e left right = ext_sha256 e (left @ right)"

definition climb :: "ext \<Rightarrow> u8 list \<Rightarrow> u8 list \<times> bool \<Rightarrow> u8 list" where
  "climb e current = (\<lambda>(sibling, is_left).
     if is_left then hash_pair e sibling current else hash_pair e current sibling)"

definition verify_proof :: "ext \<Rightarrow> u8 list \<Rightarrow> u8 list \<Rightarrow> MerkleProof \<Rightarrow> ProofVerificationResult" where
  "verify_proof e tx_hash merkle_root proof =
     (if mp_siblings proof = [] then (if tx_hash = merkle_root then ProofValid else ProofInvalid)
      else if length (mp_siblings proof) \<noteq> length (mp_flags proof) then ProofMalformed
      else if foldl (climb e) tx_hash (zip (mp_siblings proof) (mp_flags proof)) = merkle_root
      then ProofValid else ProofInvalid)"

definition pad_level :: "'a list \<Rightarrow> 'a list" where
  "pad_level level = (if length level mod 2 = 1 then level @ [last level] else level)"

fun next_level :: "ext \<Rightarrow> u8 list list \<Rightarrow> u8 list list" where
  "next_level e (a # b # rest) = hash_pair e a b # next_level e rest"
| "next_level e _ = []"

lemma length_next_level [simp]: "length (next_level e level) = length level div 2"
  by (induction e level rule: next_level.induct) simp_all

lemma length_pad_level: "length (pad_level level) = 2 * ((length level + 1) div 2)"
  by (cases "even (length level)") (auto simp: pad_level_def odd_iff_mod_2_eq_one [symmetric] elim!: evenE oddE)

lemma level_shrinks: "1 < length level \<Longrightarrow> length (next_level e (pad_level level)) < length level"
  by (simp add: length_pad_level)

function proof_loop :: "ext \<Rightarrow> u8 list list \<Rightarrow> nat \<Rightarrow> u8 list list \<times> bool list" where
  "proof_loop e level idx =
     (if 1 < length level
      then let padded = pad_level level;
               sibling_idx = (if idx mod 2 = 0 then idx + 1 else idx - 1);
               (siblings, flags) = proof_loop e (next_level e padded) (idx div 2)
        in (padded ! sibling_idx # siblings, (idx mod 2 = 1) # flags)
      else ([], []))"
  by pat_completeness auto
termination by (relation "measure (\<lambda>(e, level, idx). length level)") (auto simp: length_pad_level)

declare proof_loop.simps [simp del]

definition create_proof :: "ext \<Rightarrow> u8 list list \<Rightarrow> nat \<Rightarrow> MerkleProof option" where
  "create_proof e tx_hashes tx_index =
     (if tx_hashes = [] \<or> length tx_hashes \<le> tx_index then None
      else if length tx_hashes = 1 then Some MerkleProof_empty
      else case proof_loop e tx_hashes tx_index of (siblings, flags) \<Rightarrow>
        Some \<lparr>mp_tx_index = of_nat tx_index, mp_siblings = siblings, mp_flags = flags\<rparr>)"

function root_loop :: "ext \<Rightarrow> u8 list list \<Rightarrow> u8 list list" where
  "root_loop e level = (if 1 < length level then root_loop e (next_level e (pad_level level)) else level)"
  by pat_completeness auto
termination by (relation "measure (\<lambda>(e, level). length level)") (auto simp: length_pad_level)

declare root_loop.simps [simp del]

definition compute_merkle_root :: "ext \<Rightarrow> u8 list list \<Rightarrow> u8 list" where
  "compute_merkle_root e tx_hashes =
     (if tx_hashes = [] then replicate 32 0
      else if length tx_hashes = 1 then tx_hashes ! 0
      else hd (root_loop e tx_hashes))"

subsection \<open>Proofs made by the client verify\<close>

lemma root_loop_step:
  "1 < length level \<Longrightarrow> root_loop e level = root_loop e (next_level e (pad_level level))"
  by (subst root_loop.simps) simp

lemma root_loop_single: "length level = 1 \<Longrightarrow> root_loop e level = level"
  by (subst root_loop.simps) simp

lemma compute_merkle_root_loop: "tx_hashes \<noteq> [] \<Longrightarrow> compute_merkle_root e tx_hashes = hd (root_loop e tx_hashes)"
  by (cases tx_hashes) (auto simp: compute_merkle_root_def root_loop_single)

lemma nth_next_level:
  "2 * i + 1 < length level \<Longrightarrow> next_level e level ! i = hash_pair e (level ! (2 * i)) (level ! (2 * i + 1))"
proof (induction e level arbitrary: i rule: next_level.induct)
  case (1 e a b rest)
  then show ?case by (cases i) simp_all
qed simp_all

lemma nth_pad_level: "i < length level \<Longrightarrow> pad_level level ! i = level ! i"
  by (simp add: pad_level_def nth_append)

lemma proof_loop_lengths: "length (fst (proof_loop e level idx)) = length (snd (proof_loop e level idx))"
proof (induction e level idx rule: proof_loop.induct)
  case (1 e level idx)
  then show ?case by (subst (1 2) proof_loop.simps) (simp add: Let_def case_prod_unfold)
qed

lemma climb_eq: "climb e = climb_with (hash_pair e)"
  by (simp add: climb_def climb_with_def fun_eq_iff)

text \<open>The levels of the client are an instance of the trees of hashes.\<close>

interpretation spv_tree: hash_tree "hash_pair e" pad_level "\<lambda>level. next_level e (pad_level level)"
  "\<lambda>level i. zip (fst (proof_loop e level i)) (snd (proof_loop e level i))" "\<lambda>level. hd (root_loop e level)"
  for e
proof (unfold_locales, goal_cases)
  case (3 i level)
  then show ?case by (intro nth_next_level) (simp add: length_pad_level)
next
  case (4 level i)
  then show ?case by (subst (1 2) proof_loop.simps) (simp add: Let_def case_prod_unfold)
next
  case (5 level i)
  then show ?case by (subst (1 2) proof_loop.simps) simp
next
  case (7 level)
  then show ?case by (simp add: root_loop_single hd_conv_nth flip: length_0_conv)
qed (simp_all add: nth_pad_level length_pad_level root_loop_step)

lemma proof_loop_climbs:
  "idx < length level \<Longrightarrow>
   foldl (climb e) (level ! idx) (zip (fst (proof_loop e level idx)) (snd (proof_loop e level idx)))
     = hd (root_loop e level)"
  unfolding climb_eq by (rule spv_tree.path_leads_to_root)

lemma proof_loop_nonempty: "1 < length level \<Longrightarrow> fst (proof_loop e level idx) \<noteq> []"
  by (subst proof_loop.simps) (simp add: Let_def case_prod_unfold)

subsection \<open>Verified transactions are in the block\<close>

text \<open>
  The strings hashed when the root is computed, and when a proof is checked; the assumption is that
  SHA-256 tells these apart and has digests of 32 bytes.
\<close>

fun level_inputs :: "u8 list list \<Rightarrow> u8 list list" where
  "level_inputs (a # b # rest) = (a @ b) # level_inputs rest"
| "level_inputs _ = []"

function root_inputs :: "ext \<Rightarrow> u8 list list \<Rightarrow> u8 list list" where
  "root_inputs e level =
     (if 1 < length level then level_inputs (pad_level level) @ root_inputs e (next_level e (pad_level level)) else [])"
  by pat_completeness auto
termination by (relation "measure (\<lambda>(e, level). length level)") (auto simp: length_pad_level)

declare root_inputs.simps [simp del]

fun climb_inputs :: "ext \<Rightarrow> u8 list \<Rightarrow> (u8 list \<times> bool) list \<Rightarrow> u8 list list" where
  "climb_inputs e current [] = []"
| "climb_inputs e current (s # path) =
     (if snd s then fst s @ current else current @ fst s) # climb_inputs e (climb e current s) path"

definition sha_separates :: "ext \<Rightarrow> u8 list list \<Rightarrow> bool" where
  "sha_separates e inputs =
     (\<forall>x \<in> set inputs. length (ext_sha256 e x) = 32
        \<and> (\<forall>y \<in> set inputs. ext_sha256 e x = ext_sha256 e y \<longrightarrow> x = y))"

text \<open>The number of levels above the transactions.\<close>

function tree_depth :: "nat \<Rightarrow> nat" where
  "tree_depth n = (if 1 < n then Suc (tree_depth ((n + 1) div 2)) else 0)"
  by pat_completeness auto
termination by (relation "measure id") auto

declare tree_depth.simps [simp del]

lemma sha_separates_mono: "sha_separates e inputs \<Longrightarrow> set inputs' \<subseteq> set inputs \<Longrightarrow> sha_separates e inputs'"
  by (auto simp: sha_separates_def subset_iff)

lemma next_level_member:
  "h \<in> set (next_level e level) \<Longrightarrow>
   \<exists>a b. a \<in> set level \<and> b \<in> set level \<and> h = hash_pair e a b \<and> a @ b \<in> set (level_inputs level)"
proof (induction e level rule: next_level.induct)
  case (1 e a b rest)
  then consider "h = hash_pair e a b" | "h \<in> set (next_level e rest)" by auto
  then show ?case
  proof cases
    case 1
    then show ?thesis by (intro exI [of _ a] exI [of _ b]) simp
  next
    case 2
    from "1.IH" [OF this] obtain a' b' where "a' \<in> set rest" "b' \<in> set rest" "h = hash_pair e a' b'"
      "a' @ b' \<in> set (level_inputs rest)" by blast
    then show ?thesis by (intro exI [of _ a'] exI [of _ b']) simp
  qed
qed simp_all

lemma set_pad_level: "set (pad_level level) = set level"
  by (cases level) (auto simp: pad_level_def)

lemma climb_hash: "climb e current s = ext_sha256 e (hd (climb_inputs e current [s]))"
  by (simp add: climb_def hash_pair_def case_prod_unfold)

lemma climb_sound:
  assumes "sha_separates e (root_inputs e level @ climb_inputs e current path)"
    and "length path = tree_depth (length level)" and "level \<noteq> []"
    and "\<forall>h \<in> set level. length h = 32" and "length current = 32" and "\<forall>s \<in> set path. length (fst s) = 32"
    and "foldl (climb e) current path = hd (root_loop e level)"
  shows "current \<in> set level"
  using assms
proof (induction e level arbitrary: current path rule: root_inputs.induct)
  case (1 e level)
  show ?case
  proof (cases "1 < length level")
    case True
    let ?pad = "pad_level level" and ?next = "next_level e (pad_level level)"
    obtain s rest where path: "path = s # rest"
      using "1.prems"(2) True by (subst (asm) tree_depth.simps) (auto simp: length_Suc_conv)
    have inputs: "root_inputs e level = level_inputs ?pad @ root_inputs e ?next"
      using True by (subst root_inputs.simps) simp
    have len: "length rest = tree_depth (length ?next)"
      using "1.prems"(2) True path by (subst (asm) tree_depth.simps) (simp add: length_pad_level)
    have next32: "\<forall>h \<in> set ?next. length h = 32"
    proof
      fix h assume "h \<in> set ?next"
      then obtain a b where "h = hash_pair e a b" "a @ b \<in> set (level_inputs ?pad)"
        using next_level_member by blast
      then show "length h = 32"
        using "1.prems"(1) inputs by (auto simp: sha_separates_def hash_pair_def)
    qed
    have cur: "climb e current s = ext_sha256 e (if snd s then fst s @ current else current @ fst s)"
      using climb_hash [of e current s] by simp
    then have cur32: "length (climb e current s) = 32"
      using "1.prems"(1) path by (simp add: sha_separates_def)
    have "climb e current s \<in> set ?next"
    proof (rule "1.IH" [OF True])
      show "sha_separates e (root_inputs e ?next @ climb_inputs e (climb e current s) rest)"
        using "1.prems"(1) by (rule sha_separates_mono) (auto simp: inputs path)
      show "?next \<noteq> []" using True by (simp add: length_pad_level flip: length_greater_0_conv)
      show "foldl (climb e) (climb e current s) rest = hd (root_loop e ?next)"
        using "1.prems"(7) True path by (simp add: root_loop_step)
    qed (use len next32 cur32 "1.prems"(6) path in auto)
    then obtain a b where ab: "a \<in> set ?pad" "b \<in> set ?pad" "climb e current s = hash_pair e a b"
      "a @ b \<in> set (level_inputs ?pad)"
      using next_level_member by blast
    have "(if snd s then fst s @ current else current @ fst s) = a @ b"
      using "1.prems"(1) ab(3,4) cur unfolding sha_separates_def inputs path by (auto simp: hash_pair_def)
    moreover have "length a = 32" "length b = 32"
      using ab(1,2) "1.prems"(4) by (simp_all add: set_pad_level)
    ultimately show ?thesis
      using ab(1,2) "1.prems"(5,6) path by (auto simp: set_pad_level split: if_splits)
  next
    case False
    then have "length level = 1" using "1.prems"(3) by (cases level) auto
    moreover from this have "path = []"
      using "1.prems"(2) by (subst (asm) tree_depth.simps) simp
    ultimately show ?thesis
      using "1.prems"(7) by (auto simp: root_loop_single length_Suc_conv)
  qed
qed

lemma valid_proof_member:
  assumes "txs \<noteq> []" and "\<forall>h \<in> set txs. length h = 32" and "length tx = 32"
    and "\<forall>h \<in> set (mp_siblings proof). length h = 32"
    and "length (mp_siblings proof) = tree_depth (length txs)"
    and "sha_separates e (root_inputs e txs @ climb_inputs e tx (zip (mp_siblings proof) (mp_flags proof)))"
    and "verify_proof e tx (compute_merkle_root e txs) proof = ProofValid"
  shows "tx \<in> set txs"
proof -
  let ?path = "zip (mp_siblings proof) (mp_flags proof)"
  have len: "length ?path = tree_depth (length txs)" and up: "foldl (climb e) tx ?path = hd (root_loop e txs)"
    using assms(5,7) compute_merkle_root_loop [OF assms(1), of e]
    by (auto simp: verify_proof_def split: if_splits)
  have "\<forall>s \<in> set ?path. length (fst s) = 32" using assms(4) by (auto dest: set_zip_leftD)
  from climb_sound [OF assms(6) len assms(1,2,3) this up] show ?thesis .
qed

subsection \<open>Properties\<close>

text \<open>
  Completeness: for every transaction of a block a proof can be made, and it verifies against the
  root of the block's transactions.
\<close>

theorem spv_proof_round_trip:
  assumes "i < length txs"
  shows "\<exists>proof. create_proof e txs i = Some proof
    \<and> verify_proof e (txs ! i) (compute_merkle_root e txs) proof = ProofValid"
proof (cases "length txs = 1")
  case True
  then show ?thesis using assms
    by (auto simp: create_proof_def verify_proof_def MerkleProof_empty_def compute_merkle_root_def)
next
  case False
  then have many: "1 < length txs" using assms by linarith
  have "compute_merkle_root e txs = hd (root_loop e txs)"
    using many by (intro compute_merkle_root_loop) auto
  then show ?thesis
    using many assms proof_loop_climbs [OF assms, of e] proof_loop_lengths [of e txs i] proof_loop_nonempty [OF many, of e i]
    by (auto simp: create_proof_def verify_proof_def case_prod_unfold)
qed

theorem spv_proof_round_trip_witness:
  "\<exists>proof. create_proof sample_ext [[1], [2], [3]] 2 = Some proof
    \<and> verify_proof sample_ext [3] (compute_merkle_root sample_ext [[1], [2], [3]]) proof = ProofValid"
  using spv_proof_round_trip [of 2 "[[1], [2], [3]]" sample_ext] by simp

text \<open>A block of two transactions, used by the witnesses: the proof of its second one.\<close>

lemma example_proof_valid:
  "verify_proof sample_ext (replicate 32 2) (compute_merkle_root sample_ext [replicate 32 1, replicate 32 2])
     \<lparr>mp_tx_index = 1, mp_siblings = [replicate 32 1], mp_flags = [True]\<rparr> = ProofValid"
proof -
  let ?a = "replicate 32 (1 :: u8)" and ?b = "replicate 32 (2 :: u8)"
  have root: "compute_merkle_root sample_ext [?a, ?b] = hash_pair sample_ext ?a ?b"
    using root_loop_step [of "[?a, ?b]" sample_ext] root_loop_single [of "[hash_pair sample_ext ?a ?b]" sample_ext]
    by (simp add: compute_merkle_root_def pad_level_def)
  show ?thesis unfolding root by (simp add: verify_proof_def climb_def)
qed

lemma example_depth: "tree_depth 2 = 1"
  by (subst tree_depth.simps) (simp add: tree_depth.simps [of "Suc 0"])

lemma example_proof_separates:
  "sha_separates sample_ext (root_inputs sample_ext [replicate 32 1, replicate 32 2]
     @ climb_inputs sample_ext (replicate 32 2) (zip [replicate 32 1] [True]))"
proof -
  have inputs: "root_inputs sample_ext [a, b] = [a @ b]" for a b
    by (subst root_inputs.simps) (simp add: pad_level_def root_inputs.simps [of _ "[_]"])
  show ?thesis unfolding inputs by (simp add: sha_separates_def sample_ext_def sample_digest_def)
qed

text \<open>
  Soundness: a proof of the depth of the tree that verifies against the root of a block shows that
  the transaction is one of the block, as long as SHA-256 tells apart the strings that were hashed.
\<close>

theorem spv_proof_sound:
  assumes "txs \<noteq> []" and "\<forall>h \<in> set txs. length h = 32" and "length tx = 32"
    and "\<forall>h \<in> set (mp_siblings proof). length h = 32"
    and "length (mp_siblings proof) = tree_depth (length txs)"
    and "sha_separates e (root_inputs e txs @ climb_inputs e tx (zip (mp_siblings proof) (mp_flags proof)))"
    and "verify_proof e tx (compute_merkle_root e txs) proof = ProofValid"
  shows "tx \<in> set txs"
  using assms by (rule valid_proof_member)

theorem spv_proof_sound_witness:
  "verify_proof sample_ext (replicate 32 2) (compute_merkle_root sample_ext [replicate 32 1, replicate 32 2])
      \<lparr>mp_tx_index = 1, mp_siblings = [replicate 32 1], mp_flags = [True]\<rparr> = ProofValid
    \<and> replicate 32 2 \<in> set [replicate 32 (1 :: u8), replicate 32 2]"
proof -
  have "replicate 32 2 \<in> set [replicate 32 (1 :: u8), replicate 32 2]"
    by (rule spv_proof_sound [OF _ _ _ _ _ _ example_proof_valid])
      (use example_proof_separates in \<open>simp_all add: example_depth numeral_2_eq_2 [symmetric] del: One_nat_def\<close>)
  then show ?thesis using example_proof_valid by blast
qed

text \<open>The position a proof claims is not part of what is verified.\<close>

lemma verify_ignores_index: "verify_proof e tx root (proof\<lparr>mp_tx_index := i\<rparr>) = verify_proof e tx root proof"
  by (simp add: verify_proof_def)

end
