(* ===== verification/Header_Chain.thy ===== *)
theory Header_Chain
  imports Hash_Map "HOL-Library.Monad_Syntax"
begin

section \<open>The header chain of the light client\<close>

text \<open>
  \<open>pyrax-node/src/light_client/headers.rs\<close>: headers in a vector, an index from hash to position, and a
  limit on the number kept. Positions are \<open>usize\<close> values below the length of the vector and are natural
  numbers; the height arithmetic and the locator's step are 64-bit words, since the locator loop
  doubles its step.
\<close>

record LightHeader =
  lh_height :: u64
  lh_hash :: "u8 list"
  lh_parent_hash :: "u8 list"
  lh_merkle_root :: "u8 list"
  lh_timestamp :: u64
  lh_difficulty :: u64
  lh_nonce :: u64

definition LightHeader_genesis :: LightHeader where
  "LightHeader_genesis =
     \<lparr>lh_height = 0, lh_hash = replicate 32 0, lh_parent_hash = replicate 32 0,
      lh_merkle_root = replicate 32 0, lh_timestamp = 0, lh_difficulty = 1, lh_nonce = 0\<rparr>"

record HeaderChain =
  hc_headers :: "LightHeader list"
  hc_by_hash :: "(u8 list, nat) hashmap"
  hc_max_headers :: nat
  hc_total_difficulty :: u128

definition HeaderChain_new :: "nat \<Rightarrow> HeaderChain" where
  "HeaderChain_new max_headers =
     \<lparr>hc_headers = [LightHeader_genesis], hc_by_hash = hm_insert (lh_hash LightHeader_genesis) 0 [],
      hc_max_headers = max_headers, hc_total_difficulty = 1\<rparr>"

definition hc_height :: "HeaderChain \<Rightarrow> u64" where
  "hc_height c = (if hc_headers c = [] then 0 else lh_height (last (hc_headers c)))"

definition hc_first :: "HeaderChain \<Rightarrow> LightHeader option" where
  "hc_first c = nth_opt (hc_headers c) 0"

definition index_of :: "LightHeader list \<Rightarrow> (u8 list, nat) hashmap" where
  "index_of hs = fold (\<lambda>(i, h). hm_insert (lh_hash h) i) (List.enumerate 0 hs) []"

definition prune :: "HeaderChain \<Rightarrow> HeaderChain" where
  "prune c =
     (if hc_max_headers c < length (hc_headers c)
      then let prune_count = length (hc_headers c) - hc_max_headers c;
               kept = drop prune_count (hc_headers c)
        in c\<lparr>hc_headers := kept, hc_by_hash := index_of kept\<rparr>
      else c)"

datatype HeaderError = ParentHeaderNotFound | ExpectedHeight u64 u64

definition add_header :: "HeaderChain \<Rightarrow> LightHeader \<Rightarrow> HeaderError + HeaderChain" where
  "add_header c header =
     (if hm_contains (hc_by_hash c) (lh_hash header) then Ok c
      else if \<not> hm_contains (hc_by_hash c) (lh_parent_hash header) \<and> 0 < lh_height header
      then Err ParentHeaderNotFound
      else let expected_height = hc_height c + 1 in
        if lh_height header \<noteq> expected_height \<and> 0 < lh_height header
        then Err (ExpectedHeight expected_height (lh_height header))
        else let idx = length (hc_headers c) in
          Ok (prune (c\<lparr>hc_by_hash := hm_insert (lh_hash header) idx (hc_by_hash c),
                       hc_total_difficulty := hc_total_difficulty c + ucast (lh_difficulty header),
                       hc_headers := hc_headers c @ [header]\<rparr>)))"

definition get_by_hash :: "HeaderChain \<Rightarrow> u8 list \<Rightarrow> LightHeader option" where
  "get_by_hash c h = (case hm_get (hc_by_hash c) h of None \<Rightarrow> None | Some idx \<Rightarrow> nth_opt (hc_headers c) idx)"

definition start_height :: "HeaderChain \<Rightarrow> u64" where
  "start_height c = (case hc_first c of None \<Rightarrow> 0 | Some h \<Rightarrow> lh_height h)"

definition get_at_height :: "HeaderChain \<Rightarrow> u64 \<Rightarrow> LightHeader option" where
  "get_at_height c height =
     (if height = 0 then hc_first c
      else if height < start_height c then None
      else nth_opt (hc_headers c) (unat (height - start_height c)))"

definition hc_tip :: "HeaderChain \<Rightarrow> LightHeader option" where
  "hc_tip c = (if hc_headers c = [] then None else Some (last (hc_headers c)))"

definition get_range :: "HeaderChain \<Rightarrow> u64 \<Rightarrow> nat \<Rightarrow> LightHeader list" where
  "get_range c first count =
     (if first < start_height c then []
      else take count (drop (unat (first - start_height c)) (hc_headers c)))"

definition verify_connection :: "HeaderChain \<Rightarrow> LightHeader \<Rightarrow> bool" where
  "verify_connection c header = (lh_height header = 0 \<or> hm_contains (hc_by_hash c) (lh_parent_hash header))"

text \<open>The \<open>while\<close> loop; \<open>None\<close> would be a loop that does not end.\<close>

partial_function (option) locator_loop :: "HeaderChain \<Rightarrow> u64 \<Rightarrow> u64 \<Rightarrow> u8 list list \<Rightarrow> u8 list list option" where
  "locator_loop c step height locator =
     (if height = 0 then Some locator
      else let locator' = (case get_at_height c height of None \<Rightarrow> locator | Some h \<Rightarrow> locator @ [lh_hash h]);
               step' = (if 10 \<le> length locator' then step * 2 else step) in
        if height < step' then Some locator' else locator_loop c step' (height - step') locator')"

definition get_locator :: "HeaderChain \<Rightarrow> u8 list list option" where
  "get_locator c = do {
     locator \<leftarrow> locator_loop c 1 (hc_height c) [];
     Some (case hc_first c of
         None \<Rightarrow> locator
       | Some genesis \<Rightarrow>
           if locator = [] \<or> last locator \<noteq> lh_hash genesis then locator @ [lh_hash genesis] else locator)
   }"

subsection \<open>The index is exact\<close>

definition hc_inv :: "nat \<Rightarrow> HeaderChain \<Rightarrow> bool" where
  "hc_inv n c =
     (distinct (map lh_hash (hc_headers c)) \<and> hc_max_headers c = n
      \<and> length (hc_headers c) \<le> max 1 n
      \<and> (\<forall>h i. hm_get (hc_by_hash c) h = Some i \<longleftrightarrow> i < length (hc_headers c) \<and> lh_hash (hc_headers c ! i) = h))"

lemma index_of_get:
  "distinct (map lh_hash hs) \<Longrightarrow> hm_get (index_of hs) h = Some i \<longleftrightarrow> i < length hs \<and> lh_hash (hs ! i) = h"
proof (induction hs arbitrary: i rule: rev_induct)
  case Nil
  show ?case by (simp add: index_of_def)
next
  case (snoc x hs)
  have get: "hm_get (index_of (hs @ [x])) h = (if h = lh_hash x then Some (length hs) else hm_get (index_of hs) h)"
    by (simp add: index_of_def enumerate_append_eq)
  have new: "i < length hs \<Longrightarrow> lh_hash (hs ! i) \<noteq> lh_hash x"
    using snoc.prems by (metis distinct_append disjoint_insert(1) image_eqI list.map(2) list.set(2) list.set_map map_append nth_mem)
  show ?case
    using snoc new by (auto simp: get nth_append less_Suc_eq)
qed

lemma contains_iff:
  "hc_inv n c \<Longrightarrow> hm_contains (hc_by_hash c) h \<longleftrightarrow> h \<in> lh_hash ` set (hc_headers c)"
  by (auto simp: hc_inv_def hm_contains_def in_set_conv_nth) (metis image_eqI nth_mem)+

lemma get_by_hash_iff:
  assumes "hc_inv n c"
  shows "get_by_hash c k = Some x \<longleftrightarrow> x \<in> set (hc_headers c) \<and> lh_hash x = k"
proof -
  have at: "hm_get (hc_by_hash c) h = Some i \<longleftrightarrow> i < length (hc_headers c) \<and> lh_hash (hc_headers c ! i) = h" for h i
    using assms by (simp add: hc_inv_def)
  have "get_by_hash c k = Some x \<longleftrightarrow> (\<exists>i. hm_get (hc_by_hash c) k = Some i \<and> nth_opt (hc_headers c) i = Some x)"
    by (cases "hm_get (hc_by_hash c) k") (simp_all add: get_by_hash_def)
  also have "\<dots> \<longleftrightarrow> (\<exists>i < length (hc_headers c). lh_hash (hc_headers c ! i) = k \<and> hc_headers c ! i = x)"
    unfolding at by (auto simp: nth_opt_def)
  also have "\<dots> \<longleftrightarrow> x \<in> set (hc_headers c) \<and> lh_hash x = k"
    by (auto simp: in_set_conv_nth)
  finally show ?thesis .
qed

lemma add_header_inv:
  assumes inv: "hc_inv n c" and ok: "add_header c header = Ok c'"
  shows "hc_inv n c'"
proof (cases "hm_contains (hc_by_hash c) (lh_hash header)")
  case True
  then show ?thesis using assms by (simp add: add_header_def)
next
  case False
  let ?hs = "hc_headers c @ [header]"
  let ?c1 = "c\<lparr>hc_by_hash := hm_insert (lh_hash header) (length (hc_headers c)) (hc_by_hash c),
      hc_total_difficulty := hc_total_difficulty c + ucast (lh_difficulty header), hc_headers := ?hs\<rparr>"
  have c': "c' = prune ?c1" using ok False by (auto simp: add_header_def Let_def split: if_splits)
  have fresh: "lh_hash header \<notin> lh_hash ` set (hc_headers c)" using False contains_iff [OF inv] by simp
  then have d: "distinct (map lh_hash ?hs)" using inv by (simp add: hc_inv_def)
  show ?thesis
  proof (cases "hc_max_headers c < length ?hs")
    case True
    let ?kept = "drop (length ?hs - hc_max_headers c) ?hs"
    have "distinct (map lh_hash ?kept)" using d by (metis distinct_drop drop_map)
    then show ?thesis
      using True inv index_of_get [of ?kept] by (simp add: c' prune_def hc_inv_def Let_def del: drop_append)
  next
    case small: False
    have "hm_get (hm_insert (lh_hash header) (length (hc_headers c)) (hc_by_hash c)) h = Some i
        \<longleftrightarrow> i < length ?hs \<and> lh_hash (?hs ! i) = h" for h i
      using inv fresh by (auto simp: hc_inv_def nth_append less_Suc_eq image_iff Ball_def in_set_conv_nth)
    then show ?thesis using small inv d by (simp add: c' prune_def hc_inv_def)
  qed
qed

definition header_step :: "HeaderChain \<Rightarrow> LightHeader \<Rightarrow> HeaderChain" where
  "header_step c h = (case add_header c h of Ok c' \<Rightarrow> c' | Err _ \<Rightarrow> c)"

interpretation header_chain: machine "HeaderChain_new n" header_step "hc_inv n" for n
proof
  show "hc_inv n (HeaderChain_new n)" by (auto simp: hc_inv_def HeaderChain_new_def)
  show "hc_inv n (header_step c h)" if "hc_inv n c" for c h
    using add_header_inv [OF that] that by (auto simp: header_step_def split: sum.split)
qed

subsection \<open>Heights\<close>

definition hc_sequential :: "HeaderChain \<Rightarrow> bool" where
  "hc_sequential c =
     (\<forall>i < length (hc_headers c). unat (lh_height (hc_headers c ! i)) = unat (start_height c) + i)"

lemma start_height_simps:
  "hc_headers c \<noteq> [] \<Longrightarrow> start_height c = lh_height (hd (hc_headers c))"
  "hc_headers c = [] \<Longrightarrow> start_height c = 0"
  by (simp_all add: start_height_def hc_first_def nth_opt_def hd_conv_nth)

lemma sequential_heights:
  "hc_sequential c \<longleftrightarrow> (\<forall>i < length (hc_headers c).
     unat (lh_height (hc_headers c ! i)) = unat (lh_height (hc_headers c ! 0)) + i)"
  by (cases "hc_headers c") (auto simp: hc_sequential_def start_height_def hc_first_def nth_opt_def)

lemma prune_headers: "\<exists>k. hc_headers (prune c) = drop k (hc_headers c)"
  by (auto simp: prune_def Let_def intro: exI [of _ 0])

lemma add_header_sequential:
  assumes seq: "hc_sequential c" and inv: "hc_inv n c" and pos: "lh_height header \<noteq> 0"
    and ok: "add_header c header = Ok c'"
  shows "hc_sequential c'"
proof (cases "hm_contains (hc_by_hash c) (lh_hash header)")
  case True
  then show ?thesis using assms by (simp add: add_header_def)
next
  case False
  let ?hs = "hc_headers c @ [header]"
  have succ: "lh_height header = hc_height c + 1" and parent: "hm_contains (hc_by_hash c) (lh_parent_hash header)"
    and c': "\<exists>c1. c' = prune c1 \<and> hc_headers c1 = ?hs"
    using ok False pos by (auto simp: add_header_def Let_def word_gt_0 split: if_splits)
  have ne: "hc_headers c \<noteq> []" using parent contains_iff [OF inv] by auto
  have "unat (hc_height c) = unat (lh_height (hc_headers c ! 0)) + (length (hc_headers c) - 1)"
    using seq [unfolded sequential_heights, rule_format, of "length (hc_headers c) - 1"] ne
    by (simp add: hc_height_def last_conv_nth)
  moreover have "unat (lh_height header) = unat (hc_height c) + 1"
    unfolding succ using pos succ by (intro unat_add_one) simp
  moreover have "0 < length (hc_headers c)" using ne by simp
  ultimately have "unat (lh_height header) = unat (lh_height (hc_headers c ! 0)) + length (hc_headers c)"
    by linarith
  then have all: "\<forall>i < length ?hs. unat (lh_height (?hs ! i)) = unat (lh_height (hc_headers c ! 0)) + i"
    using seq by (auto simp: sequential_heights nth_append less_Suc_eq)
  obtain k where k: "hc_headers c' = drop k ?hs" using c' prune_headers by metis
  show ?thesis
    unfolding sequential_heights k
  proof (intro allI impI)
    fix i assume "i < length (drop k ?hs)"
    then have "k + i < length ?hs" "k < length ?hs" by simp_all
    then show "unat (lh_height (drop k ?hs ! i)) = unat (lh_height (drop k ?hs ! 0)) + i"
      using all by (simp del: nth_append drop_append)
  qed
qed

lemma run_sequential:
  assumes "\<forall>h \<in> set hs. lh_height h \<noteq> 0"
  shows "hc_sequential (run header_step (HeaderChain_new n) hs)"
proof -
  have "hc_sequential (run header_step c hs)" if "hc_sequential c" "hc_inv n c" for c
    using that assms
  proof (induction hs arbitrary: c)
    case (Cons h hs)
    have "hc_sequential (header_step c h)"
      using add_header_sequential [OF Cons.prems(1,2)] Cons.prems by (auto simp: header_step_def split: sum.split)
    then show ?case using Cons header_chain.inv_step by simp
  qed simp
  then show ?thesis
    using header_chain.inv_init by (simp add: hc_sequential_def HeaderChain_new_def start_height_def hc_first_def nth_opt_def)
qed

lemma sequential_lookup:
  assumes "hc_sequential c" and "h \<noteq> 0"
  shows "get_at_height c h = Some x \<longleftrightarrow> x \<in> set (hc_headers c) \<and> lh_height x = h"
proof -
  let ?hs = "hc_headers c" and ?s = "start_height c"
  have ht: "unat (lh_height (?hs ! i)) = unat ?s + i" if "i < length ?hs" for i
    using assms(1) that by (simp add: hc_sequential_def)
  show ?thesis
  proof
    assume "get_at_height c h = Some x"
    then have "?s \<le> h" and i: "unat (h - ?s) < length ?hs" "x = ?hs ! unat (h - ?s)"
      using assms(2) by (auto simp: get_at_height_def nth_opt_def split: if_splits)
    then have "unat (lh_height x) = unat h"
      using ht [OF i(1)] by (simp add: unat_sub_exact word_le_nat_alt)
    then show "x \<in> set ?hs \<and> lh_height x = h" using i by (simp add: unsigned_word_eqI)
  next
    assume x: "x \<in> set ?hs \<and> lh_height x = h"
    then obtain i where i: "i < length ?hs" "x = ?hs ! i" by (auto simp: in_set_conv_nth)
    then have "unat h = unat ?s + i" using ht x by auto
    then have "\<not> h < ?s" "unat (h - ?s) = i" by (simp_all add: word_less_nat_alt unat_sub_exact)
    then show "get_at_height c h = Some x" using i assms(2) by (simp add: get_at_height_def nth_opt_def)
  qed
qed

subsection \<open>The locator loop ends\<close>

text \<open>
  The step doubles only after ten hashes are collected, by when the height has gone down by nine: the
  doubled steps then leave room below 2^64, so the product never wraps and the height always falls.
\<close>

definition locator_ok :: "u64 \<Rightarrow> u64 \<Rightarrow> nat \<Rightarrow> bool" where
  "locator_ok step height len =
     ((step = 1 \<and> unat height + len < 2 ^ 64)
      \<or> (1 < unat step \<and> 10 \<le> len \<and> unat height + 2 * unat step \<le> 2 ^ 64 - 8))"

lemma locator_ok_double:
  assumes "locator_ok step height len" and "height \<noteq> 0" and "len' = len \<or> len' = Suc len" and "10 \<le> len'"
  shows "unat (step * 2) = 2 * unat step"
    and "step * 2 \<le> height \<Longrightarrow> locator_ok (step * 2) (height - step * 2) len'"
proof -
  have pos: "0 < unat height" using assms(2) by (simp add: unat_gt_0)
  have small: "2 * unat step < 2 ^ 64"
    using assms(1) pos by (auto simp: locator_ok_def)
  then show d: "unat (step * 2) = 2 * unat step" by (simp add: unat_word_ariths)
  show "locator_ok (step * 2) (height - step * 2) len'" if le: "step * 2 \<le> height"
  proof -
    have h: "unat (height - step * 2) = unat height - 2 * unat step" "2 * unat step \<le> unat height"
      using le d by (simp_all add: word_le_nat_alt unat_sub_exact)
    have "unat height + 2 * unat step \<le> 2 ^ 64 - 8"
      using assms by (auto simp: locator_ok_def)
    moreover have "1 < unat (step * 2)"
      using assms(1) d by (auto simp: locator_ok_def)
    ultimately show ?thesis
      unfolding locator_ok_def using h d assms(4) by simp
  qed
qed

lemma locator_ok_keep:
  assumes "locator_ok step height len" and "len' = len \<or> len' = Suc len" and "\<not> 10 \<le> len'"
    and "step \<le> height" and "height \<noteq> 0"
  shows "locator_ok step (height - step) len'"
proof -
  have one: "step = 1" "unat height + len < 2 ^ 64" using assms(1-3) by (auto simp: locator_ok_def)
  then have "unat (height - step) = unat height - 1"
    using assms(4) by (simp add: unat_sub_exact word_le_nat_alt)
  moreover have "0 < unat height" using assms(5) by (simp add: unat_gt_0)
  ultimately show ?thesis using one assms(2) by (auto simp: locator_ok_def)
qed

definition stored_hashes :: "HeaderChain \<Rightarrow> u8 list set" where
  "stored_hashes c = lh_hash ` set (hc_headers c)"

lemma get_at_height_stored: "get_at_height c h = Some x \<Longrightarrow> lh_hash x \<in> stored_hashes c"
  by (auto simp: get_at_height_def hc_first_def nth_opt_def stored_hashes_def split: if_splits)

lemma locator_loop_returns:
  assumes "locator_ok step height (length locator)" and "set locator \<subseteq> stored_hashes c"
  shows "\<exists>l. locator_loop c step height locator = Some l \<and> set l \<subseteq> stored_hashes c"
  using assms
proof (induction "unat height" arbitrary: step height locator rule: less_induct)
  case less
  show ?case
  proof (cases "height = 0")
    case True
    then show ?thesis using less.prems by (simp add: locator_loop.simps)
  next
    case False
    define locator' where "locator' = (case get_at_height c height of None \<Rightarrow> locator | Some h \<Rightarrow> locator @ [lh_hash h])"
    define step' where "step' = (if 10 \<le> length locator' then step * 2 else step)"
    have len: "length locator' = length locator \<or> length locator' = Suc (length locator)"
      by (auto simp: locator'_def split: option.split)
    have sub: "set locator' \<subseteq> stored_hashes c"
      using less.prems(2) get_at_height_stored by (auto simp: locator'_def split: option.split)
    have loop: "locator_loop c step height locator
        = (if height < step' then Some locator' else locator_loop c step' (height - step') locator')"
      using False by (subst locator_loop.simps) (simp add: locator'_def step'_def Let_def)
    show ?thesis
    proof (cases "height < step'")
      case False
      then have le: "step' \<le> height" by simp
      have "locator_ok step' (height - step') (length locator')" and "0 < unat step'"
        using locator_ok_double [OF less.prems(1) \<open>height \<noteq> 0\<close> len] locator_ok_keep [OF less.prems(1) len] le \<open>height \<noteq> 0\<close>
          less.prems(1)
        by (auto simp: step'_def locator_ok_def split: if_splits)
      moreover from this have "unat (height - step') < unat height"
        using le \<open>height \<noteq> 0\<close> by (simp add: unat_sub_exact word_le_nat_alt unat_gt_0)
      ultimately show ?thesis using less.hyps sub loop False by simp
    qed (use loop sub in simp)
  qed
qed

subsection \<open>Properties\<close>

text \<open>
  The index and the heights: in every reachable chain at most the allowed number of headers is kept
  and looking up a hash gives exactly the stored header with it, pruned ones excluded. When no header
  claims height 0, a lookup by a positive height gives exactly the stored header of that height.
\<close>

theorem header_lookup_exact:
  assumes "c = run header_step (HeaderChain_new n) hs"
  shows "length (hc_headers c) \<le> max 1 n
    \<and> (get_by_hash c k = Some x \<longleftrightarrow> x \<in> set (hc_headers c) \<and> lh_hash x = k)
    \<and> ((\<forall>h \<in> set hs. lh_height h \<noteq> 0) \<and> height \<noteq> 0
        \<longrightarrow> (get_at_height c height = Some y \<longleftrightarrow> y \<in> set (hc_headers c) \<and> lh_height y = height))"
proof -
  have inv: "hc_inv n c" unfolding assms by (intro header_chain.inv_run header_chain.inv_init)
  have "get_by_hash c k = Some x \<longleftrightarrow> x \<in> set (hc_headers c) \<and> lh_hash x = k"
    using inv by (rule get_by_hash_iff)
  then show ?thesis
    using inv run_sequential [of hs n] sequential_lookup [of c height y] by (auto simp: hc_inv_def assms)
qed

definition example_light_header :: "u64 \<Rightarrow> u8 \<Rightarrow> u8 list \<Rightarrow> LightHeader" where
  "example_light_header height b parent =
     LightHeader_genesis\<lparr>lh_height := height, lh_hash := replicate 32 b, lh_parent_hash := parent\<rparr>"

theorem header_lookup_exact_witness:
  "get_at_height (run header_step (HeaderChain_new 5) [example_light_header 1 1 (replicate 32 0)]) 1
    = Some (example_light_header 1 1 (replicate 32 0))"
proof -
  let ?h = "example_light_header 1 1 (replicate 32 0)"
  have "hc_headers (run header_step (HeaderChain_new 5) [?h]) = [LightHeader_genesis, ?h]"
    by (simp add: header_step_def add_header_def HeaderChain_new_def LightHeader_genesis_def example_light_header_def
        hm_contains_def hc_height_def prune_def Let_def)
  then show ?thesis
    using header_lookup_exact [OF refl, of 5 "[?h]" "[]" ?h 1 ?h] by (simp add: example_light_header_def)
qed

text \<open>
  The locator loop ends: on any chain, even where doubling the 64-bit step could wrap, \<open>get_locator\<close>
  returns; all its hashes are of stored headers and it ends with the first of them.
\<close>

theorem locator_terminates:
  "\<exists>l. get_locator c = Some l \<and> set l \<subseteq> stored_hashes c
    \<and> (\<forall>g. hc_first c = Some g \<longrightarrow> l \<noteq> [] \<and> last l = lh_hash g)"
proof -
  have "locator_ok 1 (hc_height c) (length ([] :: u8 list list))"
    using unat_less_power [of "hc_height c"] by (simp add: locator_ok_def)
  then obtain l where l: "locator_loop c 1 (hc_height c) [] = Some l" "set l \<subseteq> stored_hashes c"
    using locator_loop_returns by fastforce
  have "hc_first c = Some g \<Longrightarrow> lh_hash g \<in> stored_hashes c" for g
    by (auto simp: hc_first_def nth_opt_def stored_hashes_def split: if_splits)
  then show ?thesis
    using l by (auto simp: get_locator_def split: option.split)
qed

theorem locator_terminates_witness:
  "\<exists>l. get_locator (HeaderChain_new 5) = Some l \<and> last l = replicate 32 0"
  using locator_terminates [of "HeaderChain_new 5"]
  by (auto simp: hc_first_def nth_opt_def HeaderChain_new_def LightHeader_genesis_def)

text \<open>Linkage is not checked: a header may name any stored header as its parent, and a height of 0 is always let in.\<close>

lemma parent_need_not_be_tip:
  assumes "hm_contains (hc_by_hash c) (lh_parent_hash h)" and "lh_height h = hc_height c + 1"
    and "\<not> hm_contains (hc_by_hash c) (lh_hash h)"
  shows "is_ok (add_header c h)"
  using assms by (simp add: add_header_def Let_def)

lemma zero_height_resets:
  assumes "lh_height h = 0" and "\<not> hm_contains (hc_by_hash c) (lh_hash h)" and "0 < hc_max_headers c"
  shows "\<exists>c'. add_header c h = Ok c' \<and> hc_height c' = 0"
  using assms by (simp add: add_header_def Let_def prune_def hc_height_def last_drop)

end
