(* ===== verification/Light_Client.thy ===== *)
theory Light_Client
  imports Bloom_Filter Spv_Proofs Header_Chain
begin

section \<open>The light client\<close>

text \<open>
  \<open>pyrax-node/src/light_client/mod.rs\<close>: the client that watches addresses, follows headers and checks
  inclusion proofs against them. The configured false positive rate is a floating-point number that is
  only used to size the filter, so the size and the number of hashes stand for it.
\<close>

record LightClientConfig =
  lc_max_headers :: nat
  lc_bloom_enabled :: bool
  lc_bloom_size :: nat
  lc_bloom_hashes :: nat
  lc_checkpoints :: "(u64 \<times> u8 list) list"
  lc_waku_enabled :: bool

record LightClient =
  cl_config :: LightClientConfig
  cl_headers :: HeaderChain
  cl_address_filter :: "AddressFilter option"
  cl_watched_addresses :: "u8 list list"
  cl_pending_proofs :: "(u8 list, MerkleProof) hashmap"

definition LightClient_new :: "LightClientConfig \<Rightarrow> LightClient" where
  "LightClient_new config =
     \<lparr>cl_config = config, cl_headers = HeaderChain_new (lc_max_headers config),
      cl_address_filter =
        (if lc_bloom_enabled config
         then Some (AddressFilter_new (lc_bloom_size config) (lc_bloom_hashes config)) else None),
      cl_watched_addresses = [], cl_pending_proofs = []\<rparr>"

definition watch_address :: "u8 list hasher \<Rightarrow> LightClient \<Rightarrow> u8 list \<Rightarrow> LightClient option" where
  "watch_address hasher c addr =
     (let c1 = c\<lparr>cl_watched_addresses := cl_watched_addresses c @ [addr]\<rparr> in
      case cl_address_filter c1 of
        None \<Rightarrow> Some c1
      | Some flt \<Rightarrow> map_option (\<lambda>f. c1\<lparr>cl_address_filter := Some f\<rparr>) (add_address hasher flt addr))"

definition unwatch_address :: "LightClient \<Rightarrow> u8 list \<Rightarrow> LightClient" where
  "unwatch_address c addr = c\<lparr>cl_watched_addresses := filter (\<lambda>a. a \<noteq> addr) (cl_watched_addresses c)\<rparr>"

definition sync_height :: "LightClient \<Rightarrow> u64" where
  "sync_height c = hc_height (cl_headers c)"

definition process_header :: "LightClient \<Rightarrow> LightHeader \<Rightarrow> HeaderError + LightClient" where
  "process_header c header =
     (case add_header (cl_headers c) header of Err x \<Rightarrow> Err x | Ok hs \<Rightarrow> Ok (c\<lparr>cl_headers := hs\<rparr>))"

definition verify_transaction :: "ext \<Rightarrow> LightClient \<Rightarrow> u8 list \<Rightarrow> u8 list \<Rightarrow> MerkleProof \<Rightarrow> ProofVerificationResult" where
  "verify_transaction e c tx_hash block_hash proof =
     (case get_by_hash (cl_headers c) block_hash of
        None \<Rightarrow> BlockNotFound
      | Some header \<Rightarrow> verify_proof e tx_hash (lh_merkle_root header) proof)"

definition windows20 :: "u8 list \<Rightarrow> u8 list list" where
  "windows20 data = map (\<lambda>i. take 20 (drop i data)) [0 ..< length data + 1 - 20]"

definition matches_filter :: "LightClient \<Rightarrow> u8 list \<Rightarrow> bool" where
  "matches_filter c tx_data =
     (cl_address_filter c \<noteq> None \<and> (\<exists>addr \<in> set (cl_watched_addresses c). addr \<in> set (windows20 tx_data)))"

definition get_confirmations :: "LightClient \<Rightarrow> u8 list \<Rightarrow> u64 option" where
  "get_confirmations c block_hash =
     map_option (\<lambda>h. saturating_sub (hc_height (cl_headers c)) (lh_height h)) (get_by_hash (cl_headers c) block_hash)"

fun sync_loop :: "HeaderChain \<Rightarrow> u64 \<Rightarrow> LightHeader list \<Rightarrow> HeaderChain \<times> u64" where
  "sync_loop chain added [] = (chain, added)"
| "sync_loop chain added (h # rest) =
     (case add_header chain h of Ok chain' \<Rightarrow> sync_loop chain' (added + 1) rest | Err _ \<Rightarrow> sync_loop chain added rest)"

definition sync_headers :: "LightClient \<Rightarrow> LightHeader list \<Rightarrow> LightClient \<times> u64" where
  "sync_headers c headers =
     (case sync_loop (cl_headers c) 0 headers of (hs, added) \<Rightarrow> (c\<lparr>cl_headers := hs\<rparr>, added))"

definition get_header_at :: "LightClient \<Rightarrow> u64 \<Rightarrow> LightHeader option" where
  "get_header_at c height = get_at_height (cl_headers c) height"

definition verify_checkpoint :: "LightClient \<Rightarrow> u64 \<Rightarrow> u8 list \<Rightarrow> bool" where
  "verify_checkpoint c height h = (\<exists>(k, expected) \<in> set (lc_checkpoints (cl_config c)). k = height \<and> expected = h)"

lemma sync_loop_run: "fst (sync_loop chain added hs) = run header_step chain hs"
  by (induction hs arbitrary: chain added) (auto simp: header_step_def split: sum.split)

lemma windows20_iff:
  "w \<in> set (windows20 data) \<longleftrightarrow> length w = 20 \<and> (\<exists>pre post. data = pre @ w @ post)"
proof
  assume "w \<in> set (windows20 data)"
  then obtain i where "i < length data + 1 - 20" and w: "w = take 20 (drop i data)"
    unfolding windows20_def by auto
  then have i: "i + 20 \<le> length data" "w = take 20 (drop i data)" by simp_all
  then have "data = take i data @ w @ drop 20 (drop i data)" by (metis append_take_drop_id)
  then show "length w = 20 \<and> (\<exists>pre post. data = pre @ w @ post)" using i by auto
next
  assume "length w = 20 \<and> (\<exists>pre post. data = pre @ w @ post)"
  then obtain pre post where d: "data = pre @ w @ post" "length w = 20" by blast
  then have "w = take 20 (drop (length pre) data)" "length pre < length data + 1 - 20" by simp_all
  then show "w \<in> set (windows20 data)" unfolding windows20_def by auto
qed

lemma header_step_members: "set (hc_headers (header_step c h)) \<subseteq> insert h (set (hc_headers c))"
  by (auto simp: header_step_def add_header_def prune_def Let_def split: sum.splits if_splits dest: in_set_dropD)

lemma header_run_members: "set (hc_headers (run header_step c hs)) \<subseteq> set (hc_headers c) \<union> set hs"
proof (induction hs arbitrary: c)
  case (Cons h hs)
  then show ?case using Cons.IH [of "header_step c h"] header_step_members [of c h] by auto
qed simp

lemma synced_headers:
  assumes "c = fst (sync_headers (LightClient_new config) hs)"
  shows "hc_inv (lc_max_headers config) (cl_headers c)" and "set (hc_headers (cl_headers c)) \<subseteq> insert LightHeader_genesis (set hs)"
proof -
  have run: "cl_headers c = run header_step (HeaderChain_new (lc_max_headers config)) hs"
    unfolding assms(1) using sync_loop_run [of "HeaderChain_new (lc_max_headers config)" 0 hs]
    by (simp add: sync_headers_def LightClient_new_def case_prod_unfold)
  then show "hc_inv (lc_max_headers config) (cl_headers c)"
    using header_chain.inv_run [OF header_chain.inv_init] by simp
  show "set (hc_headers (cl_headers c)) \<subseteq> insert LightHeader_genesis (set hs)"
    unfolding run using header_run_members [of "HeaderChain_new (lc_max_headers config)" hs]
    by (simp add: HeaderChain_new_def)
qed

text \<open>
  C34. What the client accepts is what the stored header commits to. After any headers were synced, a header
  found for a block hash is the genesis header or one of those synced and carries that hash. If its merkle
  root is the SHA-256 root of a list of transaction hashes, then for each of them the proof that
  \<open>create_proof\<close> makes is accepted; and a transaction hash that is accepted with a proof of the depth of their
  tree is one of them, provided that SHA-256 tells apart the strings that were hashed. That the root in the
  header is the one of the real block is not checked by the client (\<open>forged_header_verifies\<close> below).
\<close>

theorem light_client_verifies:
  assumes "c = fst (sync_headers (LightClient_new config) hs)"
    and "get_by_hash (cl_headers c) block_hash = Some h"
    and "lh_merkle_root h = compute_merkle_root e txs" and "txs \<noteq> []" and "\<forall>x \<in> set txs. length x = 32"
  shows "lh_hash h = block_hash \<and> (h = LightHeader_genesis \<or> h \<in> set hs)
    \<and> (\<forall>i < length txs. \<exists>proof. create_proof e txs i = Some proof
          \<and> verify_transaction e c (txs ! i) block_hash proof = ProofValid)
    \<and> (\<forall>tx proof. length tx = 32 \<and> (\<forall>x \<in> set (mp_siblings proof). length x = 32)
          \<and> length (mp_siblings proof) = tree_depth (length txs)
          \<and> sha_separates e (root_inputs e txs @ climb_inputs e tx (zip (mp_siblings proof) (mp_flags proof)))
          \<and> verify_transaction e c tx block_hash proof = ProofValid \<longrightarrow> tx \<in> set txs)"
proof -
  have "h \<in> set (hc_headers (cl_headers c)) \<and> lh_hash h = block_hash"
    using assms(2) get_by_hash_iff [OF synced_headers(1) [OF assms(1)]] by blast
  then have stored: "lh_hash h = block_hash \<and> (h = LightHeader_genesis \<or> h \<in> set hs)"
    using synced_headers(2) [OF assms(1)] by auto
  have verify: "verify_transaction e c tx block_hash p = verify_proof e tx (compute_merkle_root e txs) p" for tx p
    by (simp add: verify_transaction_def assms(2,3))
  have "tx \<in> set txs"
    if "length tx = 32" "\<forall>x \<in> set (mp_siblings p). length x = 32" "length (mp_siblings p) = tree_depth (length txs)"
      "sha_separates e (root_inputs e txs @ climb_inputs e tx (zip (mp_siblings p) (mp_flags p)))"
      "verify_transaction e c tx block_hash p = ProofValid" for tx p
    using that(5) unfolding verify by (rule valid_proof_member [OF assms(4,5) that(1-4)])
  moreover have "\<exists>proof. create_proof e txs i = Some proof \<and> verify_transaction e c (txs ! i) block_hash proof = ProofValid"
    if "i < length txs" for i
    using spv_proof_round_trip [OF that, of e] by (auto simp: verify)
  ultimately show ?thesis using stored by blast
qed

text \<open>
  What the client does not check: nothing ties the hash of a header to its contents and no proof of work is
  looked at, so a peer that sends the next header with a root of its choice, here the transaction hash
  itself, has any transaction accepted.
\<close>

lemma forged_header_verifies:
  assumes "hc_inv n (cl_headers c)" and "0 < n" and "hm_contains (hc_by_hash (cl_headers c)) (lh_parent_hash h)"
    and "lh_height h = hc_height (cl_headers c) + 1" and "\<not> hm_contains (hc_by_hash (cl_headers c)) (lh_hash h)"
  shows "\<exists>c'. process_header c h = Ok c' \<and> verify_transaction e c' (lh_merkle_root h) (lh_hash h) MerkleProof_empty = ProofValid"
proof -
  let ?hc = "cl_headers c"
  obtain hc' where add: "add_header ?hc h = Ok hc'" and "hc' = prune (?hc\<lparr>hc_by_hash := hm_insert (lh_hash h) (length (hc_headers ?hc)) (hc_by_hash ?hc),
      hc_total_difficulty := hc_total_difficulty ?hc + ucast (lh_difficulty h), hc_headers := hc_headers ?hc @ [h]\<rparr>)"
    using assms(3-5) by (simp add: add_header_def Let_def)
  moreover have "hc_max_headers ?hc = n" using assms(1) by (simp add: hc_inv_def)
  ultimately have "h \<in> set (hc_headers hc')" using assms(2) by (auto simp: prune_def Let_def)
  then have "get_by_hash hc' (lh_hash h) = Some h"
    using get_by_hash_iff [OF add_header_inv [OF assms(1) add]] by blast
  then show ?thesis
    by (simp add: process_header_def add verify_transaction_def verify_proof_def MerkleProof_empty_def)
qed

definition example_block_header :: LightHeader where
  "example_block_header =
     LightHeader_genesis\<lparr>lh_height := 1, lh_hash := replicate 32 1, lh_parent_hash := replicate 32 0,
       lh_merkle_root := compute_merkle_root sample_ext [replicate 32 1, replicate 32 2]\<rparr>"

definition example_light_config :: LightClientConfig where
  "example_light_config =
     \<lparr>lc_max_headers = 10, lc_bloom_enabled = False, lc_bloom_size = 8, lc_bloom_hashes = 1,
      lc_checkpoints = [], lc_waku_enabled = False\<rparr>"

theorem light_client_verifies_witness:
  "replicate 32 2 \<in> set [replicate 32 (1 :: u8), replicate 32 2]
    \<and> verify_transaction sample_ext (fst (sync_headers (LightClient_new example_light_config) [example_block_header]))
        (replicate 32 2) (replicate 32 1) \<lparr>mp_tx_index = 1, mp_siblings = [replicate 32 1], mp_flags = [True]\<rparr>
      = ProofValid"
proof -
  let ?a = "replicate 32 (1 :: u8)" and ?b = "replicate 32 (2 :: u8)"
  let ?proof = "\<lparr>mp_tx_index = 1, mp_siblings = [?a], mp_flags = [True]\<rparr>"
  let ?c = "fst (sync_headers (LightClient_new example_light_config) [example_block_header])"
  have found: "get_by_hash (cl_headers ?c) ?a = Some example_block_header"
    by (simp add: sync_headers_def LightClient_new_def example_light_config_def add_header_def
        HeaderChain_new_def LightHeader_genesis_def example_block_header_def hm_contains_def hc_height_def
        prune_def get_by_hash_def nth_opt_def Let_def)
  have valid: "verify_transaction sample_ext ?c ?b ?a ?proof = ProofValid"
    unfolding verify_transaction_def found using example_proof_valid by (simp add: example_block_header_def)
  have root: "lh_merkle_root example_block_header = compute_merkle_root sample_ext [?a, ?b]"
    by (simp add: example_block_header_def)
  have "length (mp_siblings ?proof) = tree_depth (length [?a, ?b])"
    by (simp add: example_depth numeral_2_eq_2 [symmetric] del: One_nat_def)
  moreover have "sha_separates sample_ext (root_inputs sample_ext [?a, ?b]
      @ climb_inputs sample_ext ?b (zip (mp_siblings ?proof) (mp_flags ?proof)))"
    using example_proof_separates by simp
  moreover have "length ?b = 32" "\<forall>x \<in> set (mp_siblings ?proof). length x = 32" by simp_all
  moreover have "\<forall>x \<in> set [?a, ?b]. length x = 32" by simp
  ultimately have "?b \<in> set [?a, ?b]"
    using light_client_verifies [OF refl found root] valid by blast
  then show ?thesis using valid by blast
qed

end
