(* ===== verification/Fee_Distribution.thy ===== *)
theory Fee_Distribution
  imports Hash_Map Genesis_Block
begin

section \<open>Distribution of gas fees\<close>

text \<open>
  \<open>pyrax-node/src/bridge/fee_distribution.rs\<close>: the fees of a block are split over the three streams and
  the treasury, wait in a pending account, and are paid out to the recipients of each stream in proportion
  to their weights. The state is the record \<open>FeeDistributor\<close>; each lock of the source guards one field and
  is released within the operation. The clock is an argument of the operations that read it.
\<close>

definition STREAM_A_SHARE_PERCENT :: u8 where "STREAM_A_SHARE_PERCENT = 20"
definition STREAM_B_SHARE_PERCENT :: u8 where "STREAM_B_SHARE_PERCENT = 40"
definition STREAM_C_SHARE_PERCENT :: u8 where "STREAM_C_SHARE_PERCENT = 30"

record StreamShare =
  ss_stream :: Stream
  ss_percent :: u8

definition StreamShare_stream_a :: StreamShare where
  "StreamShare_stream_a = \<lparr>ss_stream = StreamA, ss_percent = STREAM_A_SHARE_PERCENT\<rparr>"

definition StreamShare_stream_b :: StreamShare where
  "StreamShare_stream_b = \<lparr>ss_stream = StreamB, ss_percent = STREAM_B_SHARE_PERCENT\<rparr>"

definition StreamShare_stream_c :: StreamShare where
  "StreamShare_stream_c = \<lparr>ss_stream = StreamC, ss_percent = STREAM_C_SHARE_PERCENT\<rparr>"

record FeeAllocation =
  fa_block_height :: u64
  fa_block_hash :: h256
  fa_total_fees :: u64
  fa_stream_a_amount :: u64
  fa_stream_b_amount :: u64
  fa_stream_c_amount :: u64
  fa_treasury_amount :: u64
  fa_timestamp :: u64
  fa_distributed :: bool

definition FeeAllocation_new :: "u64 \<Rightarrow> u64 \<Rightarrow> h256 \<Rightarrow> u64 \<Rightarrow> FeeAllocation" where
  "FeeAllocation_new now block_height block_hash total_fees =
     (let stream_a_amount = mul_div total_fees (ucast STREAM_A_SHARE_PERCENT) 100;
          stream_b_amount = mul_div total_fees (ucast STREAM_B_SHARE_PERCENT) 100;
          stream_c_amount = mul_div total_fees (ucast STREAM_C_SHARE_PERCENT) 100;
          treasury_amount =
            saturating_sub (saturating_sub (saturating_sub total_fees stream_a_amount) stream_b_amount) stream_c_amount
      in \<lparr>fa_block_height = block_height, fa_block_hash = block_hash, fa_total_fees = total_fees,
          fa_stream_a_amount = stream_a_amount, fa_stream_b_amount = stream_b_amount,
          fa_stream_c_amount = stream_c_amount, fa_treasury_amount = treasury_amount,
          fa_timestamp = now, fa_distributed = False\<rparr>)"

fun amount_for_stream :: "FeeAllocation \<Rightarrow> Stream \<Rightarrow> u64" where
  "amount_for_stream a StreamA = fa_stream_a_amount a"
| "amount_for_stream a StreamB = fa_stream_b_amount a"
| "amount_for_stream a StreamC = fa_stream_c_amount a"

definition FeeAllocation_verify :: "FeeAllocation \<Rightarrow> bool" where
  "FeeAllocation_verify a =
     (saturating_add (saturating_add (saturating_add (fa_stream_a_amount a) (fa_stream_b_amount a))
        (fa_stream_c_amount a)) (fa_treasury_amount a) = fa_total_fees a)"

record DistributionRecord =
  dr_recipient :: address
  dr_stream :: Stream
  dr_amount :: u64
  dr_source_block :: u64
  dr_tx_hash :: "h256 option"
  dr_timestamp :: u64
  dr_claimed :: bool

record PendingFees =
  pf_stream_a :: u64
  pf_stream_b :: u64
  pf_stream_c :: u64
  pf_treasury :: u64

definition PendingFees_default :: PendingFees where
  "PendingFees_default = \<lparr>pf_stream_a = 0, pf_stream_b = 0, pf_stream_c = 0, pf_treasury = 0\<rparr>"

definition PendingFees_add :: "PendingFees \<Rightarrow> FeeAllocation \<Rightarrow> PendingFees" where
  "PendingFees_add p a =
     \<lparr>pf_stream_a = saturating_add (pf_stream_a p) (fa_stream_a_amount a),
      pf_stream_b = saturating_add (pf_stream_b p) (fa_stream_b_amount a),
      pf_stream_c = saturating_add (pf_stream_c p) (fa_stream_c_amount a),
      pf_treasury = saturating_add (pf_treasury p) (fa_treasury_amount a)\<rparr>"

definition PendingFees_total :: "PendingFees \<Rightarrow> u64" where
  "PendingFees_total p =
     saturating_add (saturating_add (saturating_add (pf_stream_a p) (pf_stream_b p)) (pf_stream_c p)) (pf_treasury p)"

fun take_stream :: "PendingFees \<Rightarrow> Stream \<Rightarrow> u64 \<times> PendingFees" where
  "take_stream p StreamA = (pf_stream_a p, p\<lparr>pf_stream_a := 0\<rparr>)"
| "take_stream p StreamB = (pf_stream_b p, p\<lparr>pf_stream_b := 0\<rparr>)"
| "take_stream p StreamC = (pf_stream_c p, p\<lparr>pf_stream_c := 0\<rparr>)"

definition take_treasury :: "PendingFees \<Rightarrow> u64 \<times> PendingFees" where
  "take_treasury p = (pf_treasury p, p\<lparr>pf_treasury := 0\<rparr>)"

record FeeDistributor =
  fd_treasury_address :: address
  fd_allocations :: "FeeAllocation list"
  fd_distributions :: "(address, DistributionRecord list) hashmap"
  fd_pending :: PendingFees
  fd_total_collected :: u64
  fd_total_distributed :: u64
  fd_stream_a_recipients :: "(address, u64) hashmap"
  fd_stream_b_recipients :: "(address, u64) hashmap"
  fd_stream_c_recipients :: "(address, u64) hashmap"
  fd_min_distribution_threshold :: u64
  fd_distribution_interval :: u64
  fd_last_distribution_block :: u64

definition FeeDistributor_new :: "address \<Rightarrow> FeeDistributor" where
  "FeeDistributor_new treasury_address =
     \<lparr>fd_treasury_address = treasury_address, fd_allocations = [], fd_distributions = [],
      fd_pending = PendingFees_default, fd_total_collected = 0, fd_total_distributed = 0,
      fd_stream_a_recipients = [], fd_stream_b_recipients = [], fd_stream_c_recipients = [],
      fd_min_distribution_threshold = 100000000, fd_distribution_interval = 100,
      fd_last_distribution_block = 0\<rparr>"

definition set_treasury :: "FeeDistributor \<Rightarrow> address \<Rightarrow> FeeDistributor" where
  "set_treasury d a = d\<lparr>fd_treasury_address := a\<rparr>"

definition collect_fees :: "u64 \<Rightarrow> FeeDistributor \<Rightarrow> u64 \<Rightarrow> h256 \<Rightarrow> u64 \<Rightarrow> FeeDistributor \<times> FeeAllocation" where
  "collect_fees now d block_height block_hash total_fees =
     (let allocation = FeeAllocation_new now block_height block_hash total_fees in
      (d\<lparr>fd_pending := PendingFees_add (fd_pending d) allocation,
         fd_allocations := fd_allocations d @ [allocation],
         fd_total_collected := fd_total_collected d + total_fees\<rparr>, allocation))"

text \<open>The \<open>match stream\<close> that selects the map of recipients.\<close>

fun stream_recipients :: "FeeDistributor \<Rightarrow> Stream \<Rightarrow> (address, u64) hashmap" where
  "stream_recipients d StreamA = fd_stream_a_recipients d"
| "stream_recipients d StreamB = fd_stream_b_recipients d"
| "stream_recipients d StreamC = fd_stream_c_recipients d"

fun set_recipients :: "FeeDistributor \<Rightarrow> Stream \<Rightarrow> (address, u64) hashmap \<Rightarrow> FeeDistributor" where
  "set_recipients d StreamA m = d\<lparr>fd_stream_a_recipients := m\<rparr>"
| "set_recipients d StreamB m = d\<lparr>fd_stream_b_recipients := m\<rparr>"
| "set_recipients d StreamC m = d\<lparr>fd_stream_c_recipients := m\<rparr>"

definition register_recipient :: "FeeDistributor \<Rightarrow> Stream \<Rightarrow> address \<Rightarrow> u64 \<Rightarrow> FeeDistributor" where
  "register_recipient d stream a w =
     (let m = stream_recipients d stream;
          current = (case hm_get m a of None \<Rightarrow> 0 | Some x \<Rightarrow> x)
      in set_recipients d stream (hm_insert a (saturating_add current w) m))"

definition update_recipient_weight :: "FeeDistributor \<Rightarrow> Stream \<Rightarrow> address \<Rightarrow> u64 \<Rightarrow> FeeDistributor" where
  "update_recipient_weight d stream a w = set_recipients d stream (hm_insert a w (stream_recipients d stream))"

definition remove_recipient :: "FeeDistributor \<Rightarrow> Stream \<Rightarrow> address \<Rightarrow> FeeDistributor" where
  "remove_recipient d stream a = set_recipients d stream (hm_remove a (stream_recipients d stream))"

definition should_distribute :: "FeeDistributor \<Rightarrow> u64 \<Rightarrow> bool" where
  "should_distribute d current_block =
     (fd_last_distribution_block d + fd_distribution_interval d \<le> current_block
      \<and> fd_min_distribution_threshold d \<le> PendingFees_total (fd_pending d))"

definition calculate_stream_distribution :: "FeeDistributor \<Rightarrow> Stream \<Rightarrow> u64 \<Rightarrow> (address \<times> u64) list" where
  "calculate_stream_distribution d stream amount =
     (let m = stream_recipients d stream; total_weight = sum_list (hm_values m) in
      if total_weight = 0 \<or> m = [] then []
      else filter (\<lambda>(_, share). 0 < share)
             (map (\<lambda>(addr, w). (addr, mul_div amount (ucast w) (ucast total_weight))) m))"

definition record_distribution :: "u64 \<Rightarrow> FeeDistributor \<Rightarrow> address \<Rightarrow> Stream \<Rightarrow> u64 \<Rightarrow> u64 \<Rightarrow> FeeDistributor" where
  "record_distribution now d recipient stream amount source_block =
     (let rec = \<lparr>dr_recipient = recipient, dr_stream = stream, dr_amount = amount,
            dr_source_block = source_block, dr_tx_hash = None, dr_timestamp = now, dr_claimed = False\<rparr>;
          old = (case hm_get (fd_distributions d) recipient of None \<Rightarrow> [] | Some rs \<Rightarrow> rs)
      in d\<lparr>fd_distributions := hm_insert recipient (old @ [rec]) (fd_distributions d)\<rparr>)"

text \<open>The loop over the recipients of a stream: the amount and the number of payments so far.\<close>

fun pay_loop :: "u64 \<Rightarrow> u64 \<Rightarrow> Stream \<Rightarrow> FeeDistributor \<Rightarrow> u64 \<Rightarrow> u64 \<Rightarrow> (address \<times> u64) list \<Rightarrow> FeeDistributor \<times> u64 \<times> u64" where
  "pay_loop now block stream d paid n [] = (d, paid, n)"
| "pay_loop now block stream d paid n ((addr, amount) # rest) =
     pay_loop now block stream (record_distribution now d addr stream amount block) (paid + amount) (n + 1) rest"

definition distribute_stream :: "u64 \<Rightarrow> u64 \<Rightarrow> FeeDistributor \<Rightarrow> Stream \<Rightarrow> FeeDistributor \<times> u64 \<times> u64" where
  "distribute_stream now block d stream =
     (case take_stream (fd_pending d) stream of (amount, pending) \<Rightarrow>
        let d1 = d\<lparr>fd_pending := pending\<rparr> in
        if 0 < amount
        then pay_loop now block stream d1 0 0 (calculate_stream_distribution d1 stream amount)
        else (d1, 0, 0))"

record DistributionResult =
  ds_stream_a_distributed :: u64
  ds_stream_a_recipients :: u64
  ds_stream_b_distributed :: u64
  ds_stream_b_recipients :: u64
  ds_stream_c_distributed :: u64
  ds_stream_c_recipients :: u64
  ds_treasury_distributed :: u64
  ds_total_distributed :: u64

definition DistributionResult_default :: DistributionResult where
  "DistributionResult_default =
     \<lparr>ds_stream_a_distributed = 0, ds_stream_a_recipients = 0, ds_stream_b_distributed = 0,
      ds_stream_b_recipients = 0, ds_stream_c_distributed = 0, ds_stream_c_recipients = 0,
      ds_treasury_distributed = 0, ds_total_distributed = 0\<rparr>"

definition distribute_treasury :: "u64 \<Rightarrow> u64 \<Rightarrow> FeeDistributor \<Rightarrow> FeeDistributor \<times> u64" where
  "distribute_treasury now block d =
     (case take_treasury (fd_pending d) of (amount, pending) \<Rightarrow>
        let d1 = d\<lparr>fd_pending := pending\<rparr> in
        if 0 < amount then (record_distribution now d1 (fd_treasury_address d1) StreamA amount block, amount)
        else (d1, 0))"

definition distribute :: "u64 \<Rightarrow> FeeDistributor \<Rightarrow> u64 \<Rightarrow> FeeDistributor \<times> DistributionResult" where
  "distribute now d current_block =
     (if \<not> should_distribute d current_block then (d, DistributionResult_default)
      else case distribute_stream now current_block d StreamA of (da, a, na) \<Rightarrow>
           case distribute_stream now current_block da StreamB of (db, b, nb) \<Rightarrow>
           case distribute_stream now current_block db StreamC of (dc, c, nc) \<Rightarrow>
           case distribute_treasury now current_block dc of (dt, t) \<Rightarrow>
             (dt\<lparr>fd_total_distributed := fd_total_distributed dt + (a + b + c + t),
                 fd_last_distribution_block := current_block\<rparr>,
              \<lparr>ds_stream_a_distributed = a, ds_stream_a_recipients = na, ds_stream_b_distributed = b,
               ds_stream_b_recipients = nb, ds_stream_c_distributed = c, ds_stream_c_recipients = nc,
               ds_treasury_distributed = t, ds_total_distributed = a + b + c + t\<rparr>))"

definition get_pending_distributions :: "FeeDistributor \<Rightarrow> address \<Rightarrow> DistributionRecord list" where
  "get_pending_distributions d a =
     (case hm_get (fd_distributions d) a of None \<Rightarrow> [] | Some v \<Rightarrow> filter (\<lambda>r. \<not> dr_claimed r) v)"

definition claim_record :: "h256 \<Rightarrow> DistributionRecord \<Rightarrow> DistributionRecord" where
  "claim_record tx r = (if dr_claimed r then r else r\<lparr>dr_claimed := True, dr_tx_hash := Some tx\<rparr>)"

definition mark_claimed :: "FeeDistributor \<Rightarrow> address \<Rightarrow> h256 \<Rightarrow> FeeDistributor" where
  "mark_claimed d a tx = d\<lparr>fd_distributions := hm_modify a (map (claim_record tx)) (fd_distributions d)\<rparr>"

record FeeDistributorStats =
  st_total_collected :: u64
  st_total_distributed :: u64
  st_pending_stream_a :: u64
  st_pending_stream_b :: u64
  st_pending_stream_c :: u64
  st_pending_treasury :: u64
  st_stream_a_recipients :: u64
  st_stream_b_recipients :: u64
  st_stream_c_recipients :: u64
  st_last_distribution_block :: u64

definition FeeDistributor_stats :: "FeeDistributor \<Rightarrow> FeeDistributorStats" where
  "FeeDistributor_stats d =
     \<lparr>st_total_collected = fd_total_collected d, st_total_distributed = fd_total_distributed d,
      st_pending_stream_a = pf_stream_a (fd_pending d), st_pending_stream_b = pf_stream_b (fd_pending d),
      st_pending_stream_c = pf_stream_c (fd_pending d), st_pending_treasury = pf_treasury (fd_pending d),
      st_stream_a_recipients = of_nat (length (fd_stream_a_recipients d)),
      st_stream_b_recipients = of_nat (length (fd_stream_b_recipients d)),
      st_stream_c_recipients = of_nat (length (fd_stream_c_recipients d)),
      st_last_distribution_block = fd_last_distribution_block d\<rparr>"

definition get_allocations :: "FeeDistributor \<Rightarrow> nat \<Rightarrow> FeeAllocation list" where
  "get_allocations d limit = take limit (rev (fd_allocations d))"


subsection \<open>The split of a block's fees\<close>

lemma percent_128:
  "unat (ucast STREAM_A_SHARE_PERCENT :: u128) = 20" "unat (ucast STREAM_B_SHARE_PERCENT :: u128) = 40"
  "unat (ucast STREAM_C_SHARE_PERCENT :: u128) = 30"
  by (simp_all add: STREAM_A_SHARE_PERCENT_def STREAM_B_SHARE_PERCENT_def STREAM_C_SHARE_PERCENT_def)

lemma allocation_shares:
  fixes now height hash total_fees
  defines "a \<equiv> FeeAllocation_new now height hash total_fees"
  shows "unat (fa_stream_a_amount a) = unat total_fees * 20 div 100"
    and "unat (fa_stream_b_amount a) = unat total_fees * 40 div 100"
    and "unat (fa_stream_c_amount a) = unat total_fees * 30 div 100"
    and "unat (fa_treasury_amount a)
      = unat total_fees - unat total_fees * 20 div 100 - unat total_fees * 40 div 100 - unat total_fees * 30 div 100"
  unfolding a_def FeeAllocation_new_def Let_def
  by (simp_all add: rust_arith percent_128)

lemma allocation_sum:
  fixes now height hash total_fees
  defines "a \<equiv> FeeAllocation_new now height hash total_fees"
  shows "unat (fa_stream_a_amount a) + unat (fa_stream_b_amount a) + unat (fa_stream_c_amount a)
      + unat (fa_treasury_amount a) = unat total_fees"
  unfolding a_def allocation_shares by linarith

subsection \<open>Payments\<close>

definition paid_amount :: "DistributionRecord list \<Rightarrow> nat" where
  "paid_amount rs = sum_list (map (\<lambda>r. unat (dr_amount r)) rs)"

definition recorded :: "FeeDistributor \<Rightarrow> nat" where
  "recorded d = weight paid_amount (fd_distributions d)"

definition pending_amount :: "PendingFees \<Rightarrow> nat" where
  "pending_amount p = unat (pf_stream_a p) + unat (pf_stream_b p) + unat (pf_stream_c p) + unat (pf_treasury p)"

definition weights_fit :: "FeeDistributor \<Rightarrow> bool" where
  "weights_fit d = (\<forall>s. weight unat (stream_recipients d s) < 2 ^ 64)"

lemma recorded_record_distribution [simp]:
  "recorded (record_distribution now d a s amount b) = recorded d + unat amount"
proof -
  let ?old = "case hm_get (fd_distributions d) a of None \<Rightarrow> [] | Some rs \<Rightarrow> rs"
  let ?rec = "\<lparr>dr_recipient = a, dr_stream = s, dr_amount = amount, dr_source_block = b, dr_tx_hash = None,
    dr_timestamp = now, dr_claimed = False\<rparr>"
  have "held paid_amount (hm_get (fd_distributions d) a) = paid_amount ?old"
    by (simp add: paid_amount_def split: option.split)
  moreover have "paid_amount (?old @ [?rec]) = paid_amount ?old + unat amount"
    by (simp add: paid_amount_def)
  ultimately show ?thesis
    using weight_insert [of paid_amount a "?old @ [?rec]" "fd_distributions d"]
    by (simp add: recorded_def record_distribution_def Let_def)
qed

lemma record_distribution_frame:
  "\<exists>m. record_distribution now d a s amount b = d\<lparr>fd_distributions := m\<rparr>"
  unfolding record_distribution_def Let_def by blast

lemma pay_loop_spec:
  assumes "pay_loop now b s d paid n xs = (d', paid', n')"
  shows "(\<exists>m. d' = d\<lparr>fd_distributions := m\<rparr>) \<and> paid' = paid + sum_list (map snd xs)
    \<and> recorded d' = recorded d + sum_list (map (\<lambda>x. unat (snd x)) xs)"
  using assms
proof (induction now b s d paid n xs rule: pay_loop.induct)
  case (2 now b s d paid n a amount rest)
  obtain m where m: "record_distribution now d a s amount b = d\<lparr>fd_distributions := m\<rparr>"
    using record_distribution_frame by blast
  show ?case using 2 by (auto simp: m [symmetric] algebra_simps) (auto simp: m)
next
  case (1 now b s d paid n)
  have "d = d\<lparr>fd_distributions := fd_distributions d\<rparr>" by simp
  then have "\<exists>m. d = d\<lparr>fd_distributions := m\<rparr>" by (rule exI)
  then show ?case using 1 by simp
qed

lemma weight_values_exact:
  "weight unat m < 2 ^ 64 \<Longrightarrow> unat (sum_list (hm_values m :: u64 list)) = weight unat m"
  by (simp add: weight_eq_values unat_sum_list_exact)

text \<open>What a stream pays out is at most what it had, as long as the weights do not wrap.\<close>

lemma distribution_le:
  assumes "weights_fit d"
  shows "sum_list (map (\<lambda>x. unat (snd x)) (calculate_stream_distribution d s amount)) \<le> unat amount"
proof (cases "calculate_stream_distribution d s amount = []")
  case False
  let ?m = "stream_recipients d s"
  let ?w = "sum_list (hm_values ?m)"
  let ?share = "\<lambda>(a, w). (a, mul_div amount (ucast w) (ucast ?w))"
  have total: "unat ?w = weight unat ?m"
    using assms weight_values_exact [of ?m] by (simp add: weights_fit_def)
  have le: "unat (snd e) \<le> weight unat ?m" if "e \<in> set ?m" for e
    using that by (auto simp: weight_def intro!: member_le_sum_list)
  have exact: "unat (snd (?share e)) = unat amount * unat (snd e) div weight unat ?m" if "e \<in> set ?m" for e
    using le [OF that] unat_less_power [of "snd e"]
    by (cases e) (simp add: unat_mul_div_le unat_ucast_128 total)
  have "sum_list (map (\<lambda>x. unat (snd x)) (calculate_stream_distribution d s amount))
      \<le> sum_list (map (\<lambda>x. unat (snd x)) (map ?share ?m))"
    using False unfolding calculate_stream_distribution_def Let_def
    by (auto simp del: map_map intro!: sum_list_filter_le_nat split: if_splits)
  also have "\<dots> = sum_list (map (\<lambda>e. unat amount * unat (snd e) div weight unat ?m) ?m)"
    using exact by (simp add: comp_def cong: map_cong)
  also have "\<dots> \<le> unat amount"
    by (rule proportional_split_le) (simp add: weight_def)
  finally show ?thesis .
qed simp

lemma stream_recipients_frame [simp]:
  "stream_recipients (d\<lparr>fd_pending := p\<rparr>) s = stream_recipients d s"
  "stream_recipients (d\<lparr>fd_distributions := m\<rparr>) s = stream_recipients d s"
  by (cases s; simp)+

lemma weights_fit_frame [simp]:
  "weights_fit (d\<lparr>fd_pending := p\<rparr>) = weights_fit d" "weights_fit (d\<lparr>fd_distributions := m\<rparr>) = weights_fit d"
  by (simp_all add: weights_fit_def)

lemma distribute_stream_spec:
  assumes "distribute_stream now b d s = (d', paid, n)" and "weights_fit d"
  shows "(\<exists>m. d' = d\<lparr>fd_pending := snd (take_stream (fd_pending d) s), fd_distributions := m\<rparr>)
    \<and> unat paid \<le> unat (fst (take_stream (fd_pending d) s)) \<and> recorded d' = recorded d + unat paid"
proof -
  obtain amount p where t: "take_stream (fd_pending d) s = (amount, p)" by fastforce
  let ?d = "d\<lparr>fd_pending := p\<rparr>"
  let ?xs = "calculate_stream_distribution ?d s amount"
  have rec: "recorded ?d = recorded d" by (simp add: recorded_def)
  show ?thesis
  proof (cases "0 < amount")
    case True
    then have "pay_loop now b s ?d 0 0 ?xs = (d', paid, n)"
      using assms t by (simp add: distribute_stream_def Let_def)
    note loop = pay_loop_spec [OF this]
    have le: "sum_list (map (\<lambda>x. unat (snd x)) ?xs) \<le> unat amount"
      using assms(2) by (intro distribution_le) simp
    then have "unat paid = sum_list (map (\<lambda>x. unat (snd x)) ?xs)"
      using loop unat_less_power [of amount] unat_sum_list_exact [of "map snd ?xs"] by (simp add: comp_def)
    then show ?thesis using loop le t rec by auto
  next
    case False
    then show ?thesis
      using assms t by (auto simp: distribute_stream_def recorded_def Let_def intro!: exI [of _ "fd_distributions d"])
  qed
qed

lemma distribute_treasury_spec:
  assumes "distribute_treasury now b d = (d', paid)"
  shows "(\<exists>m. d' = d\<lparr>fd_pending := (fd_pending d)\<lparr>pf_treasury := 0\<rparr>, fd_distributions := m\<rparr>)
    \<and> paid = pf_treasury (fd_pending d) \<and> recorded d' = recorded d + unat paid"
proof -
  have [simp]: "recorded (d\<lparr>fd_pending := p\<rparr>) = recorded d" for p by (simp add: recorded_def)
  show ?thesis
  proof (cases "0 < pf_treasury (fd_pending d)")
    case True
    then show ?thesis
      using assms by (auto simp: distribute_treasury_def take_treasury_def Let_def) (auto simp: record_distribution_def Let_def)
  next
    case False
    then have "pf_treasury (fd_pending d) = 0" by (simp add: word_gt_0)
    then show ?thesis
      using assms by (auto simp: distribute_treasury_def take_treasury_def Let_def intro!: exI [of _ "fd_distributions d"])
  qed
qed

lemma no_pending [simp]:
  "p\<lparr>pf_stream_a := 0, pf_stream_b := 0, pf_stream_c := 0, pf_treasury := 0\<rparr> = PendingFees_default"
  by (cases p) (simp add: PendingFees_default_def)

text \<open>A distribution empties the pending account, and what it reports is what it records.\<close>

lemma distribute_spec:
  assumes run: "distribute now d b = (d', res)" and due: "should_distribute d b" and fit: "weights_fit d"
    and small: "pending_amount (fd_pending d) < 2 ^ 64"
  shows "(\<exists>m. d' = d\<lparr>fd_pending := PendingFees_default, fd_distributions := m,
          fd_total_distributed := fd_total_distributed d + ds_total_distributed res, fd_last_distribution_block := b\<rparr>)
    \<and> recorded d' = recorded d + unat (ds_total_distributed res)
    \<and> unat (ds_total_distributed res) \<le> pending_amount (fd_pending d)
    \<and> ds_treasury_distributed res = pf_treasury (fd_pending d)"
proof -
  obtain da a na where A: "distribute_stream now b d StreamA = (da, a, na)" using prod_cases3 by blast
  obtain db bb nb where B: "distribute_stream now b da StreamB = (db, bb, nb)" using prod_cases3 by blast
  obtain dc c nc where C: "distribute_stream now b db StreamC = (dc, c, nc)" using prod_cases3 by blast
  obtain dt t where T: "distribute_treasury now b dc = (dt, t)" by fastforce
  have res: "ds_total_distributed res = a + bb + c + t" "ds_treasury_distributed res = t"
    and d': "d' = dt\<lparr>fd_total_distributed := fd_total_distributed dt + (a + bb + c + t), fd_last_distribution_block := b\<rparr>"
    using run due A B C T by (auto simp: distribute_def)
  note a = distribute_stream_spec [OF A fit]
  then obtain ma where da: "da = d\<lparr>fd_pending := (fd_pending d)\<lparr>pf_stream_a := 0\<rparr>, fd_distributions := ma\<rparr>" by auto
  note b = distribute_stream_spec [OF B]
  then obtain mb where db: "db = d\<lparr>fd_pending := (fd_pending d)\<lparr>pf_stream_a := 0, pf_stream_b := 0\<rparr>, fd_distributions := mb\<rparr>"
    using fit by (auto simp: da)
  note c = distribute_stream_spec [OF C]
  then obtain mc where dc: "dc = d\<lparr>fd_pending := (fd_pending d)\<lparr>pf_stream_a := 0, pf_stream_b := 0, pf_stream_c := 0\<rparr>,
      fd_distributions := mc\<rparr>"
    using fit by (auto simp: db)
  note t = distribute_treasury_spec [OF T]
  then obtain mt where dt: "dt = d\<lparr>fd_pending := PendingFees_default, fd_distributions := mt\<rparr>"
    by (auto simp: dc no_pending)
  have le: "unat a \<le> unat (pf_stream_a (fd_pending d))" "unat bb \<le> unat (pf_stream_b (fd_pending d))"
      "unat c \<le> unat (pf_stream_c (fd_pending d))" "t = pf_treasury (fd_pending d)"
    using a b c t fit by (simp_all add: da db dc)
  then have sum: "unat (a + bb + c + t) = unat a + unat bb + unat c + unat t"
    using small by (simp add: pending_amount_def unat_add_exact)
  have "recorded d' = recorded dt" by (simp add: d' recorded_def)
  also have "\<dots> = recorded d + unat (a + bb + c + t)"
    using a b c t fit unfolding sum by (simp add: da db dc)
  finally show ?thesis
    using le sum dt by (auto simp: res d' pending_amount_def)
qed

subsection \<open>The account of the distributor\<close>

text \<open>
  The states the distributor reaches from \<open>new\<close>, for fees whose total fits 64 bits and weights whose sum
  per stream does.
\<close>

inductive fee_run :: "address \<Rightarrow> FeeDistributor \<Rightarrow> bool" for treasury where
  new: "fee_run treasury (FeeDistributor_new treasury)"
| set_treasury: "fee_run treasury d \<Longrightarrow> fee_run treasury (set_treasury d a)"
| collect: "fee_run treasury d \<Longrightarrow> unat (fd_total_collected d) + unat fees < 2 ^ 64
    \<Longrightarrow> fee_run treasury (fst (collect_fees now d height hash fees))"
| register: "fee_run treasury d \<Longrightarrow> weights_fit (register_recipient d s a w)
    \<Longrightarrow> fee_run treasury (register_recipient d s a w)"
| update: "fee_run treasury d \<Longrightarrow> weights_fit (update_recipient_weight d s a w)
    \<Longrightarrow> fee_run treasury (update_recipient_weight d s a w)"
| remove: "fee_run treasury d \<Longrightarrow> weights_fit (remove_recipient d s a)
    \<Longrightarrow> fee_run treasury (remove_recipient d s a)"
| distribute: "fee_run treasury d \<Longrightarrow> fee_run treasury (fst (distribute now d b))"
| claim: "fee_run treasury d \<Longrightarrow> fee_run treasury (mark_claimed d a tx)"

definition fee_inv :: "FeeDistributor \<Rightarrow> bool" where
  "fee_inv d = (weights_fit d \<and> recorded d = unat (fd_total_distributed d)
     \<and> recorded d + pending_amount (fd_pending d) \<le> unat (fd_total_collected d))"

lemma set_recipients_frame [simp]:
  "recorded (set_recipients d s m) = recorded d" "fd_pending (set_recipients d s m) = fd_pending d"
  "fd_total_collected (set_recipients d s m) = fd_total_collected d"
  "fd_total_distributed (set_recipients d s m) = fd_total_distributed d"
  by (cases s; simp add: recorded_def)+

lemma pending_add_allocation:
  assumes "pending_amount p + unat fees < 2 ^ 64"
  shows "pending_amount (PendingFees_add p (FeeAllocation_new now height hash fees)) = pending_amount p + unat fees"
  using assms allocation_sum [of now height hash fees]
  by (simp add: pending_amount_def PendingFees_add_def unat_saturating_add)

lemma collect_fees_inv:
  assumes "fee_inv d" and "unat (fd_total_collected d) + unat fees < 2 ^ 64"
  shows "fee_inv (fst (collect_fees now d height hash fees))"
proof -
  have "stream_recipients (fst (collect_fees now d height hash fees)) s = stream_recipients d s" for s
    by (cases s) (simp_all add: collect_fees_def Let_def)
  then show ?thesis
    using assms pending_add_allocation [of "fd_pending d" fees now height hash]
    by (auto simp: fee_inv_def collect_fees_def Let_def weights_fit_def recorded_def unat_add_exact)
qed

lemma distribute_inv: "fee_inv d \<Longrightarrow> fee_inv (fst (distribute now d b))"
proof (cases "should_distribute d b")
  case True
  assume inv: "fee_inv d"
  obtain d' res where run: "distribute now d b = (d', res)" by fastforce
  have "pending_amount (fd_pending d) < 2 ^ 64"
    using inv unat_less_power [of "fd_total_collected d"] by (simp add: fee_inv_def)
  with run True inv obtain m where
    d': "d' = d\<lparr>fd_pending := PendingFees_default, fd_distributions := m,
          fd_total_distributed := fd_total_distributed d + ds_total_distributed res, fd_last_distribution_block := b\<rparr>"
    and rec: "recorded d' = recorded d + unat (ds_total_distributed res)"
    and le: "unat (ds_total_distributed res) \<le> pending_amount (fd_pending d)"
    using distribute_spec [OF run True] by (auto simp: fee_inv_def)
  have "stream_recipients d' s = stream_recipients d s" for s by (cases s) (simp_all add: d')
  moreover have "unat (fd_total_distributed d') = recorded d'"
    using inv le unat_less_power [of "fd_total_collected d"] rec
    by (simp add: d' fee_inv_def unat_add_exact)
  ultimately show ?thesis
    using inv le rec by (simp add: run fee_inv_def weights_fit_def) (simp add: d' pending_amount_def PendingFees_default_def)
qed (simp add: distribute_def)

lemma paid_amount_claim [simp]: "paid_amount (map (claim_record tx) rs) = paid_amount rs"
  by (induction rs) (simp_all add: paid_amount_def claim_record_def)

lemma recorded_mark_claimed [simp]: "recorded (mark_claimed d a tx) = recorded d"
  using weight_modify [of "fd_distributions d" a _ paid_amount "map (claim_record tx)"]
  by (cases "hm_get (fd_distributions d) a") (simp_all add: recorded_def mark_claimed_def hm_modify_def)

lemma fee_run_inv: "fee_run treasury d \<Longrightarrow> fee_inv d"
proof (induction rule: fee_run.induct)
  case new
  show ?case
  proof -
    have "stream_recipients (FeeDistributor_new treasury) s = []" for s
      by (cases s) (simp_all add: FeeDistributor_new_def)
    then show ?thesis
      by (simp add: fee_inv_def weights_fit_def)
        (simp add: FeeDistributor_new_def recorded_def pending_amount_def PendingFees_default_def)
  qed
next
  case (set_treasury d a)
  have "stream_recipients (set_treasury d a) s = stream_recipients d s" for s
    by (cases s) (simp_all add: set_treasury_def)
  with set_treasury show ?case by (simp add: fee_inv_def weights_fit_def set_treasury_def recorded_def)
next
  case (claim d a tx)
  have "stream_recipients (mark_claimed d a tx) s = stream_recipients d s" for s
    by (cases s) (simp_all add: mark_claimed_def)
  with claim show ?case by (simp add: fee_inv_def weights_fit_def) (simp add: mark_claimed_def)
next
  case collect
  then show ?case by (intro collect_fees_inv)
next
  case distribute
  then show ?case by (intro distribute_inv)
qed (simp_all add: fee_inv_def register_recipient_def update_recipient_weight_def
    remove_recipient_def Let_def)

subsection \<open>Properties\<close>

text \<open>
  The split of a block's fees is exact for every amount: \<open>verify\<close> accepts it, the streams get 20, 40
  and 30 percent rounded down, and the treasury the rest, at least a tenth and at most three units more.
\<close>

theorem fee_split_exact:
  fixes now height hash total_fees
  defines "a \<equiv> FeeAllocation_new now height hash total_fees"
  shows "FeeAllocation_verify a
    \<and> map (\<lambda>s. unat (amount_for_stream a s)) [StreamA, StreamB, StreamC]
      = [unat total_fees * 20 div 100, unat total_fees * 40 div 100, unat total_fees * 30 div 100]
    \<and> unat total_fees \<le> 10 * unat (fa_treasury_amount a)
    \<and> unat (fa_treasury_amount a) \<le> unat total_fees div 10 + 3"
proof -
  have "unat (saturating_add (saturating_add (saturating_add (fa_stream_a_amount a) (fa_stream_b_amount a))
      (fa_stream_c_amount a)) (fa_treasury_amount a)) = unat total_fees"
    using allocation_sum [of now height hash total_fees] unat_less_power [of total_fees]
    unfolding a_def by (simp add: unat_saturating_add)
  then have "FeeAllocation_verify a"
    unfolding FeeAllocation_verify_def
    by (subst word_unat_eq_iff) (simp add: a_def FeeAllocation_new_def Let_def)
  moreover have "unat total_fees \<le> 10 * unat (fa_treasury_amount a)"
    "unat (fa_treasury_amount a) \<le> unat total_fees div 10 + 3"
    unfolding a_def allocation_shares by linarith+
  ultimately show ?thesis by (simp add: a_def allocation_shares)
qed

text \<open>
  Fees are never paid twice: in every state of the distributor, with fees and weights that fit 64 bits,
  the recorded payments add up to \<open>total_distributed\<close>, and together with the fees still pending they are at
  most what was collected.
\<close>

theorem fees_never_overpaid:
  assumes "fee_run treasury d"
  shows "recorded d = unat (fd_total_distributed d)
    \<and> recorded d + pending_amount (fd_pending d) \<le> unat (fd_total_collected d)"
  using fee_run_inv [OF assms] by (simp add: fee_inv_def)

theorem fees_never_overpaid_witness:
  fixes d defines "d \<equiv> fst (collect_fees 7 (FeeDistributor_new address_zero) 100 h256_zero 1000)"
  shows "recorded d + pending_amount (fd_pending d) \<le> unat (fd_total_collected d)"
proof -
  have "fee_run address_zero d"
    unfolding d_def by (intro fee_run.collect fee_run.new) (simp add: FeeDistributor_new_def)
  then show ?thesis using fees_never_overpaid by blast
qed

text \<open>
  Fees of a stream without recipients are taken from the pending account and paid to nobody.
\<close>

lemma fees_without_recipients_lost:
  assumes "should_distribute d b" and "\<And>s. stream_recipients d s = []"
  shows "ds_total_distributed (snd (distribute now d b)) = pf_treasury (fd_pending d)
    \<and> fd_pending (fst (distribute now d b)) = PendingFees_default"
proof -
  have none: "calculate_stream_distribution d' s amount = []" if "stream_recipients d' s = []" for d' s amount
    using that by (simp add: calculate_stream_distribution_def)
  have step: "distribute_stream now b d' s = (d'\<lparr>fd_pending := snd (take_stream (fd_pending d') s)\<rparr>, 0, 0)"
    if "stream_recipients d' s = []" for d' s
    using that none [of "d'\<lparr>fd_pending := snd (take_stream (fd_pending d') s)\<rparr>" s "fst (take_stream (fd_pending d') s)"]
    by (simp add: distribute_stream_def case_prod_unfold Let_def)
  have "0 < pf_treasury (fd_pending d) \<or> pf_treasury (fd_pending d) = 0"
    by (auto simp: word_gt_0)
  moreover have "fd_stream_a_recipients d = []" "fd_stream_b_recipients d = []" "fd_stream_c_recipients d = []"
    using assms(2) [of StreamA] assms(2) [of StreamB] assms(2) [of StreamC] by simp_all
  ultimately show ?thesis
    using assms(1)
    by (elim disjE) (simp_all add: distribute_def step distribute_treasury_def take_treasury_def record_distribution_def Let_def)
qed

text \<open>Weights whose sum wraps make the shares larger than the amount.\<close>

lemma wrapped_weights_overpay:
  assumes "stream_recipients d StreamA = [(a, 2 ^ 63), (b, 2 ^ 63 + 2)]"
  shows "calculate_stream_distribution d StreamA 3 = [(a, 3 * 2 ^ 62), (b, 3 * 2 ^ 62 + 3)]"
  using assms by (simp add: calculate_stream_distribution_def hm_values_def mul_div_def)

end
