(* ===== verification/Dual_State.thy ===== *)
theory Dual_State
  imports Hash_Map Chain_Types
begin

section \<open>The dual state bridge\<close>

text \<open>
  \<open>pyrax-node/src/bridge/dual_state.rs\<close>, with the constants of \<open>bridge/mod.rs\<close>: UTXOs are locked and
  minted as account balances, account balances are burned and unlocked as UTXOs. The state is the record
  \<open>DualStateBridge\<close>; each of its fields is behind a lock of its own, which an operation releases before it
  returns, so a field is accessed directly. The one statement that asks for a lock while its thread still
  holds a guard of it is in \<open>complete_unlock\<close>: there the behaviour of the lock, which is not in the
  repository, is the parameter \<open>write_returns\<close>. The clock is an argument of the operations that read it.
\<close>

subsection \<open>Conversions\<close>

definition UTXO_LOCK_CONFIRMATIONS :: u64 where "UTXO_LOCK_CONFIRMATIONS = 6"
definition EVM_BURN_CONFIRMATIONS :: u64 where "EVM_BURN_CONFIRMATIONS = 12"
definition BRIDGE_FEE_BASIS_POINTS :: u64 where "BRIDGE_FEE_BASIS_POINTS = 10"
definition MIN_BRIDGE_AMOUNT :: u64 where "MIN_BRIDGE_AMOUNT = 1000000"
definition MAX_BRIDGE_AMOUNT :: u64 where "MAX_BRIDGE_AMOUNT = 100000000000000"

datatype BridgeState = BridgeActive | BridgePaused | BridgeStopped

datatype ConversionDirection = UtxoToAccount | AccountToUtxo

datatype ConversionStatus =
  ConvPending | ConvConfirmed | ConvProcessing | ConvCompleted | ConvFailed | ConvRefunded

record LockedUtxo =
  lu_outpoint :: OutPoint
  lu_lock_tx_hash :: h256
  lu_amount :: u64
  lu_utxo_owner :: address
  lu_evm_recipient :: "u8 list"
  lu_lock_height :: u64
  lu_confirmations :: u64
  lu_locked_at :: u64
  lu_unlocked :: bool

record MintedBalance =
  mb_conversion_id :: h256
  mb_recipient :: "u8 list"
  mb_amount :: u64
  mb_mint_tx_hash :: "u8 list"
  mb_mint_block :: u64
  mb_minted_at :: u64
  mb_burned :: bool

record ConversionRequest =
  cr_id :: h256
  cr_direction :: ConversionDirection
  cr_status :: ConversionStatus
  cr_amount :: u64
  cr_fee :: u64
  cr_net_amount :: u64
  cr_source_address :: address
  cr_destination_address :: "u8 list"
  cr_source_tx_hash :: h256
  cr_destination_tx_hash :: "h256 option"
  cr_request_height :: u64
  cr_confirmations :: u64
  cr_required_confirmations :: u64
  cr_created_at :: u64
  cr_completed_at :: "u64 option"
  cr_error :: "string option"

datatype BridgeError =
    ErrBridgePaused
  | ErrBridgeStopped
  | AmountTooSmall u64 u64
  | AmountTooLarge u64 u64
  | ConversionNotFound h256
  | InvalidStatus ConversionStatus ConversionStatus
  | UtxoNotFound OutPoint
  | UtxoAlreadyLocked OutPoint
  | InsufficientBalance u64 u64
  | InvalidAddress string
  | VerificationFailed string
  | InsufficientConfirmations u64 u64
  | DuplicateRequest
  | StorageError string

definition conversion_generate_id :: "ext \<Rightarrow> u64 \<Rightarrow> h256 \<Rightarrow> address \<Rightarrow> u64 \<Rightarrow> h256" where
  "conversion_generate_id e now tx_hash a amount =
     h256_from_slice (ext_blake3 e
       (h256_bytes tx_hash @ address_bytes a @ u64_to_be_bytes amount @ u64_to_be_bytes now))"

definition ConversionRequest_new ::
  "ext \<Rightarrow> u64 \<Rightarrow> ConversionDirection \<Rightarrow> u64 \<Rightarrow> address \<Rightarrow> u8 list \<Rightarrow> h256 \<Rightarrow> u64 \<Rightarrow> u64
     \<Rightarrow> BridgeError + ConversionRequest" where
  "ConversionRequest_new e now direction amount source_address destination_address source_tx_hash
     request_height required_confirmations =
     (if amount < MIN_BRIDGE_AMOUNT then Err (AmountTooSmall MIN_BRIDGE_AMOUNT amount)
      else if MAX_BRIDGE_AMOUNT < amount then Err (AmountTooLarge MAX_BRIDGE_AMOUNT amount)
      else let fee = mul_div amount (ucast BRIDGE_FEE_BASIS_POINTS) 10000;
               net_amount = saturating_sub amount fee
           in Ok \<lparr>cr_id = conversion_generate_id e now source_tx_hash source_address amount,
                cr_direction = direction, cr_status = ConvPending, cr_amount = amount, cr_fee = fee,
                cr_net_amount = net_amount, cr_source_address = source_address,
                cr_destination_address = destination_address, cr_source_tx_hash = source_tx_hash,
                cr_destination_tx_hash = None, cr_request_height = request_height, cr_confirmations = 0,
                cr_required_confirmations = required_confirmations, cr_created_at = now,
                cr_completed_at = None, cr_error = None\<rparr>)"

definition utxo_to_account ::
  "ext \<Rightarrow> u64 \<Rightarrow> h256 \<Rightarrow> u64 \<Rightarrow> address \<Rightarrow> u8 list \<Rightarrow> u64 \<Rightarrow> BridgeError + ConversionRequest" where
  "utxo_to_account e now source_tx_hash amount source_address evm_recipient request_height =
     ConversionRequest_new e now UtxoToAccount amount source_address evm_recipient source_tx_hash
       request_height UTXO_LOCK_CONFIRMATIONS"

definition account_to_utxo ::
  "ext \<Rightarrow> u64 \<Rightarrow> h256 \<Rightarrow> u64 \<Rightarrow> u8 list \<Rightarrow> address \<Rightarrow> u64 \<Rightarrow> BridgeError + ConversionRequest" where
  "account_to_utxo e now burn_tx_hash amount evm_address utxo_recipient request_height =
     ConversionRequest_new e now AccountToUtxo amount (Address evm_address) (address_bytes utxo_recipient)
       burn_tx_hash request_height EVM_BURN_CONFIRMATIONS"

definition update_confirmations :: "ConversionRequest \<Rightarrow> u64 \<Rightarrow> ConversionRequest" where
  "update_confirmations c current_height =
     (if cr_request_height c \<le> current_height then
        let c1 = c\<lparr>cr_confirmations := current_height - cr_request_height c + 1\<rparr> in
        if cr_required_confirmations c1 \<le> cr_confirmations c1 \<and> cr_status c1 = ConvPending
        then c1\<lparr>cr_status := ConvConfirmed\<rparr> else c1
      else c)"

definition mark_processing :: "ConversionRequest \<Rightarrow> ConversionRequest" where
  "mark_processing c = (if cr_status c = ConvConfirmed then c\<lparr>cr_status := ConvProcessing\<rparr> else c)"

definition mark_completed :: "u64 \<Rightarrow> ConversionRequest \<Rightarrow> h256 \<Rightarrow> ConversionRequest" where
  "mark_completed now c dest_tx_hash =
     c\<lparr>cr_status := ConvCompleted, cr_destination_tx_hash := Some dest_tx_hash, cr_completed_at := Some now\<rparr>"

definition mark_failed :: "ConversionRequest \<Rightarrow> string \<Rightarrow> ConversionRequest" where
  "mark_failed c message = c\<lparr>cr_status := ConvFailed, cr_error := Some message\<rparr>"

definition mark_refunded :: "u64 \<Rightarrow> ConversionRequest \<Rightarrow> ConversionRequest" where
  "mark_refunded now c = c\<lparr>cr_status := ConvRefunded, cr_completed_at := Some now\<rparr>"

definition is_ready :: "ConversionRequest \<Rightarrow> bool" where
  "is_ready c = (cr_status c = ConvConfirmed)"

subsection \<open>The bridge\<close>

record DualStateBridge =
  br_state :: BridgeState
  br_conversions :: "(h256, ConversionRequest) hashmap"
  br_locked_utxos :: "(OutPoint, LockedUtxo) hashmap"
  br_minted_balances :: "(h256, MintedBalance) hashmap"
  br_processing_queue :: "h256 list"
  br_total_locked :: u64
  br_total_minted :: u64
  br_total_fees :: u64
  br_utxo_height :: u64
  br_evm_height :: u64

definition DualStateBridge_new :: DualStateBridge where
  "DualStateBridge_new =
     \<lparr>br_state = BridgeActive, br_conversions = [], br_locked_utxos = [], br_minted_balances = [],
      br_processing_queue = [], br_total_locked = 0, br_total_minted = 0, br_total_fees = 0,
      br_utxo_height = 0, br_evm_height = 0\<rparr>"

definition bridge_is_active :: "DualStateBridge \<Rightarrow> bool" where
  "bridge_is_active b = (br_state b = BridgeActive)"

definition bridge_pause :: "DualStateBridge \<Rightarrow> DualStateBridge" where
  "bridge_pause b = b\<lparr>br_state := BridgePaused\<rparr>"

definition bridge_resume :: "DualStateBridge \<Rightarrow> DualStateBridge" where
  "bridge_resume b = b\<lparr>br_state := BridgeActive\<rparr>"

definition emergency_stop :: "DualStateBridge \<Rightarrow> DualStateBridge" where
  "emergency_stop b = b\<lparr>br_state := BridgeStopped\<rparr>"

definition update_heights :: "DualStateBridge \<Rightarrow> u64 \<Rightarrow> u64 \<Rightarrow> DualStateBridge" where
  "update_heights b uh eh = b\<lparr>br_utxo_height := uh, br_evm_height := eh\<rparr>"

text \<open>The \<open>match *self.state.read()\<close> at the start of both requests.\<close>

fun check_active :: "BridgeState \<Rightarrow> BridgeError + unit" where
  "check_active BridgePaused = Err ErrBridgePaused"
| "check_active BridgeStopped = Err ErrBridgeStopped"
| "check_active BridgeActive = Ok ()"

definition lock_utxo ::
  "ext \<Rightarrow> u64 \<Rightarrow> DualStateBridge \<Rightarrow> OutPoint \<Rightarrow> h256 \<Rightarrow> u64 \<Rightarrow> address \<Rightarrow> u8 list
     \<Rightarrow> BridgeError + (DualStateBridge \<times> h256)" where
  "lock_utxo e now b outpoint lock_tx_hash amount utxo_owner evm_recipient =
     and_then (check_active (br_state b)) (\<lambda>_.
     and_then (fail_if (hm_contains (br_locked_utxos b) outpoint) (UtxoAlreadyLocked outpoint)) (\<lambda>_.
     let current_height = br_utxo_height b in
     and_then (utxo_to_account e now lock_tx_hash amount utxo_owner evm_recipient current_height) (\<lambda>request.
     let conversion_id = cr_id request;
         locked = \<lparr>lu_outpoint = outpoint, lu_lock_tx_hash = lock_tx_hash, lu_amount = amount,
           lu_utxo_owner = utxo_owner, lu_evm_recipient = evm_recipient, lu_lock_height = current_height,
           lu_confirmations = 0, lu_locked_at = now, lu_unlocked = False\<rparr>
     in Ok (b\<lparr>br_locked_utxos := hm_insert outpoint locked (br_locked_utxos b),
              br_conversions := hm_insert conversion_id request (br_conversions b),
              br_total_locked := br_total_locked b + amount\<rparr>, conversion_id))))"

definition burn_for_utxo ::
  "ext \<Rightarrow> u64 \<Rightarrow> DualStateBridge \<Rightarrow> h256 \<Rightarrow> u64 \<Rightarrow> u8 list \<Rightarrow> address
     \<Rightarrow> BridgeError + (DualStateBridge \<times> h256)" where
  "burn_for_utxo e now b burn_tx_hash amount evm_burner utxo_recipient =
     and_then (check_active (br_state b)) (\<lambda>_.
     and_then (account_to_utxo e now burn_tx_hash amount evm_burner utxo_recipient (br_evm_height b)) (\<lambda>request.
     Ok (b\<lparr>br_conversions := hm_insert (cr_id request) request (br_conversions b)\<rparr>, cr_id request)))"

text \<open>The loop over the conversions, which also fills the queue.\<close>

fun source_height :: "u64 \<Rightarrow> u64 \<Rightarrow> ConversionDirection \<Rightarrow> u64" where
  "source_height uh eh UtxoToAccount = uh"
| "source_height uh eh AccountToUtxo = eh"

fun confirm_loop ::
  "u64 \<Rightarrow> u64 \<Rightarrow> h256 list \<Rightarrow> (h256, ConversionRequest) hashmap
     \<Rightarrow> (h256, ConversionRequest) hashmap \<times> h256 list" where
  "confirm_loop uh eh queue [] = ([], queue)"
| "confirm_loop uh eh queue ((i, conv) # rest) =
     (if cr_status conv = ConvPending then
        let conv' = update_confirmations conv (source_height uh eh (cr_direction conv));
            queue' = (if is_ready conv' \<and> i \<notin> set queue then queue @ [i] else queue)
        in case confirm_loop uh eh queue' rest of (rest', q) \<Rightarrow> ((i, conv') # rest', q)
      else case confirm_loop uh eh queue rest of (rest', q) \<Rightarrow> ((i, conv) # rest', q))"

definition process_confirmations :: "DualStateBridge \<Rightarrow> DualStateBridge" where
  "process_confirmations b =
     (case confirm_loop (br_utxo_height b) (br_evm_height b) (br_processing_queue b) (br_conversions b) of
        (conversions, queue) \<Rightarrow> b\<lparr>br_conversions := conversions, br_processing_queue := queue\<rparr>)"

fun next_ready_loop ::
  "(h256, ConversionRequest) hashmap \<Rightarrow> h256 list \<Rightarrow> h256 list \<times> ConversionRequest option" where
  "next_ready_loop conversions [] = ([], None)"
| "next_ready_loop conversions (i # queue) =
     (case hm_get conversions i of
        None \<Rightarrow> next_ready_loop conversions queue
      | Some conv \<Rightarrow> if is_ready conv then (queue, Some conv) else next_ready_loop conversions queue)"

definition get_next_ready :: "DualStateBridge \<Rightarrow> DualStateBridge \<times> ConversionRequest option" where
  "get_next_ready b =
     (case next_ready_loop (br_conversions b) (br_processing_queue b) of
        (queue, res) \<Rightarrow> (b\<lparr>br_processing_queue := queue\<rparr>, res))"

definition complete_mint ::
  "u64 \<Rightarrow> DualStateBridge \<Rightarrow> h256 \<Rightarrow> u8 list \<Rightarrow> u64 \<Rightarrow> BridgeError + DualStateBridge" where
  "complete_mint now b conversion_id mint_tx_hash mint_block =
     (case hm_get (br_conversions b) conversion_id of
        None \<Rightarrow> Err (ConversionNotFound conversion_id)
      | Some conv \<Rightarrow>
          if cr_direction conv \<noteq> UtxoToAccount then Err (InvalidStatus ConvConfirmed (cr_status conv))
          else let conv1 = mark_processing conv;
                   minted = \<lparr>mb_conversion_id = conversion_id, mb_recipient = cr_destination_address conv1,
                     mb_amount = cr_net_amount conv1, mb_mint_tx_hash = mint_tx_hash, mb_mint_block = mint_block,
                     mb_minted_at = now, mb_burned = False\<rparr>
               in Ok (b\<lparr>br_minted_balances := hm_insert conversion_id minted (br_minted_balances b),
                        br_total_minted := br_total_minted b + cr_net_amount conv1,
                        br_total_fees := br_total_fees b + cr_fee conv1,
                        br_conversions := hm_insert conversion_id (mark_completed now conv1 (H256 mint_tx_hash))
                          (br_conversions b)\<rparr>))"

text \<open>
  In \<open>*self.total_minted.write() = self.total_minted.read().saturating_sub(..)\<close> the right-hand side is
  evaluated first and its read guard, a temporary, lives until the end of the statement, so \<open>write\<close> is
  called while the same thread holds a read guard of the same lock. \<open>write_returns n\<close> says whether \<open>write\<close>
  returns while \<open>n\<close> read guards are held; when it does not, the operation never returns, which is \<open>None\<close>.
  The lock's documentation says that it does not return while a reader has access.
\<close>

definition assign_while_reading :: "(nat \<Rightarrow> bool) \<Rightarrow> u64 \<Rightarrow> (u64 \<Rightarrow> u64) \<Rightarrow> u64 option" where
  "assign_while_reading write_returns v f = (if write_returns 1 then Some (f v) else None)"

definition complete_unlock ::
  "(nat \<Rightarrow> bool) \<Rightarrow> u64 \<Rightarrow> DualStateBridge \<Rightarrow> h256 \<Rightarrow> h256 \<Rightarrow> (BridgeError + DualStateBridge) option" where
  "complete_unlock write_returns now b conversion_id unlock_tx_hash =
     (case hm_get (br_conversions b) conversion_id of
        None \<Rightarrow> Some (Err (ConversionNotFound conversion_id))
      | Some conv \<Rightarrow>
          if cr_direction conv \<noteq> AccountToUtxo then Some (Err (InvalidStatus ConvConfirmed (cr_status conv)))
          else let conv1 = mark_processing conv in
               do {
                 minted \<leftarrow> assign_while_reading write_returns (br_total_minted b) (\<lambda>v. saturating_sub v (cr_amount conv1));
                 locked \<leftarrow> assign_while_reading write_returns (br_total_locked b) (\<lambda>v. saturating_sub v (cr_net_amount conv1));
                 Some (Ok (b\<lparr>br_total_minted := minted, br_total_locked := locked,
                   br_total_fees := br_total_fees b + cr_fee conv1,
                   br_conversions := hm_insert conversion_id (mark_completed now conv1 unlock_tx_hash)
                     (br_conversions b)\<rparr>))
               })"

definition get_conversion :: "DualStateBridge \<Rightarrow> h256 \<Rightarrow> ConversionRequest option" where
  "get_conversion b i = hm_get (br_conversions b) i"

definition get_pending_conversions :: "DualStateBridge \<Rightarrow> ConversionRequest list" where
  "get_pending_conversions b = filter (\<lambda>c. cr_status c = ConvPending) (hm_values (br_conversions b))"

definition get_conversions_for_address :: "DualStateBridge \<Rightarrow> address \<Rightarrow> ConversionRequest list" where
  "get_conversions_for_address b a =
     filter (\<lambda>c. cr_source_address c = a \<or> cr_destination_address c = address_bytes a) (hm_values (br_conversions b))"

record BridgeStats =
  bs_state :: BridgeState
  bs_total_locked :: u64
  bs_total_minted :: u64
  bs_total_fees :: u64
  bs_pending_conversions :: u64
  bs_completed_conversions :: u64
  bs_utxo_height :: u64
  bs_evm_height :: u64

definition bridge_stats :: "DualStateBridge \<Rightarrow> BridgeStats" where
  "bridge_stats b =
     \<lparr>bs_state = br_state b, bs_total_locked = br_total_locked b, bs_total_minted = br_total_minted b,
      bs_total_fees = br_total_fees b,
      bs_pending_conversions = of_nat (length (filter (\<lambda>c. cr_status c = ConvPending) (hm_values (br_conversions b)))),
      bs_completed_conversions = of_nat (length (filter (\<lambda>c. cr_status c = ConvCompleted) (hm_values (br_conversions b)))),
      bs_utxo_height = br_utxo_height b, bs_evm_height = br_evm_height b\<rparr>"

definition verify_invariant :: "DualStateBridge \<Rightarrow> bool" where
  "verify_invariant b = (br_total_minted b + br_total_fees b \<le> br_total_locked b)"


subsection \<open>Requests\<close>

lemma fee_split:
  assumes "ConversionRequest_new e now dir amount src dst tx height req = Ok c"
  shows "unat (cr_fee c) + unat (cr_net_amount c) = unat amount" and "unat (cr_fee c) = unat amount div 1000"
proof -
  have "unat (mul_div amount (ucast BRIDGE_FEE_BASIS_POINTS) 10000) = unat amount * 10 div 10000"
    by (simp add: unat_mul_div_le BRIDGE_FEE_BASIS_POINTS_def)
  also have "\<dots> = unat amount div 1000" by simp
  finally have fee: "unat (mul_div amount (ucast BRIDGE_FEE_BASIS_POINTS) 10000) = unat amount div 1000" .
  then show "unat (cr_fee c) + unat (cr_net_amount c) = unat amount" "unat (cr_fee c) = unat amount div 1000"
    using assms by (auto simp: ConversionRequest_new_def Let_def unat_saturating_sub split: if_splits)
qed

definition required_depth :: "ConversionDirection \<Rightarrow> u64" where
  "required_depth dir = (case dir of UtxoToAccount \<Rightarrow> 6 | AccountToUtxo \<Rightarrow> 12)"

definition conv_ok :: "h256 \<Rightarrow> ConversionRequest \<Rightarrow> bool" where
  "conv_ok i c = (cr_id c = i \<and> unat (cr_fee c) + unat (cr_net_amount c) = unat (cr_amount c)
     \<and> cr_required_confirmations c = required_depth (cr_direction c)
     \<and> (cr_status c = ConvConfirmed \<longrightarrow> required_depth (cr_direction c) \<le> cr_confirmations c))"

definition open_amount :: "ConversionRequest \<Rightarrow> nat" where
  "open_amount c = (if cr_direction c = UtxoToAccount \<and> cr_status c \<noteq> ConvCompleted then unat (cr_amount c) else 0)"

lemma new_request:
  assumes "ConversionRequest_new e now dir amount src dst tx height (required_depth dir) = Ok c"
  shows "conv_ok (cr_id c) c" and "cr_status c = ConvPending" and "cr_amount c = amount" and "cr_direction c = dir"
  using assms fee_split(1) [OF assms]
  by (auto simp: ConversionRequest_new_def conv_ok_def Let_def split: if_splits)

lemma lock_utxo_cases:
  assumes "lock_utxo e now b op tx amount owner rcpt = Ok (b', i)"
  obtains c l where "ConversionRequest_new e now UtxoToAccount amount owner rcpt tx (br_utxo_height b) (required_depth UtxoToAccount) = Ok c"
    and "i = cr_id c" and "br_state b = BridgeActive" and "\<not> hm_contains (br_locked_utxos b) op"
    and "b' = b\<lparr>br_locked_utxos := hm_insert op l (br_locked_utxos b), br_conversions := hm_insert i c (br_conversions b),
       br_total_locked := br_total_locked b + amount\<rparr>"
  using assms
  by (cases "br_state b")
    (auto simp: lock_utxo_def utxo_to_account_def and_then_Ok_iff Let_def required_depth_def UTXO_LOCK_CONFIRMATIONS_def)

lemma burn_cases:
  assumes "burn_for_utxo e now b tx amount burner rcpt = Ok (b', i)"
  obtains c where "ConversionRequest_new e now AccountToUtxo amount (Address burner) (address_bytes rcpt) tx (br_evm_height b)
       (required_depth AccountToUtxo) = Ok c"
    and "i = cr_id c" and "b' = b\<lparr>br_conversions := hm_insert i c (br_conversions b)\<rparr>"
  using assms
  by (auto simp: burn_for_utxo_def account_to_utxo_def and_then_Ok_iff required_depth_def EVM_BURN_CONFIRMATIONS_def)

subsection \<open>Confirmations and the queue\<close>

definition confirm_one :: "u64 \<Rightarrow> u64 \<Rightarrow> ConversionRequest \<Rightarrow> ConversionRequest" where
  "confirm_one uh eh c =
     (if cr_status c = ConvPending then update_confirmations c (source_height uh eh (cr_direction c)) else c)"

lemma confirm_one_frame [simp]:
  "cr_id (confirm_one uh eh c) = cr_id c" "cr_direction (confirm_one uh eh c) = cr_direction c"
  "cr_amount (confirm_one uh eh c) = cr_amount c" "cr_fee (confirm_one uh eh c) = cr_fee c"
  "cr_net_amount (confirm_one uh eh c) = cr_net_amount c"
  "cr_required_confirmations (confirm_one uh eh c) = cr_required_confirmations c"
  by (simp_all add: confirm_one_def update_confirmations_def Let_def)

lemma confirm_one_status:
  "cr_status c \<noteq> ConvPending \<Longrightarrow> confirm_one uh eh c = c"
  "cr_status c = ConvPending \<Longrightarrow> cr_status (confirm_one uh eh c) \<in> {ConvPending, ConvConfirmed}"
  by (simp_all add: confirm_one_def update_confirmations_def Let_def)

lemma conv_ok_confirm_one: "conv_ok i c \<Longrightarrow> conv_ok i (confirm_one uh eh c)"
  by (auto simp: conv_ok_def confirm_one_def update_confirmations_def Let_def)

lemma open_amount_confirm_one [simp]: "open_amount (confirm_one uh eh c) = open_amount c"
  using confirm_one_status [of c uh eh] by (cases "cr_status c = ConvPending") (auto simp: open_amount_def)

lemma confirm_loop_eq:
  "hm_wf m \<Longrightarrow> confirm_loop uh eh queue m =
    (map (\<lambda>(i, c). (i, confirm_one uh eh c)) m,
     queue @ map fst (filter (\<lambda>(i, c). cr_status c = ConvPending \<and> is_ready (confirm_one uh eh c) \<and> i \<notin> set queue) m))"
proof (induction uh eh queue m rule: confirm_loop.induct)
  case (2 uh eh queue i conv rest)
  have wf: "hm_wf rest" and fresh: "i \<notin> fst ` set rest" using 2(3) by (simp_all add: hm_wf_def)
  have same: "filter (\<lambda>(i', c). cr_status c = ConvPending \<and> is_ready (confirm_one uh eh c) \<and> i' \<notin> set (queue @ [i])) rest
      = filter (\<lambda>(i', c). cr_status c = ConvPending \<and> is_ready (confirm_one uh eh c) \<and> i' \<notin> set queue) rest"
    using fresh by (intro filter_cong) force+
  show ?case
  proof (cases "cr_status conv = ConvPending")
    case True
    then have one: "confirm_one uh eh conv = update_confirmations conv (source_height uh eh (cr_direction conv))"
      by (simp add: confirm_one_def)
    show ?thesis
      using 2(1) [OF True refl refl wf] True one same by (simp add: Let_def)
  next
    case False
    then show ?thesis using 2(2) [OF False wf] by (simp add: confirm_one_def)
  qed
qed simp

lemma next_ready_loop_Some:
  assumes "next_ready_loop m queue = (queue', Some c)"
  shows "\<exists>i pre. queue = pre @ i # queue' \<and> hm_get m i = Some c \<and> is_ready c"
  using assms
proof (induction m queue rule: next_ready_loop.induct)
  case (2 m i queue)
  show ?case
  proof (cases "\<exists>conv. hm_get m i = Some conv \<and> is_ready conv")
    case True
    then show ?thesis using 2(3) by auto
  next
    case False
    then have "\<exists>i' pre. queue = pre @ i' # queue' \<and> hm_get m i' = Some c \<and> is_ready c"
      using 2 by (auto split: option.splits if_splits)
    then show ?thesis by (metis append_Cons)
  qed
qed simp

lemma next_ready_loop_None: "next_ready_loop m queue = (queue', None) \<Longrightarrow> queue' = []"
  by (induction m queue rule: next_ready_loop.induct) (auto split: option.splits if_splits)

subsection \<open>Runs of the bridge\<close>

text \<open>
  The states reached by a driver that completes what \<open>get_next_ready\<close> hands out: \<open>out\<close> are the conversions
  handed out and not completed. Every call that the code accepts is a step. The events record what the code
  does not check: the amounts locked, whether the identifier of a request is one already stored, and for
  an unlock its amount and what was minted at that moment.
\<close>

datatype bridge_event =
    EvLock nat bool
  | EvBurn bool
  | EvUnlock nat nat

fun locked_in :: "bridge_event \<Rightarrow> nat" where
  "locked_in (EvLock amount _) = amount"
| "locked_in _ = 0"

fun id_fresh :: "bridge_event \<Rightarrow> bool" where
  "id_fresh (EvLock _ known) = (\<not> known)"
| "id_fresh (EvBurn known) = (\<not> known)"
| "id_fresh (EvUnlock _ _) = True"

fun unlock_covered :: "bridge_event \<Rightarrow> bool" where
  "unlock_covered (EvUnlock amount minted) = (amount \<le> minted)"
| "unlock_covered _ = True"

definition unlock_event :: "DualStateBridge \<Rightarrow> h256 \<Rightarrow> bridge_event" where
  "unlock_event b i = EvUnlock (held (\<lambda>c. unat (cr_amount c)) (hm_get (br_conversions b) i)) (unat (br_total_minted b))"

inductive bridge_run ::
  "ext \<Rightarrow> (nat \<Rightarrow> bool) \<Rightarrow> bridge_event list \<Rightarrow> DualStateBridge \<Rightarrow> h256 list \<Rightarrow> bool" for e write_returns where
  new: "bridge_run e write_returns [] DualStateBridge_new []"
| pause: "bridge_run e write_returns evs b out \<Longrightarrow> bridge_run e write_returns evs (bridge_pause b) out"
| resume: "bridge_run e write_returns evs b out \<Longrightarrow> bridge_run e write_returns evs (bridge_resume b) out"
| stop: "bridge_run e write_returns evs b out \<Longrightarrow> bridge_run e write_returns evs (emergency_stop b) out"
| heights: "bridge_run e write_returns evs b out \<Longrightarrow> bridge_run e write_returns evs (update_heights b uh eh) out"
| lock: "bridge_run e write_returns evs b out \<Longrightarrow> lock_utxo e now b op tx amount owner rcpt = Ok (b', i)
    \<Longrightarrow> bridge_run e write_returns (EvLock (unat amount) (hm_contains (br_conversions b) i) # evs) b' out"
| burn: "bridge_run e write_returns evs b out \<Longrightarrow> burn_for_utxo e now b tx amount burner to' = Ok (b', i)
    \<Longrightarrow> bridge_run e write_returns (EvBurn (hm_contains (br_conversions b) i) # evs) b' out"
| confirm: "bridge_run e write_returns evs b out \<Longrightarrow> bridge_run e write_returns evs (process_confirmations b) out"
| idle: "bridge_run e write_returns evs b out \<Longrightarrow> get_next_ready b = (b', None) \<Longrightarrow> bridge_run e write_returns evs b' out"
| hand_out: "bridge_run e write_returns evs b out \<Longrightarrow> get_next_ready b = (b', Some c)
    \<Longrightarrow> bridge_run e write_returns evs b' (cr_id c # out)"
| mint: "bridge_run e write_returns evs b out \<Longrightarrow> i \<in> set out \<Longrightarrow> complete_mint now b i mint_tx mint_block = Ok b'
    \<Longrightarrow> bridge_run e write_returns evs b' (removeAll i out)"
| unlock: "bridge_run e write_returns evs b out \<Longrightarrow> i \<in> set out
    \<Longrightarrow> complete_unlock write_returns now b i unlock_tx = Some (Ok b')
    \<Longrightarrow> bridge_run e write_returns (unlock_event b i # evs) b' (removeAll i out)"

text \<open>What holds while identifiers are fresh.\<close>

definition bridge_inv :: "DualStateBridge \<Rightarrow> h256 list \<Rightarrow> bool" where
  "bridge_inv b out =
     (hm_wf (br_conversions b) \<and> (\<forall>i c. hm_get (br_conversions b) i = Some c \<longrightarrow> conv_ok i c)
      \<and> distinct (out @ br_processing_queue b)
      \<and> (\<forall>i \<in> set (out @ br_processing_queue b). \<exists>c. hm_get (br_conversions b) i = Some c \<and> cr_status c = ConvConfirmed)
      \<and> unat (br_total_minted b) + unat (br_total_fees b) + weight open_amount (br_conversions b)
          = unat (br_total_locked b))"

lemma bridge_inv_frame:
  assumes "bridge_inv b out" and "br_conversions b' = br_conversions b"
    and "br_processing_queue b' = br_processing_queue b" and "br_total_minted b' = br_total_minted b"
    and "br_total_fees b' = br_total_fees b" and "br_total_locked b' = br_total_locked b"
  shows "bridge_inv b' out"
  using assms by (simp add: bridge_inv_def)

text \<open>A fresh pending request joins the map.\<close>

lemma bridge_inv_insert:
  assumes inv: "bridge_inv b out" and fresh: "\<not> hm_contains (br_conversions b) i"
    and c: "conv_ok i c" "cr_status c = ConvPending"
    and "br_conversions b' = hm_insert i c (br_conversions b)"
    and "br_processing_queue b' = br_processing_queue b" and "br_total_minted b' = br_total_minted b"
    and "br_total_fees b' = br_total_fees b"
    and locked: "unat (br_total_locked b') = unat (br_total_locked b) + open_amount c"
  shows "bridge_inv b' out"
proof -
  have none: "hm_get (br_conversions b) i = None" using fresh by (simp add: hm_contains_def)
  have "weight open_amount (br_conversions b') = weight open_amount (br_conversions b) + open_amount c"
    using inv none by (simp add: assms(5) bridge_inv_def hm_weight.total_put_fresh)
  moreover have "j \<noteq> i" if "j \<in> set (out @ br_processing_queue b)" for j
    using inv none that by (force simp: bridge_inv_def)
  ultimately show ?thesis using assms by (auto simp: bridge_inv_def)
qed

lemma process_confirmations_inv:
  assumes inv: "bridge_inv b out"
  shows "bridge_inv (process_confirmations b) out"
proof -
  let ?m = "br_conversions b" and ?q = "br_processing_queue b"
  let ?f = "confirm_one (br_utxo_height b) (br_evm_height b)"
  let ?new = "map fst (filter (\<lambda>(i, c). cr_status c = ConvPending \<and> is_ready (?f c) \<and> i \<notin> set ?q) ?m)"
  have wf: "hm_wf ?m" using inv by (simp add: bridge_inv_def)
  have eq: "br_conversions (process_confirmations b) = map (\<lambda>(i, c). (i, ?f c)) ?m"
      "br_processing_queue (process_confirmations b) = ?q @ ?new"
      "br_total_minted (process_confirmations b) = br_total_minted b"
      "br_total_fees (process_confirmations b) = br_total_fees b"
      "br_total_locked (process_confirmations b) = br_total_locked b"
    by (simp_all add: process_confirmations_def confirm_loop_eq [OF wf])
  have new: "\<exists>c. hm_get ?m i = Some c \<and> cr_status c = ConvPending \<and> is_ready (?f c)" if "i \<in> set ?new" for i
    using that wf by (auto simp: hm_mem_iff)
  have old: "\<exists>c. hm_get ?m i = Some c \<and> cr_status c = ConvConfirmed" if "i \<in> set (out @ ?q)" for i
    using inv that unfolding bridge_inv_def by blast
  have "distinct ?new" using wf by (auto simp: hm_wf_def distinct_map_filter)
  moreover have "set ?new \<inter> set (out @ ?q) = {}"
    using new old by fastforce
  ultimately have "distinct (out @ ?q @ ?new)" using inv by (auto simp: bridge_inv_def)
  moreover have "\<exists>c. map_option ?f (hm_get ?m i) = Some c \<and> cr_status c = ConvConfirmed" if "i \<in> set (out @ ?q @ ?new)" for i
    using that new [of i] old [of i] by (auto simp: is_ready_def confirm_one_status)
  moreover have "hm_wf (map (\<lambda>(i, c). (i, ?f c)) ?m)"
    using wf by (simp add: hm_wf_def comp_def case_prod_unfold)
  ultimately show ?thesis
    using inv by (auto simp: bridge_inv_def eq hm_get_map_values weight_map_values conv_ok_confirm_one)
qed

lemma get_next_ready_Some:
  assumes inv: "bridge_inv b out" and run: "get_next_ready b = (b', Some c)"
  shows "bridge_inv b' (cr_id c # out)" and "hm_get (br_conversions b) (cr_id c) = Some c" and "is_ready c"
    and "cr_id c \<notin> set (out @ br_processing_queue b')"
proof -
  obtain q where q: "next_ready_loop (br_conversions b) (br_processing_queue b) = (q, Some c)"
    and b': "b' = b\<lparr>br_processing_queue := q\<rparr>"
    using run by (auto simp: get_next_ready_def split: prod.splits)
  obtain i pre where i: "br_processing_queue b = pre @ i # q" "hm_get (br_conversions b) i = Some c" "is_ready c"
    using next_ready_loop_Some [OF q] by blast
  moreover have "cr_id c = i" using inv i(2) by (auto simp: bridge_inv_def conv_ok_def)
  ultimately show "hm_get (br_conversions b) (cr_id c) = Some c" "is_ready c" by simp_all
  show "bridge_inv b' (cr_id c # out)" "cr_id c \<notin> set (out @ br_processing_queue b')"
    using inv i \<open>cr_id c = i\<close> by (auto simp: bridge_inv_def b')
qed

lemma get_next_ready_None:
  assumes "bridge_inv b out" and "get_next_ready b = (b', None)"
  shows "bridge_inv b' out"
  using assms next_ready_loop_None
  by (fastforce simp: get_next_ready_def bridge_inv_def split: prod.splits)

text \<open>Completing a conversion that was handed out moves its amount between the totals.\<close>

lemma bridge_inv_complete:
  assumes inv: "bridge_inv b out" and i: "i \<in> set out" "hm_get (br_conversions b) i = Some c"
    and conv: "br_conversions b' = hm_insert i (mark_completed now (mark_processing c) tx) (br_conversions b)"
    and queue: "br_processing_queue b' = br_processing_queue b"
    and tot: "unat (br_total_minted b') + unat (br_total_fees b') + unat (br_total_locked b) + open_amount c'
        = unat (br_total_minted b) + unat (br_total_fees b) + unat (br_total_locked b') + open_amount c"
    and done': "c' = mark_completed now (mark_processing c) tx"
  shows "bridge_inv b' (removeAll i out)"
proof -
  have ok: "conv_ok i c'"
    using inv i unfolding bridge_inv_def done' by (simp add: conv_ok_def mark_completed_def mark_processing_def)
  have w: "weight open_amount (br_conversions b') + open_amount c = weight open_amount (br_conversions b) + open_amount c'"
    using weight_insert [of open_amount i c' "br_conversions b"] by (simp add: conv i done')
  have "distinct (removeAll i out @ br_processing_queue b)" "i \<notin> set (br_processing_queue b)"
    using inv i by (auto simp: bridge_inv_def distinct_removeAll)
  moreover have "\<exists>c. hm_get (br_conversions b') j = Some c \<and> cr_status c = ConvConfirmed"
    if "j \<in> set (removeAll i out @ br_processing_queue b)" for j
    using inv that calculation(2) by (auto simp: bridge_inv_def conv)
  ultimately show ?thesis
    using inv ok w tot by (auto simp: bridge_inv_def conv queue done')
qed

lemma complete_mint_inv:
  assumes inv: "bridge_inv b out" and i: "i \<in> set out" and run: "complete_mint now b i mint_tx mint_block = Ok b'"
  shows "bridge_inv b' (removeAll i out)"
proof -
  obtain c where c: "hm_get (br_conversions b) i = Some c" "cr_status c = ConvConfirmed"
    using inv i unfolding bridge_inv_def by (metis UnI1 set_append)
  have dir: "cr_direction c = UtxoToAccount" using run c by (simp add: complete_mint_def split: if_splits)
  let ?c = "mark_completed now (mark_processing c) (H256 mint_tx)"
  have b': "br_conversions b' = hm_insert i ?c (br_conversions b)" "br_processing_queue b' = br_processing_queue b"
      "br_total_minted b' = br_total_minted b + cr_net_amount c" "br_total_fees b' = br_total_fees b + cr_fee c"
      "br_total_locked b' = br_total_locked b"
    using run c dir by (auto simp: complete_mint_def mark_processing_def Let_def)
  have fee: "unat (cr_fee c) + unat (cr_net_amount c) = unat (cr_amount c)"
    using inv c by (auto simp: bridge_inv_def conv_ok_def)
  have "open_amount c \<le> weight open_amount (br_conversions b)"
    using hm_weight.total_held [of "br_conversions b" open_amount i] inv c by (simp add: bridge_inv_def)
  then have "unat (br_total_minted b) + unat (br_total_fees b) + unat (cr_amount c) \<le> unat (br_total_locked b)"
    using inv dir c by (simp add: bridge_inv_def open_amount_def)
  then have "unat (br_total_minted b') = unat (br_total_minted b) + unat (cr_net_amount c)"
      "unat (br_total_fees b') = unat (br_total_fees b) + unat (cr_fee c)"
    using fee unat_less_power [of "br_total_locked b"] by (simp_all add: b' unat_add_exact)
  then show ?thesis
    using fee dir c by (intro bridge_inv_complete [OF inv i c(1) b'(1,2) _ refl])
      (simp add: b' open_amount_def mark_completed_def)
qed

lemma complete_unlock_inv:
  assumes inv: "bridge_inv b out" and i: "i \<in> set out"
    and run: "complete_unlock write_returns now b i unlock_tx = Some (Ok b')"
    and minted: "held (\<lambda>c. unat (cr_amount c)) (hm_get (br_conversions b) i) \<le> unat (br_total_minted b)"
  shows "bridge_inv b' (removeAll i out)"
proof -
  obtain c where c: "hm_get (br_conversions b) i = Some c" "cr_status c = ConvConfirmed"
    using inv i unfolding bridge_inv_def by (metis UnI1 set_append)
  have dir: "cr_direction c = AccountToUtxo"
    using run c by (simp add: complete_unlock_def split: if_splits)
  let ?c = "mark_completed now (mark_processing c) unlock_tx"
  have b': "br_conversions b' = hm_insert i ?c (br_conversions b)" "br_processing_queue b' = br_processing_queue b"
      "br_total_minted b' = saturating_sub (br_total_minted b) (cr_amount c)"
      "br_total_fees b' = br_total_fees b + cr_fee c"
      "br_total_locked b' = saturating_sub (br_total_locked b) (cr_net_amount c)"
    using run c dir
    by (auto simp: complete_unlock_def assign_while_reading_def mark_processing_def Let_def split: if_splits)
  have fee: "unat (cr_fee c) + unat (cr_net_amount c) = unat (cr_amount c)"
    using inv c by (auto simp: bridge_inv_def conv_ok_def)
  have le: "unat (br_total_minted b) + unat (br_total_fees b) \<le> unat (br_total_locked b)"
      "unat (cr_amount c) \<le> unat (br_total_minted b)"
    using inv minted c by (simp_all add: bridge_inv_def)
  then have "unat (br_total_fees b') = unat (br_total_fees b) + unat (cr_fee c)"
    using fee unat_less_power [of "br_total_locked b"] by (simp add: b' unat_add_exact)
  then show ?thesis
    using fee dir le by (intro bridge_inv_complete [OF inv i c(1) b'(1,2) _ refl])
      (simp add: b' open_amount_def unat_saturating_sub mark_completed_def mark_processing_def)
qed

text \<open>
  What holds even when a request replaces one with the same identifier: a conversion that was handed out
  and not completed is not completed in the map either, and the totals are an inequality.
\<close>

definition bridge_safe :: "nat \<Rightarrow> DualStateBridge \<Rightarrow> h256 list \<Rightarrow> bool" where
  "bridge_safe n b out =
     (hm_wf (br_conversions b) \<and> (\<forall>i c. hm_get (br_conversions b) i = Some c \<longrightarrow> conv_ok i c)
      \<and> (\<forall>i \<in> set out. \<exists>c. hm_get (br_conversions b) i = Some c \<and> cr_status c \<noteq> ConvCompleted)
      \<and> unat (br_total_minted b) + unat (br_total_fees b) + weight open_amount (br_conversions b)
          \<le> unat (br_total_locked b)
      \<and> unat (br_total_locked b) \<le> n)"

lemma bridge_safe_frame:
  assumes "bridge_safe n b out" and "br_conversions b' = br_conversions b"
    and "br_total_minted b' = br_total_minted b"
    and "br_total_fees b' = br_total_fees b" and "br_total_locked b' = br_total_locked b"
  shows "bridge_safe n b' out"
  using assms by (simp add: bridge_safe_def)

lemma bridge_safe_insert:
  assumes "bridge_safe n b out" and "conv_ok i c" and "cr_status c = ConvPending"
    and conv: "br_conversions b' = hm_insert i c (br_conversions b)"
    and "br_total_minted b' = br_total_minted b" and "br_total_fees b' = br_total_fees b"
    and "unat (br_total_locked b') = unat (br_total_locked b) + open_amount c"
  shows "bridge_safe (n + open_amount c) b' out"
  using assms weight_insert [of open_amount i c "br_conversions b"] by (auto simp: bridge_safe_def)

lemma process_confirmations_safe:
  assumes "bridge_safe n b out"
  shows "bridge_safe n (process_confirmations b) out"
proof -
  let ?f = "confirm_one (br_utxo_height b) (br_evm_height b)"
  have wf: "hm_wf (br_conversions b)" using assms by (simp add: bridge_safe_def)
  have "cr_status (?f c) \<noteq> ConvCompleted" if "cr_status c \<noteq> ConvCompleted" for c
    using that by (simp add: confirm_one_def update_confirmations_def Let_def)
  then show ?thesis
    using assms
    by (fastforce simp: bridge_safe_def process_confirmations_def confirm_loop_eq [OF wf] hm_get_map_values
        weight_map_values hm_wf_map_values conv_ok_confirm_one)
qed

lemma get_next_ready_safe:
  assumes safe: "bridge_safe n b out" and run: "get_next_ready b = (b', r)"
  shows "bridge_safe n b' (case r of None \<Rightarrow> out | Some c \<Rightarrow> cr_id c # out)"
proof -
  obtain q where q: "next_ready_loop (br_conversions b) (br_processing_queue b) = (q, r)"
    and b': "b' = b\<lparr>br_processing_queue := q\<rparr>"
    using run by (auto simp: get_next_ready_def split: prod.splits)
  have frame: "bridge_safe n b' out" using safe by (rule bridge_safe_frame) (simp_all add: b')
  show ?thesis
  proof (cases r)
    case None
    then show ?thesis using frame by simp
  next
    case (Some c)
    obtain i where i: "hm_get (br_conversions b) i = Some c" "is_ready c"
      using next_ready_loop_Some [OF q [unfolded Some]] by blast
    then have "cr_id c = i" using safe by (auto simp: bridge_safe_def conv_ok_def)
    then show ?thesis using frame i Some by (auto simp: bridge_safe_def b' is_ready_def)
  qed
qed

lemma bridge_safe_complete:
  assumes safe: "bridge_safe n b out" and i: "hm_get (br_conversions b) i = Some c"
    and conv: "br_conversions b' = hm_insert i c' (br_conversions b)"
    and done': "c' = mark_completed now (mark_processing c) tx"
    and tot: "unat (br_total_minted b') + unat (br_total_fees b') + unat (br_total_locked b)
        = unat (br_total_minted b) + unat (br_total_fees b) + unat (br_total_locked b') + open_amount c"
    and le: "unat (br_total_locked b') \<le> unat (br_total_locked b)"
  shows "bridge_safe n b' (removeAll i out)"
proof -
  have "conv_ok i c'"
    using safe i unfolding bridge_safe_def done' by (simp add: conv_ok_def mark_completed_def mark_processing_def)
  moreover have "open_amount c' = 0" by (simp add: open_amount_def done' mark_completed_def)
  then have "weight open_amount (br_conversions b') + open_amount c = weight open_amount (br_conversions b)"
    using weight_insert [of open_amount i c' "br_conversions b"] by (simp add: conv i)
  ultimately show ?thesis using safe tot le by (auto simp: bridge_safe_def conv)
qed

lemma complete_mint_safe:
  assumes safe: "bridge_safe n b out" and i: "i \<in> set out" and run: "complete_mint now b i mint_tx mint_block = Ok b'"
  shows "bridge_safe n b' (removeAll i out)"
proof -
  obtain c where c: "hm_get (br_conversions b) i = Some c" "cr_status c \<noteq> ConvCompleted"
    using safe i unfolding bridge_safe_def by blast
  have dir: "cr_direction c = UtxoToAccount" using run c by (simp add: complete_mint_def split: if_splits)
  have b': "br_conversions b' = hm_insert i (mark_completed now (mark_processing c) (H256 mint_tx)) (br_conversions b)"
      "br_total_minted b' = br_total_minted b + cr_net_amount c" "br_total_fees b' = br_total_fees b + cr_fee c"
      "br_total_locked b' = br_total_locked b"
    using run c dir by (auto simp: complete_mint_def mark_processing_def Let_def)
  have fee: "unat (cr_fee c) + unat (cr_net_amount c) = unat (cr_amount c)"
    using safe c by (auto simp: bridge_safe_def conv_ok_def)
  have open_c: "open_amount c = unat (cr_amount c)" using c dir by (simp add: open_amount_def)
  have "open_amount c \<le> weight open_amount (br_conversions b)"
    using hm_weight.total_held [of "br_conversions b" open_amount i] safe c by (simp add: bridge_safe_def)
  then have "unat (br_total_minted b) + unat (br_total_fees b) + unat (cr_amount c) \<le> unat (br_total_locked b)"
    using safe open_c by (simp add: bridge_safe_def)
  then have "unat (br_total_minted b') = unat (br_total_minted b) + unat (cr_net_amount c)"
      "unat (br_total_fees b') = unat (br_total_fees b) + unat (cr_fee c)"
    using fee unat_less_power [of "br_total_locked b"] by (simp_all add: b' unat_add_exact)
  then show ?thesis
    using fee open_c by (intro bridge_safe_complete [OF safe c(1) b'(1) refl]) (simp_all add: b')
qed

lemma complete_unlock_safe:
  assumes safe: "bridge_safe n b out" and i: "i \<in> set out"
    and run: "complete_unlock write_returns now b i unlock_tx = Some (Ok b')"
    and minted: "unlock_covered (unlock_event b i)"
  shows "bridge_safe n b' (removeAll i out)"
proof -
  obtain c where c: "hm_get (br_conversions b) i = Some c"
    using safe i unfolding bridge_safe_def by blast
  have dir: "cr_direction c = AccountToUtxo"
    using run c by (simp add: complete_unlock_def split: if_splits)
  have b': "br_conversions b' = hm_insert i (mark_completed now (mark_processing c) unlock_tx) (br_conversions b)"
      "br_total_minted b' = saturating_sub (br_total_minted b) (cr_amount c)"
      "br_total_fees b' = br_total_fees b + cr_fee c"
      "br_total_locked b' = saturating_sub (br_total_locked b) (cr_net_amount c)"
    using run c dir
    by (auto simp: complete_unlock_def assign_while_reading_def mark_processing_def Let_def split: if_splits)
  have fee: "unat (cr_fee c) + unat (cr_net_amount c) = unat (cr_amount c)"
    using safe c by (auto simp: bridge_safe_def conv_ok_def)
  have le: "unat (br_total_minted b) + unat (br_total_fees b) \<le> unat (br_total_locked b)"
      "unat (cr_amount c) \<le> unat (br_total_minted b)"
    using safe minted c by (simp_all add: bridge_safe_def unlock_event_def)
  then have "unat (br_total_fees b') = unat (br_total_fees b) + unat (cr_fee c)"
    using fee unat_less_power [of "br_total_locked b"] by (simp add: b' unat_add_exact)
  then show ?thesis
    using fee dir le by (intro bridge_safe_complete [OF safe c b'(1) refl])
      (simp_all add: b' open_amount_def unat_saturating_sub)
qed

lemma bridge_run_wf: "bridge_run e write_returns evs b out \<Longrightarrow> hm_wf (br_conversions b)"
proof (induction rule: bridge_run.induct)
  case (lock evs b out now op tx amount owner rcpt b' i)
  then show ?case by (auto elim!: lock_utxo_cases)
next
  case (burn evs b out now tx amount burner to' b' i)
  then show ?case by (auto elim!: burn_cases)
next
  case (confirm evs b out)
  then show ?case by (simp add: process_confirmations_def confirm_loop_eq hm_wf_map_values)
qed (auto simp: DualStateBridge_new_def bridge_pause_def bridge_resume_def emergency_stop_def update_heights_def
    get_next_ready_def complete_mint_def complete_unlock_def Let_def assign_while_reading_def
    split: prod.splits option.splits if_splits)

lemma bridge_run_safe:
  "bridge_run e write_returns evs b out \<Longrightarrow> sum_list (map locked_in evs) < 2 ^ 64
    \<Longrightarrow> \<forall>x \<in> set evs. unlock_covered x \<Longrightarrow> bridge_safe (sum_list (map locked_in evs)) b out"
proof (induction rule: bridge_run.induct)
  case new
  show ?case by (simp add: bridge_safe_def DualStateBridge_new_def)
next
  case (lock evs b out now op tx amount owner rcpt b' i)
  obtain c l where c: "ConversionRequest_new e now UtxoToAccount amount owner rcpt tx (br_utxo_height b) (required_depth UtxoToAccount) = Ok c"
    and b': "i = cr_id c" "b' = b\<lparr>br_locked_utxos := hm_insert op l (br_locked_utxos b),
       br_conversions := hm_insert i c (br_conversions b), br_total_locked := br_total_locked b + amount\<rparr>"
    using lock_utxo_cases [OF lock.hyps(2)] by metis
  have safe: "bridge_safe (sum_list (map locked_in evs)) b out" using lock by simp
  then have "unat (br_total_locked b + amount) = unat (br_total_locked b) + unat amount"
    using lock.prems(1) by (intro unat_add_exact) (simp add: bridge_safe_def)
  moreover have "open_amount c = unat amount" using new_request [OF c] by (simp add: open_amount_def)
  ultimately have "bridge_safe (sum_list (map locked_in evs) + open_amount c) b' out"
    using new_request [OF c] b' by (intro bridge_safe_insert [OF safe, of i c]) auto
  then show ?case using \<open>open_amount c = _\<close> by (simp add: add.commute)
next
  case (burn evs b out now tx amount burner to' b' i)
  obtain c where c: "ConversionRequest_new e now AccountToUtxo amount (Address burner) (address_bytes to') tx (br_evm_height b)
       (required_depth AccountToUtxo) = Ok c"
    and b': "i = cr_id c" "b' = b\<lparr>br_conversions := hm_insert i c (br_conversions b)\<rparr>"
    using burn_cases [OF burn.hyps(2)] by metis
  have safe: "bridge_safe (sum_list (map locked_in evs)) b out" using burn by simp
  have "open_amount c = 0" using new_request(4) [OF c] by (simp add: open_amount_def)
  then show ?case
    using bridge_safe_insert [OF safe, of i c b'] new_request [OF c] b' by simp
next
  case (confirm evs b out)
  then show ?case by (intro process_confirmations_safe) simp
next
  case (idle evs b out b')
  then show ?case using get_next_ready_safe [of _ b out b' None] by simp
next
  case (hand_out evs b out b' c)
  then show ?case using get_next_ready_safe [of _ b out b' "Some c"] by simp
next
  case (mint evs b out i now mint_tx mint_block b')
  then show ?case by (intro complete_mint_safe) simp_all
next
  case (unlock evs b out i now unlock_tx b')
  have "bridge_safe (sum_list (map locked_in evs)) b' (removeAll i out)"
    using unlock by (intro complete_unlock_safe [OF _ unlock.hyps(2,3)]) simp_all
  then show ?case by (simp add: unlock_event_def)
qed (auto elim!: bridge_safe_frame simp: bridge_pause_def bridge_resume_def emergency_stop_def update_heights_def)

lemma bridge_run_inv:
  "bridge_run e write_returns evs b out \<Longrightarrow> sum_list (map locked_in evs) < 2 ^ 64
    \<Longrightarrow> \<forall>x \<in> set evs. unlock_covered x \<Longrightarrow> \<forall>x \<in> set evs. id_fresh x \<Longrightarrow> bridge_inv b out"
proof (induction rule: bridge_run.induct)
  case new
  show ?case by (simp add: bridge_inv_def DualStateBridge_new_def)
next
  case (lock evs b out now op tx amount owner rcpt b' i)
  obtain c l where c: "ConversionRequest_new e now UtxoToAccount amount owner rcpt tx (br_utxo_height b) (required_depth UtxoToAccount) = Ok c"
    and b': "i = cr_id c" "b' = b\<lparr>br_locked_utxos := hm_insert op l (br_locked_utxos b),
       br_conversions := hm_insert i c (br_conversions b), br_total_locked := br_total_locked b + amount\<rparr>"
    using lock_utxo_cases [OF lock.hyps(2)] by metis
  have inv: "bridge_inv b out" and fresh: "\<not> hm_contains (br_conversions b) i" using lock by simp_all
  have "bridge_safe (sum_list (map locked_in evs)) b out" using lock by (intro bridge_run_safe) simp_all
  then have "unat (br_total_locked b + amount) = unat (br_total_locked b) + unat amount"
    using lock.prems(1) by (intro unat_add_exact) (simp add: bridge_safe_def)
  then show ?case
    using new_request [OF c] b' by (intro bridge_inv_insert [OF inv fresh, of c]) (auto simp: open_amount_def)
next
  case (burn evs b out now tx amount burner to' b' i)
  obtain c where c: "ConversionRequest_new e now AccountToUtxo amount (Address burner) (address_bytes to') tx (br_evm_height b)
       (required_depth AccountToUtxo) = Ok c"
    and b': "i = cr_id c" "b' = b\<lparr>br_conversions := hm_insert i c (br_conversions b)\<rparr>"
    using burn_cases [OF burn.hyps(2)] by metis
  have inv: "bridge_inv b out" and fresh: "\<not> hm_contains (br_conversions b) i" using burn by simp_all
  show ?case
    using new_request [OF c] b' by (intro bridge_inv_insert [OF inv fresh, of c]) (auto simp: open_amount_def)
next
  case (confirm evs b out)
  then show ?case by (intro process_confirmations_inv) simp
next
  case (idle evs b out b')
  then show ?case using get_next_ready_None by blast
next
  case (hand_out evs b out b' c)
  then show ?case using get_next_ready_Some(1) by blast
next
  case (mint evs b out i now mint_tx mint_block b')
  then show ?case using complete_mint_inv by blast
next
  case (unlock evs b out i now unlock_tx b')
  then show ?case
    by (intro complete_unlock_inv [OF _ unlock.hyps(2,3)]) (simp_all add: unlock_event_def)
qed (auto elim!: bridge_inv_frame simp: bridge_pause_def bridge_resume_def emergency_stop_def update_heights_def)

subsection \<open>Properties\<close>

text \<open>
  C10. The bridge stays solvent: in every state of a driver that completes only what it is handed, what was
  minted, the fees and the locked amounts still to be minted are at most the locked total, so the
  check of \<open>verify_invariant\<close> passes, provided that the amounts ever locked sum to less than \<open>2^64\<close> and that
  every completed unlock is of at most what was minted at that moment (the code checks neither). They
  add up exactly to the locked total when no request had the identifier of a stored one.
\<close>

theorem bridge_solvent:
  assumes "bridge_run e write_returns evs b out"
    and "sum_list (map locked_in evs) < 2 ^ 64" and "\<forall>x \<in> set evs. unlock_covered x"
  shows "unat (br_total_minted b) + unat (br_total_fees b) + weight open_amount (br_conversions b)
      \<le> unat (br_total_locked b) \<and> verify_invariant b
    \<and> ((\<forall>x \<in> set evs. id_fresh x) \<longrightarrow>
        unat (br_total_minted b) + unat (br_total_fees b) + weight open_amount (br_conversions b)
          = unat (br_total_locked b))"
proof -
  have le: "unat (br_total_minted b) + unat (br_total_fees b) + weight open_amount (br_conversions b)
      \<le> unat (br_total_locked b)"
    using bridge_run_safe [OF assms] by (simp add: bridge_safe_def)
  then have "unat (br_total_minted b + br_total_fees b) = unat (br_total_minted b) + unat (br_total_fees b)"
    using unat_less_power [of "br_total_locked b"] by (intro unat_add_exact) simp
  then have "verify_invariant b" using le by (simp add: verify_invariant_def word_le_nat_alt)
  then show ?thesis using le bridge_run_inv [OF assms] by (simp add: bridge_inv_def)
qed

text \<open>
  Both conditions are needed. An unlock of what was never minted, with a lock whose \<open>write\<close> returns, leaves
  fees without a locked amount behind, so that \<open>verify_invariant\<close> fails.
\<close>

lemma uncovered_unlock_insolvent:
  assumes "get_conversion b i = Some c" and "cr_direction c = AccountToUtxo" and "write_returns 1"
    and "br_total_minted b = 0" and "br_total_locked b = 0" and "br_total_fees b = 0" and "0 < cr_fee c"
  shows "\<exists>b'. complete_unlock write_returns now b i tx = Some (Ok b') \<and> \<not> verify_invariant b'"
proof -
  have "saturating_sub 0 x = 0" for x :: u64 by (simp add: saturating_sub_def)
  then show ?thesis
    using assms
    by (simp add: complete_unlock_def get_conversion_def assign_while_reading_def mark_processing_def Let_def
        verify_invariant_def word_le_nat_alt word_less_nat_alt)
qed

text \<open>A bridge with one conversion that has its confirmations.\<close>

definition example_outpoint :: OutPoint where
  "example_outpoint = OutPoint_new h256_zero 0"

definition example_bridge :: DualStateBridge where
  "example_bridge =
     (case lock_utxo sample_ext 0 DualStateBridge_new example_outpoint h256_zero 1000000 address_zero (replicate 20 0) of
        Err _ \<Rightarrow> DualStateBridge_new
      | Ok (b, _) \<Rightarrow> process_confirmations (update_heights b 5 0))"

lemma example_lock:
  "\<exists>b i. lock_utxo sample_ext 0 DualStateBridge_new example_outpoint h256_zero 1000000 address_zero (replicate 20 0)
      = Ok (b, i) \<and> br_conversions b = [(i, \<lparr>cr_id = i, cr_direction = UtxoToAccount, cr_status = ConvPending,
        cr_amount = 1000000, cr_fee = 1000, cr_net_amount = 999000, cr_source_address = address_zero,
        cr_destination_address = replicate 20 0, cr_source_tx_hash = h256_zero, cr_destination_tx_hash = None,
        cr_request_height = 0, cr_confirmations = 0, cr_required_confirmations = 6, cr_created_at = 0,
        cr_completed_at = None, cr_error = None\<rparr>)] \<and> br_processing_queue b = []"
  by (simp add: lock_utxo_def DualStateBridge_new_def utxo_to_account_def ConversionRequest_new_def Let_def
      MIN_BRIDGE_AMOUNT_def MAX_BRIDGE_AMOUNT_def BRIDGE_FEE_BASIS_POINTS_def UTXO_LOCK_CONFIRMATIONS_def
      mul_div_def saturating_sub_def hm_insert_def fail_if_def)

lemma example_bridge_run: "bridge_run sample_ext (\<lambda>n. n = 0) [EvLock 1000000 False] example_bridge []"
proof -
  obtain b i where b: "lock_utxo sample_ext 0 DualStateBridge_new example_outpoint h256_zero 1000000 address_zero
      (replicate 20 0) = Ok (b, i)" using example_lock by blast
  have "bridge_run sample_ext (\<lambda>n. n = 0) [EvLock (unat (1000000 :: u64))
      (hm_contains (br_conversions DualStateBridge_new) i)] b []"
    by (rule bridge_run.lock [OF bridge_run.new b])
  then have "bridge_run sample_ext (\<lambda>n. n = 0) [EvLock 1000000 False] b []"
    by (simp add: DualStateBridge_new_def)
  then show ?thesis
    unfolding example_bridge_def b by (auto intro!: bridge_run.confirm bridge_run.heights)
qed

lemma example_bridge_ready:
  "\<exists>c. get_next_ready example_bridge = (example_bridge\<lparr>br_processing_queue := []\<rparr>, Some c) \<and> cr_confirmations c = 6
     \<and> cr_direction c = UtxoToAccount"
  using example_lock
  by (auto simp: example_bridge_def update_heights_def process_confirmations_def confirm_loop_eq hm_wf_def confirm_one_def
      update_confirmations_def is_ready_def get_next_ready_def hm_get_def Let_def)

theorem bridge_solvent_witness:
  "verify_invariant example_bridge
    \<and> unat (br_total_minted example_bridge) + unat (br_total_fees example_bridge)
        + weight open_amount (br_conversions example_bridge) = unat (br_total_locked example_bridge)"
  using bridge_solvent [OF example_bridge_run] by simp

text \<open>
  While identifiers are fresh (and the conditions of solvency hold), only confirmed conversions are handed out, and each once: what \<open>get_next_ready\<close> returns is a stored
  conversion with at least the 6 or 12 confirmations of its direction, it is not one of those handed out and
  not completed, and it is no longer in the queue.
\<close>

theorem handed_out_confirmed_once:
  assumes "bridge_run e write_returns evs b out" and "get_next_ready b = (b', Some c)"
    and "sum_list (map locked_in evs) < 2 ^ 64" and "\<forall>x \<in> set evs. unlock_covered x \<and> id_fresh x"
  shows "get_conversion b (cr_id c) = Some c \<and> cr_status c = ConvConfirmed
    \<and> (case cr_direction c of UtxoToAccount \<Rightarrow> 6 | AccountToUtxo \<Rightarrow> 12) \<le> cr_confirmations c
    \<and> cr_id c \<notin> set out \<and> cr_id c \<notin> set (br_processing_queue b')"
proof -
  have inv: "bridge_inv b out" using assms by (intro bridge_run_inv [OF assms(1)]) simp_all
  note ready = get_next_ready_Some [OF inv assms(2)]
  then have "conv_ok (cr_id c) c" using inv by (simp add: bridge_inv_def)
  then show ?thesis
    using ready by (simp add: get_conversion_def is_ready_def conv_ok_def required_depth_def)
qed

theorem handed_out_confirmed_once_witness:
  "\<exists>c. snd (get_next_ready example_bridge) = Some c \<and> get_conversion example_bridge (cr_id c) = Some c
    \<and> 6 \<le> cr_confirmations c"
proof -
  obtain c where c: "get_next_ready example_bridge = (example_bridge\<lparr>br_processing_queue := []\<rparr>, Some c)"
    and dir: "cr_direction c = UtxoToAccount"
    using example_bridge_ready by blast
  show ?thesis using handed_out_confirmed_once [OF example_bridge_run c] c dir by auto
qed

text \<open>
  Locking: the request is refused, with the error of the first check that fails, exactly when the bridge
  is not active, the outpoint is already locked or the amount is out of range; otherwise the outpoint is
  locked, so that a second lock of it is refused, and the locked total grows by the amount.
\<close>

theorem lock_utxo_outcome:
  "case lock_utxo e now b op tx amount owner rcpt of
     Err x \<Rightarrow> (case br_state b of BridgePaused \<Rightarrow> x = ErrBridgePaused | BridgeStopped \<Rightarrow> x = ErrBridgeStopped
       | BridgeActive \<Rightarrow> if hm_contains (br_locked_utxos b) op then x = UtxoAlreadyLocked op
           else if amount < 1000000 then x = AmountTooSmall 1000000 amount
           else 100000000000000 < amount \<and> x = AmountTooLarge 100000000000000 amount)
   | Ok (b', i) \<Rightarrow> br_state b = BridgeActive \<and> \<not> hm_contains (br_locked_utxos b) op
       \<and> 1000000 \<le> amount \<and> amount \<le> 100000000000000
       \<and> br_total_locked b' = br_total_locked b + amount
       \<and> lock_utxo e now' b' op tx' amount' owner' rcpt' = Err (UtxoAlreadyLocked op)"
proof (cases "br_state b")
  case BridgeActive
  show ?thesis
    by (auto simp: BridgeActive lock_utxo_def utxo_to_account_def ConversionRequest_new_def Let_def fail_if_def
        MIN_BRIDGE_AMOUNT_def MAX_BRIDGE_AMOUNT_def not_less)
qed (simp_all add: lock_utxo_def)

text \<open>Without a write lock that ignores the reader, a burn never gets past its confirmations.\<close>

definition burn_open :: "DualStateBridge \<Rightarrow> bool" where
  "burn_open b \<longleftrightarrow> (\<forall>i c. hm_get (br_conversions b) i = Some c \<and> cr_direction c = AccountToUtxo
     \<longrightarrow> cr_status c \<in> {ConvPending, ConvConfirmed})"

lemma burn_open_insert:
  assumes "burn_open b" and "cr_direction c = UtxoToAccount \<or> cr_status c = ConvPending"
    and "br_conversions b' = hm_insert i c (br_conversions b)"
  shows "burn_open b'"
  using assms by (auto simp: burn_open_def hm_get_insert split: if_splits)

lemma complete_unlock_hangs:
  assumes "\<not> write_returns 1" and "hm_get (br_conversions b) i = Some c" and "cr_direction c = AccountToUtxo"
  shows "complete_unlock write_returns now b i tx = None"
  using assms by (simp add: complete_unlock_def assign_while_reading_def Let_def)

lemma burns_stay_open:
  assumes "bridge_run e write_returns evs b out" and lock: "\<not> write_returns 1"
  shows "burn_open b"
  using assms(1)
proof (induction rule: bridge_run.induct)
  case (lock evs b out now op tx amount owner rcpt b' i)
  obtain c where "br_conversions b' = hm_insert i c (br_conversions b)" "cr_direction c = UtxoToAccount"
    by (rule lock_utxo_cases [OF lock.hyps(2)]) (use new_request(4) in force)
  with lock.IH show ?case using burn_open_insert [of b c b' i] by simp
next
  case (burn evs b out now tx amount burner to' b' i)
  obtain c where "br_conversions b' = hm_insert i c (br_conversions b)" "cr_status c = ConvPending"
    by (rule burn_cases [OF burn.hyps(2)]) (use new_request(2) in force)
  with burn.IH show ?case using burn_open_insert [of b c b' i] by simp
next
  case (confirm evs b out)
  have wf: "hm_wf (br_conversions b)" using confirm.hyps by (rule bridge_run_wf)
  have "cr_status (confirm_one uh eh c) \<in> {ConvPending, ConvConfirmed}"
    if "cr_status c \<in> {ConvPending, ConvConfirmed}" for uh eh c
    using that by (auto simp: confirm_one_def update_confirmations_def Let_def)
  then show ?case
    using confirm.IH unfolding burn_open_def process_confirmations_def confirm_loop_eq [OF wf]
    by (fastforce simp: hm_get_map_values)
next
  case (mint evs b out i now mint_tx mint_block b')
  then obtain c where "br_conversions b' = hm_insert i c (br_conversions b)" "cr_direction c = UtxoToAccount"
    by (auto simp: complete_mint_def mark_processing_def mark_completed_def Let_def split: option.splits if_splits)
  with mint.IH show ?case using burn_open_insert [of b c b' i] by simp
next
  case (unlock evs b out i now unlock_tx b')
  then show ?case
    using complete_unlock_hangs [of write_returns b i, OF assms(2)] by (auto simp: complete_unlock_def split: option.splits if_splits)
qed (force simp: burn_open_def DualStateBridge_new_def bridge_pause_def bridge_resume_def emergency_stop_def
    update_heights_def get_next_ready_def split: prod.splits)+

text \<open>
  Unlocking hangs: with a lock whose \<open>write\<close> does not return while a reader has access, as documented,
  \<open>complete_unlock\<close> never returns for a conversion from an account to UTXOs, and in every state the bridge
  can reach such a conversion is still open: no burn is ever paid out.
\<close>

theorem complete_unlock_never_returns:
  assumes "bridge_run e write_returns evs b out" and "\<not> write_returns 1" and "get_conversion b i = Some c"
    and "cr_direction c = AccountToUtxo"
  shows "complete_unlock write_returns now b i tx = None \<and> cr_status c \<in> {ConvPending, ConvConfirmed}"
  using assms(3,4) complete_unlock_hangs [of write_returns, OF assms(2)] burns_stay_open [OF assms(1,2)]
  by (simp add: get_conversion_def burn_open_def)

theorem complete_unlock_never_returns_witness:
  "\<exists>b i. burn_for_utxo sample_ext 0 DualStateBridge_new h256_zero 1000000 (replicate 20 0) address_zero = Ok (b, i)
    \<and> complete_unlock (\<lambda>n. n = 0) 0 b i h256_zero = None"
proof -
  obtain b i where b: "burn_for_utxo sample_ext 0 DualStateBridge_new h256_zero 1000000 (replicate 20 0) address_zero = Ok (b, i)"
    by (simp add: burn_for_utxo_def DualStateBridge_new_def account_to_utxo_def ConversionRequest_new_def
        Let_def MIN_BRIDGE_AMOUNT_def MAX_BRIDGE_AMOUNT_def)
  then have run: "bridge_run sample_ext (\<lambda>n. n = 0) [EvBurn (hm_contains (br_conversions DualStateBridge_new) i)] b []"
    by (rule bridge_run.burn [OF bridge_run.new])
  obtain c where c: "ConversionRequest_new sample_ext 0 AccountToUtxo 1000000 (Address (replicate 20 0)) (address_bytes address_zero)
       h256_zero (br_evm_height DualStateBridge_new) (required_depth AccountToUtxo) = Ok c"
    and "i = cr_id c" "b = DualStateBridge_new\<lparr>br_conversions := hm_insert i c (br_conversions DualStateBridge_new)\<rparr>"
    using burn_cases [OF b] by metis
  then have "get_conversion b i = Some c" "cr_direction c = AccountToUtxo"
    using new_request(4) [OF c] by (simp_all add: get_conversion_def)
  then show ?thesis using b complete_unlock_never_returns [OF run] by auto
qed

text \<open>
  What the source does not check. A conversion can be minted a second time and before its confirmations:
  \<open>complete_mint\<close> succeeds in every status, and two requests with the same hash, address and amount in the
  same second share an identifier, so that the second replaces the first.
\<close>

lemma complete_mint_any_status:
  assumes "get_conversion b i = Some c" and "cr_direction c = UtxoToAccount"
  shows "\<exists>b'. complete_mint now b i tx blk = Ok b' \<and> br_total_minted b' = br_total_minted b + cr_net_amount c
    \<and> (\<exists>c'. get_conversion b' i = Some c' \<and> cr_direction c' = UtxoToAccount \<and> cr_net_amount c' = cr_net_amount c)"
  using assms
  by (simp add: complete_mint_def get_conversion_def mark_processing_def mark_completed_def Let_def)

lemma same_second_same_id:
  assumes "lock_utxo e now b op1 tx amount owner rcpt1 = Ok (b1, i)"
    and "lock_utxo e now b1 op2 tx amount owner rcpt2 = Ok (b2, j)"
  shows "i = j \<and> (\<forall>k. hm_contains (br_conversions b2) k \<longleftrightarrow> hm_contains (br_conversions b) k \<or> k = i)
    \<and> br_total_locked b2 = br_total_locked b + amount + amount"
  using assms
  by (elim lock_utxo_cases) (auto simp: ConversionRequest_new_def Let_def split: if_splits)

end
