(* ===== verification/Unified_Address.thy ===== *)
theory Unified_Address
  imports Chain_Types
begin

section \<open>Unified addresses\<close>

text \<open>
  \<open>pyrax-node/src/bridge/unified_address.rs\<close>: one 20-byte address for both models, printed in a
  base-32 format with a network prefix and a checksum, or in hexadecimal. Strings are ASCII. The
  hexadecimal codec is a library, so \<open>to_hex\<close> and \<open>from_hex\<close> take its functions as arguments.
\<close>

unbundle bit_operations_syntax

subsection \<open>The base-32 codec\<close>

definition BECH32_CHARSET :: string where
  "BECH32_CHARSET = ''qpzry9x8gf2tvdw0s3jn54khce6mua7l''"

text \<open>The inner loop \<open>while bits >= 5\<close>: the groups pushed, and the bits left.\<close>

fun emit_groups :: "u32 \<Rightarrow> nat \<Rightarrow> u32 list \<times> nat" where
  "emit_groups acc bits =
     (if 5 \<le> bits
      then case emit_groups acc (bits - 5) of (gs, r) \<Rightarrow> (((drop_bit (bits - 5) acc) AND 31) # gs, r)
      else ([], bits))"

declare emit_groups.simps [simp del]

fun encode_loop :: "u32 \<Rightarrow> nat \<Rightarrow> u8 list \<Rightarrow> u32 list" where
  "encode_loop acc bits [] = (if 0 < bits then [(push_bit (5 - bits) acc) AND 31] else [])"
| "encode_loop acc bits (byte # data) =
     (let acc' = push_bit 8 acc OR ucast byte in
      case emit_groups acc' (bits + 8) of (gs, bits') \<Rightarrow> gs @ encode_loop acc' bits' data)"

definition base32_encode :: "u8 list \<Rightarrow> string" where
  "base32_encode data = map (\<lambda>i. BECH32_CHARSET ! unat i) (encode_loop 0 0 data)"

text \<open>\<open>iter().position(|x| x == c)\<close>\<close>

fun position :: "'a list \<Rightarrow> 'a \<Rightarrow> nat option" where
  "position [] c = None"
| "position (x # xs) c = (if x = c then Some 0 else map_option Suc (position xs c))"

fun emit_bytes :: "u32 \<Rightarrow> nat \<Rightarrow> u8 list \<times> nat" where
  "emit_bytes acc bits =
     (if 8 \<le> bits
      then case emit_bytes acc (bits - 8) of (bs, r) \<Rightarrow> (ucast (drop_bit (bits - 8) acc AND 255) # bs, r)
      else ([], bits))"

declare emit_bytes.simps [simp del]

fun decode_loop :: "u32 \<Rightarrow> nat \<Rightarrow> string \<Rightarrow> string + u8 list" where
  "decode_loop acc bits [] = Ok []"
| "decode_loop acc bits (c # s) =
     (case position BECH32_CHARSET c of
        None \<Rightarrow> Err (''Invalid character: '' @ [c])
      | Some idx \<Rightarrow>
          let acc' = push_bit 5 acc OR of_nat idx in
          case emit_bytes acc' (bits + 5) of (bs, bits') \<Rightarrow>
            and_then (decode_loop acc' bits' s) (\<lambda>rest. Ok (bs @ rest)))"

definition base32_decode :: "string \<Rightarrow> string + u8 list" where
  "base32_decode s = decode_loop 0 0 s"

subsection \<open>Addresses\<close>

datatype AddressType = UtxoType | EvmType | UnifiedType

datatype NetworkPrefix = Mainnet | Testnet | Devnet

fun as_str :: "NetworkPrefix \<Rightarrow> string" where
  "as_str Mainnet = ''pyrax''"
| "as_str Testnet = ''tpyrax''"
| "as_str Devnet = ''dpyrax''"

definition from_str :: "string \<Rightarrow> NetworkPrefix option" where
  "from_str s =
     (if s = ''pyrax'' then Some Mainnet else if s = ''tpyrax'' then Some Testnet
      else if s = ''dpyrax'' then Some Devnet else None)"

record UnifiedAddress =
  ua_address_type :: AddressType
  ua_network :: u8
  ua_bytes :: "u8 list"
  ua_checksum :: "u8 list"

datatype AddressError =
    EncodingError string
  | DecodingError string
  | InvalidVariant
  | InvalidNetwork string
  | InvalidLength nat
  | InvalidType u8
  | InvalidChecksum
  | InvalidHex string

fun type_byte :: "AddressType \<Rightarrow> u8" where
  "type_byte UtxoType = 0"
| "type_byte EvmType = 1"
| "type_byte UnifiedType = 2"

fun network_byte :: "NetworkPrefix \<Rightarrow> u8" where
  "network_byte Mainnet = 0"
| "network_byte Testnet = 1"
| "network_byte Devnet = 2"

definition compute_checksum :: "ext \<Rightarrow> u8 list \<Rightarrow> AddressType \<Rightarrow> u8 list" where
  "compute_checksum e bytes addr_type = take 4 (ext_blake3 e (type_byte addr_type # bytes))"

definition ua_from_bytes :: "ext \<Rightarrow> u8 list \<Rightarrow> NetworkPrefix \<Rightarrow> UnifiedAddress" where
  "ua_from_bytes e bytes network =
     \<lparr>ua_address_type = UnifiedType, ua_network = network_byte network, ua_bytes = bytes,
      ua_checksum = compute_checksum e bytes UnifiedType\<rparr>"

definition from_utxo_address :: "ext \<Rightarrow> address \<Rightarrow> NetworkPrefix \<Rightarrow> UnifiedAddress" where
  "from_utxo_address e addr network =
     \<lparr>ua_address_type = UnifiedType, ua_network = network_byte network, ua_bytes = address_bytes addr,
      ua_checksum = compute_checksum e (address_bytes addr) UnifiedType\<rparr>"

definition from_evm_address :: "ext \<Rightarrow> u8 list \<Rightarrow> NetworkPrefix \<Rightarrow> UnifiedAddress" where
  "from_evm_address e evm_addr network =
     \<lparr>ua_address_type = UnifiedType, ua_network = network_byte network, ua_bytes = evm_addr,
      ua_checksum = compute_checksum e evm_addr UnifiedType\<rparr>"

definition from_public_key :: "ext \<Rightarrow> u8 list \<Rightarrow> NetworkPrefix \<Rightarrow> UnifiedAddress" where
  "from_public_key e pubkey network = ua_from_bytes e (take 20 (drop 12 (ext_blake3 e pubkey))) network"

definition verify_checksum :: "ext \<Rightarrow> UnifiedAddress \<Rightarrow> bool" where
  "verify_checksum e a = (ua_checksum a = compute_checksum e (ua_bytes a) (ua_address_type a))"

definition to_utxo_address :: "UnifiedAddress \<Rightarrow> address" where
  "to_utxo_address a = Address (ua_bytes a)"

definition to_evm_address :: "UnifiedAddress \<Rightarrow> u8 list" where
  "to_evm_address a = ua_bytes a"

definition network_prefix :: "UnifiedAddress \<Rightarrow> NetworkPrefix" where
  "network_prefix a = (if ua_network a = 0 then Mainnet else if ua_network a = 1 then Testnet else Devnet)"

definition to_bech32 :: "UnifiedAddress \<Rightarrow> AddressError + string" where
  "to_bech32 a =
     (let data = type_byte (ua_address_type a) # ua_bytes a @ ua_checksum a
      in Ok (as_str (network_prefix a) @ ''1'' @ base32_encode data))"

text \<open>\<open>s.rfind(c)\<close>, the position of the last occurrence.\<close>

fun rfind :: "string \<Rightarrow> char \<Rightarrow> nat option" where
  "rfind [] c = None"
| "rfind (x # xs) c = (case rfind xs c of Some p \<Rightarrow> Some (Suc p) | None \<Rightarrow> if x = c then Some 0 else None)"

definition type_of_byte :: "u8 \<Rightarrow> AddressType option" where
  "type_of_byte b =
     (if b = 0 then Some UtxoType else if b = 1 then Some EvmType else if b = 2 then Some UnifiedType else None)"

definition from_bech32 :: "ext \<Rightarrow> string \<Rightarrow> AddressError + UnifiedAddress" where
  "from_bech32 e s =
     (case rfind s CHR ''1'' of
        None \<Rightarrow> Err (DecodingError ''Missing separator'')
      | Some sep_pos \<Rightarrow>
          let hrp = take sep_pos s; data_part = drop (sep_pos + 1) s in
          case from_str hrp of
            None \<Rightarrow> Err (InvalidNetwork hrp)
          | Some network \<Rightarrow>
              (case base32_decode data_part of
                 Err x \<Rightarrow> Err (DecodingError x)
               | Ok bytes \<Rightarrow>
                   if length bytes \<noteq> 25 then Err (InvalidLength (length bytes))
                   else case type_of_byte (bytes ! 0) of
                     None \<Rightarrow> Err (InvalidType (bytes ! 0))
                   | Some address_type \<Rightarrow>
                       let addr = \<lparr>ua_address_type = address_type, ua_network = network_byte network,
                             ua_bytes = take 20 (drop 1 bytes), ua_checksum = take 4 (drop 21 bytes)\<rparr>
                       in if \<not> verify_checksum e addr then Err InvalidChecksum else Ok addr))"

definition to_hex :: "(u8 list \<Rightarrow> string) \<Rightarrow> UnifiedAddress \<Rightarrow> string" where
  "to_hex hex_encode a = ''0x'' @ hex_encode (ua_bytes a)"

definition strip_prefix_0x :: "string \<Rightarrow> string" where
  "strip_prefix_0x s = (if take 2 s = ''0x'' then drop 2 s else s)"

definition from_hex :: "(string \<Rightarrow> string + u8 list) \<Rightarrow> ext \<Rightarrow> string \<Rightarrow> NetworkPrefix \<Rightarrow> AddressError + UnifiedAddress" where
  "from_hex hex_decode e s network =
     (let s' = strip_prefix_0x s in
      if length s' \<noteq> 40 then Err (InvalidLength (length s' div 2))
      else case hex_decode s' of
        Err x \<Rightarrow> Err (DecodingError x)
      | Ok bytes \<Rightarrow> Ok (ua_from_bytes e bytes network))"

definition same_address :: "UnifiedAddress \<Rightarrow> UnifiedAddress \<Rightarrow> bool" where
  "same_address a a' = (ua_bytes a = ua_bytes a')"

definition ua_display :: "(u8 list \<Rightarrow> string) \<Rightarrow> UnifiedAddress \<Rightarrow> string" where
  "ua_display hex_encode a = (case to_bech32 a of Ok s \<Rightarrow> s | Err _ \<Rightarrow> ''0x'' @ hex_encode (ua_bytes a))"

definition parse_address :: "(string \<Rightarrow> string + u8 list) \<Rightarrow> ext \<Rightarrow> string \<Rightarrow> NetworkPrefix \<Rightarrow> AddressError + UnifiedAddress" where
  "parse_address hex_decode e s default_network =
     (case from_bech32 e s of
        Ok addr \<Rightarrow> Ok addr
      | Err _ \<Rightarrow>
          if take 2 s = ''0x'' \<or> length s = 40 then from_hex hex_decode e s default_network
          else Err (DecodingError ''Unrecognized address format''))"

definition address_is_valid :: "(string \<Rightarrow> string + u8 list) \<Rightarrow> ext \<Rightarrow> string \<Rightarrow> bool" where
  "address_is_valid hex_decode e s = is_ok (parse_address hex_decode e s Mainnet)"

subsection \<open>Bits\<close>

text \<open>The \<open>n\<close> low bits of a word, highest first.\<close>

fun low_bits :: "nat \<Rightarrow> 'a::len word \<Rightarrow> bool list" where
  "low_bits 0 x = []"
| "low_bits (Suc n) x = bit x n # low_bits n x"

lemma length_low_bits [simp]: "length (low_bits n x) = n"
  by (induction n) simp_all

lemma low_bits_split: "k \<le> n \<Longrightarrow> low_bits n x = low_bits (n - k) (drop_bit k x) @ low_bits k x"
proof (induction n)
  case (Suc n)
  show ?case
  proof (cases "k = Suc n")
    case False
    then have "k \<le> n" using Suc.prems by simp
    then show ?thesis using Suc.IH by (simp add: Suc_diff_le bit_drop_bit_eq)
  qed simp
qed simp

lemma low_bits_cong: "(\<And>i. i < n \<Longrightarrow> bit x i = bit y i) \<Longrightarrow> low_bits n x = low_bits n y"
  for x :: "'a::len word" and y :: "'b::len word"
  by (induction n) simp_all

lemma low_bits_eqD: "low_bits n x = low_bits n y \<Longrightarrow> i < n \<Longrightarrow> bit x i = bit y i"
  for x :: "'a::len word" and y :: "'b::len word"
  by (induction n) (auto simp: less_Suc_eq)

lemma low_bits_inj: "low_bits LENGTH('a) x = low_bits LENGTH('a) y \<Longrightarrow> x = y"
  for x y :: "'a::len word"
  by (intro bit_word_eqI low_bits_eqD)

lemma bit_31: "bit (31 :: u32) i \<longleftrightarrow> i < 5"
proof -
  have "(31 :: u32) = mask 5" by (simp add: mask_eq_exp_minus_1)
  then show ?thesis by (simp only: bit_mask_iff) auto
qed

lemma bit_255: "bit (255 :: u32) i \<longleftrightarrow> i < 8"
proof -
  have "(255 :: u32) = mask 8" by (simp add: mask_eq_exp_minus_1)
  then show ?thesis by (simp only: bit_mask_iff) auto
qed

lemma low_bits_and_31 [simp]: "low_bits 5 (x AND 31 :: u32) = low_bits 5 x"
  by (rule low_bits_cong) (simp only: bit_and_iff bit_31 simp_thms)

lemma low_bits_byte [simp]: "low_bits 8 (ucast (x AND 255 :: u32) :: u8) = low_bits 8 x"
  by (rule low_bits_cong) (simp only: bit_ucast_iff bit_and_iff bit_255, simp)

lemma low_bits_append:
  fixes acc :: u32 and x :: "'a::len word"
  assumes "n + k \<le> 32" and "\<And>i. bit x i \<Longrightarrow> i < k"
  shows "low_bits (n + k) (push_bit k acc OR ucast x) = low_bits n acc @ low_bits k x"
proof -
  have "low_bits n (drop_bit k (push_bit k acc OR ucast x)) = low_bits n acc"
    using assms by (intro low_bits_cong) (force simp: bit_drop_bit_eq bit_or_iff bit_push_bit_iff bit_ucast_iff)
  moreover have "low_bits k (push_bit k acc OR ucast x :: u32) = low_bits k x"
    using assms by (intro low_bits_cong) (auto simp: bit_or_iff bit_push_bit_iff bit_ucast_iff dest: bit_imp_le_length)
  ultimately show ?thesis using low_bits_split [of k "n + k" "push_bit k acc OR ucast x :: u32"] by (simp del: drop_bit_or)
qed

lemma low_bits_pad:
  assumes "k \<le> n" and "n \<le> 32"
  shows "low_bits n (push_bit k (acc :: u32)) = low_bits (n - k) acc @ replicate k False"
proof -
  have "low_bits (n - k) (drop_bit k (push_bit k acc)) = low_bits (n - k) acc"
    using assms by (intro low_bits_cong) (auto simp: bit_drop_bit_eq bit_push_bit_iff)
  moreover have "low_bits k (push_bit k acc) = low_bits k (0 :: u32)"
    by (rule low_bits_cong) (auto simp: bit_push_bit_iff)
  moreover have "low_bits k (0 :: u32) = replicate k False"
    by (induction k) (simp_all add: replicate_append_same)
  ultimately show ?thesis using low_bits_split [of k n "push_bit k acc"] assms by simp
qed

subsection \<open>The codec on bits\<close>

lemma emit_groups_bits:
  "emit_groups acc n = (gs, r) \<Longrightarrow> r < 5 \<and> low_bits n acc = concat (map (low_bits 5) gs) @ low_bits r acc"
proof (induction acc n arbitrary: gs r rule: emit_groups.induct)
  case (1 acc n)
  show ?case
  proof (cases "5 \<le> n")
    case True
    obtain gs' where gs: "emit_groups acc (n - 5) = (gs', r)" "gs = (drop_bit (n - 5) acc AND 31) # gs'"
      using 1(2) True by (subst (asm) emit_groups.simps) (auto split: prod.splits)
    have "low_bits n acc = low_bits 5 (drop_bit (n - 5) acc) @ low_bits (n - 5) acc"
      using True low_bits_split [of "n - 5" n acc] by simp
    then show ?thesis using 1(1) [OF True gs(1)] by (simp add: gs(2))
  next
    case False
    then show ?thesis using 1(2) by (simp add: emit_groups.simps)
  qed
qed

lemma emit_bytes_bits:
  "emit_bytes acc n = (bs, r) \<Longrightarrow> r < 8 \<and> low_bits n acc = concat (map (low_bits 8) bs) @ low_bits r acc"
proof (induction acc n arbitrary: bs r rule: emit_bytes.induct)
  case (1 acc n)
  show ?case
  proof (cases "8 \<le> n")
    case True
    obtain bs' where bs: "emit_bytes acc (n - 8) = (bs', r)" "bs = ucast (drop_bit (n - 8) acc AND 255) # bs'"
      using 1(2) True by (subst (asm) emit_bytes.simps) (auto split: prod.splits)
    have "low_bits n acc = low_bits 8 (drop_bit (n - 8) acc) @ low_bits (n - 8) acc"
      using True low_bits_split [of "n - 8" n acc] by simp
    then show ?thesis using 1(1) [OF True bs(1)] by (simp add: bs(2))
  next
    case False
    then show ?thesis using 1(2) by (simp add: emit_bytes.simps)
  qed
qed

lemma encode_loop_bits:
  "bits < 5 \<Longrightarrow> \<exists>pad. pad < 5 \<and>
    concat (map (low_bits 5) (encode_loop acc bits data))
      = low_bits bits acc @ concat (map (low_bits 8) data) @ replicate pad False"
proof (induction acc bits data rule: encode_loop.induct)
  case (1 acc bits)
  show ?case
  proof (cases "bits = 0")
    case False
    then show ?thesis
      using 1 low_bits_pad [of "5 - bits" 5 acc] by (intro exI [of _ "5 - bits"]) simp
  qed auto
next
  case (2 acc bits byte data)
  let ?acc = "push_bit 8 acc OR ucast byte :: u32"
  obtain gs r where gs: "emit_groups ?acc (bits + 8) = (gs, r)" by fastforce
  note g = emit_groups_bits [OF gs]
  have "low_bits (bits + 8) ?acc = low_bits bits acc @ low_bits 8 byte"
    using 2(2) by (intro low_bits_append) (auto dest: bit_imp_le_length)
  moreover obtain pad where "pad < 5" "concat (map (low_bits 5) (encode_loop ?acc r data))
      = low_bits r ?acc @ concat (map (low_bits 8) data) @ replicate pad False"
    using 2(1) [OF refl gs [symmetric]] g by blast
  ultimately show ?case
    using g gs by (intro exI [of _ pad]) (simp add: Let_def)
qed

text \<open>The groups an accepted string stands for.\<close>

definition groups_of :: "string \<Rightarrow> u32 list" where
  "groups_of s = map (\<lambda>c. of_nat (the (position BECH32_CHARSET c))) s"

lemma length_groups_of [simp]: "length (groups_of s) = length s"
  by (simp add: groups_of_def)

lemma position_less: "position xs c = Some n \<Longrightarrow> n < length xs \<and> xs ! n = c"
  by (induction xs arbitrary: n) (auto split: if_splits)

lemma position_nth: "distinct xs \<Longrightarrow> n < length xs \<Longrightarrow> position xs (xs ! n) = Some n"
proof (induction xs arbitrary: n)
  case (Cons x xs)
  then show ?case by (cases n) auto
qed simp

lemma length_charset [simp]: "length BECH32_CHARSET = 32"
  by (simp add: BECH32_CHARSET_def)

lemma distinct_charset: "distinct BECH32_CHARSET"
  by (simp add: BECH32_CHARSET_def)

lemma small_group_bit: "n < 32 \<Longrightarrow> bit (of_nat n :: u32) i \<Longrightarrow> i < 5"
proof -
  assume "n < 32" and b: "bit (of_nat n :: u32) i"
  then have "take_bit 5 n = n" by (simp add: take_bit_nat_eq_self)
  then have "(of_nat n :: u32) = take_bit 5 (of_nat n)" by (metis take_bit_of_nat)
  then show "i < 5" using b by (metis bit_take_bit_iff)
qed

lemma decode_loop_bits:
  assumes "decode_loop acc bits s = Ok bs" and "bits < 8"
  shows "\<exists>rest. length rest < 8 \<and>
    low_bits bits acc @ concat (map (low_bits 5) (groups_of s)) = concat (map (low_bits 8) bs) @ rest"
  using assms
proof (induction acc bits s arbitrary: bs rule: decode_loop.induct)
  case (1 acc bits)
  then show ?case by (intro exI [of _ "low_bits bits acc"]) (simp add: groups_of_def)
next
  case (2 acc bits c s)
  obtain idx where idx: "position BECH32_CHARSET c = Some idx"
    using 2(2) by (cases "position BECH32_CHARSET c") simp_all
  let ?acc = "push_bit 5 acc OR of_nat idx :: u32"
  obtain out r where out: "emit_bytes ?acc (bits + 5) = (out, r)" by fastforce
  obtain tl where tl: "decode_loop ?acc r s = Ok tl" "bs = out @ tl"
    using 2(2) idx out by (auto simp: and_then_Ok_iff Let_def)
  note e = emit_bytes_bits [OF out]
  obtain rest where rest: "length rest < 8"
      "low_bits r ?acc @ concat (map (low_bits 5) (groups_of s)) = concat (map (low_bits 8) tl) @ rest"
    using 2(1) [OF idx refl out [symmetric] tl(1)] e by blast
  have "low_bits (bits + 5) ?acc = low_bits bits acc @ low_bits 5 (of_nat idx :: u32)"
    using low_bits_append [of bits 5 "of_nat idx :: u32" acc] 2(3) position_less [OF idx] small_group_bit [of idx] by simp
  then have "low_bits bits acc @ concat (map (low_bits 5) (groups_of (c # s)))
      = low_bits (bits + 5) ?acc @ concat (map (low_bits 5) (groups_of s))"
    by (simp add: groups_of_def idx)
  also have "\<dots> = concat (map (low_bits 8) out) @ low_bits r ?acc @ concat (map (low_bits 5) (groups_of s))"
    using e by simp
  also have "\<dots> = concat (map (low_bits 8) bs) @ rest" using rest(2) tl(2) by simp
  finally show ?case using rest(1) by blast
qed

lemma decode_loop_ok: "set s \<subseteq> set BECH32_CHARSET \<Longrightarrow> is_ok (decode_loop acc bits s)"
proof (induction acc bits s rule: decode_loop.induct)
  case (2 acc bits c s)
  then obtain n where "n < length BECH32_CHARSET" "c = BECH32_CHARSET ! n" by (auto simp: in_set_conv_nth)
  then have idx: "position BECH32_CHARSET c = Some n" using position_nth [OF distinct_charset] by simp
  let ?acc = "push_bit 5 acc OR of_nat n :: u32"
  obtain out r where out: "emit_bytes ?acc (bits + 5) = (out, r)" by fastforce
  have "is_ok (decode_loop ?acc r s)"
    using 2 idx out by fastforce
  then show ?case using idx out by (auto simp: Let_def elim: is_okE)
qed simp

lemma decode_loop_chars: "decode_loop acc bits s = Ok bs \<Longrightarrow> set s \<subseteq> set BECH32_CHARSET"
proof (induction acc bits s arbitrary: bs rule: decode_loop.induct)
  case (2 acc bits c s)
  then obtain idx where idx: "position BECH32_CHARSET c = Some idx"
    by (cases "position BECH32_CHARSET c") simp_all
  obtain out r where out: "emit_bytes (push_bit 5 acc OR of_nat idx) (bits + 5) = (out, r)" by fastforce
  obtain tl where "decode_loop (push_bit 5 acc OR of_nat idx) r s = Ok tl"
    using 2(2) idx out by (auto simp: and_then_Ok_iff Let_def)
  then have "set s \<subseteq> set BECH32_CHARSET" using 2(1) [OF idx refl out [symmetric]] by blast
  then show ?case using position_less [OF idx] nth_mem [of idx BECH32_CHARSET] by auto
qed simp

lemma and_31_less: "unat (x AND 31 :: u32) < 32"
proof -
  have "x AND 31 = take_bit 5 x" by (simp add: take_bit_eq_mask mask_eq_exp_minus_1)
  then show ?thesis using take_bit_nat_less_exp [of 5 "unat x"] by (simp add: unsigned_take_bit_eq)
qed

lemma emit_groups_small: "emit_groups acc n = (gs, r) \<Longrightarrow> g \<in> set gs \<Longrightarrow> unat g < 32"
proof (induction acc n arbitrary: gs r rule: emit_groups.induct)
  case (1 acc n)
  then show ?case
    by (subst (asm) (2) emit_groups.simps) (auto simp: and_31_less split: if_splits prod.splits)
qed

lemma encode_loop_small: "g \<in> set (encode_loop acc bits data) \<Longrightarrow> unat g < 32"
proof (induction acc bits data rule: encode_loop.induct)
  case (2 acc bits byte data)
  obtain gs r where gs: "emit_groups (push_bit 8 acc OR ucast byte) (bits + 8) = (gs, r)" by fastforce
  then show ?case using 2 emit_groups_small [OF gs] by (auto simp: Let_def)
qed (simp add: and_31_less split: if_splits)

lemma groups_of_encode: "groups_of (base32_encode data) = encode_loop 0 0 data"
proof -
  have "position BECH32_CHARSET (BECH32_CHARSET ! unat g) = Some (unat g)" if "g \<in> set (encode_loop 0 0 data)" for g
    using position_nth [OF distinct_charset] encode_loop_small [OF that] by simp
  then show ?thesis by (simp add: groups_of_def base32_encode_def comp_def map_idI)
qed

lemma encode_chars: "set (base32_encode data) \<subseteq> set BECH32_CHARSET"
  using encode_loop_small by (fastforce simp: base32_encode_def)

text \<open>Blocks of one length are determined by their concatenation.\<close>

lemma blocks_eq:
  assumes "length xs = length ys" and "\<And>x. length (f x) = k" and "concat (map f xs) = concat (map f ys)"
  shows "map f xs = map f ys"
  using assms by (induction xs ys rule: list_induct2) simp_all

lemma low_bits_8_inj: "inj (low_bits 8 :: u8 \<Rightarrow> bool list)"
  using low_bits_inj [where 'a = 8] by (auto intro!: injI)

lemma length_blocks: "length (concat (map (low_bits k) xs)) = k * length xs"
  by (induction xs) simp_all

lemma bytes_unique:
  fixes data bs :: "u8 list"
  assumes "concat (map (low_bits 8) data) @ p = concat (map (low_bits 8) bs) @ r"
    and "length p < 8" and "length r < 8"
  shows "data = bs" and "p = r"
proof -
  have "8 * length data + length p = 8 * length bs + length r"
    using arg_cong [OF assms(1), of length] by (simp add: length_blocks)
  then have len: "length data = length bs" using assms(2,3) by linarith
  then have "length (concat (map (low_bits 8) data)) = length (concat (map (low_bits 8) bs))"
    by (simp add: length_blocks)
  then have eq: "concat (map (low_bits 8) data) = concat (map (low_bits 8) bs)" and "p = r"
    using assms(1) by simp_all
  then show "p = r" by simp
  show "data = bs" using blocks_eq [OF len _ eq] low_bits_8_inj by (simp add: inj_map_eq_map)
qed

lemma base32_round_trip: "base32_decode (base32_encode data) = Ok data"
proof -
  obtain bs where bs: "base32_decode (base32_encode data) = Ok bs"
    using decode_loop_ok [OF encode_chars, of 0 0 data] unfolding base32_decode_def by (blast elim: is_okE)
  obtain rest where "length rest < 8"
      "concat (map (low_bits 5) (encode_loop 0 0 data)) = concat (map (low_bits 8) bs) @ rest"
    using decode_loop_bits [OF bs [unfolded base32_decode_def]] by (auto simp: groups_of_encode)
  moreover obtain pad where "pad < 5"
      "concat (map (low_bits 5) (encode_loop 0 0 data)) = concat (map (low_bits 8) data) @ replicate pad False"
    using encode_loop_bits [of 0 0 data] by auto
  ultimately show ?thesis using bytes_unique(1) [of data "replicate pad False" bs rest] bs by simp
qed

text \<open>Whatever decodes to 25 bytes is their encoding, up to one ignored character.\<close>

lemma groups_inj:
  assumes "set s \<subseteq> set BECH32_CHARSET" and "set s' \<subseteq> set BECH32_CHARSET" and "length s = length s'"
    and "map (low_bits 5) (groups_of s) = map (low_bits 5) (groups_of s')"
  shows "s = s'"
proof (rule nth_equalityI [OF assms(3)])
  fix n assume n: "n < length s"
  then obtain i j where ij: "i < 32" "s ! n = BECH32_CHARSET ! i" "j < 32" "s' ! n = BECH32_CHARSET ! j"
    using assms(1-3) by (metis in_set_conv_nth length_charset nth_mem subsetD)
  then have "low_bits 5 (of_nat i :: u32) = low_bits 5 (of_nat j :: u32)"
    using arg_cong [OF assms(4), of "\<lambda>xs. xs ! n"] n assms(3) position_nth [OF distinct_charset]
    by (simp add: groups_of_def)
  then have "bit (of_nat i :: u32) k = bit (of_nat j :: u32) k" for k
    using low_bits_eqD small_group_bit ij by metis
  then have "(of_nat i :: u32) = of_nat j" by (intro bit_word_eqI)
  then have "i = j" using ij of_nat_inj_small [of i, where 'a = 32] by simp
  then show "s ! n = s' ! n" using ij by simp
qed

lemma decode_canonical:
  assumes "base32_decode s = Ok bs" and "length bs = 25"
  shows "\<exists>t. length t \<le> 1 \<and> s = base32_encode bs @ t"
proof -
  obtain rest where rest: "length rest < 8" "concat (map (low_bits 5) (groups_of s)) = concat (map (low_bits 8) bs) @ rest"
    using decode_loop_bits [OF assms(1) [unfolded base32_decode_def]] by auto
  obtain pad where pad: "pad < 5" "concat (map (low_bits 5) (encode_loop 0 0 bs)) = concat (map (low_bits 8) bs) @ replicate pad False"
    using encode_loop_bits [of 0 0 bs] by auto
  have "5 * length s = 200 + length rest"
    using arg_cong [OF rest(2), of length] assms(2) by (simp add: length_blocks)
  then have s: "length s = 40 \<or> length s = 41" using rest(1) by linarith
  have "5 * length (encode_loop 0 0 bs) = 200 + pad"
    using arg_cong [OF pad(2), of length] assms(2) by (simp add: length_blocks)
  then have e: "length (encode_loop 0 0 bs) = 40" "pad = 0" using pad(1) by presburger+
  let ?s = "take 40 s"
  have len: "length (groups_of ?s) = length (encode_loop 0 0 bs)" using s e by (auto simp: groups_of_def)
  have "concat (map (low_bits 5) (groups_of ?s)) @ concat (map (low_bits 5) (groups_of (drop 40 s)))
      = concat (map (low_bits 5) (encode_loop 0 0 bs)) @ rest"
    using rest(2) pad(2) e(2) by (simp add: groups_of_def flip: concat_append map_append)
  then have "concat (map (low_bits 5) (groups_of ?s)) = concat (map (low_bits 5) (encode_loop 0 0 bs))"
    using len by (simp add: length_blocks)
  then have "map (low_bits 5) (groups_of ?s) = map (low_bits 5) (groups_of (base32_encode bs))"
    unfolding groups_of_encode by (intro blocks_eq [OF len, of _ 5]) simp_all
  moreover have "set ?s \<subseteq> set BECH32_CHARSET"
    using decode_loop_chars [OF assms(1) [unfolded base32_decode_def]] set_take_subset by fastforce
  moreover have "length ?s = length (base32_encode bs)" using s e by (auto simp: base32_encode_def)
  ultimately have "?s = base32_encode bs" using groups_inj encode_chars by blast
  then show ?thesis using s by (intro exI [of _ "drop 40 s"]) (auto simp: append_take_drop_id dest: sym)
qed

subsection \<open>Properties\<close>

definition wf_unified :: "UnifiedAddress \<Rightarrow> bool" where
  "wf_unified a = (length (ua_bytes a) = 20 \<and> length (ua_checksum a) = 4 \<and> ua_network a \<in> {0, 1, 2})"

lemma rfind_append: "c \<notin> set ys \<Longrightarrow> rfind (xs @ c # ys) c = Some (length xs)"
proof (induction xs)
  case Nil
  moreover have "c \<notin> set ys \<Longrightarrow> rfind ys c = None" by (induction ys) auto
  ultimately show ?case by simp
qed simp

lemma rfind_Some: "rfind s c = Some p \<Longrightarrow> p < length s \<and> s = take p s @ c # drop (p + 1) s"
  by (induction s arbitrary: p) (auto split: option.splits if_splits)

lemma from_str_iff [simp]: "from_str s = Some n \<longleftrightarrow> s = as_str n"
  by (cases n) (auto simp: from_str_def)

lemma type_of_byte_iff [simp]: "type_of_byte b = Some t \<longleftrightarrow> b = type_byte t"
  by (cases t) (auto simp: type_of_byte_def)

lemma from_str_as_str [simp]: "from_str (as_str n) = Some n"
  by simp

lemma type_of_type_byte [simp]: "type_of_byte (type_byte t) = Some t"
  by simp

lemma network_byte_prefix: "ua_network a \<in> {0, 1, 2} \<Longrightarrow> network_byte (network_prefix a) = ua_network a"
  by (auto simp: network_prefix_def)

lemma no_separator: "CHR ''1'' \<notin> set (base32_encode data)"
  using encode_chars by (force simp: BECH32_CHARSET_def)

lemma bech32_parses_printed:
  assumes "wf_unified a" and "verify_checksum e a"
  shows "from_bech32 e (as_str (network_prefix a) @ CHR ''1'' #
    base32_encode (type_byte (ua_address_type a) # ua_bytes a @ ua_checksum a)) = Ok a"
proof -
  let ?data = "type_byte (ua_address_type a) # ua_bytes a @ ua_checksum a"
  have "\<lparr>ua_address_type = ua_address_type a, ua_network = network_byte (network_prefix a),
      ua_bytes = take 20 (drop 1 ?data), ua_checksum = take 4 (drop 21 ?data)\<rparr> = a"
    using assms(1) network_byte_prefix by (simp add: wf_unified_def)
  then show ?thesis
    using assms by (simp add: from_bech32_def rfind_append [OF no_separator] base32_round_trip wf_unified_def Let_def)
qed

text \<open>
  Printing and parsing: an address whose checksum is right, printed in base 32, parses back to itself.
\<close>

theorem bech32_round_trip:
  assumes "wf_unified a" and "verify_checksum e a"
  shows "\<exists>s. to_bech32 a = Ok s \<and> from_bech32 e s = Ok a"
  using bech32_parses_printed [OF assms] by (simp add: to_bech32_def)

theorem bech32_round_trip_witness:
  "\<exists>s. to_bech32 (ua_from_bytes sample_ext (replicate 20 7) Testnet) = Ok s
    \<and> from_bech32 sample_ext s = Ok (ua_from_bytes sample_ext (replicate 20 7) Testnet)"
  by (rule bech32_round_trip)
    (simp_all add: wf_unified_def verify_checksum_def ua_from_bytes_def compute_checksum_def sample_ext_def
      sample_digest_def copy_padded_def)

text \<open>
  What parses is well formed: an accepted string is the printed form of the address it gives, up to one
  trailing character, and the address has its 20 bytes, a known network and the right checksum.
\<close>

theorem bech32_accepts_canonical:
  assumes "from_bech32 e s = Ok a"
  shows "wf_unified a \<and> verify_checksum e a
    \<and> (\<exists>printed t. to_bech32 a = Ok printed \<and> s = printed @ t \<and> length t \<le> 1)"
proof -
  obtain p n bs ty where p: "rfind s CHR ''1'' = Some p" and n: "take p s = as_str n"
    and bs: "base32_decode (drop (p + 1) s) = Ok bs" "length bs = 25" and ty: "bs ! 0 = type_byte ty"
    and a: "a = \<lparr>ua_address_type = ty, ua_network = network_byte n,
        ua_bytes = take 20 (drop 1 bs), ua_checksum = take 4 (drop 21 bs)\<rparr>" "verify_checksum e a"
    using assms by (auto simp: from_bech32_def Let_def split: option.splits sum.splits if_splits)
  obtain t where t: "length t \<le> 1" "drop (p + 1) s = base32_encode bs @ t"
    using decode_canonical [OF bs] by blast
  have "drop 1 bs = take 20 (drop 1 bs) @ drop 21 bs"
    using append_take_drop_id [of 20 "drop 1 bs"] by simp
  moreover have "drop 21 bs = take 4 (drop 21 bs)" using bs(2) by simp
  moreover have "bs = bs ! 0 # drop 1 bs" using bs(2) Cons_nth_drop_Suc [of 0 bs] by simp
  ultimately have data: "bs = type_byte ty # take 20 (drop 1 bs) @ take 4 (drop 21 bs)"
    using ty by metis
  have net: "network_prefix a = n" "ua_network a \<in> {0, 1, 2}"
    by (cases n; simp add: a(1) network_prefix_def)+
  have "to_bech32 a = Ok (as_str n @ CHR ''1'' # base32_encode bs)"
    using data net by (simp add: to_bech32_def a(1))
  moreover have "s = as_str n @ CHR ''1'' # base32_encode bs @ t"
    using rfind_Some [OF p] n t(2) by simp
  moreover have "wf_unified a" using net(2) bs(2) by (simp add: wf_unified_def a(1))
  ultimately show ?thesis using a(2) t(1) by auto
qed

theorem bech32_accepts_canonical_witness:
  fixes a defines "a \<equiv> ua_from_bytes sample_ext (replicate 20 7) Testnet"
  shows "\<exists>s. from_bech32 sample_ext s = Ok a \<and> wf_unified a \<and> verify_checksum sample_ext a"
proof -
  have "wf_unified a" "verify_checksum sample_ext a"
    by (simp_all add: a_def wf_unified_def verify_checksum_def ua_from_bytes_def compute_checksum_def sample_ext_def
        sample_digest_def copy_padded_def)
  then obtain s where "from_bech32 sample_ext s = Ok a"
    using bech32_parses_printed by blast
  then show ?thesis using bech32_accepts_canonical by blast
qed

text \<open>One more character of the alphabet after the data is ignored, so two strings are the same address.\<close>

lemma extra_character_ignored:
  assumes "base32_decode s = Ok bs" and "length s = 40" and "c \<in> set BECH32_CHARSET"
  shows "base32_decode (s @ [c]) = Ok bs"
proof -
  obtain rest where rest: "length rest < 8" "concat (map (low_bits 5) (groups_of s)) = concat (map (low_bits 8) bs) @ rest"
    using decode_loop_bits [OF assms(1) [unfolded base32_decode_def]] by auto
  have "200 = 8 * length bs + length rest"
    using arg_cong [OF rest(2), of length] assms(2) by (simp add: length_blocks)
  then have "length rest = 0" using rest(1) by presburger
  then have "rest = []" by simp
  have "set (s @ [c]) \<subseteq> set BECH32_CHARSET"
    using decode_loop_chars [OF assms(1) [unfolded base32_decode_def]] assms(3) by simp
  then obtain bs' where bs': "base32_decode (s @ [c]) = Ok bs'"
    using decode_loop_ok unfolding base32_decode_def by (blast elim: is_okE)
  obtain rest' where "length rest' < 8" "concat (map (low_bits 5) (groups_of (s @ [c]))) = concat (map (low_bits 8) bs') @ rest'"
    using decode_loop_bits [OF bs' [unfolded base32_decode_def]] by auto
  then show ?thesis
    using bytes_unique(1) [of bs "low_bits 5 (of_nat (the (position BECH32_CHARSET c)) :: u32)" bs' rest'] rest(2) \<open>rest = []\<close> bs'
    by (simp add: groups_of_def)
qed

end
