(* ===== verification/Cross_Model.thy ===== *)
theory Cross_Model
  imports Hash_Map Unified_Address
begin

section \<open>Cross-model transactions and atomic swaps\<close>

text \<open>
  \<open>pyrax-node/src/bridge/cross_model_tx.rs\<close>: transactions that lock on one side and mint on the other,
  hash-locked swaps between the two sides, and the manager that stores both. The clock is an argument of
  the operations that read it, and the closures passed to the manager are functions.
\<close>

subsection \<open>Transactions\<close>

datatype CrossModelTxType = LockAndMint | BurnAndUnlock | AtomicSwapTx | SplitToEvm | MergeToUtxo

datatype CrossModelTxStatus =
    TxCreated | TxSubmitted | TxSourceConfirmed | TxProcessing | TxDestConfirmed | TxComplete | TxFailed
  | TxRefunded | TxExpired

record UtxoInput =
  ui_outpoint :: OutPoint
  ui_amount :: u64
  ui_owner :: address
  ui_signature :: "u8 list"

datatype LockType = StandardLock | BridgeLock | TimeLock u64 | HashLock | MultiSig u8 u8

record UtxoOutput =
  uo_recipient :: address
  uo_amount :: u64
  uo_lock_type :: LockType

record EvmTransfer =
  et_from :: "u8 list"
  et_to :: "u8 list"
  et_amount :: u64
  et_data :: "u8 list"
  et_gas_limit :: u64

record CrossModelTransaction =
  cm_id :: h256
  cm_tx_type :: CrossModelTxType
  cm_status :: CrossModelTxStatus
  cm_utxo_inputs :: "UtxoInput list"
  cm_utxo_outputs :: "UtxoOutput list"
  cm_evm_transfers :: "EvmTransfer list"
  cm_utxo_input_amount :: u64
  cm_utxo_output_amount :: u64
  cm_evm_transfer_amount :: u64
  cm_fee :: u64
  cm_source_tx_hash :: "h256 option"
  cm_dest_tx_hash :: "h256 option"
  cm_source_confirmations :: u64
  cm_dest_confirmations :: u64
  cm_required_source_confirmations :: u64
  cm_required_dest_confirmations :: u64
  cm_created_at :: u64
  cm_expires_at :: u64
  cm_completed_at :: "u64 option"
  cm_error :: "string option"
  cm_initiator :: UnifiedAddress

definition calculate_fee :: "u64 \<Rightarrow> u64" where
  "calculate_fee amount = mul_div amount 10 10000"

definition cm_generate_id :: "ext \<Rightarrow> u64 \<Rightarrow> UtxoInput list \<Rightarrow> EvmTransfer list \<Rightarrow> h256" where
  "cm_generate_id e now utxo_inputs evm_transfers =
     h256_from_slice (ext_blake3 e
       (concat (map (\<lambda>i. h256_bytes (op_txid (ui_outpoint i)) @ u32_to_be_bytes (op_vout (ui_outpoint i))) utxo_inputs)
        @ concat (map (\<lambda>t. et_to t @ u64_to_be_bytes (et_amount t)) evm_transfers)
        @ u64_to_be_bytes now))"

definition generate_id_from_evm :: "ext \<Rightarrow> u64 \<Rightarrow> EvmTransfer list \<Rightarrow> UtxoOutput list \<Rightarrow> h256" where
  "generate_id_from_evm e now evm_transfers utxo_outputs =
     h256_from_slice (ext_blake3 e
       (concat (map (\<lambda>t. et_from t @ u64_to_be_bytes (et_amount t)) evm_transfers)
        @ concat (map (\<lambda>x. address_bytes (uo_recipient x) @ u64_to_be_bytes (uo_amount x)) utxo_outputs)
        @ u64_to_be_bytes now))"

definition lock_and_mint :: "ext \<Rightarrow> u64 \<Rightarrow> UtxoInput list \<Rightarrow> u8 list \<Rightarrow> UnifiedAddress \<Rightarrow> CrossModelTransaction" where
  "lock_and_mint e now utxo_inputs evm_recipient initiator =
     (let utxo_input_amount = sum_list (map ui_amount utxo_inputs);
          fee = calculate_fee utxo_input_amount;
          net_amount = saturating_sub utxo_input_amount fee;
          evm_transfers = [\<lparr>et_from = replicate 20 0, et_to = evm_recipient, et_amount = net_amount,
            et_data = [], et_gas_limit = 21000\<rparr>]
      in \<lparr>cm_id = cm_generate_id e now utxo_inputs evm_transfers, cm_tx_type = LockAndMint, cm_status = TxCreated,
          cm_utxo_inputs = utxo_inputs, cm_utxo_outputs = [], cm_evm_transfers = evm_transfers,
          cm_utxo_input_amount = utxo_input_amount, cm_utxo_output_amount = 0,
          cm_evm_transfer_amount = net_amount, cm_fee = fee, cm_source_tx_hash = None, cm_dest_tx_hash = None,
          cm_source_confirmations = 0, cm_dest_confirmations = 0, cm_required_source_confirmations = 6,
          cm_required_dest_confirmations = 12, cm_created_at = now, cm_expires_at = now + 86400,
          cm_completed_at = None, cm_error = None, cm_initiator = initiator\<rparr>)"

definition burn_and_unlock ::
  "ext \<Rightarrow> u64 \<Rightarrow> u8 list \<Rightarrow> u64 \<Rightarrow> address \<Rightarrow> UnifiedAddress \<Rightarrow> CrossModelTransaction" where
  "burn_and_unlock e now evm_sender amount utxo_recipient initiator =
     (let fee = calculate_fee amount;
          net_amount = saturating_sub amount fee;
          evm_transfers = [\<lparr>et_from = evm_sender, et_to = replicate 20 0, et_amount = amount,
            et_data = [], et_gas_limit = 50000\<rparr>];
          utxo_outputs = [\<lparr>uo_recipient = utxo_recipient, uo_amount = net_amount, uo_lock_type = StandardLock\<rparr>]
      in \<lparr>cm_id = generate_id_from_evm e now evm_transfers utxo_outputs, cm_tx_type = BurnAndUnlock,
          cm_status = TxCreated, cm_utxo_inputs = [], cm_utxo_outputs = utxo_outputs,
          cm_evm_transfers = evm_transfers, cm_utxo_input_amount = 0, cm_utxo_output_amount = net_amount,
          cm_evm_transfer_amount = amount, cm_fee = fee, cm_source_tx_hash = None, cm_dest_tx_hash = None,
          cm_source_confirmations = 0, cm_dest_confirmations = 0, cm_required_source_confirmations = 12,
          cm_required_dest_confirmations = 6, cm_created_at = now, cm_expires_at = now + 86400,
          cm_completed_at = None, cm_error = None, cm_initiator = initiator\<rparr>)"

definition cm_is_expired :: "u64 \<Rightarrow> CrossModelTransaction \<Rightarrow> bool" where
  "cm_is_expired now t = (cm_expires_at t < now)"

definition is_source_confirmed :: "CrossModelTransaction \<Rightarrow> bool" where
  "is_source_confirmed t = (cm_required_source_confirmations t \<le> cm_source_confirmations t)"

definition is_dest_confirmed :: "CrossModelTransaction \<Rightarrow> bool" where
  "is_dest_confirmed t = (cm_required_dest_confirmations t \<le> cm_dest_confirmations t)"

definition update_source_confirmations :: "CrossModelTransaction \<Rightarrow> u64 \<Rightarrow> CrossModelTransaction" where
  "update_source_confirmations t confirmations =
     (let t1 = t\<lparr>cm_source_confirmations := confirmations\<rparr> in
      if is_source_confirmed t1 \<and> cm_status t1 = TxSubmitted then t1\<lparr>cm_status := TxSourceConfirmed\<rparr> else t1)"

definition update_dest_confirmations :: "CrossModelTransaction \<Rightarrow> u64 \<Rightarrow> CrossModelTransaction" where
  "update_dest_confirmations t confirmations =
     (let t1 = t\<lparr>cm_dest_confirmations := confirmations\<rparr> in
      if is_dest_confirmed t1 \<and> cm_status t1 = TxProcessing then t1\<lparr>cm_status := TxDestConfirmed\<rparr> else t1)"

definition cm_submit :: "CrossModelTransaction \<Rightarrow> h256 \<Rightarrow> CrossModelTransaction" where
  "cm_submit t source_tx_hash = t\<lparr>cm_source_tx_hash := Some source_tx_hash, cm_status := TxSubmitted\<rparr>"

definition start_processing :: "CrossModelTransaction \<Rightarrow> CrossModelTransaction" where
  "start_processing t = (if cm_status t = TxSourceConfirmed then t\<lparr>cm_status := TxProcessing\<rparr> else t)"

definition set_dest_tx :: "CrossModelTransaction \<Rightarrow> h256 \<Rightarrow> CrossModelTransaction" where
  "set_dest_tx t dest_tx_hash = t\<lparr>cm_dest_tx_hash := Some dest_tx_hash\<rparr>"

definition cm_complete :: "u64 \<Rightarrow> CrossModelTransaction \<Rightarrow> CrossModelTransaction" where
  "cm_complete now t = t\<lparr>cm_status := TxComplete, cm_completed_at := Some now\<rparr>"

definition cm_fail :: "CrossModelTransaction \<Rightarrow> string \<Rightarrow> CrossModelTransaction" where
  "cm_fail t message = t\<lparr>cm_status := TxFailed, cm_error := Some message\<rparr>"

definition cm_refund :: "u64 \<Rightarrow> CrossModelTransaction \<Rightarrow> CrossModelTransaction" where
  "cm_refund now t = t\<lparr>cm_status := TxRefunded, cm_completed_at := Some now\<rparr>"

text \<open>The error strings of \<open>verify\<close>, the mismatch with its two amounts.\<close>

datatype VerifyError =
    LockNeedsInputs
  | LockNeedsTransfer
  | BurnNeedsTransfer
  | BurnNeedsOutput
  | AmountMismatch u64 u64

definition cm_verify :: "CrossModelTransaction \<Rightarrow> VerifyError + unit" where
  "cm_verify t =
     (case cm_tx_type t of
        LockAndMint \<Rightarrow>
          if cm_utxo_inputs t = [] then Err LockNeedsInputs
          else if cm_evm_transfers t = [] then Err LockNeedsTransfer
          else let expected = saturating_sub (cm_utxo_input_amount t) (cm_fee t) in
               fail_if (cm_evm_transfer_amount t \<noteq> expected) (AmountMismatch expected (cm_evm_transfer_amount t))
      | BurnAndUnlock \<Rightarrow>
          if cm_evm_transfers t = [] then Err BurnNeedsTransfer
          else if cm_utxo_outputs t = [] then Err BurnNeedsOutput
          else let expected = saturating_sub (cm_evm_transfer_amount t) (cm_fee t) in
               fail_if (cm_utxo_output_amount t \<noteq> expected) (AmountMismatch expected (cm_utxo_output_amount t))
      | _ \<Rightarrow> Ok ())"

subsection \<open>Atomic swaps\<close>

datatype SwapState = SwInitiated | SwAccepted | SwRevealed | SwCompleted | SwRefunded | SwCancelled

record AtomicSwap =
  sw_id :: h256
  sw_state :: SwapState
  sw_initiator :: UnifiedAddress
  sw_counterparty :: UnifiedAddress
  sw_initiator_gives_utxo :: bool
  sw_initiator_amount :: u64
  sw_counterparty_amount :: u64
  sw_hash_lock :: "u8 list"
  sw_secret :: "u8 list option"
  sw_initiator_timelock :: u64
  sw_counterparty_timelock :: u64
  sw_initiator_lock_tx :: "h256 option"
  sw_counterparty_lock_tx :: "h256 option"
  sw_initiator_claim_tx :: "h256 option"
  sw_counterparty_claim_tx :: "h256 option"
  sw_created_at :: u64
  sw_expires_at :: u64

definition hash_secret :: "ext \<Rightarrow> u8 list \<Rightarrow> u8 list" where
  "hash_secret e secret = ext_blake3 e secret"

definition swap_generate_id :: "ext \<Rightarrow> u64 \<Rightarrow> UnifiedAddress \<Rightarrow> UnifiedAddress \<Rightarrow> u8 list \<Rightarrow> h256" where
  "swap_generate_id e now initiator counterparty hash_lock =
     h256_from_slice (ext_blake3 e (ua_bytes initiator @ ua_bytes counterparty @ hash_lock @ u64_to_be_bytes now))"

definition AtomicSwap_new ::
  "ext \<Rightarrow> u64 \<Rightarrow> UnifiedAddress \<Rightarrow> UnifiedAddress \<Rightarrow> bool \<Rightarrow> u64 \<Rightarrow> u64 \<Rightarrow> u8 list \<Rightarrow> u64 \<Rightarrow> AtomicSwap" where
  "AtomicSwap_new e now initiator counterparty initiator_gives_utxo initiator_amount counterparty_amount secret
     timelock_hours =
     (let hash_lock = hash_secret e secret in
      \<lparr>sw_id = swap_generate_id e now initiator counterparty hash_lock, sw_state = SwInitiated,
       sw_initiator = initiator, sw_counterparty = counterparty, sw_initiator_gives_utxo = initiator_gives_utxo,
       sw_initiator_amount = initiator_amount, sw_counterparty_amount = counterparty_amount,
       sw_hash_lock = hash_lock, sw_secret = Some secret,
       sw_initiator_timelock = now + timelock_hours * 3600,
       sw_counterparty_timelock = now + (timelock_hours div 2) * 3600,
       sw_initiator_lock_tx = None, sw_counterparty_lock_tx = None, sw_initiator_claim_tx = None,
       sw_counterparty_claim_tx = None, sw_created_at = now, sw_expires_at = now + timelock_hours * 3600\<rparr>)"

definition verify_secret :: "ext \<Rightarrow> AtomicSwap \<Rightarrow> u8 list \<Rightarrow> bool" where
  "verify_secret e s secret = (hash_secret e secret = sw_hash_lock s)"

definition swap_accept :: "AtomicSwap \<Rightarrow> h256 \<Rightarrow> AtomicSwap" where
  "swap_accept s lock_tx =
     (if sw_state s = SwInitiated then s\<lparr>sw_counterparty_lock_tx := Some lock_tx, sw_state := SwAccepted\<rparr> else s)"

definition swap_reveal :: "ext \<Rightarrow> AtomicSwap \<Rightarrow> u8 list \<Rightarrow> h256 \<Rightarrow> AtomicSwap \<times> bool" where
  "swap_reveal e s secret claim_tx =
     (if sw_state s \<noteq> SwAccepted then (s, False)
      else if \<not> verify_secret e s secret then (s, False)
      else (s\<lparr>sw_secret := Some secret, sw_initiator_claim_tx := Some claim_tx, sw_state := SwRevealed\<rparr>, True))"

definition swap_complete :: "AtomicSwap \<Rightarrow> h256 \<Rightarrow> AtomicSwap" where
  "swap_complete s claim_tx =
     (if sw_state s = SwRevealed then s\<lparr>sw_counterparty_claim_tx := Some claim_tx, sw_state := SwCompleted\<rparr> else s)"

definition can_refund :: "u64 \<Rightarrow> AtomicSwap \<Rightarrow> bool" where
  "can_refund now s =
     (case sw_state s of
        SwInitiated \<Rightarrow> sw_initiator_timelock s < now
      | SwAccepted \<Rightarrow> sw_counterparty_timelock s < now
      | _ \<Rightarrow> False)"

definition swap_refund :: "u64 \<Rightarrow> AtomicSwap \<Rightarrow> AtomicSwap" where
  "swap_refund now s = (if can_refund now s then s\<lparr>sw_state := SwRefunded\<rparr> else s)"

definition swap_is_expired :: "u64 \<Rightarrow> AtomicSwap \<Rightarrow> bool" where
  "swap_is_expired now s = (sw_expires_at s < now)"

subsection \<open>The manager\<close>

record CrossModelTxManager =
  mg_transactions :: "(h256, CrossModelTransaction) hashmap"
  mg_swaps :: "(h256, AtomicSwap) hashmap"
  mg_by_initiator :: "(u8 list, h256 list) hashmap"

definition CrossModelTxManager_new :: CrossModelTxManager where
  "CrossModelTxManager_new = \<lparr>mg_transactions = [], mg_swaps = [], mg_by_initiator = []\<rparr>"

definition manager_submit :: "CrossModelTxManager \<Rightarrow> CrossModelTransaction \<Rightarrow> VerifyError + (CrossModelTxManager \<times> h256)" where
  "manager_submit m tx =
     and_then (cm_verify tx) (\<lambda>_.
       let i = cm_id tx; initiator_bytes = ua_bytes (cm_initiator tx);
           ids = (case hm_get (mg_by_initiator m) initiator_bytes of None \<Rightarrow> [] | Some v \<Rightarrow> v)
       in Ok (m\<lparr>mg_transactions := hm_insert i tx (mg_transactions m),
                mg_by_initiator := hm_insert initiator_bytes (ids @ [i]) (mg_by_initiator m)\<rparr>, i))"

definition manager_get :: "CrossModelTxManager \<Rightarrow> h256 \<Rightarrow> CrossModelTransaction option" where
  "manager_get m i = hm_get (mg_transactions m) i"

definition get_for_address :: "CrossModelTxManager \<Rightarrow> u8 list \<Rightarrow> CrossModelTransaction list" where
  "get_for_address m a =
     (let tx_ids = (case hm_get (mg_by_initiator m) a of None \<Rightarrow> [] | Some v \<Rightarrow> v)
      in List.map_filter (hm_get (mg_transactions m)) tx_ids)"

definition update_status :: "CrossModelTxManager \<Rightarrow> h256 \<Rightarrow> (CrossModelTransaction \<Rightarrow> CrossModelTransaction) \<Rightarrow> CrossModelTxManager" where
  "update_status m i f = m\<lparr>mg_transactions := hm_modify i f (mg_transactions m)\<rparr>"

definition create_swap :: "CrossModelTxManager \<Rightarrow> AtomicSwap \<Rightarrow> CrossModelTxManager \<times> h256" where
  "create_swap m swap = (m\<lparr>mg_swaps := hm_insert (sw_id swap) swap (mg_swaps m)\<rparr>, sw_id swap)"

definition get_swap :: "CrossModelTxManager \<Rightarrow> h256 \<Rightarrow> AtomicSwap option" where
  "get_swap m i = hm_get (mg_swaps m) i"

definition update_swap :: "CrossModelTxManager \<Rightarrow> h256 \<Rightarrow> (AtomicSwap \<Rightarrow> AtomicSwap) \<Rightarrow> CrossModelTxManager" where
  "update_swap m i f = m\<lparr>mg_swaps := hm_modify i f (mg_swaps m)\<rparr>"

fun expire_loop :: "u64 \<Rightarrow> (h256, CrossModelTransaction) hashmap \<Rightarrow> (h256, CrossModelTransaction) hashmap \<times> h256 list" where
  "expire_loop now [] = ([], [])"
| "expire_loop now ((i, tx) # rest) =
     (case expire_loop now rest of (rest', expired) \<Rightarrow>
        if cm_is_expired now tx \<and> cm_status tx \<noteq> TxExpired
        then ((i, tx\<lparr>cm_status := TxExpired\<rparr>) # rest', i # expired)
        else ((i, tx) # rest', expired))"

definition process_expired :: "u64 \<Rightarrow> CrossModelTxManager \<Rightarrow> CrossModelTxManager \<times> h256 list" where
  "process_expired now m =
     (case expire_loop now (mg_transactions m) of (txs, expired) \<Rightarrow> (m\<lparr>mg_transactions := txs\<rparr>, expired))"

record CrossModelStats =
  cs_total_transactions :: u64
  cs_pending_transactions :: u64
  cs_completed_transactions :: u64
  cs_total_swaps :: u64
  cs_active_swaps :: u64

definition manager_stats :: "CrossModelTxManager \<Rightarrow> CrossModelStats" where
  "manager_stats m =
     \<lparr>cs_total_transactions = of_nat (length (mg_transactions m)),
      cs_pending_transactions = of_nat (length (filter
        (\<lambda>t. cm_status t \<in> {TxCreated, TxSubmitted, TxSourceConfirmed, TxProcessing}) (hm_values (mg_transactions m)))),
      cs_completed_transactions = of_nat (length (filter (\<lambda>t. cm_status t = TxComplete) (hm_values (mg_transactions m)))),
      cs_total_swaps = of_nat (length (mg_swaps m)),
      cs_active_swaps = of_nat (length (filter (\<lambda>s. sw_state s \<in> {SwInitiated, SwAccepted}) (hm_values (mg_swaps m))))\<rparr>"

subsection \<open>Swaps as a state machine\<close>

datatype swap_op = Accept h256 | Reveal "u8 list" h256 | Claim h256 | Refund u64

fun swap_step :: "ext \<Rightarrow> AtomicSwap \<Rightarrow> swap_op \<Rightarrow> AtomicSwap" where
  "swap_step e s (Accept lock_tx) = swap_accept s lock_tx"
| "swap_step e s (Reveal secret claim_tx) = fst (swap_reveal e s secret claim_tx)"
| "swap_step e s (Claim claim_tx) = swap_complete s claim_tx"
| "swap_step e s (Refund now) = swap_refund now s"

lemmas swap_step_defs =
  swap_accept_def swap_reveal_def swap_complete_def swap_refund_def can_refund_def verify_secret_def

text \<open>What each state says about the lock, the secret and the claims.\<close>

definition swap_inv :: "ext \<Rightarrow> AtomicSwap \<Rightarrow> bool" where
  "swap_inv e s =
     ((sw_state s \<in> {SwRevealed, SwCompleted} \<longleftrightarrow> sw_initiator_claim_tx s \<noteq> None)
      \<and> (sw_state s = SwCompleted \<longleftrightarrow> sw_counterparty_claim_tx s \<noteq> None)
      \<and> (sw_state s \<in> {SwAccepted, SwRevealed, SwCompleted} \<longrightarrow> sw_counterparty_lock_tx s \<noteq> None)
      \<and> (\<exists>secret. sw_secret s = Some secret \<and> hash_secret e secret = sw_hash_lock s))"

lemma swap_inv_step: "swap_inv e s \<Longrightarrow> swap_inv e (swap_step e s op)"
  by (cases op; cases "sw_state s") (auto simp: swap_inv_def swap_step_defs)

lemma swap_inv_new: "swap_inv e (AtomicSwap_new e now a b g x y secret hours)"
  by (simp add: swap_inv_def AtomicSwap_new_def Let_def)

interpretation swap: machine "AtomicSwap_new e now a b g x y secret hours" "swap_step e" "swap_inv e"
  for e now a b g x y secret hours
  by unfold_locales (simp_all add: swap_inv_new swap_inv_step)

lemma final_step: "sw_state s \<in> {SwCompleted, SwRefunded} \<Longrightarrow> swap_step e s op = s"
  by (cases op) (auto simp: swap_step_defs)

lemma final_run: "sw_state s \<in> {SwCompleted, SwRefunded} \<Longrightarrow> run (swap_step e) s ops = s"
  by (induction ops) (simp_all add: final_step del: insert_iff)

subsection \<open>Properties\<close>

text \<open>
  C27. Swaps are atomic: along any sequence of operations the counterparty claims only after the initiator
  did, the initiator only with funds locked by the counterparty and a secret of the hash lock, a refunded
  swap has no claim at all, and a completed or refunded swap never changes again.
\<close>

theorem swap_atomic:
  assumes "s = run (swap_step e) (AtomicSwap_new e now a b g x y secret hours) ops"
  shows "(sw_counterparty_claim_tx s \<noteq> None \<longrightarrow> sw_initiator_claim_tx s \<noteq> None)
    \<and> (sw_initiator_claim_tx s \<noteq> None \<longrightarrow> sw_counterparty_lock_tx s \<noteq> None
        \<and> (\<exists>k. sw_secret s = Some k \<and> verify_secret e s k))
    \<and> (sw_state s = SwRefunded \<longrightarrow> sw_initiator_claim_tx s = None \<and> sw_counterparty_claim_tx s = None)
    \<and> (sw_state s = SwCompleted \<longrightarrow> sw_initiator_claim_tx s \<noteq> None \<and> sw_counterparty_claim_tx s \<noteq> None)
    \<and> (sw_state s \<in> {SwCompleted, SwRefunded} \<longrightarrow> run (swap_step e) s later = s)"
proof -
  have "swap_inv e s" unfolding assms by (intro swap.inv_run swap.inv_init)
  then show ?thesis using final_run [of s e later] by (auto simp: swap_inv_def verify_secret_def)
qed

definition example_swap :: AtomicSwap where
  "example_swap =
     run (swap_step sample_ext)
       (AtomicSwap_new sample_ext 0 (ua_from_bytes sample_ext [] Mainnet) (ua_from_bytes sample_ext [] Mainnet) True 5 7 [1] 24)
       [Accept h256_zero, Reveal [1] h256_zero, Claim h256_zero]"

theorem swap_atomic_witness:
  "sw_state example_swap = SwCompleted \<and> sw_initiator_claim_tx example_swap \<noteq> None
    \<and> sw_counterparty_claim_tx example_swap \<noteq> None \<and> run (swap_step sample_ext) example_swap [Refund 1000000] = example_swap"
proof -
  have "sw_state example_swap = SwCompleted"
    by (simp add: example_swap_def swap_step_defs AtomicSwap_new_def Let_def)
  then show ?thesis using swap_atomic [OF example_swap_def, of "[Refund 1000000]"] by blast
qed

lemma fee_plus_net: "unat (saturating_sub amount (calculate_fee amount)) + unat amount div 1000 = unat amount"
  and fee_value: "unat (calculate_fee amount) = unat amount div 1000"
proof -
  have "unat (calculate_fee amount) = unat amount * 10 div 10000"
    unfolding calculate_fee_def by (simp add: unat_mul_div_le)
  also have "\<dots> = unat amount div 1000" by simp
  finally show fee: "unat (calculate_fee amount) = unat amount div 1000" .
  show "unat (saturating_sub amount (calculate_fee amount)) + unat amount div 1000 = unat amount"
    by (simp add: unat_saturating_sub fee)
qed

text \<open>
  A transaction built by the constructors is accepted: lock-and-mint with at least one input and every
  burn-and-unlock pass the check of \<open>submit\<close>, are found under their identifier and under their initiator,
  and what leaves one side is what arrives at the other plus a fee of a thousandth rounded down.
\<close>

theorem cross_model_submit:
  assumes "t = lock_and_mint e now (i # inputs) rcpt ini \<or> t = burn_and_unlock e now sender amount to' ini"
  shows "(\<exists>m'. manager_submit m t = Ok (m', cm_id t) \<and> manager_get m' (cm_id t) = Some t
      \<and> t \<in> set (get_for_address m' (ua_bytes ini)))
    \<and> (case cm_tx_type t of
         LockAndMint \<Rightarrow> unat (cm_utxo_input_amount t) = unat (cm_evm_transfer_amount t) + unat (cm_fee t)
           \<and> unat (cm_fee t) = unat (cm_utxo_input_amount t) div 1000
       | _ \<Rightarrow> unat (cm_evm_transfer_amount t) = unat (cm_utxo_output_amount t) + unat (cm_fee t)
           \<and> unat (cm_fee t) = unat (cm_evm_transfer_amount t) div 1000)"
proof -
  have "cm_verify t = Ok ()" and ini: "cm_initiator t = ini"
    using assms by (auto simp: cm_verify_def lock_and_mint_def burn_and_unlock_def Let_def fail_if_def)
  then have "\<exists>m'. manager_submit m t = Ok (m', cm_id t) \<and> manager_get m' (cm_id t) = Some t
      \<and> t \<in> set (get_for_address m' (ua_bytes ini))"
    by (auto simp: manager_submit_def manager_get_def get_for_address_def Let_def List.map_filter_def)
  moreover have "case cm_tx_type t of
         LockAndMint \<Rightarrow> unat (cm_utxo_input_amount t) = unat (cm_evm_transfer_amount t) + unat (cm_fee t)
           \<and> unat (cm_fee t) = unat (cm_utxo_input_amount t) div 1000
       | _ \<Rightarrow> unat (cm_evm_transfer_amount t) = unat (cm_utxo_output_amount t) + unat (cm_fee t)
           \<and> unat (cm_fee t) = unat (cm_evm_transfer_amount t) div 1000"
    using assms by (auto simp: lock_and_mint_def burn_and_unlock_def Let_def fee_plus_net fee_value)
  ultimately show ?thesis by blast
qed

theorem cross_model_submit_witness:
  fixes t defines "t \<equiv> burn_and_unlock sample_ext 0 [] 5000 address_zero (ua_from_bytes sample_ext [] Mainnet)"
  shows "\<exists>m'. manager_submit CrossModelTxManager_new t = Ok (m', cm_id t) \<and> manager_get m' (cm_id t) = Some t"
  using cross_model_submit [of t sample_ext 0 _ _ _ "ua_from_bytes sample_ext [] Mainnet" "[]" 5000 address_zero]
  by (auto simp: t_def)

text \<open>A completed transaction whose deadline passes is marked expired.\<close>

lemma expires_after_completion:
  assumes "hm_wf (mg_transactions m)" and "manager_get m i = Some t" and "cm_status t = TxComplete" and "cm_expires_at t < now"
  shows "\<exists>t'. manager_get (fst (process_expired now m)) i = Some t' \<and> cm_status t' = TxExpired"
proof -
  have "hm_get (fst (expire_loop now txs)) i
      = map_option (\<lambda>t. if cm_is_expired now t \<and> cm_status t \<noteq> TxExpired then t\<lparr>cm_status := TxExpired\<rparr> else t) (hm_get txs i)" for txs
    by (induction now txs rule: expire_loop.induct) (auto simp: hm_get_def case_prod_unfold)
  then show ?thesis
    using assms by (simp add: process_expired_def manager_get_def case_prod_unfold cm_is_expired_def)
qed

text \<open>The secret of a swap is in the record from its creation on, before anything is claimed.\<close>

lemma secret_stored_at_creation: "sw_secret (AtomicSwap_new e now a b g x y secret hours) = Some secret"
  by (simp add: AtomicSwap_new_def Let_def)

end
