(* ===== verification/L2_State.thy ===== *)
theory L2_State
  imports Hash_Map Hash_Tree Chain_Types "HOL-Library.Log_Nat"
begin

section \<open>The state of the rollup\<close>

text \<open>
  \<open>pyrax-node/src/zkrollup/state.rs\<close>: the accounts of the second layer, the tree of their hashes, and the
  operations on balances. BLAKE3 is \<open>ext_blake3\<close>. \<open>recompute_root\<close> takes the leaves in the iteration order
  of their hash map, which is the order of the association list here, and computes the padded size with
  floating point, \<open>ceil(log2(n))\<close>, which is exact for every number of leaves that fits in memory.
\<close>

subsection \<open>Accounts, commitments and transitions\<close>

record L2Account =
  la_nonce :: u64
  la_balance :: u64
  la_storage_root :: h256
  la_code_hash :: h256

definition L2Account_default :: L2Account where
  "L2Account_default = \<lparr>la_nonce = 0, la_balance = 0, la_storage_root = h256_zero, la_code_hash = h256_zero\<rparr>"

definition L2Account_with_balance :: "u64 \<Rightarrow> L2Account" where
  "L2Account_with_balance balance = L2Account_default\<lparr>la_balance := balance\<rparr>"

definition L2Account_hash :: "ext \<Rightarrow> L2Account \<Rightarrow> h256" where
  "L2Account_hash e a =
     h256_from_slice (ext_blake3 e
       (u64_to_le_bytes (la_nonce a) @ u64_to_le_bytes (la_balance a)
        @ h256_bytes (la_storage_root a) @ h256_bytes (la_code_hash a)))"

record StateCommitment =
  sc_state_root :: h256
  sc_block_number :: u64
  sc_timestamp :: u64
  sc_account_count :: u64
  sc_total_value :: u64

definition StateCommitment_new :: "u64 \<Rightarrow> h256 \<Rightarrow> u64 \<Rightarrow> StateCommitment" where
  "StateCommitment_new now state_root block_number =
     \<lparr>sc_state_root = state_root, sc_block_number = block_number, sc_timestamp = now,
      sc_account_count = 0, sc_total_value = 0\<rparr>"

definition StateCommitment_hash :: "ext \<Rightarrow> StateCommitment \<Rightarrow> h256" where
  "StateCommitment_hash e c =
     h256_from_slice (ext_blake3 e
       (h256_bytes (sc_state_root c) @ u64_to_le_bytes (sc_block_number c) @ u64_to_le_bytes (sc_timestamp c)))"

record StateTransition =
  tr_pre_state_root :: h256
  tr_post_state_root :: h256
  tr_block_number :: u64
  tr_tx_hashes :: "h256 list"
  tr_modified_accounts :: "address list"
  tr_transition_hash :: h256

definition transition_compute_hash :: "ext \<Rightarrow> h256 \<Rightarrow> h256 \<Rightarrow> u64 \<Rightarrow> h256" where
  "transition_compute_hash e pre post block =
     h256_from_slice (ext_blake3 e (h256_bytes pre @ h256_bytes post @ u64_to_le_bytes block))"

definition StateTransition_new ::
  "ext \<Rightarrow> h256 \<Rightarrow> h256 \<Rightarrow> u64 \<Rightarrow> h256 list \<Rightarrow> address list \<Rightarrow> StateTransition" where
  "StateTransition_new e pre post block_number tx_hashes modified_accounts =
     \<lparr>tr_pre_state_root = pre, tr_post_state_root = post, tr_block_number = block_number,
      tr_tx_hashes = tx_hashes, tr_modified_accounts = modified_accounts,
      tr_transition_hash = transition_compute_hash e pre post block_number\<rparr>"

subsection \<open>Proofs and the tree\<close>

record StateProof =
  sp_leaf :: h256
  sp_siblings :: "h256 list"
  sp_path :: "bool list"
  sp_root :: h256

definition l2_hash_pair :: "ext \<Rightarrow> h256 \<Rightarrow> h256 \<Rightarrow> h256" where
  "l2_hash_pair e left right = h256_from_slice (ext_blake3 e (h256_bytes left @ h256_bytes right))"

text \<open>The loop over the siblings; a path bit that is missing counts as left.\<close>

fun verify_loop :: "ext \<Rightarrow> h256 \<Rightarrow> h256 list \<Rightarrow> bool list \<Rightarrow> h256" where
  "verify_loop e current [] path = current"
| "verify_loop e current (sibling # rest) path =
     verify_loop e (if path \<noteq> [] \<and> hd path then l2_hash_pair e sibling current else l2_hash_pair e current sibling)
       rest (tl path)"

definition StateProof_verify :: "ext \<Rightarrow> StateProof \<Rightarrow> bool" where
  "StateProof_verify e p = (verify_loop e (sp_leaf p) (sp_siblings p) (sp_path p) = sp_root p)"

record SparseMerkleTree =
  smt_depth :: nat
  smt_nodes :: "(h256, h256 \<times> h256) hashmap"
  smt_leaves :: "(h256, h256) hashmap"
  smt_root :: h256
  smt_default_hashes :: "h256 list"

fun compute_default_hashes :: "ext \<Rightarrow> nat \<Rightarrow> h256 list" where
  "compute_default_hashes e 0 = [h256_zero]"
| "compute_default_hashes e (Suc n) =
     (let hashes = compute_default_hashes e n in hashes @ [l2_hash_pair e (last hashes) (last hashes)])"

definition SparseMerkleTree_new :: "ext \<Rightarrow> nat \<Rightarrow> SparseMerkleTree" where
  "SparseMerkleTree_new e depth =
     (let default_hashes = compute_default_hashes e depth in
      \<lparr>smt_depth = depth, smt_nodes = [], smt_leaves = [], smt_root = default_hashes ! depth,
       smt_default_hashes = default_hashes\<rparr>)"

definition smt_get :: "SparseMerkleTree \<Rightarrow> h256 \<Rightarrow> h256 option" where
  "smt_get t key = hm_get (smt_leaves t) key"

text \<open>\<open>chunks(2)\<close> with a missing right hash replaced by zero.\<close>

fun l2_next_level :: "ext \<Rightarrow> h256 list \<Rightarrow> h256 list" where
  "l2_next_level e [] = []"
| "l2_next_level e [left] = [l2_hash_pair e left h256_zero]"
| "l2_next_level e (left # right # rest) = l2_hash_pair e left right # l2_next_level e rest"

lemma length_l2_next_level [simp]: "length (l2_next_level e level) = (length level + 1) div 2"
  by (induction e level rule: l2_next_level.induct) simp_all

function l2_root_loop :: "ext \<Rightarrow> h256 list \<Rightarrow> h256 list" where
  "l2_root_loop e level = (if 1 < length level then l2_root_loop e (l2_next_level e level) else level)"
  by pat_completeness auto
termination by (relation "measure (\<lambda>(e, level). length level)") auto

declare l2_root_loop.simps [simp del]

definition padded_leaves :: "h256 list \<Rightarrow> h256 list" where
  "padded_leaves hashes = hashes @ replicate (2 ^ ceillog2 (length hashes) - length hashes) h256_zero"

definition recompute_root :: "ext \<Rightarrow> SparseMerkleTree \<Rightarrow> SparseMerkleTree" where
  "recompute_root e t =
     (if smt_leaves t = [] then t\<lparr>smt_root := smt_default_hashes t ! smt_depth t\<rparr>
      else t\<lparr>smt_root := l2_root_loop e (padded_leaves (hm_values (smt_leaves t))) ! 0\<rparr>)"

definition smt_update :: "ext \<Rightarrow> SparseMerkleTree \<Rightarrow> h256 \<Rightarrow> h256 \<Rightarrow> SparseMerkleTree" where
  "smt_update e t key v = recompute_root e (t\<lparr>smt_leaves := hm_insert key v (smt_leaves t)\<rparr>)"

definition smt_delete :: "ext \<Rightarrow> SparseMerkleTree \<Rightarrow> h256 \<Rightarrow> SparseMerkleTree" where
  "smt_delete e t key = recompute_root e (t\<lparr>smt_leaves := hm_remove key (smt_leaves t)\<rparr>)"

definition key_to_bits :: "h256 \<Rightarrow> nat \<Rightarrow> bool list" where
  "key_to_bits key depth = map (\<lambda>i. bit (h256_bytes key ! (i div 8)) (i mod 8)) [0 ..< depth]"

definition get_sibling_hash :: "SparseMerkleTree \<Rightarrow> h256 \<Rightarrow> nat \<Rightarrow> h256" where
  "get_sibling_hash t key level = smt_default_hashes t ! level"

definition smt_prove :: "SparseMerkleTree \<Rightarrow> h256 \<Rightarrow> StateProof" where
  "smt_prove t key =
     (let leaf = (case hm_get (smt_leaves t) key of None \<Rightarrow> h256_zero | Some v \<Rightarrow> v);
          key_bits = key_to_bits key (smt_depth t)
      in \<lparr>sp_leaf = leaf, sp_siblings = map (get_sibling_hash t key) [0 ..< length key_bits],
          sp_path = key_bits, sp_root = smt_root t\<rparr>)"

record TreeStats =
  ts_depth :: nat
  ts_leaf_count :: nat
  ts_node_count :: nat
  ts_root :: h256

definition smt_stats :: "SparseMerkleTree \<Rightarrow> TreeStats" where
  "smt_stats t =
     \<lparr>ts_depth = smt_depth t, ts_leaf_count = length (smt_leaves t), ts_node_count = length (smt_nodes t),
      ts_root = smt_root t\<rparr>"

subsection \<open>The state\<close>

record L2State =
  ls_accounts :: SparseMerkleTree
  ls_account_data :: "(address, L2Account) hashmap"
  ls_storage :: "(address, SparseMerkleTree) hashmap"
  ls_commitments :: "StateCommitment list"
  ls_transitions :: "StateTransition list"
  ls_block_number :: u64

datatype StateError =
    StateInsufficientBalance u64 u64
  | InvalidPreState h256 h256
  | StateInvalidNonce u64 u64
  | AccountNotFound address

definition L2State_new :: "ext \<Rightarrow> L2State" where
  "L2State_new e =
     \<lparr>ls_accounts = SparseMerkleTree_new e 160, ls_account_data = [], ls_storage = [], ls_commitments = [],
      ls_transitions = [], ls_block_number = 0\<rparr>"

definition state_root :: "L2State \<Rightarrow> h256" where
  "state_root s = smt_root (ls_accounts s)"

definition get_account :: "L2State \<Rightarrow> address \<Rightarrow> L2Account" where
  "get_account s a = (case hm_get (ls_account_data s) a of None \<Rightarrow> L2Account_default | Some x \<Rightarrow> x)"

definition address_to_key :: "address \<Rightarrow> h256" where
  "address_to_key a = H256 (replicate 12 0 @ address_bytes a)"

definition update_account :: "ext \<Rightarrow> L2State \<Rightarrow> address \<Rightarrow> L2Account \<Rightarrow> L2State" where
  "update_account e s a account =
     s\<lparr>ls_account_data := hm_insert a account (ls_account_data s),
       ls_accounts := smt_update e (ls_accounts s) (address_to_key a) (L2Account_hash e account)\<rparr>"

definition l2_get_balance :: "L2State \<Rightarrow> address \<Rightarrow> u64" where
  "l2_get_balance s a = la_balance (get_account s a)"

definition l2_get_nonce :: "L2State \<Rightarrow> address \<Rightarrow> u64" where
  "l2_get_nonce s a = la_nonce (get_account s a)"

definition transfer :: "ext \<Rightarrow> L2State \<Rightarrow> address \<Rightarrow> address \<Rightarrow> u64 \<Rightarrow> StateError + L2State" where
  "transfer e s sender to' amount =
     (let from_account = get_account s sender; to_account = get_account s to' in
      if la_balance from_account < amount then Err (StateInsufficientBalance (la_balance from_account) amount)
      else let from_account' = from_account\<lparr>la_balance := la_balance from_account - amount,
                 la_nonce := la_nonce from_account + 1\<rparr>;
               to_account' = to_account\<lparr>la_balance := la_balance to_account + amount\<rparr>
           in Ok (update_account e (update_account e s sender from_account') to' to_account'))"

definition credit :: "ext \<Rightarrow> L2State \<Rightarrow> address \<Rightarrow> u64 \<Rightarrow> L2State" where
  "credit e s a amount =
     (let account = get_account s a in update_account e s a (account\<lparr>la_balance := la_balance account + amount\<rparr>))"

definition debit :: "ext \<Rightarrow> L2State \<Rightarrow> address \<Rightarrow> u64 \<Rightarrow> StateError + L2State" where
  "debit e s a amount =
     (let account = get_account s a in
      if la_balance account < amount then Err (StateInsufficientBalance (la_balance account) amount)
      else Ok (update_account e s a (account\<lparr>la_balance := la_balance account - amount\<rparr>)))"

definition increment_nonce :: "ext \<Rightarrow> L2State \<Rightarrow> address \<Rightarrow> L2State" where
  "increment_nonce e s a =
     (let account = get_account s a in update_account e s a (account\<lparr>la_nonce := la_nonce account + 1\<rparr>))"

definition set_storage :: "ext \<Rightarrow> L2State \<Rightarrow> address \<Rightarrow> h256 \<Rightarrow> h256 \<Rightarrow> L2State" where
  "set_storage e s a key v =
     (let tree = (case hm_get (ls_storage s) a of None \<Rightarrow> SparseMerkleTree_new e 256 | Some t \<Rightarrow> t);
          tree' = smt_update e tree key v;
          s1 = s\<lparr>ls_storage := hm_insert a tree' (ls_storage s)\<rparr>;
          account = get_account s1 a
      in update_account e s1 a (account\<lparr>la_storage_root := smt_root tree'\<rparr>))"

definition get_storage :: "L2State \<Rightarrow> address \<Rightarrow> h256 \<Rightarrow> h256" where
  "get_storage s a key =
     (case hm_get (ls_storage s) a of
        None \<Rightarrow> h256_zero
      | Some t \<Rightarrow> (case smt_get t key of None \<Rightarrow> h256_zero | Some v \<Rightarrow> v))"

definition prove_account :: "L2State \<Rightarrow> address \<Rightarrow> StateProof" where
  "prove_account s a = smt_prove (ls_accounts s) (address_to_key a)"

definition apply_transition :: "L2State \<Rightarrow> StateTransition \<Rightarrow> StateError + L2State" where
  "apply_transition s t =
     (if state_root s \<noteq> tr_pre_state_root t then Err (InvalidPreState (tr_pre_state_root t) (state_root s))
      else Ok (s\<lparr>ls_transitions := ls_transitions s @ [t], ls_block_number := tr_block_number t\<rparr>))"

definition l2_commit :: "u64 \<Rightarrow> L2State \<Rightarrow> L2State \<times> StateCommitment" where
  "l2_commit now s =
     (let commitment = (StateCommitment_new now (state_root s) (ls_block_number s))
            \<lparr>sc_account_count := of_nat (length (ls_account_data s)),
             sc_total_value := sum_list (map la_balance (hm_values (ls_account_data s)))\<rparr>
      in (s\<lparr>ls_commitments := ls_commitments s @ [commitment]\<rparr>, commitment))"

definition get_commitment :: "L2State \<Rightarrow> u64 \<Rightarrow> StateCommitment option" where
  "get_commitment s block_number = List.find (\<lambda>c. sc_block_number c = block_number) (ls_commitments s)"

record L2StateStats =
  lst_block_number :: u64
  lst_state_root :: h256
  lst_account_count :: u64
  lst_total_value :: u64
  lst_commitment_count :: u64
  lst_transition_count :: u64

definition L2State_stats :: "L2State \<Rightarrow> L2StateStats" where
  "L2State_stats s =
     \<lparr>lst_block_number = ls_block_number s, lst_state_root = state_root s,
      lst_account_count = of_nat (length (ls_account_data s)),
      lst_total_value = sum_list (map la_balance (hm_values (ls_account_data s))),
      lst_commitment_count = of_nat (length (ls_commitments s)),
      lst_transition_count = of_nat (length (ls_transitions s))\<rparr>"

subsection \<open>Balances\<close>

definition l2_total :: "L2State \<Rightarrow> nat" where
  "l2_total s = weight (\<lambda>a. unat (la_balance a)) (ls_account_data s)"

lemma get_account_update [simp]:
  "get_account (update_account e s a acct) b = (if b = a then acct else get_account s b)"
  by (simp add: get_account_def update_account_def)

lemma l2_total_update:
  "l2_total (update_account e s a acct) + unat (la_balance (get_account s a)) = l2_total s + unat (la_balance acct)"
proof -
  have "unat (la_balance (get_account s a)) = held (\<lambda>x. unat (la_balance x)) (hm_get (ls_account_data s) a)"
    by (simp add: get_account_def L2Account_default_def split: option.split)
  then show ?thesis
    using weight_insert [of "\<lambda>x. unat (la_balance x)" a acct "ls_account_data s"]
    by (simp add: l2_total_def update_account_def)
qed

lemma balance_le_total: "hm_wf (ls_account_data s) \<Longrightarrow> unat (l2_get_balance s a) \<le> l2_total s"
  using hm_weight.total_held [of "ls_account_data s" "\<lambda>x. unat (la_balance x)" a]
  by (auto simp: l2_total_def l2_get_balance_def get_account_def L2Account_default_def split: option.splits)

lemma credit_total:
  assumes "unat (l2_get_balance s a) + unat amount < 2 ^ 64"
  shows "l2_total (credit e s a amount) = l2_total s + unat amount"
  using assms l2_total_update [of e s a "(get_account s a)\<lparr>la_balance := la_balance (get_account s a) + amount\<rparr>"]
  by (simp add: credit_def Let_def l2_get_balance_def unat_add_exact)

lemma debit_total:
  assumes "debit e s a amount = Ok s'"
  shows "l2_total s' + unat amount = l2_total s"
proof -
  have le: "amount \<le> la_balance (get_account s a)"
    and s': "s' = update_account e s a ((get_account s a)\<lparr>la_balance := la_balance (get_account s a) - amount\<rparr>)"
    using assms by (auto simp: debit_def Let_def not_less split: if_splits)
  then show ?thesis
    using l2_total_update [of e s a "(get_account s a)\<lparr>la_balance := la_balance (get_account s a) - amount\<rparr>"]
    by (simp add: unat_sub_exact word_le_nat_alt)
qed

lemma account_wf_update [simp]: "hm_wf (ls_account_data s) \<Longrightarrow> hm_wf (ls_account_data (update_account e s a acct))"
  by (simp add: update_account_def)

lemma account_wf_credit [simp]: "hm_wf (ls_account_data s) \<Longrightarrow> hm_wf (ls_account_data (credit e s a amount))"
  by (simp add: credit_def Let_def)

lemma account_wf_debit: "debit e s a amount = Ok s' \<Longrightarrow> hm_wf (ls_account_data s) \<Longrightarrow> hm_wf (ls_account_data s')"
  by (auto simp: debit_def Let_def split: if_splits)

lemma transfer_OkD:
  assumes "transfer e s a b x = Ok s'"
  shows "x \<le> la_balance (get_account s a)
    \<and> s' = update_account e (update_account e s a ((get_account s a)\<lparr>la_balance := la_balance (get_account s a) - x,
        la_nonce := la_nonce (get_account s a) + 1\<rparr>))
      b ((get_account s b)\<lparr>la_balance := la_balance (get_account s b) + x\<rparr>)"
  using assms by (auto simp: transfer_def Let_def not_less split: if_splits)

lemma transfer_total:
  assumes "transfer e s sender to' amount = Ok s'" and "sender \<noteq> to'"
    and "unat (l2_get_balance s to') + unat amount < 2 ^ 64"
  shows "l2_total s' = l2_total s"
proof -
  let ?f = "(get_account s sender)\<lparr>la_balance := la_balance (get_account s sender) - amount,
    la_nonce := la_nonce (get_account s sender) + 1\<rparr>"
  let ?t = "(get_account s to')\<lparr>la_balance := la_balance (get_account s to') + amount\<rparr>"
  have le: "amount \<le> la_balance (get_account s sender)"
    and s': "s' = update_account e (update_account e s sender ?f) to' ?t"
    using transfer_OkD [OF assms(1)] by blast+
  have "l2_total (update_account e s sender ?f) + unat amount = l2_total s"
    using l2_total_update [of e s sender ?f] le by (simp add: unat_sub_exact word_le_nat_alt)
  moreover have "l2_total s' = l2_total (update_account e s sender ?f) + unat amount"
    using l2_total_update [of e "update_account e s sender ?f" to' ?t] assms(2,3)
    by (simp add: s' l2_get_balance_def unat_add_exact)
  ultimately show ?thesis by simp
qed

subsection \<open>The tree follows the accounts\<close>

datatype l2_op =
    Transfer address address u64
  | Credit address u64
  | Debit address u64
  | IncrementNonce address
  | SetStorage address h256 h256
  | ApplyTransition StateTransition
  | Commit u64

fun l2_step :: "ext \<Rightarrow> L2State \<Rightarrow> l2_op \<Rightarrow> L2State" where
  "l2_step e s (Transfer a b x) = ok_or s (transfer e s a b x)"
| "l2_step e s (Credit a x) = credit e s a x"
| "l2_step e s (Debit a x) = ok_or s (debit e s a x)"
| "l2_step e s (IncrementNonce a) = increment_nonce e s a"
| "l2_step e s (SetStorage a k v) = set_storage e s a k v"
| "l2_step e s (ApplyTransition t) = ok_or s (apply_transition s t)"
| "l2_step e s (Commit now) = fst (l2_commit now s)"

definition l2_inv :: "ext \<Rightarrow> L2State \<Rightarrow> bool" where
  "l2_inv e s =
     (smt_leaves (ls_accounts s) = map (\<lambda>(a, x). (address_to_key a, L2Account_hash e x)) (ls_account_data s)
      \<and> hm_wf (ls_account_data s)
      \<and> state_root s = (if ls_account_data s = [] then compute_default_hashes e 160 ! 160
          else l2_root_loop e (padded_leaves (map (L2Account_hash e) (hm_values (ls_account_data s)))) ! 0)
      \<and> smt_default_hashes (ls_accounts s) = compute_default_hashes e 160 \<and> smt_depth (ls_accounts s) = 160)"

lemma address_to_key_inj [simp]: "address_to_key a = address_to_key b \<longleftrightarrow> a = b"
  by (cases a; cases b) (simp add: address_to_key_def)

lemma hm_insert_map_key:
  "(\<And>x y. k x = k y \<longleftrightarrow> x = y) \<Longrightarrow>
    hm_insert (k a) (f v) (map (\<lambda>(a, x). (k a, f x)) m) = map (\<lambda>(a, x). (k a, f x)) (hm_insert a v m)"
  by (induction m) (auto simp: hm_insert_def)

lemma update_account_inv:
  assumes "l2_inv e s"
  shows "l2_inv e (update_account e s a acct)"
proof -
  have "hm_insert a acct (ls_account_data s) \<noteq> []"
    by (metis hm_contains_simps(1,2))
  then show ?thesis
    using assms hm_insert_map_key [of address_to_key a "L2Account_hash e" acct "ls_account_data s"]
    by (simp add: l2_inv_def update_account_def smt_update_def recompute_root_def state_root_def hm_values_def
        comp_def case_prod_unfold)
qed

lemma l2_inv_frame:
  "l2_inv e s \<Longrightarrow> ls_accounts s' = ls_accounts s \<Longrightarrow> ls_account_data s' = ls_account_data s \<Longrightarrow> l2_inv e s'"
  by (simp add: l2_inv_def state_root_def)

lemma l2_inv_new: "l2_inv e (L2State_new e)"
  by (simp add: l2_inv_def L2State_new_def SparseMerkleTree_new_def state_root_def Let_def)

lemma l2_inv_step: "l2_inv e s \<Longrightarrow> l2_inv e (l2_step e s op)"
proof (cases op)
  case (SetStorage a k v)
  assume inv: "l2_inv e s"
  have "l2_inv e (s\<lparr>ls_storage := m\<rparr>)" for m using inv by (rule l2_inv_frame) simp_all
  then show ?thesis by (simp add: SetStorage set_storage_def Let_def update_account_inv)
qed (auto simp: ok_or_def transfer_def credit_def debit_def increment_nonce_def apply_transition_def l2_commit_def Let_def
    update_account_inv elim: l2_inv_frame split: if_splits)

interpretation l2: machine "L2State_new e" "l2_step e" "l2_inv e" for e
  by unfold_locales (simp_all add: l2_inv_new l2_inv_step)

subsection \<open>Properties\<close>

text \<open>
  A transfer between two accounts: it is refused exactly when the balance is too small, and otherwise
  moves the amount, raises the sender's nonce by one, leaves every other account alone and keeps the sum of
  all balances.
\<close>

theorem l2_transfer_exact:
  assumes "a \<noteq> b" and "unat (l2_get_balance s b) + unat x < 2 ^ 64"
  shows "case transfer e s a b x of
      Err err \<Rightarrow> l2_get_balance s a < x \<and> err = StateInsufficientBalance (l2_get_balance s a) x
    | Ok s' \<Rightarrow> x \<le> l2_get_balance s a \<and> l2_total s' = l2_total s \<and> l2_get_nonce s' a = l2_get_nonce s a + 1
        \<and> unat (l2_get_balance s' a) + unat x = unat (l2_get_balance s a)
        \<and> unat (l2_get_balance s' b) = unat (l2_get_balance s b) + unat x
        \<and> (\<forall>c. c \<notin> {a, b} \<longrightarrow> get_account s' c = get_account s c)"
proof (cases "l2_get_balance s a < x")
  case True
  then show ?thesis by (simp add: transfer_def l2_get_balance_def Let_def)
next
  case False
  then obtain s' where s': "transfer e s a b x = Ok s'"
    by (simp add: transfer_def l2_get_balance_def Let_def)
  then show ?thesis
    using False assms transfer_total [OF s' assms] transfer_OkD [OF s']
    by (auto simp: l2_get_balance_def l2_get_nonce_def unat_add_exact unat_sub_exact word_le_nat_alt)
qed

theorem l2_transfer_exact_witness:
  fixes s defines "s \<equiv> credit sample_ext (L2State_new sample_ext) (Address [1]) 10"
  shows "\<exists>s'. transfer sample_ext s (Address [1]) (Address [2]) 4 = Ok s' \<and> l2_total s' = l2_total s
    \<and> unat (l2_get_balance s' (Address [2])) = 4"
proof -
  have none: "l2_get_balance s (Address [2]) = 0" and bal: "l2_get_balance s (Address [1]) = 10"
    by (simp_all add: s_def l2_get_balance_def credit_def Let_def)
      (simp_all add: get_account_def L2State_new_def L2Account_default_def)
  then obtain s' where "transfer sample_ext s (Address [1]) (Address [2]) 4 = Ok s'"
    by (auto simp: transfer_def Let_def l2_get_balance_def)
  then show ?thesis
    using l2_transfer_exact [of "Address [1]" "Address [2]" s 4 sample_ext] none by auto
qed

text \<open>
  The root commits to the accounts: after any operations the tree has one leaf per stored account,
  under the key of its address and with the hash of its nonce, balance, storage root and code hash, and
  the root is the root of these leaves, padded with zeros to a power of two.
\<close>

theorem state_root_commits_accounts:
  assumes "s = run (l2_step e) (L2State_new e) ops"
  shows "smt_get (ls_accounts s) (address_to_key a) = map_option (L2Account_hash e) (hm_get (ls_account_data s) a)
    \<and> (ls_account_data s \<noteq> [] \<longrightarrow>
        state_root s = l2_root_loop e (padded_leaves (map (L2Account_hash e) (hm_values (ls_account_data s)))) ! 0)
    \<and> length (padded_leaves (map (L2Account_hash e) (hm_values (ls_account_data s)))) = 2 ^ ceillog2 (length (ls_account_data s))"
proof -
  have inv: "l2_inv e s" unfolding assms by (intro l2.inv_run l2.inv_init)
  have "hm_get (map (\<lambda>(a, x). (address_to_key a, L2Account_hash e x)) m) (address_to_key a)
      = map_option (L2Account_hash e) (hm_get m a)" for m
    by (induction m) (auto simp: hm_get_def)
  then show ?thesis
    using inv le_two_power_ceillog2 [of "length (ls_account_data s)"]
    by (simp add: l2_inv_def smt_get_def padded_leaves_def hm_values_def)
qed

theorem state_root_commits_accounts_witness:
  "smt_get (ls_accounts (credit sample_ext (L2State_new sample_ext) (Address [1]) 10)) (address_to_key (Address [1]))
    = Some (L2Account_hash sample_ext (L2Account_with_balance 10))"
  using state_root_commits_accounts [of "credit sample_ext (L2State_new sample_ext) (Address [1]) 10" sample_ext
      "[Credit (Address [1]) 10]" "Address [1]"]
  by (simp add: credit_def Let_def update_account_def get_account_def L2State_new_def L2Account_with_balance_def
      L2Account_default_def)

text \<open>
  A transfer to oneself adds the amount to the balance, since the second of the two updates is made from a
  copy taken before the first.
\<close>

lemma self_transfer_mints:
  assumes "x \<le> l2_get_balance s a"
  shows "\<exists>s'. transfer e s a a x = Ok s' \<and> l2_get_balance s' a = l2_get_balance s a + x
    \<and> l2_get_nonce s' a = l2_get_nonce s a"
  using assms by (simp add: transfer_def l2_get_balance_def l2_get_nonce_def Let_def not_less)

text \<open>The siblings of an account proof are those of the empty tree, whatever the accounts are.\<close>

lemma proof_siblings_ignore_accounts:
  assumes "s = run (l2_step e) (L2State_new e) ops"
  shows "sp_siblings (prove_account s a) = map ((!) (compute_default_hashes e 160)) [0 ..< 160]"
proof -
  have "l2_inv e s" unfolding assms by (intro l2.inv_run l2.inv_init)
  then show ?thesis
    by (simp add: prove_account_def smt_prove_def get_sibling_hash_def key_to_bits_def l2_inv_def Let_def)
qed

text \<open>The root depends on the order of the leaves.\<close>

lemma root_of_two: "l2_root_loop e [a, b] = [l2_hash_pair e a b]"
  by (subst l2_root_loop.simps) (simp add: l2_root_loop.simps [of e "[_]"])

end
