(* ===== verification/L2_Bridge.thy ===== *)
theory L2_Bridge
  imports L2_State
begin

section \<open>Deposits and withdrawals of the rollup\<close>

text \<open>
  \<open>pyrax-node/src/zkrollup/bridge.rs\<close>: deposits from the first layer are recorded and credited once,
  withdrawals debit the account at once, are proved, wait for the challenge period and are finalized. The
  bridge holds the state of the rollup. The clock is an argument of the operations that read it.
\<close>

definition WITHDRAWAL_CHALLENGE_PERIOD :: u64 where
  "WITHDRAWAL_CHALLENGE_PERIOD = 7 * 24 * 60 * 60"

datatype WithdrawalStatus =
  WdPending | WdProven | WdChallenging | WdReady | WdFinalized | WdChallenged | WdExpired

record Deposit =
  dp_id :: h256
  dp_l1_tx_hash :: h256
  dp_l1_block_number :: u64
  dp_from :: address
  dp_to :: address
  dp_amount :: u64
  dp_timestamp :: u64
  dp_processed :: bool
  dp_l2_tx_hash :: "h256 option"

definition deposit_generate_id :: "ext \<Rightarrow> h256 \<Rightarrow> address \<Rightarrow> u64 \<Rightarrow> h256" where
  "deposit_generate_id e l1_tx_hash sender amount =
     h256_from_slice (ext_blake3 e (h256_bytes l1_tx_hash @ address_bytes sender @ u64_to_le_bytes amount))"

definition Deposit_new :: "ext \<Rightarrow> u64 \<Rightarrow> h256 \<Rightarrow> u64 \<Rightarrow> address \<Rightarrow> address \<Rightarrow> u64 \<Rightarrow> Deposit" where
  "Deposit_new e now l1_tx_hash l1_block_number sender to' amount =
     \<lparr>dp_id = deposit_generate_id e l1_tx_hash sender amount, dp_l1_tx_hash = l1_tx_hash,
      dp_l1_block_number = l1_block_number, dp_from = sender, dp_to = to', dp_amount = amount,
      dp_timestamp = now, dp_processed = False, dp_l2_tx_hash = None\<rparr>"

definition mark_processed :: "Deposit \<Rightarrow> h256 \<Rightarrow> Deposit" where
  "mark_processed d l2_tx_hash = d\<lparr>dp_processed := True, dp_l2_tx_hash := Some l2_tx_hash\<rparr>"

record WithdrawalProof =
  wp_withdrawal_hash :: h256
  wp_state_root :: h256
  wp_batch_number :: u64
  wp_batch_proof :: "u8 list"
  wp_merkle_proof :: StateProof
  wp_output_root :: h256

definition WithdrawalProof_verify :: "ext \<Rightarrow> WithdrawalProof \<Rightarrow> bool" where
  "WithdrawalProof_verify e p =
     (if \<not> StateProof_verify e (wp_merkle_proof p) then False
      else if wp_batch_proof p = [] then False else True)"

record Withdrawal =
  wd_id :: h256
  wd_from :: address
  wd_to :: address
  wd_amount :: u64
  wd_l2_tx_hash :: h256
  wd_l2_block_number :: u64
  wd_status :: WithdrawalStatus
  wd_proof :: "WithdrawalProof option"
  wd_challenge_start :: "u64 option"
  wd_finalized_at :: "u64 option"
  wd_l1_tx_hash :: "h256 option"
  wd_created_at :: u64

definition withdrawal_generate_id :: "ext \<Rightarrow> h256 \<Rightarrow> address \<Rightarrow> u64 \<Rightarrow> h256" where
  "withdrawal_generate_id e l2_tx_hash sender amount =
     h256_from_slice (ext_blake3 e (h256_bytes l2_tx_hash @ address_bytes sender @ u64_to_le_bytes amount))"

definition Withdrawal_new :: "ext \<Rightarrow> u64 \<Rightarrow> address \<Rightarrow> address \<Rightarrow> u64 \<Rightarrow> h256 \<Rightarrow> u64 \<Rightarrow> Withdrawal" where
  "Withdrawal_new e now sender to' amount l2_tx_hash l2_block_number =
     \<lparr>wd_id = withdrawal_generate_id e l2_tx_hash sender amount, wd_from = sender, wd_to = to',
      wd_amount = amount, wd_l2_tx_hash = l2_tx_hash, wd_l2_block_number = l2_block_number,
      wd_status = WdPending, wd_proof = None, wd_challenge_start = None, wd_finalized_at = None,
      wd_l1_tx_hash = None, wd_created_at = now\<rparr>"

definition Withdrawal_hash :: "ext \<Rightarrow> Withdrawal \<Rightarrow> h256" where
  "Withdrawal_hash e w =
     h256_from_slice (ext_blake3 e
       (h256_bytes (wd_id w) @ address_bytes (wd_from w) @ address_bytes (wd_to w)
        @ u64_to_le_bytes (wd_amount w) @ h256_bytes (wd_l2_tx_hash w)))"

definition submit_proof :: "u64 \<Rightarrow> Withdrawal \<Rightarrow> WithdrawalProof \<Rightarrow> Withdrawal" where
  "submit_proof now w p = w\<lparr>wd_proof := Some p, wd_status := WdProven, wd_challenge_start := Some now\<rparr>"

definition wd_is_ready :: "u64 \<Rightarrow> Withdrawal \<Rightarrow> bool" where
  "wd_is_ready now w =
     (if wd_status w \<noteq> WdProven \<and> wd_status w \<noteq> WdChallenging then False
      else case wd_challenge_start w of
        Some start \<Rightarrow> start + WITHDRAWAL_CHALLENGE_PERIOD \<le> now
      | None \<Rightarrow> False)"

definition mark_ready :: "u64 \<Rightarrow> Withdrawal \<Rightarrow> Withdrawal" where
  "mark_ready now w = (if wd_is_ready now w then w\<lparr>wd_status := WdReady\<rparr> else w)"

definition wd_finalize :: "u64 \<Rightarrow> Withdrawal \<Rightarrow> h256 \<Rightarrow> Withdrawal" where
  "wd_finalize now w l1_tx_hash =
     w\<lparr>wd_status := WdFinalized, wd_finalized_at := Some now, wd_l1_tx_hash := Some l1_tx_hash\<rparr>"

definition wd_challenge :: "Withdrawal \<Rightarrow> Withdrawal" where
  "wd_challenge w =
     (if wd_status w = WdProven \<or> wd_status w = WdChallenging then w\<lparr>wd_status := WdChallenged\<rparr> else w)"

definition time_until_ready :: "u64 \<Rightarrow> Withdrawal \<Rightarrow> u64 option" where
  "time_until_ready now w =
     map_option (\<lambda>start. let end' = start + WITHDRAWAL_CHALLENGE_PERIOD in if now < end' then end' - now else 0)
       (wd_challenge_start w)"

record L2BridgeStats =
  lbs_deposits_recorded :: u64
  lbs_deposits_processed :: u64
  lbs_total_deposited :: u64
  lbs_withdrawals_initiated :: u64
  lbs_proofs_submitted :: u64
  lbs_withdrawals_finalized :: u64
  lbs_total_withdrawn :: u64
  lbs_challenges :: u64

definition L2BridgeStats_default :: L2BridgeStats where
  "L2BridgeStats_default =
     \<lparr>lbs_deposits_recorded = 0, lbs_deposits_processed = 0, lbs_total_deposited = 0,
      lbs_withdrawals_initiated = 0, lbs_proofs_submitted = 0, lbs_withdrawals_finalized = 0,
      lbs_total_withdrawn = 0, lbs_challenges = 0\<rparr>"

record L2Bridge =
  lb_state :: L2State
  lb_pending_deposits :: "(h256, Deposit) hashmap"
  lb_processed_deposits :: "(h256, Deposit) hashmap"
  lb_pending_withdrawals :: "(h256, Withdrawal) hashmap"
  lb_finalized_withdrawals :: "(h256, Withdrawal) hashmap"
  lb_withdrawal_tree :: "h256 list"
  lb_l1_bridge_address :: address
  lb_stats :: L2BridgeStats

datatype L2BridgeError =
    DuplicateDeposit h256
  | DepositNotFound h256
  | WithdrawalNotFound h256
  | L2InsufficientBalance u64 u64
  | InvalidWithdrawalState WithdrawalStatus
  | WithdrawalNotReady
  | InvalidProof
  | WithdrawalNotInTree
  | ChallengePeriodActive

definition L2Bridge_new :: "L2State \<Rightarrow> address \<Rightarrow> L2Bridge" where
  "L2Bridge_new state l1_bridge_address =
     \<lparr>lb_state = state, lb_pending_deposits = [], lb_processed_deposits = [], lb_pending_withdrawals = [],
      lb_finalized_withdrawals = [], lb_withdrawal_tree = [], lb_l1_bridge_address = l1_bridge_address,
      lb_stats = L2BridgeStats_default\<rparr>"

definition record_deposit :: "L2Bridge \<Rightarrow> Deposit \<Rightarrow> L2BridgeError + (L2Bridge \<times> h256)" where
  "record_deposit b d =
     (let i = dp_id d in
      if hm_contains (lb_pending_deposits b) i then Err (DuplicateDeposit i)
      else if hm_contains (lb_processed_deposits b) i then Err (DuplicateDeposit i)
      else Ok (b\<lparr>lb_pending_deposits := hm_insert i d (lb_pending_deposits b),
                 lb_stats := (lb_stats b)\<lparr>lbs_deposits_recorded := lbs_deposits_recorded (lb_stats b) + 1\<rparr>\<rparr>, i))"

definition L2_DEPOSIT :: "u8 list" where
  "L2_DEPOSIT = [76, 50, 95, 68, 69, 80, 79, 83, 73, 84]"

definition process_deposit :: "ext \<Rightarrow> u64 \<Rightarrow> L2Bridge \<Rightarrow> h256 \<Rightarrow> L2BridgeError + (L2Bridge \<times> h256)" where
  "process_deposit e now b deposit_id =
     (case hm_get (lb_pending_deposits b) deposit_id of
        None \<Rightarrow> Err (DepositNotFound deposit_id)
      | Some d \<Rightarrow>
          let l2_tx_hash = h256_from_slice (ext_blake3 e (h256_bytes (dp_id d) @ L2_DEPOSIT @ u64_to_le_bytes now)) in
          Ok (b\<lparr>lb_pending_deposits := hm_remove deposit_id (lb_pending_deposits b),
                lb_state := credit e (lb_state b) (dp_to d) (dp_amount d),
                lb_processed_deposits := hm_insert deposit_id (mark_processed d l2_tx_hash) (lb_processed_deposits b),
                lb_stats := (lb_stats b)\<lparr>lbs_deposits_processed := lbs_deposits_processed (lb_stats b) + 1,
                  lbs_total_deposited := lbs_total_deposited (lb_stats b) + dp_amount d\<rparr>\<rparr>, l2_tx_hash))"

definition initiate_withdrawal ::
  "ext \<Rightarrow> u64 \<Rightarrow> L2Bridge \<Rightarrow> address \<Rightarrow> address \<Rightarrow> u64 \<Rightarrow> L2BridgeError + (L2Bridge \<times> Withdrawal)" where
  "initiate_withdrawal e now b sender to' amount =
     (let balance = l2_get_balance (lb_state b) sender in
      if balance < amount then Err (L2InsufficientBalance balance amount)
      else case debit e (lb_state b) sender amount of
        Err _ \<Rightarrow> Err (L2InsufficientBalance balance amount)
      | Ok s \<Rightarrow>
          let l2_tx_hash = h256_from_slice (ext_blake3 e
                (address_bytes sender @ address_bytes to' @ u64_to_le_bytes amount @ u64_to_le_bytes now));
              w = Withdrawal_new e now sender to' amount l2_tx_hash (ls_block_number s)
          in Ok (b\<lparr>lb_state := s, lb_withdrawal_tree := lb_withdrawal_tree b @ [Withdrawal_hash e w],
                   lb_pending_withdrawals := hm_insert (wd_id w) w (lb_pending_withdrawals b),
                   lb_stats := (lb_stats b)\<lparr>lbs_withdrawals_initiated := lbs_withdrawals_initiated (lb_stats b) + 1\<rparr>\<rparr>, w))"

definition submit_withdrawal_proof :: "ext \<Rightarrow> u64 \<Rightarrow> L2Bridge \<Rightarrow> h256 \<Rightarrow> WithdrawalProof \<Rightarrow> L2BridgeError + L2Bridge" where
  "submit_withdrawal_proof e now b withdrawal_id proof =
     (if \<not> WithdrawalProof_verify e proof then Err InvalidProof
      else case hm_get (lb_pending_withdrawals b) withdrawal_id of
        None \<Rightarrow> Err (WithdrawalNotFound withdrawal_id)
      | Some w \<Rightarrow>
          if wd_status w \<noteq> WdPending then Err (InvalidWithdrawalState (wd_status w))
          else Ok (b\<lparr>lb_pending_withdrawals := hm_insert withdrawal_id (submit_proof now w proof) (lb_pending_withdrawals b),
                     lb_stats := (lb_stats b)\<lparr>lbs_proofs_submitted := lbs_proofs_submitted (lb_stats b) + 1\<rparr>\<rparr>))"

definition finalize_withdrawal :: "u64 \<Rightarrow> L2Bridge \<Rightarrow> h256 \<Rightarrow> h256 \<Rightarrow> L2BridgeError + L2Bridge" where
  "finalize_withdrawal now b withdrawal_id l1_tx_hash =
     (case hm_get (lb_pending_withdrawals b) withdrawal_id of
        None \<Rightarrow> Err (WithdrawalNotFound withdrawal_id)
      | Some w \<Rightarrow>
          if \<not> wd_is_ready now w \<and> wd_status w \<noteq> WdReady then Err WithdrawalNotReady
          else Ok (b\<lparr>lb_pending_withdrawals := hm_remove withdrawal_id (lb_pending_withdrawals b),
                     lb_finalized_withdrawals :=
                       hm_insert withdrawal_id (wd_finalize now w l1_tx_hash) (lb_finalized_withdrawals b),
                     lb_stats := (lb_stats b)\<lparr>lbs_withdrawals_finalized := lbs_withdrawals_finalized (lb_stats b) + 1,
                       lbs_total_withdrawn := lbs_total_withdrawn (lb_stats b) + wd_amount w\<rparr>\<rparr>))"

definition challenge_withdrawal :: "ext \<Rightarrow> L2Bridge \<Rightarrow> h256 \<Rightarrow> u8 list \<Rightarrow> L2BridgeError + L2Bridge" where
  "challenge_withdrawal e b withdrawal_id fraud_proof =
     (case hm_get (lb_pending_withdrawals b) withdrawal_id of
        None \<Rightarrow> Err (WithdrawalNotFound withdrawal_id)
      | Some w \<Rightarrow>
          if wd_status w \<noteq> WdProven \<and> wd_status w \<noteq> WdChallenging then Err (InvalidWithdrawalState (wd_status w))
          else Ok (b\<lparr>lb_pending_withdrawals := hm_insert withdrawal_id (wd_challenge w) (lb_pending_withdrawals b),
                     lb_state := credit e (lb_state b) (wd_from w) (wd_amount w),
                     lb_stats := (lb_stats b)\<lparr>lbs_challenges := lbs_challenges (lb_stats b) + 1\<rparr>\<rparr>))"

text \<open>The loop of \<open>generate_merkle_proof\<close>: the siblings, the path and the last level.\<close>

definition zero_pad :: "h256 list \<Rightarrow> h256 list" where
  "zero_pad level = (if length level mod 2 = 1 then level @ [h256_zero] else level)"

function withdrawal_path :: "ext \<Rightarrow> h256 list \<Rightarrow> nat \<Rightarrow> h256 list \<times> bool list" where
  "withdrawal_path e level idx =
     (if 1 < length level then
        let is_right = idx mod 2 = 1;
            sibling_idx = (if is_right then idx - 1 else idx + 1);
            sibling = (case nth_opt level sibling_idx of None \<Rightarrow> h256_zero | Some h \<Rightarrow> h)
        in case withdrawal_path e (l2_next_level e level) (idx div 2) of
             (siblings, path) \<Rightarrow> (sibling # siblings, is_right # path)
      else ([], []))"
  by pat_completeness auto
termination by (relation "measure (\<lambda>(e, level, idx). length level)") auto

declare withdrawal_path.simps [simp del]

fun find_position :: "'a list \<Rightarrow> 'a \<Rightarrow> nat option" where
  "find_position [] x = None"
| "find_position (y # ys) x = (if y = x then Some 0 else map_option Suc (find_position ys x))"

definition generate_merkle_proof :: "ext \<Rightarrow> L2Bridge \<Rightarrow> h256 \<Rightarrow> L2BridgeError + StateProof" where
  "generate_merkle_proof e b withdrawal_hash =
     (let tree = lb_withdrawal_tree b in
      case find_position tree withdrawal_hash of
        None \<Rightarrow> Err WithdrawalNotInTree
      | Some index \<Rightarrow>
          (case withdrawal_path e tree index of
             (siblings, path) \<Rightarrow>
               let level = l2_root_loop e tree in
               Ok \<lparr>sp_leaf = withdrawal_hash, sp_siblings = siblings, sp_path = path,
                   sp_root = (if level = [] then h256_zero else hd level)\<rparr>))"

definition compute_output_root :: "ext \<Rightarrow> h256 \<Rightarrow> h256 \<Rightarrow> h256" where
  "compute_output_root e sroot withdrawal_root = l2_hash_pair e sroot withdrawal_root"

definition generate_withdrawal_proof ::
  "ext \<Rightarrow> L2Bridge \<Rightarrow> h256 \<Rightarrow> u64 \<Rightarrow> u8 list \<Rightarrow> L2BridgeError + WithdrawalProof" where
  "generate_withdrawal_proof e b withdrawal_id batch_number batch_proof =
     (case hm_get (lb_pending_withdrawals b) withdrawal_id of
        None \<Rightarrow> Err (WithdrawalNotFound withdrawal_id)
      | Some w \<Rightarrow>
          let sroot = state_root (lb_state b); withdrawal_hash = Withdrawal_hash e w in
          and_then (generate_merkle_proof e b withdrawal_hash) (\<lambda>merkle_proof.
            Ok \<lparr>wp_withdrawal_hash = withdrawal_hash, wp_state_root = sroot, wp_batch_number = batch_number,
                wp_batch_proof = batch_proof, wp_merkle_proof = merkle_proof,
                wp_output_root = compute_output_root e sroot withdrawal_hash\<rparr>))"

definition get_deposit :: "L2Bridge \<Rightarrow> h256 \<Rightarrow> Deposit option" where
  "get_deposit b i =
     (case hm_get (lb_pending_deposits b) i of Some d \<Rightarrow> Some d | None \<Rightarrow> hm_get (lb_processed_deposits b) i)"

definition get_withdrawal :: "L2Bridge \<Rightarrow> h256 \<Rightarrow> Withdrawal option" where
  "get_withdrawal b i =
     (case hm_get (lb_pending_withdrawals b) i of Some w \<Rightarrow> Some w | None \<Rightarrow> hm_get (lb_finalized_withdrawals b) i)"

definition get_pending_deposits :: "L2Bridge \<Rightarrow> Deposit list" where
  "get_pending_deposits b = hm_values (lb_pending_deposits b)"

definition get_pending_withdrawals :: "L2Bridge \<Rightarrow> Withdrawal list" where
  "get_pending_withdrawals b = hm_values (lb_pending_withdrawals b)"

definition update_ready_withdrawals :: "u64 \<Rightarrow> L2Bridge \<Rightarrow> L2Bridge" where
  "update_ready_withdrawals now b =
     b\<lparr>lb_pending_withdrawals :=
        map (\<lambda>(i, w). (i, if wd_is_ready now w then w\<lparr>wd_status := WdReady\<rparr> else w)) (lb_pending_withdrawals b)\<rparr>"


subsection \<open>Withdrawal proofs verify\<close>

lemma verify_loop_foldl:
  "length siblings = length path \<Longrightarrow>
    verify_loop e current siblings path = foldl (climb_with (l2_hash_pair e)) current (zip siblings path)"
  by (induction siblings path arbitrary: current rule: list_induct2) (simp_all add: climb_with_def)

lemma nth_l2_next_level:
  "i < length (l2_next_level e level) \<Longrightarrow>
    l2_next_level e level ! i = l2_hash_pair e (zero_pad level ! (2 * i)) (zero_pad level ! (2 * i + 1))"
proof (induction e level arbitrary: i rule: l2_next_level.induct)
  case (3 e left right rest)
  have pad: "zero_pad (left # right # rest) = left # right # zero_pad rest" by (simp add: zero_pad_def)
  show ?case using 3 by (cases i) (simp_all add: pad)
qed (simp_all add: zero_pad_def)

lemma l2_root_loop_step: "1 < length level \<Longrightarrow> l2_root_loop e level = l2_root_loop e (l2_next_level e level)"
  by (subst l2_root_loop.simps) simp

lemma l2_root_loop_single: "length level = 1 \<Longrightarrow> l2_root_loop e level = level"
  by (subst l2_root_loop.simps) simp

lemma l2_root_loop_nonempty: "level \<noteq> [] \<Longrightarrow> l2_root_loop e level \<noteq> []"
proof (induction e level rule: l2_root_loop.induct)
  case (1 e level)
  show ?case
  proof (cases "1 < length level")
    case True
    then have "0 < length (l2_next_level e level)" by simp
    then have "l2_next_level e level \<noteq> []" by (metis length_greater_0_conv)
    then show ?thesis using 1 True by (simp add: l2_root_loop_step)
  next
    case False
    then show ?thesis using 1 by (subst l2_root_loop.simps) simp
  qed
qed

lemma withdrawal_path_lengths: "length (fst (withdrawal_path e level idx)) = length (snd (withdrawal_path e level idx))"
proof (induction e level idx rule: withdrawal_path.induct)
  case (1 e level idx)
  then show ?case by (subst (1 2) withdrawal_path.simps) (simp add: Let_def case_prod_unfold)
qed

lemma sibling_zero_pad:
  assumes "i < length level"
  shows "(case nth_opt level (if i mod 2 = 1 then i - 1 else i + 1) of None \<Rightarrow> h256_zero | Some h \<Rightarrow> h)
    = zero_pad level ! (if i mod 2 = 0 then i + 1 else i - 1)"
proof (cases "i mod 2 = 0")
  case True
  then have "i + 1 < length level \<or> (i + 1 = length level \<and> length level mod 2 = 1)"
    using assms by presburger
  then show ?thesis using True by (auto simp: nth_opt_def zero_pad_def nth_append)
next
  case False
  moreover have "i - 1 < length level" using assms by simp
  ultimately show ?thesis by (auto simp: nth_opt_def zero_pad_def nth_append)
qed

text \<open>The withdrawal tree is an instance of the trees of hashes.\<close>

interpretation withdrawal_tree: hash_tree "l2_hash_pair e" zero_pad "l2_next_level e"
  "\<lambda>level i. zip (fst (withdrawal_path e level i)) (snd (withdrawal_path e level i))" "\<lambda>level. hd (l2_root_loop e level)"
  for e
proof (unfold_locales, goal_cases)
  case (3 i level)
  then show ?case by (rule nth_l2_next_level)
next
  case (4 level i)
  then show ?case
    by (subst (1 2) withdrawal_path.simps) (simp add: Let_def case_prod_unfold sibling_zero_pad del: One_nat_def)
next
  case (5 level i)
  then show ?case by (subst (1 2) withdrawal_path.simps) simp
next
  case (7 level)
  then show ?case by (simp add: l2_root_loop_single hd_conv_nth flip: length_0_conv)
qed (simp_all add: zero_pad_def nth_append l2_root_loop_step)

lemma find_position_Some: "x \<in> set xs \<Longrightarrow> \<exists>i. find_position xs x = Some i \<and> i < length xs \<and> xs ! i = x"
proof (induction xs)
  case (Cons y ys)
  then show ?case by (cases "y = x") auto
qed simp

lemma generated_proof_verifies:
  assumes "h \<in> set (lb_withdrawal_tree b)"
  shows "\<exists>p. generate_merkle_proof e b h = Ok p \<and> StateProof_verify e p \<and> sp_leaf p = h"
proof -
  let ?tree = "lb_withdrawal_tree b"
  obtain i where i: "find_position ?tree h = Some i" "i < length ?tree" "?tree ! i = h"
    using find_position_Some [OF assms] by blast
  have "?tree \<noteq> []" using assms by auto
  then show ?thesis
    using i withdrawal_tree.path_leads_to_root [OF i(2), of e] withdrawal_path_lengths [of e ?tree i] l2_root_loop_nonempty
    by (simp add: generate_merkle_proof_def case_prod_unfold Let_def StateProof_verify_def verify_loop_foldl)
qed

subsection \<open>Runs of the bridge\<close>

text \<open>
  The states the bridge reaches, with the last time the clock was read: every call that the code accepts is
  a step, and besides the bridge transfers change the state of the rollup. About the clock it is
  assumed that it does not go back and that a proof comes at least seven days before the end of its range.
  The events record the deposits credited, the two accounts of a transfer, and the identifiers of withdrawals:
  an initiated one with the amount of the open withdrawal it replaces, if there is one with its identifier.
\<close>

datatype l2_event =
    LvDeposited nat
  | LvTransfer address address
  | LvInitiated h256 nat
  | LvFinalized h256

definition open_withdrawal :: "Withdrawal \<Rightarrow> nat" where
  "open_withdrawal w = (if wd_status w = WdChallenged then 0 else unat (wd_amount w))"

inductive l2_bridge_run :: "ext \<Rightarrow> l2_event list \<Rightarrow> L2Bridge \<Rightarrow> u64 \<Rightarrow> bool" for e where
  new: "l2_bridge_run e [] (L2Bridge_new (L2State_new e) addr) t"
| deposit: "l2_bridge_run e evs b t \<Longrightarrow> record_deposit b d = Ok (b', i) \<Longrightarrow> l2_bridge_run e evs b' t"
| process: "l2_bridge_run e evs b t \<Longrightarrow> t \<le> now \<Longrightarrow> process_deposit e now b i = Ok (b', h)
    \<Longrightarrow> l2_bridge_run e (LvDeposited (held (\<lambda>d. unat (dp_amount d)) (hm_get (lb_pending_deposits b) i)) # evs) b' now"
| transfer: "l2_bridge_run e evs b t \<Longrightarrow> transfer e (lb_state b) x y amount = Ok s
    \<Longrightarrow> l2_bridge_run e (LvTransfer x y # evs) (b\<lparr>lb_state := s\<rparr>) t"
| withdraw: "l2_bridge_run e evs b t \<Longrightarrow> t \<le> now \<Longrightarrow> initiate_withdrawal e now b sender to' amount = Ok (b', w)
    \<Longrightarrow> l2_bridge_run e (LvInitiated (wd_id w) (held open_withdrawal (hm_get (lb_pending_withdrawals b) (wd_id w))) # evs) b' now"
| prove: "l2_bridge_run e evs b t \<Longrightarrow> t \<le> now \<Longrightarrow> unat now + 604800 < 2 ^ 64
    \<Longrightarrow> submit_withdrawal_proof e now b i p = Ok b' \<Longrightarrow> l2_bridge_run e evs b' now"
| finalize: "l2_bridge_run e evs b t \<Longrightarrow> t \<le> now \<Longrightarrow> finalize_withdrawal now b i l1 = Ok b'
    \<Longrightarrow> l2_bridge_run e (LvFinalized i # evs) b' now"
| challenge: "l2_bridge_run e evs b t \<Longrightarrow> challenge_withdrawal e b i fraud = Ok b' \<Longrightarrow> l2_bridge_run e evs b' t"
| ready: "l2_bridge_run e evs b t \<Longrightarrow> t \<le> now \<Longrightarrow> l2_bridge_run e evs (update_ready_withdrawals now b) now"

fun deposited_in :: "l2_event \<Rightarrow> nat" where
  "deposited_in (LvDeposited amount) = amount"
| "deposited_in _ = 0"

fun replaced_in :: "l2_event \<Rightarrow> nat" where
  "replaced_in (LvInitiated _ amount) = amount"
| "replaced_in _ = 0"

fun between_two :: "l2_event \<Rightarrow> bool" where
  "between_two (LvTransfer x y) = (x \<noteq> y)"
| "between_two _ = True"

fun initiates :: "h256 \<Rightarrow> l2_event \<Rightarrow> bool" where
  "initiates i (LvInitiated j _) = (j = i)"
| "initiates i _ = False"

fun finalizes :: "h256 \<Rightarrow> l2_event \<Rightarrow> bool" where
  "finalizes i (LvFinalized j) = (j = i)"
| "finalizes i _ = False"

definition lb_inv :: "nat \<Rightarrow> L2Bridge \<Rightarrow> bool" where
  "lb_inv lost b =
     (hm_wf (ls_account_data (lb_state b)) \<and> hm_wf (lb_pending_withdrawals b)
      \<and> l2_total (lb_state b) + weight open_withdrawal (lb_pending_withdrawals b)
          + unat (lbs_total_withdrawn (lb_stats b)) + lost = unat (lbs_total_deposited (lb_stats b)))"

lemma two_balances_le_total:
  assumes "hm_wf (ls_account_data s)" and "a \<noteq> b"
  shows "unat (l2_get_balance s a) + unat (l2_get_balance s b) \<le> l2_total s"
proof -
  let ?w = "\<lambda>x. unat (la_balance x)" and ?m = "ls_account_data s"
  have held: "unat (l2_get_balance s c) = held ?w (hm_get ?m c)" for c
    by (simp add: l2_get_balance_def get_account_def L2Account_default_def split: option.split)
  have "held ?w (hm_get ?m b) \<le> weight ?w (hm_remove a ?m)"
    using hm_weight.total_held [of "hm_remove a ?m" ?w b] assms by simp
  then show ?thesis
    using hm_weight.total_del [of ?m ?w a] assms(1) by (simp add: held l2_total_def)
qed

lemma bridge_room: "lb_inv lost b \<Longrightarrow> l2_total (lb_state b) < 2 ^ 64"
  using unat_less_power [of "lbs_total_deposited (lb_stats b)"] by (simp add: lb_inv_def)

lemma process_deposit_inv:
  assumes inv: "lb_inv lost b" and run: "process_deposit e now b i = Ok (b', h)"
    and fits: "unat (lbs_total_deposited (lb_stats b)) + held (\<lambda>d. unat (dp_amount d)) (hm_get (lb_pending_deposits b) i) < 2 ^ 64"
  shows "lb_inv lost b'"
proof -
  obtain d where d: "hm_get (lb_pending_deposits b) i = Some d"
    using run by (auto simp: process_deposit_def split: option.splits)
  have b': "lb_state b' = credit e (lb_state b) (dp_to d) (dp_amount d)"
      "lb_pending_withdrawals b' = lb_pending_withdrawals b"
      "lbs_total_withdrawn (lb_stats b') = lbs_total_withdrawn (lb_stats b)"
      "lbs_total_deposited (lb_stats b') = lbs_total_deposited (lb_stats b) + dp_amount d"
    using run d by (auto simp: process_deposit_def Let_def)
  have "unat (l2_get_balance (lb_state b) (dp_to d)) + unat (dp_amount d) < 2 ^ 64"
    using inv fits d balance_le_total [of "lb_state b" "dp_to d"] by (simp add: lb_inv_def)
  then show ?thesis
    using inv fits d by (simp add: lb_inv_def b' credit_total unat_add_exact)
qed

lemma transfer_inv:
  assumes inv: "lb_inv lost b" and run: "transfer e (lb_state b) x y amount = Ok s" and "x \<noteq> y"
  shows "lb_inv lost (b\<lparr>lb_state := s\<rparr>)"
proof -
  have "amount \<le> l2_get_balance (lb_state b) x" using transfer_OkD [OF run] by (simp add: l2_get_balance_def)
  then have "unat (l2_get_balance (lb_state b) y) + unat amount < 2 ^ 64"
    using two_balances_le_total [OF _ \<open>x \<noteq> y\<close>, of "lb_state b"] bridge_room [OF inv] inv
    by (simp add: lb_inv_def word_le_nat_alt)
  then have "l2_total s = l2_total (lb_state b)" by (rule transfer_total [OF run \<open>x \<noteq> y\<close>])
  moreover have "hm_wf (ls_account_data s)" using transfer_OkD [OF run] inv by (simp add: lb_inv_def)
  ultimately show ?thesis using inv by (simp add: lb_inv_def)
qed

lemma initiate_withdrawal_inv:
  assumes inv: "lb_inv lost b" and run: "initiate_withdrawal e now b sender to' amount = Ok (b', w)"
  shows "lb_inv (lost + held open_withdrawal (hm_get (lb_pending_withdrawals b) (wd_id w))) b'"
proof -
  obtain s where s: "debit e (lb_state b) sender amount = Ok s"
    using run by (auto simp: initiate_withdrawal_def Let_def split: if_splits sum.splits)
  have b': "lb_state b' = s" "lb_pending_withdrawals b' = hm_insert (wd_id w) w (lb_pending_withdrawals b)"
      "lbs_total_withdrawn (lb_stats b') = lbs_total_withdrawn (lb_stats b)"
      "lbs_total_deposited (lb_stats b') = lbs_total_deposited (lb_stats b)" "wd_amount w = amount"
    using run s by (auto simp: initiate_withdrawal_def Let_def Withdrawal_new_def split: if_splits)
  have "wd_status w = WdPending" using run s by (auto simp: initiate_withdrawal_def Let_def Withdrawal_new_def split: if_splits)
  then have "open_withdrawal w = unat amount" by (simp add: open_withdrawal_def b')
  then have "weight open_withdrawal (lb_pending_withdrawals b') + held open_withdrawal (hm_get (lb_pending_withdrawals b) (wd_id w))
      = weight open_withdrawal (lb_pending_withdrawals b) + unat amount"
    using weight_insert [of open_withdrawal "wd_id w" w "lb_pending_withdrawals b"] by (simp add: b')
  then show ?thesis
    using inv debit_total [OF s] account_wf_debit [OF s] by (simp add: lb_inv_def b')
qed

lemma pending_update_inv:
  assumes inv: "lb_inv lost b" and w: "hm_get (lb_pending_withdrawals b) i = Some w"
    and b': "lb_pending_withdrawals b' = hm_insert i w' (lb_pending_withdrawals b)"
      "lbs_total_withdrawn (lb_stats b') = lbs_total_withdrawn (lb_stats b)"
      "lbs_total_deposited (lb_stats b') = lbs_total_deposited (lb_stats b)"
    and state: "hm_wf (ls_account_data (lb_state b'))"
      "l2_total (lb_state b') + open_withdrawal w' = l2_total (lb_state b) + open_withdrawal w"
  shows "lb_inv lost b'"
  using assms weight_insert [of open_withdrawal i w' "lb_pending_withdrawals b"] by (simp add: lb_inv_def)

lemma submit_proof_inv:
  assumes "lb_inv lost b" and "submit_withdrawal_proof e now b i p = Ok b'"
  shows "lb_inv lost b'"
proof -
  obtain w where w: "hm_get (lb_pending_withdrawals b) i = Some w" "wd_status w = WdPending"
    using assms(2) by (auto simp: submit_withdrawal_proof_def split: if_splits option.splits)
  show ?thesis
    using assms w by (intro pending_update_inv [OF assms(1) w(1), of b' "submit_proof now w p"])
      (auto simp: submit_withdrawal_proof_def lb_inv_def open_withdrawal_def submit_proof_def split: if_splits)
qed

lemma challenge_inv:
  assumes inv: "lb_inv lost b" and run: "challenge_withdrawal e b i fraud = Ok b'"
  shows "lb_inv lost b'"
proof -
  obtain w where w: "hm_get (lb_pending_withdrawals b) i = Some w" "wd_status w \<in> {WdProven, WdChallenging}"
    using run by (auto simp: challenge_withdrawal_def split: if_splits option.splits)
  have b': "lb_state b' = credit e (lb_state b) (wd_from w) (wd_amount w)"
      "lb_pending_withdrawals b' = hm_insert i (wd_challenge w) (lb_pending_withdrawals b)"
      "lbs_total_withdrawn (lb_stats b') = lbs_total_withdrawn (lb_stats b)"
      "lbs_total_deposited (lb_stats b') = lbs_total_deposited (lb_stats b)"
    using run w by (auto simp: challenge_withdrawal_def split: if_splits)
  have opened: "open_withdrawal w = unat (wd_amount w)" "open_withdrawal (wd_challenge w) = 0"
    using w by (auto simp: open_withdrawal_def wd_challenge_def)
  have "open_withdrawal w \<le> weight open_withdrawal (lb_pending_withdrawals b)"
    using hm_weight.total_held [of "lb_pending_withdrawals b" open_withdrawal i] inv w by (simp add: lb_inv_def)
  then have "unat (l2_get_balance (lb_state b) (wd_from w)) + unat (wd_amount w) < 2 ^ 64"
    using inv balance_le_total [of "lb_state b" "wd_from w"] opened unat_less_power [of "lbs_total_deposited (lb_stats b)"]
    by (simp add: lb_inv_def)
  then have "l2_total (lb_state b') = l2_total (lb_state b) + unat (wd_amount w)"
    unfolding b' by (rule credit_total)
  then show ?thesis
    using inv opened b' by (intro pending_update_inv [OF inv w(1) b'(2-4)]) (simp_all add: lb_inv_def)
qed

lemma finalize_inv:
  assumes inv: "lb_inv lost b" and run: "finalize_withdrawal now b i l1 = Ok b'"
  shows "lb_inv lost b'"
proof -
  obtain w where w: "hm_get (lb_pending_withdrawals b) i = Some w" "wd_is_ready now w \<or> wd_status w = WdReady"
    using run by (auto simp: finalize_withdrawal_def split: if_splits option.splits)
  then have opened: "open_withdrawal w = unat (wd_amount w)"
    by (auto simp: open_withdrawal_def wd_is_ready_def split: if_splits)
  have b': "lb_state b' = lb_state b" "lb_pending_withdrawals b' = hm_remove i (lb_pending_withdrawals b)"
      "lbs_total_withdrawn (lb_stats b') = lbs_total_withdrawn (lb_stats b) + wd_amount w"
      "lbs_total_deposited (lb_stats b') = lbs_total_deposited (lb_stats b)"
    using run w by (auto simp: finalize_withdrawal_def)
  have rm: "weight open_withdrawal (lb_pending_withdrawals b') + unat (wd_amount w)
      = weight open_withdrawal (lb_pending_withdrawals b)"
    using weight_remove [of "lb_pending_withdrawals b" open_withdrawal i] inv w opened by (simp add: lb_inv_def b')
  then have "unat (lbs_total_withdrawn (lb_stats b')) = unat (lbs_total_withdrawn (lb_stats b)) + unat (wd_amount w)"
    using inv unat_less_power [of "lbs_total_deposited (lb_stats b)"] by (simp add: b' lb_inv_def unat_add_exact)
  then show ?thesis using inv rm by (simp add: lb_inv_def b')
qed

lemma ready_inv: "lb_inv lost b \<Longrightarrow> lb_inv lost (update_ready_withdrawals now b)"
proof -
  assume inv: "lb_inv lost b"
  have "open_withdrawal (if wd_is_ready now w then w\<lparr>wd_status := WdReady\<rparr> else w) = open_withdrawal w" for w
    by (auto simp: open_withdrawal_def wd_is_ready_def split: if_splits)
  then have "weight open_withdrawal (lb_pending_withdrawals (update_ready_withdrawals now b))
      = weight open_withdrawal (lb_pending_withdrawals b)"
    by (simp add: update_ready_withdrawals_def weight_def comp_def case_prod_unfold)
  moreover have "hm_wf (lb_pending_withdrawals (update_ready_withdrawals now b))"
    using inv by (simp add: lb_inv_def update_ready_withdrawals_def hm_wf_def comp_def case_prod_unfold)
  ultimately show ?thesis using inv by (simp add: lb_inv_def) (simp add: update_ready_withdrawals_def)
qed

lemma deposited_bound:
  "l2_bridge_run e evs b t \<Longrightarrow> unat (lbs_total_deposited (lb_stats b)) \<le> sum_list (map deposited_in evs)"
proof (induction rule: l2_bridge_run.induct)
  case (process evs b t now i b' h)
  obtain d where d: "hm_get (lb_pending_deposits b) i = Some d"
    using process.hyps(3) by (auto simp: process_deposit_def split: option.splits)
  then have "lbs_total_deposited (lb_stats b') = lbs_total_deposited (lb_stats b) + dp_amount d"
    using process.hyps(3) by (auto simp: process_deposit_def Let_def)
  moreover have "unat (lbs_total_deposited (lb_stats b) + dp_amount d)
      \<le> unat (lbs_total_deposited (lb_stats b)) + unat (dp_amount d)"
    unfolding unat_word_ariths by (rule mod_less_eq_dividend)
  ultimately show ?case using process.IH d by simp
qed (auto simp: L2Bridge_new_def L2BridgeStats_default_def record_deposit_def initiate_withdrawal_def submit_withdrawal_proof_def
    finalize_withdrawal_def challenge_withdrawal_def update_ready_withdrawals_def Let_def
    split: if_splits option.splits sum.splits)

lemma l2_bridge_run_inv:
  "l2_bridge_run e evs b t \<Longrightarrow> sum_list (map deposited_in evs) < 2 ^ 64 \<Longrightarrow> \<forall>x \<in> set evs. between_two x
    \<Longrightarrow> lb_inv (sum_list (map replaced_in evs)) b"
proof (induction rule: l2_bridge_run.induct)
  case (new addr t)
  show ?case by (simp add: lb_inv_def L2Bridge_new_def L2State_new_def l2_total_def L2BridgeStats_default_def)
next
  case (deposit evs b t d b' i)
  then show ?case by (auto simp: record_deposit_def lb_inv_def Let_def split: if_splits)
next
  case (process evs b t now i b' h)
  have "unat (lbs_total_deposited (lb_stats b)) + held (\<lambda>d. unat (dp_amount d)) (hm_get (lb_pending_deposits b) i) < 2 ^ 64"
    using deposited_bound [OF process.hyps(1)] process.prems(1) by simp
  then show ?case using process process_deposit_inv by simp
next
  case (transfer evs b t x y amount s)
  then show ?case using transfer_inv by simp
next
  case (withdraw evs b t now sender to' amount b' w)
  then show ?case using initiate_withdrawal_inv by (simp add: add.commute)
next
  case (prove evs b t now i p b')
  then show ?case using submit_proof_inv by simp
next
  case (finalize evs b t now i l1 b')
  then show ?case using finalize_inv by simp
next
  case (challenge evs b t i fraud b')
  then show ?case using challenge_inv by blast
next
  case (ready evs b t now)
  then show ?case using ready_inv by blast
qed

text \<open>An identifier is finalized at most as often as it was initiated, and once less while it is pending.\<close>

lemma finalized_counted:
  "l2_bridge_run e evs b t \<Longrightarrow>
    length (filter (finalizes i) evs) + (if hm_contains (lb_pending_withdrawals b) i then 1 else 0)
      \<le> length (filter (initiates i) evs)"
proof (induction rule: l2_bridge_run.induct)
  case (withdraw evs b t now sender to' amount b' w)
  then have "lb_pending_withdrawals b' = hm_insert (wd_id w) w (lb_pending_withdrawals b)"
    by (auto simp: initiate_withdrawal_def Let_def split: if_splits sum.splits)
  then show ?case using withdraw.IH by (auto simp: hm_contains_def split: if_splits)
next
  case (prove evs b t now j p b')
  then have "hm_contains (lb_pending_withdrawals b') i = hm_contains (lb_pending_withdrawals b) i"
    by (auto simp: submit_withdrawal_proof_def hm_contains_def split: if_splits option.splits)
  then show ?case using prove.IH by simp
next
  case (finalize evs b t now j l1 b')
  then have "hm_contains (lb_pending_withdrawals b) j" "lb_pending_withdrawals b' = hm_remove j (lb_pending_withdrawals b)"
    by (auto simp: finalize_withdrawal_def hm_contains_def split: if_splits option.splits)
  then show ?case using finalize.IH by (auto simp: hm_contains_def split: if_splits)
next
  case (challenge evs b t j fraud b')
  then have "hm_contains (lb_pending_withdrawals b') i = hm_contains (lb_pending_withdrawals b) i"
    by (auto simp: challenge_withdrawal_def hm_contains_def split: if_splits option.splits)
  then show ?case using challenge.IH by simp
next
  case (ready evs b t now)
  then show ?case by (simp add: update_ready_withdrawals_def hm_contains_def hm_get_map_values)
next
  case (process evs b t now j b' h)
  then show ?case by (auto simp: process_deposit_def Let_def split: option.splits)
next
  case (deposit evs b t d b' j)
  then show ?case by (auto simp: record_deposit_def Let_def split: if_splits)
qed (simp_all add: L2Bridge_new_def hm_contains_def)

lemma challenged_not_finalized:
  assumes "hm_get (lb_pending_withdrawals b) i = Some w" and "wd_status w = WdChallenged"
  shows "finalize_withdrawal now b i l1 = Err WithdrawalNotReady"
  using assms by (simp add: finalize_withdrawal_def wd_is_ready_def)

subsection \<open>The challenge period\<close>

definition wd_timed :: "ext \<Rightarrow> u64 \<Rightarrow> Withdrawal \<Rightarrow> bool" where
  "wd_timed e t w =
     (wd_status w \<in> {WdProven, WdChallenging, WdReady} \<longrightarrow>
       (\<exists>s p. wd_challenge_start w = Some s \<and> s \<le> t \<and> unat s + 604800 < 2 ^ 64
          \<and> wd_proof w = Some p \<and> WithdrawalProof_verify e p
          \<and> (wd_status w = WdReady \<longrightarrow> unat s + 604800 \<le> unat t)))"

definition wd_waited :: "ext \<Rightarrow> Withdrawal \<Rightarrow> bool" where
  "wd_waited e w =
     (\<exists>s f p. wd_challenge_start w = Some s \<and> wd_finalized_at w = Some f \<and> unat s + 604800 \<le> unat f
        \<and> wd_proof w = Some p \<and> WithdrawalProof_verify e p)"

definition timed_inv :: "ext \<Rightarrow> L2Bridge \<Rightarrow> u64 \<Rightarrow> bool" where
  "timed_inv e b t =
     ((\<forall>i w. hm_get (lb_pending_withdrawals b) i = Some w \<longrightarrow> wd_timed e t w)
      \<and> (\<forall>i w. hm_get (lb_finalized_withdrawals b) i = Some w \<longrightarrow> wd_waited e w))"

lemma wd_timed_later: "wd_timed e t w \<Longrightarrow> t \<le> now \<Longrightarrow> wd_timed e now w"
  by (fastforce simp: wd_timed_def word_le_nat_alt)

lemma period_exact: "unat s + 604800 < 2 ^ 64 \<Longrightarrow> unat (s + WITHDRAWAL_CHALLENGE_PERIOD) = unat s + 604800"
  by (simp add: WITHDRAWAL_CHALLENGE_PERIOD_def unat_add_exact)

lemma timed_ready:
  assumes "wd_timed e t w" and "t \<le> now" and "wd_is_ready now w \<or> wd_status w = WdReady"
  shows "\<exists>s p. wd_challenge_start w = Some s \<and> unat s + 604800 \<le> unat now \<and> s \<le> now \<and> unat s + 604800 < 2 ^ 64
    \<and> wd_proof w = Some p \<and> WithdrawalProof_verify e p"
  using assms period_exact by (fastforce simp: wd_timed_def wd_is_ready_def word_le_nat_alt split: if_splits)

lemma timed_mono: "timed_inv e b t \<Longrightarrow> t \<le> now \<Longrightarrow> timed_inv e b now"
  using wd_timed_later unfolding timed_inv_def by blast

lemma timed_frame:
  assumes "timed_inv e b t" and "lb_finalized_withdrawals b' = lb_finalized_withdrawals b"
    and "\<And>i w. hm_get (lb_pending_withdrawals b') i = Some w \<Longrightarrow>
      hm_get (lb_pending_withdrawals b) i = Some w \<or> wd_timed e t w"
  shows "timed_inv e b' t"
  using assms unfolding timed_inv_def by metis

lemma submit_proof_timed:
  assumes "timed_inv e b now" and "unat now + 604800 < 2 ^ 64" and "submit_withdrawal_proof e now b i p = Ok b'"
  shows "timed_inv e b' now"
  using assms
  by (intro timed_frame [OF assms(1)])
    (auto simp: submit_withdrawal_proof_def submit_proof_def wd_timed_def split: if_splits option.splits)

lemma finalize_timed:
  assumes "timed_inv e b now" and "finalize_withdrawal now b i l1 = Ok b'"
  shows "timed_inv e b' now"
proof -
  obtain w where w: "hm_get (lb_pending_withdrawals b) i = Some w" "wd_is_ready now w \<or> wd_status w = WdReady"
    and b': "lb_pending_withdrawals b' = hm_remove i (lb_pending_withdrawals b)"
      "lb_finalized_withdrawals b' = hm_insert i (wd_finalize now w l1) (lb_finalized_withdrawals b)"
    using assms(2) by (auto simp: finalize_withdrawal_def split: if_splits option.splits)
  have "wd_timed e now w" using assms(1) w by (simp add: timed_inv_def)
  from timed_ready [OF this order_refl w(2)] have "wd_waited e (wd_finalize now w l1)"
    by (auto simp: wd_waited_def wd_finalize_def)
  then show ?thesis using assms(1) by (auto simp: timed_inv_def b')
qed

lemma ready_timed:
  assumes "timed_inv e b now"
  shows "timed_inv e (update_ready_withdrawals now b) now"
proof -
  have "wd_timed e now (if wd_is_ready now w then w\<lparr>wd_status := WdReady\<rparr> else w)" if "wd_timed e now w" for w
    using that timed_ready [OF that order_refl] by (auto simp: wd_timed_def)
  then have "wd_timed e now w" if "hm_get (lb_pending_withdrawals (update_ready_withdrawals now b)) i = Some w" for i w
    using that assms by (auto simp: update_ready_withdrawals_def hm_get_map_values timed_inv_def)
  then show ?thesis
    using assms by (auto simp: timed_inv_def) (simp add: update_ready_withdrawals_def)
qed

lemma l2_bridge_run_timed: "l2_bridge_run e evs b t \<Longrightarrow> timed_inv e b t"
proof (induction rule: l2_bridge_run.induct)
  case (new addr t)
  show ?case by (simp add: timed_inv_def L2Bridge_new_def)
next
  case (deposit evs b t d b' i)
  then show ?case by (auto intro!: timed_frame [OF deposit.IH] simp: record_deposit_def Let_def split: if_splits)
next
  case (process evs b t now i b' h)
  then show ?case
    by (intro timed_frame [OF timed_mono [OF process.IH process.hyps(2)]])
      (auto simp: process_deposit_def Let_def split: option.splits)
next
  case (transfer evs b t x y amount s)
  then show ?case by (intro timed_frame [OF transfer.IH]) simp_all
next
  case (withdraw evs b t now sender to' amount b' w)
  then show ?case
    by (intro timed_frame [OF timed_mono [OF withdraw.IH withdraw.hyps(2)]])
      (auto simp: initiate_withdrawal_def Let_def Withdrawal_new_def wd_timed_def split: if_splits sum.splits)
next
  case (prove evs b t now i p b')
  then show ?case by (intro submit_proof_timed [OF timed_mono [OF prove.IH prove.hyps(2)]])
next
  case (finalize evs b t now i l1 b')
  then show ?case by (intro finalize_timed [OF timed_mono [OF finalize.IH finalize.hyps(2)]])
next
  case (challenge evs b t i fraud b')
  then show ?case
    by (intro timed_frame [OF challenge.IH])
      (auto simp: challenge_withdrawal_def wd_challenge_def wd_timed_def split: if_splits option.splits)
next
  case (ready evs b t now)
  then show ?case by (intro ready_timed [OF timed_mono [OF ready.IH ready.hyps(2)]])
qed

subsection \<open>Properties\<close>

text \<open>
  C15. The rollup is backed: the balances of its accounts, the withdrawals that are under way, those paid
  out, and the amounts of open withdrawals that a later one with the same identifier replaced add up to what
  was deposited, also when withdrawals are challenged and credited back. So the first three never exceed the
  deposits. Assumed: the deposits sum to less than \<open>2^64\<close> and no account transfers to itself; the code checks
  neither, and a transfer to oneself mints (\<open>self_transfer_mints\<close>).
\<close>

theorem l2_bridge_backed:
  assumes "l2_bridge_run e evs b t" and "sum_list (map deposited_in evs) < 2 ^ 64" and "\<forall>x \<in> set evs. between_two x"
  shows "l2_total (lb_state b) + weight open_withdrawal (lb_pending_withdrawals b)
    + unat (lbs_total_withdrawn (lb_stats b)) + sum_list (map replaced_in evs) = unat (lbs_total_deposited (lb_stats b))"
  using l2_bridge_run_inv [OF assms] by (simp add: lb_inv_def)

text \<open>A deposit of 100 that is credited, of which 40 are withdrawn.\<close>

definition example_deposit :: Deposit where
  "example_deposit = Deposit_new sample_ext 0 h256_zero 1 (Address [1]) (Address [2]) 100"

definition example_l2_bridge :: L2Bridge where
  "example_l2_bridge =
     (case record_deposit (L2Bridge_new (L2State_new sample_ext) address_zero) example_deposit of
        Err _ \<Rightarrow> L2Bridge_new (L2State_new sample_ext) address_zero
      | Ok (b, i) \<Rightarrow> (case process_deposit sample_ext 0 b i of Err _ \<Rightarrow> b | Ok (b', _) \<Rightarrow> b'))"

lemma example_bridge_steps:
  "\<exists>b i h. record_deposit (L2Bridge_new (L2State_new sample_ext) address_zero) example_deposit = Ok (b, i)
    \<and> process_deposit sample_ext 0 b i = Ok (example_l2_bridge, h)
    \<and> hm_get (lb_pending_deposits b) i = Some example_deposit \<and> lbs_total_deposited (lb_stats b) = 0"
  by (simp add: record_deposit_def process_deposit_def L2Bridge_new_def example_l2_bridge_def Let_def
      L2BridgeStats_default_def)

lemma example_amount: "dp_amount example_deposit = 100" "dp_to example_deposit = Address [2]"
  by (simp_all add: example_deposit_def Deposit_new_def)

lemma example_l2_bridge_run: "l2_bridge_run sample_ext [LvDeposited 100] example_l2_bridge 0"
proof -
  obtain b i h where b: "record_deposit (L2Bridge_new (L2State_new sample_ext) address_zero) example_deposit = Ok (b, i)"
      "process_deposit sample_ext 0 b i = Ok (example_l2_bridge, h)"
      "hm_get (lb_pending_deposits b) i = Some example_deposit"
    using example_bridge_steps by blast
  show ?thesis
    using l2_bridge_run.process [OF l2_bridge_run.deposit [OF l2_bridge_run.new b(1)] order_refl b(2)]
    by (simp add: b(3) example_amount)
qed

lemma example_l2_balance: "l2_get_balance (lb_state example_l2_bridge) (Address [2]) = 100"
proof -
  have "lb_state example_l2_bridge = credit sample_ext (L2State_new sample_ext) (Address [2]) 100"
    by (simp add: record_deposit_def process_deposit_def L2Bridge_new_def example_l2_bridge_def example_amount Let_def)
  then show ?thesis
    by (simp add: l2_get_balance_def credit_def Let_def) (simp add: get_account_def L2State_new_def L2Account_default_def)
qed

text \<open>
  C16. Withdrawals wait: a finalized withdrawal has a proof that verified when it was submitted, and seven
  days passed between that and its finalization. An identifier is finalized at most as often as a withdrawal
  with it was initiated, so once when its identifier is used once, and a withdrawal that was challenged is
  refused at any time. Assumed of the clock: it does not go back, and proofs come at least seven days
  before the end of its range.
\<close>

theorem withdrawals_wait:
  assumes "l2_bridge_run e evs b t"
  shows "(\<forall>i w. hm_get (lb_finalized_withdrawals b) i = Some w \<longrightarrow>
      (\<exists>start f p. wd_challenge_start w = Some start \<and> wd_finalized_at w = Some f
        \<and> unat start + 7 * 24 * 60 * 60 \<le> unat f \<and> wd_proof w = Some p \<and> WithdrawalProof_verify e p))
    \<and> (\<forall>i. length (filter (finalizes i) evs) \<le> length (filter (initiates i) evs))
    \<and> (\<forall>i w now l1. hm_get (lb_pending_withdrawals b) i = Some w \<and> wd_status w = WdChallenged \<longrightarrow>
        finalize_withdrawal now b i l1 = Err WithdrawalNotReady)"
proof -
  have "\<exists>start f p. wd_challenge_start w = Some start \<and> wd_finalized_at w = Some f
      \<and> unat start + 7 * 24 * 60 * 60 \<le> unat f \<and> wd_proof w = Some p \<and> WithdrawalProof_verify e p"
    if "hm_get (lb_finalized_withdrawals b) i = Some w" for i w
    using l2_bridge_run_timed [OF assms] that by (auto simp: timed_inv_def wd_waited_def)
  moreover have "length (filter (finalizes i) evs) \<le> length (filter (initiates i) evs)" for i
    using finalized_counted [OF assms, of i] by simp
  ultimately show ?thesis using challenged_not_finalized by blast
qed

lemma initiate_ok:
  assumes "amount \<le> l2_get_balance (lb_state b) sender"
  obtains b' w where "initiate_withdrawal e now b sender to' amount = Ok (b', w)"
    and "hm_get (lb_pending_withdrawals b') (wd_id w) = Some w" and "wd_status w = WdPending" and "wd_amount w = amount"
    and "Withdrawal_hash e w \<in> set (lb_withdrawal_tree b')" and "lb_stats b' = (lb_stats b)\<lparr>lbs_withdrawals_initiated :=
        lbs_withdrawals_initiated (lb_stats b) + 1\<rparr>"
proof -
  have "debit e (lb_state b) sender amount \<noteq> Err x" for x
    using assms by (auto simp: debit_def l2_get_balance_def Let_def)
  then obtain s where s: "debit e (lb_state b) sender amount = Ok s"
    by (cases "debit e (lb_state b) sender amount") auto
  let ?h = "h256_from_slice (ext_blake3 e (address_bytes sender @ address_bytes to' @ u64_to_le_bytes amount @ u64_to_le_bytes now))"
  let ?w = "Withdrawal_new e now sender to' amount ?h (ls_block_number s)"
  let ?b = "b\<lparr>lb_state := s, lb_withdrawal_tree := lb_withdrawal_tree b @ [Withdrawal_hash e ?w],
     lb_pending_withdrawals := hm_insert (wd_id ?w) ?w (lb_pending_withdrawals b),
     lb_stats := (lb_stats b)\<lparr>lbs_withdrawals_initiated := lbs_withdrawals_initiated (lb_stats b) + 1\<rparr>\<rparr>"
  have ok: "initiate_withdrawal e now b sender to' amount = Ok (?b, ?w)"
    using s assms by (simp add: initiate_withdrawal_def Let_def not_less)
  have w: "wd_status ?w = WdPending" "wd_amount ?w = amount" by (simp_all add: Withdrawal_new_def)
  show ?thesis by (rule that [OF ok _ w]) simp_all
qed

lemma withdrawal_steps:
  assumes "amount \<le> l2_get_balance (lb_state b) sender" and "batch_proof \<noteq> []"
    and "unat t2 + 604800 \<le> unat t3"
  shows "\<exists>b1 w p b2 b3. initiate_withdrawal e t1 b sender to' amount = Ok (b1, w)
    \<and> generate_withdrawal_proof e b1 (wd_id w) n batch_proof = Ok p
    \<and> submit_withdrawal_proof e t2 b1 (wd_id w) p = Ok b2
    \<and> finalize_withdrawal t3 b2 (wd_id w) l1 = Ok b3
    \<and> lbs_total_withdrawn (lb_stats b3) = lbs_total_withdrawn (lb_stats b) + amount
    \<and> map_option wd_status (get_withdrawal b3 (wd_id w)) = Some WdFinalized"
proof -
  obtain b1 w where b1: "initiate_withdrawal e t1 b sender to' amount = Ok (b1, w)"
    "hm_get (lb_pending_withdrawals b1) (wd_id w) = Some w" "wd_status w = WdPending" "wd_amount w = amount"
    "Withdrawal_hash e w \<in> set (lb_withdrawal_tree b1)"
    "lb_stats b1 = (lb_stats b)\<lparr>lbs_withdrawals_initiated := lbs_withdrawals_initiated (lb_stats b) + 1\<rparr>"
    using initiate_ok [OF assms(1)] by metis
  obtain m where m: "generate_merkle_proof e b1 (Withdrawal_hash e w) = Ok m" "StateProof_verify e m"
    using generated_proof_verifies [OF b1(5)] by blast
  define p where "p = \<lparr>wp_withdrawal_hash = Withdrawal_hash e w, wp_state_root = state_root (lb_state b1), wp_batch_number = n,
      wp_batch_proof = batch_proof, wp_merkle_proof = m,
      wp_output_root = compute_output_root e (state_root (lb_state b1)) (Withdrawal_hash e w)\<rparr>"
  have p: "generate_withdrawal_proof e b1 (wd_id w) n batch_proof = Ok p" "WithdrawalProof_verify e p"
    using b1(2) m assms(2) by (simp_all add: generate_withdrawal_proof_def p_def WithdrawalProof_verify_def Let_def)
  define b2 where "b2 = b1\<lparr>lb_pending_withdrawals := hm_insert (wd_id w) (submit_proof t2 w p) (lb_pending_withdrawals b1),
      lb_stats := (lb_stats b1)\<lparr>lbs_proofs_submitted := lbs_proofs_submitted (lb_stats b1) + 1\<rparr>\<rparr>"
  have b2: "submit_withdrawal_proof e t2 b1 (wd_id w) p = Ok b2"
    using b1(2,3) p(2) by (simp add: submit_withdrawal_proof_def b2_def)
  have "unat t2 + 604800 < 2 ^ 64" using assms(3) unat_less_power [of t3] by simp
  then have "wd_is_ready t3 (submit_proof t2 w p)"
    using assms(3) period_exact by (simp add: wd_is_ready_def submit_proof_def word_le_nat_alt)
  then have "\<exists>b3. finalize_withdrawal t3 b2 (wd_id w) l1 = Ok b3
      \<and> lbs_total_withdrawn (lb_stats b3) = lbs_total_withdrawn (lb_stats b) + amount
      \<and> map_option wd_status (get_withdrawal b3 (wd_id w)) = Some WdFinalized"
    using b1(4,6) by (simp add: finalize_withdrawal_def b2_def get_withdrawal_def wd_finalize_def) (simp add: submit_proof_def)
  then show ?thesis using b1(1) p(1) b2 by blast
qed

text \<open>
  C17. A withdrawal completes: with enough balance it is accepted, the bridge produces a proof for it that
  \<open>submit_withdrawal_proof\<close> accepts, and from seven days later on it can be finalized, which adds its amount
  to the total withdrawn.
\<close>

theorem withdrawal_completes:
  assumes "amount \<le> l2_get_balance (lb_state b) sender" and "batch_proof \<noteq> []"
    and "unat t2 + 604800 \<le> unat t3"
  shows "\<exists>b1 w p b2 b3. initiate_withdrawal e t1 b sender to' amount = Ok (b1, w)
    \<and> generate_withdrawal_proof e b1 (wd_id w) n batch_proof = Ok p
    \<and> submit_withdrawal_proof e t2 b1 (wd_id w) p = Ok b2
    \<and> finalize_withdrawal t3 b2 (wd_id w) l1 = Ok b3
    \<and> lbs_total_withdrawn (lb_stats b3) = lbs_total_withdrawn (lb_stats b) + amount
    \<and> map_option wd_status (get_withdrawal b3 (wd_id w)) = Some WdFinalized"
  using assms by (rule withdrawal_steps)

theorem withdrawal_completes_witness:
  "\<exists>b1 w p b2 b3. initiate_withdrawal sample_ext 0 example_l2_bridge (Address [2]) (Address [3]) 40 = Ok (b1, w)
    \<and> generate_withdrawal_proof sample_ext b1 (wd_id w) 1 [1] = Ok p
    \<and> submit_withdrawal_proof sample_ext 5 b1 (wd_id w) p = Ok b2
    \<and> finalize_withdrawal 604805 b2 (wd_id w) h256_zero = Ok b3"
  using withdrawal_completes [of 40 example_l2_bridge "Address [2]" "[1]" 5 604805 sample_ext 0 "Address [3]" 1 h256_zero]
    example_l2_balance by auto

text \<open>A run with the three calls: 40 of the deposited 100 are withdrawn.\<close>

lemma example_withdrawal_run:
  obtains w :: Withdrawal and b3 lost where
    "l2_bridge_run sample_ext [LvFinalized (wd_id w), LvInitiated (wd_id w) lost, LvDeposited 100] b3 604805"
    "hm_contains (lb_finalized_withdrawals b3) (wd_id w)"
proof -
  have "(40 :: u64) \<le> l2_get_balance (lb_state example_l2_bridge) (Address [2])" by (simp add: example_l2_balance)
  then obtain b1 w p b2 b3 where steps:
      "initiate_withdrawal sample_ext 0 example_l2_bridge (Address [2]) (Address [3]) 40 = Ok (b1, w)"
      "submit_withdrawal_proof sample_ext 5 b1 (wd_id w) p = Ok b2"
      "finalize_withdrawal 604805 b2 (wd_id w) h256_zero = Ok b3"
    using withdrawal_steps [of 40 example_l2_bridge "Address [2]" "[1]" 5 604805 sample_ext 0 "Address [3]" 1 h256_zero] by auto
  note run1 = l2_bridge_run.withdraw [OF example_l2_bridge_run order_refl steps(1)]
  have run2: "l2_bridge_run sample_ext (LvInitiated (wd_id w)
      (held open_withdrawal (hm_get (lb_pending_withdrawals example_l2_bridge) (wd_id w))) # [LvDeposited 100]) b2 5"
    by (rule l2_bridge_run.prove [OF run1 _ _ steps(2)]) simp_all
  have "l2_bridge_run sample_ext (LvFinalized (wd_id w) # LvInitiated (wd_id w)
      (held open_withdrawal (hm_get (lb_pending_withdrawals example_l2_bridge) (wd_id w))) # [LvDeposited 100]) b3 604805"
    by (rule l2_bridge_run.finalize [OF run2 _ steps(3)]) simp
  moreover have "hm_contains (lb_finalized_withdrawals b3) (wd_id w)"
    using steps(3) by (auto simp: finalize_withdrawal_def hm_contains_def split: option.splits if_splits)
  ultimately show thesis using that by blast
qed

theorem l2_bridge_backed_witness:
  "\<exists>(b :: L2Bridge) lost. l2_total (lb_state b) + weight open_withdrawal (lb_pending_withdrawals b)
      + unat (lbs_total_withdrawn (lb_stats b)) + lost = unat (lbs_total_deposited (lb_stats b))
    \<and> hm_values (lb_finalized_withdrawals b) \<noteq> []"
proof -
  obtain w :: Withdrawal and b3 lost where
    run: "l2_bridge_run sample_ext [LvFinalized (wd_id w), LvInitiated (wd_id w) lost, LvDeposited 100] b3 604805"
    and fin: "hm_contains (lb_finalized_withdrawals b3) (wd_id w)"
    by (rule example_withdrawal_run)
  from l2_bridge_backed [OF run] have "l2_total (lb_state b3) + weight open_withdrawal (lb_pending_withdrawals b3)
      + unat (lbs_total_withdrawn (lb_stats b3)) + lost = unat (lbs_total_deposited (lb_stats b3))" by simp
  moreover have "hm_values (lb_finalized_withdrawals b3) \<noteq> []"
    using fin by (auto simp: hm_contains_def hm_values_def hm_get_def)
  ultimately show ?thesis by blast
qed

theorem withdrawals_wait_witness:
  "\<exists>(b :: L2Bridge) i w start f. hm_get (lb_finalized_withdrawals b) i = Some w \<and> wd_challenge_start w = Some start
    \<and> wd_finalized_at w = Some f \<and> unat start + 7 * 24 * 60 * 60 \<le> unat f"
proof -
  obtain w :: Withdrawal and b3 lost where
    run: "l2_bridge_run sample_ext [LvFinalized (wd_id w), LvInitiated (wd_id w) lost, LvDeposited 100] b3 604805"
    and fin: "hm_contains (lb_finalized_withdrawals b3) (wd_id w)"
    by (rule example_withdrawal_run)
  obtain w' where w': "hm_get (lb_finalized_withdrawals b3) (wd_id w) = Some w'"
    using fin by (auto simp: hm_contains_def)
  then show ?thesis using withdrawals_wait [OF run] by blast
qed

text \<open>Two withdrawals of one amount by one sender to one recipient in one second share an identifier.\<close>

lemma same_second_withdrawal_replaced:
  assumes "initiate_withdrawal e now b sender to' amount = Ok (b1, w1)"
    and "initiate_withdrawal e now b1 sender to' amount = Ok (b2, w2)"
  shows "wd_id w1 = wd_id w2
    \<and> (\<forall>k. hm_contains (lb_pending_withdrawals b2) k \<longleftrightarrow> hm_contains (lb_pending_withdrawals b) k \<or> k = wd_id w1)
    \<and> l2_total (lb_state b2) + unat amount + unat amount = l2_total (lb_state b)"
proof -
  have one: "\<exists>s. debit e (lb_state b) sender amount = Ok s \<and> lb_state b1 = s
      \<and> wd_id w1 = withdrawal_generate_id e (h256_from_slice (ext_blake3 e
          (address_bytes sender @ address_bytes to' @ u64_to_le_bytes amount @ u64_to_le_bytes now))) sender amount
      \<and> lb_pending_withdrawals b1 = hm_insert (wd_id w1) w1 (lb_pending_withdrawals b)"
    if "initiate_withdrawal e now b sender to' amount = Ok (b1, w1)" for b b1 w1
    using that by (auto simp: initiate_withdrawal_def Let_def Withdrawal_new_def split: if_splits sum.splits)
  show ?thesis
    using one [OF assms(1)] one [OF assms(2)] debit_total [of e "lb_state b" sender amount] debit_total [of e "lb_state b1" sender amount]
    by auto
qed

text \<open>A proof is not tied to the withdrawal: any proof that verifies is accepted for any pending one.\<close>

lemma any_proof_accepted:
  assumes "WithdrawalProof_verify e p" and "hm_get (lb_pending_withdrawals b) i = Some w" and "wd_status w = WdPending"
  shows "is_ok (submit_withdrawal_proof e now b i p)"
  using assms by (simp add: submit_withdrawal_proof_def)

end
