(* ===== verification/L2_Batch.thy ===== *)
theory L2_Batch
  imports L2_State
begin

section \<open>Batches of the rollup\<close>

text \<open>
  \<open>pyrax-node/src/zkrollup/batch.rs\<close>: transactions of the second layer, the batches they are collected in,
  and the builder that seals and stores batches. The tree of a batch hashes pairs as the state does
  (\<open>l2_hash_pair\<close>, \<open>l2_root_loop\<close>). The clock is an argument of the operations that read it.
\<close>

unbundle bit_operations_syntax

definition MAX_BATCH_SIZE :: nat where "MAX_BATCH_SIZE = 1000"
definition BATCH_INTERVAL_SECS :: u64 where "BATCH_INTERVAL_SECS = 60"

datatype BatchStatus =
  BtBuilding | BtSealed | BtProving | BtProven | BtSubmitted | BtFinalized | BtRejected

record L2Transaction =
  lt_hash :: h256
  lt_from :: address
  lt_to :: "address option"
  lt_value :: u64
  lt_gas_limit :: u64
  lt_gas_price :: u64
  lt_nonce :: u64
  lt_data :: "u8 list"
  lt_signature :: "u8 list"
  lt_tx_type :: u8

definition lt_compute_hash :: "ext \<Rightarrow> L2Transaction \<Rightarrow> h256" where
  "lt_compute_hash e t =
     h256_from_slice (ext_blake3 e
       (address_bytes (lt_from t) @ (case lt_to t of None \<Rightarrow> [] | Some a \<Rightarrow> address_bytes a)
        @ u64_to_le_bytes (lt_value t) @ u64_to_le_bytes (lt_gas_limit t) @ u64_to_le_bytes (lt_gas_price t)
        @ u64_to_le_bytes (lt_nonce t) @ lt_data t @ [lt_tx_type t]))"

definition L2Transaction_transfer :: "ext \<Rightarrow> address \<Rightarrow> address \<Rightarrow> u64 \<Rightarrow> u64 \<Rightarrow> L2Transaction" where
  "L2Transaction_transfer e sender to' v n =
     (let tx = \<lparr>lt_hash = h256_zero, lt_from = sender, lt_to = Some to', lt_value = v, lt_gas_limit = 21000,
            lt_gas_price = 1000000, lt_nonce = n, lt_data = [], lt_signature = [], lt_tx_type = 0\<rparr>
      in tx\<lparr>lt_hash := lt_compute_hash e tx\<rparr>)"

definition gas_cost :: "L2Transaction \<Rightarrow> u64" where
  "gas_cost t = lt_gas_limit t * lt_gas_price t"

definition is_deposit :: "L2Transaction \<Rightarrow> bool" where
  "is_deposit t = (lt_tx_type t = 2)"

definition is_withdrawal :: "L2Transaction \<Rightarrow> bool" where
  "is_withdrawal t = (lt_tx_type t = 3)"

record BatchHeader =
  bh_batch_number :: u64
  bh_parent_hash :: h256
  bh_pre_state_root :: h256
  bh_post_state_root :: h256
  bh_tx_root :: h256
  bh_tx_count :: u32
  bh_gas_used :: u64
  bh_timestamp :: u64
  bh_sequencer :: address
  bh_l1_block_number :: u64

definition BatchHeader_hash :: "ext \<Rightarrow> BatchHeader \<Rightarrow> h256" where
  "BatchHeader_hash e h =
     h256_from_slice (ext_blake3 e
       (u64_to_le_bytes (bh_batch_number h) @ h256_bytes (bh_parent_hash h) @ h256_bytes (bh_pre_state_root h)
        @ h256_bytes (bh_post_state_root h) @ h256_bytes (bh_tx_root h) @ u32_to_le_bytes (bh_tx_count h)
        @ u64_to_le_bytes (bh_gas_used h) @ u64_to_le_bytes (bh_timestamp h) @ address_bytes (bh_sequencer h)))"

record Batch =
  bt_header :: BatchHeader
  bt_transactions :: "L2Transaction list"
  bt_status :: BatchStatus
  bt_proof :: "u8 list option"
  bt_l1_tx_hash :: "h256 option"
  bt_created_at :: u64
  bt_sealed_at :: "u64 option"
  bt_proven_at :: "u64 option"
  bt_submitted_at :: "u64 option"
  bt_finalized_at :: "u64 option"

datatype BatchError =
    BatchSealed
  | BatchFull
  | InvalidState BatchStatus
  | BatchNotFound h256
  | BatchInProgress
  | NoBatchInProgress
  | BatchInvalidProof string

definition Batch_new :: "u64 \<Rightarrow> u64 \<Rightarrow> h256 \<Rightarrow> h256 \<Rightarrow> address \<Rightarrow> u64 \<Rightarrow> Batch" where
  "Batch_new now batch_number parent_hash pre_state_root sequencer l1_block_number =
     \<lparr>bt_header = \<lparr>bh_batch_number = batch_number, bh_parent_hash = parent_hash,
        bh_pre_state_root = pre_state_root, bh_post_state_root = pre_state_root, bh_tx_root = h256_zero,
        bh_tx_count = 0, bh_gas_used = 0, bh_timestamp = now, bh_sequencer = sequencer,
        bh_l1_block_number = l1_block_number\<rparr>,
      bt_transactions = [], bt_status = BtBuilding, bt_proof = None, bt_l1_tx_hash = None,
      bt_created_at = now, bt_sealed_at = None, bt_proven_at = None, bt_submitted_at = None,
      bt_finalized_at = None\<rparr>"

definition Batch_hash :: "ext \<Rightarrow> Batch \<Rightarrow> h256" where
  "Batch_hash e b = BatchHeader_hash e (bt_header b)"

definition batch_add_transaction :: "Batch \<Rightarrow> L2Transaction \<Rightarrow> BatchError + Batch" where
  "batch_add_transaction b tx =
     (if bt_status b \<noteq> BtBuilding then Err BatchSealed
      else if MAX_BATCH_SIZE \<le> length (bt_transactions b) then Err BatchFull
      else let txs = bt_transactions b @ [tx] in
           Ok (b\<lparr>bt_transactions := txs,
                 bt_header := (bt_header b)\<lparr>bh_gas_used := bh_gas_used (bt_header b) + lt_gas_limit tx,
                   bh_tx_count := of_nat (length txs)\<rparr>\<rparr>))"

text \<open>\<open>while hashes.len() & (hashes.len() - 1) != 0 { hashes.push(zero) }\<close>\<close>

lemma power2_and: "(2 ^ k :: nat) AND (2 ^ k - 1) = 0"
proof -
  have "(2 ^ k :: nat) AND (2 ^ k - 1) = take_bit k (2 ^ k)"
    by (simp add: take_bit_eq_mask mask_eq_exp_minus_1)
  also have "\<dots> = 0" by (simp add: take_bit_eq_mod)
  finally show ?thesis .
qed

lemma not_power2_step:
  assumes "n AND (n - 1) \<noteq> (0 :: nat)"
  shows "n < 2 ^ ceillog2 n" and "ceillog2 (Suc n) = ceillog2 n"
proof -
  have "n \<noteq> 0" using assms by (cases n) simp_all
  show lt: "n < 2 ^ ceillog2 n"
    using assms power2_and le_two_power_ceillog2 [of n] by (metis le_neq_implies_less)
  then have "ceillog2 (Suc n) \<le> ceillog2 n" using ceillog2_le_iff [of "Suc n" "ceillog2 n"] by simp
  moreover have "ceillog2 n \<le> ceillog2 (Suc n)"
    using ceillog2_le_iff [of n "ceillog2 (Suc n)"] le_two_power_ceillog2 [of "Suc n"] \<open>n \<noteq> 0\<close> by linarith
  ultimately show "ceillog2 (Suc n) = ceillog2 n" by simp
qed

lemma power2_zero:
  assumes "0 < n" and "n AND (n - 1) = (0 :: nat)"
  shows "2 ^ ceillog2 n = n"
proof -
  obtain k where k: "2 ^ k \<le> n" "n < 2 ^ (k + 1)" using ex_power_ivl1 [of 2 n] assms(1) by auto
  have top: "bit m k" if "2 ^ k \<le> m" "m < 2 ^ (k + 1)" for m :: nat
  proof -
    have "m div 2 ^ k = 1" using that by (intro div_nat_eqI) simp_all
    then show ?thesis by (simp add: bit_iff_odd)
  qed
  have "\<not> bit (n - 1) k" using assms(2) top [OF k] by (metis bit_and_iff bit_0_eq bot_apply bot_bool_def)
  then have "n = 2 ^ k" using top [of "n - 1"] k by fastforce
  then show ?thesis by simp
qed

function pad_power2 :: "h256 list \<Rightarrow> h256 list" where
  "pad_power2 hashes =
     (if length hashes AND (length hashes - 1) \<noteq> 0 then pad_power2 (hashes @ [h256_zero]) else hashes)"
  by pat_completeness auto
termination
proof (relation "measure (\<lambda>hashes. 2 ^ ceillog2 (length hashes) - length hashes)")
  fix hashes :: "h256 list"
  assume "length hashes AND (length hashes - 1) \<noteq> 0"
  from not_power2_step [OF this]
  show "(hashes @ [h256_zero], hashes) \<in> measure (\<lambda>hashes. 2 ^ ceillog2 (length hashes) - length hashes)"
    by simp
qed simp

declare pad_power2.simps [simp del]

definition compute_tx_root :: "ext \<Rightarrow> Batch \<Rightarrow> h256" where
  "compute_tx_root e b =
     (if bt_transactions b = [] then h256_zero
      else l2_root_loop e (pad_power2 (map lt_hash (bt_transactions b))) ! 0)"

definition batch_seal :: "ext \<Rightarrow> u64 \<Rightarrow> Batch \<Rightarrow> h256 \<Rightarrow> BatchError + Batch" where
  "batch_seal e now b post_state_root =
     (if bt_status b \<noteq> BtBuilding then Err (InvalidState (bt_status b))
      else Ok (b\<lparr>bt_header := (bt_header b)\<lparr>bh_post_state_root := post_state_root, bh_tx_root := compute_tx_root e b\<rparr>,
                 bt_status := BtSealed, bt_sealed_at := Some now\<rparr>))"

definition set_proof :: "u64 \<Rightarrow> Batch \<Rightarrow> u8 list \<Rightarrow> BatchError + Batch" where
  "set_proof now b proof =
     (if bt_status b \<noteq> BtSealed \<and> bt_status b \<noteq> BtProving then Err (InvalidState (bt_status b))
      else Ok (b\<lparr>bt_proof := Some proof, bt_status := BtProven, bt_proven_at := Some now\<rparr>))"

definition mark_submitted :: "u64 \<Rightarrow> Batch \<Rightarrow> h256 \<Rightarrow> BatchError + Batch" where
  "mark_submitted now b l1_tx_hash =
     (if bt_status b \<noteq> BtProven then Err (InvalidState (bt_status b))
      else Ok (b\<lparr>bt_l1_tx_hash := Some l1_tx_hash, bt_status := BtSubmitted, bt_submitted_at := Some now\<rparr>))"

definition mark_finalized :: "u64 \<Rightarrow> Batch \<Rightarrow> BatchError + Batch" where
  "mark_finalized now b =
     (if bt_status b \<noteq> BtSubmitted then Err (InvalidState (bt_status b))
      else Ok (b\<lparr>bt_status := BtFinalized, bt_finalized_at := Some now\<rparr>))"

definition batch_should_seal :: "u64 \<Rightarrow> Batch \<Rightarrow> bool" where
  "batch_should_seal now b =
     (if bt_status b \<noteq> BtBuilding then False
      else BATCH_INTERVAL_SECS \<le> now - bt_created_at b \<or> MAX_BATCH_SIZE \<le> length (bt_transactions b))"

definition batch_get_transaction :: "Batch \<Rightarrow> h256 \<Rightarrow> L2Transaction option" where
  "batch_get_transaction b h = List.find (\<lambda>tx. lt_hash tx = h) (bt_transactions b)"

subsection \<open>The builder\<close>

record BatchBuilder =
  bb_current :: "Batch option"
  bb_batches :: "(h256, Batch) hashmap"
  bb_by_number :: "(u64, h256) hashmap"
  bb_last_batch_number :: u64
  bb_sequencer :: address

definition BatchBuilder_new :: "address \<Rightarrow> BatchBuilder" where
  "BatchBuilder_new sequencer =
     \<lparr>bb_current = None, bb_batches = [], bb_by_number = [], bb_last_batch_number = 0, bb_sequencer = sequencer\<rparr>"

definition start_batch :: "u64 \<Rightarrow> BatchBuilder \<Rightarrow> h256 \<Rightarrow> u64 \<Rightarrow> BatchError + BatchBuilder" where
  "start_batch now bb pre_state_root l1_block_number =
     (if bb_current bb \<noteq> None then Err BatchInProgress
      else let batch_number = bb_last_batch_number bb + 1;
               parent_hash = (case hm_get (bb_by_number bb) (batch_number - 1) of None \<Rightarrow> h256_zero | Some h \<Rightarrow> h)
           in Ok (bb\<lparr>bb_current := Some (Batch_new now batch_number parent_hash pre_state_root (bb_sequencer bb)
                l1_block_number)\<rparr>))"

definition builder_add_transaction :: "BatchBuilder \<Rightarrow> L2Transaction \<Rightarrow> BatchError + BatchBuilder" where
  "builder_add_transaction bb tx =
     (case bb_current bb of
        None \<Rightarrow> Err NoBatchInProgress
      | Some b \<Rightarrow> and_then (batch_add_transaction b tx) (\<lambda>b'. Ok (bb\<lparr>bb_current := Some b'\<rparr>)))"

text \<open>\<open>current.take()\<close> empties the slot before \<open>seal\<close> can fail, so the builder is returned in both cases.\<close>

definition seal_batch :: "ext \<Rightarrow> u64 \<Rightarrow> BatchBuilder \<Rightarrow> h256 \<Rightarrow> BatchBuilder \<times> (BatchError + Batch)" where
  "seal_batch e now bb post_state_root =
     (case bb_current bb of
        None \<Rightarrow> (bb, Err NoBatchInProgress)
      | Some b \<Rightarrow>
          let bb1 = bb\<lparr>bb_current := None\<rparr> in
          (case batch_seal e now b post_state_root of
             Err x \<Rightarrow> (bb1, Err x)
           | Ok batch \<Rightarrow>
               let h = Batch_hash e batch; number = bh_batch_number (bt_header batch) in
               (bb1\<lparr>bb_batches := hm_insert h batch (bb_batches bb1),
                    bb_by_number := hm_insert number h (bb_by_number bb1),
                    bb_last_batch_number := number\<rparr>, Ok batch)))"

definition get_batch :: "BatchBuilder \<Rightarrow> h256 \<Rightarrow> Batch option" where
  "get_batch bb h = hm_get (bb_batches bb) h"

definition get_batch_by_number :: "BatchBuilder \<Rightarrow> u64 \<Rightarrow> Batch option" where
  "get_batch_by_number bb number =
     (case hm_get (bb_by_number bb) number of None \<Rightarrow> None | Some h \<Rightarrow> get_batch bb h)"

definition builder_should_seal :: "u64 \<Rightarrow> BatchBuilder \<Rightarrow> bool" where
  "builder_should_seal now bb = (case bb_current bb of None \<Rightarrow> False | Some b \<Rightarrow> batch_should_seal now b)"

definition update_batch :: "BatchBuilder \<Rightarrow> h256 \<Rightarrow> (Batch \<Rightarrow> Batch) \<Rightarrow> BatchError + BatchBuilder" where
  "update_batch bb h f =
     (case hm_get (bb_batches bb) h of
        None \<Rightarrow> Err (BatchNotFound h)
      | Some b \<Rightarrow> Ok (bb\<lparr>bb_batches := hm_insert h (f b) (bb_batches bb)\<rparr>))"

definition get_pending_batches :: "BatchBuilder \<Rightarrow> Batch list" where
  "get_pending_batches bb =
     filter (\<lambda>b. bt_status b \<in> {BtSealed, BtProving, BtProven, BtSubmitted}) (hm_values (bb_batches bb))"

record BatchBuilderStats =
  bbs_total_batches :: u64
  bbs_total_transactions :: u64
  bbs_total_gas_used :: u64
  bbs_last_batch_number :: u64
  bbs_current_batch_txs :: nat
  bbs_by_status :: "(BatchStatus, u64) hashmap"

definition count_status :: "(BatchStatus, u64) hashmap \<Rightarrow> Batch \<Rightarrow> (BatchStatus, u64) hashmap" where
  "count_status m b =
     hm_insert (bt_status b) ((case hm_get m (bt_status b) of None \<Rightarrow> 0 | Some n \<Rightarrow> n) + 1) m"

definition builder_stats :: "BatchBuilder \<Rightarrow> BatchBuilderStats" where
  "builder_stats bb =
     \<lparr>bbs_total_batches = of_nat (length (bb_batches bb)),
      bbs_total_transactions = sum_list (map (\<lambda>b. of_nat (length (bt_transactions b))) (hm_values (bb_batches bb))),
      bbs_total_gas_used = sum_list (map (\<lambda>b. bh_gas_used (bt_header b)) (hm_values (bb_batches bb))),
      bbs_last_batch_number = bb_last_batch_number bb,
      bbs_current_batch_txs = (case bb_current bb of None \<Rightarrow> 0 | Some b \<Rightarrow> length (bt_transactions b)),
      bbs_by_status = foldl count_status [] (hm_values (bb_batches bb))\<rparr>"

subsection \<open>The padding loop\<close>

lemma pad_power2_eq: "hashes \<noteq> [] \<Longrightarrow> pad_power2 hashes = padded_leaves hashes"
proof (induction hashes rule: pad_power2.induct)
  case (1 hashes)
  let ?n = "length hashes"
  show ?case
  proof (cases "?n AND (?n - 1) \<noteq> 0")
    case True
    note step = not_power2_step [OF True]
    then have k: "2 ^ ceillog2 ?n - ?n = Suc (2 ^ ceillog2 ?n - Suc ?n)" by simp
    have "padded_leaves (hashes @ [h256_zero]) = hashes @ h256_zero # replicate (2 ^ ceillog2 ?n - Suc ?n) h256_zero"
      using step by (simp add: padded_leaves_def)
    also have "\<dots> = padded_leaves hashes" unfolding padded_leaves_def k by simp
    finally show ?thesis using 1 True by (subst pad_power2.simps) simp
  next
    case False
    have "2 ^ ceillog2 ?n = ?n"
      using False "1.prems" by (intro power2_zero) simp_all
    then show ?thesis using False by (subst pad_power2.simps) (simp add: padded_leaves_def)
  qed
qed

subsection \<open>The chain of batches\<close>

datatype builder_op =
    StartBatch u64 h256 u64
  | AddTransaction L2Transaction
  | SealBatch u64 h256
  | ProveBatch u64 h256 "u8 list"
  | SubmitBatch u64 h256 h256
  | FinalizeBatch u64 h256

fun batch_step :: "ext \<Rightarrow> BatchBuilder \<Rightarrow> builder_op \<Rightarrow> BatchBuilder" where
  "batch_step e bb (StartBatch now sroot l1) = ok_or bb (start_batch now bb sroot l1)"
| "batch_step e bb (AddTransaction tx) = ok_or bb (builder_add_transaction bb tx)"
| "batch_step e bb (SealBatch now sroot) = fst (seal_batch e now bb sroot)"
| "batch_step e bb (ProveBatch now h proof) = ok_or bb (update_batch bb h (\<lambda>b. ok_or b (set_proof now b proof)))"
| "batch_step e bb (SubmitBatch now h l1) = ok_or bb (update_batch bb h (\<lambda>b. ok_or b (mark_submitted now b l1)))"
| "batch_step e bb (FinalizeBatch now h) = ok_or bb (update_batch bb h (\<lambda>b. ok_or b (mark_finalized now b)))"

definition batch_ok :: "ext \<Rightarrow> Batch \<Rightarrow> bool" where
  "batch_ok e b =
     (bh_tx_count (bt_header b) = of_nat (length (bt_transactions b)) \<and> length (bt_transactions b) \<le> MAX_BATCH_SIZE
      \<and> (bt_status b \<noteq> BtBuilding \<longrightarrow> bh_tx_root (bt_header b) = compute_tx_root e b)
      \<and> (bt_status b \<in> {BtProven, BtSubmitted, BtFinalized} \<longrightarrow> bt_proof b \<noteq> None)
      \<and> (bt_status b \<in> {BtSubmitted, BtFinalized} \<longrightarrow> bt_l1_tx_hash b \<noteq> None))"

definition linked :: "BatchBuilder \<Rightarrow> BatchHeader \<Rightarrow> bool" where
  "linked bb hdr =
     (if bh_batch_number hdr = 1 then bh_parent_hash hdr = h256_zero
      else hm_get (bb_by_number bb) (bh_batch_number hdr - 1) = Some (bh_parent_hash hdr))"

definition builder_inv :: "ext \<Rightarrow> BatchBuilder \<Rightarrow> bool" where
  "builder_inv e bb =
     ((\<forall>h b. get_batch bb h = Some b \<longrightarrow> Batch_hash e b = h \<and> batch_ok e b \<and> bt_status b \<noteq> BtBuilding
         \<and> linked bb (bt_header b) \<and> bh_batch_number (bt_header b) \<le> bb_last_batch_number bb
         \<and> bh_batch_number (bt_header b) \<noteq> 0)
      \<and> (\<forall>b. bb_current bb = Some b \<longrightarrow> batch_ok e b \<and> bt_status b = BtBuilding
         \<and> bh_batch_number (bt_header b) = bb_last_batch_number bb + 1 \<and> linked bb (bt_header b))
      \<and> (\<forall>n. hm_contains (bb_by_number bb) n \<longleftrightarrow> n \<noteq> 0 \<and> n \<le> bb_last_batch_number bb)
      \<and> (\<forall>n h. hm_get (bb_by_number bb) n = Some h \<longrightarrow> hm_contains (bb_batches bb) h))"

lemma compute_tx_root_cong: "bt_transactions b = bt_transactions b' \<Longrightarrow> compute_tx_root e b = compute_tx_root e b'"
  by (simp add: compute_tx_root_def)

text \<open>The three steps of the life of a sealed batch keep its header and its transactions.\<close>

lemma lifecycle_step:
  assumes "f = (\<lambda>b. ok_or b (set_proof now b proof)) \<or> f = (\<lambda>b. ok_or b (mark_submitted now b l1))
      \<or> f = (\<lambda>b. ok_or b (mark_finalized now b))"
  shows "bt_header (f b) = bt_header b \<and> bt_transactions (f b) = bt_transactions b
    \<and> (bt_status b \<noteq> BtBuilding \<longrightarrow> bt_status (f b) \<noteq> BtBuilding) \<and> (batch_ok e b \<longrightarrow> batch_ok e (f b))"
  using assms
  by (elim disjE) (simp_all add: ok_or_def set_proof_def mark_submitted_def mark_finalized_def batch_ok_def
      compute_tx_root_def)

lemma update_batch_inv:
  assumes inv: "builder_inv e bb"
    and f: "\<And>b. bt_header (f b) = bt_header b \<and> (bt_status b \<noteq> BtBuilding \<longrightarrow> bt_status (f b) \<noteq> BtBuilding)
      \<and> (batch_ok e b \<longrightarrow> batch_ok e (f b))"
  shows "builder_inv e (ok_or bb (update_batch bb h f))"
proof (cases "hm_get (bb_batches bb) h")
  case None
  then show ?thesis using inv by (simp add: update_batch_def ok_or_def)
next
  case (Some b)
  then have old: "get_batch bb h = Some b" by (simp add: get_batch_def)
  let ?bb = "bb\<lparr>bb_batches := hm_insert h (f b) (bb_batches bb)\<rparr>"
  have "Batch_hash e (f b) = Batch_hash e b" by (simp add: Batch_hash_def f)
  then have "builder_inv e ?bb"
    using inv old f by (auto simp: builder_inv_def get_batch_def linked_def hm_contains_def)
  then show ?thesis by (simp add: update_batch_def ok_or_def Some)
qed

lemma linked_frame [simp]:
  "linked (bb\<lparr>bb_current := c\<rparr>) = linked bb" "linked (bb\<lparr>bb_batches := m\<rparr>) = linked bb"
  "linked (bb\<lparr>bb_last_batch_number := n\<rparr>) = linked bb"
  by (simp_all add: linked_def fun_eq_iff)

lemma set_current_inv:
  assumes "builder_inv e bb" and "batch_ok e b" and "bt_status b = BtBuilding" and "linked bb (bt_header b)"
    and "bh_batch_number (bt_header b) = bb_last_batch_number bb + 1"
  shows "builder_inv e (bb\<lparr>bb_current := Some b\<rparr>)"
  using assms unfolding builder_inv_def get_batch_def by simp

lemma start_batch_inv:
  assumes inv: "builder_inv e bb"
  shows "builder_inv e (ok_or bb (start_batch now bb sroot l1))"
proof (cases "bb_current bb")
  case None
  let ?n = "bb_last_batch_number bb + 1"
  let ?p = "case hm_get (bb_by_number bb) (?n - 1) of None \<Rightarrow> h256_zero | Some h \<Rightarrow> h"
  let ?b = "Batch_new now ?n ?p sroot (bb_sequencer bb) l1"
  have "hm_contains (bb_by_number bb) (bb_last_batch_number bb) \<longleftrightarrow> bb_last_batch_number bb \<noteq> 0"
    using inv by (simp add: builder_inv_def)
  then have "linked bb (bt_header ?b)"
    by (auto simp: linked_def Batch_new_def hm_contains_def)
  moreover have "batch_ok e ?b" by (simp add: batch_ok_def Batch_new_def)
  moreover have "bh_batch_number (bt_header ?b) = ?n" "bt_status ?b = BtBuilding" by (simp_all add: Batch_new_def)
  ultimately have "builder_inv e (bb\<lparr>bb_current := Some ?b\<rparr>)"
    using inv by (intro set_current_inv)
  then show ?thesis using None by (simp add: start_batch_def ok_or_def Let_def)
qed (use inv in \<open>simp add: start_batch_def ok_or_def\<close>)

lemma add_transaction_inv:
  assumes inv: "builder_inv e bb"
  shows "builder_inv e (ok_or bb (builder_add_transaction bb tx))"
proof (cases "bb_current bb")
  case (Some b)
  then have b: "batch_ok e b" "bt_status b = BtBuilding" "linked bb (bt_header b)"
      "bh_batch_number (bt_header b) = bb_last_batch_number bb + 1"
    using inv by (simp_all add: builder_inv_def)
  show ?thesis
  proof (cases "batch_add_transaction b tx")
    case (Inr b')
    then have "batch_ok e b' \<and> bt_status b' = BtBuilding \<and> linked bb (bt_header b')
        \<and> bh_batch_number (bt_header b') = bb_last_batch_number bb + 1"
      using b by (auto simp: batch_add_transaction_def batch_ok_def linked_def Let_def split: if_splits)
    then have "builder_inv e (bb\<lparr>bb_current := Some b'\<rparr>)"
      using inv by (intro set_current_inv) simp_all
    then show ?thesis using Some Inr by (simp add: builder_add_transaction_def ok_or_def)
  qed (use inv Some in \<open>simp add: builder_add_transaction_def ok_or_def\<close>)
qed (use inv in \<open>simp add: builder_add_transaction_def ok_or_def\<close>)

lemma seal_batch_inv:
  assumes inv: "builder_inv e bb" and room: "bb_last_batch_number bb + 1 \<noteq> 0"
  shows "builder_inv e (fst (seal_batch e now bb sroot))"
proof (cases "bb_current bb")
  case (Some b)
  then have b: "batch_ok e b" "bt_status b = BtBuilding" "linked bb (bt_header b)"
      "bh_batch_number (bt_header b) = bb_last_batch_number bb + 1"
    using inv by (simp_all add: builder_inv_def)
  let ?b = "b\<lparr>bt_header := (bt_header b)\<lparr>bh_post_state_root := sroot, bh_tx_root := compute_tx_root e b\<rparr>,
      bt_status := BtSealed, bt_sealed_at := Some now\<rparr>"
  let ?n = "bb_last_batch_number bb + 1"
  let ?bb = "bb\<lparr>bb_current := None, bb_batches := hm_insert (Batch_hash e ?b) ?b (bb_batches bb),
      bb_by_number := hm_insert ?n (Batch_hash e ?b) (bb_by_number bb), bb_last_batch_number := ?n\<rparr>"
  have eq: "fst (seal_batch e now bb sroot) = ?bb"
    using Some b(2,4) by (simp add: seal_batch_def batch_seal_def Let_def)
  have n: "unat ?n = unat (bb_last_batch_number bb) + 1" using room by (rule unat_add_one)
  then have le: "m \<le> ?n \<longleftrightarrow> m \<le> bb_last_batch_number bb \<or> m = ?n" for m
    by (auto simp: word_le_nat_alt word_unat_eq_iff)
  have below: "m - 1 \<noteq> ?n" if "m \<le> bb_last_batch_number bb" "m \<noteq> 0" for m
  proof -
    have m: "unat (m - 1) = unat m - 1" using that(2) by (intro unat_minus_one)
    show ?thesis
    proof
      assume "m - 1 = ?n"
      then have "unat m - 1 = unat (bb_last_batch_number bb) + 1" using m n by metis
      then show False using that(1) by (simp add: word_le_nat_alt)
    qed
  qed
  have ok: "batch_ok e ?b" using b compute_tx_root_cong [of ?b b e] by (simp add: batch_ok_def)
  have keep: "linked ?bb hdr" if "linked bb hdr" "bh_batch_number hdr - 1 \<noteq> ?n" for hdr
    using that by (simp add: linked_def)
  have "linked ?bb (bt_header ?b)" using b(3,4) by (auto simp: linked_def split: if_splits)
  then show ?thesis
    unfolding eq using inv ok le below keep room b(4)
    unfolding builder_inv_def get_batch_def by (intro conjI allI impI) (auto split: if_splits)
qed (use inv in \<open>simp add: seal_batch_def\<close>)

lemma batch_step_inv:
  assumes "builder_inv e bb" and "unat (bb_last_batch_number bb) + 1 < 2 ^ 64"
  shows "builder_inv e (batch_step e bb op)"
    and "unat (bb_last_batch_number (batch_step e bb op)) \<le> unat (bb_last_batch_number bb) + 1"
proof -
  have "unat (bb_last_batch_number bb + 1) = unat (bb_last_batch_number bb) + 1"
    using assms(2) by (simp add: unat_add_exact)
  then have room: "bb_last_batch_number bb + 1 \<noteq> 0" by (metis add_eq_0_iff_both_eq_0 one_neq_zero unat_0)
  show "builder_inv e (batch_step e bb op)"
  proof (cases op)
    case (SealBatch now sroot)
    then show ?thesis using seal_batch_inv [OF assms(1) room] by simp
  next
    case (StartBatch now sroot l1)
    then show ?thesis using start_batch_inv [OF assms(1)] by simp
  next
    case (AddTransaction tx)
    then show ?thesis using add_transaction_inv [OF assms(1)] by simp
  next
    case (ProveBatch now h p)
    then show ?thesis
      using lifecycle_step [of "\<lambda>b. ok_or b (set_proof now b p)" now p] by (simp add: update_batch_inv [OF assms(1)])
  next
    case (SubmitBatch now h l1)
    then show ?thesis
      using lifecycle_step [of "\<lambda>b. ok_or b (mark_submitted now b l1)" now _ l1] by (simp add: update_batch_inv [OF assms(1)])
  next
    case (FinalizeBatch now h)
    then show ?thesis
      using lifecycle_step [of "\<lambda>b. ok_or b (mark_finalized now b)" now] by (simp add: update_batch_inv [OF assms(1)])
  qed
  have "unat (bb_last_batch_number (fst (seal_batch e now bb sroot))) \<le> unat (bb_last_batch_number bb) + 1" for now sroot
    using assms(1) room unat_add_one [of "bb_last_batch_number bb"]
    by (auto simp: seal_batch_def batch_seal_def builder_inv_def Let_def split: option.split)
  then show "unat (bb_last_batch_number (batch_step e bb op)) \<le> unat (bb_last_batch_number bb) + 1"
    by (cases op) (auto simp: ok_or_def start_batch_def builder_add_transaction_def update_batch_def Let_def and_then_def
        split: option.splits sum.splits)
qed

lemma builder_run_inv:
  assumes "length ops < 2 ^ 64"
  shows "builder_inv e (run (batch_step e) (BatchBuilder_new a) ops)
    \<and> unat (bb_last_batch_number (run (batch_step e) (BatchBuilder_new a) ops)) \<le> length ops"
  using assms
proof (induction ops rule: rev_induct)
  case Nil
  have "\<not> hm_contains [] n" for n :: u64 by simp
  then show ?case by (auto simp: builder_inv_def BatchBuilder_new_def get_batch_def)
next
  case (snoc op ops)
  let ?bb = "run (batch_step e) (BatchBuilder_new a) ops"
  have IH: "builder_inv e ?bb" "unat (bb_last_batch_number ?bb) \<le> length ops" using snoc by simp_all
  then have "unat (bb_last_batch_number ?bb) + 1 < 2 ^ 64" using snoc.prems by simp
  note step = batch_step_inv [OF IH(1) this, of op]
  then show ?case using IH(2) by simp
qed

subsection \<open>Properties\<close>

text \<open>
  The batches form a chain: every stored batch is stored under its hash, its root is that of its at most
  1000 transactions, its parent is the hash of the batch with the number before (zero for the first), and a
  finalized batch has a proof and a transaction on the first layer. Every number up to the last one is there.
\<close>

theorem batches_linked:
  assumes "bb = run (batch_step e) (BatchBuilder_new a) ops" and "length ops < 2 ^ 64"
  shows "(\<forall>h b. get_batch bb h = Some b \<longrightarrow>
      Batch_hash e b = h \<and> bh_tx_root (bt_header b) = compute_tx_root e b \<and> length (bt_transactions b) \<le> 1000
      \<and> (if bh_batch_number (bt_header b) = 1 then bh_parent_hash (bt_header b) = h256_zero
         else hm_get (bb_by_number bb) (bh_batch_number (bt_header b) - 1) = Some (bh_parent_hash (bt_header b)))
      \<and> (bt_status b = BtFinalized \<longrightarrow> bt_proof b \<noteq> None \<and> bt_l1_tx_hash b \<noteq> None))
    \<and> (\<forall>n. 1 \<le> n \<and> n \<le> bb_last_batch_number bb \<longrightarrow> get_batch_by_number bb n \<noteq> None)"
proof -
  have inv: "builder_inv e bb" using builder_run_inv [OF assms(2)] assms(1) by simp
  have "get_batch_by_number bb n \<noteq> None" if "1 \<le> n" "n \<le> bb_last_batch_number bb" for n
  proof -
    have "n \<noteq> 0" using that(1) by auto
    then have "hm_contains (bb_by_number bb) n" using inv that(2) by (simp add: builder_inv_def)
    then obtain h where "hm_get (bb_by_number bb) n = Some h" by (auto simp: hm_contains_def)
    moreover from this have "hm_contains (bb_batches bb) h" using inv by (simp add: builder_inv_def)
    ultimately show ?thesis by (simp add: get_batch_by_number_def get_batch_def hm_contains_def)
  qed
  moreover have "Batch_hash e b = h \<and> bh_tx_root (bt_header b) = compute_tx_root e b \<and> length (bt_transactions b) \<le> 1000
      \<and> (if bh_batch_number (bt_header b) = 1 then bh_parent_hash (bt_header b) = h256_zero
         else hm_get (bb_by_number bb) (bh_batch_number (bt_header b) - 1) = Some (bh_parent_hash (bt_header b)))
      \<and> (bt_status b = BtFinalized \<longrightarrow> bt_proof b \<noteq> None \<and> bt_l1_tx_hash b \<noteq> None)"
    if "get_batch bb h = Some b" for h b
  proof -
    have "Batch_hash e b = h" "batch_ok e b" "bt_status b \<noteq> BtBuilding" "linked bb (bt_header b)"
      using inv that by (simp_all add: builder_inv_def)
    then show ?thesis by (simp add: batch_ok_def linked_def MAX_BATCH_SIZE_def)
  qed
  ultimately show ?thesis by blast
qed

theorem batches_linked_witness:
  fixes bb
  defines "bb \<equiv> run (batch_step sample_ext) (BatchBuilder_new address_zero)
    [StartBatch 0 h256_zero 1, SealBatch 5 h256_zero]"
  shows "bb_last_batch_number bb = 1 \<and> get_batch_by_number bb 1 \<noteq> None"
proof -
  have "bb_last_batch_number bb = 1"
    by (simp add: bb_def start_batch_def BatchBuilder_new_def ok_or_def seal_batch_def batch_seal_def Batch_new_def Let_def)
  then show ?thesis using batches_linked [OF bb_def [THEN meta_eq_to_obj_eq]] by simp
qed

text \<open>
  The padding loop of a batch, which pushes zeros while \<open>len & (len - 1)\<close> is not zero, ends for every
  list of hashes, with the next power of two as the length, and gives exactly the padding that the state
  computes from a logarithm.
\<close>

theorem padding_loop_ends:
  assumes "hashes \<noteq> []"
  shows "pad_power2 hashes = padded_leaves hashes \<and> length (pad_power2 hashes) = 2 ^ ceillog2 (length hashes)
    \<and> length (pad_power2 hashes) < 2 * length hashes"
  using assms pad_power2_eq [OF assms] le_two_power_ceillog2 [of "length hashes"] two_power_ceillog2_gt [of "length hashes"]
  by (simp add: padded_leaves_def)

theorem padding_loop_ends_witness: "length (pad_power2 [h256_zero, h256_zero, h256_zero]) = 4"
proof -
  have "ceillog2 3 = 2" by (rule ceillog2_eqI) simp_all
  then show ?thesis using padding_loop_ends [of "[h256_zero, h256_zero, h256_zero]", THEN conjunct2, THEN conjunct1]
    by (simp add: numeral_3_eq_3)
qed

end
