(* ===== verification/L2_Sequencer.thy ===== *)
theory L2_Sequencer
  imports L2_Batch "HOL-Library.Sublist"
begin

section \<open>The sequencer of the rollup\<close>

text \<open>
  \<open>pyrax-node/src/zkrollup/sequencer.rs\<close>: transactions enter a queue, ordered by gas price, and the leader
  executes them on the state and collects them in a batch. The state and the builder, shared through
  \<open>Arc\<close> in the source, are fields of the sequencer. The clock is an argument of the operations that
  read it.
\<close>

definition MIN_SEQUENCER_STAKE :: u64 where "MIN_SEQUENCER_STAKE = 10000 * 100000000"
definition L2_BLOCK_TIME_SECS :: u64 where "L2_BLOCK_TIME_SECS = 2"

datatype SequencerMode = SingleMode | RotatingMode | DecentralizedMode | BasedMode

datatype SequencerStatus = SeqActive | SeqSyncing | SeqPaused | SeqSlashed | SeqUnbonding

record SequencerConfig =
  qc_mode :: SequencerMode
  qc_block_time_secs :: u64
  qc_max_batch_size :: nat
  qc_min_stake :: u64
  qc_force_inclusion_delay :: u64
  qc_rotation_period :: u64
  qc_priority_ordering :: bool
  qc_max_batch_gas :: u64

definition SequencerConfig_default :: SequencerConfig where
  "SequencerConfig_default =
     \<lparr>qc_mode = DecentralizedMode, qc_block_time_secs = L2_BLOCK_TIME_SECS, qc_max_batch_size = MAX_BATCH_SIZE,
      qc_min_stake = MIN_SEQUENCER_STAKE, qc_force_inclusion_delay = 100, qc_rotation_period = 1000,
      qc_priority_ordering = True, qc_max_batch_gas = 30000000\<rparr>"

record SequencerInfo =
  qi_address :: address
  qi_stake :: u64
  qi_status :: SequencerStatus
  qi_endpoint :: string
  qi_batches_produced :: u64
  qi_txs_sequenced :: u64
  qi_fees_earned :: u64
  qi_registered_at :: u64
  qi_last_active :: u64
  qi_reputation :: u32
  qi_missed_slots :: u32

definition SequencerInfo_new :: "u64 \<Rightarrow> address \<Rightarrow> u64 \<Rightarrow> string \<Rightarrow> SequencerInfo" where
  "SequencerInfo_new now a stake endpoint =
     \<lparr>qi_address = a, qi_stake = stake, qi_status = SeqActive, qi_endpoint = endpoint,
      qi_batches_produced = 0, qi_txs_sequenced = 0, qi_fees_earned = 0, qi_registered_at = now,
      qi_last_active = now, qi_reputation = 50, qi_missed_slots = 0\<rparr>"

definition record_batch :: "u64 \<Rightarrow> SequencerInfo \<Rightarrow> u64 \<Rightarrow> u64 \<Rightarrow> SequencerInfo" where
  "record_batch now i tx_count fees =
     i\<lparr>qi_batches_produced := qi_batches_produced i + 1, qi_txs_sequenced := qi_txs_sequenced i + tx_count,
       qi_fees_earned := qi_fees_earned i + fees, qi_last_active := now, qi_missed_slots := 0,
       qi_reputation := min (qi_reputation i + 1) 100\<rparr>"

definition record_missed_slot :: "SequencerInfo \<Rightarrow> SequencerInfo" where
  "record_missed_slot i =
     i\<lparr>qi_missed_slots := qi_missed_slots i + 1, qi_reputation := saturating_sub (qi_reputation i) 2\<rparr>"

definition sequencer_slash :: "SequencerInfo \<Rightarrow> u8 \<Rightarrow> SequencerInfo \<times> u64" where
  "sequencer_slash i slash_percent =
     (let slash_amount = mul_div (qi_stake i) (ucast slash_percent) 100 in
      (i\<lparr>qi_stake := saturating_sub (qi_stake i) slash_amount, qi_status := SeqSlashed, qi_reputation := 0\<rparr>,
       slash_amount))"

record PendingTransaction =
  pt_tx :: L2Transaction
  pt_received_at :: u64
  pt_priority :: u64
  pt_l1_inclusion_block :: "u64 option"

definition PendingTransaction_new :: "u64 \<Rightarrow> L2Transaction \<Rightarrow> PendingTransaction" where
  "PendingTransaction_new now tx =
     \<lparr>pt_tx = tx, pt_received_at = now, pt_priority = lt_gas_price tx, pt_l1_inclusion_block = None\<rparr>"

definition with_force_inclusion :: "u64 \<Rightarrow> L2Transaction \<Rightarrow> u64 \<Rightarrow> PendingTransaction" where
  "with_force_inclusion now tx l1_block =
     \<lparr>pt_tx = tx, pt_received_at = now, pt_priority = - 1, pt_l1_inclusion_block = Some l1_block\<rparr>"

record SequencerStats =
  qs_batches_produced :: u64
  qs_txs_received :: u64
  qs_txs_processed :: u64
  qs_txs_failed :: u64
  qs_force_inclusions :: u64
  qs_overdue_force_inclusions :: u64
  qs_total_gas_used :: u64

definition SequencerStats_default :: SequencerStats where
  "SequencerStats_default =
     \<lparr>qs_batches_produced = 0, qs_txs_received = 0, qs_txs_processed = 0, qs_txs_failed = 0,
      qs_force_inclusions = 0, qs_overdue_force_inclusions = 0, qs_total_gas_used = 0\<rparr>"

record Sequencer =
  sq_config :: SequencerConfig
  sq_address :: address
  sq_info :: SequencerInfo
  sq_sequencers :: "(address, SequencerInfo) hashmap"
  sq_current_leader :: "address option"
  sq_mempool :: "PendingTransaction list"
  sq_state :: L2State
  sq_batch_builder :: BatchBuilder
  sq_l1_block_number :: u64
  sq_l2_block_number :: u64
  sq_stats :: SequencerStats

datatype SequencerError =
    InsufficientStake u64 u64
  | NotLeader
  | SeqInvalidNonce u64 u64
  | SeqInsufficientBalance u64 u64
  | SeqInvalidSignature
  | InvalidTransactionType
  | ExecutionFailed
  | SeqBatchError BatchError
  | SeqNotFound address

definition Sequencer_new :: "u64 \<Rightarrow> SequencerConfig \<Rightarrow> address \<Rightarrow> u64 \<Rightarrow> string \<Rightarrow> L2State \<Rightarrow> Sequencer" where
  "Sequencer_new now config a stake endpoint state =
     \<lparr>sq_config = config, sq_address = a, sq_info = SequencerInfo_new now a stake endpoint,
      sq_sequencers = [], sq_current_leader = None, sq_mempool = [], sq_state = state,
      sq_batch_builder = BatchBuilder_new a, sq_l1_block_number = 0, sq_l2_block_number = 0,
      sq_stats = SequencerStats_default\<rparr>"

definition sequencer_register :: "Sequencer \<Rightarrow> SequencerError + Sequencer" where
  "sequencer_register q =
     (let info = sq_info q in
      if qi_stake info < qc_min_stake (sq_config q)
      then Err (InsufficientStake (qc_min_stake (sq_config q)) (qi_stake info))
      else Ok (q\<lparr>sq_sequencers := hm_insert (sq_address q) info (sq_sequencers q)\<rparr>))"

definition seq_validate_transaction :: "Sequencer \<Rightarrow> L2Transaction \<Rightarrow> SequencerError + unit" where
  "seq_validate_transaction q tx =
     (let expected_nonce = l2_get_nonce (sq_state q) (lt_from tx) in
      if lt_nonce tx \<noteq> expected_nonce then Err (SeqInvalidNonce expected_nonce (lt_nonce tx))
      else let balance = l2_get_balance (sq_state q) (lt_from tx); required = lt_value tx + gas_cost tx in
           if balance < required then Err (SeqInsufficientBalance balance required)
           else if lt_signature tx = [] then Err SeqInvalidSignature
           else Ok ())"

text \<open>\<open>position(|p| p.priority < pending.priority)\<close> and the insertion there, or at the end.\<close>

fun insert_by_priority :: "PendingTransaction \<Rightarrow> PendingTransaction list \<Rightarrow> PendingTransaction list" where
  "insert_by_priority p [] = [p]"
| "insert_by_priority p (x # xs) = (if pt_priority x < pt_priority p then p # x # xs else x # insert_by_priority p xs)"

definition submit_transaction :: "u64 \<Rightarrow> Sequencer \<Rightarrow> L2Transaction \<Rightarrow> SequencerError + (Sequencer \<times> h256)" where
  "submit_transaction now q tx =
     and_then (seq_validate_transaction q tx) (\<lambda>_.
       let pending = PendingTransaction_new now tx;
           mempool = (if qc_priority_ordering (sq_config q) then insert_by_priority pending (sq_mempool q)
             else sq_mempool q @ [pending])
       in Ok (q\<lparr>sq_mempool := mempool,
                sq_stats := (sq_stats q)\<lparr>qs_txs_received := qs_txs_received (sq_stats q) + 1\<rparr>\<rparr>, lt_hash tx))"

definition force_include :: "u64 \<Rightarrow> Sequencer \<Rightarrow> L2Transaction \<Rightarrow> u64 \<Rightarrow> SequencerError + (Sequencer \<times> h256)" where
  "force_include now q tx l1_block =
     and_then (seq_validate_transaction q tx) (\<lambda>_.
       Ok (q\<lparr>sq_mempool := with_force_inclusion now tx l1_block # sq_mempool q,
             sq_stats := (sq_stats q)\<lparr>qs_force_inclusions := qs_force_inclusions (sq_stats q) + 1\<rparr>\<rparr>, lt_hash tx))"

definition execute_transaction :: "ext \<Rightarrow> L2State \<Rightarrow> L2Transaction \<Rightarrow> SequencerError + (L2State \<times> u64)" where
  "execute_transaction e s tx =
     and_then
       (if lt_tx_type tx = 0 then
          (case lt_to tx of
             None \<Rightarrow> Ok s
           | Some to' \<Rightarrow> (case transfer e s (lt_from tx) to' (lt_value tx) of Err _ \<Rightarrow> Err ExecutionFailed | Ok s' \<Rightarrow> Ok s'))
        else if lt_tx_type tx = 1 then Ok (increment_nonce e s (lt_from tx))
        else if lt_tx_type tx = 2 then Ok (credit e s (lt_from tx) (lt_value tx))
        else if lt_tx_type tx = 3 then
          (case debit e s (lt_from tx) (lt_value tx) of Err _ \<Rightarrow> Err ExecutionFailed | Ok s' \<Rightarrow> Ok s')
        else Err InvalidTransactionType)
       (\<lambda>s'. Ok (s', lt_gas_limit tx))"

fun is_leader :: "Sequencer \<Rightarrow> bool" where
  "is_leader q =
     (case qc_mode (sq_config q) of
        SingleMode \<Rightarrow> True
      | RotatingMode \<Rightarrow> sq_current_leader q = Some (sq_address q)
      | DecentralizedMode \<Rightarrow> sq_current_leader q = Some (sq_address q)
      | BasedMode \<Rightarrow> True)"

text \<open>A forced transaction whose deadline has not come is skipped.\<close>

definition not_yet_required :: "SequencerConfig \<Rightarrow> u64 \<Rightarrow> PendingTransaction \<Rightarrow> bool" where
  "not_yet_required config l1_block p =
     (case pt_l1_inclusion_block p of None \<Rightarrow> False | Some req \<Rightarrow> l1_block < req + qc_force_inclusion_delay config)"

record batch_run =
  rn_mempool :: "PendingTransaction list"
  rn_state :: L2State
  rn_builder :: BatchBuilder
  rn_processed :: "L2Transaction list"
  rn_gas :: u64
  rn_failed :: u64

text \<open>The loop of \<open>produce_batch\<close>: each round pops the front of the queue.\<close>

fun batch_loop ::
  "ext \<Rightarrow> SequencerConfig \<Rightarrow> u64 \<Rightarrow> PendingTransaction list \<Rightarrow> L2State \<Rightarrow> BatchBuilder \<Rightarrow> L2Transaction list
     \<Rightarrow> u64 \<Rightarrow> u64 \<Rightarrow> batch_run" where
  "batch_loop e config l1_block [] s bb processed gas failed =
     \<lparr>rn_mempool = [], rn_state = s, rn_builder = bb, rn_processed = processed, rn_gas = gas, rn_failed = failed\<rparr>"
| "batch_loop e config l1_block (p # mempool) s bb processed gas failed =
     (if \<not> gas < qc_max_batch_gas config
      then \<lparr>rn_mempool = p # mempool, rn_state = s, rn_builder = bb, rn_processed = processed, rn_gas = gas,
            rn_failed = failed\<rparr>
      else if not_yet_required config l1_block p
      then batch_loop e config l1_block mempool s bb processed gas failed
      else case execute_transaction e s (pt_tx p) of
        Ok (s', gas_used) \<Rightarrow>
          (case builder_add_transaction bb (pt_tx p) of
             Err _ \<Rightarrow> \<lparr>rn_mempool = mempool, rn_state = s', rn_builder = bb, rn_processed = processed @ [pt_tx p],
                rn_gas = gas + gas_used, rn_failed = failed\<rparr>
           | Ok bb' \<Rightarrow>
               if qc_max_batch_size config \<le> length (processed @ [pt_tx p])
               then \<lparr>rn_mempool = mempool, rn_state = s', rn_builder = bb', rn_processed = processed @ [pt_tx p],
                     rn_gas = gas + gas_used, rn_failed = failed\<rparr>
               else batch_loop e config l1_block mempool s' bb' (processed @ [pt_tx p]) (gas + gas_used) failed)
      | Err _ \<Rightarrow>
          if qc_max_batch_size config \<le> length processed
          then \<lparr>rn_mempool = mempool, rn_state = s, rn_builder = bb, rn_processed = processed, rn_gas = gas,
                rn_failed = failed + 1\<rparr>
          else batch_loop e config l1_block mempool s bb processed gas (failed + 1))"

definition produce_batch :: "ext \<Rightarrow> u64 \<Rightarrow> Sequencer \<Rightarrow> Sequencer \<times> (SequencerError + Batch)" where
  "produce_batch e now q =
     (if \<not> is_leader q then (q, Err NotLeader)
      else let l1_block = sq_l1_block_number q; pre_state_root = state_root (sq_state q) in
        case start_batch now (sq_batch_builder q) pre_state_root l1_block of
          Err x \<Rightarrow> (q, Err (SeqBatchError x))
        | Ok bb \<Rightarrow>
            let r = batch_loop e (sq_config q) l1_block (sq_mempool q) (sq_state q) bb [] 0 0;
                post_state_root = state_root (rn_state r);
                q1 = q\<lparr>sq_mempool := rn_mempool r, sq_state := rn_state r,
                       sq_stats := (sq_stats q)\<lparr>qs_txs_failed := qs_txs_failed (sq_stats q) + rn_failed r\<rparr>\<rparr>
            in case seal_batch e now (rn_builder r) post_state_root of
                 (bb', Err x) \<Rightarrow> (q1\<lparr>sq_batch_builder := bb'\<rparr>, Err (SeqBatchError x))
               | (bb', Ok batch) \<Rightarrow>
                   let fees = sum_list (map gas_cost (rn_processed r)); n = of_nat (length (rn_processed r)) in
                   (q1\<lparr>sq_batch_builder := bb', sq_info := record_batch now (sq_info q1) n fees,
                       sq_stats := (sq_stats q1)\<lparr>qs_batches_produced := qs_batches_produced (sq_stats q1) + 1,
                         qs_txs_processed := qs_txs_processed (sq_stats q1) + n,
                         qs_total_gas_used := qs_total_gas_used (sq_stats q1) + rn_gas r\<rparr>,
                       sq_l2_block_number := sq_l2_block_number q1 + 1\<rparr>, Ok batch))"

definition active_sequencers :: "Sequencer \<Rightarrow> SequencerInfo list" where
  "active_sequencers q = filter (\<lambda>s. qi_status s = SeqActive) (hm_values (sq_sequencers q))"

text \<open>A rotation period of zero is a division by zero, \<open>None\<close>.\<close>

definition rotate_leader :: "Sequencer \<Rightarrow> Sequencer option" where
  "rotate_leader q =
     (let active = active_sequencers q in
      if active = [] then Some (q\<lparr>sq_current_leader := None\<rparr>)
      else map_option (\<lambda>d. q\<lparr>sq_current_leader := Some (qi_address (active ! (unat d mod length active)))\<rparr>)
             (div_u64 (sq_l2_block_number q) (qc_rotation_period (sq_config q))))"

definition process_force_inclusions :: "Sequencer \<Rightarrow> u64 \<Rightarrow> Sequencer" where
  "process_force_inclusions q l1_block =
     (let deadline = saturating_sub l1_block (qc_force_inclusion_delay (sq_config q));
          overdue = length (filter (\<lambda>p. case pt_l1_inclusion_block p of None \<Rightarrow> False | Some b \<Rightarrow> b \<le> deadline) (sq_mempool q))
      in if 0 < overdue
         then q\<lparr>sq_stats := (sq_stats q)\<lparr>qs_overdue_force_inclusions :=
                qs_overdue_force_inclusions (sq_stats q) + of_nat overdue\<rparr>\<rparr>
         else q)"

definition update_l1_block :: "Sequencer \<Rightarrow> u64 \<Rightarrow> Sequencer" where
  "update_l1_block q block = process_force_inclusions (q\<lparr>sq_l1_block_number := block\<rparr>) block"

definition mempool_size :: "Sequencer \<Rightarrow> nat" where
  "mempool_size q = length (sq_mempool q)"

definition get_sequencer :: "Sequencer \<Rightarrow> address \<Rightarrow> SequencerInfo option" where
  "get_sequencer q a = hm_get (sq_sequencers q) a"

subsection \<open>Replaying a batch\<close>

text \<open>The state after the transactions of a batch; one that fails leaves it as it is.\<close>

definition apply_tx :: "ext \<Rightarrow> L2State \<Rightarrow> L2Transaction \<Rightarrow> L2State" where
  "apply_tx e s tx = (case execute_transaction e s tx of Err _ \<Rightarrow> s | Ok (s', _) \<Rightarrow> s')"

definition replay :: "ext \<Rightarrow> L2State \<Rightarrow> L2Transaction list \<Rightarrow> L2State" where
  "replay e s txs = foldl (apply_tx e) s txs"

definition current_txs :: "BatchBuilder \<Rightarrow> L2Transaction list" where
  "current_txs bb = (case bb_current bb of None \<Rightarrow> [] | Some b \<Rightarrow> bt_transactions b)"

definition building :: "BatchBuilder \<Rightarrow> bool" where
  "building bb = (case bb_current bb of None \<Rightarrow> False | Some b \<Rightarrow> bt_status b = BtBuilding)"

definition held_root :: "BatchBuilder \<Rightarrow> h256 option" where
  "held_root bb = map_option (\<lambda>b. bh_pre_state_root (bt_header b)) (bb_current bb)"

lemma builder_add_ok:
  assumes "building bb" and "length (current_txs bb) < MAX_BATCH_SIZE"
  shows "\<exists>b b'. bb_current bb = Some b \<and> builder_add_transaction bb tx = Ok (bb\<lparr>bb_current := Some b'\<rparr>)
    \<and> bt_status b' = BtBuilding \<and> bt_transactions b' = bt_transactions b @ [tx]
    \<and> bh_pre_state_root (bt_header b') = bh_pre_state_root (bt_header b)"
  using assms
  by (cases "bb_current bb") (auto simp: building_def current_txs_def builder_add_transaction_def batch_add_transaction_def Let_def)

text \<open>
  What the loop keeps: the transactions of the batch are the processed ones, in the order of the queue, and
  replaying them from the state \<open>start\<close> gives the state. With a limit of at most 1000 no processed
  transaction is left out.
\<close>

definition loop_ok ::
  "ext \<Rightarrow> SequencerConfig \<Rightarrow> L2State \<Rightarrow> h256 \<Rightarrow> L2Transaction list \<Rightarrow> batch_run \<Rightarrow> bool" where
  "loop_ok e config start pre queued r =
     (building (rn_builder r) \<and> current_txs (rn_builder r) = rn_processed r \<and> rn_state r = replay e start (rn_processed r)
      \<and> length (rn_processed r) \<le> max 1 (qc_max_batch_size config) \<and> subseq (rn_processed r) queued
      \<and> held_root (rn_builder r) = Some pre)"

lemma replay_snoc: "execute_transaction e (replay e s txs) tx = Ok (s', g) \<Longrightarrow> replay e s (txs @ [tx]) = s'"
  by (simp add: replay_def apply_tx_def)

lemma loop_ok_queue: "loop_ok e config start pre (a @ b) r \<Longrightarrow> loop_ok e config start pre (a @ x # b) r"
proof -
  have "subseq (a @ b) (a @ x # b)" by (intro list_emb_append_mono) auto
  then show "loop_ok e config start pre (a @ b) r \<Longrightarrow> loop_ok e config start pre (a @ x # b) r"
    unfolding loop_ok_def using subseq_order.trans by blast
qed

lemma batch_loop_ok:
  assumes "building bb" and "current_txs bb = processed" and "s = replay e start processed" and "held_root bb = Some pre"
    and "length processed < max 1 (qc_max_batch_size config)" and "qc_max_batch_size config \<le> MAX_BATCH_SIZE"
  shows "loop_ok e config start pre (processed @ map pt_tx mempool)
    (batch_loop e config l1_block mempool s bb processed gas failed)"
  using assms
proof (induction e config l1_block mempool s bb processed gas failed rule: batch_loop.induct)
  case (1 e config l1_block s bb processed gas failed)
  then show ?case by (simp add: loop_ok_def)
next
  case (2 e config l1_block p mempool s bb processed gas failed)
  let ?tx = "pt_tx p"
  note prems = "2.prems"
  have stop: "loop_ok e config start pre (processed @ map pt_tx (p # mempool))
      \<lparr>rn_mempool = m, rn_state = s, rn_builder = bb, rn_processed = processed, rn_gas = g, rn_failed = f\<rparr>" for m g f
    using prems list_emb_prefix [of "(=)" processed processed] by (simp add: loop_ok_def)
  show ?case
  proof (cases "gas < qc_max_batch_gas config")
    case gas: True
    show ?thesis
    proof (cases "not_yet_required config l1_block p")
      case True
      then show ?thesis using "2.IH"(1) gas prems by (simp add: loop_ok_queue)
    next
      case due: False
      show ?thesis
      proof (cases "execute_transaction e s ?tx")
        case (Inl x)
        show ?thesis
        proof (cases "qc_max_batch_size config \<le> length processed")
          case True
          then show ?thesis using gas due Inl stop by simp
        next
          case False
          then show ?thesis using "2.IH"(2) [OF _ due Inl False] gas due Inl prems by (simp add: loop_ok_queue)
        qed
      next
        case (Inr sg)
        obtain s' g where sg: "sg = (s', g)" by (cases sg)
        have "length (current_txs bb) < MAX_BATCH_SIZE" using prems by (simp add: MAX_BATCH_SIZE_def)
        then obtain b b' where b: "bb_current bb = Some b" "builder_add_transaction bb ?tx = Ok (bb\<lparr>bb_current := Some b'\<rparr>)"
            "bt_status b' = BtBuilding" "bt_transactions b' = bt_transactions b @ [?tx]"
            "bh_pre_state_root (bt_header b') = bh_pre_state_root (bt_header b)"
          using builder_add_ok [OF prems(1)] by blast
        let ?bb = "bb\<lparr>bb_current := Some b'\<rparr>"
        have bb: "building ?bb" "current_txs ?bb = processed @ [?tx]" "held_root ?bb = Some pre"
          using b prems by (simp_all add: building_def current_txs_def held_root_def)
        have s': "s' = replay e start (processed @ [?tx])"
          using Inr sg prems(3) by (simp add: replay_snoc)
        show ?thesis
        proof (cases "qc_max_batch_size config \<le> length (processed @ [?tx])")
          case True
          then show ?thesis
            using gas due Inr sg b(2) bb s' prems list_emb_prefix [of "(=)" "processed @ [?tx]" "processed @ [?tx]" "map pt_tx mempool"]
            by (simp add: loop_ok_def)
        next
          case False
          then have "loop_ok e config start pre ((processed @ [?tx]) @ map pt_tx mempool)
              (batch_loop e config l1_block mempool s' ?bb (processed @ [?tx]) (gas + g) failed)"
            using "2.IH"(3) [OF _ due Inr sg [symmetric] b(2) False] gas bb s' prems(6) by simp
          then show ?thesis using gas due Inr sg b(2) False by simp
        qed
      qed
    qed
  qed (use stop in simp)
qed

lemma start_batch_building:
  assumes "start_batch now bb pre l1 = Ok bb'"
  shows "building bb'" and "current_txs bb' = []" and "held_root bb' = Some pre"
  using assms
  by (auto simp: start_batch_def building_def current_txs_def held_root_def Batch_new_def Let_def split: if_splits)

lemma seal_batch_Ok:
  assumes "seal_batch e now bb post = (bb', Ok batch)"
  shows "bt_transactions batch = current_txs bb" and "Some (bh_pre_state_root (bt_header batch)) = held_root bb"
    and "bh_post_state_root (bt_header batch) = post"
  using assms
  by (auto simp: seal_batch_def batch_seal_def current_txs_def held_root_def Let_def split: option.splits sum.splits if_splits)

lemma produce_batch_Ok:
  assumes "produce_batch e now q = (q', Ok batch)"
  obtains bb r where "start_batch now (sq_batch_builder q) (state_root (sq_state q)) (sq_l1_block_number q) = Ok bb"
    and "r = batch_loop e (sq_config q) (sq_l1_block_number q) (sq_mempool q) (sq_state q) bb [] 0 0"
    and "seal_batch e now (rn_builder r) (state_root (rn_state r)) = (sq_batch_builder q', Ok batch)"
    and "sq_state q' = rn_state r" and "sq_mempool q' = rn_mempool r" and "sq_config q' = sq_config q"
  using assms by (auto simp: produce_batch_def Let_def split: if_splits sum.splits prod.splits)

subsection \<open>The order of the queue\<close>

definition by_priority :: "PendingTransaction list \<Rightarrow> bool" where
  "by_priority xs = sorted_wrt (\<lambda>x y. pt_priority y \<le> pt_priority x) xs"

lemma set_insert_by_priority: "set (insert_by_priority p xs) = insert p (set xs)"
  by (induction xs) auto

lemma insert_by_priority_sorted: "by_priority xs \<Longrightarrow> by_priority (insert_by_priority p xs)"
proof (induction xs)
  case (Cons x xs)
  then show ?case
    by (auto simp: by_priority_def set_insert_by_priority not_less intro: order.trans less_imp_le)
qed (simp add: by_priority_def)

lemma batch_loop_suffix: "suffix (rn_mempool (batch_loop e config l1 mempool s bb processed gas failed)) mempool"
  by (induction e config l1 mempool s bb processed gas failed rule: batch_loop.induct)
    (auto simp: suffix_ConsI split: sum.split)

lemma by_priority_suffix: "by_priority xs \<Longrightarrow> suffix ys xs \<Longrightarrow> by_priority ys"
  by (auto simp: by_priority_def suffix_def sorted_wrt_append)

datatype seq_op = SubmitTx u64 L2Transaction | ForceInclude u64 L2Transaction u64 | Produce u64 | Rotate | UpdateL1 u64

fun seq_step :: "ext \<Rightarrow> Sequencer \<Rightarrow> seq_op \<Rightarrow> Sequencer" where
  "seq_step e q (SubmitTx now tx) = (case submit_transaction now q tx of Err _ \<Rightarrow> q | Ok (q', _) \<Rightarrow> q')"
| "seq_step e q (ForceInclude now tx l1) = (case force_include now q tx l1 of Err _ \<Rightarrow> q | Ok (q', _) \<Rightarrow> q')"
| "seq_step e q (Produce now) = fst (produce_batch e now q)"
| "seq_step e q Rotate = (case rotate_leader q of None \<Rightarrow> q | Some q' \<Rightarrow> q')"
| "seq_step e q (UpdateL1 block) = update_l1_block q block"

definition queue_inv :: "Sequencer \<Rightarrow> bool" where
  "queue_inv q = (qc_priority_ordering (sq_config q) \<longrightarrow> by_priority (sq_mempool q))"

lemma queue_inv_frame: "queue_inv q \<Longrightarrow> sq_config q' = sq_config q \<Longrightarrow> sq_mempool q' = sq_mempool q \<Longrightarrow> queue_inv q'"
  by (simp add: queue_inv_def)

lemma produce_batch_queue:
  "sq_config (fst (produce_batch e now q)) = sq_config q \<and> suffix (sq_mempool (fst (produce_batch e now q))) (sq_mempool q)"
  by (auto simp: produce_batch_def Let_def batch_loop_suffix split: sum.split prod.split)

lemma queue_inv_step:
  assumes inv: "queue_inv q"
  shows "queue_inv (seq_step e q op)"
proof (cases op)
  case (SubmitTx now tx)
  then show ?thesis
    using inv by (auto simp: queue_inv_def submit_transaction_def Let_def insert_by_priority_sorted and_then_def split: sum.split)
next
  case (ForceInclude now tx l1)
  have "x \<le> (- 1 :: u64)" for x by simp
  then show ?thesis
    using inv ForceInclude
    by (auto simp: queue_inv_def force_include_def with_force_inclusion_def by_priority_def and_then_def split: sum.split)
next
  case (Produce now)
  then show ?thesis
    using inv produce_batch_queue [of e now q] by_priority_suffix by (auto simp: queue_inv_def)
next
  case Rotate
  then show ?thesis
    using inv by (auto simp: rotate_leader_def Let_def div_u64_def intro: queue_inv_frame split: option.split)
next
  case (UpdateL1 block)
  then show ?thesis
    using inv by (auto simp: update_l1_block_def process_force_inclusions_def Let_def elim!: queue_inv_frame)
qed

lemma queue_inv_new: "queue_inv (Sequencer_new now config a stake endpoint s)"
  by (simp add: queue_inv_def Sequencer_new_def by_priority_def)

interpretation sequencer: machine "Sequencer_new now config a stake endpoint s" "seq_step e" queue_inv
  for now config a stake endpoint s e
  by unfold_locales (simp_all only: queue_inv_new queue_inv_step)

subsection \<open>Properties\<close>

text \<open>
  Executing transactions depends on the accounts only, not on the tree nor on the iteration order of any
  hash map.
\<close>

lemma get_account_updated: "get_account (update_account e s a acct) = (get_account s)(a := acct)"
  by (rule ext) simp

lemma apply_tx_accounts:
  assumes "get_account s = get_account t"
  shows "get_account (apply_tx e s tx) = get_account (apply_tx e t tx)"
  using assms
  by (simp add: apply_tx_def execute_transaction_def transfer_def increment_nonce_def credit_def debit_def
      get_account_updated and_then_def Let_def split: option.split)

lemma replay_accounts:
  "get_account s = get_account t \<Longrightarrow> get_account (replay e s txs) = get_account (replay e t txs)"
proof (induction txs arbitrary: s t)
  case (Cons tx txs)
  from Cons.IH [OF apply_tx_accounts [OF Cons.prems]] show ?case unfolding replay_def foldl_Cons .
qed (simp only: replay_def foldl_Nil)

text \<open>
  C11. A produced batch can be replayed: with a configured limit of at most 1000 transactions (the capacity
  of a batch), executing the transactions of the batch in order, on any state with the accounts of the
  sequencer before the batch, gives the accounts of the sequencer after it, whatever the iteration order of
  the hash maps of either. The header carries the roots the sequencer itself had before and after (another
  node may compute another root for the same accounts, since the root depends on the iteration order). The
  transactions were all in the queue, in this order, and there are no more of them than the limit.
\<close>

theorem batch_replays:
  assumes "produce_batch e now q = (q', Ok batch)" and "qc_max_batch_size (sq_config q) \<le> 1000"
    and "\<forall>a. get_account s a = get_account (sq_state q) a"
  shows "(\<forall>a. get_account (replay e s (bt_transactions batch)) a = get_account (sq_state q') a)
    \<and> bh_pre_state_root (bt_header batch) = state_root (sq_state q)
    \<and> bh_post_state_root (bt_header batch) = state_root (sq_state q')
    \<and> subseq (bt_transactions batch) (map pt_tx (sq_mempool q))
    \<and> length (bt_transactions batch) \<le> max 1 (qc_max_batch_size (sq_config q))"
proof -
  obtain bb r where bb: "start_batch now (sq_batch_builder q) (state_root (sq_state q)) (sq_l1_block_number q) = Ok bb"
    and r: "r = batch_loop e (sq_config q) (sq_l1_block_number q) (sq_mempool q) (sq_state q) bb [] 0 0"
    and seal: "seal_batch e now (rn_builder r) (state_root (rn_state r)) = (sq_batch_builder q', Ok batch)"
    and q': "sq_state q' = rn_state r"
    using produce_batch_Ok [OF assms(1)] by metis
  have "loop_ok e (sq_config q) (sq_state q) (state_root (sq_state q)) ([] @ map pt_tx (sq_mempool q)) r"
    unfolding r using start_batch_building [OF bb] assms(2)
    by (intro batch_loop_ok) (simp_all add: replay_def MAX_BATCH_SIZE_def)
  moreover have "get_account (replay e s txs) = get_account (replay e (sq_state q) txs)" for txs
    using assms(3) by (intro replay_accounts ext) simp
  ultimately show ?thesis
    using seal_batch_Ok [OF seal] by (simp add: loop_ok_def q')
qed

text \<open>A sequencer on its own with one transfer in its queue.\<close>

definition example_transfer :: L2Transaction where
  "example_transfer = (L2Transaction_transfer sample_ext (Address [1]) (Address [2]) 4 0)\<lparr>lt_signature := [1]\<rparr>"

definition example_sequencer :: Sequencer where
  "example_sequencer =
     (Sequencer_new 0 (SequencerConfig_default\<lparr>qc_mode := SingleMode\<rparr>) address_zero 0 []
        (credit sample_ext (L2State_new sample_ext) (Address [1]) 10))
       \<lparr>sq_mempool := [PendingTransaction_new 0 example_transfer]\<rparr>"

theorem batch_replays_witness:
  "\<exists>q' batch. produce_batch sample_ext 0 example_sequencer = (q', Ok batch)
    \<and> (\<forall>a. get_account (replay sample_ext (sq_state example_sequencer) (bt_transactions batch)) a
        = get_account (sq_state q') a)"
proof -
  have limit: "qc_max_batch_size (sq_config example_sequencer) = 1000"
    by (simp add: example_sequencer_def Sequencer_new_def SequencerConfig_default_def MAX_BATCH_SIZE_def)
  have leader: "is_leader example_sequencer" by (simp add: example_sequencer_def Sequencer_new_def)
  obtain bb where bb: "start_batch 0 (sq_batch_builder example_sequencer) (state_root (sq_state example_sequencer))
      (sq_l1_block_number example_sequencer) = Ok bb"
    by (simp add: example_sequencer_def Sequencer_new_def BatchBuilder_new_def start_batch_def Let_def)
  define r where "r = batch_loop sample_ext (sq_config example_sequencer) (sq_l1_block_number example_sequencer)
      (sq_mempool example_sequencer) (sq_state example_sequencer) bb [] 0 0"
  have "loop_ok sample_ext (sq_config example_sequencer) (sq_state example_sequencer) (state_root (sq_state example_sequencer))
      ([] @ map pt_tx (sq_mempool example_sequencer)) r"
    unfolding r_def using start_batch_building [OF bb] limit
    by (intro batch_loop_ok) (simp_all add: replay_def MAX_BATCH_SIZE_def)
  then obtain b where "bb_current (rn_builder r) = Some b" "bt_status b = BtBuilding"
    by (auto simp: loop_ok_def building_def split: option.splits)
  then obtain bb' batch where "seal_batch sample_ext 0 (rn_builder r) (state_root (rn_state r)) = (bb', Ok batch)"
    by (simp add: seal_batch_def batch_seal_def Let_def)
  then obtain q' where p: "produce_batch sample_ext 0 example_sequencer = (q', Ok batch)"
    using leader bb by (simp add: produce_batch_def Let_def r_def del: is_leader.simps)
  then show ?thesis using batch_replays [OF p] limit by auto
qed

text \<open>
  The queue of a sequencer that orders by priority is always sorted by falling gas price, with the forced
  transactions first, whatever is submitted, forced or taken out.
\<close>

theorem sequencer_queue_sorted:
  assumes "q = run (seq_step e) (Sequencer_new now config a stake endpoint s) ops" and "qc_priority_ordering (sq_config q)"
  shows "sorted_wrt (\<lambda>x y. pt_priority y \<le> pt_priority x) (sq_mempool q)"
proof -
  have "queue_inv q" unfolding assms(1) by (intro sequencer.inv_run sequencer.inv_init)
  then show ?thesis using assms(2) by (simp add: queue_inv_def by_priority_def)
qed

theorem sequencer_queue_sorted_witness:
  "sorted_wrt (\<lambda>x y. pt_priority y \<le> pt_priority x)
     (sq_mempool (run (seq_step sample_ext) (Sequencer_new 0 SequencerConfig_default address_zero 0 [] (L2State_new sample_ext))
       [UpdateL1 5]))"
  by (rule sequencer_queue_sorted [OF refl])
    (simp add: update_l1_block_def process_force_inclusions_def Sequencer_new_def SequencerConfig_default_def Let_def)

text \<open>
  What the source does not do: a forced transaction taken from the queue before its deadline is dropped, a
  transaction of the deposit type credits its own sender, and the gas cost wraps.
\<close>

lemma early_forced_dropped:
  assumes "not_yet_required config l1 p" and "gas < qc_max_batch_gas config"
  shows "batch_loop e config l1 [p] s bb processed gas failed = batch_loop e config l1 [] s bb processed gas failed"
  using assms by simp

lemma deposit_transaction_mints:
  assumes "lt_tx_type tx = 2"
  shows "execute_transaction e s tx = Ok (credit e s (lt_from tx) (lt_value tx), lt_gas_limit tx)"
  using assms by (simp add: execute_transaction_def)

lemma gas_cost_wraps:
  assumes "lt_gas_limit tx = 2 ^ 32" and "lt_gas_price tx = 2 ^ 32"
  shows "gas_cost tx = 0"
  using assms by (simp add: gas_cost_def)

end
