(* ===== verification/L2_Availability.thy ===== *)
theory L2_Availability
  imports L2_Batch
begin

section \<open>Data availability of the rollup\<close>

text \<open>
  \<open>pyrax-node/src/zkrollup/da.rs\<close>: the encoding of a batch for publication, its run-length compression,
  the commitment, and the manager that caches the data and follows submissions. Both loops of \<open>compress\<close>
  and the loop of \<open>decompress\<close> are written over the index, as in the source; a run length is a \<open>u8\<close>.
\<close>

subsection \<open>Providers, configuration, commitments\<close>

datatype DaProvider = L1Calldata | L1Blobs | Celestia | EigenDA | Avail | CustomDA

definition cost_per_byte :: "DaProvider \<Rightarrow> u64" where
  "cost_per_byte p = (case p of L1Calldata \<Rightarrow> 16 | _ \<Rightarrow> 1)"

definition finality_time :: "DaProvider \<Rightarrow> u64" where
  "finality_time p =
     (case p of L1Calldata \<Rightarrow> 900 | L1Blobs \<Rightarrow> 900 | Celestia \<Rightarrow> 12 | EigenDA \<Rightarrow> 12 | Avail \<Rightarrow> 20 | CustomDA \<Rightarrow> 60)"

datatype CommitmentScheme = KZG | Merkle | ReedSolomon

record DaConfig =
  dg_provider :: DaProvider
  dg_fallback :: "DaProvider option"
  dg_max_data_size :: nat
  dg_blob_size :: nat
  dg_retention_period :: u64
  dg_compression :: bool
  dg_commitment_scheme :: CommitmentScheme

definition DaConfig_default :: DaConfig where
  "DaConfig_default =
     \<lparr>dg_provider = L1Calldata, dg_fallback = Some Celestia, dg_max_data_size = 128 * 1024,
      dg_blob_size = 128 * 1024, dg_retention_period = 30 * 24 * 60 * 60, dg_compression = True,
      dg_commitment_scheme = KZG\<rparr>"

record DaCommitment =
  dc_commitment :: h256
  dc_data_root :: h256
  dc_provider :: DaProvider
  dc_data_size :: nat
  dc_blob_index :: "u64 option"
  dc_external_ref :: "string option"
  dc_timestamp :: u64
  dc_expires_at :: u64
  dc_availability_proof :: "u8 list option"

definition kzg_commitment :: "ext \<Rightarrow> u8 list \<Rightarrow> h256" where
  "kzg_commitment e data = h256_from_slice (ext_blake3 e (ascii_bytes ''KZG_COMMITMENT'' @ data))"

definition rs_commitment :: "ext \<Rightarrow> u8 list \<Rightarrow> h256" where
  "rs_commitment e data = h256_from_slice (ext_blake3 e (ascii_bytes ''RS_COMMITMENT'' @ data))"

function data_chunks :: "u8 list \<Rightarrow> u8 list list" where
  "data_chunks data = (if data = [] then [] else take 256 data # data_chunks (drop 256 data))"
  by pat_completeness auto
termination by (relation "measure length") auto

declare data_chunks.simps [simp del]

definition merkle_commitment :: "ext \<Rightarrow> u8 list \<Rightarrow> h256" where
  "merkle_commitment e data =
     (let chunks = data_chunks data in
      if chunks = [] then h256_zero
      else l2_root_loop e (map (\<lambda>chunk. h256_from_slice (ext_blake3 e chunk)) chunks) ! 0)"

definition compute_commitment :: "ext \<Rightarrow> u8 list \<Rightarrow> CommitmentScheme \<Rightarrow> h256" where
  "compute_commitment e data scheme =
     (case scheme of KZG \<Rightarrow> kzg_commitment e data | Merkle \<Rightarrow> merkle_commitment e data
      | ReedSolomon \<Rightarrow> rs_commitment e data)"

definition compute_data_root :: "ext \<Rightarrow> u8 list \<Rightarrow> h256" where
  "compute_data_root e data = h256_from_slice (ext_blake3 e data)"

definition DaCommitment_new :: "ext \<Rightarrow> u64 \<Rightarrow> u8 list \<Rightarrow> DaProvider \<Rightarrow> DaConfig \<Rightarrow> DaCommitment" where
  "DaCommitment_new e now data provider config =
     \<lparr>dc_commitment = compute_commitment e data (dg_commitment_scheme config),
      dc_data_root = compute_data_root e data, dc_provider = provider, dc_data_size = length data,
      dc_blob_index = None, dc_external_ref = None, dc_timestamp = now,
      dc_expires_at = now + dg_retention_period config, dc_availability_proof = None\<rparr>"

definition with_blob_index :: "DaCommitment \<Rightarrow> u64 \<Rightarrow> DaCommitment" where
  "with_blob_index c i = c\<lparr>dc_blob_index := Some i\<rparr>"

definition with_external_ref :: "DaCommitment \<Rightarrow> string \<Rightarrow> DaCommitment" where
  "with_external_ref c r = c\<lparr>dc_external_ref := Some r\<rparr>"

definition with_proof :: "DaCommitment \<Rightarrow> u8 list \<Rightarrow> DaCommitment" where
  "with_proof c p = c\<lparr>dc_availability_proof := Some p\<rparr>"

definition da_is_expired :: "u64 \<Rightarrow> DaCommitment \<Rightarrow> bool" where
  "da_is_expired now c = (dc_expires_at c < now)"

definition DaCommitment_verify :: "ext \<Rightarrow> DaCommitment \<Rightarrow> u8 list \<Rightarrow> CommitmentScheme \<Rightarrow> bool" where
  "DaCommitment_verify e c data scheme = (compute_commitment e data scheme = dc_commitment c)"

subsection \<open>The encoding of a batch\<close>

definition serialize_tx :: "L2Transaction \<Rightarrow> u8 list" where
  "serialize_tx tx =
     address_bytes (lt_from tx)
     @ (case lt_to tx of Some to' \<Rightarrow> 1 # address_bytes to' | None \<Rightarrow> [0])
     @ u64_to_le_bytes (lt_value tx) @ u64_to_le_bytes (lt_gas_limit tx) @ u64_to_le_bytes (lt_nonce tx)
     @ u32_to_le_bytes (of_nat (length (lt_data tx))) @ lt_data tx"

definition serialize_batch :: "Batch \<Rightarrow> u8 list" where
  "serialize_batch b =
     u64_to_le_bytes (bh_batch_number (bt_header b)) @ h256_bytes (bh_pre_state_root (bt_header b))
     @ h256_bytes (bh_post_state_root (bt_header b)) @ h256_bytes (bh_tx_root (bt_header b))
     @ u32_to_le_bytes (bh_tx_count (bt_header b))
     @ concat (map serialize_tx (bt_transactions b))"

subsection \<open>Compression\<close>

function run_count :: "u8 list \<Rightarrow> nat \<Rightarrow> u8 \<Rightarrow> u8 \<Rightarrow> u8" where
  "run_count data i byte count =
     (if i + unat count < length data \<and> data ! (i + unat count) = byte \<and> count < 255
      then run_count data i byte (count + 1) else count)"
  by pat_completeness auto
termination
proof (relation "measure (\<lambda>(data, i, byte, count). 255 - unat count)")
  fix data :: "u8 list" and i byte and count :: u8
  assume "i + unat count < length data \<and> data ! (i + unat count) = byte \<and> count < 255"
  then have "unat count < 255" by (simp add: word_less_nat_alt)
  then show "((data, i, byte, count + 1), data, i, byte, count) \<in> measure (\<lambda>(data, i, byte, count). 255 - unat count)"
    by (simp add: unat_word_ariths)
qed simp

declare run_count.simps [simp del]

function compress_loop :: "u8 list \<Rightarrow> nat \<Rightarrow> u8 list" where
  "compress_loop data i =
     (if i < length data then
        let byte = data ! i; count = run_count data i byte 1 in
        if 3 < count then [0xFF, count, byte] @ compress_loop data (i + unat count)
        else (if byte = 0xFF then [0xFF, 1, 0xFF] else [byte]) @ compress_loop data (i + 1)
      else [])"
  by pat_completeness auto
termination
  by (relation "measure (\<lambda>(data, i). length data - i)") (auto simp: word_less_nat_alt intro!: diff_less_mono2)

declare compress_loop.simps [simp del]

definition compress :: "u8 list \<Rightarrow> u8 list" where
  "compress data = compress_loop data 0"

function decompress_loop :: "u8 list \<Rightarrow> nat \<Rightarrow> u8 list" where
  "decompress_loop data i =
     (if i < length data then
        if data ! i = 0xFF \<and> i + 2 < length data
        then replicate (unat (data ! (i + 1))) (data ! (i + 2)) @ decompress_loop data (i + 3)
        else data ! i # decompress_loop data (i + 1)
      else [])"
  by pat_completeness auto
termination by (relation "measure (\<lambda>(data, i). length data - i)") auto

declare decompress_loop.simps [simp del]

definition decompress :: "u8 list \<Rightarrow> u8 list" where
  "decompress data = decompress_loop data 0"

lemma run_count_run:
  assumes "i + unat count \<le> length data" and "\<forall>j < unat count. data ! (i + j) = byte"
  shows "i + unat (run_count data i byte count) \<le> length data
    \<and> (\<forall>j < unat (run_count data i byte count). data ! (i + j) = byte)"
  using assms
proof (induction data i byte count rule: run_count.induct)
  case (1 data i byte count)
  show ?case
  proof (cases "i + unat count < length data \<and> data ! (i + unat count) = byte \<and> count < 255")
    case True
    then have "unat (count + 1) = unat count + 1" by (simp add: word_less_nat_alt unat_word_ariths)
    then show ?thesis using 1 True by (subst (1 2) run_count.simps) (simp add: less_Suc_eq)
  next
    case False
    then show ?thesis using 1(2,3) by (subst (1 2) run_count.simps) auto
  qed
qed

lemma drop_run:
  assumes "i + n \<le> length data" and "\<forall>j < n. data ! (i + j) = byte"
  shows "drop i data = replicate n byte @ drop (i + n) data"
proof -
  have "take n (drop i data) = replicate n byte"
    using assms by (intro nth_equalityI) simp_all
  then show ?thesis by (metis append_take_drop_id drop_drop add.commute)
qed

lemma decompress_escape:
  "decompress_loop (pre @ [0xFF, n, x] @ rest) (length pre)
     = replicate (unat n) x @ decompress_loop ((pre @ [0xFF, n, x]) @ rest) (length (pre @ [0xFF, n, x]))"
  by (subst decompress_loop.simps) (simp add: nth_append numeral_3_eq_3)

lemma decompress_literal:
  "x \<noteq> 0xFF \<Longrightarrow> decompress_loop (pre @ [x] @ rest) (length pre)
     = x # decompress_loop ((pre @ [x]) @ rest) (length (pre @ [x]))"
  by (subst decompress_loop.simps) (simp add: nth_append)

lemma decompress_compress_loop: "decompress_loop (pre @ compress_loop data i) (length pre) = drop i data"
proof (induction data i arbitrary: pre rule: compress_loop.induct)
  case (1 data i)
  show ?case
  proof (cases "i < length data")
    case True
    define byte where "byte = data ! i"
    define count where "count = run_count data i byte 1"
    have run: "i + unat count \<le> length data" "\<forall>j < unat count. data ! (i + j) = byte"
      using run_count_run [of i 1 data byte] True by (simp_all add: count_def byte_def)
    have here: "drop i data = byte # drop (i + 1) data" using True by (simp add: byte_def Cons_nth_drop_Suc)
    show ?thesis
    proof (cases "3 < count")
      case True
      note IH = "1.IH"(1) [OF \<open>i < length data\<close> refl refl, folded byte_def, folded count_def, OF True]
      have "compress_loop data i = [0xFF, count, byte] @ compress_loop data (i + unat count)"
        using True \<open>i < length data\<close> by (subst compress_loop.simps) (simp add: byte_def count_def Let_def)
      then show ?thesis
        using IH drop_run [OF run] by (simp only: decompress_escape)
    next
      case False
      note IH = "1.IH"(2) [OF \<open>i < length data\<close> refl refl, folded byte_def, folded count_def, OF False]
      have eq: "compress_loop data i = (if byte = 0xFF then [0xFF, 1, 0xFF] else [byte]) @ compress_loop data (i + 1)"
        using False \<open>i < length data\<close> by (subst compress_loop.simps) (simp add: byte_def count_def Let_def)
      show ?thesis
      proof (cases "byte = 0xFF")
        case True
        then have "compress_loop data i = [0xFF, 1, 0xFF] @ compress_loop data (i + 1)" using eq by simp
        then have "decompress_loop (pre @ compress_loop data i) (length pre) = replicate (unat (1 :: u8)) 0xFF @ drop (i + 1) data"
          by (simp only: decompress_escape IH)
        then show ?thesis using here True by simp
      next
        case False
        then have "compress_loop data i = [byte] @ compress_loop data (i + 1)" using eq by simp
        then have "decompress_loop (pre @ compress_loop data i) (length pre) = byte # drop (i + 1) data"
          by (simp only: decompress_literal [OF False] IH)
        then show ?thesis using here by simp
      qed
    qed
  next
    case False
    then show ?thesis by (subst compress_loop.simps, subst decompress_loop.simps) simp
  qed
qed

lemma decompress_compress: "decompress (compress data) = data"
  using decompress_compress_loop [of "[]" data 0] by (simp add: compress_def decompress_def)

lemma length_compress_loop: "length (compress_loop data i) \<le> 3 * (length data - i)"
proof (induction data i rule: compress_loop.induct)
  case (1 data i)
  show ?case
  proof (cases "i < length data")
    case True
    have "3 < run_count data i (data ! i) 1 \<Longrightarrow> 3 < unat (run_count data i (data ! i) 1)"
      by (simp add: word_less_nat_alt)
    then show ?thesis
      using 1 True by (subst compress_loop.simps) (force simp: Let_def)
  qed (simp add: compress_loop.simps)
qed

subsection \<open>The manager\<close>

record DaSubmission =
  dm_id :: h256
  dm_batch_hash :: h256
  dm_commitment :: DaCommitment
  dm_l1_tx_hash :: "h256 option"
  dm_cost :: u64
  dm_submitted_at :: u64
  dm_confirmed_at :: "u64 option"
  dm_confirmed :: bool

record DaStats =
  dt_submissions :: u64
  dt_confirmations :: u64
  dt_total_data_size :: u64
  dt_total_cost :: u64
  dt_cleanups :: u64

definition DaStats_default :: DaStats where
  "DaStats_default = \<lparr>dt_submissions = 0, dt_confirmations = 0, dt_total_data_size = 0, dt_total_cost = 0, dt_cleanups = 0\<rparr>"

record DataAvailability =
  da_config :: DaConfig
  da_pending :: "(h256, DaSubmission) hashmap"
  da_confirmed :: "(h256, DaSubmission) hashmap"
  da_by_batch :: "(h256, h256) hashmap"
  da_data_cache :: "(h256, u8 list) hashmap"
  da_stats :: DaStats

datatype DaError =
    DataTooLarge nat nat
  | SubmissionNotFound h256
  | DataNotFound
  | DataExpired
  | SerializationError string
  | CompressionError string
  | ProviderError string

definition DataAvailability_new :: "DaConfig \<Rightarrow> DataAvailability" where
  "DataAvailability_new config =
     \<lparr>da_config = config, da_pending = [], da_confirmed = [], da_by_batch = [], da_data_cache = [],
      da_stats = DaStats_default\<rparr>"

definition calculate_cost :: "DataAvailability \<Rightarrow> nat \<Rightarrow> u64" where
  "calculate_cost d n = of_nat n * cost_per_byte (dg_provider (da_config d))"

definition submit_batch :: "ext \<Rightarrow> u64 \<Rightarrow> DataAvailability \<Rightarrow> Batch \<Rightarrow> DaError + (DataAvailability \<times> DaSubmission)" where
  "submit_batch e now d batch =
     (let config = da_config d; data = serialize_batch batch in
      if dg_max_data_size config < length data then Err (DataTooLarge (length data) (dg_max_data_size config))
      else let final_data = (if dg_compression config then compress data else data);
               commitment = DaCommitment_new e now final_data (dg_provider config) config;
               submission = \<lparr>dm_id = dc_commitment commitment, dm_batch_hash = Batch_hash e batch,
                 dm_commitment = commitment, dm_l1_tx_hash = None, dm_cost = calculate_cost d (length final_data),
                 dm_submitted_at = now, dm_confirmed_at = None, dm_confirmed = False\<rparr>
           in Ok (d\<lparr>da_pending := hm_insert (dm_id submission) submission (da_pending d),
                    da_by_batch := hm_insert (Batch_hash e batch) (dm_id submission) (da_by_batch d),
                    da_data_cache := hm_insert (dc_data_root commitment) final_data (da_data_cache d),
                    da_stats := (da_stats d)\<lparr>dt_submissions := dt_submissions (da_stats d) + 1,
                      dt_total_data_size := dt_total_data_size (da_stats d) + of_nat (length data)\<rparr>\<rparr>,
                  submission))"

definition confirm_submission :: "u64 \<Rightarrow> DataAvailability \<Rightarrow> h256 \<Rightarrow> h256 option \<Rightarrow> DaError + DataAvailability" where
  "confirm_submission now d submission_id l1_tx_hash =
     (case hm_get (da_pending d) submission_id of
        None \<Rightarrow> Err (SubmissionNotFound submission_id)
      | Some s \<Rightarrow>
          Ok (d\<lparr>da_pending := hm_remove submission_id (da_pending d),
                da_confirmed := hm_insert submission_id
                  (s\<lparr>dm_l1_tx_hash := l1_tx_hash, dm_confirmed_at := Some now, dm_confirmed := True\<rparr>) (da_confirmed d),
                da_stats := (da_stats d)\<lparr>dt_confirmations := dt_confirmations (da_stats d) + 1\<rparr>\<rparr>))"

definition get_data :: "DataAvailability \<Rightarrow> h256 \<Rightarrow> u8 list option" where
  "get_data d data_root =
     map_option (\<lambda>data. if dg_compression (da_config d) then decompress data else data)
       (hm_get (da_data_cache d) data_root)"

definition verify_availability :: "ext \<Rightarrow> u64 \<Rightarrow> DataAvailability \<Rightarrow> DaCommitment \<Rightarrow> DaError + bool" where
  "verify_availability e now d c =
     (case hm_get (da_data_cache d) (dc_data_root c) of
        Some data \<Rightarrow> Ok (DaCommitment_verify e c data (dg_commitment_scheme (da_config d)))
      | None \<Rightarrow> if da_is_expired now c then Err DataExpired else Ok False)"

definition generate_kzg_proof :: "ext \<Rightarrow> u8 list \<Rightarrow> u8 list" where
  "generate_kzg_proof e data = ext_blake3 e (ascii_bytes ''KZG_PROOF'' @ data)"

definition da_generate_merkle_proof :: "ext \<Rightarrow> u8 list \<Rightarrow> u8 list" where
  "da_generate_merkle_proof e data = ext_blake3 e (ascii_bytes ''MERKLE_PROOF'' @ data)"

definition generate_rs_proof :: "ext \<Rightarrow> u8 list \<Rightarrow> u8 list" where
  "generate_rs_proof e data = ext_blake3 e (ascii_bytes ''RS_PROOF'' @ data)"

definition da_generate_proof :: "ext \<Rightarrow> DataAvailability \<Rightarrow> DaCommitment \<Rightarrow> DaError + u8 list" where
  "da_generate_proof e d c =
     (case hm_get (da_data_cache d) (dc_data_root c) of
        None \<Rightarrow> Err DataNotFound
      | Some data \<Rightarrow> Ok (case dg_commitment_scheme (da_config d) of
          KZG \<Rightarrow> generate_kzg_proof e data | Merkle \<Rightarrow> da_generate_merkle_proof e data
        | ReedSolomon \<Rightarrow> generate_rs_proof e data))"

definition get_by_batch :: "DataAvailability \<Rightarrow> h256 \<Rightarrow> DaSubmission option" where
  "get_by_batch d batch_hash =
     (case hm_get (da_by_batch d) batch_hash of
        None \<Rightarrow> None
      | Some i \<Rightarrow> (case hm_get (da_confirmed d) i of Some s \<Rightarrow> Some s | None \<Rightarrow> hm_get (da_pending d) i))"

text \<open>\<open>retain(|_, _| true)\<close> keeps every entry.\<close>

definition cleanup_expired :: "DataAvailability \<Rightarrow> DataAvailability" where
  "cleanup_expired d = d\<lparr>da_stats := (da_stats d)\<lparr>dt_cleanups := dt_cleanups (da_stats d) + 1\<rparr>\<rparr>"

subsection \<open>Every string of the cache is under its root\<close>

datatype da_op = DaSubmit u64 Batch | DaConfirm u64 h256 "h256 option" | DaCleanup

definition da_step :: "ext \<Rightarrow> DataAvailability \<Rightarrow> da_op \<Rightarrow> DataAvailability" where
  "da_step e d x =
     (case x of
        DaSubmit now batch \<Rightarrow> (case submit_batch e now d batch of Err _ \<Rightarrow> d | Ok (d', _) \<Rightarrow> d')
      | DaConfirm now i tx \<Rightarrow> ok_or d (confirm_submission now d i tx)
      | DaCleanup \<Rightarrow> cleanup_expired d)"

definition published :: "DaConfig \<Rightarrow> Batch \<Rightarrow> u8 list" where
  "published config b = (if dg_compression config then compress (serialize_batch b) else serialize_batch b)"

definition da_inv :: "ext \<Rightarrow> DaConfig \<Rightarrow> DataAvailability \<Rightarrow> bool" where
  "da_inv e config d \<longleftrightarrow> da_config d = config
     \<and> (\<forall>r data. hm_get (da_data_cache d) r = Some data \<longrightarrow> r = compute_data_root e data
          \<and> (\<exists>b. data = published config b))
     \<and> (\<forall>i s. hm_get (da_pending d) i = Some s \<or> hm_get (da_confirmed d) i = Some s \<longrightarrow>
          dm_id s = i \<and> hm_contains (da_data_cache d) (dc_data_root (dm_commitment s)))"

lemma submit_batch_Ok:
  assumes "submit_batch e now d b = Ok (d', s)"
  shows "length (serialize_batch b) \<le> dg_max_data_size (da_config d)"
    and "da_config d' = da_config d" and "da_confirmed d' = da_confirmed d"
    and "da_data_cache d' = hm_insert (compute_data_root e (published (da_config d) b)) (published (da_config d) b) (da_data_cache d)"
    and "da_pending d' = hm_insert (dm_id s) s (da_pending d)"
    and "dm_commitment s = DaCommitment_new e now (published (da_config d) b) (dg_provider (da_config d)) (da_config d)"
  using assms by (auto simp: submit_batch_def published_def DaCommitment_new_def Let_def split: if_splits)

lemma da_inv_submit:
  assumes inv: "da_inv e config d" and "submit_batch e now d b = Ok (d', s)"
  shows "da_inv e config d'"
proof -
  note s = submit_batch_Ok [OF assms(2)]
  have root: "dc_data_root (dm_commitment s) = compute_data_root e (published (da_config d) b)"
    by (simp add: s(6) DaCommitment_new_def)
  have "dm_id s' = i \<and> hm_contains (da_data_cache d') (dc_data_root (dm_commitment s'))"
    if "hm_get (da_pending d') i = Some s' \<or> hm_get (da_confirmed d') i = Some s'" for i s'
    using inv that root unfolding s(3-5)
    by (auto simp: da_inv_def split: if_splits)
  then show ?thesis
    using inv unfolding da_inv_def s(2,4) by (auto split: if_splits)
qed

lemma da_inv_step: "da_inv e config d \<Longrightarrow> da_inv e config (da_step e d x)"
proof (cases x)
  case (DaSubmit now b)
  assume "da_inv e config d"
  then show ?thesis
    using da_inv_submit by (auto simp: DaSubmit da_step_def split: sum.split)
qed (auto simp: da_step_def da_inv_def confirm_submission_def cleanup_expired_def split: option.split if_splits)

interpretation availability: machine "DataAvailability_new config" "da_step e" "da_inv e config"
  by unfold_locales (simp add: da_inv_def DataAvailability_new_def, rule da_inv_step)

text \<open>A root that is cached stays cached.\<close>

lemma cache_grows: "hm_contains (da_data_cache d) r \<Longrightarrow> hm_contains (da_data_cache (run (da_step e) d ops)) r"
proof (induction ops arbitrary: d)
  case (Cons x ops)
  have "hm_contains (da_data_cache (da_step e d x)) r"
  proof (cases x)
    case (DaSubmit now b)
    then show ?thesis
      using Cons.prems submit_batch_Ok(4) [of e now d b] by (auto simp: da_step_def split: sum.split)
  qed (use Cons.prems in \<open>auto simp: da_step_def confirm_submission_def cleanup_expired_def split: option.split\<close>)
  then show ?case using Cons.IH by simp
qed simp

subsection \<open>What the encoding determines\<close>

definition publishable :: "Batch \<Rightarrow> bool" where
  "publishable b \<longleftrightarrow> wf_h256 (bh_pre_state_root (bt_header b)) \<and> wf_h256 (bh_post_state_root (bt_header b))
     \<and> wf_h256 (bh_tx_root (bt_header b)) \<and> bh_tx_count (bt_header b) = of_nat (length (bt_transactions b))
     \<and> length (bt_transactions b) < 2 ^ 32
     \<and> (\<forall>tx \<in> set (bt_transactions b). wf_address (lt_from tx) \<and> (\<forall>a. lt_to tx = Some a \<longrightarrow> wf_address a)
          \<and> length (lt_data tx) < 2 ^ 32)"

definition published_fields :: "L2Transaction \<Rightarrow> address \<times> address option \<times> u64 \<times> u64 \<times> u64 \<times> u8 list" where
  "published_fields tx = (lt_from tx, lt_to tx, lt_value tx, lt_gas_limit tx, lt_nonce tx, lt_data tx)"

definition enc_fields :: "address \<times> address option \<times> u64 \<times> u64 \<times> u64 \<times> u8 list \<Rightarrow> u8 list" where
  "enc_fields = (\<lambda>(sender, to', v, gas, n, data).
     address_bytes sender @ (case to' of Some a \<Rightarrow> 1 # address_bytes a | None \<Rightarrow> [0])
     @ u64_to_le_bytes v @ u64_to_le_bytes gas @ u64_to_le_bytes n @ u32_to_le_bytes (of_nat (length data)) @ data)"

definition fields_ok :: "address \<times> address option \<times> u64 \<times> u64 \<times> u64 \<times> u8 list \<Rightarrow> bool" where
  "fields_ok = (\<lambda>(sender, to', v, gas, n, data).
     wf_address sender \<and> (\<forall>a. to' = Some a \<longrightarrow> wf_address a) \<and> length data < 2 ^ 32)"

lemma serialize_tx_fields: "serialize_tx = enc_fields \<circ> published_fields"
  by (simp add: fun_eq_iff serialize_tx_def enc_fields_def published_fields_def)

lemma enc_fields_prefix_free:
  assumes ok: "fields_ok x" "fields_ok y" and eq: "enc_fields x @ r = enc_fields y @ r'"
  shows "x = y \<and> r = r'"
proof -
  obtain f t v g n d where x: "x = (f, t, v, g, n, d)" by (cases x) auto
  obtain f' t' v' g' n' d' where y: "y = (f', t', v', g', n', d')" by (cases y) auto
  let ?to = "\<lambda>t. case t of Some a \<Rightarrow> 1 # address_bytes a | None \<Rightarrow> [0 :: u8]"
  have len: "length (address_bytes f) = length (address_bytes f')"
    using ok by (simp add: x y fields_ok_def wf_address_def)
  then have f: "address_bytes f = address_bytes f'"
    and tail: "?to t @ u64_to_le_bytes v @ u64_to_le_bytes g @ u64_to_le_bytes n @ u32_to_le_bytes (of_nat (length d)) @ d @ r
      = ?to t' @ u64_to_le_bytes v' @ u64_to_le_bytes g' @ u64_to_le_bytes n' @ u32_to_le_bytes (of_nat (length d')) @ d' @ r'"
    using eq by (simp_all add: x y enc_fields_def)
  have "t = t' \<and> u64_to_le_bytes v @ u64_to_le_bytes g @ u64_to_le_bytes n @ u32_to_le_bytes (of_nat (length d)) @ d @ r
      = u64_to_le_bytes v' @ u64_to_le_bytes g' @ u64_to_le_bytes n' @ u32_to_le_bytes (of_nat (length d')) @ d' @ r'"
    using tail ok by (cases t; cases t') (auto simp: x y fields_ok_def wf_address_def intro: address.expand)
  moreover from this have "v = v'" "g = g'" "n = n'"
    "u32_to_le_bytes (of_nat (length d)) @ d @ r = u32_to_le_bytes (of_nat (length d')) @ d' @ r'"
    by simp_all
  moreover have "d = d' \<and> r = r'"
    using calculation(5) ok by (intro length_prefixed) (simp_all add: x y fields_ok_def)
  ultimately show ?thesis using f by (simp add: x y address.expand)
qed

lemma serialize_batch_inject:
  assumes ok: "publishable b" "publishable b'" and eq: "serialize_batch b = serialize_batch b'"
  shows "bh_batch_number (bt_header b) = bh_batch_number (bt_header b')"
    and "bh_pre_state_root (bt_header b) = bh_pre_state_root (bt_header b')"
    and "bh_post_state_root (bt_header b) = bh_post_state_root (bt_header b')"
    and "bh_tx_root (bt_header b) = bh_tx_root (bt_header b')"
    and "map published_fields (bt_transactions b) = map published_fields (bt_transactions b')"
proof -
  have lens: "length (h256_bytes (bh_pre_state_root (bt_header b))) = length (h256_bytes (bh_pre_state_root (bt_header b')))"
    "length (h256_bytes (bh_post_state_root (bt_header b))) = length (h256_bytes (bh_post_state_root (bt_header b')))"
    "length (h256_bytes (bh_tx_root (bt_header b))) = length (h256_bytes (bh_tx_root (bt_header b')))"
    using ok by (simp_all add: publishable_def wf_h256_def)
  have parts: "bh_batch_number (bt_header b) = bh_batch_number (bt_header b')"
    "h256_bytes (bh_pre_state_root (bt_header b)) = h256_bytes (bh_pre_state_root (bt_header b'))"
    "h256_bytes (bh_post_state_root (bt_header b)) = h256_bytes (bh_post_state_root (bt_header b'))"
    "h256_bytes (bh_tx_root (bt_header b)) = h256_bytes (bh_tx_root (bt_header b'))"
    "bh_tx_count (bt_header b) = bh_tx_count (bt_header b')"
    "concat (map serialize_tx (bt_transactions b)) = concat (map serialize_tx (bt_transactions b'))"
    using eq lens by (simp_all add: serialize_batch_def)
  then show "bh_batch_number (bt_header b) = bh_batch_number (bt_header b')"
    "bh_pre_state_root (bt_header b) = bh_pre_state_root (bt_header b')"
    "bh_post_state_root (bt_header b) = bh_post_state_root (bt_header b')"
    "bh_tx_root (bt_header b) = bh_tx_root (bt_header b')"
    by (simp_all add: h256.expand)
  have "length (bt_transactions b) = length (bt_transactions b')"
    using parts(5) ok by (intro unat_lengths) (simp_all add: publishable_def)
  moreover have "set (map published_fields (bt_transactions b)) \<subseteq> Collect fields_ok"
    "set (map published_fields (bt_transactions b')) \<subseteq> Collect fields_ok"
    using ok by (auto simp: publishable_def published_fields_def fields_ok_def)
  moreover have "concat (map enc_fields (map published_fields (bt_transactions b))) @ []
      = concat (map enc_fields (map published_fields (bt_transactions b'))) @ []"
    using parts(6) by (simp add: serialize_tx_fields comp_assoc)
  ultimately show "map published_fields (bt_transactions b) = map published_fields (bt_transactions b')"
    using concat_prefix_free [of "Collect fields_ok" enc_fields] enc_fields_prefix_free
    by (metis (no_types, lifting) length_map mem_Collect_eq)
qed

subsection \<open>Properties\<close>

text \<open>
  Compression is lossless: decompressing what \<open>compress\<close> wrote gives the data back, for every string of
  bytes, and the compressed form is at most three times as long.
\<close>

theorem compress_round_trip: "decompress (compress data) = data \<and> length (compress data) \<le> 3 * length data"
  using decompress_compress length_compress_loop [of data 0] by (simp add: compress_def)

text \<open>
  C28. Published data stays available: after an accepted submission, whatever the manager does later, the
  data under the root of its commitment is the encoding of the submitted batch, the commitment verifies,
  and the encoding determines the number, the roots and the transactions' published fields of the batch,
  when BLAKE3 separates the strings that were published.
\<close>

theorem published_batch_recoverable:
  assumes "d = run (da_step e) (DataAvailability_new config) before" and "submit_batch e now d b = Ok (d', s)"
    and "later = run (da_step e) d' ops" and "publishable b"
    and "\<And>data. hm_get (da_data_cache later) (dc_data_root (dm_commitment s)) = Some data \<Longrightarrow>
        separates e [data, published config b]"
  shows "\<exists>data. get_data later (dc_data_root (dm_commitment s)) = Some data \<and> data = serialize_batch b
    \<and> verify_availability e now' later (dm_commitment s) = Ok True
    \<and> (\<forall>b'. publishable b' \<longrightarrow> serialize_batch b' = data \<longrightarrow>
         bh_batch_number (bt_header b') = bh_batch_number (bt_header b)
         \<and> bh_pre_state_root (bt_header b') = bh_pre_state_root (bt_header b)
         \<and> bh_post_state_root (bt_header b') = bh_post_state_root (bt_header b)
         \<and> map published_fields (bt_transactions b') = map published_fields (bt_transactions b))"
proof -
  have inv: "da_inv e config d" unfolding assms(1) by (intro availability.inv_run availability.inv_init)
  then have config: "da_config d = config" by (simp add: da_inv_def)
  have inv': "da_inv e config later"
    unfolding assms(3) using da_inv_submit [OF inv assms(2)] by (rule availability.inv_run)
  note s = submit_batch_Ok [OF assms(2), unfolded config]
  have root: "dc_data_root (dm_commitment s) = compute_data_root e (published config b)"
    by (simp add: s(6) DaCommitment_new_def)
  have "hm_contains (da_data_cache d') (dc_data_root (dm_commitment s))" by (simp add: s(4) root)
  then obtain data where data: "hm_get (da_data_cache later) (dc_data_root (dm_commitment s)) = Some data"
    using cache_grows [of d' _ e ops] by (auto simp: assms(3) hm_contains_def)
  then have "dc_data_root (dm_commitment s) = compute_data_root e data"
    using inv' unfolding da_inv_def by blast
  then have "h256_from_slice (ext_blake3 e data) = h256_from_slice (ext_blake3 e (published config b))"
    using root by (simp add: compute_data_root_def)
  then have same: "data = published config b"
    by (rule separatesD [OF assms(5) [OF data], rotated 2]) simp_all
  have config': "da_config later = config" using inv' by (simp add: da_inv_def)
  have "get_data later (dc_data_root (dm_commitment s)) = Some (serialize_batch b)"
    using data by (simp add: get_data_def config' same published_def decompress_compress)
  moreover have "verify_availability e now' later (dm_commitment s) = Ok True"
    using data by (simp add: verify_availability_def config' same DaCommitment_verify_def s(6) DaCommitment_new_def)
  ultimately show ?thesis using serialize_batch_inject [OF _ assms(4)] by blast
qed

definition example_l2_batch :: Batch where
  "example_l2_batch = (Batch_new 0 1 h256_zero h256_zero address_zero 0)\<lparr>bt_transactions := [], bt_status := BtSealed\<rparr>"

theorem published_batch_recoverable_witness:
  "\<exists>d s. submit_batch sample_ext 0 (DataAvailability_new DaConfig_default) example_l2_batch = Ok (d, s)
    \<and> get_data d (dc_data_root (dm_commitment s)) = Some (serialize_batch example_l2_batch)"
proof -
  have len: "length (serialize_batch example_l2_batch) = 108"
    by (simp add: serialize_batch_def example_l2_batch_def Batch_new_def h256_zero_def)
  then obtain d s where s: "submit_batch sample_ext 0 (DataAvailability_new DaConfig_default) example_l2_batch = Ok (d, s)"
    by (simp add: submit_batch_def DataAvailability_new_def DaConfig_default_def Let_def)
  note parts = submit_batch_Ok [OF s]
  have "separates sample_ext [data, published DaConfig_default example_l2_batch]"
    if "hm_get (da_data_cache (run (da_step sample_ext) d [])) (dc_data_root (dm_commitment s)) = Some data" for data
    using that by (simp add: parts(4,6) DaCommitment_new_def DataAvailability_new_def separates_def)
  moreover have "publishable example_l2_batch"
    by (simp add: publishable_def example_l2_batch_def Batch_new_def)
  ultimately show ?thesis
    using published_batch_recoverable [of _ sample_ext DaConfig_default "[]" 0 example_l2_batch d s _ "[]"] s by auto
qed

text \<open>
  What the code leaves out. The size limit is checked before compression, which can make the data longer:
  a string of alternating \<open>0xFF\<close> and other bytes doubles. The encoding has neither the gas price, the type
  nor the signature of a transaction, so batches that differ in them publish the same data.
\<close>

lemma compress_can_expand: "length (compress [0xFF, 0, 0xFF, 0]) = 8"
  by (simp add: compress_def compress_loop.simps run_count.simps Let_def)

lemma serialize_tx_omits: "serialize_tx (tx\<lparr>lt_gas_price := p, lt_tx_type := ty, lt_signature := sig\<rparr>) = serialize_tx tx"
  by (simp add: serialize_tx_def)

end
