(* ===== verification/L2_Prover.thy ===== *)
theory L2_Prover
  imports L2_State
begin

section \<open>Proofs of the rollup\<close>

text \<open>
  \<open>pyrax-node/src/zkrollup/prover.rs\<close> and \<open>verifier.rs\<close>: the queue of proof requests, the generation of a
  proof for each of the four proof systems, and their verification. In both files the cryptographic steps
  are placeholders: the helpers of the prover return zero bytes of the right length, those of the verifier
  return true. They are translated as they stand, and since none of them fails they are functions without
  an error. The clock and the measured durations are arguments; \<open>time_factor\<close>, a table of floating-point
  constants that nothing reads, is left out.
\<close>

subsection \<open>Proofs and requests\<close>

definition PROOF_TIMEOUT_SECS :: u64 where "PROOF_TIMEOUT_SECS = 600"

datatype ProofType = Stark | Snark | Plonk | Groth16

definition expected_size :: "ProofType \<Rightarrow> nat" where
  "expected_size t = (case t of Stark \<Rightarrow> 200000 | Snark \<Rightarrow> 500 | Plonk \<Rightarrow> 1000 | Groth16 \<Rightarrow> 200)"

definition proof_type_byte :: "ProofType \<Rightarrow> u8" where
  "proof_type_byte t = (case t of Stark \<Rightarrow> 0 | Snark \<Rightarrow> 1 | Plonk \<Rightarrow> 2 | Groth16 \<Rightarrow> 3)"

record Proof =
  pf_proof_type :: ProofType
  pf_data :: "u8 list"
  pf_public_inputs :: "h256 list"
  pf_batch_hash :: h256
  pf_pre_state_root :: h256
  pf_post_state_root :: h256
  pf_prover :: address
  pf_generated_at :: u64
  pf_generation_time_ms :: u64
  pf_proof_hash :: h256

definition Proof_compute_hash :: "ext \<Rightarrow> Proof \<Rightarrow> h256" where
  "Proof_compute_hash e p =
     h256_from_slice (ext_blake3 e
       ([proof_type_byte (pf_proof_type p)] @ pf_data p @ concat (map h256_bytes (pf_public_inputs p))
        @ h256_bytes (pf_batch_hash p) @ h256_bytes (pf_pre_state_root p) @ h256_bytes (pf_post_state_root p)))"

definition verify_size :: "Proof \<Rightarrow> bool" where
  "verify_size p = (length (pf_data p) \<le> expected_size (pf_proof_type p) * 2)"

record ProverConfig =
  pc_proof_type :: ProofType
  pc_num_provers :: u32
  pc_timeout_secs :: u64
  pc_use_gpu :: bool
  pc_gpu_device :: u32
  pc_memory_limit_mb :: u64

definition ProverConfig_default :: ProverConfig where
  "ProverConfig_default =
     \<lparr>pc_proof_type = Plonk, pc_num_provers = 4, pc_timeout_secs = PROOF_TIMEOUT_SECS, pc_use_gpu = True,
      pc_gpu_device = 0, pc_memory_limit_mb = 16384\<rparr>"

datatype ProofRequestStatus = PrQueued | PrProving | PrCompleted | PrFailed | PrTimedOut

record ProofRequest =
  pr_id :: h256
  pr_batch_hash :: h256
  pr_transition :: StateTransition
  pr_status :: ProofRequestStatus
  pr_proof :: "Proof option"
  pr_error :: "string option"
  pr_created_at :: u64
  pr_started_at :: "u64 option"
  pr_completed_at :: "u64 option"
  pr_assigned_prover :: "u32 option"

definition request_generate_id :: "ext \<Rightarrow> u64 \<Rightarrow> h256 \<Rightarrow> h256" where
  "request_generate_id e now batch_hash =
     h256_from_slice (ext_blake3 e (h256_bytes batch_hash @ u64_to_le_bytes now))"

definition ProofRequest_new :: "ext \<Rightarrow> u64 \<Rightarrow> h256 \<Rightarrow> StateTransition \<Rightarrow> ProofRequest" where
  "ProofRequest_new e now batch_hash transition =
     \<lparr>pr_id = request_generate_id e now batch_hash, pr_batch_hash = batch_hash, pr_transition = transition,
      pr_status = PrQueued, pr_proof = None, pr_error = None, pr_created_at = now, pr_started_at = None,
      pr_completed_at = None, pr_assigned_prover = None\<rparr>"

definition pr_start :: "u64 \<Rightarrow> ProofRequest \<Rightarrow> u32 \<Rightarrow> ProofRequest" where
  "pr_start now r prover_id =
     r\<lparr>pr_status := PrProving, pr_started_at := Some now, pr_assigned_prover := Some prover_id\<rparr>"

definition pr_complete :: "u64 \<Rightarrow> ProofRequest \<Rightarrow> Proof \<Rightarrow> ProofRequest" where
  "pr_complete now r proof = r\<lparr>pr_status := PrCompleted, pr_completed_at := Some now, pr_proof := Some proof\<rparr>"

definition pr_fail :: "u64 \<Rightarrow> ProofRequest \<Rightarrow> string \<Rightarrow> ProofRequest" where
  "pr_fail now r error = r\<lparr>pr_status := PrFailed, pr_completed_at := Some now, pr_error := Some error\<rparr>"

definition check_timeout :: "u64 \<Rightarrow> ProofRequest \<Rightarrow> u64 \<Rightarrow> ProofRequest \<times> bool" where
  "check_timeout now r timeout_secs =
     (if pr_status r \<noteq> PrProving then (r, False)
      else case pr_started_at r of
        None \<Rightarrow> (r, False)
      | Some started \<Rightarrow>
          if timeout_secs < now - started
          then (r\<lparr>pr_status := PrTimedOut, pr_completed_at := Some now,
                  pr_error := Some ''Proof generation timed out''\<rparr>, True)
          else (r, False))"

definition pr_duration :: "ProofRequest \<Rightarrow> u64 option" where
  "pr_duration r =
     (case (pr_started_at r, pr_completed_at r) of (Some start, Some stop) \<Rightarrow> Some (stop - start) | _ \<Rightarrow> None)"

subsection \<open>The prover\<close>

record CircuitParams =
  ci_proof_type :: ProofType
  ci_constraint_count :: nat
  ci_fri_layers :: nat
  ci_num_queries :: nat
  ci_verification_key :: "u8 list"

definition CircuitParams_generate :: "ProofType \<Rightarrow> CircuitParams" where
  "CircuitParams_generate t =
     (let (constraint_count, fri_layers, num_queries) =
        (case t of Stark \<Rightarrow> (2 ^ 20, 10, 40) | Snark \<Rightarrow> (2 ^ 18, 0, 0) | Plonk \<Rightarrow> (2 ^ 18, 0, 0) | Groth16 \<Rightarrow> (2 ^ 16, 0, 0))
      in \<lparr>ci_proof_type = t, ci_constraint_count = constraint_count, ci_fri_layers = fri_layers,
          ci_num_queries = num_queries, ci_verification_key = []\<rparr>)"

record ProverStats =
  ps_requests_queued :: u64
  ps_proofs_generated :: u64
  ps_total_proving_time_ms :: u64
  ps_timeouts :: u64
  ps_failures :: u64

definition ProverStats_default :: ProverStats where
  "ProverStats_default =
     \<lparr>ps_requests_queued = 0, ps_proofs_generated = 0, ps_total_proving_time_ms = 0, ps_timeouts = 0, ps_failures = 0\<rparr>"

record ZkProver =
  zp_config :: ProverConfig
  zp_address :: address
  zp_queue :: "ProofRequest list"
  zp_active :: "(h256, ProofRequest) hashmap"
  zp_proofs :: "(h256, Proof) hashmap"
  zp_stats :: ProverStats
  zp_circuit_params :: "CircuitParams option"

datatype ProverError =
    NotInitialized
  | RequestNotFound h256
  | ProofGenerationFailed string
  | InvalidWitness string
  | ConstraintError string
  | ProverTimeout
  | GpuError string

definition ZkProver_new :: "ProverConfig \<Rightarrow> address \<Rightarrow> ZkProver" where
  "ZkProver_new config addr =
     \<lparr>zp_config = config, zp_address = addr, zp_queue = [], zp_active = [], zp_proofs = [],
      zp_stats = ProverStats_default, zp_circuit_params = None\<rparr>"

definition prover_initialize :: "ZkProver \<Rightarrow> ZkProver" where
  "prover_initialize z = z\<lparr>zp_circuit_params := Some (CircuitParams_generate (pc_proof_type (zp_config z)))\<rparr>"

definition submit_request :: "ext \<Rightarrow> u64 \<Rightarrow> ZkProver \<Rightarrow> h256 \<Rightarrow> StateTransition \<Rightarrow> ZkProver \<times> h256" where
  "submit_request e now z batch_hash transition =
     (let request = ProofRequest_new e now batch_hash transition in
      (z\<lparr>zp_queue := zp_queue z @ [request],
         zp_stats := (zp_stats z)\<lparr>ps_requests_queued := ps_requests_queued (zp_stats z) + 1\<rparr>\<rparr>, pr_id request))"

definition process_next :: "u64 \<Rightarrow> ZkProver \<Rightarrow> u32 \<Rightarrow> ZkProver \<times> h256 option" where
  "process_next now z prover_id =
     (case zp_queue z of
        [] \<Rightarrow> (z, None)
      | request # queue \<Rightarrow>
          (z\<lparr>zp_queue := queue, zp_active := hm_insert (pr_id request) (pr_start now request prover_id) (zp_active z)\<rparr>,
           Some (pr_id request)))"

definition encode_execution_trace :: "ProofRequest \<Rightarrow> u8 list" where
  "encode_execution_trace r =
     h256_bytes (tr_pre_state_root (pr_transition r)) @ h256_bytes (tr_post_state_root (pr_transition r))
     @ concat (map h256_bytes (tr_tx_hashes (pr_transition r)))"

definition commit_polynomials :: "ext \<Rightarrow> u8 list \<Rightarrow> CircuitParams \<Rightarrow> u8 list" where
  "commit_polynomials e data params = ext_blake3 e data"

definition generate_constraints :: "ProofRequest \<Rightarrow> CircuitParams \<Rightarrow> u8 list" where
  "generate_constraints r params = replicate (ci_constraint_count params * 32) 0"

definition generate_fri_proof :: "u8 list \<Rightarrow> CircuitParams \<Rightarrow> u8 list" where
  "generate_fri_proof constraints params = replicate (ci_fri_layers params * 64) 0"

definition generate_queries :: "CircuitParams \<Rightarrow> u8 list" where
  "generate_queries params = replicate (ci_num_queries params * 32) 0"

definition generate_witness :: "ProofRequest \<Rightarrow> u8 list" where
  "generate_witness r =
     h256_bytes (tr_pre_state_root (pr_transition r)) @ h256_bytes (tr_post_state_root (pr_transition r))"

definition compute_proof_element_a :: "u8 list \<Rightarrow> CircuitParams \<Rightarrow> u8 list" where
  "compute_proof_element_a witness params = replicate 64 0"

definition compute_proof_element_b :: "u8 list \<Rightarrow> CircuitParams \<Rightarrow> u8 list" where
  "compute_proof_element_b witness params = replicate 128 0"

definition compute_proof_element_c :: "u8 list \<Rightarrow> CircuitParams \<Rightarrow> u8 list" where
  "compute_proof_element_c witness params = replicate 64 0"

definition generate_wire_polynomials :: "ProofRequest \<Rightarrow> CircuitParams \<Rightarrow> u8 list list" where
  "generate_wire_polynomials r params = replicate 3 (replicate (ci_constraint_count params * 32) 0)"

definition kzg_commit :: "u8 list \<Rightarrow> CircuitParams \<Rightarrow> u8 list" where
  "kzg_commit poly params = replicate 48 0"

definition generate_permutation_proof :: "u8 list list \<Rightarrow> CircuitParams \<Rightarrow> u8 list" where
  "generate_permutation_proof polys params = replicate 96 0"

definition generate_opening_proof :: "u8 list list \<Rightarrow> CircuitParams \<Rightarrow> u8 list" where
  "generate_opening_proof polys params = replicate 48 0"

definition compute_qap :: "ProofRequest \<Rightarrow> CircuitParams \<Rightarrow> u8 list" where
  "compute_qap r params = replicate 256 0"

definition compute_groth16_pi_a :: "u8 list \<Rightarrow> CircuitParams \<Rightarrow> u8 list" where
  "compute_groth16_pi_a qap params = replicate 64 0"

definition compute_groth16_pi_b :: "u8 list \<Rightarrow> CircuitParams \<Rightarrow> u8 list" where
  "compute_groth16_pi_b qap params = replicate 128 0"

definition compute_groth16_pi_c :: "u8 list \<Rightarrow> CircuitParams \<Rightarrow> u8 list" where
  "compute_groth16_pi_c qap params = replicate 64 0"

definition generate_stark_proof :: "ext \<Rightarrow> ProofRequest \<Rightarrow> CircuitParams \<Rightarrow> u8 list" where
  "generate_stark_proof e r params =
     (let trace = encode_execution_trace r;
          trace_commitment = commit_polynomials e trace params;
          constraints = generate_constraints r params
      in trace_commitment @ generate_fri_proof constraints params @ generate_queries params)"

definition generate_snark_proof :: "ProofRequest \<Rightarrow> CircuitParams \<Rightarrow> u8 list" where
  "generate_snark_proof r params =
     (let witness = generate_witness r in
      compute_proof_element_a witness params @ compute_proof_element_b witness params
      @ compute_proof_element_c witness params)"

definition generate_plonk_proof :: "ProofRequest \<Rightarrow> CircuitParams \<Rightarrow> u8 list" where
  "generate_plonk_proof r params =
     (let wire_polys = generate_wire_polynomials r params in
      concat (map (\<lambda>poly. kzg_commit poly params) wire_polys)
      @ generate_permutation_proof wire_polys params @ generate_opening_proof wire_polys params)"

definition generate_groth16_proof :: "ProofRequest \<Rightarrow> CircuitParams \<Rightarrow> u8 list" where
  "generate_groth16_proof r params =
     (let qap = compute_qap r params in
      compute_groth16_pi_a qap params @ compute_groth16_pi_b qap params @ compute_groth16_pi_c qap params)"

definition proof_data :: "ext \<Rightarrow> ProofType \<Rightarrow> ProofRequest \<Rightarrow> CircuitParams \<Rightarrow> u8 list" where
  "proof_data e t r params =
     (case t of
        Stark \<Rightarrow> generate_stark_proof e r params | Snark \<Rightarrow> generate_snark_proof r params
      | Plonk \<Rightarrow> generate_plonk_proof r params | Groth16 \<Rightarrow> generate_groth16_proof r params)"

definition make_proof :: "ext \<Rightarrow> u64 \<Rightarrow> u64 \<Rightarrow> ZkProver \<Rightarrow> ProofRequest \<Rightarrow> CircuitParams \<Rightarrow> Proof" where
  "make_proof e now elapsed z r params =
     (let t = pr_transition r;
          proof = \<lparr>pf_proof_type = pc_proof_type (zp_config z),
            pf_data = proof_data e (pc_proof_type (zp_config z)) r params,
            pf_public_inputs = [tr_pre_state_root t, tr_post_state_root t, tr_transition_hash t],
            pf_batch_hash = pr_batch_hash r, pf_pre_state_root = tr_pre_state_root t,
            pf_post_state_root = tr_post_state_root t, pf_prover = zp_address z, pf_generated_at = now,
            pf_generation_time_ms = elapsed, pf_proof_hash = h256_zero\<rparr>
      in proof\<lparr>pf_proof_hash := Proof_compute_hash e proof\<rparr>)"

definition generate_proof :: "ext \<Rightarrow> u64 \<Rightarrow> u64 \<Rightarrow> ZkProver \<Rightarrow> h256 \<Rightarrow> ProverError + (ZkProver \<times> Proof)" where
  "generate_proof e now elapsed z request_id =
     (case hm_get (zp_active z) request_id of
        None \<Rightarrow> Err (RequestNotFound request_id)
      | Some request \<Rightarrow>
          (case zp_circuit_params z of
             None \<Rightarrow> Err NotInitialized
           | Some params \<Rightarrow>
               let proof = make_proof e now elapsed z request params in
               Ok (z\<lparr>zp_active := hm_modify request_id (\<lambda>r. pr_complete now r proof) (zp_active z),
                     zp_proofs := hm_insert (pr_batch_hash request) proof (zp_proofs z),
                     zp_stats := (zp_stats z)\<lparr>ps_proofs_generated := ps_proofs_generated (zp_stats z) + 1,
                       ps_total_proving_time_ms := ps_total_proving_time_ms (zp_stats z) + elapsed\<rparr>\<rparr>, proof)))"

definition get_proof :: "ZkProver \<Rightarrow> h256 \<Rightarrow> Proof option" where
  "get_proof z batch_hash = hm_get (zp_proofs z) batch_hash"

definition get_request_status :: "ZkProver \<Rightarrow> h256 \<Rightarrow> ProofRequestStatus option" where
  "get_request_status z request_id =
     (case hm_get (zp_active z) request_id of
        Some r \<Rightarrow> Some (pr_status r)
      | None \<Rightarrow> map_option pr_status (List.find (\<lambda>r. pr_id r = request_id) (zp_queue z)))"

definition check_timeouts :: "u64 \<Rightarrow> ZkProver \<Rightarrow> ZkProver \<times> h256 list" where
  "check_timeouts now z =
     (let timeout = pc_timeout_secs (zp_config z);
          timed_out = map fst (filter (\<lambda>(i, r). snd (check_timeout now r timeout)) (zp_active z))
      in (z\<lparr>zp_active := map (\<lambda>(i, r). (i, fst (check_timeout now r timeout))) (zp_active z),
            zp_stats := (zp_stats z)\<lparr>ps_timeouts := ps_timeouts (zp_stats z) + of_nat (length timed_out)\<rparr>\<rparr>,
          timed_out))"

definition queue_length :: "ZkProver \<Rightarrow> nat" where
  "queue_length z = length (zp_queue z)"

subsection \<open>The verifier\<close>

record VerificationResult =
  vr_proof_hash :: h256
  vr_valid :: bool
  vr_verified_at :: u64
  vr_gas_used :: u64
  vr_verifier :: address
  vr_error :: "string option"

record VerifierConfig =
  vc_supported_types :: "ProofType list"
  vc_gas_limit :: u64
  vc_multi_verifier :: bool
  vc_min_verifiers :: u32

definition VerifierConfig_default :: VerifierConfig where
  "VerifierConfig_default =
     \<lparr>vc_supported_types = [Plonk, Groth16, Stark], vc_gas_limit = 500000, vc_multi_verifier = False,
      vc_min_verifiers = 1\<rparr>"

record VerificationKey =
  vk_proof_type :: ProofType
  vk_data :: "u8 list"
  vk_circuit_id :: h256
  vk_version :: u32

definition VerificationKey_hash :: "ext \<Rightarrow> VerificationKey \<Rightarrow> h256" where
  "VerificationKey_hash e k =
     h256_from_slice (ext_blake3 e
       ([proof_type_byte (vk_proof_type k)] @ vk_data k @ h256_bytes (vk_circuit_id k) @ u32_to_le_bytes (vk_version k)))"

record VerifierStats =
  vs_total_verifications :: u64
  vs_valid_proofs :: u64
  vs_invalid_proofs :: u64
  vs_total_gas_used :: u64
  vs_total_verification_time_ms :: u64

definition VerifierStats_default :: VerifierStats where
  "VerifierStats_default =
     \<lparr>vs_total_verifications = 0, vs_valid_proofs = 0, vs_invalid_proofs = 0, vs_total_gas_used = 0,
      vs_total_verification_time_ms = 0\<rparr>"

record ZkVerifier =
  zv_config :: VerifierConfig
  zv_verification_keys :: "(h256, VerificationKey) hashmap"
  zv_results :: "(h256, VerificationResult) hashmap"
  zv_stats :: VerifierStats

datatype VerifierError =
    UnsupportedProofType ProofType
  | InvalidProofSize
  | InvalidProofFormat
  | KeyNotFound
  | PairingFailed
  | InvalidPublicInputs
  | GasLimitExceeded

definition ZkVerifier_new :: "VerifierConfig \<Rightarrow> ZkVerifier" where
  "ZkVerifier_new config =
     \<lparr>zv_config = config, zv_verification_keys = [], zv_results = [], zv_stats = VerifierStats_default\<rparr>"

definition register_key :: "ZkVerifier \<Rightarrow> VerificationKey \<Rightarrow> ZkVerifier" where
  "register_key v key = v\<lparr>zv_verification_keys := hm_insert (vk_circuit_id key) key (zv_verification_keys v)\<rparr>"

definition verify_fri_proof :: "u8 list \<Rightarrow> VerifierError + bool" where
  "verify_fri_proof data = Ok True"

definition extract_snark_elements :: "u8 list \<Rightarrow> VerifierError + (u8 list \<times> u8 list \<times> u8 list)" where
  "extract_snark_elements data =
     (if length data < 256 then Err InvalidProofFormat
      else Ok (take 64 data, take 128 (drop 64 data), take 64 (drop 192 data)))"

definition verify_pairing :: "u8 list \<Rightarrow> u8 list \<Rightarrow> u8 list \<Rightarrow> h256 list \<Rightarrow> VerifierError + bool" where
  "verify_pairing a b c inputs = Ok True"

definition verify_commitments :: "u8 list \<Rightarrow> VerifierError + bool" where
  "verify_commitments data = Ok True"

definition verify_permutation_argument :: "u8 list \<Rightarrow> VerifierError + bool" where
  "verify_permutation_argument data = Ok True"

definition verify_opening :: "u8 list \<Rightarrow> VerifierError + bool" where
  "verify_opening data = Ok True"

definition is_valid_g1_point :: "u8 list \<Rightarrow> bool" where
  "is_valid_g1_point data = True"

definition is_valid_g2_point :: "u8 list \<Rightarrow> bool" where
  "is_valid_g2_point data = True"

definition compute_public_input_accumulator :: "ext \<Rightarrow> h256 list \<Rightarrow> VerifierError + u8 list" where
  "compute_public_input_accumulator e inputs = Ok (ext_blake3 e (concat (map h256_bytes inputs)))"

definition verify_groth16_pairing :: "u8 list \<Rightarrow> u8 list \<Rightarrow> u8 list \<Rightarrow> u8 list \<Rightarrow> VerifierError + bool" where
  "verify_groth16_pairing a b c vk_x = Ok True"

definition verify_stark :: "Proof \<Rightarrow> VerifierError + bool" where
  "verify_stark p =
     (if length (pf_data p) < 100 then Ok False
      else if length (pf_public_inputs p) < 3 then Ok False
      else if pf_public_inputs p ! 0 \<noteq> pf_pre_state_root p then Ok False
      else if pf_public_inputs p ! 1 \<noteq> pf_post_state_root p then Ok False
      else and_then (verify_fri_proof (pf_data p)) (\<lambda>fri_valid. if \<not> fri_valid then Ok False else Ok True))"

definition verify_snark :: "Proof \<Rightarrow> VerifierError + bool" where
  "verify_snark p =
     (if length (pf_data p) < 256 then Ok False
      else and_then (extract_snark_elements (pf_data p)) (\<lambda>(a, b, c). verify_pairing a b c (pf_public_inputs p)))"

definition verify_plonk :: "Proof \<Rightarrow> VerifierError + bool" where
  "verify_plonk p =
     (if length (pf_data p) < 200 then Ok False
      else and_then (verify_commitments (pf_data p)) (\<lambda>commitments_valid.
        if \<not> commitments_valid then Ok False
        else and_then (verify_permutation_argument (pf_data p)) (\<lambda>perm_valid.
          if \<not> perm_valid then Ok False else verify_opening (pf_data p))))"

definition verify_groth16 :: "ext \<Rightarrow> Proof \<Rightarrow> VerifierError + bool" where
  "verify_groth16 e p =
     (if length (pf_data p) < 192 then Ok False
      else let pi_a = take 64 (pf_data p); pi_b = take 128 (drop 64 (pf_data p)); pi_c = drop 192 (pf_data p) in
        if \<not> is_valid_g1_point pi_a then Ok False
        else if \<not> is_valid_g2_point pi_b then Ok False
        else if 64 \<le> length pi_c \<and> \<not> is_valid_g1_point (take 64 pi_c) then Ok False
        else and_then (compute_public_input_accumulator e (pf_public_inputs p)) (\<lambda>vk_x.
          verify_groth16_pairing pi_a pi_b pi_c vk_x))"

definition estimate_gas :: "ProofType \<Rightarrow> u64" where
  "estimate_gas t = (case t of Stark \<Rightarrow> 300000 | Snark \<Rightarrow> 200000 | Plonk \<Rightarrow> 250000 | Groth16 \<Rightarrow> 150000)"

definition verify_by_type :: "ext \<Rightarrow> Proof \<Rightarrow> VerifierError + bool" where
  "verify_by_type e p =
     (case pf_proof_type p of
        Stark \<Rightarrow> verify_stark p | Snark \<Rightarrow> verify_snark p | Plonk \<Rightarrow> verify_plonk p | Groth16 \<Rightarrow> verify_groth16 e p)"

definition zk_verify ::
  "ext \<Rightarrow> u64 \<Rightarrow> u64 \<Rightarrow> ZkVerifier \<Rightarrow> Proof \<Rightarrow> address \<Rightarrow> VerifierError + (ZkVerifier \<times> VerificationResult)" where
  "zk_verify e now elapsed v p verifier =
     (if pf_proof_type p \<notin> set (vc_supported_types (zv_config v)) then Err (UnsupportedProofType (pf_proof_type p))
      else if \<not> verify_size p then Err InvalidProofSize
      else and_then (verify_by_type e p) (\<lambda>valid.
        let gas_used = estimate_gas (pf_proof_type p);
            result = \<lparr>vr_proof_hash = pf_proof_hash p, vr_valid = valid, vr_verified_at = now,
              vr_gas_used = gas_used, vr_verifier = verifier,
              vr_error = (if valid then None else Some ''Proof verification failed'')\<rparr>;
            stats = zv_stats v
        in Ok (v\<lparr>zv_results := hm_insert (pf_proof_hash p) result (zv_results v),
                 zv_stats := \<lparr>vs_total_verifications = vs_total_verifications stats + 1,
                   vs_valid_proofs = (if valid then vs_valid_proofs stats + 1 else vs_valid_proofs stats),
                   vs_invalid_proofs = (if valid then vs_invalid_proofs stats else vs_invalid_proofs stats + 1),
                   vs_total_gas_used = vs_total_gas_used stats + gas_used,
                   vs_total_verification_time_ms = vs_total_verification_time_ms stats + elapsed\<rparr>\<rparr>, result)))"

definition get_result :: "ZkVerifier \<Rightarrow> h256 \<Rightarrow> VerificationResult option" where
  "get_result v proof_hash = hm_get (zv_results v) proof_hash"

definition proof_type_name :: "ProofType \<Rightarrow> string" where
  "proof_type_name t = (case t of Stark \<Rightarrow> ''Stark'' | Snark \<Rightarrow> ''Snark'' | Plonk \<Rightarrow> ''Plonk'' | Groth16 \<Rightarrow> ''Groth16'')"

definition verifier_error_text :: "VerifierError \<Rightarrow> string" where
  "verifier_error_text x =
     (case x of
        UnsupportedProofType t \<Rightarrow> ''Unsupported proof type: '' @ proof_type_name t
      | InvalidProofSize \<Rightarrow> ''Invalid proof size''
      | InvalidProofFormat \<Rightarrow> ''Invalid proof format''
      | KeyNotFound \<Rightarrow> ''Verification key not found''
      | PairingFailed \<Rightarrow> ''Pairing check failed''
      | InvalidPublicInputs \<Rightarrow> ''Invalid public inputs''
      | GasLimitExceeded \<Rightarrow> ''Gas limit exceeded'')"

text \<open>\<open>batch_verify\<close> maps \<open>verify\<close> over the proofs, the elapsed time of each with it.\<close>

fun batch_verify :: "ext \<Rightarrow> u64 \<Rightarrow> ZkVerifier \<Rightarrow> (Proof \<times> u64) list \<Rightarrow> address \<Rightarrow> ZkVerifier \<times> VerificationResult list" where
  "batch_verify e now v [] verifier = (v, [])"
| "batch_verify e now v ((p, elapsed) # ps) verifier =
     (case zk_verify e now elapsed v p verifier of
        Ok (v', r) \<Rightarrow> (case batch_verify e now v' ps verifier of (v'', rs) \<Rightarrow> (v'', r # rs))
      | Err x \<Rightarrow>
          (case batch_verify e now v ps verifier of (v'', rs) \<Rightarrow>
            (v'', \<lparr>vr_proof_hash = pf_proof_hash p, vr_valid = False, vr_verified_at = now, vr_gas_used = 0,
                   vr_verifier = verifier, vr_error = Some (verifier_error_text x)\<rparr> # rs)))"

subsection \<open>What verification checks\<close>

text \<open>The answer for each proof type, with the placeholders evaluated.\<close>

definition shape_ok :: "Proof \<Rightarrow> bool" where
  "shape_ok p =
     (case pf_proof_type p of
        Stark \<Rightarrow> 100 \<le> length (pf_data p) \<and> 3 \<le> length (pf_public_inputs p)
          \<and> pf_public_inputs p ! 0 = pf_pre_state_root p \<and> pf_public_inputs p ! 1 = pf_post_state_root p
      | Snark \<Rightarrow> 256 \<le> length (pf_data p)
      | Plonk \<Rightarrow> 200 \<le> length (pf_data p)
      | Groth16 \<Rightarrow> 192 \<le> length (pf_data p))"

lemmas verifier_placeholders = verify_fri_proof_def extract_snark_elements_def verify_pairing_def verify_commitments_def
  verify_permutation_argument_def verify_opening_def is_valid_g1_point_def is_valid_g2_point_def
  compute_public_input_accumulator_def verify_groth16_pairing_def

lemma verify_by_type_eq: "verify_by_type e p = Ok (shape_ok p)"
  by (cases "pf_proof_type p")
    (auto simp: verify_by_type_def shape_ok_def verify_stark_def verify_snark_def verify_plonk_def verify_groth16_def
      verifier_placeholders)

lemma zk_verify_outcome:
  "pf_proof_type p \<in> set (vc_supported_types (zv_config v)) \<Longrightarrow> verify_size p \<Longrightarrow>
     \<exists>v' r. zk_verify e now elapsed v p verifier = Ok (v', r) \<and> vr_valid r = shape_ok p
       \<and> get_result v' (pf_proof_hash p) = Some r"
  by (simp add: zk_verify_def verify_by_type_eq Let_def get_result_def)

lemmas prover_helpers = generate_stark_proof_def generate_snark_proof_def generate_plonk_proof_def
  generate_groth16_proof_def commit_polynomials_def generate_fri_proof_def generate_queries_def
  compute_proof_element_a_def compute_proof_element_b_def compute_proof_element_c_def generate_wire_polynomials_def
  kzg_commit_def generate_permutation_proof_def generate_opening_proof_def compute_groth16_pi_a_def
  compute_groth16_pi_b_def compute_groth16_pi_c_def

lemma length_proof_data:
  assumes "\<And>x. length (ext_blake3 e x) = 32"
  shows "length (proof_data e t r (CircuitParams_generate t))
    = (case t of Stark \<Rightarrow> 1952 | Snark \<Rightarrow> 256 | Plonk \<Rightarrow> 288 | Groth16 \<Rightarrow> 256)"
  using assms
  by (cases t) (simp_all add: proof_data_def CircuitParams_generate_def prover_helpers Let_def length_concat
      numeral_3_eq_3)

subsection \<open>Runs of the prover\<close>

definition proof_matches :: "ext \<Rightarrow> ProofType \<Rightarrow> h256 \<Rightarrow> Proof \<Rightarrow> bool" where
  "proof_matches e t batch_hash p \<longleftrightarrow> pf_proof_type p = t \<and> pf_batch_hash p = batch_hash
     \<and> pf_proof_hash p = Proof_compute_hash e (p\<lparr>pf_proof_hash := h256_zero\<rparr>)
     \<and> length (pf_public_inputs p) = 3 \<and> pf_public_inputs p ! 0 = pf_pre_state_root p
     \<and> pf_public_inputs p ! 1 = pf_post_state_root p \<and> verify_size p \<and> shape_ok p"

definition request_ok :: "ext \<Rightarrow> ProofType \<Rightarrow> ProofRequest \<Rightarrow> bool" where
  "request_ok e t r \<longleftrightarrow>
     (case pr_proof r of
        None \<Rightarrow> pr_status r \<in> {PrProving, PrTimedOut}
      | Some p \<Rightarrow> pr_status r = PrCompleted \<and> proof_matches e t (pr_batch_hash r) p
          \<and> pf_pre_state_root p = tr_pre_state_root (pr_transition r)
          \<and> pf_post_state_root p = tr_post_state_root (pr_transition r))"

definition prover_inv :: "ext \<Rightarrow> ProverConfig \<Rightarrow> ZkProver \<Rightarrow> bool" where
  "prover_inv e config z \<longleftrightarrow> zp_config z = config
     \<and> zp_circuit_params z \<in> {None, Some (CircuitParams_generate (pc_proof_type config))}
     \<and> (\<forall>r \<in> set (zp_queue z). pr_status r = PrQueued \<and> pr_proof r = None)
     \<and> (\<forall>i r. hm_get (zp_active z) i = Some r \<longrightarrow> request_ok e (pc_proof_type config) r)
     \<and> (\<forall>b p. hm_get (zp_proofs z) b = Some p \<longrightarrow> proof_matches e (pc_proof_type config) b p)"

datatype prover_op =
    PInitialize
  | PSubmit u64 h256 StateTransition
  | PNext u64 u32
  | PGenerate u64 u64 h256
  | PTimeouts u64

definition prover_step :: "ext \<Rightarrow> ZkProver \<Rightarrow> prover_op \<Rightarrow> ZkProver" where
  "prover_step e z x =
     (case x of
        PInitialize \<Rightarrow> prover_initialize z
      | PSubmit now b t \<Rightarrow> fst (submit_request e now z b t)
      | PNext now i \<Rightarrow> fst (process_next now z i)
      | PGenerate now elapsed i \<Rightarrow> (case generate_proof e now elapsed z i of Err _ \<Rightarrow> z | Ok (z', _) \<Rightarrow> z')
      | PTimeouts now \<Rightarrow> fst (check_timeouts now z))"

lemma made_proof_matches:
  assumes "\<And>x. length (ext_blake3 e x) = 32" and "zp_config z = config"
  shows "proof_matches e (pc_proof_type config) (pr_batch_hash r)
    (make_proof e now elapsed z r (CircuitParams_generate (pc_proof_type config)))"
  using length_proof_data [OF assms(1), of "pc_proof_type config" r]
  by (cases "pc_proof_type config")
    (simp_all add: proof_matches_def make_proof_def Let_def assms(2) verify_size_def expected_size_def shape_ok_def
      Proof_compute_hash_def)

lemma check_timeout_keeps: "request_ok e t r \<Longrightarrow> request_ok e t (fst (check_timeout now r timeout))"
  by (auto simp: request_ok_def check_timeout_def split: option.splits)

lemma generate_proof_Ok:
  assumes "generate_proof e now elapsed z i = Ok (z', p)"
  obtains r params where "hm_get (zp_active z) i = Some r" and "zp_circuit_params z = Some params"
    and "p = make_proof e now elapsed z r params"
    and "zp_active z' = hm_modify i (\<lambda>r. pr_complete now r p) (zp_active z)"
    and "zp_proofs z' = hm_insert (pr_batch_hash r) p (zp_proofs z)"
    and "zp_config z' = zp_config z" and "zp_queue z' = zp_queue z" and "zp_circuit_params z' = zp_circuit_params z"
  using assms by (auto simp: generate_proof_def Let_def split: option.splits)

lemma prover_inv_generate:
  assumes hash: "\<And>x. length (ext_blake3 e x) = 32" and inv: "prover_inv e config z"
    and run: "generate_proof e now elapsed z i = Ok (z', p)"
  shows "prover_inv e config z'"
proof -
  obtain r params where r: "hm_get (zp_active z) i = Some r" "zp_circuit_params z = Some params"
      "p = make_proof e now elapsed z r params"
    and z': "zp_active z' = hm_modify i (\<lambda>r. pr_complete now r p) (zp_active z)"
      "zp_proofs z' = hm_insert (pr_batch_hash r) p (zp_proofs z)" "zp_config z' = zp_config z"
      "zp_queue z' = zp_queue z" "zp_circuit_params z' = zp_circuit_params z"
    by (rule generate_proof_Ok [OF run])
  have params: "params = CircuitParams_generate (pc_proof_type config)" and config: "zp_config z = config"
    using inv r(2) by (simp_all add: prover_inv_def)
  have p: "proof_matches e (pc_proof_type config) (pr_batch_hash r) p"
    using made_proof_matches [OF hash config] by (simp add: r(3) params)
  then have "request_ok e (pc_proof_type config) (pr_complete now r p)"
    by (simp add: request_ok_def pr_complete_def r(3) make_proof_def Let_def)
  then show ?thesis
    using inv p r(1) unfolding prover_inv_def z' by (auto split: if_splits)
qed

lemma prover_inv_step:
  assumes hash: "\<And>x. length (ext_blake3 e x) = 32" and inv: "prover_inv e config z"
  shows "prover_inv e config (prover_step e z x)"
proof (cases x)
  case (PGenerate now elapsed i)
  then show ?thesis
    using prover_inv_generate [OF hash inv] inv by (auto simp: prover_step_def split: sum.split)
next
  case (PTimeouts now)
  then show ?thesis
    using inv check_timeout_keeps
    by (fastforce simp: prover_step_def check_timeouts_def prover_inv_def hm_get_map_values Let_def)
next
  case (PNext now i)
  then show ?thesis
    using inv by (auto simp: prover_step_def process_next_def prover_inv_def request_ok_def pr_start_def split: list.splits)
qed (use inv in \<open>auto simp: prover_step_def prover_initialize_def submit_request_def ProofRequest_new_def prover_inv_def Let_def\<close>)

lemma prover_run_inv:
  assumes "\<And>x. length (ext_blake3 e x) = 32"
  shows "prover_inv e config (run (prover_step e) (ZkProver_new config addr) ops)"
proof -
  have "prover_inv e config z \<Longrightarrow> prover_inv e config (run (prover_step e) z ops)" for z
  proof (induction ops arbitrary: z)
    case (Cons x ops)
    then show ?case using prover_inv_step [OF assms Cons.prems] by simp
  qed simp
  moreover have "prover_inv e config (ZkProver_new config addr)" by (simp add: prover_inv_def ZkProver_new_def)
  ultimately show ?thesis by blast
qed

subsection \<open>Properties\<close>

text \<open>
  Every proof made is accepted: in any state the prover can reach, a proof it has stored or generates
  now is for the batch and the roots that were asked for, carries its own hash, and is accepted by every
  verifier that supports its type, which then remembers the result under that hash.
\<close>

theorem generated_proofs_verify:
  assumes "\<And>x. length (ext_blake3 e x) = 32" and "z = run (prover_step e) (ZkProver_new config addr) ops"
    and "pc_proof_type config \<in> set (vc_supported_types (zv_config v))" and "get_proof z b = Some p"
  shows "pf_batch_hash p = b \<and> pf_proof_hash p = Proof_compute_hash e (p\<lparr>pf_proof_hash := h256_zero\<rparr>)
    \<and> (\<exists>v' r. zk_verify e now elapsed v p who = Ok (v', r) \<and> vr_valid r \<and> get_result v' (pf_proof_hash p) = Some r)"
proof -
  have "proof_matches e (pc_proof_type config) b p"
    using prover_run_inv [OF assms(1), of config addr ops] assms(2,4) by (simp add: prover_inv_def get_proof_def)
  then show ?thesis
    using zk_verify_outcome [of p v e now elapsed who] assms(3) by (auto simp: proof_matches_def)
qed

definition example_transition :: StateTransition where
  "example_transition = StateTransition_new sample_ext h256_zero h256_zero 1 [] []"

definition example_prover :: ZkProver where
  "example_prover = run (prover_step sample_ext) (ZkProver_new ProverConfig_default address_zero)
     [PInitialize, PSubmit 5 h256_zero example_transition, PNext 6 0,
      PGenerate 7 3 (request_generate_id sample_ext 5 h256_zero)]"

theorem generated_proofs_verify_witness:
  "\<exists>p v r. get_proof example_prover h256_zero = Some p
    \<and> zk_verify sample_ext 9 1 (ZkVerifier_new VerifierConfig_default) p address_zero = Ok (v, r) \<and> vr_valid r"
proof -
  have hash: "length (ext_blake3 sample_ext x) = 32" for x by (simp add: sample_ext_def sample_digest_def copy_padded_def)
  have "\<exists>p. get_proof example_prover h256_zero = Some p"
    by (simp add: example_prover_def prover_step_def prover_initialize_def submit_request_def process_next_def
        generate_proof_def ZkProver_new_def ProofRequest_new_def pr_start_def get_proof_def Let_def)
  then obtain p where p: "get_proof example_prover h256_zero = Some p" by blast
  have "pc_proof_type ProverConfig_default \<in> set (vc_supported_types (zv_config (ZkVerifier_new VerifierConfig_default)))"
    by (simp add: ProverConfig_default_def ZkVerifier_new_def VerifierConfig_default_def)
  from generated_proofs_verify [OF hash example_prover_def this p] p show ?thesis by blast
qed

text \<open>
  Verification is no evidence. Whatever its bytes, a Plonk proof of 200 to 2000 bytes is valid, for any
  roots and any public inputs; no verification key is consulted, and the claimed hash is not recomputed.
\<close>

lemma any_plonk_bytes_accepted:
  assumes "pf_proof_type p = Plonk" and "200 \<le> length (pf_data p)" and "length (pf_data p) \<le> 2000"
    and "Plonk \<in> set (vc_supported_types (zv_config v))"
  shows "\<exists>v' r. zk_verify e now elapsed v p who = Ok (v', r) \<and> vr_valid r"
  using zk_verify_outcome [of p v e now elapsed who] assms
  by (auto simp: verify_size_def expected_size_def shape_ok_def)

text \<open>
  A request that has timed out can still be completed, and one started later than the clock now shows times
  out at once, since the difference of the two wraps.
\<close>

lemma timed_out_completes:
  assumes "hm_get (zp_active z) i = Some r" and "pr_status r = PrTimedOut" and "zp_circuit_params z = Some params"
  shows "\<exists>z' p. generate_proof e now elapsed z i = Ok (z', p) \<and> get_request_status z' i = Some PrCompleted"
  using assms by (simp add: generate_proof_def get_request_status_def pr_complete_def Let_def)

lemma clock_back_times_out:
  assumes "pr_status r = PrProving" and "pr_started_at r = Some (now + 1)" and "timeout < - 1"
  shows "snd (check_timeout now r timeout)"
  using assms by (simp add: check_timeout_def)

end
