(* ===== verification/AI_Jobs.thy ===== *)
theory AI_Jobs
  imports Hash_Map Chain_Types
begin

section \<open>Compute jobs\<close>

text \<open>
  \<open>pyrax-node/src/ai/compute/job.rs\<close>: the life of a compute job and the manager of all jobs. The clock is
  an argument. Floating-point metrics are carried but never computed with; they are their bit patterns.
\<close>

type_synonym f64_bits = u64

definition RESULT_TIMEOUT_SECS :: u64 where "RESULT_TIMEOUT_SECS = 60 * 60"

datatype JobStatus =
  JobPending | JobAssigned | JobRunning | JobCompleted | JobVerified | JobFailed | JobCancelled | JobTimedOut | JobDisputed

datatype JobType = Inference | Training | FineTuning | DataProcessing | CustomJob

datatype VerificationType = VtNone | VtSingle | VtConsensus | VtZKProof | VtTEE

record ResourceRequirements =
  rq_gpu_memory_mb :: u64
  rq_gpu_compute_units :: u32
  rq_cpu_cores :: u32
  rq_ram_mb :: u64
  rq_storage_mb :: u64
  rq_gpu_type :: "string option"
  rq_max_duration_secs :: u64

definition ResourceRequirements_default :: ResourceRequirements where
  "ResourceRequirements_default =
     \<lparr>rq_gpu_memory_mb = 4096, rq_gpu_compute_units = 1, rq_cpu_cores = 4, rq_ram_mb = 8192,
      rq_storage_mb = 10240, rq_gpu_type = None, rq_max_duration_secs = 3600\<rparr>"

record JobSpec =
  js_job_type :: JobType
  js_model_id :: "h256 option"
  js_input_hash :: h256
  js_input_size :: u64
  js_resources :: ResourceRequirements
  js_max_price :: u64
  js_priority :: u8
  js_params :: "string option"
  js_min_reputation :: u32
  js_verification :: VerificationType

record ComputeJob =
  jb_id :: h256
  jb_submitter :: address
  jb_spec :: JobSpec
  jb_status :: JobStatus
  jb_assigned_node :: "address option"
  jb_agreed_price :: u64
  jb_escrow_amount :: u64
  jb_created_at :: u64
  jb_assigned_at :: "u64 option"
  jb_started_at :: "u64 option"
  jb_completed_at :: "u64 option"
  jb_result_hash :: "h256 option"
  jb_result_size :: "u64 option"
  jb_verification_gas :: u64
  jb_error :: "string option"
  jb_retry_count :: u32
  jb_max_retries :: u32

datatype JobError =
    JobInvalidState JobStatus
  | PriceTooHigh u64 u64
  | InsufficientEscrow u64 u64
  | JobNotFound h256
  | JobAlreadyExists h256
  | MaxRetriesExceeded
  | JobUnauthorized string
  | InvalidResult string
  | JobVerificationFailed string
  | JobTimeout

subsection \<open>A job\<close>

definition job_generate_id :: "ext \<Rightarrow> u64 \<Rightarrow> address \<Rightarrow> JobSpec \<Rightarrow> h256" where
  "job_generate_id e now submitter spec =
     h256_from_slice (ext_blake3 e
       (address_bytes submitter @ h256_bytes (js_input_hash spec) @ u64_to_le_bytes now
        @ u64_to_le_bytes (js_max_price spec)))"

definition ComputeJob_new :: "ext \<Rightarrow> u64 \<Rightarrow> address \<Rightarrow> JobSpec \<Rightarrow> ComputeJob" where
  "ComputeJob_new e now submitter spec =
     \<lparr>jb_id = job_generate_id e now submitter spec, jb_submitter = submitter, jb_spec = spec,
      jb_status = JobPending, jb_assigned_node = None, jb_agreed_price = 0, jb_escrow_amount = js_max_price spec,
      jb_created_at = now, jb_assigned_at = None, jb_started_at = None, jb_completed_at = None,
      jb_result_hash = None, jb_result_size = None, jb_verification_gas = 0, jb_error = None,
      jb_retry_count = 0, jb_max_retries = 3\<rparr>"

definition job_assign :: "u64 \<Rightarrow> ComputeJob \<Rightarrow> address \<Rightarrow> u64 \<Rightarrow> JobError + ComputeJob" where
  "job_assign now j node price =
     (if jb_status j \<noteq> JobPending then Err (JobInvalidState (jb_status j))
      else if js_max_price (jb_spec j) < price then Err (PriceTooHigh price (js_max_price (jb_spec j)))
      else Ok (j\<lparr>jb_assigned_node := Some node, jb_agreed_price := price, jb_status := JobAssigned,
                 jb_assigned_at := Some now\<rparr>))"

definition job_start :: "u64 \<Rightarrow> ComputeJob \<Rightarrow> JobError + ComputeJob" where
  "job_start now j =
     (if jb_status j \<noteq> JobAssigned then Err (JobInvalidState (jb_status j))
      else Ok (j\<lparr>jb_status := JobRunning, jb_started_at := Some now\<rparr>))"

definition job_complete :: "u64 \<Rightarrow> ComputeJob \<Rightarrow> h256 \<Rightarrow> u64 \<Rightarrow> JobError + ComputeJob" where
  "job_complete now j result_hash result_size =
     (if jb_status j \<noteq> JobRunning then Err (JobInvalidState (jb_status j))
      else Ok (j\<lparr>jb_status := JobCompleted, jb_completed_at := Some now, jb_result_hash := Some result_hash,
                 jb_result_size := Some result_size\<rparr>))"

definition job_verify :: "ComputeJob \<Rightarrow> JobError + ComputeJob" where
  "job_verify j =
     (if jb_status j \<noteq> JobCompleted then Err (JobInvalidState (jb_status j))
      else Ok (j\<lparr>jb_status := JobVerified\<rparr>))"

definition job_fail :: "u64 \<Rightarrow> ComputeJob \<Rightarrow> string \<Rightarrow> JobError + ComputeJob" where
  "job_fail now j error =
     (if jb_status j = JobVerified \<or> jb_status j = JobCancelled then Err (JobInvalidState (jb_status j))
      else Ok (j\<lparr>jb_status := JobFailed, jb_error := Some error, jb_completed_at := Some now\<rparr>))"

definition job_cancel :: "u64 \<Rightarrow> ComputeJob \<Rightarrow> JobError + ComputeJob" where
  "job_cancel now j =
     (if jb_status j \<noteq> JobPending \<and> jb_status j \<noteq> JobAssigned then Err (JobInvalidState (jb_status j))
      else Ok (j\<lparr>jb_status := JobCancelled, jb_completed_at := Some now\<rparr>))"

definition job_check_timeout :: "u64 \<Rightarrow> ComputeJob \<Rightarrow> ComputeJob \<times> bool" where
  "job_check_timeout now j =
     (let late = (\<lambda>t limit. case t of None \<Rightarrow> False | Some t0 \<Rightarrow> limit < now - t0) in
      if jb_status j = JobPending \<and> 600 < now - jb_created_at j then (j\<lparr>jb_status := JobTimedOut\<rparr>, True)
      else if jb_status j = JobRunning \<and> late (jb_started_at j) (rq_max_duration_secs (js_resources (jb_spec j)))
      then (j\<lparr>jb_status := JobTimedOut\<rparr>, True)
      else if jb_status j = JobCompleted \<and> late (jb_completed_at j) RESULT_TIMEOUT_SECS
      then (j\<lparr>jb_status := JobTimedOut\<rparr>, True)
      else (j, False))"

definition job_retry :: "ComputeJob \<Rightarrow> JobError + ComputeJob" where
  "job_retry j =
     (if jb_status j \<noteq> JobFailed \<and> jb_status j \<noteq> JobTimedOut then Err (JobInvalidState (jb_status j))
      else if jb_max_retries j \<le> jb_retry_count j then Err MaxRetriesExceeded
      else Ok (j\<lparr>jb_retry_count := jb_retry_count j + 1, jb_status := JobPending, jb_assigned_node := None,
                 jb_assigned_at := None, jb_started_at := None, jb_completed_at := None, jb_result_hash := None,
                 jb_error := None\<rparr>))"

definition job_duration :: "ComputeJob \<Rightarrow> u64 option" where
  "job_duration j =
     (case (jb_started_at j, jb_completed_at j) of (Some start, Some stop) \<Rightarrow> Some (stop - start) | _ \<Rightarrow> None)"

definition job_is_active :: "ComputeJob \<Rightarrow> bool" where
  "job_is_active j = (jb_status j \<in> {JobPending, JobAssigned, JobRunning})"

definition job_is_terminal :: "ComputeJob \<Rightarrow> bool" where
  "job_is_terminal j = (jb_status j \<in> {JobVerified, JobFailed, JobCancelled, JobTimedOut})"

subsection \<open>The manager\<close>

record ExecutionMetrics =
  em_gpu_time_ms :: u64
  em_cpu_time_ms :: u64
  em_peak_memory_mb :: u64
  em_data_transferred :: u64
  em_iterations :: "u64 option"
  em_final_loss :: "f64_bits option"

record JobResult =
  jr_job_id :: h256
  jr_node :: address
  jr_result_hash :: h256
  jr_result_size :: u64
  jr_metrics :: ExecutionMetrics
  jr_signature :: "u8 list"
  jr_submitted_at :: u64

record JobManager =
  jm_jobs :: "(h256, ComputeJob) hashmap"
  jm_by_submitter :: "(address, h256 list) hashmap"
  jm_by_node :: "(address, h256 list) hashmap"
  jm_results :: "(h256, JobResult) hashmap"
  jm_total_jobs :: u64
  jm_total_value :: u64

definition JobManager_new :: JobManager where
  "JobManager_new =
     \<lparr>jm_jobs = [], jm_by_submitter = [], jm_by_node = [], jm_results = [], jm_total_jobs = 0, jm_total_value = 0\<rparr>"

definition submit_job :: "ext \<Rightarrow> u64 \<Rightarrow> JobManager \<Rightarrow> address \<Rightarrow> JobSpec \<Rightarrow> JobError + (JobManager \<times> ComputeJob)" where
  "submit_job e now m submitter spec =
     (let job = ComputeJob_new e now submitter spec; i = jb_id job in
      if hm_contains (jm_jobs m) i then Err (JobAlreadyExists i)
      else Ok (m\<lparr>jm_jobs := hm_insert i job (jm_jobs m),
                 jm_by_submitter := hm_push submitter i (jm_by_submitter m),
                 jm_total_jobs := jm_total_jobs m + 1,
                 jm_total_value := jm_total_value m + jb_escrow_amount job\<rparr>, job))"

definition get_job :: "JobManager \<Rightarrow> h256 \<Rightarrow> ComputeJob option" where
  "get_job m i = hm_get (jm_jobs m) i"

text \<open>\<open>get_mut\<close> of a job, an operation on it, and the store of its outcome.\<close>

definition with_job :: "JobManager \<Rightarrow> h256 \<Rightarrow> (ComputeJob \<Rightarrow> JobError + ComputeJob) \<Rightarrow> JobError + JobManager" where
  "with_job m i f =
     (case hm_get (jm_jobs m) i of
        None \<Rightarrow> Err (JobNotFound i)
      | Some j \<Rightarrow> and_then (f j) (\<lambda>j'. Ok (m\<lparr>jm_jobs := hm_insert i j' (jm_jobs m)\<rparr>)))"

definition assign_job :: "u64 \<Rightarrow> JobManager \<Rightarrow> h256 \<Rightarrow> address \<Rightarrow> u64 \<Rightarrow> JobError + JobManager" where
  "assign_job now m i node price =
     and_then (with_job m i (\<lambda>j. job_assign now j node price))
       (\<lambda>m'. Ok (m'\<lparr>jm_by_node := hm_push node i (jm_by_node m')\<rparr>))"

definition require_node :: "ComputeJob \<Rightarrow> address \<Rightarrow> JobError + unit" where
  "require_node j node = fail_if (jb_assigned_node j \<noteq> Some node) (JobUnauthorized ''Not assigned to this node'')"

definition start_job :: "u64 \<Rightarrow> JobManager \<Rightarrow> h256 \<Rightarrow> address \<Rightarrow> JobError + JobManager" where
  "start_job now m i node = with_job m i (\<lambda>j. and_then (require_node j node) (\<lambda>_. job_start now j))"

definition submit_job_result :: "u64 \<Rightarrow> JobManager \<Rightarrow> JobResult \<Rightarrow> JobError + JobManager" where
  "submit_job_result now m r =
     and_then (with_job m (jr_job_id r) (\<lambda>j. and_then (require_node j (jr_node r))
         (\<lambda>_. job_complete now j (jr_result_hash r) (jr_result_size r))))
       (\<lambda>m'. Ok (m'\<lparr>jm_results := hm_insert (jr_job_id r) r (jm_results m')\<rparr>))"

definition verify_job :: "JobManager \<Rightarrow> h256 \<Rightarrow> JobError + JobManager" where
  "verify_job m i = with_job m i job_verify"

definition manager_fail_job :: "u64 \<Rightarrow> JobManager \<Rightarrow> h256 \<Rightarrow> string \<Rightarrow> JobError + JobManager" where
  "manager_fail_job now m i error = with_job m i (\<lambda>j. job_fail now j error)"

definition get_by_submitter :: "JobManager \<Rightarrow> address \<Rightarrow> ComputeJob list" where
  "get_by_submitter m submitter = hm_lookup_all (jm_jobs m) (hm_list (jm_by_submitter m) submitter)"

definition get_by_node :: "JobManager \<Rightarrow> address \<Rightarrow> ComputeJob list" where
  "get_by_node m node = hm_lookup_all (jm_jobs m) (hm_list (jm_by_node m) node)"

definition get_pending_jobs :: "JobManager \<Rightarrow> ComputeJob list" where
  "get_pending_jobs m = filter (\<lambda>j. jb_status j = JobPending) (hm_values (jm_jobs m))"

definition check_job_timeouts :: "u64 \<Rightarrow> JobManager \<Rightarrow> JobManager \<times> h256 list" where
  "check_job_timeouts now m =
     (case hm_sweep (job_check_timeout now) (jm_jobs m) of (jobs, timed_out) \<Rightarrow> (m\<lparr>jm_jobs := jobs\<rparr>, timed_out))"

record JobManagerStats =
  jt_total_jobs :: u64
  jt_total_value :: u64
  jt_active_jobs :: u64
  jt_completed_jobs :: u64
  jt_failed_jobs :: u64
  jt_by_status :: "JobStatus \<Rightarrow> u64"

definition job_manager_stats :: "JobManager \<Rightarrow> JobManagerStats" where
  "job_manager_stats m =
     (let jobs = hm_values (jm_jobs m);
          count = (\<lambda>s. of_nat (length (filter (\<lambda>j. jb_status j = s) jobs)))
      in \<lparr>jt_total_jobs = jm_total_jobs m, jt_total_value = jm_total_value m,
          jt_active_jobs = of_nat (length (filter job_is_active jobs)),
          jt_completed_jobs = count JobVerified, jt_failed_jobs = count JobFailed, jt_by_status = count\<rparr>)"

subsection \<open>The life of a job\<close>

inductive job_step :: "ComputeJob \<Rightarrow> ComputeJob \<Rightarrow> bool" where
  assign: "job_assign now j node price = Ok j' \<Longrightarrow> job_step j j'"
| start: "job_start now j = Ok j' \<Longrightarrow> job_step j j'"
| complete: "job_complete now j h n = Ok j' \<Longrightarrow> job_step j j'"
| verify: "job_verify j = Ok j' \<Longrightarrow> job_step j j'"
| fail: "job_fail now j error = Ok j' \<Longrightarrow> job_step j j'"
| cancel: "job_cancel now j = Ok j' \<Longrightarrow> job_step j j'"
| timeout: "job_check_timeout now j = (j', True) \<Longrightarrow> job_step j j'"
| retry: "job_retry j = Ok j' \<Longrightarrow> job_step j j'"

inductive_cases job_stepE: "job_step j j'"

lemmas job_ops = job_assign_def job_start_def job_complete_def job_verify_def job_fail_def job_cancel_def
  job_check_timeout_def job_retry_def

definition job_ok :: "ComputeJob \<Rightarrow> bool" where
  "job_ok j \<longleftrightarrow> jb_escrow_amount j = js_max_price (jb_spec j) \<and> jb_agreed_price j \<le> js_max_price (jb_spec j)
     \<and> jb_max_retries j = 3 \<and> jb_retry_count j \<le> 3
     \<and> (jb_status j \<in> {JobAssigned, JobRunning, JobCompleted, JobVerified} \<longrightarrow> jb_assigned_node j \<noteq> None)
     \<and> (jb_status j \<in> {JobRunning, JobCompleted, JobVerified} \<longrightarrow> jb_started_at j \<noteq> None)
     \<and> (jb_status j \<in> {JobCompleted, JobVerified} \<longrightarrow> jb_result_hash j \<noteq> None)
     \<and> jb_status j \<noteq> JobDisputed"

lemma new_job_ok: "job_ok (ComputeJob_new e now submitter spec)"
  by (simp add: job_ok_def ComputeJob_new_def)

lemma retry_count_step: "(n :: u32) \<le> 3 \<Longrightarrow> \<not> 3 \<le> n \<Longrightarrow> n + 1 \<le> 3"
  using unat_add_one [of n] by (cases "n + 1 = 0") (auto simp: word_le_nat_alt)

lemma assign_ok: "job_assign now j node price = Ok j' \<Longrightarrow> job_ok j \<Longrightarrow> job_ok j'"
  by (auto simp: job_ok_def job_assign_def not_less split: if_splits)

lemma start_ok: "job_start now j = Ok j' \<Longrightarrow> job_ok j \<Longrightarrow> job_ok j'"
  by (clarsimp simp: job_ok_def job_start_def split: if_splits)

lemma complete_ok: "job_complete now j h n = Ok j' \<Longrightarrow> job_ok j \<Longrightarrow> job_ok j'"
  by (clarsimp simp: job_ok_def job_complete_def split: if_splits)

lemma verify_ok: "job_verify j = Ok j' \<Longrightarrow> job_ok j \<Longrightarrow> job_ok j'"
  by (clarsimp simp: job_ok_def job_verify_def split: if_splits)

lemma fail_ok: "job_fail now j error = Ok j' \<Longrightarrow> job_ok j \<Longrightarrow> job_ok j'"
  by (clarsimp simp: job_ok_def job_fail_def split: if_splits)

lemma cancel_ok: "job_cancel now j = Ok j' \<Longrightarrow> job_ok j \<Longrightarrow> job_ok j'"
  by (clarsimp simp: job_ok_def job_cancel_def split: if_splits)

lemma timeout_ok: "job_ok j \<Longrightarrow> job_ok (fst (job_check_timeout now j))"
  by (simp add: job_ok_def job_check_timeout_def Let_def)

lemma retry_ok:
  assumes "job_retry j = Ok j'" and ok: "job_ok j"
  shows "job_ok j'"
proof -
  have j': "\<not> jb_max_retries j \<le> jb_retry_count j" "jb_retry_count j' = jb_retry_count j + 1"
      "jb_status j' = JobPending" "jb_spec j' = jb_spec j" "jb_escrow_amount j' = jb_escrow_amount j"
      "jb_agreed_price j' = jb_agreed_price j" "jb_max_retries j' = jb_max_retries j"
    using assms(1) by (auto simp: job_retry_def split: if_splits)
  then have "jb_retry_count j + 1 \<le> 3" using ok retry_count_step by (simp add: job_ok_def)
  then show ?thesis using ok by (simp add: job_ok_def j')
qed

lemma job_ok_step: "job_step j j' \<Longrightarrow> job_ok j \<Longrightarrow> job_ok j'"
proof (induction rule: job_step.induct)
  case (timeout now j j')
  then show ?case using timeout_ok [of j now] by simp
qed (blast intro: assign_ok start_ok complete_ok verify_ok fail_ok cancel_ok retry_ok)+

lemma job_ok_steps: "job_step\<^sup>*\<^sup>* j j' \<Longrightarrow> job_ok j \<Longrightarrow> job_ok j'"
  by (induction rule: rtranclp_induct) (auto intro: job_ok_step)

lemma no_step_from_final:
  assumes "jb_status j \<in> {JobVerified, JobCancelled}"
  shows "\<not> job_step j j'"
proof
  assume "job_step j j'"
  then show False by cases (use assms in \<open>auto simp: job_ops Let_def\<close>)
qed

subsection \<open>Runs of the manager\<close>

datatype job_op =
    JSubmit u64 address JobSpec
  | JAssign u64 h256 address u64
  | JStart u64 h256 address
  | JResult u64 JobResult
  | JVerify h256
  | JFail u64 h256 string
  | JTimeouts u64

definition job_manager_step :: "ext \<Rightarrow> JobManager \<Rightarrow> job_op \<Rightarrow> JobManager" where
  "job_manager_step e m x =
     (case x of
        JSubmit now submitter spec \<Rightarrow> (case submit_job e now m submitter spec of Err _ \<Rightarrow> m | Ok (m', _) \<Rightarrow> m')
      | JAssign now i node price \<Rightarrow> ok_or m (assign_job now m i node price)
      | JStart now i node \<Rightarrow> ok_or m (start_job now m i node)
      | JResult now r \<Rightarrow> ok_or m (submit_job_result now m r)
      | JVerify i \<Rightarrow> ok_or m (verify_job m i)
      | JFail now i error \<Rightarrow> ok_or m (manager_fail_job now m i error)
      | JTimeouts now \<Rightarrow> fst (check_job_timeouts now m))"

text \<open>
  A job with a result has the hash its assigned node sent, and has not gone back to an earlier state; a job
  that is done or verified has a result.
\<close>

definition result_of :: "JobManager \<Rightarrow> ComputeJob \<Rightarrow> bool" where
  "result_of m j \<longleftrightarrow>
     (case hm_get (jm_results m) (jb_id j) of
        None \<Rightarrow> jb_status j \<notin> {JobCompleted, JobVerified}
      | Some r \<Rightarrow> jb_assigned_node j = Some (jr_node r) \<and> jb_result_hash j = Some (jr_result_hash r)
          \<and> jb_status j \<in> {JobCompleted, JobVerified, JobFailed, JobTimedOut})"

definition job_manager_inv :: "JobManager \<Rightarrow> bool" where
  "job_manager_inv m \<longleftrightarrow> hm_wf (jm_jobs m)
     \<and> (\<forall>i j. hm_get (jm_jobs m) i = Some j \<longrightarrow> jb_id j = i \<and> job_ok j \<and> result_of m j)
     \<and> (\<forall>i r. hm_get (jm_results m) i = Some r \<longrightarrow> hm_contains (jm_jobs m) i)"

lemma with_job_cases:
  assumes "with_job m i f = Ok m'"
  obtains j j' where "hm_get (jm_jobs m) i = Some j" and "f j = Ok j'"
    and "m' = m\<lparr>jm_jobs := hm_insert i j' (jm_jobs m)\<rparr>"
  using assms by (auto simp: with_job_def and_then_Ok_iff split: option.splits)

lemma with_job_inv:
  assumes inv: "job_manager_inv m" and run: "with_job m i f = Ok m'"
    and f: "\<And>j j'. hm_get (jm_jobs m) i = Some j \<Longrightarrow> f j = Ok j' \<Longrightarrow> job_ok j \<Longrightarrow> result_of m j
      \<Longrightarrow> jb_id j' = jb_id j \<and> job_step j j' \<and> result_of m j'"
  shows "job_manager_inv m'"
proof -
  obtain j j' where j: "hm_get (jm_jobs m) i = Some j" "f j = Ok j'" and m': "m' = m\<lparr>jm_jobs := hm_insert i j' (jm_jobs m)\<rparr>"
    by (rule with_job_cases [OF run])
  have ok: "job_ok j" "result_of m j" "jb_id j = i" using inv j(1) by (auto simp: job_manager_inv_def)
  then have "jb_id j' = i" "job_step j j'" "result_of m j'" using f [OF j ok(1,2)] by auto
  moreover from this have "job_ok j'" using job_ok_step ok(1) by blast
  ultimately show ?thesis
    using inv unfolding m' job_manager_inv_def by (auto simp: result_of_def split: if_splits)
qed

lemma submit_job_inv:
  assumes inv: "job_manager_inv m" and run: "submit_job e now m submitter spec = Ok (m', j)"
  shows "job_manager_inv m'"
proof -
  have fresh: "\<not> hm_contains (jm_jobs m) (jb_id j)" and j: "j = ComputeJob_new e now submitter spec"
    and m': "jm_jobs m' = hm_insert (jb_id j) j (jm_jobs m)" "jm_results m' = jm_results m"
    using run by (auto simp: submit_job_def Let_def split: if_splits)
  have "hm_get (jm_results m) (jb_id j) = None"
    using inv fresh by (auto simp: job_manager_inv_def hm_contains_def)
  then have "result_of m' j" by (simp add: result_of_def m'(2) j ComputeJob_new_def)
  then show ?thesis
    using inv new_job_ok [of e now submitter spec] unfolding job_manager_inv_def m'
    by (auto simp: result_of_def m'(2) j split: if_splits)
qed

lemma job_result_inv:
  assumes inv: "job_manager_inv m" and run: "submit_job_result now m r = Ok m'"
  shows "job_manager_inv m'"
proof -
  obtain m1 where m1: "with_job m (jr_job_id r) (\<lambda>j. and_then (require_node j (jr_node r))
       (\<lambda>_. job_complete now j (jr_result_hash r) (jr_result_size r))) = Ok m1"
    and m': "m' = m1\<lparr>jm_results := hm_insert (jr_job_id r) r (jm_results m1)\<rparr>"
    using run by (auto simp: submit_job_result_def and_then_Ok_iff)
  obtain j j' where j: "hm_get (jm_jobs m) (jr_job_id r) = Some j" "jb_assigned_node j = Some (jr_node r)"
      "job_complete now j (jr_result_hash r) (jr_result_size r) = Ok j'"
    and m1': "m1 = m\<lparr>jm_jobs := hm_insert (jr_job_id r) j' (jm_jobs m)\<rparr>"
    by (rule with_job_cases [OF m1]) (auto simp: and_then_Ok_iff require_node_def)
  have "job_ok j'" using inv j job_ok_step [OF job_step.complete [OF j(3)]] by (auto simp: job_manager_inv_def)
  moreover have j': "jb_id j' = jr_job_id r" "jb_assigned_node j' = Some (jr_node r)" "jb_status j' = JobCompleted"
      "jb_result_hash j' = Some (jr_result_hash r)"
    using inv j by (auto simp: job_complete_def job_manager_inv_def split: if_splits)
  ultimately show ?thesis
    using inv unfolding m' m1' job_manager_inv_def by (auto simp: result_of_def split: if_splits)
qed

lemma job_manager_inv_step: "job_manager_inv m \<Longrightarrow> job_manager_inv (job_manager_step e m x)"
proof -
  assume inv: "job_manager_inv m"
  have keep: "job_manager_inv (ok_or m r)" if "\<And>m'. r = Ok m' \<Longrightarrow> job_manager_inv m'" for r
    using inv that by (cases r) simp_all
  show ?thesis
  proof (cases x)
    case (JSubmit now submitter spec)
    then show ?thesis
      using inv submit_job_inv [OF inv] by (auto simp: job_manager_step_def split: sum.split)
  next
    case (JAssign now i node price)
    have "job_manager_inv m'" if run: "assign_job now m i node price = Ok m'" for m'
    proof -
      obtain m1 where m1: "with_job m i (\<lambda>j. job_assign now j node price) = Ok m1"
        and m': "m' = m1\<lparr>jm_by_node := hm_push node i (jm_by_node m1)\<rparr>"
        using run by (auto simp: assign_job_def and_then_Ok_iff)
      have "job_manager_inv m1"
        by (rule with_job_inv [OF inv m1])
          (auto simp: job_assign_def result_of_def intro: job_step.assign split: if_splits option.splits)
      then show ?thesis by (auto simp: m' job_manager_inv_def result_of_def)
    qed
    then show ?thesis by (simp add: JAssign job_manager_step_def keep)
  next
    case (JStart now i node)
    have "job_manager_inv m'" if run: "start_job now m i node = Ok m'" for m'
      by (rule with_job_inv [OF inv run [unfolded start_job_def]])
        (auto simp: and_then_Ok_iff job_start_def result_of_def intro: job_step.start split: if_splits option.splits)
    then show ?thesis by (simp add: JStart job_manager_step_def keep)
  next
    case (JVerify i)
    have "job_manager_inv m'" if run: "verify_job m i = Ok m'" for m'
      by (rule with_job_inv [OF inv run [unfolded verify_job_def]])
        (auto simp: job_verify_def result_of_def intro: job_step.verify split: if_splits option.splits)
    then show ?thesis by (simp add: JVerify job_manager_step_def keep)
  next
    case (JFail now i error)
    have "job_manager_inv m'" if run: "manager_fail_job now m i error = Ok m'" for m'
      by (rule with_job_inv [OF inv run [unfolded manager_fail_job_def]])
        (auto simp: job_fail_def result_of_def intro: job_step.fail split: if_splits option.splits)
    then show ?thesis by (simp add: JFail job_manager_step_def keep)
  next
    case (JTimeouts now)
    have "jb_id (fst (job_check_timeout now j)) = jb_id j \<and> job_ok (fst (job_check_timeout now j))
        \<and> result_of m (fst (job_check_timeout now j))" if "job_ok j" "result_of m j" for j
      using that by (auto simp: job_check_timeout_def job_ok_def result_of_def Let_def split: option.splits)
    then show ?thesis
      using inv unfolding JTimeouts job_manager_step_def check_job_timeouts_def job_manager_inv_def
      by (auto simp: case_prod_unfold result_of_def hm_contains_def)
  qed (simp add: job_manager_step_def keep job_result_inv [OF inv])
qed

interpretation jobs: machine JobManager_new "job_manager_step e" job_manager_inv
  by unfold_locales (simp add: job_manager_inv_def JobManager_new_def, rule job_manager_inv_step)

subsection \<open>Properties\<close>

text \<open>
  C38. The life of a job: along any sequence of operations on a new job the agreed price stays within the
  escrow, which is the maximum price; it is retried at most three times; a job that runs, is completed or
  verified has a node and a start, a completed or verified one a result; and nothing happens to a job any
  more once it is verified or cancelled.
\<close>

theorem job_lifecycle:
  assumes "job_step\<^sup>*\<^sup>* (ComputeJob_new e now submitter spec) j"
  shows "jb_agreed_price j \<le> jb_escrow_amount j \<and> jb_escrow_amount j = js_max_price (jb_spec j) \<and> jb_retry_count j \<le> 3
    \<and> (jb_status j \<in> {JobRunning, JobCompleted, JobVerified} \<longrightarrow> jb_assigned_node j \<noteq> None \<and> jb_started_at j \<noteq> None)
    \<and> (jb_status j \<in> {JobCompleted, JobVerified} \<longrightarrow> jb_result_hash j \<noteq> None)
    \<and> (jb_status j \<in> {JobVerified, JobCancelled} \<longrightarrow> \<not> (\<exists>j'. job_step j j'))"
  using job_ok_steps [OF assms new_job_ok] no_step_from_final [of j] by (auto simp: job_ok_def)

definition example_job_spec :: JobSpec where
  "example_job_spec =
     \<lparr>js_job_type = Inference, js_model_id = None, js_input_hash = h256_zero, js_input_size = 0,
      js_resources = ResourceRequirements_default, js_max_price = 100, js_priority = 5, js_params = None,
      js_min_reputation = 0, js_verification = VtNone\<rparr>"

theorem job_lifecycle_witness:
  "\<exists>j. job_assign 1 (ComputeJob_new sample_ext 0 address_zero example_job_spec) address_zero 70 = Ok j
    \<and> jb_agreed_price j \<le> jb_escrow_amount j"
proof -
  let ?new = "ComputeJob_new sample_ext 0 address_zero example_job_spec"
  obtain j where j: "job_assign 1 ?new address_zero 70 = Ok j"
    by (simp add: job_assign_def ComputeJob_new_def example_job_spec_def)
  then have "job_step\<^sup>*\<^sup>* ?new j" by (blast intro: job_step.assign)
  from job_lifecycle [OF this] j show ?thesis by blast
qed

text \<open>
  Only the assigned node's result counts: whatever the manager was asked to do, a verified job has a
  stored result, sent by the node the job is assigned to, with the hash the job records, and the price
  agreed with that node is within the escrow.
\<close>

theorem verified_job_has_result:
  assumes "m = run (job_manager_step e) JobManager_new ops" and "get_job m i = Some j" and "jb_status j = JobVerified"
  shows "\<exists>r. hm_get (jm_results m) i = Some r \<and> jb_assigned_node j = Some (jr_node r)
    \<and> jb_result_hash j = Some (jr_result_hash r) \<and> jb_agreed_price j \<le> jb_escrow_amount j"
proof -
  have "job_manager_inv m" unfolding assms(1) by (intro jobs.inv_run jobs.inv_init)
  then have "jb_id j = i" "job_ok j" "result_of m j" using assms(2) by (auto simp: job_manager_inv_def get_job_def)
  then show ?thesis using assms(3) by (auto simp: result_of_def job_ok_def split: option.splits)
qed

definition example_job_ops :: "job_op list" where
  "example_job_ops =
     (let i = job_generate_id sample_ext 0 address_zero example_job_spec in
      [JSubmit 0 address_zero example_job_spec, JAssign 1 i address_zero 70, JStart 2 i address_zero,
       JResult 3 \<lparr>jr_job_id = i, jr_node = address_zero, jr_result_hash = h256_zero, jr_result_size = 1,
         jr_metrics = \<lparr>em_gpu_time_ms = 0, em_cpu_time_ms = 0, em_peak_memory_mb = 0, em_data_transferred = 0,
           em_iterations = None, em_final_loss = None\<rparr>, jr_signature = [], jr_submitted_at = 3\<rparr>, JVerify i])"

theorem verified_job_has_result_witness:
  "\<exists>r. hm_get (jm_results (run (job_manager_step sample_ext) JobManager_new example_job_ops))
      (job_generate_id sample_ext 0 address_zero example_job_spec) = Some r \<and> jr_node r = address_zero"
proof -
  let ?m = "run (job_manager_step sample_ext) JobManager_new example_job_ops"
  let ?i = "job_generate_id sample_ext 0 address_zero example_job_spec"
  obtain j where j: "get_job ?m ?i = Some j" "jb_status j = JobVerified" "jb_assigned_node j = Some address_zero"
    by (simp add: example_job_ops_def Let_def job_manager_step_def submit_job_def JobManager_new_def ComputeJob_new_def
        assign_job_def start_job_def submit_job_result_def verify_job_def with_job_def require_node_def job_ops
        get_job_def hm_contains_def example_job_spec_def)
  from verified_job_has_result [OF refl j(1,2)] j(3) show ?thesis by auto
qed

text \<open>
  Time limits. \<open>retry\<close> leaves the time of creation, so a job older than ten minutes that is retried is
  declared late by the next check, before a node can take it; an assigned job that is never started has
  no time limit at all.
\<close>

lemma retried_old_job_times_out:
  assumes "job_retry j = Ok j'" and "600 < now - jb_created_at j"
  shows "jb_status (fst (job_check_timeout now j')) = JobTimedOut"
  using assms by (auto simp: job_retry_def job_check_timeout_def Let_def split: if_splits)

lemma assigned_never_times_out: "jb_status j = JobAssigned \<Longrightarrow> job_check_timeout now j = (j, False)"
  by (simp add: job_check_timeout_def Let_def)

end
