(* ===== verification/AI_Nodes.thy ===== *)
theory AI_Nodes
  imports AI_Jobs "HOL-Library.Sublist"
begin

section \<open>Compute nodes\<close>

text \<open>
  \<open>pyrax-node/src/ai/compute/node.rs\<close>: a compute node with its stake, reputation and load, and the pool of
  nodes with its indices. \<open>success_rate\<close>, a quotient in floating point, is left to its caller; the panic of
  an average over a counter that has wrapped to zero is \<open>None\<close>.
\<close>

definition MIN_COMPUTE_STAKE :: u64 where "MIN_COMPUTE_STAKE = 1000 * 100000000"
definition MAX_CONCURRENT_JOBS :: u32 where "MAX_CONCURRENT_JOBS = 10"

datatype NodeStatus = NodeRegistering | NodeActive | NodeBusy | NodePaused | NodeOffline | NodeSlashed | NodeUnbonding

datatype NodeCapability =
  GpuCuda | GpuRocm | HighMemory | FastStorage | CapTEE | HighBandwidth | LLMOptimized | VisionOptimized

record GpuInfo =
  gi_model :: string
  gi_vendor :: string
  gi_vram_mb :: u64
  gi_compute_capability :: "string option"
  gi_driver_version :: string
  gi_cuda_version :: "string option"
  gi_index :: u32

record NodeSpec =
  ns_cpu_model :: string
  ns_cpu_cores :: u32
  ns_ram_mb :: u64
  ns_storage_mb :: u64
  ns_storage_type :: string
  ns_gpus :: "GpuInfo list"
  ns_total_gpu_memory_mb :: u64
  ns_bandwidth_mbps :: u32
  ns_region :: string
  ns_capabilities :: "NodeCapability list"

definition compute_score :: "NodeSpec \<Rightarrow> u64" where
  "compute_score s =
     sum_list (map (\<lambda>g. gi_vram_mb g div 1024) (ns_gpus s)) * 100 + ucast (ns_cpu_cores s) * 10 + ns_ram_mb s div 1024"

definition meets_requirements :: "NodeSpec \<Rightarrow> ResourceRequirements \<Rightarrow> bool" where
  "meets_requirements s req =
     (if ns_total_gpu_memory_mb s < rq_gpu_memory_mb req then False
      else if ns_cpu_cores s < rq_cpu_cores req then False
      else if ns_ram_mb s < rq_ram_mb req then False
      else if ns_storage_mb s < rq_storage_mb req then False
      else case rq_gpu_type req of
        Some gpu_type \<Rightarrow> list_ex (\<lambda>g. sublist gpu_type (gi_model g)) (ns_gpus s)
      | None \<Rightarrow> True)"

record ComputeNode =
  cn_address :: address
  cn_endpoint :: string
  cn_spec :: NodeSpec
  cn_status :: NodeStatus
  cn_stake :: u64
  cn_reputation :: u32
  cn_jobs_completed :: u64
  cn_jobs_failed :: u64
  cn_total_earnings :: u64
  cn_active_jobs :: u32
  cn_max_concurrent_jobs :: u32
  cn_price_per_hour :: u64
  cn_registered_at :: u64
  cn_last_heartbeat :: u64
  cn_uptime_percent :: u32
  cn_avg_completion_time :: u64
  cn_slash_count :: u32
  cn_verified :: bool

datatype NodeError =
    NodeInsufficientStake u64 u64
  | NodeNotActive
  | NodeAtCapacity
  | NodeHasActiveJobs
  | NodeNotFound address
  | NodeAlreadyRegistered address
  | NodeInvalidEndpoint string
  | NodeUnauthorized string

subsection \<open>A node\<close>

definition ComputeNode_new :: "u64 \<Rightarrow> address \<Rightarrow> string \<Rightarrow> NodeSpec \<Rightarrow> u64 \<Rightarrow> ComputeNode" where
  "ComputeNode_new now addr endpoint spec stake =
     \<lparr>cn_address = addr, cn_endpoint = endpoint, cn_spec = spec, cn_status = NodeRegistering, cn_stake = stake,
      cn_reputation = 50, cn_jobs_completed = 0, cn_jobs_failed = 0, cn_total_earnings = 0, cn_active_jobs = 0,
      cn_max_concurrent_jobs = MAX_CONCURRENT_JOBS, cn_price_per_hour = 0, cn_registered_at = now,
      cn_last_heartbeat = now, cn_uptime_percent = 100, cn_avg_completion_time = 0, cn_slash_count = 0,
      cn_verified = False\<rparr>"

definition node_activate :: "u64 \<Rightarrow> ComputeNode \<Rightarrow> NodeError + ComputeNode" where
  "node_activate now n =
     (if cn_stake n < MIN_COMPUTE_STAKE then Err (NodeInsufficientStake MIN_COMPUTE_STAKE (cn_stake n))
      else Ok (n\<lparr>cn_status := NodeActive, cn_last_heartbeat := now\<rparr>))"

definition node_pause :: "ComputeNode \<Rightarrow> ComputeNode" where
  "node_pause n = (if cn_status n = NodeActive \<or> cn_status n = NodeBusy then n\<lparr>cn_status := NodePaused\<rparr> else n)"

definition load_status :: "ComputeNode \<Rightarrow> NodeStatus" where
  "load_status n = (if cn_max_concurrent_jobs n \<le> cn_active_jobs n then NodeBusy else NodeActive)"

definition node_resume :: "ComputeNode \<Rightarrow> ComputeNode" where
  "node_resume n = (if cn_status n = NodePaused then n\<lparr>cn_status := load_status n\<rparr> else n)"

definition node_heartbeat :: "u64 \<Rightarrow> ComputeNode \<Rightarrow> ComputeNode" where
  "node_heartbeat now n =
     (let n1 = n\<lparr>cn_last_heartbeat := now\<rparr> in
      if cn_status n1 = NodeOffline then n1\<lparr>cn_status := load_status n1\<rparr> else n1)"

definition is_online :: "u64 \<Rightarrow> ComputeNode \<Rightarrow> bool" where
  "is_online now n = (now - cn_last_heartbeat n < 300)"

definition accept_job :: "ComputeNode \<Rightarrow> NodeError + ComputeNode" where
  "accept_job n =
     (if cn_status n \<noteq> NodeActive then Err NodeNotActive
      else if cn_max_concurrent_jobs n \<le> cn_active_jobs n then Err NodeAtCapacity
      else let n1 = n\<lparr>cn_active_jobs := cn_active_jobs n + 1\<rparr> in
           Ok (if cn_max_concurrent_jobs n1 \<le> cn_active_jobs n1 then n1\<lparr>cn_status := NodeBusy\<rparr> else n1))"

definition free_slot :: "ComputeNode \<Rightarrow> ComputeNode" where
  "free_slot n =
     (if cn_status n = NodeBusy \<and> cn_active_jobs n < cn_max_concurrent_jobs n then n\<lparr>cn_status := NodeActive\<rparr> else n)"

definition node_complete_job :: "ComputeNode \<Rightarrow> u64 \<Rightarrow> u64 \<Rightarrow> ComputeNode option" where
  "node_complete_job n duration_secs earnings =
     (let n1 = n\<lparr>cn_active_jobs := saturating_sub (cn_active_jobs n) 1, cn_jobs_completed := cn_jobs_completed n + 1,
                  cn_total_earnings := cn_total_earnings n + earnings\<rparr>;
          total_time = cn_avg_completion_time n1 * (cn_jobs_completed n1 - 1) + duration_secs
      in map_option (\<lambda>avg. free_slot (n1\<lparr>cn_avg_completion_time := avg, cn_reputation := min (cn_reputation n1 + 1) 100\<rparr>))
           (div_u64 total_time (cn_jobs_completed n1)))"

definition node_fail_job :: "ComputeNode \<Rightarrow> ComputeNode" where
  "node_fail_job n =
     free_slot (n\<lparr>cn_active_jobs := saturating_sub (cn_active_jobs n) 1, cn_jobs_failed := cn_jobs_failed n + 1,
       cn_reputation := saturating_sub (cn_reputation n) 2\<rparr>)"

definition node_slash :: "ComputeNode \<Rightarrow> u8 \<Rightarrow> ComputeNode \<times> u64" where
  "node_slash n slash_percent =
     (let slash_amount = mul_div (cn_stake n) (ucast slash_percent) 100;
          n1 = n\<lparr>cn_stake := saturating_sub (cn_stake n) slash_amount, cn_slash_count := cn_slash_count n + 1,
                 cn_reputation := saturating_sub (cn_reputation n) 10\<rparr>
      in (if 3 \<le> cn_slash_count n1 \<or> cn_stake n1 < MIN_COMPUTE_STAKE then n1\<lparr>cn_status := NodeSlashed\<rparr> else n1,
          slash_amount))"

definition add_stake :: "ComputeNode \<Rightarrow> u64 \<Rightarrow> ComputeNode" where
  "add_stake n amount = n\<lparr>cn_stake := cn_stake n + amount\<rparr>"

definition request_unstake :: "ComputeNode \<Rightarrow> NodeError + ComputeNode" where
  "request_unstake n =
     (if 0 < cn_active_jobs n then Err NodeHasActiveJobs else Ok (n\<lparr>cn_status := NodeUnbonding\<rparr>))"

definition set_price :: "ComputeNode \<Rightarrow> u64 \<Rightarrow> ComputeNode" where
  "set_price n price_per_hour = n\<lparr>cn_price_per_hour := price_per_hour\<rparr>"

definition node_calculate_price :: "ComputeNode \<Rightarrow> u64 \<Rightarrow> u64" where
  "node_calculate_price n duration_secs = (cn_price_per_hour n * duration_secs) div 3600"

subsection \<open>The pool\<close>

record ComputePool =
  cp_nodes :: "(address, ComputeNode) hashmap"
  cp_by_region :: "(string, address list) hashmap"
  cp_by_capability :: "(NodeCapability, address list) hashmap"
  cp_active_nodes :: "address list"
  cp_total_stake :: u64

definition ComputePool_new :: ComputePool where
  "ComputePool_new = \<lparr>cp_nodes = [], cp_by_region = [], cp_by_capability = [], cp_active_nodes = [], cp_total_stake = 0\<rparr>"

definition pool_register :: "ComputePool \<Rightarrow> ComputeNode \<Rightarrow> NodeError + ComputePool" where
  "pool_register p n =
     (let a = cn_address n in
      if hm_contains (cp_nodes p) a then Err (NodeAlreadyRegistered a)
      else Ok (p\<lparr>cp_by_region := hm_push (ns_region (cn_spec n)) a (cp_by_region p),
                 cp_by_capability := foldl (\<lambda>m cap. hm_push cap a m) (cp_by_capability p) (ns_capabilities (cn_spec n)),
                 cp_total_stake := cp_total_stake p + cn_stake n,
                 cp_nodes := hm_insert a n (cp_nodes p)\<rparr>))"

definition pool_get :: "ComputePool \<Rightarrow> address \<Rightarrow> ComputeNode option" where
  "pool_get p a = hm_get (cp_nodes p) a"

definition pool_update :: "ComputePool \<Rightarrow> address \<Rightarrow> (ComputeNode \<Rightarrow> ComputeNode) \<Rightarrow> NodeError + ComputePool" where
  "pool_update p a f =
     (case hm_get (cp_nodes p) a of
        None \<Rightarrow> Err (NodeNotFound a)
      | Some n \<Rightarrow> Ok (p\<lparr>cp_nodes := hm_insert a (f n) (cp_nodes p)\<rparr>))"

definition pool_activate :: "u64 \<Rightarrow> ComputePool \<Rightarrow> address \<Rightarrow> NodeError + ComputePool" where
  "pool_activate now p a =
     (case hm_get (cp_nodes p) a of
        None \<Rightarrow> Err (NodeNotFound a)
      | Some n \<Rightarrow> and_then (node_activate now n) (\<lambda>n'.
          Ok (p\<lparr>cp_nodes := hm_insert a n' (cp_nodes p), cp_active_nodes := cp_active_nodes p @ [a]\<rparr>)))"

definition pool_heartbeat :: "u64 \<Rightarrow> ComputePool \<Rightarrow> address \<Rightarrow> NodeError + ComputePool" where
  "pool_heartbeat now p a = pool_update p a (node_heartbeat now)"

definition node_available :: "u64 \<Rightarrow> ResourceRequirements \<Rightarrow> ComputeNode \<Rightarrow> bool" where
  "node_available now req n = (cn_status n = NodeActive \<and> is_online now n \<and> meets_requirements (cn_spec n) req)"

definition get_available :: "u64 \<Rightarrow> ComputePool \<Rightarrow> ResourceRequirements \<Rightarrow> ComputeNode list" where
  "get_available now p req = filter (node_available now req) (hm_values (cp_nodes p))"

definition get_by_region :: "ComputePool \<Rightarrow> string \<Rightarrow> ComputeNode list" where
  "get_by_region p region = hm_lookup_all (cp_nodes p) (hm_list (cp_by_region p) region)"

definition get_by_capability :: "ComputePool \<Rightarrow> NodeCapability \<Rightarrow> ComputeNode list" where
  "get_by_capability p cap = hm_lookup_all (cp_nodes p) (hm_list (cp_by_capability p) cap)"

definition mark_offline :: "u64 \<Rightarrow> ComputeNode \<Rightarrow> ComputeNode \<times> bool" where
  "mark_offline now n =
     (if \<not> is_online now n \<and> cn_status n = NodeActive then (n\<lparr>cn_status := NodeOffline\<rparr>, True) else (n, False))"

definition check_offline :: "u64 \<Rightarrow> ComputePool \<Rightarrow> ComputePool \<times> address list" where
  "check_offline now p =
     (case hm_sweep (mark_offline now) (cp_nodes p) of (nodes, offline) \<Rightarrow>
        (p\<lparr>cp_nodes := nodes, cp_active_nodes := filter (\<lambda>a. a \<notin> set offline) (cp_active_nodes p)\<rparr>, offline))"

record PoolStats =
  pl_total_nodes :: u64
  pl_active_nodes :: u64
  pl_total_stake :: u64
  pl_total_compute_power :: u64
  pl_total_gpu_memory_gb :: u64
  pl_by_status :: "NodeStatus \<Rightarrow> u64"

definition pool_stats :: "ComputePool \<Rightarrow> PoolStats" where
  "pool_stats p =
     (let nodes = hm_values (cp_nodes p);
          working = filter (\<lambda>n. cn_status n = NodeActive \<or> cn_status n = NodeBusy) nodes
      in \<lparr>pl_total_nodes = of_nat (length nodes), pl_active_nodes = of_nat (length (cp_active_nodes p)),
          pl_total_stake = cp_total_stake p,
          pl_total_compute_power = sum_list (map (\<lambda>n. compute_score (cn_spec n)) working),
          pl_total_gpu_memory_gb = sum_list (map (\<lambda>n. ns_total_gpu_memory_mb (cn_spec n)) working) div 1024,
          pl_by_status = (\<lambda>s. of_nat (length (filter (\<lambda>n. cn_status n = s) nodes)))\<rparr>)"

subsection \<open>Load and reputation of a node\<close>

datatype node_op =
    NActivate u64
  | NPause
  | NResume
  | NHeartbeat u64
  | NAccept
  | NComplete u64 u64
  | NFail
  | NSlash u8
  | NStake u64
  | NUnstake
  | NPrice u64

definition node_step :: "ComputeNode \<Rightarrow> node_op \<Rightarrow> ComputeNode" where
  "node_step n x =
     (case x of
        NActivate now \<Rightarrow> ok_or n (node_activate now n)
      | NPause \<Rightarrow> node_pause n
      | NResume \<Rightarrow> node_resume n
      | NHeartbeat now \<Rightarrow> node_heartbeat now n
      | NAccept \<Rightarrow> ok_or n (accept_job n)
      | NComplete d earned \<Rightarrow> (case node_complete_job n d earned of None \<Rightarrow> n | Some n' \<Rightarrow> n')
      | NFail \<Rightarrow> node_fail_job n
      | NSlash p \<Rightarrow> fst (node_slash n p)
      | NStake a \<Rightarrow> add_stake n a
      | NUnstake \<Rightarrow> ok_or n (request_unstake n)
      | NPrice p \<Rightarrow> set_price n p)"

definition node_inv :: "ComputeNode \<Rightarrow> bool" where
  "node_inv n \<longleftrightarrow> cn_max_concurrent_jobs n = 10 \<and> cn_active_jobs n \<le> 10 \<and> cn_reputation n \<le> 100"

lemma add_one_le: "(a :: u32) < b \<Longrightarrow> a + 1 \<le> b"
  by (rule inc_le)

lemma saturating_sub_mono: "(a :: 'a::len word) \<le> c \<Longrightarrow> saturating_sub a b \<le> c"
  using saturating_sub_le order_trans by blast

lemma free_slot_load [simp]:
  "cn_max_concurrent_jobs (free_slot n) = cn_max_concurrent_jobs n" "cn_active_jobs (free_slot n) = cn_active_jobs n"
  "cn_reputation (free_slot n) = cn_reputation n"
  by (simp_all add: free_slot_def)

lemma accept_job_Ok:
  assumes "accept_job n = Ok n'"
  shows "cn_active_jobs n < cn_max_concurrent_jobs n" and "cn_active_jobs n' = cn_active_jobs n + 1"
    and "cn_max_concurrent_jobs n' = cn_max_concurrent_jobs n" and "cn_reputation n' = cn_reputation n"
  using assms by (auto simp: accept_job_def Let_def not_le split: if_splits)

lemma accept_job_inv: "node_inv n \<Longrightarrow> node_inv (ok_or n (accept_job n))"
proof (cases "accept_job n")
  case (Inr n')
  assume "node_inv n"
  then show ?thesis
    using accept_job_Ok [OF Inr] add_one_le [of "cn_active_jobs n" 10] unfolding Inr by (simp add: node_inv_def)
qed simp

lemma node_inv_step: "node_inv n \<Longrightarrow> node_inv (node_step n x)"
proof (cases x)
  case NAccept
  assume "node_inv n"
  then show ?thesis unfolding NAccept node_step_def by (simp add: accept_job_inv)
qed (auto simp: node_inv_def node_step_def node_activate_def node_pause_def node_resume_def node_heartbeat_def
      node_complete_job_def node_fail_job_def node_slash_def add_stake_def request_unstake_def
      set_price_def Let_def intro!: saturating_sub_mono split: option.split)

interpretation node: machine "ComputeNode_new now addr endpoint spec stake" node_step node_inv
  by unfold_locales (simp add: node_inv_def ComputeNode_new_def MAX_CONCURRENT_JOBS_def, rule node_inv_step)

text \<open>
  A node is never overloaded: along any sequence of operations it has at most ten jobs at a time and a
  reputation of at most 100, and it takes a job only when it is active and below its limit.
\<close>

theorem node_within_limits:
  assumes "n = run node_step (ComputeNode_new now addr endpoint spec stake) ops"
  shows "cn_active_jobs n \<le> 10 \<and> cn_reputation n \<le> 100
    \<and> (is_ok (accept_job n) \<longleftrightarrow> cn_status n = NodeActive \<and> cn_active_jobs n < 10)"
proof -
  have "node_inv n" unfolding assms by (intro node.inv_run node.inv_init)
  then show ?thesis by (auto simp: node_inv_def accept_job_def Let_def not_le)
qed

definition example_node_spec :: NodeSpec where
  "example_node_spec =
     \<lparr>ns_cpu_model = ''EPYC'', ns_cpu_cores = 64, ns_ram_mb = 262144, ns_storage_mb = 2097152, ns_storage_type = ''NVMe'',
      ns_gpus = [], ns_total_gpu_memory_mb = 24576, ns_bandwidth_mbps = 1000, ns_region = ''eu'', ns_capabilities = []\<rparr>"

theorem node_within_limits_witness:
  "\<exists>n. n = run node_step (ComputeNode_new 0 address_zero [] example_node_spec MIN_COMPUTE_STAKE) [NActivate 0, NAccept]
    \<and> cn_active_jobs n = 1 \<and> is_ok (accept_job n)"
proof -
  let ?n = "run node_step (ComputeNode_new 0 address_zero [] example_node_spec MIN_COMPUTE_STAKE) [NActivate 0, NAccept]"
  have "cn_active_jobs ?n = 1 \<and> cn_status ?n = NodeActive"
    by (simp add: node_step_def ComputeNode_new_def node_activate_def accept_job_def MAX_CONCURRENT_JOBS_def Let_def word_le_nat_alt)
  then show ?thesis using node_within_limits [OF refl, of 0 address_zero "[]" example_node_spec MIN_COMPUTE_STAKE "[NActivate 0, NAccept]"]
    by auto
qed

text \<open>
  Penalties do not last: \<open>activate\<close> looks only at the stake, so a node slashed for the third time, or one
  that is unbonding, becomes active again while its stake is sufficient.
\<close>

lemma slashed_node_reactivates:
  assumes "MIN_COMPUTE_STAKE \<le> cn_stake n"
  shows "\<exists>n'. node_activate now n = Ok n' \<and> cn_status n' = NodeActive \<and> cn_slash_count n' = cn_slash_count n"
  using assms by (simp add: node_activate_def)

text \<open>A busy node is never taken for offline, whatever its last heartbeat.\<close>

lemma busy_never_offline: "cn_status n = NodeBusy \<Longrightarrow> mark_offline now n = (n, False)"
  by (simp add: mark_offline_def)

end
