(* ===== verification/AI_Scheduler.thy ===== *)
theory AI_Scheduler
  imports AI_Nodes
begin

section \<open>Scheduling compute jobs\<close>

text \<open>
  \<open>pyrax-node/src/ai/compute/scheduler.rs\<close>: the queue of jobs, the choice of a node and the allocations.
  The queue is a \<open>BinaryHeap\<close>, whose \<open>pop\<close> returns a greatest entry; it is a list here and of several
  greatest entries the first is taken, a choice the heap leaves open. The success rate of a node in percent
  is computed in floating point: it is the argument \<open>success_percent\<close>, and no theorem depends on it.
\<close>

datatype SchedulingPolicy = FCFS | ShortestFirst | PriorityBased | LowestPrice | BestReputation | Locality | Balanced

record ResourceAllocation =
  al_job_id :: h256
  al_node :: address
  al_gpu_memory_mb :: u64
  al_gpu_compute_units :: u32
  al_cpu_cores :: u32
  al_ram_mb :: u64
  al_storage_mb :: u64
  al_price :: u64
  al_allocated_at :: u64
  al_expected_duration :: u64

record QueuedJob =
  qj_job :: ComputeJob
  qj_priority_score :: u64
  qj_queued_at :: u64

record SchedulerStats =
  st_jobs_queued :: u64
  st_jobs_scheduled :: u64
  st_total_allocated_value :: u64
  st_avg_wait_time :: u64
  st_avg_allocation_time :: u64

definition SchedulerStats_default :: SchedulerStats where
  "SchedulerStats_default =
     \<lparr>st_jobs_queued = 0, st_jobs_scheduled = 0, st_total_allocated_value = 0, st_avg_wait_time = 0,
      st_avg_allocation_time = 0\<rparr>"

record JobScheduler =
  sd_policy :: SchedulingPolicy
  sd_queue :: "QueuedJob list"
  sd_allocations :: "(h256, ResourceAllocation) hashmap"
  sd_node_jobs :: "(address, h256 list) hashmap"
  sd_stats :: SchedulerStats
  sd_price_weight :: u32
  sd_reputation_weight :: u32
  sd_locality_weight :: u32

definition JobScheduler_new :: "SchedulingPolicy \<Rightarrow> JobScheduler" where
  "JobScheduler_new policy =
     \<lparr>sd_policy = policy, sd_queue = [], sd_allocations = [], sd_node_jobs = [], sd_stats = SchedulerStats_default,
      sd_price_weight = 30, sd_reputation_weight = 40, sd_locality_weight = 30\<rparr>"

definition set_policy :: "JobScheduler \<Rightarrow> SchedulingPolicy \<Rightarrow> JobScheduler" where
  "set_policy s policy = s\<lparr>sd_policy := policy\<rparr>"

subsection \<open>The queue\<close>

definition calculate_priority :: "ComputeJob \<Rightarrow> u64" where
  "calculate_priority job = ucast (js_priority (jb_spec job)) * 1000 + js_max_price (jb_spec job) div 1000000"

definition sched_enqueue :: "u64 \<Rightarrow> JobScheduler \<Rightarrow> ComputeJob \<Rightarrow> JobScheduler" where
  "sched_enqueue now s job =
     s\<lparr>sd_queue := sd_queue s @ [\<lparr>qj_job = job, qj_priority_score = calculate_priority job, qj_queued_at = now\<rparr>],
       sd_stats := (sd_stats s)\<lparr>st_jobs_queued := st_jobs_queued (sd_stats s) + 1\<rparr>\<rparr>"

text \<open>\<open>cmp\<close>: the higher priority is greater, then the earlier time.\<close>

definition queued_less :: "QueuedJob \<Rightarrow> QueuedJob \<Rightarrow> bool" where
  "queued_less a b \<longleftrightarrow> qj_priority_score a < qj_priority_score b
     \<or> qj_priority_score a = qj_priority_score b \<and> qj_queued_at b < qj_queued_at a"

fun heap_max :: "QueuedJob \<Rightarrow> QueuedJob list \<Rightarrow> QueuedJob" where
  "heap_max best [] = best"
| "heap_max best (q # qs) = heap_max (if queued_less best q then q else best) qs"

definition heap_pop :: "QueuedJob list \<Rightarrow> (QueuedJob \<times> QueuedJob list) option" where
  "heap_pop queue = (case queue of [] \<Rightarrow> None | q # qs \<Rightarrow> let best = heap_max q qs in Some (best, remove1 best queue))"

subsection \<open>The choice of a node\<close>

definition sched_calculate_price :: "JobSpec \<Rightarrow> ComputeNode \<Rightarrow> u64" where
  "sched_calculate_price spec n =
     node_calculate_price n (rq_max_duration_secs (js_resources spec))
     * max (ucast (rq_gpu_compute_units (js_resources spec))) 1"

definition balanced_score :: "(ComputeNode \<Rightarrow> u64) \<Rightarrow> JobScheduler \<Rightarrow> ComputeNode \<Rightarrow> JobSpec \<Rightarrow> u64" where
  "balanced_score success_percent s n spec =
     (let rep_score = ucast (cn_reputation n);
          price = sched_calculate_price spec n;
          price_score = (if price = 0 then 100 else if js_max_price spec < price then 0
            else (js_max_price spec - price) * 100 div js_max_price spec);
          compute_score = min (ns_total_gpu_memory_mb (cn_spec n) * 100 div max (rq_gpu_memory_mb (js_resources spec)) 1) 100
      in (rep_score * ucast (sd_reputation_weight s) + price_score * ucast (sd_price_weight s)
          + success_percent n * 20 + compute_score * 10) div 100)"

definition score_node :: "(ComputeNode \<Rightarrow> u64) \<Rightarrow> JobScheduler \<Rightarrow> JobSpec \<Rightarrow> ComputeNode \<Rightarrow> u64" where
  "score_node success_percent s spec n =
     (case sd_policy s of
        FCFS \<Rightarrow> 100
      | ShortestFirst \<Rightarrow> 1000 div max (cn_avg_completion_time n) 1
      | PriorityBased \<Rightarrow> ucast (cn_reputation n) * 10
      | LowestPrice \<Rightarrow> (let price = sched_calculate_price spec n in if price = 0 then 1000 else 1000000000 div price)
      | BestReputation \<Rightarrow> ucast (cn_reputation n) * 10
      | Locality \<Rightarrow> 100
      | Balanced \<Rightarrow> balanced_score success_percent s n spec)"

definition node_eligible :: "u64 \<Rightarrow> JobSpec \<Rightarrow> ComputeNode \<Rightarrow> bool" where
  "node_eligible now spec n =
     (cn_status n = NodeActive \<and> is_online now n \<and> js_min_reputation spec \<le> cn_reputation n
      \<and> meets_requirements (cn_spec n) (js_resources spec))"

text \<open>\<open>sort_by(|a, b| b.score.cmp(&a.score))\<close> is stable, so the first of the best scored nodes comes first.\<close>

definition find_best_node :: "(ComputeNode \<Rightarrow> u64) \<Rightarrow> u64 \<Rightarrow> JobScheduler \<Rightarrow> JobSpec \<Rightarrow> ComputeNode list \<Rightarrow> ComputeNode option" where
  "find_best_node success_percent now s spec nodes =
     (case sort_key (\<lambda>n. - uint (score_node success_percent s spec n)) (filter (node_eligible now spec) nodes) of
        [] \<Rightarrow> None
      | n # _ \<Rightarrow> Some n)"

definition make_allocation :: "u64 \<Rightarrow> ComputeJob \<Rightarrow> ComputeNode \<Rightarrow> u64 \<Rightarrow> ResourceAllocation" where
  "make_allocation now job n price =
     (let r = js_resources (jb_spec job) in
      \<lparr>al_job_id = jb_id job, al_node = cn_address n, al_gpu_memory_mb = rq_gpu_memory_mb r,
       al_gpu_compute_units = rq_gpu_compute_units r, al_cpu_cores = rq_cpu_cores r, al_ram_mb = rq_ram_mb r,
       al_storage_mb = rq_storage_mb r, al_price = price, al_allocated_at = now,
       al_expected_duration = rq_max_duration_secs r\<rparr>)"

definition schedule_next ::
  "(ComputeNode \<Rightarrow> u64) \<Rightarrow> u64 \<Rightarrow> JobScheduler \<Rightarrow> ComputeNode list \<Rightarrow> JobScheduler \<times> ResourceAllocation option" where
  "schedule_next success_percent now s nodes =
     (case heap_pop (sd_queue s) of
        None \<Rightarrow> (s, None)
      | Some (queued, rest) \<Rightarrow>
          let s1 = s\<lparr>sd_queue := rest\<rparr>; job = qj_job queued in
          (case find_best_node success_percent now s1 (jb_spec job) nodes of
             None \<Rightarrow> (s1, None)
           | Some n \<Rightarrow>
               let price = sched_calculate_price (jb_spec job) n in
               if js_max_price (jb_spec job) < price then (sched_enqueue now s1 job, None)
               else let allocation = make_allocation now job n price in
                 (s1\<lparr>sd_allocations := hm_insert (jb_id job) allocation (sd_allocations s1),
                     sd_node_jobs := hm_push (cn_address n) (jb_id job) (sd_node_jobs s1),
                     sd_stats := (sd_stats s1)\<lparr>st_jobs_scheduled := st_jobs_scheduled (sd_stats s1) + 1,
                       st_total_allocated_value := st_total_allocated_value (sd_stats s1) + price\<rparr>\<rparr>,
                  Some allocation)))"

subsection \<open>Allocations\<close>

definition get_job_allocation :: "JobScheduler \<Rightarrow> h256 \<Rightarrow> ResourceAllocation option" where
  "get_job_allocation s job_id = hm_get (sd_allocations s) job_id"

definition release_allocation :: "JobScheduler \<Rightarrow> h256 \<Rightarrow> JobScheduler" where
  "release_allocation s job_id =
     (case hm_get (sd_allocations s) job_id of
        None \<Rightarrow> s
      | Some a \<Rightarrow> s\<lparr>sd_allocations := hm_remove job_id (sd_allocations s),
           sd_node_jobs := hm_modify (al_node a) (filter (\<lambda>i. i \<noteq> job_id)) (sd_node_jobs s)\<rparr>)"

definition get_node_jobs :: "JobScheduler \<Rightarrow> address \<Rightarrow> h256 list" where
  "get_node_jobs s node = hm_list (sd_node_jobs s) node"

definition sched_queue_length :: "JobScheduler \<Rightarrow> nat" where
  "sched_queue_length s = length (sd_queue s)"

definition active_allocations :: "JobScheduler \<Rightarrow> nat" where
  "active_allocations s = length (sd_allocations s)"

definition sched_cleanup :: "u64 \<Rightarrow> JobScheduler \<Rightarrow> u64 \<Rightarrow> JobScheduler" where
  "sched_cleanup now s max_age_secs =
     (let threshold = saturating_sub now max_age_secs;
          to_remove = map fst (filter (\<lambda>(i, a). al_allocated_at a < threshold) (sd_allocations s))
      in foldl release_allocation s to_remove)"

subsection \<open>The entry that is popped and the node that is chosen\<close>

lemma queued_less_trans: "queued_less a b \<Longrightarrow> queued_less b c \<Longrightarrow> queued_less a c"
  by (auto simp: queued_less_def)

lemma queued_not_less_trans: "\<not> queued_less a b \<Longrightarrow> \<not> queued_less b c \<Longrightarrow> \<not> queued_less a c"
  by (auto simp: queued_less_def)

lemma heap_max_greatest: "q \<in> set (best # qs) \<Longrightarrow> \<not> queued_less (heap_max best qs) q"
proof (induction best qs arbitrary: q rule: heap_max.induct)
  case (1 best)
  then show ?case by (simp add: queued_less_def)
next
  case (2 best x qs)
  let ?b = "if queued_less best x then x else best"
  have top: "\<not> queued_less (heap_max ?b qs) ?b" by (rule "2.IH") simp
  show ?case
  proof (cases "q \<in> set qs")
    case True
    then show ?thesis using "2.IH" [of q] by simp
  next
    case False
    then consider "q = ?b" | "q = best" "queued_less best x" | "q = x" "\<not> queued_less best x"
      using "2.prems" by (cases "queued_less best x") auto
    then show ?thesis
    proof cases
      case 1
      with top show ?thesis by simp
    next
      case 2
      with top show ?thesis by (auto dest: queued_less_trans)
    next
      case 3
      with top have "\<not> queued_less (heap_max best qs) best" by simp
      with 3 show ?thesis using queued_not_less_trans by auto
    qed
  qed
qed

lemma heap_max_in: "heap_max best qs \<in> set (best # qs)"
proof (induction best qs rule: heap_max.induct)
  case (2 best x qs)
  then show ?case by (auto split: if_splits)
qed simp

lemma heap_pop_Some:
  assumes "heap_pop queue = Some (q, rest)"
  shows "q \<in> set queue" and "\<And>q'. q' \<in> set queue \<Longrightarrow> \<not> queued_less q q'" and "rest = remove1 q queue"
proof -
  obtain x xs where x: "queue = x # xs" "q = heap_max x xs" "rest = remove1 q queue"
    using assms by (auto simp: heap_pop_def Let_def split: list.splits)
  show "q \<in> set queue" using heap_max_in [of x xs] by (simp add: x)
  show "\<not> queued_less q q'" if "q' \<in> set queue" for q' using heap_max_greatest [of q' x xs] that by (simp add: x)
  show "rest = remove1 q queue" by (rule x(3))
qed

lemma sort_key_first:
  fixes f :: "'a \<Rightarrow> 'b::linorder"
  assumes "sort_key f xs = y # ys"
  shows "y \<in> set xs" and "x \<in> set xs \<Longrightarrow> f y \<le> f x"
proof -
  have "set xs = set (y # ys)" by (metis assms set_sort)
  moreover have "sorted (map f (y # ys))" using sorted_sort_key [of f xs] by (simp add: assms)
  ultimately show "y \<in> set xs" "x \<in> set xs \<Longrightarrow> f y \<le> f x" by auto
qed

lemma find_best_node_Some:
  assumes "find_best_node success_percent now s spec nodes = Some n"
  shows "n \<in> set nodes" and "node_eligible now spec n"
    and "\<And>n'. n' \<in> set nodes \<Longrightarrow> node_eligible now spec n' \<Longrightarrow>
      score_node success_percent s spec n' \<le> score_node success_percent s spec n"
proof -
  obtain ns where sorted: "sort_key (\<lambda>n. - uint (score_node success_percent s spec n)) (filter (node_eligible now spec) nodes) = n # ns"
    using assms by (auto simp: find_best_node_def split: list.splits)
  show "n \<in> set nodes" "node_eligible now spec n" using sort_key_first(1) [OF sorted] by auto
  show "score_node success_percent s spec n' \<le> score_node success_percent s spec n"
    if "n' \<in> set nodes" "node_eligible now spec n'" for n'
    using sort_key_first(2) [OF sorted, of n'] that by (simp add: word_le_def)
qed

lemma score_node_queue [simp]: "score_node success_percent (s\<lparr>sd_queue := q\<rparr>) = score_node success_percent s"
  by (simp add: fun_eq_iff score_node_def balanced_score_def Let_def split: SchedulingPolicy.split)

subsection \<open>Properties\<close>

text \<open>
  An allocation is for the most urgent job, on the best node, within the budget: when \<open>schedule_next\<close>
  allocates, the job is a queued one that no queued job outranks, the node is one of those offered that
  is active, online, reputable and large enough, no other such node scores higher, the price is at most
  the job's maximum, the queue loses exactly this entry, and the allocation is recorded.
\<close>

theorem allocation_is_best:
  assumes "schedule_next success_percent now s nodes = (s', Some a)"
  shows "\<exists>q n. q \<in> set (sd_queue s) \<and> (\<forall>q' \<in> set (sd_queue s). \<not> queued_less q q') \<and> sd_queue s' = remove1 q (sd_queue s)
    \<and> n \<in> set nodes \<and> node_eligible now (jb_spec (qj_job q)) n
    \<and> (\<forall>n' \<in> set nodes. node_eligible now (jb_spec (qj_job q)) n' \<longrightarrow>
         score_node success_percent s (jb_spec (qj_job q)) n' \<le> score_node success_percent s (jb_spec (qj_job q)) n)
    \<and> al_job_id a = jb_id (qj_job q) \<and> al_node a = cn_address n \<and> al_price a \<le> js_max_price (jb_spec (qj_job q))
    \<and> get_job_allocation s' (al_job_id a) = Some a \<and> al_job_id a \<in> set (get_node_jobs s' (al_node a))"
proof -
  obtain q rest where q: "heap_pop (sd_queue s) = Some (q, rest)"
    using assms by (cases "heap_pop (sd_queue s)") (auto simp: schedule_next_def)
  obtain n where n: "find_best_node success_percent now (s\<lparr>sd_queue := rest\<rparr>) (jb_spec (qj_job q)) nodes = Some n"
    using assms q by (cases "find_best_node success_percent now (s\<lparr>sd_queue := rest\<rparr>) (jb_spec (qj_job q)) nodes")
      (auto simp: schedule_next_def Let_def)
  note best = find_best_node_Some [OF n, unfolded score_node_queue]
  have out: "\<not> js_max_price (jb_spec (qj_job q)) < sched_calculate_price (jb_spec (qj_job q)) n"
    "a = make_allocation now (qj_job q) n (sched_calculate_price (jb_spec (qj_job q)) n)" "sd_queue s' = rest"
    "sd_allocations s' = hm_insert (jb_id (qj_job q)) a (sd_allocations s)"
    "sd_node_jobs s' = hm_push (cn_address n) (jb_id (qj_job q)) (sd_node_jobs s)"
    using assms by (auto simp: schedule_next_def q n Let_def split: if_splits)
  have a: "al_job_id a = jb_id (qj_job q)" "al_node a = cn_address n"
    "al_price a = sched_calculate_price (jb_spec (qj_job q)) n"
    by (simp_all add: out(2) make_allocation_def Let_def)
  have "get_job_allocation s' (al_job_id a) = Some a" "al_job_id a \<in> set (get_node_jobs s' (al_node a))"
    by (simp_all add: get_job_allocation_def get_node_jobs_def out(4,5) a(1,2))
  moreover have "al_price a \<le> js_max_price (jb_spec (qj_job q))" using out(1) by (simp add: a(3) not_less)
  ultimately show ?thesis
    using heap_pop_Some [OF q] best a(1,2) out(3) by blast
qed

definition example_node :: ComputeNode where
  "example_node = (ComputeNode_new 0 address_zero [] example_node_spec MIN_COMPUTE_STAKE)\<lparr>cn_status := NodeActive\<rparr>"

definition example_scheduler :: JobScheduler where
  "example_scheduler = sched_enqueue 0 (JobScheduler_new FCFS) (ComputeJob_new sample_ext 0 address_zero example_job_spec)"

theorem allocation_is_best_witness:
  "\<exists>s a. schedule_next (\<lambda>_. 100) 1 example_scheduler [example_node] = (s, Some a) \<and> al_price a \<le> 100 \<and> sd_queue s = []"
proof -
  have el: "node_eligible 1 example_job_spec example_node"
    by (simp add: node_eligible_def example_node_def ComputeNode_new_def example_job_spec_def is_online_def
        meets_requirements_def example_node_spec_def ResourceRequirements_default_def)
  have price: "sched_calculate_price example_job_spec example_node = 0"
    by (simp add: sched_calculate_price_def node_calculate_price_def example_node_def ComputeNode_new_def)
  obtain s a where s: "schedule_next (\<lambda>_. 100) 1 example_scheduler [example_node] = (s, Some a)"
    using el price by (simp add: schedule_next_def example_scheduler_def sched_enqueue_def JobScheduler_new_def heap_pop_def
        find_best_node_def Let_def ComputeJob_new_def)
  then show ?thesis
    using allocation_is_best [OF s]
    by (auto simp: example_scheduler_def sched_enqueue_def JobScheduler_new_def ComputeJob_new_def example_job_spec_def)
qed

text \<open>
  A job for which no node is eligible at the moment is popped and dropped: it is neither allocated nor
  queued again, unlike one that is too expensive.
\<close>

lemma unplaceable_job_dropped:
  assumes "heap_pop (sd_queue s) = Some (q, rest)" and "\<forall>n \<in> set nodes. \<not> node_eligible now (jb_spec (qj_job q)) n"
  shows "schedule_next success_percent now s nodes = (s\<lparr>sd_queue := rest\<rparr>, None)"
proof -
  have "filter (node_eligible now (jb_spec (qj_job q))) nodes = []" using assms(2) by (simp add: filter_empty_conv)
  then show ?thesis using assms(1) by (simp add: schedule_next_def find_best_node_def Let_def)
qed

text \<open>The price wraps: a rate of \<open>2^64 / 3600\<close> and more per hour can cost nothing.\<close>

lemma price_wraps: "node_calculate_price (n\<lparr>cn_price_per_hour := 0x1000000000000000\<rparr>) 16 = 0"
  by (simp add: node_calculate_price_def)

end
