(* ===== verification/AI_Verification.thy ===== *)
theory AI_Verification
  imports Complex_Main Hash_Map Chain_Types
begin

section \<open>Verification of compute results\<close>

text \<open>
  \<open>pyrax-node/src/ai/compute/verification.rs\<close>: requests to verify the result of a job, the verifiers chosen
  for them, and the verdict. The clock is an argument. The two averages of a verdict, floating-point values
  in the source, are exact rationals here. \<open>submit_result\<close> holds a read guard of \<open>assignments\<close> until it
  returns and asks for the write lock of the same field when a request completes; as in \<open>Dual_State\<close> the
  behaviour of the lock is the parameter \<open>write_returns\<close>, and a call that never returns is \<open>None\<close>, beside
  the state that the other threads then see.
\<close>

definition VERIFICATION_QUORUM :: u32 where "VERIFICATION_QUORUM = 3"

datatype VerificationMethod = VmNone | VmSingle | VmConsensus | VmZKProof | VmTEE | VmReplay | VmSampling

datatype VerificationStatus = VsPending | VsInProgress | VsVerified | VsFailed | VsDisputed | VsTimedOut

record VerifierResult =
  ve_verifier :: address
  ve_result_hash :: h256
  ve_matches :: bool
  ve_confidence :: u32
  ve_verified_at :: u64
  ve_execution_time_ms :: u64
  ve_signature :: "u8 list"
  ve_proof :: "u8 list option"

record VerificationRequest =
  vq_job_id :: h256
  vq_primary_hash :: h256
  vq_primary_node :: address
  vq_input_hash :: h256
  vq_model_id :: "h256 option"
  vq_method :: VerificationMethod
  vq_quorum :: u32
  vq_created_at :: u64
  vq_deadline :: u64
  vq_status :: VerificationStatus
  vq_results :: "VerifierResult list"
  vq_verdict :: "bool option"
  vq_dispute_reason :: "string option"

subsection \<open>A request\<close>

definition method_quorum :: "VerificationMethod \<Rightarrow> u32" where
  "method_quorum m =
     (case m of VmNone \<Rightarrow> 0 | VmSingle \<Rightarrow> 1 | VmConsensus \<Rightarrow> VERIFICATION_QUORUM | VmZKProof \<Rightarrow> 1 | VmTEE \<Rightarrow> 1
      | VmReplay \<Rightarrow> 2 | VmSampling \<Rightarrow> 3)"

definition VerificationRequest_new ::
  "u64 \<Rightarrow> h256 \<Rightarrow> h256 \<Rightarrow> address \<Rightarrow> h256 \<Rightarrow> h256 option \<Rightarrow> VerificationMethod \<Rightarrow> u64 \<Rightarrow> VerificationRequest" where
  "VerificationRequest_new now job_id primary_hash primary_node input_hash model_id m deadline_secs =
     \<lparr>vq_job_id = job_id, vq_primary_hash = primary_hash, vq_primary_node = primary_node, vq_input_hash = input_hash,
      vq_model_id = model_id, vq_method = m, vq_quorum = method_quorum m, vq_created_at = now,
      vq_deadline = now + deadline_secs, vq_status = VsPending, vq_results = [], vq_verdict = None,
      vq_dispute_reason = None\<rparr>"

definition request_finalize :: "VerificationRequest \<Rightarrow> VerificationRequest" where
  "request_finalize q =
     (let matching = length (filter ve_matches (vq_results q));
          total = length (vq_results q);
          threshold = (total * 2) div 3
      in if threshold \<le> matching then q\<lparr>vq_verdict := Some True, vq_status := VsVerified\<rparr>
         else q\<lparr>vq_verdict := Some False, vq_status := VsFailed\<rparr>)"

definition add_result :: "u64 \<Rightarrow> VerificationRequest \<Rightarrow> VerifierResult \<Rightarrow> VerificationRequest \<times> bool" where
  "add_result now q r =
     (if vq_deadline q < now then (q\<lparr>vq_status := VsTimedOut\<rparr>, False)
      else if list_ex (\<lambda>x. ve_verifier x = ve_verifier r) (vq_results q) then (q, False)
      else let q1 = q\<lparr>vq_results := vq_results q @ [r], vq_status := VsInProgress\<rparr> in
           (if unat (vq_quorum q1) \<le> length (vq_results q1) then request_finalize q1 else q1, True))"

definition request_is_complete :: "VerificationRequest \<Rightarrow> bool" where
  "request_is_complete q = (vq_status q \<in> {VsVerified, VsFailed, VsTimedOut, VsDisputed})"

definition request_check_timeout :: "u64 \<Rightarrow> VerificationRequest \<Rightarrow> VerificationRequest \<times> bool" where
  "request_check_timeout now q =
     (if \<not> request_is_complete q \<and> vq_deadline q < now then (q\<lparr>vq_status := VsTimedOut\<rparr>, True) else (q, False))"

definition request_dispute :: "VerificationRequest \<Rightarrow> string \<Rightarrow> VerificationRequest" where
  "request_dispute q reason =
     (if vq_status q = VsVerified \<or> vq_status q = VsFailed
      then q\<lparr>vq_status := VsDisputed, vq_dispute_reason := Some reason\<rparr> else q)"

definition agreement_percentage :: "VerificationRequest \<Rightarrow> rat" where
  "agreement_percentage q =
     (if vq_results q = [] then 0
      else of_nat (length (filter ve_matches (vq_results q))) / of_nat (length (vq_results q)) * 100)"

definition average_confidence :: "VerificationRequest \<Rightarrow> rat" where
  "average_confidence q =
     (if vq_results q = [] then 0
      else of_nat (unat (sum_list (map (\<lambda>r. ucast (ve_confidence r) :: u64) (vq_results q)))) / of_nat (length (vq_results q)))"

subsection \<open>The verifier\<close>

record JobVerificationResult =
  jv_job_id :: h256
  jv_verified :: bool
  jv_agreement :: rat
  jv_confidence :: rat
  jv_verifier_count :: u32
  jv_method :: VerificationMethod
  jv_duration_secs :: u64
  jv_timestamp :: u64

record ResultVerifierStats =
  rs_requests_created :: u64
  rs_requests_completed :: u64
  rs_verified_count :: u64
  rs_failed_count :: u64
  rs_disputes_filed :: u64
  rs_timeouts :: u64

record ResultVerifier =
  rv_pending :: "(h256, VerificationRequest) hashmap"
  rv_completed :: "(h256, JobVerificationResult) hashmap"
  rv_verifier_pool :: "address list"
  rv_assignments :: "(h256, address list) hashmap"
  rv_stats :: ResultVerifierStats
  rv_default_timeout :: u64

datatype VerificationError =
    VerificationNotFound h256
  | AlreadyPending h256
  | AlreadyCompleted h256
  | NotAssigned address
  | InsufficientVerifiers nat nat
  | VerificationTimeout
  | InvalidVerificationProof string

definition ResultVerifierStats_default :: ResultVerifierStats where
  "ResultVerifierStats_default =
     \<lparr>rs_requests_created = 0, rs_requests_completed = 0, rs_verified_count = 0, rs_failed_count = 0,
      rs_disputes_filed = 0, rs_timeouts = 0\<rparr>"

definition ResultVerifier_new :: ResultVerifier where
  "ResultVerifier_new =
     \<lparr>rv_pending = [], rv_completed = [], rv_verifier_pool = [], rv_assignments = [],
      rv_stats = ResultVerifierStats_default, rv_default_timeout = 300\<rparr>"

definition register_verifier :: "ResultVerifier \<Rightarrow> address \<Rightarrow> ResultVerifier" where
  "register_verifier v a =
     (if a \<in> set (rv_verifier_pool v) then v else v\<lparr>rv_verifier_pool := rv_verifier_pool v @ [a]\<rparr>)"

definition unregister_verifier :: "ResultVerifier \<Rightarrow> address \<Rightarrow> ResultVerifier" where
  "unregister_verifier v a = v\<lparr>rv_verifier_pool := filter (\<lambda>x. x \<noteq> a) (rv_verifier_pool v)\<rparr>"

definition select_verifiers :: "ResultVerifier \<Rightarrow> VerificationRequest \<Rightarrow> VerificationError + address list" where
  "select_verifiers v q =
     (let quorum = unat (vq_quorum q) in
      if length (rv_verifier_pool v) < quorum then Err (InsufficientVerifiers quorum (length (rv_verifier_pool v)))
      else let eligible = filter (\<lambda>a. a \<noteq> vq_primary_node q) (rv_verifier_pool v) in
        if length eligible < quorum then Err (InsufficientVerifiers quorum (length eligible))
        else Ok (take quorum eligible))"

definition request_verification ::
  "u64 \<Rightarrow> ResultVerifier \<Rightarrow> h256 \<Rightarrow> h256 \<Rightarrow> address \<Rightarrow> h256 \<Rightarrow> h256 option \<Rightarrow> VerificationMethod
     \<Rightarrow> VerificationError + (ResultVerifier \<times> address list)" where
  "request_verification now v job_id primary_hash primary_node input_hash model_id m =
     (if hm_contains (rv_pending v) job_id then Err (AlreadyPending job_id)
      else if m = VmNone
      then let result = \<lparr>jv_job_id = job_id, jv_verified = True, jv_agreement = 100, jv_confidence = 100,
                jv_verifier_count = 0, jv_method = m, jv_duration_secs = 0, jv_timestamp = now\<rparr>
           in Ok (v\<lparr>rv_completed := hm_insert job_id result (rv_completed v)\<rparr>, [])
      else let request = VerificationRequest_new now job_id primary_hash primary_node input_hash model_id m (rv_default_timeout v)
           in and_then (select_verifiers v request) (\<lambda>verifiers.
             Ok (v\<lparr>rv_pending := hm_insert job_id request (rv_pending v),
                   rv_assignments := hm_insert job_id verifiers (rv_assignments v),
                   rv_stats := (rv_stats v)\<lparr>rs_requests_created := rs_requests_created (rv_stats v) + 1\<rparr>\<rparr>, verifiers)))"

definition final_result :: "u64 \<Rightarrow> h256 \<Rightarrow> bool \<Rightarrow> VerificationRequest \<Rightarrow> JobVerificationResult" where
  "final_result now job_id verified q =
     \<lparr>jv_job_id = job_id, jv_verified = verified, jv_agreement = agreement_percentage q,
      jv_confidence = average_confidence q, jv_verifier_count = of_nat (length (vq_results q)),
      jv_method = vq_method q, jv_duration_secs = now - vq_created_at q, jv_timestamp = now\<rparr>"

definition submit_verification ::
  "(nat \<Rightarrow> bool) \<Rightarrow> u64 \<Rightarrow> ResultVerifier \<Rightarrow> h256 \<Rightarrow> VerifierResult \<Rightarrow> ResultVerifier \<times> (VerificationError + bool) option" where
  "submit_verification write_returns now v job_id r =
     (case hm_get (rv_pending v) job_id of
        None \<Rightarrow> (v, Some (Err (VerificationNotFound job_id)))
      | Some request \<Rightarrow>
          if (case hm_get (rv_assignments v) job_id of None \<Rightarrow> False | Some assigned \<Rightarrow> ve_verifier r \<notin> set assigned)
          then (v, Some (Err (NotAssigned (ve_verifier r))))
          else (case add_result now request r of (request', accepted) \<Rightarrow>
            let v1 = v\<lparr>rv_pending := hm_insert job_id request' (rv_pending v)\<rparr> in
            if \<not> accepted then (v1, Some (Ok False))
            else if request_is_complete request'
            then let verified = (case vq_verdict request' of None \<Rightarrow> False | Some x \<Rightarrow> x);
                     v2 = v1\<lparr>rv_pending := hm_remove job_id (rv_pending v1),
                             rv_completed := hm_insert job_id (final_result now job_id verified request') (rv_completed v1)\<rparr>
                 in if write_returns 1
                    then (v2\<lparr>rv_assignments := hm_remove job_id (rv_assignments v2),
                            rv_stats := (let t = rv_stats v2 in
                              t\<lparr>rs_requests_completed := rs_requests_completed t + 1,
                                rs_verified_count := (if verified then rs_verified_count t + 1 else rs_verified_count t),
                                rs_failed_count := (if verified then rs_failed_count t else rs_failed_count t + 1)\<rparr>)\<rparr>,
                          Some (Ok True))
                    else (v2, None)
            else (v1, Some (Ok True))))"

definition get_request :: "ResultVerifier \<Rightarrow> h256 \<Rightarrow> VerificationRequest option" where
  "get_request v job_id = hm_get (rv_pending v) job_id"

definition get_verification_result :: "ResultVerifier \<Rightarrow> h256 \<Rightarrow> JobVerificationResult option" where
  "get_verification_result v job_id = hm_get (rv_completed v) job_id"

definition file_dispute :: "ResultVerifier \<Rightarrow> h256 \<Rightarrow> string \<Rightarrow> VerificationError + ResultVerifier" where
  "file_dispute v job_id reason =
     (if hm_contains (rv_completed v) job_id then Err (AlreadyCompleted job_id)
      else case hm_get (rv_pending v) job_id of
        None \<Rightarrow> Err (VerificationNotFound job_id)
      | Some q \<Rightarrow> Ok (v\<lparr>rv_pending := hm_insert job_id (request_dispute q reason) (rv_pending v),
           rv_stats := (rv_stats v)\<lparr>rs_disputes_filed := rs_disputes_filed (rv_stats v) + 1\<rparr>\<rparr>))"

definition close_timed_out :: "u64 \<Rightarrow> ResultVerifier \<Rightarrow> h256 \<Rightarrow> ResultVerifier" where
  "close_timed_out now v i =
     (case hm_get (rv_pending v) i of
        None \<Rightarrow> v
      | Some q \<Rightarrow> v\<lparr>rv_pending := hm_remove i (rv_pending v),
           rv_completed := hm_insert i (final_result now i False q) (rv_completed v)\<rparr>)"

definition check_verification_timeouts :: "u64 \<Rightarrow> ResultVerifier \<Rightarrow> ResultVerifier \<times> h256 list" where
  "check_verification_timeouts now v =
     (case hm_sweep (request_check_timeout now) (rv_pending v) of (pending, timed_out) \<Rightarrow>
        let v1 = foldl (close_timed_out now) (v\<lparr>rv_pending := pending\<rparr>) timed_out in
        (v1\<lparr>rv_stats := (rv_stats v1)\<lparr>rs_timeouts := rs_timeouts (rv_stats v1) + of_nat (length timed_out)\<rparr>\<rparr>, timed_out))"

definition pending_count :: "ResultVerifier \<Rightarrow> nat" where
  "pending_count v = length (rv_pending v)"

definition verifier_count :: "ResultVerifier \<Rightarrow> nat" where
  "verifier_count v = length (rv_verifier_pool v)"

subsection \<open>Runs of the verifier\<close>

datatype verifier_op =
    VRegister address
  | VUnregister address
  | VRequest u64 h256 h256 address h256 "h256 option" VerificationMethod
  | VSubmit u64 h256 VerifierResult
  | VDispute h256 string
  | VTimeouts u64

text \<open>
  A submission that hangs on its own lock leaves the state as it is at that point, and the operations after
  it still run; in the code the held lock blocks those that need it. The runs considered are therefore a
  superset of the runs of the code, and what holds in every state they reach holds for the code.
\<close>

definition verifier_step :: "(nat \<Rightarrow> bool) \<Rightarrow> ResultVerifier \<Rightarrow> verifier_op \<Rightarrow> ResultVerifier" where
  "verifier_step write_returns v x =
     (case x of
        VRegister a \<Rightarrow> register_verifier v a
      | VUnregister a \<Rightarrow> unregister_verifier v a
      | VRequest now i h n input model_id m \<Rightarrow>
          (case request_verification now v i h n input model_id m of Err _ \<Rightarrow> v | Ok (v', _) \<Rightarrow> v')
      | VSubmit now i r \<Rightarrow> fst (submit_verification write_returns now v i r)
      | VDispute i reason \<Rightarrow> ok_or v (file_dispute v i reason)
      | VTimeouts now \<Rightarrow> fst (check_verification_timeouts now v))"

text \<open>
  A pending request is undecided, has fewer results than its quorum, and they come from distinct nodes
  that were assigned to it, none of them the node whose result is verified.
\<close>

definition verifiers_ok :: "VerificationRequest \<Rightarrow> address list \<Rightarrow> bool" where
  "verifiers_ok q assigned \<longleftrightarrow> distinct assigned \<and> length assigned = unat (vq_quorum q) \<and> vq_primary_node q \<notin> set assigned
     \<and> set (map ve_verifier (vq_results q)) \<subseteq> set assigned"

definition verification_ok :: "VerificationRequest \<Rightarrow> bool" where
  "verification_ok q \<longleftrightarrow> vq_method q \<noteq> VmNone \<and> vq_quorum q = method_quorum (vq_method q)
     \<and> distinct (map ve_verifier (vq_results q)) \<and> length (vq_results q) < unat (vq_quorum q)
     \<and> vq_verdict q = None \<and> vq_status q \<in> {VsPending, VsInProgress, VsTimedOut}"

definition verdict_ok :: "JobVerificationResult \<Rightarrow> bool" where
  "verdict_ok r \<longleftrightarrow> (jv_verified r \<and> jv_method r \<noteq> VmNone \<longrightarrow>
     jv_verifier_count r = method_quorum (jv_method r)
     \<and> (\<exists>k. jv_agreement r = of_nat k / of_nat (unat (method_quorum (jv_method r))) * 100
          \<and> (unat (method_quorum (jv_method r)) * 2) div 3 \<le> k))"

definition verifier_inv :: "ResultVerifier \<Rightarrow> bool" where
  "verifier_inv v \<longleftrightarrow> hm_wf (rv_pending v) \<and> distinct (rv_verifier_pool v)
     \<and> (\<forall>i q. hm_get (rv_pending v) i = Some q \<longrightarrow> verification_ok q
          \<and> (\<exists>assigned. hm_get (rv_assignments v) i = Some assigned \<and> verifiers_ok q assigned))
     \<and> (\<forall>i r. hm_get (rv_completed v) i = Some r \<longrightarrow> verdict_ok r)"

lemma method_quorum_small: "unat (method_quorum m) \<le> 3"
  by (simp add: method_quorum_def VERIFICATION_QUORUM_def split: VerificationMethod.split)

lemma add_result_ok:
  assumes ok: "verification_ok q" and run: "add_result now q r = (q', accepted)" and a: "verifiers_ok q assigned"
    and mem: "ve_verifier r \<in> set assigned"
  shows "if accepted \<and> request_is_complete q'
    then (\<forall>i now verified. vq_verdict q' = Some verified \<longrightarrow> verdict_ok (final_result now i verified q')) \<and> vq_verdict q' \<noteq> None
    else verification_ok q' \<and> verifiers_ok q' assigned"
proof (cases "accepted \<and> request_is_complete q'")
  case True
  let ?q = "q\<lparr>vq_results := vq_results q @ [r], vq_status := VsInProgress\<rparr>"
  have q': "q' = request_finalize ?q" and full: "unat (vq_quorum q) \<le> length (vq_results q) + 1"
    using run True by (auto simp: add_result_def request_is_complete_def Let_def split: if_splits)
  have res: "vq_results q' = vq_results q @ [r]" "vq_method q' = vq_method q"
    by (simp_all add: q' request_finalize_def Let_def)
  have "length (vq_results q) < unat (vq_quorum q)" using ok unfolding verification_ok_def by blast
  with full have len: "length (vq_results q') = unat (vq_quorum q)" by (simp add: res)
  have count: "of_nat (length (vq_results q')) = vq_quorum q" unfolding len by simp
  have "verdict_ok (final_result now' i verified q')" if "vq_verdict q' = Some verified" for i now' verified
  proof -
    have "verified \<longleftrightarrow> (length (vq_results q') * 2) div 3 \<le> length (filter ve_matches (vq_results q'))"
      using that by (auto simp: q' request_finalize_def Let_def split: if_splits)
    moreover have "agreement_percentage q' = of_nat (length (filter ve_matches (vq_results q'))) / of_nat (unat (vq_quorum q)) * 100"
      unfolding agreement_percentage_def len by (simp add: res)
    moreover have "vq_quorum q = method_quorum (vq_method q)" using ok unfolding verification_ok_def by blast
    ultimately show ?thesis
      unfolding verdict_ok_def final_result_def using count len by (auto simp only: JobVerificationResult.simps res(2))
  qed
  moreover have "vq_verdict q' \<noteq> None" by (auto simp: q' request_finalize_def Let_def)
  ultimately show ?thesis using True by simp
next
  case False
  let ?q = "q\<lparr>vq_results := vq_results q @ [r], vq_status := VsInProgress\<rparr>"
  have fin: "request_is_complete (request_finalize x)" for x
    by (simp add: request_finalize_def request_is_complete_def Let_def)
  consider "vq_deadline q < now" | "\<not> vq_deadline q < now" "list_ex (\<lambda>x. ve_verifier x = ve_verifier r) (vq_results q)"
    | "\<not> vq_deadline q < now" "\<not> list_ex (\<lambda>x. ve_verifier x = ve_verifier r) (vq_results q)" by blast
  then consider "q' = q\<lparr>vq_status := VsTimedOut\<rparr>" | "q' = q"
    | "q' = ?q" "ve_verifier r \<notin> set (map ve_verifier (vq_results q))" "length (vq_results q) + 1 < unat (vq_quorum q)"
  proof cases
    case 1
    with run have "q' = q\<lparr>vq_status := VsTimedOut\<rparr>" by (simp add: add_result_def)
    then show ?thesis by (rule that(1))
  next
    case 2
    with run have "q' = q" by (simp add: add_result_def)
    then show ?thesis by (rule that(2))
  next
    case 3
    have "ve_verifier r \<notin> set (map ve_verifier (vq_results q))" using 3(2) unfolding list_ex_iff by force
    moreover have "\<not> unat (vq_quorum q) \<le> length (vq_results q) + 1" "q' = ?q"
      using run 3 False fin by (auto simp: add_result_def Let_def split: if_splits)
    ultimately show ?thesis by (intro that(3)) simp_all
  qed
  then have "verification_ok q' \<and> verifiers_ok q' assigned"
  proof cases
    case 3
    then show ?thesis using ok a mem unfolding verification_ok_def verifiers_ok_def by simp
  qed (use ok a in \<open>auto simp: verification_ok_def verifiers_ok_def\<close>)
  with False show ?thesis by presburger
qed

lemma final_false_ok: "verdict_ok (final_result now i False q)"
  by (simp add: verdict_ok_def final_result_def)

lemma submit_verification_inv:
  assumes inv: "verifier_inv v"
  shows "verifier_inv (fst (submit_verification write_returns now v i r))"
proof (cases "hm_get (rv_pending v) i")
  case None
  then show ?thesis using inv by (simp add: submit_verification_def)
next
  case (Some q)
  obtain assigned where a: "hm_get (rv_assignments v) i = Some assigned" "verifiers_ok q assigned" and ok: "verification_ok q"
    using inv Some unfolding verifier_inv_def by blast
  obtain q' accepted where run: "add_result now q r = (q', accepted)" by (cases "add_result now q r")
  show ?thesis
  proof (cases "ve_verifier r \<in> set assigned")
    case True
    note step = add_result_ok [OF ok run a(2) True]
    show ?thesis
    proof (cases "accepted \<and> request_is_complete q'")
      case True
      then obtain verified where "vq_verdict q' = Some verified" "verdict_ok (final_result now i verified q')"
        using step by auto
      then show ?thesis
        using inv True \<open>ve_verifier r \<in> set assigned\<close> unfolding verifier_inv_def
        by (auto simp: submit_verification_def Some a(1) run Let_def)
    next
      case False
      then have "verification_ok q' \<and> verifiers_ok q' assigned" using step by presburger
      moreover have "fst (submit_verification write_returns now v i r) = v\<lparr>rv_pending := hm_insert i q' (rv_pending v)\<rparr>"
        using False \<open>ve_verifier r \<in> set assigned\<close> by (auto simp: submit_verification_def Some a(1) run Let_def)
      ultimately show ?thesis using inv a(1) unfolding verifier_inv_def by auto
    qed
  next
    case False
    then show ?thesis using inv by (simp add: submit_verification_def Some a(1))
  qed
qed

lemma select_verifiers_ok:
  assumes "select_verifiers v q = Ok assigned" and "distinct (rv_verifier_pool v)" and "vq_results q = []"
  shows "verifiers_ok q assigned"
  using assms by (auto simp: select_verifiers_def verifiers_ok_def Let_def distinct_take dest!: in_set_takeD split: if_splits)

lemma method_quorum_pos: "m \<noteq> VmNone \<Longrightarrow> 0 < unat (method_quorum m)"
  by (simp add: method_quorum_def VERIFICATION_QUORUM_def split: VerificationMethod.split)

lemma request_verification_inv:
  assumes inv: "verifier_inv v" and run: "request_verification now v i h n input model_id m = Ok (v', verifiers)"
  shows "verifier_inv v'"
proof (cases "m = VmNone")
  case True
  have "verdict_ok r" if "jv_method r = VmNone" for r using that by (simp add: verdict_ok_def)
  then show ?thesis
    using run inv True unfolding verifier_inv_def by (auto simp: request_verification_def Let_def split: if_splits)
next
  case False
  let ?q = "VerificationRequest_new now i h n input model_id m (rv_default_timeout v)"
  have sel: "select_verifiers v ?q = Ok verifiers"
    and v': "rv_pending v' = hm_insert i ?q (rv_pending v)" "rv_assignments v' = hm_insert i verifiers (rv_assignments v)"
      "rv_completed v' = rv_completed v" "rv_verifier_pool v' = rv_verifier_pool v"
    using run False by (auto simp: request_verification_def and_then_Ok_iff Let_def split: if_splits)
  have "verification_ok ?q" using False method_quorum_pos by (simp add: verification_ok_def VerificationRequest_new_def)
  moreover have "verifiers_ok ?q verifiers"
    using inv by (intro select_verifiers_ok [OF sel]) (simp_all add: verifier_inv_def VerificationRequest_new_def)
  ultimately show ?thesis using inv unfolding verifier_inv_def v' by auto
qed

lemma close_timed_out_inv: "verifier_inv v \<Longrightarrow> verifier_inv (close_timed_out now v i)"
  using final_false_ok by (auto simp: close_timed_out_def verifier_inv_def split: option.split)

lemma close_all_inv: "verifier_inv v \<Longrightarrow> verifier_inv (foldl (close_timed_out now) v is)"
  by (induction "is" arbitrary: v) (simp_all add: close_timed_out_inv)

lemma timeout_keeps_ok:
  "verification_ok q \<Longrightarrow> verification_ok (fst (request_check_timeout now q))"
  "verifiers_ok q assigned \<Longrightarrow> verifiers_ok (fst (request_check_timeout now q)) assigned"
  unfolding request_check_timeout_def verification_ok_def verifiers_ok_def by auto

lemma dispute_pending: "verification_ok q \<Longrightarrow> request_dispute q reason = q"
  by (auto simp: verification_ok_def request_dispute_def)

lemma verifier_inv_step: "verifier_inv v \<Longrightarrow> verifier_inv (verifier_step write_returns v x)"
proof -
  assume inv: "verifier_inv v"
  show ?thesis
  proof (cases x)
    case (VRequest now i h n input model_id m)
    then show ?thesis
      using inv request_verification_inv [OF inv] by (auto simp: verifier_step_def split: sum.split)
  next
    case (VSubmit now i r)
    then show ?thesis using submit_verification_inv [OF inv] by (simp add: verifier_step_def)
  next
    case (VDispute i reason)
    show ?thesis
    proof (cases "file_dispute v i reason")
      case (Inr v')
      obtain q where q: "hm_get (rv_pending v) i = Some q" "rv_pending v' = hm_insert i (request_dispute q reason) (rv_pending v)"
          "rv_assignments v' = rv_assignments v" "rv_completed v' = rv_completed v" "rv_verifier_pool v' = rv_verifier_pool v"
        using Inr by (auto simp: file_dispute_def split: if_splits option.splits)
      moreover have "request_dispute q reason = q" using inv q(1) dispute_pending unfolding verifier_inv_def by blast
      ultimately have "verifier_inv v'" using inv unfolding verifier_inv_def by auto
      then show ?thesis by (simp add: VDispute verifier_step_def Inr)
    qed (use inv in \<open>simp add: VDispute verifier_step_def\<close>)
  next
    case (VTimeouts now)
    let ?swept = "v\<lparr>rv_pending := fst (hm_sweep (request_check_timeout now) (rv_pending v))\<rparr>"
    have "verifier_inv ?swept"
      using inv timeout_keeps_ok unfolding verifier_inv_def by (fastforce simp: hm_wf_sweep)
    then have closed: "verifier_inv (foldl (close_timed_out now) ?swept (snd (hm_sweep (request_check_timeout now) (rv_pending v))))"
      by (rule close_all_inv)
    then show ?thesis
      by (simp add: VTimeouts verifier_step_def check_verification_timeouts_def case_prod_unfold Let_def verifier_inv_def)
  qed (use inv in \<open>auto simp: verifier_step_def register_verifier_def unregister_verifier_def verifier_inv_def\<close>)
qed

interpretation result_verifier: machine ResultVerifier_new "verifier_step write_returns" verifier_inv
  by unfold_locales (simp add: verifier_inv_def ResultVerifier_new_def, rule verifier_inv_step)

subsection \<open>Properties\<close>

text \<open>
  C18. A verdict needs its quorum: whatever requests, results, disputes and timeouts came, a result recorded
  as verified by consensus has exactly three verifiers, at least two of whom agreed; and the verifiers of a
  request still pending are distinct, as many as its quorum, and none is the node being verified.
\<close>

theorem verdicts_by_quorum:
  assumes "v = run (verifier_step write_returns) ResultVerifier_new ops"
  shows "(\<forall>i r. get_verification_result v i = Some r \<and> jv_verified r \<and> jv_method r = VmConsensus
      \<longrightarrow> jv_verifier_count r = 3 \<and> 200 / 3 \<le> jv_agreement r)
    \<and> (\<forall>i q. get_request v i = Some q \<longrightarrow> (\<exists>assigned. hm_get (rv_assignments v) i = Some assigned \<and> distinct assigned
        \<and> length assigned = unat (method_quorum (vq_method q)) \<and> vq_primary_node q \<notin> set assigned
        \<and> set (map ve_verifier (vq_results q)) \<subseteq> set assigned \<and> length (vq_results q) < length assigned))"
proof -
  have inv: "verifier_inv v" unfolding assms by (intro result_verifier.inv_run result_verifier.inv_init)
  have "jv_verifier_count r = 3 \<and> 200 / 3 \<le> jv_agreement r"
    if r: "get_verification_result v i = Some r" "jv_verified r" "jv_method r = VmConsensus" for i r
  proof -
    have "verdict_ok r" using inv r(1) unfolding verifier_inv_def get_verification_result_def by blast
    then obtain k where k: "jv_verifier_count r = method_quorum VmConsensus"
        "jv_agreement r = of_nat k / of_nat (unat (method_quorum VmConsensus)) * 100" "(unat (method_quorum VmConsensus) * 2) div 3 \<le> k"
      using r(2,3) by (auto simp: verdict_ok_def)
    have "(2 :: rat) \<le> of_nat k"
      using k(3) of_nat_mono [of 2 k] by (simp add: method_quorum_def VERIFICATION_QUORUM_def)
    then show ?thesis using k(1,2) by (simp add: method_quorum_def VERIFICATION_QUORUM_def)
  qed
  moreover have "\<exists>assigned. hm_get (rv_assignments v) i = Some assigned \<and> distinct assigned
        \<and> length assigned = unat (method_quorum (vq_method q)) \<and> vq_primary_node q \<notin> set assigned
        \<and> set (map ve_verifier (vq_results q)) \<subseteq> set assigned \<and> length (vq_results q) < length assigned"
    if q: "get_request v i = Some q" for i q
  proof -
    obtain assigned where a: "hm_get (rv_assignments v) i = Some assigned" "verifiers_ok q assigned" and ok: "verification_ok q"
      using inv q unfolding verifier_inv_def get_request_def by blast
    have "vq_quorum q = method_quorum (vq_method q)" "length (vq_results q) < unat (vq_quorum q)"
      using ok unfolding verification_ok_def by blast+
    then show ?thesis using a unfolding verifiers_ok_def by metis
  qed
  ultimately show ?thesis by blast
qed

definition example_verifier :: "u8 \<Rightarrow> address" where
  "example_verifier n = Address (replicate 20 n)"

definition example_verification :: "u8 \<Rightarrow> bool \<Rightarrow> VerifierResult" where
  "example_verification n ok =
     \<lparr>ve_verifier = example_verifier n, ve_result_hash = h256_zero, ve_matches = ok, ve_confidence = 90, ve_verified_at = 1,
      ve_execution_time_ms = 5, ve_signature = [], ve_proof = None\<rparr>"

definition example_verifier_ops :: "verifier_op list" where
  "example_verifier_ops =
     [VRegister (example_verifier 1), VRegister (example_verifier 2), VRegister (example_verifier 3),
      VRequest 0 h256_zero h256_zero (example_verifier 9) h256_zero None VmConsensus,
      VSubmit 1 h256_zero (example_verification 1 True), VSubmit 1 h256_zero (example_verification 2 False),
      VSubmit 1 h256_zero (example_verification 3 True)]"

lemma example_verified:
  "\<exists>r. get_verification_result (run (verifier_step (\<lambda>n. n = 0)) ResultVerifier_new example_verifier_ops) h256_zero = Some r
    \<and> jv_verified r \<and> jv_method r = VmConsensus"
  by (simp add: example_verifier_ops_def verifier_step_def register_verifier_def ResultVerifier_new_def example_verifier_def
      request_verification_def select_verifiers_def VerificationRequest_new_def method_quorum_def VERIFICATION_QUORUM_def
      submit_verification_def add_result_def request_finalize_def request_is_complete_def example_verification_def
      final_result_def get_verification_result_def hm_contains_def Let_def)

theorem verdicts_by_quorum_witness:
  "\<exists>r. get_verification_result (run (verifier_step (\<lambda>n. n = 0)) ResultVerifier_new example_verifier_ops) h256_zero = Some r
    \<and> 200 / 3 \<le> jv_agreement r"
  using example_verified verdicts_by_quorum [OF refl, of "\<lambda>n. n = 0" example_verifier_ops] by blast

text \<open>
  The result that completes a request never returns: with a lock whose \<open>write\<close> does not return while a
  reader has access, as documented, the call that delivers the last of the assigned verifiers' results in
  time stores the verdict and then waits for ever for the write lock of the assignments, of which it holds
  a read guard itself.
\<close>

theorem last_result_never_returns:
  assumes "v = run (verifier_step write_returns) ResultVerifier_new ops" and "\<not> write_returns 1"
    and "get_request v i = Some q" and "hm_get (rv_assignments v) i = Some assigned" and "ve_verifier r \<in> set assigned"
    and "ve_verifier r \<notin> set (map ve_verifier (vq_results q))" and "now \<le> vq_deadline q"
    and "length (vq_results q) + 1 = length assigned"
  shows "\<exists>v'. submit_verification write_returns now v i r = (v', None) \<and> get_request v' i = None
    \<and> get_verification_result v' i \<noteq> None"
proof -
  have inv: "verifier_inv v" unfolding assms(1) by (intro result_verifier.inv_run result_verifier.inv_init)
  then have "length assigned = unat (vq_quorum q)"
    using assms(3,4) unfolding verifier_inv_def get_request_def verifiers_ok_def by fastforce
  then have "add_result now q r = (request_finalize (q\<lparr>vq_results := vq_results q @ [r], vq_status := VsInProgress\<rparr>), True)"
    using assms(6-8) by (force simp: add_result_def list_ex_iff image_iff Let_def)
  moreover have "request_is_complete (request_finalize q1)" for q1
    by (simp add: request_finalize_def request_is_complete_def Let_def)
  ultimately show ?thesis
    using assms(2-5) by (simp add: submit_verification_def get_request_def get_verification_result_def Let_def)
qed

theorem last_result_never_returns_witness:
  fixes v defines "v \<equiv> run (verifier_step (\<lambda>n. n = 0)) ResultVerifier_new
    [VRegister (example_verifier 1), VRequest 0 h256_zero h256_zero (example_verifier 9) h256_zero None VmSingle]"
  shows "snd (submit_verification (\<lambda>n. n = 0) 1 v h256_zero (example_verification 1 True)) = None"
proof -
  let ?q = "VerificationRequest_new 0 h256_zero h256_zero (example_verifier 9) h256_zero None VmSingle 300"
  have "example_verifier 1 \<noteq> example_verifier 9" by (simp add: example_verifier_def)
  then have "get_request v h256_zero = Some ?q" "hm_get (rv_assignments v) h256_zero = Some [example_verifier 1]"
    by (simp_all add: v_def verifier_step_def register_verifier_def ResultVerifier_new_def request_verification_def
        select_verifiers_def VerificationRequest_new_def method_quorum_def get_request_def hm_contains_def Let_def)
  from last_result_never_returns [OF v_def [THEN meta_eq_to_obj_eq] _ this, of "example_verification 1 True" 1] show ?thesis
    by (auto simp: example_verification_def VerificationRequest_new_def)
qed

text \<open>
  The threshold is rounded down: with a single verifier it is zero, so a result that the verifier found not
  to match is verified; and a dispute never has an effect, because a request that has a verdict is no
  longer among the pending ones.
\<close>

lemma single_mismatch_verified:
  assumes "vq_results q = [r]" and "\<not> ve_matches r"
  shows "vq_status (request_finalize q) = VsVerified"
  using assms by (simp add: request_finalize_def)

lemma disputes_have_no_effect:
  assumes "v = run (verifier_step write_returns) ResultVerifier_new ops" and "file_dispute v i reason = Ok v'"
  shows "get_request v' j = get_request v j"
proof -
  have inv: "verifier_inv v" unfolding assms(1) by (intro result_verifier.inv_run result_verifier.inv_init)
  obtain q where q: "hm_get (rv_pending v) i = Some q" "rv_pending v' = hm_insert i (request_dispute q reason) (rv_pending v)"
    using assms(2) by (auto simp: file_dispute_def split: if_splits option.splits)
  have "request_dispute q reason = q" using inv q(1) dispute_pending unfolding verifier_inv_def by blast
  then show ?thesis using q by (simp add: get_request_def)
qed

end
