(* ===== verification/Chain_Service.thy ===== *)
theory Chain_Service
  imports Validation Mempool
begin

section \<open>The chain service\<close>

text \<open>
  \<open>pyrax-node/src/services/chain.rs\<close>: the service that joins the chain database, the validator and the
  pool. It hands out block templates, builds and checks mined blocks, commits them, keeps a tip of its own
  beside that of the database, and rolls back. The database and the pool are parts of its state; the clock
  is an argument. \<open>get_pending\<close> of the pool can panic, so a template is an option.
\<close>

record ChainServiceConfig =
  cc_max_block_size :: nat
  cc_max_txs_per_block :: nat
  cc_block_time_secs :: u64
  cc_initial_difficulty :: u64
  cc_coinbase_maturity :: u64
  cc_stream_a_block_reward :: u64
  cc_stream_b_block_reward :: u64

definition ChainServiceConfig_default :: ChainServiceConfig where
  "ChainServiceConfig_default =
     \<lparr>cc_max_block_size = 1000000, cc_max_txs_per_block = 5000, cc_block_time_secs = 10, cc_initial_difficulty = 1,
      cc_coinbase_maturity = 100, cc_stream_a_block_reward = 50 * 100000000, cc_stream_b_block_reward = 100 * 100000000\<rparr>"

datatype ChainServiceError =
    CsValidation ValidationError
  | CsStorage StorageError
  | CsInvalidBlock string
  | CsInvalidMerkleRoot h256 h256
  | CsBlockNotFound h256
  | CsParentNotFound h256
  | CsTipMismatch

record ChainBlockTemplate =
  bt_height :: u64
  bt_parent_hash :: h256
  bt_merkle_root :: h256
  bt_timestamp :: u64
  bt_difficulty :: u64
  bt_coinbase_tx :: Transaction
  bt_transactions :: "Transaction list"
  bt_coinbase_value :: u64

record ChainService =
  cs_db :: ChainDB
  cs_mempool :: Mempool
  cs_config :: ChainServiceConfig
  cs_cached_tip :: ChainTip

definition ChainService_new :: "ChainDB \<Rightarrow> Mempool \<Rightarrow> ChainServiceConfig \<Rightarrow> ChainService" where
  "ChainService_new db pool config =
     \<lparr>cs_db = db, cs_mempool = pool, cs_config = config, cs_cached_tip = get_tip db\<rparr>"

subsection \<open>Reading\<close>

definition cs_get_tip :: "ChainService \<Rightarrow> ChainTip" where
  "cs_get_tip s = cs_cached_tip s"

definition cs_height :: "ChainService \<Rightarrow> u64" where
  "cs_height s = tip_height (cs_cached_tip s)"

definition cs_tip_hash :: "ChainService \<Rightarrow> h256" where
  "cs_tip_hash s = tip_hash (cs_cached_tip s)"

definition cs_total_difficulty :: "ChainService \<Rightarrow> u64" where
  "cs_total_difficulty s = tip_total_difficulty (cs_cached_tip s)"

definition cs_get_block :: "ChainService \<Rightarrow> h256 \<Rightarrow> Block option" where
  "cs_get_block s h = get_block (cs_db s) h"

definition cs_get_block_by_height :: "ChainService \<Rightarrow> u64 \<Rightarrow> Block option" where
  "cs_get_block_by_height s height = get_block_by_height (cs_db s) height"

definition cs_get_utxo :: "ChainService \<Rightarrow> OutPoint \<Rightarrow> Utxo option" where
  "cs_get_utxo s q = get_utxo (cs_db s) q"

definition cs_get_utxos_for_address :: "ChainService \<Rightarrow> address \<Rightarrow> (OutPoint \<times> Utxo) list" where
  "cs_get_utxos_for_address s a = get_utxos_for_address (cs_db s) a"

definition cs_get_balance :: "ChainService \<Rightarrow> address \<Rightarrow> u64" where
  "cs_get_balance s a = get_balance_for_address (cs_db s) a"

definition cs_get_transaction :: "ChainService \<Rightarrow> h256 \<Rightarrow> Transaction option" where
  "cs_get_transaction s txid = get_transaction (cs_db s) txid"

definition get_difficulty :: "ChainService \<Rightarrow> u64" where
  "get_difficulty s = cc_initial_difficulty (cs_config s)"

definition get_block_reward :: "ChainService \<Rightarrow> u64 \<Rightarrow> u8 \<Rightarrow> u64" where
  "get_block_reward s height stream =
     (if stream = 0 then cc_stream_a_block_reward (cs_config s)
      else if stream = 1 then cc_stream_b_block_reward (cs_config s)
      else cc_stream_a_block_reward (cs_config s))"

definition cs_is_synced :: "u64 \<Rightarrow> ChainService \<Rightarrow> bool" where
  "cs_is_synced now s =
     (case cs_get_block s (cs_tip_hash s) of
        Some block \<Rightarrow> saturating_sub now (hdr_timestamp (blk_header block)) < 300
      | None \<Rightarrow> False)"

record ChainStats =
  st_height :: u64
  st_tip_hash :: h256
  st_total_difficulty :: u64
  st_utxo_count :: u64
  st_mempool_size :: nat
  st_is_synced :: bool

definition cs_get_stats :: "u64 \<Rightarrow> ChainService \<Rightarrow> ChainStats" where
  "cs_get_stats now s =
     (let tip = cs_get_tip s in
      \<lparr>st_height = tip_height tip, st_tip_hash = tip_hash tip, st_total_difficulty = tip_total_difficulty tip,
       st_utxo_count = utxo_count (cs_db s), st_mempool_size = Mempool_len (cs_mempool s), st_is_synced = cs_is_synced now s\<rparr>)"

subsection \<open>Templates and blocks\<close>

definition service_merkle_root :: "ext \<Rightarrow> Transaction list \<Rightarrow> h256" where
  "service_merkle_root e txs = (if txs = [] then h256_zero else hd (merkle_loop e (map (Transaction_txid e) txs)))"

definition verify_merkle_root :: "ext \<Rightarrow> BlockHeader \<Rightarrow> Transaction list \<Rightarrow> bool" where
  "verify_merkle_root e header txs = (hdr_merkle_root header = service_merkle_root e txs)"

text \<open>\<open>max_txs_per_block - 1\<close> is a subtraction of \<open>usize\<close>, which wraps.\<close>

definition template_limit :: "ChainServiceConfig \<Rightarrow> nat" where
  "template_limit config = (if cc_max_txs_per_block config = 0 then 2 ^ 64 - 1 else cc_max_txs_per_block config - 1)"

definition create_block_template :: "ext \<Rightarrow> u64 \<Rightarrow> ChainService \<Rightarrow> address \<Rightarrow> u8 \<Rightarrow> ChainBlockTemplate option" where
  "create_block_template e now s beneficiary stream =
     (let tip = cs_get_tip s; height = tip_height tip + 1 in
      case Mempool_get_pending (cs_mempool s) (template_limit (cs_config s)) of
        None \<Rightarrow> None
      | Some pending_txs \<Rightarrow>
          let coinbase_value = get_block_reward s height stream;
              coinbase_tx = Transaction_coinbase height coinbase_value beneficiary
          in Some \<lparr>bt_height = height, bt_parent_hash = tip_hash tip,
               bt_merkle_root = service_merkle_root e (coinbase_tx # pending_txs), bt_timestamp = now,
               bt_difficulty = get_difficulty s, bt_coinbase_tx = coinbase_tx, bt_transactions = pending_txs,
               bt_coinbase_value = coinbase_value\<rparr>)"

definition build_block :: "ChainBlockTemplate \<Rightarrow> u64 \<Rightarrow> u64 \<Rightarrow> address \<Rightarrow> u8 \<Rightarrow> Block" where
  "build_block t nonce extra_nonce beneficiary stream =
     Block_new \<lparr>hdr_version = 1, hdr_stream = stream, hdr_parent_hash = bt_parent_hash t,
         hdr_merkle_root = bt_merkle_root t, hdr_utxo_commitment = h256_zero, hdr_timestamp = bt_timestamp t,
         hdr_difficulty = bt_difficulty t, hdr_nonce = nonce, hdr_extra_nonce = extra_nonce,
         hdr_height = bt_height t, hdr_beneficiary = beneficiary\<rparr>
       (bt_coinbase_tx t # bt_transactions t)"

definition build_block_with_merkle ::
  "ext \<Rightarrow> h256 \<Rightarrow> u64 \<Rightarrow> Transaction list \<Rightarrow> u64 \<Rightarrow> u64 \<Rightarrow> u64 \<Rightarrow> u64 \<Rightarrow> address \<Rightarrow> u8 \<Rightarrow> Block" where
  "build_block_with_merkle e parent_hash height txs timestamp difficulty nonce extra_nonce beneficiary stream =
     Block_new \<lparr>hdr_version = 1, hdr_stream = stream, hdr_parent_hash = parent_hash,
         hdr_merkle_root = service_merkle_root e txs, hdr_utxo_commitment = h256_zero, hdr_timestamp = timestamp,
         hdr_difficulty = difficulty, hdr_nonce = nonce, hdr_extra_nonce = extra_nonce,
         hdr_height = height, hdr_beneficiary = beneficiary\<rparr> txs"

subsection \<open>Committing\<close>

definition cs_validate_block :: "ext \<Rightarrow> u64 \<Rightarrow> ChainService \<Rightarrow> Block \<Rightarrow> ChainServiceError + unit" where
  "cs_validate_block e now s block =
     (if \<not> verify_merkle_root e (blk_header block) (blk_transactions block)
      then Err (CsInvalidMerkleRoot (service_merkle_root e (blk_transactions block)) (hdr_merkle_root (blk_header block)))
      else case validate_block e now block (cs_db s) of Err er \<Rightarrow> Err (CsValidation er) | Ok _ \<Rightarrow> Ok ())"

definition drop_included :: "ext \<Rightarrow> Mempool \<Rightarrow> Transaction list \<Rightarrow> Mempool" where
  "drop_included e pool txs =
     foldl (\<lambda>p tx. if Transaction_is_coinbase tx then p else Mempool_remove p (Transaction_txid e tx)) pool txs"

definition cs_process_block :: "ext \<Rightarrow> u64 \<Rightarrow> ChainService \<Rightarrow> Block \<Rightarrow> ChainServiceError + (ChainService \<times> h256)" where
  "cs_process_block e now s block =
     and_then (cs_validate_block e now s block) (\<lambda>_.
       case commit_block e (cs_db s) block of
         Err er \<Rightarrow> Err (CsStorage er)
       | Ok db' \<Rightarrow>
           let new_tip = \<lparr>tip_height = Block_height block, tip_hash = Block_hash e block,
                 tip_total_difficulty = cs_total_difficulty s + hdr_difficulty (blk_header block)\<rparr>
           in Ok (s\<lparr>cs_db := db', cs_cached_tip := new_tip,
                    cs_mempool := drop_included e (cs_mempool s) (blk_transactions block)\<rparr>, Block_hash e block))"

definition submit_mined_block ::
  "ext \<Rightarrow> u64 \<Rightarrow> ChainService \<Rightarrow> ChainBlockTemplate \<Rightarrow> u64 \<Rightarrow> u64 \<Rightarrow> address \<Rightarrow> u8
     \<Rightarrow> ChainServiceError + (ChainService \<times> h256)" where
  "submit_mined_block e now s t nonce extra_nonce beneficiary stream =
     (let block = build_block t nonce extra_nonce beneficiary stream in
      if \<not> BlockHeader_verify_pow e (blk_header block) then Err (CsInvalidBlock ''PoW verification failed'')
      else cs_process_block e now s block)"

definition cs_rollback_to :: "ext \<Rightarrow> ChainService \<Rightarrow> u64 \<Rightarrow> ChainService" where
  "cs_rollback_to e s height =
     (let db' = rollback_to e (cs_db s) height; s1 = s\<lparr>cs_db := db'\<rparr> in
      case cs_get_block_by_height s1 height of
        Some block \<Rightarrow> s1\<lparr>cs_cached_tip := \<lparr>tip_height = height, tip_hash = Block_hash e block,
                                          tip_total_difficulty = total_difficulty db'\<rparr>\<rparr>
      | None \<Rightarrow> s1)"

subsection \<open>The two checks of the merkle root agree\<close>

lemma service_merkle_root_block: "service_merkle_root e (blk_transactions b) = Block_compute_merkle_root e b"
  by (simp add: service_merkle_root_def Block_compute_merkle_root_def)

lemma build_block_simps [simp]:
  "blk_transactions (build_block t nonce extra a st) = bt_coinbase_tx t # bt_transactions t"
  "Block_height (build_block t nonce extra a st) = bt_height t"
  "hdr_parent_hash (blk_header (build_block t nonce extra a st)) = bt_parent_hash t"
  "hdr_merkle_root (blk_header (build_block t nonce extra a st)) = bt_merkle_root t"
  "hdr_timestamp (blk_header (build_block t nonce extra a st)) = bt_timestamp t"
  "hdr_difficulty (blk_header (build_block t nonce extra a st)) = bt_difficulty t"
  by (simp_all add: build_block_def Block_new_def Block_height_def)

lemma template_fields:
  assumes "create_block_template e now s a st = Some t"
  shows "bt_height t = tip_height (cs_cached_tip s) + 1" and "bt_parent_hash t = tip_hash (cs_cached_tip s)"
    and "bt_merkle_root t = service_merkle_root e (bt_coinbase_tx t # bt_transactions t)" and "bt_timestamp t = now"
    and "bt_coinbase_tx t = Transaction_coinbase (bt_height t) (get_block_reward s (bt_height t) st) a"
    and "Mempool_get_pending (cs_mempool s) (template_limit (cs_config s)) = Some (bt_transactions t)"
  using assms by (auto simp: create_block_template_def cs_get_tip_def Let_def split: option.splits)

lemma cs_process_block_Ok_iff:
  "cs_process_block e now s b = Ok (s', h) \<longleftrightarrow>
     (\<exists>db'. validate_block e now b (cs_db s) = Ok () \<and> commit_block e (cs_db s) b = Ok db' \<and> h = Block_hash e b
        \<and> s' = s\<lparr>cs_db := db',
             cs_cached_tip := \<lparr>tip_height = Block_height b, tip_hash = Block_hash e b,
               tip_total_difficulty = cs_total_difficulty s + hdr_difficulty (blk_header b)\<rparr>,
             cs_mempool := drop_included e (cs_mempool s) (blk_transactions b)\<rparr>)"
proof -
  have "verify_merkle_root e (blk_header b) (blk_transactions b)" if "validate_block e now b (cs_db s) = Ok ()"
    using that by (simp add: validate_block_Ok_iff validate_merkle_def Block_verify_merkle_def verify_merkle_root_def
        service_merkle_root_block)
  then show ?thesis
    by (auto simp: cs_process_block_def cs_validate_block_def Let_def split: sum.splits)
qed

lemma submit_mined_Ok:
  "submit_mined_block e now s t nonce extra a st = Ok r \<Longrightarrow> cs_process_block e now s (build_block t nonce extra a st) = Ok r"
  by (simp add: submit_mined_block_def Let_def split: if_splits)

subsection \<open>The pool after a block\<close>

lemma drop_included_alt:
  "drop_included e p txs = foldl Mempool_remove p (map (Transaction_txid e) (filter (\<lambda>tx. \<not> Transaction_is_coinbase tx) txs))"
  unfolding drop_included_def by (induction txs arbitrary: p) simp_all

lemma drop_included_get:
  "Mempool_get (drop_included e p txs) k =
     (if \<exists>tx \<in> set txs. \<not> Transaction_is_coinbase tx \<and> k = Transaction_txid e tx then None else Mempool_get p k)"
  by (auto simp: Mempool_get_def drop_included_alt mempool_get_remove_all)

lemma drop_included_inv: "mempool_inv e p \<Longrightarrow> mempool_inv e (drop_included e p txs)"
  by (simp add: drop_included_alt mempool_remove_all_inv)

subsection \<open>Runs of the service\<close>

text \<open>
  A run starts with a service over a freshly opened database; blocks come from peers or from mining, the
  pool is also used by others, and the chain is rolled back. Any block that is accepted is a step, one of
  height zero included; only that a block has the hash of a different stored header is excluded. The run
  records the heights of the blocks and, for a rollback, its target and the height of the tip.
\<close>

datatype service_event =
    SvBlock u64
  | SvRollback u64 u64

inductive service_run :: "ext \<Rightarrow> NetworkId \<Rightarrow> service_event list \<Rightarrow> ChainService \<Rightarrow> bool" for e network where
  start: "ChainDB_open e network ChainDB_empty = Ok db \<Longrightarrow> reachable (mempool_step e) (Mempool_new c) p
    \<Longrightarrow> service_run e network [] (ChainService_new db p config)"
| pool: "service_run e network evs s
    \<Longrightarrow> service_run e network evs (s\<lparr>cs_mempool := mempool_step e (cs_mempool s) x\<rparr>)"
| block: "service_run e network evs s \<Longrightarrow> no_clash e (cs_db s) b
    \<Longrightarrow> cs_process_block e now s b = Ok (s', h) \<Longrightarrow> service_run e network (SvBlock (Block_height b) # evs) s'"
| mined: "service_run e network evs s \<Longrightarrow> no_clash e (cs_db s) (build_block t nonce extra a st)
    \<Longrightarrow> submit_mined_block e now s t nonce extra a st = Ok (s', h) \<Longrightarrow> service_run e network (SvBlock (bt_height t) # evs) s'"
| rollback: "service_run e network evs s
    \<Longrightarrow> service_run e network (SvRollback height (cs_height s) # evs) (cs_rollback_to e s height)"

text \<open>Runs without a block of height zero, and runs that roll back to no height above the tip.\<close>

definition no_reset :: "service_event list \<Rightarrow> bool" where
  "no_reset evs = (\<forall>x \<in> set evs. case x of SvBlock h \<Rightarrow> h \<noteq> 0 | SvRollback _ _ \<Rightarrow> True)"

definition rollbacks_below :: "service_event list \<Rightarrow> bool" where
  "rollbacks_below evs = (\<forall>x \<in> set evs. case x of SvBlock _ \<Rightarrow> True | SvRollback target tip \<Rightarrow> target \<le> tip)"

lemma run_condition_simps [simp]:
  "no_reset []" "no_reset (SvBlock h # evs) \<longleftrightarrow> h \<noteq> 0 \<and> no_reset evs"
  "no_reset (SvRollback height tip # evs) \<longleftrightarrow> no_reset evs"
  "rollbacks_below []" "rollbacks_below (SvBlock h # evs) \<longleftrightarrow> rollbacks_below evs"
  "rollbacks_below (SvRollback height tip # evs) \<longleftrightarrow> height \<le> tip \<and> rollbacks_below evs"
  by (simp_all add: no_reset_def rollbacks_below_def)

definition no_heights_above :: "ChainDB \<Rightarrow> bool" where
  "no_heights_above db \<longleftrightarrow> (\<forall>h > tip_height (db_tip db). hm_get (db_heights db) h = None)"

definition service_inv :: "ext \<Rightarrow> service_event list \<Rightarrow> ChainService \<Rightarrow> bool" where
  "service_inv e evs s \<longleftrightarrow> chain_linked e (cs_db s) \<and> mempool_inv e (cs_mempool s)
     \<and> (no_reset evs \<longrightarrow> no_heights_above (cs_db s))
     \<and> (no_reset evs \<or> rollbacks_below evs \<longrightarrow> cs_cached_tip s = db_tip (cs_db s))"

lemma service_inv_block:
  assumes inv: "service_inv e evs s" and "no_clash e (cs_db s) b" and run: "cs_process_block e now s b = Ok (s', h)"
  shows "service_inv e (SvBlock (Block_height b) # evs) s'"
proof -
  obtain db' where commit: "commit_block e (cs_db s) b = Ok db'"
    and s': "cs_db s' = db'" "cs_mempool s' = drop_included e (cs_mempool s) (blk_transactions b)"
      "cs_cached_tip s' = \<lparr>tip_height = Block_height b, tip_hash = Block_hash e b,
               tip_total_difficulty = cs_total_difficulty s + hdr_difficulty (blk_header b)\<rparr>"
    using run by (auto simp: cs_process_block_Ok_iff)
  note cols = commit_block_columns [OF commit]
  have "no_heights_above db'" if "Block_height b \<noteq> 0" and "no_heights_above (cs_db s)"
  proof -
    have succ: "Block_height b = tip_height (db_tip (cs_db s)) + 1"
      using commit that(1) by (simp add: commit_block_Ok_iff)
    then have "tip_height (db_tip (cs_db s)) < Block_height b"
      using that(1) by (simp add: word_less_nat_alt unat_add_one)
    then show ?thesis using that(2) by (auto simp: no_heights_above_def cols commit_tip_def)
  qed
  moreover have "cs_cached_tip s' = db_tip db'" if "cs_cached_tip s = db_tip (cs_db s)"
    using that by (simp add: s' cols commit_tip_def cs_total_difficulty_def)
  ultimately show ?thesis
    using inv commit_linked [OF _ assms(2) commit] by (auto simp: service_inv_def s' drop_included_inv)
qed

lemma rolled_back_tip:
  assumes linked: "chain_linked e db" and inside: "height \<le> tip_height (db_tip db) \<or> no_heights_above db"
  shows "case get_block_by_height (rollback_to e db height) height of
      Some b \<Rightarrow> db_tip (rollback_to e db height) = \<lparr>tip_height = height, tip_hash = Block_hash e b,
        tip_total_difficulty = total_difficulty (rollback_to e db height)\<rparr>
    | None \<Rightarrow> db_tip (rollback_to e db height) = db_tip db"
proof (cases "height < tip_height (db_tip db)")
  case True
  let ?db' = "rollback_to e db height"
  note st = rollback_state [OF linked True]
  obtain b where b: "get_block_by_height db height = Some b"
      "db_tip ?db' = \<lparr>tip_height = height, tip_hash = Block_hash e b, tip_total_difficulty = calculate_total_difficulty ?db' height\<rparr>"
    using st by blast
  have "get_block_by_height ?db' height = get_block_by_height db height"
    using st by (intro get_block_by_height_cong) auto
  then show ?thesis using b by (simp add: total_difficulty_def)
next
  case False
  then have same: "rollback_to e db height = db" by (simp add: rollback_to_def get_tip_def not_less)
  show ?thesis
  proof (cases "height = tip_height (db_tip db)")
    case True
    obtain b where b: "get_block_by_height db height = Some b" "hm_get (db_heights db) height = Some (Block_hash e b)"
      using linked_heights [OF linked, of height] True by auto
    then have "tip_hash (db_tip db) = Block_hash e b" using linked True by (simp add: chain_linked_def)
    then show ?thesis
      unfolding same using True b(1) by (auto simp: total_difficulty_def intro!: ChainTip.equality)
  next
    case neq: False
    then have "no_heights_above db" using inside False by auto
    then have "hm_get (db_heights db) height = None"
      using neq False by (simp add: no_heights_above_def)
    then show ?thesis by (simp add: same get_block_by_height_alt)
  qed
qed

lemma rollback_no_heights_above:
  assumes "chain_linked e db" and "no_heights_above db"
  shows "no_heights_above (rollback_to e db height)"
proof (cases "height < tip_height (db_tip db)")
  case True
  note st = rollback_state [OF assms(1) True]
  have "tip_height (db_tip (rollback_to e db height)) = height" using st by auto
  then show ?thesis using st assms(2) by (auto simp: no_heights_above_def not_le)
next
  case False
  then show ?thesis using assms(2) by (simp add: rollback_to_def get_tip_def not_less)
qed

lemma service_inv_rollback:
  assumes inv: "service_inv e evs s"
  shows "service_inv e (SvRollback height (cs_height s) # evs) (cs_rollback_to e s height)"
proof -
  let ?db' = "rollback_to e (cs_db s) height" and ?s' = "cs_rollback_to e s height"
  have linked: "chain_linked e (cs_db s)" using inv by (simp add: service_inv_def)
  have db': "cs_db ?s' = ?db'" "cs_mempool ?s' = cs_mempool s"
    by (simp_all add: cs_rollback_to_def Let_def split: option.split)
  have "cs_cached_tip ?s' = db_tip ?db'"
    if ok: "no_reset evs \<or> height \<le> cs_height s \<and> rollbacks_below evs"
  proof -
    have tip: "cs_cached_tip s = db_tip (cs_db s)" using inv ok by (auto simp: service_inv_def)
    then have "height \<le> tip_height (db_tip (cs_db s)) \<or> no_heights_above (cs_db s)"
      using inv ok by (auto simp: service_inv_def cs_height_def)
    from rolled_back_tip [OF linked this] show ?thesis
      using tip by (auto simp: cs_rollback_to_def cs_get_block_by_height_def Let_def split: option.splits)
  qed
  then show ?thesis
    using inv rollback_linked [OF linked, of height] rollback_no_heights_above [OF linked, of height]
    by (auto simp: service_inv_def db')
qed

lemma service_run_inv: "service_run e network evs s \<Longrightarrow> service_inv e evs s"
proof (induction rule: service_run.induct)
  case (start db c p config)
  then show ?case
    using opened_linked [OF start(1)] opened_state [OF start(1)] mempool.inv_reachable
    by (simp add: service_inv_def ChainService_new_def get_tip_def no_heights_above_def hm_get_def)
next
  case (pool evs s x)
  then show ?case by (simp add: service_inv_def mempool_step_inv)
next
  case (block evs s b now s' h)
  then show ?case using service_inv_block by blast
next
  case (mined evs s t nonce extra a st now s' h)
  then show ?case using service_inv_block [OF mined.IH mined.hyps(2) submit_mined_Ok [OF mined.hyps(3)]] by simp
next
  case (rollback evs s height)
  then show ?case by (simp add: service_inv_rollback)
qed

subsection \<open>Properties\<close>

text \<open>
  C14. The service and the database agree. After any blocks, mined or received and of any height, rollbacks
  and uses of the pool, the chain of the database is linked from its tip down to height zero and no two pooled
  transactions spend a common outpoint. If no block of height zero was accepted, or no rollback was to a height
  above the tip, then the tip the service keeps is the tip of the database and its block is stored at its
  height. (Assumed: no block has the hash of a different stored header.)
\<close>

theorem service_tip_agrees:
  assumes "service_run e network evs s"
  shows "(\<forall>n \<le> unat (tip_height (get_tip (cs_db s))). linked_at e (cs_db s) n)
    \<and> pool_disjoint (mp_by_hash (cs_mempool s))
    \<and> (no_reset evs \<or> rollbacks_below evs \<longrightarrow> cs_get_tip s = get_tip (cs_db s)
        \<and> (\<exists>b. cs_get_block_by_height s (cs_height s) = Some b \<and> Block_hash e b = cs_tip_hash s))"
proof -
  have inv: "service_inv e evs s" using assms by (rule service_run_inv)
  then have linked: "chain_linked e (cs_db s)" by (simp add: service_inv_def)
  have "cs_get_tip s = get_tip (cs_db s) \<and> (\<exists>b. cs_get_block_by_height s (cs_height s) = Some b \<and> Block_hash e b = cs_tip_hash s)"
    if "no_reset evs \<or> rollbacks_below evs"
  proof -
    have tip: "cs_cached_tip s = db_tip (cs_db s)" using inv that by (simp add: service_inv_def)
    obtain b where "get_block_by_height (cs_db s) (cs_height s) = Some b" "hm_get (db_heights (cs_db s)) (cs_height s) = Some (Block_hash e b)"
      using linked_heights [OF linked, of "cs_height s"] by (auto simp: cs_height_def tip)
    moreover have "hm_get (db_heights (cs_db s)) (cs_height s) = Some (cs_tip_hash s)"
      using linked by (simp add: chain_linked_def cs_height_def cs_tip_hash_def tip)
    ultimately show ?thesis by (simp add: cs_get_tip_def get_tip_def tip cs_get_block_by_height_def)
  qed
  then show ?thesis using inv linked by (simp add: chain_linked_def get_tip_def service_inv_def mempool_inv_def)
qed

text \<open>
  The condition is needed: the heights above a block of height zero keep their old blocks, and a rollback
  to such a height changes nothing in the database but makes the old block the tip of the service.
\<close>

lemma rollback_above_tip_diverges:
  assumes "cs_get_tip s = get_tip (cs_db s)" and "cs_height s < h" and "cs_get_block_by_height s h = Some b"
  shows "cs_height (cs_rollback_to e s h) = h \<and> get_tip (cs_db (cs_rollback_to e s h)) = get_tip (cs_db s)"
proof -
  have "rollback_to e (cs_db s) h = cs_db s"
    using assms(1,2) by (simp add: rollback_to_def cs_height_def cs_get_tip_def get_tip_def less_imp_le Let_def)
  then show ?thesis
    using assms(3) by (simp add: cs_rollback_to_def cs_get_block_by_height_def cs_height_def)
qed

lemma coinbase_valid_iff:
  "validate_coinbase (Transaction_coinbase height value miner) h = Ok () \<longleftrightarrow> value \<le> 5000000000"
  by (simp add: validate_coinbase_def Transaction_coinbase_def Transaction_is_coinbase_def TxInput_is_coinbase_def
      TxInput_coinbase_def OutPoint_is_coinbase_def OutPoint_coinbase_def Transaction_total_output_def
      TxOutput_p2pkh_def TxOutput_new_def not_less [symmetric])

lemma pending_length: "Mempool_get_pending p n = Some txs \<Longrightarrow> length txs \<le> n"
  by (auto simp: Mempool_get_pending_def Let_def split: if_splits)

text \<open>
  C13. Mining works. Let the cached tip be that of the database, the configured reward of stream A at most
  50 PYRAX, and 1 to 5000 transactions allowed in a block. Then the block built from a fresh template of stream
  A with a nonce that meets the target is committed, provided that the pooled transactions in it are valid on
  the current chain and have at most \<open>2^32\<close> outputs each, that the block serialises to at most the size limit,
  that the height does not wrap, and that the clock was not behind the parent's timestamp when the template was
  made, has not gone back since and is not within two hours of the end of 64 bits. The chain grows by the block,
  the unspent outputs become those it describes, and its transactions leave the pool.
\<close>

theorem mined_block_extends_chain:
  assumes "cs_get_tip s = get_tip (cs_db s)" and "create_block_template e now s a 0 = Some t"
    and "cc_stream_a_block_reward (cs_config s) \<le> 5000000000" and "cc_max_txs_per_block (cs_config s) \<in> {1 .. 5000}"
    and "validate_tx_list e (cs_db s) (bt_height t) (bt_transactions t) {} = Ok spent" and "bt_height t \<noteq> 0"
    and "BlockHeader_verify_pow e (blk_header (build_block t nonce extra a 0))"
    and "ext_bincode_block e (build_block t nonce extra a 0) = Some d" and "length d \<le> MAX_BLOCK_SIZE"
    and "\<And>parent. cs_get_block s (cs_tip_hash s) = Some parent \<Longrightarrow> hdr_timestamp (blk_header parent) \<le> now"
    and "now \<le> now'" and "unat now' + 7200 < 2 ^ 64"
    and "\<forall>tx \<in> set (bt_transactions t). length (tx_outputs tx) \<le> 2 ^ 32"
  shows "\<exists>s'. submit_mined_block e now' s t nonce extra a 0 = Ok (s', Block_hash e (build_block t nonce extra a 0))
    \<and> cs_height s' = cs_height s + 1 \<and> cs_tip_hash s' = Block_hash e (build_block t nonce extra a 0)
    \<and> cs_get_utxo s' = ledger_block e (cs_get_utxo s) (build_block t nonce extra a 0)
    \<and> (\<forall>tx \<in> set (bt_transactions t). \<not> Transaction_is_coinbase tx \<longrightarrow>
         Mempool_get (cs_mempool s') (Transaction_txid e tx) = None)"
proof -
  let ?b = "build_block t nonce extra a 0"
  note t = template_fields [OF assms(2)]
  have tip: "cs_cached_tip s = db_tip (cs_db s)" using assms(1) by (simp add: cs_get_tip_def get_tip_def)
  have "length (bt_transactions t) \<le> 4999"
    using pending_length [OF t(6)] assms(4) by (auto simp: template_limit_def)
  then have "validate_structure e ?b = Ok ()"
    using assms(8,9) by (simp add: validate_structure_def MAX_TRANSACTIONS_PER_BLOCK_def Let_def)
  moreover have "validate_pow e ?b = Ok ()" using assms(7) by (simp add: validate_pow_def)
  moreover have "validate_chain_link ?b (cs_db s) = Ok ()"
    using assms(6) t(1,2) by (simp add: validate_chain_link_def get_tip_def tip Let_def)
  moreover have "validate_merkle e ?b = Ok ()"
    using t(3) service_merkle_root_block [of e ?b] by (simp add: validate_merkle_def Block_verify_merkle_def)
  moreover have "\<not> now' + 7200 < now"
    using assms(11,12) by (simp add: word_less_nat_alt word_le_nat_alt unat_word_ariths)
  then have "validate_timestamp now' ?b (cs_db s) = Ok ()"
    using assms(10) t(2,4) by (auto simp: validate_timestamp_def cs_get_block_def cs_tip_hash_def Let_def not_less split: option.split)
  moreover have "get_block_reward s (bt_height t) 0 \<le> 5000000000" using assms(3) by (simp add: get_block_reward_def)
  then have "validate_coinbase (bt_coinbase_tx t) (bt_height t) = Ok ()" by (simp add: t(5) coinbase_valid_iff)
  then have "validate_transactions e (cs_db s) ?b = Ok ()" using assms(5) by (simp add: validate_transactions_def)
  ultimately have valid: "validate_block e now' ?b (cs_db s) = Ok ()" by (simp add: validate_block_Ok_iff)
  obtain db' where commit: "commit_block e (cs_db s) ?b = Ok db'"
    using assms(8) t(1,2) by (simp add: commit_block_Ok_iff tip)
  obtain s' where s': "cs_process_block e now' s ?b = Ok (s', Block_hash e ?b)" "cs_db s' = db'"
      "cs_cached_tip s' = \<lparr>tip_height = Block_height ?b, tip_hash = Block_hash e ?b,
               tip_total_difficulty = cs_total_difficulty s + hdr_difficulty (blk_header ?b)\<rparr>"
      "cs_mempool s' = drop_included e (cs_mempool s) (blk_transactions ?b)"
    using valid commit by (auto simp: cs_process_block_Ok_iff)
  have "\<forall>tx \<in> set (blk_transactions ?b). length (tx_outputs tx) \<le> 2 ^ 32"
    using assms(13) by (simp add: t(5) Transaction_coinbase_def)
  then have "get_utxo db' = ledger_block e (get_utxo (cs_db s)) ?b"
    unfolding get_utxo_def [abs_def] ledger_block_def commit_block_columns(4) [OF commit] by (rule tx_batches_get)
  then have "cs_get_utxo s' = ledger_block e (cs_get_utxo s) ?b"
    by (simp add: cs_get_utxo_def [abs_def] s'(2))
  moreover have "submit_mined_block e now' s t nonce extra a 0 = Ok (s', Block_hash e ?b)"
    using assms(7) s'(1) by (simp add: submit_mined_block_def Let_def)
  moreover have "Mempool_get (cs_mempool s') (Transaction_txid e tx) = None"
    if "tx \<in> set (bt_transactions t)" "\<not> Transaction_is_coinbase tx" for tx
    using that by (auto simp: s'(4) drop_included_get)
  ultimately show ?thesis using s'(3) t(1) by (simp add: cs_height_def cs_tip_hash_def)
qed

text \<open>
  C40. No block of stream B is ever mined: the validator allows the reward of stream A for every coinbase,
  and the templates of stream B pay twice that, so with the default configuration every solution of
  such a template is refused.
\<close>

theorem stream_b_templates_rejected:
  assumes "create_block_template e now s a 1 = Some t" and "cs_config s = ChainServiceConfig_default"
  shows "\<not> is_ok (submit_mined_block e now' s' t nonce extra a' st)"
proof -
  have "bt_coinbase_tx t = Transaction_coinbase (bt_height t) 10000000000 a"
    using template_fields(5) [OF assms(1)] assms(2) by (simp add: get_block_reward_def ChainServiceConfig_default_def)
  then have "validate_transactions e (cs_db s') (build_block t nonce extra a' st) \<noteq> Ok ()"
    using coinbase_valid_iff [of "bt_height t" 10000000000 a] by (auto simp: validate_transactions_def and_then_Ok_iff)
  then show ?thesis
    by (auto simp: validate_block_Ok_iff cs_process_block_Ok_iff elim!: is_okE dest!: submit_mined_Ok)
qed

lemma missing_input_rejected:
  assumes "tx \<in> set (bt_transactions t)" and "q \<in> set (tx_outpoints tx)" and "get_utxo (cs_db s) q = None"
  shows "\<not> is_ok (submit_mined_block e now s t nonce extra a st)"
proof
  let ?b = "build_block t nonce extra a st"
  assume "is_ok (submit_mined_block e now s t nonce extra a st)"
  then obtain r where "cs_process_block e now s ?b = Ok r" by (auto elim!: is_okE dest: submit_mined_Ok)
  then have "validate_transactions e (cs_db s) ?b = Ok ()"
    by (cases r) (auto simp: cs_process_block_Ok_iff validate_block_Ok_iff)
  then obtain S where "validate_tx_list e (cs_db s) (Block_height ?b) (bt_transactions t) {} = Ok S"
    using validate_transactions_Ok(3) [of e "cs_db s" ?b] by fastforce
  from validate_tx_list_Ok [OF this] assms(1)
  have "\<forall>i \<in> set (tx_inputs tx). input_authorised e (cs_db s) tx (Block_height ?b) i" by blast
  then show False using assms(2,3) by (auto simp: tx_outpoints_def input_authorised_def)
qed

text \<open>
  A confirmed conflict stalls mining: when a block spends an outpoint that a different pooled
  transaction spends too, that transaction stays in the pool, and every block mined from a template that
  includes it is refused, until the pool is cleaned by other means.
\<close>

theorem conflict_stalls_mining:
  assumes "cs_process_block e now s b = Ok (s', h)" and "tx \<in> set (blk_transactions b)" and "q \<in> tx_spent tx"
    and "\<forall>x \<in> set (blk_transactions b). q \<notin> tx_created e x \<and> length (tx_outputs x) \<le> 2 ^ 32"
    and "Mempool_get (cs_mempool s) k = Some conflicting" and "q \<in> set (tx_outpoints conflicting)"
    and "k \<notin> Transaction_txid e ` set (blk_transactions b)"
  shows "Mempool_get (cs_mempool s') k = Some conflicting
    \<and> (\<forall>now' t nonce extra a st. conflicting \<in> set (bt_transactions t) \<longrightarrow>
         \<not> is_ok (submit_mined_block e now' s' t nonce extra a st))"
proof -
  obtain db' where commit: "commit_block e (cs_db s) b = Ok db'" and s': "cs_db s' = db'"
      "cs_mempool s' = drop_included e (cs_mempool s) (blk_transactions b)"
    using assms(1) by (auto simp: cs_process_block_Ok_iff)
  have small: "\<forall>x \<in> set (blk_transactions b). length (tx_outputs x) \<le> 2 ^ 32" using assms(4) by blast
  have "get_utxo db' = foldl (ledger_tx e (Block_height b)) (hm_get (db_utxo (cs_db s))) (blk_transactions b)"
    unfolding get_utxo_def [abs_def] commit_block_columns(4) [OF commit] using small by (rule tx_batches_get)
  moreover have "\<not> (\<exists>x \<in> set (blk_transactions b). op_txid q = Transaction_txid e x \<and> unat (op_vout q) < length (tx_outputs x))"
    using assms(4) tx_created_iff by blast
  ultimately have "get_utxo (cs_db s') q = None"
    using ledger_created_or_unspent [of e "Block_height b" _ "blk_transactions b" q, OF _ assms(2,3)] s'(1) by fastforce
  moreover have "Mempool_get (cs_mempool s') k = Some conflicting"
    using assms(5,7) by (auto simp: s'(2) drop_included_get)
  ultimately show ?thesis using missing_input_rejected assms(6) by blast
qed

subsection \<open>Witnesses\<close>

definition sample_service :: ChainService where
  "sample_service = ChainService_new sample_db (Mempool_new MempoolConfig_default) ChainServiceConfig_default"

definition sample_template :: "u8 \<Rightarrow> ChainBlockTemplate" where
  "sample_template stream =
     (let cb = Transaction_coinbase 1 (if stream = 1 then 10000000000 else 5000000000) address_zero in
      \<lparr>bt_height = 1, bt_parent_hash = tip_hash (db_tip sample_db), bt_merkle_root = service_merkle_root sample_ext [cb],
       bt_timestamp = 1735689660, bt_difficulty = 1, bt_coinbase_tx = cb, bt_transactions = [],
       bt_coinbase_value = (if stream = 1 then 10000000000 else 5000000000)\<rparr>)"

lemma sample_service_run: "service_run sample_ext NetworkId_DEVNET [] sample_service"
  unfolding sample_service_def by (rule service_run.start [OF sample_open reachable.intros(1)])

lemma sample_template_eq:
  "create_block_template sample_ext 1735689660 sample_service address_zero stream = Some (sample_template stream)"
  by (simp add: create_block_template_def sample_service_def ChainService_new_def cs_get_tip_def get_tip_def
      Mempool_get_pending_def Mempool_new_def hm_values_def get_block_reward_def get_difficulty_def
      ChainServiceConfig_default_def sample_template_def sample_db_state(1) Let_def)

lemma difficulty_one_pow: "hdr_difficulty h = 1 \<Longrightarrow> BlockHeader_verify_pow sample_ext h"
  using BlockHeader_hash_wf(2) [of sample_ext h] be_value_less [of "h256_bytes (BlockHeader_pow_hash sample_ext h)"]
  by (simp add: verify_pow_value wf_h256_def)

lemma make_block_no_clash: "no_clash sample_ext sample_db (make_block txs)"
proof -
  let ?g = "genesis_block sample_ext NetworkId_DEVNET"
  have "BlockHeader_hash sample_ext (blk_header (make_block txs)) \<noteq> BlockHeader_hash sample_ext (blk_header ?g)"
    by (auto dest!: arg_cong [of _ _ "\<lambda>h. hd (h256_bytes h)"] simp: sample_hash_version make_block_def
        Block_new_def genesis_block_def Let_def split: prod.splits)
  then show ?thesis
    by (simp add: no_clash_def get_block_def sample_db_state(2) hm_get_def Block_hash_def)
qed

text \<open>A block of height one, then a rollback to height zero.\<close>

theorem service_tip_agrees_witness:
  "\<exists>s h. cs_process_block sample_ext 1735689660 sample_service (make_block [Transaction_coinbase 1 5000000000 address_zero])
      = Ok (s, h)
    \<and> cs_get_tip s = get_tip (cs_db s) \<and> linked_at sample_ext (cs_db s) 0
    \<and> cs_get_tip (cs_rollback_to sample_ext s 0) = get_tip (cs_db (cs_rollback_to sample_ext s 0))"
proof -
  let ?b = "make_block [Transaction_coinbase 1 5000000000 address_zero]"
  have db: "cs_db sample_service = sample_db" by (simp add: sample_service_def ChainService_new_def)
  have "validate_transactions sample_ext sample_db ?b = Ok ()"
    by (simp add: validate_transactions_def sample_coinbase_ok)
  then obtain s h where s: "cs_process_block sample_ext 1735689660 sample_service ?b = Ok (s, h)"
    using make_block_valid [of "[Transaction_coinbase 1 5000000000 address_zero]" sample_db]
    by (auto simp: cs_process_block_Ok_iff db)
  have run: "service_run sample_ext NetworkId_DEVNET [SvBlock (Block_height ?b)] s"
    using make_block_no_clash s by (intro service_run.block [OF sample_service_run]) (simp_all add: db)
  have "cs_get_tip s = get_tip (cs_db s) \<and> linked_at sample_ext (cs_db s) 0"
    using service_tip_agrees [OF run] by simp
  moreover have "cs_get_tip (cs_rollback_to sample_ext s 0) = get_tip (cs_db (cs_rollback_to sample_ext s 0))"
    using service_tip_agrees [OF service_run.rollback [OF run, of 0]] by simp
  ultimately show ?thesis using s by blast
qed

text \<open>A service whose pool holds the spend of the funded output.\<close>

definition sample_mining_service :: ChainService where
  "sample_mining_service = ChainService_new sample_funded
     ((Mempool_new MempoolConfig_default)\<lparr>mp_by_hash := [(Transaction_txid sample_ext sample_spend,
        \<lparr>me_tx = sample_spend, me_fee = 10, me_size = 48, me_added_time = 0\<rparr>)]\<rparr>) ChainServiceConfig_default"

definition sample_mining_template :: ChainBlockTemplate where
  "sample_mining_template =
     (let cb = Transaction_coinbase 1 5000000000 address_zero in
      \<lparr>bt_height = 1, bt_parent_hash = tip_hash (db_tip sample_db), bt_merkle_root = service_merkle_root sample_ext [cb, sample_spend],
       bt_timestamp = 1735689660, bt_difficulty = 1, bt_coinbase_tx = cb, bt_transactions = [sample_spend],
       bt_coinbase_value = 5000000000\<rparr>)"

lemma sample_mining_template_eq:
  "create_block_template sample_ext 1735689660 sample_mining_service address_zero 0 = Some sample_mining_template"
  by (simp add: create_block_template_def sample_mining_service_def ChainService_new_def cs_get_tip_def get_tip_def
      Mempool_get_pending_def Mempool_new_def hm_values_def get_block_reward_def get_difficulty_def sample_funded_def
      ChainServiceConfig_default_def sample_mining_template_def sample_db_state(1) template_limit_def Let_def)

theorem mined_block_extends_chain_witness:
  "\<exists>s'. submit_mined_block sample_ext 1735689700 sample_mining_service sample_mining_template 7 0 address_zero 0
        = Ok (s', Block_hash sample_ext (build_block sample_mining_template 7 0 address_zero 0))
    \<and> cs_height s' = 1 \<and> cs_tip_hash s' = Block_hash sample_ext (build_block sample_mining_template 7 0 address_zero 0)
    \<and> Mempool_get (cs_mempool s') (Transaction_txid sample_ext sample_spend) = None"
proof -
  let ?t = sample_mining_template and ?s = sample_mining_service
  have t: "bt_transactions ?t = [sample_spend]" "bt_height ?t = 1" "bt_difficulty ?t = 1"
    by (simp_all add: sample_mining_template_def Let_def)
  have db: "cs_db ?s = sample_funded" "cs_config ?s = ChainServiceConfig_default" "cs_get_tip ?s = get_tip sample_funded"
    by (simp_all add: sample_mining_service_def ChainService_new_def cs_get_tip_def)
  have tip: "cs_height ?s = 0"
    using db(3) by (simp add: cs_height_def cs_get_tip_def get_tip_def sample_funded_def sample_db_state(1))
  have parent: "cs_get_block ?s (cs_tip_hash ?s) = Some (genesis_block sample_ext NetworkId_DEVNET)"
    using db(3) by (simp add: cs_get_block_def cs_tip_hash_def cs_get_tip_def db(1) get_tip_def sample_funded_def sample_db_state(1)
        get_block_def sample_db_state(2) hm_get_def)
  obtain spent where spent: "validate_tx_list sample_ext sample_funded 1 [sample_spend] {} = Ok spent"
    using validate_transactions_Ok(3) [OF sample_spend_valid, of "Transaction_coinbase 1 5000000000 address_zero" "[sample_spend]"]
    by (auto simp: sample_txs_def)
  have spend: "\<not> Transaction_is_coinbase sample_spend" "length (tx_outputs sample_spend) = 1"
    by (simp_all add: sample_spend_def Transaction_new_def Transaction_is_coinbase_def TxInput_is_coinbase_def TxInput_new_def
        OutPoint_is_coinbase_iff sample_outpoint_def OutPoint_new_def OutPoint_coinbase_def)
  have "\<exists>s'. submit_mined_block sample_ext 1735689700 ?s ?t 7 0 address_zero 0
        = Ok (s', Block_hash sample_ext (build_block ?t 7 0 address_zero 0))
    \<and> cs_height s' = cs_height ?s + 1 \<and> cs_tip_hash s' = Block_hash sample_ext (build_block ?t 7 0 address_zero 0)
    \<and> cs_get_utxo s' = ledger_block sample_ext (cs_get_utxo ?s) (build_block ?t 7 0 address_zero 0)
    \<and> (\<forall>tx \<in> set (bt_transactions ?t). \<not> Transaction_is_coinbase tx \<longrightarrow>
         Mempool_get (cs_mempool s') (Transaction_txid sample_ext tx) = None)"
  proof (rule mined_block_extends_chain [OF _ sample_mining_template_eq, where d = "[]" and spent = spent])
    show "BlockHeader_verify_pow sample_ext (blk_header (build_block ?t 7 0 address_zero 0))"
      by (rule difficulty_one_pow) (simp add: t)
    show "hdr_timestamp (blk_header b) \<le> 1735689660" if "cs_get_block ?s (cs_tip_hash ?s) = Some b" for b
      using that parent sample_db_state(3) by auto
  qed (use spent spend in \<open>simp_all add: t db sample_bincode_block ChainServiceConfig_default_def MAX_BLOCK_SIZE_def\<close>)
  then show ?thesis using spend(1) by (auto simp: t tip)
qed

theorem stream_b_templates_rejected_witness:
  "\<not> is_ok (submit_mined_block sample_ext 1735689700 sample_service (sample_template 1) 7 0 address_zero 1)"
  using stream_b_templates_rejected [OF sample_template_eq [of 1]]
  by (simp add: sample_service_def ChainService_new_def)

definition sample_conflict :: Transaction where
  "sample_conflict = Transaction_new [TxInput_new sample_outpoint [0, 0]] [TxOutput_p2pkh 30 address_zero]"

definition sample_conflict_service :: ChainService where
  "sample_conflict_service = ChainService_new sample_funded
     ((Mempool_new MempoolConfig_default)\<lparr>mp_by_hash := [(Transaction_txid sample_ext sample_conflict,
        \<lparr>me_tx = sample_conflict, me_fee = 20, me_size = 48, me_added_time = 0\<rparr>)]\<rparr>) ChainServiceConfig_default"

lemma sample_txid_head:
  assumes "tx_version t = 1" and "tx_outputs t = [out]"
  shows "take 12 (h256_bytes (Transaction_txid sample_ext t)) = u32_to_le_bytes 1 @ u64_to_le_bytes (out_value out)"
  using assms
  by (simp add: Transaction_txid_def sample_ext_def sample_bincode_tx_def sample_digest_def h256_from_slice_def)
    (simp add: copy_padded_def)

lemma sample_txid_neq:
  assumes "tx_version t = 1" and "tx_outputs t = [out]" and "tx_version t' = 1" and "tx_outputs t' = [out']"
    and "out_value out \<noteq> out_value out'"
  shows "Transaction_txid sample_ext t \<noteq> Transaction_txid sample_ext t'" and "Transaction_txid sample_ext t \<noteq> h256_zero"
proof -
  show "Transaction_txid sample_ext t \<noteq> Transaction_txid sample_ext t'"
    using sample_txid_head [OF assms(1,2)] sample_txid_head [OF assms(3,4)] assms(5) by auto
  have "u32_to_le_bytes 1 @ u64_to_le_bytes (out_value out) \<noteq> take 12 (h256_bytes h256_zero)"
  proof
    assume "u32_to_le_bytes 1 @ u64_to_le_bytes (out_value out) = take 12 (h256_bytes h256_zero)"
    then have "take 4 (u32_to_le_bytes 1 @ u64_to_le_bytes (out_value out)) = replicate 4 0" by (simp add: h256_zero_def)
    moreover have "le_bytes (Suc 3) 1 \<noteq> replicate (Suc 3) 0" unfolding le_bytes.simps(2) replicate_Suc by simp
    ultimately show False by (simp add: u32_to_le_bytes_def)
  qed
  then show "Transaction_txid sample_ext t \<noteq> h256_zero"
    using sample_txid_head [OF assms(1,2)] by metis
qed

lemma sample_txids:
  "Transaction_txid sample_ext sample_conflict \<noteq> Transaction_txid sample_ext sample_spend"
  "Transaction_txid sample_ext sample_conflict \<noteq> Transaction_txid sample_ext (Transaction_coinbase 1 5000000000 address_zero)"
  "Transaction_txid sample_ext sample_spend \<noteq> h256_zero"
  "Transaction_txid sample_ext (Transaction_coinbase 1 5000000000 address_zero) \<noteq> h256_zero"
proof -
  note defs = sample_conflict_def sample_spend_def Transaction_new_def Transaction_coinbase_def TxOutput_p2pkh_def TxOutput_new_def
  show "Transaction_txid sample_ext sample_conflict \<noteq> Transaction_txid sample_ext sample_spend"
    by (rule sample_txid_neq(1) [of _ "TxOutput_p2pkh 30 address_zero" _ "TxOutput_p2pkh 40 address_zero"]) (simp_all add: defs)
  show "Transaction_txid sample_ext sample_conflict \<noteq> Transaction_txid sample_ext (Transaction_coinbase 1 5000000000 address_zero)"
    by (rule sample_txid_neq(1) [of _ "TxOutput_p2pkh 30 address_zero" _ "TxOutput_p2pkh 5000000000 address_zero"]) (simp_all add: defs)
  show "Transaction_txid sample_ext sample_spend \<noteq> h256_zero"
    by (rule sample_txid_neq(2) [of _ "TxOutput_p2pkh 40 address_zero" sample_conflict "TxOutput_p2pkh 30 address_zero"]) (simp_all add: defs)
  show "Transaction_txid sample_ext (Transaction_coinbase 1 5000000000 address_zero) \<noteq> h256_zero"
    by (rule sample_txid_neq(2) [of _ "TxOutput_p2pkh 5000000000 address_zero" sample_conflict "TxOutput_p2pkh 30 address_zero"])
      (simp_all add: defs)
qed

theorem conflict_stalls_mining_witness:
  "\<exists>s'. Mempool_get (cs_mempool s') (Transaction_txid sample_ext sample_conflict) = Some sample_conflict
    \<and> \<not> is_ok (submit_mined_block sample_ext 1735689700 s' ((sample_template 0)\<lparr>bt_transactions := [sample_conflict]\<rparr>) 7 0 address_zero 0)"
proof -
  let ?b = "make_block sample_txs"
  obtain s' where run: "cs_process_block sample_ext 1735689660 sample_conflict_service ?b = Ok (s', Block_hash sample_ext ?b)"
    using sample_accepted by (auto simp: cs_process_block_Ok_iff sample_conflict_service_def ChainService_new_def)
  have "sample_outpoint \<in> tx_spent sample_spend"
    by (simp add: tx_spent_def sample_spend_def Transaction_new_def TxInput_new_def TxInput_is_coinbase_def
        OutPoint_is_coinbase_def sample_outpoint_def OutPoint_new_def)
  moreover have "\<forall>x \<in> set (blk_transactions ?b). sample_outpoint \<notin> tx_created sample_ext x \<and> length (tx_outputs x) \<le> 2 ^ 32"
    using sample_txids by (auto simp: sample_txs_def tx_created_def sample_outpoint_def Transaction_coinbase_def
        sample_spend_def Transaction_new_def)
  moreover have "Mempool_get (cs_mempool sample_conflict_service) (Transaction_txid sample_ext sample_conflict) = Some sample_conflict"
    by (simp add: Mempool_get_def sample_conflict_service_def ChainService_new_def hm_get_def)
  moreover have "sample_outpoint \<in> set (tx_outpoints sample_conflict)"
    by (simp add: tx_outpoints_def sample_conflict_def Transaction_new_def TxInput_new_def)
  moreover have "Transaction_txid sample_ext sample_conflict \<notin> Transaction_txid sample_ext ` set (blk_transactions ?b)"
    using sample_txids by (simp add: sample_txs_def)
  moreover have "sample_spend \<in> set (blk_transactions ?b)" by (simp add: sample_txs_def)
  ultimately show ?thesis
    using conflict_stalls_mining [OF run, of sample_spend sample_outpoint "Transaction_txid sample_ext sample_conflict" sample_conflict]
    by (intro exI [of _ s']) simp
qed

end
