(* ===== verification/Chain_Sync.thy ===== *)
theory Chain_Sync
  imports Validation
begin

section \<open>Chain synchronisation\<close>

text \<open>
  \<open>pyrax-node/src/sync/mod.rs\<close>: the queue of headers whose blocks are to be fetched, the buffer of blocks
  to be committed in order, reorganisations, and the rule that chooses between two tips. \<open>Instant\<close> is a
  natural number of nanoseconds and an argument of the operations that read it, beside the system clock
  that the validator reads. The channels and the semaphore of the struct are not used by any operation.
  The texts inside errors are the errors they are made from. \<open>progress\<close> is floating point and left out.
\<close>

type_synonym instant = nat

definition seconds :: "nat \<Rightarrow> instant" where
  "seconds n = n * 10 ^ 9"

definition MAX_ITERATIONS :: nat where "MAX_ITERATIONS = 10000"

datatype SyncState =
    SyncIdle
  | DownloadingHeaders u64 u64
  | DownloadingBlocks u64 u64
  | ProcessingBlocks nat
  | Reorging u64 u64

record PeerSyncInfo =
  ps_peer_id :: string
  ps_best_height :: u64
  ps_best_hash :: h256
  ps_total_difficulty :: u64
  ps_last_seen :: instant

record SyncHeaderChain =
  sh_headers :: "BlockHeader list"
  sh_start_height :: u64
  sh_total_difficulty :: u64

datatype SyncError =
    HeaderChainBroken h256 h256
  | InvalidHeaderHeight u64 u64
  | ValidationFailed ValidationError
  | CommitFailed StorageError
  | RollbackFailed StorageError
  | SyncDatabaseError string
  | SyncBlockNotFound h256
  | ForkPointNotFound
  | PeerDisconnected
  | SyncTimeout

record BlockDownloadTask =
  bd_hash :: h256
  bd_height :: u64
  bd_header :: BlockHeader
  bd_attempts :: u32
  bd_last_attempt :: "instant option"

record ChainSync =
  sy_db :: ChainDB
  sy_network_id :: NetworkId
  sy_state :: SyncState
  sy_peers :: "(string, PeerSyncInfo) hashmap"
  sy_pending_headers :: "BlockDownloadTask list"
  sy_pending_blocks :: "(u64, Block) hashmap"
  sy_downloading :: "h256 set"

datatype ReorgResult = NotNeeded | RolledBack u64 u64 nat

subsection \<open>A segment of headers\<close>

definition SyncHeaderChain_new :: "u64 \<Rightarrow> SyncHeaderChain" where
  "SyncHeaderChain_new start_height = \<lparr>sh_headers = [], sh_start_height = start_height, sh_total_difficulty = 0\<rparr>"

definition sh_tip_height :: "SyncHeaderChain \<Rightarrow> u64" where
  "sh_tip_height c = (if sh_headers c = [] then sh_start_height c else sh_start_height c + of_nat (length (sh_headers c)))"

definition sh_tip_hash :: "ext \<Rightarrow> SyncHeaderChain \<Rightarrow> h256 option" where
  "sh_tip_hash e c = (if sh_headers c = [] then None else Some (BlockHeader_hash e (last (sh_headers c))))"

definition sh_add_header :: "ext \<Rightarrow> SyncHeaderChain \<Rightarrow> BlockHeader \<Rightarrow> SyncError + SyncHeaderChain" where
  "sh_add_header e c header =
     (let added = c\<lparr>sh_total_difficulty := sh_total_difficulty c + hdr_difficulty header, sh_headers := sh_headers c @ [header]\<rparr> in
      if sh_headers c = [] then Ok added
      else let prev = last (sh_headers c) in
        if hdr_parent_hash header \<noteq> BlockHeader_hash e prev
        then Err (HeaderChainBroken (BlockHeader_hash e prev) (hdr_parent_hash header))
        else if hdr_height header \<noteq> hdr_height prev + 1
        then Err (InvalidHeaderHeight (hdr_height prev + 1) (hdr_height header))
        else Ok added)"

subsection \<open>Peers\<close>

definition ChainSync_new :: "ChainDB \<Rightarrow> NetworkId \<Rightarrow> ChainSync" where
  "ChainSync_new db network =
     \<lparr>sy_db = db, sy_network_id = network, sy_state = SyncIdle, sy_peers = [], sy_pending_headers = [],
      sy_pending_blocks = [], sy_downloading = {}\<rparr>"

definition is_syncing :: "ChainSync \<Rightarrow> bool" where
  "is_syncing s = (sy_state s \<noteq> SyncIdle)"

definition update_peer :: "instant \<Rightarrow> ChainSync \<Rightarrow> string \<Rightarrow> u64 \<Rightarrow> h256 \<Rightarrow> u64 \<Rightarrow> ChainSync" where
  "update_peer inst s peer_id height h difficulty =
     s\<lparr>sy_peers := hm_insert peer_id \<lparr>ps_peer_id = peer_id, ps_best_height = height, ps_best_hash = h,
          ps_total_difficulty = difficulty, ps_last_seen = inst\<rparr> (sy_peers s)\<rparr>"

definition remove_peer :: "ChainSync \<Rightarrow> string \<Rightarrow> ChainSync" where
  "remove_peer s peer_id = s\<lparr>sy_peers := hm_remove peer_id (sy_peers s)\<rparr>"

definition best_peer :: "instant \<Rightarrow> ChainSync \<Rightarrow> PeerSyncInfo option" where
  "best_peer inst s =
     max_by_key ps_total_difficulty (filter (\<lambda>p. inst - ps_last_seen p < seconds 60) (hm_values (sy_peers s)))"

definition needs_sync :: "instant \<Rightarrow> ChainSync \<Rightarrow> PeerSyncInfo option" where
  "needs_sync inst s =
     (case best_peer inst s of
        None \<Rightarrow> None
      | Some p \<Rightarrow> if tip_total_difficulty (get_tip (sy_db s)) < ps_total_difficulty p then Some p else None)"

subsection \<open>Headers and downloads\<close>

definition header_connects :: "ChainDB \<Rightarrow> ChainTip \<Rightarrow> BlockDownloadTask list \<Rightarrow> BlockHeader \<Rightarrow> bool" where
  "header_connects db tip pending header =
     (if hdr_height header = tip_height tip + 1 then hdr_parent_hash header = tip_hash tip
      else if pending \<noteq> []
      then hdr_parent_hash header = bd_hash (last pending) \<and> hdr_height header = bd_height (last pending) + 1
      else has_block db (hdr_parent_hash header))"

definition sync_header_step ::
  "ext \<Rightarrow> u64 \<Rightarrow> ChainDB \<Rightarrow> ChainTip \<Rightarrow> BlockDownloadTask list \<times> nat \<Rightarrow> BlockHeader \<Rightarrow> BlockDownloadTask list \<times> nat" where
  "sync_header_step e now db tip acc header =
     (case acc of (pending, added) \<Rightarrow>
        if has_block db (BlockHeader_hash e header) then (pending, added)
        else if list_ex (\<lambda>t. bd_hash t = BlockHeader_hash e header) pending then (pending, added)
        else if \<not> header_connects db tip pending header then (pending, added)
        else if \<not> is_ok (validate_header e now header db) then (pending, added)
        else (pending @ [\<lparr>bd_hash = BlockHeader_hash e header, bd_height = hdr_height header, bd_header = header,
                          bd_attempts = 0, bd_last_attempt = None\<rparr>], added + 1))"

definition process_headers :: "ext \<Rightarrow> u64 \<Rightarrow> ChainSync \<Rightarrow> BlockHeader list \<Rightarrow> ChainSync \<times> nat" where
  "process_headers e now s headers =
     (if headers = [] then (s, 0)
      else let our_tip = get_tip (sy_db s) in
        case foldl (sync_header_step e now (sy_db s) our_tip) (sy_pending_headers s, 0) headers of (pending, added) \<Rightarrow>
          let s1 = s\<lparr>sy_pending_headers := pending\<rparr> in
          (if 0 < added \<and> sy_state s = SyncIdle
           then s1\<lparr>sy_state := DownloadingBlocks (if pending = [] then tip_height our_tip else bd_height (last pending)) (tip_height our_tip)\<rparr>
           else s1, added))"

definition get_blocks_to_download :: "instant \<Rightarrow> ChainSync \<Rightarrow> nat \<Rightarrow> h256 list" where
  "get_blocks_to_download inst s max_count =
     map bd_hash (take max_count (filter (\<lambda>t. bd_hash t \<notin> sy_downloading s \<and> bd_attempts t < 3
        \<and> (case bd_last_attempt t of None \<Rightarrow> True | Some i \<Rightarrow> seconds 10 < inst - i)) (sy_pending_headers s)))"

fun mark_task :: "instant \<Rightarrow> h256 \<Rightarrow> BlockDownloadTask list \<Rightarrow> BlockDownloadTask list" where
  "mark_task inst h [] = []"
| "mark_task inst h (t # ts) =
     (if bd_hash t = h then t\<lparr>bd_attempts := bd_attempts t + 1, bd_last_attempt := Some inst\<rparr> # ts else t # mark_task inst h ts)"

definition mark_downloading :: "instant \<Rightarrow> ChainSync \<Rightarrow> h256 list \<Rightarrow> ChainSync" where
  "mark_downloading inst s hashes =
     foldl (\<lambda>s h. s\<lparr>sy_downloading := insert h (sy_downloading s),
                    sy_pending_headers := mark_task inst h (sy_pending_headers s)\<rparr>) s hashes"

subsection \<open>Blocks\<close>

lemma length_hm_remove_less: "hm_get m k = Some v \<Longrightarrow> length (hm_remove k m) < length m"
proof (induction m)
  case (Cons a m)
  then show ?case
    using length_hm_remove [of k m] by (cases a) (auto simp: hm_remove_def hm_get_def split: if_splits)
qed simp

function commit_loop ::
  "ext \<Rightarrow> ChainDB \<Rightarrow> (u64, Block) hashmap \<Rightarrow> u64 \<Rightarrow> nat \<Rightarrow> ChainDB \<times> (u64, Block) hashmap \<times> (SyncError + nat)" where
  "commit_loop e db pending our_height committed =
     (let next_height = our_height + of_nat committed + 1 in
      case hm_get pending next_height of
        None \<Rightarrow> (db, pending, Ok committed)
      | Some block \<Rightarrow>
          let pending1 = hm_remove next_height pending in
          if hdr_parent_hash (blk_header block) \<noteq> tip_hash (get_tip db)
          then (db, hm_insert next_height block pending1, Ok committed)
          else case commit_block e db block of
            Ok db' \<Rightarrow> commit_loop e db' pending1 our_height (committed + 1)
          | Err er \<Rightarrow> (db, pending1, Err (CommitFailed er)))"
  by pat_completeness auto
termination
  by (relation "measure (\<lambda>(e, db, pending, our_height, committed). length pending)") (auto simp: length_hm_remove_less)

declare commit_loop.simps [simp del]

definition after_commit :: "ChainSync \<Rightarrow> SyncState" where
  "after_commit s =
     (if sy_pending_headers s = [] \<and> sy_pending_blocks s = [] then SyncIdle
      else let tip = get_tip (sy_db s) in
        DownloadingBlocks (if sy_pending_headers s = [] then tip_height tip else bd_height (last (sy_pending_headers s)))
          (tip_height tip))"

definition try_commit_blocks :: "ext \<Rightarrow> ChainSync \<Rightarrow> ChainSync \<times> (SyncError + nat)" where
  "try_commit_blocks e s =
     (case commit_loop e (sy_db s) (sy_pending_blocks s) (tip_height (get_tip (sy_db s))) 0 of (db, pending, result) \<Rightarrow>
        let s1 = s\<lparr>sy_db := db, sy_pending_blocks := pending\<rparr> in
        case result of
          Err er \<Rightarrow> (s1, Err er)
        | Ok committed \<Rightarrow> (if 0 < committed then s1\<lparr>sy_state := after_commit s1\<rparr> else s1, Ok committed))"

definition forget_header :: "h256 \<Rightarrow> ChainSync \<Rightarrow> ChainSync" where
  "forget_header h s = s\<lparr>sy_pending_headers := filter (\<lambda>t. bd_hash t \<noteq> h) (sy_pending_headers s)\<rparr>"

definition sync_process_block :: "ext \<Rightarrow> u64 \<Rightarrow> ChainSync \<Rightarrow> Block \<Rightarrow> ChainSync \<times> (SyncError + unit)" where
  "sync_process_block e now s block =
     (let h = Block_hash e block; s1 = s\<lparr>sy_downloading := sy_downloading s - {h}\<rparr> in
      case validate_block e now block (sy_db s1) of
        Err er \<Rightarrow> (forget_header h s1, Err (ValidationFailed er))
      | Ok _ \<Rightarrow>
          let s2 = forget_header h (s1\<lparr>sy_pending_blocks := hm_insert (Block_height block) block (sy_pending_blocks s1)\<rparr>) in
          (case try_commit_blocks e s2 of (s3, result) \<Rightarrow>
             (s3, case result of Err er \<Rightarrow> Err er | Ok _ \<Rightarrow> Ok ())))"

subsection \<open>Reorganisations\<close>

fun fork_loop :: "ext \<Rightarrow> ChainDB \<Rightarrow> h256 \<Rightarrow> nat \<Rightarrow> u64 \<Rightarrow> SyncError + ChainTip" where
  "fork_loop e db their_current 0 our_height = Err ForkPointNotFound"
| "fork_loop e db their_current (Suc n) our_height =
     (if has_block db their_current then
        (case get_block db their_current of
           None \<Rightarrow> Err (SyncBlockNotFound their_current)
         | Some block \<Rightarrow> Ok \<lparr>tip_height = Block_height block, tip_hash = their_current,
                            tip_total_difficulty = hdr_difficulty (blk_header block)\<rparr>)
      else
        let our_height1 = (if 0 < our_height \<and> get_block_by_height db (our_height - 1) \<noteq> None then our_height - 1 else our_height) in
        if our_height1 = 0 then
          (case get_block_by_height db 0 of
             None \<Rightarrow> Err (SyncDatabaseError ''No genesis block'')
           | Some genesis \<Rightarrow> Ok \<lparr>tip_height = 0, tip_hash = Block_hash e genesis,
                               tip_total_difficulty = hdr_difficulty (blk_header genesis)\<rparr>)
        else fork_loop e db their_current n our_height1)"

definition find_fork_point :: "ext \<Rightarrow> ChainDB \<Rightarrow> h256 \<Rightarrow> h256 \<Rightarrow> SyncError + ChainTip" where
  "find_fork_point e db our_hash their_hash =
     (case get_block db our_hash of
        None \<Rightarrow> Err (SyncBlockNotFound our_hash)
      | Some our_block \<Rightarrow> fork_loop e db their_hash MAX_ITERATIONS (Block_height our_block))"

definition handle_reorg :: "ext \<Rightarrow> ChainSync \<Rightarrow> BlockHeader \<Rightarrow> ChainSync \<times> (SyncError + ReorgResult)" where
  "handle_reorg e s new_tip =
     (let our_tip = get_tip (sy_db s) in
      if hdr_difficulty new_tip \<le> tip_total_difficulty our_tip then (s, Ok NotNeeded)
      else case find_fork_point e (sy_db s) (tip_hash our_tip) (hdr_parent_hash new_tip) of
        Err er \<Rightarrow> (s, Err er)
      | Ok fork_point \<Rightarrow>
          if tip_height our_tip \<le> tip_height fork_point then (s, Ok NotNeeded)
          else (s\<lparr>sy_db := rollback_to e (sy_db s) (tip_height fork_point), sy_state := SyncIdle\<rparr>,
                Ok (RolledBack (tip_height our_tip) (tip_height fork_point) (unat (tip_height our_tip - tip_height fork_point)))))"

datatype ForkChoice = ForkA | ForkB

definition fork_choice :: "ChainTip \<Rightarrow> ChainTip \<Rightarrow> ForkChoice" where
  "fork_choice tip_a tip_b =
     (if tip_total_difficulty tip_b < tip_total_difficulty tip_a then ForkA
      else if tip_total_difficulty tip_a < tip_total_difficulty tip_b then ForkB
      else if tip_hash tip_a < tip_hash tip_b then ForkA else ForkB)"

record SyncStats =
  ss_state :: SyncState
  ss_pending_headers :: nat
  ss_pending_blocks :: nat
  ss_downloading :: nat
  ss_peer_count :: nat
  ss_our_height :: u64
  ss_best_peer_height :: u64

definition sync_stats :: "instant \<Rightarrow> ChainSync \<Rightarrow> SyncStats" where
  "sync_stats inst s =
     \<lparr>ss_state = sy_state s, ss_pending_headers = length (sy_pending_headers s), ss_pending_blocks = length (sy_pending_blocks s),
      ss_downloading = card (sy_downloading s), ss_peer_count = length (sy_peers s),
      ss_our_height = tip_height (get_tip (sy_db s)),
      ss_best_peer_height = (case best_peer inst s of None \<Rightarrow> 0 | Some p \<Rightarrow> ps_best_height p)\<rparr>"

subsection \<open>What the loops do\<close>

lemma commit_loop_single:
  assumes "hdr_parent_hash (blk_header b) = tip_hash (get_tip db)"
  shows "commit_loop e db [(our + 1, b)] our 0 =
    (case commit_block e db b of Ok db' \<Rightarrow> (db', [], Ok 1) | Err er \<Rightarrow> (db, [], Err (CommitFailed er)))"
proof -
  have stop: "commit_loop e db' [] our n = (db', [], Ok n)" for db' n by (subst commit_loop.simps) simp
  show ?thesis
    using assms by (subst commit_loop.simps) (auto simp: hm_get_def hm_remove_def stop Let_def split: sum.split)
qed

lemma fork_loop_unknown:
  assumes "\<not> has_block db their" and "\<And>h. h \<le> our \<Longrightarrow> get_block_by_height db h \<noteq> None" and "unat our \<le> n" and "0 < n"
  shows "\<exists>t. fork_loop e db their n our = Ok t \<and> tip_height t = 0"
  using assms(2-4)
proof (induction n arbitrary: our)
  case (Suc n)
  obtain g where g: "get_block_by_height db 0 = Some g" using Suc.prems(1) [of 0] by auto
  show ?case
  proof (cases "our \<le> 1")
    case True
    then have "our = 0 \<or> our = 1" by (simp add: word_le_nat_alt word_unat_eq_iff) linarith
    then show ?thesis using assms(1) g by (auto simp: Let_def)
  next
    case False
    then have pos: "1 < unat our" by (simp add: word_le_nat_alt not_le)
    then have pred: "unat (our - 1) = unat our - 1" by (simp add: unat_sub_exact)
    have "get_block_by_height db (our - 1) \<noteq> None"
      using Suc.prems(1) pred by (simp add: word_le_nat_alt)
    moreover have "our - 1 \<noteq> 0" "0 < our" using pos pred by (auto simp: word_unat_eq_iff word_less_nat_alt)
    ultimately have "fork_loop e db their (Suc n) our = fork_loop e db their n (our - 1)"
      using assms(1) by (auto simp: Let_def)
    moreover have "\<exists>t. fork_loop e db their n (our - 1) = Ok t \<and> tip_height t = 0"
      using Suc.prems(1,2) pos pred by (intro Suc.IH) (simp_all add: word_le_nat_alt)
    ultimately show ?thesis by simp
  qed
qed simp

lemma fork_loop_exhausted:
  assumes "\<not> has_block db their" and "\<And>h. h \<le> our \<Longrightarrow> get_block_by_height db h \<noteq> None" and "n < unat our"
  shows "fork_loop e db their n our = Err ForkPointNotFound"
  using assms(2,3)
proof (induction n arbitrary: our)
  case (Suc n)
  then have pred: "unat (our - 1) = unat our - 1" by (simp add: unat_sub_exact)
  have "get_block_by_height db (our - 1) \<noteq> None"
    using Suc.prems(1) pred by (simp add: word_le_nat_alt)
  moreover have "our - 1 \<noteq> 0" "0 < our" using Suc.prems(2) pred by (auto simp: word_unat_eq_iff word_less_nat_alt)
  ultimately have "fork_loop e db their (Suc n) our = fork_loop e db their n (our - 1)"
    using assms(1) by (auto simp: Let_def)
  also have "\<dots> = Err ForkPointNotFound"
    using Suc.prems pred by (intro Suc.IH) (simp_all add: word_le_nat_alt)
  finally show ?case .
qed simp

subsection \<open>Runs\<close>

text \<open>
  Any sequence of messages from peers, with the list of the heights of the blocks that came; only blocks whose
  hash is that of a different stored header are excluded.
\<close>

inductive sync_run :: "ext \<Rightarrow> NetworkId \<Rightarrow> u64 list \<Rightarrow> ChainSync \<Rightarrow> bool" for e network where
  start: "ChainDB_open e network ChainDB_empty = Ok db \<Longrightarrow> sync_run e network [] (ChainSync_new db network)"
| peer: "sync_run e network hs s \<Longrightarrow> sync_run e network hs (update_peer inst s i height h difficulty)"
| gone: "sync_run e network hs s \<Longrightarrow> sync_run e network hs (remove_peer s i)"
| headers: "sync_run e network hs s \<Longrightarrow> sync_run e network hs (fst (process_headers e now s headers))"
| download: "sync_run e network hs s \<Longrightarrow> sync_run e network hs (mark_downloading inst s hashes)"
| block: "sync_run e network hs s \<Longrightarrow> no_clash e (sy_db s) b
    \<Longrightarrow> sync_run e network (Block_height b # hs) (fst (sync_process_block e now s b))"
| reorg: "sync_run e network hs s \<Longrightarrow> sync_run e network hs (fst (handle_reorg e s header))"

definition queue_ok :: "ext \<Rightarrow> BlockDownloadTask list \<Rightarrow> bool" where
  "queue_ok e q \<longleftrightarrow> distinct (map bd_hash q)
     \<and> (\<forall>t \<in> set q. bd_hash t = BlockHeader_hash e (bd_header t) \<and> bd_height t = hdr_height (bd_header t)
          \<and> BlockHeader_verify_pow e (bd_header t))"

definition sync_inv :: "ext \<Rightarrow> ChainSync \<Rightarrow> bool" where
  "sync_inv e s \<longleftrightarrow> chain_linked e (sy_db s) \<and> sy_pending_blocks s = [] \<and> queue_ok e (sy_pending_headers s)"

lemma queue_ok_header_step:
  "queue_ok e (fst acc) \<Longrightarrow> queue_ok e (fst (sync_header_step e now db tip acc h))"
  by (auto simp: sync_header_step_def queue_ok_def list_ex_iff validate_header_def case_prod_unfold split: if_splits)

lemma queue_ok_headers: "queue_ok e (fst acc) \<Longrightarrow> queue_ok e (fst (foldl (sync_header_step e now db tip) acc hs))"
  by (induction hs arbitrary: acc) (simp_all add: queue_ok_header_step)

lemma mark_task_fields:
  "map bd_hash (mark_task inst h q) = map bd_hash q \<and> map bd_header (mark_task inst h q) = map bd_header q
    \<and> map bd_height (mark_task inst h q) = map bd_height q"
  by (induction inst h q rule: mark_task.induct) simp_all

lemma queue_ok_alt:
  "queue_ok e q \<longleftrightarrow> distinct (map bd_hash q) \<and> map bd_hash q = map (BlockHeader_hash e) (map bd_header q)
     \<and> map bd_height q = map hdr_height (map bd_header q) \<and> list_all (BlockHeader_verify_pow e) (map bd_header q)"
  by (auto simp: queue_ok_def list_all_iff)

lemma queue_ok_mark: "queue_ok e q \<Longrightarrow> queue_ok e (mark_task inst h q)"
  by (simp add: queue_ok_alt mark_task_fields)

lemma queue_ok_filter: "queue_ok e q \<Longrightarrow> queue_ok e (filter P q)"
  by (auto simp: queue_ok_def distinct_map inj_on_def)

lemma sync_inv_mark: "sync_inv e s \<Longrightarrow> sync_inv e (mark_downloading inst s hashes)"
  unfolding mark_downloading_def by (induction hashes arbitrary: s) (simp_all add: sync_inv_def queue_ok_mark)

lemma valid_block_link:
  "validate_block e now b db = Ok () \<Longrightarrow> Block_height b \<noteq> 0 \<Longrightarrow>
    hdr_parent_hash (blk_header b) = tip_hash (get_tip db) \<and> Block_height b = tip_height (get_tip db) + 1"
  by (auto simp: validate_block_Ok_iff validate_chain_link_def Let_def split: if_splits)

text \<open>
  What is left of the queues when a block has come: its header and its download entry are dropped, nothing
  else. After a commit the state is idle or names the last queued height and the new tip.
\<close>

definition arrived :: "ext \<Rightarrow> Block \<Rightarrow> ChainSync \<Rightarrow> ChainSync" where
  "arrived e b s = s\<lparr>sy_pending_headers := filter (\<lambda>t. bd_hash t \<noteq> Block_hash e b) (sy_pending_headers s),
     sy_downloading := sy_downloading s - {Block_hash e b}\<rparr>"

definition sync_progress :: "BlockDownloadTask list \<Rightarrow> u64 \<Rightarrow> SyncState" where
  "sync_progress queue height = (if queue = [] then SyncIdle else DownloadingBlocks (bd_height (last queue)) height)"

lemma arrived_simps [simp]:
  "sy_db (arrived e b s) = sy_db s" "sy_pending_blocks (arrived e b s) = sy_pending_blocks s"
  "sy_pending_headers (arrived e b s) = filter (\<lambda>t. bd_hash t \<noteq> Block_hash e b) (sy_pending_headers s)"
  by (simp_all add: arrived_def)

lemma sync_process_block_cases:
  assumes "sy_pending_blocks s = []" and "Block_height b \<noteq> 0" and "sync_process_block e now s b = (s', result)"
  shows "if validate_block e now b (sy_db s) = Ok () \<and> ext_bincode_block e b \<noteq> None
    then result = Ok () \<and> commit_block e (sy_db s) b = Ok (sy_db s') \<and> s' = arrived e b s\<lparr>sy_db := sy_db s',
      sy_state := sync_progress (sy_pending_headers (arrived e b s)) (tip_height (get_tip (sy_db s')))\<rparr>
    else \<not> is_ok result \<and> s' = arrived e b s"
proof (cases "validate_block e now b (sy_db s)")
  case (Inl er)
  then show ?thesis using assms(1,3) by (auto simp: sync_process_block_def arrived_def forget_header_def Let_def)
next
  case (Inr u)
  note link = valid_block_link [OF _ assms(2), of e now "sy_db s"] Inr
  have single: "hm_insert (Block_height b) b [] = [(tip_height (get_tip (sy_db s)) + 1, b)]"
    using link by (simp add: hm_insert_def)
  have loop: "commit_loop e (sy_db s) (hm_insert (Block_height b) b []) (tip_height (get_tip (sy_db s))) 0 =
    (case commit_block e (sy_db s) b of Ok db' \<Rightarrow> (db', [], Ok 1) | Err er \<Rightarrow> (sy_db s, [], Err (CommitFailed er)))"
    unfolding single using link by (intro commit_loop_single) simp
  have ok: "ext_bincode_block e b \<noteq> None \<longleftrightarrow> is_ok (commit_block e (sy_db s) b)"
    using link by (auto simp: commit_block_def get_tip_def Let_def)
  show ?thesis
  proof (cases "commit_block e (sy_db s) b")
    case (Inl er)
    then show ?thesis
      using assms(1,3) ok loop \<open>validate_block e now b (sy_db s) = Inr u\<close>
      by (auto simp: sync_process_block_def try_commit_blocks_def arrived_def forget_header_def after_commit_def
          sync_progress_def Let_def)
  next
    case (Inr db')
    then show ?thesis
      using assms(1,3) ok loop \<open>validate_block e now b (sy_db s) = Inr u\<close>
      by (auto simp: sync_process_block_def try_commit_blocks_def arrived_def forget_header_def after_commit_def
          sync_progress_def Let_def)
  qed
qed

lemma sync_inv_block:
  assumes "sync_inv e s" and "Block_height b \<noteq> 0" and "no_clash e (sy_db s) b"
  shows "sync_inv e (fst (sync_process_block e now s b))"
proof -
  obtain s' r where run: "sync_process_block e now s b = (s', r)" by (cases "sync_process_block e now s b")
  have "sy_pending_blocks s = []" using assms(1) by (simp add: sync_inv_def)
  note c = sync_process_block_cases [OF \<open>sy_pending_blocks s = []\<close> assms(2) run]
  have linked: "chain_linked e (sy_db s)" and q: "queue_ok e (sy_pending_headers s)"
    using assms(1) by (simp_all add: sync_inv_def)
  show ?thesis
  proof (cases "validate_block e now b (sy_db s) = Ok () \<and> ext_bincode_block e b \<noteq> None")
    case True
    then have commit: "commit_block e (sy_db s) b = Ok (sy_db s')"
      and s': "s' = arrived e b s\<lparr>sy_db := sy_db s',
        sy_state := sync_progress (sy_pending_headers (arrived e b s)) (tip_height (get_tip (sy_db s')))\<rparr>"
      using c by simp_all
    have "sy_pending_headers s' = filter (\<lambda>t. bd_hash t \<noteq> Block_hash e b) (sy_pending_headers s)" "sy_pending_blocks s' = []"
      by (subst s', simp add: \<open>sy_pending_blocks s = []\<close>)+
    then show ?thesis
      using commit_linked [OF linked assms(3) commit] q by (simp add: sync_inv_def run queue_ok_filter)
  next
    case False
    then have "s' = arrived e b s" using c by auto
    then show ?thesis using linked q by (simp add: sync_inv_def run queue_ok_filter \<open>sy_pending_blocks s = []\<close>)
  qed
qed

lemma sync_inv_reorg: "sync_inv e s \<Longrightarrow> sync_inv e (fst (handle_reorg e s header))"
  by (auto simp: sync_inv_def handle_reorg_def rollback_linked Let_def split: sum.split)

lemma sync_run_inv: "sync_run e network hs s \<Longrightarrow> 0 \<notin> set hs \<Longrightarrow> sync_inv e s"
proof (induction rule: sync_run.induct)
  case (start db)
  then show ?case by (simp add: sync_inv_def ChainSync_new_def opened_linked queue_ok_def)
next
  case (headers hs s now headers)
  then show ?case
    using queue_ok_headers [of e "(sy_pending_headers s, 0)" now "sy_db s" "get_tip (sy_db s)" headers]
    by (auto simp: process_headers_def sync_inv_def case_prod_unfold Let_def)
next
  case (block hs s b now)
  then have "sync_inv e s" "Block_height b \<noteq> 0" by auto
  then show ?case using block.hyps(2) by (rule sync_inv_block)
qed (simp_all add: sync_inv_reorg sync_inv_mark, simp_all add: sync_inv_def update_peer_def remove_peer_def)

subsection \<open>Properties\<close>

text \<open>
  C25. Synchronisation extends the chain one valid block at a time: after any messages, as long as no block of
  height zero came, a block of positive height is committed exactly when it is valid on the current tip and can
  be encoded, and becomes the tip; otherwise the chain is as before. In both cases its header and its download
  entry are dropped and nothing else of the queues is, and the buffer of blocks is empty before and after, so
  a commit is of this block alone. The chain stays linked, and the queued headers are distinct and meet their
  targets. (Assumed: no block has the hash of a different stored header.)
\<close>

theorem sync_block_outcome:
  assumes "sync_run e network hs s" and "0 \<notin> set hs" and "Block_height b \<noteq> 0" and "no_clash e (sy_db s) b"
    and "sync_process_block e now s b = (s', result)"
  shows "(if validate_block e now b (sy_db s) = Ok () \<and> ext_bincode_block e b \<noteq> None
      then result = Ok () \<and> commit_block e (sy_db s) b = Ok (sy_db s') \<and> tip_hash (get_tip (sy_db s')) = Block_hash e b
        \<and> s' = arrived e b s\<lparr>sy_db := sy_db s',
            sy_state := sync_progress (sy_pending_headers s') (tip_height (get_tip (sy_db s')))\<rparr>
      else \<not> is_ok result \<and> s' = arrived e b s)
    \<and> sy_pending_blocks s = [] \<and> sy_pending_blocks s' = []
    \<and> chain_linked e (sy_db s') \<and> distinct (map bd_hash (sy_pending_headers s'))
    \<and> (\<forall>t \<in> set (sy_pending_headers s'). BlockHeader_verify_pow e (bd_header t))"
proof -
  have inv: "sync_inv e s" using assms(1,2) by (rule sync_run_inv)
  then have none: "sy_pending_blocks s = []" by (simp add: sync_inv_def)
  note c = sync_process_block_cases [OF none assms(3,5)]
  have inv': "sync_inv e s'" using sync_inv_block [OF inv assms(3,4), of now] assms(5) by simp
  have tip: "tip_hash (get_tip db') = Block_hash e b" if "commit_block e (sy_db s) b = Ok db'" for db'
    using commit_block_columns(3) [OF that] by (simp add: get_tip_def commit_tip_def)
  have "sy_pending_headers s' = sy_pending_headers (arrived e b s)"
    if "s' = arrived e b s\<lparr>sy_db := db', sy_state := st\<rparr>" for db' st
    unfolding that by simp
  then have "if validate_block e now b (sy_db s) = Ok () \<and> ext_bincode_block e b \<noteq> None
      then result = Ok () \<and> commit_block e (sy_db s) b = Ok (sy_db s') \<and> tip_hash (get_tip (sy_db s')) = Block_hash e b
        \<and> s' = arrived e b s\<lparr>sy_db := sy_db s',
            sy_state := sync_progress (sy_pending_headers s') (tip_height (get_tip (sy_db s')))\<rparr>
      else \<not> is_ok result \<and> s' = arrived e b s"
    using c tip by (cases "validate_block e now b (sy_db s) = Ok () \<and> ext_bincode_block e b \<noteq> None") metis+
  then show ?thesis using none inv' by (simp only: sync_inv_def queue_ok_def) blast
qed

text \<open>
  Blocks that arrive out of order are lost: a block above the next height is refused although its
  predecessors are on their way, its header is taken off the queue, and it is not requested again.
\<close>

theorem out_of_order_block_lost:
  assumes "sync_run e network hs s" and "0 \<notin> set hs" and "Block_height b \<noteq> 0"
    and "Block_height b \<noteq> tip_height (get_tip (sy_db s)) + 1"
    and "sync_process_block e now s b = (s', result)"
  shows "\<not> is_ok result \<and> sy_db s' = sy_db s \<and> sy_pending_blocks s' = []
    \<and> Block_hash e b \<notin> set (get_blocks_to_download inst s' n)"
proof -
  have none: "sy_pending_blocks s = []" using sync_run_inv [OF assms(1,2)] by (simp add: sync_inv_def)
  note c = sync_process_block_cases [OF none assms(3,5)]
  have "validate_block e now b (sy_db s) \<noteq> Ok ()" using valid_block_link [OF _ assms(3)] assms(4) by blast
  then have "\<not> is_ok result" "s' = arrived e b s" using c by simp_all
  then show ?thesis using none by (auto simp: get_blocks_to_download_def dest: in_set_takeD)
qed

text \<open>
  C26. One forged header erases the chain: on a linked chain (as every chain is that the database builds) of
  height 1 to 10000, a header that claims more difficulty than the total of the chain and names an unknown
  parent makes \<open>handle_reorg\<close> roll the whole chain back to the genesis block; neither its proof of work nor
  any of its blocks is looked at. On a longer chain the search for the fork gives up after its 10000 rounds,
  and nothing changes.
\<close>

theorem forged_header_erases_chain:
  assumes "chain_linked e (sy_db s)" and "tip_total_difficulty (get_tip (sy_db s)) < hdr_difficulty header"
    and "\<not> has_block (sy_db s) (hdr_parent_hash header)" and "0 < tip_height (get_tip (sy_db s))"
  shows "if unat (tip_height (get_tip (sy_db s))) \<le> 10000
    then \<exists>s'. handle_reorg e s header = (s', Ok (RolledBack (tip_height (get_tip (sy_db s))) 0 (unat (tip_height (get_tip (sy_db s))))))
      \<and> tip_height (get_tip (sy_db s')) = 0 \<and> (\<forall>h > 0. h \<le> tip_height (get_tip (sy_db s)) \<longrightarrow> get_block_by_height (sy_db s') h = None)
    else handle_reorg e s header = (s, Err ForkPointNotFound)"
proof -
  let ?db = "sy_db s" and ?top = "tip_height (get_tip (sy_db s))"
  note linked = assms(1)
  have stored: "get_block_by_height ?db h \<noteq> None" if "h \<le> ?top" for h
    using linked_heights [OF linked] that by (fastforce simp: get_tip_def)
  obtain b where b: "get_block_by_height ?db ?top = Some b" "Block_height b = ?top" "hm_get (db_heights ?db) ?top = Some (Block_hash e b)"
    using linked_heights [OF linked, of ?top] by (auto simp: get_tip_def)
  then have "get_block ?db (tip_hash (get_tip ?db)) = Some b"
    using linked by (simp add: chain_linked_def get_tip_def get_block_by_height_def)
  then have find: "find_fork_point e ?db (tip_hash (get_tip ?db)) (hdr_parent_hash header)
      = fork_loop e ?db (hdr_parent_hash header) 10000 ?top"
    by (simp add: find_fork_point_def b(2) MAX_ITERATIONS_def)
  show ?thesis
  proof (cases "unat ?top \<le> 10000")
    case True
    obtain t where t: "fork_loop e ?db (hdr_parent_hash header) 10000 ?top = Ok t" "tip_height t = 0"
      using fork_loop_unknown [OF assms(3) stored, of ?top 10000] True by auto
    note st = rollback_state [OF linked, of 0] assms(4)
    have "get_block_by_height (rollback_to e ?db 0) h = None" if "0 < h" "h \<le> ?top" for h
      using st that by (auto simp: get_tip_def get_block_by_height_alt)
    moreover have "tip_height (get_tip (rollback_to e ?db 0)) = 0" using st by (auto simp: get_tip_def)
    ultimately show ?thesis
      using assms(2,4) True by (auto simp: handle_reorg_def find t Let_def)
  next
    case False
    then have "fork_loop e ?db (hdr_parent_hash header) 10000 ?top = Err ForkPointNotFound"
      using fork_loop_exhausted [OF assms(3) stored, of ?top 10000] by simp
    then show ?thesis using assms(2) False by (simp add: handle_reorg_def find Let_def)
  qed
qed

text \<open>
  The rule between two tips does not depend on their order: the one with more difficulty wins, and the
  smaller hash when they are equal in it. A block of height zero, which the validator accepts on any tip
  with the zero parent, stays in the buffer, so the synchroniser never becomes idle again. Downloads go to
  a peer that nobody outbids.
\<close>

definition fork_winner :: "ChainTip \<Rightarrow> ChainTip \<Rightarrow> ChainTip" where
  "fork_winner a b = (case fork_choice a b of ForkA \<Rightarrow> a | ForkB \<Rightarrow> b)"

lemma fork_choice_consistent:
  assumes "tip_hash a \<noteq> tip_hash b"
  shows "fork_winner a b = fork_winner b a
    \<and> tip_total_difficulty (fork_winner a b) = max (tip_total_difficulty a) (tip_total_difficulty b)"
  using assms by (auto simp: fork_winner_def fork_choice_def max_def)

lemma zero_height_block_stays:
  assumes "validate_block e now b (sy_db s) = Ok ()" and "Block_height b = 0" and "sy_pending_blocks s = []"
    and "tip_height (get_tip (sy_db s)) + 1 \<noteq> 0"
  shows "sy_pending_blocks (fst (sync_process_block e now s b)) = [(0, b)]"
proof -
  have "commit_loop e (sy_db s) [(0, b)] (tip_height (get_tip (sy_db s))) 0 = (sy_db s, [(0, b)], Ok 0)"
    using assms(4) by (subst commit_loop.simps) (simp add: hm_get_def)
  then show ?thesis
    using assms(1-3) by (simp add: sync_process_block_def try_commit_blocks_def forget_header_def hm_insert_def Let_def)
qed

lemma needs_sync_best:
  assumes "needs_sync inst s = Some p" and "q \<in> set (hm_values (sy_peers s))" and "inst - ps_last_seen q < seconds 60"
  shows "ps_total_difficulty q \<le> ps_total_difficulty p \<and> tip_total_difficulty (get_tip (sy_db s)) < ps_total_difficulty p"
  using assms by (auto simp: needs_sync_def best_peer_def dest!: max_by_key_greatest split: option.splits if_splits)

subsection \<open>Witnesses\<close>

definition sync_start :: ChainSync where
  "sync_start = ChainSync_new sample_db NetworkId_DEVNET"

definition sync_block :: Block where
  "sync_block = make_block [Transaction_coinbase 1 5000000000 address_zero]"

definition sync_next :: ChainSync where
  "sync_next = fst (sync_process_block sample_ext 1735689660 sync_start sync_block)"

lemma sync_start_run: "sync_run sample_ext NetworkId_DEVNET [] sync_start"
  unfolding sync_start_def by (rule sync_run.start [OF sample_open])

lemma sync_start_simps [simp]: "sy_db sync_start = sample_db" "sy_pending_blocks sync_start = []" "Block_height sync_block = 1"
  by (simp_all add: sync_start_def ChainSync_new_def sync_block_def)

lemma sync_block_valid: "validate_block sample_ext 1735689660 sync_block sample_db = Ok ()"
  unfolding sync_block_def
  by (rule make_block_valid(1)) (simp_all add: validate_transactions_def sample_coinbase_ok)

lemma sample_genesis_version: "hdr_version (blk_header (genesis_block sample_ext NetworkId_DEVNET)) = 1"
  by (simp add: genesis_block_def Let_def split: prod.splits)

lemma sync_block_version: "hdr_version (blk_header sync_block) = 2"
  by (simp add: sync_block_def make_block_def Block_new_def)

lemma sync_no_clash: "no_clash sample_ext sample_db sync_block"
proof -
  have "Block_hash sample_ext sync_block \<noteq> Block_hash sample_ext (genesis_block sample_ext NetworkId_DEVNET)"
    using sample_genesis_version sync_block_version
    by (auto simp: Block_hash_def sample_hash_version dest!: arg_cong [of _ _ "\<lambda>h. hd (h256_bytes h)"])
  then show ?thesis by (simp add: no_clash_def get_block_def sample_db_state(2) hm_get_def)
qed

lemma sync_next_run: "sync_run sample_ext NetworkId_DEVNET [1] sync_next"
  unfolding sync_next_def using sync_run.block [OF sync_start_run, of sync_block 1735689660] sync_no_clash by simp

lemma sync_next_linked: "chain_linked sample_ext (sy_db sync_next)"
  using sync_run_inv [OF sync_next_run] by (simp add: sync_inv_def)

lemma sync_next_commit: "commit_block sample_ext sample_db sync_block = Ok (sy_db sync_next)"
proof -
  obtain s' r where "sync_process_block sample_ext 1735689660 sync_start sync_block = (s', r)"
    by (cases "sync_process_block sample_ext 1735689660 sync_start sync_block")
  with sync_process_block_cases [of sync_start sync_block sample_ext 1735689660 s' r] show ?thesis
    by (simp add: sync_block_valid sample_bincode_block sync_next_def)
qed

lemma sync_next_tip: "get_tip (sy_db sync_next) = \<lparr>tip_height = 1, tip_hash = Block_hash sample_ext sync_block, tip_total_difficulty = 2\<rparr>"
proof -
  have "hdr_difficulty (blk_header sync_block) = 1" by (simp add: sync_block_def)
  then show ?thesis
    using commit_block_columns(3) [OF sync_next_commit] by (simp add: get_tip_def commit_tip_def sample_db_state(1))
qed

theorem sync_block_outcome_witness:
  "tip_hash (get_tip (sy_db sync_next)) = Block_hash sample_ext sync_block \<and> sy_pending_blocks sync_next = []"
proof -
  obtain s' r where run: "sync_process_block sample_ext 1735689660 sync_start sync_block = (s', r)"
    by (cases "sync_process_block sample_ext 1735689660 sync_start sync_block")
  then have "sync_next = s'" by (simp add: sync_next_def)
  with sync_block_outcome [OF sync_start_run _ _ _ run] sync_no_clash show ?thesis
    by (simp add: sync_block_valid sample_bincode_block)
qed

theorem out_of_order_block_lost_witness:
  "\<not> is_ok (snd (sync_process_block sample_ext 1735689660 sync_next sync_block))"
proof -
  obtain s' r where run: "sync_process_block sample_ext 1735689660 sync_next sync_block = (s', r)"
    by (cases "sync_process_block sample_ext 1735689660 sync_next sync_block")
  with out_of_order_block_lost [OF sync_next_run _ _ _ run] show ?thesis by (simp add: sync_next_tip)
qed

theorem forged_header_erases_chain_witness:
  "\<exists>s'. handle_reorg sample_ext sync_next (sample_header\<lparr>hdr_difficulty := 3\<rparr>) = (s', Ok (RolledBack 1 0 1))
    \<and> tip_height (get_tip (sy_db s')) = 0"
proof -
  have "Block_hash sample_ext b \<noteq> h256_zero" if "hdr_version (blk_header b) \<in> {1, 2}" for b
  proof
    assume "Block_hash sample_ext b = h256_zero"
    then have "hd (h256_bytes (Block_hash sample_ext b)) = 0" by (simp add: h256_zero_def)
    then show False using that by (auto simp: Block_hash_def sample_hash_version)
  qed
  then have "Block_hash sample_ext sync_block \<noteq> h256_zero"
      "Block_hash sample_ext (genesis_block sample_ext NetworkId_DEVNET) \<noteq> h256_zero"
    using sample_genesis_version sync_block_version by auto
  then have "hm_get (db_blocks (sy_db sync_next)) h256_zero = None"
    by (auto simp: commit_block_columns(2) [OF sync_next_commit] sample_db_state(2)) (simp add: hm_get_def)
  then have "\<not> has_block (sy_db sync_next) (hdr_parent_hash (sample_header\<lparr>hdr_difficulty := 3\<rparr>))"
    by (simp add: has_block_def hm_contains_def sample_header_def)
  with forged_header_erases_chain [OF sync_next_linked, of "sample_header\<lparr>hdr_difficulty := 3\<rparr>"] show ?thesis
    by (auto simp: sync_next_tip)
qed

end
