(* ===== verification/EVM_Types.thy ===== *)
theory EVM_Types
  imports Byte_Encoding Chain_Types
begin

section \<open>EVM types\<close>

text \<open>
  \<open>pyrax-node/src/evm/types.rs\<close>: 256-bit integers as four 64-bit limbs, the least significant first, with
  their loops over the limbs, and transactions. The lemmas relate the loops to arithmetic on the values.
  Addresses and hashes of this layer are byte arrays. The sums of products in \<open>checked_mul\<close> are \<open>u128\<close>
  additions, which wrap.
\<close>

type_synonym evm_address = "u8 list"
type_synonym b256 = "u8 list"

datatype u256 = U256 u64 u64 u64 u64

fun u256_limbs :: "u256 \<Rightarrow> u64 list" where
  "u256_limbs (U256 a b c d) = [a, b, c, d]"

definition of_limbs :: "u64 list \<Rightarrow> u256" where
  "of_limbs xs = U256 (xs ! 0) (xs ! 1) (xs ! 2) (xs ! 3)"

definition U256_ZERO :: u256 where "U256_ZERO = U256 0 0 0 0"

definition U256_ONE :: u256 where "U256_ONE = U256 1 0 0 0"

definition U256_MAX :: u256 where "U256_MAX = U256 (- 1) (- 1) (- 1) (- 1)"

definition u64_from_be_bytes :: "u8 list \<Rightarrow> u64" where
  "u64_from_be_bytes bs = of_nat (be_value bs)"

definition u256_from_be_bytes :: "u8 list \<Rightarrow> u256" where
  "u256_from_be_bytes bytes =
     of_limbs (rev (map (\<lambda>i. u64_from_be_bytes (take 8 (drop (i * 8) bytes))) [0 ..< 4]))"

definition u256_to_be_bytes :: "u256 \<Rightarrow> u8 list" where
  "u256_to_be_bytes x = concat (map (\<lambda>i. u64_to_be_bytes (u256_limbs x ! (3 - i))) [0 ..< 4])"

definition u256_from_u64 :: "u64 \<Rightarrow> u256" where
  "u256_from_u64 v = U256 v 0 0 0"

definition u256_from_u128 :: "u128 \<Rightarrow> u256" where
  "u256_from_u128 v = U256 (ucast v) (ucast (drop_bit 64 v)) 0 0"

definition low_u64 :: "u256 \<Rightarrow> u64" where
  "low_u64 x = u256_limbs x ! 0"

definition u256_is_zero :: "u256 \<Rightarrow> bool" where
  "u256_is_zero x = list_all (\<lambda>l. l = 0) (u256_limbs x)"

definition overflowing_add :: "u64 \<Rightarrow> u64 \<Rightarrow> u64 \<times> bool" where
  "overflowing_add a b = (a + b, a + b < a)"

definition overflowing_sub :: "u64 \<Rightarrow> u64 \<Rightarrow> u64 \<times> bool" where
  "overflowing_sub a b = (a - b, a < b)"

fun add_loop :: "u64 list \<Rightarrow> u64 list \<Rightarrow> u64 \<Rightarrow> u64 list \<times> u64" where
  "add_loop (x # xs) (y # ys) carry =
     (case overflowing_add x y of (sum1, c1) \<Rightarrow>
      case overflowing_add sum1 carry of (sum2, c2) \<Rightarrow>
      case add_loop xs ys (of_bool c1 + of_bool c2) of (rest, out) \<Rightarrow> (sum2 # rest, out))"
| "add_loop _ _ carry = ([], carry)"

fun sub_loop :: "u64 list \<Rightarrow> u64 list \<Rightarrow> u64 \<Rightarrow> u64 list \<times> u64" where
  "sub_loop (x # xs) (y # ys) borrow =
     (case overflowing_sub x y of (diff1, b1) \<Rightarrow>
      case overflowing_sub diff1 borrow of (diff2, b2) \<Rightarrow>
      case sub_loop xs ys (of_bool b1 + of_bool b2) of (rest, out) \<Rightarrow> (diff2 # rest, out))"
| "sub_loop _ _ borrow = ([], borrow)"

definition u256_checked_add :: "u256 \<Rightarrow> u256 \<Rightarrow> u256 option" where
  "u256_checked_add a b =
     (case add_loop (u256_limbs a) (u256_limbs b) 0 of (limbs, carry) \<Rightarrow> if 0 < carry then None else Some (of_limbs limbs))"

definition u256_checked_sub :: "u256 \<Rightarrow> u256 \<Rightarrow> u256 option" where
  "u256_checked_sub a b =
     (case sub_loop (u256_limbs a) (u256_limbs b) 0 of (limbs, borrow) \<Rightarrow> if 0 < borrow then None else Some (of_limbs limbs))"

fun mul_inner :: "nat \<Rightarrow> u64 \<Rightarrow> u64 list \<Rightarrow> nat \<Rightarrow> u128 list \<Rightarrow> u128 list option" where
  "mul_inner i x [] j columns = Some columns"
| "mul_inner i x (y # ys) j columns =
     (if 4 \<le> i + j then (if y \<noteq> 0 then None else mul_inner i x ys (j + 1) columns)
      else mul_inner i x ys (j + 1) (columns[i + j := columns ! (i + j) + ucast x * ucast y]))"

fun mul_outer :: "u64 list \<Rightarrow> u64 list \<Rightarrow> nat \<Rightarrow> u128 list \<Rightarrow> u128 list option" where
  "mul_outer [] ys i columns = Some columns"
| "mul_outer (x # xs) ys i columns =
     (if x = 0 then mul_outer xs ys (i + 1) columns
      else case mul_inner i x ys 0 columns of None \<Rightarrow> None | Some columns' \<Rightarrow> mul_outer xs ys (i + 1) columns')"

fun carry_loop :: "u128 list \<Rightarrow> u128 \<Rightarrow> u64 list \<times> u128" where
  "carry_loop [] carry = ([], carry)"
| "carry_loop (c # cs) carry =
     (let total = c + carry in case carry_loop cs (drop_bit 64 total) of (rest, out) \<Rightarrow> (ucast total # rest, out))"

definition u256_checked_mul :: "u256 \<Rightarrow> u256 \<Rightarrow> u256 option" where
  "u256_checked_mul a b =
     (case mul_outer (u256_limbs a) (u256_limbs b) 0 [0, 0, 0, 0] of
        None \<Rightarrow> None
      | Some columns \<Rightarrow> (case carry_loop columns 0 of (limbs, carry) \<Rightarrow> if 0 < carry then None else Some (of_limbs limbs)))"

definition unwrap_or :: "'a \<Rightarrow> 'a option \<Rightarrow> 'a" where
  "unwrap_or d r = (case r of None \<Rightarrow> d | Some v \<Rightarrow> v)"

definition u256_saturating_add :: "u256 \<Rightarrow> u256 \<Rightarrow> u256" where
  "u256_saturating_add a b = unwrap_or U256_MAX (u256_checked_add a b)"

definition u256_saturating_sub :: "u256 \<Rightarrow> u256 \<Rightarrow> u256" where
  "u256_saturating_sub a b = unwrap_or U256_ZERO (u256_checked_sub a b)"

subsection \<open>Transactions\<close>

record AccessListItem =
  ai_address :: evm_address
  ai_storage_keys :: "b256 list"

record EvmTransaction =
  et_tx_type :: u8
  et_chain_id :: u64
  et_nonce :: u64
  et_max_priority_fee_per_gas :: u64
  et_max_fee_per_gas :: u64
  et_gas_limit :: u64
  et_to :: "evm_address option"
  et_value :: u256
  et_input :: "u8 list"
  et_access_list :: "AccessListItem list"
  et_v :: u64
  et_r :: b256
  et_s :: b256

record SignedTransaction =
  sg_transaction :: EvmTransaction
  sg_signature_hash :: b256
  sg_sender :: evm_address

definition evm_preimage :: "EvmTransaction \<Rightarrow> u8 list" where
  "evm_preimage t =
     [et_tx_type t] @ u64_to_be_bytes (et_chain_id t) @ u64_to_be_bytes (et_nonce t)
     @ u64_to_be_bytes (et_max_priority_fee_per_gas t) @ u64_to_be_bytes (et_max_fee_per_gas t)
     @ u64_to_be_bytes (et_gas_limit t) @ (case et_to t of None \<Rightarrow> [] | Some to \<Rightarrow> to)
     @ u256_to_be_bytes (et_value t) @ et_input t"

definition evm_tx_hash :: "ext \<Rightarrow> EvmTransaction \<Rightarrow> b256" where
  "evm_tx_hash e t = ext_blake3 e (evm_preimage t)"

definition SignedTransaction_new :: "ext \<Rightarrow> EvmTransaction \<Rightarrow> evm_address \<Rightarrow> SignedTransaction" where
  "SignedTransaction_new e t sender = \<lparr>sg_transaction = t, sg_signature_hash = evm_tx_hash e t, sg_sender = sender\<rparr>"

definition signed_hash :: "SignedTransaction \<Rightarrow> b256" where
  "signed_hash s = sg_signature_hash s"

definition recover_sender :: "SignedTransaction \<Rightarrow> evm_address option" where
  "recover_sender s = Some (sg_sender s)"

definition is_create :: "EvmTransaction \<Rightarrow> bool" where
  "is_create t = (et_to t = None)"

definition effective_gas_price :: "EvmTransaction \<Rightarrow> u64 \<Rightarrow> u64" where
  "effective_gas_price t base_fee =
     saturating_add base_fee (min (et_max_priority_fee_per_gas t) (saturating_sub (et_max_fee_per_gas t) base_fee))"

definition max_cost :: "EvmTransaction \<Rightarrow> u256" where
  "max_cost t =
     (let gas_cost = unwrap_or U256_MAX (u256_checked_mul (u256_from_u64 (et_gas_limit t)) (u256_from_u64 (et_max_fee_per_gas t)))
      in unwrap_or U256_MAX (u256_checked_add gas_cost (et_value t)))"

subsection \<open>Values\<close>

fun limbs_val :: "u64 list \<Rightarrow> nat" where
  "limbs_val [] = 0"
| "limbs_val (x # xs) = unat x + 2 ^ 64 * limbs_val xs"

definition u256_val :: "u256 \<Rightarrow> nat" where
  "u256_val x = limbs_val (u256_limbs x)"

lemma length_u256_limbs [simp]: "length (u256_limbs x) = 4"
  by (cases x) simp

lemma of_limbs_limbs [simp]: "of_limbs (u256_limbs x) = x"
  by (cases x) (simp add: of_limbs_def)

lemma limbs_of_limbs: "length xs = 4 \<Longrightarrow> u256_limbs (of_limbs xs) = xs"
  using nth_four [of xs] by (simp add: of_limbs_def)

lemma u256_val_of_limbs: "length xs = 4 \<Longrightarrow> u256_val (of_limbs xs) = limbs_val xs"
  by (simp add: u256_val_def limbs_of_limbs)

lemma limbs_val_less: "limbs_val xs < 2 ^ (64 * length xs)"
proof (induction xs)
  case (Cons x xs)
  have "unat x < 2 ^ 64" using unat_less_power [of x] by simp
  moreover have "2 ^ 64 * limbs_val xs + 2 ^ 64 \<le> 2 ^ 64 * 2 ^ (64 * length xs)"
    using Cons by (metis Suc_leI mult_Suc_right mult_le_mono2 add.commute)
  ultimately show ?case by (simp add: power_add)
qed simp

lemma digits_unique:
  fixes a b c d B :: nat
  assumes "a + B * c = b + B * d" and "a < B" and "b < B"
  shows "a = b \<and> c = d"
proof -
  have "a = (a + B * c) mod B" "b = (b + B * d) mod B" "c = (a + B * c) div B" "d = (b + B * d) div B"
    using assms(2,3) by simp_all
  then show ?thesis using assms(1) by metis
qed

lemma limbs_val_inject: "length xs = length ys \<Longrightarrow> limbs_val xs = limbs_val ys \<Longrightarrow> xs = ys"
proof (induction xs ys rule: list_induct2)
  case (Cons x xs y ys)
  have less: "unat x < 2 ^ 64" "unat y < 2 ^ 64" using unat_less_power [of x] unat_less_power [of y] by simp_all
  have "unat x + 2 ^ 64 * limbs_val xs = unat y + 2 ^ 64 * limbs_val ys" using Cons.prems by (simp only: limbs_val.simps)
  from digits_unique [OF this less] have "unat x = unat y \<and> limbs_val xs = limbs_val ys" .
  then show ?case using Cons.IH by (simp add: word_unat_eq_iff)
qed simp

lemma u256_val_less: "u256_val x < 2 ^ 256"
  using limbs_val_less [of "u256_limbs x"] by (simp add: u256_val_def)

lemma u256_val_inject [simp]: "u256_val x = u256_val y \<longleftrightarrow> x = y"
  using limbs_val_inject [of "u256_limbs x" "u256_limbs y"] of_limbs_limbs by (metis length_u256_limbs u256_val_def)

lemma u256_val_consts [simp]:
  "u256_val U256_ZERO = 0" "u256_val U256_ONE = 1" "u256_val U256_MAX = 2 ^ 256 - 1" "u256_val (u256_from_u64 v) = unat v"
  by (simp_all add: u256_val_def U256_ZERO_def U256_ONE_def U256_MAX_def u256_from_u64_def unsigned_minus_1_eq_mask mask_eq_exp_minus_1)

lemma u256_is_zero_iff: "u256_is_zero x \<longleftrightarrow> x = U256_ZERO"
  by (cases x) (simp add: u256_is_zero_def U256_ZERO_def)

lemma overflowing_add_val: "unat (a + b) + 2 ^ 64 * of_bool (a + b < a) = unat a + unat b" for a b :: u64
proof (cases "unat a + unat b < 2 ^ 64")
  case True
  then have "unat (a + b) = unat a + unat b" by (simp add: unat_word_ariths)
  then show ?thesis by (simp add: word_less_nat_alt)
next
  case False
  moreover have "unat a < 2 ^ 64" "unat b < 2 ^ 64" using unat_less_power [of a] unat_less_power [of b] by simp_all
  ultimately have "unat (a + b) = unat a + unat b - 2 ^ 64" by (simp add: unat_word_ariths mod_if)
  then show ?thesis using False \<open>unat b < 2 ^ 64\<close> by (simp add: word_less_nat_alt)
qed

lemma overflowing_sub_val: "unat (a - b) + unat b = unat a + 2 ^ 64 * of_bool (a < b)" for a b :: u64
proof (cases "a < b")
  case True
  have "(a - b) + b = a" by simp
  moreover have "unat ((a - b) + b) + 2 ^ 64 * of_bool ((a - b) + b < a - b) = unat (a - b) + unat b"
    by (rule overflowing_add_val)
  moreover have "a < a - b"
  proof (rule ccontr)
    assume "\<not> a < a - b"
    then have "unat (a - b) \<le> unat a" by (simp add: word_less_nat_alt)
    moreover have "unat a + 2 ^ 64 * of_bool (a < a - b) = unat (a - b) + unat b"
      using overflowing_add_val [of "a - b" b] by simp
    ultimately show False using True \<open>\<not> a < a - b\<close>
      by (auto simp: word_less_nat_alt)
  qed
  ultimately show ?thesis using True by simp
next
  case False
  then show ?thesis by (simp add: word_less_nat_alt not_less unat_sub_exact)
qed

lemma unat_two_flags: "unat (of_bool p + of_bool q :: u64) = of_bool p + of_bool q"
  by (cases p; cases q) simp_all

lemma add_loop_val:
  assumes "length xs = length ys" and "add_loop xs ys carry = (limbs, out)"
  shows "length limbs = length xs \<and> limbs_val limbs + 2 ^ (64 * length xs) * unat out = limbs_val xs + limbs_val ys + unat carry"
  using assms
proof (induction xs ys arbitrary: carry limbs out rule: list_induct2)
  case (Cons x xs y ys)
  define c1 where "c1 = (x + y < x)"
  define c2 where "c2 = ((x + y) + carry < x + y)"
  obtain rest where loop: "add_loop xs ys (of_bool c1 + of_bool c2) = (rest, out)" and limbs: "limbs = (x + y + carry) # rest"
    using Cons.prems by (auto simp: overflowing_add_def c1_def c2_def split: prod.splits)
  note IH = Cons.IH [OF loop]
  have digit: "unat (x + y + carry) + 2 ^ 64 * (of_bool c1 + of_bool c2) = unat x + unat y + unat carry"
    using overflowing_add_val [of x y] overflowing_add_val [of "x + y" carry] by (simp add: c1_def c2_def distrib_left)
  have "limbs_val limbs + 2 ^ (64 * length (x # xs)) * unat out
      = unat (x + y + carry) + 2 ^ 64 * (limbs_val rest + 2 ^ (64 * length xs) * unat out)"
    by (simp add: limbs power_add distrib_left)
  also have "\<dots> = unat (x + y + carry) + 2 ^ 64 * (limbs_val xs + limbs_val ys + (of_bool c1 + of_bool c2))"
    using IH by (simp add: unat_two_flags)
  also have "\<dots> = unat x + unat y + unat carry + 2 ^ 64 * (limbs_val xs + limbs_val ys)"
    unfolding digit [symmetric] by (simp only: distrib_left distrib_right ac_simps)
  finally show ?case using IH by (simp add: limbs distrib_left)
qed simp

lemma sub_loop_val:
  assumes "length xs = length ys" and "sub_loop xs ys borrow = (limbs, out)"
  shows "length limbs = length xs \<and> limbs_val limbs + limbs_val ys + unat borrow = limbs_val xs + 2 ^ (64 * length xs) * unat out"
  using assms
proof (induction xs ys arbitrary: borrow limbs out rule: list_induct2)
  case (Cons x xs y ys)
  define b1 where "b1 = (x < y)"
  define b2 where "b2 = (x - y < borrow)"
  obtain rest where loop: "sub_loop xs ys (of_bool b1 + of_bool b2) = (rest, out)" and limbs: "limbs = (x - y - borrow) # rest"
    using Cons.prems by (auto simp: overflowing_sub_def b1_def b2_def split: prod.splits)
  note IH = Cons.IH [OF loop]
  have digit: "unat (x - y - borrow) + unat y + unat borrow = unat x + 2 ^ 64 * (of_bool b1 + of_bool b2)"
    using overflowing_sub_val [of x y] overflowing_sub_val [of "x - y" borrow] by (simp add: b1_def b2_def distrib_left)
  have "limbs_val limbs + limbs_val (y # ys) + unat borrow
      = unat (x - y - borrow) + unat y + unat borrow + 2 ^ 64 * (limbs_val rest + limbs_val ys)"
    by (simp add: limbs distrib_left)
  also have "\<dots> = unat x + 2 ^ 64 * (limbs_val rest + limbs_val ys + (of_bool b1 + of_bool b2))"
    unfolding digit by (simp only: distrib_left distrib_right ac_simps)
  also have "\<dots> = unat x + 2 ^ 64 * (limbs_val xs + 2 ^ (64 * length xs) * unat out)"
    using IH by (simp add: unat_two_flags)
  finally show ?case using IH by (simp add: limbs power_add distrib_left)
qed simp

text \<open>A result with a value and a carry: it is returned exactly when the carry is zero.\<close>

lemma carry_result:
  assumes "length limbs = 4" and "limbs_val limbs + 2 ^ 256 * k = v"
  shows "(if 0 < k then None else Some (of_limbs limbs)) = Some c \<longleftrightarrow> u256_val c = v"
    and "(if 0 < k then None else Some (of_limbs limbs)) = None \<longleftrightarrow> 2 ^ 256 \<le> v"
proof -
  have less: "limbs_val limbs < 2 ^ 256" using limbs_val_less [of limbs] assms(1) by simp
  have val: "u256_val (of_limbs limbs) = limbs_val limbs" by (rule u256_val_of_limbs [OF assms(1)])
  have big: "2 ^ 256 \<le> v" if "0 < k"
  proof -
    have "2 ^ 256 * 1 \<le> (2 :: nat) ^ 256 * k" using that by (intro mult_le_mono2) simp
    then show ?thesis using assms(2) by linarith
  qed
  show "(if 0 < k then None else Some (of_limbs limbs)) = Some c \<longleftrightarrow> u256_val c = v"
    using big u256_val_less [of c] assms(2) val u256_val_inject [of "of_limbs limbs" c] by (cases "k = 0") auto
  show "(if 0 < k then None else Some (of_limbs limbs)) = None \<longleftrightarrow> 2 ^ 256 \<le> v"
    using big less assms(2) by (cases "k = 0") auto
qed

lemma u256_checked_add_iff:
  "u256_checked_add a b = Some c \<longleftrightarrow> u256_val c = u256_val a + u256_val b"
  "u256_checked_add a b = None \<longleftrightarrow> 2 ^ 256 \<le> u256_val a + u256_val b"
proof -
  obtain limbs carry where loop: "add_loop (u256_limbs a) (u256_limbs b) 0 = (limbs, carry)"
    by (cases "add_loop (u256_limbs a) (u256_limbs b) 0")
  have len: "length limbs = 4" and eq: "limbs_val limbs + 2 ^ 256 * unat carry = u256_val a + u256_val b"
    using add_loop_val [OF _ loop] by (simp_all add: u256_val_def)
  have "u256_checked_add a b = (if 0 < unat carry then None else Some (of_limbs limbs))"
    by (simp add: u256_checked_add_def loop word_less_nat_alt)
  then show "u256_checked_add a b = Some c \<longleftrightarrow> u256_val c = u256_val a + u256_val b"
    "u256_checked_add a b = None \<longleftrightarrow> 2 ^ 256 \<le> u256_val a + u256_val b"
    using carry_result [OF len eq] by simp_all
qed

lemma u256_checked_sub_iff:
  "u256_checked_sub a b = Some c \<longleftrightarrow> u256_val a = u256_val b + u256_val c"
  "u256_checked_sub a b = None \<longleftrightarrow> u256_val a < u256_val b"
proof -
  obtain limbs borrow where loop: "sub_loop (u256_limbs a) (u256_limbs b) 0 = (limbs, borrow)"
    by (cases "sub_loop (u256_limbs a) (u256_limbs b) 0")
  have len: "length limbs = 4" and eq: "limbs_val limbs + u256_val b = u256_val a + 2 ^ 256 * unat borrow"
    using sub_loop_val [OF _ loop] by (simp_all add: u256_val_def)
  have val: "u256_val (of_limbs limbs) = limbs_val limbs" by (rule u256_val_of_limbs [OF len])
  have less: "limbs_val limbs < 2 ^ 256" using limbs_val_less [of limbs] len by simp
  have sub: "u256_checked_sub a b = (if 0 < unat borrow then None else Some (of_limbs limbs))"
    by (simp add: u256_checked_sub_def loop word_less_nat_alt)
  have big: "u256_val a < u256_val b" if "0 < unat borrow"
  proof -
    have "2 ^ 256 * 1 \<le> (2 :: nat) ^ 256 * unat borrow" using that by (intro mult_le_mono2) simp
    then show ?thesis using eq less by linarith
  qed
  have exact: "u256_val a = u256_val b + u256_val (of_limbs limbs)" if "\<not> 0 < unat borrow"
    using eq val that by simp
  show "u256_checked_sub a b = Some c \<longleftrightarrow> u256_val a = u256_val b + u256_val c"
  proof (cases "0 < unat borrow")
    case True
    then show ?thesis using big sub by (metis add.commute le_add1 linorder_not_less option.distinct(1))
  next
    case False
    then show ?thesis using exact sub by (metis add_left_cancel option.inject u256_val_inject)
  qed
  show "u256_checked_sub a b = None \<longleftrightarrow> u256_val a < u256_val b"
  proof (cases "0 < unat borrow")
    case False
    then show ?thesis using exact sub by (metis le_add1 linorder_not_less option.distinct(1))
  qed (use big sub in metis)
qed

fun columns_val :: "u128 list \<Rightarrow> nat" where
  "columns_val [] = 0"
| "columns_val (c # cs) = unat c + 2 ^ 64 * columns_val cs"

lemma unat_product: "unat (ucast x * ucast y :: u128) = unat x * unat y" for x y :: u64
proof -
  have "unat x * unat y \<le> (2 ^ 64 - 1) * (2 ^ 64 - 1)"
    using unat_less_power [of x] unat_less_power [of y] by (intro mult_le_mono) simp_all
  then show ?thesis by (simp add: unat_word_ariths unat_ucast_128)
qed

lemma carry_loop_val:
  assumes "\<forall>c \<in> set cs. unat c + 2 ^ 64 \<le> 2 ^ 128" and "unat carry < 2 ^ 64" and "carry_loop cs carry = (limbs, out)"
  shows "length limbs = length cs \<and> limbs_val limbs + 2 ^ (64 * length cs) * unat out = columns_val cs + unat carry"
  using assms
proof (induction cs arbitrary: carry limbs)
  case (Cons c cs)
  let ?t = "c + carry"
  obtain rest where loop: "carry_loop cs (drop_bit 64 ?t) = (rest, out)" and limbs: "limbs = ucast ?t # rest"
    using Cons.prems(3) by (auto simp: Let_def split: prod.splits)
  have exact: "unat ?t = unat c + unat carry" using Cons.prems(1,2) by (simp add: unat_word_ariths)
  have hi: "unat (drop_bit 64 ?t) = unat ?t div 2 ^ 64"
    unfolding unat_drop_bit_eq by (simp add: drop_bit_eq_div)
  have lo: "unat (ucast ?t :: u64) = unat ?t mod 2 ^ 64" by (simp add: unsigned_ucast_eq take_bit_eq_mod)
  have "unat ?t < 2 ^ 128" using unat_less_power [of ?t] by simp
  then have "unat (drop_bit 64 ?t) < 2 ^ 64" by (simp add: hi less_mult_imp_div_less)
  note IH = Cons.IH [OF _ this loop]
  have rest: "length rest = length cs" "limbs_val rest + 2 ^ (64 * length cs) * unat out = columns_val cs + unat ?t div 2 ^ 64"
    using IH Cons.prems(1) by (simp_all add: hi)
  have "limbs_val limbs + 2 ^ (64 * length (c # cs)) * unat out
      = unat ?t mod 2 ^ 64 + 2 ^ 64 * (limbs_val rest + 2 ^ (64 * length cs) * unat out)"
    by (simp add: limbs lo power_add distrib_left)
  also have "\<dots> = (unat ?t mod 2 ^ 64 + 2 ^ 64 * (unat ?t div 2 ^ 64)) + 2 ^ 64 * columns_val cs"
    unfolding rest(2) by (simp only: distrib_left ac_simps)
  also have "\<dots> = columns_val (c # cs) + unat carry" by (simp only: mod_mult_div_eq exact columns_val.simps ac_simps)
  finally show ?case using rest(1) limbs by simp
qed simp

lemma u256_checked_mul_small:
  "u256_checked_mul (u256_from_u64 x) b = Some c \<longleftrightarrow> u256_val c = unat x * u256_val b"
  "u256_checked_mul (u256_from_u64 x) b = None \<longleftrightarrow> 2 ^ 256 \<le> unat x * u256_val b"
proof -
  obtain b0 b1 b2 b3 where b: "b = U256 b0 b1 b2 b3" by (cases b)
  let ?cs = "[ucast x * ucast b0, ucast x * ucast b1, ucast x * ucast b2, ucast x * ucast b3] :: u128 list"
  have outer: "mul_outer (u256_limbs (u256_from_u64 x)) (u256_limbs b) 0 [0, 0, 0, 0] = Some ?cs"
    by (auto simp: u256_from_u64_def b)
  have "unat (ucast x * ucast y :: u128) + 2 ^ 64 \<le> 2 ^ 128" for y :: u64
  proof -
    have "unat x * unat y \<le> (2 ^ 64 - 1) * (2 ^ 64 - 1)"
      using unat_less_power [of x] unat_less_power [of y] by (intro mult_le_mono) simp_all
    then show ?thesis by (simp add: unat_product)
  qed
  then have fits: "\<forall>c \<in> set ?cs. unat c + 2 ^ 64 \<le> 2 ^ 128" by simp
  obtain limbs carry where loop: "carry_loop ?cs 0 = (limbs, carry)" by (cases "carry_loop ?cs 0")
  have val: "columns_val ?cs = unat x * u256_val b"
    by (simp add: b u256_val_def unat_product distrib_left)
  have len: "length limbs = 4" and eq: "limbs_val limbs + 2 ^ 256 * unat carry = unat x * u256_val b"
    using carry_loop_val [OF fits _ loop] val by simp_all
  have "u256_checked_mul (u256_from_u64 x) b = (if 0 < unat carry then None else Some (of_limbs limbs))"
    by (simp add: u256_checked_mul_def outer loop word_less_nat_alt del: carry_loop.simps)
  then show "u256_checked_mul (u256_from_u64 x) b = Some c \<longleftrightarrow> u256_val c = unat x * u256_val b"
    "u256_checked_mul (u256_from_u64 x) b = None \<longleftrightarrow> 2 ^ 256 \<le> unat x * u256_val b"
    using carry_result [OF len eq] by simp_all
qed

subsection \<open>Bytes\<close>

lemma be_value_append: "be_value (xs @ ys) = be_value xs * 256 ^ length ys + be_value ys"
  by (simp add: be_value_def le_value_append ac_simps)

lemma u64_from_to_be_bytes: "u64_from_be_bytes (u64_to_be_bytes x) = x"
proof -
  have "unat x < 256 ^ 8" using unat_less_power [of x] by simp
  then show ?thesis by (simp add: u64_from_be_bytes_def u64_to_be_bytes_def be_value_be_bytes)
qed

lemma u64_to_from_be_bytes:
  assumes "length bs = 8"
  shows "u64_to_be_bytes (u64_from_be_bytes bs) = bs"
proof -
  have "be_value bs < 2 ^ 64" using be_value_less [of bs] assms by simp
  then have "unat (u64_from_be_bytes bs) = be_value bs" by (simp add: u64_from_be_bytes_def unat_of_nat_small)
  then show ?thesis
    using le_bytes_le_value [of "rev bs"] assms by (simp add: u64_to_be_bytes_def be_bytes_def be_value_def)
qed

lemma u256_to_be_bytes_eq:
  "u256_to_be_bytes (U256 a b c d) = u64_to_be_bytes d @ u64_to_be_bytes c @ u64_to_be_bytes b @ u64_to_be_bytes a"
  by (simp add: u256_to_be_bytes_def upt_rec)

lemma length_u256_to_be_bytes [simp]: "length (u256_to_be_bytes x) = 32"
  by (cases x) (simp add: u256_to_be_bytes_eq)

lemma u256_from_to_be_bytes: "u256_from_be_bytes (u256_to_be_bytes x) = x"
  by (cases x) (simp add: u256_from_be_bytes_def u256_to_be_bytes_eq upt_rec of_limbs_def u64_from_to_be_bytes)

lemma u256_to_from_be_bytes:
  assumes "length bs = 32"
  shows "u256_to_be_bytes (u256_from_be_bytes bs) = bs"
proof -
  have "u256_to_be_bytes (u256_from_be_bytes bs)
      = take 8 bs @ take 8 (drop 8 bs) @ take 8 (drop 16 bs) @ take 8 (drop 24 bs)"
    using assms by (simp add: u256_from_be_bytes_def of_limbs_def upt_rec u256_to_be_bytes_eq u64_to_from_be_bytes)
  also have "\<dots> = take 8 bs @ take 8 (drop 8 bs) @ drop 16 bs"
    using assms append_take_drop_id [of 8 "drop 16 bs"] by simp
  also have "\<dots> = take 8 bs @ drop 8 bs"
    using append_take_drop_id [of 8 "drop 8 bs"] by simp
  finally show ?thesis by simp
qed

lemma u256_bytes_value: "be_value (u256_to_be_bytes x) = u256_val x"
proof (cases x)
  case (U256 a b c d)
  have "be_value (u64_to_be_bytes y) = unat y" for y
    using unat_less_power [of y] by (simp add: u64_to_be_bytes_def be_value_be_bytes)
  then show ?thesis by (simp add: U256 u256_to_be_bytes_eq be_value_append u256_val_def)
qed

subsection \<open>Properties\<close>

text \<open>
  C36. Addition and subtraction of 256-bit integers, carried limb by limb, are those of the numbers: the
  result is the one with the right value, and there is none exactly when the sum does not fit or the
  difference is negative; multiplication by a 64-bit number is exact in the same way; and the big-endian
  bytes spell the number.
\<close>

theorem u256_arithmetic_exact:
  "(u256_checked_add a b = Some c \<longleftrightarrow> u256_val c = u256_val a + u256_val b)
    \<and> (u256_checked_add a b = None \<longleftrightarrow> 2 ^ 256 \<le> u256_val a + u256_val b)
    \<and> (u256_checked_sub a b = Some c \<longleftrightarrow> u256_val a = u256_val b + u256_val c)
    \<and> (u256_checked_sub a b = None \<longleftrightarrow> u256_val a < u256_val b)
    \<and> (u256_checked_mul (u256_from_u64 x) b = Some c \<longleftrightarrow> u256_val c = unat x * u256_val b)
    \<and> (u256_checked_mul (u256_from_u64 x) b = None \<longleftrightarrow> 2 ^ 256 \<le> unat x * u256_val b)
    \<and> be_value (u256_to_be_bytes a) = u256_val a \<and> u256_from_be_bytes (u256_to_be_bytes a) = a"
  using u256_checked_add_iff u256_checked_sub_iff u256_checked_mul_small u256_bytes_value u256_from_to_be_bytes by simp

text \<open>
  With two limbs on both sides a column of the product can exceed 128 bits: the square of 2^128 - 1, which
  fits, is returned too small by 2^192.
\<close>

lemma checked_mul_loses_carry:
  "\<exists>c. u256_checked_mul (U256 (- 1) (- 1) 0 0) (U256 (- 1) (- 1) 0 0) = Some c
    \<and> u256_val c + 2 ^ 192 = u256_val (U256 (- 1) (- 1) 0 0) * u256_val (U256 (- 1) (- 1) 0 0)"
proof (intro exI conjI)
  show "u256_checked_mul (U256 (- 1) (- 1) 0 0) (U256 (- 1) (- 1) 0 0) = Some (U256 1 0 18446744073709551614 18446744073709551614)"
    by code_simp
  show "u256_val (U256 1 0 18446744073709551614 18446744073709551614) + 2 ^ 192 = u256_val (U256 (- 1) (- 1) 0 0) * u256_val (U256 (- 1) (- 1) 0 0)"
    by (simp add: u256_val_def unsigned_minus_1_eq_mask mask_eq_exp_minus_1)
qed

subsection \<open>Fees\<close>

lemma effective_price_bounds:
  assumes "base_fee \<le> et_max_fee_per_gas t"
  shows "base_fee \<le> effective_gas_price t base_fee \<and> effective_gas_price t base_fee \<le> et_max_fee_per_gas t"
  using assms unat_less_power [of "et_max_fee_per_gas t"]
  by (auto simp: effective_gas_price_def word_le_nat_alt unat_saturating_add unat_saturating_sub min_def)

lemma unwrap_or_simps [simp]: "unwrap_or d None = d" "unwrap_or d (Some v) = v"
  by (simp_all add: unwrap_or_def)

lemma u256_gas_product:
  "u256_checked_mul (u256_from_u64 x) (u256_from_u64 y) \<noteq> None"
  "u256_val (unwrap_or d (u256_checked_mul (u256_from_u64 x) (u256_from_u64 y))) = unat x * unat y"
proof -
  have "unat x * unat y < 2 ^ 64 * 2 ^ 64"
    using unat_less_power [of x] unat_less_power [of y] by (intro mult_strict_mono) simp_all
  then show some: "u256_checked_mul (u256_from_u64 x) (u256_from_u64 y) \<noteq> None"
    by (simp add: u256_checked_mul_small(2))
  then obtain c where c: "u256_checked_mul (u256_from_u64 x) (u256_from_u64 y) = Some c" by blast
  then have "u256_val c = unat x * unat y" by (simp add: u256_checked_mul_small(1))
  then show "u256_val (unwrap_or d (u256_checked_mul (u256_from_u64 x) (u256_from_u64 y))) = unat x * unat y"
    unfolding c by simp
qed

lemma max_cost_val:
  "u256_val (max_cost t) = min (unat (et_gas_limit t) * unat (et_max_fee_per_gas t) + u256_val (et_value t)) (2 ^ 256 - 1)"
proof (cases "u256_checked_add (unwrap_or U256_MAX (u256_checked_mul (u256_from_u64 (et_gas_limit t)) (u256_from_u64 (et_max_fee_per_gas t)))) (et_value t)")
  case None
  then have "2 ^ 256 \<le> unat (et_gas_limit t) * unat (et_max_fee_per_gas t) + u256_val (et_value t)"
    by (simp add: u256_checked_add_iff(2) u256_gas_product(2))
  then show ?thesis by (simp add: max_cost_def None Let_def)
next
  case (Some c)
  then have "u256_val c = unat (et_gas_limit t) * unat (et_max_fee_per_gas t) + u256_val (et_value t)"
    by (simp add: u256_checked_add_iff(1) u256_gas_product(2))
  then show ?thesis using Some u256_val_less [of c] by (simp add: max_cost_def Let_def)
qed

text \<open>
  The hash of a transaction does not separate its fields: the recipient has no length or presence mark, so
  a call and a contract creation with different value and input can have one hash. The access list and
  the signature are not covered either.
\<close>

lemma evm_hash_confuses_create:
  assumes "length to = 20" and "et_to t = Some to"
  shows "evm_preimage (t\<lparr>et_to := None, et_value := u256_from_be_bytes (to @ take 12 (u256_to_be_bytes (et_value t))),
      et_input := drop 12 (u256_to_be_bytes (et_value t)) @ et_input t\<rparr>) = evm_preimage t"
proof -
  have "u256_to_be_bytes (u256_from_be_bytes (to @ take 12 (u256_to_be_bytes (et_value t))))
      = to @ take 12 (u256_to_be_bytes (et_value t))"
    using assms(1) by (intro u256_to_from_be_bytes) simp
  then show ?thesis
    using assms(2) append_take_drop_id [of 12 "u256_to_be_bytes (et_value t)"]
    by (simp add: evm_preimage_def)
qed

end
