(* ===== verification/EVM_Bridge.thy ===== *)
theory EVM_Bridge
  imports EVM_Types Hash_Map
begin

section \<open>The bridge of the EVM layer\<close>

text \<open>
  \<open>pyrax-node/src/evm/bridge.rs\<close>: deposits that are confirmed and minted, withdrawals with a challenge
  period, totals and the withdrawal root. The clock is an argument of the operations that read it.
\<close>

datatype EvmDepositStatus = EdPending | EdConfirmed | EdMinted | EdFailed

record EvmDeposit =
  ed_id :: b256
  ed_l1_tx_hash :: h256
  ed_l1_output_index :: u32
  ed_l2_recipient :: evm_address
  ed_amount :: u64
  ed_l1_block_number :: u64
  ed_l1_block_hash :: h256
  ed_confirmations_required :: u32
  ed_confirmations :: u32
  ed_status :: EvmDepositStatus
  ed_l2_mint_tx :: "b256 option"
  ed_timestamp :: u64

datatype EvmWithdrawalStatus = EwPending | EwReady | EwClaimed | EwChallenged | EwFailed

record EvmWithdrawal =
  ew_id :: b256
  ew_l2_tx_hash :: b256
  ew_l2_sender :: evm_address
  ew_l1_recipient :: "u8 list"
  ew_amount :: u64
  ew_l2_block_number :: u64
  ew_challenge_end :: u64
  ew_status :: EvmWithdrawalStatus
  ew_merkle_proof :: "b256 list option"
  ew_l1_claim_tx :: "h256 option"
  ew_timestamp :: u64

record EvmBridgeConfig =
  bc_min_deposit :: u64
  bc_max_deposit :: u64
  bc_deposit_confirmations :: u32
  bc_challenge_period_secs :: u64
  bc_fee_bps :: u16
  bc_l1_bridge_address :: "u8 list"
  bc_l2_bridge_address :: evm_address

definition EvmBridgeConfig_default :: EvmBridgeConfig where
  "EvmBridgeConfig_default =
     \<lparr>bc_min_deposit = 100000, bc_max_deposit = 1000000000000, bc_deposit_confirmations = 10,
      bc_challenge_period_secs = 7 * 24 * 60 * 60, bc_fee_bps = 10,
      bc_l1_bridge_address = replicate 25 0, bc_l2_bridge_address = replicate 20 0\<rparr>"

record EvmBridge =
  eb_config :: EvmBridgeConfig
  eb_deposits :: "(b256, EvmDeposit) hashmap"
  eb_withdrawals :: "(b256, EvmWithdrawal) hashmap"
  eb_total_deposited :: u64
  eb_total_withdrawn :: u64
  eb_withdrawal_root :: b256

datatype EvmBridgeError =
    EbAmountTooSmall u64
  | EbAmountTooLarge u64
  | EbDuplicateDeposit b256
  | EbDepositNotFound b256
  | EbInvalidDepositStatus EvmDepositStatus
  | EbDuplicateWithdrawal b256
  | EbWithdrawalNotFound b256
  | EbInvalidWithdrawalStatus EvmWithdrawalStatus
  | EbChallengePeriodActive
  | EbInvalidProof

definition EvmBridge_new :: "EvmBridgeConfig \<Rightarrow> EvmBridge" where
  "EvmBridge_new config =
     \<lparr>eb_config = config, eb_deposits = [], eb_withdrawals = [], eb_total_deposited = 0, eb_total_withdrawn = 0,
      eb_withdrawal_root = replicate 32 0\<rparr>"

definition compute_deposit_id :: "ext \<Rightarrow> h256 \<Rightarrow> u32 \<Rightarrow> b256" where
  "compute_deposit_id e l1_tx_hash output_index =
     ext_blake3 e (h256_bytes l1_tx_hash @ u32_to_be_bytes output_index @ ascii_bytes ''deposit'')"

definition compute_withdrawal_id :: "ext \<Rightarrow> b256 \<Rightarrow> b256" where
  "compute_withdrawal_id e l2_tx_hash = ext_blake3 e (l2_tx_hash @ ascii_bytes ''withdrawal'')"

subsection \<open>Deposits\<close>

definition eb_create_deposit ::
  "ext \<Rightarrow> u64 \<Rightarrow> EvmBridge \<Rightarrow> h256 \<Rightarrow> u32 \<Rightarrow> evm_address \<Rightarrow> u64 \<Rightarrow> u64 \<Rightarrow> h256 \<Rightarrow> EvmBridgeError + (EvmBridge \<times> b256)" where
  "eb_create_deposit e now b l1_tx_hash l1_output_index l2_recipient amount l1_block_number l1_block_hash =
     (if amount < bc_min_deposit (eb_config b) then Err (EbAmountTooSmall (bc_min_deposit (eb_config b)))
      else if bc_max_deposit (eb_config b) < amount then Err (EbAmountTooLarge (bc_max_deposit (eb_config b)))
      else
        let deposit_id = compute_deposit_id e l1_tx_hash l1_output_index in
        if hm_contains (eb_deposits b) deposit_id then Err (EbDuplicateDeposit deposit_id)
        else
          let deposit = \<lparr>ed_id = deposit_id, ed_l1_tx_hash = l1_tx_hash, ed_l1_output_index = l1_output_index,
                         ed_l2_recipient = l2_recipient, ed_amount = amount, ed_l1_block_number = l1_block_number,
                         ed_l1_block_hash = l1_block_hash,
                         ed_confirmations_required = bc_deposit_confirmations (eb_config b), ed_confirmations = 0,
                         ed_status = EdPending, ed_l2_mint_tx = None, ed_timestamp = now\<rparr>
          in Ok (b\<lparr>eb_deposits := hm_insert deposit_id deposit (eb_deposits b)\<rparr>, deposit_id))"

definition confirm_deposit :: "u64 \<Rightarrow> EvmDeposit \<Rightarrow> EvmDeposit" where
  "confirm_deposit current_l1_height d =
     (let confirmations = ucast (saturating_sub current_l1_height (ed_l1_block_number d)); d = d\<lparr>ed_confirmations := confirmations\<rparr>
      in if ed_confirmations_required d \<le> confirmations then d\<lparr>ed_status := EdConfirmed\<rparr> else d)"

definition update_deposit_confirmations ::
  "EvmBridge \<Rightarrow> b256 \<Rightarrow> u64 \<Rightarrow> EvmBridgeError + (EvmBridge \<times> EvmDepositStatus)" where
  "update_deposit_confirmations b deposit_id current_l1_height =
     (case hm_get (eb_deposits b) deposit_id of
        None \<Rightarrow> Err (EbDepositNotFound deposit_id)
      | Some d \<Rightarrow>
          if ed_status d \<noteq> EdPending then Ok (b, ed_status d)
          else let d' = confirm_deposit current_l1_height d
               in Ok (b\<lparr>eb_deposits := hm_insert deposit_id d' (eb_deposits b)\<rparr>, ed_status d'))"

definition eb_complete_deposit :: "EvmBridge \<Rightarrow> b256 \<Rightarrow> b256 \<Rightarrow> EvmBridgeError + EvmBridge" where
  "eb_complete_deposit b deposit_id l2_mint_tx =
     (case hm_get (eb_deposits b) deposit_id of
        None \<Rightarrow> Err (EbDepositNotFound deposit_id)
      | Some d \<Rightarrow>
          if ed_status d \<noteq> EdConfirmed then Err (EbInvalidDepositStatus (ed_status d))
          else Ok (b\<lparr>eb_deposits := hm_insert deposit_id (d\<lparr>ed_status := EdMinted, ed_l2_mint_tx := Some l2_mint_tx\<rparr>) (eb_deposits b),
                     eb_total_deposited := eb_total_deposited b + ed_amount d\<rparr>))"

subsection \<open>Withdrawals\<close>

definition ew_open :: "EvmWithdrawal \<Rightarrow> bool" where
  "ew_open w = (ew_status w = EwPending \<or> ew_status w = EwReady)"

definition update_withdrawal_root :: "ext \<Rightarrow> EvmBridge \<Rightarrow> EvmBridge" where
  "update_withdrawal_root e b =
     (let pending = sort_key ew_timestamp (filter ew_open (hm_values (eb_withdrawals b)))
      in b\<lparr>eb_withdrawal_root := ext_blake3 e (concat (map (\<lambda>w. ew_id w @ u64_to_be_bytes (ew_amount w) @ ew_l1_recipient w) pending))\<rparr>)"

definition eb_initiate_withdrawal ::
  "ext \<Rightarrow> u64 \<Rightarrow> EvmBridge \<Rightarrow> b256 \<Rightarrow> evm_address \<Rightarrow> u8 list \<Rightarrow> u64 \<Rightarrow> u64 \<Rightarrow> EvmBridgeError + (EvmBridge \<times> b256)" where
  "eb_initiate_withdrawal e now b l2_tx_hash l2_sender l1_recipient amount l2_block_number =
     (if amount < bc_min_deposit (eb_config b) then Err (EbAmountTooSmall (bc_min_deposit (eb_config b)))
      else
        let fee = mul_div amount (ucast (bc_fee_bps (eb_config b))) 10000;
            net_amount = saturating_sub amount fee;
            withdrawal_id = compute_withdrawal_id e l2_tx_hash in
        if hm_contains (eb_withdrawals b) withdrawal_id then Err (EbDuplicateWithdrawal withdrawal_id)
        else
          let withdrawal = \<lparr>ew_id = withdrawal_id, ew_l2_tx_hash = l2_tx_hash, ew_l2_sender = l2_sender,
                            ew_l1_recipient = l1_recipient, ew_amount = net_amount, ew_l2_block_number = l2_block_number,
                            ew_challenge_end = now + bc_challenge_period_secs (eb_config b), ew_status = EwPending,
                            ew_merkle_proof = None, ew_l1_claim_tx = None, ew_timestamp = now\<rparr>
          in Ok (update_withdrawal_root e (b\<lparr>eb_withdrawals := hm_insert withdrawal_id withdrawal (eb_withdrawals b)\<rparr>), withdrawal_id))"

definition eb_generate_merkle_proof :: "EvmBridge \<Rightarrow> b256 \<Rightarrow> b256 list" where
  "eb_generate_merkle_proof b withdrawal_id =
     filter (\<lambda>i. i \<noteq> withdrawal_id) (map ew_id (filter ew_open (hm_values (eb_withdrawals b))))"

definition check_withdrawal_ready :: "u64 \<Rightarrow> EvmBridge \<Rightarrow> b256 \<Rightarrow> EvmBridgeError + (EvmBridge \<times> bool)" where
  "check_withdrawal_ready now b withdrawal_id =
     (case hm_get (eb_withdrawals b) withdrawal_id of
        None \<Rightarrow> Err (EbWithdrawalNotFound withdrawal_id)
      | Some w \<Rightarrow>
          if ew_status w \<noteq> EwPending then Ok (b, ew_status w = EwReady)
          else if ew_challenge_end w \<le> now then
            let proof = eb_generate_merkle_proof b withdrawal_id
            in Ok (b\<lparr>eb_withdrawals := hm_modify withdrawal_id (\<lambda>w. w\<lparr>ew_status := EwReady, ew_merkle_proof := Some proof\<rparr>) (eb_withdrawals b)\<rparr>, True)
          else Ok (b, False))"

definition eb_complete_withdrawal :: "EvmBridge \<Rightarrow> b256 \<Rightarrow> h256 \<Rightarrow> EvmBridgeError + EvmBridge" where
  "eb_complete_withdrawal b withdrawal_id l1_claim_tx =
     (case hm_get (eb_withdrawals b) withdrawal_id of
        None \<Rightarrow> Err (EbWithdrawalNotFound withdrawal_id)
      | Some w \<Rightarrow>
          if ew_status w \<noteq> EwReady then Err (EbInvalidWithdrawalStatus (ew_status w))
          else Ok (b\<lparr>eb_withdrawals := hm_insert withdrawal_id (w\<lparr>ew_status := EwClaimed, ew_l1_claim_tx := Some l1_claim_tx\<rparr>) (eb_withdrawals b),
                     eb_total_withdrawn := eb_total_withdrawn b + ew_amount w\<rparr>))"

definition eb_challenge_withdrawal :: "EvmBridge \<Rightarrow> b256 \<Rightarrow> u8 list \<Rightarrow> EvmBridgeError + EvmBridge" where
  "eb_challenge_withdrawal b withdrawal_id proof =
     (case hm_get (eb_withdrawals b) withdrawal_id of
        None \<Rightarrow> Err (EbWithdrawalNotFound withdrawal_id)
      | Some w \<Rightarrow>
          if ew_status w \<noteq> EwPending then Err (EbInvalidWithdrawalStatus (ew_status w))
          else Ok (b\<lparr>eb_withdrawals := hm_insert withdrawal_id (w\<lparr>ew_status := EwChallenged\<rparr>) (eb_withdrawals b)\<rparr>))"

subsection \<open>Queries\<close>

definition eb_get_deposit :: "EvmBridge \<Rightarrow> b256 \<Rightarrow> EvmDeposit option" where
  "eb_get_deposit b deposit_id = hm_get (eb_deposits b) deposit_id"

definition eb_get_withdrawal :: "EvmBridge \<Rightarrow> b256 \<Rightarrow> EvmWithdrawal option" where
  "eb_get_withdrawal b withdrawal_id = hm_get (eb_withdrawals b) withdrawal_id"

definition eb_get_pending_deposits :: "EvmBridge \<Rightarrow> EvmDeposit list" where
  "eb_get_pending_deposits b = filter (\<lambda>d. ed_status d = EdPending \<or> ed_status d = EdConfirmed) (hm_values (eb_deposits b))"

definition eb_get_pending_withdrawals :: "EvmBridge \<Rightarrow> EvmWithdrawal list" where
  "eb_get_pending_withdrawals b = filter ew_open (hm_values (eb_withdrawals b))"

record EvmBridgeStats =
  es_total_deposits :: u64
  es_pending_deposits :: u64
  es_total_withdrawals :: u64
  es_pending_withdrawals :: u64
  es_total_deposited :: u64
  es_total_withdrawn :: u64
  es_net_locked :: u64

definition eb_get_stats :: "EvmBridge \<Rightarrow> EvmBridgeStats" where
  "eb_get_stats b =
     \<lparr>es_total_deposits = of_nat (length (eb_deposits b)),
      es_pending_deposits = of_nat (length (filter (\<lambda>d. ed_status d = EdPending) (hm_values (eb_deposits b)))),
      es_total_withdrawals = of_nat (length (eb_withdrawals b)),
      es_pending_withdrawals = of_nat (length (filter (\<lambda>w. ew_status w = EwPending) (hm_values (eb_withdrawals b)))),
      es_total_deposited = eb_total_deposited b, es_total_withdrawn = eb_total_withdrawn b,
      es_net_locked = saturating_sub (eb_total_deposited b) (eb_total_withdrawn b)\<rparr>"

subsection \<open>The ledger\<close>

datatype eb_op =
    EbDeposit u64 h256 u32 evm_address u64 u64 h256
  | EbConfirm b256 u64
  | EbMint b256 b256
  | EbWithdraw u64 b256 evm_address "u8 list" u64 u64
  | EbCheck u64 b256
  | EbClaim b256 h256
  | EbChallenge b256 "u8 list"

definition fst_ok :: "'s \<Rightarrow> 'e + ('s \<times> 'a) \<Rightarrow> 's" where
  "fst_ok s r = (case r of Ok (s', _) \<Rightarrow> s' | Err _ \<Rightarrow> s)"

fun eb_step :: "ext \<Rightarrow> EvmBridge \<Rightarrow> eb_op \<Rightarrow> EvmBridge" where
  "eb_step e b (EbDeposit now h i r a n h') = fst_ok b (eb_create_deposit e now b h i r a n h')"
| "eb_step e b (EbConfirm i height) = fst_ok b (update_deposit_confirmations b i height)"
| "eb_step e b (EbMint i tx) = ok_or b (eb_complete_deposit b i tx)"
| "eb_step e b (EbWithdraw now tx s r a n) = fst_ok b (eb_initiate_withdrawal e now b tx s r a n)"
| "eb_step e b (EbCheck now i) = fst_ok b (check_withdrawal_ready now b i)"
| "eb_step e b (EbClaim i tx) = ok_or b (eb_complete_withdrawal b i tx)"
| "eb_step e b (EbChallenge i p) = ok_or b (eb_challenge_withdrawal b i p)"

definition minted :: "EvmDeposit \<Rightarrow> nat" where
  "minted d = (if ed_status d = EdMinted then unat (ed_amount d) else 0)"

definition claimed :: "EvmWithdrawal \<Rightarrow> nat" where
  "claimed w = (if ew_status w = EwClaimed then unat (ew_amount w) else 0)"

definition deposit_ok :: "EvmBridgeConfig \<Rightarrow> EvmDeposit \<Rightarrow> bool" where
  "deposit_ok c d =
     (bc_min_deposit c \<le> ed_amount d \<and> ed_amount d \<le> bc_max_deposit c
      \<and> ed_confirmations_required d = bc_deposit_confirmations c
      \<and> ed_status d \<in> {EdPending, EdConfirmed, EdMinted}
      \<and> (ed_status d \<noteq> EdPending \<longrightarrow> bc_deposit_confirmations c \<le> ed_confirmations d)
      \<and> (ed_l2_mint_tx d \<noteq> None \<longleftrightarrow> ed_status d = EdMinted))"

definition withdrawal_ok :: "EvmWithdrawal \<Rightarrow> bool" where
  "withdrawal_ok w = (ew_status w \<noteq> EwFailed \<and> (ew_l1_claim_tx w \<noteq> None \<longleftrightarrow> ew_status w = EwClaimed))"

definition eb_inv :: "EvmBridgeConfig \<Rightarrow> EvmBridge \<Rightarrow> bool" where
  "eb_inv c b =
     (eb_config b = c \<and> hm_wf (eb_deposits b)
      \<and> eb_total_deposited b = of_nat (weight minted (eb_deposits b))
      \<and> eb_total_withdrawn b = of_nat (weight claimed (eb_withdrawals b))
      \<and> (\<forall>i d. hm_get (eb_deposits b) i = Some d \<longrightarrow> deposit_ok c d)
      \<and> (\<forall>i w. hm_get (eb_withdrawals b) i = Some w \<longrightarrow> withdrawal_ok w))"

lemma fst_ok_simps [simp]: "fst_ok s (Ok (s', x)) = s'" "fst_ok s (Err er) = s"
  by (simp_all add: fst_ok_def)

lemma weight_replace:
  assumes "hm_get m k = Some v" "w v' = w v + n"
  shows "weight w (hm_insert k v' m) = weight w m + n"
  using weight_insert [of w k v' m] assms by simp

lemma weight_fresh: "hm_get m k = None \<Longrightarrow> weight w (hm_insert k v m) = weight w m + w v"
  using weight_insert [of w k v m] by simp

lemma root_fields [simp]:
  "eb_config (update_withdrawal_root e b) = eb_config b" "eb_deposits (update_withdrawal_root e b) = eb_deposits b"
  "eb_withdrawals (update_withdrawal_root e b) = eb_withdrawals b"
  "eb_total_deposited (update_withdrawal_root e b) = eb_total_deposited b"
  "eb_total_withdrawn (update_withdrawal_root e b) = eb_total_withdrawn b"
  by (simp_all add: update_withdrawal_root_def Let_def)

lemma eb_inv_put_deposit:
  assumes "eb_inv c b" "deposit_ok c d'" "held minted (hm_get (eb_deposits b) i) + n = minted d'"
  shows "eb_inv c (b\<lparr>eb_deposits := hm_insert i d' (eb_deposits b), eb_total_deposited := eb_total_deposited b + of_nat n\<rparr>)"
proof -
  have "weight minted (hm_insert i d' (eb_deposits b)) = weight minted (eb_deposits b) + n"
    using weight_insert [of minted i d' "eb_deposits b"] assms(3) by linarith
  then show ?thesis using assms(1,2) by (auto simp: eb_inv_def)
qed

lemma eb_inv_put_withdrawal:
  assumes "eb_inv c b" "withdrawal_ok w'" "held claimed (hm_get (eb_withdrawals b) i) + n = claimed w'"
  shows "eb_inv c (b\<lparr>eb_withdrawals := hm_insert i w' (eb_withdrawals b), eb_total_withdrawn := eb_total_withdrawn b + of_nat n\<rparr>)"
proof -
  have "weight claimed (hm_insert i w' (eb_withdrawals b)) = weight claimed (eb_withdrawals b) + n"
    using weight_insert [of claimed i w' "eb_withdrawals b"] assms(3) by linarith
  then show ?thesis using assms(1,2) by (auto simp: eb_inv_def)
qed

lemma eb_inv_root: "eb_inv c b \<Longrightarrow> eb_inv c (update_withdrawal_root e b)"
  by (simp add: eb_inv_def)

lemmas eb_inv_set_deposit = eb_inv_put_deposit [where n = 0, simplified]
lemmas eb_inv_set_withdrawal = eb_inv_put_withdrawal [where n = 0, simplified]

lemma eb_inv_get:
  assumes "eb_inv c b"
  shows "eb_config b = c" "hm_get (eb_deposits b) i = Some d \<Longrightarrow> deposit_ok c d" "hm_get (eb_withdrawals b) i = Some w \<Longrightarrow> withdrawal_ok w"
  using assms by (simp_all add: eb_inv_def)

lemma eb_inv_create:
  assumes "eb_inv c b" shows "eb_inv c (fst_ok b (eb_create_deposit e now b h i r a n h'))"
proof -
  note c = eb_inv_get(1) [OF assms]
  show ?thesis
    using assms
    by (auto simp: eb_create_deposit_def Let_def hm_contains_def c deposit_ok_def minted_def intro!: eb_inv_set_deposit)
qed

lemma eb_inv_confirm:
  assumes "eb_inv c b" shows "eb_inv c (fst_ok b (update_deposit_confirmations b i height))"
proof (cases "\<exists>d. hm_get (eb_deposits b) i = Some d \<and> ed_status d = EdPending")
  case True
  then obtain d where d: "hm_get (eb_deposits b) i = Some d" "ed_status d = EdPending" by blast
  have "deposit_ok c (confirm_deposit height d)" "minted (confirm_deposit height d) = minted d"
    using eb_inv_get(2) [OF assms d(1)] d(2) by (auto simp: deposit_ok_def confirm_deposit_def minted_def Let_def)
  then show ?thesis
    using d assms by (simp add: update_deposit_confirmations_def Let_def eb_inv_set_deposit)
qed (use assms in \<open>auto simp: update_deposit_confirmations_def split: option.split\<close>)

lemma eb_inv_mint:
  assumes "eb_inv c b" shows "eb_inv c (ok_or b (eb_complete_deposit b i tx))"
proof (cases "\<exists>d. hm_get (eb_deposits b) i = Some d \<and> ed_status d = EdConfirmed")
  case True
  then obtain d where d: "hm_get (eb_deposits b) i = Some d" "ed_status d = EdConfirmed" by blast
  let ?d = "d\<lparr>ed_status := EdMinted, ed_l2_mint_tx := Some tx\<rparr>"
  have "deposit_ok c ?d" "held minted (hm_get (eb_deposits b) i) + unat (ed_amount d) = minted ?d"
    using eb_inv_get(2) [OF assms d(1)] d by (auto simp: deposit_ok_def minted_def)
  from eb_inv_put_deposit [OF assms this] show ?thesis using d by (simp add: eb_complete_deposit_def)
qed (use assms in \<open>auto simp: eb_complete_deposit_def split: option.split\<close>)

lemma eb_inv_withdraw:
  assumes "eb_inv c b" shows "eb_inv c (fst_ok b (eb_initiate_withdrawal e now b tx sender r a n))"
  using assms
  by (auto simp: eb_initiate_withdrawal_def Let_def hm_contains_def withdrawal_ok_def claimed_def intro!: eb_inv_root eb_inv_set_withdrawal)

lemma eb_inv_check:
  assumes "eb_inv c b" shows "eb_inv c (fst_ok b (check_withdrawal_ready now b i))"
  using assms eb_inv_get(3) [OF assms]
  by (auto simp: check_withdrawal_ready_def Let_def hm_modify_def withdrawal_ok_def claimed_def split: option.split intro!: eb_inv_set_withdrawal)

lemma eb_inv_claim:
  assumes "eb_inv c b" shows "eb_inv c (ok_or b (eb_complete_withdrawal b i tx))"
proof (cases "\<exists>w. hm_get (eb_withdrawals b) i = Some w \<and> ew_status w = EwReady")
  case True
  then obtain w where w: "hm_get (eb_withdrawals b) i = Some w" "ew_status w = EwReady" by blast
  let ?w = "w\<lparr>ew_status := EwClaimed, ew_l1_claim_tx := Some tx\<rparr>"
  have "withdrawal_ok ?w" "held claimed (hm_get (eb_withdrawals b) i) + unat (ew_amount w) = claimed ?w"
    using w by (auto simp: withdrawal_ok_def claimed_def)
  from eb_inv_put_withdrawal [OF assms this] show ?thesis using w by (simp add: eb_complete_withdrawal_def)
qed (use assms in \<open>auto simp: eb_complete_withdrawal_def split: option.split\<close>)

lemma eb_inv_challenge:
  assumes "eb_inv c b" shows "eb_inv c (ok_or b (eb_challenge_withdrawal b i p))"
  using assms eb_inv_get(3) [OF assms]
  by (auto simp: eb_challenge_withdrawal_def withdrawal_ok_def claimed_def split: option.split intro!: eb_inv_set_withdrawal)

interpretation evm_bridge: machine "EvmBridge_new c" "eb_step e" "eb_inv c"
  for c e
proof
  show "eb_inv c (EvmBridge_new c)" by (simp add: eb_inv_def EvmBridge_new_def)
  show "eb_inv c b \<Longrightarrow> eb_inv c (eb_step e b x)" for b x
    by (cases x) (simp_all add: eb_inv_create eb_inv_confirm eb_inv_mint eb_inv_withdraw eb_inv_check eb_inv_claim eb_inv_challenge)
qed

text \<open>
  In every state the bridge can reach, the total deposited is the sum of the amounts of the minted deposits
  and the total withdrawn that of the claimed withdrawals (modulo the 64 bits of the counters); each deposit
  lies within the limits of the configuration, is confirmed or minted only with the confirmations it needs,
  and has a mint transaction exactly when it is minted.
\<close>

theorem evm_bridge_ledger:
  "let b = run (eb_step e) (EvmBridge_new c) ops in
   eb_total_deposited b = of_nat (weight minted (eb_deposits b))
   \<and> eb_total_withdrawn b = of_nat (weight claimed (eb_withdrawals b))
   \<and> list_all (deposit_ok c) (hm_values (eb_deposits b))"
proof -
  have inv: "eb_inv c (run (eb_step e) (EvmBridge_new c) ops)" (is "eb_inv c ?b")
    by (rule evm_bridge.inv_run [OF evm_bridge.inv_init])
  then have "hm_wf (eb_deposits ?b)" by (simp add: eb_inv_def)
  then have "list_all (deposit_ok c) (hm_values (eb_deposits ?b))"
    using hm_values_cases eb_inv_get(2) [OF inv] by (fastforce simp: list_all_iff)
  with inv show ?thesis by (simp add: eb_inv_def Let_def)
qed

subsection \<open>Waiting for the challenge period\<close>

fun checks_by :: "u64 \<Rightarrow> eb_op \<Rightarrow> bool" where
  "checks_by T (EbCheck now i) = (now \<le> T)"
| "checks_by T _ = True"

definition waiting :: "u64 \<Rightarrow> EvmBridge \<Rightarrow> bool" where
  "waiting T b = (\<forall>i w. hm_get (eb_withdrawals b) i = Some w \<longrightarrow> T < ew_challenge_end w \<longrightarrow> ew_status w \<in> {EwPending, EwChallenged})"

lemma waiting_step:
  assumes "waiting T b" "checks_by T x"
  shows "waiting T (eb_step e b x)"
proof (cases x)
  case (EbWithdraw now tx s r a n)
  then show ?thesis
    using assms by (auto simp: waiting_def eb_initiate_withdrawal_def Let_def)
next
  case (EbCheck now i)
  have now: "\<not> (T < ew_challenge_end w \<and> ew_challenge_end w \<le> now)" for w using assms(2) EbCheck by auto
  then show ?thesis
    using assms EbCheck by (auto simp: waiting_def check_withdrawal_ready_def Let_def hm_modify_def split: option.splits)
next
  case (EbClaim i tx)
  then show ?thesis using assms by (fastforce simp: waiting_def eb_complete_withdrawal_def split: option.splits)
next
  case (EbChallenge i p)
  then show ?thesis using assms by (auto simp: waiting_def eb_challenge_withdrawal_def split: option.splits)
next
  case (EbDeposit now h i r a n h')
  then show ?thesis using assms by (auto simp: waiting_def eb_create_deposit_def Let_def)
next
  case (EbConfirm i height)
  then show ?thesis using assms by (auto simp: waiting_def update_deposit_confirmations_def Let_def split: option.splits)
next
  case (EbMint i tx)
  then show ?thesis using assms by (auto simp: waiting_def eb_complete_deposit_def split: option.splits)
qed

lemma waiting_run: "waiting T b \<Longrightarrow> list_all (checks_by T) ops \<Longrightarrow> waiting T (run (eb_step e) b ops)"
  by (induction ops arbitrary: b) (simp_all add: waiting_step)

text \<open>
  A withdrawal is not claimed before its challenge period ends: in any run whose clock readings have not
  passed the end of the period, it is still pending or was challenged.
\<close>

theorem evm_withdrawals_wait:
  assumes "list_all (checks_by T) ops"
    and "hm_get (eb_withdrawals (run (eb_step e) (EvmBridge_new c) ops)) i = Some w" "T < ew_challenge_end w"
  shows "ew_status w \<in> {EwPending, EwChallenged}"
proof -
  have "waiting T (run (eb_step e) (EvmBridge_new c) ops)"
    by (rule waiting_run [OF _ assms(1)]) (simp add: waiting_def EvmBridge_new_def)
  then show ?thesis using assms(2,3) by (simp add: waiting_def)
qed

theorem evm_withdrawals_wait_witness:
  "\<exists>w. hm_get (eb_withdrawals (run (eb_step sample_ext) (EvmBridge_new EvmBridgeConfig_default)
         [EbWithdraw 1000 [1] [2] [3] 500000 1, EbCheck 2000 (compute_withdrawal_id sample_ext [1])])) (compute_withdrawal_id sample_ext [1]) = Some w
     \<and> 2000 < ew_challenge_end w \<and> ew_status w \<in> {EwPending, EwChallenged}"
proof -
  let ?b = "run (eb_step sample_ext) (EvmBridge_new EvmBridgeConfig_default)
    [EbWithdraw 1000 [1] [2] [3] 500000 1, EbCheck 2000 (compute_withdrawal_id sample_ext [1])]"
  obtain w where w: "hm_get (eb_withdrawals ?b) (compute_withdrawal_id sample_ext [1]) = Some w" "2000 < ew_challenge_end w"
    by (simp add: eb_initiate_withdrawal_def check_withdrawal_ready_def EvmBridge_new_def EvmBridgeConfig_default_def Let_def
        hm_contains_def)
  have "ew_status w \<in> {EwPending, EwChallenged}"
    by (rule evm_withdrawals_wait [OF _ w]) simp
  with w show ?thesis by blast
qed

text \<open>
  Nothing ties withdrawals to deposits: on a bridge that never saw a deposit, a withdrawal of any amount above
  the minimum is claimed after the challenge period, less the fee.
\<close>

theorem unbacked_withdrawal_paid:
  assumes "bc_min_deposit c \<le> a" "now + bc_challenge_period_secs c \<le> later"
  shows "let b = run (eb_step e) (EvmBridge_new c)
           [EbWithdraw now tx s r a n, EbCheck later (compute_withdrawal_id e tx), EbClaim (compute_withdrawal_id e tx) h]
         in eb_deposits b = [] \<and> eb_total_deposited b = 0
            \<and> eb_total_withdrawn b = saturating_sub a (mul_div a (ucast (bc_fee_bps c)) 10000)"
  using assms linorder_not_less [THEN iffD2, OF assms(1)]
  by (simp add: eb_initiate_withdrawal_def check_withdrawal_ready_def eb_complete_withdrawal_def EvmBridge_new_def Let_def
      hm_contains_def hm_modify_def)

theorem unbacked_withdrawal_paid_witness:
  "let b = run (eb_step sample_ext) (EvmBridge_new EvmBridgeConfig_default)
         [EbWithdraw 0 [1] [2] [3] 500000 1, EbCheck 604800 (compute_withdrawal_id sample_ext [1]), EbClaim (compute_withdrawal_id sample_ext [1]) h256_zero]
   in eb_deposits b = [] \<and> eb_total_deposited b = 0
      \<and> eb_total_withdrawn b = saturating_sub 500000 (mul_div 500000 (ucast (bc_fee_bps EvmBridgeConfig_default)) 10000)"
  by (rule unbacked_withdrawal_paid) (simp_all add: EvmBridgeConfig_default_def)

text \<open>
  The root of the open withdrawals is recomputed only when one is initiated: a claim or a challenge leaves it.
  Any bytes challenge a pending withdrawal.
\<close>

lemma withdrawal_root_stale:
  "eb_withdrawal_root (ok_or b (eb_complete_withdrawal b i tx)) = eb_withdrawal_root b"
  "eb_withdrawal_root (ok_or b (eb_challenge_withdrawal b i p)) = eb_withdrawal_root b"
  by (simp_all add: eb_complete_withdrawal_def eb_challenge_withdrawal_def split: option.split)

lemma any_bytes_challenge:
  "hm_get (eb_withdrawals b) i = Some w \<Longrightarrow> ew_status w = EwPending \<Longrightarrow>
   eb_challenge_withdrawal b i p = Ok (b\<lparr>eb_withdrawals := hm_insert i (w\<lparr>ew_status := EwChallenged\<rparr>) (eb_withdrawals b)\<rparr>)"
  by (simp add: eb_challenge_withdrawal_def)

end
