(* ===== verification/EVM_State.thy ===== *)
theory EVM_State
  imports EVM_Types Hash_Map "HOL-Library.Multiset"
begin

section \<open>EVM state\<close>

text \<open>
  \<open>pyrax-node/src/evm/state.rs\<close>: accounts with code and storage, changes that are pending until they are
  committed, snapshots, and the state root. The root hashes the accounts in the order of their addresses
  and the storage in the order of its keys.
\<close>

record StorageSlot =
  sl_original_value :: u256
  sl_current_value :: u256

record AccountState =
  ac_nonce :: u64
  ac_balance :: u256
  ac_code_hash :: b256
  ac_code :: "u8 list"
  ac_storage :: "(b256, StorageSlot) hashmap"

definition EMPTY_CODE_HASH :: b256 where
  "EMPTY_CODE_HASH =
     [0xc5, 0xd2, 0x46, 0x01, 0x86, 0xf7, 0x23, 0x3c, 0x92, 0x7e, 0x7d, 0xb2, 0xdc, 0xc7, 0x03, 0xc0,
      0xe5, 0x00, 0xb6, 0x53, 0xca, 0x82, 0x27, 0x3b, 0x7b, 0xfa, 0xd8, 0x04, 0x5d, 0x85, 0xa4, 0x70]"

definition AccountState_default :: AccountState where
  "AccountState_default =
     \<lparr>ac_nonce = 0, ac_balance = U256_ZERO, ac_code_hash = EMPTY_CODE_HASH, ac_code = [], ac_storage = []\<rparr>"

definition new_with_balance :: "u256 \<Rightarrow> AccountState" where
  "new_with_balance balance = AccountState_default\<lparr>ac_balance := balance\<rparr>"

definition hash_code :: "ext \<Rightarrow> u8 list \<Rightarrow> b256" where
  "hash_code e code = (if code = [] then EMPTY_CODE_HASH else ext_blake3 e code)"

definition new_contract :: "ext \<Rightarrow> u8 list \<Rightarrow> u256 \<Rightarrow> AccountState" where
  "new_contract e code balance =
     \<lparr>ac_nonce = 1, ac_balance = balance, ac_code_hash = hash_code e code, ac_code = code, ac_storage = []\<rparr>"

definition account_is_empty :: "AccountState \<Rightarrow> bool" where
  "account_is_empty a = (ac_nonce a = 0 \<and> u256_is_zero (ac_balance a) \<and> ac_code a = [])"

definition has_code :: "AccountState \<Rightarrow> bool" where
  "has_code a = (ac_code a \<noteq> [] \<and> ac_code_hash a \<noteq> EMPTY_CODE_HASH)"

definition account_get_storage :: "AccountState \<Rightarrow> b256 \<Rightarrow> u256" where
  "account_get_storage a key = (case hm_get (ac_storage a) key of None \<Rightarrow> U256_ZERO | Some slot \<Rightarrow> sl_current_value slot)"

definition StorageSlot_default :: StorageSlot where
  "StorageSlot_default = \<lparr>sl_original_value = U256_ZERO, sl_current_value = U256_ZERO\<rparr>"

definition account_set_storage :: "AccountState \<Rightarrow> b256 \<Rightarrow> u256 \<Rightarrow> AccountState" where
  "account_set_storage a key v =
     (let slot = (case hm_get (ac_storage a) key of None \<Rightarrow> StorageSlot_default | Some s \<Rightarrow> s)
      in a\<lparr>ac_storage := hm_insert key (slot\<lparr>sl_current_value := v\<rparr>) (ac_storage a)\<rparr>)"

subsection \<open>The database\<close>

record StateDB =
  sd_accounts :: "(evm_address, AccountState) hashmap"
  sd_state_root :: b256
  sd_block_number :: u64
  sd_pending_changes :: "(evm_address, AccountState) hashmap"
  sd_deleted_accounts :: "evm_address list"

definition StateDB_new :: StateDB where
  "StateDB_new =
     \<lparr>sd_accounts = [], sd_state_root = replicate 32 0, sd_block_number = 0, sd_pending_changes = [], sd_deleted_accounts = []\<rparr>"

definition storage_bytes :: "(b256, StorageSlot) hashmap \<Rightarrow> u8 list" where
  "storage_bytes m = concat (map (\<lambda>(k, slot). k @ u256_to_be_bytes (sl_current_value slot)) (sort_key fst m))"

definition account_bytes :: "evm_address \<times> AccountState \<Rightarrow> u8 list" where
  "account_bytes = (\<lambda>(address, a).
     address @ u64_to_be_bytes (ac_nonce a) @ u256_to_be_bytes (ac_balance a) @ ac_code_hash a @ storage_bytes (ac_storage a))"

definition compute_state_root :: "ext \<Rightarrow> StateDB \<Rightarrow> StateDB" where
  "compute_state_root e db =
     db\<lparr>sd_state_root := ext_blake3 e (concat (map account_bytes (sort_key fst (sd_accounts db))))\<rparr>"

definition with_genesis :: "ext \<Rightarrow> (evm_address, AccountState) hashmap \<Rightarrow> StateDB" where
  "with_genesis e genesis_accounts = compute_state_root e (StateDB_new\<lparr>sd_accounts := genesis_accounts\<rparr>)"

definition sdb_get_account :: "StateDB \<Rightarrow> evm_address \<Rightarrow> AccountState" where
  "sdb_get_account db a =
     (case hm_get (sd_pending_changes db) a of
        Some acc \<Rightarrow> acc
      | None \<Rightarrow> unwrap_or AccountState_default (hm_get (sd_accounts db) a))"

definition sdb_get_balance :: "StateDB \<Rightarrow> evm_address \<Rightarrow> u256" where
  "sdb_get_balance db a = ac_balance (sdb_get_account db a)"

definition sdb_get_nonce :: "StateDB \<Rightarrow> evm_address \<Rightarrow> u64" where
  "sdb_get_nonce db a = ac_nonce (sdb_get_account db a)"

definition sdb_get_code :: "StateDB \<Rightarrow> evm_address \<Rightarrow> u8 list" where
  "sdb_get_code db a = ac_code (sdb_get_account db a)"

definition sdb_get_code_hash :: "StateDB \<Rightarrow> evm_address \<Rightarrow> b256" where
  "sdb_get_code_hash db a = ac_code_hash (sdb_get_account db a)"

definition sdb_get_storage :: "StateDB \<Rightarrow> evm_address \<Rightarrow> b256 \<Rightarrow> u256" where
  "sdb_get_storage db a key = account_get_storage (sdb_get_account db a) key"

definition account_exists :: "StateDB \<Rightarrow> evm_address \<Rightarrow> bool" where
  "account_exists db a = (hm_contains (sd_pending_changes db) a \<or> hm_contains (sd_accounts db) a)"

definition set_account :: "StateDB \<Rightarrow> evm_address \<Rightarrow> AccountState \<Rightarrow> StateDB" where
  "set_account db a acc = db\<lparr>sd_pending_changes := hm_insert a acc (sd_pending_changes db)\<rparr>"

definition add_balance :: "StateDB \<Rightarrow> evm_address \<Rightarrow> u256 \<Rightarrow> StateDB" where
  "add_balance db a amount =
     (let acc = sdb_get_account db a in set_account db a (acc\<lparr>ac_balance := u256_saturating_add (ac_balance acc) amount\<rparr>))"

definition sub_balance :: "StateDB \<Rightarrow> evm_address \<Rightarrow> u256 \<Rightarrow> StateDB \<times> bool" where
  "sub_balance db a amount =
     (let acc = sdb_get_account db a in
      case u256_checked_sub (ac_balance acc) amount of
        Some new_balance \<Rightarrow> (set_account db a (acc\<lparr>ac_balance := new_balance\<rparr>), True)
      | None \<Rightarrow> (db, False))"

definition sdb_increment_nonce :: "StateDB \<Rightarrow> evm_address \<Rightarrow> StateDB" where
  "sdb_increment_nonce db a =
     (let acc = sdb_get_account db a in set_account db a (acc\<lparr>ac_nonce := saturating_add (ac_nonce acc) 1\<rparr>))"

definition set_code :: "ext \<Rightarrow> StateDB \<Rightarrow> evm_address \<Rightarrow> u8 list \<Rightarrow> StateDB" where
  "set_code e db a code =
     (let acc = sdb_get_account db a in set_account db a (acc\<lparr>ac_code_hash := hash_code e code, ac_code := code\<rparr>))"

definition sdb_set_storage :: "StateDB \<Rightarrow> evm_address \<Rightarrow> b256 \<Rightarrow> u256 \<Rightarrow> StateDB" where
  "sdb_set_storage db a key v = set_account db a (account_set_storage (sdb_get_account db a) key v)"

definition delete_account :: "StateDB \<Rightarrow> evm_address \<Rightarrow> StateDB" where
  "delete_account db a =
     db\<lparr>sd_deleted_accounts := sd_deleted_accounts db @ [a], sd_pending_changes := hm_remove a (sd_pending_changes db)\<rparr>"

definition apply_pending :: "(evm_address, AccountState) hashmap \<Rightarrow> (evm_address, AccountState) hashmap \<Rightarrow> (evm_address, AccountState) hashmap" where
  "apply_pending pending accounts =
     foldl (\<lambda>m (a, acc). if account_is_empty acc then hm_remove a m else hm_insert a acc m) accounts pending"

definition sdb_commit :: "ext \<Rightarrow> StateDB \<Rightarrow> StateDB" where
  "sdb_commit e db =
     compute_state_root e
       (db\<lparr>sd_accounts := foldl (\<lambda>m a. hm_remove a m) (apply_pending (sd_pending_changes db) (sd_accounts db)) (sd_deleted_accounts db),
           sd_pending_changes := [], sd_deleted_accounts := []\<rparr>)"

definition sdb_revert :: "StateDB \<Rightarrow> StateDB" where
  "sdb_revert db = db\<lparr>sd_pending_changes := [], sd_deleted_accounts := []\<rparr>"

definition set_block_number :: "StateDB \<Rightarrow> u64 \<Rightarrow> StateDB" where
  "set_block_number db number = db\<lparr>sd_block_number := number\<rparr>"

record StateSnapshot =
  sn_pending_changes :: "(evm_address, AccountState) hashmap"
  sn_deleted_accounts :: "evm_address list"

definition sdb_snapshot :: "StateDB \<Rightarrow> StateSnapshot" where
  "sdb_snapshot db = \<lparr>sn_pending_changes = sd_pending_changes db, sn_deleted_accounts = sd_deleted_accounts db\<rparr>"

definition sdb_restore :: "StateDB \<Rightarrow> StateSnapshot \<Rightarrow> StateDB" where
  "sdb_restore db s = db\<lparr>sd_pending_changes := sn_pending_changes s, sd_deleted_accounts := sn_deleted_accounts s\<rparr>"

definition account_count :: "StateDB \<Rightarrow> nat" where
  "account_count db = length (sd_accounts db)"

subsection \<open>Views\<close>

lemma get_set_account [simp]:
  "sdb_get_account (set_account db a acc) b = (if b = a then acc else sdb_get_account db b)"
  by (simp add: sdb_get_account_def set_account_def split: option.split)

lemma get_add_balance:
  "sdb_get_account (add_balance db a v) b =
     (if b = a then (sdb_get_account db a)\<lparr>ac_balance := u256_saturating_add (sdb_get_balance db a) v\<rparr> else sdb_get_account db b)"
  by (simp add: add_balance_def sdb_get_balance_def Let_def)

lemma sub_balance_cases:
  "sub_balance db a v =
     (case u256_checked_sub (sdb_get_balance db a) v of
        Some new \<Rightarrow> (set_account db a ((sdb_get_account db a)\<lparr>ac_balance := new\<rparr>), True) | None \<Rightarrow> (db, False))"
  by (simp add: sub_balance_def sdb_get_balance_def Let_def)

lemma storage_get_set:
  "account_get_storage (account_set_storage a key v) k = (if k = key then v else account_get_storage a k)"
  by (simp add: account_get_storage_def account_set_storage_def Let_def)

lemma apply_pending_get:
  assumes "hm_wf pending"
  shows "hm_get (apply_pending pending m) a =
    (case hm_get pending a of None \<Rightarrow> hm_get m a | Some acc \<Rightarrow> if account_is_empty acc then None else Some acc)"
  using assms
proof (induction pending arbitrary: m)
  case (Cons p pending)
  obtain b acc where p: "p = (b, acc)" by (cases p)
  have wf: "hm_wf pending" and fresh: "hm_get pending b = None"
    using Cons.prems by (auto simp: hm_wf_def hm_get_def p map_of_eq_None_iff)
  show ?case
    using Cons.IH [OF wf] fresh by (auto simp: apply_pending_def p hm_get_def [of "(b, acc) # pending"] simp flip: hm_get_def split: option.split)
qed (simp add: apply_pending_def)

lemma removes_get: "hm_get (foldl (\<lambda>m a. hm_remove a m) m as) b = (if b \<in> set as then None else hm_get m b)"
  by (induction "as" arbitrary: m) auto

lemma commit_get:
  assumes "hm_wf (sd_pending_changes db)"
  shows "sdb_get_account (sdb_commit e db) a =
    (if a \<in> set (sd_deleted_accounts db) then AccountState_default
     else case hm_get (sd_pending_changes db) a of
       Some acc \<Rightarrow> if account_is_empty acc then AccountState_default else acc
     | None \<Rightarrow> sdb_get_account db a)"
  using apply_pending_get [OF assms, of "sd_accounts db" a]
  by (auto simp: sdb_get_account_def sdb_commit_def compute_state_root_def removes_get split: option.split)

subsection \<open>The state root\<close>

text \<open>Sorting by key forgets the iteration order of the map.\<close>

lemma sort_key_content:
  fixes m :: "('k::linorder, 'v) hashmap"
  assumes "hm_wf m"
  shows "sort_key fst m = map (\<lambda>k. (k, the (hm_get m k))) (sorted_list_of_set (fst ` set m))" (is "_ = map ?f ?ks")
proof (rule sort_key_inj_key_eq)
  have "set m = set (map ?f ?ks)" using hm_mem_iff [OF assms] by force
  moreover have "distinct m" using assms by (auto simp: hm_wf_def distinct_map)
  moreover have "distinct (map ?f ?ks)" by (simp add: distinct_map inj_on_def)
  ultimately show "mset m = mset (map ?f ?ks)" by (simp only: set_eq_iff_mset_eq_distinct)
  show "inj_on fst (set m)" using assms by (simp add: hm_wf_def distinct_map)
  show "sorted (map fst (map ?f ?ks))" by (simp add: comp_def)
qed

lemma hm_keys_get: "fst ` set m = {k. hm_get m k \<noteq> None}"
  by (force simp: hm_get_def map_of_eq_None_iff)

definition same_account :: "AccountState \<Rightarrow> AccountState \<Rightarrow> bool" where
  "same_account a b = (a\<lparr>ac_storage := []\<rparr> = b\<lparr>ac_storage := []\<rparr> \<and> hm_get (ac_storage a) = hm_get (ac_storage b))"

lemma storage_bytes_content:
  "hm_wf m \<Longrightarrow> hm_wf n \<Longrightarrow> hm_get m = hm_get n \<Longrightarrow> storage_bytes m = storage_bytes n"
  by (simp add: storage_bytes_def sort_key_content hm_keys_get)

lemma account_bytes_content:
  assumes "hm_wf (ac_storage x)" "hm_wf (ac_storage y)" "same_account x y"
  shows "account_bytes (a, x) = account_bytes (a, y)"
  using assms storage_bytes_content [of "ac_storage x" "ac_storage y"]
  by (cases x; cases y) (simp add: same_account_def account_bytes_def)

text \<open>
  Two databases that agree on every committed account have the same state root, whatever order their
  hash maps iterate in: nodes that committed the same accounts in different orders agree on the root.
\<close>

theorem evm_root_is_content:
  assumes "hm_wf (sd_accounts db)" "hm_wf (sd_accounts db')"
    and "\<forall>a. rel_option (\<lambda>x y. hm_wf (ac_storage x) \<and> hm_wf (ac_storage y) \<and> same_account x y)
           (hm_get (sd_accounts db) a) (hm_get (sd_accounts db') a)"
  shows "sd_state_root (compute_state_root e db) = sd_state_root (compute_state_root e db')"
proof -
  have same: "hm_get (sd_accounts db) a = None \<longleftrightarrow> hm_get (sd_accounts db') a = None"
    "hm_get (sd_accounts db) a \<noteq> None \<Longrightarrow>
       account_bytes (a, the (hm_get (sd_accounts db) a)) = account_bytes (a, the (hm_get (sd_accounts db') a))" for a
    using assms(3) [rule_format, of a] by (auto simp: option.rel_sel intro: account_bytes_content)
  have fin: "finite {a. hm_get (sd_accounts db') a \<noteq> None}"
    unfolding hm_keys_get [symmetric] by simp
  have "concat (map account_bytes (sort_key fst (sd_accounts db))) = concat (map account_bytes (sort_key fst (sd_accounts db')))"
    unfolding sort_key_content [OF assms(1)] sort_key_content [OF assms(2)] hm_keys_get map_map comp_def same(1)
    by (intro arg_cong [where f = concat] map_cong refl) (use fin same in auto)
  then show ?thesis by (simp add: compute_state_root_def)
qed

definition two_storage :: "bool \<Rightarrow> (b256, StorageSlot) hashmap" where
  "two_storage swapped =
     (let s = \<lparr>sl_original_value = U256_ZERO, sl_current_value = U256_ONE\<rparr>
      in if swapped then [([2], s), ([1], s)] else [([1], s), ([2], s)])"

definition two_accounts :: "bool \<Rightarrow> StateDB" where
  "two_accounts swapped =
     (let one = new_with_balance U256_ONE\<lparr>ac_storage := two_storage swapped\<rparr>; two = new_with_balance U256_MAX
      in StateDB_new\<lparr>sd_accounts := if swapped then [([8], two), ([7], one)] else [([7], one), ([8], two)]\<rparr>)"

lemma two_storage_get: "hm_get (two_storage True) = hm_get (two_storage False)"
  by (auto simp: two_storage_def hm_get_def Let_def)

theorem evm_root_is_content_witness:
  "two_accounts True \<noteq> two_accounts False \<and>
   sd_state_root (compute_state_root sample_ext (two_accounts True)) = sd_state_root (compute_state_root sample_ext (two_accounts False))"
proof
  show "two_accounts True \<noteq> two_accounts False" by (simp add: two_accounts_def StateDB_new_def Let_def)
  show "sd_state_root (compute_state_root sample_ext (two_accounts True)) = sd_state_root (compute_state_root sample_ext (two_accounts False))"
  proof (rule evm_root_is_content)
    have wf: "hm_wf (two_storage b)" for b by (simp add: two_storage_def hm_wf_def Let_def)
    show "hm_wf (sd_accounts (two_accounts True))" "hm_wf (sd_accounts (two_accounts False))"
      by (simp_all add: two_accounts_def hm_wf_def Let_def)
    show "\<forall>a. rel_option (\<lambda>x y. hm_wf (ac_storage x) \<and> hm_wf (ac_storage y) \<and> same_account x y)
        (hm_get (sd_accounts (two_accounts True)) a) (hm_get (sd_accounts (two_accounts False)) a)"
      using two_storage_get wf
      by (simp add: two_accounts_def hm_get_def [of "_ # _"] Let_def same_account_def new_with_balance_def AccountState_default_def hm_wf_def)
  qed
qed

subsection \<open>Snapshots and commits\<close>

text \<open>The operations that only touch pending changes.\<close>

datatype state_op =
    AddBalance evm_address u256
  | SubBalance evm_address u256
  | IncrementNonce evm_address
  | SetCode evm_address "u8 list"
  | SetStorage evm_address b256 u256
  | DeleteAccount evm_address

fun run_op :: "ext \<Rightarrow> state_op \<Rightarrow> StateDB \<Rightarrow> StateDB" where
  "run_op e (AddBalance a v) db = add_balance db a v"
| "run_op e (SubBalance a v) db = fst (sub_balance db a v)"
| "run_op e (IncrementNonce a) db = sdb_increment_nonce db a"
| "run_op e (SetCode a code) db = set_code e db a code"
| "run_op e (SetStorage a k v) db = sdb_set_storage db a k v"
| "run_op e (DeleteAccount a) db = delete_account db a"

definition committed :: "StateDB \<Rightarrow> (evm_address, AccountState) hashmap \<times> b256 \<times> u64" where
  "committed db = (sd_accounts db, sd_state_root db, sd_block_number db)"

lemma committed_set_account [simp]: "committed (set_account db a acc) = committed db"
  by (simp add: committed_def set_account_def)

lemma committed_ops [simp]:
  "committed (add_balance db a v) = committed db"
  "committed (fst (sub_balance db a v)) = committed db"
  "committed (sdb_increment_nonce db a) = committed db"
  "committed (set_code e db a code) = committed db"
  "committed (sdb_set_storage db a k v) = committed db"
  "committed (delete_account db a) = committed db"
  by (simp_all add: add_balance_def sub_balance_cases sdb_increment_nonce_def set_code_def sdb_set_storage_def Let_def split: option.split)
    (simp add: committed_def delete_account_def)

lemma committed_run_op: "committed (run_op e op db) = committed db"
  by (cases op) simp_all

lemma committed_run_ops: "committed (fold (run_op e) ops db) = committed db"
  by (induction ops arbitrary: db) (simp_all add: committed_run_op)

lemma restore_committed: "committed db' = committed db \<Longrightarrow> sdb_restore db' (sdb_snapshot db) = db"
  by (simp add: committed_def sdb_restore_def sdb_snapshot_def)

text \<open>
  A snapshot taken before any sequence of balance, nonce, code, storage and delete operations brings the
  database back exactly: restoring it undoes all of them, and nothing committed was touched meanwhile.
\<close>

theorem snapshot_undoes:
  "sdb_restore (fold (run_op e) ops db) (sdb_snapshot db) = db"
  by (simp add: restore_committed committed_run_ops)

text \<open>
  Deleting an account hides its pending changes only: until the commit the committed balance is still
  visible and can be spent, and what the account receives after the deletion is lost by the commit.
\<close>

lemma deleted_account_still_visible:
  assumes "hm_get (sd_accounts db) a = Some acc"
  shows "sdb_get_account (delete_account db a) a = acc"
    and "u256_val v \<le> u256_val (ac_balance acc) \<Longrightarrow> snd (sub_balance (delete_account db a) a v)"
  using assms u256_checked_sub_iff [of "ac_balance acc" v]
  by (auto simp: delete_account_def sdb_get_account_def sub_balance_def Let_def split: option.split)

lemma hm_wf_set_account [simp]: "hm_wf (sd_pending_changes db) \<Longrightarrow> hm_wf (sd_pending_changes (set_account db a acc))"
  by (simp add: set_account_def)

lemma credit_after_delete_lost:
  assumes "hm_wf (sd_pending_changes db)"
  shows "sdb_get_account (sdb_commit e (add_balance (delete_account db a) a v)) a = AccountState_default"
  using assms by (simp add: commit_get add_balance_def Let_def delete_account_def set_account_def)

end
