(* ===== verification/EVM_Interpreter.thy ===== *)
theory EVM_Interpreter
  imports EVM_State
begin

section \<open>The EVM interpreter\<close>

text \<open>
  \<open>EvmInterpreter\<close> in \<open>pyrax-node/src/evm/executor.rs\<close>: the machine state, one definition per opcode group and
  the loop. The stack is a list with its top first (the source pushes at the end of a \<open>Vec\<close>). Offsets into
  memory are \<open>usize\<close> values of 64 bits, and their sums wrap; \<open>Vec::resize\<close> panics above \<open>isize::MAX\<close> bytes.
  Running out of memory below that bound is not modelled. A counter \<open>pc\<close> is at most \<open>33\<close> above the length of
  the code, so it is a natural number. Error strings are constructors. The loop is a partial function: \<open>None\<close>
  is a run that never returns.
\<close>

record TransactionContext =
  cx_block_number :: u64
  cx_block_timestamp :: u64
  cx_block_coinbase :: evm_address
  cx_block_gas_limit :: u64
  cx_block_difficulty :: u64
  cx_block_basefee :: u64
  cx_chain_id :: u64
  cx_prev_randao :: b256

definition TransactionContext_default :: TransactionContext where
  "TransactionContext_default =
     \<lparr>cx_block_number = 0, cx_block_timestamp = 0, cx_block_coinbase = replicate 20 0, cx_block_gas_limit = 30000000,
      cx_block_difficulty = 0, cx_block_basefee = 1000000000, cx_chain_id = 7777, cx_prev_randao = replicate 32 0\<rparr>"

record Log =
  lg_address :: evm_address
  lg_topics :: "b256 list"
  lg_data :: "u8 list"
  lg_block_number :: u64
  lg_transaction_hash :: b256
  lg_transaction_index :: u64
  lg_block_hash :: b256
  lg_log_index :: u64
  lg_removed :: bool

datatype evm_error =
    StackUnderflow
  | BadJump
  | OpUnderflow
  | OutOfGas
  | Reverted
  | InsufficientBalanceForGas
  | InvalidChainId u64 u64
  | InvalidNonce u64 u64
  | InsufficientBalance
  | GasLimitExceedsBlock
  | MaxFeeBelowBaseFee
  | InsufficientGas
  | InsufficientGasForCode
  | PrecompileFailed

record ExecutionResult =
  xr_success :: bool
  xr_gas_used :: u64
  xr_gas_refunded :: u64
  xr_output :: "u8 list"
  xr_logs :: "Log list"
  xr_contract_address :: "evm_address option"
  xr_revert_reason :: "evm_error option"

definition result_failed :: "evm_error \<Rightarrow> ExecutionResult" where
  "result_failed reason =
     \<lparr>xr_success = False, xr_gas_used = 0, xr_gas_refunded = 0, xr_output = [], xr_logs = [],
      xr_contract_address = None, xr_revert_reason = Some reason\<rparr>"

definition success_transfer :: "u64 \<Rightarrow> ExecutionResult" where
  "success_transfer gas_used =
     \<lparr>xr_success = True, xr_gas_used = gas_used, xr_gas_refunded = 0, xr_output = [], xr_logs = [],
      xr_contract_address = None, xr_revert_reason = None\<rparr>"

record EvmInterpreter =
  vm_code :: "u8 list"
  vm_input :: "u8 list"
  vm_caller :: evm_address
  vm_address :: evm_address
  vm_value :: u256
  vm_gas_limit :: u64
  vm_gas_used :: u64
  vm_ctx :: TransactionContext
  vm_stack :: "u256 list"
  vm_memory :: "u8 list"
  vm_pc :: nat
  vm_return_data :: "u8 list"
  vm_logs :: "Log list"
  vm_stopped :: bool
  vm_reverted :: bool

definition EvmInterpreter_new ::
  "u8 list \<Rightarrow> u8 list \<Rightarrow> evm_address \<Rightarrow> evm_address \<Rightarrow> u256 \<Rightarrow> u64 \<Rightarrow> TransactionContext \<Rightarrow> EvmInterpreter" where
  "EvmInterpreter_new code input caller address value gas_limit ctx =
     \<lparr>vm_code = code, vm_input = input, vm_caller = caller, vm_address = address, vm_value = value,
      vm_gas_limit = gas_limit, vm_gas_used = 0, vm_ctx = ctx, vm_stack = [], vm_memory = [], vm_pc = 0,
      vm_return_data = [], vm_logs = [], vm_stopped = False, vm_reverted = False\<rparr>"

text \<open>How an opcode ends: it goes on with a machine and a state, returns an error, or panics.\<close>

datatype outcome = Next EvmInterpreter StateDB | Error evm_error | Panic

subsection \<open>Stack and memory\<close>

definition opcode_gas :: "u8 \<Rightarrow> u64" where
  "opcode_gas op = (if op = 0x54 then 100 else if op = 0x55 then 5000 else 3)"

definition vm_push :: "u256 \<Rightarrow> EvmInterpreter \<Rightarrow> EvmInterpreter" where
  "vm_push v vm = (if length (vm_stack vm) < 1024 then vm\<lparr>vm_stack := v # vm_stack vm\<rparr> else vm)"

definition with_pop :: "EvmInterpreter \<Rightarrow> (u256 \<Rightarrow> EvmInterpreter \<Rightarrow> outcome) \<Rightarrow> outcome" where
  "with_pop vm f = (case vm_stack vm of [] \<Rightarrow> Error StackUnderflow | v # rest \<Rightarrow> f v (vm\<lparr>vm_stack := rest\<rparr>))"

definition vec_resize :: "nat \<Rightarrow> u8 list \<Rightarrow> u8 list" where
  "vec_resize n xs = take n xs @ replicate (n - length xs) 0"

definition with_memory :: "u64 \<Rightarrow> EvmInterpreter \<Rightarrow> (EvmInterpreter \<Rightarrow> outcome) \<Rightarrow> outcome" where
  "with_memory sz vm f =
     (if unat sz > length (vm_memory vm)
      then let n = unat (((sz + 31) div 32) * 32)
           in if n > length (vm_memory vm) \<and> n \<ge> 2 ^ 63 then Panic else f (vm\<lparr>vm_memory := vec_resize n (vm_memory vm)\<rparr>)
      else f vm)"

definition read_byte :: "u8 list \<Rightarrow> u64 \<Rightarrow> u8" where
  "read_byte mem i = (if unat i < length mem then mem ! unat i else 0)"

definition write_byte :: "u64 \<times> u8 \<Rightarrow> u8 list \<Rightarrow> u8 list" where
  "write_byte = (\<lambda>(i, b) mem. if unat i < length mem then mem[unat i := b] else mem)"

definition memory_slice :: "u8 list \<Rightarrow> u64 \<Rightarrow> u64 \<Rightarrow> u8 list" where
  "memory_slice mem start stop =
     (if start \<le> stop \<and> unat stop \<le> length mem then take (unat stop - unat start) (drop (unat start) mem) else [])"

definition push_word :: "u8 list \<Rightarrow> nat \<Rightarrow> nat \<Rightarrow> u256" where
  "push_word code pc n =
     u256_from_be_bytes (replicate (32 - n) 0 @ map (\<lambda>i. if pc + i < length code then code ! (pc + i) else 0) [0 ..< n])"

definition u256_of_bool :: "bool \<Rightarrow> u256" where
  "u256_of_bool b = (if b then U256_ONE else U256_ZERO)"

definition address_word :: "evm_address \<Rightarrow> u256" where
  "address_word a = u256_from_be_bytes (replicate 12 0 @ a)"

subsection \<open>Opcodes\<close>

definition op_binary :: "(u256 \<Rightarrow> u256 \<Rightarrow> u256) \<Rightarrow> EvmInterpreter \<Rightarrow> StateDB \<Rightarrow> outcome" where
  "op_binary f vm db = with_pop vm (\<lambda>a vm. with_pop vm (\<lambda>b vm. Next (vm_push (f a b) vm) db))"

definition op_iszero :: "EvmInterpreter \<Rightarrow> StateDB \<Rightarrow> outcome" where
  "op_iszero vm db = with_pop vm (\<lambda>a vm. Next (vm_push (u256_of_bool (u256_is_zero a)) vm) db)"

definition op_mload :: "EvmInterpreter \<Rightarrow> StateDB \<Rightarrow> outcome" where
  "op_mload vm db =
     with_pop vm (\<lambda>a vm. let off = low_u64 a in
       with_memory (off + 32) vm (\<lambda>vm.
         Next (vm_push (u256_from_be_bytes (map (\<lambda>i. read_byte (vm_memory vm) (off + of_nat i)) [0 ..< 32])) vm) db))"

definition op_mstore :: "EvmInterpreter \<Rightarrow> StateDB \<Rightarrow> outcome" where
  "op_mstore vm db =
     with_pop vm (\<lambda>a vm. with_pop vm (\<lambda>v vm. let off = low_u64 a in
       with_memory (off + 32) vm (\<lambda>vm.
         Next (vm\<lparr>vm_memory := fold write_byte (zip (map (\<lambda>i. off + of_nat i) [0 ..< 32]) (u256_to_be_bytes v)) (vm_memory vm)\<rparr>) db)))"

definition op_sload :: "EvmInterpreter \<Rightarrow> StateDB \<Rightarrow> outcome" where
  "op_sload vm db =
     with_pop vm (\<lambda>a vm. Next (vm_push (sdb_get_storage db (vm_address vm) (u256_to_be_bytes a)) vm) db)"

definition op_sstore :: "EvmInterpreter \<Rightarrow> StateDB \<Rightarrow> outcome" where
  "op_sstore vm db =
     with_pop vm (\<lambda>a vm. with_pop vm (\<lambda>v vm. Next vm (sdb_set_storage db (vm_address vm) (u256_to_be_bytes a) v)))"

definition jump_to :: "u64 \<Rightarrow> EvmInterpreter \<Rightarrow> StateDB \<Rightarrow> outcome" where
  "jump_to d vm db =
     (if unat d < length (vm_code vm) \<and> vm_code vm ! unat d = 0x5B then Next (vm\<lparr>vm_pc := unat d + 1\<rparr>) db else Error BadJump)"

definition op_jump :: "EvmInterpreter \<Rightarrow> StateDB \<Rightarrow> outcome" where
  "op_jump vm db = with_pop vm (\<lambda>a vm. jump_to (low_u64 a) vm db)"

definition op_jumpi :: "EvmInterpreter \<Rightarrow> StateDB \<Rightarrow> outcome" where
  "op_jumpi vm db =
     with_pop vm (\<lambda>a vm. with_pop vm (\<lambda>c vm. if \<not> u256_is_zero c then jump_to (low_u64 a) vm db else Next vm db))"

definition op_push :: "nat \<Rightarrow> EvmInterpreter \<Rightarrow> StateDB \<Rightarrow> outcome" where
  "op_push n vm db =
     (let vm = vm_push (push_word (vm_code vm) (vm_pc vm) n) vm in Next (vm\<lparr>vm_pc := vm_pc vm + n\<rparr>) db)"

definition op_dup :: "nat \<Rightarrow> EvmInterpreter \<Rightarrow> StateDB \<Rightarrow> outcome" where
  "op_dup n vm db =
     (if length (vm_stack vm) < n then Error OpUnderflow else Next (vm_push (vm_stack vm ! (n - 1)) vm) db)"

definition op_swap :: "nat \<Rightarrow> EvmInterpreter \<Rightarrow> StateDB \<Rightarrow> outcome" where
  "op_swap n vm db =
     (if length (vm_stack vm) \<le> n then Error OpUnderflow
      else Next (vm\<lparr>vm_stack := (vm_stack vm)[0 := vm_stack vm ! n, n := vm_stack vm ! 0]\<rparr>) db)"

definition op_return :: "bool \<Rightarrow> EvmInterpreter \<Rightarrow> StateDB \<Rightarrow> outcome" where
  "op_return revert vm db =
     with_pop vm (\<lambda>a vm. with_pop vm (\<lambda>b vm. let off = low_u64 a; sz = low_u64 b in
       with_memory (off + sz) vm (\<lambda>vm.
         Next (vm\<lparr>vm_return_data := memory_slice (vm_memory vm) off (off + sz), vm_stopped := True,
                  vm_reverted := revert \<or> vm_reverted vm\<rparr>) db)))"

definition execute_opcode :: "u8 \<Rightarrow> EvmInterpreter \<Rightarrow> StateDB \<Rightarrow> outcome" where
  "execute_opcode opcode vm0 db =
     (let vm = vm0\<lparr>vm_gas_used := vm_gas_used vm0 + opcode_gas opcode\<rparr> in
      if opcode = 0x00 then Next (vm\<lparr>vm_stopped := True\<rparr>) db
      else if opcode = 0x01 then op_binary u256_saturating_add vm db
      else if opcode = 0x02 then op_binary (\<lambda>a b. unwrap_or U256_ZERO (u256_checked_mul a b)) vm db
      else if opcode = 0x03 then op_binary u256_saturating_sub vm db
      else if opcode = 0x14 then op_binary (\<lambda>a b. u256_of_bool (a = b)) vm db
      else if opcode = 0x15 then op_iszero vm db
      else if opcode = 0x30 then Next (vm_push (address_word (vm_address vm)) vm) db
      else if opcode = 0x33 then Next (vm_push (address_word (vm_caller vm)) vm) db
      else if opcode = 0x34 then Next (vm_push (vm_value vm) vm) db
      else if opcode = 0x36 then Next (vm_push (u256_from_u64 (of_nat (length (vm_input vm)))) vm) db
      else if opcode = 0x38 then Next (vm_push (u256_from_u64 (of_nat (length (vm_code vm)))) vm) db
      else if opcode = 0x43 then Next (vm_push (u256_from_u64 (cx_block_number (vm_ctx vm))) vm) db
      else if opcode = 0x46 then Next (vm_push (u256_from_u64 (cx_chain_id (vm_ctx vm))) vm) db
      else if opcode = 0x50 then with_pop vm (\<lambda>_ vm. Next vm db)
      else if opcode = 0x51 then op_mload vm db
      else if opcode = 0x52 then op_mstore vm db
      else if opcode = 0x54 then op_sload vm db
      else if opcode = 0x55 then op_sstore vm db
      else if opcode = 0x56 then op_jump vm db
      else if opcode = 0x57 then op_jumpi vm db
      else if opcode = 0x5B then Next vm db
      else if opcode = 0x5A then Next (vm_push (u256_from_u64 (saturating_sub (vm_gas_limit vm) (vm_gas_used vm))) vm) db
      else if 0x60 \<le> opcode \<and> opcode \<le> 0x7F then op_push (unat (opcode - 0x5F)) vm db
      else if 0x80 \<le> opcode \<and> opcode \<le> 0x8F then op_dup (unat (opcode - 0x7F)) vm db
      else if 0x90 \<le> opcode \<and> opcode \<le> 0x9F then op_swap (unat (opcode - 0x8F)) vm db
      else if opcode = 0xF3 then op_return False vm db
      else if opcode = 0xFD then op_return True vm db
      else Next vm db)"

subsection \<open>The loop\<close>

datatype run_end = Returned ExecutionResult | Panicked

definition run_result :: "EvmInterpreter \<Rightarrow> ExecutionResult" where
  "run_result vm =
     (if vm_reverted vm
      then \<lparr>xr_success = False, xr_gas_used = vm_gas_used vm, xr_gas_refunded = 0, xr_output = vm_return_data vm,
            xr_logs = [], xr_contract_address = None, xr_revert_reason = Some Reverted\<rparr>
      else \<lparr>xr_success = True, xr_gas_used = vm_gas_used vm, xr_gas_refunded = 0, xr_output = vm_return_data vm,
            xr_logs = vm_logs vm, xr_contract_address = None, xr_revert_reason = None\<rparr>)"

partial_function (option) execute :: "EvmInterpreter \<Rightarrow> StateDB \<Rightarrow> (run_end \<times> StateDB) option" where
  "execute vm db =
     (if \<not> vm_stopped vm \<and> vm_pc vm < length (vm_code vm)
      then if vm_gas_limit vm \<le> vm_gas_used vm then Some (Returned (result_failed OutOfGas), db)
           else let opcode = vm_code vm ! vm_pc vm in
             case execute_opcode opcode (vm\<lparr>vm_pc := vm_pc vm + 1\<rparr>) db of
               Error e \<Rightarrow> Some (Returned (result_failed e), db)
             | Panic \<Rightarrow> Some (Panicked, db)
             | Next vm' db' \<Rightarrow> execute vm' db'
      else Some (Returned (run_result vm), db))"

subsection \<open>What one opcode can change\<close>

text \<open>
  An opcode keeps the code, the address and the gas limit, adds its own gas, keeps the stack within 1024
  words, and changes at most one storage word of the contract that runs.
\<close>

definition frame :: "EvmInterpreter \<Rightarrow> u8 list \<times> evm_address \<times> u64 \<times> u64" where
  "frame vm = (vm_code vm, vm_address vm, vm_gas_limit vm, vm_gas_used vm)"

definition stored :: "evm_address \<Rightarrow> StateDB \<Rightarrow> StateDB \<Rightarrow> bool" where
  "stored a db db' = (db' = db \<or> (\<exists>k v. db' = sdb_set_storage db a k v))"

definition keeps :: "EvmInterpreter \<Rightarrow> StateDB \<Rightarrow> outcome \<Rightarrow> bool" where
  "keeps vm db out =
     (case out of
        Next vm' db' \<Rightarrow>
          frame vm' = frame vm \<and> stored (vm_address vm) db db' \<and> (length (vm_stack vm) \<le> 1024 \<longrightarrow> length (vm_stack vm') \<le> 1024)
      | Error e \<Rightarrow> True
      | Panic \<Rightarrow> True)"

lemma keeps_simps [simp]:
  "keeps vm db (Error e)" "keeps vm db Panic"
  "keeps vm db (Next vm' db) \<longleftrightarrow> frame vm' = frame vm \<and> (length (vm_stack vm) \<le> 1024 \<longrightarrow> length (vm_stack vm') \<le> 1024)"
  "keeps vm db (Next vm' (sdb_set_storage db (vm_address vm) k v)) \<longleftrightarrow>
     frame vm' = frame vm \<and> (length (vm_stack vm) \<le> 1024 \<longrightarrow> length (vm_stack vm') \<le> 1024)"
  by (auto simp: keeps_def stored_def)

lemma frame_simps [simp]:
  "frame (vm\<lparr>vm_stack := st\<rparr>) = frame vm" "frame (vm\<lparr>vm_memory := mem\<rparr>) = frame vm" "frame (vm\<lparr>vm_pc := pc\<rparr>) = frame vm"
  "frame (vm\<lparr>vm_stopped := b\<rparr>) = frame vm" "frame (vm\<lparr>vm_return_data := r\<rparr>) = frame vm" "frame (vm\<lparr>vm_reverted := b\<rparr>) = frame vm"
  "frame (vm_push v vm) = frame vm"
  by (simp_all add: frame_def vm_push_def)

lemma length_push: "length (vm_stack vm) \<le> 1024 \<Longrightarrow> length (vm_stack (vm_push v vm)) \<le> 1024"
  by (simp add: vm_push_def)

lemma keeps_push [simp]: "keeps vm db (Next (vm_push v vm) db)"
  by (simp add: length_push)

lemma keeps_pop:
  assumes "\<And>v rest. vm_stack vm = v # rest \<Longrightarrow> keeps (vm\<lparr>vm_stack := rest\<rparr>) db (f v (vm\<lparr>vm_stack := rest\<rparr>))"
  shows "keeps vm db (with_pop vm f)"
proof (cases "vm_stack vm")
  case (Cons v rest)
  then show ?thesis using assms [OF Cons] by (auto simp: with_pop_def keeps_def frame_def split: outcome.split)
qed (simp add: with_pop_def)

lemma keeps_memory:
  assumes "\<And>mem. keeps (vm\<lparr>vm_memory := mem\<rparr>) db (f (vm\<lparr>vm_memory := mem\<rparr>))"
  shows "keeps vm db (with_memory sz vm f)"
proof -
  have "keeps vm db (f (vm\<lparr>vm_memory := mem\<rparr>))" for mem
    using assms [of mem] by (auto simp: keeps_def frame_def split: outcome.split)
  from this this [of "vm_memory vm"] show ?thesis by (simp add: with_memory_def Let_def)
qed

lemma keeps_jump [simp]: "keeps vm db (jump_to d vm db)"
  by (simp add: jump_to_def)

lemma keeps_store [simp]: "keeps vm db (Next vm (sdb_set_storage db (vm_address vm) k v))"
  by simp

lemma keeps_ops:
  "keeps vm db (op_binary g vm db)" "keeps vm db (op_iszero vm db)" "keeps vm db (op_mload vm db)"
  "keeps vm db (op_mstore vm db)" "keeps vm db (op_sload vm db)" "keeps vm db (op_sstore vm db)"
  "keeps vm db (op_jump vm db)" "keeps vm db (op_jumpi vm db)" "keeps vm db (op_return b vm db)"
  "keeps vm db (with_pop vm (\<lambda>_ vm. Next vm db))"
  unfolding op_binary_def op_iszero_def op_mload_def op_mstore_def op_sload_def op_sstore_def op_jump_def op_jumpi_def op_return_def Let_def
  by (intro keeps_pop keeps_memory keeps_push keeps_jump keeps_store; simp)+

lemma keeps_stack_ops:
  "keeps vm db (op_push n vm db)" "keeps vm db (op_dup n vm db)" "keeps vm db (op_swap n vm db)"
  by (simp_all add: op_push_def op_dup_def op_swap_def length_push Let_def)

lemma keeps_if: "keeps vm db x \<Longrightarrow> keeps vm db y \<Longrightarrow> keeps vm db (if c then x else y)"
  by simp

lemma execute_opcode_keeps:
  "keeps (vm\<lparr>vm_gas_used := vm_gas_used vm + opcode_gas opcode\<rparr>) db (execute_opcode opcode vm db)"
  unfolding execute_opcode_def Let_def
  by (intro keeps_if keeps_ops keeps_stack_ops keeps_push) simp_all

lemma execute_opcode_Next:
  assumes "execute_opcode opcode (vm\<lparr>vm_pc := pc\<rparr>) db = Next vm' db'"
  shows "vm_code vm' = vm_code vm" "vm_address vm' = vm_address vm" "vm_gas_limit vm' = vm_gas_limit vm"
    "vm_gas_used vm' = vm_gas_used vm + opcode_gas opcode" "stored (vm_address vm) db db'"
    "length (vm_stack vm) \<le> 1024 \<Longrightarrow> length (vm_stack vm') \<le> 1024"
  using execute_opcode_keeps [of "vm\<lparr>vm_pc := pc\<rparr>" opcode db] by (simp_all add: assms keeps_def frame_def)

subsection \<open>Runs\<close>

lemma opcode_gas_bounds: "3 \<le> unat (opcode_gas op)" "unat (opcode_gas op) \<le> 5000"
  by (simp_all add: opcode_gas_def)

lemma gas_step:
  assumes "used < limit" "unat limit + 5000 < 2 ^ 64"
  shows "unat (used + opcode_gas op) = unat used + unat (opcode_gas op)"
proof -
  have "unat used < unat limit" using assms(1) by (simp add: word_less_nat_alt)
  with assms(2) opcode_gas_bounds(2) [of op] show ?thesis by (intro unat_add_exact) simp
qed

text \<open>
  C19. Every run of the interpreter returns when the gas limit is at least 5000 below the largest \<open>u64\<close>: each
  opcode adds at least three units of gas without wrapping around, loops of jumps included. Block gas limits
  are far below that bound.
\<close>

theorem interpreter_terminates:
  assumes "unat (vm_gas_limit vm) + 5000 < 2 ^ 64"
  shows "\<exists>r. execute vm db = Some r"
  using assms
proof (induction "unat (vm_gas_limit vm) - unat (vm_gas_used vm)" arbitrary: vm db rule: less_induct)
  case less
  show ?case
  proof (cases "\<not> vm_stopped vm \<and> vm_pc vm < length (vm_code vm) \<and> vm_gas_used vm < vm_gas_limit vm")
    case True
    show ?thesis
    proof (cases "execute_opcode (vm_code vm ! vm_pc vm) (vm\<lparr>vm_pc := vm_pc vm + 1\<rparr>) db")
      case (Next vm' db')
      note step = execute_opcode_Next [OF Next]
      have "unat (vm_gas_used vm) < unat (vm_gas_limit vm)" using True by (simp add: word_less_nat_alt)
      moreover have "unat (vm_gas_used vm) < unat (vm_gas_used vm')"
        using gas_step [of "vm_gas_used vm" "vm_gas_limit vm"] True less.prems opcode_gas_bounds(1) [of "vm_code vm ! vm_pc vm"]
        by (simp add: step)
      ultimately have "\<exists>r. execute vm' db' = Some r" using less.prems by (intro less.hyps) (simp_all add: step)
      then show ?thesis using True Next by (subst execute.simps) (simp add: linorder_not_le)
    qed (use True in \<open>subst execute.simps, simp add: linorder_not_le\<close>)+
  qed (subst execute.simps, auto simp: linorder_not_less)
qed

lemma execute_induct [consumes 1, case_names Done OutOfGas Error Panic Step]:
  assumes "execute vm db = Some y"
    and Done: "\<And>vm db. P vm db (Returned (run_result vm), db)"
    and OutOfGas: "\<And>vm db. P vm db (Returned (result_failed OutOfGas), db)"
    and Error: "\<And>vm db e. P vm db (Returned (result_failed e), db)"
    and Panic: "\<And>vm db. P vm db (Panicked, db)"
    and Step: "\<And>vm db vm' db' y. vm_gas_used vm < vm_gas_limit vm \<Longrightarrow>
      execute_opcode (vm_code vm ! vm_pc vm) (vm\<lparr>vm_pc := vm_pc vm + 1\<rparr>) db = Next vm' db' \<Longrightarrow> P vm' db' y \<Longrightarrow> P vm db y"
  shows "P vm db y"
proof (rule execute.raw_induct [of P, OF _ assms(1)])
  fix execute vm db y
  assume IH: "\<And>vm db y. execute vm db = Some y \<Longrightarrow> P vm db y"
    and body: "(if \<not> vm_stopped vm \<and> vm_pc vm < length (vm_code vm)
      then if vm_gas_limit vm \<le> vm_gas_used vm then Some (Returned (result_failed OutOfGas), db)
           else let opcode = vm_code vm ! vm_pc vm in
             case execute_opcode opcode (vm\<lparr>vm_pc := vm_pc vm + 1\<rparr>) db of
               Next vm' db' \<Rightarrow> execute vm' db' | Error e \<Rightarrow> Some (Returned (result_failed e), db) | Panic \<Rightarrow> Some (Panicked, db)
      else Some (Returned (run_result vm), db)) = Some y"
  show "P vm db y"
    using body Done [of vm db] OutOfGas [of vm db] Error [of vm db] Panic [of vm db] IH Step [of vm db]
    by (cases "execute_opcode (vm_code vm ! vm_pc vm) (vm\<lparr>vm_pc := vm_pc vm + 1\<rparr>) db")
      (auto simp: Let_def linorder_not_le split: if_splits)
qed

definition storage_only :: "evm_address \<Rightarrow> StateDB \<Rightarrow> StateDB \<Rightarrow> bool" where
  "storage_only a db db' =
     (committed db' = committed db \<and> sd_deleted_accounts db' = sd_deleted_accounts db
      \<and> (\<forall>b. (sdb_get_account db' b)\<lparr>ac_storage := []\<rparr> = (sdb_get_account db b)\<lparr>ac_storage := []\<rparr>)
      \<and> (\<forall>b. b \<noteq> a \<longrightarrow> sdb_get_account db' b = sdb_get_account db b))"

lemma storage_only_refl [simp]: "storage_only a db db"
  by (simp add: storage_only_def)

lemma storage_only_trans: "storage_only a db db' \<Longrightarrow> storage_only a db' db'' \<Longrightarrow> storage_only a db db''"
  by (simp add: storage_only_def)

lemma stored_storage_only: "stored a db db' \<Longrightarrow> storage_only a db db'"
  by (auto simp: stored_def storage_only_def sdb_set_storage_def account_set_storage_def Let_def)
    (simp add: set_account_def)

lemma execute_storage_only:
  "execute vm db = Some y \<Longrightarrow> storage_only (vm_address vm) db (snd y)"
proof (induction rule: execute_induct)
  case (Step vm db vm' db' y)
  then show ?case
    using execute_opcode_Next(2,5) [OF Step(2)] by (auto intro: storage_only_trans stored_storage_only)
qed simp_all

text \<open>
  C20. A contract can change nothing but its own storage: after any run, however it ends, every account has the
  balance, nonce and code it had, the storage of every other account is untouched, and nothing was committed
  or deleted.
\<close>

theorem interpreter_changes_storage_only:
  assumes "execute vm db = Some (r, db')"
  shows "storage_only (vm_address vm) db db'"
  using execute_storage_only [OF assms] by simp

lemma run_result_gas [simp]: "xr_gas_used (run_result vm) = vm_gas_used vm" "xr_gas_used (result_failed e) = 0"
  by (simp_all add: run_result_def result_failed_def)

definition gas_end :: "run_end \<Rightarrow> u64" where
  "gas_end x = (case x of Returned r \<Rightarrow> xr_gas_used r | Panicked \<Rightarrow> 0)"

lemma gas_end_simps [simp]: "gas_end (Returned r) = xr_gas_used r" "gas_end Panicked = 0"
  by (simp_all add: gas_end_def)

lemma interpreter_gas:
  assumes "execute vm db = Some y" "unat (vm_gas_limit vm) + 5000 < 2 ^ 64"
    and "unat (vm_gas_used vm) \<le> unat (vm_gas_limit vm) + 4999"
  shows "unat (gas_end (fst y)) \<le> unat (vm_gas_limit vm) + 4999"
  using assms
proof (induction rule: execute_induct)
  case (Step vm db vm' db' y)
  note step = execute_opcode_Next [OF Step(2)]
  have "unat (vm_gas_used vm) < unat (vm_gas_limit vm)" using Step(1) by (simp add: word_less_nat_alt)
  then have "unat (vm_gas_used vm') \<le> unat (vm_gas_limit vm') + 4999"
    using gas_step [OF Step(1) Step(4), of "vm_code vm ! vm_pc vm"] opcode_gas_bounds(2) [of "vm_code vm ! vm_pc vm"]
    by (simp add: step)
  from Step(3) [OF _ this] Step(4) show ?case by (simp add: step)
qed simp_all

text \<open>
  The interpreter checks the gas before an opcode and never after: a run reports at most 4999 units above
  its limit. The bound is reached within three opcodes: the witness runs a contract that stores one word under
  a limit of seven and succeeds, having used 5006.
\<close>

theorem interpreter_gas_overrun:
  assumes "execute (EvmInterpreter_new code input caller address v limit ctx) db = Some (Returned r, db')"
    and "unat limit + 5000 < 2 ^ 64"
  shows "unat (xr_gas_used r) \<le> unat limit + 4999"
  using interpreter_gas [OF assms(1)] assms(2) by (simp add: EvmInterpreter_new_def)

subsection \<open>Well-formed machines\<close>

text \<open>
  The states a run goes through: the stack has at most 1024 words, the memory is a whole number of 32-byte words
  below \<open>isize::MAX\<close>, the counter is at most one instruction past the code, and a machine that reverted has
  stopped.
\<close>

definition vm_fits :: "nat \<Rightarrow> EvmInterpreter \<Rightarrow> bool" where
  "vm_fits slack vm =
     (length (vm_stack vm) \<le> 1024 \<and> 32 dvd length (vm_memory vm) \<and> length (vm_memory vm) < 2 ^ 63
      \<and> vm_pc vm \<le> length (vm_code vm) + slack \<and> (vm_reverted vm \<longrightarrow> vm_stopped vm))"

definition outcome_fits :: "outcome \<Rightarrow> bool" where
  "outcome_fits out = (case out of Next vm db \<Rightarrow> vm_fits 32 vm | Error e \<Rightarrow> True | Panic \<Rightarrow> True)"

lemma outcome_fits_simps [simp]:
  "outcome_fits (Next vm db) = vm_fits 32 vm" "outcome_fits (Error e)" "outcome_fits Panic"
  by (simp_all add: outcome_fits_def)

lemma vm_fits_weaken: "vm_fits 0 vm \<Longrightarrow> vm_fits 32 vm"
  by (simp add: vm_fits_def)

lemma vm_fits_push [simp]: "vm_fits n vm \<Longrightarrow> vm_fits n (vm_push v vm)"
  by (simp add: vm_fits_def vm_push_def)

lemma fits_pop:
  assumes "vm_fits 0 vm" "\<And>v vm'. vm_fits 0 vm' \<Longrightarrow> outcome_fits (f v vm')"
  shows "outcome_fits (with_pop vm f)"
  using assms by (auto simp: with_pop_def vm_fits_def split: list.split)

lemma word_multiple: "unat (x div 32 * 32) = unat x div 32 * 32" for x :: u64
proof -
  have "unat x div 32 * 32 < 2 ^ 64" using unat_less_power [of x] by (simp add: order_le_less_trans [OF div_times_less_eq_dividend])
  then show ?thesis by (simp add: unat_word_ariths unat_div)
qed

lemma fits_memory:
  assumes "vm_fits 0 vm" "\<And>vm'. vm_fits 0 vm' \<Longrightarrow> outcome_fits (f vm')"
  shows "outcome_fits (with_memory sz vm f)"
proof -
  let ?n = "unat ((sz + 31) div 32 * 32)"
  have len: "length (vec_resize n xs) = n" for n xs by (simp add: vec_resize_def)
  have "vm_fits 0 (vm\<lparr>vm_memory := vec_resize ?n (vm_memory vm)\<rparr>)" if "\<not> (?n > length (vm_memory vm) \<and> ?n \<ge> 2 ^ 63)"
    using that assms(1) by (auto simp: vm_fits_def len word_multiple)
  then show ?thesis using assms by (simp add: with_memory_def Let_def)
qed

lemma fits_jump: "vm_fits 0 vm \<Longrightarrow> outcome_fits (jump_to d vm db)"
  by (simp add: jump_to_def vm_fits_def)

lemma fits_next: "vm_fits 0 vm \<Longrightarrow> outcome_fits (Next (vm_push v vm) db)" "vm_fits 0 vm \<Longrightarrow> outcome_fits (Next vm db)"
  by (simp_all add: vm_fits_weaken)

lemma length_writes: "length (fold write_byte ps mem) = length mem"
  by (induction ps arbitrary: mem) (auto simp: write_byte_def split: prod.split)

lemma fits_store: "vm_fits 0 vm \<Longrightarrow> outcome_fits (Next (vm\<lparr>vm_memory := fold write_byte ps (vm_memory vm)\<rparr>) db)"
  by (simp add: vm_fits_def length_writes)

lemma fits_return:
  "vm_fits 0 vm \<Longrightarrow> outcome_fits (Next (vm\<lparr>vm_return_data := r, vm_stopped := True, vm_reverted := b\<rparr>) db)"
  by (simp add: vm_fits_def)

lemma fits_ops:
  assumes "vm_fits 0 vm"
  shows "outcome_fits (op_binary g vm db)" "outcome_fits (op_iszero vm db)" "outcome_fits (op_mload vm db)"
    "outcome_fits (op_mstore vm db)" "outcome_fits (op_sload vm db)" "outcome_fits (op_sstore vm db)"
    "outcome_fits (op_jump vm db)" "outcome_fits (op_return b vm db)" "outcome_fits (with_pop vm (\<lambda>_ vm. Next vm db))"
  unfolding op_binary_def op_iszero_def op_mload_def op_mstore_def op_sload_def op_sstore_def op_jump_def op_return_def Let_def
  by (intro fits_pop [OF assms] fits_pop fits_memory fits_jump fits_store fits_return fits_next; assumption)+

lemma fits_jumpi:
  assumes "vm_fits 0 vm" shows "outcome_fits (op_jumpi vm db)"
  unfolding op_jumpi_def
proof (intro fits_pop [OF assms] fits_pop)
  show "outcome_fits (if \<not> u256_is_zero c then jump_to (low_u64 a) vm db else Next vm db)" if "vm_fits 0 vm" for a c vm
    using fits_jump [OF that] fits_next(2) [OF that] by simp
qed

lemma fits_stack_ops:
  assumes "vm_fits 0 vm"
  shows "n \<le> 32 \<Longrightarrow> outcome_fits (op_push n vm db)" "outcome_fits (op_dup n vm db)" "outcome_fits (op_swap n vm db)"
  using assms by (auto simp: op_push_def op_dup_def op_swap_def Let_def vm_fits_weaken) (auto simp: vm_fits_def vm_push_def)

lemma fits_if: "outcome_fits x \<Longrightarrow> outcome_fits y \<Longrightarrow> outcome_fits (if c then x else y)"
  by simp

lemma push_width: "(0x60 :: u8) \<le> op \<and> op \<le> 0x7F \<Longrightarrow> unat (op - 0x5F) \<le> 32"
proof -
  assume "(0x60 :: u8) \<le> op \<and> op \<le> 0x7F"
  then have "0x60 \<le> unat op" "unat op \<le> 0x7F" by (simp_all add: word_le_nat_alt)
  then show ?thesis by (simp add: unat_sub word_le_nat_alt)
qed

lemma fits_push: "vm_fits 0 vm \<Longrightarrow> outcome_fits y \<Longrightarrow>
    outcome_fits (if 0x60 \<le> op \<and> op \<le> (0x7F :: u8) then op_push (unat (op - 0x5F)) vm db else y)"
  using fits_stack_ops(1) [of vm "unat (op - 0x5F)" db] push_width [of op] by auto

lemma execute_opcode_fits:
  assumes "vm_fits 0 vm" "\<not> vm_reverted vm"
  shows "outcome_fits (execute_opcode opcode vm db)"
proof -
  let ?vm = "vm\<lparr>vm_gas_used := vm_gas_used vm + opcode_gas opcode\<rparr>"
  have fits: "vm_fits 0 ?vm" "outcome_fits (Next (?vm\<lparr>vm_stopped := True\<rparr>) db)" using assms(1) by (simp_all add: vm_fits_def)
  show ?thesis
    unfolding execute_opcode_def Let_def
    by (intro fits_push fits_if fits(2) fits_ops [OF fits(1)] fits_jumpi [OF fits(1)] fits_stack_ops(2,3) [OF fits(1)] fits_next [OF fits(1)] fits(1))
qed

inductive vm_reaches :: "EvmInterpreter \<Rightarrow> StateDB \<Rightarrow> EvmInterpreter \<Rightarrow> StateDB \<Rightarrow> bool" where
  Start: "vm_reaches vm db vm db"
| Op: "vm_reaches vm db vm1 db1 \<Longrightarrow> \<not> vm_stopped vm1 \<Longrightarrow> vm_pc vm1 < length (vm_code vm1) \<Longrightarrow> vm_gas_used vm1 < vm_gas_limit vm1 \<Longrightarrow>
    execute_opcode (vm_code vm1 ! vm_pc vm1) (vm1\<lparr>vm_pc := vm_pc vm1 + 1\<rparr>) db1 = Next vm2 db2 \<Longrightarrow> vm_reaches vm db vm2 db2"

text \<open>
  C21. Every state a run goes through is well-formed: from the machine the executor builds, no sequence of opcodes
  grows the stack past 1024 words, leaves a memory that is not a whole number of words or exceeds the largest
  allocation, moves the counter more than 32 past the code, or reverts without stopping.
\<close>

theorem interpreter_well_formed:
  assumes "vm_reaches (EvmInterpreter_new code input caller address v limit ctx) db vm' db'"
  shows "vm_fits 32 vm'"
proof -
  have "vm_fits 32 vm'" if "vm_reaches vm db vm' db'" "vm_fits 32 vm" for vm
    using that
  proof induction
    case (Op vm db vm1 db1 vm2 db2)
    then have "vm_fits 32 vm1" by simp
    with Op(2,3) have "vm_fits 0 (vm1\<lparr>vm_pc := vm_pc vm1 + 1\<rparr>)" "\<not> vm_reverted vm1" by (auto simp: vm_fits_def)
    then show ?case using execute_opcode_fits [of "vm1\<lparr>vm_pc := vm_pc vm1 + 1\<rparr>" "vm_code vm1 ! vm_pc vm1" db1] Op(5) by simp
  qed simp
  from this [OF assms] show ?thesis by (simp add: vm_fits_def EvmInterpreter_new_def)
qed

definition store_code :: "u8 list" where
  "store_code = [0x60, 7, 0x60, 1, 0x55]"

definition store_vm :: EvmInterpreter where
  "store_vm = EvmInterpreter_new store_code [] [1] [2] U256_ZERO 7 TransactionContext_default"

lemma push_word_one:
  "push_word [0x60, 7, 0x60, 1, 0x55] (Suc 0) (Suc 0) = U256 7 0 0 0"
  "push_word [0x60, 7, 0x60, 1, 0x55] (Suc (Suc (Suc 0))) (Suc 0) = U256_ONE"
  by code_simp+

lemma store_run_any:
  "execute (EvmInterpreter_new store_code input caller address v 7 ctx) db =
     Some (Returned (success_transfer 5006), sdb_set_storage db address (u256_to_be_bytes U256_ONE) (U256 7 0 0 0))"
  by (simp add: store_code_def EvmInterpreter_new_def execute.simps execute_opcode_def Let_def op_push_def vm_push_def
      opcode_gas_def op_sstore_def with_pop_def push_word_one run_result_def success_transfer_def)

lemmas store_run = store_run_any [of "[]" "[1]" "[2]" U256_ZERO TransactionContext_default StateDB_new, folded store_vm_def]

theorem interpreter_gas_overrun_witness:
  "unat (xr_gas_used (success_transfer 5006)) \<le> unat (7 :: u64) + 4999 \<and> xr_success (success_transfer 5006)"
proof
  show "unat (xr_gas_used (success_transfer 5006)) \<le> unat (7 :: u64) + 4999"
    by (rule interpreter_gas_overrun [OF store_run [unfolded store_vm_def]]) simp
  show "xr_success (success_transfer 5006)" by (simp add: success_transfer_def)
qed

definition loop_vm :: EvmInterpreter where
  "loop_vm = EvmInterpreter_new [0x5B, 0x60, 0, 0x56] [] [1] [2] U256_ZERO 30000000 TransactionContext_default"

theorem interpreter_terminates_witness: "\<exists>r. execute loop_vm StateDB_new = Some r"
  by (rule interpreter_terminates) (simp add: loop_vm_def EvmInterpreter_new_def)

theorem interpreter_changes_storage_only_witness:
  "storage_only [2] StateDB_new (sdb_set_storage StateDB_new [2] (u256_to_be_bytes U256_ONE) (U256 7 0 0 0))"
  using interpreter_changes_storage_only [OF store_run] by (simp add: store_vm_def EvmInterpreter_new_def)

lemma store_reaches:
  "vm_reaches store_vm StateDB_new (vm_push (U256 7 0 0 0) (store_vm\<lparr>vm_gas_used := 3, vm_pc := 2\<rparr>)) StateDB_new"
proof (rule vm_reaches.Op [OF vm_reaches.Start])
  show "execute_opcode (vm_code store_vm ! vm_pc store_vm) (store_vm\<lparr>vm_pc := vm_pc store_vm + 1\<rparr>) StateDB_new =
      Next (vm_push (U256 7 0 0 0) (store_vm\<lparr>vm_gas_used := 3, vm_pc := 2\<rparr>)) StateDB_new"
    by (simp add: store_vm_def store_code_def EvmInterpreter_new_def execute_opcode_def Let_def op_push_def vm_push_def opcode_gas_def push_word_one)
qed (simp_all add: store_vm_def store_code_def EvmInterpreter_new_def)

theorem interpreter_well_formed_witness:
  "vm_fits 32 (vm_push (U256 7 0 0 0) (store_vm\<lparr>vm_gas_used := 3, vm_pc := 2\<rparr>))"
  by (rule interpreter_well_formed [OF store_reaches [unfolded store_vm_def], folded store_vm_def])

end
