(* ===== verification/EVM_Precompiles.thy ===== *)
theory EVM_Precompiles
  imports EVM_Types Hash_Map
begin

unbundle bit_operations_syntax

section \<open>Precompiled contracts\<close>

text \<open>
  \<open>pyrax-node/src/evm/precompiles.rs\<close>: the registry of precompiled contracts and each contract with its gas.
  The libraries they call (secp256k1 recovery, \<open>num-bigint\<close>, the curve BN254 of arkworks) are the fields of
  a record. A contract that panics is \<open>None\<close>: \<open>G1Affine::new\<close> and \<open>G2Affine::new\<close> assert that the point is on
  the curve. The compression function of BLAKE2b is the source's own and is translated round by round.
\<close>

record ('fq, 'fr, 'g1, 'g2) px =
  px_recover :: "u8 list \<Rightarrow> nat \<Rightarrow> u8 list \<Rightarrow> u8 list option"
  px_from_bytes_be :: "u8 list \<Rightarrow> nat"
  px_to_bytes_be :: "nat \<Rightarrow> u8 list"
  px_modpow :: "nat \<Rightarrow> nat \<Rightarrow> nat \<Rightarrow> nat"
  px_fq :: "u8 list \<Rightarrow> 'fq"
  px_fr :: "u8 list \<Rightarrow> 'fr"
  px_g1_identity :: 'g1
  px_g1_new :: "'fq \<Rightarrow> 'fq \<Rightarrow> 'g1 option"
  px_g1_valid :: "'g1 \<Rightarrow> bool"
  px_g1_is_zero :: "'g1 \<Rightarrow> bool"
  px_g1_x :: "'g1 \<Rightarrow> u8 list"
  px_g1_y :: "'g1 \<Rightarrow> u8 list"
  px_g1_add :: "'g1 \<Rightarrow> 'g1 \<Rightarrow> 'g1"
  px_g1_mul :: "'g1 \<Rightarrow> 'fr \<Rightarrow> 'g1"
  px_g2_identity :: 'g2
  px_g2_new :: "'fq \<times> 'fq \<Rightarrow> 'fq \<times> 'fq \<Rightarrow> 'g2 option"
  px_g2_valid :: "'g2 \<Rightarrow> bool"
  px_pairing_is_zero :: "'g1 list \<Rightarrow> 'g2 list \<Rightarrow> bool"

record PrecompileResult =
  pr_success :: bool
  pr_output :: "u8 list"
  pr_gas_used :: u64

definition precompile_success :: "u8 list \<Rightarrow> u64 \<Rightarrow> PrecompileResult" where
  "precompile_success out gas = \<lparr>pr_success = True, pr_output = out, pr_gas_used = gas\<rparr>"

definition precompile_error :: "u64 \<Rightarrow> PrecompileResult" where
  "precompile_error gas = \<lparr>pr_success = False, pr_output = [], pr_gas_used = gas\<rparr>"

subsection \<open>Hashes, signatures and numbers\<close>

definition ecrecover_inner :: "ext \<Rightarrow> ('fq, 'fr, 'g1, 'g2) px \<Rightarrow> u8 list \<Rightarrow> u64 \<Rightarrow> PrecompileResult" where
  "ecrecover_inner e px input gas_cost =
     (let hash = take 32 input; v = input ! 63; r = take 32 (drop 64 input); s = take 32 (drop 96 input);
          recovery_id = (if v = 27 \<or> v = 0 then Some 0 else if v = 28 \<or> v = 1 then Some 1 else None)
      in case recovery_id of
           None \<Rightarrow> precompile_success (replicate 32 0) gas_cost
         | Some rid \<Rightarrow>
             (case px_recover px hash rid (r @ s) of
                None \<Rightarrow> precompile_success (replicate 32 0) gas_cost
              | Some serialized \<Rightarrow>
                  precompile_success (replicate 12 0 @ drop 12 (ext_keccak256 e (drop 1 serialized))) gas_cost))"

definition ecrecover :: "ext \<Rightarrow> ('fq, 'fr, 'g1, 'g2) px \<Rightarrow> u8 list \<Rightarrow> u64 \<Rightarrow> PrecompileResult" where
  "ecrecover e px input gas_limit =
     (if gas_limit < 3000 then precompile_error gas_limit
      else if length input < 128 then ecrecover_inner e px (input @ replicate (128 - length input) 0) 3000
      else ecrecover_inner e px input 3000)"

definition input_words :: "u8 list \<Rightarrow> u64" where
  "input_words input = of_nat ((length input + 31) div 32)"

definition pc_sha256 :: "ext \<Rightarrow> u8 list \<Rightarrow> u64 \<Rightarrow> PrecompileResult" where
  "pc_sha256 e input gas_limit =
     (let gas_cost = 60 + 12 * input_words input
      in if gas_limit < gas_cost then precompile_error gas_limit else precompile_success (ext_sha256 e input) gas_cost)"

definition pc_ripemd160 :: "ext \<Rightarrow> u8 list \<Rightarrow> u64 \<Rightarrow> PrecompileResult" where
  "pc_ripemd160 e input gas_limit =
     (let gas_cost = 600 + 120 * input_words input
      in if gas_limit < gas_cost then precompile_error gas_limit
         else precompile_success (replicate 12 0 @ ext_ripemd160 e input) gas_cost)"

definition pc_identity :: "u8 list \<Rightarrow> u64 \<Rightarrow> PrecompileResult" where
  "pc_identity input gas_limit =
     (let gas_cost = 15 + 3 * input_words input
      in if gas_limit < gas_cost then precompile_error gas_limit else precompile_success input gas_cost)"

definition modexp_len :: "u8 list \<Rightarrow> nat \<Rightarrow> nat" where
  "modexp_len input i = unat (u64_from_be_bytes ([0, 0, 0, 0] @ take 4 (drop i input)))"

definition modexp :: "('fq, 'fr, 'g1, 'g2) px \<Rightarrow> u8 list \<Rightarrow> u64 \<Rightarrow> PrecompileResult" where
  "modexp px input gas_limit =
     (let gas_cost = 200 in
      if gas_limit < gas_cost then precompile_error gas_limit
      else if length input < 96 then precompile_success [] gas_cost
      else
        let base_len = modexp_len input 24; exp_len = modexp_len input 56; mod_len = modexp_len input 88 in
        if mod_len = 0 then precompile_success (replicate mod_len 0) gas_cost
        else
          let base_start = 96; exp_start = base_start + base_len; mod_start = exp_start + exp_len;
              padded = input @ replicate (mod_start + mod_len - length input) 0;
              base = px_from_bytes_be px (take base_len (drop base_start padded));
              ex = px_from_bytes_be px (take exp_len (drop exp_start padded));
              modulus = px_from_bytes_be px (take mod_len (drop mod_start padded))
          in if modulus = 0 then precompile_success (replicate mod_len 0) gas_cost
             else
               let result_bytes = px_to_bytes_be px (px_modpow px base ex modulus)
               in precompile_success (replicate (mod_len - length result_bytes) 0 @ take mod_len result_bytes) gas_cost)"

subsection \<open>The curve\<close>

definition parse_g1_point :: "('fq, 'fr, 'g1, 'g2) px \<Rightarrow> u8 list \<Rightarrow> 'g1 option option" where
  "parse_g1_point px data =
     (if length data \<noteq> 64 then Some None
      else if list_all (\<lambda>b. b = 0) data then Some (Some (px_g1_identity px))
      else case px_g1_new px (px_fq px (take 32 data)) (px_fq px (take 32 (drop 32 data))) of
             None \<Rightarrow> None
           | Some point \<Rightarrow> Some (if px_g1_valid px point then Some point else None))"

definition parse_g2_point :: "('fq, 'fr, 'g1, 'g2) px \<Rightarrow> u8 list \<Rightarrow> 'g2 option option" where
  "parse_g2_point px data =
     (if length data \<noteq> 128 then Some None
      else if list_all (\<lambda>b. b = 0) data then Some (Some (px_g2_identity px))
      else
        let x_imag = px_fq px (take 32 data); x_real = px_fq px (take 32 (drop 32 data));
            y_imag = px_fq px (take 32 (drop 64 data)); y_real = px_fq px (take 32 (drop 96 data))
        in case px_g2_new px (x_real, x_imag) (y_real, y_imag) of
             None \<Rightarrow> None
           | Some point \<Rightarrow> Some (if px_g2_valid px point then Some point else None))"

definition encode_g1_point :: "('fq, 'fr, 'g1, 'g2) px \<Rightarrow> 'g1 \<Rightarrow> u8 list" where
  "encode_g1_point px p =
     (if px_g1_is_zero px p then replicate 64 0
      else let x = px_g1_x px p; y = px_g1_y px p
           in replicate (32 - length x) 0 @ x @ replicate (32 - length y) 0 @ y)"

definition bn128_add :: "('fq, 'fr, 'g1, 'g2) px \<Rightarrow> u8 list \<Rightarrow> u64 \<Rightarrow> PrecompileResult option" where
  "bn128_add px input gas_limit =
     (if gas_limit < 150 then Some (precompile_error gas_limit)
      else
        let padded = copy_padded 128 input in
        case parse_g1_point px (take 64 padded) of
          None \<Rightarrow> None
        | Some None \<Rightarrow> Some (precompile_error 150)
        | Some (Some p1) \<Rightarrow>
            (case parse_g1_point px (take 64 (drop 64 padded)) of
               None \<Rightarrow> None
             | Some None \<Rightarrow> Some (precompile_error 150)
             | Some (Some p2) \<Rightarrow> Some (precompile_success (encode_g1_point px (px_g1_add px p1 p2)) 150)))"

definition bn128_mul :: "('fq, 'fr, 'g1, 'g2) px \<Rightarrow> u8 list \<Rightarrow> u64 \<Rightarrow> PrecompileResult option" where
  "bn128_mul px input gas_limit =
     (if gas_limit < 6000 then Some (precompile_error gas_limit)
      else
        let padded = copy_padded 96 input in
        case parse_g1_point px (take 64 padded) of
          None \<Rightarrow> None
        | Some None \<Rightarrow> Some (precompile_error 6000)
        | Some (Some p) \<Rightarrow>
            Some (precompile_success (encode_g1_point px (px_g1_mul px p (px_fr px (take 32 (drop 64 padded))))) 6000))"

function chunks :: "nat \<Rightarrow> 'a list \<Rightarrow> 'a list list" where
  "chunks n xs = (if n = 0 \<or> xs = [] then [] else take n xs # chunks n (drop n xs))"
  by pat_completeness auto
termination by (relation "measure (\<lambda>(n, xs). length xs)") auto

declare chunks.simps [simp del]

fun parse_pairs :: "('fq, 'fr, 'g1, 'g2) px \<Rightarrow> u8 list list \<Rightarrow> ('g1 list \<times> 'g2 list) option option" where
  "parse_pairs px [] = Some (Some ([], []))"
| "parse_pairs px (chunk # rest) =
     (case parse_g1_point px (take 64 chunk) of
        None \<Rightarrow> None
      | Some None \<Rightarrow> Some None
      | Some (Some g1) \<Rightarrow>
          (case parse_g2_point px (take 128 (drop 64 chunk)) of
             None \<Rightarrow> None
           | Some None \<Rightarrow> Some None
           | Some (Some g2) \<Rightarrow>
               (case parse_pairs px rest of
                  None \<Rightarrow> None
                | Some None \<Rightarrow> Some None
                | Some (Some (g1s, g2s)) \<Rightarrow> Some (Some (g1 # g1s, g2 # g2s)))))"

definition bool_word :: "bool \<Rightarrow> u8 list" where
  "bool_word b = replicate 31 0 @ [if b then 1 else 0]"

definition bn128_pairing :: "('fq, 'fr, 'g1, 'g2) px \<Rightarrow> u8 list \<Rightarrow> u64 \<Rightarrow> PrecompileResult option" where
  "bn128_pairing px input gas_limit =
     (let gas_cost = 45000 + 34000 * of_nat (length input div 192) in
      if gas_limit < gas_cost then Some (precompile_error gas_limit)
      else if input = [] then Some (precompile_success (bool_word True) gas_cost)
      else if length input mod 192 \<noteq> 0 then Some (precompile_error gas_cost)
      else case parse_pairs px (chunks 192 input) of
             None \<Rightarrow> None
           | Some None \<Rightarrow> Some (precompile_error gas_cost)
           | Some (Some (g1s, g2s)) \<Rightarrow> Some (precompile_success (bool_word (px_pairing_is_zero px g1s g2s)) gas_cost))"

subsection \<open>BLAKE2b\<close>

definition BLAKE2_IV :: "u64 list" where
  "BLAKE2_IV =
     [0x6a09e667f3bcc908, 0xbb67ae8584caa73b, 0x3c6ef372fe94f82b, 0xa54ff53a5f1d36f1,
      0x510e527fade682d1, 0x9b05688c2b3e6c1f, 0x1f83d9abfb41bd6b, 0x5be0cd19137e2179]"

definition BLAKE2_SIGMA :: "nat list list" where
  "BLAKE2_SIGMA =
     [ [0, 1, 2, 3, 4, 5, 6, 7, 8, 9, 10, 11, 12, 13, 14, 15],
      [14, 10, 4, 8, 9, 15, 13, 6, 1, 12, 0, 2, 11, 7, 5, 3],
      [11, 8, 12, 0, 5, 2, 15, 13, 10, 14, 3, 6, 7, 1, 9, 4],
      [7, 9, 3, 1, 13, 12, 11, 14, 2, 6, 5, 10, 4, 0, 15, 8],
      [9, 0, 5, 7, 2, 4, 10, 15, 14, 1, 11, 12, 6, 8, 3, 13],
      [2, 12, 6, 10, 0, 11, 8, 3, 4, 13, 7, 5, 15, 14, 1, 9],
      [12, 5, 1, 15, 14, 13, 4, 10, 0, 7, 6, 3, 9, 2, 8, 11],
      [13, 11, 7, 14, 12, 1, 3, 9, 5, 0, 15, 4, 8, 6, 2, 10],
      [6, 15, 14, 9, 11, 3, 0, 8, 12, 2, 13, 7, 1, 4, 10, 5],
      [10, 2, 8, 4, 7, 6, 1, 5, 15, 11, 9, 14, 3, 12, 13, 0] ]"

definition blake2_g :: "u64 list \<Rightarrow> nat \<Rightarrow> nat \<Rightarrow> nat \<Rightarrow> nat \<Rightarrow> u64 \<Rightarrow> u64 \<Rightarrow> u64 list" where
  "blake2_g v a b c d x y =
     (let v = v[a := v ! a + v ! b + x];
          v = v[d := word_rotr 32 (v ! d XOR v ! a)];
          v = v[c := v ! c + v ! d];
          v = v[b := word_rotr 24 (v ! b XOR v ! c)];
          v = v[a := v ! a + v ! b + y];
          v = v[d := word_rotr 16 (v ! d XOR v ! a)];
          v = v[c := v ! c + v ! d]
      in v[b := word_rotr 63 (v ! b XOR v ! c)])"

definition blake2_round :: "u64 list \<Rightarrow> u64 list \<Rightarrow> nat \<Rightarrow> u64 list" where
  "blake2_round m v i =
     (let s = BLAKE2_SIGMA ! (i mod 10);
          v = blake2_g v 0 4 8 12 (m ! (s ! 0)) (m ! (s ! 1));
          v = blake2_g v 1 5 9 13 (m ! (s ! 2)) (m ! (s ! 3));
          v = blake2_g v 2 6 10 14 (m ! (s ! 4)) (m ! (s ! 5));
          v = blake2_g v 3 7 11 15 (m ! (s ! 6)) (m ! (s ! 7));
          v = blake2_g v 0 5 10 15 (m ! (s ! 8)) (m ! (s ! 9));
          v = blake2_g v 1 6 11 12 (m ! (s ! 10)) (m ! (s ! 11));
          v = blake2_g v 2 7 8 13 (m ! (s ! 12)) (m ! (s ! 13))
      in blake2_g v 3 4 9 14 (m ! (s ! 14)) (m ! (s ! 15)))"

definition blake2b_compress :: "u64 list \<Rightarrow> u64 list \<Rightarrow> u64 \<Rightarrow> u64 \<Rightarrow> bool \<Rightarrow> u32 \<Rightarrow> u64 list" where
  "blake2b_compress h m t0 t1 f rounds =
     (let v = h @ BLAKE2_IV;
          v = v[12 := v ! 12 XOR t0];
          v = v[13 := v ! 13 XOR t1];
          v = (if f then v[14 := NOT (v ! 14)] else v);
          v = foldl (blake2_round m) v [0 ..< unat rounds]
      in map (\<lambda>i. h ! i XOR (v ! i XOR v ! (i + 8))) [0 ..< 8])"

definition u32_from_be_bytes :: "u8 list \<Rightarrow> u32" where
  "u32_from_be_bytes bs = of_nat (be_value bs)"

definition blake2f :: "u8 list \<Rightarrow> u64 \<Rightarrow> PrecompileResult" where
  "blake2f input gas_limit =
     (if length input \<noteq> 213 then precompile_error 0
      else
        let rounds = u32_from_be_bytes (take 4 input); gas_cost = ucast rounds in
        if gas_limit < gas_cost then precompile_error gas_limit
        else
          let h = map (\<lambda>i. u64_from_le_bytes (take 8 (drop (4 + i * 8) input))) [0 ..< 8];
              m = map (\<lambda>i. u64_from_le_bytes (take 8 (drop (68 + i * 8) input))) [0 ..< 16];
              t0 = u64_from_le_bytes (take 8 (drop 196 input));
              t1 = u64_from_le_bytes (take 8 (drop 204 input));
              f = input ! 212
          in if f \<noteq> 0 \<and> f \<noteq> 1 then precompile_error gas_cost
             else precompile_success (concat (map u64_to_le_bytes (blake2b_compress h m t0 t1 (f = 1) rounds))) gas_cost)"

subsection \<open>PYRAX contracts and the registry\<close>

definition pc_blake3 :: "ext \<Rightarrow> u8 list \<Rightarrow> u64 \<Rightarrow> PrecompileResult" where
  "pc_blake3 e input gas_limit =
     (let gas_cost = 30 + 6 * input_words input
      in if gas_limit < gas_cost then precompile_error gas_limit else precompile_success (ext_blake3 e input) gas_cost)"

definition verify_zk_proof :: "u8 list \<Rightarrow> u64 \<Rightarrow> PrecompileResult" where
  "verify_zk_proof input gas_limit =
     (if gas_limit < 100000 then precompile_error gas_limit
      else if length input < 64 then precompile_error 100000
      else precompile_success (bool_word True) 100000)"

definition l1_bridge :: "ext \<Rightarrow> u8 list \<Rightarrow> u64 \<Rightarrow> PrecompileResult" where
  "l1_bridge e input gas_limit =
     (if gas_limit < 50000 then precompile_error gas_limit
      else case input of
             [] \<Rightarrow> precompile_error 50000
           | op # rest \<Rightarrow>
               if op = 0 then precompile_success (bool_word True) 50000
               else if op = 1 then
                 (if length input < 53 then precompile_error 50000 else precompile_success (ext_blake3 e rest) 50000)
               else precompile_error 50000)"

definition precompile_addr :: "u8 \<Rightarrow> evm_address" where
  "precompile_addr last_byte = replicate 19 0 @ [last_byte]"

definition precompile_addr2 :: "u8 \<Rightarrow> u8 \<Rightarrow> evm_address" where
  "precompile_addr2 b18 b19 = replicate 18 0 @ [b18, b19]"

type_synonym precompile_fn = "u8 list \<Rightarrow> u64 \<Rightarrow> PrecompileResult option"

definition PrecompileRegistry_new :: "ext \<Rightarrow> ('fq, 'fr, 'g1, 'g2) px \<Rightarrow> (evm_address, precompile_fn) hashmap" where
  "PrecompileRegistry_new e px =
     foldl (\<lambda>m (a, f). hm_insert a f m) []
       [(precompile_addr 0x01, \<lambda>i g. Some (ecrecover e px i g)),
        (precompile_addr 0x02, \<lambda>i g. Some (pc_sha256 e i g)),
        (precompile_addr 0x03, \<lambda>i g. Some (pc_ripemd160 e i g)),
        (precompile_addr 0x04, \<lambda>i g. Some (pc_identity i g)),
        (precompile_addr 0x05, \<lambda>i g. Some (modexp px i g)),
        (precompile_addr 0x06, bn128_add px),
        (precompile_addr 0x07, bn128_mul px),
        (precompile_addr 0x08, bn128_pairing px),
        (precompile_addr 0x09, \<lambda>i g. Some (blake2f i g)),
        (precompile_addr2 0x01 0x00, \<lambda>i g. Some (pc_blake3 e i g)),
        (precompile_addr2 0x01 0x01, \<lambda>i g. Some (verify_zk_proof i g)),
        (precompile_addr2 0x01 0x02, \<lambda>i g. Some (l1_bridge e i g))]"

definition is_precompile :: "(evm_address, precompile_fn) hashmap \<Rightarrow> evm_address \<Rightarrow> bool" where
  "is_precompile reg a = hm_contains reg a"

text \<open>\<open>None\<close> for an address that is not registered, \<open>Some None\<close> for a panic.\<close>

definition precompile_execute :: "(evm_address, precompile_fn) hashmap \<Rightarrow> evm_address \<Rightarrow> u8 list \<Rightarrow> u64 \<Rightarrow> PrecompileResult option option" where
  "precompile_execute reg a input gas_limit = map_option (\<lambda>f. f input gas_limit) (hm_get reg a)"

subsection \<open>Gas\<close>

lemma precompile_result_simps [simp]:
  "pr_success (precompile_success out gas)" "pr_output (precompile_success out gas) = out"
  "pr_gas_used (precompile_success out gas) = gas" "\<not> pr_success (precompile_error gas)"
  "pr_output (precompile_error gas) = []" "pr_gas_used (precompile_error gas) = gas"
  by (simp_all add: precompile_success_def precompile_error_def)

definition within_gas :: "precompile_fn \<Rightarrow> bool" where
  "within_gas f = (\<forall>input gas_limit r. f input gas_limit = Some r \<longrightarrow> pr_gas_used r \<le> gas_limit)"

lemma within_gas_I:
  "(\<And>input gas_limit. pr_gas_used (f input gas_limit) \<le> gas_limit) \<Longrightarrow> within_gas (\<lambda>i g. Some (f i g))"
  by (simp add: within_gas_def)

lemma gas_guard:
  "(c \<le> g \<Longrightarrow> pr_gas_used r \<le> g) \<Longrightarrow> pr_gas_used (if g < c then precompile_error g else r) \<le> g"
  by (cases "g < c") (simp_all add: linorder_not_less)

lemma within_gas_simple:
  "within_gas (\<lambda>i g. Some (pc_sha256 e i g))" "within_gas (\<lambda>i g. Some (pc_ripemd160 e i g))"
  "within_gas (\<lambda>i g. Some (pc_identity i g))" "within_gas (\<lambda>i g. Some (pc_blake3 e i g))"
  "within_gas (\<lambda>i g. Some (verify_zk_proof i g))"
  unfolding pc_sha256_def pc_ripemd160_def pc_identity_def pc_blake3_def verify_zk_proof_def Let_def
  by (rule within_gas_I, rule gas_guard, simp)+

lemma ecrecover_inner_gas: "pr_gas_used (ecrecover_inner e px input c) = c"
  unfolding ecrecover_inner_def Let_def
  by (cases "if input ! 63 = 27 \<or> input ! 63 = 0 then Some 0 else if input ! 63 = 28 \<or> input ! 63 = 1 then Some (1 :: nat) else None")
    (simp_all only: option.case precompile_result_simps split: option.split, simp)

lemma within_gas_ecrecover: "within_gas (\<lambda>i g. Some (ecrecover e px i g))"
  unfolding ecrecover_def by (rule within_gas_I, rule gas_guard) (simp add: ecrecover_inner_gas)

lemma within_gas_modexp: "within_gas (\<lambda>i g. Some (modexp px i g))"
  unfolding modexp_def Let_def by (rule within_gas_I, rule gas_guard) (simp only: if_distrib [where f = pr_gas_used] precompile_result_simps if_cancel)

lemma within_gas_blake2f: "within_gas (\<lambda>i g. Some (blake2f i g))"
proof (rule within_gas_I)
  show "pr_gas_used (blake2f i g) \<le> g" for i g
  proof (cases "length i = 213")
    case True
    then show ?thesis
      unfolding blake2f_def Let_def
      by (subst if_not_P, simp, intro gas_guard) (simp only: if_distrib [where f = pr_gas_used] precompile_result_simps if_cancel)
  qed (simp add: blake2f_def)
qed

lemma within_gas_l1_bridge: "within_gas (\<lambda>i g. Some (l1_bridge e i g))"
  unfolding l1_bridge_def by (rule within_gas_I, rule gas_guard) (simp split: list.split)

lemma within_gas_curve:
  "within_gas (bn128_add px)" "within_gas (bn128_mul px)" "within_gas (bn128_pairing px)"
  by (auto simp: within_gas_def bn128_add_def bn128_mul_def bn128_pairing_def Let_def split: option.splits if_splits)

lemmas within_gas_all =
  within_gas_simple within_gas_ecrecover within_gas_modexp within_gas_blake2f within_gas_l1_bridge within_gas_curve

lemma hm_get_inserts:
  "hm_get (foldl (\<lambda>m (a, f). hm_insert a f m) m kvs) k = Some v \<Longrightarrow> hm_get m k = Some v \<or> (k, v) \<in> set kvs"
proof (induction kvs arbitrary: m)
  case (Cons kv kvs)
  then show ?case using Cons.IH [of "hm_insert (fst kv) (snd kv) m"] by (cases kv) (auto split: if_splits)
qed simp

lemma registry_within_gas:
  assumes "hm_get (PrecompileRegistry_new e px) a = Some f"
  shows "within_gas f"
  using hm_get_inserts [OF assms [unfolded PrecompileRegistry_new_def]] by (auto intro: within_gas_all)

text \<open>
  No precompiled contract uses more gas than the limit it is given: whichever address is called, with
  whatever input and whatever the libraries return, a result that succeeds or fails reports at most the limit.
\<close>

theorem precompile_within_limit:
  assumes "precompile_execute (PrecompileRegistry_new e px) a input gas_limit = Some (Some r)"
  shows "pr_gas_used r \<le> gas_limit"
  using assms registry_within_gas [of e px a]
  by (auto simp: precompile_execute_def within_gas_def)

subsection \<open>Modular exponentiation\<close>

text \<open>
  The three lengths of the input are 32-byte big-endian numbers; \<open>modexp\<close> reads bytes 24 to 27 of each, which
  are zero for every length below \<open>2 ^ 32\<close>.
\<close>

lemma be_bytes_high_zero:
  assumes "n < 2 ^ 32" shows "take 4 (drop 24 (be_bytes 32 n)) = [0, 0, 0, 0]"
proof -
  have high: "n div 256 ^ i = 0" if "4 \<le> i" for i
  proof -
    have "(256::nat) ^ 4 \<le> 256 ^ i" using that by (intro power_increasing) auto
    then show ?thesis using assms by simp
  qed
  have nth: "le_bytes k m ! i = of_nat (m div 256 ^ i)" if "i < k" for i k m
    using that by (induction k arbitrary: m i) (auto simp: nth_Cons' div_mult2_eq [symmetric] simp flip: power_Suc)
  have "be_bytes 32 n ! i = 0" if "24 \<le> i" "i < 28" for i
    using that high [of "31 - i"] by (simp add: be_bytes_def rev_nth nth)
  then show ?thesis
    by (intro nth_equalityI) (auto simp: nth_Cons' numeral_eq_Suc less_Suc_eq)
qed

lemma modexp_len_zero: "modexp_len (pre @ be_bytes 32 n @ post) (length pre + 24) = 0" if "n < 2 ^ 32"
  using be_bytes_high_zero [OF that]
  by (simp add: modexp_len_def u64_from_be_bytes_def be_value_Cons be_value_def take_append drop_append)

text \<open>
  On every input in the format of the standard, with base, exponent and modulus lengths below four
  gigabytes, \<open>modexp\<close> returns the empty output: it reads the lengths from the wrong bytes, so the modulus
  always has length zero and the exponentiation is never reached.
\<close>

theorem modexp_returns_nothing:
  assumes "200 \<le> gas_limit" "mod_len < 2 ^ 32"
  shows "modexp px (be_bytes 32 base_len @ be_bytes 32 exp_len @ be_bytes 32 mod_len @ data) gas_limit
           = precompile_success [] 200"
  using assms modexp_len_zero [of mod_len "be_bytes 32 base_len @ be_bytes 32 exp_len" data]
  by (simp add: modexp_def Let_def linorder_not_less)

text \<open>What \<open>num-bigint\<close> promises of the conversions and of \<open>modpow\<close>.\<close>

definition bignum_laws :: "('fq, 'fr, 'g1, 'g2) px \<Rightarrow> bool" where
  "bignum_laws px =
     ((\<forall>bs. px_from_bytes_be px bs = be_value bs)
      \<and> (\<forall>n. be_value (px_to_bytes_be px n) = n)
      \<and> (\<forall>n k. 0 < k \<longrightarrow> n < 256 ^ k \<longrightarrow> length (px_to_bytes_be px n) \<le> k)
      \<and> (\<forall>b x m. 0 < m \<longrightarrow> px_modpow px b x m = b ^ x mod m))"

lemma be_value_pad: "be_value (replicate k 0 @ bs) = be_value bs"
  by (induction k) (simp_all add: be_value_Cons)

lemma be_bytes_be_value: "length bs = k \<Longrightarrow> be_bytes k (be_value bs) = bs"
  using le_bytes_le_value [of "rev bs"] by (simp add: be_bytes_def be_value_def)

lemma pad_be_bytes: "length bs \<le> k \<Longrightarrow> replicate (k - length bs) 0 @ bs = be_bytes k (be_value bs)"
  using be_bytes_be_value [of "replicate (k - length bs) 0 @ bs" k] by (simp add: be_value_pad)

text \<open>
  The exponentiation itself is right for the lengths the code reads: with a modulus that is not zero, the
  output is the power modulo the modulus, big-endian, in exactly as many bytes as the modulus.
\<close>

theorem modexp_computes:
  assumes laws: "bignum_laws px" and gas: "200 \<le> gas_limit"
    and input: "length head = 96" "modexp_len head 24 = length b" "modexp_len head 56 = length x" "modexp_len head 88 = length m"
    and modulus: "0 < be_value m"
  shows "modexp px (head @ b @ x @ m) gas_limit
           = precompile_success (be_bytes (length m) (be_value b ^ be_value x mod be_value m)) 200"
proof -
  let ?r = "be_value b ^ be_value x mod be_value m" and ?in = "head @ b @ x @ m"
  have lens: "modexp_len ?in 24 = length b" "modexp_len ?in 56 = length x" "modexp_len ?in 88 = length m"
    using input by (simp_all add: modexp_len_def)
  have m: "m \<noteq> []" using modulus by (auto simp: be_value_def)
  have "?r < 256 ^ length m" using modulus be_value_less [of m] mod_less_divisor [of "be_value m"] less_trans by blast
  then have "length (px_to_bytes_be px ?r) \<le> length m" using laws m unfolding bignum_laws_def by blast
  then have "replicate (length m - length (px_to_bytes_be px ?r)) 0 @ take (length m) (px_to_bytes_be px ?r) = be_bytes (length m) ?r"
    using pad_be_bytes [of "px_to_bytes_be px ?r" "length m"] laws by (simp add: bignum_laws_def)
  then show ?thesis
    using gas laws lens m modulus input(1) unfolding modexp_def Let_def
    by (simp add: bignum_laws_def linorder_not_less)
qed

subsection \<open>The curve and the proof verifier\<close>

lemma precompile_addr_eq [simp]:
  "precompile_addr b = precompile_addr c \<longleftrightarrow> b = c"
  "precompile_addr2 b b' = precompile_addr2 c c' \<longleftrightarrow> b = c \<and> b' = c'"
  "precompile_addr b = precompile_addr2 c c' \<longleftrightarrow> c = 0 \<and> b = c'"
  "precompile_addr2 c c' = precompile_addr b \<longleftrightarrow> c = 0 \<and> b = c'"
proof -
  have nineteen: "replicate 19 (0::u8) = replicate 18 0 @ [0]" by (simp add: numeral_eq_Suc)
  show "precompile_addr b = precompile_addr c \<longleftrightarrow> b = c" by (simp only: precompile_addr_def append1_eq_conv simp_thms)
  show "precompile_addr2 b b' = precompile_addr2 c c' \<longleftrightarrow> b = c \<and> b' = c'"
    by (simp only: precompile_addr2_def same_append_eq list.inject simp_thms)
  show "precompile_addr b = precompile_addr2 c c' \<longleftrightarrow> c = 0 \<and> b = c'"
    "precompile_addr2 c c' = precompile_addr b \<longleftrightarrow> c = 0 \<and> b = c'"
    unfolding precompile_addr_def precompile_addr2_def nineteen append_assoc append_Cons append_Nil same_append_eq list.inject
    by auto
qed

lemma registry_bn128_add [simp]: "hm_get (PrecompileRegistry_new e px) (precompile_addr 6) = Some (bn128_add px)"
  by (simp add: PrecompileRegistry_new_def)

text \<open>
  The contracts on the curve do not reject a point that is not on it: the constructor of the point
  panics before the check, so a call with 64 bytes that are not a point, and enough gas, never returns a
  result. The empty result is \<open>None\<close>.
\<close>

theorem off_curve_point_panics:
  assumes "length p = 64" "p \<noteq> replicate 64 0" "px_g1_new px (px_fq px (take 32 p)) (px_fq px (drop 32 p)) = None"
    and "150 \<le> gas_limit"
  shows "precompile_execute (PrecompileRegistry_new e px) (precompile_addr 6) (p @ rest) gas_limit = Some None"
proof -
  have "\<not> list_all (\<lambda>b. b = 0) p"
    using replicate_length_same [of p 0] assms(1,2) by (auto simp: list_all_iff)
  moreover have "take 64 (copy_padded 128 (p @ rest)) = p"
    using assms(1) by (simp add: copy_padded_def)
  ultimately have "bn128_add px (p @ rest) gas_limit = None"
    using assms by (simp add: bn128_add_def parse_g1_point_def linorder_not_less)
  then show ?thesis by (simp add: precompile_execute_def)
qed

text \<open>The proof verifier accepts every input of 64 bytes or more: nothing of it is read.\<close>

lemma every_proof_accepted:
  "100000 \<le> gas_limit \<Longrightarrow> 64 \<le> length input \<Longrightarrow> verify_zk_proof input gas_limit = precompile_success (bool_word True) 100000"
  by (simp add: verify_zk_proof_def linorder_not_less)

subsection \<open>Examples\<close>

text \<open>Stand-ins for the libraries: numbers are exact, a point is its pair of coordinates and lies on the curve when they are equal.\<close>

definition sample_to_bytes :: "nat \<Rightarrow> u8 list" where
  "sample_to_bytes n = (if n = 0 then [0] else dropWhile (\<lambda>b. b = 0) (be_bytes n n))"

definition sample_px :: "(nat, nat, nat \<times> nat, nat) px" where
  "sample_px =
     \<lparr>px_recover = (\<lambda>h r s. None), px_from_bytes_be = be_value, px_to_bytes_be = sample_to_bytes,
      px_modpow = (\<lambda>b x m. b ^ x mod m), px_fq = be_value, px_fr = be_value, px_g1_identity = (0, 0),
      px_g1_new = (\<lambda>x y. if x = y then Some (x, y) else None), px_g1_valid = (\<lambda>p. True), px_g1_is_zero = (\<lambda>p. p = (0, 0)),
      px_g1_x = (\<lambda>p. be_bytes 32 (fst p)), px_g1_y = (\<lambda>p. be_bytes 32 (snd p)),
      px_g1_add = (\<lambda>p q. p), px_g1_mul = (\<lambda>p k. p), px_g2_identity = 0, px_g2_new = (\<lambda>x y. None),
      px_g2_valid = (\<lambda>p. True), px_pairing_is_zero = (\<lambda>ps qs. True)\<rparr>"

theorem precompile_within_limit_witness:
  "pr_gas_used (pc_identity [1, 2, 3] 100) \<le> 100 \<and> pr_success (pc_identity [1, 2, 3] 100)"
proof
  have reg: "hm_get (PrecompileRegistry_new sample_ext sample_px) (precompile_addr 4) = Some (\<lambda>i g. Some (pc_identity i g))"
    by (simp add: PrecompileRegistry_new_def)
  show "pr_gas_used (pc_identity [1, 2, 3] 100) \<le> 100"
    by (rule precompile_within_limit [of sample_ext sample_px "precompile_addr 4" "[1, 2, 3]"])
      (simp add: precompile_execute_def reg)
  show "pr_success (pc_identity [1, 2, 3] 100)"
    by (simp add: pc_identity_def input_words_def Let_def)
qed

theorem modexp_returns_nothing_witness:
  "modexp sample_px (be_bytes 32 1 @ be_bytes 32 1 @ be_bytes 32 1 @ [3, 2, 5]) 1000 = precompile_success [] 200"
  by (rule modexp_returns_nothing) simp_all

theorem off_curve_point_panics_witness:
  "precompile_execute (PrecompileRegistry_new sample_ext sample_px) (precompile_addr 6) ((replicate 63 0 @ [1]) @ []) 150 = Some None"
proof (rule off_curve_point_panics)
  show "length (replicate 63 0 @ [1 :: u8]) = 64" by simp
  show "replicate 63 0 @ [1 :: u8] \<noteq> replicate 64 0" by (auto dest: arg_cong [where f = last])
  have "be_value (replicate 32 0) = 0" "be_value (replicate 31 0 @ [1]) = 1"
    using be_value_pad [of 32 "[]"] be_value_pad [of 31 "[1]"] by (simp_all add: be_value_def)
  then show "px_g1_new sample_px (px_fq sample_px (take 32 (replicate 63 0 @ [1]))) (px_fq sample_px (drop 32 (replicate 63 0 @ [1]))) = None"
    by (simp add: sample_px_def)
qed simp

subsection \<open>The mixing function of BLAKE2b\<close>

definition blake2_g_inv :: "u64 list \<Rightarrow> nat \<Rightarrow> nat \<Rightarrow> nat \<Rightarrow> nat \<Rightarrow> u64 \<Rightarrow> u64 \<Rightarrow> u64 list" where
  "blake2_g_inv w a b c d x y =
     (let b1 = word_rotl 63 (w ! b) XOR w ! c; c1 = w ! c - w ! d; d1 = word_rotl 16 (w ! d) XOR w ! a; a1 = w ! a - b1 - y;
          b0 = word_rotl 24 b1 XOR c1; c0 = c1 - d1; d0 = word_rotl 32 d1 XOR a1; a0 = a1 - b0 - x
      in w[a := a0, b := b0, c := c0, d := d0])"

lemma blake2_g_inverse:
  assumes "distinct [a, b, c, d]" "a < length v" "b < length v" "c < length v" "d < length v"
  shows "blake2_g_inv (blake2_g v a b c d x y) a b c d x y = v"
  using assms
  by (intro nth_equalityI) (auto simp: blake2_g_inv_def blake2_g_def Let_def nth_list_update xor.assoc add.assoc)

lemma length_blake2_g [simp]: "length (blake2_g v a b c d x y) = length v"
  unfolding blake2_g_def Let_def by (simp only: length_list_update)

lemma blake2_g_inject:
  assumes "blake2_g v a b c d x y = blake2_g w a b c d x y" "distinct [a, b, c, d]" "length v = 16" "length w = 16"
    and "a < 16" "b < 16" "c < 16" "d < 16"
  shows "v = w"
proof -
  have "blake2_g_inv (blake2_g v a b c d x y) a b c d x y = v" "blake2_g_inv (blake2_g w a b c d x y) a b c d x y = w"
    by (rule blake2_g_inverse; use assms(2-) in simp)+
  then show ?thesis using assms(1) by metis
qed

lemma length_blake2_round [simp]: "length (blake2_round m v i) = length v"
  unfolding blake2_round_def Let_def by (simp only: length_blake2_g)

lemma inj_blake2_g:
  assumes "inj_on f {v. length v = 16}" "\<And>v. length (f v) = length v"
    and "distinct [a, b, c, d]" "a < 16" "b < 16" "c < 16" "d < 16"
  shows "inj_on (\<lambda>v. blake2_g (f v) a b c d x y) {v. length v = 16}"
proof (rule inj_onI)
  fix v w assume len: "v \<in> {v. length v = 16}" "w \<in> {v. length v = 16}" and eq: "blake2_g (f v) a b c d x y = blake2_g (f w) a b c d x y"
  have "f v = f w" by (rule blake2_g_inject [OF eq]) (use assms(2-) len in simp_all)
  then show "v = w" using inj_onD [OF assms(1)] len by blast
qed

lemma inj_blake2_round: "inj_on (\<lambda>v. blake2_round m v i) {v. length v = 16}"
  unfolding blake2_round_def Let_def
  by (intro inj_blake2_g) (simp_all only: length_blake2_g, simp_all)

text \<open>
  The rounds lose nothing: for a fixed message block and number of rounds, two working vectors that end
  equal were equal at the start. The permutation of BLAKE2b is a permutation in this code too.
\<close>

theorem blake2_rounds_inject:
  assumes "foldl (blake2_round m) v is = foldl (blake2_round m) w is" "length v = 16" "length w = 16"
  shows "v = w"
  using assms
proof (induction "is" arbitrary: v w)
  case (Cons i "is")
  have "blake2_round m v i = blake2_round m w i"
    by (rule Cons.IH) (use Cons.prems in simp_all)
  then show ?case using inj_onD [OF inj_blake2_round] Cons.prems(2,3) by blast
qed simp

end
