(* ===== verification/EVM_Executor.thy ===== *)
theory EVM_Executor
  imports EVM_Interpreter EVM_Precompiles
begin

section \<open>The EVM executor\<close>

text \<open>
  \<open>EvmExecutor\<close> in \<open>pyrax-node/src/evm/executor.rs\<close>: validation, the payment for gas, the four kinds of
  transaction (creation, precompiled contract, transfer, call), the refund and the payment to the block's
  beneficiary. A run is \<open>None\<close> when the interpreter does not return and ends in \<open>Panicked\<close> when it panics. The
  scaling by 1.1 of \<open>estimate_gas\<close> is floating point and is a parameter.
\<close>

record EvmChainConfig =
  ec_chain_id :: u64
  ec_block_gas_limit :: u64
  ec_base_fee_per_gas :: u64
  ec_block_time_ms :: u64
  ec_london_active :: bool
  ec_shanghai_active :: bool
  ec_cancun_active :: bool

definition EvmChainConfig_default :: EvmChainConfig where
  "EvmChainConfig_default =
     \<lparr>ec_chain_id = 7777, ec_block_gas_limit = 30000000, ec_base_fee_per_gas = 1000000000, ec_block_time_ms = 2000,
      ec_london_active = True, ec_shanghai_active = True, ec_cancun_active = True\<rparr>"

record EvmExecutor =
  ee_config :: EvmChainConfig
  ee_state :: StateDB
  ee_precompiles :: "(evm_address, precompile_fn) hashmap"

type_synonym 's evm_run = "(run_end \<times> 's) option"

definition EvmExecutor_new :: "ext \<Rightarrow> ('fq, 'fr, 'g1, 'g2) px \<Rightarrow> EvmChainConfig \<Rightarrow> StateDB \<Rightarrow> EvmExecutor" where
  "EvmExecutor_new e px config state =
     \<lparr>ee_config = config, ee_state = state, ee_precompiles = PrecompileRegistry_new e px\<rparr>"

definition with_state :: "ext \<Rightarrow> ('fq, 'fr, 'g1, 'g2) px \<Rightarrow> StateDB \<Rightarrow> EvmExecutor" where
  "with_state e px state = EvmExecutor_new e px EvmChainConfig_default state"

definition validate_evm_transaction :: "StateDB \<Rightarrow> EvmTransaction \<Rightarrow> evm_address \<Rightarrow> TransactionContext \<Rightarrow> evm_error + unit" where
  "validate_evm_transaction db tx from ctx =
     (if et_chain_id tx \<noteq> cx_chain_id ctx then Err (InvalidChainId (cx_chain_id ctx) (et_chain_id tx))
      else let account_nonce = sdb_get_nonce db from in
        if et_nonce tx \<noteq> account_nonce then Err (InvalidNonce account_nonce (et_nonce tx))
        else if u256_checked_sub (sdb_get_balance db from) (max_cost tx) = None then Err InsufficientBalance
        else if cx_block_gas_limit ctx < et_gas_limit tx then Err GasLimitExceedsBlock
        else if et_max_fee_per_gas tx < cx_block_basefee ctx then Err MaxFeeBelowBaseFee
        else Ok ())"

subsection \<open>The four kinds of transaction\<close>

text \<open>The value moves before anything else; \<open>None\<close> when the sender has too little.\<close>

definition move_value :: "StateDB \<Rightarrow> evm_address \<Rightarrow> evm_address \<Rightarrow> u256 \<Rightarrow> StateDB option" where
  "move_value db from to v =
     (if u256_is_zero v then Some db
      else case sub_balance db from v of (db', ok) \<Rightarrow> if ok then Some (add_balance db' to v) else None)"

definition execute_transfer :: "StateDB \<Rightarrow> EvmTransaction \<Rightarrow> evm_address \<Rightarrow> evm_address \<Rightarrow> ExecutionResult \<times> StateDB" where
  "execute_transfer db tx from to =
     (if et_gas_limit tx < 21000 then (result_failed InsufficientGas, db)
      else case move_value db from to (et_value tx) of
             None \<Rightarrow> (result_failed InsufficientBalance, db)
           | Some db' \<Rightarrow> (success_transfer 21000, db'))"

definition execute_precompile ::
  "(evm_address, precompile_fn) hashmap \<Rightarrow> StateDB \<Rightarrow> EvmTransaction \<Rightarrow> evm_address \<Rightarrow> evm_address \<Rightarrow> run_end \<times> StateDB" where
  "execute_precompile reg db tx from to =
     (case move_value db from to (et_value tx) of
        None \<Rightarrow> (Returned (result_failed InsufficientBalance), db)
      | Some db' \<Rightarrow>
          (case precompile_execute reg to (et_input tx) (et_gas_limit tx) of
             None \<Rightarrow> (Returned (result_failed PrecompileFailed), db')
           | Some None \<Rightarrow> (Panicked, db')
           | Some (Some result) \<Rightarrow>
               if pr_success result
               then (Returned (success_transfer (pr_gas_used result)\<lparr>xr_output := pr_output result\<rparr>), db')
               else (Returned (result_failed PrecompileFailed), db')))"

definition execute_bytecode ::
  "StateDB \<Rightarrow> u8 list \<Rightarrow> u8 list \<Rightarrow> evm_address \<Rightarrow> evm_address \<Rightarrow> u256 \<Rightarrow> u64 \<Rightarrow> TransactionContext \<Rightarrow> StateDB evm_run" where
  "execute_bytecode db code input caller address v gas_limit ctx =
     execute (EvmInterpreter_new code input caller address v gas_limit ctx) db"

definition execute_call ::
  "StateDB \<Rightarrow> EvmTransaction \<Rightarrow> evm_address \<Rightarrow> evm_address \<Rightarrow> TransactionContext \<Rightarrow> StateDB evm_run" where
  "execute_call db tx from to ctx =
     (if et_gas_limit tx < 21000 then Some (Returned (result_failed InsufficientGas), db)
      else case move_value db from to (et_value tx) of
             None \<Rightarrow> Some (Returned (result_failed InsufficientBalance), db)
           | Some db' \<Rightarrow>
               let code = sdb_get_code db' to in
               if code = [] then Some (Returned (success_transfer 21000), db')
               else let remaining_gas = et_gas_limit tx - 21000 in
                 case execute_bytecode db' code (et_input tx) from to (et_value tx) remaining_gas ctx of
                   None \<Rightarrow> None
                 | Some (Panicked, db'') \<Rightarrow> Some (Panicked, db'')
                 | Some (Returned r, db'') \<Rightarrow>
                     Some (Returned (r\<lparr>xr_gas_used := 21000 + xr_gas_used r, xr_contract_address := None\<rparr>), db''))"

definition compute_create_address :: "ext \<Rightarrow> evm_address \<Rightarrow> u64 \<Rightarrow> evm_address" where
  "compute_create_address e sender nonce = drop 12 (ext_blake3 e (sender @ u64_to_be_bytes nonce))"

definition execute_create :: "ext \<Rightarrow> StateDB \<Rightarrow> EvmTransaction \<Rightarrow> evm_address \<Rightarrow> TransactionContext \<Rightarrow> StateDB evm_run" where
  "execute_create e db tx from ctx =
     (if et_gas_limit tx < 32000 then Some (Returned (result_failed InsufficientGas), db)
      else
        let contract_address = compute_create_address e from (et_nonce tx) in
        case move_value db from contract_address (et_value tx) of
          None \<Rightarrow> Some (Returned (result_failed InsufficientBalance), db)
        | Some db' \<Rightarrow>
            let remaining_gas = et_gas_limit tx - 32000 in
            case execute_bytecode db' (et_input tx) [] from contract_address (et_value tx) remaining_gas ctx of
              None \<Rightarrow> None
            | Some (Panicked, db'') \<Rightarrow> Some (Panicked, db'')
            | Some (Returned r, db'') \<Rightarrow>
                if \<not> xr_success r
                then Some (Returned (r\<lparr>xr_gas_used := 32000 + xr_gas_used r, xr_gas_refunded := 0, xr_output := [], xr_logs := [],
                                      xr_contract_address := None\<rparr>), db'')
                else
                  let code_deposit_gas = of_nat (length (xr_output r) * 200) in
                  if remaining_gas < xr_gas_used r + code_deposit_gas then Some (Returned (result_failed InsufficientGasForCode), db'')
                  else Some (Returned (r\<lparr>xr_gas_used := 32000 + xr_gas_used r + code_deposit_gas, xr_output := [],
                                         xr_contract_address := Some contract_address, xr_revert_reason := None\<rparr>),
                             set_code e db'' contract_address (xr_output r)))"

subsection \<open>Transactions\<close>

definition run_transaction ::
  "ext \<Rightarrow> (evm_address, precompile_fn) hashmap \<Rightarrow> StateDB \<Rightarrow> EvmTransaction \<Rightarrow> evm_address \<Rightarrow> TransactionContext \<Rightarrow> StateDB evm_run" where
  "run_transaction e reg db tx from ctx =
     (case et_to tx of
        None \<Rightarrow> execute_create e db tx from ctx
      | Some to \<Rightarrow>
          if is_precompile reg to then Some (execute_precompile reg db tx from to)
          else if sdb_get_code db to = [] then (case execute_transfer db tx from to of (r, db') \<Rightarrow> Some (Returned r, db'))
          else execute_call db tx from to ctx)"

definition settle_gas :: "StateDB \<Rightarrow> EvmTransaction \<Rightarrow> evm_address \<Rightarrow> TransactionContext \<Rightarrow> ExecutionResult \<Rightarrow> StateDB" where
  "settle_gas db tx from ctx r =
     (let price = effective_gas_price tx (cx_block_basefee ctx);
          gas_refund = saturating_sub (et_gas_limit tx) (xr_gas_used r);
          refund_amount = unwrap_or U256_ZERO (u256_checked_mul (u256_from_u64 gas_refund) (u256_from_u64 price));
          db = add_balance db from refund_amount;
          gas_payment = unwrap_or U256_ZERO (u256_checked_mul (u256_from_u64 (xr_gas_used r)) (u256_from_u64 price))
      in add_balance db (cx_block_coinbase ctx) gas_payment)"

definition evm_execute_transaction :: "ext \<Rightarrow> EvmExecutor \<Rightarrow> EvmTransaction \<Rightarrow> evm_address \<Rightarrow> TransactionContext \<Rightarrow> EvmExecutor evm_run" where
  "evm_execute_transaction e x tx from ctx =
     (let db = ee_state x in
      case validate_evm_transaction db tx from ctx of
        Err reason \<Rightarrow> Some (Returned (result_failed reason), x)
      | Ok _ \<Rightarrow>
          let max_gas_cost = unwrap_or U256_MAX (u256_checked_mul (u256_from_u64 (et_gas_limit tx)) (u256_from_u64 (et_max_fee_per_gas tx))) in
          case sub_balance db from max_gas_cost of (db1, ok) \<Rightarrow>
          if \<not> ok then Some (Returned (result_failed InsufficientBalanceForGas), x\<lparr>ee_state := db1\<rparr>)
          else
            case run_transaction e (ee_precompiles x) (sdb_increment_nonce db1 from) tx from ctx of
              None \<Rightarrow> None
            | Some (Panicked, db2) \<Rightarrow> Some (Panicked, x\<lparr>ee_state := db2\<rparr>)
            | Some (Returned r, db2) \<Rightarrow> Some (Returned r, x\<lparr>ee_state := settle_gas db2 tx from ctx r\<rparr>))"

definition simulate_transaction ::
  "ext \<Rightarrow> ('fq, 'fr, 'g1, 'g2) px \<Rightarrow> EvmExecutor \<Rightarrow> EvmTransaction \<Rightarrow> evm_address \<Rightarrow> TransactionContext \<Rightarrow> run_end option" where
  "simulate_transaction e px x tx from ctx =
     map_option fst (evm_execute_transaction e (EvmExecutor_new e px (ee_config x) (ee_state x)) tx from ctx)"

definition evm_estimate_gas ::
  "(u64 \<Rightarrow> u64) \<Rightarrow> ext \<Rightarrow> ('fq, 'fr, 'g1, 'g2) px \<Rightarrow> EvmExecutor \<Rightarrow> EvmTransaction \<Rightarrow> evm_address \<Rightarrow> TransactionContext \<Rightarrow>
   (evm_error option + u64) option" where
  "evm_estimate_gas scale e px x tx from ctx =
     (case simulate_transaction e px x tx from ctx of
        Some (Returned r) \<Rightarrow> Some (if xr_success r then Ok (scale (xr_gas_used r)) else Err (xr_revert_reason r))
      | _ \<Rightarrow> None)"

definition evm_call ::
  "ext \<Rightarrow> ('fq, 'fr, 'g1, 'g2) px \<Rightarrow> EvmExecutor \<Rightarrow> evm_address \<Rightarrow> u8 list \<Rightarrow> evm_address option \<Rightarrow> u256 \<Rightarrow> TransactionContext \<Rightarrow> run_end option" where
  "evm_call e px x to data from_opt v ctx =
     (let from = unwrap_or (replicate 20 0) from_opt;
          tx = \<lparr>et_tx_type = 2, et_chain_id = cx_chain_id ctx, et_nonce = sdb_get_nonce (ee_state x) from,
                et_max_priority_fee_per_gas = 0, et_max_fee_per_gas = cx_block_basefee ctx, et_gas_limit = cx_block_gas_limit ctx,
                et_to = Some to, et_value = v, et_input = data, et_access_list = [], et_v = 0,
                et_r = replicate 32 0, et_s = replicate 32 0\<rparr>
      in simulate_transaction e px x tx from ctx)"

definition evm_commit :: "ext \<Rightarrow> EvmExecutor \<Rightarrow> EvmExecutor" where
  "evm_commit e x = x\<lparr>ee_state := sdb_commit e (ee_state x)\<rparr>"

subsection \<open>Money\<close>

definition held_by :: "evm_address set \<Rightarrow> StateDB \<Rightarrow> nat" where
  "held_by A db = (\<Sum>a\<in>A. u256_val (sdb_get_balance db a))"

lemma held_by_cong: "(\<And>a. sdb_get_balance db' a = sdb_get_balance db a) \<Longrightarrow> held_by A db' = held_by A db"
  by (simp add: held_by_def)

lemma balance_le_held: "finite A \<Longrightarrow> a \<in> A \<Longrightarrow> u256_val (sdb_get_balance db a) \<le> held_by A db"
  unfolding held_by_def by (rule member_le_sum) simp_all

lemma held_by_set_account:
  assumes "finite A" "a \<in> A"
  shows "held_by A (set_account db a acc) + u256_val (sdb_get_balance db a) = held_by A db + u256_val (ac_balance acc)"
proof -
  have "(\<Sum>b\<in>A - {a}. u256_val (sdb_get_balance (set_account db a acc) b)) = (\<Sum>b\<in>A - {a}. u256_val (sdb_get_balance db b))"
    by (rule sum.cong) (simp_all add: sdb_get_balance_def)
  then show ?thesis by (simp add: held_by_def sum.remove [OF assms] sdb_get_balance_def)
qed

lemma held_by_add:
  assumes "finite A" "a \<in> A" "held_by A db + u256_val v < 2 ^ 256"
  shows "held_by A (add_balance db a v) = held_by A db + u256_val v"
proof -
  have small: "u256_val (sdb_get_balance db a) + u256_val v < 2 ^ 256"
    using balance_le_held [OF assms(1,2), of db] assms(3) by linarith
  then obtain c where c: "u256_checked_add (sdb_get_balance db a) v = Some c" "u256_val c = u256_val (sdb_get_balance db a) + u256_val v"
    using u256_checked_add_iff [of "sdb_get_balance db a" v] by (metis linorder_not_less not_None_eq)
  have "held_by A (add_balance db a v) + u256_val (sdb_get_balance db a) = held_by A db + u256_val c"
    using held_by_set_account [OF assms(1,2), of db "(sdb_get_account db a)\<lparr>ac_balance := c\<rparr>"] c(1)
    by (simp add: add_balance_def Let_def u256_saturating_add_def flip: sdb_get_balance_def)
  then show ?thesis using c(2) by simp
qed

lemma held_by_sub:
  assumes "finite A" "a \<in> A" "sub_balance db a v = (db', True)"
  shows "held_by A db' + u256_val v = held_by A db"
proof -
  obtain c where c: "u256_checked_sub (sdb_get_balance db a) v = Some c" and db': "db' = set_account db a ((sdb_get_account db a)\<lparr>ac_balance := c\<rparr>)"
    using assms(3) by (auto simp: sub_balance_cases split: option.splits)
  show ?thesis
    using held_by_set_account [OF assms(1,2), of db "(sdb_get_account db a)\<lparr>ac_balance := c\<rparr>"] c by (simp add: db' u256_checked_sub_iff(1))
qed

lemma held_by_move_value:
  assumes "move_value db from to v = Some db'" "finite A" "from \<in> A" "to \<in> A" "held_by A db < 2 ^ 256"
  shows "held_by A db' = held_by A db"
proof (cases "u256_is_zero v")
  case False
  then obtain db1 where sub: "sub_balance db from v = (db1, True)" and db': "db' = add_balance db1 to v"
    using assms(1) by (auto simp: move_value_def split: prod.splits if_splits)
  note held = held_by_sub [OF assms(2,3) sub]
  then show ?thesis using held_by_add [OF assms(2,4), of db1 v] assms(5) by (simp add: db')
qed (use assms(1) in \<open>simp add: move_value_def\<close>)

lemma held_by_storage_only: "storage_only a db db' \<Longrightarrow> held_by A db' = held_by A db"
proof (rule held_by_cong)
  fix b assume "storage_only a db db'"
  then have "(sdb_get_account db' b)\<lparr>ac_storage := []\<rparr> = (sdb_get_account db b)\<lparr>ac_storage := []\<rparr>" by (simp add: storage_only_def)
  from arg_cong [OF this, of ac_balance] show "sdb_get_balance db' b = sdb_get_balance db b" by (simp add: sdb_get_balance_def)
qed

lemma held_by_same_balance [simp]:
  "held_by A (sdb_increment_nonce db a) = held_by A db" "held_by A (set_code e db a code) = held_by A db"
  by (rule held_by_cong; simp add: sdb_increment_nonce_def set_code_def Let_def sdb_get_balance_def)+

lemma held_by_bytecode: "execute_bytecode db code input c a v g ctx = Some (r, db') \<Longrightarrow> held_by A db' = held_by A db"
  using execute_storage_only [of "EvmInterpreter_new code input c a v g ctx" db "(r, db')"]
  by (simp add: execute_bytecode_def held_by_storage_only EvmInterpreter_new_def)

definition recipient :: "ext \<Rightarrow> EvmTransaction \<Rightarrow> evm_address \<Rightarrow> evm_address" where
  "recipient e tx from = unwrap_or (compute_create_address e from (et_nonce tx)) (et_to tx)"

lemma held_by_call:
  assumes "execute_call db tx from to ctx = Some (r, db')" "finite A" "from \<in> A" "to \<in> A" "held_by A db < 2 ^ 256"
  shows "held_by A db' = held_by A db"
proof -
  note move = held_by_move_value [OF _ assms(2-5)]
  show ?thesis
    using assms(1) move held_by_bytecode
    by (auto simp: execute_call_def Let_def split: option.splits if_splits run_end.splits)
qed

lemma held_by_create:
  assumes "execute_create e db tx from ctx = Some (r, db')" "finite A" "from \<in> A"
    and "compute_create_address e from (et_nonce tx) \<in> A" "held_by A db < 2 ^ 256"
  shows "held_by A db' = held_by A db"
proof -
  note move = held_by_move_value [OF _ assms(2-5)]
  show ?thesis
    using assms(1) move held_by_bytecode
    by (auto simp: execute_create_def Let_def split: option.splits if_splits run_end.splits)
qed

lemma held_by_precompile:
  assumes "finite A" "from \<in> A" "to \<in> A" "held_by A db < 2 ^ 256"
  shows "held_by A (snd (execute_precompile reg db tx from to)) = held_by A db"
  using held_by_move_value [OF _ assms] by (auto simp: execute_precompile_def split: option.split)

lemma held_by_transfer:
  assumes "finite A" "from \<in> A" "to \<in> A" "held_by A db < 2 ^ 256"
  shows "held_by A (snd (execute_transfer db tx from to)) = held_by A db"
  using held_by_move_value [OF _ assms] by (auto simp: execute_transfer_def split: option.split)

lemma held_by_run:
  assumes "run_transaction e reg db tx from ctx = Some (r, db')" "finite A" "from \<in> A" "recipient e tx from \<in> A"
    and "held_by A db < 2 ^ 256"
  shows "held_by A db' = held_by A db"
proof (cases "et_to tx")
  case None
  then show ?thesis using held_by_create assms by (auto simp: run_transaction_def recipient_def)
next
  case (Some to)
  then have to: "to \<in> A" using assms(4) by (simp add: recipient_def)
  show ?thesis
    using assms(1) Some held_by_call [OF _ assms(2,3) to assms(5), where tx = tx and r = r and db' = db'] held_by_precompile [OF assms(2,3) to assms(5), of reg tx]
      held_by_transfer [OF assms(2,3) to assms(5), of tx]
    by (auto simp: run_transaction_def split: if_splits prod.splits)
qed

lemma held_by_settle:
  fixes tx ctx r defines "price \<equiv> unat (effective_gas_price tx (cx_block_basefee ctx))"
  assumes "finite A" "from \<in> A" "cx_block_coinbase ctx \<in> A"
    and "held_by A db + max (unat (et_gas_limit tx)) (unat (xr_gas_used r)) * price < 2 ^ 256"
  shows "held_by A (settle_gas db tx from ctx r) = held_by A db + max (unat (et_gas_limit tx)) (unat (xr_gas_used r)) * price"
proof -
  let ?l = "unat (et_gas_limit tx)" and ?u = "unat (xr_gas_used r)"
  have split: "(?l - ?u) * price + ?u * price = max ?l ?u * price" by (simp add: max_def flip: distrib_right)
  show ?thesis
    using assms(5) split
    by (simp add: settle_gas_def Let_def held_by_add [OF assms(2,3)] held_by_add [OF assms(2,4)] u256_gas_product(2)
        unat_saturating_sub price_def flip: assms(1))
qed

lemma validated_pays_gas:
  assumes "validate_evm_transaction db tx from ctx = Ok u"
  shows "\<exists>db1. sub_balance db from (unwrap_or U256_MAX (u256_checked_mul (u256_from_u64 (et_gas_limit tx)) (u256_from_u64 (et_max_fee_per_gas tx)))) = (db1, True)"
    (is "\<exists>db1. sub_balance db from ?cost = _")
proof -
  have "u256_checked_sub (sdb_get_balance db from) (max_cost tx) \<noteq> None"
    using assms by (auto simp: validate_evm_transaction_def Let_def split: if_splits)
  then have "u256_val (max_cost tx) \<le> u256_val (sdb_get_balance db from)" by (simp only: u256_checked_sub_iff(2) linorder_not_less)
  moreover have "u256_val ?cost \<le> u256_val (max_cost tx)"
    using u256_val_less [of ?cost] by (simp add: max_cost_val u256_gas_product(2))
  ultimately have "u256_checked_sub (sdb_get_balance db from) ?cost \<noteq> None" by (simp only: u256_checked_sub_iff(2) linorder_not_less le_trans)
  then show ?thesis by (auto simp: sub_balance_cases)
qed

lemma execute_transaction_ok:
  assumes "evm_execute_transaction e x tx from ctx = Some (Returned r, x')" "validate_evm_transaction (ee_state x) tx from ctx = Ok u"
  obtains db1 db2 where
    "sub_balance (ee_state x) from (unwrap_or U256_MAX (u256_checked_mul (u256_from_u64 (et_gas_limit tx)) (u256_from_u64 (et_max_fee_per_gas tx)))) = (db1, True)"
    "run_transaction e (ee_precompiles x) (sdb_increment_nonce db1 from) tx from ctx = Some (Returned r, db2)"
    "x' = x\<lparr>ee_state := settle_gas db2 tx from ctx r\<rparr>"
proof -
  obtain db1 where sub: "sub_balance (ee_state x) from (unwrap_or U256_MAX (u256_checked_mul (u256_from_u64 (et_gas_limit tx)) (u256_from_u64 (et_max_fee_per_gas tx)))) = (db1, True)"
    using validated_pays_gas [OF assms(2)] by blast
  then obtain db2 where "run_transaction e (ee_precompiles x) (sdb_increment_nonce db1 from) tx from ctx = Some (Returned r, db2)"
    "x' = x\<lparr>ee_state := settle_gas db2 tx from ctx r\<rparr>"
    using assms(1) by (auto simp: evm_execute_transaction_def assms(2) Let_def split: option.splits run_end.splits)
  then show ?thesis by (rule that [OF sub])
qed

text \<open>
  C9. The money a transaction leaves in any set of accounts that holds the sender, the recipient and the
  beneficiary: the sender is charged the gas limit at the maximum fee, and refund and payment together give
  back the larger of limit and gas used, at the effective price. So the difference between maximum fee and
  effective price is destroyed for the whole limit, and a run that overshoots its limit creates money. The
  runs themselves only move money.
\<close>

theorem transaction_accounting:
  assumes "evm_execute_transaction e x tx from ctx = Some (Returned r, x')"
    and "validate_evm_transaction (ee_state x) tx from ctx = Ok ()"
    and "finite A" "{from, recipient e tx from, cx_block_coinbase ctx} \<subseteq> A"
    and "held_by A (ee_state x) + max (unat (et_gas_limit tx)) (unat (xr_gas_used r)) * unat (effective_gas_price tx (cx_block_basefee ctx)) < 2 ^ 256"
  shows "held_by A (ee_state x') + unat (et_gas_limit tx) * unat (et_max_fee_per_gas tx) =
    held_by A (ee_state x) + max (unat (et_gas_limit tx)) (unat (xr_gas_used r)) * unat (effective_gas_price tx (cx_block_basefee ctx))"
proof -
  obtain db1 db2 where sub: "sub_balance (ee_state x) from (unwrap_or U256_MAX (u256_checked_mul (u256_from_u64 (et_gas_limit tx)) (u256_from_u64 (et_max_fee_per_gas tx)))) = (db1, True)"
    and run: "run_transaction e (ee_precompiles x) (sdb_increment_nonce db1 from) tx from ctx = Some (Returned r, db2)"
    and x': "x' = x\<lparr>ee_state := settle_gas db2 tx from ctx r\<rparr>"
    using execute_transaction_ok [OF assms(1,2)] by blast
  have paid: "held_by A db1 + unat (et_gas_limit tx) * unat (et_max_fee_per_gas tx) = held_by A (ee_state x)"
    using held_by_sub [OF assms(3) _ sub] assms(4) by (simp add: u256_gas_product(2))
  have same: "held_by A db2 = held_by A db1"
    using held_by_run [OF run assms(3)] assms(4,5) paid by simp
  have "held_by A db2 + max (unat (et_gas_limit tx)) (unat (xr_gas_used r)) * unat (effective_gas_price tx (cx_block_basefee ctx)) < 2 ^ 256"
    using same paid assms(5) by linarith
  from held_by_settle [OF assms(3) _ _ this] show ?thesis using assms(4) same paid by (simp add: x')
qed

subsection \<open>Examples\<close>

text \<open>The contract at \<open>[2]\<close> stores a word; the sender \<open>[1]\<close> gives the call seven units of gas above the base.\<close>

definition store_db :: StateDB where
  "store_db = StateDB_new\<lparr>sd_accounts := [([1], new_with_balance (u256_from_u64 1000000)), ([2], AccountState_default\<lparr>ac_code := store_code\<rparr>)]\<rparr>"

definition store_tx :: EvmTransaction where
  "store_tx = \<lparr>et_tx_type = 2, et_chain_id = 7777, et_nonce = 0, et_max_priority_fee_per_gas = 0, et_max_fee_per_gas = 2,
     et_gas_limit = 21007, et_to = Some [2], et_value = U256_ZERO, et_input = [], et_access_list = [], et_v = 0, et_r = [], et_s = []\<rparr>"

definition store_ctx :: TransactionContext where
  "store_ctx = TransactionContext_default\<lparr>cx_block_basefee := 2, cx_block_coinbase := [3]\<rparr>"

lemma store_validates: "validate_evm_transaction store_db store_tx [1] store_ctx = Ok ()"
  by code_simp

lemma registry_lengths:
  assumes "length a \<noteq> 20" shows "\<not> is_precompile (PrecompileRegistry_new e px) a"
proof
  assume "is_precompile (PrecompileRegistry_new e px) a"
  then obtain f where "hm_get (PrecompileRegistry_new e px) a = Some f" by (auto simp: is_precompile_def hm_contains_def)
  from hm_get_inserts [OF this [unfolded PrecompileRegistry_new_def]] show False
    using assms by (auto simp: precompile_addr_def precompile_addr2_def)
qed

lemma store_call:
  assumes "sdb_get_code db [2] = store_code" "\<not> is_precompile reg [2]"
  shows "run_transaction e reg db store_tx [1] store_ctx =
    Some (Returned (success_transfer 26006), sdb_set_storage db [2] (u256_to_be_bytes U256_ONE) (U256 7 0 0 0))"
proof -
  have "store_code \<noteq> []" by (simp add: store_code_def)
  then show ?thesis
    using assms
    by (simp add: run_transaction_def store_tx_def execute_call_def move_value_def u256_is_zero_iff Let_def execute_bytecode_def
        store_run_any success_transfer_def)
qed

lemma sdb_get_code_pay [simp]:
  "sub_balance db a v = (db', ok) \<Longrightarrow> sdb_get_code (sdb_increment_nonce db' c) b = sdb_get_code db b"
  by (auto simp: sub_balance_cases sdb_get_code_def sdb_increment_nonce_def Let_def split: option.splits)

lemma store_transaction:
  "\<exists>x'. evm_execute_transaction sample_ext (with_state sample_ext sample_px store_db) store_tx [1] store_ctx = Some (Returned (success_transfer 26006), x')"
proof -
  have code: "sdb_get_code store_db [2] = store_code"
    by (simp add: sdb_get_code_def sdb_get_account_def store_db_def StateDB_new_def hm_get_def)
  show ?thesis
    using validated_pays_gas [OF store_validates]
    by (auto simp: evm_execute_transaction_def with_state_def EvmExecutor_new_def store_validates Let_def store_call code registry_lengths)
qed

theorem transaction_accounting_witness:
  "\<exists>x'. evm_execute_transaction sample_ext (with_state sample_ext sample_px store_db) store_tx [1] store_ctx = Some (Returned (success_transfer 26006), x')
      \<and> held_by {[1], [2], [3]} (ee_state x') + 21007 * 2 = held_by {[1], [2], [3]} store_db + 26006 * 2"
proof -
  have held: "held_by {[1], [2], [3]} store_db = 1000000"
    by (simp add: held_by_def sdb_get_balance_def sdb_get_account_def store_db_def StateDB_new_def hm_get_def new_with_balance_def AccountState_default_def)
  have price: "effective_gas_price store_tx (cx_block_basefee store_ctx) = 2"
    by (simp add: effective_gas_price_def store_tx_def store_ctx_def saturating_add_def saturating_sub_def)
  obtain x' where run: "evm_execute_transaction sample_ext (with_state sample_ext sample_px store_db) store_tx [1] store_ctx = Some (Returned (success_transfer 26006), x')"
    using store_transaction by blast
  have "held_by {[1], [2], [3]} (ee_state x') + unat (et_gas_limit store_tx) * unat (et_max_fee_per_gas store_tx) =
    held_by {[1], [2], [3]} (ee_state (with_state sample_ext sample_px store_db))
    + max (unat (et_gas_limit store_tx)) (unat (xr_gas_used (success_transfer 26006))) * unat (effective_gas_price store_tx (cx_block_basefee store_ctx))"
  proof (rule transaction_accounting [OF run])
    show "validate_evm_transaction (ee_state (with_state sample_ext sample_px store_db)) store_tx [1] store_ctx = Ok ()"
      using store_validates by (simp add: with_state_def EvmExecutor_new_def)
    show "{[1], recipient sample_ext store_tx [1], cx_block_coinbase store_ctx} \<subseteq> {[1], [2], [3]}"
      by (simp add: recipient_def store_tx_def store_ctx_def)
  qed (simp_all add: held price with_state_def EvmExecutor_new_def, simp add: store_tx_def success_transfer_def)
  moreover have "unat (et_gas_limit store_tx) = 21007" "unat (et_max_fee_per_gas store_tx) = 2" "unat (xr_gas_used (success_transfer 26006)) = 26006"
    "ee_state (with_state sample_ext sample_px store_db) = store_db"
    by (simp_all add: store_tx_def success_transfer_def with_state_def EvmExecutor_new_def)
  ultimately show ?thesis using run by (simp only: price) auto
qed

subsection \<open>Failed calls\<close>

lemma storage_only_balance: "storage_only a db db' \<Longrightarrow> sdb_get_balance db' b = sdb_get_balance db b"
  using held_by_storage_only [of a db db' "{b}"] by (simp add: held_by_def)

text \<open>
  A call that fails keeps the value it moved: whatever the contract's code does, reverts, runs out of gas
  or jumps to a bad address, every balance after the call is the balance after the transfer of the value.
  Nothing is rolled back. The witness is a contract that reverts at once and keeps five units.
\<close>

theorem failed_call_keeps_value:
  assumes "execute_call db tx from to ctx = Some (Returned r, db')"
    and "21000 \<le> et_gas_limit tx" "move_value db from to (et_value tx) = Some db1"
  shows "sdb_get_balance db' a = sdb_get_balance db1 a"
proof -
  have same: "sdb_get_balance db2 a = sdb_get_balance db1 a"
    if "execute_bytecode db1 code input from to v g ctx = Some (y, db2)" for code input v g y db2
    using storage_only_balance execute_storage_only [OF that [unfolded execute_bytecode_def]] by simp
  have "\<not> et_gas_limit tx < 21000" using assms(2) by simp
  with assms(1) show ?thesis
    unfolding execute_call_def Let_def assms(3) option.case
    by (auto dest: same split: option.splits if_splits run_end.splits)
qed

definition revert_db :: StateDB where
  "revert_db = StateDB_new\<lparr>sd_accounts := [([1], new_with_balance (u256_from_u64 1000000)), ([2], AccountState_default\<lparr>ac_code := [0x60, 0, 0x60, 0, 0xFD]\<rparr>)]\<rparr>"

definition revert_tx :: EvmTransaction where
  "revert_tx = store_tx\<lparr>et_value := u256_from_u64 5, et_gas_limit := 30000\<rparr>"

lemma push_zero:
  "push_word [0x60, 0, 0x60, 0, 0xFD] (Suc 0) (Suc 0) = U256_ZERO"
  "push_word [0x60, 0, 0x60, 0, 0xFD] (Suc (Suc (Suc 0))) (Suc 0) = U256_ZERO"
  by code_simp+

lemma revert_run:
  "execute (EvmInterpreter_new [0x60, 0, 0x60, 0, 0xFD] input caller address v 9000 ctx) db =
     Some (Returned (result_failed Reverted\<lparr>xr_gas_used := 9\<rparr>), db)"
  by (simp add: EvmInterpreter_new_def execute.simps execute_opcode_def Let_def op_push_def vm_push_def opcode_gas_def op_return_def
      with_pop_def with_memory_def memory_slice_def push_zero low_u64_def U256_ZERO_def run_result_def result_failed_def)

theorem failed_call_keeps_value_witness:
  "\<exists>r db'. execute_call revert_db revert_tx [1] [2] store_ctx = Some (Returned r, db') \<and> \<not> xr_success r \<and> sdb_get_balance db' [2] = u256_from_u64 5"
proof -
  obtain db1 where move: "move_value revert_db [1] [2] (et_value revert_tx) = Some db1"
    and five: "sdb_get_balance db1 [2] = u256_from_u64 5" and code: "sdb_get_code db1 [2] = [0x60, 0, 0x60, 0, 0xFD]"
  proof -
    have "map_option (\<lambda>d. (sdb_get_balance d [2], sdb_get_code d [2])) (move_value revert_db [1] [2] (et_value revert_tx))
      = Some (u256_from_u64 5, [0x60, 0, 0x60, 0, 0xFD])" by code_simp
    then show ?thesis using that by (auto simp: map_option_eq_Some)
  qed
  obtain db' where run: "execute_call revert_db revert_tx [1] [2] store_ctx = Some (Returned (result_failed Reverted\<lparr>xr_gas_used := 21009\<rparr>), db')"
  proof -
    have "et_gas_limit revert_tx = 30000" "21000 \<le> et_gas_limit revert_tx" by (simp_all add: revert_tx_def)
    then show ?thesis using that by (simp add: execute_call_def move code execute_bytecode_def Let_def revert_run result_failed_def)
  qed
  have "sdb_get_balance db' [2] = sdb_get_balance db1 [2]"
    by (rule failed_call_keeps_value [OF run _ move]) (simp add: revert_tx_def)
  with run five show ?thesis by (auto simp: result_failed_def)
qed

subsection \<open>Nonces\<close>

lemma nonce_simps [simp]:
  "sdb_get_nonce (add_balance db a v) b = sdb_get_nonce db b"
  "sdb_get_nonce (set_code e db a code) b = sdb_get_nonce db b"
  "sdb_get_nonce (sdb_increment_nonce db a) b = (if b = a then saturating_add (sdb_get_nonce db a) 1 else sdb_get_nonce db b)"
  by (simp_all add: sdb_get_nonce_def add_balance_def set_code_def sdb_increment_nonce_def Let_def)

lemma nonce_sub_balance: "sub_balance db a v = (db', ok) \<Longrightarrow> sdb_get_nonce db' b = sdb_get_nonce db b"
  by (auto simp: sub_balance_cases sdb_get_nonce_def split: option.splits)

lemma nonce_move_value: "move_value db from to v = Some db' \<Longrightarrow> sdb_get_nonce db' b = sdb_get_nonce db b"
  by (auto simp: move_value_def nonce_sub_balance split: if_splits prod.splits)

lemma nonce_bytecode:
  assumes "execute_bytecode db code input c a v g ctx = Some (r, db')"
  shows "sdb_get_nonce db' b = sdb_get_nonce db b"
proof -
  have "storage_only a db db'"
    using execute_storage_only [OF assms [unfolded execute_bytecode_def]] by (simp add: EvmInterpreter_new_def)
  then have "(sdb_get_account db' b)\<lparr>ac_storage := []\<rparr> = (sdb_get_account db b)\<lparr>ac_storage := []\<rparr>" by (simp add: storage_only_def)
  from arg_cong [OF this, of ac_nonce] show ?thesis by (simp add: sdb_get_nonce_def)
qed

lemma nonce_run:
  assumes "run_transaction e reg db tx from ctx = Some (r, db')"
  shows "sdb_get_nonce db' b = sdb_get_nonce db b"
proof -
  have move_same: "move_value db src dst v = Some db' \<Longrightarrow> sdb_get_nonce db' = sdb_get_nonce db" for db src dst v db'
    by (rule ext) (rule nonce_move_value)
  have bytecode_same: "execute_bytecode db code input c a v g ctx = Some (r, db') \<Longrightarrow> sdb_get_nonce db' = sdb_get_nonce db" for db code input c a v g r db'
    by (rule ext) (rule nonce_bytecode)
  show ?thesis
  proof (cases "et_to tx")
    case None
    then show ?thesis
      using assms by (auto simp: run_transaction_def execute_create_def Let_def dest!: move_same bytecode_same split: option.splits if_splits run_end.splits)
  next
    case (Some to)
    then show ?thesis
      using assms
      by (auto simp: run_transaction_def execute_precompile_def execute_transfer_def execute_call_def Let_def
          dest!: move_same bytecode_same split: option.splits if_splits run_end.splits prod.splits)
  qed
qed

text \<open>
  C23. An accepted transaction cannot be executed twice: whether it succeeded, reverted or failed, the sender's
  nonce has grown by one, and the same transaction is refused afterwards for its nonce.
\<close>

theorem evm_no_replay:
  assumes "evm_execute_transaction e x tx from ctx = Some (Returned r, x')"
    and "validate_evm_transaction (ee_state x) tx from ctx = Ok ()" "et_nonce tx \<noteq> - 1"
  shows "validate_evm_transaction (ee_state x') tx from ctx = Err (InvalidNonce (et_nonce tx + 1) (et_nonce tx))"
proof -
  obtain db1 db2 where sub: "sub_balance (ee_state x) from (unwrap_or U256_MAX (u256_checked_mul (u256_from_u64 (et_gas_limit tx)) (u256_from_u64 (et_max_fee_per_gas tx)))) = (db1, True)"
    and run: "run_transaction e (ee_precompiles x) (sdb_increment_nonce db1 from) tx from ctx = Some (Returned r, db2)"
    and x': "x' = x\<lparr>ee_state := settle_gas db2 tx from ctx r\<rparr>"
    using execute_transaction_ok [OF assms(1,2)] by blast
  have valid: "et_chain_id tx = cx_chain_id ctx" "et_nonce tx = sdb_get_nonce (ee_state x) from"
    using assms(2) by (auto simp: validate_evm_transaction_def Let_def split: if_splits)
  have "sdb_get_nonce (ee_state x') from = saturating_add (et_nonce tx) 1"
    using nonce_run [OF run, of "from"] nonce_sub_balance [OF sub, of "from"] valid(2) by (simp add: x' settle_gas_def Let_def)
  moreover have "unat (et_nonce tx) \<noteq> unat (- 1 :: u64)" using assms(3) by (simp only: word_unat_eq_iff [symmetric] not_False_eq_True)
  then have "unat (et_nonce tx) + 1 < 2 ^ 64"
    using unat_less_power [of "et_nonce tx"] by (simp add: unsigned_minus_1_eq_mask mask_eq_exp_minus_1)
  then have "saturating_add (et_nonce tx) 1 = et_nonce tx + 1" by (intro saturating_add_exact) simp
  ultimately show ?thesis by (simp add: validate_evm_transaction_def valid(1) Let_def)
qed

theorem evm_no_replay_witness:
  "\<exists>x'. evm_execute_transaction sample_ext (with_state sample_ext sample_px store_db) store_tx [1] store_ctx = Some (Returned (success_transfer 26006), x')
      \<and> validate_evm_transaction (ee_state x') store_tx [1] store_ctx = Err (InvalidNonce (et_nonce store_tx + 1) (et_nonce store_tx))"
proof -
  obtain x' where run: "evm_execute_transaction sample_ext (with_state sample_ext sample_px store_db) store_tx [1] store_ctx = Some (Returned (success_transfer 26006), x')"
    using store_transaction by blast
  moreover have "validate_evm_transaction (ee_state x') store_tx [1] store_ctx = Err (InvalidNonce (et_nonce store_tx + 1) (et_nonce store_tx))"
    by (rule evm_no_replay [OF run])
      (use store_validates in \<open>simp add: with_state_def EvmExecutor_new_def\<close>, simp add: store_tx_def)
  ultimately show ?thesis by blast
qed

end
