(* ===== verification/EVM_Chain.thy ===== *)
theory EVM_Chain
  imports EVM_Executor
begin

unbundle bit_operations_syntax

section \<open>The EVM side chain\<close>

text \<open>
  \<open>pyrax-node/src/evm/chain.rs\<close> and the block types of \<open>evm/mod.rs\<close>: the block producer with its queue, the
  base fee, receipts and roots, and the chain of blocks with its state. The clock is an argument. Producing a
  block is \<open>None\<close> when a transaction does not return; a transaction that panics leaves the chain and the state as
  they were and the queue with what had been put back.
\<close>

record EvmBlockHeader =
  eh_number :: u64
  eh_hash :: b256
  eh_parent_hash :: b256
  eh_state_root :: b256
  eh_transactions_root :: b256
  eh_receipts_root :: b256
  eh_logs_bloom :: "u8 list"
  eh_difficulty :: u64
  eh_gas_limit :: u64
  eh_gas_used :: u64
  eh_timestamp :: u64
  eh_extra_data :: "u8 list"
  eh_mix_hash :: b256
  eh_nonce :: u64
  eh_base_fee_per_gas :: u64
  eh_withdrawals_root :: "b256 option"
  eh_blob_gas_used :: "u64 option"
  eh_excess_blob_gas :: "u64 option"

definition EvmBlockHeader_default :: EvmBlockHeader where
  "EvmBlockHeader_default =
     \<lparr>eh_number = 0, eh_hash = replicate 32 0, eh_parent_hash = replicate 32 0, eh_state_root = replicate 32 0,
      eh_transactions_root = replicate 32 0, eh_receipts_root = replicate 32 0, eh_logs_bloom = replicate 256 0,
      eh_difficulty = 0, eh_gas_limit = 30000000, eh_gas_used = 0, eh_timestamp = 0, eh_extra_data = [],
      eh_mix_hash = replicate 32 0, eh_nonce = 0, eh_base_fee_per_gas = 1000000000, eh_withdrawals_root = None,
      eh_blob_gas_used = None, eh_excess_blob_gas = None\<rparr>"

record TransactionReceipt =
  rc_transaction_hash :: b256
  rc_transaction_index :: u64
  rc_block_hash :: b256
  rc_block_number :: u64
  rc_from :: evm_address
  rc_to :: "evm_address option"
  rc_cumulative_gas_used :: u64
  rc_gas_used :: u64
  rc_contract_address :: "evm_address option"
  rc_logs :: "Log list"
  rc_logs_bloom :: "u8 list"
  rc_status :: u8
  rc_effective_gas_price :: u64

record EvmBlock =
  ek_header :: EvmBlockHeader
  ek_transactions :: "SignedTransaction list"
  ek_receipts :: "TransactionReceipt list"

definition EvmBlock_genesis :: "u64 \<Rightarrow> EvmChainConfig \<Rightarrow> EvmBlock" where
  "EvmBlock_genesis now config =
     \<lparr>ek_header = EvmBlockHeader_default\<lparr>eh_gas_limit := ec_block_gas_limit config, eh_timestamp := now,
        eh_extra_data := ascii_bytes ''PYRAX EVM Genesis'', eh_base_fee_per_gas := ec_base_fee_per_gas config\<rparr>,
      ek_transactions = [], ek_receipts = []\<rparr>"

definition EvmBlock_compute_hash :: "ext \<Rightarrow> EvmBlock \<Rightarrow> b256" where
  "EvmBlock_compute_hash e blk =
     (let h = ek_header blk
      in ext_blake3 e (u64_to_be_bytes (eh_number h) @ eh_parent_hash h @ eh_state_root h @ eh_transactions_root h @ u64_to_be_bytes (eh_timestamp h)))"

subsection \<open>Roots\<close>

definition compute_transactions_root :: "ext \<Rightarrow> SignedTransaction list \<Rightarrow> b256" where
  "compute_transactions_root e txs = ext_blake3 e (concat (map signed_hash txs))"

definition compute_receipts_root :: "ext \<Rightarrow> TransactionReceipt list \<Rightarrow> b256" where
  "compute_receipts_root e receipts =
     ext_blake3 e (concat (map (\<lambda>r. rc_transaction_hash r @ [rc_status r] @ u64_to_be_bytes (rc_cumulative_gas_used r)) receipts))"

definition bloom_mark :: "ext \<Rightarrow> u8 list \<Rightarrow> u8 list \<Rightarrow> u8 list" where
  "bloom_mark e data bloom =
     (let idx = unat (hd (ext_blake3 e data)) mod 256
      in bloom[idx div 8 := bloom ! (idx div 8) OR push_bit (idx mod 8) 1])"

definition compute_logs_bloom :: "ext \<Rightarrow> Log list \<Rightarrow> u8 list" where
  "compute_logs_bloom e logs =
     fold (\<lambda>log bloom. fold (bloom_mark e) (lg_topics log) (bloom_mark e (lg_address log) bloom)) logs (replicate 256 0)"

subsection \<open>The producer\<close>

record BlockProducer =
  bp_config :: EvmChainConfig
  bp_coinbase :: evm_address
  bp_pending_transactions :: "SignedTransaction list"
  bp_last_block_time :: u64

definition BlockProducer_new :: "EvmChainConfig \<Rightarrow> evm_address \<Rightarrow> BlockProducer" where
  "BlockProducer_new config coinbase =
     \<lparr>bp_config = config, bp_coinbase = coinbase, bp_pending_transactions = [], bp_last_block_time = 0\<rparr>"

definition producer_add_transaction :: "BlockProducer \<Rightarrow> SignedTransaction \<Rightarrow> BlockProducer \<times> b256" where
  "producer_add_transaction p tx = (p\<lparr>bp_pending_transactions := bp_pending_transactions p @ [tx]\<rparr>, signed_hash tx)"

definition producer_pending_count :: "BlockProducer \<Rightarrow> nat" where
  "producer_pending_count p = length (bp_pending_transactions p)"

definition saturating_mul :: "u64 \<Rightarrow> u64 \<Rightarrow> u64" where
  "saturating_mul a b = (if unat a * unat b < 2 ^ 64 then a * b else - 1)"

text \<open>The division by the gas target panics when the parent's gas limit is below two.\<close>

definition calculate_base_fee :: "EvmChainConfig \<Rightarrow> EvmBlock \<Rightarrow> u64 option" where
  "calculate_base_fee config parent =
     (let target = eh_gas_limit (ek_header parent) div 2; used = eh_gas_used (ek_header parent); fee = eh_base_fee_per_gas (ek_header parent) in
      if used = target then Some fee
      else if target < used then
        do { q \<leftarrow> div_u64 (saturating_mul fee (used - target)) target;
             Some (saturating_add fee (max (q div 8) 1)) }
      else
        do { q \<leftarrow> div_u64 (saturating_mul fee (target - used)) target;
             Some (max (saturating_sub fee (q div 8)) (ec_base_fee_per_gas config)) })"

definition should_produce_block :: "BlockProducer \<Rightarrow> u64 \<Rightarrow> bool" where
  "should_produce_block p current_time = (bp_last_block_time p + ec_block_time_ms (bp_config p) div 1000 \<le> current_time)"

record production =
  pd_executor :: EvmExecutor
  pd_executed :: "SignedTransaction list"
  pd_receipts :: "TransactionReceipt list"
  pd_cumulative_gas :: u64
  pd_logs :: "Log list"
  pd_requeued :: "SignedTransaction list"

definition make_receipt :: "ext \<Rightarrow> TransactionContext \<Rightarrow> production \<Rightarrow> SignedTransaction \<Rightarrow> evm_address \<Rightarrow> ExecutionResult \<Rightarrow> TransactionReceipt" where
  "make_receipt e ctx s tx from r =
     \<lparr>rc_transaction_hash = signed_hash tx, rc_transaction_index = of_nat (length (pd_executed s)), rc_block_hash = replicate 32 0,
      rc_block_number = cx_block_number ctx, rc_from = from, rc_to = et_to (sg_transaction tx),
      rc_cumulative_gas_used = pd_cumulative_gas s + xr_gas_used r, rc_gas_used = xr_gas_used r,
      rc_contract_address = xr_contract_address r, rc_logs = xr_logs r, rc_logs_bloom = compute_logs_bloom e (xr_logs r),
      rc_status = (if xr_success r then 1 else 0),
      rc_effective_gas_price = effective_gas_price (sg_transaction tx) (cx_block_basefee ctx)\<rparr>"

text \<open>\<open>Inl\<close> is a panic, with what had been put back into the queue.\<close>

fun produce_loop ::
  "ext \<Rightarrow> u64 \<Rightarrow> TransactionContext \<Rightarrow> SignedTransaction list \<Rightarrow> production \<Rightarrow> (SignedTransaction list + production) option" where
  "produce_loop e gas_limit ctx [] s = Some (Inr s)"
| "produce_loop e gas_limit ctx (tx # pending) s =
     (if gas_limit \<le> pd_cumulative_gas s then produce_loop e gas_limit ctx pending (s\<lparr>pd_requeued := pd_requeued s @ [tx]\<rparr>)
      else
        let from = unwrap_or (replicate 20 0) (recover_sender tx) in
        case evm_execute_transaction e (pd_executor s) (sg_transaction tx) from ctx of
          None \<Rightarrow> None
        | Some (Panicked, x) \<Rightarrow> Some (Inl (pd_requeued s))
        | Some (Returned r, x) \<Rightarrow>
            produce_loop e gas_limit ctx pending
              (s\<lparr>pd_executor := x, pd_executed := pd_executed s @ [tx], pd_receipts := pd_receipts s @ [make_receipt e ctx s tx from r],
                 pd_cumulative_gas := pd_cumulative_gas s + xr_gas_used r, pd_logs := pd_logs s @ xr_logs r\<rparr>))"

definition producer_context :: "u64 \<Rightarrow> BlockProducer \<Rightarrow> EvmBlock \<Rightarrow> u64 \<Rightarrow> TransactionContext" where
  "producer_context now p parent basefee =
     \<lparr>cx_block_number = eh_number (ek_header parent) + 1,
      cx_block_timestamp = max now (eh_timestamp (ek_header parent) + ec_block_time_ms (bp_config p) div 1000),
      cx_block_coinbase = bp_coinbase p, cx_block_gas_limit = ec_block_gas_limit (bp_config p), cx_block_difficulty = 0,
      cx_block_basefee = basefee, cx_chain_id = ec_chain_id (bp_config p), cx_prev_randao = eh_hash (ek_header parent)\<rparr>"

definition assemble_block :: "ext \<Rightarrow> BlockProducer \<Rightarrow> EvmBlock \<Rightarrow> TransactionContext \<Rightarrow> production \<Rightarrow> b256 \<Rightarrow> EvmBlock" where
  "assemble_block e p parent ctx s state_root =
     (let blk = \<lparr>ek_header =
          \<lparr>eh_number = cx_block_number ctx, eh_hash = replicate 32 0, eh_parent_hash = eh_hash (ek_header parent),
           eh_state_root = state_root, eh_transactions_root = compute_transactions_root e (pd_executed s),
           eh_receipts_root = compute_receipts_root e (pd_receipts s), eh_logs_bloom = compute_logs_bloom e (pd_logs s),
           eh_difficulty = 0, eh_gas_limit = ec_block_gas_limit (bp_config p), eh_gas_used = pd_cumulative_gas s,
           eh_timestamp = cx_block_timestamp ctx, eh_extra_data = [], eh_mix_hash = replicate 32 0, eh_nonce = 0,
           eh_base_fee_per_gas = cx_block_basefee ctx, eh_withdrawals_root = None, eh_blob_gas_used = None, eh_excess_blob_gas = None\<rparr>,
          ek_transactions = pd_executed s, ek_receipts = pd_receipts s\<rparr>;
        h = EvmBlock_compute_hash e blk
      in blk\<lparr>ek_header := (ek_header blk)\<lparr>eh_hash := h\<rparr>, ek_receipts := map (\<lambda>r. r\<lparr>rc_block_hash := h\<rparr>) (ek_receipts blk)\<rparr>)"

definition produce_block ::
  "ext \<Rightarrow> u64 \<Rightarrow> BlockProducer \<Rightarrow> EvmBlock \<Rightarrow> EvmExecutor \<Rightarrow> (BlockProducer \<times> (EvmBlock \<times> EvmExecutor) option) option" where
  "produce_block e now p parent x =
     (case calculate_base_fee (bp_config p) parent of
        None \<Rightarrow> Some (p, None)
      | Some basefee \<Rightarrow>
          let ctx = producer_context now p parent basefee in
          case produce_loop e (ec_block_gas_limit (bp_config p)) ctx (bp_pending_transactions p)
                 \<lparr>pd_executor = x, pd_executed = [], pd_receipts = [], pd_cumulative_gas = 0, pd_logs = [], pd_requeued = []\<rparr> of
            None \<Rightarrow> None
          | Some (Inl requeued) \<Rightarrow> Some (p\<lparr>bp_pending_transactions := requeued\<rparr>, None)
          | Some (Inr s) \<Rightarrow>
              let x' = evm_commit e (pd_executor s);
                  blk = assemble_block e p parent ctx s (sd_state_root (ee_state x'))
              in Some (p\<lparr>bp_pending_transactions := pd_requeued s, bp_last_block_time := cx_block_timestamp ctx\<rparr>, Some (blk, x')))"

subsection \<open>The chain\<close>

record EvmChain =
  ch_config :: EvmChainConfig
  ch_blocks :: "(u64, EvmBlock) hashmap"
  ch_block_hashes :: "(b256, u64) hashmap"
  ch_head :: u64
  ch_state :: StateDB
  ch_producer :: BlockProducer

definition EvmChain_new :: "u64 \<Rightarrow> EvmChainConfig \<Rightarrow> evm_address \<Rightarrow> EvmChain" where
  "EvmChain_new now config coinbase =
     (let genesis = EvmBlock_genesis now config
      in \<lparr>ch_config = config, ch_blocks = [(0, genesis)], ch_block_hashes = [(eh_hash (ek_header genesis), 0)], ch_head = 0,
          ch_state = StateDB_new, ch_producer = BlockProducer_new config coinbase\<rparr>)"

definition head_number :: "EvmChain \<Rightarrow> u64" where
  "head_number c = ch_head c"

definition ch_get_block :: "EvmChain \<Rightarrow> u64 \<Rightarrow> EvmBlock option" where
  "ch_get_block c number = hm_get (ch_blocks c) number"

definition get_block_by_hash :: "EvmChain \<Rightarrow> b256 \<Rightarrow> EvmBlock option" where
  "get_block_by_hash c hash = do { number \<leftarrow> hm_get (ch_block_hashes c) hash; ch_get_block c number }"

definition latest_block :: "EvmChain \<Rightarrow> EvmBlock option" where
  "latest_block c = ch_get_block c (head_number c)"

text \<open>\<open>False\<close> for the error \<open>Invalid chain ID\<close>.\<close>

definition ch_submit_transaction :: "EvmChain \<Rightarrow> SignedTransaction \<Rightarrow> EvmChain \<times> bool" where
  "ch_submit_transaction c tx =
     (if et_chain_id (sg_transaction tx) \<noteq> ec_chain_id (ch_config c) then (c, False)
      else (c\<lparr>ch_producer := fst (producer_add_transaction (ch_producer c) tx)\<rparr>, True))"

definition produce_next_block :: "ext \<Rightarrow> ('fq, 'fr, 'g1, 'g2) px \<Rightarrow> u64 \<Rightarrow> EvmChain \<Rightarrow> (EvmChain \<times> EvmBlock option) option" where
  "produce_next_block e px now c =
     (case latest_block c of
        None \<Rightarrow> Some (c, None)
      | Some parent \<Rightarrow>
          (case produce_block e now (ch_producer c) parent (EvmExecutor_new e px (ch_config c) (ch_state c)) of
             None \<Rightarrow> None
           | Some (p, None) \<Rightarrow> Some (c\<lparr>ch_producer := p\<rparr>, None)
           | Some (p, Some (blk, x)) \<Rightarrow>
               let n = eh_number (ek_header blk)
               in Some (c\<lparr>ch_producer := p, ch_state := ee_state x, ch_blocks := hm_insert n blk (ch_blocks c),
                         ch_block_hashes := hm_insert (eh_hash (ek_header blk)) n (ch_block_hashes c), ch_head := n\<rparr>, Some blk)))"

fun find_tx :: "b256 \<Rightarrow> nat \<Rightarrow> SignedTransaction list \<Rightarrow> (SignedTransaction \<times> nat) option" where
  "find_tx h i [] = None"
| "find_tx h i (tx # txs) = (if signed_hash tx = h then Some (tx, i) else find_tx h (i + 1) txs)"

fun find_map :: "('a \<Rightarrow> 'b option) \<Rightarrow> 'a list \<Rightarrow> 'b option" where
  "find_map f [] = None"
| "find_map f (x # xs) = (case f x of None \<Rightarrow> find_map f xs | Some y \<Rightarrow> Some y)"

definition ch_get_transaction :: "EvmChain \<Rightarrow> b256 \<Rightarrow> (SignedTransaction \<times> u64 \<times> u64) option" where
  "ch_get_transaction c hash =
     find_map (\<lambda>blk. map_option (\<lambda>(tx, i). (tx, eh_number (ek_header blk), of_nat i)) (find_tx hash 0 (ek_transactions blk)))
       (hm_values (ch_blocks c))"

definition get_receipt :: "EvmChain \<Rightarrow> b256 \<Rightarrow> TransactionReceipt option" where
  "get_receipt c hash = find_map (\<lambda>blk. find (\<lambda>r. rc_transaction_hash r = hash) (ek_receipts blk)) (hm_values (ch_blocks c))"

definition query_context :: "u64 \<Rightarrow> EvmChain \<Rightarrow> TransactionContext" where
  "query_context now c =
     (let latest = unwrap_or (EvmBlock_genesis now (ch_config c)) (latest_block c)
      in \<lparr>cx_block_number = eh_number (ek_header latest) + 1,
          cx_block_timestamp = eh_timestamp (ek_header latest) + ec_block_time_ms (ch_config c) div 1000,
          cx_block_coinbase = replicate 20 0, cx_block_gas_limit = ec_block_gas_limit (ch_config c), cx_block_difficulty = 0,
          cx_block_basefee = eh_base_fee_per_gas (ek_header latest), cx_chain_id = ec_chain_id (ch_config c),
          cx_prev_randao = eh_hash (ek_header latest)\<rparr>)"

definition ch_call ::
  "ext \<Rightarrow> ('fq, 'fr, 'g1, 'g2) px \<Rightarrow> u64 \<Rightarrow> EvmChain \<Rightarrow> evm_address \<Rightarrow> u8 list \<Rightarrow> evm_address option \<Rightarrow> u256 \<Rightarrow> run_end option" where
  "ch_call e px now c to data from_opt v =
     evm_call e px (EvmExecutor_new e px (ch_config c) (ch_state c)) to data from_opt v (query_context now c)"

definition ch_estimate_gas ::
  "(u64 \<Rightarrow> u64) \<Rightarrow> ext \<Rightarrow> ('fq, 'fr, 'g1, 'g2) px \<Rightarrow> u64 \<Rightarrow> EvmChain \<Rightarrow> EvmTransaction \<Rightarrow> evm_address \<Rightarrow> (evm_error option + u64) option" where
  "ch_estimate_gas scale e px now c tx from =
     evm_estimate_gas scale e px (EvmExecutor_new e px (ch_config c) (ch_state c)) tx from (query_context now c)"

subsection \<open>Produced blocks\<close>

definition receipts_match :: "SignedTransaction list \<Rightarrow> TransactionReceipt list \<Rightarrow> bool" where
  "receipts_match txs rs =
     (map rc_transaction_hash rs = map signed_hash txs \<and> map rc_transaction_index rs = map of_nat [0 ..< length txs])"

definition production_ok :: "u64 \<Rightarrow> production \<Rightarrow> bool" where
  "production_ok gas_limit s =
     (receipts_match (pd_executed s) (pd_receipts s) \<and> pd_cumulative_gas s = sum_list (map rc_gas_used (pd_receipts s))
      \<and> (pd_requeued s \<noteq> [] \<longrightarrow> gas_limit \<le> pd_cumulative_gas s))"

lemma produce_loop_ok:
  assumes "produce_loop e gas_limit ctx pending s = Some (Inr s')" "production_ok gas_limit s"
  shows "production_ok gas_limit s' \<and> pd_executed s' @ pd_requeued s' = pd_executed s @ pd_requeued s @ pending"
  using assms
proof (induction e gas_limit ctx pending s rule: produce_loop.induct)
  case (2 e gas_limit ctx tx pending s)
  show ?case
  proof (cases "gas_limit \<le> pd_cumulative_gas s")
    case True
    then have "production_ok gas_limit (s\<lparr>pd_requeued := pd_requeued s @ [tx]\<rparr>)" using "2.prems"(2) by (simp add: production_ok_def)
    then show ?thesis using "2.IH"(1) [OF True] "2.prems"(1) True by simp
  next
    case False
    then have requeued: "pd_requeued s = []" using "2.prems"(2) by (auto simp: production_ok_def)
    let ?from = "unwrap_or (replicate 20 0) (recover_sender tx)"
    obtain r x where run: "evm_execute_transaction e (pd_executor s) (sg_transaction tx) ?from ctx = Some (Returned r, x)"
      using "2.prems"(1) False by (auto simp: Let_def split: option.splits run_end.splits)
    let ?s = "s\<lparr>pd_executor := x, pd_executed := pd_executed s @ [tx], pd_receipts := pd_receipts s @ [make_receipt e ctx s tx ?from r],
                 pd_cumulative_gas := pd_cumulative_gas s + xr_gas_used r, pd_logs := pd_logs s @ xr_logs r\<rparr>"
    have "production_ok gas_limit ?s"
      using "2.prems"(2) requeued by (simp add: production_ok_def receipts_match_def make_receipt_def)
    then show ?thesis using "2.IH"(2) [OF False refl run refl refl] "2.prems"(1) False run requeued by (simp add: Let_def)
  qed
qed simp

lemma produce_next_block_cases:
  assumes "produce_next_block e px now c = Some (c', Some blk)"
  obtains parent basefee s where "latest_block c = Some parent" "calculate_base_fee (bp_config (ch_producer c)) parent = Some basefee"
    "production_ok (ec_block_gas_limit (bp_config (ch_producer c))) s"
    "pd_executed s @ pd_requeued s = bp_pending_transactions (ch_producer c)"
    "blk = assemble_block e (ch_producer c) parent (producer_context now (ch_producer c) parent basefee) s (sd_state_root (ee_state (evm_commit e (pd_executor s))))"
    "c' = c\<lparr>ch_producer := (ch_producer c)\<lparr>bp_pending_transactions := pd_requeued s,
                bp_last_block_time := cx_block_timestamp (producer_context now (ch_producer c) parent basefee)\<rparr>,
             ch_state := ee_state (evm_commit e (pd_executor s)), ch_blocks := hm_insert (eh_number (ek_header blk)) blk (ch_blocks c),
             ch_block_hashes := hm_insert (eh_hash (ek_header blk)) (eh_number (ek_header blk)) (ch_block_hashes c),
             ch_head := eh_number (ek_header blk)\<rparr>"
proof -
  obtain parent where parent: "latest_block c = Some parent"
    using assms by (auto simp: produce_next_block_def split: option.splits)
  obtain basefee where fee: "calculate_base_fee (bp_config (ch_producer c)) parent = Some basefee"
    using assms parent by (auto simp: produce_next_block_def produce_block_def split: option.splits)
  let ?s0 = "\<lparr>pd_executor = EvmExecutor_new e px (ch_config c) (ch_state c), pd_executed = [], pd_receipts = [],
    pd_cumulative_gas = 0, pd_logs = [], pd_requeued = []\<rparr>"
  obtain s where loop: "produce_loop e (ec_block_gas_limit (bp_config (ch_producer c))) (producer_context now (ch_producer c) parent basefee)
      (bp_pending_transactions (ch_producer c)) ?s0 = Some (Inr s)"
    using assms parent fee by (auto simp: produce_next_block_def produce_block_def Let_def split: option.splits sum.splits)
  have "production_ok (ec_block_gas_limit (bp_config (ch_producer c))) ?s0" by (simp add: production_ok_def receipts_match_def)
  from produce_loop_ok [OF loop this] show ?thesis
    using assms parent fee loop by (intro that [of parent basefee s]) (auto simp: produce_next_block_def produce_block_def Let_def)
qed

lemma assemble_fields:
  "eh_hash (ek_header (assemble_block e p parent ctx s root)) = EvmBlock_compute_hash e (assemble_block e p parent ctx s root)"
  "eh_number (ek_header (assemble_block e p parent ctx s root)) = cx_block_number ctx"
  "eh_parent_hash (ek_header (assemble_block e p parent ctx s root)) = eh_hash (ek_header parent)"
  "eh_state_root (ek_header (assemble_block e p parent ctx s root)) = root"
  "eh_gas_used (ek_header (assemble_block e p parent ctx s root)) = pd_cumulative_gas s"
  "ek_transactions (assemble_block e p parent ctx s root) = pd_executed s"
  "ek_receipts (assemble_block e p parent ctx s root) = map (\<lambda>r. r\<lparr>rc_block_hash := eh_hash (ek_header (assemble_block e p parent ctx s root))\<rparr>) (pd_receipts s)"
  by (simp_all add: assemble_block_def EvmBlock_compute_hash_def Let_def)

text \<open>
  C22. What a produced block says is what was executed: the transactions of the block followed by the queue that is
  left are the queue there was, in order, so none is lost or repeated; each transaction has its receipt, at its
  position and with the hash of the block; the gas of the header is the sum of the receipts; the block's hash is
  the hash of its header; its state root is the root of the state the chain now has.
\<close>

theorem produced_block_faithful:
  assumes "produce_next_block e px now c = Some (c', Some blk)"
  shows "ek_transactions blk @ bp_pending_transactions (ch_producer c') = bp_pending_transactions (ch_producer c)
    \<and> receipts_match (ek_transactions blk) (ek_receipts blk)
    \<and> list_all (\<lambda>r. rc_block_hash r = eh_hash (ek_header blk)) (ek_receipts blk)
    \<and> eh_gas_used (ek_header blk) = sum_list (map rc_gas_used (ek_receipts blk))
    \<and> eh_hash (ek_header blk) = EvmBlock_compute_hash e blk
    \<and> eh_state_root (ek_header blk) = sd_state_root (ch_state c')
    \<and> latest_block c' = Some blk"
proof -
  obtain parent basefee s where ok: "production_ok (ec_block_gas_limit (bp_config (ch_producer c))) s"
    and queue: "pd_executed s @ pd_requeued s = bp_pending_transactions (ch_producer c)"
    and blk: "blk = assemble_block e (ch_producer c) parent (producer_context now (ch_producer c) parent basefee) s (sd_state_root (ee_state (evm_commit e (pd_executor s))))"
    and c': "c' = c\<lparr>ch_producer := (ch_producer c)\<lparr>bp_pending_transactions := pd_requeued s,
                bp_last_block_time := cx_block_timestamp (producer_context now (ch_producer c) parent basefee)\<rparr>,
             ch_state := ee_state (evm_commit e (pd_executor s)), ch_blocks := hm_insert (eh_number (ek_header blk)) blk (ch_blocks c),
             ch_block_hashes := hm_insert (eh_hash (ek_header blk)) (eh_number (ek_header blk)) (ch_block_hashes c),
             ch_head := eh_number (ek_header blk)\<rparr>"
    using produce_next_block_cases [OF assms] by metis
  note fields = assemble_fields [of e "ch_producer c" parent "producer_context now (ch_producer c) parent basefee" s
      "sd_state_root (ee_state (evm_commit e (pd_executor s)))", folded blk]
  have receipts: "receipts_match (ek_transactions blk) (ek_receipts blk)" "eh_gas_used (ek_header blk) = sum_list (map rc_gas_used (ek_receipts blk))"
    using ok by (simp_all add: production_ok_def receipts_match_def fields(5-7) comp_def)
  have "list_all (\<lambda>r. rc_block_hash r = eh_hash (ek_header blk)) (ek_receipts blk)"
    unfolding fields(7) by (simp add: list_all_iff)
  moreover have "latest_block c' = Some blk" by (simp add: c' latest_block_def ch_get_block_def head_number_def)
  ultimately show ?thesis using receipts queue fields(1,4,6) by (simp add: c')
qed

text \<open>
  A transaction that fails validation is not kept for later: it enters the block with status zero and leaves the
  queue, with no gas paid.
\<close>

lemma invalid_transaction_included:
  assumes "validate_evm_transaction (ee_state (pd_executor s)) (sg_transaction tx) (sg_sender tx) ctx = Err reason" "pd_cumulative_gas s < gas_limit"
  shows "produce_loop e gas_limit ctx [tx] s =
    Some (Inr (s\<lparr>pd_executed := pd_executed s @ [tx], pd_receipts := pd_receipts s @ [make_receipt e ctx s tx (sg_sender tx) (result_failed reason)]\<rparr>))"
  using assms by (simp add: evm_execute_transaction_def recover_sender_def Let_def result_failed_def)

definition early_tx :: SignedTransaction where
  "early_tx = SignedTransaction_new sample_ext (store_tx\<lparr>et_nonce := 5\<rparr>) [1]"

definition early_chain :: EvmChain where
  "early_chain = fst (ch_submit_transaction (EvmChain_new 1000 EvmChainConfig_default [3]) early_tx)"

lemma early_chain_facts:
  "latest_block early_chain = Some (EvmBlock_genesis 1000 EvmChainConfig_default)" "ch_state early_chain = StateDB_new"
  "bp_pending_transactions (ch_producer early_chain) = [early_tx]" "bp_config (ch_producer early_chain) = EvmChainConfig_default"
  by (simp_all add: early_chain_def ch_submit_transaction_def EvmChain_new_def early_tx_def SignedTransaction_new_def store_tx_def
      EvmChainConfig_default_def producer_add_transaction_def BlockProducer_new_def latest_block_def ch_get_block_def head_number_def
      hm_get_def Let_def)

lemma early_produces:
  "\<exists>c' blk. produce_next_block sample_ext sample_px 2000 early_chain = Some (c', Some blk) \<and> ek_transactions blk = [early_tx]"
proof -
  have "calculate_base_fee EvmChainConfig_default (EvmBlock_genesis 1000 EvmChainConfig_default) \<noteq> None"
    by (simp add: calculate_base_fee_def EvmBlock_genesis_def EvmChainConfig_default_def EvmBlockHeader_default_def div_u64_def Let_def)
  then obtain fee where fee: "calculate_base_fee EvmChainConfig_default (EvmBlock_genesis 1000 EvmChainConfig_default) = Some fee" by blast
  have invalid: "validate_evm_transaction StateDB_new (sg_transaction early_tx) (sg_sender early_tx)
      (producer_context 2000 (ch_producer early_chain) (EvmBlock_genesis 1000 EvmChainConfig_default) fee) = Err (InvalidNonce 0 5)"
    by (simp add: validate_evm_transaction_def early_tx_def SignedTransaction_new_def store_tx_def producer_context_def early_chain_facts(4)
        EvmChainConfig_default_def sdb_get_nonce_def sdb_get_account_def StateDB_new_def AccountState_default_def)
  have "ec_block_gas_limit EvmChainConfig_default = 30000000" by (simp add: EvmChainConfig_default_def)
  then obtain s where "produce_loop sample_ext (ec_block_gas_limit EvmChainConfig_default)
      (producer_context 2000 (ch_producer early_chain) (EvmBlock_genesis 1000 EvmChainConfig_default) fee) [early_tx]
      \<lparr>pd_executor = EvmExecutor_new sample_ext sample_px (ch_config early_chain) StateDB_new, pd_executed = [], pd_receipts = [],
       pd_cumulative_gas = 0, pd_logs = [], pd_requeued = []\<rparr> = Some (Inr s)" "pd_executed s = [early_tx]"
    using invalid by (simp add: invalid_transaction_included EvmExecutor_new_def del: produce_loop.simps)
  then show ?thesis
    unfolding produce_next_block_def produce_block_def early_chain_facts option.case fee Let_def by (simp add: assemble_fields(6))
qed

theorem produced_block_faithful_witness:
  "\<exists>c' blk. produce_next_block sample_ext sample_px 2000 early_chain = Some (c', Some blk) \<and> ek_transactions blk = [early_tx]
     \<and> bp_pending_transactions (ch_producer c') = [] \<and> receipts_match [early_tx] (ek_receipts blk)"
proof -
  obtain c' blk where run: "produce_next_block sample_ext sample_px 2000 early_chain = Some (c', Some blk)" "ek_transactions blk = [early_tx]"
    using early_produces by blast
  then show ?thesis using produced_block_faithful [OF run(1)] early_chain_facts(3) by auto
qed

subsection \<open>The chain stays linked\<close>

definition linked :: "EvmChain \<Rightarrow> u64 \<Rightarrow> bool" where
  "linked c n =
     (case ch_get_block c n of
        None \<Rightarrow> False
      | Some blk \<Rightarrow> eh_number (ek_header blk) = n
          \<and> (n = 0 \<or> (\<exists>parent. ch_get_block c (n - 1) = Some parent \<and> eh_parent_hash (ek_header blk) = eh_hash (ek_header parent))))"

definition chain_inv :: "EvmChain \<Rightarrow> bool" where
  "chain_inv c = (\<forall>n. n \<le> ch_head c \<longrightarrow> linked c n)"

datatype chain_op = SubmitTx SignedTransaction | Produce u64

fun chain_step :: "ext \<Rightarrow> ('fq, 'fr, 'g1, 'g2) px \<Rightarrow> EvmChain \<Rightarrow> chain_op \<Rightarrow> EvmChain" where
  "chain_step e px c (SubmitTx tx) = fst (ch_submit_transaction c tx)"
| "chain_step e px c (Produce now) = (case produce_next_block e px now c of None \<Rightarrow> c | Some (c', _) \<Rightarrow> c')"

lemma chain_step_cases:
  "ch_blocks (chain_step e px c x) = ch_blocks c \<and> ch_head (chain_step e px c x) = ch_head c
   \<or> (\<exists>parent blk. latest_block c = Some parent \<and> eh_number (ek_header blk) = eh_number (ek_header parent) + 1
        \<and> eh_parent_hash (ek_header blk) = eh_hash (ek_header parent)
        \<and> ch_blocks (chain_step e px c x) = hm_insert (eh_number (ek_header blk)) blk (ch_blocks c)
        \<and> ch_head (chain_step e px c x) = eh_number (ek_header blk))"
proof (cases x)
  case (SubmitTx tx)
  then show ?thesis by (simp add: ch_submit_transaction_def)
next
  case (Produce now)
  show ?thesis
  proof (cases "\<exists>c' blk. produce_next_block e px now c = Some (c', Some blk)")
    case True
    then obtain c' blk where run: "produce_next_block e px now c = Some (c', Some blk)" by blast
    obtain parent basefee s where parent: "latest_block c = Some parent"
      and blk: "blk = assemble_block e (ch_producer c) parent (producer_context now (ch_producer c) parent basefee) s (sd_state_root (ee_state (evm_commit e (pd_executor s))))"
      and c': "ch_blocks c' = hm_insert (eh_number (ek_header blk)) blk (ch_blocks c)" "ch_head c' = eh_number (ek_header blk)"
      by (rule produce_next_block_cases [OF run]) simp
    have "eh_number (ek_header blk) = eh_number (ek_header parent) + 1" "eh_parent_hash (ek_header blk) = eh_hash (ek_header parent)"
      by (simp_all add: blk assemble_fields producer_context_def)
    with parent c' show ?thesis by (intro disjI2 exI [of _ parent] exI [of _ blk]) (simp add: Produce run)
  next
    case False
    then show ?thesis
      by (auto simp: Produce produce_next_block_def Let_def split: option.splits prod.splits)
  qed
qed

lemma chain_inv_step:
  assumes "chain_inv c" "unat (ch_head c) + 1 < 2 ^ 64"
  shows "chain_inv (chain_step e px c x) \<and> unat (ch_head (chain_step e px c x)) \<le> unat (ch_head c) + 1"
  using chain_step_cases [of e px c x]
proof
  assume same: "ch_blocks (chain_step e px c x) = ch_blocks c \<and> ch_head (chain_step e px c x) = ch_head c"
  then have get: "ch_get_block (chain_step e px c x) = ch_get_block c" by (intro ext) (simp add: ch_get_block_def)
  have "linked (chain_step e px c x) = linked c" unfolding linked_def get ..
  then show ?thesis using assms(1) same by (simp add: chain_inv_def)
next
  let ?c = "chain_step e px c x"
  assume "\<exists>parent blk. latest_block c = Some parent \<and> eh_number (ek_header blk) = eh_number (ek_header parent) + 1
        \<and> eh_parent_hash (ek_header blk) = eh_hash (ek_header parent)
        \<and> ch_blocks ?c = hm_insert (eh_number (ek_header blk)) blk (ch_blocks c) \<and> ch_head ?c = eh_number (ek_header blk)"
  then obtain parent blk where parent: "latest_block c = Some parent" and num: "eh_number (ek_header blk) = eh_number (ek_header parent) + 1"
    and hash: "eh_parent_hash (ek_header blk) = eh_hash (ek_header parent)"
    and new: "ch_blocks ?c = hm_insert (eh_number (ek_header blk)) blk (ch_blocks c)" "ch_head ?c = eh_number (ek_header blk)"
    by blast
  have "linked c (ch_head c)" using assms(1) by (simp add: chain_inv_def)
  then have head: "eh_number (ek_header parent) = ch_head c" using parent by (simp add: linked_def latest_block_def head_number_def)
  have succ: "unat (ch_head c + 1) = unat (ch_head c) + 1" using assms(2) unat_add_exact [of "ch_head c" 1] by simp
  have "linked ?c n" if "n \<le> ch_head ?c" for n
  proof (cases "n = ch_head c + 1")
    case True
    have "ch_head c + 1 \<noteq> ch_head c" using succ by auto
    then show ?thesis using parent hash
      by (simp add: True linked_def ch_get_block_def new num head latest_block_def head_number_def)
  next
    case False
    then have le: "n \<le> ch_head c" using that succ by (simp add: new num head word_le_nat_alt word_unat_eq_iff)
    then have lower: "linked c n" using assms(1) by (simp add: chain_inv_def)
    have "unat (n - 1) \<noteq> unat (ch_head c + 1)" if "n \<noteq> 0"
      using unat_minus_one [OF that] le succ by (simp add: word_le_nat_alt)
    then have "n = 0 \<or> n - 1 \<noteq> ch_head c + 1" by metis
    with lower show ?thesis unfolding linked_def ch_get_block_def new num head hm_get_insert
      using False by (auto split: option.splits)
  qed
  then show ?thesis using succ by (simp add: chain_inv_def new num head)
qed

lemma chain_inv_run:
  "chain_inv c \<Longrightarrow> unat (ch_head c) + length ops < 2 ^ 64 \<Longrightarrow> chain_inv (run (chain_step e px) c ops)"
proof (induction ops arbitrary: c)
  case (Cons x ops)
  then have "chain_inv (chain_step e px c x) \<and> unat (ch_head (chain_step e px c x)) \<le> unat (ch_head c) + 1"
    by (intro chain_inv_step) simp_all
  then show ?case using Cons by simp
qed simp

text \<open>
  After any sequence of fewer than \<open>2 ^ 64\<close> submissions and block productions, panics included, every number up
  to the head has its block, stored under its own number and naming the hash of the block before it.
\<close>

theorem evm_chain_linked:
  assumes "length ops < 2 ^ 64" "n \<le> ch_head (run (chain_step e px) (EvmChain_new now config coinbase) ops)"
  shows "linked (run (chain_step e px) (EvmChain_new now config coinbase) ops) n"
proof -
  have "chain_inv (EvmChain_new now config coinbase)"
    by (simp add: chain_inv_def linked_def EvmChain_new_def ch_get_block_def hm_get_def EvmBlock_genesis_def EvmBlockHeader_default_def Let_def)
  from chain_inv_run [OF this, of ops e px] show ?thesis
    using assms by (simp add: chain_inv_def EvmChain_new_def Let_def)
qed

lemma early_head:
  assumes "produce_next_block sample_ext sample_px 2000 early_chain = Some (c', Some blk)"
  shows "ch_head c' = 1"
proof -
  obtain parent where "latest_block early_chain = Some parent" "ch_head c' = eh_number (ek_header parent) + 1"
    by (rule produce_next_block_cases [OF assms]) (simp add: assemble_fields producer_context_def)
  then show ?thesis using early_chain_facts(1) by (auto simp: EvmBlock_genesis_def EvmBlockHeader_default_def)
qed

theorem evm_chain_linked_witness:
  "linked (run (chain_step sample_ext sample_px) (EvmChain_new 1000 EvmChainConfig_default [3]) [SubmitTx early_tx, Produce 2000]) 1"
proof (rule evm_chain_linked)
  obtain c' blk where run: "produce_next_block sample_ext sample_px 2000 early_chain = Some (c', Some blk)" using early_produces by blast
  with early_head [OF run]
  show "1 \<le> ch_head (run (chain_step sample_ext sample_px) (EvmChain_new 1000 EvmChainConfig_default [3]) [SubmitTx early_tx, Produce 2000])"
    by (simp add: early_chain_def)
qed simp

subsection \<open>The base fee\<close>

lemma unat_saturating_mul: "unat (saturating_mul a b) = min (unat a * unat b) (2 ^ 64 - 1)"
proof (cases "unat a * unat b < 2 ^ 64")
  case True
  then have "unat (a * b) = unat a * unat b" by (simp add: unat_word_ariths)
  with True show ?thesis by (simp add: saturating_mul_def)
qed (simp add: saturating_mul_def unsigned_minus_1_eq_mask mask_eq_exp_minus_1)

lemma fee_change_le:
  fixes fee delta target :: u64
  assumes "0 < target" "delta \<le> target"
  shows "unat (saturating_mul fee delta div target div 8) \<le> unat fee div 8"
proof -
  have "unat (saturating_mul fee delta) \<le> unat fee * unat target"
    using assms(2) by (simp add: unat_saturating_mul word_le_nat_alt min.coboundedI1)
  then have "unat (saturating_mul fee delta) div unat target \<le> unat fee * unat target div unat target" by (rule div_le_mono)
  also have "\<dots> = unat fee" using assms(1) by (simp add: word_gt_0 unat_gt_0)
  finally have "unat (saturating_mul fee delta) div unat target div 8 \<le> unat fee div 8" by (rule div_le_mono)
  then show ?thesis by (simp add: unat_div)
qed

lemma fee_change_upper:
  fixes fee delta target :: u64
  shows "unat (saturating_mul fee delta div target div 8) \<le> unat fee * unat delta div unat target div 8"
  unfolding unat_div by (simp add: unat_saturating_mul div_le_mono)

text \<open>
  C37. The base fee of the next block, with the target half of the gas limit of the parent. It stays after a
  block that met the target. After one above it, it grows, by at least one unless it is at the end of its
  range, and by at most an eighth of the fee in proportion to the excess over the target (or one): so by at most
  an eighth (or one) when the parent used no more than twice the target, but by more when it used more, as a block
  may. After a block below the target it drops by at most an eighth, and it is at least the configured
  minimum, to which it jumps when it was lower. With a gas limit below two a block that used gas makes
  the computation panic; otherwise it never does.
\<close>

theorem base_fee_moves_by_eighth:
  fixes parent config
  defines "target \<equiv> eh_gas_limit (ek_header parent) div 2" and "used \<equiv> eh_gas_used (ek_header parent)"
    and "fee \<equiv> eh_base_fee_per_gas (ek_header parent)"
  shows "if target = 0 \<and> 0 < used then calculate_base_fee config parent = None
    else \<exists>f. calculate_base_fee config parent = Some f
      \<and> (if used = target then f = fee
         else if target < used
         then (fee < f \<or> fee = - 1 \<and> f = fee)
           \<and> unat f \<le> unat fee + max 1 (unat fee * (unat used - unat target) div unat target div 8)
           \<and> (unat used \<le> 2 * unat target \<longrightarrow> unat f \<le> unat fee + max 1 (unat fee div 8))
         else unat fee - unat fee div 8 \<le> unat f \<and> ec_base_fee_per_gas config \<le> f
           \<and> f \<le> max fee (ec_base_fee_per_gas config))"
proof -
  consider (panic) "target = 0" "0 < used" | (same) "used = target" | (above) "target \<noteq> 0" "target < used"
    | (below) "target \<noteq> 0" "used < target"
    using linorder_cases [of used target] by (metis word_not_simps(1) word_gt_0)
  then show ?thesis
  proof cases
    case panic
    then show ?thesis
      by (auto simp: calculate_base_fee_def div_u64_def Let_def simp flip: target_def used_def fee_def)
  next
    case same
    then show ?thesis by (simp add: calculate_base_fee_def target_def used_def fee_def Let_def)
  next
    case above
    let ?d = "saturating_mul fee (used - target) div target div 8"
    have pos: "0 < target" using above(1) by (simp add: word_gt_0)
    have delta: "unat (used - target) = unat used - unat target" using above(2) by (simp add: unat_sub)
    have val: "calculate_base_fee config parent = Some (saturating_add fee (max ?d 1))"
      using above by (auto simp: calculate_base_fee_def div_u64_def Let_def simp flip: target_def used_def fee_def)
    have m: "unat (max ?d 1) = max (unat ?d) 1" by (simp add: max_def word_le_nat_alt)
    have f: "unat (saturating_add fee (max ?d 1)) = min (unat fee + max (unat ?d) 1) (2 ^ 64 - 1)"
      by (simp add: unat_saturating_add m)
    have grow: "unat (saturating_add fee (max ?d 1)) \<le> unat fee + max 1 k" if "unat ?d \<le> k" for k
      unfolding f using that by (intro min.coboundedI1 add_left_mono) auto
    have top: "unat (- 1 :: u64) = 2 ^ 64 - 1" by (simp add: unsigned_minus_1_eq_mask mask_eq_exp_minus_1)
    have "fee < saturating_add fee (max ?d 1) \<or> fee = - 1 \<and> saturating_add fee (max ?d 1) = fee"
    proof (cases "unat fee = 2 ^ 64 - 1")
      case True
      then show ?thesis using f top by (simp add: word_unat_eq_iff)
    next
      case False
      then show ?thesis using f unat_less_power [of fee] by (simp add: word_less_nat_alt less_max_iff_disj)
    qed
    moreover have "unat (saturating_add fee (max ?d 1))
        \<le> unat fee + max 1 (unat fee * (unat used - unat target) div unat target div 8)"
      using fee_change_upper [of fee "used - target" target] unfolding delta by (rule grow)
    moreover have "unat (saturating_add fee (max ?d 1)) \<le> unat fee + max 1 (unat fee div 8)"
      if "unat used \<le> 2 * unat target"
    proof -
      have "used - target \<le> target" using that by (simp add: word_le_nat_alt delta)
      from fee_change_le [OF pos this, of fee] show ?thesis by (rule grow)
    qed
    ultimately show ?thesis using val above by auto
  next
    case below
    let ?d = "saturating_mul fee (target - used) div target div 8"
    have pos: "0 < target" using below(1) by (simp add: word_gt_0)
    have "target - used \<le> target" using below(2) by (simp add: word_le_nat_alt unat_sub word_less_nat_alt)
    from fee_change_le [OF pos this, of fee] have d: "unat ?d \<le> unat fee div 8" .
    have val: "calculate_base_fee config parent = Some (max (saturating_sub fee ?d) (ec_base_fee_per_gas config))"
      using below by (auto simp: calculate_base_fee_def div_u64_def Let_def simp flip: target_def used_def fee_def)
    have "unat fee - unat fee div 8 \<le> unat (saturating_sub fee ?d)" using d by (simp add: unat_saturating_sub)
    moreover have "saturating_sub fee ?d \<le> fee" by (rule saturating_sub_le)
    ultimately show ?thesis using val below by (auto simp: max_def word_le_nat_alt)
  qed
qed

theorem base_fee_moves_by_eighth_witness:
  "\<exists>f. calculate_base_fee EvmChainConfig_default (EvmBlock_genesis 0 EvmChainConfig_default) = Some f
     \<and> 875000000 \<le> unat f \<and> f \<le> 1000000000"
  using base_fee_moves_by_eighth [of "EvmBlock_genesis 0 EvmChainConfig_default" EvmChainConfig_default]
  by (auto simp: EvmBlock_genesis_def EvmChainConfig_default_def EvmBlockHeader_default_def)

end
