(* ===== verification/Upgrades.thy ===== *)
theory Upgrades
  imports Chain_Types Hash_Map
begin

section \<open>Protocol upgrades\<close>

text \<open>
  \<open>pyrax-node/src/mainnet/upgrade.rs\<close>: proposals with their votes, and the manager that finalizes, activates and
  cancels them. The approval percentage goes through floating point and is the argument \<open>percent\<close> of the
  operations that use it; the clock is an argument. Strings are character lists.
\<close>

definition UPGRADE_DELAY_BLOCKS :: u64 where
  "UPGRADE_DELAY_BLOCKS = 7200"

datatype UpgradeStatus =
    UpProposed | UpVoting | UpApproved | UpScheduled | UpActivating | UpActivated | UpFailed | UpRejected | UpCancelled

datatype UpgradeType = SoftFork | HardFork | ParameterChange | EmergencyFix | ConsensusChange | ProtocolVersion

fun min_approval_percent :: "UpgradeType \<Rightarrow> u8" where
  "min_approval_percent SoftFork = 67"
| "min_approval_percent HardFork = 75"
| "min_approval_percent ParameterChange = 51"
| "min_approval_percent EmergencyFix = 67"
| "min_approval_percent ConsensusChange = 80"
| "min_approval_percent ProtocolVersion = 67"

fun min_voting_period :: "UpgradeType \<Rightarrow> u64" where
  "min_voting_period SoftFork = 14400"
| "min_voting_period HardFork = 100800"
| "min_voting_period ParameterChange = 7200"
| "min_voting_period EmergencyFix = 1200"
| "min_voting_period ConsensusChange = 201600"
| "min_voting_period ProtocolVersion = 50400"

record UpgradeVote =
  uv_voter :: address
  uv_voting_power :: u64
  uv_support :: bool
  uv_timestamp :: u64

record UpgradeProposal =
  up_id :: h256
  up_upgrade_type :: UpgradeType
  up_title :: string
  up_description :: string
  up_proposer :: address
  up_target_version :: string
  up_status :: UpgradeStatus
  up_activation_height :: "u64 option"
  up_code_hash :: h256
  up_parameter_changes :: "(string, string) hashmap"
  up_votes_for :: u64
  up_votes_against :: u64
  up_total_voted :: u64
  up_voters :: "(address, UpgradeVote) hashmap"
  up_created_at_block :: u64
  up_voting_ends_at :: u64
  up_created_at :: u64
  up_updated_at :: u64

datatype UpgradeError =
    UpgradesDisabled
  | ProposalNotFound h256
  | VotingClosed
  | AlreadyVoted address
  | VotingNotEnded
  | NotApproved
  | NotScheduled
  | NotProposer
  | AlreadyActivated
  | InsufficientStake
  | InvalidVersion string

subsection \<open>Proposals\<close>

definition proposal_generate_id :: "ext \<Rightarrow> u64 \<Rightarrow> string \<Rightarrow> address \<Rightarrow> h256" where
  "proposal_generate_id e now title proposer =
     h256_from_slice (ext_blake3 e (ascii_bytes title @ address_bytes proposer @ u64_to_le_bytes now))"

definition UpgradeProposal_new ::
  "ext \<Rightarrow> u64 \<Rightarrow> UpgradeType \<Rightarrow> string \<Rightarrow> string \<Rightarrow> address \<Rightarrow> string \<Rightarrow> u64 \<Rightarrow> UpgradeProposal" where
  "UpgradeProposal_new e now upgrade_type title description proposer target_version current_block =
     \<lparr>up_id = proposal_generate_id e now title proposer, up_upgrade_type = upgrade_type, up_title = title,
      up_description = description, up_proposer = proposer, up_target_version = target_version, up_status = UpProposed,
      up_activation_height = None, up_code_hash = h256_zero, up_parameter_changes = [], up_votes_for = 0,
      up_votes_against = 0, up_total_voted = 0, up_voters = [], up_created_at_block = current_block,
      up_voting_ends_at = current_block + min_voting_period upgrade_type, up_created_at = now, up_updated_at = now\<rparr>"

definition with_code_hash :: "UpgradeProposal \<Rightarrow> h256 \<Rightarrow> UpgradeProposal" where
  "with_code_hash p h = p\<lparr>up_code_hash := h\<rparr>"

definition with_parameter :: "UpgradeProposal \<Rightarrow> string \<Rightarrow> string \<Rightarrow> UpgradeProposal" where
  "with_parameter p k v = p\<lparr>up_parameter_changes := hm_insert k v (up_parameter_changes p)\<rparr>"

definition proposal_vote :: "u64 \<Rightarrow> UpgradeProposal \<Rightarrow> address \<Rightarrow> u64 \<Rightarrow> bool \<Rightarrow> UpgradeError + UpgradeProposal" where
  "proposal_vote now p voter voting_power support =
     (if up_status p \<noteq> UpVoting \<and> up_status p \<noteq> UpProposed then Err VotingClosed
      else if hm_contains (up_voters p) voter then Err (AlreadyVoted voter)
      else
        let v = \<lparr>uv_voter = voter, uv_voting_power = voting_power, uv_support = support, uv_timestamp = now\<rparr>;
            p = p\<lparr>up_voters := hm_insert voter v (up_voters p), up_total_voted := up_total_voted p + voting_power\<rparr>;
            p = (if support then p\<lparr>up_votes_for := up_votes_for p + voting_power\<rparr>
                 else p\<lparr>up_votes_against := up_votes_against p + voting_power\<rparr>)
        in Ok (p\<lparr>up_status := UpVoting, up_updated_at := now\<rparr>))"

definition approval_percent :: "(u64 \<Rightarrow> u64 \<Rightarrow> u8) \<Rightarrow> UpgradeProposal \<Rightarrow> u8" where
  "approval_percent percent p = (if up_total_voted p = 0 then 0 else percent (up_votes_for p) (up_total_voted p))"

definition is_passed :: "(u64 \<Rightarrow> u64 \<Rightarrow> u8) \<Rightarrow> UpgradeProposal \<Rightarrow> bool" where
  "is_passed percent p = (min_approval_percent (up_upgrade_type p) \<le> approval_percent percent p)"

definition voting_ended :: "UpgradeProposal \<Rightarrow> u64 \<Rightarrow> bool" where
  "voting_ended p current_block = (up_voting_ends_at p \<le> current_block)"

definition proposal_finalize :: "(u64 \<Rightarrow> u64 \<Rightarrow> u8) \<Rightarrow> u64 \<Rightarrow> UpgradeProposal \<Rightarrow> u64 \<Rightarrow> UpgradeError + UpgradeProposal" where
  "proposal_finalize percent now p current_block =
     (if \<not> voting_ended p current_block then Err VotingNotEnded
      else let p = (if is_passed percent p
                    then p\<lparr>up_status := UpApproved, up_activation_height := Some (current_block + UPGRADE_DELAY_BLOCKS)\<rparr>
                    else p\<lparr>up_status := UpRejected\<rparr>)
           in Ok (p\<lparr>up_updated_at := now\<rparr>))"

definition proposal_schedule :: "u64 \<Rightarrow> UpgradeProposal \<Rightarrow> u64 \<Rightarrow> UpgradeError + UpgradeProposal" where
  "proposal_schedule now p activation_height =
     (if up_status p \<noteq> UpApproved then Err NotApproved
      else Ok (p\<lparr>up_activation_height := Some activation_height, up_status := UpScheduled, up_updated_at := now\<rparr>))"

definition should_activate :: "UpgradeProposal \<Rightarrow> u64 \<Rightarrow> bool" where
  "should_activate p current_block =
     (if up_status p \<noteq> UpScheduled then False
      else case up_activation_height p of None \<Rightarrow> False | Some h \<Rightarrow> h \<le> current_block)"

definition proposal_activate :: "u64 \<Rightarrow> UpgradeProposal \<Rightarrow> UpgradeError + UpgradeProposal" where
  "proposal_activate now p =
     (if up_status p \<noteq> UpScheduled then Err NotScheduled else Ok (p\<lparr>up_status := UpActivated, up_updated_at := now\<rparr>))"

definition proposal_cancel :: "u64 \<Rightarrow> UpgradeProposal \<Rightarrow> address \<Rightarrow> UpgradeError + UpgradeProposal" where
  "proposal_cancel now p canceller =
     (if canceller \<noteq> up_proposer p then Err NotProposer
      else if up_status p = UpActivated then Err AlreadyActivated
      else Ok (p\<lparr>up_status := UpCancelled, up_updated_at := now\<rparr>))"

subsection \<open>The manager\<close>

record UpgradeConfig =
  uc_enabled :: bool
  uc_min_proposer_stake :: u64
  uc_default_voting_period :: u64
  uc_upgrade_delay_blocks :: u64
  uc_allow_emergency :: bool
  uc_require_audit :: bool

definition UpgradeConfig_default :: UpgradeConfig where
  "UpgradeConfig_default =
     \<lparr>uc_enabled = True, uc_min_proposer_stake = 100000 * 100000000, uc_default_voting_period = 50400,
      uc_upgrade_delay_blocks = UPGRADE_DELAY_BLOCKS, uc_allow_emergency = True, uc_require_audit = True\<rparr>"

record UpgradeStats =
  us_proposals_submitted :: u64
  us_votes_cast :: u64
  us_proposals_approved :: u64
  us_proposals_rejected :: u64
  us_upgrades_activated :: u64

definition UpgradeStats_default :: UpgradeStats where
  "UpgradeStats_default =
     \<lparr>us_proposals_submitted = 0, us_votes_cast = 0, us_proposals_approved = 0, us_proposals_rejected = 0, us_upgrades_activated = 0\<rparr>"

record UpgradeManager =
  um_config :: UpgradeConfig
  um_proposals :: "(h256, UpgradeProposal) hashmap"
  um_activated :: "UpgradeProposal list"
  um_pending :: "h256 list"
  um_current_version :: string
  um_current_block :: u64
  um_stats :: UpgradeStats

definition UpgradeManager_new :: "UpgradeConfig \<Rightarrow> string \<Rightarrow> UpgradeManager" where
  "UpgradeManager_new config initial_version =
     \<lparr>um_config = config, um_proposals = [], um_activated = [], um_pending = [], um_current_version = initial_version,
      um_current_block = 0, um_stats = UpgradeStats_default\<rparr>"

definition submit_proposal ::
  "ext \<Rightarrow> u64 \<Rightarrow> UpgradeManager \<Rightarrow> UpgradeType \<Rightarrow> string \<Rightarrow> string \<Rightarrow> address \<Rightarrow> string \<Rightarrow> UpgradeError + (UpgradeManager \<times> h256)" where
  "submit_proposal e now m upgrade_type title description proposer target_version =
     (if \<not> uc_enabled (um_config m) then Err UpgradesDisabled
      else let p = UpgradeProposal_new e now upgrade_type title description proposer target_version (um_current_block m)
           in Ok (m\<lparr>um_proposals := hm_insert (up_id p) p (um_proposals m),
                    um_stats := (um_stats m)\<lparr>us_proposals_submitted := us_proposals_submitted (um_stats m) + 1\<rparr>\<rparr>, up_id p))"

definition manager_vote :: "u64 \<Rightarrow> UpgradeManager \<Rightarrow> h256 \<Rightarrow> address \<Rightarrow> u64 \<Rightarrow> bool \<Rightarrow> UpgradeError + UpgradeManager" where
  "manager_vote now m proposal_id voter voting_power support =
     (case hm_get (um_proposals m) proposal_id of
        None \<Rightarrow> Err (ProposalNotFound proposal_id)
      | Some p \<Rightarrow>
          and_then (proposal_vote now p voter voting_power support) (\<lambda>p'.
            Ok (m\<lparr>um_proposals := hm_insert proposal_id p' (um_proposals m),
                  um_stats := (um_stats m)\<lparr>us_votes_cast := us_votes_cast (um_stats m) + 1\<rparr>\<rparr>)))"

definition finalize_proposal :: "(u64 \<Rightarrow> u64 \<Rightarrow> u8) \<Rightarrow> u64 \<Rightarrow> UpgradeManager \<Rightarrow> h256 \<Rightarrow> UpgradeError + (UpgradeManager \<times> UpgradeStatus)" where
  "finalize_proposal percent now m proposal_id =
     (case hm_get (um_proposals m) proposal_id of
        None \<Rightarrow> Err (ProposalNotFound proposal_id)
      | Some p \<Rightarrow>
          and_then (proposal_finalize percent now p (um_current_block m)) (\<lambda>p'.
            let m = m\<lparr>um_proposals := hm_insert proposal_id p' (um_proposals m)\<rparr>;
                m = (if up_status p' = UpApproved
                     then m\<lparr>um_pending := um_pending m @ [proposal_id],
                            um_stats := (um_stats m)\<lparr>us_proposals_approved := us_proposals_approved (um_stats m) + 1\<rparr>\<rparr>
                     else m\<lparr>um_stats := (um_stats m)\<lparr>us_proposals_rejected := us_proposals_rejected (um_stats m) + 1\<rparr>\<rparr>)
            in Ok (m, up_status p')))"

text \<open>The loop of \<open>process_block\<close> over the pending list, with the identifiers and proposals it activates.\<close>

fun activate_loop :: "u64 \<Rightarrow> u64 \<Rightarrow> h256 list \<Rightarrow> UpgradeManager \<times> UpgradeProposal list \<times> h256 list \<Rightarrow> UpgradeManager \<times> UpgradeProposal list \<times> h256 list" where
  "activate_loop now block_height [] acc = acc"
| "activate_loop now block_height (i # ids) (m, activated, to_remove) =
     (case hm_get (um_proposals m) i of
        None \<Rightarrow> activate_loop now block_height ids (m, activated, to_remove)
      | Some p \<Rightarrow>
          if should_activate p block_height then
            (case proposal_activate now p of
               Err _ \<Rightarrow> activate_loop now block_height ids (m, activated, to_remove)
             | Ok p' \<Rightarrow>
                 activate_loop now block_height ids
                   (m\<lparr>um_proposals := hm_insert i p' (um_proposals m), um_current_version := up_target_version p',
                      um_stats := (um_stats m)\<lparr>us_upgrades_activated := us_upgrades_activated (um_stats m) + 1\<rparr>\<rparr>,
                    activated @ [p'], to_remove @ [i]))
          else activate_loop now block_height ids (m, activated, to_remove))"

definition upgrade_process_block :: "u64 \<Rightarrow> UpgradeManager \<Rightarrow> u64 \<Rightarrow> UpgradeManager \<times> UpgradeProposal list" where
  "upgrade_process_block now m block_height =
     (case activate_loop now block_height (um_pending m) (m\<lparr>um_current_block := block_height\<rparr>, [], []) of (m, activated, to_remove) \<Rightarrow>
        (m\<lparr>um_pending := filter (\<lambda>i. i \<notin> set to_remove) (um_pending m), um_activated := um_activated m @ activated\<rparr>, activated))"

definition cancel_proposal :: "u64 \<Rightarrow> UpgradeManager \<Rightarrow> h256 \<Rightarrow> address \<Rightarrow> UpgradeError + UpgradeManager" where
  "cancel_proposal now m proposal_id canceller =
     (case hm_get (um_proposals m) proposal_id of
        None \<Rightarrow> Err (ProposalNotFound proposal_id)
      | Some p \<Rightarrow>
          and_then (proposal_cancel now p canceller) (\<lambda>p'.
            Ok (m\<lparr>um_proposals := hm_insert proposal_id p' (um_proposals m), um_pending := filter (\<lambda>i. i \<noteq> proposal_id) (um_pending m)\<rparr>)))"

definition get_proposal :: "UpgradeManager \<Rightarrow> h256 \<Rightarrow> UpgradeProposal option" where
  "get_proposal m i = hm_get (um_proposals m) i"

definition get_active_proposals :: "UpgradeManager \<Rightarrow> UpgradeProposal list" where
  "get_active_proposals m =
     filter (\<lambda>p. up_status p \<in> {UpProposed, UpVoting, UpApproved, UpScheduled}) (hm_values (um_proposals m))"

definition get_pending_upgrades :: "UpgradeManager \<Rightarrow> UpgradeProposal list" where
  "get_pending_upgrades m = hm_lookup_all (um_proposals m) (um_pending m)"

definition get_upgrade_history :: "UpgradeManager \<Rightarrow> UpgradeProposal list" where
  "get_upgrade_history m = um_activated m"

text \<open>String comparison is by bytes.\<close>

definition is_compatible :: "UpgradeManager \<Rightarrow> string \<Rightarrow> bool" where
  "is_compatible m version = (ascii_bytes (um_current_version m) \<le> ascii_bytes version)"

subsection \<open>Runs of the manager\<close>

datatype upgrade_op =
    UpSubmit ext u64 UpgradeType string string address string
  | UpVote u64 h256 address u64 bool
  | UpFinalize u64 h256
  | UpBlock u64 u64
  | UpCancel u64 h256 address

text \<open>One call of an operation of the manager; a failed call leaves it unchanged.\<close>

fun upgrade_step :: "(u64 \<Rightarrow> u64 \<Rightarrow> u8) \<Rightarrow> UpgradeManager \<Rightarrow> upgrade_op \<Rightarrow> UpgradeManager" where
  "upgrade_step percent m (UpSubmit e now ty title description proposer ver) =
     (case submit_proposal e now m ty title description proposer ver of Err _ \<Rightarrow> m | Ok (m', _) \<Rightarrow> m')"
| "upgrade_step percent m (UpVote now i voter voting_power support) =
     (case manager_vote now m i voter voting_power support of Err _ \<Rightarrow> m | Ok m' \<Rightarrow> m')"
| "upgrade_step percent m (UpFinalize now i) =
     (case finalize_proposal percent now m i of Err _ \<Rightarrow> m | Ok (m', _) \<Rightarrow> m')"
| "upgrade_step percent m (UpBlock now height) = fst (upgrade_process_block now m height)"
| "upgrade_step percent m (UpCancel now i canceller) =
     (case cancel_proposal now m i canceller of Err _ \<Rightarrow> m | Ok m' \<Rightarrow> m')"

text \<open>The power behind the voters recorded with a proposal: all of it, and that of one side.\<close>

definition power_voted :: "UpgradeProposal \<Rightarrow> nat" where
  "power_voted p = weight (\<lambda>v. unat (uv_voting_power v)) (up_voters p)"

definition power_of_side :: "bool \<Rightarrow> UpgradeProposal \<Rightarrow> nat" where
  "power_of_side side p = weight (\<lambda>v. if uv_support v = side then unat (uv_voting_power v) else 0) (up_voters p)"

definition proposal_inv :: "UpgradeProposal \<Rightarrow> bool" where
  "proposal_inv p =
     (up_total_voted p = of_nat (power_voted p) \<and> up_votes_for p = of_nat (power_of_side True p)
      \<and> up_votes_against p = of_nat (power_of_side False p)
      \<and> up_status p \<notin> {UpScheduled, UpActivating, UpActivated, UpFailed})"

definition upgrade_inv :: "string \<Rightarrow> UpgradeManager \<Rightarrow> bool" where
  "upgrade_inv ver m =
     ((\<forall>i p. hm_get (um_proposals m) i = Some p \<longrightarrow> proposal_inv p) \<and> um_activated m = [] \<and> um_current_version m = ver)"

lemma upgrade_inv_insert:
  assumes "upgrade_inv ver m" and "proposal_inv p" and "um_proposals m' = hm_insert i p (um_proposals m)"
    and "um_activated m' = um_activated m" and "um_current_version m' = um_current_version m"
  shows "upgrade_inv ver m'"
  using assms by (auto simp: upgrade_inv_def)

lemma proposal_inv_new: "proposal_inv (UpgradeProposal_new e now ty title description proposer ver blk)"
  by (simp add: proposal_inv_def UpgradeProposal_new_def power_voted_def power_of_side_def)

lemma vote_weight:
  "\<not> hm_contains voters k \<Longrightarrow> weight w (hm_insert k v voters) = weight w voters + w v"
  using weight_insert [of w k v voters] by (simp add: hm_contains_def)

lemma proposal_vote_inv:
  assumes "proposal_vote now p voter voting_power support = Ok p'" and "proposal_inv p"
  shows "proposal_inv p'"
  using assms
  by (auto simp: proposal_vote_def proposal_inv_def power_voted_def power_of_side_def vote_weight Let_def split: if_splits)

lemma proposal_finalize_inv:
  assumes "proposal_finalize percent now p blk = Ok p'" and "proposal_inv p"
  shows "proposal_inv p'"
  using assms
  by (auto simp: proposal_finalize_def proposal_inv_def power_voted_def power_of_side_def Let_def split: if_splits)

lemma proposal_cancel_inv:
  assumes "proposal_cancel now p canceller = Ok p'" and "proposal_inv p"
  shows "proposal_inv p'"
  using assms by (auto simp: proposal_cancel_def proposal_inv_def power_voted_def power_of_side_def split: if_splits)

lemma upgrade_invD: "upgrade_inv ver m \<Longrightarrow> hm_get (um_proposals m) i = Some p \<Longrightarrow> proposal_inv p"
  by (auto simp: upgrade_inv_def)

lemma submit_proposal_inv:
  assumes "submit_proposal e now m ty title description proposer v = Ok (m', i)" and "upgrade_inv ver m"
  shows "upgrade_inv ver m'"
  using assms(1)
  by (intro upgrade_inv_insert [OF assms(2) proposal_inv_new]) (auto simp: submit_proposal_def Let_def split: if_splits)

lemma manager_vote_inv:
  assumes "manager_vote now m i voter voting_power support = Ok m'" and "upgrade_inv ver m"
  shows "upgrade_inv ver m'"
proof -
  obtain p p' where "hm_get (um_proposals m) i = Some p" "proposal_vote now p voter voting_power support = Ok p'"
    and "um_proposals m' = hm_insert i p' (um_proposals m)" "um_activated m' = um_activated m"
      "um_current_version m' = um_current_version m"
    using assms(1) by (auto simp: and_then_Ok_iff manager_vote_def split: option.splits sum.splits)
  then show ?thesis using upgrade_inv_insert assms(2) proposal_vote_inv upgrade_invD by blast
qed

lemma finalize_proposal_inv:
  assumes "finalize_proposal percent now m i = Ok (m', st)" and "upgrade_inv ver m"
  shows "upgrade_inv ver m'"
proof -
  obtain p p' where "hm_get (um_proposals m) i = Some p" "proposal_finalize percent now p (um_current_block m) = Ok p'"
    and "um_proposals m' = hm_insert i p' (um_proposals m)" "um_activated m' = um_activated m"
      "um_current_version m' = um_current_version m"
    using assms(1) by (auto simp: and_then_Ok_iff finalize_proposal_def Let_def split: option.splits sum.splits if_splits)
  then show ?thesis using upgrade_inv_insert assms(2) proposal_finalize_inv upgrade_invD by blast
qed

lemma cancel_proposal_inv:
  assumes "cancel_proposal now m i canceller = Ok m'" and "upgrade_inv ver m"
  shows "upgrade_inv ver m'"
proof -
  obtain p p' where "hm_get (um_proposals m) i = Some p" "proposal_cancel now p canceller = Ok p'"
    and "um_proposals m' = hm_insert i p' (um_proposals m)" "um_activated m' = um_activated m"
      "um_current_version m' = um_current_version m"
    using assms(1) by (auto simp: and_then_Ok_iff cancel_proposal_def split: option.splits sum.splits)
  then show ?thesis using upgrade_inv_insert assms(2) proposal_cancel_inv upgrade_invD by blast
qed

lemma activate_loop_idle:
  assumes "\<And>i p. hm_get (um_proposals m) i = Some p \<Longrightarrow> up_status p \<noteq> UpScheduled"
  shows "activate_loop now height ids (m, acts, rems) = (m, acts, rems)"
  using assms by (induction ids) (auto simp: should_activate_def split: option.split)

lemma not_scheduled: "upgrade_inv ver m \<Longrightarrow> hm_get (um_proposals m) i = Some p \<Longrightarrow> up_status p \<noteq> UpScheduled"
  by (auto dest: upgrade_invD simp: proposal_inv_def)

lemma process_block_idle:
  assumes "upgrade_inv ver m"
  shows "upgrade_process_block now m height = (m\<lparr>um_current_block := height\<rparr>, [])"
  using activate_loop_idle [of "m\<lparr>um_current_block := height\<rparr>" now height] not_scheduled [OF assms]
  by (simp add: upgrade_process_block_def)

lemma upgrade_step_inv:
  assumes "upgrade_inv ver m"
  shows "upgrade_inv ver (upgrade_step percent m x)"
proof (cases x)
  case (UpBlock now height)
  then show ?thesis using assms by (simp add: process_block_idle [OF assms] upgrade_inv_def)
qed (use assms in \<open>auto split: sum.split dest: submit_proposal_inv manager_vote_inv finalize_proposal_inv cancel_proposal_inv\<close>)

interpretation upgrades: machine "UpgradeManager_new config ver" "upgrade_step percent" "upgrade_inv ver"
  by unfold_locales (simp_all add: upgrade_step_inv, simp add: upgrade_inv_def UpgradeManager_new_def)

subsection \<open>Properties\<close>

text \<open>
  The tally is the votes: in every reachable state of the manager, the total, the votes for and the votes
  against of each proposal are the sums (modulo \<open>2^64\<close>) of the power of its recorded voters, all of them
  and those of each side, each voter counted once.
\<close>

theorem upgrade_tally:
  assumes "reachable (upgrade_step percent) (UpgradeManager_new config ver) m" and "get_proposal m i = Some p"
  shows "up_total_voted p = of_nat (power_voted p) \<and> up_votes_for p = of_nat (power_of_side True p)
    \<and> up_votes_against p = of_nat (power_of_side False p)"
  using upgrades.inv_reachable [OF assms(1)] assms(2) by (auto simp: get_proposal_def proposal_inv_def dest: upgrade_invD)

text \<open>
  No upgrade is ever activated by the manager: after any sequence of submissions, votes, finalizations,
  blocks and cancellations the next block activates nothing, the history is empty and the protocol version
  is the initial one, for no operation of the manager schedules an approved proposal.
\<close>

theorem upgrades_never_activate:
  assumes "reachable (upgrade_step percent) (UpgradeManager_new config ver) m"
  shows "snd (upgrade_process_block now m height) = [] \<and> get_upgrade_history m = [] \<and> um_current_version m = ver"
  using upgrades.inv_reachable [OF assms] process_block_idle [of ver m now height]
  by (simp add: upgrade_inv_def get_upgrade_history_def)

definition example_upgrades :: UpgradeManager where
  "example_upgrades = run (upgrade_step (\<lambda>f n. 100)) (UpgradeManager_new UpgradeConfig_default ''1.0.0'')
     [UpSubmit sample_ext 0 EmergencyFix ''fix'' [] address_zero ''1.0.1'',
      UpVote 1 (proposal_generate_id sample_ext 0 ''fix'' address_zero) address_zero 30 True,
      UpBlock 2 1200, UpFinalize 3 (proposal_generate_id sample_ext 0 ''fix'' address_zero)]"

lemma example_upgrades_reachable:
  "reachable (upgrade_step (\<lambda>f n. 100)) (UpgradeManager_new UpgradeConfig_default ''1.0.0'') example_upgrades"
  unfolding example_upgrades_def by (rule reachable_run)

lemmas example_upgrades_simps = example_upgrades_def UpgradeManager_new_def UpgradeConfig_default_def submit_proposal_def
  UpgradeProposal_new_def manager_vote_def proposal_vote_def upgrade_process_block_def finalize_proposal_def
  proposal_finalize_def voting_ended_def is_passed_def approval_percent_def get_proposal_def

theorem upgrade_tally_witness:
  "\<exists>p. get_proposal example_upgrades (proposal_generate_id sample_ext 0 ''fix'' address_zero) = Some p
    \<and> up_votes_for p = 30 \<and> up_votes_for p = of_nat (power_of_side True p)"
proof -
  obtain p where p: "get_proposal example_upgrades (proposal_generate_id sample_ext 0 ''fix'' address_zero) = Some p" "up_votes_for p = 30"
    by (simp add: example_upgrades_simps Let_def)
  then show ?thesis using upgrade_tally [OF example_upgrades_reachable p(1)] by simp
qed

theorem upgrades_never_activate_witness:
  "um_pending example_upgrades \<noteq> [] \<and> snd (upgrade_process_block 9 example_upgrades 1000000) = [] \<and> um_current_version example_upgrades = ''1.0.0''"
proof -
  have "um_pending example_upgrades \<noteq> []" by (simp add: example_upgrades_simps Let_def)
  then show ?thesis using upgrades_never_activate [OF example_upgrades_reachable] by simp
qed

text \<open>
  Finalizing looks at no status: a proposal that its proposer cancelled, but that the votes carried, is
  approved and pending again when anyone finalizes it after the end of the voting period.
\<close>

lemma cancelled_proposal_revived:
  assumes "hm_get (um_proposals m) i = Some p" and "up_status p \<noteq> UpActivated"
    and "up_voting_ends_at p \<le> um_current_block m" and "is_passed percent p"
  shows "\<exists>m1 m2. cancel_proposal now m i (up_proposer p) = Ok m1 \<and> i \<notin> set (um_pending m1)
    \<and> finalize_proposal percent now m1 i = Ok (m2, UpApproved) \<and> i \<in> set (um_pending m2)"
  using assms
  by (simp add: cancel_proposal_def proposal_cancel_def finalize_proposal_def proposal_finalize_def voting_ended_def
      is_passed_def approval_percent_def Let_def split: if_splits)

end
