(* ===== verification/Wasm_Storage.thy ===== *)
theory Wasm_Storage
  imports Chain_Types Hash_Map
begin

section \<open>Storage of the WASM contracts\<close>

text \<open>
  \<open>pyrax-node/src/wasm/storage.rs\<close>: code, state and metadata of the contracts, and the index from code hashes to
  addresses. The clock is an argument. A storage shared through an \<open>Arc\<close> is threaded as a value.
\<close>

type_synonym storage_key = "u8 list"
type_synonym storage_value = "u8 list"

record ContractCodeRecord =
  ccr_code :: "u8 list"
  ccr_code_hash :: h256
  ccr_deployed_at :: u64
  ccr_deployer :: address

record ContractMetadata =
  cmd_address :: address
  cmd_code_hash :: h256
  cmd_version :: u32
  cmd_creator :: address
  cmd_creation_block :: u64
  cmd_last_update_block :: u64
  cmd_is_active :: bool

record ContractStorage =
  cst_code :: "(address, ContractCodeRecord) hashmap"
  cst_state :: "(address, (storage_key, storage_value) hashmap) hashmap"
  cst_metadata :: "(address, ContractMetadata) hashmap"
  cst_code_addresses :: "(h256, address list) hashmap"

definition ContractStorage_new :: ContractStorage where
  "ContractStorage_new = \<lparr>cst_code = [], cst_state = [], cst_metadata = [], cst_code_addresses = []\<rparr>"

definition cst_store_code :: "u64 \<Rightarrow> ContractStorage \<Rightarrow> address \<Rightarrow> u8 list \<Rightarrow> h256 \<Rightarrow> ContractStorage" where
  "cst_store_code now s address code code_hash =
     s\<lparr>cst_code := hm_insert address
         \<lparr>ccr_code = code, ccr_code_hash = code_hash, ccr_deployed_at = now, ccr_deployer = address_zero\<rparr> (cst_code s),
       cst_code_addresses := hm_push code_hash address (cst_code_addresses s)\<rparr>"

definition store_code_with_deployer ::
  "u64 \<Rightarrow> ContractStorage \<Rightarrow> address \<Rightarrow> u8 list \<Rightarrow> h256 \<Rightarrow> address \<Rightarrow> u64 \<Rightarrow> ContractStorage" where
  "store_code_with_deployer now s address code code_hash deployer block =
     s\<lparr>cst_code := hm_insert address
         \<lparr>ccr_code = code, ccr_code_hash = code_hash, ccr_deployed_at = now, ccr_deployer = deployer\<rparr> (cst_code s),
       cst_metadata := hm_insert address
         \<lparr>cmd_address = address, cmd_code_hash = code_hash, cmd_version = 1, cmd_creator = deployer,
          cmd_creation_block = block, cmd_last_update_block = block, cmd_is_active = True\<rparr> (cst_metadata s),
       cst_code_addresses := hm_push code_hash address (cst_code_addresses s)\<rparr>"

definition cst_get_code :: "ContractStorage \<Rightarrow> address \<Rightarrow> u8 list option" where
  "cst_get_code s address = map_option ccr_code (hm_get (cst_code s) address)"

definition get_code_hash :: "ContractStorage \<Rightarrow> address \<Rightarrow> h256 option" where
  "get_code_hash s address = map_option ccr_code_hash (hm_get (cst_code s) address)"

definition cst_has_code :: "ContractStorage \<Rightarrow> address \<Rightarrow> bool" where
  "cst_has_code s address = hm_contains (cst_code s) address"

definition remove_code :: "ContractStorage \<Rightarrow> address \<Rightarrow> ContractStorage" where
  "remove_code s address =
     (let s = (case hm_get (cst_code s) address of
                 None \<Rightarrow> s
               | Some r \<Rightarrow>
                   s\<lparr>cst_code := hm_remove address (cst_code s),
                     cst_code_addresses := hm_modify (ccr_code_hash r) (filter (\<lambda>a. a \<noteq> address)) (cst_code_addresses s)\<rparr>)
      in s\<lparr>cst_state := hm_remove address (cst_state s), cst_metadata := hm_remove address (cst_metadata s)\<rparr>)"

definition cst_get :: "ContractStorage \<Rightarrow> address \<Rightarrow> storage_key \<Rightarrow> storage_value option" where
  "cst_get s address key = Option.bind (hm_get (cst_state s) address) (\<lambda>m. hm_get m key)"

definition cst_set :: "ContractStorage \<Rightarrow> address \<Rightarrow> storage_key \<Rightarrow> storage_value \<Rightarrow> ContractStorage" where
  "cst_set s address key v =
     s\<lparr>cst_state := hm_insert address
        (hm_insert key v (case hm_get (cst_state s) address of None \<Rightarrow> [] | Some m \<Rightarrow> m)) (cst_state s)\<rparr>"

definition cst_delete :: "ContractStorage \<Rightarrow> address \<Rightarrow> storage_key \<Rightarrow> ContractStorage" where
  "cst_delete s address key = s\<lparr>cst_state := hm_modify address (hm_remove key) (cst_state s)\<rparr>"

definition cst_get_all :: "ContractStorage \<Rightarrow> address \<Rightarrow> (storage_key, storage_value) hashmap" where
  "cst_get_all s address = (case hm_get (cst_state s) address of None \<Rightarrow> [] | Some m \<Rightarrow> m)"

definition cst_clear :: "ContractStorage \<Rightarrow> address \<Rightarrow> ContractStorage" where
  "cst_clear s address = s\<lparr>cst_state := hm_remove address (cst_state s)\<rparr>"

definition storage_size :: "ContractStorage \<Rightarrow> address \<Rightarrow> nat" where
  "storage_size s address = (case hm_get (cst_state s) address of None \<Rightarrow> 0 | Some m \<Rightarrow> length m)"

definition get_metadata :: "ContractStorage \<Rightarrow> address \<Rightarrow> ContractMetadata option" where
  "get_metadata s address = hm_get (cst_metadata s) address"

definition update_metadata :: "ContractStorage \<Rightarrow> address \<Rightarrow> u64 \<Rightarrow> ContractStorage" where
  "update_metadata s address block =
     s\<lparr>cst_metadata := hm_modify address
        (\<lambda>meta. meta\<lparr>cmd_last_update_block := block, cmd_version := cmd_version meta + 1\<rparr>) (cst_metadata s)\<rparr>"

definition deactivate :: "ContractStorage \<Rightarrow> address \<Rightarrow> ContractStorage" where
  "deactivate s address = s\<lparr>cst_metadata := hm_modify address (\<lambda>meta. meta\<lparr>cmd_is_active := False\<rparr>) (cst_metadata s)\<rparr>"

definition get_contracts_by_code :: "ContractStorage \<Rightarrow> h256 \<Rightarrow> address list" where
  "get_contracts_by_code s code_hash = hm_list (cst_code_addresses s) code_hash"

record StorageStats =
  sst_contract_count :: u64
  sst_total_code_size :: u64
  sst_total_state_entries :: u64
  sst_total_state_size :: u64

text \<open>\<open>stats\<close>: the sums of lengths are those of \<open>usize\<close>, which wrap like \<open>u64\<close>.\<close>

definition storage_stats :: "ContractStorage \<Rightarrow> StorageStats" where
  "storage_stats s =
     \<lparr>sst_contract_count = of_nat (length (cst_code s)),
      sst_total_code_size = of_nat (sum_list (map (\<lambda>r. length (ccr_code r)) (hm_values (cst_code s)))),
      sst_total_state_entries = of_nat (sum_list (map length (hm_values (cst_state s)))),
      sst_total_state_size = of_nat (sum_list (map length (concat (map hm_values (hm_values (cst_state s))))))\<rparr>"

record StorageProof =
  spf_address :: address
  spf_key :: storage_key
  spf_value :: "storage_value option"
  spf_proof :: "u8 list list"

definition StorageProof_new :: "address \<Rightarrow> storage_key \<Rightarrow> storage_value option \<Rightarrow> StorageProof" where
  "StorageProof_new address key v = \<lparr>spf_address = address, spf_key = key, spf_value = v, spf_proof = []\<rparr>"

subsection \<open>The state as a key-value store\<close>

lemma cst_get_new [simp]: "cst_get ContractStorage_new a k = None"
  by (simp add: cst_get_def ContractStorage_new_def)

lemma cst_get_set [simp]:
  "cst_get (cst_set s a k v) a' k' = (if a' = a \<and> k' = k then Some v else cst_get s a' k')"
  by (auto simp: cst_get_def cst_set_def split: option.split)

lemma cst_get_delete [simp]:
  "cst_get (cst_delete s a k) a' k' = (if a' = a \<and> k' = k then None else cst_get s a' k')"
  by (cases "hm_get (cst_state s) a") (auto simp: cst_get_def cst_delete_def)

lemma cst_get_clear [simp]: "cst_get (cst_clear s a) a' k = (if a' = a then None else cst_get s a' k)"
  by (simp add: cst_get_def cst_clear_def)

lemma cst_get_remove_code [simp]: "cst_get (remove_code s a) a' k = (if a' = a then None else cst_get s a' k)"
  by (simp add: cst_get_def remove_code_def Let_def split: option.split)

lemma cst_get_store_code [simp]: "cst_get (cst_store_code now s a code h) a' k = cst_get s a' k"
  by (simp add: cst_get_def cst_store_code_def)

text \<open>Operations on the state leave code, metadata and index alone.\<close>

lemma cst_state_only [simp]:
  "cst_code (cst_set s a k v) = cst_code s" "cst_code (cst_delete s a k) = cst_code s" "cst_code (cst_clear s a) = cst_code s"
  "cst_metadata (cst_set s a k v) = cst_metadata s" "cst_metadata (cst_delete s a k) = cst_metadata s"
  "cst_metadata (cst_clear s a) = cst_metadata s"
  "cst_code_addresses (cst_set s a k v) = cst_code_addresses s"
  "cst_code_addresses (cst_delete s a k) = cst_code_addresses s" "cst_code_addresses (cst_clear s a) = cst_code_addresses s"
  by (simp_all add: cst_set_def cst_delete_def cst_clear_def)

subsection \<open>Runs\<close>

datatype storage_op =
    SStore u64 address "u8 list" h256
  | SStoreBy u64 address "u8 list" h256 address u64
  | SRemove address
  | SSet address storage_key storage_value
  | SDelete address storage_key
  | SClear address
  | SUpdate address u64
  | SDeactivate address

fun storage_step :: "ContractStorage \<Rightarrow> storage_op \<Rightarrow> ContractStorage" where
  "storage_step s (SStore now a code h) = cst_store_code now s a code h"
| "storage_step s (SStoreBy now a code h d b) = store_code_with_deployer now s a code h d b"
| "storage_step s (SRemove a) = remove_code s a"
| "storage_step s (SSet a k v) = cst_set s a k v"
| "storage_step s (SDelete a k) = cst_delete s a k"
| "storage_step s (SClear a) = cst_clear s a"
| "storage_step s (SUpdate a b) = update_metadata s a b"
| "storage_step s (SDeactivate a) = deactivate s a"

text \<open>Every contract is in the index under the hash of its code.\<close>

definition indexed :: "ContractStorage \<Rightarrow> bool" where
  "indexed s = (\<forall>a h. get_code_hash s a = Some h \<longrightarrow> a \<in> set (get_contracts_by_code s h))"

lemma hm_list_modify [simp]:
  "hm_list (hm_modify k (filter P) m) k' = (if k' = k then filter P (hm_list m k) else hm_list m k')"
  by (simp add: hm_list_def split: option.split)

lemmas code_ops = cst_store_code_def store_code_with_deployer_def update_metadata_def deactivate_def get_code_hash_def
  get_contracts_by_code_def

interpretation contract_storage: machine ContractStorage_new storage_step indexed
proof unfold_locales
  show "indexed ContractStorage_new" by (simp add: indexed_def ContractStorage_new_def get_code_hash_def)
  show "indexed (storage_step s x)" if inv: "indexed s" for s x
  proof (cases x)
    case (SRemove a)
    show ?thesis
    proof (cases "hm_get (cst_code s) a")
      case (Some r)
      then show ?thesis
        using inv SRemove by (auto simp: indexed_def remove_code_def code_ops Let_def)
    qed (use inv SRemove in \<open>simp add: indexed_def remove_code_def code_ops Let_def\<close>)
  qed (use inv in \<open>auto simp: indexed_def code_ops\<close>)
qed

subsection \<open>Properties\<close>

text \<open>
  The index is complete: in every reachable state of the storage a contract is listed under the hash of its
  code, whatever was stored, replaced, removed and written before.
\<close>

theorem contracts_indexed:
  assumes "reachable storage_step ContractStorage_new s" and "get_code_hash s a = Some h"
  shows "a \<in> set (get_contracts_by_code s h)"
  using contract_storage.inv_reachable [OF assms(1)] assms(2) by (simp add: indexed_def)

definition example_storage :: ContractStorage where
  "example_storage = run storage_step ContractStorage_new
     [SStore 0 address_zero [1] h256_zero, SSet address_zero [1] [2], SStoreBy 1 (Address (replicate 20 1)) [1] h256_zero address_zero 5]"

theorem contracts_indexed_witness:
  "address_zero \<in> set (get_contracts_by_code example_storage h256_zero)"
proof -
  have "get_code_hash example_storage address_zero = Some h256_zero"
    by (simp add: example_storage_def code_ops address_zero_def)
  then show ?thesis
    using contracts_indexed [of example_storage] reachable_run [of storage_step] unfolding example_storage_def by blast
qed

text \<open>
  The index is not sound: replacing the code at an address, which \<open>store_code\<close> does without a check, leaves
  the address listed under the hash of the old code.
\<close>

lemma replaced_code_still_listed:
  assumes "h \<noteq> h'"
  shows "get_code_hash (cst_store_code now' (cst_store_code now s a c h) a c' h') a = Some h'
    \<and> a \<in> set (get_contracts_by_code (cst_store_code now' (cst_store_code now s a c h) a c' h') h)"
  using assms by (simp add: code_ops)

end
