(* ===== verification/Wasm_Host.thy ===== *)
theory Wasm_Host
  imports Wasm_Storage
begin

section \<open>Host context of the WASM contracts\<close>

text \<open>
  \<open>pyrax-node/src/wasm/host.rs\<close>: the context a contract runs in, with its pending writes, logs and state changes,
  the costs of the host functions and call frames; and the records of \<open>runtime.rs\<close> it collects. The storage is the
  field of the context that the \<open>Arc\<close> points to, and \<open>commit\<close> gives the storage it leaves.
\<close>

record ContractLog =
  clg_address :: address
  clg_topics :: "u8 list list"
  clg_data :: "u8 list"

record StateChange =
  sch_address :: address
  sch_key :: "u8 list"
  sch_old_value :: "u8 list option"
  sch_new_value :: "u8 list option"

record HostContext =
  hx_contract_address :: address
  hx_caller :: address
  hx_value :: u64
  hx_gas_limit :: u64
  hx_gas_used :: u64
  hx_block_height :: u64
  hx_block_timestamp :: u64
  hx_storage :: ContractStorage
  hx_pending_writes :: "(u8 list \<times> u8 list) list"
  hx_logs :: "ContractLog list"
  hx_state_changes :: "StateChange list"
  hx_depth :: u32
  hx_read_only :: bool

definition HostContext_new :: "u64 \<Rightarrow> address \<Rightarrow> address \<Rightarrow> u64 \<Rightarrow> u64 \<Rightarrow> ContractStorage \<Rightarrow> HostContext" where
  "HostContext_new now contract_address caller v gas_limit storage =
     \<lparr>hx_contract_address = contract_address, hx_caller = caller, hx_value = v, hx_gas_limit = gas_limit, hx_gas_used = 0,
      hx_block_height = 0, hx_block_timestamp = now, hx_storage = storage, hx_pending_writes = [], hx_logs = [],
      hx_state_changes = [], hx_depth = 0, hx_read_only = False\<rparr>"

definition with_block :: "HostContext \<Rightarrow> u64 \<Rightarrow> u64 \<Rightarrow> HostContext" where
  "with_block c height timestamp = c\<lparr>hx_block_height := height, hx_block_timestamp := timestamp\<rparr>"

definition host_read_only :: "HostContext \<Rightarrow> HostContext" where
  "host_read_only c = c\<lparr>hx_read_only := True\<rparr>"

fun find_pending :: "u8 list \<Rightarrow> (u8 list \<times> u8 list) list \<Rightarrow> u8 list option" where
  "find_pending key [] = None"
| "find_pending key ((k, v) # ws) = (if k = key then Some v else find_pending key ws)"

definition storage_read :: "HostContext \<Rightarrow> u8 list \<Rightarrow> u8 list option" where
  "storage_read c key =
     (case find_pending key (rev (hx_pending_writes c)) of
        Some v \<Rightarrow> Some v
      | None \<Rightarrow> cst_get (hx_storage c) (hx_contract_address c) key)"

text \<open>The key of a state change is cut or filled to 32 bytes.\<close>

definition storage_write :: "HostContext \<Rightarrow> u8 list \<Rightarrow> u8 list \<Rightarrow> HostContext" where
  "storage_write c key v =
     (if hx_read_only c then c
      else c\<lparr>hx_state_changes := hx_state_changes c @
               [\<lparr>sch_address = hx_contract_address c, sch_key = copy_padded 32 key, sch_old_value = storage_read c key, sch_new_value = Some v\<rparr>],
             hx_pending_writes := hx_pending_writes c @ [(key, v)]\<rparr>)"

definition storage_delete :: "HostContext \<Rightarrow> u8 list \<Rightarrow> HostContext" where
  "storage_delete c key =
     (if hx_read_only c then c
      else c\<lparr>hx_state_changes := hx_state_changes c @
               [\<lparr>sch_address = hx_contract_address c, sch_key = copy_padded 32 key, sch_old_value = storage_read c key, sch_new_value = None\<rparr>],
             hx_pending_writes := hx_pending_writes c @ [(key, [])]\<rparr>)"

definition emit_log :: "HostContext \<Rightarrow> u8 list list \<Rightarrow> u8 list \<Rightarrow> HostContext" where
  "emit_log c topics data =
     (if hx_read_only c then c
      else c\<lparr>hx_logs := hx_logs c @ [\<lparr>clg_address = hx_contract_address c, clg_topics = topics, clg_data = data\<rparr>]\<rparr>)"

definition commit_write :: "address \<Rightarrow> u8 list \<times> u8 list \<Rightarrow> ContractStorage \<Rightarrow> ContractStorage" where
  "commit_write a kv s = (case kv of (key, v) \<Rightarrow> if v = [] then cst_delete s a key else cst_set s a key v)"

definition host_commit :: "HostContext \<Rightarrow> ContractStorage" where
  "host_commit c = fold (commit_write (hx_contract_address c)) (hx_pending_writes c) (hx_storage c)"

definition consume_gas :: "HostContext \<Rightarrow> u64 \<Rightarrow> HostContext \<times> bool" where
  "consume_gas c amount =
     (if hx_gas_limit c < hx_gas_used c + amount then (c, False)
      else (c\<lparr>hx_gas_used := hx_gas_used c + amount\<rparr>, True))"

definition remaining_gas :: "HostContext \<Rightarrow> u64" where
  "remaining_gas c = saturating_sub (hx_gas_limit c) (hx_gas_used c)"

subsection \<open>Costs and call frames\<close>

text \<open>Lengths are \<open>usize\<close> values of 64 bits.\<close>

definition storage_read_cost :: "u64 \<Rightarrow> u64" where
  "storage_read_cost value_len = 200 + value_len * 3"

definition storage_write_cost :: "u64 \<Rightarrow> u64" where
  "storage_write_cost value_len = 5000 + value_len * 10"

definition log_cost :: "u64 \<Rightarrow> u64 \<Rightarrow> u64" where
  "log_cost topics data_len = 375 + topics * 375 + data_len * 8"

definition hash_cost :: "u64 \<Rightarrow> u64" where
  "hash_cost input_len = (let words = (input_len + 31) div 32 in 30 + words * 6)"

record CallFrame =
  cf_contract_address :: address
  cf_caller :: address
  cf_value :: u64
  cf_gas :: u64
  cf_input :: "u8 list"
  cf_depth :: u32
  cf_is_static :: bool

definition CallFrame_new :: "address \<Rightarrow> address \<Rightarrow> u64 \<Rightarrow> u64 \<Rightarrow> u8 list \<Rightarrow> CallFrame" where
  "CallFrame_new contract_address caller v gas input =
     \<lparr>cf_contract_address = contract_address, cf_caller = caller, cf_value = v, cf_gas = gas, cf_input = input,
      cf_depth = 0, cf_is_static = False\<rparr>"

definition frame_with_depth :: "CallFrame \<Rightarrow> u32 \<Rightarrow> CallFrame" where
  "frame_with_depth f depth = f\<lparr>cf_depth := depth\<rparr>"

definition frame_static_call :: "CallFrame \<Rightarrow> CallFrame" where
  "frame_static_call f = f\<lparr>cf_is_static := True\<rparr>"

subsection \<open>Pending writes and what is committed\<close>

lemma find_pending_append:
  "find_pending key (xs @ ys) = (case find_pending key xs of None \<Rightarrow> find_pending key ys | Some v \<Rightarrow> Some v)"
  by (induction xs) auto

lemma cst_get_commit_write:
  "cst_get (commit_write a (key, v) s) a' k = (if a' = a \<and> k = key then (if v = [] then None else Some v) else cst_get s a' k)"
  by (simp add: commit_write_def)

definition present :: "u8 list \<Rightarrow> u8 list option" where
  "present v = (if v = [] then None else Some v)"

lemma cst_get_commits:
  "cst_get (fold (commit_write a) ws s) a' k =
    (if a' = a then (case find_pending k (rev ws) of Some v \<Rightarrow> present v | None \<Rightarrow> cst_get s a k) else cst_get s a' k)"
  by (induction ws arbitrary: s)
     (auto simp: cst_get_commit_write find_pending_append present_def split: option.split)

lemma host_commit_get:
  "cst_get (host_commit c) a k =
    (if a = hx_contract_address c
     then (case find_pending k (rev (hx_pending_writes c)) of Some v \<Rightarrow> present v | None \<Rightarrow> cst_get (hx_storage c) a k)
     else cst_get (hx_storage c) a k)"
  by (simp add: host_commit_def cst_get_commits split: option.split)

subsection \<open>The specification: one map per contract\<close>

datatype host_op =
    HWrite "u8 list" "u8 list"
  | HDelete "u8 list"
  | HLog "u8 list list" "u8 list"
  | HGas u64

fun host_step :: "HostContext \<Rightarrow> host_op \<Rightarrow> HostContext" where
  "host_step c (HWrite k v) = storage_write c k v"
| "host_step c (HDelete k) = storage_delete c k"
| "host_step c (HLog topics data) = emit_log c topics data"
| "host_step c (HGas n) = fst (consume_gas c n)"

fun kv_step :: "(u8 list \<Rightarrow> u8 list option) \<Rightarrow> host_op \<Rightarrow> u8 list \<Rightarrow> u8 list option" where
  "kv_step m (HWrite k v) = m(k := present v)"
| "kv_step m (HDelete k) = m(k := None)"
| "kv_step m (HLog topics data) = m"
| "kv_step m (HGas n) = m"

definition host_committed :: "HostContext \<Rightarrow> u8 list \<Rightarrow> u8 list option" where
  "host_committed c = cst_get (host_commit c) (hx_contract_address c)"

definition host_inv :: "address \<Rightarrow> ContractStorage \<Rightarrow> HostContext \<Rightarrow> bool" where
  "host_inv a s c = (hx_contract_address c = a \<and> hx_storage c = s \<and> \<not> hx_read_only c)"

lemmas host_ops = storage_write_def storage_delete_def emit_log_def consume_gas_def

lemma committed_step:
  assumes "\<not> hx_read_only c"
  shows "host_committed (host_step c x) = kv_step (host_committed c) x"
  using assms by (cases x) (auto simp: fun_eq_iff host_committed_def host_commit_get host_ops present_def split: option.split)

interpretation host: simulation "HostContext_new now a caller v gas s" host_step "host_inv a s" host_committed kv_step
proof unfold_locales
  show "host_inv a s (HostContext_new now a caller v gas s)" by (simp add: host_inv_def HostContext_new_def)
  show "host_inv a s (host_step c x)" if "host_inv a s c" for c x
    using that by (cases x) (auto simp: host_inv_def host_ops)
  show "host_committed (host_step c x) = kv_step (host_committed c) x" if "host_inv a s c" for c x
    using that committed_step by (simp add: host_inv_def)
qed

subsection \<open>Properties\<close>

text \<open>
  C33. The overlay refines a map: after any sequence of writes, deletions, logs and charges, committing a context
  gives a storage in which the state of its contract is the old one with the operations applied one by one
  (a write of nothing being a deletion), and the state of every other contract is as it was.
\<close>

theorem commit_refines_map:
  fixes a s now caller v gas xs
  defines "c \<equiv> run host_step (HostContext_new now a caller v gas s) xs"
  shows "cst_get (host_commit c) a' = (if a' = a then run kv_step (cst_get s a) xs else cst_get s a')"
proof -
  have inv: "host_inv a s (HostContext_new now a caller v gas s)" by (simp add: host_inv_def HostContext_new_def)
  have "host_inv a s c" using host.inv_run [OF inv] by (simp add: c_def)
  then have own: "hx_contract_address c = a" "hx_storage c = s" by (simp_all add: host_inv_def)
  have "host_committed (HostContext_new now a caller v gas s) = cst_get s a"
    by (simp add: host_committed_def host_commit_def HostContext_new_def)
  then have "host_committed c = run kv_step (cst_get s a) xs" using host.abs_run [OF inv] by (simp add: c_def)
  then show ?thesis using own by (auto simp: host_committed_def host_commit_get fun_eq_iff)
qed

text \<open>
  A contract reads its own writes, and reads what a commit would leave, except that a key it deleted or set
  to nothing reads as an empty value until the commit removes it.
\<close>

theorem read_agrees_with_commit:
  "host_committed c key =
    (if find_pending key (rev (hx_pending_writes c)) = Some [] then None else storage_read c key)"
  by (auto simp: host_committed_def host_commit_get storage_read_def present_def split: option.split)

lemma deleted_key_reads_empty: "\<not> hx_read_only c \<Longrightarrow> storage_read (storage_delete c key) key = Some []"
  by (simp add: storage_delete_def storage_read_def)

text \<open>A read-only context changes nothing.\<close>

lemma read_only_keeps: "hx_read_only c \<Longrightarrow> host_commit (run host_step c xs) = host_commit c"
proof (induction xs arbitrary: c)
  case (Cons x xs)
  have "hx_read_only (host_step c x)" "host_commit (host_step c x) = host_commit c"
    using Cons.prems by (cases x; simp add: host_ops host_commit_def)+
  then show ?case using Cons.IH by simp
qed simp

text \<open>Two keys with the same first 32 bytes, or that differ by trailing zeros, give the same key in the state changes.\<close>

lemma state_change_key_ambiguous: "copy_padded 32 (key @ [0]) = copy_padded 32 key"
  by (cases "length key < 32") (auto simp: copy_padded_def take_Cons' Suc_diff_Suc [symmetric] numeral_eq_Suc)

end
