(* ===== verification/Wasm_Gas.thy ===== *)
theory Wasm_Gas
  imports Rust_Prelude
begin

section \<open>Gas of the WASM contracts\<close>

text \<open>
  \<open>pyrax-node/src/wasm/metering.rs\<close>: cost formulas, the meter and the gas schedule. All sums and products are
  those of \<open>u64\<close> and wrap, as in a release build.
\<close>

record GasConfig =
  gc_instruction_base :: u64
  gc_memory_grow_per_page :: u64
  gc_memory_copy_per_byte :: u64
  gc_call_indirect :: u64
  gc_table_access :: u64
  gc_global_access :: u64
  gc_load_store_base :: u64
  gc_control_flow :: u64
  gc_comparison :: u64
  gc_arithmetic :: u64
  gc_bitwise :: u64
  gc_conversion :: u64

definition GasConfig_default :: GasConfig where
  "GasConfig_default =
     \<lparr>gc_instruction_base = 1, gc_memory_grow_per_page = 1000, gc_memory_copy_per_byte = 1, gc_call_indirect = 10,
      gc_table_access = 5, gc_global_access = 3, gc_load_store_base = 3, gc_control_flow = 2, gc_comparison = 1,
      gc_arithmetic = 1, gc_bitwise = 1, gc_conversion = 1\<rparr>"

datatype GasCost = Free | Fixed u64 | Linear u64 u64 | Quadratic u64 u64 u64

fun calculate :: "GasCost \<Rightarrow> u64 \<Rightarrow> u64" where
  "calculate Free units = 0"
| "calculate (Fixed cost) units = cost"
| "calculate (Linear base per_unit) units = base + per_unit * units"
| "calculate (Quadratic base per_unit per_unit_squared) units =
     base + per_unit * units + per_unit_squared * units * units"

record GasMeter =
  gm_limit :: u64
  gm_used :: u64
  gm_refund :: u64
  gm_config :: GasConfig
  gm_enabled :: bool

definition GasMeter_new :: "u64 \<Rightarrow> GasMeter" where
  "GasMeter_new limit =
     \<lparr>gm_limit = limit, gm_used = 0, gm_refund = 0, gm_config = GasConfig_default, gm_enabled = True\<rparr>"

definition with_config :: "u64 \<Rightarrow> GasConfig \<Rightarrow> GasMeter" where
  "with_config limit config =
     \<lparr>gm_limit = limit, gm_used = 0, gm_refund = 0, gm_config = config, gm_enabled = True\<rparr>"

definition unlimited :: GasMeter where
  "unlimited =
     \<lparr>gm_limit = - 1, gm_used = 0, gm_refund = 0, gm_config = GasConfig_default, gm_enabled = False\<rparr>"

definition consume :: "GasMeter \<Rightarrow> u64 \<Rightarrow> GasMeter \<times> bool" where
  "consume g amount =
     (if \<not> gm_enabled g then (g, True)
      else if gm_limit g < gm_used g + amount then (g\<lparr>gm_used := gm_limit g\<rparr>, False)
      else (g\<lparr>gm_used := gm_used g + amount\<rparr>, True))"

definition consume_cost :: "GasMeter \<Rightarrow> GasCost \<Rightarrow> u64 \<Rightarrow> GasMeter \<times> bool" where
  "consume_cost g cost units = consume g (calculate cost units)"

definition meter_refund :: "GasMeter \<Rightarrow> u64 \<Rightarrow> GasMeter" where
  "meter_refund g amount = g\<lparr>gm_refund := gm_refund g + amount\<rparr>"

definition gas_remaining :: "GasMeter \<Rightarrow> u64" where
  "gas_remaining g = saturating_sub (gm_limit g) (gm_used g)"

definition total_refund :: "GasMeter \<Rightarrow> u64" where
  "total_refund g = (let max_refund = gm_used g div 2 in min (gm_refund g) max_refund)"

definition effective_gas_used :: "GasMeter \<Rightarrow> u64" where
  "effective_gas_used g = saturating_sub (gm_used g) (total_refund g)"

definition is_out_of_gas :: "GasMeter \<Rightarrow> bool" where
  "is_out_of_gas g = (gm_limit g \<le> gm_used g)"

definition meter_reset :: "GasMeter \<Rightarrow> GasMeter" where
  "meter_reset g = g\<lparr>gm_used := 0, gm_refund := 0\<rparr>"

definition set_limit :: "GasMeter \<Rightarrow> u64 \<Rightarrow> GasMeter" where
  "set_limit g limit = g\<lparr>gm_limit := limit\<rparr>"

subsection \<open>The schedule\<close>

record WasmGasCosts =
  wg_regular :: u64
  wg_div :: u64
  wg_mul :: u64
  wg_mem_load :: u64
  wg_mem_store :: u64
  wg_mem_grow :: u64
  wg_i64_ops :: u64
  wg_call :: u64
  wg_call_indirect :: u64
  wg_local_get :: u64
  wg_local_set :: u64
  wg_global_get :: u64
  wg_global_set :: u64
  wg_br :: u64
  wg_br_if :: u64
  wg_br_table_base :: u64
  wg_br_table_per_entry :: u64

definition WasmGasCosts_default :: WasmGasCosts where
  "WasmGasCosts_default =
     \<lparr>wg_regular = 1, wg_div = 16, wg_mul = 4, wg_mem_load = 3, wg_mem_store = 3, wg_mem_grow = 8000, wg_i64_ops = 2,
      wg_call = 5, wg_call_indirect = 10, wg_local_get = 1, wg_local_set = 1, wg_global_get = 2, wg_global_set = 3,
      wg_br = 2, wg_br_if = 3, wg_br_table_base = 5, wg_br_table_per_entry = 1\<rparr>"

record HostGasCosts =
  hg_storage_read_base :: u64
  hg_storage_read_per_byte :: u64
  hg_storage_write_base :: u64
  hg_storage_write_per_byte :: u64
  hg_storage_delete :: u64
  hg_storage_delete_refund :: u64
  hg_log_base :: u64
  hg_log_per_topic :: u64
  hg_log_per_byte :: u64
  hg_blake3_base :: u64
  hg_blake3_per_word :: u64
  hg_keccak256_base :: u64
  hg_keccak256_per_word :: u64
  hg_ecrecover :: u64
  hg_get_caller :: u64
  hg_get_self :: u64
  hg_get_value :: u64
  hg_get_block_height :: u64
  hg_get_block_timestamp :: u64
  hg_balance :: u64
  hg_transfer :: u64

definition HostGasCosts_default :: HostGasCosts where
  "HostGasCosts_default =
     \<lparr>hg_storage_read_base = 200, hg_storage_read_per_byte = 3, hg_storage_write_base = 5000,
      hg_storage_write_per_byte = 10, hg_storage_delete = 5000, hg_storage_delete_refund = 15000, hg_log_base = 375,
      hg_log_per_topic = 375, hg_log_per_byte = 8, hg_blake3_base = 30, hg_blake3_per_word = 6,
      hg_keccak256_base = 30, hg_keccak256_per_word = 6, hg_ecrecover = 3000, hg_get_caller = 20, hg_get_self = 20,
      hg_get_value = 20, hg_get_block_height = 20, hg_get_block_timestamp = 20, hg_balance = 700, hg_transfer = 9000\<rparr>"

record InteropGasCosts =
  ig_call_evm_base :: u64
  ig_call_evm_per_byte :: u64
  ig_call_wasm_base :: u64
  ig_call_wasm_per_byte :: u64
  ig_abi_encode_per_byte :: u64
  ig_abi_decode_per_byte :: u64

definition InteropGasCosts_default :: InteropGasCosts where
  "InteropGasCosts_default =
     \<lparr>ig_call_evm_base = 1000, ig_call_evm_per_byte = 5, ig_call_wasm_base = 500, ig_call_wasm_per_byte = 3,
      ig_abi_encode_per_byte = 2, ig_abi_decode_per_byte = 2\<rparr>"

record GasSchedule =
  gs_wasm :: WasmGasCosts
  gs_host :: HostGasCosts
  gs_interop :: InteropGasCosts

definition GasSchedule_default :: GasSchedule where
  "GasSchedule_default = \<lparr>gs_wasm = WasmGasCosts_default, gs_host = HostGasCosts_default, gs_interop = InteropGasCosts_default\<rparr>"

subsection \<open>Charges in sequence\<close>

text \<open>Charges until the first that fails.\<close>

fun consume_all :: "GasMeter \<Rightarrow> u64 list \<Rightarrow> GasMeter \<times> bool" where
  "consume_all g [] = (g, True)"
| "consume_all g (a # as) = (case consume g a of (g', ok) \<Rightarrow> if ok then consume_all g' as else (g', False))"

text \<open>An operation of a meter whose limit stays as it is.\<close>

datatype meter_op = MConsume u64 | MCost GasCost u64 | MRefund u64 | MReset

fun meter_step :: "GasMeter \<Rightarrow> meter_op \<Rightarrow> GasMeter" where
  "meter_step g (MConsume a) = fst (consume g a)"
| "meter_step g (MCost c n) = fst (consume_cost g c n)"
| "meter_step g (MRefund a) = meter_refund g a"
| "meter_step g MReset = meter_reset g"

definition meter_inv :: "u64 \<Rightarrow> GasMeter \<Rightarrow> bool" where
  "meter_inv limit g = (gm_enabled g \<and> gm_limit g = limit \<and> gm_used g \<le> limit)"

interpretation gas_meter: machine "GasMeter_new limit" meter_step "meter_inv limit"
proof unfold_locales
  show "meter_inv limit (GasMeter_new limit)" by (simp add: meter_inv_def GasMeter_new_def)
  show "meter_inv limit (meter_step g x)" if "meter_inv limit g" for g x
    using that by (cases x) (auto simp: meter_inv_def consume_def consume_cost_def meter_refund_def meter_reset_def)
qed

lemma unat_half: "unat (a div 2 :: u64) = unat a div 2"
  by (simp add: unat_div)

lemma consume_exact:
  assumes "gm_enabled g" and "unat (gm_used g) + unat a < 2 ^ 64"
  shows "consume g a = (if unat (gm_used g) + unat a \<le> unat (gm_limit g) then (g\<lparr>gm_used := gm_used g + a\<rparr>, True)
    else (g\<lparr>gm_used := gm_limit g\<rparr>, False))"
  using assms unat_add_exact [of "gm_used g" a] by (simp add: consume_def word_less_nat_alt not_less)

lemma consume_all_exact:
  assumes "gm_enabled g" and "unat (gm_used g) \<le> unat (gm_limit g)"
    and "unat (gm_used g) + sum_list (map unat as) < 2 ^ 64"
  shows "consume_all g as =
    (let fits = unat (gm_used g) + sum_list (map unat as) \<le> unat (gm_limit g)
     in (g\<lparr>gm_used := if fits then gm_used g + sum_list as else gm_limit g\<rparr>, fits))"
  using assms
proof (induction as arbitrary: g)
  case (Cons a as)
  show ?case
  proof (cases "unat (gm_used g) + unat a \<le> unat (gm_limit g)")
    case True
    have u: "unat (gm_used g + a) = unat (gm_used g) + unat a" using Cons.prems(3) by (intro unat_add_exact) simp
    show ?thesis
      using Cons.IH [of "g\<lparr>gm_used := gm_used g + a\<rparr>"] Cons.prems True
      by (simp add: consume_exact u Let_def add.assoc)
  next
    case False
    then show ?thesis using Cons.prems by (simp add: consume_exact Let_def)
  qed
qed (simp add: Let_def)

subsection \<open>Properties\<close>

text \<open>
  The meter counts exactly: a new meter accepts a sequence of charges whose sum is below \<open>2^64\<close> if and
  only if the sum is within the limit, and what it then reports as used is the sum, or else the limit.
\<close>

theorem meter_counts:
  assumes "sum_list (map unat as) < 2 ^ 64"
  shows "(snd (consume_all (GasMeter_new limit) as) \<longleftrightarrow> sum_list (map unat as) \<le> unat limit)
    \<and> unat (gm_used (fst (consume_all (GasMeter_new limit) as))) = min (sum_list (map unat as)) (unat limit)"
  using assms consume_all_exact [of "GasMeter_new limit" as] unat_sum_list_exact [of as]
  by (simp add: GasMeter_new_def Let_def min_def)

theorem meter_counts_witness:
  "snd (consume_all (GasMeter_new 1000) [500, 400]) \<and> \<not> snd (consume_all (GasMeter_new 1000) [500, 400, 200])
    \<and> unat (gm_used (fst (consume_all (GasMeter_new 1000) [500, 400, 200]))) = 1000"
  using meter_counts [of "[500, 400]" 1000] meter_counts [of "[500, 400, 200]" 1000] by simp

text \<open>
  In every state of a meter with a limit the gas used is within it, and after the refund at least half of
  what was used is paid.
\<close>

theorem meter_within_limit:
  assumes "reachable meter_step (GasMeter_new limit) g"
  shows "gm_used g \<le> limit \<and> unat (gm_used g) \<le> 2 * unat (effective_gas_used g) \<and> effective_gas_used g \<le> gm_used g"
proof -
  have "unat (total_refund g) \<le> unat (gm_used g) div 2"
    by (simp add: total_refund_def word_le_nat_alt [symmetric] unat_half [symmetric])
  then show ?thesis
    using gas_meter.inv_reachable [OF assms]
    by (simp add: meter_inv_def effective_gas_used_def unat_saturating_sub saturating_sub_le)
qed

definition example_meter :: GasMeter where
  "example_meter = run meter_step (GasMeter_new 1000) [MConsume 800, MRefund 500]"

theorem meter_within_limit_witness:
  "effective_gas_used example_meter = 400 \<and> gm_used example_meter \<le> 1000
    \<and> unat (gm_used example_meter) \<le> 2 * unat (effective_gas_used example_meter)"
proof -
  have "effective_gas_used example_meter = 400" by code_simp
  then show ?thesis
    using meter_within_limit [of 1000 example_meter] reachable_run [of meter_step] unfolding example_meter_def by blast
qed

text \<open>
  The sum that is compared with the limit wraps: a charge of \<open>2^64 - used\<close> is accepted and leaves nothing
  used, and a linear cost can come out as its base.
\<close>

lemma huge_charge_resets_meter:
  "gm_enabled g \<Longrightarrow> consume g (- gm_used g) = (g\<lparr>gm_used := 0\<rparr>, True)"
  by (simp add: consume_def)

lemma linear_cost_wraps: "calculate (Linear base (2 ^ 32)) (2 ^ 32) = base"
  by simp

end
