(* ===== verification/Wasm_Runtime.thy ===== *)
theory Wasm_Runtime
  imports Wasm_Host Wasm_Gas
begin

section \<open>The WASM runtime\<close>

text \<open>
  \<open>pyrax-node/src/wasm/runtime.rs\<close>: compilation, deployment and calls, the host functions a contract imports and
  their access to its memory. Wasmtime is the argument \<open>wasm_engine\<close>: it compiles code to modules and gives the
  runs of a module, a run being the tree of what it asks of its host (\<open>guest\<close>) until it finishes or traps, so
  every run is finite. Host functions that panic take the call down: their value is \<open>None\<close>.
  Pointers are \<open>i32\<close> values, sign-extended to \<open>usize\<close>, whose sums wrap.
\<close>

definition MAX_CODE_SIZE :: u64 where
  "MAX_CODE_SIZE = 1024 * 1024"

definition MAX_MEMORY_PAGES :: u32 where
  "MAX_MEMORY_PAGES = 256"

definition DEFAULT_GAS_LIMIT :: u64 where
  "DEFAULT_GAS_LIMIT = 10000000"

definition CALL_TIMEOUT_SECS :: u64 where
  "CALL_TIMEOUT_SECS = 30"

record WasmConfig =
  wc_max_code_size :: u64
  wc_max_memory_pages :: u32
  wc_default_gas_limit :: u64
  wc_call_timeout_secs :: u64
  wc_debug_mode :: bool
  wc_fuel_metering :: bool
  wc_fuel_to_gas_ratio :: u64

definition WasmConfig_default :: WasmConfig where
  "WasmConfig_default =
     \<lparr>wc_max_code_size = MAX_CODE_SIZE, wc_max_memory_pages = MAX_MEMORY_PAGES, wc_default_gas_limit = DEFAULT_GAS_LIMIT,
      wc_call_timeout_secs = CALL_TIMEOUT_SECS, wc_debug_mode = False, wc_fuel_metering = True, wc_fuel_to_gas_ratio = 1\<rparr>"

record WasmResult =
  wx_return_data :: "u8 list"
  wx_gas_used :: u64
  wx_logs :: "ContractLog list"
  wx_state_changes :: "StateChange list"
  wx_success :: bool
  wx_revert_reason :: "string option"

definition wasm_result_success :: "u8 list \<Rightarrow> u64 \<Rightarrow> WasmResult" where
  "wasm_result_success return_data gas_used =
     \<lparr>wx_return_data = return_data, wx_gas_used = gas_used, wx_logs = [], wx_state_changes = [], wx_success = True,
      wx_revert_reason = None\<rparr>"

definition wasm_result_revert :: "string \<Rightarrow> u64 \<Rightarrow> WasmResult" where
  "wasm_result_revert reason gas_used =
     \<lparr>wx_return_data = [], wx_gas_used = gas_used, wx_logs = [], wx_state_changes = [], wx_success = False,
      wx_revert_reason = Some reason\<rparr>"

datatype ExecutionError =
    CodeTooLarge u64 u64
  | InvalidModule string
  | CompilationFailed string
  | InstantiationFailed string
  | ExecutionFailed string
  | WasmOutOfGas u64 u64
  | WasmTimeout u64
  | MemoryOutOfBounds
  | WasmStackOverflow
  | ContractNotFound address
  | FunctionNotFound string
  | InvalidArguments string
  | WasmRevert string
  | HostError string

subsection \<open>Host functions\<close>

definition usize_of_i32 :: "u32 \<Rightarrow> u64" where
  "usize_of_i32 p = word_of_int (sint p)"

text \<open>\<open>data[start..end]\<close>, with the panics of a slice.\<close>

definition slice_range :: "u8 list \<Rightarrow> u64 \<Rightarrow> u64 \<Rightarrow> u8 list option" where
  "slice_range data start stop =
     (if start \<le> stop \<and> unat stop \<le> length data then Some (take (unat stop - unat start) (drop (unat start) data)) else None)"

definition overwrite :: "u8 list \<Rightarrow> u64 \<Rightarrow> u8 list \<Rightarrow> u8 list" where
  "overwrite mem start data = take (unat start) mem @ data @ drop (unat start + length data) mem"

definition read_memory :: "u8 list \<Rightarrow> u64 \<Rightarrow> u64 \<Rightarrow> u8 list option" where
  "read_memory mem offset len =
     (if unat (offset + len) \<le> length mem then slice_range mem offset (offset + len) else Some [])"

definition write_memory :: "u8 list \<Rightarrow> u64 \<Rightarrow> u8 list \<Rightarrow> u8 list option" where
  "write_memory mem offset data =
     (if unat (offset + of_nat (length data)) \<le> length mem
      then (if offset \<le> offset + of_nat (length data) then Some (overwrite mem offset data) else None)
      else Some mem)"

text \<open>\<open>let slice = &mut data[ptr..ptr + 20]; slice.copy_from_slice(&addr.0)\<close>\<close>

definition write_address :: "u8 list \<Rightarrow> u32 \<Rightarrow> address \<Rightarrow> u8 list option" where
  "write_address mem p a =
     map_option (\<lambda>_. overwrite mem (usize_of_i32 p) (address_bytes a))
       (slice_range mem (usize_of_i32 p) (usize_of_i32 p + 20))"

datatype host_call =
    CallStorageRead u32 u32 u32
  | CallStorageWrite u32 u32 u32 u32
  | CallEmitLog u32 u32 u32 u32
  | CallGetCaller u32
  | CallGetSelf u32
  | CallGetValue
  | CallGetBlockHeight
  | CallGetBlockTimestamp
  | CallBlake3 u32 u32 u32
  | CallKeccak256 u32 u32 u32
  | CallRevert u32 u32
  | CallDebugPrint u32 u32

datatype host_ret = RNone | RI32 u32 | RI64 u64

text \<open>The topics of a log, read one by one; a topic out of bounds is shorter than 32 bytes and panics when copied.\<close>

fun read_topics :: "u8 list \<Rightarrow> u32 \<Rightarrow> nat list \<Rightarrow> u8 list list option" where
  "read_topics mem p [] = Some []"
| "read_topics mem p (i # is) =
     Option.bind (read_memory mem (usize_of_i32 p + of_nat i * 32) 32) (\<lambda>t.
       if length t \<noteq> 32 then None else map_option (Cons t) (read_topics mem p is))"

definition read_at :: "u8 list \<Rightarrow> u32 \<Rightarrow> u32 \<Rightarrow> u8 list option" where
  "read_at mem p n = read_memory mem (usize_of_i32 p) (usize_of_i32 n)"

fun host_function ::
  "ext \<Rightarrow> u8 list \<Rightarrow> HostContext \<Rightarrow> host_call \<Rightarrow> (u8 list \<times> HostContext \<times> host_ret) option" where
  "host_function e mem c (CallStorageRead key_ptr key_len value_ptr) =
     Option.bind (read_at mem key_ptr key_len) (\<lambda>key.
       case storage_read c key of
         None \<Rightarrow> Some (mem, c, RI32 (- 1))
       | Some v \<Rightarrow>
           map_option (\<lambda>mem'. (mem', c, RI32 (of_nat (length v)))) (write_memory mem (usize_of_i32 value_ptr) v))"
| "host_function e mem c (CallStorageWrite key_ptr key_len value_ptr value_len) =
     Option.bind (read_at mem key_ptr key_len) (\<lambda>key.
       map_option (\<lambda>v. (mem, storage_write c key v, RNone)) (read_at mem value_ptr value_len))"
| "host_function e mem c (CallEmitLog topics_ptr topics_count data_ptr data_len) =
     Option.bind (read_topics mem topics_ptr [0..<nat (sint topics_count)]) (\<lambda>topics.
       map_option (\<lambda>data. (mem, emit_log c topics data, RNone)) (read_at mem data_ptr data_len))"
| "host_function e mem c (CallGetCaller p) = map_option (\<lambda>mem'. (mem', c, RNone)) (write_address mem p (hx_caller c))"
| "host_function e mem c (CallGetSelf p) = map_option (\<lambda>mem'. (mem', c, RNone)) (write_address mem p (hx_contract_address c))"
| "host_function e mem c CallGetValue = Some (mem, c, RI64 (hx_value c))"
| "host_function e mem c CallGetBlockHeight = Some (mem, c, RI64 (hx_block_height c))"
| "host_function e mem c CallGetBlockTimestamp = Some (mem, c, RI64 (hx_block_timestamp c))"
| "host_function e mem c (CallBlake3 input_ptr input_len output_ptr) =
     Option.bind (read_at mem input_ptr input_len) (\<lambda>input.
       map_option (\<lambda>mem'. (mem', c, RNone)) (write_memory mem (usize_of_i32 output_ptr) (ext_blake3 e input)))"
| "host_function e mem c (CallKeccak256 input_ptr input_len output_ptr) =
     Option.bind (read_at mem input_ptr input_len) (\<lambda>input.
       map_option (\<lambda>mem'. (mem', c, RNone)) (write_memory mem (usize_of_i32 output_ptr) (ext_keccak256 e input)))"
| "host_function e mem c (CallRevert msg_ptr msg_len) = None"
| "host_function e mem c (CallDebugPrint msg_ptr msg_len) = map_option (\<lambda>_. (mem, c, RNone)) (read_at mem msg_ptr msg_len)"

text \<open>
  Every function that touches memory first takes the export named \<open>memory\<close> and panics without one.
\<close>

fun needs_memory :: "host_call \<Rightarrow> bool" where
  "needs_memory CallGetValue = False"
| "needs_memory CallGetBlockHeight = False"
| "needs_memory CallGetBlockTimestamp = False"
| "needs_memory h = True"

definition call_host ::
  "ext \<Rightarrow> u8 list option \<Rightarrow> HostContext \<Rightarrow> host_call \<Rightarrow> (u8 list option \<times> HostContext \<times> host_ret) option" where
  "call_host e mem c h =
     (case mem of
        None \<Rightarrow> if needs_memory h then None
                 else map_option (\<lambda>(_, c', r). (None, c', r)) (host_function e [] c h)
      | Some m \<Rightarrow> map_option (\<lambda>(m', c', r). (Some m', c', r)) (host_function e m c h))"

subsection \<open>Guests\<close>

datatype 'i guest =
    Finished 'i "u8 list option" u64 u32
  | Trapped u64 string
  | Asks "u8 list option" host_call "u8 list option \<Rightarrow> host_ret \<Rightarrow> 'i guest"

text \<open>What a run ends with: a trap, with the fuel that is left, or an instance, its memory, the fuel and the result.\<close>

type_synonym 'i guest_end = "(u64 \<times> string) + ('i \<times> u8 list option \<times> u64 \<times> u32)"

primrec run_guest :: "ext \<Rightarrow> 'i guest \<Rightarrow> HostContext \<Rightarrow> HostContext \<times> 'i guest_end option" where
  "run_guest e (Finished i mem fuel r) = (\<lambda>c. (c, Some (Ok (i, mem, fuel, r))))"
| "run_guest e (Trapped fuel msg) = (\<lambda>c. (c, Some (Err (fuel, msg))))"
| "run_guest e (Asks mem h k) =
     (\<lambda>c. case call_host e mem c h of None \<Rightarrow> (c, None) | Some (mem', c', r) \<Rightarrow> run_guest e (k mem' r) c')"

record ('m, 'i) wasm_engine =
  we_compile :: "u8 list \<Rightarrow> string + 'm"
  we_start :: "'m \<Rightarrow> u64 \<Rightarrow> 'i guest"
  we_has_allocate :: "'i \<Rightarrow> bool"
  we_has_function :: "'i \<Rightarrow> string \<Rightarrow> bool"
  we_call :: "'i \<Rightarrow> u8 list option \<Rightarrow> u64 \<Rightarrow> string \<Rightarrow> u32 list \<Rightarrow> 'i guest"

record 'm WasmRuntime =
  wr_config :: WasmConfig
  wr_module_cache :: "(h256, 'm) hashmap"
  wr_storage :: ContractStorage
  wr_gas_config :: GasConfig

definition WasmRuntime_new :: "WasmConfig \<Rightarrow> ContractStorage \<Rightarrow> 'm WasmRuntime" where
  "WasmRuntime_new config storage =
     \<lparr>wr_config = config, wr_module_cache = [], wr_storage = storage, wr_gas_config = GasConfig_default\<rparr>"

definition runtime_with_defaults :: "ContractStorage \<Rightarrow> 'm WasmRuntime" where
  "runtime_with_defaults storage = WasmRuntime_new WasmConfig_default storage"

definition wasm_compile :: "('m, 'i) wasm_engine \<Rightarrow> 'm WasmRuntime \<Rightarrow> u8 list \<Rightarrow> ExecutionError + 'm" where
  "wasm_compile w rt code =
     (if unat (wc_max_code_size (wr_config rt)) < length code
      then Err (CodeTooLarge (of_nat (length code)) (wc_max_code_size (wr_config rt)))
      else case we_compile w code of Err msg \<Rightarrow> Err (InvalidModule msg) | Ok module \<Rightarrow> Ok module)"

subsection \<open>Calls\<close>

text \<open>\<open>memory.write\<close> and \<open>memory.read\<close> of Wasmtime fail out of bounds and do not wrap.\<close>

definition checked_write :: "u8 list \<Rightarrow> u64 \<Rightarrow> u8 list \<Rightarrow> ExecutionError + u8 list" where
  "checked_write mem p data =
     (if unat p + length data \<le> length mem then Ok (overwrite mem p data) else Err MemoryOutOfBounds)"

definition checked_read :: "u8 list \<Rightarrow> nat \<Rightarrow> nat \<Rightarrow> ExecutionError + u8 list" where
  "checked_read mem p n = (if p + n \<le> length mem then Ok (take n (drop p mem)) else Err MemoryOutOfBounds)"

definition read_return_data :: "u8 list \<Rightarrow> u32 \<Rightarrow> ExecutionError + u8 list" where
  "read_return_data mem ret_ptr =
     (if sint ret_ptr < 0 then Ok []
      else and_then (checked_read mem (unat ret_ptr) 4) (\<lambda>len_buf.
        let len = unat (u32_from_le_bytes len_buf)
        in if len = 0 then Ok [] else checked_read mem (unat ret_ptr + 4) len))"

text \<open>
  \<open>allocate_input\<close>: the pointer, with the instance, its memory and the fuel afterwards. A panic of a host
  function is the outer \<open>None\<close>.
\<close>

definition allocate_input ::
  "ext \<Rightarrow> ('m, 'i) wasm_engine \<Rightarrow> 'i \<Rightarrow> u8 list option \<Rightarrow> u64 \<Rightarrow> u8 list \<Rightarrow> HostContext
    \<Rightarrow> HostContext \<times> (ExecutionError + ('i \<times> u8 list \<times> u64 \<times> u32)) option" where
  "allocate_input e w i mem fuel data c =
     (case mem of
        None \<Rightarrow> (c, Some (Err (ExecutionFailed ''No memory'')))
      | Some m \<Rightarrow>
          if we_has_allocate w i then
            (case run_guest e (we_call w i mem fuel ''allocate'' [of_nat (length data)]) c of
               (c, None) \<Rightarrow> (c, None)
             | (c, Some (Err (_, msg))) \<Rightarrow> (c, Some (Err (ExecutionFailed msg)))
             | (c, Some (Ok (i, mem, fuel, p))) \<Rightarrow>
                 (case mem of
                    None \<Rightarrow> (c, Some (Err MemoryOutOfBounds))
                  | Some m \<Rightarrow> (c, Some (and_then (checked_write m (usize_of_i32 p) data) (\<lambda>m. Ok (i, m, fuel, p))))))
          else (c, Some (and_then (checked_write m 0 data) (\<lambda>m. Ok (i, m, fuel, 0)))))"

text \<open>The gas of a run with the fuel it left; the division panics when the ratio is zero.\<close>

definition fuel_gas :: "WasmConfig \<Rightarrow> u64 \<Rightarrow> u64 \<Rightarrow> u64 option" where
  "fuel_gas cfg gas_limit remaining =
     (if wc_fuel_metering cfg then div_u64 (gas_limit * wc_fuel_to_gas_ratio cfg - remaining) (wc_fuel_to_gas_ratio cfg)
      else Some 0)"

text \<open>The end of a call: the result of the function, with the logs and state changes of its context.\<close>

definition call_result ::
  "u64 \<Rightarrow> u64 \<Rightarrow> HostContext \<Rightarrow> 'i guest_end \<Rightarrow> ExecutionError + WasmResult" where
  "call_result gas_limit gas_used c out =
     (case out of
        Err (_, reason) \<Rightarrow>
          if str_contains reason ''out of fuel'' then Err (WasmOutOfGas gas_used gas_limit)
          else Ok (wasm_result_revert reason gas_used)
      | Ok (_, mem, _, ret_ptr) \<Rightarrow>
          (case mem of
             None \<Rightarrow> Err MemoryOutOfBounds
           | Some m \<Rightarrow>
               and_then (read_return_data m ret_ptr) (\<lambda>return_data.
                 Ok \<lparr>wx_return_data = return_data, wx_gas_used = gas_used, wx_logs = hx_logs c,
                     wx_state_changes = hx_state_changes c, wx_success = True, wx_revert_reason = None\<rparr>)))"

definition guest_fuel :: "'i guest_end \<Rightarrow> u64" where
  "guest_fuel out = (case out of Err (fuel, _) \<Rightarrow> fuel | Ok (_, _, fuel, _) \<Rightarrow> fuel)"

text \<open>\<open>over secs\<close> tells whether the call took longer.\<close>

definition invoke ::
  "ext \<Rightarrow> ('m, 'i) wasm_engine \<Rightarrow> WasmConfig \<Rightarrow> (u64 \<Rightarrow> bool) \<Rightarrow> 'i \<Rightarrow> u8 list \<Rightarrow> u64 \<Rightarrow> string \<Rightarrow> u32 \<Rightarrow> u8 list \<Rightarrow> u64 \<Rightarrow> HostContext
    \<Rightarrow> HostContext \<times> (ExecutionError + WasmResult) option" where
  "invoke e w cfg over i mem fuel function p args gas_limit c =
     (if \<not> we_has_function w i function then (c, Some (Err (FunctionNotFound function)))
      else case run_guest e (we_call w i (Some mem) fuel function [p, of_nat (length args)]) c of
        (c, None) \<Rightarrow> (c, None)
      | (c, Some out) \<Rightarrow>
          if over (wc_call_timeout_secs cfg) then (c, Some (Err (WasmTimeout (wc_call_timeout_secs cfg))))
          else (c, map_option (\<lambda>gas_used. call_result gas_limit gas_used c out) (fuel_gas cfg gas_limit (guest_fuel out))))"

text \<open>
  \<open>call_internal\<close> on the storage of the runtime; the storage it leaves is the one its context refers to.
\<close>

definition call_internal ::
  "ext \<Rightarrow> ('m, 'i) wasm_engine \<Rightarrow> u64 \<Rightarrow> (u64 \<Rightarrow> bool) \<Rightarrow> 'm WasmRuntime \<Rightarrow> 'm \<Rightarrow> address \<Rightarrow> address \<Rightarrow> string \<Rightarrow> u8 list
    \<Rightarrow> u64 \<Rightarrow> u64 \<Rightarrow> 'm WasmRuntime \<times> (ExecutionError + WasmResult) option" where
  "call_internal e w now over rt module contract_address caller function args gas_limit v =
     (let cfg = wr_config rt;
          fuel = (if wc_fuel_metering cfg then gas_limit * wc_fuel_to_gas_ratio cfg else 0);
          (c, r) =
            (case run_guest e (we_start w module fuel) (HostContext_new now contract_address caller v gas_limit (wr_storage rt)) of
               (c, None) \<Rightarrow> (c, None)
             | (c, Some (Err (_, msg))) \<Rightarrow> (c, Some (Err (InstantiationFailed msg)))
             | (c, Some (Ok (i, mem, fuel, _))) \<Rightarrow>
                 if mem = None then (c, Some (Err (ExecutionFailed ''No memory export'')))
                 else (case allocate_input e w i mem fuel args c of
                         (c, None) \<Rightarrow> (c, None)
                       | (c, Some (Err x)) \<Rightarrow> (c, Some (Err x))
                       | (c, Some (Ok (i, mem, fuel, p))) \<Rightarrow> invoke e w cfg over i mem fuel function p args gas_limit c))
      in (rt\<lparr>wr_storage := hx_storage c\<rparr>, r))"

definition wasm_hash_code :: "ext \<Rightarrow> u8 list \<Rightarrow> h256" where
  "wasm_hash_code e code = h256_from_slice (ext_blake3 e code)"

text \<open>\<open>nanos\<close> is the clock, a \<open>u128\<close>.\<close>

definition generate_contract_address :: "ext \<Rightarrow> u128 \<Rightarrow> address \<Rightarrow> u8 list \<Rightarrow> address" where
  "generate_contract_address e nanos deployer code =
     Address (take 20 (drop 12 (ext_blake3 e (address_bytes deployer @ code @ le_bytes 16 (unat nanos)))))"

definition get_module ::
  "ext \<Rightarrow> ('m, 'i) wasm_engine \<Rightarrow> 'm WasmRuntime \<Rightarrow> address \<Rightarrow> 'm WasmRuntime \<times> (ExecutionError + 'm)" where
  "get_module e w rt address =
     (case Option.bind (get_code_hash (wr_storage rt) address) (hm_get (wr_module_cache rt)) of
        Some module \<Rightarrow> (rt, Ok module)
      | None \<Rightarrow>
          (case cst_get_code (wr_storage rt) address of
             None \<Rightarrow> (rt, Err (ContractNotFound address))
           | Some code \<Rightarrow>
               (case wasm_compile w rt code of
                  Err x \<Rightarrow> (rt, Err x)
                | Ok module \<Rightarrow> (rt\<lparr>wr_module_cache := hm_insert (wasm_hash_code e code) module (wr_module_cache rt)\<rparr>, Ok module))))"

definition wasm_deploy ::
  "ext \<Rightarrow> ('m, 'i) wasm_engine \<Rightarrow> u64 \<Rightarrow> u128 \<Rightarrow> (u64 \<Rightarrow> bool) \<Rightarrow> 'm WasmRuntime \<Rightarrow> address \<Rightarrow> u8 list \<Rightarrow> u8 list \<Rightarrow> u64
    \<Rightarrow> 'm WasmRuntime \<times> (ExecutionError + (address \<times> WasmResult)) option" where
  "wasm_deploy e w now nanos over rt deployer code init_args gas_limit =
     (case wasm_compile w rt code of
        Err x \<Rightarrow> (rt, Some (Err x))
      | Ok module \<Rightarrow>
          let contract_address = generate_contract_address e nanos deployer code;
              code_hash = wasm_hash_code e code;
              rt = rt\<lparr>wr_module_cache := hm_insert code_hash module (wr_module_cache rt),
                      wr_storage := cst_store_code now (wr_storage rt) contract_address code code_hash\<rparr>
          in case call_internal e w now over rt module contract_address deployer ''deploy'' init_args gas_limit 0 of
               (rt, None) \<Rightarrow> (rt, None)
             | (rt, Some (Err x)) \<Rightarrow> (rt, Some (Err x))
             | (rt, Some (Ok r)) \<Rightarrow>
                 if \<not> wx_success r
                 then (rt\<lparr>wr_storage := remove_code (wr_storage rt) contract_address\<rparr>,
                       Some (Err (WasmRevert (case wx_revert_reason r of None \<Rightarrow> ''Deployment failed'' | Some s \<Rightarrow> s))))
                 else (rt, Some (Ok (contract_address, r))))"

definition wasm_call ::
  "ext \<Rightarrow> ('m, 'i) wasm_engine \<Rightarrow> u64 \<Rightarrow> (u64 \<Rightarrow> bool) \<Rightarrow> 'm WasmRuntime \<Rightarrow> address \<Rightarrow> address \<Rightarrow> string \<Rightarrow> u8 list \<Rightarrow> u64 \<Rightarrow> u64
    \<Rightarrow> 'm WasmRuntime \<times> (ExecutionError + WasmResult) option" where
  "wasm_call e w now over rt contract_address caller function args gas_limit v =
     (case get_module e w rt contract_address of
        (rt, Err x) \<Rightarrow> (rt, Some (Err x))
      | (rt, Ok module) \<Rightarrow> call_internal e w now over rt module contract_address caller function args gas_limit v)"

definition runtime_cached_modules :: "'m WasmRuntime \<Rightarrow> u64" where
  "runtime_cached_modules rt = of_nat (length (wr_module_cache rt))"

subsection \<open>What a run can do to its context\<close>

text \<open>
  The context of a run on the storage \<open>s\<close> for the contract \<open>a\<close>: it still refers to that storage, unchanged,
  and what it recorded is of that contract.
\<close>

definition context_inv :: "ContractStorage \<Rightarrow> address \<Rightarrow> HostContext \<Rightarrow> bool" where
  "context_inv s a c =
     (hx_storage c = s \<and> hx_contract_address c = a \<and> (\<forall>l \<in> set (hx_logs c). clg_address l = a)
      \<and> (\<forall>x \<in> set (hx_state_changes c). sch_address x = a))"

lemma context_inv_new: "context_inv s a (HostContext_new now a caller v gas s)"
  by (simp add: context_inv_def HostContext_new_def)

lemma context_inv_ops:
  assumes "context_inv s a c"
  shows "context_inv s a (storage_write c k v)" "context_inv s a (emit_log c ts d)"
  using assms by (auto simp: context_inv_def storage_write_def emit_log_def)

lemma bind_SomeE: "Option.bind x f = Some y \<Longrightarrow> (\<And>z. x = Some z \<Longrightarrow> f z = Some y \<Longrightarrow> P) \<Longrightarrow> P"
  by (cases x) auto

lemma host_function_inv:
  assumes "host_function e mem c h = Some (mem', c', r)" and "context_inv s a c"
  shows "context_inv s a c'"
  using assms by (cases h) (auto elim!: bind_SomeE split: option.splits intro: context_inv_ops)

lemma call_host_inv:
  assumes "call_host e mem c h = Some (mem', c', r)" and "context_inv s a c"
  shows "context_inv s a c'"
  using assms by (auto simp: call_host_def split: option.splits if_splits intro: host_function_inv)

lemma run_guest_inv: "context_inv s a c \<Longrightarrow> context_inv s a (fst (run_guest e g c))"
proof (induction g arbitrary: c)
  case (Asks mem h k)
  show ?case
  proof (cases "call_host e mem c h")
    case (Some x)
    obtain mem' c' r where x: "x = (mem', c', r)" by (cases x)
    have "context_inv s a c'" using call_host_inv Some x Asks.prems by blast
    then show ?thesis using Asks.IH [of "k mem'" "k mem' r"] Some x by simp
  qed (simp add: Asks.prems)
qed simp_all

lemma run_guest_invD: "run_guest e g c = (c', r) \<Longrightarrow> context_inv s a c \<Longrightarrow> context_inv s a c'"
  using run_guest_inv by (metis fst_conv)

lemma allocate_input_inv:
  assumes "allocate_input e w i mem fuel data c = (c', r)" and "context_inv s a c"
  shows "context_inv s a c'"
proof (cases "run_guest e (we_call w i mem fuel ''allocate'' [of_nat (length data)]) c")
  case (Pair c1 r1)
  then have "context_inv s a c1" using run_guest_invD assms(2) by blast
  then show ?thesis
    using assms Pair by (auto simp: allocate_input_def split: option.splits if_splits sum.splits)
qed

lemma invoke_inv:
  assumes "invoke e w cfg over i mem fuel function p args gas_limit c = (c', r)" and "context_inv s a c"
  shows "context_inv s a c'"
proof (cases "run_guest e (we_call w i (Some mem) fuel function [p, of_nat (length args)]) c")
  case (Pair c1 r1)
  then have "context_inv s a c1" using run_guest_invD assms(2) by blast
  then show ?thesis
    using assms Pair by (auto simp: invoke_def split: option.splits if_splits)
qed

text \<open>The result of a call comes from its context.\<close>

definition own_events :: "address \<Rightarrow> WasmResult \<Rightarrow> bool" where
  "own_events a r =
     ((\<forall>l \<in> set (wx_logs r). clg_address l = a) \<and> (\<forall>x \<in> set (wx_state_changes r). sch_address x = a))"

lemma call_result_own:
  "call_result gas_limit gas_used c out = Ok r \<Longrightarrow> context_inv s a c \<Longrightarrow> own_events a r"
  by (auto simp: call_result_def own_events_def context_inv_def wasm_result_revert_def and_then_Ok_iff
      split: sum.splits if_splits option.splits)

lemma invoke_own:
  assumes "invoke e w cfg over i mem fuel function p args gas_limit c = (c', Some (Ok r))" and "context_inv s a c"
  shows "own_events a r"
proof (cases "run_guest e (we_call w i (Some mem) fuel function [p, of_nat (length args)]) c")
  case (Pair c1 r1)
  then have "context_inv s a c1" using run_guest_invD assms(2) by blast
  then show ?thesis
    using assms(1) Pair by (auto simp: invoke_def split: option.splits if_splits dest: call_result_own)
qed

text \<open>
  Wasmtime only ever takes fuel away: no run ends with more than it was given.
\<close>

primrec fuel_below :: "u64 \<Rightarrow> 'i guest \<Rightarrow> bool" where
  "fuel_below n (Finished i mem fuel r) = (fuel \<le> n)"
| "fuel_below n (Trapped fuel msg) = (fuel \<le> n)"
| "fuel_below n (Asks mem h k) = (\<forall>mem' r. fuel_below n (k mem' r))"

definition fuel_honest :: "('m, 'i) wasm_engine \<Rightarrow> bool" where
  "fuel_honest w =
     ((\<forall>m n. fuel_below n (we_start w m n)) \<and> (\<forall>i mem n f args. fuel_below n (we_call w i mem n f args)))"

lemma run_guest_fuel: "run_guest e g c = (c', Some out) \<Longrightarrow> fuel_below n g \<Longrightarrow> guest_fuel out \<le> n"
proof (induction g arbitrary: c)
  case (Asks mem h k)
  then obtain mem' c1 r where "run_guest e (k mem' r) c1 = (c', Some out)" "fuel_below n (k mem' r)"
    by (auto split: option.splits)
  then show ?case using Asks.IH [of "k mem'" "k mem' r"] by blast
qed (auto simp: guest_fuel_def)

lemma allocate_input_fuel:
  assumes "allocate_input e w i mem fuel data c = (c', Some (Ok (i', mem', fuel', p)))" and "fuel_honest w"
  shows "fuel' \<le> fuel"
proof (cases "we_has_allocate w i")
  case True
  then obtain m x where "run_guest e (we_call w i mem fuel ''allocate'' [of_nat (length data)]) c = (c', Some (Ok (i', Some x, fuel', p)))"
    using assms(1) by (auto simp: allocate_input_def and_then_Ok_iff split: option.splits prod.splits sum.splits)
  from run_guest_fuel [OF this] assms(2) show ?thesis by (simp add: fuel_honest_def guest_fuel_def)
next
  case False
  then show ?thesis using assms(1) by (auto simp: allocate_input_def and_then_Ok_iff split: option.splits)
qed

text \<open>A call step by step: it stops early, or its function is invoked in a context that keeps the invariant.\<close>

lemma call_internal_cases:
  assumes "call_internal e w now over rt module a caller function args gas_limit v = (rt', r)"
  obtains (stopped) c where "context_inv (wr_storage rt) a c" "rt' = rt\<lparr>wr_storage := hx_storage c\<rparr>" "\<And>x. r \<noteq> Some (Ok x)"
  | (invoked) i mem fuel p c c' where "context_inv (wr_storage rt) a c"
      "invoke e w (wr_config rt) over i mem fuel function p args gas_limit c = (c', r)" "rt' = rt\<lparr>wr_storage := hx_storage c'\<rparr>"
      "fuel_honest w \<Longrightarrow> wc_fuel_metering (wr_config rt) \<Longrightarrow> fuel \<le> gas_limit * wc_fuel_to_gas_ratio (wr_config rt)"
proof -
  define c0 where "c0 = HostContext_new now a caller v gas_limit (wr_storage rt)"
  define fuel where "fuel = (if wc_fuel_metering (wr_config rt) then gas_limit * wc_fuel_to_gas_ratio (wr_config rt) else 0)"
  obtain c1 r1 where start: "run_guest e (we_start w module fuel) c0 = (c1, r1)" by (cases "run_guest e (we_start w module fuel) c0")
  have inv1: "context_inv (wr_storage rt) a c1"
    using run_guest_invD [OF start] context_inv_new by (simp add: c0_def)
  note eq = assms [unfolded call_internal_def Let_def c0_def [symmetric] fuel_def [symmetric] start]
  show ?thesis
  proof (cases "\<exists>i mem fuel' x. r1 = Some (Ok (i, mem, fuel', x)) \<and> mem \<noteq> None")
    case False
    then have "rt' = rt\<lparr>wr_storage := hx_storage c1\<rparr>" "\<And>x. r \<noteq> Some (Ok x)"
      using eq by (auto split: option.splits sum.splits if_splits)
    then show ?thesis using stopped inv1 by blast
  next
    case True
    then obtain i mem fuel' x where r1: "r1 = Some (Ok (i, mem, fuel', x))" "mem \<noteq> None" by blast
    obtain c2 r2 where alloc: "allocate_input e w i mem fuel' args c1 = (c2, r2)" by (cases "allocate_input e w i mem fuel' args c1")
    have inv2: "context_inv (wr_storage rt) a c2" using allocate_input_inv [OF alloc inv1] .
    note eq2 = eq [unfolded r1(1)]
    show ?thesis
    proof (cases "\<exists>i mem fuel p. r2 = Some (Ok (i, mem, fuel, p))")
      case False
      then have "rt' = rt\<lparr>wr_storage := hx_storage c2\<rparr>" "\<And>x. r \<noteq> Some (Ok x)"
        using eq2 r1(2) alloc by (auto split: option.splits sum.splits)
      then show ?thesis using stopped inv2 by blast
    next
      case True
      then obtain i' mem' fuel2 p where r2: "r2 = Some (Ok (i', mem', fuel2, p))" by blast
      obtain c3 r3 where inv: "invoke e w (wr_config rt) over i' mem' fuel2 function p args gas_limit c2 = (c3, r3)"
        by (cases "invoke e w (wr_config rt) over i' mem' fuel2 function p args gas_limit c2")
      then have "r3 = r" "rt' = rt\<lparr>wr_storage := hx_storage c3\<rparr>" using eq2 r1(2) alloc r2 by auto
      moreover have "fuel2 \<le> gas_limit * wc_fuel_to_gas_ratio (wr_config rt)" if "fuel_honest w" "wc_fuel_metering (wr_config rt)"
      proof -
        have "fuel' \<le> fuel" using run_guest_fuel [OF start [unfolded r1(1)]] that by (simp add: fuel_honest_def guest_fuel_def)
        then show ?thesis using allocate_input_fuel [OF alloc [unfolded r2] that(1)] that(2) by (simp add: fuel_def)
      qed
      ultimately show ?thesis using invoked [OF inv2, of i' mem' fuel2 p c3] inv by blast
    qed
  qed
qed

lemma call_internal_storage:
  "wr_storage (fst (call_internal e w now over rt module a caller function args gas_limit v)) = wr_storage rt"
proof (cases "call_internal e w now over rt module a caller function args gas_limit v")
  case (Pair rt' r)
  then show ?thesis
  proof (cases rule: call_internal_cases)
    case (stopped c)
    then show ?thesis using Pair by (simp add: context_inv_def)
  next
    case (invoked i mem fuel p c c')
    then show ?thesis using Pair invoke_inv [OF invoked(2,1)] by (simp add: context_inv_def)
  qed
qed

lemma call_internal_own:
  assumes "call_internal e w now over rt module a caller function args gas_limit v = (rt', Some (Ok r))"
  shows "own_events a r"
  using assms by (cases rule: call_internal_cases) (auto dest: invoke_own)

lemma call_internal_rest:
  "wr_module_cache (fst (call_internal e w now over rt module a caller function args gas_limit v)) = wr_module_cache rt"
  "wr_config (fst (call_internal e w now over rt module a caller function args gas_limit v)) = wr_config rt"
  by (simp_all add: call_internal_def Let_def case_prod_unfold)

lemma get_module_storage: "wr_storage (fst (get_module e w rt a)) = wr_storage rt"
  by (simp add: get_module_def split: option.split sum.split)

lemma wasm_call_storage: "wr_storage (fst (wasm_call e w now over rt a caller function args gas_limit v)) = wr_storage rt"
proof -
  obtain rt1 r1 where m: "get_module e w rt a = (rt1, r1)" by (cases "get_module e w rt a")
  have "wr_storage rt1 = wr_storage rt" using get_module_storage [of e w rt a] m by simp
  then show ?thesis using m by (simp add: wasm_call_def call_internal_storage split: sum.split)
qed

lemma wasm_deploy_cases:
  fixes e w now nanos over rt deployer code args gas_limit
  defines "a \<equiv> generate_contract_address e nanos deployer code" and "h \<equiv> wasm_hash_code e code"
  assumes "wasm_deploy e w now nanos over rt deployer code args gas_limit = (rt', r)"
  obtains (refused) x where "rt' = rt" "r = Some (Err x)"
  | (kept) module where "wasm_compile w rt code = Ok module" "wr_module_cache rt' = hm_insert h module (wr_module_cache rt)"
      "wr_storage rt' = cst_store_code now (wr_storage rt) a code h" "\<And>a' x. r = Some (Ok (a', x)) \<Longrightarrow> a' = a \<and> wx_success x \<and> own_events a x"
  | (removed) x where "wr_storage rt' = remove_code (cst_store_code now (wr_storage rt) a code h) a" "r = Some (Err x)"
proof (cases "wasm_compile w rt code")
  case (Inr module)
  define rt1 where "rt1 = rt\<lparr>wr_module_cache := hm_insert h module (wr_module_cache rt),
    wr_storage := cst_store_code now (wr_storage rt) a code h\<rparr>"
  obtain rt2 r2 where call: "call_internal e w now over rt1 module a deployer ''deploy'' args gas_limit 0 = (rt2, r2)"
    by (cases "call_internal e w now over rt1 module a deployer ''deploy'' args gas_limit 0")
  have rt2: "wr_module_cache rt2 = hm_insert h module (wr_module_cache rt)" "wr_storage rt2 = cst_store_code now (wr_storage rt) a code h"
    using call_internal_rest(1) [of e w now over rt1 module a deployer "''deploy''" args gas_limit 0]
      call_internal_storage [of e w now over rt1 module a deployer "''deploy''" args gas_limit 0] call
    by (simp_all add: rt1_def)
  have eq: "(rt', r) = (case (rt2, r2) of (rt, None) \<Rightarrow> (rt, None) | (rt, Some (Err x)) \<Rightarrow> (rt, Some (Err x))
      | (rt, Some (Ok x)) \<Rightarrow> if \<not> wx_success x
          then (rt\<lparr>wr_storage := remove_code (wr_storage rt) a\<rparr>,
                Some (Err (WasmRevert (case wx_revert_reason x of None \<Rightarrow> ''Deployment failed'' | Some s \<Rightarrow> s))))
          else (rt, Some (Ok (a, x))))"
    using assms(3) Inr call by (simp add: wasm_deploy_def Let_def a_def [symmetric] h_def [symmetric] rt1_def [symmetric])
  show ?thesis
  proof (cases "\<exists>x. r2 = Some (Ok x) \<and> \<not> wx_success x")
    case True
    then show ?thesis using removed eq rt2 by auto
  next
    case False
    then have rt': "rt' = rt2" and r: "\<And>a' x. r = Some (Ok (a', x)) \<Longrightarrow> a' = a \<and> wx_success x \<and> r2 = Some (Ok x)"
      using eq by (auto split: option.splits sum.splits)
    have "a' = a \<and> wx_success x \<and> own_events a x" if "r = Some (Ok (a', x))" for a' x
      using r [OF that] call call_internal_own [of e w now over rt1 module a deployer "''deploy''" args gas_limit 0 rt2 x] by simp
    then show ?thesis using rt2 rt' by (intro kept [OF Inr]) simp_all
  qed
qed (use refused assms(3) in \<open>auto simp: wasm_deploy_def\<close>)

lemma wasm_deploy_get:
  assumes "cst_get (wr_storage rt) a k = None"
  shows "cst_get (wr_storage (fst (wasm_deploy e w now nanos over rt deployer code args gas_limit))) a k = None"
proof (cases "wasm_deploy e w now nanos over rt deployer code args gas_limit")
  case (Pair rt' r)
  from Pair have "cst_get (wr_storage rt') a k = None"
    by (cases rule: wasm_deploy_cases) (simp_all add: assms)
  with Pair show ?thesis by simp
qed

lemma deployed_module:
  assumes "wr_module_cache rt = hm_insert h module cache" and "wr_storage rt = cst_store_code now s a code h"
  shows "get_module e w rt a = (rt, Ok module)"
  using assms by (simp add: get_module_def get_code_hash_def cst_store_code_def)

subsection \<open>Runs of the runtime\<close>

datatype runtime_op =
    RtDeploy u64 u128 bool address "u8 list" "u8 list" u64
  | RtCall u64 bool address address string "u8 list" u64 u64

fun runtime_step :: "ext \<Rightarrow> ('m, 'i) wasm_engine \<Rightarrow> 'm WasmRuntime \<Rightarrow> runtime_op \<Rightarrow> 'm WasmRuntime" where
  "runtime_step e w rt (RtDeploy now nanos late deployer code args gas_limit) =
     fst (wasm_deploy e w now nanos (\<lambda>_. late) rt deployer code args gas_limit)"
| "runtime_step e w rt (RtCall now late a caller function args gas_limit v) =
     fst (wasm_call e w now (\<lambda>_. late) rt a caller function args gas_limit v)"

definition stateless :: "'m WasmRuntime \<Rightarrow> bool" where
  "stateless rt = (\<forall>a k. cst_get (wr_storage rt) a k = None)"

interpretation wasm_runtime: machine "WasmRuntime_new config ContractStorage_new" "runtime_step e w" stateless
proof unfold_locales
  show "stateless (WasmRuntime_new config ContractStorage_new)" by (simp add: stateless_def WasmRuntime_new_def)
  show "stateless (runtime_step e w rt x)" if "stateless rt" for rt :: "'a WasmRuntime" and x
    using that by (cases x) (simp_all add: stateless_def wasm_call_storage wasm_deploy_get)
qed

subsection \<open>Properties\<close>

text \<open>
  C29. Calls write nothing: whatever the engine runs, a call leaves the storage of the runtime exactly as it was,
  although a successful result reports the state changes of the contract; and from an empty storage, after any
  sequence of deployments and calls, no contract has any state. The pending writes of a context are never
  committed.
\<close>

theorem calls_persist_nothing:
  assumes "reachable (runtime_step e w) (WasmRuntime_new config ContractStorage_new) rt"
  shows "wr_storage (fst (wasm_call e w now over rt a caller function args gas_limit v)) = wr_storage rt
    \<and> cst_get (wr_storage rt) a' key = None"
  using wasm_runtime.inv_reachable [OF assms] by (simp add: wasm_call_storage stateless_def)

text \<open>A guest that stores the first byte of its memory under the key of that byte, and finishes.\<close>

definition writer_engine :: "(unit, unit) wasm_engine" where
  "writer_engine =
     \<lparr>we_compile = (\<lambda>code. Ok ()), we_start = (\<lambda>m fuel. Finished () (Some [1, 0, 0, 0, 0]) fuel 0), we_has_allocate = (\<lambda>i. False),
      we_has_function = (\<lambda>i f. True),
      we_call = (\<lambda>i mem fuel f args. Asks mem (CallStorageWrite 0 1 0 1) (\<lambda>mem' r. Finished () mem' (fuel - 1) (- 1)))\<rparr>"

definition writer_runtime :: "unit WasmRuntime" where
  "writer_runtime = run (runtime_step sample_ext writer_engine) (WasmRuntime_new WasmConfig_default ContractStorage_new)
     [RtDeploy 0 0 False address_zero [] [] 10]"

definition writer_address :: address where
  "writer_address = generate_contract_address sample_ext 0 address_zero []"

lemma writer_reachable:
  "reachable (runtime_step sample_ext writer_engine) (WasmRuntime_new WasmConfig_default ContractStorage_new) writer_runtime"
  unfolding writer_runtime_def by (rule reachable_run)

definition reports_changes :: "(ExecutionError + WasmResult) option \<Rightarrow> bool" where
  "reports_changes out = (case out of Some (Ok r) \<Rightarrow> wx_success r \<and> wx_state_changes r \<noteq> [] | _ \<Rightarrow> False)"

lemma writer_call:
  "wr_config rt = WasmConfig_default \<Longrightarrow>
    reports_changes (snd (call_internal e writer_engine now (\<lambda>_. False) rt () a caller f [] 10 v))"
  by (simp add: call_internal_def writer_engine_def WasmConfig_default_def call_host_def read_at_def read_memory_def
      slice_range_def usize_of_i32_def allocate_input_def checked_write_def overwrite_def invoke_def fuel_gas_def guest_fuel_def
      call_result_def read_return_data_def HostContext_new_def storage_write_def reports_changes_def div_u64_def Let_def)

lemma writer_deploy:
  "\<exists>r. wasm_deploy sample_ext writer_engine 0 0 (\<lambda>_. False) (WasmRuntime_new WasmConfig_default ContractStorage_new) address_zero [] [] 10
    = (writer_runtime, Some (Ok (writer_address, r))) \<and> wr_config writer_runtime = WasmConfig_default"
proof -
  define rt where "rt = (WasmRuntime_new WasmConfig_default ContractStorage_new :: unit WasmRuntime)"
  define rt1 where "rt1 = rt\<lparr>wr_module_cache := hm_insert (wasm_hash_code sample_ext []) () (wr_module_cache rt),
    wr_storage := cst_store_code 0 (wr_storage rt) writer_address [] (wasm_hash_code sample_ext [])\<rparr>"
  have cfg: "wr_config rt1 = WasmConfig_default" by (simp add: rt1_def rt_def WasmRuntime_new_def)
  obtain rt2 r where call: "call_internal sample_ext writer_engine 0 (\<lambda>_. False) rt1 () writer_address address_zero ''deploy'' [] 10 0 = (rt2, r)"
    by (cases "call_internal sample_ext writer_engine 0 (\<lambda>_. False) rt1 () writer_address address_zero ''deploy'' [] 10 0")
  have "reports_changes r" using writer_call [OF cfg, of sample_ext 0 writer_address address_zero "''deploy''" 0] call by simp
  then obtain x where x: "r = Some (Ok x)" "wx_success x" by (auto simp: reports_changes_def split: option.splits sum.splits)
  have "wasm_compile writer_engine rt [] = Ok ()" by (simp add: wasm_compile_def writer_engine_def)
  then have "wasm_deploy sample_ext writer_engine 0 0 (\<lambda>_. False) rt address_zero [] [] 10 = (rt2, Some (Ok (writer_address, x)))"
    using call x by (simp add: wasm_deploy_def Let_def rt1_def writer_address_def)
  moreover have "wr_config rt2 = WasmConfig_default"
    using call_internal_rest(2) [of sample_ext writer_engine 0 "\<lambda>_. False" rt1 "()" writer_address address_zero "''deploy''" "[]" 10 0] call cfg
    by simp
  ultimately show ?thesis by (simp add: writer_runtime_def rt_def)
qed

lemma writer_module: "get_module sample_ext w writer_runtime writer_address = (writer_runtime, Ok ())"
proof -
  obtain r where "wasm_deploy sample_ext writer_engine 0 0 (\<lambda>_. False) (WasmRuntime_new WasmConfig_default ContractStorage_new) address_zero [] [] 10
    = (writer_runtime, Some (Ok (writer_address, r)))" using writer_deploy by blast
  then show ?thesis
  proof (cases rule: wasm_deploy_cases)
    case (kept module)
    show ?thesis using deployed_module [OF kept(2,3), of sample_ext w] by (simp add: writer_address_def)
  qed blast+
qed

theorem calls_persist_nothing_witness:
  "reports_changes (snd (wasm_call sample_ext writer_engine 1 (\<lambda>_. False) writer_runtime writer_address address_zero ''f'' [] 10 0))
    \<and> wr_storage (fst (wasm_call sample_ext writer_engine 1 (\<lambda>_. False) writer_runtime writer_address address_zero ''f'' [] 10 0))
        = wr_storage writer_runtime
    \<and> cst_get (wr_storage writer_runtime) writer_address [1] = None"
  using calls_persist_nothing [OF writer_reachable, of 1 "\<lambda>_. False" writer_address address_zero "''f''" "[]" 10 0 writer_address "[1]"]
    writer_call [of writer_runtime] writer_deploy
  by (auto simp: wasm_call_def writer_module)

text \<open>
  A deployed contract can be called: after a successful deployment its code is stored under the returned
  address with the hash of the code, a call finds the module that was compiled from it, and the logs and
  state changes of the result are of the new contract.
\<close>

theorem deployed_contract_callable:
  assumes "wasm_deploy e w now nanos over rt deployer code args gas_limit = (rt', Some (Ok (a, r)))"
  shows "\<exists>module. wasm_compile w rt code = Ok module \<and> get_module e w rt' a = (rt', Ok module)
    \<and> cst_get_code (wr_storage rt') a = Some code \<and> get_code_hash (wr_storage rt') a = Some (wasm_hash_code e code)
    \<and> wx_success r \<and> own_events a r"
  using assms
proof (cases rule: wasm_deploy_cases)
  case (kept module)
  then have "a = generate_contract_address e nanos deployer code" "wx_success r" "own_events a r" by auto
  then show ?thesis
    using kept(1) deployed_module [OF kept(2,3)] by (simp add: kept(3) cst_get_code_def get_code_hash_def cst_store_code_def)
qed simp_all

theorem deployed_contract_callable_witness:
  "\<exists>rt r. wasm_deploy sample_ext writer_engine 0 0 (\<lambda>_. False) (WasmRuntime_new WasmConfig_default ContractStorage_new) address_zero [] [] 10
      = (rt, Some (Ok (writer_address, r)))
    \<and> cst_get_code (wr_storage rt) writer_address = Some [] \<and> own_events writer_address r"
  using writer_deploy deployed_contract_callable
    [of sample_ext writer_engine 0 0 "\<lambda>_. False" "WasmRuntime_new WasmConfig_default ContractStorage_new" address_zero "[]" "[]" 10]
  by blast

text \<open>
  Metered calls stay within their limit: with an engine that only takes fuel away, and a limit that does not
  overflow when it is turned into fuel, the gas a call reports is at most its limit.
\<close>

lemma fuel_gas_bound:
  assumes "fuel_gas cfg gas_limit fuel = Some g" and "fuel \<le> gas_limit * wc_fuel_to_gas_ratio cfg" and "wc_fuel_metering cfg"
    and "unat gas_limit * unat (wc_fuel_to_gas_ratio cfg) < 2 ^ 64"
  shows "g \<le> gas_limit"
proof -
  let ?k = "wc_fuel_to_gas_ratio cfg"
  have n: "unat (gas_limit * ?k) = unat gas_limit * unat ?k" using assms(4) by (simp add: unat_mult_lem [symmetric])
  have "?k \<noteq> 0" "g = (gas_limit * ?k - fuel) div ?k" using assms(1,3) by (simp_all add: fuel_gas_def)
  then have "unat g = (unat gas_limit * unat ?k - unat fuel) div unat ?k"
    using unat_sub_exact [of fuel "gas_limit * ?k"] assms(2) n by (simp add: unat_div word_le_nat_alt)
  also have "\<dots> \<le> unat gas_limit * unat ?k div unat ?k" by (intro div_le_mono) simp
  finally show ?thesis using \<open>?k \<noteq> 0\<close> by (simp add: word_le_nat_alt unat_eq_0)
qed

lemma call_result_gas: "call_result gas_limit g c out = Ok r \<Longrightarrow> wx_gas_used r = g"
  by (auto simp: call_result_def wasm_result_revert_def and_then_Ok_iff split: sum.splits if_splits option.splits)

theorem wasm_gas_within_limit:
  assumes "wasm_call e w now over rt a caller function args gas_limit v = (rt', Some (Ok r))" and "fuel_honest w"
    and "wc_fuel_metering (wr_config rt)" and "unat gas_limit * unat (wc_fuel_to_gas_ratio (wr_config rt)) < 2 ^ 64"
  shows "wx_gas_used r \<le> gas_limit"
proof -
  obtain rt1 module where m: "get_module e w rt a = (rt1, Ok module)"
    and call: "call_internal e w now over rt1 module a caller function args gas_limit v = (rt', Some (Ok r))"
    using assms(1) by (auto simp: wasm_call_def split: prod.splits sum.splits)
  have cfg: "wr_config rt1 = wr_config rt" using m by (auto simp: get_module_def split: option.splits sum.splits)
  from call show ?thesis
  proof (cases rule: call_internal_cases)
    case (invoked i mem fuel p c c')
    let ?run = "run_guest e (we_call w i (Some mem) fuel function [p, of_nat (length args)]) c"
    obtain out g where out: "?run = (c', Some out)" "fuel_gas (wr_config rt) gas_limit (guest_fuel out) = Some g"
      "call_result gas_limit g c' out = Ok r"
      using invoked(2) cfg by (auto simp: invoke_def split: if_splits prod.splits option.splits)
    have "guest_fuel out \<le> fuel" using run_guest_fuel [OF out(1)] assms(2) by (simp add: fuel_honest_def)
    also have "fuel \<le> gas_limit * wc_fuel_to_gas_ratio (wr_config rt)" using invoked(4) assms(2,3) cfg by simp
    finally show ?thesis using fuel_gas_bound [OF out(2)] assms(3,4) call_result_gas [OF out(3)] by simp
  qed blast
qed

definition idle_engine :: "(unit, unit) wasm_engine" where
  "idle_engine = writer_engine\<lparr>we_call := (\<lambda>i mem fuel f args. Finished () mem (fuel div 2) (- 1))\<rparr>"

lemma idle_honest: "fuel_honest idle_engine"
  by (simp add: fuel_honest_def idle_engine_def writer_engine_def word_le_nat_alt unat_div)

lemma idle_call:
  "wr_config rt = WasmConfig_default \<Longrightarrow>
    \<exists>rt' r. call_internal e idle_engine now (\<lambda>_. False) rt () a caller f [] 10 v = (rt', Some (Ok r)) \<and> wx_gas_used r = 5"
  by (simp add: call_internal_def idle_engine_def writer_engine_def WasmConfig_default_def
      allocate_input_def checked_write_def overwrite_def invoke_def fuel_gas_def guest_fuel_def
      call_result_def read_return_data_def div_u64_def Let_def)

theorem wasm_gas_within_limit_witness:
  "\<exists>rt r. wasm_call sample_ext idle_engine 1 (\<lambda>_. False) writer_runtime writer_address address_zero ''f'' [] 10 0 = (rt, Some (Ok r))
    \<and> wx_gas_used r = 5 \<and> wx_gas_used r \<le> 10"
proof -
  have cfg: "wr_config writer_runtime = WasmConfig_default" using writer_deploy by blast
  obtain rt r where call: "wasm_call sample_ext idle_engine 1 (\<lambda>_. False) writer_runtime writer_address address_zero ''f'' [] 10 0 = (rt, Some (Ok r))"
    "wx_gas_used r = 5"
    using idle_call [OF cfg, of sample_ext 1 writer_address address_zero "''f''" 0] by (auto simp: wasm_call_def writer_module)
  then show ?thesis
    using wasm_gas_within_limit [OF call(1) idle_honest] by (simp add: cfg WasmConfig_default_def)
qed

text \<open>
  A contract can bring the node down. A pointer of \<open>-1\<close> with a length of one passes the bounds check, since
  the sum wraps to zero, and the slice that follows panics; an address written or a topic read out of bounds
  panics as well, and so does every call of \<open>revert\<close>.
\<close>

lemma wrapped_pointer_panics: "host_function e mem c (CallStorageWrite (- 1) 1 p n) = None"
  by (simp add: read_at_def read_memory_def slice_range_def usize_of_i32_def)

lemma revert_panics: "host_function e mem c (CallRevert p n) = None"
  by simp

text \<open>
  A deployment whose constructor fails with an error (without a function \<open>deploy\<close>, out of gas, late) is not
  rolled back: the contract stays stored.
\<close>

lemma failed_deployment_kept:
  assumes "wasm_compile w rt code = Ok module" and "\<And>m n. we_start w m n = Finished i (Some mem) n 0"
    and "\<not> we_has_allocate w i" and "length args \<le> length mem" and "\<not> we_has_function w i ''deploy''"
  shows "\<exists>rt'. wasm_deploy e w now nanos over rt deployer code args gas_limit = (rt', Some (Err (FunctionNotFound ''deploy'')))
    \<and> cst_has_code (wr_storage rt') (generate_contract_address e nanos deployer code)"
  using assms
  by (simp add: wasm_deploy_def call_internal_def allocate_input_def checked_write_def invoke_def cst_has_code_def
      HostContext_new_def cst_store_code_def Let_def)

end
