(* ===== verification/Wasm_Contract.thy ===== *)
theory Wasm_Contract
  imports Wasm_Storage
begin

section \<open>The registry of WASM contracts\<close>

text \<open>
  \<open>pyrax-node/src/wasm/contract.rs\<close>: code with its hash, contracts with their administrator, and the registry that
  deploys, upgrades and removes them. The closure given to \<open>update_contract\<close> is a function on contracts; the runs
  considered below use the methods of \<open>Contract\<close>.
\<close>

record ContractCode =
  cco_bytecode :: "u8 list"
  cco_hash :: h256
  cco_abi :: "string option"
  cco_source_hash :: "h256 option"
  cco_compiler_version :: "string option"

definition code_compute_hash :: "ext \<Rightarrow> u8 list \<Rightarrow> h256" where
  "code_compute_hash e bytecode = h256_from_slice (ext_blake3 e bytecode)"

definition from_bytecode :: "ext \<Rightarrow> u8 list \<Rightarrow> ContractCode" where
  "from_bytecode e bytecode =
     \<lparr>cco_bytecode = bytecode, cco_hash = code_compute_hash e bytecode, cco_abi = None, cco_source_hash = None,
      cco_compiler_version = None\<rparr>"

definition ContractCode_new :: "ext \<Rightarrow> u8 list \<Rightarrow> string option \<Rightarrow> h256 option \<Rightarrow> string option \<Rightarrow> ContractCode" where
  "ContractCode_new e bytecode abi source_hash compiler_version =
     \<lparr>cco_bytecode = bytecode, cco_hash = code_compute_hash e bytecode, cco_abi = abi, cco_source_hash = source_hash,
      cco_compiler_version = compiler_version\<rparr>"

definition is_valid_wasm :: "ContractCode \<Rightarrow> bool" where
  "is_valid_wasm c =
     (8 \<le> length (cco_bytecode c) \<and> take 4 (cco_bytecode c) = [0x00, 0x61, 0x73, 0x6d]
      \<and> take 4 (drop 4 (cco_bytecode c)) = [0x01, 0x00, 0x00, 0x00])"

definition code_size :: "ContractCode \<Rightarrow> nat" where
  "code_size c = length (cco_bytecode c)"

record Contract =
  ct_address :: address
  ct_code_hash :: h256
  ct_deployer :: address
  ct_deploy_block :: u64
  ct_deploy_timestamp :: u64
  ct_balance :: u64
  ct_initialized :: bool
  ct_paused :: bool
  ct_admin :: "address option"

definition Contract_new :: "u64 \<Rightarrow> address \<Rightarrow> h256 \<Rightarrow> address \<Rightarrow> u64 \<Rightarrow> Contract" where
  "Contract_new now address code_hash deployer deploy_block =
     \<lparr>ct_address = address, ct_code_hash = code_hash, ct_deployer = deployer, ct_deploy_block = deploy_block,
      ct_deploy_timestamp = now, ct_balance = 0, ct_initialized = False, ct_paused = False, ct_admin = Some deployer\<rparr>"

definition contract_initialize :: "Contract \<Rightarrow> Contract" where
  "contract_initialize c = c\<lparr>ct_initialized := True\<rparr>"

definition contract_pause :: "Contract \<Rightarrow> Contract" where
  "contract_pause c = c\<lparr>ct_paused := True\<rparr>"

definition contract_unpause :: "Contract \<Rightarrow> Contract" where
  "contract_unpause c = c\<lparr>ct_paused := False\<rparr>"

definition update_balance :: "Contract \<Rightarrow> u64 \<Rightarrow> bool \<Rightarrow> Contract" where
  "update_balance c amount is_credit =
     (if is_credit then c\<lparr>ct_balance := saturating_add (ct_balance c) amount\<rparr>
      else c\<lparr>ct_balance := saturating_sub (ct_balance c) amount\<rparr>)"

definition transfer_admin :: "Contract \<Rightarrow> address \<Rightarrow> Contract" where
  "transfer_admin c new_admin = c\<lparr>ct_admin := Some new_admin\<rparr>"

definition renounce_admin :: "Contract \<Rightarrow> Contract" where
  "renounce_admin c = c\<lparr>ct_admin := None\<rparr>"

record ContractInstance =
  ci_contract :: Contract
  ci_code :: ContractCode
  ci_storage :: ContractStorage

definition ContractInstance_new :: "Contract \<Rightarrow> ContractCode \<Rightarrow> ContractStorage \<Rightarrow> ContractInstance" where
  "ContractInstance_new contract code storage = \<lparr>ci_contract = contract, ci_code = code, ci_storage = storage\<rparr>"

definition instance_storage_get :: "ContractInstance \<Rightarrow> u8 list \<Rightarrow> u8 list option" where
  "instance_storage_get i key = cst_get (ci_storage i) (ct_address (ci_contract i)) key"

definition instance_storage_set :: "ContractInstance \<Rightarrow> u8 list \<Rightarrow> u8 list \<Rightarrow> ContractInstance" where
  "instance_storage_set i key v = i\<lparr>ci_storage := cst_set (ci_storage i) (ct_address (ci_contract i)) key v\<rparr>"

definition instance_storage_delete :: "ContractInstance \<Rightarrow> u8 list \<Rightarrow> ContractInstance" where
  "instance_storage_delete i key = i\<lparr>ci_storage := cst_delete (ci_storage i) (ct_address (ci_contract i)) key\<rparr>"

datatype ContractError =
    ContractMissing address
  | AlreadyExists address
  | InvalidBytecode string
  | ContractPaused
  | NotAuthorized
  | NotInitialized
  | AlreadyInitialized
  | UpgradeNotAllowed
  | ContractInsufficientBalance u64 u64

subsection \<open>The registry\<close>

record ContractRegistry =
  cr_contracts :: "(address, Contract) hashmap"
  cr_code_registry :: "(h256, ContractCode) hashmap"
  cr_storage :: ContractStorage

definition ContractRegistry_new :: "ContractStorage \<Rightarrow> ContractRegistry" where
  "ContractRegistry_new storage = \<lparr>cr_contracts = [], cr_code_registry = [], cr_storage = storage\<rparr>"

definition register_code :: "ContractRegistry \<Rightarrow> ContractCode \<Rightarrow> ContractRegistry \<times> h256" where
  "register_code r code = (r\<lparr>cr_code_registry := hm_insert (cco_hash code) code (cr_code_registry r)\<rparr>, cco_hash code)"

definition registry_get_code :: "ContractRegistry \<Rightarrow> h256 \<Rightarrow> ContractCode option" where
  "registry_get_code r h = hm_get (cr_code_registry r) h"

definition registry_deploy ::
  "u64 \<Rightarrow> ContractRegistry \<Rightarrow> address \<Rightarrow> h256 \<Rightarrow> address \<Rightarrow> u64 \<Rightarrow> ContractError + (ContractRegistry \<times> Contract)" where
  "registry_deploy now r address code_hash deployer block =
     (if hm_contains (cr_contracts r) address then Err (AlreadyExists address)
      else if \<not> hm_contains (cr_code_registry r) code_hash then Err (InvalidBytecode ''Code not registered'')
      else let contract = Contract_new now address code_hash deployer block
           in Ok (r\<lparr>cr_contracts := hm_insert address contract (cr_contracts r)\<rparr>, contract))"

definition registry_get_contract :: "ContractRegistry \<Rightarrow> address \<Rightarrow> Contract option" where
  "registry_get_contract r address = hm_get (cr_contracts r) address"

definition get_instance :: "ContractRegistry \<Rightarrow> address \<Rightarrow> ContractError + ContractInstance" where
  "get_instance r address =
     (case hm_get (cr_contracts r) address of
        None \<Rightarrow> Err (ContractMissing address)
      | Some contract \<Rightarrow>
          (case hm_get (cr_code_registry r) (ct_code_hash contract) of
             None \<Rightarrow> Err (InvalidBytecode ''Code not found'')
           | Some code \<Rightarrow> Ok (ContractInstance_new contract code (cr_storage r))))"

definition update_contract ::
  "ContractRegistry \<Rightarrow> address \<Rightarrow> (Contract \<Rightarrow> Contract) \<Rightarrow> ContractError + ContractRegistry" where
  "update_contract r address f =
     (case hm_get (cr_contracts r) address of
        None \<Rightarrow> Err (ContractMissing address)
      | Some contract \<Rightarrow> Ok (r\<lparr>cr_contracts := hm_insert address (f contract) (cr_contracts r)\<rparr>))"

definition registry_upgrade :: "ContractRegistry \<Rightarrow> address \<Rightarrow> h256 \<Rightarrow> address \<Rightarrow> ContractError + ContractRegistry" where
  "registry_upgrade r address new_code_hash caller =
     (case hm_get (cr_contracts r) address of
        None \<Rightarrow> Err (ContractMissing address)
      | Some contract \<Rightarrow>
          if ct_admin contract \<noteq> Some caller then Err NotAuthorized
          else if \<not> hm_contains (cr_code_registry r) new_code_hash then Err (InvalidBytecode ''New code not registered'')
          else Ok (r\<lparr>cr_contracts := hm_insert address (contract\<lparr>ct_code_hash := new_code_hash\<rparr>) (cr_contracts r)\<rparr>))"

definition registry_remove :: "ContractRegistry \<Rightarrow> address \<Rightarrow> ContractError + (ContractRegistry \<times> Contract)" where
  "registry_remove r address =
     (case hm_get (cr_contracts r) address of
        None \<Rightarrow> Err (ContractMissing address)
      | Some contract \<Rightarrow> Ok (r\<lparr>cr_contracts := hm_remove address (cr_contracts r)\<rparr>, contract))"

definition list_contracts :: "ContractRegistry \<Rightarrow> address list" where
  "list_contracts r = map fst (cr_contracts r)"

definition get_by_deployer :: "ContractRegistry \<Rightarrow> address \<Rightarrow> Contract list" where
  "get_by_deployer r deployer = filter (\<lambda>c. ct_deployer c = deployer) (hm_values (cr_contracts r))"

record RegistryStats =
  rs_total_contracts :: u64
  rs_total_code_entries :: u64
  rs_active_contracts :: u64
  rs_paused_contracts :: u64

definition registry_stats :: "ContractRegistry \<Rightarrow> RegistryStats" where
  "registry_stats r =
     \<lparr>rs_total_contracts = of_nat (length (cr_contracts r)),
      rs_total_code_entries = of_nat (length (cr_code_registry r)),
      rs_active_contracts = of_nat (length (filter (\<lambda>c. \<not> ct_paused c) (hm_values (cr_contracts r)))),
      rs_paused_contracts = of_nat (length (filter ct_paused (hm_values (cr_contracts r))))\<rparr>"

subsection \<open>Runs\<close>

datatype contract_method =
    MethInit | MethPause | MethUnpause | MethBalance u64 bool | MethTransferAdmin address | MethRenounceAdmin

fun contract_do :: "contract_method \<Rightarrow> Contract \<Rightarrow> Contract" where
  "contract_do MethInit c = contract_initialize c"
| "contract_do MethPause c = contract_pause c"
| "contract_do MethUnpause c = contract_unpause c"
| "contract_do (MethBalance n credit) c = update_balance c n credit"
| "contract_do (MethTransferAdmin a) c = transfer_admin c a"
| "contract_do MethRenounceAdmin c = renounce_admin c"

datatype registry_op =
    RegCode ContractCode
  | RegDeploy u64 address h256 address u64
  | RegUpdate address contract_method
  | RegUpgrade address h256 address
  | RegRemove address

fun registry_step :: "ContractRegistry \<Rightarrow> registry_op \<Rightarrow> ContractRegistry" where
  "registry_step r (RegCode code) = fst (register_code r code)"
| "registry_step r (RegDeploy now a h d b) = (case registry_deploy now r a h d b of Err _ \<Rightarrow> r | Ok (r', _) \<Rightarrow> r')"
| "registry_step r (RegUpdate a f) = ok_or r (update_contract r a (contract_do f))"
| "registry_step r (RegUpgrade a h caller) = ok_or r (registry_upgrade r a h caller)"
| "registry_step r (RegRemove a) = (case registry_remove r a of Err _ \<Rightarrow> r | Ok (r', _) \<Rightarrow> r')"

text \<open>Every contract is filed under its address and has its code in the registry, which files code by hash.\<close>

definition registry_inv :: "ContractRegistry \<Rightarrow> bool" where
  "registry_inv r =
     ((\<forall>a c. hm_get (cr_contracts r) a = Some c \<longrightarrow> ct_address c = a \<and> hm_contains (cr_code_registry r) (ct_code_hash c))
      \<and> (\<forall>h code. hm_get (cr_code_registry r) h = Some code \<longrightarrow> cco_hash code = h))"

lemma contract_do_keeps [simp]:
  "ct_address (contract_do f c) = ct_address c" "ct_code_hash (contract_do f c) = ct_code_hash c"
  by (cases f; simp add: contract_initialize_def contract_pause_def contract_unpause_def update_balance_def transfer_admin_def
      renounce_admin_def)+

lemmas registry_ops = register_code_def registry_deploy_def update_contract_def registry_upgrade_def registry_remove_def

interpretation contract_registry: machine "ContractRegistry_new storage" registry_step registry_inv
proof unfold_locales
  show "registry_inv (ContractRegistry_new storage)" by (simp add: registry_inv_def ContractRegistry_new_def)
  show "registry_inv (registry_step r x)" if "registry_inv r" for r x
    using that by (cases x) (auto simp: registry_inv_def registry_ops Contract_new_def Let_def split: option.split)
qed

subsection \<open>Properties\<close>

text \<open>
  Every contract of the registry has an instance: in every reachable state, for each contract that was
  deployed and not removed, \<open>get_instance\<close> returns it with the code its hash names.
\<close>

theorem instances_available:
  assumes "reachable registry_step (ContractRegistry_new storage) r" and "registry_get_contract r a = Some c"
  shows "\<exists>i. get_instance r a = Ok i \<and> ci_contract i = c \<and> ct_address c = a \<and> cco_hash (ci_code i) = ct_code_hash c"
proof -
  have inv: "registry_inv r" using contract_registry.inv_reachable [OF assms(1)] .
  then obtain code where "hm_get (cr_code_registry r) (ct_code_hash c) = Some code"
    using assms(2) by (fastforce simp: registry_inv_def registry_get_contract_def hm_contains_def)
  then show ?thesis
    using inv assms(2) by (auto simp: get_instance_def registry_get_contract_def ContractInstance_new_def registry_inv_def)
qed

definition example_code :: ContractCode where
  "example_code = from_bytecode sample_ext [0x00, 0x61, 0x73, 0x6d, 0x01, 0x00, 0x00, 0x00]"

definition example_registry :: ContractRegistry where
  "example_registry = run registry_step (ContractRegistry_new ContractStorage_new)
     [RegCode example_code, RegDeploy 0 address_zero (cco_hash example_code) address_zero 100, RegUpdate address_zero MethInit]"

lemmas example_registry_simps = example_registry_def ContractRegistry_new_def registry_ops Contract_new_def registry_get_contract_def

theorem instances_available_witness: "\<exists>i. get_instance example_registry address_zero = Ok i \<and> ct_initialized (ci_contract i)"
proof -
  obtain c where c: "registry_get_contract example_registry address_zero = Some c" "ct_initialized c"
    by (simp add: example_registry_simps Let_def contract_initialize_def)
  have "reachable registry_step (ContractRegistry_new ContractStorage_new) example_registry"
    unfolding example_registry_def by (rule reachable_run)
  from instances_available [OF this c(1)] c(2) show ?thesis by auto
qed

text \<open>
  Only its administrator changes the code of a contract: when a step changes the code hash of a contract that
  stays in the registry, it is an upgrade by the address that is its administrator, to code that is registered;
  a contract whose administration was renounced keeps its code until an administrator is set again.
\<close>

theorem upgrade_by_admin_only:
  assumes "registry_get_contract r a = Some c" and "registry_get_contract (registry_step r x) a = Some c'" and "ct_code_hash c' \<noteq> ct_code_hash c"
  shows "\<exists>caller. x = RegUpgrade a (ct_code_hash c') caller \<and> ct_admin c = Some caller \<and> hm_contains (cr_code_registry r) (ct_code_hash c')"
  using assms
  by (cases x) (auto simp: registry_ops registry_get_contract_def Let_def hm_contains_def split: if_splits option.splits)

definition two_codes :: ContractRegistry where
  "two_codes = registry_step example_registry (RegCode (example_code\<lparr>cco_hash := H256 [1]\<rparr>))"

lemma example_hash: "H256 [1] \<noteq> cco_hash example_code"
proof -
  have "length (h256_bytes (cco_hash example_code)) = 32"
    by (simp add: example_code_def from_bytecode_def code_compute_hash_def h256_from_slice_def)
  then show ?thesis by (metis h256.sel length_Cons list.size(3) One_nat_def numeral_eq_one_iff semiring_norm(85))
qed

theorem upgrade_by_admin_only_witness:
  "\<exists>c c'. registry_get_contract two_codes address_zero = Some c \<and> ct_admin c = Some address_zero
    \<and> registry_get_contract (registry_step two_codes (RegUpgrade address_zero (H256 [1]) address_zero)) address_zero = Some c'
    \<and> hm_contains (cr_code_registry two_codes) (ct_code_hash c')"
proof -
  obtain c where c: "registry_get_contract two_codes address_zero = Some c" "ct_code_hash c = cco_hash example_code" "ct_admin c = Some address_zero"
    by (simp add: two_codes_def example_registry_simps Let_def contract_initialize_def)
  have "hm_contains (cr_code_registry two_codes) (H256 [1])" by (simp add: two_codes_def register_code_def)
  then have c': "registry_get_contract (registry_step two_codes (RegUpgrade address_zero (H256 [1]) address_zero)) address_zero
      = Some (c\<lparr>ct_code_hash := H256 [1]\<rparr>)"
    using c by (simp add: registry_get_contract_def registry_upgrade_def)
  show ?thesis using upgrade_by_admin_only [OF c(1) c'] c c' example_hash by auto
qed

text \<open>
  \<open>update_contract\<close> asks for no authorisation, so anyone who can call it can take the administration over and then
  upgrade; and no operation looks at \<open>paused\<close>.
\<close>

lemma admin_takeover:
  assumes "registry_get_contract r a = Some c" and "hm_contains (cr_code_registry r) h"
  shows "\<exists>c'. registry_get_contract (registry_step (registry_step r (RegUpdate a (MethTransferAdmin mallory))) (RegUpgrade a h mallory)) a = Some c'
    \<and> ct_code_hash c' = h"
  using assms by (simp add: registry_get_contract_def registry_ops transfer_admin_def)

end
