(* ===== verification/Wasm_Interop.thy ===== *)
theory Wasm_Interop
  imports Wasm_Storage
begin

section \<open>Calls between the EVM and WASM\<close>

text \<open>
  \<open>pyrax-node/src/wasm/interop.rs\<close>: calls across the machines, their encoding, the bridge that prepares them, and the
  encoding of the precompiled contract that calls WASM. A \<open>String\<close> is the list of its bytes as characters;
  \<open>String::from_utf8\<close> is the validity check of the Unicode standard. Lengths are \<open>usize\<close> values that cannot overflow
  here and are natural numbers.
\<close>

datatype CrossVmCallType = EvmToWasm | WasmToEvm | DelegateCall | StaticCall

record CrossVmCall =
  cv_call_type :: CrossVmCallType
  cv_from :: address
  cv_to :: address
  cv_selector :: "u8 list"
  cv_function_name :: "string option"
  cv_args :: "u8 list"
  cv_value :: u64
  cv_gas_limit :: u64
  cv_depth :: u32

definition evm_to_wasm :: "address \<Rightarrow> address \<Rightarrow> string \<Rightarrow> u8 list \<Rightarrow> u64 \<Rightarrow> u64 \<Rightarrow> CrossVmCall" where
  "evm_to_wasm src dst function_name args v gas_limit =
     \<lparr>cv_call_type = EvmToWasm, cv_from = src, cv_to = dst, cv_selector = [], cv_function_name = Some function_name,
      cv_args = args, cv_value = v, cv_gas_limit = gas_limit, cv_depth = 0\<rparr>"

definition wasm_to_evm :: "address \<Rightarrow> address \<Rightarrow> u8 list \<Rightarrow> u8 list \<Rightarrow> u64 \<Rightarrow> u64 \<Rightarrow> CrossVmCall" where
  "wasm_to_evm src dst selector args v gas_limit =
     \<lparr>cv_call_type = WasmToEvm, cv_from = src, cv_to = dst, cv_selector = selector, cv_function_name = None,
      cv_args = args, cv_value = v, cv_gas_limit = gas_limit, cv_depth = 0\<rparr>"

definition cross_static_call :: "CrossVmCallType \<Rightarrow> address \<Rightarrow> address \<Rightarrow> u8 list \<Rightarrow> u64 \<Rightarrow> CrossVmCall" where
  "cross_static_call call_type src dst args gas_limit =
     \<lparr>cv_call_type = StaticCall, cv_from = src, cv_to = dst, cv_selector = [], cv_function_name = None,
      cv_args = args, cv_value = 0, cv_gas_limit = gas_limit, cv_depth = 0\<rparr>"

definition call_with_depth :: "CrossVmCall \<Rightarrow> u32 \<Rightarrow> CrossVmCall" where
  "call_with_depth c depth = c\<lparr>cv_depth := depth\<rparr>"

definition call_is_static :: "CrossVmCall \<Rightarrow> bool" where
  "call_is_static c = (cv_call_type c = StaticCall)"

datatype VmType = EvmVm | WasmVm

record CrossVmLog =
  cvl_address :: address
  cvl_topics :: "u8 list list"
  cvl_data :: "u8 list"
  cvl_source_vm :: VmType

record CrossVmResult =
  cvr_success :: bool
  cvr_return_data :: "u8 list"
  cvr_gas_used :: u64
  cvr_error :: "string option"
  cvr_logs :: "CrossVmLog list"

definition cross_success :: "u8 list \<Rightarrow> u64 \<Rightarrow> CrossVmResult" where
  "cross_success return_data gas_used =
     \<lparr>cvr_success = True, cvr_return_data = return_data, cvr_gas_used = gas_used, cvr_error = None, cvr_logs = []\<rparr>"

definition cross_failure :: "string \<Rightarrow> u64 \<Rightarrow> CrossVmResult" where
  "cross_failure err gas_used =
     \<lparr>cvr_success = False, cvr_return_data = [], cvr_gas_used = gas_used, cvr_error = Some err, cvr_logs = []\<rparr>"

definition with_logs :: "CrossVmResult \<Rightarrow> CrossVmLog list \<Rightarrow> CrossVmResult" where
  "with_logs r logs = r\<lparr>cvr_logs := logs\<rparr>"

subsection \<open>Encodings\<close>

text \<open>An argument is right-aligned in a word of 32 bytes; what is past the first 32 bytes is dropped.\<close>

definition abi_word :: "u8 list \<Rightarrow> u8 list" where
  "abi_word arg = replicate (32 - length arg) 0 @ take 32 arg"

definition encode_evm_call :: "u8 list \<Rightarrow> u8 list list \<Rightarrow> u8 list" where
  "encode_evm_call selector args = selector @ concat (map abi_word args)"

function decode_evm_return :: "u8 list \<Rightarrow> u8 list list" where
  "decode_evm_return data = (if 32 \<le> length data then take 32 data # decode_evm_return (drop 32 data) else [])"
  by auto

termination by (relation "measure length") auto

declare decode_evm_return.simps [simp del]

definition encode_wasm_call :: "string \<Rightarrow> u8 list \<Rightarrow> u8 list" where
  "encode_wasm_call function args =
     u32_to_le_bytes (of_nat (length function)) @ ascii_bytes function @ u32_to_le_bytes (of_nat (length args)) @ args"

definition utf8_cont :: "u8 \<Rightarrow> bool" where
  "utf8_cont b = (0x80 \<le> b \<and> b \<le> 0xBF)"

fun utf8_valid :: "u8 list \<Rightarrow> bool" where
  "utf8_valid [] = True"
| "utf8_valid (b # bs) =
     (if b < 0x80 then utf8_valid bs
      else if 0xC2 \<le> b \<and> b \<le> 0xDF then
        (case bs of b1 # r \<Rightarrow> utf8_cont b1 \<and> utf8_valid r | _ \<Rightarrow> False)
      else if 0xE0 \<le> b \<and> b \<le> 0xEF then
        (case bs of b1 # b2 # r \<Rightarrow>
           utf8_cont b1 \<and> (b = 0xE0 \<longrightarrow> 0xA0 \<le> b1) \<and> (b = 0xED \<longrightarrow> b1 \<le> 0x9F) \<and> utf8_cont b2 \<and> utf8_valid r
         | _ \<Rightarrow> False)
      else if 0xF0 \<le> b \<and> b \<le> 0xF4 then
        (case bs of b1 # b2 # b3 # r \<Rightarrow>
           utf8_cont b1 \<and> (b = 0xF0 \<longrightarrow> 0x90 \<le> b1) \<and> (b = 0xF4 \<longrightarrow> b1 \<le> 0x8F) \<and> utf8_cont b2 \<and> utf8_cont b3 \<and> utf8_valid r
         | _ \<Rightarrow> False)
      else False)"

datatype codec_error = DataTooShort | InvalidNameLength | InvalidUtf8 | InvalidArgsLength | InputTooShort

definition string_of_bytes :: "u8 list \<Rightarrow> string" where
  "string_of_bytes bs = map (\<lambda>b. char_of (unat b)) bs"

definition decode_wasm_call :: "u8 list \<Rightarrow> codec_error + (string \<times> u8 list)" where
  "decode_wasm_call data =
     (if length data < 8 then Err DataTooShort
      else let name_len = unat (u32_from_le_bytes (take 4 data)) in
        if length data < 4 + name_len + 4 then Err InvalidNameLength
        else if \<not> utf8_valid (take name_len (drop 4 data)) then Err InvalidUtf8
        else let name = string_of_bytes (take name_len (drop 4 data));
                 args_offset = 4 + name_len;
                 args_len = unat (u32_from_le_bytes (take 4 (drop args_offset data)));
                 args_start = args_offset + 4
             in if length data < args_start + args_len then Err InvalidArgsLength
                else Ok (name, take args_len (drop args_start data)))"

definition compute_selector :: "ext \<Rightarrow> string \<Rightarrow> u8 list" where
  "compute_selector e signature = take 4 (ext_keccak256 e (ascii_bytes signature))"

subsection \<open>The bridge\<close>

record EvmWasmBridge =
  ewb_wasm_contracts :: "(address, bool) hashmap"
  ewb_evm_contracts :: "(address, bool) hashmap"
  ewb_call_history :: "CrossVmCall list"
  ewb_max_depth :: u32
  ewb_storage :: ContractStorage

definition EvmWasmBridge_new :: "ContractStorage \<Rightarrow> EvmWasmBridge" where
  "EvmWasmBridge_new storage =
     \<lparr>ewb_wasm_contracts = [], ewb_evm_contracts = [], ewb_call_history = [], ewb_max_depth = 10, ewb_storage = storage\<rparr>"

definition register_wasm_contract :: "EvmWasmBridge \<Rightarrow> address \<Rightarrow> EvmWasmBridge" where
  "register_wasm_contract b address = b\<lparr>ewb_wasm_contracts := hm_insert address True (ewb_wasm_contracts b)\<rparr>"

definition register_evm_contract :: "EvmWasmBridge \<Rightarrow> address \<Rightarrow> EvmWasmBridge" where
  "register_evm_contract b address = b\<lparr>ewb_evm_contracts := hm_insert address True (ewb_evm_contracts b)\<rparr>"

definition is_wasm_contract :: "EvmWasmBridge \<Rightarrow> address \<Rightarrow> bool" where
  "is_wasm_contract b address = hm_contains (ewb_wasm_contracts b) address"

definition is_evm_contract :: "EvmWasmBridge \<Rightarrow> address \<Rightarrow> bool" where
  "is_evm_contract b address = hm_contains (ewb_evm_contracts b) address"

definition get_vm_type :: "EvmWasmBridge \<Rightarrow> address \<Rightarrow> VmType option" where
  "get_vm_type b address =
     (if is_wasm_contract b address then Some WasmVm else if is_evm_contract b address then Some EvmVm else None)"

record PreparedCall =
  pcl_call :: CrossVmCall
  pcl_target_vm :: VmType
  pcl_encoded_data :: "u8 list"

datatype prepare_error = MaxDepthExceeded | UnknownContractType | FunctionNameRequired | SelectorRequired

definition encode_call :: "CrossVmCall \<Rightarrow> VmType \<Rightarrow> prepare_error + u8 list" where
  "encode_call c target_vm =
     (if cv_call_type c = EvmToWasm \<and> target_vm = WasmVm then
        (case cv_function_name c of
           None \<Rightarrow> Err FunctionNameRequired
         | Some function \<Rightarrow> Ok (encode_wasm_call function (cv_args c)))
      else if cv_call_type c = WasmToEvm \<and> target_vm = EvmVm then
        (if length (cv_selector c) < 4 then Err SelectorRequired
         else Ok (encode_evm_call (take 4 (cv_selector c)) [cv_args c]))
      else Ok (cv_args c))"

definition prepare_call :: "EvmWasmBridge \<Rightarrow> CrossVmCall \<Rightarrow> prepare_error + (EvmWasmBridge \<times> PreparedCall)" where
  "prepare_call b c =
     (if ewb_max_depth b \<le> cv_depth c then Err MaxDepthExceeded
      else case get_vm_type b (cv_to c) of
        None \<Rightarrow> Err UnknownContractType
      | Some target_vm \<Rightarrow>
          and_then (encode_call c target_vm) (\<lambda>encoded_data.
            Ok (b\<lparr>ewb_call_history := ewb_call_history b @ [c]\<rparr>,
                \<lparr>pcl_call = c, pcl_target_vm = target_vm, pcl_encoded_data = encoded_data\<rparr>)))"

definition clear_history :: "EvmWasmBridge \<Rightarrow> EvmWasmBridge" where
  "clear_history b = b\<lparr>ewb_call_history := []\<rparr>"

record EvmWasmStats =
  ews_wasm_contracts :: u64
  ews_evm_contracts :: u64
  ews_total_calls :: u64
  ews_max_depth :: u32

definition ewb_stats :: "EvmWasmBridge \<Rightarrow> EvmWasmStats" where
  "ewb_stats b =
     \<lparr>ews_wasm_contracts = of_nat (length (ewb_wasm_contracts b)), ews_evm_contracts = of_nat (length (ewb_evm_contracts b)),
      ews_total_calls = of_nat (length (ewb_call_history b)), ews_max_depth = ewb_max_depth b\<rparr>"

definition wasm_gas_cost :: "u64 \<Rightarrow> u64" where
  "wasm_gas_cost input_len = 1000 + input_len * 5"

definition decode_input :: "u8 list \<Rightarrow> codec_error + (address \<times> u8 list)" where
  "decode_input input =
     (if length input < 20 then Err InputTooShort else Ok (Address (take 20 input), drop 20 input))"

definition encode_input :: "address \<Rightarrow> u8 list \<Rightarrow> u8 list" where
  "encode_input target data = address_bytes target @ data"

subsection \<open>Round trips\<close>

lemma length_abi_word [simp]: "length (abi_word arg) = 32"
  by (simp add: abi_word_def)

lemma length_ascii_bytes [simp]: "length (ascii_bytes s) = length s"
  by (simp add: ascii_bytes_def)

lemma string_of_ascii_bytes [simp]: "string_of_bytes (ascii_bytes s) = s"
  by (simp add: string_of_bytes_def ascii_bytes_def unat_of_nat_small comp_def cong: map_cong)

lemma decode_evm_words:
  "length rest < 32 \<Longrightarrow> decode_evm_return (concat (map abi_word args) @ rest) = map abi_word args"
proof (induction args)
  case Nil
  then show ?case by (simp add: decode_evm_return.simps [of rest])
next
  case (Cons arg args)
  then show ?case by (simp add: decode_evm_return.simps [of "abi_word arg @ _"])
qed

subsection \<open>Properties\<close>

text \<open>
  C39. The call data of WASM is decoded to what was encoded: for a function name that is valid UTF-8 and lengths
  below \<open>2^32\<close>, decoding the encoding, whatever follows it, gives back the name and the arguments.
\<close>

theorem wasm_call_round_trip:
  assumes "utf8_valid (ascii_bytes function)" and "length function < 2 ^ 32" and "length args < 2 ^ 32"
  shows "decode_wasm_call (encode_wasm_call function args @ rest) = Ok (function, args)"
  using assms by (simp add: decode_wasm_call_def encode_wasm_call_def Let_def unat_of_nat_small)

theorem wasm_call_round_trip_witness:
  "decode_wasm_call (encode_wasm_call ''transfer'' [1, 2, 3, 4] @ []) = Ok (''transfer'', [1, 2, 3, 4])"
proof (rule wasm_call_round_trip)
  show "utf8_valid (ascii_bytes ''transfer'')" by code_simp
qed simp_all

text \<open>The words of an EVM call, after its selector, decode to the arguments as words; addresses of the precompile decode.\<close>

lemma evm_call_round_trip:
  "length selector = 4 \<Longrightarrow> decode_evm_return (drop 4 (encode_evm_call selector args)) = map abi_word args"
  using decode_evm_words [of "[]" args] by (simp add: encode_evm_call_def)

lemma precompile_input_round_trip: "wf_address target \<Longrightarrow> decode_input (encode_input target data) = Ok (target, data)"
  by (cases target) (simp add: decode_input_def encode_input_def wf_address_def)

text \<open>
  A call from WASM to the EVM carries one word: whatever arguments it was given, its data is the selector and
  32 bytes, and two calls whose arguments agree on the first 32 bytes are prepared with the same data.
\<close>

theorem evm_arguments_truncated:
  assumes "cv_call_type c = WasmToEvm" and "prepare_call b c = Ok (b', p)" and "pcl_target_vm p = EvmVm"
  shows "length (pcl_encoded_data p) = 36
    \<and> (32 \<le> length (cv_args c) \<longrightarrow> pcl_encoded_data p = take 4 (cv_selector c) @ take 32 (cv_args c))"
proof -
  have "pcl_encoded_data p = take 4 (cv_selector c) @ abi_word (cv_args c)" "4 \<le> length (cv_selector c)"
    using assms by (auto simp: prepare_call_def encode_call_def encode_evm_call_def and_then_Ok_iff split: if_splits option.splits)
  then show ?thesis by (simp add: abi_word_def)
qed

theorem evm_arguments_truncated_witness:
  "\<exists>b p. prepare_call (register_evm_contract (EvmWasmBridge_new ContractStorage_new) address_zero)
      (wasm_to_evm address_zero address_zero [1, 2, 3, 4] (replicate 64 7) 0 100) = Ok (b, p)
    \<and> length (pcl_encoded_data p) = 36"
proof -
  let ?c = "wasm_to_evm address_zero address_zero [1, 2, 3, 4] (replicate 64 7) 0 100"
  obtain b p where p: "prepare_call (register_evm_contract (EvmWasmBridge_new ContractStorage_new) address_zero) ?c = Ok (b, p)"
    "pcl_target_vm p = EvmVm"
    by (simp add: prepare_call_def register_evm_contract_def EvmWasmBridge_new_def wasm_to_evm_def get_vm_type_def
        is_wasm_contract_def is_evm_contract_def encode_call_def)
  then show ?thesis using evm_arguments_truncated [OF _ p] by (simp add: wasm_to_evm_def)
qed

text \<open>A static or delegate call is prepared without a selector or a function name: its data is the bare arguments.\<close>

lemma static_call_unencoded:
  "prepare_call b (cross_static_call ty src dst args gas) = Ok (b', p) \<Longrightarrow> pcl_encoded_data p = args"
  by (auto simp: prepare_call_def cross_static_call_def encode_call_def split: if_splits option.splits)

end
