(* ===== verification/Staking_Service.thy ===== *)
theory Staking_Service
  imports L2_Prover "HOL-Library.Multiset"
begin

section \<open>The staking service\<close>

text \<open>
  \<open>pyrax-node/src/services/staking.rs\<close>: the service the node starts for its third stream, with its own validators,
  checkpoints and attestations, over the verifier of the rollup. An operation that waits for a lock its own task
  holds never returns and is \<open>None\<close>. The events are listed in the order they are sent; the two background tasks
  are the functions of one pass of their loops. The clock is an argument.
\<close>

definition SERVICE_MIN_STAKE :: u64 where
  "SERVICE_MIN_STAKE = 10000 * 100000000"

definition MAX_VALIDATORS :: nat where
  "MAX_VALIDATORS = 100"

definition SERVICE_CHECKPOINT_INTERVAL :: u64 where
  "SERVICE_CHECKPOINT_INTERVAL = 100"

definition UNBONDING_PERIOD :: u64 where
  "UNBONDING_PERIOD = 7 * 24 * 60 * 60"

definition SLASH_PERCENT :: u64 where
  "SLASH_PERCENT = 10"

definition CHECKPOINT_REWARD :: u64 where
  "CHECKPOINT_REWARD = 10 * 100000000"

record ServiceConfig =
  sc_enabled :: bool
  sc_rpc_bind :: string
  sc_rpc_port :: u16
  sc_min_stake :: u64
  sc_max_validators :: nat
  sc_checkpoint_interval :: u64
  sc_enable_proving :: bool
  sc_proof_type :: ProofType

definition ServiceConfig_default :: ServiceConfig where
  "ServiceConfig_default =
     \<lparr>sc_enabled = True, sc_rpc_bind = ''0.0.0.0'', sc_rpc_port = 8547, sc_min_stake = SERVICE_MIN_STAKE,
      sc_max_validators = MAX_VALIDATORS, sc_checkpoint_interval = SERVICE_CHECKPOINT_INTERVAL, sc_enable_proving = True,
      sc_proof_type = Stark\<rparr>"

datatype ServiceError =
    StakeBelowMinimum
  | AlreadyRegistered
  | StakeTooLowForSet
  | NoSuchValidator
  | NotEnoughStake
  | AlreadyUnbonding
  | NotUnbonding
  | UnbondingNotComplete u64
  | NotInActiveSet
  | ProofError VerifierError
  | InvalidProofSlashed
  | NoSuchCheckpoint
  | AlreadyAttested

record ServiceValidator =
  sv_address :: address
  sv_stake :: u64
  sv_commission_bps :: u16
  sv_total_rewards :: u64
  sv_total_slashed :: u64
  sv_checkpoints_validated :: u64
  sv_invalid_proofs :: u64
  sv_registered_at :: u64
  sv_last_active_at :: u64
  sv_is_active :: bool
  sv_unbonding_at :: u64
  sv_unbonding_amount :: u64

definition ServiceValidator_new :: "u64 \<Rightarrow> address \<Rightarrow> u64 \<Rightarrow> ServiceValidator" where
  "ServiceValidator_new now addr stake =
     \<lparr>sv_address = addr, sv_stake = stake, sv_commission_bps = 500, sv_total_rewards = 0, sv_total_slashed = 0,
      sv_checkpoints_validated = 0, sv_invalid_proofs = 0, sv_registered_at = now, sv_last_active_at = now,
      sv_is_active = False, sv_unbonding_at = 0, sv_unbonding_amount = 0\<rparr>"

definition effective_stake :: "ServiceValidator \<Rightarrow> u64" where
  "effective_stake v = saturating_sub (sv_stake v) (sv_unbonding_amount v)"

definition can_slash :: "ServiceValidator \<Rightarrow> bool" where
  "can_slash v = (0 < effective_stake v)"

definition sv_slash :: "ServiceValidator \<Rightarrow> u64 \<Rightarrow> ServiceValidator \<times> u64" where
  "sv_slash v percent =
     (let slash_amount = (effective_stake v * percent) div 100
      in (v\<lparr>sv_stake := saturating_sub (sv_stake v) slash_amount, sv_total_slashed := sv_total_slashed v + slash_amount\<rparr>,
          slash_amount))"

definition add_reward :: "u64 \<Rightarrow> ServiceValidator \<Rightarrow> u64 \<Rightarrow> ServiceValidator" where
  "add_reward now v amount = v\<lparr>sv_total_rewards := sv_total_rewards v + amount, sv_last_active_at := now\<rparr>"

definition sv_start_unbonding :: "u64 \<Rightarrow> ServiceValidator \<Rightarrow> u64 \<Rightarrow> ServiceError + ServiceValidator" where
  "sv_start_unbonding now v amount =
     (if effective_stake v < amount then Err NotEnoughStake
      else if 0 < sv_unbonding_at v then Err AlreadyUnbonding
      else Ok (v\<lparr>sv_unbonding_at := now, sv_unbonding_amount := amount\<rparr>))"

definition sv_complete_unbonding :: "u64 \<Rightarrow> ServiceValidator \<Rightarrow> ServiceError + (ServiceValidator \<times> u64)" where
  "sv_complete_unbonding now v =
     (if sv_unbonding_at v = 0 then Err NotUnbonding
      else let elapsed = now - sv_unbonding_at v in
        if elapsed < UNBONDING_PERIOD then Err (UnbondingNotComplete (UNBONDING_PERIOD - elapsed))
        else let amount = sv_unbonding_amount v
             in Ok (v\<lparr>sv_stake := saturating_sub (sv_stake v) amount, sv_unbonding_at := 0, sv_unbonding_amount := 0\<rparr>, amount))"

subsection \<open>Checkpoints\<close>

record Attestation =
  at_validator :: address
  at_checkpoint_hash :: h256
  at_signature :: h256
  at_timestamp :: u64

record ServiceCheckpoint =
  sk_id :: u64
  sk_stream_a_height :: u64
  sk_stream_b_height :: u64
  sk_state_root :: h256
  sk_utxo_commitment :: h256
  sk_proof :: "Proof option"
  sk_validator :: address
  sk_timestamp :: u64
  sk_finalized :: bool
  sk_attestations :: "Attestation list"

definition ServiceCheckpoint_new ::
  "u64 \<Rightarrow> u64 \<Rightarrow> u64 \<Rightarrow> u64 \<Rightarrow> h256 \<Rightarrow> h256 \<Rightarrow> address \<Rightarrow> ServiceCheckpoint" where
  "ServiceCheckpoint_new now id' stream_a_height stream_b_height new_root utxo_commitment validator =
     \<lparr>sk_id = id', sk_stream_a_height = stream_a_height, sk_stream_b_height = stream_b_height, sk_state_root = new_root,
      sk_utxo_commitment = utxo_commitment, sk_proof = None, sk_validator = validator, sk_timestamp = now,
      sk_finalized = False, sk_attestations = []\<rparr>"

definition service_checkpoint_hash :: "ext \<Rightarrow> ServiceCheckpoint \<Rightarrow> h256" where
  "service_checkpoint_hash e c =
     h256_from_slice (ext_blake3 e
       (u64_to_le_bytes (sk_id c) @ u64_to_le_bytes (sk_stream_a_height c) @ u64_to_le_bytes (sk_stream_b_height c)
        @ h256_bytes (sk_state_root c) @ h256_bytes (sk_utxo_commitment c) @ address_bytes (sk_validator c)))"

definition sk_has_quorum :: "ServiceCheckpoint \<Rightarrow> nat \<Rightarrow> bool" where
  "sk_has_quorum c total_validators =
     (let required = (total_validators * 2) div 3 + 1 in required \<le> length (sk_attestations c))"

definition attestation_signature :: "ext \<Rightarrow> u64 \<Rightarrow> address \<Rightarrow> h256 \<Rightarrow> h256" where
  "attestation_signature e now validator checkpoint_hash =
     h256_from_slice (ext_blake3 e (address_bytes validator @ h256_bytes checkpoint_hash @ u64_to_le_bytes now))"

definition Attestation_new :: "ext \<Rightarrow> u64 \<Rightarrow> address \<Rightarrow> h256 \<Rightarrow> Attestation" where
  "Attestation_new e now validator checkpoint_hash =
     \<lparr>at_validator = validator, at_checkpoint_hash = checkpoint_hash,
      at_signature = attestation_signature e now validator checkpoint_hash, at_timestamp = now\<rparr>"

datatype StakingEvent =
    EvValidatorRegistered address u64
  | EvValidatorDeactivated address
  | EvStakeDeposited address u64
  | EvUnbondingStarted address u64
  | EvUnbondingCompleted address u64
  | EvValidatorSlashed address u64 string
  | EvCheckpointCreated u64 address
  | EvCheckpointFinalized u64 h256
  | EvRewardDistributed address u64

subsection \<open>The service\<close>

record StakingService =
  ss_config :: ServiceConfig
  ss_validators :: "(address, ServiceValidator) hashmap"
  ss_active_set :: "address list"
  ss_checkpoints :: "ServiceCheckpoint list"
  ss_last_checkpoint_id :: u64
  ss_events :: "StakingEvent list"
  ss_running :: bool
  ss_prover :: "ZkProver option"
  ss_verifier :: ZkVerifier

definition StakingService_new :: "ServiceConfig \<Rightarrow> StakingService" where
  "StakingService_new config =
     \<lparr>ss_config = config, ss_validators = [], ss_active_set = [], ss_checkpoints = [], ss_last_checkpoint_id = 0,
      ss_events = [], ss_running = False,
      ss_prover = (if sc_enable_proving config then Some (ZkProver_new ProverConfig_default address_zero) else None),
      ss_verifier = ZkVerifier_new VerifierConfig_default\<rparr>"

definition service_send :: "StakingEvent \<Rightarrow> StakingService \<Rightarrow> StakingService" where
  "service_send ev s = s\<lparr>ss_events := ss_events s @ [ev]\<rparr>"

definition eligible :: "StakingService \<Rightarrow> (address \<times> ServiceValidator) list" where
  "eligible s =
     sort_key (\<lambda>(_, v). - uint (effective_stake v))
       (filter (\<lambda>(_, v). sc_min_stake (ss_config s) \<le> effective_stake v) (ss_validators s))"

definition update_active_set :: "StakingService \<Rightarrow> StakingService" where
  "update_active_set s =
     (let new_active = map fst (take (sc_max_validators (ss_config s)) (eligible s))
      in s\<lparr>ss_validators := map (\<lambda>(addr, v). (addr, v\<lparr>sv_is_active := addr \<in> set new_active\<rparr>)) (ss_validators s),
           ss_active_set := new_active\<rparr>)"

definition get_min_active_stake :: "StakingService \<Rightarrow> u64" where
  "get_min_active_stake s =
     (case map effective_stake (hm_lookup_all (ss_validators s) (ss_active_set s)) of
        [] \<Rightarrow> 0
      | x # xs \<Rightarrow> fold min xs x)"

text \<open>
  With as many validators as the configuration allows, \<open>register_validator\<close> calls \<open>get_min_active_stake\<close> while it holds
  the write lock of the validators, whose read lock \<open>get_min_active_stake\<close> waits for.
\<close>

definition service_register :: "u64 \<Rightarrow> StakingService \<Rightarrow> address \<Rightarrow> u64 \<Rightarrow> (ServiceError + StakingService) option" where
  "service_register now s addr stake =
     (if stake < sc_min_stake (ss_config s) then Some (Err StakeBelowMinimum)
      else if hm_contains (ss_validators s) addr then Some (Err AlreadyRegistered)
      else if sc_max_validators (ss_config s) \<le> length (ss_validators s) then None
      else let s = s\<lparr>ss_validators := hm_insert addr (ServiceValidator_new now addr stake) (ss_validators s)\<rparr>
           in Some (Ok (service_send (EvValidatorRegistered addr stake) (update_active_set s))))"

definition deposit_stake :: "StakingService \<Rightarrow> address \<Rightarrow> u64 \<Rightarrow> ServiceError + (StakingService \<times> u64)" where
  "deposit_stake s addr amount =
     (case hm_get (ss_validators s) addr of
        None \<Rightarrow> Err NoSuchValidator
      | Some v \<Rightarrow>
          let new_stake = sv_stake v + amount;
              s = s\<lparr>ss_validators := hm_insert addr (v\<lparr>sv_stake := new_stake\<rparr>) (ss_validators s)\<rparr>
          in Ok (service_send (EvStakeDeposited addr amount) (update_active_set s), new_stake))"

definition service_start_unbonding :: "u64 \<Rightarrow> StakingService \<Rightarrow> address \<Rightarrow> u64 \<Rightarrow> ServiceError + StakingService" where
  "service_start_unbonding now s addr amount =
     (case hm_get (ss_validators s) addr of
        None \<Rightarrow> Err NoSuchValidator
      | Some v \<Rightarrow>
          and_then (sv_start_unbonding now v amount) (\<lambda>v'.
            let s = s\<lparr>ss_validators := hm_insert addr v' (ss_validators s)\<rparr>
            in Ok (service_send (EvUnbondingStarted addr amount) (update_active_set s))))"

definition service_complete_unbonding :: "u64 \<Rightarrow> StakingService \<Rightarrow> address \<Rightarrow> ServiceError + (StakingService \<times> u64)" where
  "service_complete_unbonding now s addr =
     (case hm_get (ss_validators s) addr of
        None \<Rightarrow> Err NoSuchValidator
      | Some v \<Rightarrow>
          and_then (sv_complete_unbonding now v) (\<lambda>(v', amount).
            Ok (service_send (EvUnbondingCompleted addr amount)
                  (s\<lparr>ss_validators := hm_insert addr v' (ss_validators s)\<rparr>), amount)))"

definition slash_validator :: "StakingService \<Rightarrow> address \<Rightarrow> string \<Rightarrow> StakingService" where
  "slash_validator s addr reason =
     (let s = (case hm_get (ss_validators s) addr of
                 None \<Rightarrow> s
               | Some v \<Rightarrow>
                   (case sv_slash v SLASH_PERCENT of (v', slash_amount) \<Rightarrow>
                     service_send (EvValidatorSlashed addr slash_amount reason)
                       (s\<lparr>ss_validators := hm_insert addr (v'\<lparr>sv_invalid_proofs := sv_invalid_proofs v' + 1\<rparr>) (ss_validators s)\<rparr>)))
      in update_active_set s)"

definition active_validator :: "StakingService \<Rightarrow> address \<Rightarrow> ServiceError + unit" where
  "active_validator s addr =
     (case hm_get (ss_validators s) addr of
        None \<Rightarrow> Err NoSuchValidator
      | Some v \<Rightarrow> if sv_is_active v then Ok () else Err NotInActiveSet)"

definition reward_validator :: "u64 \<Rightarrow> ServiceValidator \<Rightarrow> ServiceValidator" where
  "reward_validator now v =
     add_reward now (v\<lparr>sv_checkpoints_validated := sv_checkpoints_validated v + 1\<rparr>) CHECKPOINT_REWARD"

text \<open>\<open>elapsed\<close> is the time the verification took. An invalid proof changes the state although the call fails.\<close>

definition submit_checkpoint ::
  "ext \<Rightarrow> u64 \<Rightarrow> u64 \<Rightarrow> StakingService \<Rightarrow> address \<Rightarrow> u64 \<Rightarrow> u64 \<Rightarrow> h256 \<Rightarrow> h256 \<Rightarrow> Proof
    \<Rightarrow> StakingService \<times> (ServiceError + u64)" where
  "submit_checkpoint e now elapsed s validator stream_a_height stream_b_height new_root utxo_commitment proof =
     (case active_validator s validator of
        Err x \<Rightarrow> (s, Err x)
      | Ok _ \<Rightarrow>
          (case zk_verify e now elapsed (ss_verifier s) proof validator of
             Err x \<Rightarrow> (s, Err (ProofError x))
           | Ok (verifier, verification) \<Rightarrow>
               let s = s\<lparr>ss_verifier := verifier\<rparr> in
               if \<not> vr_valid verification then (slash_validator s validator ''Invalid ZK proof'', Err InvalidProofSlashed)
               else
                 let id' = ss_last_checkpoint_id s + 1;
                     checkpoint = (ServiceCheckpoint_new now id' stream_a_height stream_b_height new_root utxo_commitment validator)
                       \<lparr>sk_proof := Some proof\<rparr>;
                     s = s\<lparr>ss_last_checkpoint_id := id', ss_checkpoints := ss_checkpoints s @ [checkpoint],
                           ss_validators := hm_modify validator (reward_validator now) (ss_validators s)\<rparr>
                 in (service_send (EvRewardDistributed validator CHECKPOINT_REWARD)
                       (service_send (EvCheckpointCreated id' validator) s), Ok id')))"

text \<open>The first checkpoint with an identifier, updated in place.\<close>

fun update_checkpoint ::
  "u64 \<Rightarrow> (ServiceCheckpoint \<Rightarrow> ServiceError + ServiceCheckpoint) \<Rightarrow> ServiceCheckpoint list \<Rightarrow> ServiceError + ServiceCheckpoint list" where
  "update_checkpoint i f [] = Err NoSuchCheckpoint"
| "update_checkpoint i f (c # cs) =
     (if sk_id c = i then and_then (f c) (\<lambda>c'. Ok (c' # cs))
      else and_then (update_checkpoint i f cs) (\<lambda>cs'. Ok (c # cs')))"

definition add_attestation ::
  "ext \<Rightarrow> u64 \<Rightarrow> address \<Rightarrow> nat \<Rightarrow> ServiceCheckpoint \<Rightarrow> ServiceError + ServiceCheckpoint" where
  "add_attestation e now validator active c =
     (if list_ex (\<lambda>a. at_validator a = validator) (sk_attestations c) then Err AlreadyAttested
      else let c = c\<lparr>sk_attestations := sk_attestations c @ [Attestation_new e now validator (service_checkpoint_hash e c)]\<rparr>
           in Ok (if sk_has_quorum c active \<and> \<not> sk_finalized c then c\<lparr>sk_finalized := True\<rparr> else c))"

fun newly_finalized :: "ServiceCheckpoint list \<Rightarrow> ServiceCheckpoint list \<Rightarrow> StakingEvent list" where
  "newly_finalized (c # cs) (c' # cs') =
     (if sk_finalized c' \<and> \<not> sk_finalized c then [EvCheckpointFinalized (sk_id c') (sk_state_root c')] else []) @ newly_finalized cs cs'"
| "newly_finalized _ _ = []"

definition attest_checkpoint :: "ext \<Rightarrow> u64 \<Rightarrow> StakingService \<Rightarrow> address \<Rightarrow> u64 \<Rightarrow> ServiceError + StakingService" where
  "attest_checkpoint e now s validator checkpoint_id =
     and_then (active_validator s validator) (\<lambda>_.
       and_then (update_checkpoint checkpoint_id (add_attestation e now validator (length (ss_active_set s))) (ss_checkpoints s)) (\<lambda>cs.
         Ok (s\<lparr>ss_checkpoints := cs, ss_events := ss_events s @ newly_finalized (ss_checkpoints s) cs\<rparr>)))"

text \<open>One pass of the rotation task.\<close>

definition rotate_validators :: "u64 \<Rightarrow> StakingService \<Rightarrow> StakingService" where
  "rotate_validators now s =
     s\<lparr>ss_validators := map (\<lambda>(addr, v). (addr,
         if sv_is_active v \<and> 3600 < now - sv_last_active_at v then v\<lparr>sv_is_active := False\<rparr> else v)) (ss_validators s)\<rparr>"

text \<open>One pass of the monitor: the height last checked, and whether a checkpoint is missing; the division can panic.\<close>

definition monitor_pass :: "StakingService \<Rightarrow> u64 \<Rightarrow> u64 \<Rightarrow> (u64 \<times> bool) option" where
  "monitor_pass s last_checked_height current_height =
     (let interval = sc_checkpoint_interval (ss_config s) in
      if last_checked_height + interval \<le> current_height then
        (case div_u64 current_height interval of
           None \<Rightarrow> None
         | Some q \<Rightarrow>
             let checkpoint_height = q * interval
             in Some (checkpoint_height, \<not> list_ex (\<lambda>c. sk_stream_a_height c = checkpoint_height) (ss_checkpoints s)))
      else Some (last_checked_height, False))"

definition service_start :: "StakingService \<Rightarrow> StakingService" where
  "service_start s = s\<lparr>ss_running := True\<rparr>"

definition service_stop :: "StakingService \<Rightarrow> StakingService" where
  "service_stop s = s\<lparr>ss_running := False\<rparr>"

definition service_get_checkpoint :: "StakingService \<Rightarrow> u64 \<Rightarrow> ServiceCheckpoint option" where
  "service_get_checkpoint s i = find (\<lambda>c. sk_id c = i) (ss_checkpoints s)"

definition get_latest_checkpoint :: "StakingService \<Rightarrow> ServiceCheckpoint option" where
  "get_latest_checkpoint s = (if ss_checkpoints s = [] then None else Some (last (ss_checkpoints s)))"

record ServiceStats =
  st_total_validators :: u64
  st_active_validators :: u64
  st_total_staked :: u64
  st_total_rewards :: u64
  st_total_slashed :: u64
  st_total_checkpoints :: u64
  st_finalized_checkpoints :: u64
  st_min_stake :: u64
  st_checkpoint_interval :: u64

definition service_stats :: "StakingService \<Rightarrow> ServiceStats" where
  "service_stats s =
     \<lparr>st_total_validators = of_nat (length (ss_validators s)), st_active_validators = of_nat (length (ss_active_set s)),
      st_total_staked = sum_list (map sv_stake (hm_values (ss_validators s))),
      st_total_rewards = sum_list (map sv_total_rewards (hm_values (ss_validators s))),
      st_total_slashed = sum_list (map sv_total_slashed (hm_values (ss_validators s))),
      st_total_checkpoints = of_nat (length (ss_checkpoints s)),
      st_finalized_checkpoints = of_nat (length (filter sk_finalized (ss_checkpoints s))),
      st_min_stake = sc_min_stake (ss_config s), st_checkpoint_interval = sc_checkpoint_interval (ss_config s)\<rparr>"

subsection \<open>The active set\<close>

lemma take_drop_sorted:
  fixes f :: "'a \<Rightarrow> 'b::linorder"
  assumes "sorted (map f xs)" and "x \<in> set (take n xs)" and "y \<in> set (drop n xs)"
  shows "f x \<le> f y"
proof -
  have "sorted (map f (take n xs) @ map f (drop n xs))"
    using assms(1) by (metis append_take_drop_id map_append)
  then show ?thesis using assms(2,3) by (auto simp: sorted_append)
qed

lemma eligible_set:
  "(a, v) \<in> set (eligible s) \<longleftrightarrow> (a, v) \<in> set (ss_validators s) \<and> sc_min_stake (ss_config s) \<le> effective_stake v"
  by (auto simp: eligible_def)

lemma eligible_order:
  assumes "(a, v) \<in> set (take n (eligible s))" and "(b, u) \<in> set (drop n (eligible s))"
  shows "effective_stake u \<le> effective_stake v"
proof -
  have "sorted (map (\<lambda>(_, v). - uint (effective_stake v)) (eligible s))" unfolding eligible_def by simp
  from take_drop_sorted [OF this assms] show ?thesis by (simp add: word_le_def)
qed

lemma distinct_map_filter': "distinct (map f xs) \<Longrightarrow> distinct (map f (filter P xs))"
  by (induction xs) auto

lemma distinct_eligible:
  assumes "hm_wf (ss_validators s)"
  shows "distinct (map fst (eligible s))"
proof -
  let ?xs = "filter (\<lambda>(_, v). sc_min_stake (ss_config s) \<le> effective_stake v) (ss_validators s)"
  have "distinct (map fst ?xs)" using assms by (simp add: hm_wf_def distinct_map_filter')
  moreover have "mset (map fst (eligible s)) = mset (map fst ?xs)" by (simp add: eligible_def)
  ultimately show ?thesis using mset_eq_imp_distinct_iff by blast
qed

lemma active_set_fst:
  "ss_active_set (update_active_set s) = map fst (take (sc_max_validators (ss_config s)) (eligible s))"
  by (simp add: update_active_set_def Let_def)

lemma update_active_get:
  "hm_get (ss_validators (update_active_set s)) a
    = map_option (\<lambda>v. v\<lparr>sv_is_active := a \<in> set (ss_active_set (update_active_set s))\<rparr>) (hm_get (ss_validators s) a)"
  by (simp add: update_active_set_def Let_def hm_get_map_keyed)

lemma update_active_rest [simp]:
  "ss_checkpoints (update_active_set s) = ss_checkpoints s" "ss_last_checkpoint_id (update_active_set s) = ss_last_checkpoint_id s"
  "ss_config (update_active_set s) = ss_config s" "ss_verifier (update_active_set s) = ss_verifier s"
  "hm_wf (ss_validators (update_active_set s)) = hm_wf (ss_validators s)"
  by (simp_all add: update_active_set_def Let_def hm_wf_map_keyed)

lemma service_send_rest [simp]:
  "ss_checkpoints (service_send ev s) = ss_checkpoints s" "ss_last_checkpoint_id (service_send ev s) = ss_last_checkpoint_id s"
  "ss_config (service_send ev s) = ss_config s" "ss_validators (service_send ev s) = ss_validators s"
  "ss_active_set (service_send ev s) = ss_active_set s" "ss_verifier (service_send ev s) = ss_verifier s"
  by (simp_all add: service_send_def)

lemma eligible_effective:
  "hm_wf (ss_validators s) \<Longrightarrow> (a, v) \<in> set (eligible s) \<longleftrightarrow> hm_get (ss_validators s) a = Some v \<and> sc_min_stake (ss_config s) \<le> effective_stake v"
  by (simp add: eligible_set hm_mem_iff)

text \<open>
  The active set is the top of the stakes: after an update it has at most the configured number of validators,
  each once; they are exactly those flagged as active, all have the minimum stake, and a validator left out
  that has it too has no more stake than any member, and the set is full.
\<close>

theorem active_set_is_top:
  fixes s
  defines "s' \<equiv> update_active_set s"
  assumes wf: "hm_wf (ss_validators s)"
  shows "length (ss_active_set s') \<le> sc_max_validators (ss_config s) \<and> distinct (ss_active_set s')
    \<and> (\<forall>a v. hm_get (ss_validators s') a = Some v \<longrightarrow> (sv_is_active v \<longleftrightarrow> a \<in> set (ss_active_set s')))
    \<and> (\<forall>a \<in> set (ss_active_set s'). \<exists>v. hm_get (ss_validators s) a = Some v \<and> sc_min_stake (ss_config s) \<le> effective_stake v
        \<and> (\<forall>b u. hm_get (ss_validators s) b = Some u \<and> b \<notin> set (ss_active_set s') \<and> sc_min_stake (ss_config s) \<le> effective_stake u
              \<longrightarrow> effective_stake u \<le> effective_stake v \<and> length (ss_active_set s') = sc_max_validators (ss_config s)))"
proof -
  let ?n = "sc_max_validators (ss_config s)"
  have act: "ss_active_set s' = map fst (take ?n (eligible s))" by (simp add: s'_def active_set_fst)
  have flag: "\<forall>a v. hm_get (ss_validators s') a = Some v \<longrightarrow> (sv_is_active v \<longleftrightarrow> a \<in> set (ss_active_set s'))"
    by (auto simp: s'_def update_active_get)
  have rest: "(b, u) \<in> set (drop ?n (eligible s))"
    if "hm_get (ss_validators s) b = Some u" "b \<notin> set (ss_active_set s')" "sc_min_stake (ss_config s) \<le> effective_stake u" for b u
  proof -
    have "(b, u) \<in> set (take ?n (eligible s)) \<union> set (drop ?n (eligible s))"
      using that(1,3) eligible_effective [OF wf] by (metis append_take_drop_id set_append)
    moreover have "(b, u) \<notin> set (take ?n (eligible s))" using that(2) by (force simp: act)
    ultimately show ?thesis by simp
  qed
  have "\<exists>v. hm_get (ss_validators s) a = Some v \<and> sc_min_stake (ss_config s) \<le> effective_stake v
      \<and> (\<forall>b u. hm_get (ss_validators s) b = Some u \<and> b \<notin> set (ss_active_set s') \<and> sc_min_stake (ss_config s) \<le> effective_stake u
            \<longrightarrow> effective_stake u \<le> effective_stake v \<and> length (ss_active_set s') = ?n)" if mem: "a \<in> set (ss_active_set s')" for a
  proof -
    obtain v where v: "(a, v) \<in> set (take ?n (eligible s))" using mem by (auto simp: act)
    then have "hm_get (ss_validators s) a = Some v \<and> sc_min_stake (ss_config s) \<le> effective_stake v"
      using eligible_effective [OF wf] by (metis in_set_takeD)
    moreover have "effective_stake u \<le> effective_stake v \<and> length (ss_active_set s') = ?n"
      if "(b, u) \<in> set (drop ?n (eligible s))" for b u
    proof -
      have "?n < length (eligible s)" using that by (metis drop_all empty_iff list.set(1) not_le)
      then show ?thesis using eligible_order [OF v that] by (simp add: act)
    qed
    ultimately show ?thesis using rest by blast
  qed
  moreover have "length (ss_active_set s') \<le> ?n" "distinct (ss_active_set s')"
    using distinct_eligible [OF wf] by (simp_all add: act take_map [symmetric])
  ultimately show ?thesis using flag by blast
qed

definition example_service :: StakingService where
  "example_service = (StakingService_new ServiceConfig_default)\<lparr>ss_validators :=
     [(address_zero, ServiceValidator_new 0 address_zero SERVICE_MIN_STAKE), (Address [1], ServiceValidator_new 0 (Address [1]) 5)]\<rparr>"

theorem active_set_is_top_witness:
  "ss_active_set (update_active_set example_service) = [address_zero] \<and> distinct (ss_active_set (update_active_set example_service))"
proof -
  have "hm_wf (ss_validators example_service)" by (simp add: example_service_def hm_wf_def address_zero_def numeral_eq_Suc)
  from active_set_is_top [OF this] show ?thesis
    by (simp add: active_set_fst eligible_def example_service_def StakingService_new_def ServiceConfig_default_def MAX_VALIDATORS_def
        ServiceValidator_new_def effective_stake_def SERVICE_MIN_STAKE_def)
qed

subsection \<open>Runs\<close>

datatype service_op =
    SvRegister u64 address u64
  | SvDeposit address u64
  | SvUnbond u64 address u64
  | SvComplete u64 address
  | SvSubmit u64 u64 address u64 u64 h256 h256 Proof
  | SvAttest u64 address u64
  | SvRotate u64

fun service_step :: "ext \<Rightarrow> StakingService \<Rightarrow> service_op \<Rightarrow> StakingService" where
  "service_step e s (SvRegister now a n) = (case service_register now s a n of None \<Rightarrow> s | Some r \<Rightarrow> ok_or s r)"
| "service_step e s (SvDeposit a n) = (case deposit_stake s a n of Err _ \<Rightarrow> s | Ok (s', _) \<Rightarrow> s')"
| "service_step e s (SvUnbond now a n) = ok_or s (service_start_unbonding now s a n)"
| "service_step e s (SvComplete now a) = (case service_complete_unbonding now s a of Err _ \<Rightarrow> s | Ok (s', _) \<Rightarrow> s')"
| "service_step e s (SvSubmit now elapsed a h h' r u p) = fst (submit_checkpoint e now elapsed s a h h' r u p)"
| "service_step e s (SvAttest now a i) = ok_or s (attest_checkpoint e now s a i)"
| "service_step e s (SvRotate now) = rotate_validators now s"

definition rewards :: "StakingService \<Rightarrow> u64" where
  "rewards s = sum_list (map sv_total_rewards (hm_values (ss_validators s)))"

definition attested_once :: "ServiceCheckpoint \<Rightarrow> bool" where
  "attested_once c = distinct (map at_validator (sk_attestations c))"

definition staking_service_inv :: "StakingService \<Rightarrow> bool" where
  "staking_service_inv s =
     (hm_wf (ss_validators s) \<and> ss_last_checkpoint_id s = of_nat (length (ss_checkpoints s))
      \<and> map sk_id (ss_checkpoints s) = map (\<lambda>i. of_nat (Suc i)) [0..<length (ss_checkpoints s)]
      \<and> list_all attested_once (ss_checkpoints s)
      \<and> rewards s = of_nat (length (ss_checkpoints s)) * CHECKPOINT_REWARD)"

text \<open>What a step does to validators and checkpoints when it creates or attests no checkpoint.\<close>

lemma rewards_update_active [simp]: "rewards (update_active_set s) = rewards s"
  by (simp add: rewards_def update_active_set_def Let_def sum_map_keyed)

lemma rewards_send [simp]: "rewards (service_send ev s) = rewards s"
  by (simp add: rewards_def)

lemma rewards_insert:
  "hm_get (ss_validators s) a = Some u \<Longrightarrow> sv_total_rewards v = sv_total_rewards u \<Longrightarrow>
    rewards (s\<lparr>ss_validators := hm_insert a v (ss_validators s)\<rparr>) = rewards s"
  "hm_get (ss_validators s) a = None \<Longrightarrow> sv_total_rewards v = 0 \<Longrightarrow>
    rewards (s\<lparr>ss_validators := hm_insert a v (ss_validators s)\<rparr>) = rewards s"
  by (simp_all add: rewards_def sum_insert_present sum_insert_absent)

definition same_ledger :: "StakingService \<Rightarrow> StakingService \<Rightarrow> bool" where
  "same_ledger s s' =
     (ss_checkpoints s' = ss_checkpoints s \<and> ss_last_checkpoint_id s' = ss_last_checkpoint_id s \<and> rewards s' = rewards s
      \<and> (hm_wf (ss_validators s) \<longrightarrow> hm_wf (ss_validators s')))"

lemma same_ledger_inv: "same_ledger s s' \<Longrightarrow> staking_service_inv s \<Longrightarrow> staking_service_inv s'"
  by (simp add: same_ledger_def staking_service_inv_def)

lemma same_ledger_refl: "same_ledger s s"
  by (simp add: same_ledger_def)

lemma same_ledger_update: "same_ledger s s' \<Longrightarrow> same_ledger s (update_active_set s')"
  by (simp add: same_ledger_def)

lemma same_ledger_send: "same_ledger s s' \<Longrightarrow> same_ledger s (service_send ev s')"
  by (simp add: same_ledger_def)

lemma same_ledger_insert:
  "hm_get (ss_validators s) a = Some u \<Longrightarrow> sv_total_rewards v = sv_total_rewards u \<Longrightarrow>
    same_ledger s (s\<lparr>ss_validators := hm_insert a v (ss_validators s)\<rparr>)"
  "hm_get (ss_validators s) a = None \<Longrightarrow> sv_total_rewards v = 0 \<Longrightarrow>
    same_ledger s (s\<lparr>ss_validators := hm_insert a v (ss_validators s)\<rparr>)"
  by (simp_all add: same_ledger_def rewards_insert)

lemma same_ledger_rotate: "same_ledger s (rotate_validators now s)"
proof -
  have "rewards (rotate_validators now s) = rewards s"
    unfolding rewards_def rotate_validators_def by (simp add: sum_map_keyed)
  then show ?thesis by (simp add: same_ledger_def) (simp add: rotate_validators_def hm_wf_map_keyed)
qed

lemmas same_ledger_intros = same_ledger_refl same_ledger_update same_ledger_send

lemma same_ledger_slash: "same_ledger s (slash_validator s a reason)"
proof (cases "hm_get (ss_validators s) a")
  case (Some v)
  have "same_ledger s (s\<lparr>ss_validators := hm_insert a ((fst (sv_slash v SLASH_PERCENT))\<lparr>sv_invalid_proofs :=
      sv_invalid_proofs (fst (sv_slash v SLASH_PERCENT)) + 1\<rparr>) (ss_validators s)\<rparr>)"
    by (rule same_ledger_insert(1) [OF Some]) (simp add: sv_slash_def Let_def)
  then show ?thesis
    using Some by (simp add: slash_validator_def case_prod_unfold Let_def same_ledger_intros)
qed (simp add: slash_validator_def Let_def same_ledger_intros)

lemma same_ledger_put:
  "sv_total_rewards v = (case hm_get (ss_validators s) a of None \<Rightarrow> 0 | Some u \<Rightarrow> sv_total_rewards u) \<Longrightarrow>
    same_ledger s (s\<lparr>ss_validators := hm_insert a v (ss_validators s)\<rparr>)"
  by (cases "hm_get (ss_validators s) a") (simp_all add: same_ledger_insert)

lemma same_ledger_steps:
  "service_register now s a n = Some (Ok s') \<Longrightarrow> same_ledger s s'"
  "deposit_stake s a n = Ok (s', k) \<Longrightarrow> same_ledger s s'"
  "service_start_unbonding now s a n = Ok s' \<Longrightarrow> same_ledger s s'"
  "service_complete_unbonding now s a = Ok (s', k) \<Longrightarrow> same_ledger s s'"
  by (auto simp: service_register_def deposit_stake_def service_start_unbonding_def service_complete_unbonding_def
      hm_contains_def and_then_Ok_iff sv_start_unbonding_def sv_complete_unbonding_def ServiceValidator_new_def Let_def
      split: if_splits option.splits intro!: same_ledger_intros same_ledger_put)

text \<open>An attestation touches one checkpoint and only adds to it.\<close>

definition sk_content :: "ServiceCheckpoint \<Rightarrow> ServiceCheckpoint" where
  "sk_content c = c\<lparr>sk_finalized := False, sk_attestations := []\<rparr>"

definition attested_more :: "ServiceCheckpoint \<Rightarrow> ServiceCheckpoint \<Rightarrow> bool" where
  "attested_more c c' =
     (sk_content c' = sk_content c \<and> (\<exists>later. sk_attestations c' = sk_attestations c @ later)
      \<and> (sk_finalized c \<longrightarrow> sk_finalized c') \<and> (attested_once c \<longrightarrow> attested_once c'))"

lemma sk_content_id: "sk_content c' = sk_content c \<Longrightarrow> sk_id c' = sk_id c"
  by (drule arg_cong [of _ _ sk_id]) (simp add: sk_content_def)

lemma attested_more_refl [simp]: "attested_more c c"
  by (simp add: attested_more_def)

lemma attested_more_trans: "attested_more c c' \<Longrightarrow> attested_more c' c'' \<Longrightarrow> attested_more c c''"
  by (auto simp: attested_more_def)

lemma add_attestation_more:
  assumes "add_attestation e now validator n c = Ok c'"
  shows "attested_more c c' \<and> (sk_finalized c' \<and> \<not> sk_finalized c \<longrightarrow> 2 * n < 3 * length (sk_attestations c'))"
  using assms
  by (auto simp: add_attestation_def attested_more_def attested_once_def Attestation_new_def sk_has_quorum_def sk_content_def
      Let_def list_ex_iff split: if_splits)

lemma update_checkpoint_all2:
  assumes "update_checkpoint i f cs = Ok cs'" and "\<And>c. P c c" and "\<And>c c'. f c = Ok c' \<Longrightarrow> P c c'"
  shows "list_all2 P cs cs'"
  using assms(1)
proof (induction cs arbitrary: cs')
  case (Cons c cs)
  then show ?case using assms(2,3) by (auto simp: and_then_Ok_iff list.rel_refl split: if_splits)
qed simp

lemma attest_all2:
  assumes "attest_checkpoint e now s a i = Ok s'"
  shows "list_all2 (\<lambda>c c'. attested_more c c' \<and> (sk_finalized c' \<and> \<not> sk_finalized c \<longrightarrow>
      2 * length (ss_active_set s) < 3 * length (sk_attestations c'))) (ss_checkpoints s) (ss_checkpoints s')"
proof -
  have "update_checkpoint i (add_attestation e now a (length (ss_active_set s))) (ss_checkpoints s) = Ok (ss_checkpoints s')"
    using assms by (auto simp: attest_checkpoint_def and_then_Ok_iff)
  then show ?thesis
    by (rule update_checkpoint_all2) (auto dest: add_attestation_more)
qed

lemma attest_rest:
  "attest_checkpoint e now s a i = Ok s' \<Longrightarrow> ss_validators s' = ss_validators s \<and> ss_last_checkpoint_id s' = ss_last_checkpoint_id s
    \<and> ss_active_set s' = ss_active_set s"
  by (auto simp: attest_checkpoint_def and_then_Ok_iff)

lemma all2_sk_id: "list_all2 (\<lambda>c c'. attested_more c c' \<and> Q c c') cs cs' \<Longrightarrow> map sk_id cs' = map sk_id cs"
  by (induction rule: list_all2_induct) (auto simp: attested_more_def intro: sk_content_id)

lemma all2_once: "list_all2 (\<lambda>c c'. attested_more c c' \<and> Q c c') cs cs' \<Longrightarrow> list_all attested_once cs \<Longrightarrow> list_all attested_once cs'"
  by (induction rule: list_all2_induct) (auto simp: attested_more_def)

lemma attest_inv:
  assumes "attest_checkpoint e now s a i = Ok s'" and "staking_service_inv s"
  shows "staking_service_inv s'"
  using all2_sk_id [OF attest_all2 [OF assms(1)]] all2_once [OF attest_all2 [OF assms(1)]] attest_rest [OF assms(1)]
    list_all2_lengthD [OF attest_all2 [OF assms(1)]] assms(2)
  by (simp add: staking_service_inv_def rewards_def)

text \<open>A submission fails and leaves the ledger, or adds a checkpoint and its reward.\<close>

lemma submit_cases:
  assumes "submit_checkpoint e now elapsed s a h h' r u p = (s', out)"
  obtains (failed) x where "out = Err x" "same_ledger s s'"
  | (created) c v where "out = Ok (sk_id c)" "sk_id c = ss_last_checkpoint_id s + 1" "sk_attestations c = []" "\<not> sk_finalized c"
      "ss_checkpoints s' = ss_checkpoints s @ [c]" "ss_last_checkpoint_id s' = sk_id c" "hm_get (ss_validators s) a = Some v"
      "ss_validators s' = hm_insert a (reward_validator now v) (ss_validators s)" "ss_active_set s' = ss_active_set s"
proof (cases "active_validator s a")
  case (Inl x)
  then show ?thesis using assms failed same_ledger_refl by (auto simp: submit_checkpoint_def)
next
  case act: (Inr x)
  then obtain v where v: "hm_get (ss_validators s) a = Some v" by (auto simp: active_validator_def split: option.splits)
  show ?thesis
  proof (cases "zk_verify e now elapsed (ss_verifier s) p a")
    case (Inl y)
    then show ?thesis using assms act failed same_ledger_refl by (auto simp: submit_checkpoint_def)
  next
    case (Inr y)
    obtain w ver where y: "y = (w, ver)" by (cases y)
    show ?thesis
    proof (cases "vr_valid ver")
      case False
      have "same_ledger s (s\<lparr>ss_verifier := w\<rparr>)" by (simp add: same_ledger_def rewards_def)
      moreover have "same_ledger (s\<lparr>ss_verifier := w\<rparr>) (slash_validator (s\<lparr>ss_verifier := w\<rparr>) a ''Invalid ZK proof'')"
        by (rule same_ledger_slash)
      ultimately have "same_ledger s (slash_validator (s\<lparr>ss_verifier := w\<rparr>) a ''Invalid ZK proof'')" by (simp add: same_ledger_def)
      then show ?thesis using assms act Inr y False failed by (auto simp: submit_checkpoint_def Let_def)
    next
      case True
      then show ?thesis
        using assms act Inr y v by (intro created) (auto simp: submit_checkpoint_def Let_def ServiceCheckpoint_new_def hm_modify_def)
    qed
  qed
qed

lemma submit_inv:
  assumes "submit_checkpoint e now elapsed s a h h' r u p = (s', out)" and "staking_service_inv s"
  shows "staking_service_inv s'"
  using assms(1)
proof (cases rule: submit_cases)
  case (failed x)
  then show ?thesis using same_ledger_inv assms(2) by blast
next
  case (created c v)
  have "rewards s' = rewards s + CHECKPOINT_REWARD"
    by (simp add: rewards_def created(8) sum_insert_present [OF created(7)] reward_validator_def add_reward_def)
  then show ?thesis
    using created assms(2) by (simp add: staking_service_inv_def attested_once_def algebra_simps)
qed

lemma service_step_cases:
  fixes e s x
  defines "s' \<equiv> service_step e s x"
  obtains (same) "same_ledger s s'"
  | (submit) now elapsed a h h' r u p out where "x = SvSubmit now elapsed a h h' r u p" "submit_checkpoint e now elapsed s a h h' r u p = (s', out)"
  | (attest) now a i where "x = SvAttest now a i" "attest_checkpoint e now s a i = Ok s'"
proof (cases x)
  case (SvRegister now a n)
  then show ?thesis using same same_ledger_steps(1) [of now s a n] same_ledger_refl
    by (auto simp: s'_def split: option.splits sum.splits simp: ok_or_def)
next
  case (SvDeposit a n)
  then show ?thesis using same same_ledger_steps(2) [of s a n] same_ledger_refl by (auto simp: s'_def split: sum.splits)
next
  case (SvUnbond now a n)
  then show ?thesis using same same_ledger_steps(3) [of now s a n] same_ledger_refl by (auto simp: s'_def ok_or_def split: sum.splits)
next
  case (SvComplete now a)
  then show ?thesis using same same_ledger_steps(4) [of now s a] same_ledger_refl by (auto simp: s'_def split: sum.splits)
next
  case (SvSubmit now elapsed a h h' r u p)
  then show ?thesis using submit by (cases "submit_checkpoint e now elapsed s a h h' r u p") (auto simp: s'_def)
next
  case (SvAttest now a i)
  then show ?thesis using attest same same_ledger_refl
    by (cases "attest_checkpoint e now s a i") (auto simp: s'_def)
next
  case (SvRotate now)
  then show ?thesis using same same_ledger_rotate by (simp add: s'_def)
qed

interpretation staking_service: machine "StakingService_new config" "service_step e" staking_service_inv
proof unfold_locales
  show "staking_service_inv (StakingService_new config)" by (simp add: staking_service_inv_def StakingService_new_def rewards_def hm_values_def)
  show "staking_service_inv (service_step e s x)" if inv: "staking_service_inv s" for s x
    by (cases rule: service_step_cases [of s e x]) (use inv same_ledger_inv submit_inv attest_inv in blast)+
qed

subsection \<open>Properties\<close>

text \<open>
  The statistics of the service agree with its checkpoints: in every reachable state the rewards it reports
  are ten coins per checkpoint, modulo \<open>2^64\<close>, and the n-th checkpoint has the number n.
\<close>

theorem service_rewards_accounted:
  assumes "reachable (service_step e) (StakingService_new config) s"
  shows "st_total_rewards (service_stats s) = st_total_checkpoints (service_stats s) * CHECKPOINT_REWARD
    \<and> map sk_id (ss_checkpoints s) = map (\<lambda>i. of_nat (Suc i)) [0..<length (ss_checkpoints s)]"
  using staking_service.inv_reachable [OF assms] by (simp add: service_stats_def staking_service_inv_def rewards_def)

lemma step_attested_more:
  fixes e s x i
  assumes "i < length (ss_checkpoints s)"
  defines "c \<equiv> ss_checkpoints s ! i" and "c' \<equiv> ss_checkpoints (service_step e s x) ! i"
  shows "i < length (ss_checkpoints (service_step e s x)) \<and> attested_more c c'
    \<and> (sk_finalized c' \<and> \<not> sk_finalized c \<longrightarrow> 2 * length (ss_active_set s) < 3 * length (sk_attestations c'))"
proof (cases rule: service_step_cases [of s e x])
  case same
  then show ?thesis using assms(1) by (simp add: same_ledger_def c_def c'_def)
next
  case (submit now elapsed a h h' r u p out)
  from submit(2) show ?thesis
    by (cases rule: submit_cases) (use assms(1) in \<open>simp_all add: same_ledger_def c_def c'_def nth_append\<close>)
next
  case (attest now a j)
  note all2 = attest_all2 [OF attest(2)]
  show ?thesis
    using list_all2_nthD [OF all2 assms(1)] list_all2_lengthD [OF all2] assms(1) by (simp add: c_def c'_def)
qed

lemma run_attested_more:
  assumes "i < length (ss_checkpoints s)"
  shows "i < length (ss_checkpoints (run (service_step e) s xs))
    \<and> attested_more (ss_checkpoints s ! i) (ss_checkpoints (run (service_step e) s xs) ! i)"
proof (induction xs rule: rev_induct)
  case (snoc x xs)
  then show ?case
    using step_attested_more [of i "run (service_step e) s xs" e x] attested_more_trans by auto
qed (simp add: assms)

lemma run_becomes_final:
  assumes "i < length (ss_checkpoints s)" and "\<not> sk_finalized (ss_checkpoints s ! i)"
    and "sk_finalized (ss_checkpoints (run (service_step e) s xs) ! i)"
  shows "\<exists>ys x zs. xs = ys @ x # zs \<and> 2 * length (ss_active_set (run (service_step e) s ys))
      < 3 * length (sk_attestations (ss_checkpoints (run (service_step e) s (ys @ [x])) ! i))"
  using assms(3)
proof (induction xs rule: rev_induct)
  case Nil
  then show ?case using assms(2) by simp
next
  case (snoc x xs)
  show ?case
  proof (cases "sk_finalized (ss_checkpoints (run (service_step e) s xs) ! i)")
    case True
    then obtain ys y zs where "xs = ys @ y # zs" "2 * length (ss_active_set (run (service_step e) s ys))
        < 3 * length (sk_attestations (ss_checkpoints (run (service_step e) s (ys @ [y])) ! i))"
      using snoc.IH by blast
    then show ?thesis by (metis append_Cons append_assoc)
  next
    case False
    then have "2 * length (ss_active_set (run (service_step e) s xs))
        < 3 * length (sk_attestations (ss_checkpoints (run (service_step e) s (xs @ [x])) ! i))"
      using step_attested_more [of i "run (service_step e) s xs" e x] run_attested_more [OF assms(1), of e xs] snoc.prems by auto
    then show ?thesis by blast
  qed
qed

text \<open>
  C35. A checkpoint becomes final by two thirds. In every reachable state no validator has attested a
  checkpoint twice. Over any later operations a checkpoint keeps its place, all its content and its
  attestations, to which others may be added, and stays final once it is; when it becomes final, it does so
  in a step after which its attestations are more than two thirds of the active set before the step.
\<close>

theorem service_finality:
  fixes e config s xs i
  assumes "reachable (service_step e) (StakingService_new config) s" and "i < length (ss_checkpoints s)"
  defines "c \<equiv> ss_checkpoints s ! i" and "c' \<equiv> ss_checkpoints (run (service_step e) s xs) ! i"
  shows "i < length (ss_checkpoints (run (service_step e) s xs)) \<and> distinct (map at_validator (sk_attestations c))
    \<and> sk_content c' = sk_content c \<and> (\<exists>later. sk_attestations c' = sk_attestations c @ later)
    \<and> (sk_finalized c \<longrightarrow> sk_finalized c')
    \<and> (sk_finalized c' \<and> \<not> sk_finalized c \<longrightarrow> (\<exists>ys x zs. xs = ys @ x # zs
         \<and> 2 * length (ss_active_set (run (service_step e) s ys))
           < 3 * length (sk_attestations (ss_checkpoints (run (service_step e) s (ys @ [x])) ! i))))"
proof -
  have "attested_once c"
    using staking_service.inv_reachable [OF assms(1)] assms(2) by (simp add: staking_service_inv_def c_def list_all_length)
  moreover have "i < length (ss_checkpoints (run (service_step e) s xs)) \<and> attested_more c c'"
    unfolding c_def c'_def using assms(2) by (rule run_attested_more)
  ultimately show ?thesis
    using run_becomes_final [OF assms(2), of e xs] by (simp add: attested_more_def attested_once_def c_def c'_def)
qed

definition example_proof :: Proof where
  "example_proof =
     \<lparr>pf_proof_type = Plonk, pf_data = replicate 200 0, pf_public_inputs = [], pf_batch_hash = h256_zero, pf_pre_state_root = h256_zero,
      pf_post_state_root = h256_zero, pf_prover = address_zero, pf_generated_at = 0, pf_generation_time_ms = 0, pf_proof_hash = h256_zero\<rparr>"

definition service_ops :: "service_op list" where
  "service_ops = [SvRegister 0 address_zero SERVICE_MIN_STAKE, SvSubmit 1 0 address_zero 100 10 h256_zero h256_zero example_proof]"

definition running_service :: StakingService where
  "running_service = run (service_step sample_ext) (StakingService_new ServiceConfig_default) service_ops"

lemma running_service_reachable: "reachable (service_step sample_ext) (StakingService_new ServiceConfig_default) running_service"
  unfolding running_service_def by (rule reachable_run)

lemma verify_example: "\<exists>w. zk_verify e now elapsed (ZkVerifier_new VerifierConfig_default) example_proof a = Ok w \<and> vr_valid (snd w)
    \<and> zv_config (fst w) = VerifierConfig_default"
  by (simp add: zk_verify_def example_proof_def ZkVerifier_new_def VerifierConfig_default_def verify_size_def expected_size_def
      verify_by_type_eq shape_ok_def Let_def)

lemma running_service_state:
  "\<exists>c v. ss_checkpoints running_service = [c] \<and> sk_id c = 1 \<and> sk_attestations c = [] \<and> \<not> sk_finalized c
    \<and> ss_active_set running_service = [address_zero] \<and> hm_get (ss_validators running_service) address_zero = Some v \<and> sv_is_active v
    \<and> zv_config (ss_verifier running_service) = VerifierConfig_default"
proof -
  define s1 where "s1 = service_step sample_ext (StakingService_new ServiceConfig_default) (SvRegister 0 address_zero SERVICE_MIN_STAKE)"
  let ?v1 = "(ServiceValidator_new 0 address_zero SERVICE_MIN_STAKE)\<lparr>sv_is_active := True\<rparr>"
  have s1: "ss_validators s1 = [(address_zero, ?v1)]" "ss_active_set s1 = [address_zero]" "ss_checkpoints s1 = []"
    "ss_last_checkpoint_id s1 = 0" "ss_verifier s1 = ZkVerifier_new VerifierConfig_default"
    by (simp_all add: s1_def service_register_def StakingService_new_def ServiceConfig_default_def MAX_VALIDATORS_def update_active_set_def
        eligible_def hm_insert_def ServiceValidator_new_def effective_stake_def Let_def)
  have get1: "hm_get [(address_zero, ?v1)] address_zero = Some ?v1" by (simp add: hm_get_def)
  have act: "active_validator s1 address_zero = Ok ()" by (simp add: active_validator_def s1 get1)
  obtain w ver where ver: "zk_verify sample_ext 1 0 (ZkVerifier_new VerifierConfig_default) example_proof address_zero = Ok (w, ver)" "vr_valid ver"
    "zv_config w = VerifierConfig_default"
    using verify_example by fastforce
  let ?sub = "submit_checkpoint sample_ext 1 0 s1 address_zero 100 10 h256_zero h256_zero example_proof"
  have run: "running_service = fst ?sub" by (simp add: running_service_def service_ops_def s1_def)
  show ?thesis
    using act ver unfolding run submit_checkpoint_def
    by (simp add: s1 get1 Let_def ServiceCheckpoint_new_def reward_validator_def add_reward_def)
qed

theorem service_rewards_accounted_witness:
  "st_total_rewards (service_stats running_service) = CHECKPOINT_REWARD \<and> ss_checkpoints running_service \<noteq> []"
  using service_rewards_accounted [OF running_service_reachable] running_service_state by (auto simp: service_stats_def)

theorem service_finality_witness:
  "sk_finalized (ss_checkpoints (run (service_step sample_ext) running_service [SvAttest 2 address_zero 1, SvRotate 3]) ! 0)
    \<and> sk_content (ss_checkpoints (run (service_step sample_ext) running_service [SvAttest 2 address_zero 1, SvRotate 3]) ! 0)
      = sk_content (ss_checkpoints running_service ! 0)"
proof -
  let ?s1 = "run (service_step sample_ext) running_service [SvAttest 2 address_zero 1]"
  obtain c v where c: "ss_checkpoints running_service = [c]" "sk_id c = 1" "sk_attestations c = []" "\<not> sk_finalized c"
    "ss_active_set running_service = [address_zero]" "hm_get (ss_validators running_service) address_zero = Some v" "sv_is_active v"
    using running_service_state by blast
  then have final: "sk_finalized (ss_checkpoints ?s1 ! 0)"
    by (simp add: attest_checkpoint_def active_validator_def add_attestation_def sk_has_quorum_def Let_def)
  have reach: "reachable (service_step sample_ext) (StakingService_new ServiceConfig_default) ?s1"
    using running_service_reachable by (simp del: service_step.simps add: reachable.step)
  have one: "0 < length (ss_checkpoints running_service)" using c by simp
  have "0 < length (ss_checkpoints ?s1)"
    using service_finality [OF running_service_reachable one, of "[SvAttest 2 address_zero 1]"] by blast
  then have "sk_finalized (ss_checkpoints (run (service_step sample_ext) ?s1 [SvRotate 3]) ! 0)"
    using service_finality [OF reach, of 0 "[SvRotate 3]"] final by blast
  moreover have "sk_content (ss_checkpoints (run (service_step sample_ext) running_service [SvAttest 2 address_zero 1, SvRotate 3]) ! 0)
      = sk_content (ss_checkpoints running_service ! 0)"
    using service_finality [OF running_service_reachable one] by blast
  ultimately show ?thesis by simp
qed

text \<open>
  A proof can be spent again and again: a validator that is active can submit one proof with the right
  shape any number of times, for any heights and roots, and is paid for each.
\<close>

definition accepts :: "StakingService \<Rightarrow> Proof \<Rightarrow> bool" where
  "accepts s p = (pf_proof_type p \<in> set (vc_supported_types (zv_config (ss_verifier s))) \<and> verify_size p \<and> shape_ok p)"

lemma submit_accepted:
  fixes e now elapsed s a h h' r u p
  defines "s' \<equiv> service_step e s (SvSubmit now elapsed a h h' r u p)"
  assumes "accepts s p" and "hm_get (ss_validators s) a = Some v" and "sv_is_active v"
  shows "accepts s' p" "hm_get (ss_validators s') a = Some (reward_validator now v)" "sv_is_active (reward_validator now v)"
    "length (ss_checkpoints s') = Suc (length (ss_checkpoints s))"
proof -
  obtain w ver where "zk_verify e now elapsed (ss_verifier s) p a = Ok (w, ver)" "vr_valid ver" "zv_config w = zv_config (ss_verifier s)"
    using assms(2) by (auto simp: zk_verify_def verify_by_type_eq accepts_def Let_def)
  then show "accepts s' p" "hm_get (ss_validators s') a = Some (reward_validator now v)" "sv_is_active (reward_validator now v)"
    "length (ss_checkpoints s') = Suc (length (ss_checkpoints s))"
    using assms(2-)
    by (simp_all add: s'_def submit_checkpoint_def active_validator_def accepts_def reward_validator_def add_reward_def Let_def)
qed

theorem proof_replay_pays:
  assumes "accepts s p" and "hm_get (ss_validators s) a = Some v" and "sv_is_active v"
    and "\<And>x. x \<in> set xs \<Longrightarrow> \<exists>now elapsed h h' r u. x = SvSubmit now elapsed a h h' r u p"
  shows "\<exists>v'. hm_get (ss_validators (run (service_step e) s xs)) a = Some v'
    \<and> sv_total_rewards v' = sv_total_rewards v + of_nat (length xs) * CHECKPOINT_REWARD
    \<and> length (ss_checkpoints (run (service_step e) s xs)) = length (ss_checkpoints s) + length xs"
  using assms
proof (induction xs arbitrary: s v)
  case (Cons x xs)
  then obtain now elapsed h h' r u where x: "x = SvSubmit now elapsed a h h' r u p" by (metis list.set_intros(1))
  note sub = submit_accepted(1,2,4) [where e = e and now = now and elapsed = elapsed and h = h and h' = h' and r = r and u = u, OF Cons.prems(1-3), folded x]
  have "sv_total_rewards (reward_validator now v) = sv_total_rewards v + CHECKPOINT_REWARD"
    by (simp add: reward_validator_def add_reward_def)
  then show ?case
    using Cons.IH [OF sub(1,2) submit_accepted(3) [OF Cons.prems(1-3)]] Cons.prems(4) sub(3) by (simp add: algebra_simps)
qed simp

definition replays :: "service_op list" where
  "replays = [SvSubmit 2 0 address_zero 100 10 h256_zero h256_zero example_proof, SvSubmit 2 0 address_zero 7 7 h256_zero h256_zero example_proof]"

theorem proof_replay_pays_witness:
  "length (ss_checkpoints (run (service_step sample_ext) running_service replays)) = 3"
proof -
  obtain c v where c: "ss_checkpoints running_service = [c]" "hm_get (ss_validators running_service) address_zero = Some v" "sv_is_active v"
    "zv_config (ss_verifier running_service) = VerifierConfig_default"
    using running_service_state by blast
  have "accepts running_service example_proof"
    by (simp add: accepts_def c(4) VerifierConfig_default_def example_proof_def verify_size_def expected_size_def shape_ok_def)
  moreover have "\<exists>now elapsed h h' r u. x = SvSubmit now elapsed address_zero h h' r u example_proof" if "x \<in> set replays" for x
    using that by (auto simp: replays_def)
  ultimately have "length (ss_checkpoints (run (service_step sample_ext) running_service replays)) = 1 + length replays"
    using proof_replay_pays [OF _ c(2,3), of example_proof replays sample_ext] c(1) by auto
  then show ?thesis by (simp add: replays_def)
qed

text \<open>
  With as many validators as the configuration allows, the registration of a new validator with the minimum
  stake never returns: it waits for a lock that it holds itself.
\<close>

lemma full_service_hangs:
  "sc_max_validators (ss_config s) \<le> length (ss_validators s) \<Longrightarrow> sc_min_stake (ss_config s) \<le> n \<Longrightarrow>
    \<not> hm_contains (ss_validators s) a \<Longrightarrow> service_register now s a n = None"
  by (simp add: service_register_def)

text \<open>Stake comes from nowhere: a registration asks for no payment, and a deposit can make the stake wrap.\<close>

lemma deposit_wraps:
  assumes "hm_get (ss_validators s) a = Some v"
  shows "\<exists>s'. deposit_stake s a (- sv_stake v) = Ok (s', 0)"
  using assms by (simp add: deposit_stake_def Let_def)

end
