(* ===== verification/AI_Market.thy ===== *)
theory AI_Market
  imports Chain_Types Hash_Map
begin

section \<open>The marketplace of the compute network\<close>

text \<open>
  \<open>pyrax-node/src/ai/compute/marketplace.rs\<close>: listings, bids, orders and the marketplace over them. The clock and
  \<open>str::to_lowercase\<close> are arguments. The closure of \<open>update_listing\<close> is a
  function on listings; the runs considered use the methods of \<open>Listing\<close>. A rating whose counter has
  wrapped to zero panics.
\<close>

definition PLATFORM_FEE_PERCENT :: u8 where
  "PLATFORM_FEE_PERCENT = 2"

datatype ListingType = LtModel | LtCompute | LtDataset | LtFineTuning | LtCustom

datatype PricingModel = PmFixed | PmPerRequest | PmPerHour | PmPerToken | PmSubscription | PmAuction

datatype ListingStatus = LsDraft | LsActive | LsPaused | LsSoldOut | LsExpired | LsRemoved

record Listing =
  ls_id :: h256
  ls_seller :: address
  ls_listing_type :: ListingType
  ls_title :: string
  ls_description :: string
  ls_reference_id :: h256
  ls_pricing :: PricingModel
  ls_price :: u64
  ls_min_quantity :: u64
  ls_max_quantity :: u64
  ls_available :: "u64 option"
  ls_status :: ListingStatus
  ls_tags :: "string list"
  ls_preview_hash :: "h256 option"
  ls_terms :: "string option"
  ls_created_at :: u64
  ls_updated_at :: u64
  ls_expires_at :: u64
  ls_sales_count :: u64
  ls_total_revenue :: u64
  ls_rating :: u32
  ls_rating_count :: u32
  ls_featured :: bool

definition listing_generate_id :: "ext \<Rightarrow> u64 \<Rightarrow> address \<Rightarrow> string \<Rightarrow> h256" where
  "listing_generate_id e now seller title =
     h256_from_slice (ext_blake3 e (address_bytes seller @ ascii_bytes title @ u64_to_le_bytes now))"

definition Listing_new ::
  "ext \<Rightarrow> u64 \<Rightarrow> address \<Rightarrow> ListingType \<Rightarrow> string \<Rightarrow> string \<Rightarrow> h256 \<Rightarrow> PricingModel \<Rightarrow> u64 \<Rightarrow> Listing" where
  "Listing_new e now seller listing_type title description reference_id pricing price =
     \<lparr>ls_id = listing_generate_id e now seller title, ls_seller = seller, ls_listing_type = listing_type, ls_title = title,
      ls_description = description, ls_reference_id = reference_id, ls_pricing = pricing, ls_price = price,
      ls_min_quantity = 1, ls_max_quantity = 0, ls_available = None, ls_status = LsDraft, ls_tags = [], ls_preview_hash = None,
      ls_terms = None, ls_created_at = now, ls_updated_at = now, ls_expires_at = 0, ls_sales_count = 0, ls_total_revenue = 0,
      ls_rating = 0, ls_rating_count = 0, ls_featured = False\<rparr>"

definition listing_activate :: "u64 \<Rightarrow> Listing \<Rightarrow> Listing" where
  "listing_activate now l = l\<lparr>ls_status := LsActive, ls_updated_at := now\<rparr>"

definition listing_pause :: "u64 \<Rightarrow> Listing \<Rightarrow> Listing" where
  "listing_pause now l = (if ls_status l = LsActive then l\<lparr>ls_status := LsPaused, ls_updated_at := now\<rparr> else l)"

definition listing_resume :: "u64 \<Rightarrow> Listing \<Rightarrow> Listing" where
  "listing_resume now l = (if ls_status l = LsPaused then l\<lparr>ls_status := LsActive, ls_updated_at := now\<rparr> else l)"

definition listing_is_expired :: "u64 \<Rightarrow> Listing \<Rightarrow> bool" where
  "listing_is_expired now l = (0 < ls_expires_at l \<and> ls_expires_at l < now)"

definition record_sale :: "u64 \<Rightarrow> Listing \<Rightarrow> u64 \<Rightarrow> u64 \<Rightarrow> Listing" where
  "record_sale now l quantity revenue =
     (let l = l\<lparr>ls_sales_count := ls_sales_count l + quantity, ls_total_revenue := ls_total_revenue l + revenue, ls_updated_at := now\<rparr>
      in case ls_available l of
           None \<Rightarrow> l
         | Some avail \<Rightarrow>
             let avail = saturating_sub avail quantity; l = l\<lparr>ls_available := Some avail\<rparr>
             in if avail = 0 then l\<lparr>ls_status := LsSoldOut\<rparr> else l)"

definition listing_add_rating :: "u64 \<Rightarrow> Listing \<Rightarrow> u32 \<Rightarrow> Listing option" where
  "listing_add_rating now l rating =
     (let sum = ucast (ls_rating l) * ucast (ls_rating_count l) + ucast rating; count = ls_rating_count l + 1
      in map_option (\<lambda>q. l\<lparr>ls_rating_count := count, ls_rating := ucast q, ls_updated_at := now\<rparr>) (div_u64 sum (ucast count)))"

definition update_price :: "u64 \<Rightarrow> Listing \<Rightarrow> u64 \<Rightarrow> Listing" where
  "update_price now l price = l\<lparr>ls_price := price, ls_updated_at := now\<rparr>"

definition listing_calculate_price :: "Listing \<Rightarrow> u64 \<Rightarrow> u64" where
  "listing_calculate_price l quantity = ls_price l * quantity"

record Bid =
  bd_id :: h256
  bd_listing_id :: h256
  bd_bidder :: address
  bd_amount :: u64
  bd_created_at :: u64
  bd_is_winning :: bool
  bd_cancelled :: bool

definition Bid_new :: "ext \<Rightarrow> u64 \<Rightarrow> h256 \<Rightarrow> address \<Rightarrow> u64 \<Rightarrow> Bid" where
  "Bid_new e now listing_id bidder amount =
     \<lparr>bd_id = h256_from_slice (ext_blake3 e
        (h256_bytes listing_id @ address_bytes bidder @ u64_to_le_bytes amount @ u64_to_le_bytes now)),
      bd_listing_id = listing_id, bd_bidder = bidder, bd_amount = amount, bd_created_at = now, bd_is_winning = False,
      bd_cancelled = False\<rparr>"

datatype OrderStatus = OsPending | OsPaid | OsProcessing | OsCompleted | OsCancelled | OsRefunded | OsDisputed

record Order =
  od_id :: h256
  od_listing_id :: h256
  od_buyer :: address
  od_seller :: address
  od_quantity :: u64
  od_subtotal :: u64
  od_platform_fee :: u64
  od_total :: u64
  od_status :: OrderStatus
  od_created_at :: u64
  od_paid_at :: "u64 option"
  od_completed_at :: "u64 option"
  od_delivery_hash :: "h256 option"
  od_rating :: "u32 option"
  od_review :: "string option"

definition Order_new :: "ext \<Rightarrow> u64 \<Rightarrow> Listing \<Rightarrow> address \<Rightarrow> u64 \<Rightarrow> Order" where
  "Order_new e now listing buyer quantity =
     (let subtotal = listing_calculate_price listing quantity;
          platform_fee = mul_div subtotal (ucast PLATFORM_FEE_PERCENT) 100;
          total' = subtotal + platform_fee
      in \<lparr>od_id = h256_from_slice (ext_blake3 e (h256_bytes (ls_id listing) @ address_bytes buyer @ u64_to_le_bytes now)),
          od_listing_id = ls_id listing, od_buyer = buyer, od_seller = ls_seller listing, od_quantity = quantity,
          od_subtotal = subtotal, od_platform_fee = platform_fee, od_total = total', od_status = OsPending,
          od_created_at = now, od_paid_at = None, od_completed_at = None, od_delivery_hash = None, od_rating = None,
          od_review = None\<rparr>)"

definition mark_paid :: "u64 \<Rightarrow> Order \<Rightarrow> Order" where
  "mark_paid now d = d\<lparr>od_status := OsPaid, od_paid_at := Some now\<rparr>"

definition order_start_processing :: "Order \<Rightarrow> Order" where
  "order_start_processing d = (if od_status d = OsPaid then d\<lparr>od_status := OsProcessing\<rparr> else d)"

definition order_complete :: "u64 \<Rightarrow> Order \<Rightarrow> h256 option \<Rightarrow> Order" where
  "order_complete now d delivery_hash = d\<lparr>od_status := OsCompleted, od_completed_at := Some now, od_delivery_hash := delivery_hash\<rparr>"

definition order_cancel :: "Order \<Rightarrow> Order" where
  "order_cancel d = (if od_status d = OsPending \<or> od_status d = OsPaid then d\<lparr>od_status := OsCancelled\<rparr> else d)"

definition order_refund :: "Order \<Rightarrow> Order" where
  "order_refund d = d\<lparr>od_status := OsRefunded\<rparr>"

definition order_add_rating :: "Order \<Rightarrow> u32 \<Rightarrow> string option \<Rightarrow> Order" where
  "order_add_rating d rating review = d\<lparr>od_rating := Some rating, od_review := review\<rparr>"

subsection \<open>The marketplace\<close>

record AIMarketplace =
  mk_listings :: "(h256, Listing) hashmap"
  mk_by_seller :: "(address, h256 list) hashmap"
  mk_by_type :: "(ListingType, h256 list) hashmap"
  mk_featured :: "h256 list"
  mk_bids :: "(h256, Bid list) hashmap"
  mk_orders :: "(h256, Order) hashmap"
  mk_orders_by_buyer :: "(address, h256 list) hashmap"
  mk_orders_by_seller :: "(address, h256 list) hashmap"
  mk_total_volume :: u64
  mk_total_fees :: u64

definition AIMarketplace_new :: AIMarketplace where
  "AIMarketplace_new =
     \<lparr>mk_listings = [], mk_by_seller = [], mk_by_type = [], mk_featured = [], mk_bids = [], mk_orders = [],
      mk_orders_by_buyer = [], mk_orders_by_seller = [], mk_total_volume = 0, mk_total_fees = 0\<rparr>"

datatype MarketplaceError =
    ListingNotFound h256
  | ListingExists h256
  | ListingNotActive
  | OrderNotFound h256
  | InvalidOrderStatus
  | QuantityTooLow
  | QuantityTooHigh
  | InsufficientStock
  | MarketUnauthorized string
  | PaymentFailed string

definition create_listing :: "AIMarketplace \<Rightarrow> Listing \<Rightarrow> MarketplaceError + (AIMarketplace \<times> h256)" where
  "create_listing m listing =
     (let i = ls_id listing in
      if hm_contains (mk_listings m) i then Err (ListingExists i)
      else Ok (m\<lparr>mk_by_seller := hm_push (ls_seller listing) i (mk_by_seller m),
                 mk_by_type := hm_push (ls_listing_type listing) i (mk_by_type m),
                 mk_listings := hm_insert i listing (mk_listings m)\<rparr>, i))"

definition get_listing :: "AIMarketplace \<Rightarrow> h256 \<Rightarrow> Listing option" where
  "get_listing m i = hm_get (mk_listings m) i"

definition update_listing :: "AIMarketplace \<Rightarrow> h256 \<Rightarrow> (Listing \<Rightarrow> Listing) \<Rightarrow> MarketplaceError + AIMarketplace" where
  "update_listing m i f =
     (case hm_get (mk_listings m) i of
        None \<Rightarrow> Err (ListingNotFound i)
      | Some l \<Rightarrow> Ok (m\<lparr>mk_listings := hm_insert i (f l) (mk_listings m)\<rparr>))"

definition activate_listing :: "u64 \<Rightarrow> AIMarketplace \<Rightarrow> h256 \<Rightarrow> address \<Rightarrow> MarketplaceError + AIMarketplace" where
  "activate_listing now m i seller = update_listing m i (\<lambda>l. if ls_seller l = seller then listing_activate now l else l)"

definition market_by_seller :: "AIMarketplace \<Rightarrow> address \<Rightarrow> Listing list" where
  "market_by_seller m seller = hm_lookup_all (mk_listings m) (hm_list (mk_by_seller m) seller)"

definition market_by_type :: "AIMarketplace \<Rightarrow> ListingType \<Rightarrow> Listing list" where
  "market_by_type m ty = filter (\<lambda>l. ls_status l = LsActive) (hm_lookup_all (mk_listings m) (hm_list (mk_by_type m) ty))"

definition market_search :: "(string \<Rightarrow> string) \<Rightarrow> AIMarketplace \<Rightarrow> string \<Rightarrow> ListingType option \<Rightarrow> Listing list" where
  "market_search lower m query ty =
     (let query_lower = lower query in
      filter (\<lambda>l. ls_status l = LsActive \<and> (case ty of None \<Rightarrow> True | Some t \<Rightarrow> ls_listing_type l = t)
          \<and> (str_contains (lower (ls_title l)) query_lower \<or> str_contains (lower (ls_description l)) query_lower
             \<or> list_ex (\<lambda>t. str_contains (lower t) query_lower) (ls_tags l)))
        (hm_values (mk_listings m)))"

definition get_featured :: "AIMarketplace \<Rightarrow> Listing list" where
  "get_featured m = filter (\<lambda>l. ls_status l = LsActive) (hm_lookup_all (mk_listings m) (mk_featured m))"

definition create_order :: "ext \<Rightarrow> u64 \<Rightarrow> AIMarketplace \<Rightarrow> h256 \<Rightarrow> address \<Rightarrow> u64 \<Rightarrow> MarketplaceError + (AIMarketplace \<times> Order)" where
  "create_order e now m listing_id buyer quantity =
     (case hm_get (mk_listings m) listing_id of
        None \<Rightarrow> Err (ListingNotFound listing_id)
      | Some listing \<Rightarrow>
          if ls_status listing \<noteq> LsActive then Err ListingNotActive
          else if quantity < ls_min_quantity listing then Err QuantityTooLow
          else if 0 < ls_max_quantity listing \<and> ls_max_quantity listing < quantity then Err QuantityTooHigh
          else if (case ls_available listing of None \<Rightarrow> False | Some avail \<Rightarrow> avail < quantity) then Err InsufficientStock
          else let order = Order_new e now listing buyer quantity
               in Ok (m\<lparr>mk_orders := hm_insert (od_id order) order (mk_orders m),
                        mk_orders_by_buyer := hm_push buyer (od_id order) (mk_orders_by_buyer m),
                        mk_orders_by_seller := hm_push (ls_seller listing) (od_id order) (mk_orders_by_seller m)\<rparr>, order))"

definition pay_order :: "u64 \<Rightarrow> AIMarketplace \<Rightarrow> h256 \<Rightarrow> MarketplaceError + AIMarketplace" where
  "pay_order now m order_id =
     (case hm_get (mk_orders m) order_id of
        None \<Rightarrow> Err (OrderNotFound order_id)
      | Some d \<Rightarrow>
          if od_status d \<noteq> OsPending then Err InvalidOrderStatus
          else Ok (m\<lparr>mk_orders := hm_insert order_id (mark_paid now d) (mk_orders m)\<rparr>))"

text \<open>The order is completed before its listing is looked up: on an error the state has changed.\<close>

definition complete_order :: "u64 \<Rightarrow> AIMarketplace \<Rightarrow> h256 \<Rightarrow> h256 option \<Rightarrow> AIMarketplace \<times> (MarketplaceError + unit)" where
  "complete_order now m order_id delivery_hash =
     (case hm_get (mk_orders m) order_id of
        None \<Rightarrow> (m, Err (OrderNotFound order_id))
      | Some d \<Rightarrow>
          let m = m\<lparr>mk_orders := hm_insert order_id (order_complete now d delivery_hash) (mk_orders m)\<rparr>
          in case update_listing m (od_listing_id d) (\<lambda>l. record_sale now l (od_quantity d) (od_subtotal d)) of
               Err x \<Rightarrow> (m, Err x)
             | Ok m \<Rightarrow> (m\<lparr>mk_total_volume := mk_total_volume m + od_subtotal d, mk_total_fees := mk_total_fees m + od_platform_fee d\<rparr>, Ok ()))"

definition get_order :: "AIMarketplace \<Rightarrow> h256 \<Rightarrow> Order option" where
  "get_order m i = hm_get (mk_orders m) i"

definition get_orders_by_buyer :: "AIMarketplace \<Rightarrow> address \<Rightarrow> Order list" where
  "get_orders_by_buyer m buyer = hm_lookup_all (mk_orders m) (hm_list (mk_orders_by_buyer m) buyer)"

record MarketplaceStats =
  ms_total_listings :: u64
  ms_active_listings :: u64
  ms_total_orders :: u64
  ms_total_volume :: u64
  ms_total_fees :: u64
  ms_by_type :: "(ListingType, u64) hashmap"

definition count_type :: "Listing \<Rightarrow> (ListingType, u64) hashmap \<Rightarrow> (ListingType, u64) hashmap" where
  "count_type l m =
     (if ls_status l = LsActive
      then hm_insert (ls_listing_type l) ((case hm_get m (ls_listing_type l) of None \<Rightarrow> 0 | Some n \<Rightarrow> n) + 1) m else m)"

definition market_stats :: "AIMarketplace \<Rightarrow> MarketplaceStats" where
  "market_stats m =
     \<lparr>ms_total_listings = of_nat (length (mk_listings m)),
      ms_active_listings = of_nat (length (filter (\<lambda>l. ls_status l = LsActive) (hm_values (mk_listings m)))),
      ms_total_orders = of_nat (length (mk_orders m)), ms_total_volume = mk_total_volume m, ms_total_fees = mk_total_fees m,
      ms_by_type = fold count_type (hm_values (mk_listings m)) []\<rparr>"

subsection \<open>Runs\<close>

datatype market_op =
    MkList ext u64 address ListingType string string h256 PricingModel u64 u64 u64 "u64 option"
  | MkActivate u64 h256 address
  | MkPause u64 h256
  | MkResume u64 h256
  | MkPrice u64 h256 u64
  | MkOrder ext u64 h256 address u64
  | MkPay u64 h256
  | MkComplete u64 h256 "h256 option"

fun market_step :: "AIMarketplace \<Rightarrow> market_op \<Rightarrow> AIMarketplace" where
  "market_step m (MkList e now seller ty title description ref pricing price lo hi stock) =
     (case create_listing m ((Listing_new e now seller ty title description ref pricing price)
         \<lparr>ls_min_quantity := lo, ls_max_quantity := hi, ls_available := stock\<rparr>) of Err _ \<Rightarrow> m | Ok (m', _) \<Rightarrow> m')"
| "market_step m (MkActivate now i seller) = ok_or m (activate_listing now m i seller)"
| "market_step m (MkPause now i) = ok_or m (update_listing m i (listing_pause now))"
| "market_step m (MkResume now i) = ok_or m (update_listing m i (listing_resume now))"
| "market_step m (MkPrice now i price) = ok_or m (update_listing m i (\<lambda>l. update_price now l price))"
| "market_step m (MkOrder e now i buyer n) = (case create_order e now m i buyer n of Err _ \<Rightarrow> m | Ok (m', _) \<Rightarrow> m')"
| "market_step m (MkPay now i) = ok_or m (pay_order now m i)"
| "market_step m (MkComplete now i d) = fst (complete_order now m i d)"

definition revenue :: "AIMarketplace \<Rightarrow> u64" where
  "revenue m = sum_list (map ls_total_revenue (hm_values (mk_listings m)))"

definition market_inv :: "AIMarketplace \<Rightarrow> bool" where
  "market_inv m = (mk_total_volume m = revenue m)"

lemma record_sale_revenue: "ls_total_revenue (record_sale now l n r) = ls_total_revenue l + r"
  by (simp add: record_sale_def Let_def split: option.split)

lemma update_listing_revenue:
  assumes "update_listing m i f = Ok m'" and "\<And>l. ls_total_revenue (f l) = ls_total_revenue l + r"
  shows "revenue m' = revenue m + r \<and> mk_total_volume m' = mk_total_volume m"
  using assms by (auto simp: update_listing_def revenue_def sum_insert_present split: option.splits)

lemma update_listing_keeps:
  assumes "\<And>l. ls_total_revenue (f l) = ls_total_revenue l" and "market_inv m"
  shows "market_inv (ok_or m (update_listing m i f))"
  using update_listing_revenue [of m i f _ 0] assms by (cases "update_listing m i f") (auto simp: market_inv_def)

lemma market_step_inv:
  assumes "market_inv m"
  shows "market_inv (market_step m x)"
proof (cases x)
  case (MkList e now seller ty title description ref pricing price lo hi stock)
  then show ?thesis using assms
    by (auto simp: create_listing_def market_inv_def revenue_def hm_contains_def sum_insert_absent Listing_new_def Let_def)
next
  case (MkOrder e now i buyer n)
  then show ?thesis using assms
    by (auto simp: create_order_def market_inv_def revenue_def Let_def split: option.split)
next
  case (MkPay now i)
  then show ?thesis using assms by (auto simp: pay_order_def market_inv_def revenue_def split: option.split)
next
  case (MkComplete now i d)
  then show ?thesis using assms update_listing_revenue [where f = "\<lambda>l. record_sale now l _ _"] record_sale_revenue
    by (fastforce simp: complete_order_def market_inv_def revenue_def update_listing_def sum_insert_present Let_def split: option.split)
qed (use assms in \<open>auto simp: activate_listing_def listing_activate_def listing_pause_def listing_resume_def update_price_def
       intro!: update_listing_keeps\<close>)

interpretation market: machine AIMarketplace_new market_step market_inv
  by unfold_locales (simp_all add: market_step_inv, simp add: market_inv_def AIMarketplace_new_def revenue_def hm_values_def)

subsection \<open>Properties\<close>

text \<open>
  The volume of the marketplace is what its listings earned: in every reachable state the total volume is the
  sum of the revenues of the listings, modulo \<open>2^64\<close>.
\<close>

theorem market_volume:
  assumes "reachable market_step AIMarketplace_new m"
  shows "ms_total_volume (market_stats m) = sum_list (map ls_total_revenue (hm_values (mk_listings m)))"
  using market.inv_reachable [OF assms] by (simp add: market_inv_def market_stats_def revenue_def)

definition example_listing_id :: h256 where
  "example_listing_id = listing_generate_id sample_ext 0 address_zero ''gpu''"

definition example_order_id :: h256 where
  "example_order_id = h256_from_slice (ext_blake3 sample_ext (h256_bytes example_listing_id @ address_bytes address_zero @ u64_to_le_bytes 2))"

definition example_market :: AIMarketplace where
  "example_market = run market_step AIMarketplace_new
     [MkList sample_ext 0 address_zero LtCompute ''gpu'' [] h256_zero PmFixed 50 1 0 (Some 4), MkActivate 1 example_listing_id address_zero,
      MkOrder sample_ext 2 example_listing_id address_zero 3, MkComplete 3 example_order_id None]"

lemma example_market_reachable: "reachable market_step AIMarketplace_new example_market"
  unfolding example_market_def by (rule reachable_run)

lemmas market_eval = example_market_def AIMarketplace_new_def create_listing_def Listing_new_def example_listing_id_def [symmetric]
  activate_listing_def update_listing_def listing_activate_def create_order_def Order_new_def listing_calculate_price_def
  example_order_id_def [symmetric] complete_order_def order_complete_def record_sale_def market_stats_def

theorem market_volume_witness:
  "ms_total_volume (market_stats example_market) = 150
    \<and> sum_list (map ls_total_revenue (hm_values (mk_listings example_market))) = 150"
proof -
  have "ms_total_volume (market_stats example_market) = 150" by (simp add: market_eval Let_def)
  then show ?thesis using market_volume [OF example_market_reachable] by simp
qed

text \<open>
  An accepted order is within the limits of an active listing and is recorded as pending; if the price does not
  overflow, its subtotal is price times quantity, the fee two percent of it rounded down, and the total their sum.
\<close>

theorem order_within_limits:
  assumes "create_order e now m i buyer n = Ok (m', d)"
  shows "\<exists>l. get_listing m i = Some l \<and> ls_status l = LsActive \<and> ls_min_quantity l \<le> n
    \<and> (ls_max_quantity l = 0 \<or> n \<le> ls_max_quantity l) \<and> (\<forall>k. ls_available l = Some k \<longrightarrow> n \<le> k)
    \<and> get_order m' (od_id d) = Some d \<and> od_status d = OsPending \<and> od_buyer d = buyer \<and> od_seller d = ls_seller l
    \<and> (unat (ls_price l) * unat n * 102 < 100 * 2 ^ 64 \<longrightarrow>
         unat (od_subtotal d) = unat (ls_price l) * unat n
         \<and> unat (od_total d) = unat (ls_price l) * unat n + unat (ls_price l) * unat n * 2 div 100)"
proof -
  obtain l where l: "hm_get (mk_listings m) i = Some l" "ls_status l = LsActive" "ls_min_quantity l \<le> n"
    "ls_max_quantity l = 0 \<or> n \<le> ls_max_quantity l" "\<forall>k. ls_available l = Some k \<longrightarrow> n \<le> k"
    "d = Order_new e now l buyer n" "mk_orders m' = hm_insert (od_id d) d (mk_orders m)"
    using assms by (auto simp: create_order_def Let_def not_less split: option.splits if_splits)
  have "unat (od_subtotal d) = unat (ls_price l) * unat n
      \<and> unat (od_total d) = unat (ls_price l) * unat n + unat (ls_price l) * unat n * 2 div 100"
    if small: "unat (ls_price l) * unat n * 102 < 100 * 2 ^ 64"
  proof -
    have "unat (ls_price l) * unat n < 2 ^ 64" using small by linarith
    then have sub: "unat (ls_price l * n) = unat (ls_price l) * unat n" by (simp add: unat_mult_lem [symmetric])
    have fee: "unat (mul_div (ls_price l * n) (ucast PLATFORM_FEE_PERCENT) 100) = unat (ls_price l) * unat n * 2 div 100"
      using unat_mul_div_le [of "ucast PLATFORM_FEE_PERCENT" 100 "ls_price l * n"] by (simp add: PLATFORM_FEE_PERCENT_def sub)
    have "unat (ls_price l) * unat n + unat (ls_price l) * unat n * 2 div 100 < 2 ^ 64" using small by linarith
    then show ?thesis
      by (simp add: l(6) Order_new_def listing_calculate_price_def Let_def unat_add_exact sub fee)
  qed
  then show ?thesis using l by (simp add: get_listing_def get_order_def Order_new_def Let_def)
qed

theorem order_within_limits_witness:
  "\<exists>m d. create_order sample_ext 9 example_market example_listing_id address_zero 1 = Ok (m, d)
    \<and> unat (od_subtotal d) = 50 \<and> unat (od_total d) = 51"
proof -
  have l: "\<exists>l. hm_get (mk_listings example_market) example_listing_id = Some l \<and> ls_status l = LsActive \<and> ls_price l = 50
      \<and> ls_min_quantity l = 1 \<and> ls_max_quantity l = 0 \<and> ls_available l = Some 1"
    by (simp add: market_eval Let_def saturating_sub_def)
  then obtain m d where d: "create_order sample_ext 9 example_market example_listing_id address_zero 1 = Ok (m, d)"
    by (auto simp: create_order_def Let_def)
  show ?thesis using order_within_limits [OF d] l d by (auto simp: get_listing_def)
qed

text \<open>
  Completing an order asks for no payment and can be repeated: a pending order is completed and counted in
  the volume each time. Stock is taken at completion only, so more than there is can be sold.
\<close>

lemma unpaid_order_completes:
  assumes "hm_get (mk_orders m) i = Some d" and "hm_get (mk_listings m) (od_listing_id d) = Some l"
  shows "\<exists>m' m''. complete_order now m i h = (m', Ok ()) \<and> complete_order now' m' i h' = (m'', Ok ())
    \<and> mk_total_volume m'' = mk_total_volume m + od_subtotal d + od_subtotal d"
  using assms by (simp add: complete_order_def update_listing_def order_complete_def Let_def)

lemma stock_sold_twice:
  assumes "hm_get (mk_listings m) i = Some l" and "ls_status l = LsActive" and "ls_available l = Some n"
    and "ls_min_quantity l \<le> n" and "ls_max_quantity l = 0"
  shows "\<exists>m' d m'' d'. create_order e now m i a n = Ok (m', d) \<and> create_order e now m' i b n = Ok (m'', d')"
  using assms by (simp add: create_order_def Let_def not_less)

end
