(* ===== verification/AI_Models.thy ===== *)
theory AI_Models
  imports Chain_Types Hash_Map
begin

section \<open>The registry of models of the compute network\<close>

text \<open>
  \<open>pyrax-node/src/ai/compute/model.rs\<close>: models with their versions, ratings and usage, and the registry with
  its indices by owner, type and tag. A floating-point score is only stored and is its 64-bit pattern here.
  \<open>to_lowercase\<close> is an argument of the search. The closure of \<open>update\<close> is a function on models.
\<close>

datatype ComputeModelType = CmLLM | CmVision | CmAudio | CmMultiModal | CmCustom

datatype LicenseType = LcOpenSource | LcCommercial | LcResearchOnly | LcProprietary | LcCustom

record ModelVersion =
  mv_version :: string
  mv_weights_hash :: h256
  mv_weights_size :: u64
  mv_config_hash :: h256
  mv_tokenizer_hash :: "h256 option"
  mv_release_notes :: "string option"
  mv_published_at :: u64
  mv_publisher :: address
  mv_deprecated :: bool
  mv_deprecation_reason :: "string option"

record BenchmarkResults =
  bk_name :: string
  bk_score :: u64
  bk_unit :: string
  bk_tested_at :: u64
  bk_config :: "string option"

record HardwareRequirements =
  hr_min_gpu_memory_mb :: u64
  hr_recommended_gpu_memory_mb :: u64
  hr_min_ram_mb :: u64
  hr_min_storage_mb :: u64
  hr_supported_gpus :: "string list"
  hr_gpu_features :: "string list"

definition HardwareRequirements_default :: HardwareRequirements where
  "HardwareRequirements_default =
     \<lparr>hr_min_gpu_memory_mb = 4096, hr_recommended_gpu_memory_mb = 8192, hr_min_ram_mb = 8192, hr_min_storage_mb = 10240,
      hr_supported_gpus = [''NVIDIA''], hr_gpu_features = []\<rparr>"

record ModelInfo =
  mi_id :: h256
  mi_name :: string
  mi_description :: string
  mi_model_type :: ComputeModelType
  mi_owner :: address
  mi_license :: LicenseType
  mi_license_url :: "string option"
  mi_architecture :: string
  mi_parameters :: u64
  mi_context_length :: "u32 option"
  mi_input_format :: string
  mi_output_format :: string
  mi_frameworks :: "string list"
  mi_requirements :: HardwareRequirements
  mi_versions :: "ModelVersion list"
  mi_current_version :: string
  mi_benchmarks :: "BenchmarkResults list"
  mi_tags :: "string list"
  mi_created_at :: u64
  mi_updated_at :: u64
  mi_usage_count :: u64
  mi_rating :: u32
  mi_rating_count :: u32
  mi_verified :: bool
  mi_is_public :: bool
  mi_price_per_inference :: u64
  mi_training_data_hash :: "h256 option"

definition model_generate_id :: "ext \<Rightarrow> u64 \<Rightarrow> string \<Rightarrow> address \<Rightarrow> h256" where
  "model_generate_id e now name owner =
     h256_from_slice (ext_blake3 e (ascii_bytes name @ address_bytes owner @ u64_to_le_bytes now))"

definition ModelInfo_new :: "ext \<Rightarrow> u64 \<Rightarrow> string \<Rightarrow> string \<Rightarrow> ComputeModelType \<Rightarrow> address \<Rightarrow> string \<Rightarrow> u64 \<Rightarrow> ModelInfo" where
  "ModelInfo_new e now name description model_type owner architecture parameters =
     \<lparr>mi_id = model_generate_id e now name owner, mi_name = name, mi_description = description, mi_model_type = model_type,
      mi_owner = owner, mi_license = LcOpenSource, mi_license_url = None, mi_architecture = architecture,
      mi_parameters = parameters, mi_context_length = None, mi_input_format = [], mi_output_format = [], mi_frameworks = [],
      mi_requirements = HardwareRequirements_default, mi_versions = [], mi_current_version = [], mi_benchmarks = [],
      mi_tags = [], mi_created_at = now, mi_updated_at = now, mi_usage_count = 0, mi_rating = 0, mi_rating_count = 0,
      mi_verified = False, mi_is_public = True, mi_price_per_inference = 0, mi_training_data_hash = None\<rparr>"

definition add_version :: "u64 \<Rightarrow> ModelInfo \<Rightarrow> ModelVersion \<Rightarrow> ModelInfo" where
  "add_version now m version =
     m\<lparr>mi_current_version := mv_version version, mi_versions := mi_versions m @ [version], mi_updated_at := now\<rparr>"

definition get_version :: "ModelInfo \<Rightarrow> string \<Rightarrow> ModelVersion option" where
  "get_version m version = find (\<lambda>v. mv_version v = version) (mi_versions m)"

definition get_current_version :: "ModelInfo \<Rightarrow> ModelVersion option" where
  "get_current_version m = find (\<lambda>v. mv_version v = mi_current_version m) (mi_versions m)"

fun deprecate_first :: "string \<Rightarrow> string \<Rightarrow> ModelVersion list \<Rightarrow> ModelVersion list" where
  "deprecate_first version reason [] = []"
| "deprecate_first version reason (v # vs) =
     (if mv_version v = version then v\<lparr>mv_deprecated := True, mv_deprecation_reason := Some reason\<rparr> # vs
      else v # deprecate_first version reason vs)"

definition deprecate_version :: "u64 \<Rightarrow> ModelInfo \<Rightarrow> string \<Rightarrow> string \<Rightarrow> ModelInfo \<times> bool" where
  "deprecate_version now m version reason =
     (if list_ex (\<lambda>v. mv_version v = version) (mi_versions m)
      then (m\<lparr>mi_versions := deprecate_first version reason (mi_versions m), mi_updated_at := now\<rparr>, True)
      else (m, False))"

text \<open>\<open>None\<close> is the division by zero after \<open>2^32\<close> ratings.\<close>

definition model_add_rating :: "u64 \<Rightarrow> ModelInfo \<Rightarrow> u32 \<Rightarrow> ModelInfo option" where
  "model_add_rating now m rating =
     (let sum = ucast (mi_rating m) * ucast (mi_rating_count m) + ucast rating :: u64;
          rating_count = mi_rating_count m + 1
      in if rating_count = 0 then None
         else Some (m\<lparr>mi_rating_count := rating_count, mi_rating := ucast (sum div ucast rating_count), mi_updated_at := now\<rparr>))"

definition increment_usage :: "ModelInfo \<Rightarrow> ModelInfo" where
  "increment_usage m = m\<lparr>mi_usage_count := mi_usage_count m + 1\<rparr>"

definition transfer_ownership :: "u64 \<Rightarrow> ModelInfo \<Rightarrow> address \<Rightarrow> ModelInfo" where
  "transfer_ownership now m new_owner = m\<lparr>mi_owner := new_owner, mi_updated_at := now\<rparr>"

definition model_set_price :: "u64 \<Rightarrow> ModelInfo \<Rightarrow> u64 \<Rightarrow> ModelInfo" where
  "model_set_price now m price = m\<lparr>mi_price_per_inference := price, mi_updated_at := now\<rparr>"

subsection \<open>The registry\<close>

record ModelRegistry =
  mr_models :: "(h256, ModelInfo) hashmap"
  mr_by_owner :: "(address, h256 list) hashmap"
  mr_by_type :: "(ComputeModelType, h256 list) hashmap"
  mr_by_tag :: "(string, h256 list) hashmap"
  mr_verified :: "h256 list"

datatype ModelRegistryError = ModelNotFound h256 | ModelAlreadyExists h256

definition ModelRegistry_new :: ModelRegistry where
  "ModelRegistry_new = \<lparr>mr_models = [], mr_by_owner = [], mr_by_type = [], mr_by_tag = [], mr_verified = []\<rparr>"

definition model_register :: "ModelRegistry \<Rightarrow> ModelInfo \<Rightarrow> ModelRegistryError + (ModelRegistry \<times> h256)" where
  "model_register r m =
     (let i = mi_id m in
      if hm_contains (mr_models r) i then Err (ModelAlreadyExists i)
      else Ok (r\<lparr>mr_by_owner := hm_push (mi_owner m) i (mr_by_owner r), mr_by_type := hm_push (mi_model_type m) i (mr_by_type r),
                 mr_by_tag := fold (\<lambda>tag t. hm_push tag i t) (mi_tags m) (mr_by_tag r),
                 mr_models := hm_insert i m (mr_models r)\<rparr>, i))"

definition model_get :: "ModelRegistry \<Rightarrow> h256 \<Rightarrow> ModelInfo option" where
  "model_get r i = hm_get (mr_models r) i"

definition model_update :: "ModelRegistry \<Rightarrow> h256 \<Rightarrow> (ModelInfo \<Rightarrow> ModelInfo) \<Rightarrow> ModelRegistryError + ModelRegistry" where
  "model_update r i f =
     (case hm_get (mr_models r) i of
        None \<Rightarrow> Err (ModelNotFound i)
      | Some m \<Rightarrow> Ok (r\<lparr>mr_models := hm_insert i (f m) (mr_models r)\<rparr>))"

definition registry_add_version :: "u64 \<Rightarrow> ModelRegistry \<Rightarrow> h256 \<Rightarrow> ModelVersion \<Rightarrow> ModelRegistryError + ModelRegistry" where
  "registry_add_version now r i version = model_update r i (\<lambda>m. add_version now m version)"

definition models_by_owner :: "ModelRegistry \<Rightarrow> address \<Rightarrow> ModelInfo list" where
  "models_by_owner r owner = hm_lookup_all (mr_models r) (hm_list (mr_by_owner r) owner)"

definition models_by_type :: "ModelRegistry \<Rightarrow> ComputeModelType \<Rightarrow> ModelInfo list" where
  "models_by_type r ty = hm_lookup_all (mr_models r) (hm_list (mr_by_type r) ty)"

definition models_by_tag :: "ModelRegistry \<Rightarrow> string \<Rightarrow> ModelInfo list" where
  "models_by_tag r tag = hm_lookup_all (mr_models r) (hm_list (mr_by_tag r) tag)"

definition model_search :: "(string \<Rightarrow> string) \<Rightarrow> ModelRegistry \<Rightarrow> string \<Rightarrow> ModelInfo list" where
  "model_search lower r query =
     (let query_lower = lower query in
      filter (\<lambda>m. mi_is_public m \<and> (str_contains (lower (mi_name m)) query_lower
          \<or> str_contains (lower (mi_description m)) query_lower
          \<or> list_ex (\<lambda>t. str_contains (lower t) query_lower) (mi_tags m)))
        (hm_values (mr_models r)))"

definition verify_model :: "ModelRegistry \<Rightarrow> h256 \<Rightarrow> ModelRegistryError + ModelRegistry" where
  "verify_model r i =
     and_then (model_update r i (\<lambda>m. m\<lparr>mi_verified := True\<rparr>)) (\<lambda>r. Ok (r\<lparr>mr_verified := mr_verified r @ [i]\<rparr>))"

definition get_verified :: "ModelRegistry \<Rightarrow> ModelInfo list" where
  "get_verified r = hm_lookup_all (mr_models r) (mr_verified r)"

definition get_top_by_usage :: "ModelRegistry \<Rightarrow> nat \<Rightarrow> ModelInfo list" where
  "get_top_by_usage r limit =
     take limit (sort_key (\<lambda>m. - uint (mi_usage_count m)) (filter mi_is_public (hm_values (mr_models r))))"

definition get_top_by_rating :: "ModelRegistry \<Rightarrow> nat \<Rightarrow> ModelInfo list" where
  "get_top_by_rating r limit =
     take limit (sort_key (\<lambda>m. - uint (mi_rating m))
       (filter (\<lambda>m. mi_is_public m \<and> 5 \<le> mi_rating_count m) (hm_values (mr_models r))))"

record ModelRegistryStats =
  rs_total_models :: u64
  rs_public_models :: u64
  rs_verified_models :: u64
  rs_total_usage :: u64
  rs_by_type :: "(ComputeModelType, u64) hashmap"

definition count_model :: "ModelInfo \<Rightarrow> (ComputeModelType, u64) hashmap \<Rightarrow> (ComputeModelType, u64) hashmap" where
  "count_model m t = hm_insert (mi_model_type m) ((case hm_get t (mi_model_type m) of None \<Rightarrow> 0 | Some n \<Rightarrow> n) + 1) t"

definition model_registry_stats :: "ModelRegistry \<Rightarrow> ModelRegistryStats" where
  "model_registry_stats r =
     \<lparr>rs_total_models = of_nat (length (mr_models r)),
      rs_public_models = of_nat (length (filter mi_is_public (hm_values (mr_models r)))),
      rs_verified_models = of_nat (length (mr_verified r)),
      rs_total_usage = sum_list (map mi_usage_count (hm_values (mr_models r))),
      rs_by_type = fold count_model (hm_values (mr_models r)) []\<rparr>"

subsection \<open>Runs\<close>

text \<open>The updates are the methods of a model; a rating that panics leaves the model as it was.\<close>

datatype model_op =
    MdRegister ModelInfo
  | MdVersion u64 h256 ModelVersion
  | MdDeprecate u64 h256 string string
  | MdRate u64 h256 u32
  | MdUse h256
  | MdTransfer u64 h256 address
  | MdPrice u64 h256 u64
  | MdVerify h256

fun model_step :: "ModelRegistry \<Rightarrow> model_op \<Rightarrow> ModelRegistry" where
  "model_step r (MdRegister m) = (case model_register r m of Err _ \<Rightarrow> r | Ok (r', _) \<Rightarrow> r')"
| "model_step r (MdVersion now i v) = ok_or r (registry_add_version now r i v)"
| "model_step r (MdDeprecate now i v why) = ok_or r (model_update r i (\<lambda>m. fst (deprecate_version now m v why)))"
| "model_step r (MdRate now i n) = ok_or r (model_update r i (\<lambda>m. case model_add_rating now m n of None \<Rightarrow> m | Some m' \<Rightarrow> m'))"
| "model_step r (MdUse i) = ok_or r (model_update r i increment_usage)"
| "model_step r (MdTransfer now i a) = ok_or r (model_update r i (\<lambda>m. transfer_ownership now m a))"
| "model_step r (MdPrice now i p) = ok_or r (model_update r i (\<lambda>m. model_set_price now m p))"
| "model_step r (MdVerify i) = ok_or r (verify_model r i)"

text \<open>Types, tags and identifiers do not change; the index by type lists exactly the models of a type.\<close>

definition model_inv :: "ModelRegistry \<Rightarrow> bool" where
  "model_inv r \<longleftrightarrow>
     (\<forall>ty i. i \<in> set (hm_list (mr_by_type r) ty) \<longleftrightarrow> (\<exists>m. hm_get (mr_models r) i = Some m \<and> mi_model_type m = ty))
     \<and> (\<forall>tag i. i \<in> set (hm_list (mr_by_tag r) tag) \<longleftrightarrow> (\<exists>m. hm_get (mr_models r) i = Some m \<and> tag \<in> set (mi_tags m)))
     \<and> (\<forall>i m. hm_get (mr_models r) i = Some m \<longrightarrow> mi_id m = i)"

lemma hm_list_push_all:
  "hm_list (fold (\<lambda>tag t. hm_push tag i t) tags t) k = hm_list t k @ replicate (count_list tags k) i"
  by (induction tags arbitrary: t) (simp_all add: replicate_app_Cons_same)

lemma set_push_all: "set (hm_list (fold (\<lambda>tag t. hm_push tag i t) tags t) k) = set (hm_list t k) \<union> (if k \<in> set tags then {i} else {})"
  by (auto simp: hm_list_push_all count_list_0_iff)

lemma model_register_inv:
  assumes "model_inv r" and "model_register r m = Ok (r', i)"
  shows "model_inv r'"
proof -
  have new: "hm_get (mr_models r) (mi_id m) = None" and r': "r' = r\<lparr>mr_by_owner := hm_push (mi_owner m) (mi_id m) (mr_by_owner r),
      mr_by_type := hm_push (mi_model_type m) (mi_id m) (mr_by_type r),
      mr_by_tag := fold (\<lambda>tag t. hm_push tag (mi_id m) t) (mi_tags m) (mr_by_tag r), mr_models := hm_insert (mi_id m) m (mr_models r)\<rparr>"
    using assms(2) by (auto simp: model_register_def Let_def hm_contains_def split: if_splits)
  have ty: "i \<in> set (hm_list (mr_by_type r) ty) \<longleftrightarrow> (\<exists>m. hm_get (mr_models r) i = Some m \<and> mi_model_type m = ty)"
    and tag: "i \<in> set (hm_list (mr_by_tag r) tag) \<longleftrightarrow> (\<exists>m. hm_get (mr_models r) i = Some m \<and> tag \<in> set (mi_tags m))"
    and ids: "hm_get (mr_models r) i = Some u \<Longrightarrow> mi_id u = i" for i ty tag u
    using assms(1) by (auto simp: model_inv_def)
  show ?thesis unfolding model_inv_def
  proof (intro conjI allI)
    fix t k show "k \<in> set (hm_list (mr_by_type r') t) \<longleftrightarrow> (\<exists>m. hm_get (mr_models r') k = Some m \<and> mi_model_type m = t)"
      using new by (auto simp: r' ty)
  next
    fix t k show "k \<in> set (hm_list (mr_by_tag r') t) \<longleftrightarrow> (\<exists>m. hm_get (mr_models r') k = Some m \<and> t \<in> set (mi_tags m))"
      using new by (auto simp: r' tag set_push_all)
  qed (auto simp: r' ids)
qed

lemma model_update_inv:
  assumes "model_inv r" and "model_update r i f = Ok r'"
    and "\<And>m. mi_id (f m) = mi_id m \<and> mi_model_type (f m) = mi_model_type m \<and> mi_tags (f m) = mi_tags m"
  shows "model_inv r'"
proof -
  obtain m where m: "hm_get (mr_models r) i = Some m" and r': "r' = r\<lparr>mr_models := hm_insert i (f m) (mr_models r)\<rparr>"
    using assms(2) by (auto simp: model_update_def split: option.splits)
  have "(\<exists>u. hm_get (mr_models r') k = Some u \<and> P (mi_id u) (mi_model_type u) (mi_tags u))
      \<longleftrightarrow> (\<exists>u. hm_get (mr_models r) k = Some u \<and> P (mi_id u) (mi_model_type u) (mi_tags u))" for k P
    using m assms(3) [of m] by (simp add: r')
  from this [of _ "\<lambda>_ ty _. ty = _"] this [of _ "\<lambda>_ _ tags. _ \<in> set tags"] show ?thesis
    using assms(1) m assms(3) [of m] by (simp add: model_inv_def r')
qed

lemma model_methods_keep:
  "mi_id (add_version now m v) = mi_id m" "mi_model_type (add_version now m v) = mi_model_type m" "mi_tags (add_version now m v) = mi_tags m"
  "mi_id (fst (deprecate_version now m s t)) = mi_id m" "mi_model_type (fst (deprecate_version now m s t)) = mi_model_type m"
  "mi_tags (fst (deprecate_version now m s t)) = mi_tags m"
  "mi_id (case model_add_rating now m n of None \<Rightarrow> m | Some m' \<Rightarrow> m') = mi_id m"
  "mi_model_type (case model_add_rating now m n of None \<Rightarrow> m | Some m' \<Rightarrow> m') = mi_model_type m"
  "mi_tags (case model_add_rating now m n of None \<Rightarrow> m | Some m' \<Rightarrow> m') = mi_tags m"
  "mi_id (increment_usage m) = mi_id m" "mi_model_type (increment_usage m) = mi_model_type m" "mi_tags (increment_usage m) = mi_tags m"
  "mi_id (transfer_ownership now m a) = mi_id m" "mi_model_type (transfer_ownership now m a) = mi_model_type m"
  "mi_tags (transfer_ownership now m a) = mi_tags m"
  "mi_id (model_set_price now m p) = mi_id m" "mi_model_type (model_set_price now m p) = mi_model_type m" "mi_tags (model_set_price now m p) = mi_tags m"
  by (simp_all add: add_version_def deprecate_version_def model_add_rating_def Let_def increment_usage_def transfer_ownership_def model_set_price_def)

lemma model_inv_verified: "model_inv (r\<lparr>mr_verified := vs\<rparr>) = model_inv r"
  by (simp add: model_inv_def)

lemma model_step_inv: "model_inv r \<Longrightarrow> model_inv (model_step r x)"
proof -
  assume inv: "model_inv r"
  have upd: "model_inv (ok_or r (model_update r i f))"
    if "\<And>m. mi_id (f m) = mi_id m \<and> mi_model_type (f m) = mi_model_type m \<and> mi_tags (f m) = mi_tags m" for i f
    using inv model_update_inv [OF inv _ that] by (cases "model_update r i f") simp_all
  show ?thesis
  proof (cases x)
    case (MdRegister m)
    then show ?thesis using inv model_register_inv [OF inv] by (auto split: sum.split)
  next
    case (MdVerify i)
    have "model_inv r'" if "model_update r i (\<lambda>m. m\<lparr>mi_verified := True\<rparr>) = Ok r'" for r'
      by (rule model_update_inv [OF inv that]) simp
    then show ?thesis using inv MdVerify
      by (cases "model_update r i (\<lambda>m. m\<lparr>mi_verified := True\<rparr>)") (simp_all add: verify_model_def model_inv_verified)
  qed (simp_all add: registry_add_version_def upd model_methods_keep)
qed

interpretation models: machine ModelRegistry_new model_step model_inv
  by unfold_locales (simp_all add: model_step_inv, simp add: model_inv_def ModelRegistry_new_def)

lemma set_hm_lookup_all: "set (hm_lookup_all m ks) = {v. \<exists>k \<in> set ks. hm_get m k = Some v}"
  by (force simp: hm_lookup_all_def List.map_filter_def)

lemma lookup_index:
  assumes "\<And>i. i \<in> set ks \<longleftrightarrow> (\<exists>m. hm_get ms i = Some m \<and> P m)"
  shows "set (hm_lookup_all ms ks) = {m. \<exists>i. hm_get ms i = Some m \<and> P m}"
  unfolding set_hm_lookup_all using assms by fastforce

text \<open>
  Finding a model by type or by tag is exact: in every reachable state the query by a type returns the
  registered models of that type and no others, and the query by a tag those with that tag.
\<close>

theorem model_lookup_exact:
  assumes "reachable model_step ModelRegistry_new r"
  shows "set (models_by_type r ty) = {m. model_get r (mi_id m) = Some m \<and> mi_model_type m = ty}
    \<and> set (models_by_tag r tag) = {m. model_get r (mi_id m) = Some m \<and> tag \<in> set (mi_tags m)}"
proof -
  have inv: "i \<in> set (hm_list (mr_by_type r) ty) \<longleftrightarrow> (\<exists>m. hm_get (mr_models r) i = Some m \<and> mi_model_type m = ty)"
      "i \<in> set (hm_list (mr_by_tag r) tag) \<longleftrightarrow> (\<exists>m. hm_get (mr_models r) i = Some m \<and> tag \<in> set (mi_tags m))"
      "hm_get (mr_models r) i = Some m \<Longrightarrow> mi_id m = i" for i m
    using models.inv_reachable [OF assms] by (auto simp: model_inv_def)
  have "set (models_by_type r ty) = {m. \<exists>i. hm_get (mr_models r) i = Some m \<and> mi_model_type m = ty}"
    unfolding models_by_type_def by (rule lookup_index [OF inv(1)])
  moreover have "set (models_by_tag r tag) = {m. \<exists>i. hm_get (mr_models r) i = Some m \<and> tag \<in> set (mi_tags m)}"
    unfolding models_by_tag_def by (rule lookup_index [OF inv(2)])
  moreover have "(\<exists>i. hm_get (mr_models r) i = Some m \<and> P) \<longleftrightarrow> model_get r (mi_id m) = Some m \<and> P" for m P
    using inv(3) by (auto simp: model_get_def)
  ultimately show ?thesis by simp
qed

text \<open>
  The ranking by usage is right: it has at most the requested number of models, all public, by falling usage,
  and a public model that is left out has no more usage than any that is shown.
\<close>

theorem top_by_usage_correct:
  "length (get_top_by_usage r limit) \<le> limit \<and> sorted_wrt (\<lambda>a b. mi_usage_count b \<le> mi_usage_count a) (get_top_by_usage r limit)
    \<and> set (get_top_by_usage r limit) \<subseteq> {m. m \<in> set (hm_values (mr_models r)) \<and> mi_is_public m}
    \<and> (\<nexists>a b. a \<in> set (hm_values (mr_models r)) \<and> mi_is_public a \<and> a \<notin> set (get_top_by_usage r limit)
          \<and> b \<in> set (get_top_by_usage r limit) \<and> mi_usage_count b < mi_usage_count a)"
proof -
  let ?k = "\<lambda>m. - uint (mi_usage_count m)"
  let ?xs = "sort_key ?k (filter mi_is_public (hm_values (mr_models r)))"
  have srt: "sorted_wrt (\<lambda>a b. mi_usage_count b \<le> mi_usage_count a) ?xs"
    using sorted_sort_key [of ?k "filter mi_is_public (hm_values (mr_models r))"] by (simp add: sorted_map word_le_def)
  then have parts: "sorted_wrt (\<lambda>a b. mi_usage_count b \<le> mi_usage_count a) (take limit ?xs @ drop limit ?xs)" by simp
  then have low: "mi_usage_count a \<le> mi_usage_count b" if "a \<in> set (drop limit ?xs)" "b \<in> set (take limit ?xs)" for a b
    using that unfolding sorted_wrt_append by blast
  have "a \<in> set (drop limit ?xs)" if "a \<in> set (hm_values (mr_models r))" "mi_is_public a" "a \<notin> set (take limit ?xs)" for a
  proof -
    have "a \<in> set (take limit ?xs @ drop limit ?xs)" using that by simp
    then show ?thesis using that(3) unfolding set_append by blast
  qed
  then have "\<not> mi_usage_count b < mi_usage_count a" if "a \<in> set (hm_values (mr_models r))" "mi_is_public a"
      "a \<notin> set (take limit ?xs)" "b \<in> set (take limit ?xs)" for a b
    using low that by (metis not_less)
  moreover have "set (take limit ?xs) \<subseteq> {m. m \<in> set (hm_values (mr_models r)) \<and> mi_is_public m}"
    using set_take_subset [of limit ?xs] by auto
  ultimately show ?thesis
    using parts unfolding get_top_by_usage_def sorted_wrt_append by auto
qed

text \<open>
  A rating stays a percentage: if a model is rated at most 100 and the new rating is at most 100, the average
  is at most 100, and the sum it is computed from does not wrap.
\<close>

lemma average_bounded:
  fixes a c x b :: nat
  assumes "a \<le> b" and "x \<le> b"
  shows "(a * c + x) div (c + 1) \<le> b"
proof -
  have "a * c + x \<le> b * c + b" using assms by (intro add_mono mult_le_mono) simp_all
  then have "(a * c + x) div (c + 1) \<le> (b * (c + 1)) div (c + 1)" by (intro div_le_mono) simp
  also have "(b * (c + 1)) div (c + 1) = b" by (rule nonzero_mult_div_cancel_right) simp
  finally show ?thesis .
qed

lemma unat_ucast_32_64: "unat (ucast (a :: u32) :: u64) = unat a"
  by (simp add: unsigned_ucast_eq take_bit_nat_eq_self_iff order.strict_trans [OF unat_less_power])

theorem model_rating_bounded:
  assumes "model_add_rating now m n = Some m'" and "mi_rating m \<le> 100" and "n \<le> 100"
  shows "mi_rating m' \<le> 100
    \<and> unat (mi_rating m') = (unat (mi_rating m) * unat (mi_rating_count m) + unat n) div (unat (mi_rating_count m) + 1)"
proof -
  have nz: "mi_rating_count m + 1 \<noteq> 0"
    and m': "mi_rating m' = ucast ((ucast (mi_rating m) * ucast (mi_rating_count m) + ucast n :: u64) div ucast (mi_rating_count m + 1))"
    using assms(1) by (auto simp: model_add_rating_def Let_def split: if_splits)
  have b: "unat (mi_rating m) \<le> 100" "unat n \<le> 100" using assms(2,3) by (simp_all add: word_le_nat_alt)
  have "unat (mi_rating m) * unat (mi_rating_count m) \<le> 100 * 2 ^ 32"
    using b(1) unat_less_power [of "mi_rating_count m"] by (intro mult_le_mono) simp_all
  then have "unat (ucast (mi_rating m) * ucast (mi_rating_count m) + ucast n :: u64)
      = unat (mi_rating m) * unat (mi_rating_count m) + unat n"
    using b(2) by (simp add: unat_word_ariths unat_ucast_32_64)
  then have q: "unat ((ucast (mi_rating m) * ucast (mi_rating_count m) + ucast n :: u64) div ucast (mi_rating_count m + 1))
      = (unat (mi_rating m) * unat (mi_rating_count m) + unat n) div (unat (mi_rating_count m) + 1)"
    using unat_add_one [OF nz] by (simp only: unat_div unat_ucast_32_64)
  have le: "(unat (mi_rating m) * unat (mi_rating_count m) + unat n) div (unat (mi_rating_count m) + 1) \<le> 100"
    by (rule average_bounded [OF b])
  have "unat (mi_rating m') = (unat (mi_rating m) * unat (mi_rating_count m) + unat n) div (unat (mi_rating_count m) + 1)"
    using le by (simp only: m' unsigned_ucast_eq q) (simp add: take_bit_nat_eq_self)
  then show ?thesis using le by (simp add: word_le_nat_alt)
qed

text \<open>
  The index by owner follows no transfer: after one, the new owner's models do not include the model, and the
  old owner's still do.
\<close>

lemma transfer_not_indexed:
  assumes "model_register ModelRegistry_new m = Ok (r, i)" and "a \<noteq> mi_owner m"
  shows "models_by_owner (model_step r (MdTransfer now i a)) a = []
    \<and> models_by_owner (model_step r (MdTransfer now i a)) (mi_owner m) = [transfer_ownership now m a]"
proof -
  have "r = fst (projr (model_register ModelRegistry_new m))" "i = mi_id m"
    using assms(1) by (auto simp: model_register_def Let_def split: if_splits)
  then show ?thesis
    using assms(2) by (simp add: model_register_def ModelRegistry_new_def models_by_owner_def hm_lookup_all_def
      model_update_def List.map_filter_def Let_def)
qed

text \<open>A model that is verified twice is listed and counted twice.\<close>

lemma verified_twice:
  assumes "model_register ModelRegistry_new m = Ok (r, i)"
  shows "rs_verified_models (model_registry_stats (run model_step r [MdVerify i, MdVerify i])) = 2
    \<and> rs_total_models (model_registry_stats (run model_step r [MdVerify i, MdVerify i])) = 1"
proof -
  have "r = fst (projr (model_register ModelRegistry_new m))" "i = mi_id m"
    using assms(1) by (auto simp: model_register_def Let_def split: if_splits)
  then show ?thesis
    by (simp add: model_register_def ModelRegistry_new_def verify_model_def model_update_def model_registry_stats_def
      hm_insert_def hm_get_def Let_def)
qed

subsection \<open>Witnesses\<close>

definition example_model :: ModelInfo where
  "example_model = (ModelInfo_new sample_ext 3 ''m'' ''d'' CmLLM address_zero ''transformer'' 7)\<lparr>mi_tags := [''a'']\<rparr>"

theorem model_lookup_exact_witness:
  "let r = run model_step ModelRegistry_new [MdRegister example_model, MdUse (mi_id example_model)]
   in set (models_by_tag r ''a'') = {increment_usage example_model}"
proof -
  let ?r = "run model_step ModelRegistry_new [MdRegister example_model, MdUse (mi_id example_model)]"
  have "model_get ?r k = (if k = mi_id example_model then Some (increment_usage example_model) else None)" for k
    by (simp add: model_register_def ModelRegistry_new_def model_update_def model_get_def Let_def)
  moreover have "mi_id (increment_usage example_model) = mi_id example_model" "mi_tags (increment_usage example_model) = [''a'']"
    by (simp_all add: increment_usage_def example_model_def)
  ultimately show ?thesis
    using model_lookup_exact [OF reachable_run, of "[MdRegister example_model, MdUse (mi_id example_model)]" CmLLM "''a''"]
    by (auto simp: Let_def split: if_splits)
qed

theorem model_rating_bounded_witness:
  "\<exists>m'. model_add_rating 5 (example_model\<lparr>mi_rating := 80, mi_rating_count := 1\<rparr>) 100 = Some m' \<and> mi_rating m' \<le> 100"
proof -
  let ?m = "example_model\<lparr>mi_rating := 80, mi_rating_count := 1\<rparr>"
  obtain m' where "model_add_rating 5 ?m 100 = Some m'" by (simp add: model_add_rating_def Let_def)
  then show ?thesis using model_rating_bounded [of 5 ?m 100 m'] by simp
qed

end
