(* ===== verification/AI_Registry.thy ===== *)
theory AI_Registry
  imports Chain_Types Hash_Map
begin

section \<open>Models, providers and jobs of the AI service\<close>

text \<open>
  \<open>pyrax-node/src/ai/mod.rs\<close>, \<open>ai/registry.rs\<close> and \<open>ai/jobs.rs\<close>: the registry of models and providers and
  the manager of jobs behind the RPC interface. An address is a byte array. \<open>to_lowercase\<close> and the order in
  which \<open>BinaryHeap::iter\<close> visits the queue are arguments. A division by zero after a counter has wrapped is
  \<open>None\<close>. The training configuration, which is only stored, is left out.
\<close>

type_synonym addr20 = "u8 list"

datatype ModelFramework = FwPyTorch | FwTensorFlow | FwONNX | FwJAX | FwHuggingFace | FwCustom

fun framework_as_str :: "ModelFramework \<Rightarrow> string" where
  "framework_as_str FwPyTorch = ''pytorch''"
| "framework_as_str FwTensorFlow = ''tensorflow''"
| "framework_as_str FwONNX = ''onnx''"
| "framework_as_str FwJAX = ''jax''"
| "framework_as_str FwHuggingFace = ''huggingface''"
| "framework_as_str FwCustom = ''custom''"

definition framework_from_str :: "(string \<Rightarrow> string) \<Rightarrow> string \<Rightarrow> ModelFramework option" where
  "framework_from_str lower s =
     (let t = lower s in
      if t \<in> {''pytorch'', ''torch''} then Some FwPyTorch
      else if t \<in> {''tensorflow'', ''tf''} then Some FwTensorFlow
      else if t = ''onnx'' then Some FwONNX
      else if t = ''jax'' then Some FwJAX
      else if t \<in> {''huggingface'', ''hf''} then Some FwHuggingFace
      else if t = ''custom'' then Some FwCustom
      else None)"

datatype AiModelType = AmLLM | AmImageGeneration | AmImageClassification | AmObjectDetection | AmSpeechToText | AmTextToSpeech
  | AmEmbedding | AmGeneral

fun ai_model_type_as_str :: "AiModelType \<Rightarrow> string" where
  "ai_model_type_as_str AmLLM = ''llm''"
| "ai_model_type_as_str AmImageGeneration = ''image_generation''"
| "ai_model_type_as_str AmImageClassification = ''image_classification''"
| "ai_model_type_as_str AmObjectDetection = ''object_detection''"
| "ai_model_type_as_str AmSpeechToText = ''speech_to_text''"
| "ai_model_type_as_str AmTextToSpeech = ''text_to_speech''"
| "ai_model_type_as_str AmEmbedding = ''embedding''"
| "ai_model_type_as_str AmGeneral = ''general''"

definition ai_model_type_from_str :: "(string \<Rightarrow> string) \<Rightarrow> string \<Rightarrow> AiModelType option" where
  "ai_model_type_from_str lower s =
     (let t = lower s in
      if t \<in> {''llm'', ''language''} then Some AmLLM
      else if t \<in> {''image_generation'', ''imagegen''} then Some AmImageGeneration
      else if t \<in> {''image_classification'', ''imageclassify''} then Some AmImageClassification
      else if t \<in> {''object_detection'', ''detection''} then Some AmObjectDetection
      else if t \<in> {''speech_to_text'', ''stt'', ''asr''} then Some AmSpeechToText
      else if t \<in> {''text_to_speech'', ''tts''} then Some AmTextToSpeech
      else if t \<in> {''embedding'', ''embed''} then Some AmEmbedding
      else if t \<in> {''general'', ''other''} then Some AmGeneral
      else None)"

record AiModel =
  am_id :: h256
  am_name :: string
  am_version :: string
  am_owner :: addr20
  am_framework :: ModelFramework
  am_model_type :: AiModelType
  am_size_bytes :: u64
  am_ipfs_cid :: string
  am_input_schema :: string
  am_output_schema :: string
  am_min_gpu_memory_mb :: u32
  am_price_per_1k :: u64
  am_registered_at :: u64
  am_registered_height :: u64
  am_is_active :: bool
  am_total_inferences :: u64
  am_avg_latency_ms :: u32

record GpuSpec =
  gs_model :: string
  gs_vram_mb :: u32
  gs_count :: u8

record AIProvider =
  ap_address :: addr20
  ap_name :: string
  ap_stake :: u64
  ap_gpu_specs :: "GpuSpec list"
  ap_total_gpu_memory_mb :: u32
  ap_supported_models :: "h256 list"
  ap_is_active :: bool
  ap_registered_at :: u64
  ap_jobs_completed :: u64
  ap_jobs_failed :: u64
  ap_avg_response_ms :: u32
  ap_reputation :: u32
  ap_endpoint :: string

subsection \<open>The registry\<close>

record AiRegistry =
  ar_models :: "(h256, AiModel) hashmap"
  ar_models_by_owner :: "(addr20, h256 list) hashmap"
  ar_providers :: "(addr20, AIProvider) hashmap"
  ar_active_provider_count :: u32

datatype AiRegistryError =
    AiModelAlreadyExists h256
  | AiModelNotFound h256
  | InvalidModelData string
  | InvalidProviderData string
  | AiNotAuthorized
  | AiInsufficientStake u64 u64

definition AiRegistry_new :: AiRegistry where
  "AiRegistry_new = \<lparr>ar_models = [], ar_models_by_owner = [], ar_providers = [], ar_active_provider_count = 0\<rparr>"

definition validate_model :: "AiModel \<Rightarrow> AiRegistryError + unit" where
  "validate_model m =
     (if am_name m = [] then Err (InvalidModelData ''name cannot be empty'')
      else if 128 < length (am_name m) then Err (InvalidModelData ''name too long (max 128 chars)'')
      else if am_version m = [] then Err (InvalidModelData ''version cannot be empty'')
      else if am_ipfs_cid m = [] then Err (InvalidModelData ''IPFS CID required'')
      else if am_size_bytes m = 0 then Err (InvalidModelData ''size must be > 0'')
      else Ok ())"

definition register_model :: "AiRegistry \<Rightarrow> AiModel \<Rightarrow> AiRegistryError + (AiRegistry \<times> h256)" where
  "register_model r m =
     (let i = am_id m in
      if hm_contains (ar_models r) i then Err (AiModelAlreadyExists i)
      else and_then (validate_model m) (\<lambda>_.
        Ok (r\<lparr>ar_models := hm_insert i m (ar_models r), ar_models_by_owner := hm_push (am_owner m) i (ar_models_by_owner r)\<rparr>, i)))"

definition get_model :: "AiRegistry \<Rightarrow> h256 \<Rightarrow> AiModel option" where
  "get_model r i = hm_get (ar_models r) i"

definition get_models_by_owner :: "AiRegistry \<Rightarrow> addr20 \<Rightarrow> AiModel list" where
  "get_models_by_owner r owner = hm_lookup_all (ar_models r) (hm_list (ar_models_by_owner r) owner)"

definition list_models :: "AiRegistry \<Rightarrow> nat \<Rightarrow> nat \<Rightarrow> AiModel list" where
  "list_models r limit offset = take limit (drop offset (filter am_is_active (hm_values (ar_models r))))"

definition search_models :: "AiRegistry \<Rightarrow> AiModelType option \<Rightarrow> ModelFramework option \<Rightarrow> nat \<Rightarrow> AiModel list" where
  "search_models r model_type framework limit =
     take limit (filter (\<lambda>m. case framework of None \<Rightarrow> True | Some f \<Rightarrow> am_framework m = f)
       (filter (\<lambda>m. case model_type of None \<Rightarrow> True | Some t \<Rightarrow> am_model_type m = t)
         (filter am_is_active (hm_values (ar_models r)))))"

definition deactivate_model :: "AiRegistry \<Rightarrow> h256 \<Rightarrow> addr20 \<Rightarrow> AiRegistryError + AiRegistry" where
  "deactivate_model r i caller =
     (case hm_get (ar_models r) i of
        None \<Rightarrow> Err (AiModelNotFound i)
      | Some m \<Rightarrow>
          if am_owner m \<noteq> caller then Err AiNotAuthorized
          else Ok (r\<lparr>ar_models := hm_insert i (m\<lparr>am_is_active := False\<rparr>) (ar_models r)\<rparr>))"

definition record_inference :: "AiRegistry \<Rightarrow> h256 \<Rightarrow> u32 \<Rightarrow> AiRegistry option" where
  "record_inference r i latency_ms =
     (case hm_get (ar_models r) i of
        None \<Rightarrow> Some r
      | Some m \<Rightarrow>
          let n = am_total_inferences m; avg = ucast (am_avg_latency_ms m) :: u64 in
          if n + 1 = 0 then None
          else Some (r\<lparr>ar_models := hm_insert i (m\<lparr>am_avg_latency_ms := ucast ((avg * n + ucast latency_ms) div (n + 1)),
                        am_total_inferences := n + 1\<rparr>) (ar_models r)\<rparr>))"

definition AI_MIN_STAKE :: u64 where
  "AI_MIN_STAKE = 100000000000"

definition validate_provider :: "AIProvider \<Rightarrow> AiRegistryError + unit" where
  "validate_provider p =
     (if ap_name p = [] then Err (InvalidProviderData ''name cannot be empty'')
      else if ap_gpu_specs p = [] then Err (InvalidProviderData ''at least one GPU required'')
      else if ap_endpoint p = [] then Err (InvalidProviderData ''endpoint required'')
      else Ok ())"

definition register_provider :: "AiRegistry \<Rightarrow> AIProvider \<Rightarrow> AiRegistryError + AiRegistry" where
  "register_provider r p =
     and_then (validate_provider p) (\<lambda>_.
       if ap_stake p < AI_MIN_STAKE then Err (AiInsufficientStake AI_MIN_STAKE (ap_stake p))
       else let is_new = \<not> hm_contains (ar_providers r) (ap_address p);
                r = r\<lparr>ar_providers := hm_insert (ap_address p) p (ar_providers r)\<rparr>
            in Ok (if is_new \<and> ap_is_active p then r\<lparr>ar_active_provider_count := ar_active_provider_count r + 1\<rparr> else r))"

definition get_provider :: "AiRegistry \<Rightarrow> addr20 \<Rightarrow> AIProvider option" where
  "get_provider r a = hm_get (ar_providers r) a"

definition list_providers :: "AiRegistry \<Rightarrow> nat \<Rightarrow> nat \<Rightarrow> AIProvider list" where
  "list_providers r limit offset = take limit (drop offset (filter ap_is_active (hm_values (ar_providers r))))"

definition find_providers_for_model :: "AiRegistry \<Rightarrow> h256 \<Rightarrow> AIProvider list" where
  "find_providers_for_model r i =
     filter (\<lambda>p. ap_is_active p \<and> i \<in> set (ap_supported_models p)) (hm_values (ar_providers r))"

definition job_outcome :: "AIProvider \<Rightarrow> bool \<Rightarrow> AIProvider" where
  "job_outcome p success =
     (if success then p\<lparr>ap_jobs_completed := ap_jobs_completed p + 1, ap_reputation := min (ap_reputation p + 1) 1000\<rparr>
      else p\<lparr>ap_jobs_failed := ap_jobs_failed p + 1, ap_reputation := saturating_sub (ap_reputation p) 10\<rparr>)"

definition record_job_completion :: "AiRegistry \<Rightarrow> addr20 \<Rightarrow> bool \<Rightarrow> u32 \<Rightarrow> AiRegistry option" where
  "record_job_completion r a success response_ms =
     (case hm_get (ar_providers r) a of
        None \<Rightarrow> Some r
      | Some p \<Rightarrow>
          let p = job_outcome p success; n = ap_jobs_completed p + ap_jobs_failed p; avg = ucast (ap_avg_response_ms p) :: u64 in
          if n = 0 then None
          else Some (r\<lparr>ar_providers := hm_insert a (p\<lparr>ap_avg_response_ms := ucast ((avg * (n - 1) + ucast response_ms) div n)\<rparr>)
                        (ar_providers r)\<rparr>))"

record AiRegistryStats =
  as_total_models :: nat
  as_active_models :: nat
  as_total_providers :: nat
  as_active_providers :: nat
  as_total_inferences :: u64
  as_total_gpu_memory_gb :: u64

definition ai_registry_stats :: "AiRegistry \<Rightarrow> AiRegistryStats" where
  "ai_registry_stats r =
     \<lparr>as_total_models = length (ar_models r), as_active_models = length (filter am_is_active (hm_values (ar_models r))),
      as_total_providers = length (ar_providers r),
      as_active_providers = length (filter ap_is_active (hm_values (ar_providers r))),
      as_total_inferences = sum_list (map am_total_inferences (hm_values (ar_models r))),
      as_total_gpu_memory_gb =
        sum_list (map (\<lambda>p. ucast (ap_total_gpu_memory_mb p)) (filter ap_is_active (hm_values (ar_providers r)))) div 1024\<rparr>"

subsection \<open>Jobs\<close>

datatype AiJobStatus = AjPending | AjAssigned | AjRunning | AjCompleted | AjFailed | AjCancelled | AjExpired

fun ai_job_status_as_str :: "AiJobStatus \<Rightarrow> string" where
  "ai_job_status_as_str AjPending = ''pending''"
| "ai_job_status_as_str AjAssigned = ''assigned''"
| "ai_job_status_as_str AjRunning = ''running''"
| "ai_job_status_as_str AjCompleted = ''completed''"
| "ai_job_status_as_str AjFailed = ''failed''"
| "ai_job_status_as_str AjCancelled = ''cancelled''"
| "ai_job_status_as_str AjExpired = ''expired''"

datatype AiJobType = AtInference | AtBatchInference | AtTraining | AtFineTuning

record AIJob =
  aj_id :: h256
  aj_job_type :: AiJobType
  aj_model_id :: h256
  aj_requester :: addr20
  aj_provider :: "addr20 option"
  aj_status :: AiJobStatus
  aj_input :: string
  aj_output :: "string option"
  aj_max_price :: u64
  aj_actual_price :: "u64 option"
  aj_collateral :: u64
  aj_submitted_at :: u64
  aj_submitted_height :: u64
  aj_assigned_at :: "u64 option"
  aj_completed_at :: "u64 option"
  aj_error :: "string option"
  aj_proof :: "string option"
  aj_timeout_secs :: u32

record PendingJob =
  pj_id :: h256
  pj_max_price :: u64
  pj_submitted_at :: u64

text \<open>\<open>Ord\<close> of the queue entries: what \<open>self.cmp(other)\<close> calls less or equal.\<close>

definition pending_le :: "PendingJob \<Rightarrow> PendingJob \<Rightarrow> bool" where
  "pending_le a b =
     (if pj_max_price b < pj_max_price a then True
      else if pj_max_price b = pj_max_price a then pj_submitted_at a \<le> pj_submitted_at b else False)"

record AiJobManager =
  jm_jobs :: "(h256, AIJob) hashmap"
  jm_pending_queue :: "PendingJob list"
  jm_jobs_by_requester :: "(addr20, h256 list) hashmap"
  jm_jobs_by_provider :: "(addr20, h256 list) hashmap"
  jm_active_jobs :: u32
  jm_completed_jobs :: u64
  jm_total_paid :: u64

datatype AiJobError =
    AiJobAlreadyExists h256
  | AiJobNotFound h256
  | InvalidJobData string
  | AiInvalidState AiJobStatus
  | JobNotAuthorized
  | PriceExceeded u64 u64

definition AiJobManager_new :: AiJobManager where
  "AiJobManager_new =
     \<lparr>jm_jobs = [], jm_pending_queue = [], jm_jobs_by_requester = [], jm_jobs_by_provider = [], jm_active_jobs = 0,
      jm_completed_jobs = 0, jm_total_paid = 0\<rparr>"

definition validate_job :: "AIJob \<Rightarrow> AiJobError + unit" where
  "validate_job j =
     (if aj_input j = [] then Err (InvalidJobData ''input cannot be empty'')
      else if aj_max_price j = 0 then Err (InvalidJobData ''max_price must be > 0'')
      else if aj_collateral j = 0 then Err (InvalidJobData ''collateral required'')
      else if aj_timeout_secs j = 0 \<or> 86400 < aj_timeout_secs j then Err (InvalidJobData ''timeout must be 1-86400 seconds'')
      else Ok ())"

definition ai_submit_job :: "AiJobManager \<Rightarrow> AIJob \<Rightarrow> AiJobError + (AiJobManager \<times> h256)" where
  "ai_submit_job s j =
     and_then (validate_job j) (\<lambda>_.
       let i = aj_id j in
       if hm_contains (jm_jobs s) i then Err (AiJobAlreadyExists i)
       else Ok (s\<lparr>jm_jobs := hm_insert i j (jm_jobs s),
                  jm_pending_queue := jm_pending_queue s @ [\<lparr>pj_id = i, pj_max_price = aj_max_price j, pj_submitted_at = aj_submitted_at j\<rparr>],
                  jm_jobs_by_requester := hm_push (aj_requester j) i (jm_jobs_by_requester s)\<rparr>, i))"

definition ai_get_job :: "AiJobManager \<Rightarrow> h256 \<Rightarrow> AIJob option" where
  "ai_get_job s i = hm_get (jm_jobs s) i"

definition get_jobs_by_requester :: "AiJobManager \<Rightarrow> addr20 \<Rightarrow> AIJob list" where
  "get_jobs_by_requester s a = hm_lookup_all (jm_jobs s) (hm_list (jm_jobs_by_requester s) a)"

definition get_jobs_by_provider :: "AiJobManager \<Rightarrow> addr20 \<Rightarrow> AIJob list" where
  "get_jobs_by_provider s a = hm_lookup_all (jm_jobs s) (hm_list (jm_jobs_by_provider s) a)"

fun first_pending :: "(h256, AIJob) hashmap \<Rightarrow> h256 \<Rightarrow> PendingJob list \<Rightarrow> AIJob option" where
  "first_pending jobs model_id [] = None"
| "first_pending jobs model_id (p # ps) =
     (case hm_get jobs (pj_id p) of
        None \<Rightarrow> first_pending jobs model_id ps
      | Some j \<Rightarrow> if aj_status j = AjPending \<and> aj_model_id j = model_id then Some j else first_pending jobs model_id ps)"

definition get_next_pending_job :: "(PendingJob list \<Rightarrow> PendingJob list) \<Rightarrow> AiJobManager \<Rightarrow> h256 \<Rightarrow> AIJob option" where
  "get_next_pending_job iter s model_id = first_pending (jm_jobs s) model_id (iter (jm_pending_queue s))"

definition ai_assign_job :: "u64 \<Rightarrow> AiJobManager \<Rightarrow> h256 \<Rightarrow> addr20 \<Rightarrow> AiJobError + AiJobManager" where
  "ai_assign_job now s i provider =
     (case hm_get (jm_jobs s) i of
        None \<Rightarrow> Err (AiJobNotFound i)
      | Some j \<Rightarrow>
          if aj_status j \<noteq> AjPending then Err (AiInvalidState (aj_status j))
          else Ok (s\<lparr>jm_jobs := hm_insert i (j\<lparr>aj_status := AjAssigned, aj_provider := Some provider, aj_assigned_at := Some now\<rparr>) (jm_jobs s),
                     jm_jobs_by_provider := hm_push provider i (jm_jobs_by_provider s),
                     jm_active_jobs := jm_active_jobs s + 1\<rparr>))"

definition ai_start_job :: "AiJobManager \<Rightarrow> h256 \<Rightarrow> addr20 \<Rightarrow> AiJobError + AiJobManager" where
  "ai_start_job s i provider =
     (case hm_get (jm_jobs s) i of
        None \<Rightarrow> Err (AiJobNotFound i)
      | Some j \<Rightarrow>
          if aj_provider j \<noteq> Some provider then Err JobNotAuthorized
          else if aj_status j \<noteq> AjAssigned then Err (AiInvalidState (aj_status j))
          else Ok (s\<lparr>jm_jobs := hm_insert i (j\<lparr>aj_status := AjRunning\<rparr>) (jm_jobs s)\<rparr>))"

definition ai_complete_job :: "u64 \<Rightarrow> AiJobManager \<Rightarrow> h256 \<Rightarrow> addr20 \<Rightarrow> string \<Rightarrow> string option \<Rightarrow> u64 \<Rightarrow> AiJobError + AiJobManager" where
  "ai_complete_job now s i provider out pr actual_price =
     (case hm_get (jm_jobs s) i of
        None \<Rightarrow> Err (AiJobNotFound i)
      | Some j \<Rightarrow>
          if aj_provider j \<noteq> Some provider then Err JobNotAuthorized
          else if aj_status j \<noteq> AjRunning \<and> aj_status j \<noteq> AjAssigned then Err (AiInvalidState (aj_status j))
          else if aj_max_price j < actual_price then Err (PriceExceeded (aj_max_price j) actual_price)
          else Ok (s\<lparr>jm_jobs := hm_insert i (j\<lparr>aj_status := AjCompleted, aj_output := Some out, aj_proof := pr,
                        aj_actual_price := Some actual_price, aj_completed_at := Some now\<rparr>) (jm_jobs s),
                     jm_active_jobs := saturating_sub (jm_active_jobs s) 1, jm_completed_jobs := jm_completed_jobs s + 1,
                     jm_total_paid := jm_total_paid s + actual_price\<rparr>))"

definition ai_fail_job :: "u64 \<Rightarrow> AiJobManager \<Rightarrow> h256 \<Rightarrow> string \<Rightarrow> AiJobError + AiJobManager" where
  "ai_fail_job now s i why =
     (case hm_get (jm_jobs s) i of
        None \<Rightarrow> Err (AiJobNotFound i)
      | Some j \<Rightarrow>
          Ok (s\<lparr>jm_jobs := hm_insert i (j\<lparr>aj_status := AjFailed, aj_error := Some why, aj_completed_at := Some now\<rparr>) (jm_jobs s),
                jm_active_jobs := saturating_sub (jm_active_jobs s) 1\<rparr>))"

definition ai_cancel_job :: "u64 \<Rightarrow> AiJobManager \<Rightarrow> h256 \<Rightarrow> addr20 \<Rightarrow> AiJobError + (AiJobManager \<times> u64)" where
  "ai_cancel_job now s i requester =
     (case hm_get (jm_jobs s) i of
        None \<Rightarrow> Err (AiJobNotFound i)
      | Some j \<Rightarrow>
          if aj_requester j \<noteq> requester then Err JobNotAuthorized
          else if aj_status j \<noteq> AjPending then Err (AiInvalidState (aj_status j))
          else Ok (s\<lparr>jm_jobs := hm_insert i (j\<lparr>aj_status := AjCancelled, aj_completed_at := Some now\<rparr>) (jm_jobs s)\<rparr>, aj_collateral j))"

definition expire_job :: "u64 \<Rightarrow> AIJob \<Rightarrow> AIJob \<times> bool" where
  "expire_job now j =
     (if (aj_status j = AjRunning \<or> aj_status j = AjAssigned)
         \<and> (case aj_assigned_at j of None \<Rightarrow> aj_submitted_at j | Some t \<Rightarrow> t) + ucast (aj_timeout_secs j) < now
      then (j\<lparr>aj_status := AjExpired, aj_error := Some ''Job timed out'', aj_completed_at := Some now\<rparr>, True)
      else (j, False))"

definition check_expired_jobs :: "u64 \<Rightarrow> AiJobManager \<Rightarrow> AiJobManager \<times> h256 list" where
  "check_expired_jobs now s =
     (case hm_sweep (expire_job now) (jm_jobs s) of (jobs, expired) \<Rightarrow>
        (s\<lparr>jm_jobs := jobs,
           jm_active_jobs := (if expired = [] then jm_active_jobs s else saturating_sub (jm_active_jobs s) (of_nat (length expired)))\<rparr>,
         expired))"

definition list_pending_jobs :: "AiJobManager \<Rightarrow> nat \<Rightarrow> AIJob list" where
  "list_pending_jobs s limit = take limit (filter (\<lambda>j. aj_status j = AjPending) (hm_values (jm_jobs s)))"

record AiJobStats =
  js_total_jobs :: nat
  js_pending_jobs :: nat
  js_running_jobs :: nat
  js_completed_jobs :: u64
  js_failed_jobs :: nat
  js_total_paid_pyrax :: u64

definition ai_job_stats :: "AiJobManager \<Rightarrow> AiJobStats" where
  "ai_job_stats s =
     (let count = (\<lambda>st. length (filter (\<lambda>j. aj_status j = st) (hm_values (jm_jobs s))))
      in \<lparr>js_total_jobs = length (jm_jobs s), js_pending_jobs = count AjPending, js_running_jobs = count AjRunning,
          js_completed_jobs = jm_completed_jobs s, js_failed_jobs = count AjFailed,
          js_total_paid_pyrax = jm_total_paid s div 100000000\<rparr>)"

subsection \<open>Names\<close>

text \<open>The name of a framework or of a model type reads back as it, for every reading that leaves lower case alone.\<close>

lemma names_round_trip:
  "lower (framework_as_str f) = framework_as_str f \<Longrightarrow> framework_from_str lower (framework_as_str f) = Some f"
  "lower (ai_model_type_as_str t) = ai_model_type_as_str t \<Longrightarrow> ai_model_type_from_str lower (ai_model_type_as_str t) = Some t"
  by (cases f; simp add: framework_from_str_def Let_def) (cases t; simp add: ai_model_type_from_str_def Let_def)

subsection \<open>Runs of the registry\<close>

datatype ai_registry_op =
    ArModel AiModel
  | ArDeactivate h256 addr20
  | ArInference h256 u32
  | ArProvider AIProvider
  | ArCompletion addr20 bool u32

definition or_keep :: "'s \<Rightarrow> 's option \<Rightarrow> 's" where
  "or_keep s r = (case r of None \<Rightarrow> s | Some s' \<Rightarrow> s')"

lemma or_keep_simps [simp]: "or_keep s None = s" "or_keep s (Some s') = s'"
  by (simp_all add: or_keep_def)

fun ai_registry_step :: "AiRegistry \<Rightarrow> ai_registry_op \<Rightarrow> AiRegistry" where
  "ai_registry_step r (ArModel m) = (case register_model r m of Err _ \<Rightarrow> r | Ok (r', _) \<Rightarrow> r')"
| "ai_registry_step r (ArDeactivate i caller) = ok_or r (deactivate_model r i caller)"
| "ai_registry_step r (ArInference i ms) = or_keep r (record_inference r i ms)"
| "ai_registry_step r (ArProvider p) = ok_or r (register_provider r p)"
| "ai_registry_step r (ArCompletion a success ms) = or_keep r (record_job_completion r a success ms)"

definition provider_ok :: "AIProvider \<Rightarrow> bool" where
  "provider_ok p = (validate_provider p = Ok () \<and> AI_MIN_STAKE \<le> ap_stake p)"

definition ai_registry_inv :: "AiRegistry \<Rightarrow> bool" where
  "ai_registry_inv r \<longleftrightarrow>
     (\<forall>i m. hm_get (ar_models r) i = Some m \<longrightarrow> am_id m = i \<and> validate_model m = Ok () \<and> i \<in> set (hm_list (ar_models_by_owner r) (am_owner m)))
     \<and> (\<forall>a p. hm_get (ar_providers r) a = Some p \<longrightarrow> ap_address p = a \<and> provider_ok p)"

lemma validate_model_updates [simp]:
  "validate_model (m\<lparr>am_is_active := b\<rparr>) = validate_model m"
  "validate_model (m\<lparr>am_avg_latency_ms := l, am_total_inferences := n\<rparr>) = validate_model m"
  by (simp_all add: validate_model_def)

text \<open>The effect of every operation on a model that is there already, and on a provider.\<close>

lemma ai_registry_step_models:
  assumes "hm_get (ar_models (ai_registry_step r x)) i = Some m'"
  shows "(\<exists>m. hm_get (ar_models r) i = Some m \<and> am_id m' = am_id m \<and> am_owner m' = am_owner m \<and> validate_model m' = validate_model m
        \<and> (am_is_active m' \<noteq> am_is_active m \<longrightarrow> x = ArDeactivate i (am_owner m)))
    \<or> (x = ArModel m' \<and> i = am_id m' \<and> validate_model m' = Ok () \<and> hm_get (ar_models r) i = None
        \<and> ar_models_by_owner (ai_registry_step r x) = hm_push (am_owner m') i (ar_models_by_owner r))"
proof (cases x)
  case (ArModel m)
  show ?thesis
  proof (cases "register_model r m")
    case (Inr q)
    then have "validate_model m = Ok ()" "hm_get (ar_models r) (am_id m) = None"
      "ar_models (ai_registry_step r x) = hm_insert (am_id m) m (ar_models r)"
      "ar_models_by_owner (ai_registry_step r x) = hm_push (am_owner m) (am_id m) (ar_models_by_owner r)"
      using ArModel by (auto simp: register_model_def Let_def hm_contains_def and_then_def split: if_splits sum.splits)
    then show ?thesis using assms ArModel by (cases "i = am_id m") simp_all
  qed (use assms ArModel in simp)
next
  case (ArDeactivate j caller)
  show ?thesis
  proof (cases "deactivate_model r j caller")
    case (Inr r')
    then obtain m where "hm_get (ar_models r) j = Some m" "am_owner m = caller"
      "ar_models r' = hm_insert j (m\<lparr>am_is_active := False\<rparr>) (ar_models r)"
      by (auto simp: deactivate_model_def split: if_splits option.splits)
    then show ?thesis using assms ArDeactivate Inr by (cases "i = j") auto
  qed (use assms ArDeactivate in simp)
next
  case (ArInference j ms)
  show ?thesis
  proof (cases "record_inference r j ms")
    case (Some r')
    then consider "r' = r" | m l n where "hm_get (ar_models r) j = Some m"
      "ar_models r' = hm_insert j (m\<lparr>am_avg_latency_ms := l, am_total_inferences := n\<rparr>) (ar_models r)"
      by (auto simp: record_inference_def Let_def split: if_splits option.splits)
    then show ?thesis
    proof cases
      case 1
      then show ?thesis using assms ArInference Some by simp
    next
      case (2 m l n)
      then show ?thesis using assms ArInference Some by (cases "i = j") auto
    qed
  qed (use assms ArInference in simp)
next
  case (ArProvider p)
  have "ar_models (ok_or r (register_provider r p)) = ar_models r"
    by (simp add: register_provider_def and_then_def Let_def split: sum.split)
  then show ?thesis using assms ArProvider by simp
next
  case (ArCompletion a success ms)
  have "ar_models (or_keep r (record_job_completion r a success ms)) = ar_models r"
    by (simp add: record_job_completion_def Let_def split: option.split)
  then show ?thesis using assms ArCompletion by simp
qed

lemma job_outcome_keeps:
  "validate_provider (job_outcome p b) = validate_provider p" "ap_stake (job_outcome p b) = ap_stake p" "ap_address (job_outcome p b) = ap_address p"
  by (simp_all add: job_outcome_def validate_provider_def)

lemma ai_registry_step_providers:
  assumes "hm_get (ar_providers (ai_registry_step r x)) a = Some p'"
  shows "(\<exists>p. hm_get (ar_providers r) a = Some p \<and> ap_address p' = ap_address p \<and> validate_provider p' = validate_provider p \<and> ap_stake p' = ap_stake p)
    \<or> (ap_address p' = a \<and> provider_ok p')"
proof (cases x)
  case (ArProvider p)
  then show ?thesis using assms
    by (auto simp: register_provider_def provider_ok_def and_then_def Let_def not_less split: if_splits sum.splits)
next
  case (ArCompletion b success ms)
  show ?thesis
  proof (cases "hm_get (ar_providers r) b")
    case (Some p)
    have v: "validate_provider (job_outcome p success\<lparr>ap_avg_response_ms := t\<rparr>) = validate_provider p" for t
      by (simp add: validate_provider_def job_outcome_def)
    show ?thesis using assms ArCompletion Some
      by (auto simp: record_job_completion_def Let_def v job_outcome_keeps split: if_splits)
  qed (use assms ArCompletion in \<open>simp add: record_job_completion_def\<close>)
qed (use assms in \<open>auto simp: register_model_def deactivate_model_def record_inference_def and_then_def Let_def
  split: if_splits option.splits sum.splits\<close>)

lemma registry_owner_index_grows:
  "set (hm_list (ar_models_by_owner r) a) \<subseteq> set (hm_list (ar_models_by_owner (ai_registry_step r x)) a)"
proof (cases x)
  case (ArModel m)
  then show ?thesis by (auto simp: register_model_def Let_def and_then_def split: if_splits sum.splits)
next
  case (ArProvider p)
  then show ?thesis by (auto simp: register_provider_def Let_def and_then_def split: sum.splits)
qed (auto simp: deactivate_model_def record_inference_def record_job_completion_def Let_def split: option.splits)

lemma ai_registry_step_inv:
  assumes "ai_registry_inv r"
  shows "ai_registry_inv (ai_registry_step r x)"
  unfolding ai_registry_inv_def
proof (intro conjI allI impI)
  fix i m' assume m': "hm_get (ar_models (ai_registry_step r x)) i = Some m'"
  have old: "am_id m = i \<and> validate_model m = Ok () \<and> i \<in> set (hm_list (ar_models_by_owner r) (am_owner m))"
    if "hm_get (ar_models r) i = Some m" for m
    using assms that unfolding ai_registry_inv_def by blast
  have "am_id m' = i \<and> validate_model m' = Ok () \<and> i \<in> set (hm_list (ar_models_by_owner (ai_registry_step r x)) (am_owner m'))"
    using ai_registry_step_models [OF m']
  proof (elim disjE exE conjE)
    fix m assume "hm_get (ar_models r) i = Some m" "am_id m' = am_id m" "am_owner m' = am_owner m" "validate_model m' = validate_model m"
    then show ?thesis using old registry_owner_index_grows [of r "am_owner m" x] by auto
  qed simp
  then show "am_id m' = i" "validate_model m' = Ok ()" "i \<in> set (hm_list (ar_models_by_owner (ai_registry_step r x)) (am_owner m'))"
    by simp_all
next
  fix a p' assume "hm_get (ar_providers (ai_registry_step r x)) a = Some p'"
  from ai_registry_step_providers [OF this] show "ap_address p' = a" "provider_ok p'"
    using assms unfolding ai_registry_inv_def provider_ok_def by auto
qed

interpretation ai_registry: machine AiRegistry_new ai_registry_step ai_registry_inv
  by unfold_locales (simp_all add: ai_registry_step_inv, simp add: ai_registry_inv_def AiRegistry_new_def)

text \<open>
  What the registry holds is valid: in every reachable state a model passes validation, is stored under its own
  identifier and is found among the models of its owner; a provider passes validation and has at least the
  minimum stake.
\<close>

theorem registry_entries_valid:
  assumes "reachable ai_registry_step AiRegistry_new r"
  shows "(\<forall>i m. get_model r i = Some m \<longrightarrow> am_id m = i \<and> validate_model m = Ok () \<and> m \<in> set (get_models_by_owner r (am_owner m)))
    \<and> (\<forall>a p. get_provider r a = Some p \<longrightarrow> ap_address p = a \<and> validate_provider p = Ok () \<and> AI_MIN_STAKE \<le> ap_stake p)"
proof -
  have "m \<in> set (hm_lookup_all ms ks)" if "hm_get ms i = Some m" "i \<in> set ks" for m :: AiModel and i ms ks
    using that by (force simp: hm_lookup_all_def List.map_filter_def)
  note look = this
  have m: "am_id m = i \<and> validate_model m = Ok () \<and> i \<in> set (hm_list (ar_models_by_owner r) (am_owner m))"
    if "hm_get (ar_models r) i = Some m" for i m
    using ai_registry.inv_reachable [OF assms] that unfolding ai_registry_inv_def by blast
  have p: "ap_address p = a \<and> validate_provider p = Ok () \<and> AI_MIN_STAKE \<le> ap_stake p" if "hm_get (ar_providers r) a = Some p" for a p
    using ai_registry.inv_reachable [OF assms] that unfolding ai_registry_inv_def provider_ok_def by blast
  show ?thesis
    unfolding get_model_def get_provider_def get_models_by_owner_def
  proof (intro conjI allI impI)
    fix i k assume k: "hm_get (ar_models r) i = Some k"
    show "am_id k = i" "validate_model k = Ok ()" using m [OF k] by simp_all
    show "k \<in> set (hm_lookup_all (ar_models r) (hm_list (ar_models_by_owner r) (am_owner k)))"
      using look [OF k] m [OF k] by blast
  qed (use p in simp_all)
qed

text \<open>
  Only its owner takes a model out of service: an operation after which a model that was active is not active is
  a deactivation by the owner of the model.
\<close>

theorem model_deactivated_by_owner:
  assumes "get_model r i = Some m" and "am_is_active m" and "get_model (ai_registry_step r x) i = Some m'" and "\<not> am_is_active m'"
  shows "x = ArDeactivate i (am_owner m)"
  using ai_registry_step_models [OF assms(3) [unfolded get_model_def]] assms(1,2,4) unfolding get_model_def by auto

text \<open>The count of active providers follows no change of a provider: registered again as inactive, it still counts.\<close>

lemma inactive_provider_counted:
  assumes "provider_ok p" and "ap_is_active p"
  shows "let r = run ai_registry_step AiRegistry_new [ArProvider p, ArProvider (p\<lparr>ap_is_active := False\<rparr>)]
    in ar_active_provider_count r = 1 \<and> as_active_providers (ai_registry_stats r) = 0"
proof -
  have "validate_provider (p\<lparr>ap_is_active := False\<rparr>) = validate_provider p" by (simp add: validate_provider_def)
  then show ?thesis
    using assms by (simp add: provider_ok_def register_provider_def AiRegistry_new_def Let_def not_less [symmetric]
        ai_registry_stats_def hm_insert_def hm_values_def hm_contains_def hm_get_def)
qed

subsection \<open>Runs of the job manager\<close>

datatype ai_op =
    AjSubmit AIJob
  | AjAssign u64 h256 addr20
  | AjStart h256 addr20
  | AjComplete u64 h256 addr20 string "string option" u64
  | AjFail u64 h256 string
  | AjCancel u64 h256 addr20
  | AjExpire u64

fun ai_step :: "AiJobManager \<Rightarrow> ai_op \<Rightarrow> AiJobManager" where
  "ai_step s (AjSubmit j) = (case ai_submit_job s j of Err _ \<Rightarrow> s | Ok (s', _) \<Rightarrow> s')"
| "ai_step s (AjAssign now i p) = ok_or s (ai_assign_job now s i p)"
| "ai_step s (AjStart i p) = ok_or s (ai_start_job s i p)"
| "ai_step s (AjComplete now i p out pr price) = ok_or s (ai_complete_job now s i p out pr price)"
| "ai_step s (AjFail now i why) = ok_or s (ai_fail_job now s i why)"
| "ai_step s (AjCancel now i a) = (case ai_cancel_job now s i a of Err _ \<Rightarrow> s | Ok (s', _) \<Rightarrow> s')"
| "ai_step s (AjExpire now) = fst (check_expired_jobs now s)"

text \<open>
  Jobs move along their life only by those entitled to it: when a step changes the status of a job, the new
  status was reached from the right one, a completion was reported by the assigned provider for at most the
  maximum price, and a cancellation came from the requester.
\<close>

theorem ai_job_moves:
  assumes "ai_get_job s i = Some j" and "ai_get_job (ai_step s x) i = Some j'" and "aj_status j' \<noteq> aj_status j"
  shows "case aj_status j' of
      AjPending \<Rightarrow> False
    | AjAssigned \<Rightarrow> aj_status j = AjPending
    | AjRunning \<Rightarrow> aj_status j = AjAssigned \<and> (\<exists>p. aj_provider j = Some p \<and> x = AjStart i p)
    | AjCompleted \<Rightarrow> aj_status j \<in> {AjAssigned, AjRunning}
        \<and> (\<exists>now p out pr price. x = AjComplete now i p out pr price \<and> aj_provider j = Some p \<and> price \<le> aj_max_price j
             \<and> aj_actual_price j' = Some price)
    | AjFailed \<Rightarrow> (\<exists>now why. x = AjFail now i why)
    | AjCancelled \<Rightarrow> aj_status j = AjPending \<and> (\<exists>now. x = AjCancel now i (aj_requester j))
    | AjExpired \<Rightarrow> aj_status j \<in> {AjAssigned, AjRunning} \<and> (\<exists>now. x = AjExpire now)"
proof -
  have g: "hm_get (jm_jobs s) i = Some j" "hm_get (jm_jobs (ai_step s x)) i = Some j'"
    using assms(1,2) by (simp_all add: ai_get_job_def)
  show ?thesis
  proof (cases x)
    case (AjSubmit k)
    then show ?thesis using g assms(3)
      by (auto simp: ai_submit_job_def and_then_def Let_def hm_contains_def split: if_splits sum.splits)
  next
    case (AjExpire now)
    have "jm_jobs (ai_step s x) = fst (hm_sweep (expire_job now) (jm_jobs s))"
      using AjExpire by (simp add: check_expired_jobs_def split: prod.split)
    then have "j' = fst (expire_job now j)" using g by simp
    then show ?thesis using assms(3) AjExpire by (auto simp: expire_job_def split: if_splits)
  qed (use g assms(3) in \<open>auto simp: ai_assign_job_def ai_start_job_def ai_complete_job_def ai_fail_job_def ai_cancel_job_def
    not_less split: if_splits option.splits\<close>)
qed

text \<open>Every job is in the queue, under its own identifier.\<close>

definition queue_covers :: "AiJobManager \<Rightarrow> bool" where
  "queue_covers s \<longleftrightarrow> (\<forall>i j. hm_get (jm_jobs s) i = Some j \<longrightarrow> aj_id j = i \<and> (\<exists>p \<in> set (jm_pending_queue s). pj_id p = i))"

lemma ai_step_jobs:
  assumes "hm_get (jm_jobs (ai_step s x)) i = Some j'"
  shows "(\<exists>j. hm_get (jm_jobs s) i = Some j \<and> aj_id j' = aj_id j \<and> jm_pending_queue (ai_step s x) = jm_pending_queue s
        \<and> aj_max_price j' = aj_max_price j)
    \<or> (\<exists>j. hm_get (jm_jobs s) i = Some j \<and> j' = j \<and> set (jm_pending_queue s) \<subseteq> set (jm_pending_queue (ai_step s x)))
    \<or> (x = AjSubmit j' \<and> i = aj_id j' \<and> (\<exists>p \<in> set (jm_pending_queue (ai_step s x)). pj_id p = i))"
proof (cases x)
  case (AjSubmit k)
  then show ?thesis using assms
    by (auto simp: ai_submit_job_def and_then_def Let_def split: if_splits sum.splits)
next
  case (AjExpire now)
  have "jm_jobs (ai_step s x) = fst (hm_sweep (expire_job now) (jm_jobs s))" "jm_pending_queue (ai_step s x) = jm_pending_queue s"
    using AjExpire by (simp_all add: check_expired_jobs_def split: prod.split)
  then show ?thesis using assms by (auto simp: expire_job_def)
qed (use assms in \<open>auto simp: ai_assign_job_def ai_start_job_def ai_complete_job_def ai_fail_job_def ai_cancel_job_def
  split: if_splits option.splits\<close>)

lemma queue_covers_step:
  assumes "queue_covers s"
  shows "queue_covers (ai_step s x)"
  unfolding queue_covers_def
proof (intro allI impI)
  fix i j' assume j': "hm_get (jm_jobs (ai_step s x)) i = Some j'"
  have old: "aj_id j = i \<and> (\<exists>p \<in> set (jm_pending_queue s). pj_id p = i)" if "hm_get (jm_jobs s) i = Some j" for j
    using assms that unfolding queue_covers_def by blast
  from ai_step_jobs [OF j'] show "aj_id j' = i \<and> (\<exists>p \<in> set (jm_pending_queue (ai_step s x)). pj_id p = i)"
  proof (elim disjE exE conjE)
    fix j assume "hm_get (jm_jobs s) i = Some j" "j' = j" "set (jm_pending_queue s) \<subseteq> set (jm_pending_queue (ai_step s x))"
    then show ?thesis using old by blast
  qed (use old in simp_all)
qed

interpretation ai_queue: machine AiJobManager_new ai_step queue_covers
  by unfold_locales (simp_all add: queue_covers_step, simp add: queue_covers_def AiJobManager_new_def)

lemma first_pending_some:
  "first_pending jobs model_id ps = Some j \<Longrightarrow> aj_status j = AjPending \<and> aj_model_id j = model_id \<and> (\<exists>i. hm_get jobs i = Some j)"
  by (induction ps) (auto split: option.splits if_splits)

lemma first_pending_none:
  "first_pending jobs model_id ps = None \<longleftrightarrow>
    (\<forall>p \<in> set ps. \<forall>j. hm_get jobs (pj_id p) = Some j \<longrightarrow> \<not> (aj_status j = AjPending \<and> aj_model_id j = model_id))"
  by (induction ps) (auto split: option.split)

text \<open>
  A provider that asks for work for a model gets some whenever there is some: in every reachable state, in
  whatever order the queue is visited, the answer is a pending job for that model if one exists, and nothing
  otherwise.
\<close>

theorem pending_job_found:
  assumes "reachable ai_step AiJobManager_new s" and "\<And>q. set (iter q) = set q"
  shows "case get_next_pending_job iter s model_id of
      None \<Rightarrow> (\<nexists>i j. ai_get_job s i = Some j \<and> aj_status j = AjPending \<and> aj_model_id j = model_id)
    | Some j \<Rightarrow> aj_status j = AjPending \<and> aj_model_id j = model_id \<and> ai_get_job s (aj_id j) = Some j"
proof -
  have inv: "queue_covers s" by (rule ai_queue.inv_reachable [OF assms(1)])
  show ?thesis
  proof (cases "get_next_pending_job iter s model_id")
    case None
    then have no: "\<forall>p \<in> set (jm_pending_queue s). \<forall>j. hm_get (jm_jobs s) (pj_id p) = Some j \<longrightarrow>
        \<not> (aj_status j = AjPending \<and> aj_model_id j = model_id)"
      by (simp only: get_next_pending_job_def first_pending_none assms(2))
    have "\<not> (aj_status j = AjPending \<and> aj_model_id j = model_id)" if "hm_get (jm_jobs s) i = Some j" for i j
    proof -
      obtain p where "p \<in> set (jm_pending_queue s)" "pj_id p = i" using inv \<open>hm_get (jm_jobs s) i = Some j\<close> unfolding queue_covers_def by blast
      then show ?thesis using no \<open>hm_get (jm_jobs s) i = Some j\<close> by simp
    qed
    then show ?thesis using None by (auto simp: ai_get_job_def)
  next
    case (Some j)
    from first_pending_some [OF this [unfolded get_next_pending_job_def]] obtain i where
      j: "aj_status j = AjPending" "aj_model_id j = model_id" "hm_get (jm_jobs s) i = Some j" by blast
    moreover from j(3) have "aj_id j = i" using inv unfolding queue_covers_def by blast
    ultimately show ?thesis using Some by (simp add: ai_get_job_def)
  qed
qed

subsection \<open>What is paid\<close>

text \<open>A submission as a client makes it: pending, with neither provider nor price.\<close>

fun fresh_op :: "ai_op \<Rightarrow> bool" where
  "fresh_op (AjSubmit j) = (aj_status j = AjPending \<and> aj_actual_price j = None)"
| "fresh_op _ = True"

definition price_paid :: "AIJob \<Rightarrow> u64" where
  "price_paid j = (case aj_actual_price j of None \<Rightarrow> 0 | Some p \<Rightarrow> p)"

definition unpaid_ok :: "AIJob \<Rightarrow> bool" where
  "unpaid_ok j = (price_paid j \<le> aj_max_price j \<and> (aj_status j \<in> {AjPending, AjAssigned, AjRunning} \<longrightarrow> aj_actual_price j = None))"

definition paid_inv :: "AiJobManager \<Rightarrow> bool" where
  "paid_inv s \<longleftrightarrow> jm_total_paid s = sum_list (map price_paid (hm_values (jm_jobs s)))
     \<and> (\<forall>i j. hm_get (jm_jobs s) i = Some j \<longrightarrow> unpaid_ok j)"

definition open_status :: "AIJob \<Rightarrow> bool" where
  "open_status j = (aj_status j \<in> {AjPending, AjAssigned, AjRunning})"

lemma paid_inv_status:
  assumes inv: "paid_inv s" and j: "hm_get (jm_jobs s) i = Some j"
    and j': "aj_actual_price j' = aj_actual_price j" "aj_max_price j' = aj_max_price j" "open_status j' \<Longrightarrow> open_status j"
    and s': "jm_jobs s' = hm_insert i j' (jm_jobs s)" "jm_total_paid s' = jm_total_paid s"
  shows "paid_inv s'"
proof -
  have pp: "price_paid j' = price_paid j" using j'(1) by (simp add: price_paid_def)
  have "unpaid_ok j" using inv j unfolding paid_inv_def by blast
  then have ok: "unpaid_ok j'" using pp j' unfolding unpaid_ok_def open_status_def by metis
  have "jm_total_paid s' = sum_list (map price_paid (hm_values (jm_jobs s')))"
    using inv pp by (simp add: s' sum_insert_present [OF j] paid_inv_def)
  moreover have "unpaid_ok u" if "hm_get (jm_jobs s') k = Some u" for k u
    using inv ok that unfolding s' paid_inv_def by (cases "k = i") auto
  ultimately show ?thesis unfolding paid_inv_def by blast
qed

lemma paid_inv_step:
  assumes inv: "paid_inv s" and fresh: "fresh_op x"
  shows "paid_inv (ai_step s x)"
proof (cases x)
  case (AjSubmit j)
  show ?thesis
  proof (cases "ai_submit_job s j")
    case (Inr r)
    then have "hm_get (jm_jobs s) (aj_id j) = None" "jm_jobs (ai_step s x) = hm_insert (aj_id j) j (jm_jobs s)"
      "jm_total_paid (ai_step s x) = jm_total_paid s"
      using AjSubmit by (auto simp: ai_submit_job_def and_then_def Let_def hm_contains_def split: if_splits sum.splits)
    moreover have "price_paid j = 0" "unpaid_ok j" using fresh AjSubmit by (simp_all add: price_paid_def unpaid_ok_def)
    ultimately show ?thesis using inv by (auto simp: paid_inv_def sum_insert_absent)
  qed (use AjSubmit inv in simp)
next
  case (AjComplete now i p out pr price)
  show ?thesis
  proof (cases "ai_complete_job now s i p out pr price")
    case (Inr s')
    then obtain j where j: "hm_get (jm_jobs s) i = Some j" "aj_status j \<in> {AjRunning, AjAssigned}" "price \<le> aj_max_price j"
      and s': "jm_jobs s' = hm_insert i (j\<lparr>aj_status := AjCompleted, aj_output := Some out, aj_proof := pr,
          aj_actual_price := Some price, aj_completed_at := Some now\<rparr>) (jm_jobs s)" "jm_total_paid s' = jm_total_paid s + price"
      by (auto simp: ai_complete_job_def not_less split: option.splits if_splits)
    have "price_paid j = 0" using inv j(1,2) by (auto simp: paid_inv_def unpaid_ok_def price_paid_def)
    then have "paid_inv s'"
      using inv j by (auto simp: paid_inv_def s' sum_insert_present [OF j(1)] unpaid_ok_def price_paid_def)
    then show ?thesis using Inr AjComplete by simp
  qed (use AjComplete inv in simp)
next
  case (AjExpire now)
  have e: "price_paid (fst (expire_job now j)) = price_paid j" "unpaid_ok j \<Longrightarrow> unpaid_ok (fst (expire_job now j))" for j
    by (auto simp: expire_job_def price_paid_def unpaid_ok_def)
  have "jm_jobs (ai_step s x) = fst (hm_sweep (expire_job now) (jm_jobs s))" "jm_total_paid (ai_step s x) = jm_total_paid s"
    using AjExpire by (simp_all add: check_expired_jobs_def split: prod.split)
  moreover have "sum_list (map price_paid (hm_values (fst (hm_sweep (expire_job now) (jm_jobs s))))) = sum_list (map price_paid (hm_values (jm_jobs s)))"
    by (simp add: hm_sweep_def hm_values_def comp_def case_prod_unfold e)
  ultimately show ?thesis using inv e(2) by (auto simp: paid_inv_def)
next
  case (AjAssign now i p)
  show ?thesis
  proof (cases "ai_assign_job now s i p")
    case (Inr s')
    then obtain j where j: "hm_get (jm_jobs s) i = Some j" and st: "aj_status j = AjPending" and tot: "jm_total_paid s' = jm_total_paid s"
      and jobs: "jm_jobs s' = hm_insert i (j\<lparr>aj_status := AjAssigned, aj_provider := Some p, aj_assigned_at := Some now\<rparr>) (jm_jobs s)"
      by (auto simp: ai_assign_job_def split: option.splits if_splits)
    have "paid_inv s'" by (rule paid_inv_status [OF inv j _ _ _ jobs tot]) (simp_all add: open_status_def st)
    then show ?thesis using Inr AjAssign by (simp)
  qed (use AjAssign inv in simp)
next
  case (AjStart i p)
  show ?thesis
  proof (cases "ai_start_job s i p")
    case (Inr s')
    then obtain j where j: "hm_get (jm_jobs s) i = Some j" and st: "aj_status j = AjAssigned" and tot: "jm_total_paid s' = jm_total_paid s"
      and jobs: "jm_jobs s' = hm_insert i (j\<lparr>aj_status := AjRunning\<rparr>) (jm_jobs s)"
      by (auto simp: ai_start_job_def split: option.splits if_splits)
    have "paid_inv s'" by (rule paid_inv_status [OF inv j _ _ _ jobs tot]) (simp_all add: open_status_def st)
    then show ?thesis using Inr AjStart by (simp)
  qed (use AjStart inv in simp)
next
  case (AjFail now i why)
  show ?thesis
  proof (cases "ai_fail_job now s i why")
    case (Inr s')
    then obtain j where j: "hm_get (jm_jobs s) i = Some j" and tot: "jm_total_paid s' = jm_total_paid s"
      and jobs: "jm_jobs s' = hm_insert i (j\<lparr>aj_status := AjFailed, aj_error := Some why, aj_completed_at := Some now\<rparr>) (jm_jobs s)"
      by (auto simp: ai_fail_job_def split: option.splits)
    have "paid_inv s'" by (rule paid_inv_status [OF inv j _ _ _ jobs tot]) (simp_all add: open_status_def)
    then show ?thesis using Inr AjFail by (simp)
  qed (use AjFail inv in simp)
next
  case (AjCancel now i a)
  show ?thesis
  proof (cases "ai_cancel_job now s i a")
    case (Inr q)
    then obtain j where j: "hm_get (jm_jobs s) i = Some j" and tot: "jm_total_paid (fst q) = jm_total_paid s"
      and jobs: "jm_jobs (fst q) = hm_insert i (j\<lparr>aj_status := AjCancelled, aj_completed_at := Some now\<rparr>) (jm_jobs s)"
      by (auto simp: ai_cancel_job_def split: option.splits if_splits)
    have "paid_inv (fst q)" by (rule paid_inv_status [OF inv j _ _ _ jobs tot]) (simp_all add: open_status_def)
    then show ?thesis using Inr AjCancel by (simp add: split_def)
  qed (use AjCancel inv in simp)
qed

lemma paid_inv_run: "paid_inv s \<Longrightarrow> list_all fresh_op xs \<Longrightarrow> paid_inv (run ai_step s xs)"
  by (induction xs arbitrary: s) (simp_all add: paid_inv_step)

text \<open>
  Payments add up: when jobs are submitted pending and without a price, then after any sequence of operations
  the total paid is the sum of the prices of the jobs, and no job cost more than its maximum price.
\<close>

theorem ai_payments_accounted:
  assumes "list_all fresh_op xs"
  defines "s \<equiv> run ai_step AiJobManager_new xs"
  shows "jm_total_paid s = sum_list (map price_paid (hm_values (jm_jobs s)))
    \<and> (\<forall>i j. ai_get_job s i = Some j \<longrightarrow> price_paid j \<le> aj_max_price j)"
proof -
  have "paid_inv AiJobManager_new" by (simp add: paid_inv_def AiJobManager_new_def hm_values_def)
  from paid_inv_run [OF this assms(1)] show ?thesis
    unfolding s_def paid_inv_def unpaid_ok_def ai_get_job_def by blast
qed

text \<open>The order of the queue is the wrong way round: of two entries the cheaper one is the greater, so it comes out first.\<close>

lemma cheaper_job_first: "pj_max_price a < pj_max_price b \<Longrightarrow> pending_le b a \<and> \<not> pending_le a b"
  by (auto simp: pending_le_def)

text \<open>Failing a job looks at no status: a completed and paid job can be turned into a failed one by anyone.\<close>

lemma paid_job_fails:
  assumes "ai_get_job s i = Some j" and "aj_status j = AjCompleted"
  shows "\<exists>s' j'. ai_fail_job now s i why = Ok s' \<and> ai_get_job s' i = Some j' \<and> aj_status j' = AjFailed \<and> jm_total_paid s' = jm_total_paid s"
  using assms by (simp add: ai_fail_job_def ai_get_job_def)

subsection \<open>Witnesses\<close>

definition example_ai_model :: AiModel where
  "example_ai_model =
     \<lparr>am_id = h256_zero, am_name = ''m'', am_version = ''1'', am_owner = [1], am_framework = FwONNX, am_model_type = AmLLM,
      am_size_bytes = 5, am_ipfs_cid = ''c'', am_input_schema = [], am_output_schema = [], am_min_gpu_memory_mb = 0,
      am_price_per_1k = 0, am_registered_at = 0, am_registered_height = 0, am_is_active = True, am_total_inferences = 0,
      am_avg_latency_ms = 0\<rparr>"

definition example_ai_registry :: AiRegistry where
  "example_ai_registry = run ai_registry_step AiRegistry_new [ArModel example_ai_model]"

lemma example_ai_registry_model: "get_model example_ai_registry h256_zero = Some example_ai_model"
  by (simp add: example_ai_registry_def register_model_def AiRegistry_new_def example_ai_model_def validate_model_def get_model_def Let_def)

theorem registry_entries_valid_witness:
  "get_model example_ai_registry h256_zero = Some example_ai_model
    \<and> example_ai_model \<in> set (get_models_by_owner example_ai_registry [1])"
proof -
  have "reachable ai_registry_step AiRegistry_new example_ai_registry"
    unfolding example_ai_registry_def by (rule reachable_run)
  from registry_entries_valid [OF this] have "example_ai_model \<in> set (get_models_by_owner example_ai_registry (am_owner example_ai_model))"
    using example_ai_registry_model by blast
  moreover have "am_owner example_ai_model = [1]" by (simp add: example_ai_model_def)
  ultimately show ?thesis using example_ai_registry_model by simp
qed

theorem model_deactivated_by_owner_witness:
  "ArDeactivate h256_zero [1] = ArDeactivate h256_zero (am_owner example_ai_model)
    \<and> get_model (ai_registry_step example_ai_registry (ArDeactivate h256_zero [1])) h256_zero
        = Some (example_ai_model\<lparr>am_is_active := False\<rparr>)"
proof -
  have f: "am_owner example_ai_model = [1]" "am_is_active example_ai_model" by (simp_all add: example_ai_model_def)
  have got: "get_model (ai_registry_step example_ai_registry (ArDeactivate h256_zero [1])) h256_zero
      = Some (example_ai_model\<lparr>am_is_active := False\<rparr>)"
    using example_ai_registry_model f(1) by (simp add: get_model_def deactivate_model_def)
  have "\<not> am_is_active (example_ai_model\<lparr>am_is_active := False\<rparr>)" by simp
  from model_deactivated_by_owner [OF example_ai_registry_model f(2) got this] got show ?thesis by (rule conjI)
qed

definition example_ai_job :: AIJob where
  "example_ai_job =
     \<lparr>aj_id = h256_zero, aj_job_type = AtInference, aj_model_id = h256_zero, aj_requester = [1], aj_provider = None,
      aj_status = AjPending, aj_input = ''x'', aj_output = None, aj_max_price = 10, aj_actual_price = None, aj_collateral = 10,
      aj_submitted_at = 0, aj_submitted_height = 0, aj_assigned_at = None, aj_completed_at = None, aj_error = None,
      aj_proof = None, aj_timeout_secs = 60\<rparr>"

definition example_ai_ops :: "ai_op list" where
  "example_ai_ops = [AjSubmit example_ai_job, AjAssign 1 h256_zero [2], AjComplete 2 h256_zero [2] ''y'' None 7]"

lemmas example_ai_simps = AiJobManager_new_def ai_submit_job_def validate_job_def ai_assign_job_def ai_complete_job_def
  example_ai_job_def Let_def

theorem ai_job_moves_witness:
  "\<exists>j j'. ai_get_job (run ai_step AiJobManager_new (take 2 example_ai_ops)) h256_zero = Some j
    \<and> ai_get_job (ai_step (run ai_step AiJobManager_new (take 2 example_ai_ops)) (AjComplete 2 h256_zero [2] ''y'' None 7)) h256_zero = Some j'
    \<and> aj_status j \<in> {AjAssigned, AjRunning} \<and> aj_actual_price j' = Some 7"
proof -
  let ?s = "run ai_step AiJobManager_new (take 2 example_ai_ops)" and ?x = "AjComplete 2 h256_zero [2] ''y'' None 7"
  obtain j j' where j: "ai_get_job ?s h256_zero = Some j" "ai_get_job (ai_step ?s ?x) h256_zero = Some j'"
      "aj_status j' = AjCompleted" "aj_status j = AjAssigned"
    by (simp add: example_ai_ops_def ai_get_job_def example_ai_simps)
  from ai_job_moves [OF j(1,2)] j show ?thesis by auto
qed

theorem pending_job_found_witness:
  "case get_next_pending_job rev (run ai_step AiJobManager_new [AjSubmit example_ai_job]) h256_zero of
     None \<Rightarrow> False | Some j \<Rightarrow> aj_status j = AjPending \<and> aj_model_id j = h256_zero"
proof -
  let ?s = "run ai_step AiJobManager_new [AjSubmit example_ai_job]"
  have "ai_get_job ?s h256_zero = Some example_ai_job"
    by (simp add: ai_get_job_def ai_submit_job_def AiJobManager_new_def validate_job_def Let_def) (simp add: example_ai_job_def)
  moreover have "aj_status example_ai_job = AjPending" "aj_model_id example_ai_job = h256_zero" by (simp_all add: example_ai_job_def)
  ultimately show ?thesis
    using pending_job_found [OF reachable_run, of rev "[AjSubmit example_ai_job]" h256_zero] by (auto split: option.splits)
qed

theorem ai_payments_accounted_witness:
  "jm_total_paid (run ai_step AiJobManager_new example_ai_ops) = 7
    \<and> sum_list (map price_paid (hm_values (jm_jobs (run ai_step AiJobManager_new example_ai_ops)))) = 7"
proof -
  have "list_all fresh_op example_ai_ops" by (simp add: example_ai_ops_def example_ai_job_def)
  moreover have "jm_total_paid (run ai_step AiJobManager_new example_ai_ops) = 7"
    by (simp add: example_ai_ops_def example_ai_simps)
  ultimately show ?thesis using ai_payments_accounted [of example_ai_ops] by simp
qed

end
