(* ===== verification/Faucet.thy ===== *)
theory Faucet
  imports Chain_Types Hash_Map
begin

section \<open>The testnet faucet\<close>

text \<open>
  \<open>pyrax-node/src/services/faucet.rs\<close>: requests with their limits by address and by IP, the queue of payments and
  the balance. The clock is an argument; the texts of responses are the constructors of \<open>FaucetMessage\<close>.
\<close>

definition DEFAULT_FAUCET_AMOUNT :: u64 where
  "DEFAULT_FAUCET_AMOUNT = 100 * 100000000"

definition FAUCET_COOLDOWN_SECS :: u64 where
  "FAUCET_COOLDOWN_SECS = 86400"

record FaucetConfig =
  fa_enabled :: bool
  fa_amount :: u64
  fa_cooldown_secs :: u64
  fa_max_requests_per_ip :: u32
  fa_require_captcha :: bool
  fa_captcha_site_key :: "string option"
  fa_captcha_secret_key :: "string option"
  fa_faucet_address :: address
  fa_min_balance :: u64
  fa_alert_threshold :: u64

definition FaucetConfig_default :: FaucetConfig where
  "FaucetConfig_default =
     \<lparr>fa_enabled = True, fa_amount = DEFAULT_FAUCET_AMOUNT, fa_cooldown_secs = FAUCET_COOLDOWN_SECS, fa_max_requests_per_ip = 3,
      fa_require_captcha = True, fa_captcha_site_key = None, fa_captcha_secret_key = None,
      fa_faucet_address = Address (replicate 20 0xFF), fa_min_balance = 1000000 * 100000000,
      fa_alert_threshold = 10000000 * 100000000\<rparr>"

record FaucetRequest =
  fq_address :: address
  fq_ip_address :: string
  fq_captcha_response :: "string option"
  fq_timestamp :: u64
  fq_user_agent :: "string option"

definition FaucetRequest_new :: "u64 \<Rightarrow> address \<Rightarrow> string \<Rightarrow> FaucetRequest" where
  "FaucetRequest_new now address ip_address =
     \<lparr>fq_address = address, fq_ip_address = ip_address, fq_captcha_response = None, fq_timestamp = now, fq_user_agent = None\<rparr>"

definition with_captcha :: "FaucetRequest \<Rightarrow> string \<Rightarrow> FaucetRequest" where
  "with_captcha r response = r\<lparr>fq_captcha_response := Some response\<rparr>"

datatype FaucetMessage =
    SuccessfullySent u64
  | FaucetDisabled
  | FaucetEmpty
  | CaptchaRequired
  | CaptchaFailed
  | PleaseWait u64
  | MaximumPerDay u32

record FaucetResponse =
  fr_success :: bool
  fr_tx_hash :: "h256 option"
  fr_amount :: u64
  fr_message :: FaucetMessage
  fr_next_eligible :: "u64 option"
  fr_remaining_requests :: u32

definition faucet_success :: "u64 \<Rightarrow> h256 \<Rightarrow> u64 \<Rightarrow> FaucetResponse" where
  "faucet_success now tx_hash amount =
     \<lparr>fr_success = True, fr_tx_hash = Some tx_hash, fr_amount = amount, fr_message = SuccessfullySent (amount div 100000000),
      fr_next_eligible = Some (now + FAUCET_COOLDOWN_SECS), fr_remaining_requests = 0\<rparr>"

definition faucet_error :: "FaucetMessage \<Rightarrow> FaucetResponse" where
  "faucet_error message =
     \<lparr>fr_success = False, fr_tx_hash = None, fr_amount = 0, fr_message = message, fr_next_eligible = None, fr_remaining_requests = 0\<rparr>"

definition faucet_cooldown :: "u64 \<Rightarrow> u64 \<Rightarrow> FaucetResponse" where
  "faucet_cooldown now next_eligible =
     \<lparr>fr_success = False, fr_tx_hash = None, fr_amount = 0, fr_message = PleaseWait (saturating_sub next_eligible now),
      fr_next_eligible = Some next_eligible, fr_remaining_requests = 0\<rparr>"

record RateLimitEntry =
  re_requests :: "u64 list"
  re_daily_count :: u32
  re_day_start :: u64

definition current_day_start :: "u64 \<Rightarrow> u64" where
  "current_day_start now = now - now mod 86400"

definition RateLimitEntry_new :: "u64 \<Rightarrow> RateLimitEntry" where
  "RateLimitEntry_new now = \<lparr>re_requests = [], re_daily_count = 0, re_day_start = current_day_start now\<rparr>"

definition add_request :: "u64 \<Rightarrow> RateLimitEntry \<Rightarrow> RateLimitEntry" where
  "add_request now r =
     (let r = (if re_day_start r + 86400 \<le> now
               then r\<lparr>re_requests := [], re_daily_count := 0, re_day_start := current_day_start now\<rparr> else r)
      in r\<lparr>re_requests := re_requests r @ [now], re_daily_count := re_daily_count r + 1\<rparr>)"

definition last_request_time :: "RateLimitEntry \<Rightarrow> u64 option" where
  "last_request_time r = (if re_requests r = [] then None else Some (last (re_requests r)))"

definition requests_today :: "u64 \<Rightarrow> RateLimitEntry \<Rightarrow> u32" where
  "requests_today now r = (if re_day_start r + 86400 \<le> now then 0 else re_daily_count r)"

record PendingFaucetTx =
  pt_address :: address
  pt_amount :: u64
  pt_tx_hash :: h256
  pt_created_at :: u64
  pt_confirmed :: bool

record FaucetStats =
  fs_requests_fulfilled :: u64
  fs_requests_failed :: u64
  fs_total_dispensed :: u64
  fs_unique_addresses :: u64
  fs_low_balance_alerts :: u64

record FaucetService =
  fv_config :: FaucetConfig
  fv_address_limits :: "(address, RateLimitEntry) hashmap"
  fv_ip_limits :: "(string, RateLimitEntry) hashmap"
  fv_tx_queue :: "PendingFaucetTx list"
  fv_balance :: u64
  fv_stats :: FaucetStats

definition FaucetStats_default :: FaucetStats where
  "FaucetStats_default =
     \<lparr>fs_requests_fulfilled = 0, fs_requests_failed = 0, fs_total_dispensed = 0, fs_unique_addresses = 0, fs_low_balance_alerts = 0\<rparr>"

definition FaucetService_new :: "FaucetConfig \<Rightarrow> FaucetService" where
  "FaucetService_new config =
     \<lparr>fv_config = config, fv_address_limits = [], fv_ip_limits = [], fv_tx_queue = [], fv_balance = 0, fv_stats = FaucetStats_default\<rparr>"

definition set_balance :: "FaucetService \<Rightarrow> u64 \<Rightarrow> FaucetService" where
  "set_balance f b = f\<lparr>fv_balance := b\<rparr>"

definition check_address_limit :: "u64 \<Rightarrow> FaucetService \<Rightarrow> address \<Rightarrow> FaucetResponse option" where
  "check_address_limit now f a =
     (case Option.bind (hm_get (fv_address_limits f) a) last_request_time of
        None \<Rightarrow> None
      | Some last_request \<Rightarrow>
          let next_eligible = last_request + fa_cooldown_secs (fv_config f)
          in if now < next_eligible then Some (faucet_cooldown now next_eligible) else None)"

definition check_ip_limit :: "u64 \<Rightarrow> FaucetService \<Rightarrow> string \<Rightarrow> FaucetResponse option" where
  "check_ip_limit now f ip =
     (case hm_get (fv_ip_limits f) ip of
        None \<Rightarrow> None
      | Some r \<Rightarrow>
          if fa_max_requests_per_ip (fv_config f) \<le> requests_today now r
          then Some (faucet_error (MaximumPerDay (fa_max_requests_per_ip (fv_config f)))) else None)"

definition bump :: "u64 \<Rightarrow> 'k \<Rightarrow> ('k, RateLimitEntry) hashmap \<Rightarrow> ('k, RateLimitEntry) hashmap" where
  "bump now k m = hm_insert k (add_request now (case hm_get m k of None \<Rightarrow> RateLimitEntry_new now | Some r \<Rightarrow> r)) m"

definition record_request :: "u64 \<Rightarrow> FaucetService \<Rightarrow> address \<Rightarrow> string \<Rightarrow> FaucetService" where
  "record_request now f a ip =
     f\<lparr>fv_address_limits := bump now a (fv_address_limits f), fv_ip_limits := bump now ip (fv_ip_limits f)\<rparr>"

definition send_tokens :: "ext \<Rightarrow> u64 \<Rightarrow> FaucetService \<Rightarrow> address \<Rightarrow> u64 \<Rightarrow> FaucetService \<times> h256" where
  "send_tokens e now f dst amount =
     (let tx_hash = h256_from_slice (ext_blake3 e
            (address_bytes (fa_faucet_address (fv_config f)) @ address_bytes dst @ u64_to_le_bytes amount @ u64_to_le_bytes now))
      in (f\<lparr>fv_tx_queue := fv_tx_queue f @
            [\<lparr>pt_address = dst, pt_amount = amount, pt_tx_hash = tx_hash, pt_created_at = now, pt_confirmed = False\<rparr>]\<rparr>, tx_hash))"

definition verify_captcha :: "string \<Rightarrow> bool" where
  "verify_captcha response = (response \<noteq> [])"

definition captcha_refusal :: "FaucetService \<Rightarrow> FaucetRequest \<Rightarrow> FaucetResponse option" where
  "captcha_refusal f req =
     (if \<not> fa_require_captcha (fv_config f) then None
      else case fq_captcha_response req of
        None \<Rightarrow> Some (faucet_error CaptchaRequired)
      | Some c \<Rightarrow> if verify_captcha c then None else Some (faucet_error CaptchaFailed))"

text \<open>The first check that refuses the request, in the order of the source.\<close>

definition faucet_refusal :: "u64 \<Rightarrow> FaucetService \<Rightarrow> FaucetRequest \<Rightarrow> FaucetResponse option" where
  "faucet_refusal now f req =
     (if \<not> fa_enabled (fv_config f) then Some (faucet_error FaucetDisabled)
      else if fv_balance f < fa_amount (fv_config f) then Some (faucet_error FaucetEmpty)
      else case captcha_refusal f req of Some r \<Rightarrow> Some r | None \<Rightarrow>
        (case check_address_limit now f (fq_address req) of Some r \<Rightarrow> Some r | None \<Rightarrow> check_ip_limit now f (fq_ip_address req)))"

definition faucet_pay :: "ext \<Rightarrow> u64 \<Rightarrow> FaucetService \<Rightarrow> FaucetRequest \<Rightarrow> FaucetService \<times> FaucetResponse" where
  "faucet_pay e now f req =
     (case send_tokens e now f (fq_address req) (fa_amount (fv_config f)) of (f, tx_hash) \<Rightarrow>
        let f = record_request now f (fq_address req) (fq_ip_address req);
            f = f\<lparr>fv_balance := fv_balance f - fa_amount (fv_config f),
                  fv_stats := (fv_stats f)\<lparr>fs_requests_fulfilled := fs_requests_fulfilled (fv_stats f) + 1,
                    fs_total_dispensed := fs_total_dispensed (fv_stats f) + fa_amount (fv_config f)\<rparr>\<rparr>;
            f = (if fv_balance f < fa_alert_threshold (fv_config f)
                 then f\<lparr>fv_stats := (fv_stats f)\<lparr>fs_low_balance_alerts := fs_low_balance_alerts (fv_stats f) + 1\<rparr>\<rparr> else f)
        in (f, faucet_success now tx_hash (fa_amount (fv_config f))))"

definition faucet_request :: "ext \<Rightarrow> u64 \<Rightarrow> FaucetService \<Rightarrow> FaucetRequest \<Rightarrow> FaucetService \<times> FaucetResponse" where
  "faucet_request e now f req =
     (case faucet_refusal now f req of Some r \<Rightarrow> (f, r) | None \<Rightarrow> faucet_pay e now f req)"

definition get_pending_txs :: "FaucetService \<Rightarrow> h256 list" where
  "get_pending_txs f = map pt_tx_hash (filter (\<lambda>t. \<not> pt_confirmed t) (fv_tx_queue f))"

fun confirm_first :: "h256 \<Rightarrow> PendingFaucetTx list \<Rightarrow> PendingFaucetTx list" where
  "confirm_first h [] = []"
| "confirm_first h (t # ts) = (if pt_tx_hash t = h then t\<lparr>pt_confirmed := True\<rparr> # ts else t # confirm_first h ts)"

definition confirm_tx :: "FaucetService \<Rightarrow> h256 \<Rightarrow> FaucetService" where
  "confirm_tx f h = f\<lparr>fv_tx_queue := confirm_first h (fv_tx_queue f)\<rparr>"

definition next_eligible :: "u64 \<Rightarrow> FaucetService \<Rightarrow> address \<Rightarrow> u64 option" where
  "next_eligible now f a =
     (case Option.bind (hm_get (fv_address_limits f) a) last_request_time of
        None \<Rightarrow> None
      | Some last_request \<Rightarrow>
          let nxt = last_request + fa_cooldown_secs (fv_config f) in if now < nxt then Some nxt else None)"

definition remaining_requests :: "u64 \<Rightarrow> FaucetService \<Rightarrow> address \<Rightarrow> u32" where
  "remaining_requests now f a = (case next_eligible now f a of None \<Rightarrow> 1 | Some _ \<Rightarrow> 0)"

definition recent :: "u64 \<Rightarrow> RateLimitEntry \<Rightarrow> bool" where
  "recent cutoff r = (case last_request_time r of None \<Rightarrow> False | Some t \<Rightarrow> cutoff < t)"

definition faucet_cleanup :: "u64 \<Rightarrow> FaucetService \<Rightarrow> FaucetService" where
  "faucet_cleanup now f =
     (let cutoff = now - 7 * 86400
      in f\<lparr>fv_address_limits := filter (\<lambda>(_, r). recent cutoff r) (fv_address_limits f),
           fv_ip_limits := filter (\<lambda>(_, r). recent cutoff r) (fv_ip_limits f),
           fv_tx_queue := filter (\<lambda>t. \<not> pt_confirmed t \<or> cutoff < pt_created_at t) (fv_tx_queue f)\<rparr>)"

subsection \<open>Runs\<close>

datatype faucet_op = FRequest u64 FaucetRequest | FConfirm h256 | FCleanup u64

fun faucet_step :: "ext \<Rightarrow> FaucetService \<Rightarrow> faucet_op \<Rightarrow> FaucetService" where
  "faucet_step e f (FRequest now req) = fst (faucet_request e now f req)"
| "faucet_step e f (FConfirm h) = confirm_tx f h"
| "faucet_step e f (FCleanup now) = faucet_cleanup now f"

definition faucet_inv :: "FaucetConfig \<Rightarrow> u64 \<Rightarrow> FaucetService \<Rightarrow> bool" where
  "faucet_inv config b f =
     (fv_config f = config \<and> unat (fv_balance f) + unat (fs_total_dispensed (fv_stats f)) = unat b
      \<and> fs_requests_fulfilled (fv_stats f) * fa_amount config = fs_total_dispensed (fv_stats f) \<and> hm_wf (fv_address_limits f))"

lemma faucet_pay_state:
  "fv_config (fst (faucet_pay e now f req)) = fv_config f"
  "fv_balance (fst (faucet_pay e now f req)) = fv_balance f - fa_amount (fv_config f)"
  "fs_total_dispensed (fv_stats (fst (faucet_pay e now f req))) = fs_total_dispensed (fv_stats f) + fa_amount (fv_config f)"
  "fs_requests_fulfilled (fv_stats (fst (faucet_pay e now f req))) = fs_requests_fulfilled (fv_stats f) + 1"
  "fv_address_limits (fst (faucet_pay e now f req)) = bump now (fq_address req) (fv_address_limits f)"
  "fv_ip_limits (fst (faucet_pay e now f req)) = bump now (fq_ip_address req) (fv_ip_limits f)"
  "fr_success (snd (faucet_pay e now f req))"
  by (simp_all add: faucet_pay_def send_tokens_def record_request_def faucet_success_def Let_def)

lemma faucet_refusal_success: "faucet_refusal now f req = Some r \<Longrightarrow> \<not> fr_success r"
  by (auto simp: faucet_refusal_def captcha_refusal_def check_address_limit_def check_ip_limit_def faucet_error_def
      faucet_cooldown_def Let_def split: if_splits option.splits)

lemma faucet_refusal_None:
  assumes "faucet_refusal now f req = None"
  shows "fa_amount (fv_config f) \<le> fv_balance f" "check_address_limit now f (fq_address req) = None"
  using assms by (auto simp: faucet_refusal_def not_less split: if_splits option.splits)

lemma hm_wf_filter: "hm_wf m \<Longrightarrow> hm_wf (filter P m)"
  by (simp add: hm_wf_def) (induction m; auto)

lemma faucet_step_inv:
  assumes "faucet_inv config b f"
  shows "faucet_inv config b (faucet_step e f x)"
proof (cases x)
  case (FRequest now req)
  show ?thesis
  proof (cases "faucet_refusal now f req")
    case None
    note le = faucet_refusal_None(1) [OF None]
    have "unat (fv_balance f - fa_amount config) = unat (fv_balance f) - unat (fa_amount config)"
      using le assms by (intro unat_sub_exact) (simp add: faucet_inv_def word_le_nat_alt)
    moreover have "unat (fs_total_dispensed (fv_stats f) + fa_amount config) = unat (fs_total_dispensed (fv_stats f)) + unat (fa_amount config)"
    proof (rule unat_add_exact)
      have "unat (fa_amount config) \<le> unat (fv_balance f)" using le assms by (simp add: faucet_inv_def word_le_nat_alt)
      moreover have "unat (fv_balance f) + unat (fs_total_dispensed (fv_stats f)) < 2 ^ LENGTH(64)"
        using assms unat_less_power [of b] unfolding faucet_inv_def by metis
      ultimately show "unat (fs_total_dispensed (fv_stats f)) + unat (fa_amount config) < 2 ^ LENGTH(64)" by linarith
    qed
    ultimately show ?thesis
      using FRequest None le assms
      by (simp add: faucet_inv_def faucet_request_def faucet_pay_state bump_def word_le_nat_alt algebra_simps)
  qed (use FRequest assms in \<open>simp add: faucet_request_def\<close>)
qed (use assms in \<open>auto simp: faucet_inv_def confirm_tx_def faucet_cleanup_def Let_def hm_wf_filter\<close>)

interpretation faucet: machine "set_balance (FaucetService_new config) b" "faucet_step e" "faucet_inv config b"
  by unfold_locales (simp_all add: faucet_step_inv, simp add: faucet_inv_def set_balance_def FaucetService_new_def FaucetStats_default_def)

subsection \<open>Cooldown\<close>

text \<open>The payments of a run, and runs whose clock does not go back.\<close>

fun grants :: "ext \<Rightarrow> FaucetService \<Rightarrow> faucet_op list \<Rightarrow> (address \<times> u64) list" where
  "grants e f [] = []"
| "grants e f (FRequest now req # xs) =
     (if fr_success (snd (faucet_request e now f req)) then [(fq_address req, now)] else [])
     @ grants e (faucet_step e f (FRequest now req)) xs"
| "grants e f (FConfirm h # xs) = grants e (faucet_step e f (FConfirm h)) xs"
| "grants e f (FCleanup now # xs) = grants e (faucet_step e f (FCleanup now)) xs"

fun timely :: "u64 \<Rightarrow> faucet_op list \<Rightarrow> bool" where
  "timely t [] = True"
| "timely t (FRequest now req # xs) = (t \<le> now \<and> now < 2 ^ 63 \<and> timely now xs)"
| "timely t (FConfirm h # xs) = timely t xs"
| "timely t (FCleanup now # xs) = (t \<le> now \<and> now < 2 ^ 63 \<and> 604800 \<le> now \<and> timely now xs)"

text \<open>A payment at \<open>t\<close> still holds its address back, or its cooldown has passed.\<close>

definition held_back :: "FaucetService \<Rightarrow> nat \<Rightarrow> address \<Rightarrow> u64 \<Rightarrow> u64 \<Rightarrow> bool" where
  "held_back f c a t clock =
     (unat t + c \<le> unat clock \<or>
      (\<exists>r t'. hm_get (fv_address_limits f) a = Some r \<and> last_request_time r = Some t' \<and> t \<le> t' \<and> t' \<le> clock))"

lemma held_back_later:
  assumes "held_back f c a t clock" and "clock \<le> now"
  shows "held_back f c a t now"
  using assms unfolding held_back_def word_le_nat_alt by (metis le_trans)

lemma last_add_request: "last_request_time (add_request now r) = Some now"
  by (simp add: add_request_def last_request_time_def Let_def)

lemma held_back_pay:
  assumes "held_back f c a t clock" and "clock \<le> now" and "t \<le> now"
  shows "held_back (fst (faucet_pay e now f req)) c a t now"
proof (cases "a = fq_address req")
  case True
  then show ?thesis using assms(3) by (simp add: held_back_def faucet_pay_state bump_def last_add_request)
next
  case False
  then show ?thesis using held_back_later [OF assms(1,2)] by (simp add: held_back_def faucet_pay_state bump_def)
qed

lemma held_back_paid: "held_back (fst (faucet_pay e now f req)) c (fq_address req) now now"
  by (simp add: held_back_def faucet_pay_state bump_def last_add_request)

lemma held_back_request:
  assumes "held_back f (unat (fa_cooldown_secs (fv_config f))) a t clock" and "clock \<le> now" and "now < 2 ^ 63"
    and "unat (fa_cooldown_secs (fv_config f)) \<le> 604800" and "check_address_limit now f a = None"
  shows "unat t + unat (fa_cooldown_secs (fv_config f)) \<le> unat now"
  using assms(1) unfolding held_back_def
proof (elim disjE exE conjE)
  fix r t'
  assume r: "hm_get (fv_address_limits f) a = Some r" "last_request_time r = Some t'" "t \<le> t'" "t' \<le> clock"
  let ?c = "fa_cooldown_secs (fv_config f)"
  have "unat now < 2 ^ 63" using assms(3) by (simp add: word_less_nat_alt)
  moreover have t': "unat t' \<le> unat now" using r(4) assms(2) by (simp add: word_le_nat_alt)
  ultimately have "unat (t' + ?c) = unat t' + unat ?c" using assms(4) by (intro unat_add_exact) simp
  moreover have "t' + ?c \<le> now" using assms(5) r by (auto simp: check_address_limit_def Let_def not_less split: if_splits)
  ultimately show ?thesis using r(3) by (simp add: word_le_nat_alt)
qed (use assms(2) in \<open>simp add: word_le_nat_alt\<close>)

lemma hm_get_filter: "hm_wf m \<Longrightarrow> hm_get (filter (\<lambda>(_, r). P r) m) k = (case hm_get m k of Some r \<Rightarrow> if P r then Some r else None | None \<Rightarrow> None)"
  by (induction m) (auto simp: hm_wf_def hm_get_def map_of_eq_None_iff split: option.splits)

lemma held_back_cleanup:
  assumes "held_back f c a t clock" and "clock \<le> now" and "604800 \<le> now" and "c \<le> 604800" and "hm_wf (fv_address_limits f)"
  shows "held_back (faucet_cleanup now f) c a t now"
  using held_back_later [OF assms(1,2)] unfolding held_back_def
proof (elim disjE exE conjE)
  fix r t'
  assume r: "hm_get (fv_address_limits f) a = Some r" "last_request_time r = Some t'" "t \<le> t'" "t' \<le> now"
  show "unat t + c \<le> unat now \<or> (\<exists>r t'. hm_get (fv_address_limits (faucet_cleanup now f)) a = Some r
      \<and> last_request_time r = Some t' \<and> t \<le> t' \<and> t' \<le> now)"
  proof (cases "recent (now - 604800) r")
    case True
    then show ?thesis using r assms(5) by (simp add: faucet_cleanup_def hm_get_filter Let_def)
  next
    case False
    then have "unat t' \<le> unat now - 604800"
      using r(2) assms(3) unat_sub_exact [of 604800 now] by (simp add: recent_def not_less word_le_nat_alt)
    moreover have "unat t \<le> unat t'" "604800 \<le> unat now" using r(3) assms(3) by (simp_all add: word_le_nat_alt)
    ultimately have "unat t + c \<le> unat now" using assms(4) by linarith
    then show ?thesis ..
  qed
qed simp

lemma faucet_request_paid:
  "fr_success (snd (faucet_request e now f req)) \<longleftrightarrow> faucet_refusal now f req = None"
  by (auto simp: faucet_request_def faucet_pay_state dest: faucet_refusal_success split: option.split)

lemma faucet_step_config: "fv_config (faucet_step e f x) = fv_config f"
  by (cases x) (auto simp: faucet_request_def faucet_pay_state confirm_tx_def faucet_cleanup_def Let_def split: option.split)

lemma grants_after:
  assumes "timely clock xs" and "faucet_inv config b f" and "unat (fa_cooldown_secs config) \<le> 604800"
    and "held_back f (unat (fa_cooldown_secs config)) a t clock" and "t \<le> clock" and "(a, u) \<in> set (grants e f xs)"
  shows "unat t + unat (fa_cooldown_secs config) \<le> unat u"
  using assms
proof (induction e f xs arbitrary: clock rule: grants.induct)
  case (2 e f now req xs)
  have cfg: "fv_config f = config" and now: "clock \<le> now" "now < 2 ^ 63" "timely now xs" "t \<le> now"
    using "2.prems"(1,2,5) by (auto simp: faucet_inv_def)
  have held: "held_back (faucet_step e f (FRequest now req)) (unat (fa_cooldown_secs config)) a t now"
    using held_back_pay [OF "2.prems"(4) now(1,4), of e req] held_back_later [OF "2.prems"(4) now(1)]
    by (simp add: faucet_request_def split: option.split)
  show ?case
  proof (cases "(a, u) \<in> set (grants e (faucet_step e f (FRequest now req)) xs)")
    case True
    then show ?thesis using "2.IH" [OF now(3) faucet_step_inv [OF "2.prems"(2)] "2.prems"(3) held now(4)] by blast
  next
    case False
    then have "fr_success (snd (faucet_request e now f req))" "a = fq_address req" "u = now"
      using "2.prems"(6) by (auto split: if_splits)
    then show ?thesis
      using held_back_request [of f a t clock now] "2.prems"(3,4) now faucet_refusal_None(2) faucet_request_paid cfg by metis
  qed
next
  case (3 e f h xs)
  have "held_back (faucet_step e f (FConfirm h)) (unat (fa_cooldown_secs config)) a t clock"
    using "3.prems"(4) by (simp add: held_back_def confirm_tx_def)
  then show ?case using "3.IH" [OF _ faucet_step_inv [OF "3.prems"(2)]] "3.prems" by simp
next
  case (4 e f now xs)
  have now: "clock \<le> now" "604800 \<le> now" "timely now xs" using "4.prems"(1) by auto
  have held: "held_back (faucet_step e f (FCleanup now)) (unat (fa_cooldown_secs config)) a t now"
    using held_back_cleanup [OF "4.prems"(4) now(1,2) "4.prems"(3)] "4.prems"(2) by (simp add: faucet_inv_def)
  show ?case
    using "4.IH" [OF now(3) faucet_step_inv [OF "4.prems"(2)] "4.prems"(3) held] now(1) "4.prems"(5,6) by auto
qed simp

lemma grants_spaced:
  assumes "timely clock xs" and "faucet_inv config b f" and "unat (fa_cooldown_secs config) \<le> 604800"
  shows "sorted_wrt (\<lambda>(a, t) (a', u). a = a' \<longrightarrow> unat t + unat (fa_cooldown_secs config) \<le> unat u) (grants e f xs)"
  using assms
proof (induction e f xs arbitrary: clock rule: grants.induct)
  case (2 e f now req xs)
  have now: "timely now xs" using "2.prems"(1) by simp
  note inv = faucet_step_inv [OF "2.prems"(2), of e "FRequest now req"]
  have "unat now + unat (fa_cooldown_secs config) \<le> unat u"
    if "fr_success (snd (faucet_request e now f req))" "(fq_address req, u) \<in> set (grants e (faucet_step e f (FRequest now req)) xs)" for u
  proof -
    have "held_back (faucet_step e f (FRequest now req)) (unat (fa_cooldown_secs config)) (fq_address req) now now"
      using that(1) held_back_paid [of e now f req] unfolding faucet_request_paid by (simp add: faucet_request_def)
    from grants_after [OF now inv "2.prems"(3) this _ that(2)] show ?thesis by simp
  qed
  then show ?case using "2.IH" [OF now inv "2.prems"(3)] by auto
next
  case (3 e f h xs)
  then show ?case using faucet_step_inv [OF "3.prems"(2), of e "FConfirm h"] by auto
next
  case (4 e f now xs)
  then show ?case using faucet_step_inv [OF "4.prems"(2), of e "FCleanup now"] by auto
qed simp

subsection \<open>Properties\<close>

text \<open>
  The faucet gives what it has: in every reachable state of a faucet that started with a balance, the balance
  left and the amount dispensed add up to it, and the amount dispensed is the fixed amount for each request that
  was fulfilled.
\<close>

theorem faucet_conserves:
  assumes "reachable (faucet_step e) (set_balance (FaucetService_new config) b) f"
  shows "unat (fv_balance f) + unat (fs_total_dispensed (fv_stats f)) = unat b
    \<and> fs_total_dispensed (fv_stats f) = fs_requests_fulfilled (fv_stats f) * fa_amount config"
  using faucet.inv_reachable [OF assms] unfolding faucet_inv_def by metis

text \<open>
  The cooldown holds: while the clock does not go back (and a cleanup runs at least seven days after the epoch), and
  the cooldown is at most seven days, any two payments to an address are at least the cooldown apart, whatever
  requests, confirmations and cleanups come between.
\<close>

theorem cooldown_respected:
  assumes "timely 0 xs" and "unat (fa_cooldown_secs config) \<le> 604800"
    and "i < j" and "j < length (grants e (set_balance (FaucetService_new config) b) xs)"
    and "grants e (set_balance (FaucetService_new config) b) xs ! i = (a, t)"
    and "grants e (set_balance (FaucetService_new config) b) xs ! j = (a, u)"
  shows "unat t + unat (fa_cooldown_secs config) \<le> unat u"
proof -
  have "faucet_inv config b (set_balance (FaucetService_new config) b)"
    by (simp add: faucet_inv_def set_balance_def FaucetService_new_def FaucetStats_default_def)
  from sorted_wrt_nth_less [OF grants_spaced [OF assms(1) this assms(2)] assms(3,4)] assms(5,6) show ?thesis by simp
qed

definition example_request :: FaucetRequest where
  "example_request = with_captcha (FaucetRequest_new 0 address_zero ''127.0.0.1'') ''ok''"

definition faucet_ops :: "faucet_op list" where
  "faucet_ops = [FRequest 1000000 example_request, FRequest 1000001 example_request, FRequest 1086400 example_request]"

definition funded :: FaucetService where
  "funded = set_balance (FaucetService_new FaucetConfig_default) (3 * DEFAULT_FAUCET_AMOUNT)"

lemma example_not_refused:
  assumes "fv_config f = FaucetConfig_default" and "DEFAULT_FAUCET_AMOUNT \<le> fv_balance f"
  shows "faucet_refusal now f example_request =
    (case check_address_limit now f address_zero of Some r \<Rightarrow> Some r | None \<Rightarrow> check_ip_limit now f ''127.0.0.1'')"
  using assms by (simp add: faucet_refusal_def captcha_refusal_def FaucetConfig_default_def example_request_def with_captcha_def
      FaucetRequest_new_def verify_captcha_def leD split: option.split)

lemma faucet_grants: "grants sample_ext funded faucet_ops = [(address_zero, 1000000), (address_zero, 1086400)]"
proof -
  let ?f = "fst (faucet_pay sample_ext 1000000 funded example_request)"
  have req: "fq_address example_request = address_zero" "fq_ip_address example_request = ''127.0.0.1''"
    by (simp_all add: example_request_def with_captcha_def FaucetRequest_new_def)
  have funded: "fv_config funded = FaucetConfig_default" "fv_balance funded = 3 * DEFAULT_FAUCET_AMOUNT"
    "fv_address_limits funded = []" "fv_ip_limits funded = []"
    by (simp_all add: funded_def set_balance_def FaucetService_new_def)
  have cfg: "fa_cooldown_secs FaucetConfig_default = 86400" "fa_max_requests_per_ip FaucetConfig_default = 3"
    "fa_amount FaucetConfig_default = DEFAULT_FAUCET_AMOUNT"
    by (simp_all add: FaucetConfig_default_def FAUCET_COOLDOWN_SECS_def)
  have r1: "faucet_refusal 1000000 funded example_request = None"
    by (simp add: example_not_refused funded DEFAULT_FAUCET_AMOUNT_def check_address_limit_def check_ip_limit_def)
  have f: "fv_config ?f = FaucetConfig_default" "DEFAULT_FAUCET_AMOUNT \<le> fv_balance ?f"
    by (simp_all add: faucet_pay_state funded cfg DEFAULT_FAUCET_AMOUNT_def)
  note lims = check_address_limit_def check_ip_limit_def faucet_pay_state req funded cfg bump_def last_add_request
  have r2: "faucet_refusal 1000001 ?f example_request \<noteq> None"
    by (simp add: example_not_refused [OF f] lims Let_def)
  have r3: "faucet_refusal 1086400 ?f example_request = None"
    by (simp add: example_not_refused [OF f] lims Let_def last_request_time_def requests_today_def add_request_def RateLimitEntry_new_def current_day_start_def)
  obtain x where x: "faucet_refusal 1000001 ?f example_request = Some x" using r2 by blast
  show ?thesis
    using faucet_refusal_success [OF x] r1 r3 x by (simp add: faucet_ops_def faucet_request_def faucet_pay_state req)
qed

theorem faucet_conserves_witness:
  "unat (fv_balance (run (faucet_step sample_ext) funded faucet_ops))
    + unat (fs_total_dispensed (fv_stats (run (faucet_step sample_ext) funded faucet_ops))) = unat (3 * DEFAULT_FAUCET_AMOUNT)"
  unfolding funded_def by (rule conjunct1 [OF faucet_conserves [OF reachable_run]])

theorem cooldown_respected_witness: "unat (1000000 :: u64) + 86400 \<le> unat (1086400 :: u64)"
proof -
  have "timely 0 faucet_ops" by (simp add: faucet_ops_def)
  from cooldown_respected [OF this, of FaucetConfig_default 0 1 sample_ext "3 * DEFAULT_FAUCET_AMOUNT" address_zero 1000000 1086400]
  show ?thesis using faucet_grants by (simp add: funded_def FaucetConfig_default_def FAUCET_COOLDOWN_SECS_def)
qed

text \<open>
  The faucet pays down to nothing, whatever the minimum balance of the configuration says, and a clock that is
  less than seven days old makes a cleanup forget every limit.
\<close>

lemma minimum_balance_ignored:
  "faucet_request e now (f\<lparr>fv_config := (fv_config f)\<lparr>fa_min_balance := n\<rparr>\<rparr>) req
    = (case faucet_request e now f req of (f', r) \<Rightarrow> (f'\<lparr>fv_config := (fv_config f')\<lparr>fa_min_balance := n\<rparr>\<rparr>, r))"
  by (simp add: faucet_request_def faucet_refusal_def faucet_pay_def captcha_refusal_def check_address_limit_def check_ip_limit_def
      send_tokens_def record_request_def Let_def split: option.split)

end
