(* ===== verification/Snap_Sync.thy ===== *)
theory Snap_Sync
  imports Chain_Types Hash_Map
begin

section \<open>Snapshot synchronisation and state pruning\<close>

text \<open>
  \<open>pyrax-node/src/sync/snap_sync.rs\<close>: the queue of state chunks and its phases, and the jump to a checkpoint;
  \<open>pyrax-node/src/storage/pruning.rs\<close>: what a pruner may delete, and the index of historical state roots. Progress
  figures in floating point, the instants of the statistics and the semaphore, which nothing acquires, are left out.
\<close>

datatype SyncMode = SyncFull | SyncFast | SyncSnap | SyncWarp

fun sync_mode_name :: "SyncMode \<Rightarrow> string" where
  "sync_mode_name SyncFull = ''Full''"
| "sync_mode_name SyncFast = ''Fast''"
| "sync_mode_name SyncSnap = ''Snap''"
| "sync_mode_name SyncWarp = ''Warp''"

fun speed_multiplier :: "SyncMode \<Rightarrow> u32" where
  "speed_multiplier SyncFull = 1"
| "speed_multiplier SyncFast = 5"
| "speed_multiplier SyncSnap = 20"
| "speed_multiplier SyncWarp = 50"

record SnapAccount =
  as_address :: "u8 list"
  as_nonce :: u64
  as_balance :: u128
  as_code_hash :: h256
  as_storage_root :: h256

record StateChunk =
  sh_chunk_id :: u64
  sh_start_key :: h256
  sh_end_key :: h256
  sh_accounts :: "SnapAccount list"
  sh_proof :: "u8 list"

datatype ZkProofType = ZkStark | ZkSnark | ZkPlonk

record ZkCheckpointProof =
  zc_checkpoint_height :: u64
  zc_state_root :: h256
  zc_block_hash :: h256
  zc_proof_data :: "u8 list"
  zc_proof_type :: ZkProofType
  zc_verified :: bool

datatype SnapSyncState =
    SnapIdle | DiscoveringPivot | DownloadingHeaders | DownloadingState | HealingState | DownloadingBlocks | SnapComplete

record PivotBlock =
  pv_height :: u64
  pv_hash :: h256
  pv_state_root :: h256
  pv_confirmed_by :: "string list"

record SnapSyncManager =
  sm_mode :: SyncMode
  sm_state :: SnapSyncState
  sm_chunks_total :: u64
  sm_chunks_downloaded :: u64
  sm_bytes_downloaded :: u64
  sm_pivot_block :: "u64 option"
  sm_pivot :: "PivotBlock option"
  sm_pending_chunks :: "u64 list"
  sm_downloading_chunks :: "u64 set"
  sm_completed_chunks :: "u64 set"

definition SnapSyncManager_new :: "SyncMode \<Rightarrow> SnapSyncManager" where
  "SnapSyncManager_new mode =
     \<lparr>sm_mode = mode, sm_state = SnapIdle, sm_chunks_total = 0, sm_chunks_downloaded = 0, sm_bytes_downloaded = 0,
      sm_pivot_block = None, sm_pivot = None, sm_pending_chunks = [], sm_downloading_chunks = {}, sm_completed_chunks = {}\<rparr>"

definition snap_start :: "SnapSyncManager \<Rightarrow> PivotBlock \<Rightarrow> u64 \<Rightarrow> SnapSyncManager" where
  "snap_start m pivot total_chunks =
     m\<lparr>sm_pivot := Some pivot, sm_pivot_block := Some (pv_height pivot), sm_chunks_total := total_chunks,
       sm_state := DownloadingState, sm_pending_chunks := sm_pending_chunks m @ map of_nat [0..<unat total_chunks]\<rparr>"

text \<open>The loop over the queue, with the chunks chosen so far.\<close>

fun take_chunks :: "nat \<Rightarrow> u64 list \<Rightarrow> u64 set \<Rightarrow> u64 list \<Rightarrow> u64 list \<times> u64 set \<times> u64 list" where
  "take_chunks n [] downloading chunks = ([], downloading, chunks)"
| "take_chunks n (i # pending) downloading chunks =
     (if length chunks < n then
        (if i \<in> downloading then take_chunks n pending downloading chunks
         else take_chunks n pending (insert i downloading) (chunks @ [i]))
      else (i # pending, downloading, chunks))"

definition get_chunks_to_download :: "SnapSyncManager \<Rightarrow> nat \<Rightarrow> SnapSyncManager \<times> u64 list" where
  "get_chunks_to_download m n =
     (case take_chunks n (sm_pending_chunks m) (sm_downloading_chunks m) [] of (pending, downloading, chunks) \<Rightarrow>
        (m\<lparr>sm_pending_chunks := pending, sm_downloading_chunks := downloading\<rparr>, chunks))"

definition verify_chunk_proof :: "StateChunk \<Rightarrow> bool" where
  "verify_chunk_proof chunk = (sh_proof chunk \<noteq> [] \<or> sh_accounts chunk = [])"

definition process_chunk :: "SnapSyncManager \<Rightarrow> StateChunk \<Rightarrow> SnapSyncManager \<times> (string + unit)" where
  "process_chunk m chunk =
     (let i = sh_chunk_id chunk in
      if \<not> verify_chunk_proof chunk
      then (m\<lparr>sm_downloading_chunks := sm_downloading_chunks m - {i}, sm_pending_chunks := sm_pending_chunks m @ [i]\<rparr>,
            Err ''Invalid chunk proof'')
      else
        let m = m\<lparr>sm_downloading_chunks := sm_downloading_chunks m - {i}, sm_completed_chunks := insert i (sm_completed_chunks m),
                  sm_chunks_downloaded := sm_chunks_downloaded m + 1,
                  sm_bytes_downloaded := sm_bytes_downloaded m + of_nat (length (sh_accounts chunk)) * 100\<rparr>
        in (if sm_chunks_total m \<le> of_nat (card (sm_completed_chunks m)) then m\<lparr>sm_state := HealingState\<rparr> else m, Ok ()))"

definition complete_healing :: "SnapSyncManager \<Rightarrow> SnapSyncManager" where
  "complete_healing m = m\<lparr>sm_state := DownloadingBlocks\<rparr>"

definition snap_complete :: "SnapSyncManager \<Rightarrow> SnapSyncManager" where
  "snap_complete m = m\<lparr>sm_state := SnapComplete\<rparr>"

definition snap_is_complete :: "SnapSyncManager \<Rightarrow> bool" where
  "snap_is_complete m = (sm_state m = SnapComplete)"

subsection \<open>Warp synchronisation\<close>

record WarpSyncManager =
  wp_checkpoints :: "ZkCheckpointProof list"
  wp_verified_height :: u64
  wp_current_proof :: "ZkCheckpointProof option"

definition WarpSyncManager_new :: WarpSyncManager where
  "WarpSyncManager_new = \<lparr>wp_checkpoints = [], wp_verified_height = 0, wp_current_proof = None\<rparr>"

definition add_checkpoint :: "WarpSyncManager \<Rightarrow> ZkCheckpointProof \<Rightarrow> WarpSyncManager" where
  "add_checkpoint w p = w\<lparr>wp_checkpoints := sort_key zc_checkpoint_height (wp_checkpoints w @ [p])\<rparr>"

definition verify_stark_proof :: "ZkCheckpointProof \<Rightarrow> string + bool" where
  "verify_stark_proof p = (if length (zc_proof_data p) < 32 then Err ''Proof too short'' else Ok True)"

definition verify_snark_proof :: "ZkCheckpointProof \<Rightarrow> string + bool" where
  "verify_snark_proof p = (if length (zc_proof_data p) < 32 then Err ''Proof too short'' else Ok True)"

definition verify_plonk_proof :: "ZkCheckpointProof \<Rightarrow> string + bool" where
  "verify_plonk_proof p = (if length (zc_proof_data p) < 32 then Err ''Proof too short'' else Ok True)"

definition warp_verify_checkpoint :: "ZkCheckpointProof \<Rightarrow> string + bool" where
  "warp_verify_checkpoint p =
     (case zc_proof_type p of
        ZkStark \<Rightarrow> verify_stark_proof p | ZkSnark \<Rightarrow> verify_snark_proof p | ZkPlonk \<Rightarrow> verify_plonk_proof p)"

definition highest_verified :: "WarpSyncManager \<Rightarrow> ZkCheckpointProof option" where
  "highest_verified w = max_by_key zc_checkpoint_height (filter zc_verified (wp_checkpoints w))"

definition warp_to_checkpoint :: "WarpSyncManager \<Rightarrow> ZkCheckpointProof \<Rightarrow> string + WarpSyncManager" where
  "warp_to_checkpoint w p =
     (if \<not> zc_verified p then Err ''Cannot warp to unverified checkpoint''
      else Ok (w\<lparr>wp_verified_height := zc_checkpoint_height p, wp_current_proof := Some p\<rparr>))"

subsection \<open>Pruning\<close>

datatype PruningMode = PruneArchive | Pruned u64 | PruneLight

fun blocks_to_keep :: "PruningMode \<Rightarrow> u64 option" where
  "blocks_to_keep PruneArchive = None"
| "blocks_to_keep (Pruned n) = Some n"
| "blocks_to_keep PruneLight = Some 128"

fun pruning_mode_name :: "PruningMode \<Rightarrow> string" where
  "pruning_mode_name PruneArchive = ''archive''"
| "pruning_mode_name (Pruned _) = ''pruned''"
| "pruning_mode_name PruneLight = ''light''"

record PruningConfig =
  pg_mode :: PruningMode
  pg_prune_interval :: u64
  pg_prune_receipts :: bool
  pg_prune_bodies :: bool
  pg_state_rent_blocks :: "u64 option"
  pg_batch_size :: nat

definition PruningConfig_default :: PruningConfig where
  "PruningConfig_default =
     \<lparr>pg_mode = Pruned 10000, pg_prune_interval = 1000, pg_prune_receipts = True, pg_prune_bodies = False,
      pg_state_rent_blocks = None, pg_batch_size = 1000\<rparr>"

record StatePruner =
  sp_config :: PruningConfig
  sp_last_pruned_height :: u64
  sp_states_pruned :: u64
  sp_receipts_pruned :: u64
  sp_bodies_pruned :: u64
  sp_bytes_freed :: u64
  sp_last_prune_duration_ms :: u64
  sp_protected_roots :: "u8 list set"
  sp_pending_deletes :: "u8 list list"

definition StatePruner_new :: "PruningConfig \<Rightarrow> StatePruner" where
  "StatePruner_new config =
     \<lparr>sp_config = config, sp_last_pruned_height = 0, sp_states_pruned = 0, sp_receipts_pruned = 0, sp_bodies_pruned = 0,
      sp_bytes_freed = 0, sp_last_prune_duration_ms = 0, sp_protected_roots = {}, sp_pending_deletes = []\<rparr>"

definition should_prune :: "StatePruner \<Rightarrow> u64 \<Rightarrow> bool" where
  "should_prune p current_height =
     (if pg_mode (sp_config p) = PruneArchive then False
      else sp_last_pruned_height p + pg_prune_interval (sp_config p) < current_height)"

definition protect_root :: "StatePruner \<Rightarrow> u8 list \<Rightarrow> StatePruner" where
  "protect_root p r = p\<lparr>sp_protected_roots := insert r (sp_protected_roots p)\<rparr>"

definition unprotect_root :: "StatePruner \<Rightarrow> u8 list \<Rightarrow> StatePruner" where
  "unprotect_root p r = p\<lparr>sp_protected_roots := sp_protected_roots p - {r}\<rparr>"

definition blocks_to_prune :: "StatePruner \<Rightarrow> u64 \<Rightarrow> (u64 \<times> u64) option" where
  "blocks_to_prune p current_height =
     (case blocks_to_keep (pg_mode (sp_config p)) of
        None \<Rightarrow> None
      | Some keep \<Rightarrow>
          if current_height \<le> keep then None
          else let start = sp_last_pruned_height p + 1; stop = saturating_sub current_height keep
               in if start < stop then Some (start, stop) else None)"

definition mark_for_deletion :: "StatePruner \<Rightarrow> u8 list list \<Rightarrow> StatePruner" where
  "mark_for_deletion p nodes =
     p\<lparr>sp_pending_deletes := sp_pending_deletes p @ filter (\<lambda>n. n \<notin> sp_protected_roots p) nodes\<rparr>"

definition get_delete_batch :: "StatePruner \<Rightarrow> StatePruner \<times> u8 list list" where
  "get_delete_batch p =
     (let batch_size = min (pg_batch_size (sp_config p)) (length (sp_pending_deletes p))
      in (p\<lparr>sp_pending_deletes := drop batch_size (sp_pending_deletes p)\<rparr>, take batch_size (sp_pending_deletes p)))"

definition record_pruned :: "StatePruner \<Rightarrow> u64 \<Rightarrow> u64 \<Rightarrow> u64 \<Rightarrow> u64 \<Rightarrow> u64 \<Rightarrow> u64 \<Rightarrow> StatePruner" where
  "record_pruned p height states receipts bodies bytes duration_ms =
     p\<lparr>sp_last_pruned_height := height, sp_states_pruned := sp_states_pruned p + states,
       sp_receipts_pruned := sp_receipts_pruned p + receipts, sp_bodies_pruned := sp_bodies_pruned p + bodies,
       sp_bytes_freed := sp_bytes_freed p + bytes, sp_last_prune_duration_ms := duration_ms\<rparr>"

record HistoricalStateAPI =
  hs_state_roots :: "(u64 \<times> u8 list) list"
  hs_min_height :: u64

definition HistoricalStateAPI_new :: HistoricalStateAPI where
  "HistoricalStateAPI_new = \<lparr>hs_state_roots = [], hs_min_height = 0\<rparr>"

definition register_root :: "HistoricalStateAPI \<Rightarrow> u64 \<Rightarrow> u8 list \<Rightarrow> HistoricalStateAPI" where
  "register_root h height r = h\<lparr>hs_state_roots := sort_key fst (hs_state_roots h @ [(height, r)])\<rparr>"

definition get_root_at :: "HistoricalStateAPI \<Rightarrow> u64 \<Rightarrow> u8 list option" where
  "get_root_at h height = map_option snd (find (\<lambda>(k, _). k = height) (hs_state_roots h))"

definition get_closest_root :: "HistoricalStateAPI \<Rightarrow> u64 \<Rightarrow> (u64 \<times> u8 list) option" where
  "get_closest_root h height = max_by_key fst (filter (\<lambda>(k, _). k \<le> height) (hs_state_roots h))"

definition has_state_at :: "HistoricalStateAPI \<Rightarrow> u64 \<Rightarrow> bool" where
  "has_state_at h height = (hs_min_height h \<le> height \<and> get_root_at h height \<noteq> None)"

definition prune_below :: "HistoricalStateAPI \<Rightarrow> u64 \<Rightarrow> HistoricalStateAPI" where
  "prune_below h height = h\<lparr>hs_state_roots := filter (\<lambda>(k, _). height \<le> k) (hs_state_roots h)\<rparr>"

definition available_range :: "HistoricalStateAPI \<Rightarrow> u64 \<times> u64" where
  "available_range h =
     (case hs_state_roots h of [] \<Rightarrow> (0, 0) | e # es \<Rightarrow> (fst e, fst (last (e # es))))"

subsection \<open>Runs of the chunk queue\<close>

datatype snap_op = SnRequest nat | SnChunk StateChunk

fun snap_step :: "SnapSyncManager \<Rightarrow> snap_op \<Rightarrow> SnapSyncManager" where
  "snap_step m (SnRequest n) = fst (get_chunks_to_download m n)"
| "snap_step m (SnChunk c) = fst (process_chunk m c)"

text \<open>Every chunk of the snapshot is queued, on its way or there.\<close>

definition snap_inv :: "u64 \<Rightarrow> SnapSyncManager \<Rightarrow> bool" where
  "snap_inv n m =
     (sm_chunks_total m = n
      \<and> {..<n} \<subseteq> set (sm_pending_chunks m) \<union> sm_downloading_chunks m \<union> sm_completed_chunks m)"

lemma take_chunks_cover:
  "take_chunks n pending downloading chunks = (pending', downloading', chunks') \<Longrightarrow>
    set pending' \<union> downloading' = set pending \<union> downloading"
  by (induction n pending downloading chunks rule: take_chunks.induct) (auto split: if_splits)

lemma get_chunks_fields:
  "set (sm_pending_chunks (fst (get_chunks_to_download m k))) \<union> sm_downloading_chunks (fst (get_chunks_to_download m k))
     = set (sm_pending_chunks m) \<union> sm_downloading_chunks m"
  "sm_completed_chunks (fst (get_chunks_to_download m k)) = sm_completed_chunks m"
  "sm_chunks_total (fst (get_chunks_to_download m k)) = sm_chunks_total m"
  "sm_state (fst (get_chunks_to_download m k)) = sm_state m"
proof -
  obtain pending' downloading' chunks'
    where t: "take_chunks k (sm_pending_chunks m) (sm_downloading_chunks m) [] = (pending', downloading', chunks')"
    using prod_cases3 by blast
  show "set (sm_pending_chunks (fst (get_chunks_to_download m k))) \<union> sm_downloading_chunks (fst (get_chunks_to_download m k))
      = set (sm_pending_chunks m) \<union> sm_downloading_chunks m"
    using take_chunks_cover [OF t] by (simp add: get_chunks_to_download_def t)
qed (simp_all add: get_chunks_to_download_def split: prod.split)

lemma process_chunk_fields:
  "sm_chunks_total (fst (process_chunk m c)) = sm_chunks_total m"
  "sm_downloading_chunks (fst (process_chunk m c)) = sm_downloading_chunks m - {sh_chunk_id c}"
  "sm_pending_chunks (fst (process_chunk m c)) =
     (if verify_chunk_proof c then sm_pending_chunks m else sm_pending_chunks m @ [sh_chunk_id c])"
  "sm_completed_chunks (fst (process_chunk m c)) =
     (if verify_chunk_proof c then insert (sh_chunk_id c) (sm_completed_chunks m) else sm_completed_chunks m)"
  "sm_state (fst (process_chunk m c)) =
     (if verify_chunk_proof c \<and> sm_chunks_total m \<le> of_nat (card (insert (sh_chunk_id c) (sm_completed_chunks m)))
      then HealingState else sm_state m)"
  by (simp_all add: process_chunk_def Let_def)

lemma snap_step_inv: "snap_inv n m \<Longrightarrow> snap_inv n (snap_step m x)"
  using get_chunks_fields [of m] by (cases x) (auto simp: snap_inv_def process_chunk_fields)

lemma snap_start_fields:
  "set (sm_pending_chunks (snap_start (SnapSyncManager_new mode) pivot n)) = {..<n}"
  "sm_downloading_chunks (snap_start (SnapSyncManager_new mode) pivot n) = {}"
  "sm_completed_chunks (snap_start (SnapSyncManager_new mode) pivot n) = {}"
  "sm_chunks_total (snap_start (SnapSyncManager_new mode) pivot n) = n"
  "sm_state (snap_start (SnapSyncManager_new mode) pivot n) = DownloadingState"
proof -
  have "x \<in> of_nat ` {..<unat n}" if "x < n" for x :: u64
    using that by (intro image_eqI [of _ _ "unat x"]) (simp_all add: word_less_nat_alt)
  moreover have "of_nat k < n" if "k < unat n" for k
    using that unat_less_power [of n] by (simp add: word_less_nat_alt unat_of_nat_small)
  ultimately show "set (sm_pending_chunks (snap_start (SnapSyncManager_new mode) pivot n)) = {..<n}"
    by (auto simp: snap_start_def SnapSyncManager_new_def lessThan_atLeast0)
qed (simp_all add: snap_start_def SnapSyncManager_new_def)

interpretation snap: machine "snap_start (SnapSyncManager_new mode) pivot n" snap_step "snap_inv n"
  by unfold_locales (simp_all add: snap_step_inv, simp add: snap_inv_def snap_start_fields)

text \<open>With chunks of the snapshot only, the completed ones are enough for healing exactly when all are there.\<close>

fun op_of_snapshot :: "u64 \<Rightarrow> snap_op \<Rightarrow> bool" where
  "op_of_snapshot n (SnRequest _) = True"
| "op_of_snapshot n (SnChunk c) = (sh_chunk_id c < n)"

definition snap_honest :: "u64 \<Rightarrow> SnapSyncManager \<Rightarrow> bool" where
  "snap_honest n m =
     (sm_chunks_total m = n \<and> sm_completed_chunks m \<subseteq> {..<n}
      \<and> (sm_state m = HealingState \<longrightarrow> sm_completed_chunks m = {..<n}))"

lemma card_below: "card {..<n::u64} = unat n"
proof -
  have "card (unat ` {..<n}) = card {..<n}" by (rule card_image) (simp add: inj_on_def unsigned_word_eqI)
  moreover have "unat ` {..<n} = {..<unat n}"
  proof
    show "unat ` {..<n} \<subseteq> {..<unat n}" by (auto simp: word_less_nat_alt)
    show "{..<unat n} \<subseteq> unat ` {..<n}"
    proof
      fix k assume "k \<in> {..<unat n}"
      then have "unat (of_nat k :: u64) = k" "k < unat n" using unat_less_power [of n] by (simp_all add: unat_of_nat_small)
      then show "k \<in> unat ` {..<n}" by (intro image_eqI [of _ _ "of_nat k"]) (simp_all add: word_less_nat_alt)
    qed
  qed
  ultimately show ?thesis by simp
qed

lemma enough_is_all:
  assumes "S \<subseteq> {..<n::u64}" and "n \<le> of_nat (card S)"
  shows "S = {..<n}"
proof (rule card_subset_eq [OF _ assms(1)])
  have "card S \<le> unat n" using card_mono [OF _ assms(1)] by (simp add: card_below)
  moreover have "unat n \<le> unat (of_nat (card S) :: u64)" using assms(2) by (simp add: word_le_nat_alt)
  moreover have "unat (of_nat (card S) :: u64) \<le> card S" by (simp add: unat_of_nat)
  ultimately show "card S = card {..<n}" by (simp add: card_below)
qed simp

lemma snap_honest_chunk:
  assumes h: "snap_honest n m" and c: "sh_chunk_id c < n"
  shows "snap_honest n (fst (process_chunk m c))"
proof -
  let ?S = "insert (sh_chunk_id c) (sm_completed_chunks m)"
  have n: "sm_chunks_total m = n" and sub: "?S \<subseteq> {..<n}"
    and all: "sm_state m = HealingState \<longrightarrow> sm_completed_chunks m = {..<n}"
    using h c unfolding snap_honest_def by auto
  have "sm_state m = HealingState \<longrightarrow> ?S = {..<n}" using all sub by blast
  moreover have "n \<le> of_nat (card ?S) \<longrightarrow> ?S = {..<n}" using enough_is_all [OF sub] by blast
  ultimately show ?thesis using h sub n unfolding snap_honest_def process_chunk_fields by (simp only: split: if_split) blast
qed

lemma snap_honest_step: "snap_honest n m \<Longrightarrow> op_of_snapshot n x \<Longrightarrow> snap_honest n (snap_step m x)"
  by (cases x) (simp_all add: snap_honest_chunk, simp add: snap_honest_def get_chunks_fields)

lemma snap_honest_run: "snap_honest n m \<Longrightarrow> list_all (op_of_snapshot n) xs \<Longrightarrow> snap_honest n (run snap_step m xs)"
  by (induction xs arbitrary: m) (simp_all add: snap_honest_step)

text \<open>
  No chunk is lost: whatever is requested and whatever peers answer after the start of a snapshot of \<open>n\<close>
  chunks, each chunk number below \<open>n\<close> is in the queue, being downloaded or completed.
\<close>

theorem no_chunk_lost:
  assumes "reachable snap_step (snap_start (SnapSyncManager_new mode) pivot n) m" and "i < n"
  shows "i \<in> set (sm_pending_chunks m) \<or> i \<in> sm_downloading_chunks m \<or> i \<in> sm_completed_chunks m"
  using snap.inv_reachable [OF assms(1)] assms(2) by (auto simp: snap_inv_def)

text \<open>
  A download ends with the whole snapshot when the answers carry chunk numbers of the snapshot: once the
  phase is healing, the completed chunks are exactly those below \<open>n\<close>.
\<close>

theorem healing_has_every_chunk:
  assumes "list_all (op_of_snapshot n) xs"
    and "sm_state (run snap_step (snap_start (SnapSyncManager_new mode) pivot n) xs) = HealingState"
  shows "sm_completed_chunks (run snap_step (snap_start (SnapSyncManager_new mode) pivot n) xs) = {..<n}"
proof -
  have "snap_honest n (snap_start (SnapSyncManager_new mode) pivot n)"
    by (simp add: snap_honest_def snap_start_fields)
  then show ?thesis using snap_honest_run [OF _ assms(1)] assms(2) unfolding snap_honest_def by blast
qed

text \<open>
  The chunk number of an answer is not compared with the ones requested: a chunk outside the snapshot
  completes the download of a snapshot of one chunk, and that chunk is never fetched.
\<close>

lemma foreign_chunk_completes:
  assumes "1 \<le> sh_chunk_id c" and "verify_chunk_proof c"
  shows "sm_state (snap_step (snap_start (SnapSyncManager_new mode) pivot 1) (SnChunk c)) = HealingState
    \<and> 0 \<notin> sm_completed_chunks (snap_step (snap_start (SnapSyncManager_new mode) pivot 1) (SnChunk c))"
  using assms by (auto simp: process_chunk_fields snap_start_fields)

definition example_chunk :: StateChunk where
  "example_chunk = \<lparr>sh_chunk_id = 0, sh_start_key = h256_zero, sh_end_key = h256_zero, sh_accounts = [], sh_proof = []\<rparr>"

definition example_pivot :: PivotBlock where
  "example_pivot = \<lparr>pv_height = 9, pv_hash = h256_zero, pv_state_root = h256_zero, pv_confirmed_by = []\<rparr>"

theorem no_chunk_lost_witness:
  "let m = run snap_step (snap_start (SnapSyncManager_new SyncSnap) example_pivot 2) [SnRequest 1, SnChunk example_chunk]
   in 1 \<in> set (sm_pending_chunks m) \<or> 1 \<in> sm_downloading_chunks m \<or> 1 \<in> sm_completed_chunks m"
  unfolding Let_def by (rule no_chunk_lost [OF reachable_run]) simp

theorem healing_has_every_chunk_witness:
  "sm_completed_chunks (run snap_step (snap_start (SnapSyncManager_new SyncSnap) example_pivot 1) [SnRequest 1, SnChunk example_chunk]) = {..<1}"
  by (rule healing_has_every_chunk)
    (simp_all add: example_chunk_def process_chunk_fields get_chunks_fields snap_start_fields verify_chunk_proof_def)

subsection \<open>What pruning keeps\<close>

text \<open>
  Pruning keeps the configured number of blocks: the range to prune is non-empty, starts right after the
  last pruned height and ends exactly that many blocks below the current height.
\<close>

theorem pruning_keeps_blocks:
  assumes "blocks_to_prune p current_height = Some (start, stop)"
    and "blocks_to_keep (pg_mode (sp_config p)) = Some keep"
    and "sp_last_pruned_height p < current_height"
  shows "unat start = unat (sp_last_pruned_height p) + 1 \<and> unat start < unat stop
    \<and> unat stop + unat keep = unat current_height"
proof -
  have s: "start = sp_last_pruned_height p + 1" "stop = current_height - keep" "start < stop" "keep < current_height"
    using assms(1,2) by (auto simp: blocks_to_prune_def saturating_sub_def Let_def split: if_splits)
  have "unat start = unat (sp_last_pruned_height p) + 1"
    using assms(3) unat_less_power [of current_height] unfolding s(1) by (subst unat_add_exact) (simp_all add: word_less_nat_alt)
  moreover have "unat stop + unat keep = unat current_height"
    using s(4) unfolding s(2) by (simp add: unat_sub word_le_nat_alt word_less_nat_alt)
  ultimately show ?thesis using s(3) by (simp add: word_less_nat_alt)
qed

theorem pruning_keeps_blocks_witness:
  "blocks_to_prune (StatePruner_new (PruningConfig_default\<lparr>pg_mode := Pruned 100\<rparr>)) 200 = Some (1, 100)
    \<and> unat (100 :: u64) + unat (100 :: u64) = unat (200 :: u64)"
proof -
  have b: "blocks_to_prune (StatePruner_new (PruningConfig_default\<lparr>pg_mode := Pruned 100\<rparr>)) 200 = Some (1, 100)"
    by (simp add: blocks_to_prune_def StatePruner_new_def saturating_sub_def)
  show ?thesis
    using b pruning_keeps_blocks [OF b, of 100] by (simp add: StatePruner_new_def)
qed

text \<open>
  The closest root to a height is a registered one, at the greatest registered height that does not
  exceed it, and there is one whenever some root is registered at or below that height.
\<close>

theorem closest_root_correct:
  "case get_closest_root h height of
     None \<Rightarrow> (\<nexists>k r. (k, r) \<in> set (hs_state_roots h) \<and> k \<le> height)
   | Some (k, r) \<Rightarrow> (k, r) \<in> set (hs_state_roots h) \<and> k \<le> height
       \<and> (\<nexists>k' r'. (k', r') \<in> set (hs_state_roots h) \<and> k' \<le> height \<and> k < k')"
proof (cases "get_closest_root h height")
  case None
  then show ?thesis using None [unfolded get_closest_root_def max_by_key_none filter_empty_conv] by auto
next
  case (Some e)
  from max_by_key_greatest [OF this [unfolded get_closest_root_def]] show ?thesis
    using Some by (cases e) (fastforce simp: not_less)
qed

lemma registered_root_found: "get_root_at (register_root h height r) height \<noteq> None"
  by (auto simp: get_root_at_def register_root_def find_None_iff)

text \<open>The roots are indexed by height: they stay sorted through every registration and pruning.\<close>

lemma roots_sorted:
  "sorted (map fst (hs_state_roots (register_root h height r)))"
  "sorted (map fst (hs_state_roots h)) \<Longrightarrow> sorted (map fst (hs_state_roots (prune_below h height)))"
  by (simp_all add: register_root_def prune_below_def sorted_filter)

text \<open>
  Protection is looked up when a node is marked, not when it is deleted: a root protected after it was
  marked is still handed out for deletion.
\<close>

lemma late_protection_ignored:
  assumes "pg_batch_size config = 10"
  shows "let p = protect_root (mark_for_deletion (StatePruner_new config) [r]) r
    in r \<in> sp_protected_roots p \<and> r \<in> set (snd (get_delete_batch p))"
  using assms by (simp add: protect_root_def mark_for_deletion_def StatePruner_new_def get_delete_batch_def)

end
