(* ===== verification/Stream_A.thy ===== *)
theory Stream_A
  imports Validation
begin

section \<open>Stream A blocks and their proof of work\<close>

text \<open>
  \<open>pyrax-node/src/types/utxo.rs\<close>, \<open>types/stream_a_block.rs\<close> and \<open>consensus/blake3_pow.rs\<close>: a second set of
  transaction and block types with an encoding of their own, and the proof of work by BLAKE3 with its
  reference miners. The structs of \<open>utxo.rs\<close> have the fields of those of \<open>types/mod.rs\<close> and are the same
  records here; the operations are this module's. The retarget formula, in floating point, and the
  benchmark are left out.
\<close>

subsection \<open>Transactions and their encoding\<close>

type_synonym UtxoTransaction = Transaction

definition outpoint_new :: "h256 \<Rightarrow> u32 \<Rightarrow> OutPoint" where
  "outpoint_new txid vout = \<lparr>op_txid = txid, op_vout = vout\<rparr>"

definition outpoint_coinbase :: OutPoint where
  "outpoint_coinbase = \<lparr>op_txid = h256_zero, op_vout = - 1\<rparr>"

definition outpoint_is_coinbase :: "OutPoint \<Rightarrow> bool" where
  "outpoint_is_coinbase p = (op_txid p = h256_zero \<and> op_vout p = - 1)"

definition outpoint_encode :: "OutPoint \<Rightarrow> u8 list" where
  "outpoint_encode p = h256_bytes (op_txid p) @ u32_to_le_bytes (op_vout p)"

definition txin_new :: "OutPoint \<Rightarrow> u8 list \<Rightarrow> TxInput" where
  "txin_new previous_output script_sig =
     \<lparr>in_previous_output = previous_output, in_script_sig = script_sig, in_sequence = 0xFFFFFFFF\<rparr>"

definition txin_coinbase :: "u64 \<Rightarrow> u8 list \<Rightarrow> TxInput" where
  "txin_coinbase block_height extra_data =
     \<lparr>in_previous_output = outpoint_coinbase, in_script_sig = u64_to_le_bytes block_height @ extra_data,
      in_sequence = 0xFFFFFFFF\<rparr>"

definition txin_is_coinbase :: "TxInput \<Rightarrow> bool" where
  "txin_is_coinbase i = outpoint_is_coinbase (in_previous_output i)"

definition txin_encode :: "TxInput \<Rightarrow> u8 list" where
  "txin_encode i =
     outpoint_encode (in_previous_output i) @ u32_to_le_bytes (of_nat (length (in_script_sig i)))
     @ in_script_sig i @ u32_to_le_bytes (in_sequence i)"

definition txout_new :: "u64 \<Rightarrow> u8 list \<Rightarrow> TxOutput" where
  "txout_new v script_pubkey = \<lparr>out_value = v, out_script = script_pubkey\<rparr>"

definition txout_p2pkh :: "u64 \<Rightarrow> address \<Rightarrow> TxOutput" where
  "txout_p2pkh v a = txout_new v ([0x76, 0xa9, 0x14] @ address_bytes a @ [0x88, 0xac])"

definition extract_p2pkh_address :: "TxOutput \<Rightarrow> address option" where
  "extract_p2pkh_address t =
     (let s = out_script t in
      if length s = 25 \<and> s ! 0 = 0x76 \<and> s ! 1 = 0xa9 \<and> s ! 2 = 0x14 \<and> s ! 23 = 0x88 \<and> s ! 24 = 0xac
      then Some (address_from_slice (take 20 (drop 3 s))) else None)"

definition txout_encode :: "TxOutput \<Rightarrow> u8 list" where
  "txout_encode t =
     u64_to_le_bytes (out_value t) @ u32_to_le_bytes (of_nat (length (out_script t))) @ out_script t"

definition UtxoTransaction_new :: "TxInput list \<Rightarrow> TxOutput list \<Rightarrow> UtxoTransaction" where
  "UtxoTransaction_new inputs outputs =
     \<lparr>tx_version = 1, tx_inputs = inputs, tx_outputs = outputs, tx_lock_time = 0\<rparr>"

definition UtxoTransaction_coinbase :: "u64 \<Rightarrow> u64 \<Rightarrow> address \<Rightarrow> UtxoTransaction" where
  "UtxoTransaction_coinbase block_height reward miner =
     \<lparr>tx_version = 1, tx_inputs = [txin_coinbase block_height (ascii_bytes ''PYRAX'')],
      tx_outputs = [txout_p2pkh reward miner], tx_lock_time = 0\<rparr>"

definition encode_for_signing :: "UtxoTransaction \<Rightarrow> nat \<Rightarrow> u8 list \<Rightarrow> u8 list" where
  "encode_for_signing t input_index prev_script_pubkey =
     u32_to_le_bytes (tx_version t) @ u32_to_le_bytes (of_nat (length (tx_inputs t)))
     @ concat (map (\<lambda>(i, input). outpoint_encode (in_previous_output input)
         @ (if i = input_index
            then u32_to_le_bytes (of_nat (length prev_script_pubkey)) @ prev_script_pubkey
            else u32_to_le_bytes 0)
         @ u32_to_le_bytes (in_sequence input)) (List.enumerate 0 (tx_inputs t)))
     @ u32_to_le_bytes (of_nat (length (tx_outputs t))) @ concat (map txout_encode (tx_outputs t))
     @ u32_to_le_bytes (tx_lock_time t) @ u32_to_le_bytes 1"

definition utxo_signing_hash :: "ext \<Rightarrow> UtxoTransaction \<Rightarrow> nat \<Rightarrow> u8 list \<Rightarrow> h256" where
  "utxo_signing_hash e t input_index prev_script_pubkey =
     h256_from_slice (ext_keccak256 e (encode_for_signing t input_index prev_script_pubkey))"

definition utxo_tx_encode :: "UtxoTransaction \<Rightarrow> u8 list" where
  "utxo_tx_encode t =
     u32_to_le_bytes (tx_version t) @ u32_to_le_bytes (of_nat (length (tx_inputs t)))
     @ concat (map txin_encode (tx_inputs t)) @ u32_to_le_bytes (of_nat (length (tx_outputs t)))
     @ concat (map txout_encode (tx_outputs t)) @ u32_to_le_bytes (tx_lock_time t)"

definition utxo_txid :: "ext \<Rightarrow> UtxoTransaction \<Rightarrow> h256" where
  "utxo_txid e t = h256_from_slice (ext_keccak256 e (utxo_tx_encode t))"

definition utxo_tx_is_coinbase :: "UtxoTransaction \<Rightarrow> bool" where
  "utxo_tx_is_coinbase t = (length (tx_inputs t) = 1 \<and> txin_is_coinbase (tx_inputs t ! 0))"

definition utxo_total_output :: "UtxoTransaction \<Rightarrow> u64" where
  "utxo_total_output t = sum_list (map out_value (tx_outputs t))"

definition vsize :: "UtxoTransaction \<Rightarrow> nat" where
  "vsize t = length (utxo_tx_encode t)"

definition stored_utxo_new :: "TxOutput \<Rightarrow> u64 \<Rightarrow> bool \<Rightarrow> Utxo" where
  "stored_utxo_new t height coinbase = \<lparr>utxo_output = t, utxo_height = height, utxo_is_coinbase = coinbase\<rparr>"

definition is_mature :: "Utxo \<Rightarrow> u64 \<Rightarrow> bool" where
  "is_mature u current_height = (if \<not> utxo_is_coinbase u then True else utxo_height u + 100 \<le> current_height)"

subsection \<open>Proof of work\<close>

definition pow_hash_bytes :: "ext \<Rightarrow> u8 list \<Rightarrow> u64 \<Rightarrow> u64 \<Rightarrow> h256" where
  "pow_hash_bytes e header_bytes nonce extra_nonce =
     h256_from_slice (ext_blake3 e (header_bytes @ u64_to_le_bytes nonce @ u64_to_le_bytes extra_nonce))"

definition meets_target :: "h256 \<Rightarrow> h256 \<Rightarrow> bool" where
  "meets_target h target = (h256_bytes h \<le> h256_bytes target)"

definition pow_difficulty_to_target :: "u64 \<Rightarrow> h256" where
  "pow_difficulty_to_target d =
     (if d = 0 then h256_from_slice (replicate 32 0xff)
      else h256_from_slice (be_bytes 32 (unat ((- 1 :: 256 word) div ucast d))))"

definition target_to_difficulty :: "h256 \<Rightarrow> u64" where
  "target_to_difficulty target =
     (let t = of_nat (be_value (h256_bytes target)) :: 256 word in
      if t = 0 then - 1
      else let d = (- 1) div t in if ucast (- 1 :: u64) < d then - 1 else ucast d)"

fun mine_loop :: "ext \<Rightarrow> u8 list \<Rightarrow> h256 \<Rightarrow> nat \<Rightarrow> u64 \<Rightarrow> u64 \<Rightarrow> (u64 \<times> u64 \<times> h256) option" where
  "mine_loop e header_bytes target 0 nonce extra_nonce = None"
| "mine_loop e header_bytes target (Suc k) nonce extra_nonce =
     (let h = pow_hash_bytes e header_bytes nonce extra_nonce in
      if meets_target h target then Some (nonce, extra_nonce, h)
      else let nonce = nonce + 1; extra_nonce = (if nonce = 0 then extra_nonce + 1 else extra_nonce)
           in mine_loop e header_bytes target k nonce extra_nonce)"

definition mine :: "ext \<Rightarrow> u8 list \<Rightarrow> h256 \<Rightarrow> u64 \<Rightarrow> u64 \<Rightarrow> (u64 \<times> u64 \<times> h256) option" where
  "mine e header_bytes target start_nonce max_iterations =
     mine_loop e header_bytes target (unat max_iterations) start_nonce 0"

text \<open>
  The callback is a closure with a state of its own: it takes the state and the number of the iteration
  and returns the new state and whether to go on. The loop counts the iterations from \<open>i\<close>.
\<close>

fun mine_callback_loop ::
  "ext \<Rightarrow> u8 list \<Rightarrow> h256 \<Rightarrow> ('c \<Rightarrow> u64 \<Rightarrow> 'c \<times> bool) \<Rightarrow> 'c \<Rightarrow> u64 \<Rightarrow> nat \<Rightarrow> u64 \<Rightarrow> u64 \<Rightarrow> (u64 \<times> u64 \<times> h256) option"
where
  "mine_callback_loop e header_bytes target callback c i 0 nonce extra_nonce = None"
| "mine_callback_loop e header_bytes target callback c i (Suc k) nonce extra_nonce =
     (let h = pow_hash_bytes e header_bytes nonce extra_nonce in
      if meets_target h target then Some (nonce, extra_nonce, h)
      else case (if i mod 100000 = 0 \<and> 0 < i then callback c i else (c, True)) of (c, go_on) \<Rightarrow>
        if \<not> go_on then None
        else let nonce = nonce + 1; extra_nonce = (if nonce = 0 then extra_nonce + 1 else extra_nonce)
             in mine_callback_loop e header_bytes target callback c (i + 1) k nonce extra_nonce)"

definition mine_with_callback ::
  "ext \<Rightarrow> u8 list \<Rightarrow> h256 \<Rightarrow> u64 \<Rightarrow> u64 \<Rightarrow> ('c \<Rightarrow> u64 \<Rightarrow> 'c \<times> bool) \<Rightarrow> 'c \<Rightarrow> (u64 \<times> u64 \<times> h256) option"
where
  "mine_with_callback e header_bytes target start_nonce max_iterations callback c =
     mine_callback_loop e header_bytes target callback c 0 (unat max_iterations) start_nonce 0"

text \<open>The miner beside the block type counts through a range whose end wraps.\<close>

fun mine_range :: "ext \<Rightarrow> u8 list \<Rightarrow> h256 \<Rightarrow> u64 list \<Rightarrow> (u64 \<times> u64 \<times> h256) option" where
  "mine_range e header_bytes target [] = None"
| "mine_range e header_bytes target (nonce # nonces) =
     (let h = pow_hash_bytes e header_bytes nonce 0 in
      if meets_target h target then Some (nonce, 0, h) else mine_range e header_bytes target nonces)"

definition block_mine :: "ext \<Rightarrow> u8 list \<Rightarrow> h256 \<Rightarrow> u64 \<Rightarrow> u64 \<Rightarrow> (u64 \<times> u64 \<times> h256) option" where
  "block_mine e header_bytes target start_nonce max_iterations =
     mine_range e header_bytes target (map of_nat [unat start_nonce..<unat (start_nonce + max_iterations)])"

subsection \<open>Headers and blocks\<close>

record StreamAHeader =
  sa_version :: u32
  sa_stream :: u8
  sa_parent_hash :: h256
  sa_merkle_root :: h256
  sa_utxo_root :: h256
  sa_timestamp :: u64
  sa_difficulty :: u64
  sa_nonce :: u64
  sa_extra_nonce :: u64
  sa_height :: u64
  sa_beneficiary :: address

definition stream_a_id :: u8 where
  "stream_a_id = 0"

definition stream_a_block_reward :: u64 where
  "stream_a_block_reward = 5000000000"

definition StreamAHeader_new :: "h256 \<Rightarrow> h256 \<Rightarrow> h256 \<Rightarrow> u64 \<Rightarrow> u64 \<Rightarrow> u64 \<Rightarrow> address \<Rightarrow> StreamAHeader" where
  "StreamAHeader_new parent_hash merkle_root utxo_root timestamp difficulty height beneficiary =
     \<lparr>sa_version = 1, sa_stream = stream_a_id, sa_parent_hash = parent_hash, sa_merkle_root = merkle_root,
      sa_utxo_root = utxo_root, sa_timestamp = timestamp, sa_difficulty = difficulty, sa_nonce = 0,
      sa_extra_nonce = 0, sa_height = height, sa_beneficiary = beneficiary\<rparr>"

definition StreamAHeader_genesis :: StreamAHeader where
  "StreamAHeader_genesis =
     \<lparr>sa_version = 1, sa_stream = stream_a_id, sa_parent_hash = h256_zero, sa_merkle_root = h256_zero,
      sa_utxo_root = h256_zero, sa_timestamp = 1735689600, sa_difficulty = 1, sa_nonce = 0,
      sa_extra_nonce = 0, sa_height = 0, sa_beneficiary = address_zero\<rparr>"

definition encode_for_pow :: "StreamAHeader \<Rightarrow> u8 list" where
  "encode_for_pow h =
     u32_to_le_bytes (sa_version h) @ [sa_stream h] @ h256_bytes (sa_parent_hash h)
     @ h256_bytes (sa_merkle_root h) @ h256_bytes (sa_utxo_root h) @ u64_to_le_bytes (sa_timestamp h)
     @ u64_to_le_bytes (sa_difficulty h) @ u64_to_le_bytes (sa_height h) @ address_bytes (sa_beneficiary h)"

definition sa_pow_hash :: "ext \<Rightarrow> StreamAHeader \<Rightarrow> h256" where
  "sa_pow_hash e h = pow_hash_bytes e (encode_for_pow h) (sa_nonce h) (sa_extra_nonce h)"

definition sa_hash :: "ext \<Rightarrow> StreamAHeader \<Rightarrow> h256" where
  "sa_hash e h =
     h256_from_slice (ext_blake3 e
       ((encode_for_pow h @ u64_to_le_bytes (sa_nonce h)) @ u64_to_le_bytes (sa_extra_nonce h)))"

text \<open>This module's copy of the target writes the bytes into the hash directly.\<close>

definition block_difficulty_to_target :: "u64 \<Rightarrow> h256" where
  "block_difficulty_to_target d =
     (if d = 0 then H256 (replicate 32 0xff)
      else H256 (be_bytes 32 (unat ((- 1 :: 256 word) div ucast d))))"

definition sa_target :: "StreamAHeader \<Rightarrow> h256" where
  "sa_target h = block_difficulty_to_target (sa_difficulty h)"

definition sa_verify_pow :: "ext \<Rightarrow> StreamAHeader \<Rightarrow> bool" where
  "sa_verify_pow e h = meets_target (sa_pow_hash e h) (sa_target h)"

definition set_nonce :: "StreamAHeader \<Rightarrow> u64 \<Rightarrow> u64 \<Rightarrow> StreamAHeader" where
  "set_nonce h nonce extra_nonce = h\<lparr>sa_nonce := nonce, sa_extra_nonce := extra_nonce\<rparr>"

record StreamABody =
  sb_transactions :: "UtxoTransaction list"

definition StreamABody_new :: "UtxoTransaction list \<Rightarrow> StreamABody" where
  "StreamABody_new transactions = \<lparr>sb_transactions = transactions\<rparr>"

definition StreamABody_empty :: StreamABody where
  "StreamABody_empty = \<lparr>sb_transactions = []\<rparr>"

definition coinbase_only :: "u64 \<Rightarrow> u64 \<Rightarrow> address \<Rightarrow> StreamABody" where
  "coinbase_only height reward miner = \<lparr>sb_transactions = [UtxoTransaction_coinbase height reward miner]\<rparr>"

definition body_merkle_root :: "ext \<Rightarrow> StreamABody \<Rightarrow> h256" where
  "body_merkle_root e b =
     (if sb_transactions b = [] then h256_zero
      else merkle_loop e (map (utxo_txid e) (sb_transactions b)) ! 0)"

definition total_fees :: "StreamABody \<Rightarrow> u64 list \<Rightarrow> u64" where
  "total_fees b utxo_values = 0"

record StreamABlock =
  sk_header :: StreamAHeader
  sk_body :: StreamABody

definition StreamABlock_genesis :: StreamABlock where
  "StreamABlock_genesis = \<lparr>sk_header = StreamAHeader_genesis, sk_body = StreamABody_empty\<rparr>"

definition sa_block_verify_pow :: "ext \<Rightarrow> StreamABlock \<Rightarrow> bool" where
  "sa_block_verify_pow e b = sa_verify_pow e (sk_header b)"

definition sa_verify_merkle :: "ext \<Rightarrow> StreamABlock \<Rightarrow> bool" where
  "sa_verify_merkle e b = (sa_merkle_root (sk_header b) = body_merkle_root e (sk_body b))"

subsection \<open>What the encodings bind\<close>

definition encodable :: "UtxoTransaction \<Rightarrow> bool" where
  "encodable t = (signable t \<and> (\<forall>i \<in> set (tx_inputs t). length (in_script_sig i) < 2 ^ 32))"

definition txin_part :: "TxInput \<Rightarrow> OutPoint \<times> u8 list \<times> u32" where
  "txin_part i = (in_previous_output i, in_script_sig i, in_sequence i)"

lemma txin_encode_part: "txin_encode = enc_input \<circ> txin_part"
  by (auto simp: txin_encode_def enc_input_def txin_part_def outpoint_encode_def)

lemma txout_encode_eq: "txout_encode = signing_output"
  by (auto simp: txout_encode_def signing_output_def)

lemma inj_txin_part: "inj txin_part"
  by (auto simp: inj_def txin_part_def)

lemma utxo_tx_encode_inject:
  assumes tx: "encodable t" "encodable t'" and eq: "utxo_tx_encode t = utxo_tx_encode t'"
  shows "t = t'"
proof -
  let ?ps = "map txin_part (tx_inputs t)" and ?ps' = "map txin_part (tx_inputs t')"
  have len: "length (tx_inputs t) = length (tx_inputs t')" and ver: "tx_version t = tx_version t'"
    using eq tx unat_lengths by (auto simp: utxo_tx_encode_def encodable_def signable_def)
  have A: "\<forall>p \<in> set ?ps \<union> set ?ps'. part_ok p"
    using tx by (auto simp: part_ok_def txin_part_def encodable_def signable_def)
  let ?r = "\<lambda>t. u32_to_le_bytes (of_nat (length (tx_outputs t)))
     @ concat (map signing_output (tx_outputs t)) @ u32_to_le_bytes (tx_lock_time t)"
  have "concat (map enc_input ?ps) @ ?r t = concat (map enc_input ?ps') @ ?r t'"
    using eq by (simp add: utxo_tx_encode_def txin_encode_part txout_encode_eq)
  then have ins: "?ps = ?ps' \<and> ?r t = ?r t'"
    using len A by (intro inputs_prefix_free) simp_all
  then have olen: "length (tx_outputs t) = length (tx_outputs t')"
    using tx unat_lengths by (simp add: encodable_def signable_def)
  have "concat (map signing_output (tx_outputs t)) @ u32_to_le_bytes (tx_lock_time t)
      = concat (map signing_output (tx_outputs t')) @ u32_to_le_bytes (tx_lock_time t')"
    using ins by simp
  then have "tx_outputs t = tx_outputs t' \<and> u32_to_le_bytes (tx_lock_time t) = u32_to_le_bytes (tx_lock_time t')"
    using olen tx by (intro outputs_prefix_free) (auto simp: encodable_def signable_def)
  moreover have "tx_inputs t = tx_inputs t'" using ins inj_txin_part by (simp add: inj_map_eq_map)
  ultimately show ?thesis using ver by simp
qed

text \<open>
  A transaction identifier stands for the whole transaction, unlocking scripts included: two transactions
  with lengths below \<open>2^32\<close> have the same identifier only if they are equal, as long as Keccak separates
  their encodings.
\<close>

theorem utxo_txid_binds:
  assumes "encodable t" and "encodable t'" and "keccak_separates e (utxo_tx_encode t) (utxo_tx_encode t')"
  shows "utxo_txid e t = utxo_txid e t' \<longleftrightarrow> t = t'"
  using utxo_tx_encode_inject [OF assms(1,2)] assms(3) by (auto simp: utxo_txid_def keccak_separates_def)

text \<open>
  What a wallet signs is what the validator checks: the signing hash of this module is, for every
  transaction, input and script, the one that the validation of blocks and of the pool computes.
\<close>

theorem signing_hash_agrees: "utxo_signing_hash e t i s = compute_signing_hash e t i s"
proof -
  have "encode_for_signing t i s = signing_preimage t i s"
    by (simp add: encode_for_signing_def signing_preimage_def signing_input_def outpoint_encode_def
        txout_encode_eq split_def)
  then show ?thesis by (simp add: utxo_signing_hash_def compute_signing_hash_def)
qed

text \<open>The two modules agree on scripts, coinbases and maturity as well.\<close>

lemma utxo_helpers_agree:
  "extract_p2pkh_address t = TxOutput_get_address t"
  "utxo_tx_is_coinbase tx = Transaction_is_coinbase tx"
  "UtxoTransaction_coinbase height reward miner = Transaction_coinbase height reward miner"
  "is_mature u height = Utxo_is_mature u height"
  by (auto simp: extract_p2pkh_address_def TxOutput_get_address_def is_p2pkh_script_def Let_def
      utxo_tx_is_coinbase_def Transaction_is_coinbase_def txin_is_coinbase_def TxInput_is_coinbase_def
      outpoint_is_coinbase_def OutPoint_is_coinbase_def UtxoTransaction_coinbase_def Transaction_coinbase_def
      txin_coinbase_def TxInput_coinbase_def outpoint_coinbase_def OutPoint_coinbase_def txout_p2pkh_def
      TxOutput_p2pkh_def txout_new_def TxOutput_new_def ascii_bytes_def is_mature_def Utxo_is_mature_def
      split: list.split)

subsection \<open>Targets\<close>

lemma targets_agree:
  "pow_difficulty_to_target d = difficulty_to_target d" "block_difficulty_to_target d = difficulty_to_target d"
  by (simp_all add: pow_difficulty_to_target_def block_difficulty_to_target_def difficulty_to_target_def h256_from_slice_def)

lemma div_div_self:
  fixes m d :: nat
  assumes "0 < d" and "d \<le> m div d"
  shows "m div (m div d) = d"
proof -
  let ?q = "m div d"
  have q: "0 < ?q" using assms by linarith
  have "m = d * ?q + m mod d" by simp
  moreover have "m mod d < ?q" using assms by (meson mod_less_divisor order_less_le_trans)
  ultimately show ?thesis using q by (metis div_mult_self1 add.commute div_less add_0 not_less_zero)
qed

text \<open>
  A difficulty survives the way through its target: for every difficulty other than zero, converting the
  target back gives exactly that difficulty.
\<close>

theorem target_round_trip:
  assumes "d \<noteq> 0"
  shows "target_to_difficulty (pow_difficulty_to_target d) = d"
proof -
  let ?m = "2 ^ 256 - 1 :: nat"
  have d: "0 < unat d" "unat d < 2 ^ 64" using assms unat_less_power [of d] by (simp_all add: unat_gt_0)
  have q: "2 ^ 64 \<le> ?m div unat d"
  proof -
    have "2 ^ 64 * unat d \<le> 2 ^ 64 * 2 ^ 64" using d(2) by (intro mult_le_mono) simp_all
    also have "\<dots> \<le> ?m" by simp
    finally show ?thesis using d(1) by (simp only: less_eq_div_iff_mult_less_eq)
  qed
  have v: "be_value (h256_bytes (pow_difficulty_to_target d)) = ?m div unat d"
    using assms by (simp only: targets_agree difficulty_to_target_value if_False)
  define t where "t = (of_nat (?m div unat d) :: 256 word)"
  have ut: "unat t = ?m div unat d"
    unfolding t_def by (rule unat_of_nat_small) (rule le_less_trans [OF div_le_dividend], simp)
  have "t \<noteq> 0" using ut q by (metis unat_0 not_less zero_less_numeral zero_less_power)
  have m: "unat (- 1 :: 256 word) = ?m" by (simp add: unsigned_minus_1_eq_mask mask_eq_exp_minus_1)
  have "unat ((- 1) div t) = ?m div (?m div unat d)" by (simp only: unat_div m ut)
  also have "\<dots> = unat d" using d q by (intro div_div_self) linarith+
  finally have u: "unat ((- 1) div t) = unat d" .
  have big: "unat (ucast (- 1 :: u64) :: 256 word) = 2 ^ 64 - 1"
    by (simp add: unsigned_ucast_eq unsigned_minus_1_eq_mask mask_eq_exp_minus_1 take_bit_eq_mod)
  have "\<not> ucast (- 1 :: u64) < (- 1) div t"
    unfolding word_less_nat_alt u big using d(2) by linarith
  moreover have "(ucast ((- 1) div t) :: u64) = d"
  proof (rule unsigned_word_eqI)
    show "unat (ucast ((- 1) div t) :: u64) = unat d"
      using d(2) by (simp add: unsigned_ucast_eq u take_bit_nat_eq_self)
  qed
  ultimately show ?thesis
    unfolding target_to_difficulty_def v t_def [symmetric] Let_def using \<open>t \<noteq> 0\<close> by simp
qed

subsection \<open>Miners\<close>

text \<open>The nonces the miner tries, in order: the pair counts up, with the carry into the second word.\<close>

definition tried :: "u64 \<Rightarrow> u64 \<Rightarrow> nat \<Rightarrow> u64 \<times> u64" where
  "tried nonce extra_nonce k = (nonce + of_nat k, extra_nonce + of_nat ((unat nonce + k) div 2 ^ 64))"

definition attempt :: "ext \<Rightarrow> u8 list \<Rightarrow> u64 \<times> u64 \<Rightarrow> h256" where
  "attempt e header_bytes p = pow_hash_bytes e header_bytes (fst p) (snd p)"

lemma attempt_pair: "attempt e hb (a, b) = pow_hash_bytes e hb a b"
  by (simp add: attempt_def)

lemma tried_0 [simp]: "tried nonce extra_nonce 0 = (nonce, extra_nonce)"
  using unat_less_power [of nonce] by (simp add: tried_def)

lemma tried_Suc:
  "tried (nonce + 1) (if nonce + 1 = 0 then extra_nonce + 1 else extra_nonce) k = tried nonce extra_nonce (Suc k)"
proof (cases "nonce + 1 = 0")
  case True
  then have n: "nonce = - 1" by (simp add: eq_neg_iff_add_eq_0)
  then have "unat nonce = 2 ^ 64 - 1" by (simp add: unsigned_minus_1_eq_mask mask_eq_exp_minus_1)
  then have "(unat nonce + Suc k) div 2 ^ 64 = 1 + k div 2 ^ 64"
    using div_add_self2 [of "2 ^ 64 :: nat" k] by simp
  then show ?thesis by (simp add: tried_def n)
next
  case False
  then have "unat (nonce + 1) + k = unat nonce + Suc k" using unat_add_one [of nonce] by linarith
  then show ?thesis unfolding tried_def using False by (simp only: if_False) simp
qed

lemma mine_loop_outcome:
  "case mine_loop e hb target n nonce extra_nonce of
     None \<Rightarrow> (\<forall>k < n. \<not> meets_target (attempt e hb (tried nonce extra_nonce k)) target)
   | Some (a, b, h) \<Rightarrow> (\<exists>k < n. (a, b) = tried nonce extra_nonce k \<and> h = attempt e hb (a, b) \<and> meets_target h target
       \<and> (\<forall>j < k. \<not> meets_target (attempt e hb (tried nonce extra_nonce j)) target))"
proof (induction n arbitrary: nonce extra_nonce)
  case (Suc n)
  let ?x = "if nonce + 1 = 0 then extra_nonce + 1 else extra_nonce"
  have IH: "case mine_loop e hb target n (nonce + 1) ?x of
     None \<Rightarrow> (\<forall>k < n. \<not> meets_target (attempt e hb (tried nonce extra_nonce (Suc k))) target)
   | Some (a, b, h) \<Rightarrow> (\<exists>k < n. (a, b) = tried nonce extra_nonce (Suc k) \<and> h = attempt e hb (a, b) \<and> meets_target h target
       \<and> (\<forall>j < k. \<not> meets_target (attempt e hb (tried nonce extra_nonce (Suc j))) target))"
    using Suc [of "nonce + 1" ?x] unfolding tried_Suc .
  show ?case
  proof (cases "meets_target (pow_hash_bytes e hb nonce extra_nonce) target")
    case True
    then show ?thesis by (auto simp: attempt_def intro!: exI [of _ 0])
  next
    case False
    then have first: "\<not> meets_target (attempt e hb (tried nonce extra_nonce 0)) target" by (simp add: attempt_def)
    have step: "mine_loop e hb target (Suc n) nonce extra_nonce = mine_loop e hb target n (nonce + 1) ?x"
      using False by (simp add: Let_def)
    show ?thesis
    proof (cases "mine_loop e hb target n (nonce + 1) ?x")
      case None
      then have "\<not> meets_target (attempt e hb (tried nonce extra_nonce k)) target" if "k < Suc n" for k
        using IH first that by (cases k) simp_all
      then show ?thesis unfolding step using None by simp
    next
      case (Some r)
      obtain a b h where r: "r = (a, b, h)" by (cases r)
      from IH Some r obtain k where k: "k < n" "(a, b) = tried nonce extra_nonce (Suc k)" "h = attempt e hb (a, b)"
          "meets_target h target" "\<forall>j < k. \<not> meets_target (attempt e hb (tried nonce extra_nonce (Suc j))) target"
        by auto
      have "\<not> meets_target (attempt e hb (tried nonce extra_nonce j)) target" if "j < Suc k" for j
        using k(5) first that by (cases j) simp_all
      then have "\<exists>k < Suc n. (a, b) = tried nonce extra_nonce k \<and> h = attempt e hb (a, b) \<and> meets_target h target
         \<and> (\<forall>j < k. \<not> meets_target (attempt e hb (tried nonce extra_nonce j)) target)"
        using k(1-4) by (intro exI [of _ "Suc k"]) simp
      then show ?thesis unfolding step using Some r by simp
    qed
  qed
qed simp

text \<open>
  The reference miner returns the first solution: among the first \<open>max_iterations\<close> pairs of nonces after the
  start it reports the first whose hash meets the target, with that hash, and nothing when there is none.
\<close>

theorem mine_finds_first:
  "case mine e hb target start max_iterations of
     None \<Rightarrow> (\<forall>k < unat max_iterations. \<not> meets_target (attempt e hb (tried start 0 k)) target)
   | Some (a, b, h) \<Rightarrow> (\<exists>k < unat max_iterations. (a, b) = tried start 0 k \<and> h = pow_hash_bytes e hb a b \<and> meets_target h target
       \<and> (\<forall>j < k. \<not> meets_target (attempt e hb (tried start 0 j)) target))"
  using mine_loop_outcome [where e = e and hb = hb and target = target and n = "unat max_iterations" and nonce = start
      and extra_nonce = 0] by (simp only: mine_def attempt_pair)

lemma mine_callback_loop_eq:
  assumes "\<And>c i. snd (callback c i)"
  shows "mine_callback_loop e hb target callback c i n nonce extra_nonce = mine_loop e hb target n nonce extra_nonce"
  using assms by (induction n arbitrary: c i nonce extra_nonce) (simp_all add: Let_def split_def)

text \<open>A callback that never asks to stop does not change what is mined.\<close>

theorem callback_miner_agrees:
  assumes "\<And>c i. snd (callback c i)"
  shows "mine_with_callback e hb target start max_iterations callback c = mine e hb target start max_iterations"
  unfolding mine_with_callback_def mine_def using assms by (rule mine_callback_loop_eq)

text \<open>
  Mining a header makes it valid: writing the nonces that the reference miner reports for the encoding and
  the target of a header into that header gives one whose proof of work verifies, with the reported hash.
\<close>

theorem mined_header_valid:
  assumes "mine e (encode_for_pow h) (sa_target h) start max_iterations = Some (nonce, extra_nonce, d)"
  shows "sa_verify_pow e (set_nonce h nonce extra_nonce) \<and> sa_hash e (set_nonce h nonce extra_nonce) = d"
proof -
  have d: "d = pow_hash_bytes e (encode_for_pow h) nonce extra_nonce" "meets_target d (sa_target h)"
    using mine_loop_outcome [where hb = "encode_for_pow h" and target = "sa_target h" and e = e
        and n = "unat max_iterations" and nonce = start and extra_nonce = 0] assms
    by (auto simp: mine_def attempt_def)
  have "encode_for_pow (set_nonce h nonce extra_nonce) = encode_for_pow h"
    "sa_target (set_nonce h nonce extra_nonce) = sa_target h"
    "sa_nonce (set_nonce h nonce extra_nonce) = nonce" "sa_extra_nonce (set_nonce h nonce extra_nonce) = extra_nonce"
    by (simp_all add: encode_for_pow_def sa_target_def set_nonce_def)
  then show ?thesis using d by (simp add: sa_verify_pow_def sa_pow_hash_def sa_hash_def pow_hash_bytes_def)
qed

text \<open>The miner beside the block type gives up at once when the end of its range wraps.\<close>

lemma block_mine_wraps:
  assumes "2 ^ 64 \<le> unat start + unat max_iterations"
  shows "block_mine e hb target start max_iterations = None"
proof -
  have "unat (start + max_iterations) \<le> unat start"
    using assms unat_less_power [of start] unat_less_power [of max_iterations]
    by (simp add: unat_word_ariths mod_if) linarith
  then show ?thesis by (simp add: block_mine_def)
qed

subsection \<open>Two kinds of header, one proof of work\<close>

definition to_header :: "StreamAHeader \<Rightarrow> BlockHeader" where
  "to_header h =
     \<lparr>hdr_version = sa_version h, hdr_stream = sa_stream h, hdr_parent_hash = sa_parent_hash h,
      hdr_merkle_root = sa_merkle_root h, hdr_utxo_commitment = sa_utxo_root h, hdr_timestamp = sa_timestamp h,
      hdr_difficulty = sa_difficulty h, hdr_nonce = sa_nonce h, hdr_extra_nonce = sa_extra_nonce h,
      hdr_height = sa_height h, hdr_beneficiary = sa_beneficiary h\<rparr>"

lemma header_agrees:
  "sa_hash e h = BlockHeader_hash e (to_header h) \<and> sa_pow_hash e h = BlockHeader_pow_hash e (to_header h)
    \<and> sa_target h = BlockHeader_target (to_header h)
    \<and> (sa_verify_pow e h \<longleftrightarrow> BlockHeader_verify_pow e (to_header h))"
proof -
  have enc: "encode_for_pow h = BlockHeader_pow_input (to_header h)"
    "sa_nonce h = hdr_nonce (to_header h)" "sa_extra_nonce h = hdr_extra_nonce (to_header h)"
    by (simp_all add: encode_for_pow_def BlockHeader_pow_input_def to_header_def)
  have target: "sa_target h = BlockHeader_target (to_header h)"
    by (simp add: sa_target_def targets_agree BlockHeader_target_def to_header_def)
  have pow: "sa_pow_hash e h = BlockHeader_pow_hash e (to_header h)"
    unfolding sa_pow_hash_def pow_hash_bytes_def BlockHeader_pow_hash_def enc Let_def by simp
  have "sa_hash e h = BlockHeader_hash e (to_header h)"
    unfolding sa_hash_def BlockHeader_hash_def enc by simp
  then show ?thesis using target pow
    by (simp add: sa_verify_pow_def meets_target_def BlockHeader_verify_pow_def)
qed

text \<open>
  The header of this module and the header of the chain are hashed alike: with the same field values they
  have the same block hash, the same proof-of-work hash and target, and pass the same check.
\<close>

theorem stream_a_header_agrees:
  "sa_hash e h = BlockHeader_hash e (to_header h) \<and> sa_pow_hash e h = BlockHeader_pow_hash e (to_header h)
    \<and> sa_target h = BlockHeader_target (to_header h)
    \<and> (sa_verify_pow e h \<longleftrightarrow> BlockHeader_verify_pow e (to_header h))"
  by (rule header_agrees)

text \<open>The genesis block carries its proof of work, whatever the hash, and its merkle root.\<close>

lemma genesis_valid: "sa_block_verify_pow e StreamABlock_genesis \<and> sa_verify_merkle e StreamABlock_genesis"
proof -
  let ?h = "to_header StreamAHeader_genesis"
  have "be_value (h256_bytes (BlockHeader_pow_hash e ?h)) < 2 ^ 256"
    using be_value_less [of "h256_bytes (BlockHeader_pow_hash e ?h)"] BlockHeader_hash_wf(2) [of e ?h]
    by (simp add: wf_h256_def)
  then have "BlockHeader_verify_pow e ?h"
    by (simp add: verify_pow_value to_header_def StreamAHeader_genesis_def)
  then show ?thesis
    using header_agrees [of e StreamAHeader_genesis]
    by (simp add: sa_block_verify_pow_def StreamABlock_genesis_def sa_verify_merkle_def body_merkle_root_def
        StreamABody_empty_def StreamAHeader_genesis_def)
qed

subsection \<open>Witnesses\<close>

lemma example_encodable: "encodable (UtxoTransaction_coinbase h r address_zero)"
  by (simp add: encodable_def signable_def UtxoTransaction_coinbase_def txin_coinbase_def txout_p2pkh_def
      txout_new_def outpoint_coinbase_def ascii_bytes_def address_zero_def)

definition value_digest_ext :: ext where
  "value_digest_ext = sample_ext\<lparr>ext_keccak256 := \<lambda>bs. take 32 (drop 69 bs)\<rparr>"

lemma coinbase_encoding:
  "\<exists>pre post. length pre = 69 \<and> length post = 33
    \<and> (\<forall>r. utxo_tx_encode (UtxoTransaction_coinbase h r address_zero) = pre @ u64_to_le_bytes r @ post)"
  by (rule exI [of _ "u32_to_le_bytes 1 @ u32_to_le_bytes 1 @ txin_encode (txin_coinbase h (ascii_bytes ''PYRAX'')) @ u32_to_le_bytes 1"],
      rule exI [of _ "u32_to_le_bytes 25 @ [0x76, 0xa9, 0x14] @ replicate 20 0 @ [0x88, 0xac] @ u32_to_le_bytes 0"])
    (simp add: utxo_tx_encode_def UtxoTransaction_coinbase_def txin_encode_def txin_coinbase_def outpoint_encode_def
      outpoint_coinbase_def h256_zero_def ascii_bytes_def txout_encode_def txout_p2pkh_def txout_new_def address_zero_def)

theorem utxo_txid_binds_witness:
  "utxo_txid value_digest_ext (UtxoTransaction_coinbase 7 5000000000 address_zero)
    \<noteq> utxo_txid value_digest_ext (UtxoTransaction_coinbase 7 5000000001 address_zero)"
proof -
  let ?t = "UtxoTransaction_coinbase 7 5000000000 address_zero" and ?t' = "UtxoTransaction_coinbase 7 5000000001 address_zero"
  obtain pre post where p: "length pre = 69" "length post = 33"
    "\<And>r. utxo_tx_encode (UtxoTransaction_coinbase 7 r address_zero) = pre @ u64_to_le_bytes r @ post"
    using coinbase_encoding [of 7] by blast
  have "keccak_separates value_digest_ext (utxo_tx_encode ?t) (utxo_tx_encode ?t')"
    unfolding p(3) using p(1,2)
    by (simp add: keccak_separates_def value_digest_ext_def h256_from_slice_def append_eq_append_conv)
  then show ?thesis
    using utxo_txid_binds [OF example_encodable example_encodable, of value_digest_ext 7 5000000000 7 5000000001]
    by (simp add: UtxoTransaction_coinbase_def txout_p2pkh_def txout_new_def)
qed

theorem target_round_trip_witness: "target_to_difficulty (pow_difficulty_to_target 1000) = 1000"
  by (rule target_round_trip) simp

theorem callback_miner_agrees_witness:
  "mine_with_callback sample_ext [1] (pow_difficulty_to_target 2) 0 3 (\<lambda>c i. (Suc c, True)) 0 = mine sample_ext [1] (pow_difficulty_to_target 2) 0 3"
  by (rule callback_miner_agrees) simp

theorem mined_header_valid_witness:
  "\<exists>nonce extra_nonce d. mine sample_ext (encode_for_pow StreamAHeader_genesis) (sa_target StreamAHeader_genesis) 5 1 = Some (nonce, extra_nonce, d)
    \<and> sa_verify_pow sample_ext (set_nonce StreamAHeader_genesis nonce extra_nonce)"
proof -
  let ?d = "pow_hash_bytes sample_ext (encode_for_pow StreamAHeader_genesis) 5 0"
  have "length (h256_bytes ?d) = 32" by (simp add: pow_hash_bytes_def h256_from_slice_def)
  moreover have "length (h256_bytes (sa_target StreamAHeader_genesis)) = 32"
    by (simp add: sa_target_def block_difficulty_to_target_def)
  moreover have "be_value (h256_bytes (sa_target StreamAHeader_genesis)) = 2 ^ 256 - 1"
    by (simp add: sa_target_def targets_agree StreamAHeader_genesis_def difficulty_to_target_value)
  moreover have "be_value (h256_bytes ?d) < 2 ^ 256" using be_value_less [of "h256_bytes ?d"] calculation(1) by simp
  ultimately have "meets_target ?d (sa_target StreamAHeader_genesis)"
    by (simp add: meets_target_def be_value_le_iff [symmetric])
  then have "mine sample_ext (encode_for_pow StreamAHeader_genesis) (sa_target StreamAHeader_genesis) 5 1 = Some (5, 0, ?d)"
    by (simp add: mine_def Let_def)
  then show ?thesis using mined_header_valid by blast
qed

end
