(* ===== verification/KawPow.thy ===== *)
theory KawPow
  imports Chain_Types Hash_Map
begin

section \<open>KawPow: the hash of Stream B and its cache\<close>

text \<open>
  \<open>pyrax-node/src/consensus/kawpow.rs\<close> and \<open>dag.rs\<close>: sizes by epoch, the seed, the two cache generators,
  the mixing loop of the hash, and the manager that keeps the cache of an epoch in memory and on disk.
  Keccak-512 is the argument \<open>k512\<close>. An operation that may panic returns an option, with \<open>None\<close> for the
  panic: a remainder by zero, and a vector whose capacity exceeds \<open>isize::MAX\<close> bytes.
\<close>

unbundle bit_operations_syntax

subsection \<open>Sizes and seeds\<close>

definition EPOCH_LENGTH :: u64 where "EPOCH_LENGTH = 7500"

definition CACHE_BYTES_INIT :: u64 where "CACHE_BYTES_INIT = 16 * 1024 * 1024"

definition CACHE_BYTES_GROWTH :: u64 where "CACHE_BYTES_GROWTH = 128 * 1024"

definition DAG_BYTES_INIT :: u64 where "DAG_BYTES_INIT = 1024 * 1024 * 1024"

definition DAG_BYTES_GROWTH :: u64 where "DAG_BYTES_GROWTH = 8 * 1024 * 1024"

definition PROGPOW_LANES :: nat where "PROGPOW_LANES = 16"

definition PROGPOW_CNT_DAG :: nat where "PROGPOW_CNT_DAG = 64"

definition PROGPOW_CNT_MATH :: nat where "PROGPOW_CNT_MATH = 18"

definition CACHE_ROUNDS :: nat where "CACHE_ROUNDS = 3"

definition DATASET_PARENTS :: nat where "DATASET_PARENTS = 256"

definition get_epoch :: "u64 \<Rightarrow> u64" where
  "get_epoch height = height div EPOCH_LENGTH"

definition get_cache_size :: "u64 \<Rightarrow> u64" where
  "get_cache_size epoch = CACHE_BYTES_INIT + CACHE_BYTES_GROWTH * epoch"

definition get_dag_size :: "u64 \<Rightarrow> u64" where
  "get_dag_size epoch = DAG_BYTES_INIT + DAG_BYTES_GROWTH * epoch"

definition compute_seed :: "ext \<Rightarrow> u64 \<Rightarrow> u8 list" where
  "compute_seed e epoch = (ext_keccak256 e ^^ unat epoch) (replicate 32 0)"

text \<open>\<open>Vec::with_capacity(n)\<close> of items of 64 bytes, which panics above \<open>isize::MAX\<close> bytes.\<close>

definition capacity_ok :: "nat \<Rightarrow> bool" where
  "capacity_ok n = (64 * n < 2 ^ 63)"

type_synonym cache = "u8 list list"

text \<open>The first item and \<open>n\<close> more, each the hash of the one before.\<close>

fun hash_chain :: "(u8 list \<Rightarrow> u8 list) \<Rightarrow> nat \<Rightarrow> u8 list \<Rightarrow> cache" where
  "hash_chain k512 0 item = [item]"
| "hash_chain k512 (Suc n) item = item # hash_chain k512 n (k512 item)"

definition xor_items :: "u8 list \<Rightarrow> u8 list \<Rightarrow> u8 list" where
  "xor_items a b = map2 (XOR) a b"

definition item_index :: "u8 list \<Rightarrow> nat" where
  "item_index item = unat (u32_from_le_bytes (take 4 item))"

definition memo_step :: "(u8 list \<Rightarrow> u8 list) \<Rightarrow> nat \<Rightarrow> nat \<Rightarrow> cache \<Rightarrow> cache" where
  "memo_step k512 num_items i cache =
     (let v = item_index (cache ! i) mod num_items;
          prev_idx = (if i = 0 then num_items - 1 else i - 1)
      in cache[i := k512 (xor_items (cache ! prev_idx) (cache ! v))])"

definition memo_round :: "(u8 list \<Rightarrow> u8 list) \<Rightarrow> nat \<Rightarrow> cache \<Rightarrow> cache" where
  "memo_round k512 num_items cache = fold (memo_step k512 num_items) [0..<num_items] cache"

definition generate_cache :: "(u8 list \<Rightarrow> u8 list) \<Rightarrow> u8 list \<Rightarrow> nat \<Rightarrow> cache option" where
  "generate_cache k512 seed cache_size =
     (let num_items = cache_size div 64 in
      if \<not> capacity_ok num_items then None
      else Some ((memo_round k512 num_items ^^ 3) (hash_chain k512 (num_items - 1) (k512 seed))))"

subsection \<open>The hash\<close>

definition fnv1a :: "u8 list \<Rightarrow> u32 \<Rightarrow> u32" where
  "fnv1a data val = fold (\<lambda>byte hash. (hash XOR ucast byte) * 0x01000193) data val"

definition leading_zeros :: "u32 \<Rightarrow> u32" where
  "leading_zeros x = of_nat (length (takeWhile (\<lambda>i. \<not> bit x i) (rev [0..<32])))"

definition count_ones :: "u32 \<Rightarrow> u32" where
  "count_ones x = of_nat (length (filter (bit x) [0..<32]))"

definition progpow_math :: "u32 \<Rightarrow> u32 \<Rightarrow> u32 \<Rightarrow> u32" where
  "progpow_math a b r =
     (let c = r mod 11 in
      if c = 0 then a + b
      else if c = 1 then a * b
      else if c = 2 then ucast (drop_bit 32 (ucast a * ucast b :: u64))
      else if c = 3 then min a b
      else if c = 4 then word_rotl (unat (b mod 32)) a
      else if c = 5 then word_rotr (unat (b mod 32)) a
      else if c = 6 then a AND b
      else if c = 7 then a OR b
      else if c = 8 then a XOR b
      else if c = 9 then leading_zeros a + leading_zeros b
      else if c = 10 then count_ones a + count_ones b
      else a)"

definition compute_mix_seed :: "(u8 list \<Rightarrow> u8 list) \<Rightarrow> u8 list \<Rightarrow> u64 \<Rightarrow> u8 list" where
  "compute_mix_seed k512 header_hash nonce = k512 (header_hash @ u64_to_le_bytes nonce)"

definition fill_mix :: "u8 list \<Rightarrow> u32 \<Rightarrow> u32 list" where
  "fill_mix seed lane =
     map (\<lambda>i. let idx = (i * 4) mod 64; base = u32_from_le_bytes (take 4 (drop idx seed))
              in fnv1a (u32_to_le_bytes base) (lane XOR of_nat i)) [0..<32]"

definition calculate_dag_item :: "cache \<Rightarrow> nat \<Rightarrow> u32 list" where
  "calculate_dag_item cache index =
     (let cache_item = cache ! (index mod length cache)
      in map (\<lambda>i. u32_from_le_bytes (take 4 (drop (i * 4) cache_item))) [0..<16])"

definition dag_access :: "cache \<Rightarrow> nat \<Rightarrow> u32 list \<Rightarrow> u32 list" where
  "dag_access cache num_dag_items lane =
     (let dag_index = (unat (lane ! 0) mod num_dag_items) * 4;
          dag_data = calculate_dag_item cache (dag_index mod length cache)
      in map (\<lambda>i. fnv1a (u32_to_le_bytes (lane ! i)) (dag_data ! (i mod 16))) [0..<32])"

definition math_step :: "u32 \<Rightarrow> u32 list \<Rightarrow> u32 list" where
  "math_step prog_seed lane =
     (let p = unat prog_seed; src1 = lane ! (p mod 32); src2 = lane ! ((p + 1) mod 32)
      in lane[(p + 2) mod 32 := progpow_math src1 src2 prog_seed])"

definition mix_round :: "cache \<Rightarrow> nat \<Rightarrow> u8 list \<Rightarrow> nat \<Rightarrow> u32 list list \<Rightarrow> u32 list list" where
  "mix_round cache num_dag_items seed round mix =
     (let prog_seed = fnv1a seed (of_nat round)
      in (map (math_step prog_seed) ^^ PROGPOW_CNT_MATH) (map (dag_access cache num_dag_items) mix))"

definition final_mix :: "u32 list list \<Rightarrow> u32 list" where
  "final_mix mix =
     fold (\<lambda>lane digest. map (\<lambda>i. fnv1a (u32_to_le_bytes (digest ! i)) (lane ! i)) [0..<8]) mix (replicate 8 0)"

definition kawpow_hash :: "ext \<Rightarrow> (u8 list \<Rightarrow> u8 list) \<Rightarrow> u8 list \<Rightarrow> u64 \<Rightarrow> u64 \<Rightarrow> cache \<Rightarrow> u8 list option" where
  "kawpow_hash e k512 header_hash nonce height cache =
     (let seed = compute_mix_seed k512 header_hash nonce;
          mix = map (\<lambda>lane. fill_mix seed (of_nat lane)) [0..<PROGPOW_LANES];
          num_dag_items = unat (get_dag_size (get_epoch height)) div 256
      in if num_dag_items = 0 \<or> cache = [] then None
         else let mix = fold (mix_round cache num_dag_items seed) [0..<PROGPOW_CNT_DAG] mix;
                  result = concat (map u32_to_le_bytes (final_mix mix))
              in Some (ext_keccak256 e (header_hash @ u64_to_le_bytes nonce @ result)))"

subsection \<open>The file of a cache\<close>

datatype DagError = DagIoError | InvalidHeader string | ChecksumMismatch

record DagHeader =
  dh_magic :: "u8 list"
  dh_version :: u32
  dh_epoch :: u64
  dh_item_count :: u64
  dh_checksum :: "u8 list"

definition DAG_MAGIC :: "u8 list" where "DAG_MAGIC = [0x50, 0x59, 0x52, 0x58]"

definition DAG_VERSION :: u32 where "DAG_VERSION = 1"

definition HEADER_SIZE :: nat where "HEADER_SIZE = 64"

definition header_to_bytes :: "DagHeader \<Rightarrow> u8 list" where
  "header_to_bytes h =
     dh_magic h @ u32_to_le_bytes (dh_version h) @ u64_to_le_bytes (dh_epoch h)
     @ u64_to_le_bytes (dh_item_count h) @ dh_checksum h @ replicate 8 0"

definition header_from_bytes :: "u8 list \<Rightarrow> DagHeader" where
  "header_from_bytes bytes =
     \<lparr>dh_magic = take 4 bytes, dh_version = u32_from_le_bytes (take 4 (drop 4 bytes)),
      dh_epoch = u64_from_le_bytes (take 8 (drop 8 bytes)), dh_item_count = u64_from_le_bytes (take 8 (drop 16 bytes)),
      dh_checksum = take 32 (drop 24 bytes)\<rparr>"

definition dag_checksum :: "ext \<Rightarrow> cache \<Rightarrow> u8 list" where
  "dag_checksum e data = ext_keccak256 e (concat data)"

text \<open>What is written: the header, then the items.\<close>

definition cache_file :: "ext \<Rightarrow> u64 \<Rightarrow> cache \<Rightarrow> u8 list" where
  "cache_file e epoch cache =
     header_to_bytes \<lparr>dh_magic = DAG_MAGIC, dh_version = DAG_VERSION, dh_epoch = epoch,
       dh_item_count = of_nat (length cache), dh_checksum = dag_checksum e cache\<rparr> @ concat cache"

text \<open>The files of the directory by the names the manager writes and cleans up; \<open>OtherFile\<close> is any other name.\<close>

datatype dag_file = CacheFile u64 | DagFile u64 | OtherFile string

type_synonym disk = "(dag_file, u8 list) hashmap"

text \<open>What the file system does to a save: all is written, the file is not created, or only some bytes get there.\<close>

datatype disk_outcome = Written | NotCreated | CutAfter nat

fun save_cache_to_disk :: "ext \<Rightarrow> disk_outcome \<Rightarrow> disk \<Rightarrow> u64 \<Rightarrow> cache \<Rightarrow> disk \<times> (DagError + unit)" where
  "save_cache_to_disk e Written disk epoch cache =
     (hm_insert (CacheFile epoch) (cache_file e epoch cache) disk, Ok ())"
| "save_cache_to_disk e NotCreated disk epoch cache = (disk, Err DagIoError)"
| "save_cache_to_disk e (CutAfter n) disk epoch cache =
     (hm_insert (CacheFile epoch) (take n (cache_file e epoch cache)) disk, Err DagIoError)"

fun read_items :: "nat \<Rightarrow> u8 list \<Rightarrow> cache option" where
  "read_items 0 bytes = Some []"
| "read_items (Suc n) bytes =
     (if length bytes < 64 then None else map_option ((#) (take 64 bytes)) (read_items n (drop 64 bytes)))"

definition load_cache_from_disk :: "ext \<Rightarrow> u8 list \<Rightarrow> u64 \<Rightarrow> (DagError + cache) option" where
  "load_cache_from_disk e bytes expected_epoch =
     (if length bytes < HEADER_SIZE then Some (Err DagIoError)
      else let header = header_from_bytes (take HEADER_SIZE bytes) in
        if dh_magic header \<noteq> DAG_MAGIC then Some (Err (InvalidHeader ''Bad magic bytes''))
        else if dh_version header \<noteq> DAG_VERSION then Some (Err (InvalidHeader ''Version mismatch''))
        else if dh_epoch header \<noteq> expected_epoch then Some (Err (InvalidHeader ''Epoch mismatch''))
        else if \<not> capacity_ok (unat (dh_item_count header)) then None
        else case read_items (unat (dh_item_count header)) (drop HEADER_SIZE bytes) of
          None \<Rightarrow> Some (Err DagIoError)
        | Some cache \<Rightarrow>
            if dag_checksum e cache \<noteq> dh_checksum header then Some (Err ChecksumMismatch) else Some (Ok cache))"

subsection \<open>The manager\<close>

record DagManager =
  dg_disk :: disk
  dg_current_epoch :: "u64 option"
  dg_cache :: "cache option"
  dg_cache_path :: "dag_file option"
  dg_dag_path :: "dag_file option"

definition DagManager_new :: "disk \<Rightarrow> DagManager" where
  "DagManager_new data_dir =
     \<lparr>dg_disk = data_dir, dg_current_epoch = None, dg_cache = None, dg_cache_path = None, dg_dag_path = None\<rparr>"

definition dag_is_ready :: "DagManager \<Rightarrow> u64 \<Rightarrow> bool" where
  "dag_is_ready m epoch = (dg_current_epoch m = Some epoch \<and> dg_cache m \<noteq> None)"

definition dag_memo_step :: "(u8 list \<Rightarrow> u8 list) \<Rightarrow> nat \<Rightarrow> nat \<Rightarrow> cache \<Rightarrow> cache" where
  "dag_memo_step k512 cache_items i cache =
     (let dst_idx = item_index (cache ! i) mod cache_items
      in cache[i := k512 (xor_items (cache ! i) (cache ! dst_idx))])"

definition dag_memo_round :: "(u8 list \<Rightarrow> u8 list) \<Rightarrow> nat \<Rightarrow> cache \<Rightarrow> cache" where
  "dag_memo_round k512 cache_items cache = fold (dag_memo_step k512 cache_items) [0..<cache_items] cache"

definition dag_generate_cache :: "ext \<Rightarrow> (u8 list \<Rightarrow> u8 list) \<Rightarrow> u64 \<Rightarrow> cache option" where
  "dag_generate_cache e k512 epoch =
     (let cache_items = unat (get_cache_size epoch) div 64 in
      if \<not> capacity_ok cache_items then None
      else Some ((dag_memo_round k512 cache_items ^^ CACHE_ROUNDS)
        (hash_chain k512 (cache_items - 1) (k512 (compute_seed e epoch)))))"

definition dag_set_epoch :: "DagManager \<Rightarrow> u64 \<Rightarrow> cache \<Rightarrow> DagManager" where
  "dag_set_epoch m epoch cache =
     m\<lparr>dg_cache := Some cache, dg_current_epoch := Some epoch, dg_cache_path := Some (CacheFile epoch),
       dg_dag_path := Some (DagFile epoch)\<rparr>"

definition regenerate :: "ext \<Rightarrow> (u8 list \<Rightarrow> u8 list) \<Rightarrow> disk_outcome \<Rightarrow> DagManager \<Rightarrow> u64 \<Rightarrow> (DagManager \<times> (DagError + unit)) option" where
  "regenerate e k512 io m epoch =
     (case dag_generate_cache e k512 epoch of
        None \<Rightarrow> None
      | Some cache \<Rightarrow>
          (case save_cache_to_disk e io (dg_disk m) epoch cache of
             (disk, Err x) \<Rightarrow> Some (m\<lparr>dg_disk := disk\<rparr>, Err x)
           | (disk, Ok _) \<Rightarrow> Some (dag_set_epoch (m\<lparr>dg_disk := disk\<rparr>) epoch cache, Ok ())))"

definition load_epoch :: "ext \<Rightarrow> (u8 list \<Rightarrow> u8 list) \<Rightarrow> disk_outcome \<Rightarrow> DagManager \<Rightarrow> u64 \<Rightarrow> (DagManager \<times> (DagError + unit)) option" where
  "load_epoch e k512 io m epoch =
     (case hm_get (dg_disk m) (CacheFile epoch) of
        None \<Rightarrow> regenerate e k512 io m epoch
      | Some bytes \<Rightarrow>
          (case load_cache_from_disk e bytes epoch of
             None \<Rightarrow> None
           | Some (Ok cache) \<Rightarrow> Some (dag_set_epoch m epoch cache, Ok ())
           | Some (Err _) \<Rightarrow> regenerate e k512 io m epoch))"

definition ensure_epoch :: "ext \<Rightarrow> (u8 list \<Rightarrow> u8 list) \<Rightarrow> disk_outcome \<Rightarrow> DagManager \<Rightarrow> u64 \<Rightarrow> (DagManager \<times> (DagError + unit)) option" where
  "ensure_epoch e k512 io m block_height =
     (let epoch = get_epoch block_height in
      if dg_current_epoch m = Some epoch \<and> dg_cache m \<noteq> None then Some (m, Ok ())
      else load_epoch e k512 io m epoch)"

definition get_cache_item :: "DagManager \<Rightarrow> nat \<Rightarrow> u8 list option" where
  "get_cache_item m index = (case dg_cache m of None \<Rightarrow> None | Some c \<Rightarrow> nth_opt c index)"

definition cache_len :: "DagManager \<Rightarrow> nat" where
  "cache_len m = (case dg_cache m of None \<Rightarrow> 0 | Some c \<Rightarrow> length c)"

definition fnv_hash :: "u32 \<Rightarrow> u32 \<Rightarrow> u32" where
  "fnv_hash a b = (a * 0x01000193) XOR b"

definition fnv_byte :: "u8 \<Rightarrow> u8 \<Rightarrow> u8" where
  "fnv_byte a b = (a * 0x93) XOR b"

definition parent_step :: "cache \<Rightarrow> u64 \<Rightarrow> nat \<Rightarrow> u8 list \<Rightarrow> u8 list" where
  "parent_step cache index i mix =
     (let parent_idx = unat (fnv_hash (ucast index XOR of_nat i) (u32_from_le_bytes (take 4 mix))) mod length cache
      in map2 fnv_byte mix (cache ! parent_idx))"

definition calc_dag_item :: "(u8 list \<Rightarrow> u8 list) \<Rightarrow> DagManager \<Rightarrow> u64 \<Rightarrow> u8 list option" where
  "calc_dag_item k512 m index =
     (case dg_cache m of
        None \<Rightarrow> None
      | Some cache \<Rightarrow>
          if length cache = 0 then None
          else let mix = cache ! unat (index mod of_nat (length cache));
                   mix = xor_items (take 8 mix) (u64_to_le_bytes index) @ drop 8 mix;
                   mix = fold (parent_step cache index) [0..<DATASET_PARENTS] (k512 mix)
               in Some (k512 mix))"

text \<open>A file that the file system fails to remove stays; it is counted all the same.\<close>

definition old_epoch :: "u64 \<Rightarrow> u64 \<Rightarrow> u64 \<Rightarrow> bool" where
  "old_epoch current keep_epochs epoch = (epoch < current \<and> keep_epochs < current - epoch)"

fun old_file :: "u64 \<Rightarrow> u64 \<Rightarrow> dag_file \<Rightarrow> bool" where
  "old_file current keep_epochs (CacheFile epoch) = old_epoch current keep_epochs epoch"
| "old_file current keep_epochs (DagFile epoch) = old_epoch current keep_epochs epoch"
| "old_file current keep_epochs (OtherFile _) = False"

definition cleanup_old_epochs :: "(dag_file \<Rightarrow> bool) \<Rightarrow> DagManager \<Rightarrow> u64 \<Rightarrow> DagManager \<times> nat" where
  "cleanup_old_epochs removable m keep_epochs =
     (let current = (case dg_current_epoch m of None \<Rightarrow> 0 | Some n \<Rightarrow> n)
      in (m\<lparr>dg_disk := filter (\<lambda>(f, _). \<not> (old_file current keep_epochs f \<and> removable f)) (dg_disk m)\<rparr>,
          length (filter (\<lambda>(f, _). old_file current keep_epochs f) (dg_disk m))))"

definition disk_usage :: "DagManager \<Rightarrow> nat" where
  "disk_usage m = sum_list (map (\<lambda>(_, bytes). length bytes) (dg_disk m))"

subsection \<open>Shapes\<close>

text \<open>What the documentation of the digests says of their length.\<close>

definition digests_ok :: "ext \<Rightarrow> (u8 list \<Rightarrow> u8 list) \<Rightarrow> bool" where
  "digests_ok e k512 = ((\<forall>x. length (ext_keccak256 e x) = 32) \<and> (\<forall>x. length (k512 x) = 64))"

definition wf_cache :: "cache \<Rightarrow> bool" where
  "wf_cache c = (c \<noteq> [] \<and> list_all (\<lambda>item. length item = 64) c)"

lemma hash_chain_shape:
  "length (hash_chain k512 n item) = Suc n"
  "(\<And>x. length (k512 x) = 64) \<Longrightarrow> length item = 64 \<Longrightarrow> list_all (\<lambda>i. length i = 64) (hash_chain k512 n item)"
  by (induction n arbitrary: item) simp_all

lemma wf_cache_update: "wf_cache c \<Longrightarrow> length x = 64 \<Longrightarrow> wf_cache (c[i := x])"
  by (auto simp: wf_cache_def list_all_iff dest: set_update_subset_insert [THEN subsetD])

lemma wf_cache_memo:
  assumes "\<And>x. length (k512 x) = 64" and "wf_cache c"
  shows "wf_cache (dag_memo_round k512 n c)" and "length (dag_memo_round k512 n c) = length c"
proof -
  have "wf_cache (fold (dag_memo_step k512 n) xs c) \<and> length (fold (dag_memo_step k512 n) xs c) = length c" for xs
    using assms(2) by (induction xs arbitrary: c) (simp_all add: dag_memo_step_def Let_def wf_cache_update assms(1))
  then show "wf_cache (dag_memo_round k512 n c)" "length (dag_memo_round k512 n c) = length c"
    by (simp_all add: dag_memo_round_def)
qed

lemma dag_generate_cache_shape:
  assumes "digests_ok e k512" and "dag_generate_cache e k512 epoch = Some c"
  shows "wf_cache c \<and> capacity_ok (length c)"
proof -
  let ?n = "unat (get_cache_size epoch) div 64"
  let ?c = "hash_chain k512 (?n - 1) (k512 (compute_seed e epoch))"
  have cap: "capacity_ok ?n" and c: "c = (dag_memo_round k512 ?n ^^ 3) ?c"
    using assms(2) by (auto simp: dag_generate_cache_def Let_def CACHE_ROUNDS_def split: if_splits)
  have k: "length (k512 x) = 64" for x using assms(1) by (simp add: digests_ok_def)
  have start: "wf_cache ?c" using hash_chain_shape(2) [of k512, OF k k] hash_chain_shape(1) [of k512 "?n - 1"]
    by (auto simp: wf_cache_def simp flip: length_greater_0_conv)
  have "wf_cache ((dag_memo_round k512 ?n ^^ j) ?c) \<and> length ((dag_memo_round k512 ?n ^^ j) ?c) = length ?c" for j
    using start by (induction j) (simp_all add: wf_cache_memo [OF k])
  then have "wf_cache c" "length c = Suc (?n - 1)" using c hash_chain_shape(1) by simp_all
  moreover have "capacity_ok (Suc (?n - 1))" using cap by (cases ?n) (simp_all add: capacity_ok_def)
  ultimately show ?thesis by simp
qed

subsection \<open>Files\<close>

lemma header_round_trip:
  assumes "length (dh_magic h) = 4" and "length (dh_checksum h) = 32"
  shows "header_from_bytes (header_to_bytes h) = h" and "length (header_to_bytes h) = 64"
  using assms by (simp_all add: header_from_bytes_def header_to_bytes_def)

lemma read_items_concat:
  "list_all (\<lambda>i. length i = 64) c \<Longrightarrow> read_items (length c) (concat c @ rest) = Some c"
  by (induction c) simp_all

lemma read_items_short: "length bytes < 64 * n \<Longrightarrow> read_items n bytes = None"
  by (induction n arbitrary: bytes) auto

lemma length_concat_items: "list_all (\<lambda>i. length i = 64) c \<Longrightarrow> length (concat c) = 64 * length c"
  by (induction c) simp_all

definition file_header :: "ext \<Rightarrow> u64 \<Rightarrow> cache \<Rightarrow> DagHeader" where
  "file_header e epoch c =
     \<lparr>dh_magic = DAG_MAGIC, dh_version = DAG_VERSION, dh_epoch = epoch, dh_item_count = of_nat (length c),
      dh_checksum = dag_checksum e c\<rparr>"

lemma file_header_round_trip:
  assumes "\<And>x. length (ext_keccak256 e x) = 32"
  shows "header_from_bytes (header_to_bytes (file_header e epoch c)) = file_header e epoch c"
    and "length (header_to_bytes (file_header e epoch c)) = 64"
  using header_round_trip [of "file_header e epoch c"] assms
  by (simp_all add: file_header_def DAG_MAGIC_def dag_checksum_def)

lemma load_items:
  assumes "\<And>x. length (ext_keccak256 e x) = 32" and "capacity_ok (length c)"
  shows "load_cache_from_disk e (header_to_bytes (file_header e epoch c) @ items) epoch =
    (case read_items (length c) items of
       None \<Rightarrow> Some (Err DagIoError)
     | Some c' \<Rightarrow> if dag_checksum e c' \<noteq> dag_checksum e c then Some (Err ChecksumMismatch) else Some (Ok c'))"
proof -
  note h = file_header_round_trip [OF assms(1), of epoch c]
  have n: "unat (of_nat (length c) :: u64) = length c"
    using assms(2) by (intro unat_of_nat_small) (simp add: capacity_ok_def)
  have fields: "dh_magic (file_header e epoch c) = DAG_MAGIC" "dh_version (file_header e epoch c) = DAG_VERSION"
    "dh_epoch (file_header e epoch c) = epoch" "unat (dh_item_count (file_header e epoch c)) = length c"
    "dh_checksum (file_header e epoch c) = dag_checksum e c"
    by (simp_all add: file_header_def n)
  show ?thesis
    using assms(2) fields by (simp add: load_cache_from_disk_def HEADER_SIZE_def h Let_def split: option.split)
qed

lemma load_file:
  assumes "\<And>x. length (ext_keccak256 e x) = 32" and "capacity_ok (length c)" and "list_all (\<lambda>i. length i = 64) c"
  shows "load_cache_from_disk e (cache_file e epoch c) epoch = Some (Ok c)"
  using load_items [OF assms(1,2)] read_items_concat [OF assms(3), of "[]"]
  by (simp add: cache_file_def file_header_def)

lemma load_cut_file:
  assumes "\<And>x. length (ext_keccak256 e x) = 32" and "capacity_ok (length c)" and "list_all (\<lambda>i. length i = 64) c"
    and "n < length (cache_file e epoch c)"
  shows "load_cache_from_disk e (take n (cache_file e epoch c)) epoch = Some (Err DagIoError)"
proof (cases "n < 64")
  case True
  then have "length (take n (cache_file e epoch c)) < 64" by simp
  then show ?thesis by (simp only: load_cache_from_disk_def HEADER_SIZE_def if_True)
next
  case False
  have f: "cache_file e epoch c = header_to_bytes (file_header e epoch c) @ concat c"
    by (simp add: cache_file_def file_header_def)
  note h = file_header_round_trip(2) [OF assms(1), of epoch c]
  have "take n (cache_file e epoch c) = header_to_bytes (file_header e epoch c) @ take (n - 64) (concat c)"
    using False by (simp add: f h)
  moreover have "read_items (length c) (take (n - 64) (concat c)) = None"
    using assms(4) False by (intro read_items_short) (simp add: f h length_concat_items [OF assms(3)])
  ultimately show ?thesis using load_items [OF assms(1,2)] by simp
qed

text \<open>
  A cache survives the disk: reading the file that was written for an epoch gives back the same cache, for
  a cache of 64-byte items within the capacity of a vector.
\<close>

theorem dag_file_round_trip:
  assumes "\<And>x. length (ext_keccak256 e x) = 32" and "capacity_ok (length c)" and "list_all (\<lambda>i. length i = 64) c"
    and "save_cache_to_disk e io disk epoch c = (disk', Ok ())"
  shows "\<exists>bytes. hm_get disk' (CacheFile epoch) = Some bytes \<and> load_cache_from_disk e bytes epoch = Some (Ok c)"
  using assms(4) load_file [OF assms(1-3)] by (cases io) auto

text \<open>
  A file that was cut off while it was written is never taken for a cache: reading it fails with an error, and
  the manager generates the cache anew.
\<close>

theorem cut_file_rejected:
  assumes "\<And>x. length (ext_keccak256 e x) = 32" and "capacity_ok (length c)" and "list_all (\<lambda>i. length i = 64) c"
    and "n < length (cache_file e epoch c)" and "hm_get (dg_disk m) (CacheFile epoch) = Some (take n (cache_file e epoch c))"
  shows "load_epoch e k512 io m epoch = regenerate e k512 io m epoch"
  using load_cut_file [OF assms(1-4)] assms(5) by (simp add: load_epoch_def)

text \<open>
  The number of items is taken from the header before anything is checked against it: a header with the right
  magic, version and epoch and a huge count panics the node instead of being regenerated.
\<close>

lemma huge_count_panics:
  assumes "length checksum = 32" and "2 ^ 57 \<le> count"
  shows "load_cache_from_disk e (header_to_bytes \<lparr>dh_magic = DAG_MAGIC, dh_version = DAG_VERSION, dh_epoch = epoch,
    dh_item_count = count, dh_checksum = checksum\<rparr>) epoch = None"
proof -
  let ?h = "\<lparr>dh_magic = DAG_MAGIC, dh_version = DAG_VERSION, dh_epoch = epoch, dh_item_count = count, dh_checksum = checksum\<rparr>"
  have h: "header_from_bytes (header_to_bytes ?h) = ?h" "length (header_to_bytes ?h) = 64"
    using header_round_trip [of ?h] assms(1) by (simp_all add: DAG_MAGIC_def)
  have "\<not> capacity_ok (unat count)"
    using assms(2) by (simp add: capacity_ok_def word_le_nat_alt)
  then show ?thesis by (simp add: load_cache_from_disk_def HEADER_SIZE_def h Let_def)
qed

subsection \<open>Runs of the manager\<close>

datatype dag_op = DgEnsure disk_outcome u64 | DgLoad disk_outcome u64 | DgCleanup "dag_file \<Rightarrow> bool" u64

definition after :: "'s \<Rightarrow> ('s \<times> 'r) option \<Rightarrow> 's" where
  "after m r = (case r of None \<Rightarrow> m | Some (m', _) \<Rightarrow> m')"

fun dag_step :: "ext \<Rightarrow> (u8 list \<Rightarrow> u8 list) \<Rightarrow> DagManager \<Rightarrow> dag_op \<Rightarrow> DagManager" where
  "dag_step e k512 m (DgEnsure io height) = after m (ensure_epoch e k512 io m height)"
| "dag_step e k512 m (DgLoad io epoch) = after m (load_epoch e k512 io m epoch)"
| "dag_step e k512 m (DgCleanup removable keep) = fst (cleanup_old_epochs removable m keep)"

text \<open>Every cache file is a prefix of the file of its epoch; the cache in memory is that of the current epoch.\<close>

definition genuine :: "ext \<Rightarrow> (u8 list \<Rightarrow> u8 list) \<Rightarrow> u64 \<Rightarrow> u8 list \<Rightarrow> bool" where
  "genuine e k512 epoch bytes = (\<exists>c n. dag_generate_cache e k512 epoch = Some c \<and> bytes = take n (cache_file e epoch c))"

definition dag_inv :: "ext \<Rightarrow> (u8 list \<Rightarrow> u8 list) \<Rightarrow> DagManager \<Rightarrow> bool" where
  "dag_inv e k512 m = (digests_ok e k512 \<longrightarrow>
     (\<forall>epoch bytes. (CacheFile epoch, bytes) \<in> set (dg_disk m) \<longrightarrow> genuine e k512 epoch bytes)
     \<and> (\<forall>epoch. dag_is_ready m epoch \<longrightarrow> dg_cache m = dag_generate_cache e k512 epoch))"

lemma set_hm_insert: "set (hm_insert k v m) \<subseteq> insert (k, v) (set m)"
  by (induction m) (auto simp: hm_insert_def)

lemma genuine_load:
  assumes "digests_ok e k512" and "genuine e k512 epoch bytes"
  shows "load_cache_from_disk e bytes epoch = Some (Err DagIoError)
    \<or> (\<exists>c. dag_generate_cache e k512 epoch = Some c \<and> load_cache_from_disk e bytes epoch = Some (Ok c))"
proof -
  obtain c n where c: "dag_generate_cache e k512 epoch = Some c" "bytes = take n (cache_file e epoch c)"
    using assms(2) by (auto simp: genuine_def)
  have k: "length (ext_keccak256 e x) = 32" for x using assms(1) by (simp add: digests_ok_def)
  have shape: "capacity_ok (length c)" "list_all (\<lambda>i. length i = 64) c"
    using dag_generate_cache_shape [OF assms(1) c(1)] by (simp_all add: wf_cache_def)
  show ?thesis
  proof (cases "n < length (cache_file e epoch c)")
    case True
    then show ?thesis using load_cut_file [OF k shape True] c(2) by simp
  next
    case False
    then show ?thesis using load_file [OF k shape] c by simp
  qed
qed

lemma save_genuine:
  assumes "save_cache_to_disk e io disk epoch c = (disk', r)" and "dag_generate_cache e k512 epoch = Some c"
    and "\<forall>epoch bytes. (CacheFile epoch, bytes) \<in> set disk \<longrightarrow> genuine e k512 epoch bytes"
  shows "\<forall>epoch bytes. (CacheFile epoch, bytes) \<in> set disk' \<longrightarrow> genuine e k512 epoch bytes"
proof -
  have g: "genuine e k512 epoch (take n (cache_file e epoch c))" for n
    using assms(2) by (auto simp: genuine_def)
  have insert: "(\<forall>ep bytes. (CacheFile ep, bytes) \<in> set (hm_insert (CacheFile epoch) (take n (cache_file e epoch c)) disk)
      \<longrightarrow> genuine e k512 ep bytes)" for n
    using set_hm_insert [of "CacheFile epoch" "take n (cache_file e epoch c)" disk] assms(3) g by blast
  show ?thesis
  proof (cases io)
    case Written
    then show ?thesis using assms(1) insert [of "length (cache_file e epoch c)"] by simp
  next
    case (CutAfter n)
    then show ?thesis using assms(1) insert [of n] by simp
  qed (use assms(1,3) in simp)
qed

lemma dag_inv_set_epoch:
  assumes "dag_inv e k512 m" and "dag_generate_cache e k512 epoch = Some c"
  shows "dag_inv e k512 (dag_set_epoch m epoch c)"
  using assms by (auto simp: dag_inv_def dag_set_epoch_def dag_is_ready_def)

lemma regenerate_inv:
  assumes "dag_inv e k512 m" and "regenerate e k512 io m epoch = Some (m', r)"
  shows "dag_inv e k512 m'"
proof -
  obtain c disk' s where c: "dag_generate_cache e k512 epoch = Some c"
    and s: "save_cache_to_disk e io (dg_disk m) epoch c = (disk', s)"
    and m': "m' = (case s of Err x \<Rightarrow> m\<lparr>dg_disk := disk'\<rparr> | Ok u \<Rightarrow> dag_set_epoch (m\<lparr>dg_disk := disk'\<rparr>) epoch c)"
    using assms(2) by (auto simp: regenerate_def split: option.splits prod.splits sum.splits)
  have "dag_inv e k512 (m\<lparr>dg_disk := disk'\<rparr>)"
    using assms(1) save_genuine [OF s c] by (simp add: dag_inv_def dag_is_ready_def)
  then show ?thesis using m' dag_inv_set_epoch [OF _ c] by (cases s) simp_all
qed

lemma load_epoch_inv:
  assumes inv: "dag_inv e k512 m" and l: "load_epoch e k512 io m epoch = Some (m', r)" and ok: "digests_ok e k512"
  shows "dag_inv e k512 m'"
proof (cases "hm_get (dg_disk m) (CacheFile epoch)")
  case None
  then show ?thesis using l regenerate_inv [OF inv] by (simp add: load_epoch_def)
next
  case (Some bytes)
  then have "genuine e k512 epoch bytes" using inv ok hm_get_mem [OF Some] by (simp add: dag_inv_def)
  from genuine_load [OF ok this] show ?thesis
  proof (elim disjE exE conjE)
    assume "load_cache_from_disk e bytes epoch = Some (Err DagIoError)"
    then show ?thesis using l Some regenerate_inv [OF inv] by (simp add: load_epoch_def)
  next
    fix c assume c: "dag_generate_cache e k512 epoch = Some c" "load_cache_from_disk e bytes epoch = Some (Ok c)"
    then show ?thesis using l Some dag_inv_set_epoch [OF inv c(1)] by (simp add: load_epoch_def)
  qed
qed

lemma dag_step_inv: "dag_inv e k512 m \<Longrightarrow> dag_inv e k512 (dag_step e k512 m x)"
proof (cases "digests_ok e k512")
  case True
  assume inv: "dag_inv e k512 m"
  have load: "dag_inv e k512 (after m (load_epoch e k512 io m epoch))" for io epoch
    using load_epoch_inv [OF inv _ True] inv by (auto simp: after_def split: option.split)
  show ?thesis
  proof (cases x)
    case (DgEnsure io height)
    then show ?thesis using load inv by (simp add: ensure_epoch_def Let_def after_def)
  next
    case (DgCleanup removable keep)
    then show ?thesis using inv by (auto simp: cleanup_old_epochs_def Let_def dag_inv_def dag_is_ready_def)
  qed (use load in simp)
qed (simp add: dag_inv_def)

interpretation dag: machine "DagManager_new []" "dag_step e k512" "dag_inv e k512"
  by unfold_locales (simp_all add: dag_step_inv, simp add: dag_inv_def DagManager_new_def dag_is_ready_def)

text \<open>
  The manager never hands out a wrong cache: from an empty directory, after any sequence of epochs and
  clean-ups, and whatever writes fail half-way, a manager that is ready for an epoch holds exactly the cache
  that the generator makes for that epoch.
\<close>

theorem dag_cache_faithful:
  assumes "digests_ok e k512" and "reachable (dag_step e k512) (DagManager_new []) m" and "dag_is_ready m epoch"
  shows "dg_cache m = dag_generate_cache e k512 epoch"
  using dag.inv_reachable [OF assms(2)] assms(1,3) by (simp add: dag_inv_def)

text \<open>
  A ready manager evaluates every item of the dataset: \<open>calc_dag_item\<close> returns 64 bytes for every index.
\<close>

theorem dag_items_available:
  assumes "digests_ok e k512" and "reachable (dag_step e k512) (DagManager_new []) m" and "dag_is_ready m epoch"
  shows "\<exists>item. calc_dag_item k512 m index = Some item \<and> length item = 64"
proof -
  obtain c where c: "dg_cache m = Some c" "dag_generate_cache e k512 epoch = Some c"
    using dag.inv_reachable [OF assms(2)] assms(1,3) by (auto simp: dag_inv_def dag_is_ready_def)
  then have "c \<noteq> []" using dag_generate_cache_shape [OF assms(1)] by (auto simp: wf_cache_def)
  then show ?thesis using c assms(1) by (simp add: calc_dag_item_def Let_def digests_ok_def)
qed

text \<open>The mixing loop of the hash returns for every height of a chain that can be reached and any cache with an item.\<close>

theorem kawpow_hash_defined:
  assumes "cache \<noteq> []" and "height < 2 ^ 53"
  shows "\<exists>d. kawpow_hash e k512 header_hash nonce height cache = Some d"
proof -
  have "unat height < 2 ^ 53" using assms(2) by (simp add: word_less_nat_alt)
  then have "unat (get_epoch height) < 2 ^ 53 div 7500 + 1"
    by (simp add: get_epoch_def EPOCH_LENGTH_def unat_div less_Suc_eq_le div_le_mono)
  then have "unat (get_epoch height) * 2 ^ 23 < 2 ^ 63 + 2 ^ 61" by simp
  then have "unat (get_dag_size (get_epoch height)) = 2 ^ 30 + 2 ^ 23 * unat (get_epoch height)"
    by (simp add: get_dag_size_def DAG_BYTES_INIT_def DAG_BYTES_GROWTH_def unat_word_ariths)
  then have "256 \<le> unat (get_dag_size (get_epoch height))" by simp
  then have "unat (get_dag_size (get_epoch height)) div 256 \<noteq> 0" by (simp add: div_eq_0_iff)
  then show ?thesis using assms(1) by (simp add: kawpow_hash_def Let_def)
qed

text \<open>
  The manager's generator mixes an item with the one its first bytes point to, not with its predecessor: an
  item that points to itself is replaced by the hash of zeros, whatever it held.
\<close>

lemma self_reference_forgets:
  assumes "i < length c" and "item_index (c ! i) mod n = i"
  shows "dag_memo_step k512 n i c ! i = k512 (replicate (length (c ! i)) 0)"
proof -
  have "xor_items x x = replicate (length x) 0" for x by (induction x) (simp_all add: xor_items_def)
  then show ?thesis using assms by (simp add: dag_memo_step_def Let_def)
qed

subsection \<open>Witnesses\<close>

definition sample_k512 :: "u8 list \<Rightarrow> u8 list" where
  "sample_k512 bs = copy_padded 64 bs"

lemma sample_digests_ok: "digests_ok sample_ext sample_k512"
  by (simp add: digests_ok_def sample_ext_def sample_digest_def sample_k512_def)

theorem dag_file_round_trip_witness:
  "\<exists>bytes. hm_get (fst (save_cache_to_disk sample_ext Written [] 3 [replicate 64 7])) (CacheFile 3) = Some bytes
    \<and> load_cache_from_disk sample_ext bytes 3 = Some (Ok [replicate 64 7])"
proof -
  have "save_cache_to_disk sample_ext Written [] 3 [replicate 64 7]
      = (fst (save_cache_to_disk sample_ext Written [] 3 [replicate 64 7]), Ok ())" by simp
  then show ?thesis
    using dag_file_round_trip [of sample_ext "[replicate 64 7]" Written "[]" 3] sample_digests_ok
    by (simp add: digests_ok_def capacity_ok_def)
qed

theorem cut_file_rejected_witness:
  "load_epoch sample_ext sample_k512 Written (DagManager_new [(CacheFile 3, take 70 (cache_file sample_ext 3 [replicate 64 7]))]) 3
    = regenerate sample_ext sample_k512 Written (DagManager_new [(CacheFile 3, take 70 (cache_file sample_ext 3 [replicate 64 7]))]) 3"
proof -
  have len: "length (cache_file sample_ext 3 [replicate 64 7]) = 128"
    by (simp add: cache_file_def header_to_bytes_def dag_checksum_def DAG_MAGIC_def sample_ext_def sample_digest_def)
  show ?thesis
    by (rule cut_file_rejected [where c = "[replicate 64 7]" and n = 70])
      (use len in \<open>simp_all add: capacity_ok_def DagManager_new_def hm_get_def sample_ext_def sample_digest_def\<close>)
qed

lemma cache_size_0: "unat (get_cache_size 0) = 16777216"
  by (simp add: get_cache_size_def CACHE_BYTES_INIT_def)

definition ready_manager :: DagManager where
  "ready_manager = run (dag_step sample_ext sample_k512) (DagManager_new []) [DgEnsure Written 100]"

lemma ready_manager_ready:
  "reachable (dag_step sample_ext sample_k512) (DagManager_new []) ready_manager" "dag_is_ready ready_manager 0"
proof -
  obtain c where "dag_generate_cache sample_ext sample_k512 0 = Some c"
    by (simp add: dag_generate_cache_def Let_def cache_size_0 capacity_ok_def)
  then show "dag_is_ready ready_manager 0"
    by (simp add: ready_manager_def ensure_epoch_def load_epoch_def regenerate_def get_epoch_def EPOCH_LENGTH_def
        DagManager_new_def after_def dag_is_ready_def dag_set_epoch_def Let_def)
  show "reachable (dag_step sample_ext sample_k512) (DagManager_new []) ready_manager"
    unfolding ready_manager_def by (rule reachable_run)
qed

theorem dag_cache_faithful_witness: "dg_cache ready_manager = dag_generate_cache sample_ext sample_k512 0"
  by (rule dag_cache_faithful [OF sample_digests_ok ready_manager_ready])

theorem dag_items_available_witness: "\<exists>item. calc_dag_item sample_k512 ready_manager 5 = Some item \<and> length item = 64"
  by (rule dag_items_available [OF sample_digests_ok ready_manager_ready])

theorem kawpow_hash_defined_witness:
  "\<exists>d. kawpow_hash sample_ext sample_k512 (replicate 32 1) 9 7500 [replicate 64 7] = Some d"
  by (rule kawpow_hash_defined) simp_all

end
