(* ===== verification/Genesis_Config.thy ===== *)
theory Genesis_Config
  imports Emission Genesis_Block Hash_Map
begin

section \<open>Genesis configuration of the networks\<close>

text \<open>
  \<open>pyrax-node/src/mainnet/genesis_config.rs\<close> and the constants of \<open>mainnet/mod.rs\<close>: network parameters,
  genesis accounts and validators, the two hashes over them, validation, and the genesis of the main and
  the test network. The JSON form is left out.
\<close>

definition MAINNET_CHAIN_ID :: u64 where "MAINNET_CHAIN_ID = 0x50595201"

definition TESTNET_CHAIN_ID :: u64 where "TESTNET_CHAIN_ID = 0x505952FF"

definition BLOCK_TIME_SECS :: u64 where "BLOCK_TIME_SECS = 6"

definition MAINNET_EPOCH_LENGTH :: u64 where "MAINNET_EPOCH_LENGTH = 14400"

datatype NetworkType = NtMainnet | NtTestnet | NtDevnet | NtLocal

fun network_chain_id :: "NetworkType \<Rightarrow> u64" where
  "network_chain_id NtMainnet = MAINNET_CHAIN_ID"
| "network_chain_id NtTestnet = TESTNET_CHAIN_ID"
| "network_chain_id NtDevnet = 0x505952FE"
| "network_chain_id NtLocal = 0x50595200"

fun network_type_name :: "NetworkType \<Rightarrow> string" where
  "network_type_name NtMainnet = ''PYRAX Mainnet''"
| "network_type_name NtTestnet = ''PYRAX Testnet''"
| "network_type_name NtDevnet = ''PYRAX Devnet''"
| "network_type_name NtLocal = ''PYRAX Local''"

record GenesisAccount =
  ga_address :: address
  ga_balance :: u64
  ga_nonce :: u64
  ga_code :: "u8 list option"
  ga_storage :: "(h256, h256) hashmap"
  ga_label :: string

definition GenesisAccount_new :: "address \<Rightarrow> u64 \<Rightarrow> string \<Rightarrow> GenesisAccount" where
  "GenesisAccount_new a balance label =
     \<lparr>ga_address = a, ga_balance = balance, ga_nonce = 0, ga_code = None, ga_storage = [], ga_label = label\<rparr>"

definition GenesisAccount_contract :: "address \<Rightarrow> u8 list \<Rightarrow> string \<Rightarrow> GenesisAccount" where
  "GenesisAccount_contract a code label =
     \<lparr>ga_address = a, ga_balance = 0, ga_nonce = 1, ga_code = Some code, ga_storage = [], ga_label = label\<rparr>"

definition with_storage :: "GenesisAccount \<Rightarrow> (h256, h256) hashmap \<Rightarrow> GenesisAccount" where
  "with_storage g storage = g\<lparr>ga_storage := storage\<rparr>"

record GenesisValidator =
  gv_address :: address
  gv_stake :: u64
  gv_commission_bps :: u16
  gv_name :: string
  gv_description :: string
  gv_website :: string
  gv_consensus_pubkey :: "u8 list"
  gv_endpoint :: string

definition GenesisValidator_new :: "address \<Rightarrow> u64 \<Rightarrow> string \<Rightarrow> u8 list \<Rightarrow> string \<Rightarrow> GenesisValidator" where
  "GenesisValidator_new a stake name consensus_pubkey endpoint =
     \<lparr>gv_address = a, gv_stake = stake, gv_commission_bps = 500, gv_name = name, gv_description = [], gv_website = [],
      gv_consensus_pubkey = consensus_pubkey, gv_endpoint = endpoint\<rparr>"

definition with_commission :: "GenesisValidator \<Rightarrow> u16 \<Rightarrow> GenesisValidator" where
  "with_commission v bps = v\<lparr>gv_commission_bps := bps\<rparr>"

definition with_description :: "GenesisValidator \<Rightarrow> string \<Rightarrow> GenesisValidator" where
  "with_description v description = v\<lparr>gv_description := description\<rparr>"

record NetworkConfig =
  nc_chain_id :: u64
  nc_network_type :: NetworkType
  nc_block_time_secs :: u64
  nc_epoch_length :: u64
  nc_max_validators :: u32
  nc_min_validator_stake :: u64
  nc_unbonding_period_epochs :: u64
  nc_double_sign_slash_bps :: u16
  nc_downtime_slash_bps :: u16
  nc_block_reward :: u64
  nc_min_tx_fee :: u64
  nc_min_gas_price :: u64
  nc_max_block_gas :: u64
  nc_evm_enabled :: bool
  nc_wasm_enabled :: bool
  nc_ai_enabled :: bool
  nc_zk_enabled :: bool

definition NetworkConfig_mainnet :: NetworkConfig where
  "NetworkConfig_mainnet =
     \<lparr>nc_chain_id = MAINNET_CHAIN_ID, nc_network_type = NtMainnet, nc_block_time_secs = BLOCK_TIME_SECS,
      nc_epoch_length = MAINNET_EPOCH_LENGTH, nc_max_validators = 100, nc_min_validator_stake = 100000 * 100000000,
      nc_unbonding_period_epochs = 21, nc_double_sign_slash_bps = 500, nc_downtime_slash_bps = 10,
      nc_block_reward = 2 * 100000000, nc_min_tx_fee = 21000, nc_min_gas_price = 1000000000, nc_max_block_gas = 30000000,
      nc_evm_enabled = True, nc_wasm_enabled = True, nc_ai_enabled = True, nc_zk_enabled = True\<rparr>"

definition NetworkConfig_testnet :: NetworkConfig where
  "NetworkConfig_testnet =
     \<lparr>nc_chain_id = TESTNET_CHAIN_ID, nc_network_type = NtTestnet, nc_block_time_secs = 3, nc_epoch_length = 1000,
      nc_max_validators = 50, nc_min_validator_stake = 1000 * 100000000, nc_unbonding_period_epochs = 3,
      nc_double_sign_slash_bps = 500, nc_downtime_slash_bps = 10, nc_block_reward = 10 * 100000000, nc_min_tx_fee = 21000,
      nc_min_gas_price = 1000000, nc_max_block_gas = 50000000, nc_evm_enabled = True, nc_wasm_enabled = True,
      nc_ai_enabled = True, nc_zk_enabled = True\<rparr>"

definition NetworkConfig_devnet :: NetworkConfig where
  "NetworkConfig_devnet =
     \<lparr>nc_chain_id = network_chain_id NtDevnet, nc_network_type = NtDevnet, nc_block_time_secs = 1, nc_epoch_length = 100,
      nc_max_validators = 21, nc_min_validator_stake = 100 * 100000000, nc_unbonding_period_epochs = 1,
      nc_double_sign_slash_bps = 100, nc_downtime_slash_bps = 1, nc_block_reward = 100 * 100000000, nc_min_tx_fee = 1000,
      nc_min_gas_price = 1, nc_max_block_gas = 100000000, nc_evm_enabled = True, nc_wasm_enabled = True,
      nc_ai_enabled = True, nc_zk_enabled = True\<rparr>"

datatype ConfigError =
    InvalidConfigValue string
  | NoValidators
  | InsufficientGenesisStake address u64 u64
  | DuplicateAddress address
  | SerializationError string
  | ConfigValidationError string

definition network_validate :: "NetworkConfig \<Rightarrow> ConfigError + unit" where
  "network_validate n =
     (if nc_block_time_secs n = 0 then Err (InvalidConfigValue ''block_time_secs must be > 0'')
      else if nc_epoch_length n = 0 then Err (InvalidConfigValue ''epoch_length must be > 0'')
      else if nc_max_validators n = 0 then Err (InvalidConfigValue ''max_validators must be > 0'')
      else if 10000 < nc_double_sign_slash_bps n then Err (InvalidConfigValue ''double_sign_slash_bps must be <= 10000'')
      else Ok ())"

record SystemContract =
  syc_name :: string
  syc_address :: address
  syc_code_hash :: h256
  syc_description :: string

record GenesisConfig =
  gc_timestamp :: u64
  gc_network :: NetworkConfig
  gc_accounts :: "GenesisAccount list"
  gc_validators :: "GenesisValidator list"
  gc_system_contracts :: "SystemContract list"
  gc_state_root :: h256
  gc_genesis_hash :: h256
  gc_extra_data :: "u8 list"
  gc_version :: string

definition system_address :: "u8 \<Rightarrow> address" where
  "system_address n = Address (replicate 19 0 @ [n])"

definition default_system_contracts :: "SystemContract list" where
  "default_system_contracts =
     [\<lparr>syc_name = ''Staking'', syc_address = system_address 1, syc_code_hash = h256_zero,
       syc_description = ''Staking and validator management''\<rparr>,
      \<lparr>syc_name = ''Governance'', syc_address = system_address 2, syc_code_hash = h256_zero,
       syc_description = ''On-chain governance''\<rparr>,
      \<lparr>syc_name = ''Bridge'', syc_address = system_address 3, syc_code_hash = h256_zero,
       syc_description = ''L2 bridge contract''\<rparr>,
      \<lparr>syc_name = ''AIMarketplace'', syc_address = system_address 4, syc_code_hash = h256_zero,
       syc_description = ''AI compute marketplace''\<rparr>]"

definition GenesisConfig_new :: "NetworkConfig \<Rightarrow> u64 \<Rightarrow> GenesisConfig" where
  "GenesisConfig_new network timestamp =
     \<lparr>gc_timestamp = timestamp, gc_network = network, gc_accounts = [], gc_validators = [],
      gc_system_contracts = default_system_contracts, gc_state_root = h256_zero, gc_genesis_hash = h256_zero,
      gc_extra_data = ascii_bytes ''PYRAX Genesis'', gc_version = ''1.0.0''\<rparr>"

definition add_account :: "GenesisConfig \<Rightarrow> GenesisAccount \<Rightarrow> GenesisConfig" where
  "add_account c a = c\<lparr>gc_accounts := gc_accounts c @ [a]\<rparr>"

definition genesis_add_validator :: "GenesisConfig \<Rightarrow> GenesisValidator \<Rightarrow> GenesisConfig" where
  "genesis_add_validator c v = c\<lparr>gc_validators := gc_validators c @ [v]\<rparr>"

definition genesis_total_supply :: "GenesisConfig \<Rightarrow> u64" where
  "genesis_total_supply c = sum_list (map ga_balance (gc_accounts c))"

definition genesis_total_staked :: "GenesisConfig \<Rightarrow> u64" where
  "genesis_total_staked c = sum_list (map gv_stake (gc_validators c))"

text \<open>What the genesis hash covers, as the hasher is fed.\<close>

definition account_entry :: "GenesisAccount \<Rightarrow> u8 list" where
  "account_entry a = address_bytes (ga_address a) @ u64_to_le_bytes (ga_balance a)"

definition validator_entry :: "GenesisValidator \<Rightarrow> u8 list" where
  "validator_entry v = address_bytes (gv_address v) @ u64_to_le_bytes (gv_stake v)"

definition genesis_preimage :: "GenesisConfig \<Rightarrow> u8 list" where
  "genesis_preimage c =
     u64_to_le_bytes (gc_timestamp c) @ u64_to_le_bytes (nc_chain_id (gc_network c)) @ h256_bytes (gc_state_root c)
     @ gc_extra_data c @ concat (map account_entry (gc_accounts c)) @ concat (map validator_entry (gc_validators c))"

definition genesis_compute_hash :: "ext \<Rightarrow> GenesisConfig \<Rightarrow> GenesisConfig" where
  "genesis_compute_hash e c = c\<lparr>gc_genesis_hash := h256_from_slice (ext_blake3 e (genesis_preimage c))\<rparr>"

definition genesis_state_root :: "ext \<Rightarrow> GenesisConfig \<Rightarrow> GenesisConfig" where
  "genesis_state_root e c =
     c\<lparr>gc_state_root := h256_from_slice (ext_blake3 e
         (concat (map (\<lambda>a. address_bytes (ga_address a) @ u64_to_le_bytes (ga_balance a) @ u64_to_le_bytes (ga_nonce a)) (gc_accounts c))))\<rparr>"

fun check_stakes :: "u64 \<Rightarrow> GenesisValidator list \<Rightarrow> ConfigError + unit" where
  "check_stakes required [] = Ok ()"
| "check_stakes required (v # vs) =
     (if gv_stake v < required then Err (InsufficientGenesisStake (gv_address v) required (gv_stake v))
      else check_stakes required vs)"

fun check_addresses :: "address set \<Rightarrow> GenesisAccount list \<Rightarrow> ConfigError + unit" where
  "check_addresses seen [] = Ok ()"
| "check_addresses seen (a # as) =
     (if ga_address a \<in> seen then Err (DuplicateAddress (ga_address a)) else check_addresses (insert (ga_address a) seen) as)"

definition genesis_validate :: "GenesisConfig \<Rightarrow> ConfigError + unit" where
  "genesis_validate c =
     and_then (network_validate (gc_network c)) (\<lambda>_.
       if gc_validators c = [] then Err NoValidators
       else and_then (check_stakes (nc_min_validator_stake (gc_network c)) (gc_validators c)) (\<lambda>_.
         check_addresses {} (gc_accounts c)))"

definition filled_address :: "u8 \<Rightarrow> address" where
  "filled_address b = Address (replicate 20 b)"

definition mainnet_accounts :: "GenesisAccount list" where
  "mainnet_accounts =
     [GenesisAccount_new (filled_address 0x01) (15000000000 * 100000000) ''Presale Pool'',
      GenesisAccount_new (filled_address 0x02) (10000000000 * 100000000) ''BDAG Community Pool'',
      GenesisAccount_new (filled_address 0x03) (35000000000 * 100000000) ''Mining Rewards Pool (Stream A + B)'',
      GenesisAccount_new (filled_address 0x04) (5000000000 * 100000000) ''ZK Prover Rewards Pool (Stream C)'',
      GenesisAccount_new (filled_address 0x05) (4000000000 * 100000000) ''Team & Founders Pool'',
      GenesisAccount_new (filled_address 0x06) (3000000000 * 100000000) ''Advisors Pool'',
      GenesisAccount_new (filled_address 0x07) (10000000000 * 100000000) ''Ecosystem Pool'',
      GenesisAccount_new (filled_address 0x08) (5000000000 * 100000000) ''Marketing Pool'',
      GenesisAccount_new (filled_address 0x09) (10000000000 * 100000000) ''Liquidity Pool'',
      GenesisAccount_new (filled_address 0x0A) (2000000000 * 100000000) ''Treasury Pool'',
      GenesisAccount_new (filled_address 0x0B) (1000000000 * 100000000) ''Reserve Pool'']"

definition testnet_accounts :: "GenesisAccount list" where
  "testnet_accounts =
     [GenesisAccount_new (filled_address 0xFF) (10000000000 * 100000000) ''Testnet Faucet'',
      GenesisAccount_new (filled_address 0x01) (1000000000 * 100000000) ''Test Presale Pool'',
      GenesisAccount_new (filled_address 0x03) (5000000000 * 100000000) ''Test Mining Rewards Pool'']"

definition mainnet_genesis :: "ext \<Rightarrow> GenesisConfig" where
  "mainnet_genesis e =
     (let config = fold (\<lambda>a c. add_account c a) mainnet_accounts (GenesisConfig_new NetworkConfig_mainnet 0)
      in genesis_compute_hash e (genesis_state_root e config))"

definition testnet_genesis :: "ext \<Rightarrow> GenesisConfig" where
  "testnet_genesis e =
     (let config = fold (\<lambda>a c. add_account c a) testnet_accounts (GenesisConfig_new NetworkConfig_testnet 0)
      in genesis_compute_hash e (genesis_state_root e config))"

subsection \<open>Validation\<close>

lemma check_stakes_Ok: "check_stakes required vs = Ok () \<longleftrightarrow> (\<forall>v \<in> set vs. required \<le> gv_stake v)"
  by (induction vs) (auto simp: not_less)

lemma check_addresses_Ok:
  "check_addresses seen as = Ok () \<longleftrightarrow> distinct (map ga_address as) \<and> seen \<inter> ga_address ` set as = {}"
  by (induction "as" arbitrary: seen) auto

text \<open>
  A genesis configuration passes validation exactly when its network parameters are sensible, it has a
  validator, every validator has the minimum stake and no two accounts share an address.
\<close>

theorem genesis_validate_exact:
  "genesis_validate c = Ok () \<longleftrightarrow>
    nc_block_time_secs (gc_network c) \<noteq> 0 \<and> nc_epoch_length (gc_network c) \<noteq> 0 \<and> nc_max_validators (gc_network c) \<noteq> 0
    \<and> nc_double_sign_slash_bps (gc_network c) \<le> 10000 \<and> gc_validators c \<noteq> []
    \<and> (\<nexists>v. v \<in> set (gc_validators c) \<and> gv_stake v < nc_min_validator_stake (gc_network c))
    \<and> distinct (map ga_address (gc_accounts c))"
proof -
  have "network_validate n = Ok () \<longleftrightarrow> nc_block_time_secs n \<noteq> 0 \<and> nc_epoch_length n \<noteq> 0 \<and> nc_max_validators n \<noteq> 0
      \<and> nc_double_sign_slash_bps n \<le> 10000" for n
    by (auto simp: network_validate_def not_less)
  then show ?thesis
    by (auto simp: genesis_validate_def and_then_Ok_iff check_stakes_Ok check_addresses_Ok not_less)
qed

lemma genesis_fields:
  "gc_accounts (mainnet_genesis e) = mainnet_accounts" "gc_validators (mainnet_genesis e) = []"
  "gc_network (mainnet_genesis e) = NetworkConfig_mainnet"
  "gc_accounts (testnet_genesis e) = testnet_accounts" "gc_validators (testnet_genesis e) = []"
  "gc_network (testnet_genesis e) = NetworkConfig_testnet"
  by (simp_all add: mainnet_genesis_def testnet_genesis_def Let_def genesis_compute_hash_def genesis_state_root_def
      mainnet_accounts_def testnet_accounts_def add_account_def GenesisConfig_new_def)

text \<open>
  Neither genesis the code ships passes its own validation: both are refused for having no validators, and
  adding one validator with the minimum stake is enough for the main network.
\<close>

theorem shipped_genesis_rejected:
  "genesis_validate (mainnet_genesis e) = Err NoValidators \<and> genesis_validate (testnet_genesis e) = Err NoValidators
    \<and> genesis_validate (genesis_add_validator (mainnet_genesis e) (GenesisValidator_new a (100000 * 100000000) n k ep)) = Ok ()"
proof -
  have d: "distinct (map ga_address mainnet_accounts)"
    by (simp add: mainnet_accounts_def GenesisAccount_new_def filled_address_def)
  have "network_validate NetworkConfig_mainnet = Ok ()" "network_validate NetworkConfig_testnet = Ok ()"
    by (simp_all add: network_validate_def NetworkConfig_mainnet_def NetworkConfig_testnet_def BLOCK_TIME_SECS_def
        MAINNET_EPOCH_LENGTH_def)
  then show ?thesis
    using d by (simp add: genesis_validate_def genesis_fields genesis_add_validator_def GenesisValidator_new_def
        NetworkConfig_mainnet_def check_addresses_Ok)
qed

text \<open>
  The main network starts with the whole supply: the balances of its genesis accounts are the eleven
  allocations of the token economics, and their sum, which does not wrap, is the maximum supply of the chain.
\<close>

theorem mainnet_supply:
  "map ga_balance (gc_accounts (mainnet_genesis e)) =
      [PRESALE_ALLOCATION, BDAG_COMMUNITY_ALLOCATION, MINING_REWARDS_ALLOCATION, ZK_PROVER_ALLOCATION, TEAM_ALLOCATION,
       ADVISORS_ALLOCATION, ECOSYSTEM_ALLOCATION, MARKETING_ALLOCATION, LIQUIDITY_ALLOCATION, TREASURY_ALLOCATION, RESERVE_ALLOCATION]
    \<and> genesis_total_supply (mainnet_genesis e) = MAX_SUPPLY \<and> MAX_SUPPLY = TOTAL_SUPPLY
    \<and> unat (genesis_total_supply (mainnet_genesis e)) = (\<Sum>a\<leftarrow>gc_accounts (mainnet_genesis e). unat (ga_balance a))"
proof -
  have s: "genesis_total_supply (mainnet_genesis e) = MAX_SUPPLY"
    by (simp add: genesis_total_supply_def genesis_fields mainnet_accounts_def GenesisAccount_new_def MAX_SUPPLY_def)
  have "unat MAX_SUPPLY = (\<Sum>a\<leftarrow>mainnet_accounts. unat (ga_balance a))"
    by (simp add: mainnet_accounts_def GenesisAccount_new_def MAX_SUPPLY_def)
  then show ?thesis
    using s by (simp add: genesis_fields mainnet_accounts_def GenesisAccount_new_def allocation_defs MAX_SUPPLY_def)
qed

subsection \<open>What the genesis hash binds\<close>

lemma entries_prefix_free:
  assumes "length xs = length ys" and "\<And>x. x \<in> set xs \<union> set ys \<Longrightarrow> wf_address (fst x)"
    and "concat (map (\<lambda>(a, n). address_bytes a @ u64_to_le_bytes n) xs) @ r
      = concat (map (\<lambda>(a, n). address_bytes a @ u64_to_le_bytes n) ys) @ r'"
  shows "xs = ys \<and> r = r'"
proof (rule concat_prefix_free [where A = "{x. wf_address (fst x)}" and f = "\<lambda>(a, n). address_bytes a @ u64_to_le_bytes n"])
  fix x y :: "address \<times> u64" and r r'
  assume "x \<in> {x. wf_address (fst x)}" "y \<in> {x. wf_address (fst x)}"
    "(case x of (a, n) \<Rightarrow> address_bytes a @ u64_to_le_bytes n) @ r = (case y of (a, n) \<Rightarrow> address_bytes a @ u64_to_le_bytes n) @ r'"
  then show "x = y \<and> r = r'" by (cases x; cases y) (simp add: wf_address_def address.expand)
qed (use assms in auto)

definition account_key :: "GenesisAccount \<Rightarrow> address \<times> u64" where
  "account_key a = (ga_address a, ga_balance a)"

definition validator_key :: "GenesisValidator \<Rightarrow> address \<times> u64" where
  "validator_key v = (gv_address v, gv_stake v)"

definition wf_genesis :: "GenesisConfig \<Rightarrow> bool" where
  "wf_genesis c =
     (wf_h256 (gc_state_root c) \<and> (\<forall>a \<in> set (gc_accounts c). wf_address (ga_address a))
      \<and> (\<forall>v \<in> set (gc_validators c). wf_address (gv_address v)))"

lemma entry_keys:
  "account_entry = (\<lambda>(a, n). address_bytes a @ u64_to_le_bytes n) \<circ> account_key"
  "validator_entry = (\<lambda>(a, n). address_bytes a @ u64_to_le_bytes n) \<circ> validator_key"
  by (auto simp: account_entry_def account_key_def validator_entry_def validator_key_def)

text \<open>
  The genesis hash identifies a network: two configurations with as many accounts and validators and extra
  data of one length have the same hash only if they agree in time, chain identifier, state root, extra data,
  the addresses and balances of all accounts and the addresses and stakes of all validators, as long as BLAKE3
  separates what is hashed.
\<close>

theorem genesis_hash_binds:
  assumes "wf_genesis c" and "wf_genesis c'" and "length (gc_accounts c) = length (gc_accounts c')"
    and "length (gc_validators c) = length (gc_validators c')" and "length (gc_extra_data c) = length (gc_extra_data c')"
    and "separates e [genesis_preimage c, genesis_preimage c']"
    and "gc_genesis_hash (genesis_compute_hash e c) = gc_genesis_hash (genesis_compute_hash e c')"
  shows "gc_timestamp c = gc_timestamp c' \<and> nc_chain_id (gc_network c) = nc_chain_id (gc_network c')
    \<and> gc_state_root c = gc_state_root c' \<and> gc_extra_data c = gc_extra_data c'
    \<and> map account_key (gc_accounts c) = map account_key (gc_accounts c')
    \<and> map validator_key (gc_validators c) = map validator_key (gc_validators c')"
proof -
  let ?f = "\<lambda>(a, n). address_bytes a @ u64_to_le_bytes n"
  have "genesis_preimage c = genesis_preimage c'"
    using assms(7) by (intro separatesD [OF assms(6)]) (simp_all add: genesis_compute_hash_def)
  moreover have "length (h256_bytes (gc_state_root c)) = length (h256_bytes (gc_state_root c'))"
    using assms(1,2) by (simp add: wf_genesis_def wf_h256_def)
  ultimately have front: "gc_timestamp c = gc_timestamp c'" "nc_chain_id (gc_network c) = nc_chain_id (gc_network c')"
      "gc_state_root c = gc_state_root c'" "gc_extra_data c = gc_extra_data c'"
    and entries: "concat (map ?f (map account_key (gc_accounts c))) @ concat (map ?f (map validator_key (gc_validators c)))
      = concat (map ?f (map account_key (gc_accounts c'))) @ concat (map ?f (map validator_key (gc_validators c')))"
    using assms(5) by (simp_all add: genesis_preimage_def entry_keys h256.expand)
  have "map account_key (gc_accounts c) = map account_key (gc_accounts c')
      \<and> concat (map ?f (map validator_key (gc_validators c))) = concat (map ?f (map validator_key (gc_validators c')))"
    using assms(1-3) by (intro entries_prefix_free [OF _ _ entries]) (auto simp: wf_genesis_def account_key_def)
  moreover from this have "map validator_key (gc_validators c) = map validator_key (gc_validators c') \<and> [] = ([] :: u8 list)"
    using assms(1,2,4) by (intro entries_prefix_free) (auto simp: wf_genesis_def validator_key_def)
  ultimately show ?thesis using front by simp
qed

text \<open>
  Accounts and validators are hashed alike, one after the other: moving the last account to the validators
  does not change the hash, though it turns a balance into a stake.
\<close>

lemma genesis_hash_ambiguous:
  assumes "gc_accounts c = as @ [a]" and "gv_address v = ga_address a" and "gv_stake v = ga_balance a"
  shows "gc_genesis_hash (genesis_compute_hash e (c\<lparr>gc_accounts := as, gc_validators := v # gc_validators c\<rparr>))
    = gc_genesis_hash (genesis_compute_hash e c)"
  using assms by (simp add: genesis_compute_hash_def genesis_preimage_def account_entry_def validator_entry_def)

text \<open>The chain identifier of this configuration is not the network identifier of the chain.\<close>

lemma chain_ids_differ: "NetworkId_MAINNET \<noteq> NetworkId (ucast MAINNET_CHAIN_ID)"
  by (simp add: NetworkId_MAINNET_def MAINNET_CHAIN_ID_def)

subsection \<open>Witness\<close>

theorem genesis_hash_binds_witness:
  "gc_genesis_hash (genesis_compute_hash sample_ext (GenesisConfig_new NetworkConfig_mainnet 5))
    \<noteq> gc_genesis_hash (genesis_compute_hash sample_ext (GenesisConfig_new NetworkConfig_mainnet 6))"
proof
  let ?c = "GenesisConfig_new NetworkConfig_mainnet 5" and ?c' = "GenesisConfig_new NetworkConfig_mainnet 6"
  assume eq: "gc_genesis_hash (genesis_compute_hash sample_ext ?c) = gc_genesis_hash (genesis_compute_hash sample_ext ?c')"
  have first: "take 8 (h256_bytes (h256_from_slice (ext_blake3 sample_ext (genesis_preimage (GenesisConfig_new n t))))) = u64_to_le_bytes t" for n t
    by (simp add: sample_ext_def sample_digest_def h256_from_slice_def genesis_preimage_def GenesisConfig_new_def copy_padded_def)
  have "separates sample_ext [genesis_preimage ?c, genesis_preimage ?c']"
    using first [of NetworkConfig_mainnet 5] first [of NetworkConfig_mainnet 6] by (auto simp: separates_def)
  from genesis_hash_binds [OF _ _ _ _ _ this eq] show False
    by (simp add: wf_genesis_def GenesisConfig_new_def)
qed

end
