(* ===== verification/Spec2Isabelle.thy ===== *)
theory Spec2Isabelle
  imports Mempool Validation Emission Vesting Allocation Staking_Registry Checkpoint Slashing
    Light_Client Fee_Distribution Dual_State Cross_Model L2_Bridge L2_Sequencer L2_Availability L2_Prover
    AI_Scheduler AI_Verification Chain_Service Chain_Sync EVM_Bridge EVM_Chain Upgrades Wasm_Runtime Wasm_Contract Wasm_Interop
    Staking_Service AI_Market AI_Models AI_Registry Faucet Snap_Sync Stream_A KawPow Genesis_Config
begin

section \<open>The PYRAX node: a verification library\<close>

text \<open>
  This library models the state-keeping core of the PYRAX node (\<open>src/pyrax-node/src\<close>) and proves the
  properties that make it correct; where the code does something else than it means to, the theorem
  states what it does.

  \<^bold>\<open>The program.\<close> A node keeps a chain of blocks in a key-value database, checks blocks and transactions
  before they enter it, holds pending transactions in a pool, hands out rewards and vested tokens from
  fixed pools, and runs a stake registry with validator sets, checkpoints and slashing for its third
  block stream. Beside the chain it has a bridge between its UTXO and its account side, a rollup with
  a sequencer, batches, proofs, published data and a bridge of its own, a light client that follows
  headers, an EVM side chain with its own interpreter, blocks and bridge, WASM contracts with a registry
  and a bridge to the EVM, and a network of compute nodes that run jobs for pay, with a marketplace. A
  service and a synchroniser feed blocks to the chain; a snapshot synchroniser and a pruner handle its state;
  a staking service, a faucet and an upgrade manager run beside it. What surrounds this core (RPC,
  peer-to-peer, mining, the command line) calls it and is not modelled.

  \<^bold>\<open>Theories and the code they model.\<close>
  \<^item> \<open>Rust_Prelude\<close>: what the code uses of Rust (results, saturating and wrapping arithmetic, widening
    multiplication, shifts, iterator sums), proportional splits, and the two interfaces every component
    with a state uses: \<open>machine\<close> (a start state, a step function, an invariant) and \<open>simulation\<close> (a machine
    with an abstraction). \<open>Hash_Map\<close>: \<open>HashMap\<close> as an association list whose order stands for the
    iteration order, and the interface \<open>weighted_store\<close> of a map with a sum over its values, which flat
    maps, database columns and the two-level stake map all implement. \<open>Byte_Encoding\<close>: integers as
    little- and big-endian bytes.
  \<^item> \<open>Chain_Types\<close> (\<open>types/mod.rs\<close>): hashes, addresses, outpoints, outputs, transactions, headers, blocks,
    the merkle root, the target and the proof-of-work check.
  \<^item> \<open>Genesis_Block\<close> (\<open>consensus/streams.rs\<close>, \<open>genesis/mod.rs\<close>): stream constants and the genesis block of
    each network.
  \<^item> \<open>Chain_DB\<close> (\<open>storage/chaindb.rs\<close>, \<open>columns.rs\<close>): the column families as maps, write batches, opening,
    committing, rolling back, queries.
  \<^item> \<open>Validation\<close> (\<open>validation/mod.rs\<close>): every check of a block, a transaction and a pool transaction,
    with the signing hash.
  \<^item> \<open>Mempool\<close> (\<open>mempool/mod.rs\<close>): admission, removal, confirmation, selection by fee rate.
  \<^item> \<open>Emission\<close>, \<open>Vesting\<close>, \<open>Allocation\<close> (\<open>tokenomics/\<close>): mining and prover emission, vesting contracts,
    allocation pools.
  \<^item> \<open>Validators\<close>, \<open>Staking_Registry\<close>, \<open>Checkpoint\<close>, \<open>Slashing\<close> (\<open>consensus/staking/\<close>): validators and
    validator sets, deposits and rewards, checkpoint finality, penalties and downtime.
  \<^item> \<open>Hash_Tree\<close>: the interface \<open>hash_tree\<close> of a binary tree of digests (how a level is padded, how two
    nodes are joined) with the lemma that the path of a leaf climbs to the root; the SPV proofs and the
    withdrawal tree of the rollup are its two instances.
  \<^item> \<open>Bloom_Filter\<close>, \<open>Spv_Proofs\<close>, \<open>Header_Chain\<close>, \<open>Light_Client\<close> (\<open>light_client/\<close>): address filter, Merkle
    proofs, the pruned header store, and the client over the three.
  \<^item> \<open>Fee_Distribution\<close>, \<open>Dual_State\<close>, \<open>Unified_Address\<close>, \<open>Cross_Model\<close> (\<open>bridge/\<close>): fee shares of the
    streams, conversions between the two sides, address texts, cross-model transactions and swaps.
  \<^item> \<open>L2_State\<close>, \<open>L2_Batch\<close>, \<open>L2_Sequencer\<close>, \<open>L2_Bridge\<close> (\<open>zkrollup/\<close>): accounts with their tree, batches
    and their builder, the sequencer over both, deposits and withdrawals. \<open>L2_Availability\<close> (\<open>da.rs\<close>): the
    encoding, compression and commitments of published batches. \<open>L2_Prover\<close> (\<open>prover.rs\<close>, \<open>verifier.rs\<close>):
    proof requests, the bytes of the four kinds of proof, and the checks of the verifier.
  \<^item> \<open>AI_Jobs\<close>, \<open>AI_Nodes\<close>, \<open>AI_Scheduler\<close>, \<open>AI_Verification\<close> (\<open>ai/compute/\<close>): the life of a job and its
    manager, compute nodes and their pool, the choice of job and node, and verification by other nodes.
    \<open>AI_Market\<close> (\<open>ai/compute/marketplace.rs\<close>): listings, orders and the totals of the marketplace.
    \<open>AI_Models\<close> (\<open>ai/compute/model.rs\<close>): the registry of models with its indices. \<open>AI_Registry\<close>
    (\<open>ai/mod.rs\<close>, \<open>ai/registry.rs\<close>, \<open>ai/jobs.rs\<close>): models, providers and jobs of the service behind the RPC.
  \<^item> \<open>Stream_A\<close> (\<open>types/utxo.rs\<close>, \<open>types/stream_a_block.rs\<close>, \<open>consensus/blake3_pow.rs\<close>): the second set of
    transaction and block types, targets and the reference miners. \<open>KawPow\<close> (\<open>consensus/kawpow.rs\<close>, \<open>dag.rs\<close>): the
    hash of the second stream, its caches and the manager that keeps them on disk. \<open>Genesis_Config\<close>
    (\<open>mainnet/genesis_config.rs\<close>): the genesis of the main and the test network.
  \<^item> \<open>Chain_Service\<close> (\<open>services/chain.rs\<close>): the cached tip, block templates, mined blocks and rollback over
    database, validator and pool. \<open>Chain_Sync\<close> (\<open>sync/mod.rs\<close>): peers, the header queue, downloads, ordered
    commits, reorganisation and fork choice.
  \<^item> \<open>EVM_Types\<close>, \<open>EVM_State\<close>, \<open>EVM_Interpreter\<close>, \<open>EVM_Precompiles\<close>, \<open>EVM_Executor\<close>, \<open>EVM_Chain\<close>, \<open>EVM_Bridge\<close>
    (\<open>evm/\<close>): 256-bit integers by limbs, accounts with pending changes and their root, every opcode and the
    loop, the precompiled contracts (BLAKE2b included), the four kinds of transaction with their fees, block
    production with receipts and base fee, and the bridge of that layer.
  \<^item> \<open>Wasm_Gas\<close>, \<open>Wasm_Storage\<close>, \<open>Wasm_Host\<close>, \<open>Wasm_Runtime\<close>, \<open>Wasm_Contract\<close>, \<open>Wasm_Interop\<close> (\<open>wasm/\<close>): the gas
    meter, the store of code and state, the context of a call with its pending writes, deployment and calls
    with the twelve host functions, the registry of contracts, and calls across the two machines.
  \<^item> \<open>Staking_Service\<close>, \<open>Faucet\<close> (\<open>services/\<close>), \<open>Upgrades\<close> (\<open>mainnet/upgrade.rs\<close>), \<open>Snap_Sync\<close>
    (\<open>sync/snap_sync.rs\<close>, \<open>storage/pruning.rs\<close>): the service that registers validators and finalizes
    checkpoints with proofs, the rate-limited faucet, votes on protocol upgrades, the queue of state chunks,
    and what a pruner may delete.

  \<^bold>\<open>How state and operations correspond.\<close> A struct is a record with the fields of the source, an enum a
  datatype, a fallible function returns \<open>Err\<close> or \<open>Ok\<close> with the new state, integers are words of their
  width. Arithmetic wraps, as in the release profile of the workspace, which sets no overflow checks;
  \<open>as\<close> casts truncate; a division that could panic is an option. Fields behind \<open>RwLock\<close> are one record and
  an operation is one step. The system clock is an argument, so theorems hold for clocks that jump.
  Code that is not part of the repository (BLAKE3, SHA-256, RIPEMD-160, Keccak, ECDSA, bincode, JSON)
  is the record \<open>ext\<close> of functions, an argument of the definitions that use it; \<open>separates\<close> is the
  assumption that a digest distinguishes the finitely many strings actually hashed. RocksDB columns are
  maps and a write batch is applied whole. Sample instances of \<open>ext\<close> show the assumptions can hold.
  Whether a \<open>parking_lot\<close> write lock returns while its own thread reads is the argument \<open>write_returns\<close> of
  the two operations that do so; the \<open>hex\<close> codec is an argument of the address parser, \<open>to_lowercase\<close> one
  of the market's search. Keccak-512 and the order in which a heap is
  visited are arguments; so is what the file system does to a write. Wasmtime is the argument \<open>wasm_engine\<close>: which codes compile, what a module exports,
  and what a function does, as a finite tree of host calls with their results, so every run a terminating
  guest can have is covered. The places that
  go through floating point are treated apart: the padded size \<open>2^ceil(log2 n)\<close> is \<open>ceillog2\<close>, exact for
  every n a list can have here, the size of a bloom filter, the success percentage of a compute node and
  the scaling of a gas estimate and the approval percentage of an upgrade are arguments, and the two averages of a verification verdict are rationals. Which of several greatest
  entries a \<open>BinaryHeap\<close> returns is fixed as the first.

  \<^bold>\<open>What the lemmas show.\<close>
  \<^item> Chain: an accepted block spends each output once, with a verified signature, and adds at most the
    block reward to the unspent value; so the supply after n blocks is at most n rewards (while sums
    fit 64 bits: a companion theorem shows the wrap). Committing refines the abstract ledger, the stored
    chain stays linked through commits and rollbacks, a rollback lands on its target; it also loses the
    outputs that the undone blocks had spent. A block of height zero resets the chain.
  \<^item> Encodings: header hash, merkle root and signing hash bind what they cover; proof of work is the
    numeric target test; the outpoint key round-trips.
  \<^item> Pool: no double spends, limits and totals, exact confirmation, the best-paying transactions first.
  \<^item> Tokenomics: emission and pools are capped in every reachable state, claims pay exactly what is
    vested; halving starts over after 64 periods, revoking strands vested tokens.
  \<^item> Staking: election, proportional proposer selection, quorum intersection; voting power is backed by
    stake records and rewards are conserved over every run; finalized checkpoints are stable (only creating
    the genesis checkpoint again overwrites one, at height zero), evidence
    slashes exactly and once, downtime is detected. Unstaking pays nothing back, one validator can
    finalize alone, finality can move backwards, a tombstone can be undone.
  \<^item> Light client: no false negatives, proofs made verify and proofs accepted prove membership in what the
    stored header commits to, lookups of the pruned store are exact, the locator loop ends. Nothing ties the
    hash of a header to its root, so a proof against a forged header is accepted.
  \<^item> Bridge: locked value covers what was minted in every run whose locked amounts fit 64 bits and whose unlocks
    are covered (an unlock that is not covered leaves it insolvent), conversions are handed out confirmed and
    once, swaps are atomic, fees are never paid twice, address texts round-trip. Unlocking deadlocks.
  \<^item> Rollup: the root commits to the accounts, batches are linked and replaying one gives its post-state,
    rollup balances are backed by deposits (while these fit and nobody transfers to himself), withdrawals wait for their challenge period and, if nobody
    challenges, complete. Published batches stay recoverable, proofs made are accepted. A transfer to
    oneself mints, a forced transaction can be dropped, the verifier accepts any bytes of the right size.
  \<^item> Compute: jobs follow their state machine within price and retry limits, nodes stay within capacity,
    an allocation is the best choice, a verdict has its quorum. The last result of a request deadlocks,
    a job that no node can take is lost.
  \<^item> Service and synchronisation: the cached tip is the database's unless a block of height zero reset the
    chain and a rollback aimed above the tip, a mined template extends the chain, a
    block that arrives is committed alone or refused. Templates of the second
    stream are always rejected, a conflicting pool transaction stalls mining, a forged header erases the
    chain, a block that comes before its parent is lost.
  \<^item> EVM: limb arithmetic is exact (the general product is not), the root depends on the accounts only,
    snapshots undo, every run ends, keeps its machine well-formed and changes only the contract's storage,
    the money of a transaction is accounted exactly, transactions are not replayed, blocks report what was
    executed and are linked, the base fee moves by at most an eighth while a block stays within twice its target
    and the fee above its minimum. Failed calls keep their value, the gas limit
    can be overrun, \<open>modexp\<close> returns nothing, a point off the curve panics, withdrawals are not backed.
  \<^item> WASM: the meter counts exactly while sums fit, committing a context refines a map update, a deployed
    contract is callable, gas stays within its limit, instances are available and only an administrator
    changes code, encoded calls decode. No call persists its writes, a wrapped pointer panics the node, and
    arguments to the EVM are cut to one word.
  \<^item> Services: the active set has the greatest stakes, rewards are accounted, an attested checkpoint stays
    final; one proof pays any number of times and a full service hangs. The faucet conserves its funds and
    keeps the cooldown. Tallies of an upgrade are the power of its voters; no upgrade is ever activated.
    The volume of the market is the revenue of its listings; orders need no payment to complete. No chunk of a snapshot is lost,
    healing starts with all of them if answers carry numbers of the snapshot, pruning keeps the configured
    blocks.
  \<^item> Proof of work and genesis: a mined header verifies, the miner finds the first solution, difficulties survive
    their targets, the two header types and the two signing hashes agree; a cache that is ready is the generated
    one whatever writes failed; the genesis balances are the whole supply. The shipped genesis fails its own
    validation, its hash does not separate accounts from validators, a damaged cache header panics.
  \<^item> AI service: lookups by type and tag are exact, jobs move only by those entitled and within price, payments
    add up, pending work is found. The queue prefers the cheapest job, anyone can fail a paid one.
  The theorem of this theory joins registry, election and quorum: every set the registry elects has
  intersecting quorums.

  \<^bold>\<open>Bounds.\<close> No definition needs fuel: loops are structural, bounded by the data or have a measure; the
  locator loop, whose step wraps, and the loop of the EVM interpreter are partial functions that are proved
  to return (the latter for gas limits at least 5000 below 2^64). The hypotheses that
  sums stay below 2^64 (or 2^63 for the quorum, which doubles the power) are stated where used; the
  token supply of 10^19 base units exceeds 2^63, so they are not automatic. \<open>fair_run\<close> also excludes
  self-delegation, which the registry accounts inconsistently; only the theorem that voting power is backed
  by stake records needs it.

  \<^bold>\<open>Not modelled.\<close> Input/output, networking, concurrency between services, GPU mining, WebAssembly itself, JSON-RPC
  servers, user interfaces and scripts; floating-point statistics; modules that the crate does not compile.
\<close>

section \<open>Quorums of elected sets\<close>

lemma elected_set_sound:
  assumes "sum_list (map staked_in ops) < 2 ^ 63" and "s = run reg_step (StakingRegistry_new now config) ops"
  shows "wf_set (reg_validator_set s) \<and> unat (set_total_voting_power (reg_validator_set s)) < 2 ^ 63"
  using reg_run_within [OF stake_within_new, of ops now config] assms by (simp add: stake_within_def)

text \<open>
  C6. Whatever happened to the registry, self-delegation included, while the stake ever brought in is
  below 2^63, any two vote maps that reach the quorum of the current validator set, each voter
  with its own power, share voters with more than a third of the set's power.
\<close>

theorem epoch_quorums_intersect:
  assumes "sum_list (map staked_in ops) < 2 ^ 63"
    and "s = reg_validator_set (run reg_step (StakingRegistry_new now config) ops)"
    and "honest_votes s votes" and "has_quorum s votes"
    and "honest_votes s votes'" and "has_quorum s votes'"
  shows "unat (set_total_voting_power s) < 3 * sum (power_of s) (voters votes \<inter> voters votes')"
  using elected_set_sound [OF assms(1) refl, of now config] assms(2-)
  by (intro quorum_overlap) simp_all

definition epoch_ops :: "reg_op list" where
  "epoch_ops = [RRegister 0 example_a example_a [] MIN_VALIDATOR_STAKE 500 [], RActivate example_a, RAdvanceEpoch 10]"

lemma epoch_set_eq:
  "reg_validator_set (run reg_step (StakingRegistry_new 0 StakingConfig_default) epoch_ops) =
     \<lparr>set_epoch = 1, set_epoch_start = 10, set_validators = [example_a],
      set_voting_power = [(example_a, MIN_VALIDATOR_STAKE)], set_total_voting_power = MIN_VALIDATOR_STAKE,
      set_proposer_index = 0, set_selection = WeightedRandom\<rparr>"
  by (simp add: epoch_ops_def registry_eval advance_epoch_def get_active_validators_def hm_values_def hm_insert_def
      from_validators_def ranked_def MAX_ACTIVE_VALIDATORS_def ValidatorSet_new_def set_add_def voting_power_def
      total_stake_def saturating_add_def hm_get_def Let_def)

theorem epoch_quorums_intersect_witness:
  "unat MIN_VALIDATOR_STAKE < 3 * sum (power_of (reg_validator_set (run reg_step
      (StakingRegistry_new 0 StakingConfig_default) epoch_ops))) (voters [(example_a, MIN_VALIDATOR_STAKE)])"
proof -
  let ?s = "reg_validator_set (run reg_step (StakingRegistry_new 0 StakingConfig_default) epoch_ops)"
  have "sum_list (map staked_in epoch_ops) < 2 ^ 63"
    by (simp add: epoch_ops_def MIN_VALIDATOR_STAKE_def)
  moreover have "honest_votes ?s [(example_a, MIN_VALIDATOR_STAKE)]" "has_quorum ?s [(example_a, MIN_VALIDATOR_STAKE)]"
    by (simp_all add: epoch_set_eq honest_votes_def hm_wf_def get_voting_power_def hm_get_def has_quorum_def
        quorum_def hm_values_def MIN_VALIDATOR_STAKE_def)
  ultimately have "unat (set_total_voting_power ?s)
      < 3 * sum (power_of ?s) (voters [(example_a, MIN_VALIDATOR_STAKE)] \<inter> voters [(example_a, MIN_VALIDATOR_STAKE)])"
    by (intro epoch_quorums_intersect [OF _ refl])
  then show ?thesis by (simp add: epoch_set_eq)
qed

end
